(* ===== verification/Prelude.thy ===== *)
theory Prelude
  imports Main "HOL-Library.Word"
begin

text \<open>
  Shared vocabulary of the development: the machine integer types of the C++ sources, the fact
  collections the component theories extend, and the generic lemmas on words, bits and
  finite linear orders that their proofs rest on. Nothing here models a particular file.

  Machine integers are kept at their width (\<open>uint8_t\<close> is \<open>u8\<close>, and so on), so \<open>+\<close>, \<open>-\<close> and
  \<open>*\<close> wrap as they do in the sources; \<^term>\<open>unat\<close> reads the value of a word. Fixed-size arrays that
  live in zero-filled anonymous mappings are total functions of their index type.
\<close>

unbundle bit_operations_syntax

type_synonym u8 = "8 word"
type_synonym u16 = "16 word"
type_synonym u32 = "32 word"
type_synonym u64 = "64 word"

text \<open>\<open>std::numeric_limits<T>::max()\<close>.\<close>

abbreviation u16_max :: u16 where "u16_max \<equiv> 0xFFFF"
abbreviation u32_max :: u32 where "u32_max \<equiv> 0xFFFFFFFF"
abbreviation u64_max :: u64 where "u64_max \<equiv> 0xFFFFFFFFFFFFFFFF"

named_theorems word_nat \<open>translations of word operations to natural numbers\<close>
named_theorems bit_access \<open>single-bit characterisations of the mask and scan helpers\<close>

subsection \<open>Words as numbers\<close>

lemmas word_order_nat = word_le_nat_alt word_less_nat_alt

lemma unat_and_mask: "unat (x AND mask n :: 'a::len word) = unat x mod 2 ^ n"
  by (simp only: take_bit_eq_mask [symmetric] unsigned_take_bit_eq) (simp add: take_bit_eq_mod)

lemma unat_shr: "unat (drop_bit n x :: 'a::len word) = unat x div 2 ^ n"
  by (simp only: unat_drop_bit_eq) (simp add: drop_bit_eq_div)

lemma unat_and_63 [word_nat]: "unat (x AND 63 :: u32) = unat x mod 64"
  using unat_and_mask [of x 6] by (simp add: mask_eq_exp_minus_1)

lemma unat_drop_bit_6 [word_nat]: "unat (drop_bit 6 x :: u32) = unat x div 64"
  using unat_shr [of 6 x] by simp

lemma bit_bounded:
  assumes "unat (b :: 'a::len word) < 2 ^ k" and "bit b n"
  shows "n < k"
proof (rule ccontr)
  assume "\<not> n < k"
  moreover have "bit (unat b) n"
    using assms(2) by (simp add: bit_unsigned_iff)
  ultimately show False
    using assms(1) by (metis bit_take_bit_iff linorder_not_less take_bit_nat_eq_self)
qed

text \<open>A shifted word joined with a word of the freed low bits, as in \<open>(hi << k) | lo\<close>.\<close>

lemma unat_shl_or:
  assumes "unat w * 2 ^ k < 2 ^ LENGTH('a)" and "unat b < 2 ^ k"
  shows "unat (push_bit k w OR b :: 'a::len word) = unat w * 2 ^ k + unat b"
proof -
  have "unat (push_bit k w OR b) = unat (push_bit k w) OR unat b"
    by (simp add: unsigned_or_eq)
  also have "unat (push_bit k w) = push_bit k (unat w)"
    using assms(1)
    by (simp only: unsigned_push_bit_eq) (simp add: push_bit_eq_mult take_bit_eq_mod ac_simps)
  also have "push_bit k (unat w) OR unat b = push_bit k (unat w) + unat b"
  proof (rule disjunctive_add_eq_or [symmetric])
    show "push_bit k (unat w) AND unat b = 0"
      using assms(2) by (intro bit_eqI) (auto simp: bit_simps dest: bit_bounded)
  qed
  finally show ?thesis by (simp add: push_bit_eq_mult)
qed

lemma unat_shl6_or [word_nat]:
  "unat w < 2 ^ 26 \<Longrightarrow> unat b < 64 \<Longrightarrow> unat (push_bit 6 w OR b :: u32) = 64 * unat w + unat b"
  using unat_shl_or [of w 6 b] by simp

text \<open>A non-zero word has a set bit below its length, and only such.\<close>

lemma word_nonzero_iff_bit: "(w :: 'a::len word) \<noteq> 0 \<longleftrightarrow> (\<exists>n. bit w n)"
  by (auto simp: bit_eq_iff dest: bit_imp_le_length)

lemma bit_u64_less: "bit (w :: u64) n \<Longrightarrow> n < 64"
  using bit_imp_le_length [of w n] by simp

text \<open>Shifts are read through \<^term>\<open>unat\<close>, so they stay outside disjunctions.\<close>

declare drop_bit_or [simp del]

subsection \<open>16-bit indices widened to 32 bits\<close>

lemma u16_less: "unat (i :: u16) < 65536"
  using unsigned_less [of i, where 'a=nat] by simp

lemma unat_ucast_u16 [simp]: "unat (ucast (i :: u16) :: u32) = unat i"
  by (simp add: unsigned_ucast_eq take_bit_nat_eq_self order_less_trans [OF u16_less])

lemma ucast_u16_inject [simp]: "(ucast (i :: u16) :: u32) = ucast j \<longleftrightarrow> i = j"
  by (metis unat_ucast_u16 word_unat_eq_iff)

lemma u32_as_u16: "unat (j :: u32) < 65536 \<Longrightarrow> \<exists>i::u16. j = ucast i"
  by (rule exI [of _ "ucast j"]) (simp add: word_unat_eq_iff unsigned_ucast_eq unsigned_take_bit_eq take_bit_nat_eq_self)

lemma Max_u16I:
  assumes "m \<in> (A :: u16 set)" "\<And>j. j \<in> A \<Longrightarrow> j \<le> m" shows "Max A = m"
  using assms by (intro Max_eqI) (auto intro: finite)

section \<open>Checked arithmetic\<close>

lemma unat_ucast_u32_64 [simp]: "unat (ucast (i :: u32) :: u64) = unat i"
  using unsigned_less [of i, where 'a=nat] by (simp add: unsigned_ucast_eq take_bit_nat_eq_self)

lemma ucast_u32_u64_eq_0 [simp]: "(ucast (i :: u32) :: u64) = 0 \<longleftrightarrow> i = 0"
  by (metis unat_eq_0 unat_ucast_u32_64)

lemma ucast_u32_u64_inject [simp]: "(ucast (i :: u32) :: u64) = ucast j \<longleftrightarrow> i = j"
  by (metis unat_ucast_u32_64 word_unat_eq_iff)

lemma unat_u64_max_minus: "unat (u64_max - y) = unat (u64_max :: u64) - unat (y :: u64)"
proof -
  have "y \<le> u64_max" using unsigned_less [of y, where 'a=nat] by (simp add: word_le_nat_alt)
  then show ?thesis by (rule unat_sub)
qed

lemma unat_add_checked: "x \<le> u64_max - y \<Longrightarrow> unat (x + y) = unat x + unat (y :: u64)"
  using unsigned_less [of y, where 'a=nat] 
  by (simp add: word_le_nat_alt unat_u64_max_minus unat_word_ariths)

lemma unat_inc_checked: "x \<noteq> u32_max \<Longrightarrow> unat (x + 1) = Suc (unat (x :: u32))"
  using unsigned_less [of x, where 'a=nat] by (simp add: word_unat_eq_iff [of x] unat_word_ariths)

lemma unat_dec_checked: "x \<noteq> 0 \<Longrightarrow> unat (x - 1) = unat (x :: u32) - 1"
  by (simp add: unat_minus_one)

lemma card_word_less: "card {x. x < n} = unat n" for n :: "'a::len word"
proof -
  have "unat ` {x. x < n} = {..<unat n}"
  proof (intro set_eqI iffI)
    fix k assume k: "k \<in> {..<unat n}"
    then have "k < 2 ^ LENGTH('a)" using unsigned_less [of n] by (simp add: less_trans)
    then have "k = unat (of_nat k :: 'a word)" by (simp add: unat_of_nat)
    then show "k \<in> unat ` {x. x < n}" using k by (intro image_eqI [of _ _ "of_nat k"]) (simp_all add: word_less_nat_alt)
  qed (auto simp: word_less_nat_alt)
  then show ?thesis using card_image [of unat "{x. x < n}"] by (simp add: inj_on_def word_unat_eq_iff)
qed

section \<open>Options\<close>

lemma option_ext: "(\<And>m. x = Some m \<longleftrightarrow> y = Some m) \<Longrightarrow> x = y"
  by (metis not_Some_eq)

lemma option_filter_eq:
  assumes "\<And>m. x = Some m \<longleftrightarrow> y = Some m \<and> Q"
  shows "x = (if Q then y else None)"
  using assms [of "the x"] assms [of "the y"] by (cases x; cases y) simp_all

end
