(* ===== verification/BookTypes.thy ===== *)
theory BookTypes
  imports Prelude
begin

text \<open>
  The vocabulary the book components share: \<open>MutationResult.hpp\<close>, \<open>OrderSide.hpp\<close>,
  \<open>OrderState.hpp\<close>, \<open>StockLocate.hpp\<close> and \<open>ItchPrice.hpp\<close>.

  \<open>OrderSide\<close> is a scoped enumeration over \<open>uint8_t\<close> with the enumerators 1 and 2; the code also
  uses \<open>static_cast<OrderSide>(0)\<close> as the marker of an undecodable side, which is the constructor
  \<open>NoSide\<close>. Padding members that no code reads (\<open>reserved\<close>, \<open>padding\<close>) are left out of the records.
\<close>

datatype MutationResult =
    Applied
  | InvalidLocate
  | BookNotPrepared
  | InvalidSide
  | InvalidQuantity
  | PriceOutOfRange
  | OrderNotFound
  | DuplicateOrderRef
  | LocateMismatch
  | QuantityExceeded
  | PricePageCapacityExceeded
  | OrderTableCapacityExceeded
  | QuantityOverflow
  | QuantityUnderflow
  | OrderCountOverflow
  | InvalidPricePage
  | MissingPriceLevel
  | StaleReservation
  | InvariantViolation
  | BookInvalid

datatype LookupPath = NoPath | Direct | FallbackPrimary | FallbackSecondary | Miss

fun mutationResultName :: "MutationResult \<Rightarrow> string" where
  "mutationResultName Applied = ''applied''"
| "mutationResultName InvalidLocate = ''invalid locate''"
| "mutationResultName BookNotPrepared = ''book not prepared''"
| "mutationResultName InvalidSide = ''invalid side''"
| "mutationResultName InvalidQuantity = ''invalid quantity''"
| "mutationResultName PriceOutOfRange = ''price out of range''"
| "mutationResultName OrderNotFound = ''order not found''"
| "mutationResultName DuplicateOrderRef = ''duplicate order reference''"
| "mutationResultName LocateMismatch = ''stock locate mismatch''"
| "mutationResultName QuantityExceeded = ''quantity exceeds remaining order''"
| "mutationResultName PricePageCapacityExceeded = ''price page capacity exceeded''"
| "mutationResultName OrderTableCapacityExceeded = ''order table capacity exceeded''"
| "mutationResultName QuantityOverflow = ''quantity overflow''"
| "mutationResultName QuantityUnderflow = ''quantity underflow''"
| "mutationResultName OrderCountOverflow = ''order count overflow''"
| "mutationResultName InvalidPricePage = ''invalid price page''"
| "mutationResultName MissingPriceLevel = ''missing price level''"
| "mutationResultName StaleReservation = ''stale reservation''"
| "mutationResultName InvariantViolation = ''book invariant violation''"
| "mutationResultName BookInvalid = ''book state is invalid''"

datatype OrderSide = Buy | Sell | NoSide

text \<open>The value of a side in its underlying type.\<close>

fun sideByte :: "OrderSide \<Rightarrow> u8" where
  "sideByte NoSide = 0"
| "sideByte Buy = 1"
| "sideByte Sell = 2"

definition kInvalidStockLocate :: u16 where "kInvalidStockLocate = 0"

definition isValidStockLocate :: "u16 \<Rightarrow> bool" where
  "isValidStockLocate locate = (locate \<noteq> kInvalidStockLocate)"

definition kMaxItchPrice4 :: u32 where "kMaxItchPrice4 = 2000000000"

definition isValidItchPrice4 :: "u64 \<Rightarrow> bool" where
  "isValidItchPrice4 raw_price = (raw_price \<le> ucast kMaxItchPrice4)"

section \<open>Order states\<close>

definition kOrderStateActive :: u8 where "kOrderStateActive = push_bit 0 1"
definition kOrderStateSeen :: u8 where "kOrderStateSeen = push_bit 1 1"

record OrderState =
  os_qty :: u32
  os_price_page_handle :: u32
  os_price_level_index :: u16
  os_locate :: u16
  os_side :: u8
  os_flags :: u8
  os_price_page_index :: u16

definition isActive :: "OrderState \<Rightarrow> bool" where
  "isActive state = (os_flags state AND kOrderStateActive \<noteq> 0)"

definition wasSeen :: "OrderState \<Rightarrow> bool" where
  "wasSeen state = (os_flags state AND kOrderStateSeen \<noteq> 0)"

text \<open>The value-initialised record \<open>OrderState{}\<close>, also the content of a fresh mapping.\<close>

definition zeroOrderState :: OrderState where
  "zeroOrderState = \<lparr>os_qty = 0, os_price_page_handle = 0, os_price_level_index = 0, os_locate = 0,
     os_side = 0, os_flags = 0, os_price_page_index = 0\<rparr>"

end
