(* ===== verification/GapBuffer.thy ===== *)
theory GapBuffer
  imports BookTypes
begin

text \<open>
  Model of \<open>GapBuffer.hpp\<close> and \<open>SequencedPacket.hpp\<close>: the open-addressing buffer of packets received ahead
  of the expected sequence number, with linear probing and backward-shift deletion.

  The slot array is a function of the slot index. Of the packet's 2048-byte array only the first
  \<open>len\<close> bytes are written and read, and \<open>pkt_data\<close> is that list. A null data pointer is \<open>None\<close>; the buffer a
  caller passes has at least \<open>len\<close> bytes. The loops carry the number of iterations left.
\<close>

section \<open>Data\<close>

record SequencedPacket =
  pkt_seq :: u64
  pkt_receive_start_ticks :: u64
  pkt_msg_count :: u16
  pkt_len :: u16
  pkt_data :: "u8 list"

definition kMaxPacketSize :: nat where "kMaxPacketSize = 2048"

definition zeroPacket :: SequencedPacket where
  "zeroPacket = \<lparr>pkt_seq = 0, pkt_receive_start_ticks = 0, pkt_msg_count = 0, pkt_len = 0, pkt_data = []\<rparr>"

record GapSlot =
  gs_occupied :: bool
  gs_packet :: SequencedPacket

definition zeroSlot :: GapSlot where "zeroSlot = \<lparr>gs_occupied = False, gs_packet = zeroPacket\<rparr>"

record GapBuffer =
  gb_slots :: "u32 \<Rightarrow> GapSlot"
  gb_size :: u32

definition newGapBuffer :: GapBuffer where
  "newGapBuffer = \<lparr>gb_slots = (\<lambda>_. zeroSlot), gb_size = 0\<rparr>"

datatype InsertResult = Inserted | DuplicateIdentical | ConflictingDuplicate | InvalidPacket | CapacityExceeded

definition kCapacity :: u32 where "kCapacity = 1024 * 1024"
definition kMask :: u32 where "kMask = kCapacity - 1"

section \<open>Probing\<close>

definition gb_hash :: "u64 \<Rightarrow> u64" where
  "gb_hash value0 =
     (let v1 = value0 XOR drop_bit 33 value0;
          v2 = v1 * 0xff51afd7ed558ccd;
          v3 = v2 XOR drop_bit 33 v2;
          v4 = v3 * 0xc4ceb9fe1a85ec53
      in v4 XOR drop_bit 33 v4)"

definition slotFor :: "u64 \<Rightarrow> u32" where "slotFor seq = ucast (gb_hash seq AND ucast kMask)"

definition gb_next :: "u32 \<Rightarrow> u32" where "gb_next slot = (slot + 1) AND kMask"

definition probeDistance :: "u32 \<Rightarrow> u32 \<Rightarrow> u32" where
  "probeDistance natural slot = (slot - natural) AND kMask"

section \<open>Operations\<close>

fun insert_loop :: "nat \<Rightarrow> u32 \<Rightarrow> GapBuffer \<Rightarrow> SequencedPacket \<Rightarrow> u32 \<Rightarrow> InsertResult \<times> GapBuffer" where
  "insert_loop 0 start g p probes = (CapacityExceeded, g)"
| "insert_loop (Suc n) start g p probes =
     (let i = (start + probes) AND kMask;
          slot = gb_slots g i
      in if gs_occupied slot \<and> pkt_seq (gs_packet slot) = pkt_seq p then
           (if pkt_len (gs_packet slot) \<noteq> pkt_len p \<or> pkt_msg_count (gs_packet slot) \<noteq> pkt_msg_count p \<or>
               pkt_data (gs_packet slot) \<noteq> pkt_data p
            then (ConflictingDuplicate, g) else (DuplicateIdentical, g))
         else if \<not> gs_occupied slot then
           (Inserted, g\<lparr>gb_slots := (gb_slots g)(i := \<lparr>gs_occupied = True, gs_packet = p\<rparr>), gb_size := gb_size g + 1\<rparr>)
         else insert_loop n start g p (probes + 1))"

definition gb_insert ::
    "GapBuffer \<Rightarrow> u8 list option \<Rightarrow> u16 \<Rightarrow> u64 \<Rightarrow> u16 \<Rightarrow> u64 \<Rightarrow> InsertResult \<times> GapBuffer" where
  "gb_insert g data len seq msg_count receive_start_ticks =
     (case data of None \<Rightarrow> (InvalidPacket, g)
      | Some bytes \<Rightarrow>
          if unat len > kMaxPacketSize then (InvalidPacket, g)
          else insert_loop (unat kCapacity) (slotFor seq) g
            \<lparr>pkt_seq = seq, pkt_receive_start_ticks = receive_start_ticks, pkt_msg_count = msg_count,
             pkt_len = len, pkt_data = take (unat len) bytes\<rparr> 0)"

fun gb_find_loop :: "nat \<Rightarrow> u32 \<Rightarrow> GapBuffer \<Rightarrow> u64 \<Rightarrow> u32 \<Rightarrow> u32 option" where
  "gb_find_loop 0 start g seq probes = None"
| "gb_find_loop (Suc n) start g seq probes =
     (let i = (start + probes) AND kMask;
          slot = gb_slots g i
      in if \<not> gs_occupied slot then None
         else if pkt_seq (gs_packet slot) = seq then Some i
         else gb_find_loop n start g seq (probes + 1))"

definition gb_find :: "GapBuffer \<Rightarrow> u64 \<Rightarrow> SequencedPacket option" where
  "gb_find g seq =
     map_option (\<lambda>i. gs_packet (gb_slots g i)) (gb_find_loop (unat kCapacity) (slotFor seq) g seq 0)"

text \<open>The backward shift. The hole is at \<open>gap\<close>; an entry whose probe path crosses the hole moves into it.
  The loop returns the slots and the last hole.\<close>

fun shift_loop :: "nat \<Rightarrow> (u32 \<Rightarrow> GapSlot) \<Rightarrow> u32 \<Rightarrow> u32 \<Rightarrow> (u32 \<Rightarrow> GapSlot) \<times> u32" where
  "shift_loop 0 slots gap slot = (slots, gap)"
| "shift_loop (Suc n) slots gap slot =
     (let entry = slots slot
      in if \<not> gs_occupied entry then (slots, gap)
         else
           let natural = slotFor (pkt_seq (gs_packet entry))
           in if probeDistance natural gap < probeDistance natural slot
              then shift_loop n (slots(gap := entry)) slot (gb_next slot)
              else shift_loop n slots gap (gb_next slot))"

definition eraseAt :: "GapBuffer \<Rightarrow> u32 \<Rightarrow> GapBuffer" where
  "eraseAt g erase_slot =
     (let (slots, gap) = shift_loop (unat kCapacity - 1) (gb_slots g) erase_slot (gb_next erase_slot)
      in g\<lparr>gb_slots := slots(gap := zeroSlot), gb_size := gb_size g - 1\<rparr>)"

text \<open>The probe loop of \<open>erase\<close> is that of \<open>find\<close>.\<close>

definition gb_erase :: "GapBuffer \<Rightarrow> u64 \<Rightarrow> GapBuffer" where
  "gb_erase g seq =
     (case gb_find_loop (unat kCapacity) (slotFor seq) g seq 0 of None \<Rightarrow> g | Some i \<Rightarrow> eraseAt g i)"

definition gb_clear :: "GapBuffer \<Rightarrow> GapBuffer" where
  "gb_clear g = g\<lparr>gb_slots := (\<lambda>i. if i < kCapacity then zeroSlot else gb_slots g i), gb_size := 0\<rparr>"

definition gb_empty :: "GapBuffer \<Rightarrow> bool" where "gb_empty g = (gb_size g = 0)"

section \<open>Statistics\<close>

record GapStats =
  st_size :: u32
  st_min_seq :: u64
  st_max_seq :: u64
  st_next_seq_at_or_after :: u64

definition stat_step :: "GapBuffer \<Rightarrow> u64 \<Rightarrow> u32 \<Rightarrow> u64 \<times> u64 \<times> u64 \<Rightarrow> u64 \<times> u64 \<times> u64" where
  "stat_step g expected_seq i = (\<lambda>(min_seq, max_seq, next_seq).
     let slot = gb_slots g i
     in if \<not> gs_occupied slot then (min_seq, max_seq, next_seq)
        else let seq = pkt_seq (gs_packet slot)
             in (if seq < min_seq then seq else min_seq,
                 if seq > max_seq then seq else max_seq,
                 if seq \<ge> expected_seq \<and> seq < next_seq then seq else next_seq))"

definition gb_stats :: "GapBuffer \<Rightarrow> u64 \<Rightarrow> GapStats" where
  "gb_stats g expected_seq =
     (if gb_size g = 0 then \<lparr>st_size = 0, st_min_seq = 0, st_max_seq = 0, st_next_seq_at_or_after = 0\<rparr>
      else
        let (min_seq, max_seq, next_seq) =
              fold (stat_step g expected_seq) (map of_nat [0..<unat kCapacity]) (u64_max, 0, u64_max)
        in \<lparr>st_size = gb_size g, st_min_seq = min_seq, st_max_seq = max_seq,
            st_next_seq_at_or_after = (if next_seq \<noteq> u64_max then next_seq else 0)\<rparr>)"

end
