(* ===== verification/PriceBitmap.thy ===== *)
theory PriceBitmap
  imports Prelude
begin

text \<open>
  Model of \<open>include/astra/utils/PriceBitmap.hpp\<close>: a three-level bitmap over 65,536 positions
  whose predecessor and successor searches visit a bounded number of words. Level 0 holds one bit
  per position, level 1 one bit per level-0 word and level 2 one bit per level-1 word.

  The arrays are functions of the 32-bit index the sources compute. The searches are templates over
  an observer that is told of every word load; the model is polymorphic in the observer's state in
  the same way, so the production search (a no-op observer) and the counting search of the tests are
  two instances of one definition.
\<close>

section \<open>Storage and primitive operations\<close>

record PriceBitmapStorage =
  l0 :: "u32 \<Rightarrow> u64"
  l1 :: "u32 \<Rightarrow> u64"
  l2 :: u64

text \<open>All-zero storage, the state of a fresh anonymous mapping.\<close>

definition zeroStorage :: PriceBitmapStorage where
  "zeroStorage = \<lparr>l0 = (\<lambda>_. 0), l1 = (\<lambda>_. 0), l2 = 0\<rparr>"

definition kNumBits :: u32 where "kNumBits = 65536"
definition kInvalid :: u32 where "kInvalid = u32_max"
definition kValidL2Mask :: u64 where "kValidL2Mask = drop_bit (64 - 16) (NOT 0)"

text \<open>\<open>std::countl_zero\<close> and \<open>std::countr_zero\<close> on 64-bit values: the zero bits above the highest
  and below the lowest set bit, 64 for the value zero.\<close>

primrec clz_below :: "nat \<Rightarrow> u64 \<Rightarrow> nat" where
  "clz_below 0 v = 0"
| "clz_below (Suc n) v = (if bit v n then 0 else Suc (clz_below n v))"

primrec ctz_from :: "nat \<Rightarrow> u64 \<Rightarrow> nat" where
  "ctz_from 0 v = 0"
| "ctz_from (Suc n) v = (if bit v (63 - n) then 0 else Suc (ctz_from n v))"

definition countl_zero :: "u64 \<Rightarrow> u32" where "countl_zero v = of_nat (clz_below 64 v)"
definition countr_zero :: "u64 \<Rightarrow> u32" where "countr_zero v = of_nat (ctz_from 64 v)"

definition bitHigh :: "u64 \<Rightarrow> u32" where "bitHigh v = 63 - countl_zero v"
definition bitLow :: "u64 \<Rightarrow> u32" where "bitLow v = countr_zero v"

definition maskAtOrBelow :: "u32 \<Rightarrow> u64" where
  "maskAtOrBelow b = drop_bit (unat (63 - b)) (NOT 0)"

definition maskBelow :: "u32 \<Rightarrow> u64" where
  "maskBelow b = (if b = 0 then 0 else drop_bit (unat (64 - b)) (NOT 0))"

definition maskAtOrAbove :: "u32 \<Rightarrow> u64" where
  "maskAtOrAbove b = push_bit (unat b) (NOT 0)"

definition maskAbove :: "u32 \<Rightarrow> u64" where
  "maskAbove b = (if b = 63 then 0 else push_bit (unat (b + 1)) (NOT 0))"

definition bm_set :: "PriceBitmapStorage \<Rightarrow> u32 \<Rightarrow> PriceBitmapStorage" where
  "bm_set s idx =
     (let w0 = drop_bit 6 idx; b0 = idx AND 63;
          w1 = drop_bit 6 w0; b1 = w0 AND 63
      in s\<lparr>l0 := (l0 s)(w0 := l0 s w0 OR push_bit (unat b0) 1),
           l1 := (l1 s)(w1 := l1 s w1 OR push_bit (unat b1) 1),
           l2 := l2 s OR push_bit (unat w1) 1\<rparr>)"

definition bm_reset :: "PriceBitmapStorage \<Rightarrow> u32 \<Rightarrow> PriceBitmapStorage" where
  "bm_reset s idx =
     (let w0 = drop_bit 6 idx; b0 = idx AND 63;
          s1 = s\<lparr>l0 := (l0 s)(w0 := l0 s w0 AND NOT (push_bit (unat b0) 1))\<rparr>
      in if l0 s1 w0 \<noteq> 0 then s1
         else
           let w1 = drop_bit 6 w0; b1 = w0 AND 63;
               s2 = s1\<lparr>l1 := (l1 s1)(w1 := l1 s1 w1 AND NOT (push_bit (unat b1) 1))\<rparr>
           in if l1 s2 w1 \<noteq> 0 then s2
              else s2\<lparr>l2 := l2 s2 AND NOT (push_bit (unat w1) 1)\<rparr>)"

definition bm_test :: "PriceBitmapStorage \<Rightarrow> u32 \<Rightarrow> bool" where
  "bm_test s idx = (drop_bit (unat (idx AND 63)) (l0 s (drop_bit 6 idx)) AND 1 \<noteq> 0)"

definition bm_empty :: "PriceBitmapStorage \<Rightarrow> bool" where
  "bm_empty s = (l2 s AND kValidL2Mask = 0)"

section \<open>Searches\<close>

definition loadWord :: "('o \<Rightarrow> 'o) \<Rightarrow> u64 \<Rightarrow> 'o \<Rightarrow> u64 \<times> 'o" where
  "loadWord onWordLoad w obs = (w, onWordLoad obs)"

definition findHighestAtOrBelowObserved ::
    "('o \<Rightarrow> 'o) \<Rightarrow> PriceBitmapStorage \<Rightarrow> u32 \<Rightarrow> 'o \<Rightarrow> u32 \<times> 'o" where
  "findHighestAtOrBelowObserved onWordLoad s idx0 obs0 =
     (let idx = (if idx0 \<ge> kNumBits then kNumBits - 1 else idx0);
          w0 = drop_bit 6 idx; b0 = idx AND 63;
          (word0, obs1) = loadWord onWordLoad (l0 s w0) obs0;
          bits = word0 AND maskAtOrBelow b0
      in if bits \<noteq> 0 then (push_bit 6 w0 OR bitHigh bits, obs1)
         else
           let w1 = drop_bit 6 w0; b1 = w0 AND 63;
               (word1, obs2) = loadWord onWordLoad (l1 s w1) obs1;
               l1bits = word1 AND maskBelow b1
           in if l1bits \<noteq> 0 then
                let previous_w0 = push_bit 6 w1 OR bitHigh l1bits;
                    (child, obs3) = loadWord onWordLoad (l0 s previous_w0) obs2
                in (if child = 0 then kInvalid else push_bit 6 previous_w0 OR bitHigh child, obs3)
              else
                let (word2, obs3) = loadWord onWordLoad (l2 s) obs2;
                    l2bits = word2 AND kValidL2Mask AND maskBelow w1
                in if l2bits = 0 then (kInvalid, obs3)
                   else
                     let previous_w1 = bitHigh l2bits;
                         (l1_child, obs4) = loadWord onWordLoad (l1 s previous_w1) obs3
                     in if l1_child = 0 then (kInvalid, obs4)
                        else
                          let previous_w0 = push_bit 6 previous_w1 OR bitHigh l1_child;
                              (l0_child, obs5) = loadWord onWordLoad (l0 s previous_w0) obs4
                          in (if l0_child = 0 then kInvalid
                              else push_bit 6 previous_w0 OR bitHigh l0_child, obs5))"

definition findLowestAtOrAboveObserved ::
    "('o \<Rightarrow> 'o) \<Rightarrow> PriceBitmapStorage \<Rightarrow> u32 \<Rightarrow> 'o \<Rightarrow> u32 \<times> 'o" where
  "findLowestAtOrAboveObserved onWordLoad s idx obs0 =
     (if idx \<ge> kNumBits then (kInvalid, obs0)
      else
        let w0 = drop_bit 6 idx; b0 = idx AND 63;
            (word0, obs1) = loadWord onWordLoad (l0 s w0) obs0;
            bits = word0 AND maskAtOrAbove b0
        in if bits \<noteq> 0 then (push_bit 6 w0 OR bitLow bits, obs1)
           else
             let w1 = drop_bit 6 w0; b1 = w0 AND 63;
                 (word1, obs2) = loadWord onWordLoad (l1 s w1) obs1;
                 l1bits = word1 AND maskAbove b1
             in if l1bits \<noteq> 0 then
                  let next_w0 = push_bit 6 w1 OR bitLow l1bits;
                      (child, obs3) = loadWord onWordLoad (l0 s next_w0) obs2
                  in (if child = 0 then kInvalid else push_bit 6 next_w0 OR bitLow child, obs3)
                else
                  let (word2, obs3) = loadWord onWordLoad (l2 s) obs2;
                      l2bits = word2 AND kValidL2Mask AND maskAbove w1
                  in if l2bits = 0 then (kInvalid, obs3)
                     else
                       let next_w1 = bitLow l2bits;
                           (l1_child, obs4) = loadWord onWordLoad (l1 s next_w1) obs3
                       in if l1_child = 0 then (kInvalid, obs4)
                          else
                            let next_w0 = push_bit 6 next_w1 OR bitLow l1_child;
                                (l0_child, obs5) = loadWord onWordLoad (l0 s next_w0) obs4
                            in (if l0_child = 0 then kInvalid
                                else push_bit 6 next_w0 OR bitLow l0_child, obs5))"

text \<open>The production entry points instantiate the no-op observer.\<close>

definition findHighestAtOrBelow :: "PriceBitmapStorage \<Rightarrow> u32 \<Rightarrow> u32" where
  "findHighestAtOrBelow s idx = fst (findHighestAtOrBelowObserved (\<lambda>u::unit. u) s idx ())"

definition findLowestAtOrAbove :: "PriceBitmapStorage \<Rightarrow> u32 \<Rightarrow> u32" where
  "findLowestAtOrAbove s idx = fst (findLowestAtOrAboveObserved (\<lambda>u::unit. u) s idx ())"

definition kMaxSearchWordLoads :: nat where "kMaxSearchWordLoads = 5"

section \<open>Bit scans and masks\<close>

lemma clz_below_spec:
  "\<exists>n<m. bit v n \<Longrightarrow> clz_below m v < m \<and> bit v (m - 1 - clz_below m v) \<and> (\<forall>n<m. bit v n \<longrightarrow> n \<le> m - 1 - clz_below m v)"
proof (induction m)
  case (Suc m)
  show ?case
  proof (cases "bit v m")
    case False
    with Suc.prems have "\<exists>n<m. bit v n" by (auto simp: less_Suc_eq)
    with Suc.IH have "clz_below m v < m" "bit v (m - 1 - clz_below m v)" "\<forall>n<m. bit v n \<longrightarrow> n \<le> m - 1 - clz_below m v" by auto
    with False show ?thesis by (auto simp: less_Suc_eq)
  qed auto
qed simp

lemma ctz_from_spec:
  "m \<le> 64 \<Longrightarrow> \<exists>n<64. 64 - m \<le> n \<and> bit v n \<Longrightarrow> ctz_from m v < m \<and> bit v (64 - m + ctz_from m v) \<and> (\<forall>n. 64 - m \<le> n \<and> bit v n \<longrightarrow> 64 - m + ctz_from m v \<le> n)"
proof (induction m)
  case (Suc m)
  show ?case
  proof (cases "bit v (63 - m)")
    case False
    have step: "64 - m \<le> n" if "64 - Suc m \<le> n" "bit v n" for n
      using that False Suc.prems(1) by (cases "n = 63 - m") auto
    with Suc.prems have "\<exists>n<64. 64 - m \<le> n \<and> bit v n" by blast
    with Suc have IH: "ctz_from m v < m" "bit v (64 - m + ctz_from m v)" "\<And>n. 64 - m \<le> n \<and> bit v n \<Longrightarrow> 64 - m + ctz_from m v \<le> n" by auto
    have "64 - Suc m + Suc (ctz_from m v) = 64 - m + ctz_from m v" using Suc.prems by simp
    with False IH show ?thesis using step by (simp only: ctz_from.simps if_False) (auto dest!: step)
  qed auto
qed auto

lemma bitHigh_spec:
  assumes "v \<noteq> 0"
  shows "unat (bitHigh v) < 64" "bit v (unat (bitHigh v))" "bit v n \<Longrightarrow> n \<le> unat (bitHigh v)"
proof -
  from assms obtain m where "bit v m" by (auto simp: word_nonzero_iff_bit)
  then have "\<exists>n<64. bit v n" using bit_u64_less by blast
  note spec = clz_below_spec [OF this]
  have *: "unat (bitHigh v) = 63 - clz_below 64 v"
    using spec by (simp add: bitHigh_def countl_zero_def unat_sub word_le_nat_alt unat_of_nat)
  show "unat (bitHigh v) < 64" "bit v (unat (bitHigh v))" "bit v n \<Longrightarrow> n \<le> unat (bitHigh v)"
    using spec bit_u64_less [of v n] by (auto simp: *)
qed

lemma bitLow_spec:
  assumes "v \<noteq> 0"
  shows "unat (bitLow v) < 64" "bit v (unat (bitLow v))" "bit v n \<Longrightarrow> unat (bitLow v) \<le> n"
proof -
  from assms obtain m where "bit v m" by (auto simp: word_nonzero_iff_bit)
  then have "\<exists>n<64. 64 - 64 \<le> n \<and> bit v n" using bit_u64_less by auto
  note spec = ctz_from_spec [OF _ this]
  have *: "unat (bitLow v) = ctz_from 64 v"
    using spec by (simp add: bitLow_def countr_zero_def unat_of_nat)
  show "unat (bitLow v) < 64" "bit v (unat (bitLow v))" "bit v n \<Longrightarrow> unat (bitLow v) \<le> n"
    using spec by (auto simp: *)
qed

lemma bit_maskAtOrBelow: "unat b < 64 \<Longrightarrow> bit (maskAtOrBelow b) n \<longleftrightarrow> n \<le> unat b"
  by (auto simp: maskAtOrBelow_def bit_simps unat_sub word_le_nat_alt)

lemma bit_maskBelow: "unat b < 64 \<Longrightarrow> bit (maskBelow b) n \<longleftrightarrow> n < unat b"
  by (auto simp: maskBelow_def bit_simps unat_sub word_le_nat_alt)

lemma bit_maskAtOrAbove: "unat b < 64 \<Longrightarrow> bit (maskAtOrAbove b) n \<longleftrightarrow> unat b \<le> n \<and> n < 64"
  by (auto simp: maskAtOrAbove_def bit_simps)

lemma bit_maskAbove: "unat b < 64 \<Longrightarrow> bit (maskAbove b) n \<longleftrightarrow> unat b < n \<and> n < 64"
proof -
  assume b: "unat b < 64"
  have "b \<noteq> 63 \<Longrightarrow> unat (b + 1) = Suc (unat b)"
    using b by (simp add: unat_word_ariths)
  moreover have "unat b < n \<and> n < 64 \<Longrightarrow> b \<noteq> 63" by auto
  ultimately show ?thesis
    by (auto simp: maskAbove_def bit_simps)
qed

lemma bit_kValidL2Mask: "bit kValidL2Mask n \<longleftrightarrow> n < 16"
  by (auto simp: kValidL2Mask_def bit_simps)

lemma bm_test_bit: "bm_test s i \<longleftrightarrow> bit (l0 s (drop_bit 6 i)) (unat (i AND 63))"
  by (simp add: bm_test_def bit_iff_odd_drop_bit and_one_eq odd_iff_mod_2_eq_one)


section \<open>One level of the hierarchy\<close>

text \<open>
  A level is an array of 64-bit words. Position \<open>i\<close> is bit \<open>i mod 64\<close> of word \<open>i div 64\<close>;
  \<open>tst\<close> reads it, \<open>slot\<close> rebuilds the position from its two parts.
\<close>

definition slot :: "u32 \<Rightarrow> u32 \<Rightarrow> u32" where "slot w b = push_bit 6 w OR b"

definition tst :: "(u32 \<Rightarrow> u64) \<Rightarrow> u32 \<Rightarrow> bool" where
  "tst f i \<longleftrightarrow> bit (f (drop_bit 6 i)) (unat (i AND 63))"

lemma unat_slot: "unat w < 2 ^ 26 \<Longrightarrow> unat b < 64 \<Longrightarrow> unat (slot w b) = 64 * unat w + unat b"
  unfolding slot_def by (rule unat_shl6_or)

lemma slot_parts:
  assumes "unat w < 2 ^ 26" "unat b < 64"
  shows "drop_bit 6 (slot w b) = w" "slot w b AND 63 = b"
  using assms by (simp_all add: word_unat_eq_iff unat_slot word_nat)

lemma tst_slot: "unat w < 2 ^ 26 \<Longrightarrow> unat b < 64 \<Longrightarrow> tst f (slot w b) \<longleftrightarrow> bit (f w) (unat b)"
  by (simp add: tst_def slot_parts)

lemma word_index_bound: "unat (drop_bit 6 i :: u32) < 2 ^ 26"
  using unsigned_less [of i, where 'a=nat] by (simp add: word_nat)

lemma unat_parts: "unat i = 64 * unat (drop_bit 6 i :: u32) + unat (i AND 63)"
  by (simp add: word_nat)

lemma low_bits_less: "unat (i AND 63 :: u32) < 64"
  by (simp add: word_nat)

text \<open>A set bit below the bound in the boundary word is a set bit of the masked word.\<close>

lemma masked_bit:
  assumes "tst f j" and "unat j < k" and "drop_bit 6 j = w"
    and "\<And>n. n < 64 \<Longrightarrow> bit m n \<longleftrightarrow> 64 * unat w + n < k"
  shows "bit (f w AND m) (unat (j AND 63))"
proof -
  have "64 * unat w + unat (j AND 63) < k"
    using assms(2,3) unat_parts [of j] by simp
  then have "bit m (unat (j AND 63))" using assms(4) low_bits_less by blast
  with assms(1,3) show ?thesis by (simp add: tst_def bit_and_iff)
qed

definition greatest_below :: "(u32 \<Rightarrow> u64) \<Rightarrow> nat \<Rightarrow> u32 \<Rightarrow> bool" where
  "greatest_below f k r \<longleftrightarrow> tst f r \<and> unat r < k \<and> (\<forall>j. tst f j \<and> unat j < k \<longrightarrow> j \<le> r)"

lemma greatest_in_word:
  assumes w: "unat w < 2 ^ 26" and k: "k \<le> 64 * unat w + 64"
    and m: "\<And>n. n < 64 \<Longrightarrow> bit m n \<longleftrightarrow> 64 * unat w + n < k"
    and nz: "f w AND m \<noteq> 0"
  shows "greatest_below f k (slot w (bitHigh (f w AND m)))"
proof -
  note hi = bitHigh_spec [OF nz]
  have "j \<le> slot w (bitHigh (f w AND m))" if j: "tst f j" "unat j < k" for j
  proof (cases "drop_bit 6 j = w")
    case True
    have "bit (f w AND m) (unat (j AND 63))" using masked_bit [OF j True m] .
    with hi(3) have "unat (j AND 63) \<le> unat (bitHigh (f w AND m))" by blast
    then have "unat j \<le> 64 * unat w + unat (bitHigh (f w AND m))"
      using True unat_parts [of j] by simp
    with hi(1) w show ?thesis by (simp add: word_le_nat_alt unat_slot)
  next
    case False
    then have "unat (drop_bit 6 j) \<noteq> unat w" by (simp add: word_unat_eq_iff)
    with j k unat_parts [of j] have "unat (drop_bit 6 j) < unat w" by linarith
    then have "unat j < 64 * unat w" using unat_parts [of j] low_bits_less [of j] by linarith
    with hi(1) w show ?thesis by (simp add: word_le_nat_alt unat_slot)
  qed
  then show ?thesis
    using hi w m [OF hi(1)] by (auto simp: greatest_below_def tst_slot unat_slot bit_and_iff)
qed

lemma greatest_in_earlier_word:
  assumes w: "unat w < 2 ^ 26" and k: "64 * unat w \<le> k" "k \<le> 64 * unat w + 64"
    and m: "\<And>n. n < 64 \<Longrightarrow> bit m n \<longleftrightarrow> 64 * unat w + n < k"
    and z: "f w AND m = 0"
    and v: "v < w" "f v \<noteq> 0" "\<And>u. v < u \<Longrightarrow> u < w \<Longrightarrow> f u = 0"
  shows "greatest_below f k (slot v (bitHigh (f v)))"
proof -
  note hi = bitHigh_spec [OF v(2)]
  have vb: "unat v < 2 ^ 26" using v(1) w by (simp add: word_less_nat_alt)
  have "j \<le> slot v (bitHigh (f v))" if j: "tst f j" "unat j < k" for j
  proof (rule ccontr)
    assume "\<not> ?thesis"
    then have gt: "64 * unat v + unat (bitHigh (f v)) < unat j"
      using hi(1) vb by (simp add: word_le_nat_alt unat_slot)
    have bj: "bit (f (drop_bit 6 j)) (unat (j AND 63))" using j(1) by (simp add: tst_def)
    have "drop_bit 6 j \<noteq> w"
    proof
      assume "drop_bit 6 j = w"
      with z masked_bit [OF j _ m] show False by simp
    qed
    moreover have "unat (drop_bit 6 j) \<le> unat w" using j k unat_parts [of j] by linarith
    ultimately have lw: "drop_bit 6 j < w" by (simp add: word_le_nat_alt order_less_le)
    have "v \<noteq> drop_bit 6 j"
    proof
      assume "v = drop_bit 6 j"
      with hi(3) [of "unat (j AND 63)"] bj gt unat_parts [of j] show False by simp
    qed
    moreover have "unat v \<le> unat (drop_bit 6 j)"
      using gt unat_parts [of j] low_bits_less [of j] by linarith
    ultimately have "f (drop_bit 6 j) = 0" using v(3) lw by (simp add: word_le_nat_alt order_less_le)
    with bj show False by simp
  qed
  then show ?thesis
    using hi vb v(1) k by (auto simp: greatest_below_def tst_slot unat_slot word_less_nat_alt)
qed

lemma none_below:
  assumes k: "k \<le> 64 * unat w + 64"
    and m: "\<And>n. n < 64 \<Longrightarrow> bit m n \<longleftrightarrow> 64 * unat w + n < k"
    and z: "f w AND m = 0" and v: "\<And>u. u < w \<Longrightarrow> f u = 0"
    and j: "unat j < k"
  shows "\<not> tst f j"
proof
  assume "tst f j"
  then have bj: "bit (f (drop_bit 6 j)) (unat (j AND 63))" by (simp add: tst_def)
  then have "\<not> drop_bit 6 j < w" using v by auto
  moreover have "unat (drop_bit 6 j) \<le> unat w" using j k unat_parts [of j] by linarith
  ultimately have "drop_bit 6 j = w" by (simp add: word_le_nat_alt order_less_le)
  with z masked_bit [OF \<open>tst f j\<close> j _ m] show False by simp
qed

definition least_from :: "(u32 \<Rightarrow> u64) \<Rightarrow> nat \<Rightarrow> u32 \<Rightarrow> bool" where
  "least_from f k r \<longleftrightarrow> tst f r \<and> k \<le> unat r \<and> (\<forall>j. tst f j \<and> k \<le> unat j \<longrightarrow> r \<le> j)"

lemma masked_bit_from:
  assumes "tst f j" and "k \<le> unat j" and "drop_bit 6 j = w"
    and "\<And>n. n < 64 \<Longrightarrow> bit m n \<longleftrightarrow> k \<le> 64 * unat w + n"
  shows "bit (f w AND m) (unat (j AND 63))"
proof -
  have "k \<le> 64 * unat w + unat (j AND 63)"
    using assms(2,3) unat_parts [of j] by simp
  then have "bit m (unat (j AND 63))" using assms(4) low_bits_less by blast
  with assms(1,3) show ?thesis by (simp add: tst_def bit_and_iff)
qed

lemma least_in_word:
  assumes w: "unat w < 2 ^ 26" and k: "64 * unat w \<le> k"
    and m: "\<And>n. n < 64 \<Longrightarrow> bit m n \<longleftrightarrow> k \<le> 64 * unat w + n"
    and nz: "f w AND m \<noteq> 0"
  shows "least_from f k (slot w (bitLow (f w AND m)))"
proof -
  note lo = bitLow_spec [OF nz]
  have "slot w (bitLow (f w AND m)) \<le> j" if j: "tst f j" "k \<le> unat j" for j
  proof (cases "drop_bit 6 j = w")
    case True
    have "bit (f w AND m) (unat (j AND 63))" using masked_bit_from [OF j True m] .
    with lo(3) have "unat (bitLow (f w AND m)) \<le> unat (j AND 63)" by blast
    then have "64 * unat w + unat (bitLow (f w AND m)) \<le> unat j"
      using True unat_parts [of j] by simp
    with lo(1) w show ?thesis by (simp add: word_le_nat_alt unat_slot)
  next
    case False
    then have "unat (drop_bit 6 j) \<noteq> unat w" by (simp add: word_unat_eq_iff)
    with j k unat_parts [of j] low_bits_less [of j] have "unat w < unat (drop_bit 6 j)" by linarith
    then have "64 * unat w + 64 \<le> unat j" using unat_parts [of j] by linarith
    with lo(1) w show ?thesis by (simp add: word_le_nat_alt unat_slot)
  qed
  then show ?thesis
    using lo w m [OF lo(1)] by (auto simp: least_from_def tst_slot unat_slot bit_and_iff)
qed

lemma least_in_later_word:
  assumes v26: "unat v < 2 ^ 26" and k: "64 * unat w \<le> k" "k \<le> 64 * unat w + 64"
    and m: "\<And>n. n < 64 \<Longrightarrow> bit m n \<longleftrightarrow> k \<le> 64 * unat w + n"
    and z: "f w AND m = 0"
    and v: "w < v" "f v \<noteq> 0" "\<And>u. w < u \<Longrightarrow> u < v \<Longrightarrow> f u = 0"
  shows "least_from f k (slot v (bitLow (f v)))"
proof -
  note lo = bitLow_spec [OF v(2)]
  have "slot v (bitLow (f v)) \<le> j" if j: "tst f j" "k \<le> unat j" for j
  proof (rule ccontr)
    assume "\<not> ?thesis"
    then have lt: "unat j < 64 * unat v + unat (bitLow (f v))"
      using lo(1) v26 by (simp add: word_le_nat_alt unat_slot)
    have bj: "bit (f (drop_bit 6 j)) (unat (j AND 63))" using j(1) by (simp add: tst_def)
    have "drop_bit 6 j \<noteq> w" using z masked_bit_from [OF j _ m] by auto
    moreover have "unat w \<le> unat (drop_bit 6 j)"
      using j k unat_parts [of j] low_bits_less [of j] by linarith
    ultimately have gw: "w < drop_bit 6 j" by (simp add: word_le_nat_alt order_less_le)
    have "drop_bit 6 j \<noteq> v"
    proof
      assume "drop_bit 6 j = v"
      with lo(3) [of "unat (j AND 63)"] bj lt unat_parts [of j] show False by simp
    qed
    moreover have "unat (drop_bit 6 j) \<le> unat v"
      using lt lo(1) unat_parts [of j] by linarith
    ultimately have "f (drop_bit 6 j) = 0" using v(3) gw by (simp add: word_le_nat_alt order_less_le)
    with bj show False by simp
  qed
  then show ?thesis
    using lo v26 v(1) k by (auto simp: least_from_def tst_slot unat_slot word_less_nat_alt)
qed

lemma none_from:
  assumes k: "64 * unat w \<le> k"
    and m: "\<And>n. n < 64 \<Longrightarrow> bit m n \<longleftrightarrow> k \<le> 64 * unat w + n"
    and z: "f w AND m = 0" and v: "\<And>u. w < u \<Longrightarrow> unat u < N \<Longrightarrow> f u = 0"
    and j: "k \<le> unat j" "unat j < 64 * N"
  shows "\<not> tst f j"
proof
  assume "tst f j"
  then have bj: "bit (f (drop_bit 6 j)) (unat (j AND 63))" by (simp add: tst_def)
  have "unat (drop_bit 6 j) < N" using j(2) unat_parts [of j] by linarith
  then have "\<not> w < drop_bit 6 j" using v bj by auto
  moreover have "unat w \<le> unat (drop_bit 6 j)"
    using j k unat_parts [of j] low_bits_less [of j] by linarith
  ultimately have "drop_bit 6 j = w" by (simp add: word_le_nat_alt order_less_le)
  with z masked_bit_from [OF \<open>tst f j\<close> j(1) _ m] show False by simp
qed

section \<open>The hierarchy invariant\<close>

text \<open>A summary bit is set exactly when the word it summarises is not zero.\<close>

definition bitmap_inv :: "PriceBitmapStorage \<Rightarrow> bool" where
  "bitmap_inv s \<longleftrightarrow>
     (\<forall>w. unat w < 1024 \<longrightarrow> (tst (l1 s) w \<longleftrightarrow> l0 s w \<noteq> 0)) \<and>
     (\<forall>w. unat w < 16 \<longrightarrow> (bit (l2 s) (unat w) \<longleftrightarrow> l1 s w \<noteq> 0))"

lemma bm_test_tst: "bm_test s i = tst (l0 s) i"
  by (simp add: bm_test_bit tst_def)


text \<open>Every level-1 bit below a bound locates the nearest non-empty level-0 word.\<close>

lemma nearest_word_below:
  assumes inv: "bitmap_inv s" and g: "greatest_below (l1 s) (unat w) v" and w: "unat w \<le> 1024"
  shows "v < w" "l0 s v \<noteq> 0" "\<And>u. v < u \<Longrightarrow> u < w \<Longrightarrow> l0 s u = 0"
proof -
  have t: "tst (l1 s) u \<longleftrightarrow> l0 s u \<noteq> 0" if "unat u < unat w" for u
    using inv that w unfolding bitmap_inv_def by (meson order_less_le_trans)
  show "v < w" "l0 s v \<noteq> 0" using g t by (auto simp: greatest_below_def word_less_nat_alt)
  show "l0 s u = 0" if "v < u" "u < w" for u
    using g t [of u] that by (auto simp: greatest_below_def word_less_nat_alt word_le_nat_alt)
qed

lemma nearest_word_above:
  assumes inv: "bitmap_inv s" and g: "least_from (l1 s) (Suc (unat w)) v" and v: "unat v < 1024"
  shows "w < v" "l0 s v \<noteq> 0" "\<And>u. w < u \<Longrightarrow> u < v \<Longrightarrow> l0 s u = 0"
proof -
  have t: "tst (l1 s) u \<longleftrightarrow> l0 s u \<noteq> 0" if "unat u < 1024" for u
    using inv that unfolding bitmap_inv_def by blast
  show "w < v" "l0 s v \<noteq> 0" using g t v by (auto simp: least_from_def word_less_nat_alt)
  show "l0 s u = 0" if "w < u" "u < v" for u
    using g t [of u] that v by (auto simp: least_from_def word_less_nat_alt word_le_nat_alt)
qed

lemma l2_nonzero: "bitmap_inv s \<Longrightarrow> unat w < 16 \<Longrightarrow> bit (l2 s) (unat w) \<longleftrightarrow> l1 s w \<noteq> 0"
  by (simp add: bitmap_inv_def)


text \<open>The upper two levels of a search compute the nearest non-empty level-0 word before (after) a
  given word.\<close>

definition word_before :: "PriceBitmapStorage \<Rightarrow> u32 \<Rightarrow> u32 option" where
  "word_before s w0 =
     (let w1 = drop_bit 6 w0; l1bits = l1 s w1 AND maskBelow (w0 AND 63);
          l2bits = l2 s AND kValidL2Mask AND maskBelow w1; p = bitHigh l2bits
      in if l1bits \<noteq> 0 then Some (slot w1 (bitHigh l1bits))
         else if l2bits = 0 \<or> l1 s p = 0 then None
         else Some (slot p (bitHigh (l1 s p))))"

definition word_after :: "PriceBitmapStorage \<Rightarrow> u32 \<Rightarrow> u32 option" where
  "word_after s w0 =
     (let w1 = drop_bit 6 w0; l1bits = l1 s w1 AND maskAbove (w0 AND 63);
          l2bits = l2 s AND kValidL2Mask AND maskAbove w1; p = bitLow l2bits
      in if l1bits \<noteq> 0 then Some (slot w1 (bitLow l1bits))
         else if l2bits = 0 \<or> l1 s p = 0 then None
         else Some (slot p (bitLow (l1 s p))))"

lemma findHighest_word_before:
  assumes "unat idx < 65536"
  shows "findHighestAtOrBelow s idx =
    (let w0 = drop_bit 6 idx; bits = l0 s w0 AND maskAtOrBelow (idx AND 63)
     in if bits \<noteq> 0 then slot w0 (bitHigh bits)
        else case word_before s w0 of None \<Rightarrow> kInvalid
             | Some c \<Rightarrow> if l0 s c = 0 then kInvalid else slot c (bitHigh (l0 s c)))"
  using assms
  by (simp add: findHighestAtOrBelow_def findHighestAtOrBelowObserved_def loadWord_def Let_def
        kNumBits_def word_le_nat_alt slot_def word_before_def)

lemma findLowest_word_after:
  assumes "unat idx < 65536"
  shows "findLowestAtOrAbove s idx =
    (let w0 = drop_bit 6 idx; bits = l0 s w0 AND maskAtOrAbove (idx AND 63)
     in if bits \<noteq> 0 then slot w0 (bitLow bits)
        else case word_after s w0 of None \<Rightarrow> kInvalid
             | Some c \<Rightarrow> if l0 s c = 0 then kInvalid else slot c (bitLow (l0 s c)))"
  using assms
  by (simp add: findLowestAtOrAbove_def findLowestAtOrAboveObserved_def loadWord_def Let_def
        kNumBits_def word_le_nat_alt slot_def word_after_def)

text \<open>Level 2: the masked summary word lists the non-empty level-1 words on one side of \<open>w1\<close>.\<close>

lemma l2_masked_below:
  assumes "bitmap_inv s" and "unat w1 < 16"
  shows "bit (l2 s AND kValidL2Mask AND maskBelow w1) n \<longleftrightarrow> n < unat w1 \<and> l1 s (of_nat n) \<noteq> 0"
proof (cases "n < unat w1")
  case True
  then have "unat (of_nat n :: u32) = n" "n < 16" using assms(2) by (simp_all add: unat_of_nat)
  with True assms show ?thesis
    using l2_nonzero [OF assms(1), of "of_nat n"] by (simp add: bit_and_iff bit_maskBelow bit_kValidL2Mask)
next
  case False
  with assms(2) show ?thesis by (simp add: bit_and_iff bit_maskBelow)
qed

lemma l2_masked_above:
  assumes "bitmap_inv s" and "unat w1 < 16"
  shows "bit (l2 s AND kValidL2Mask AND maskAbove w1) n \<longleftrightarrow> unat w1 < n \<and> n < 16 \<and> l1 s (of_nat n) \<noteq> 0"
proof (cases "n < 16")
  case True
  then have "unat (of_nat n :: u32) = n" by (simp add: unat_of_nat)
  with True assms show ?thesis
    using l2_nonzero [OF assms(1), of "of_nat n"] by (auto simp: bit_and_iff bit_maskAbove bit_kValidL2Mask)
next
  case False
  with assms(2) show ?thesis by (simp add: bit_and_iff bit_kValidL2Mask)
qed

lemma word_before_spec:
  assumes inv: "bitmap_inv s" and w0: "unat w0 < 1024"
  shows "case word_before s w0 of
           None \<Rightarrow> \<forall>u<w0. l0 s u = 0
         | Some c \<Rightarrow> c < w0 \<and> l0 s c \<noteq> 0 \<and> (\<forall>u. c < u \<and> u < w0 \<longrightarrow> l0 s u = 0)"
proof -
  define w1 b1 where "w1 = drop_bit 6 w0" and "b1 = w0 AND 63"
  have w1: "unat w1 < 16" and b1: "unat b1 < 64"
    using w0 by (auto simp: w1_def b1_def word_nat)
  have i1: "unat w0 = 64 * unat w1 + unat b1"
    using unat_parts [of w0] by (simp add: w1_def b1_def)
  define l1bits where "l1bits = l1 s w1 AND maskBelow b1"
  define l2bits where "l2bits = l2 s AND kValidL2Mask AND maskBelow w1"
  define p where "p = bitHigh l2bits"
  note l2 = l2_masked_below [OF inv w1, folded l2bits_def]
  have m1: "bit (maskBelow b1) n \<longleftrightarrow> 64 * unat w1 + n < unat w0" for n
    using b1 by (auto simp: bit_maskBelow i1)
  have found: ?thesis if "word_before s w0 = Some c" "greatest_below (l1 s) (unat w0) c" for c
    using that nearest_word_below [OF inv that(2)] w0 by auto
  have wb: "word_before s w0 = (if l1bits \<noteq> 0 then Some (slot w1 (bitHigh l1bits))
      else if l2bits = 0 \<or> l1 s p = 0 then None else Some (slot p (bitHigh (l1 s p))))"
    by (simp add: word_before_def Let_def w1_def b1_def l1bits_def l2bits_def p_def)
  show ?thesis
  proof (cases "l1bits = 0")
    case False
    then have "greatest_below (l1 s) (unat w0) (slot w1 (bitHigh l1bits))"
      unfolding l1bits_def using w1 b1 by (intro greatest_in_word) (auto simp: m1 i1)
    with False wb show ?thesis by (intro found) auto
  next
    case l1z: True
    show ?thesis
    proof (cases "l2bits = 0")
      case False
      note hi = bitHigh_spec [OF False, folded p_def]
      from hi(2) have p: "unat p < unat w1" "l1 s p \<noteq> 0" by (auto simp: l2)
      have "l1 s u = 0" if "p < u" "u < w1" for u
        using hi(3) [of "unat u"] that by (auto simp: l2 word_less_nat_alt)
      then have "greatest_below (l1 s) (unat w0) (slot p (bitHigh (l1 s p)))"
        using w1 b1 p l1z by (intro greatest_in_earlier_word [where w = w1 and m = "maskBelow b1"])
          (auto simp: m1 i1 l1bits_def word_less_nat_alt)
      with False l1z p wb show ?thesis by (intro found) auto
    next
      case True
      then have z1: "l1 s u = 0" if "u < w1" for u
        using l2 [of "unat u"] that by (auto simp: word_less_nat_alt)
      have "\<not> tst (l1 s) u" if "u < w0" for u
        using l1z z1 that b1
        by (intro none_below [where w = w1 and m = "maskBelow b1" and k = "unat w0"])
          (auto simp: m1 i1 l1bits_def word_less_nat_alt)
      with inv w0 have "\<forall>u<w0. l0 s u = 0"
        unfolding bitmap_inv_def by (auto simp: word_less_nat_alt)
      with l1z True wb show ?thesis by simp
    qed
  qed
qed

lemma findHighest_cases:
  assumes inv: "bitmap_inv s" and idx: "unat idx < 65536"
  shows "(findHighestAtOrBelow s idx = kInvalid \<and> (\<forall>j. unat j < Suc (unat idx) \<longrightarrow> \<not> tst (l0 s) j)) \<or>
         greatest_below (l0 s) (Suc (unat idx)) (findHighestAtOrBelow s idx)"
proof -
  define w0 b0 where "w0 = drop_bit 6 idx" and "b0 = idx AND 63"
  have w0: "unat w0 < 1024" and b0: "unat b0 < 64"
    using idx by (auto simp: w0_def b0_def word_nat)
  have i0: "unat idx = 64 * unat w0 + unat b0"
    using unat_parts [of idx] by (simp add: w0_def b0_def)
  define bits where "bits = l0 s w0 AND maskAtOrBelow b0"
  note res = findHighest_word_before [OF idx, of s, folded w0_def b0_def, unfolded Let_def, folded bits_def]
  have m0: "bit (maskAtOrBelow b0) n \<longleftrightarrow> 64 * unat w0 + n < Suc (unat idx)" for n
    using b0 by (auto simp: bit_maskAtOrBelow i0)
  show ?thesis
  proof (cases "bits = 0")
    case False
    then have "greatest_below (l0 s) (Suc (unat idx)) (slot w0 (bitHigh bits))"
      unfolding bits_def using w0 b0 by (intro greatest_in_word) (auto simp: m0 i0)
    with False res show ?thesis by simp
  next
    case z: True
    note wb = word_before_spec [OF inv w0]
    show ?thesis
    proof (cases "word_before s w0")
      case None
      with wb z b0 have "\<forall>j. unat j < Suc (unat idx) \<longrightarrow> \<not> tst (l0 s) j"
        by (intro allI impI none_below [where w = w0 and m = "maskAtOrBelow b0" and k = "Suc (unat idx)"])
          (auto simp: m0 i0 bits_def)
      with None z res show ?thesis by simp
    next
      case (Some c)
      with wb z w0 b0 have "greatest_below (l0 s) (Suc (unat idx)) (slot c (bitHigh (l0 s c)))"
        by (intro greatest_in_earlier_word [where w = w0 and m = "maskAtOrBelow b0"])
          (auto simp: m0 i0 bits_def)
      with Some z wb res show ?thesis by simp
    qed
  qed
qed

lemma word_after_spec:
  assumes inv: "bitmap_inv s" and w0: "unat w0 < 1024"
  shows "case word_after s w0 of
           None \<Rightarrow> \<forall>u. w0 < u \<and> unat u < 1024 \<longrightarrow> l0 s u = 0
         | Some c \<Rightarrow> w0 < c \<and> unat c < 1024 \<and> l0 s c \<noteq> 0 \<and> (\<forall>u. w0 < u \<and> u < c \<longrightarrow> l0 s u = 0)"
proof -
  define w1 b1 where "w1 = drop_bit 6 w0" and "b1 = w0 AND 63"
  have w1: "unat w1 < 16" and b1: "unat b1 < 64"
    using w0 by (auto simp: w1_def b1_def word_nat)
  have i1: "unat w0 = 64 * unat w1 + unat b1"
    using unat_parts [of w0] by (simp add: w1_def b1_def)
  define l1bits where "l1bits = l1 s w1 AND maskAbove b1"
  define l2bits where "l2bits = l2 s AND kValidL2Mask AND maskAbove w1"
  define p where "p = bitLow l2bits"
  note l2 = l2_masked_above [OF inv w1, folded l2bits_def]
  have m1: "n < 64 \<Longrightarrow> bit (maskAbove b1) n \<longleftrightarrow> Suc (unat w0) \<le> 64 * unat w1 + n" for n
    using b1 by (auto simp: bit_maskAbove i1)
  have found: ?thesis
    if "word_after s w0 = Some c" "least_from (l1 s) (Suc (unat w0)) c" "unat c < 1024" for c
    using that nearest_word_above [OF inv that(2,3)] by auto
  have wa: "word_after s w0 = (if l1bits \<noteq> 0 then Some (slot w1 (bitLow l1bits))
      else if l2bits = 0 \<or> l1 s p = 0 then None else Some (slot p (bitLow (l1 s p))))"
    by (simp add: word_after_def Let_def w1_def b1_def l1bits_def l2bits_def p_def)
  show ?thesis
  proof (cases "l1bits = 0")
    case False
    then have "least_from (l1 s) (Suc (unat w0)) (slot w1 (bitLow l1bits))"
      unfolding l1bits_def using w1 b1 by (intro least_in_word) (auto simp: m1 i1)
    with False wa bitLow_spec(1) [OF False] w1 show ?thesis by (intro found) (auto simp: unat_slot)
  next
    case l1z: True
    show ?thesis
    proof (cases "l2bits = 0")
      case False
      note lo = bitLow_spec [OF False, folded p_def]
      from lo(2) have p: "unat w1 < unat p" "unat p < 16" "l1 s p \<noteq> 0" by (auto simp: l2)
      have "l1 s u = 0" if "w1 < u" "u < p" for u
        using lo(3) [of "unat u"] that p by (auto simp: l2 word_less_nat_alt)
      then have "least_from (l1 s) (Suc (unat w0)) (slot p (bitLow (l1 s p)))"
        using w1 b1 p l1z by (intro least_in_later_word [where w = w1 and m = "maskAbove b1"])
          (auto simp: m1 i1 l1bits_def word_less_nat_alt)
      with False l1z p wa bitLow_spec(1) [OF p(3)] show ?thesis
        by (intro found) (auto simp: unat_slot)
    next
      case True
      then have z1: "l1 s u = 0" if "w1 < u" "unat u < 16" for u
        using l2 [of "unat u"] that by (auto simp: word_less_nat_alt)
      have "\<not> tst (l1 s) u" if "w0 < u" "unat u < 1024" for u
        using l1z z1 that b1
        by (intro none_from [where w = w1 and m = "maskAbove b1" and k = "Suc (unat w0)" and N = 16])
          (auto simp: m1 i1 l1bits_def word_less_nat_alt)
      with inv have "\<forall>u. w0 < u \<and> unat u < 1024 \<longrightarrow> l0 s u = 0"
        unfolding bitmap_inv_def by blast
      with l1z True wa show ?thesis by simp
    qed
  qed
qed

lemma findLowest_cases:
  assumes inv: "bitmap_inv s" and idx: "unat idx < 65536"
  shows "(findLowestAtOrAbove s idx = kInvalid \<and>
            (\<forall>j. unat idx \<le> unat j \<and> unat j < 65536 \<longrightarrow> \<not> tst (l0 s) j)) \<or>
         (least_from (l0 s) (unat idx) (findLowestAtOrAbove s idx) \<and> unat (findLowestAtOrAbove s idx) < 65536)"
proof -
  define w0 b0 where "w0 = drop_bit 6 idx" and "b0 = idx AND 63"
  have w0: "unat w0 < 1024" and b0: "unat b0 < 64"
    using idx by (auto simp: w0_def b0_def word_nat)
  have i0: "unat idx = 64 * unat w0 + unat b0"
    using unat_parts [of idx] by (simp add: w0_def b0_def)
  define bits where "bits = l0 s w0 AND maskAtOrAbove b0"
  note res = findLowest_word_after [OF idx, of s, folded w0_def b0_def, unfolded Let_def, folded bits_def]
  have m0: "n < 64 \<Longrightarrow> bit (maskAtOrAbove b0) n \<longleftrightarrow> unat idx \<le> 64 * unat w0 + n" for n
    using b0 by (auto simp: bit_maskAtOrAbove i0)
  show ?thesis
  proof (cases "bits = 0")
    case False
    then have "least_from (l0 s) (unat idx) (slot w0 (bitLow bits))"
      unfolding bits_def using w0 b0 by (intro least_in_word) (auto simp: m0 i0)
    with False res w0 bitLow_spec(1) [OF False] show ?thesis by (simp add: unat_slot)
  next
    case z: True
    note wa = word_after_spec [OF inv w0]
    show ?thesis
    proof (cases "word_after s w0")
      case None
      with wa z b0 have "\<forall>j. unat idx \<le> unat j \<and> unat j < 65536 \<longrightarrow> \<not> tst (l0 s) j"
        by (intro allI impI none_from [where w = w0 and m = "maskAtOrAbove b0" and k = "unat idx" and N = 1024])
          (auto simp: m0 i0 bits_def)
      with None z res show ?thesis by simp
    next
      case (Some c)
      with wa z w0 b0 have "least_from (l0 s) (unat idx) (slot c (bitLow (l0 s c)))"
        by (intro least_in_later_word [where w = w0 and m = "maskAtOrAbove b0"])
          (auto simp: m0 i0 bits_def)
      with Some z wa res bitLow_spec(1) [of "l0 s c"] show ?thesis by (auto simp: unat_slot)
    qed
  qed
qed


section \<open>Updates\<close>

lemma parts_eq_iff: "i = j \<longleftrightarrow> drop_bit 6 i = (drop_bit 6 j :: u32) \<and> i AND 63 = j AND 63"
  by (metis unat_parts word_unat_eq_iff)

lemma tst_set: "tst (f(drop_bit 6 i := f (drop_bit 6 i) OR 2 ^ unat (i AND 63))) j \<longleftrightarrow> tst f j \<or> j = i"
  using low_bits_less [of i] low_bits_less [of j]
  by (auto simp: tst_def bit_simps parts_eq_iff [of j i] word_unat_eq_iff [of "j AND 63"])

lemma tst_reset: "tst (f(drop_bit 6 i := f (drop_bit 6 i) AND NOT (2 ^ unat (i AND 63)))) j \<longleftrightarrow> tst f j \<and> j \<noteq> i"
  using low_bits_less [of i] low_bits_less [of j]
  by (auto simp: tst_def bit_simps parts_eq_iff [of j i] word_unat_eq_iff [of "j AND 63"])

lemma tst_l0_set [simp]: "tst (l0 (bm_set s i)) j \<longleftrightarrow> tst (l0 s) j \<or> j = i"
  by (simp add: bm_set_def Let_def tst_set)

lemma l0_set_nonzero: "l0 (bm_set s i) w \<noteq> 0 \<longleftrightarrow> l0 s w \<noteq> 0 \<or> w = drop_bit 6 i"
  using low_bits_less [of i]
  by (auto simp: bm_set_def Let_def word_nonzero_iff_bit bit_simps)

lemma bitmap_inv_set:
  assumes inv: "bitmap_inv s" and i: "unat i < 65536"
  shows "bitmap_inv (bm_set s i)"
proof -
  have w1: "unat (drop_bit 6 (drop_bit 6 i)) < 16" using i by (simp add: unat_shr del: drop_bit_drop_bit)
  have "tst (l1 (bm_set s i)) w \<longleftrightarrow> tst (l1 s) w \<or> w = drop_bit 6 i" for w
    by (simp add: bm_set_def Let_def tst_set del: drop_bit_drop_bit)
  moreover have "l1 (bm_set s i) w \<noteq> 0 \<longleftrightarrow> l1 s w \<noteq> 0 \<or> w = drop_bit 6 (drop_bit 6 i)" for w
    using low_bits_less [of "drop_bit 6 i"]
    by (auto simp: bm_set_def Let_def word_nonzero_iff_bit bit_simps)
  moreover have "bit (l2 (bm_set s i)) (unat w) \<longleftrightarrow> bit (l2 s) (unat w) \<or> w = drop_bit 6 (drop_bit 6 i)" for w
    using w1 by (auto simp: bm_set_def Let_def bit_simps word_unat_eq_iff simp del: drop_bit_drop_bit)
  ultimately show ?thesis
    using inv unfolding bitmap_inv_def by (simp add: l0_set_nonzero del: drop_bit_drop_bit)
qed

lemma l0_reset:
  "l0 (bm_reset s i) = (l0 s)(drop_bit 6 i := l0 s (drop_bit 6 i) AND NOT (2 ^ unat (i AND 63)))"
  by (simp add: bm_reset_def Let_def)

lemma tst_l0_reset [simp]: "tst (l0 (bm_reset s i)) j \<longleftrightarrow> tst (l0 s) j \<and> j \<noteq> i"
  by (simp add: l0_reset tst_reset)

lemma bitmap_inv_reset:
  assumes inv: "bitmap_inv s" and i: "unat i < 65536"
  shows "bitmap_inv (bm_reset s i)"
proof -
  let ?w0 = "drop_bit 6 i" and ?w1 = "drop_bit 6 (drop_bit 6 i)"
  have w1: "unat ?w1 < 16" using i by (simp add: unat_shr del: drop_bit_drop_bit)
  note l0 = l0_reset [of s i]
  have l1: "l1 (bm_reset s i) = (if l0 (bm_reset s i) ?w0 \<noteq> 0 then l1 s else
       (l1 s)(?w1 := l1 s ?w1 AND NOT (2 ^ unat (?w0 AND 63))))"
    by (simp add: bm_reset_def Let_def)
  have l2: "l2 (bm_reset s i) = (if l0 (bm_reset s i) ?w0 \<noteq> 0 \<or> l1 (bm_reset s i) ?w1 \<noteq> 0 then l2 s else
       l2 s AND NOT (2 ^ unat ?w1))"
    by (simp add: bm_reset_def Let_def del: drop_bit_drop_bit)
  have t1: "tst (l1 (bm_reset s i)) w \<longleftrightarrow> tst (l1 s) w \<and> (w = ?w0 \<longrightarrow> l0 (bm_reset s i) ?w0 \<noteq> 0)" for w
    by (auto simp: l1 tst_reset simp del: drop_bit_drop_bit)
  have n0: "l0 (bm_reset s i) ?w0 \<noteq> 0 \<Longrightarrow> l0 s ?w0 \<noteq> 0" by (auto simp: l0)
  have b2: "bit (l2 (bm_reset s i)) (unat w) \<longleftrightarrow> bit (l2 s) (unat w) \<and>
     (w = ?w1 \<longrightarrow> l0 (bm_reset s i) ?w0 \<noteq> 0 \<or> l1 (bm_reset s i) ?w1 \<noteq> 0)" for w
    using w1 by (auto simp: l2 bit_simps word_unat_eq_iff dest: bit_u64_less simp del: drop_bit_drop_bit)
  show ?thesis
    unfolding bitmap_inv_def
  proof (intro conjI allI impI)
    fix w :: u32 assume w: "unat w < 1024"
    show "tst (l1 (bm_reset s i)) w \<longleftrightarrow> l0 (bm_reset s i) w \<noteq> 0"
      using inv w n0 unfolding t1 bitmap_inv_def by (cases "w = ?w0") (auto simp: l0)
  next
    fix w :: u32 assume w: "unat w < 16"
    then have b: "bit (l2 s) (unat w) \<longleftrightarrow> l1 s w \<noteq> 0" by (rule l2_nonzero [OF inv])
    show "bit (l2 (bm_reset s i)) (unat w) \<longleftrightarrow> l1 (bm_reset s i) w \<noteq> 0"
      using b by (cases "w = ?w1") (auto simp: b2 l1 simp del: drop_bit_drop_bit)
  qed
qed

section \<open>The bitmap as a set of 16-bit indices\<close>

definition bm_elems :: "PriceBitmapStorage \<Rightarrow> u16 set" where
  "bm_elems s = {i. bm_test s (ucast i)}"

lemma ucast_u16_valid: "(ucast (i :: u16) :: u32) \<noteq> kInvalid"
proof
  assume "(ucast i :: u32) = kInvalid"
  then have "unat i = unat kInvalid" by (metis unat_ucast_u16)
  then show False using u16_less [of i] by (simp add: kInvalid_def)
qed

lemma elems_tst: "i \<in> bm_elems s \<longleftrightarrow> tst (l0 s) (ucast i)"
  by (simp add: bm_elems_def bm_test_tst)

lemma bm_test_elems: "bm_test s (ucast i) \<longleftrightarrow> i \<in> bm_elems s"
  by (simp add: bm_elems_def)


lemma findHighest_elems:
  assumes inv: "bitmap_inv s"
  shows "findHighestAtOrBelow s (ucast i) =
    (if {j \<in> bm_elems s. j \<le> i} = {} then kInvalid else ucast (Max {j \<in> bm_elems s. j \<le> i}))"
proof -
  have le: "unat (ucast j :: u32) < Suc (unat (ucast i :: u32)) \<longleftrightarrow> j \<le> i" for j :: u16
    by (simp add: word_le_nat_alt less_Suc_eq_le)
  from findHighest_cases [OF inv, of "ucast i"] u16_less [of i]
  consider "findHighestAtOrBelow s (ucast i) = kInvalid" "\<forall>j. unat j < Suc (unat (ucast i :: u32)) \<longrightarrow> \<not> tst (l0 s) j"
    | "greatest_below (l0 s) (Suc (unat (ucast i :: u32))) (findHighestAtOrBelow s (ucast i))" by auto
  then show ?thesis
  proof cases
    case 1
    then have "{j \<in> bm_elems s. j \<le> i} = {}" using le by (auto simp: elems_tst)
    with 1 show ?thesis by simp
  next
    case 2
    then have "unat (findHighestAtOrBelow s (ucast i)) < 65536"
      using u16_less [of i] by (simp add: greatest_below_def)
    then obtain r :: u16 where r: "findHighestAtOrBelow s (ucast i) = ucast r" using u32_as_u16 by blast
    with 2 le have "r \<in> {j \<in> bm_elems s. j \<le> i}" by (auto simp: greatest_below_def elems_tst)
    moreover have "j \<le> r" if "j \<in> {j \<in> bm_elems s. j \<le> i}" for j
      using 2 r that le [of j] by (auto simp: greatest_below_def elems_tst word_le_nat_alt)
    ultimately have "Max {j \<in> bm_elems s. j \<le> i} = r" by (rule Max_u16I)
    with \<open>r \<in> _\<close> r show ?thesis by auto
  qed
qed

lemma findLowest_elems:
  assumes inv: "bitmap_inv s"
  shows "findLowestAtOrAbove s (ucast i) =
    (if {j \<in> bm_elems s. i \<le> j} = {} then kInvalid else ucast (Min {j \<in> bm_elems s. i \<le> j}))"
proof -
  from findLowest_cases [OF inv, of "ucast i"] u16_less [of i]
  consider "findLowestAtOrAbove s (ucast i) = kInvalid"
      "\<forall>j. unat i \<le> unat j \<and> unat j < 65536 \<longrightarrow> \<not> tst (l0 s) j"
    | "least_from (l0 s) (unat i) (findLowestAtOrAbove s (ucast i))"
      "unat (findLowestAtOrAbove s (ucast i)) < 65536" by auto
  then show ?thesis
  proof cases
    case 1
    then have "{j \<in> bm_elems s. i \<le> j} = {}" using u16_less by (auto simp: elems_tst word_le_nat_alt)
    with 1 show ?thesis by simp
  next
    case 2
    then obtain r :: u16 where r: "findLowestAtOrAbove s (ucast i) = ucast r" using u32_as_u16 by blast
    with 2 have "r \<in> {j \<in> bm_elems s. i \<le> j}" by (auto simp: least_from_def elems_tst word_le_nat_alt)
    moreover have "r \<le> j" if "j \<in> {j \<in> bm_elems s. i \<le> j}" for j
      using 2 r that by (auto simp: least_from_def elems_tst word_le_nat_alt)
    ultimately have "Min {j \<in> bm_elems s. i \<le> j} = r" by (intro Min_eqI) (auto intro: finite)
    with \<open>r \<in> _\<close> r show ?thesis by auto
  qed
qed

lemma elems_set [simp]: "bm_elems (bm_set s (ucast i)) = insert i (bm_elems s)"
  by (auto simp: elems_tst)

lemma elems_reset [simp]: "bm_elems (bm_reset s (ucast i)) = bm_elems s - {i}"
  by (auto simp: elems_tst)

lemma elems_zero [simp]: "bm_elems zeroStorage = {}"
  by (simp add: bm_elems_def bm_test_tst tst_def zeroStorage_def)

lemma bitmap_inv_zero [simp]: "bitmap_inv zeroStorage"
  by (simp add: bitmap_inv_def zeroStorage_def tst_def)

lemma bm_empty_elems:
  assumes inv: "bitmap_inv s"
  shows "bm_empty s \<longleftrightarrow> bm_elems s = {}"
proof -
  have l2: "bm_empty s \<longleftrightarrow> (\<forall>n<16. \<not> bit (l2 s) n)"
    by (auto simp: bm_empty_def bit_eq_iff bit_and_iff bit_kValidL2Mask dest: bit_u64_less)
  show ?thesis
  proof
    assume e: "bm_empty s"
    show "bm_elems s = {}"
    proof (rule ccontr)
      assume "bm_elems s \<noteq> {}"
      then obtain i :: u16 where i: "tst (l0 s) (ucast i)" by (auto simp: elems_tst)
      define w0 w1 where "w0 = drop_bit 6 (ucast i :: u32)" and "w1 = drop_bit 6 w0"
      have w0: "unat w0 < 1024" using u16_less [of i] by (simp add: w0_def word_nat)
      then have w1: "unat w1 < 16" by (simp add: w1_def word_nat)
      have "l0 s w0 \<noteq> 0" using i by (auto simp: tst_def w0_def)
      with inv w0 have "tst (l1 s) w0" by (simp add: bitmap_inv_def)
      then have "l1 s w1 \<noteq> 0" by (auto simp: tst_def w1_def)
      with l2_nonzero [OF inv w1] w1 l2 e show False by blast
    qed
  next
    assume e: "bm_elems s = {}"
    have "l1 s w = 0" if w: "unat w < 16" for w
    proof (rule ccontr)
      assume "l1 s w \<noteq> 0"
      note b = bitLow_spec [OF this]
      define v where "v = slot w (bitLow (l1 s w))"
      have v: "unat v < 1024" using b w by (simp add: v_def unat_slot)
      have "tst (l1 s) v" using b w by (simp add: v_def tst_slot)
      with inv v have "l0 s v \<noteq> 0" by (simp add: bitmap_inv_def)
      note c = bitLow_spec [OF this]
      have "tst (l0 s) (slot v (bitLow (l0 s v)))" "unat (slot v (bitLow (l0 s v))) < 65536"
        using c v by (simp_all add: tst_slot unat_slot)
      then show False using u32_as_u16 [of "slot v (bitLow (l0 s v))"] e elems_tst [of _ s] by auto
    qed
    moreover have "unat (of_nat n :: u32) = n" if "n < 16" for n
      using that by (simp add: unat_of_nat)
    ultimately show "bm_empty s"
      unfolding l2 using l2_nonzero [OF inv] by metis
  qed
qed

lemma observed_highest_loads: "snd (findHighestAtOrBelowObserved Suc s idx n) \<le> n + kMaxSearchWordLoads"
  by (simp add: findHighestAtOrBelowObserved_def loadWord_def Let_def kMaxSearchWordLoads_def)

lemma observed_lowest_loads: "snd (findLowestAtOrAboveObserved Suc s idx n) \<le> n + kMaxSearchWordLoads"
  by (simp add: findLowestAtOrAboveObserved_def loadWord_def Let_def kMaxSearchWordLoads_def)

lemma observer_irrelevant:
  "fst (findHighestAtOrBelowObserved f s idx obs) = findHighestAtOrBelow s idx"
  "fst (findLowestAtOrAboveObserved f s idx obs) = findLowestAtOrAbove s idx"
  by (simp_all add: findHighestAtOrBelow_def findHighestAtOrBelowObserved_def
        findLowestAtOrAbove_def findLowestAtOrAboveObserved_def loadWord_def Let_def)

section \<open>Interface\<close>

text \<open>
  What a client of the bitmap relies on: a set of 16-bit indices with insertion, removal,
  membership, an emptiness test and the two nearest-element searches. The derived lemmas are the
  forms the price-level store uses: it asks for the nearest element strictly below or above an index
  after guarding against the ends of the range.
\<close>

locale ordered_bitmap =
  fixes inv :: "'s \<Rightarrow> bool"
    and elems :: "'s \<Rightarrow> u16 set"
    and zero :: 's
    and insert_at :: "'s \<Rightarrow> u32 \<Rightarrow> 's"
    and remove_at :: "'s \<Rightarrow> u32 \<Rightarrow> 's"
    and member :: "'s \<Rightarrow> u32 \<Rightarrow> bool"
    and is_empty :: "'s \<Rightarrow> bool"
    and at_or_below :: "'s \<Rightarrow> u32 \<Rightarrow> u32"
    and at_or_above :: "'s \<Rightarrow> u32 \<Rightarrow> u32"
  assumes inv_zero: "inv zero"
    and elems_zero: "elems zero = {}"
    and inv_insert: "inv s \<Longrightarrow> inv (insert_at s (ucast i))"
    and elems_insert: "elems (insert_at s (ucast i)) = insert i (elems s)"
    and inv_remove: "inv s \<Longrightarrow> inv (remove_at s (ucast i))"
    and elems_remove: "elems (remove_at s (ucast i)) = elems s - {i}"
    and member_elems: "member s (ucast i) \<longleftrightarrow> i \<in> elems s"
    and is_empty_elems: "inv s \<Longrightarrow> is_empty s \<longleftrightarrow> elems s = {}"
    and below: "inv s \<Longrightarrow> at_or_below s (ucast i) =
      (if {j \<in> elems s. j \<le> i} = {} then kInvalid else ucast (Max {j \<in> elems s. j \<le> i}))"
    and above: "inv s \<Longrightarrow> at_or_above s (ucast i) =
      (if {j \<in> elems s. i \<le> j} = {} then kInvalid else ucast (Min {j \<in> elems s. i \<le> j}))"
begin

lemma strictly_below:
  assumes "inv s" and "i \<noteq> 0"
  shows "at_or_below s (ucast i - 1) =
    (if {j \<in> elems s. j < i} = {} then kInvalid else ucast (Max {j \<in> elems s. j < i}))"
proof -
  have *: "(ucast i - 1 :: u32) = ucast (i - 1)"
    using assms(2) by (simp add: word_unat_eq_iff unat_sub unat_minus_one)
  have "0 < unat i" using assms(2) by (simp add: unat_gt_0)
  then have "{j \<in> elems s. j < i} = {j \<in> elems s. j \<le> i - 1}"
    using assms(2) by (auto simp: word_le_nat_alt word_less_nat_alt unat_minus_one)
  then show ?thesis by (simp only: * below [OF assms(1)])
qed

lemma strictly_above:
  assumes "inv s" and "i \<noteq> u16_max"
  shows "at_or_above s (ucast i + 1) =
    (if {j \<in> elems s. i < j} = {} then kInvalid else ucast (Min {j \<in> elems s. i < j}))"
proof -
  have i: "unat i < 65535" using assms(2) u16_less [of i] by (simp add: word_unat_eq_iff)
  then have s: "unat (i + 1) = Suc (unat i)" by (simp add: unat_word_ariths)
  then have *: "(ucast i + 1 :: u32) = ucast (i + 1)"
    using i by (simp add: word_unat_eq_iff unat_word_ariths)
  have "{j \<in> elems s. i < j} = {j \<in> elems s. i + 1 \<le> j}"
    using s by (auto simp: word_le_nat_alt word_less_nat_alt)
  then show ?thesis by (simp only: * above [OF assms(1)])
qed

end

interpretation bm: ordered_bitmap bitmap_inv bm_elems zeroStorage bm_set bm_reset bm_test bm_empty
    findHighestAtOrBelow findLowestAtOrAbove
  by unfold_locales
    (simp_all add: bitmap_inv_set bitmap_inv_reset u16_less bm_empty_elems findHighest_elems findLowest_elems bm_test_elems)

section \<open>Properties\<close>

text \<open>Sequences of updates, as any client can issue them on a fresh bitmap.\<close>

datatype bm_op = SetBit u16 | ResetBit u16

primrec bm_run :: "PriceBitmapStorage \<Rightarrow> bm_op list \<Rightarrow> PriceBitmapStorage" where
  "bm_run s [] = s"
| "bm_run s (x # xs) =
     bm_run (case x of SetBit i \<Rightarrow> bm_set s (ucast i) | ResetBit i \<Rightarrow> bm_reset s (ucast i)) xs"

primrec set_run :: "u16 set \<Rightarrow> bm_op list \<Rightarrow> u16 set" where
  "set_run A [] = A"
| "set_run A (x # xs) = set_run (case x of SetBit i \<Rightarrow> insert i A | ResetBit i \<Rightarrow> A - {i}) xs"

lemma bm_run_refines: "bitmap_inv s \<Longrightarrow> bitmap_inv (bm_run s xs) \<and> bm_elems (bm_run s xs) = set_run (bm_elems s) xs"
  by (induction xs arbitrary: s) (auto simp: bm.inv_insert bm.inv_remove split: bm_op.split)

text \<open>C39. Any sequence of \<open>set\<close> and \<open>reset\<close> calls on a zero-filled bitmap leaves all three levels
  consistent (a summary bit is set exactly when its word is not zero), and the members that
  \<open>test\<close> reports are exactly those of a set on which the same insertions and removals were
  performed; \<open>empty\<close> is emptiness of that set.\<close>

theorem bitmap_refines_set:
  "bitmap_inv (bm_run zeroStorage xs) \<and>
   (\<forall>i. bm_test (bm_run zeroStorage xs) (ucast i) \<longleftrightarrow> i \<in> set_run {} xs) \<and>
   (bm_empty (bm_run zeroStorage xs) \<longleftrightarrow> set_run {} xs = {})"
  using bm_run_refines [of zeroStorage xs] by (simp add: bm.member_elems bm.is_empty_elems)

text \<open>On a consistent bitmap the two hierarchical searches are exact: the predecessor search
  returns the greatest member at or below the index and the successor search the least member at or
  above it, and the invalid marker is returned exactly when there is none. This holds at every
  16-bit index, at word and block boundaries alike.\<close>

theorem bitmap_search_exact:
  assumes "bitmap_inv s"
  shows "findHighestAtOrBelow s (ucast i) =
           (if {j \<in> bm_elems s. j \<le> i} = {} then kInvalid else ucast (Max {j \<in> bm_elems s. j \<le> i})) \<and>
         findLowestAtOrAbove s (ucast i) =
           (if {j \<in> bm_elems s. i \<le> j} = {} then kInvalid else ucast (Min {j \<in> bm_elems s. i \<le> j}))"
  using bm.below [OF assms] bm.above [OF assms] by simp

theorem bitmap_search_exact_witness:
  "findHighestAtOrBelow (bm_run zeroStorage [SetBit 5, SetBit 9000, SetBit 70, ResetBit 70]) (ucast (8999 :: u16)) = 5 \<and>
   findLowestAtOrAbove (bm_run zeroStorage [SetBit 5, SetBit 9000, SetBit 70, ResetBit 70]) (ucast (6 :: u16)) = 9000"
proof -
  let ?s = "bm_run zeroStorage [SetBit 5, SetBit 9000, SetBit 70, ResetBit 70]"
  have inv: "bitmap_inv ?s" and el: "bm_elems ?s = {5, 9000}"
    using bm_run_refines [of zeroStorage "[SetBit 5, SetBit 9000, SetBit 70, ResetBit 70]"] by auto
  have "{j \<in> bm_elems ?s. j \<le> 8999} = {5}" "{j \<in> bm_elems ?s. 6 \<le> j} = {9000}"
    unfolding el by auto
  then show ?thesis
    using bitmap_search_exact [OF inv, of 8999] bitmap_search_exact [OF inv, of 6] by simp
qed

text \<open>A search loads at most \<open>kMaxSearchWordLoads\<close> (five) words, whatever the bitmap and the
  index, and the observer that counts the loads does not change the result.\<close>

theorem bitmap_search_loads_bounded:
  "snd (findHighestAtOrBelowObserved Suc s idx 0) \<le> kMaxSearchWordLoads \<and>
   snd (findLowestAtOrAboveObserved Suc s idx 0) \<le> kMaxSearchWordLoads \<and>
   fst (findHighestAtOrBelowObserved Suc s idx 0) = findHighestAtOrBelow s idx \<and>
   fst (findLowestAtOrAboveObserved Suc s idx 0) = findLowestAtOrAbove s idx"
  using observed_highest_loads [of s idx 0] observed_lowest_loads [of s idx 0]
  by (simp add: observer_irrelevant)

end
