(* ===== verification/PriceLevelStore.thy ===== *)
theory PriceLevelStore
  imports BookTypes PriceBitmap
begin

text \<open>
  Model of \<open>PriceLevelStore.hpp\<close> and \<open>PriceLevelStore.cpp\<close>: the process-wide arena of price pages.
  A 32-bit raw price splits into a page index and a level index; a root table maps
  (stock locate, page index) to a page handle; pages hold the aggregate quantity and order count
  of each level and side; compact summaries and bitmaps cache which levels and pages are
  active and which price is best.

  The memory-mapped arenas are functions of the index the code computes. References into an
  arena become a read accessor and, where the code writes through them, a matching update
  (\<open>pageSummary\<close> and \<open>set_pageSummary\<close>, and so on). A method returns its result together with the
  new store; a \<open>const\<close> method that touches nothing returns its result alone, and \<open>reservePrice\<close>,
  which bumps a \<open>mutable\<close> counter, returns both.
\<close>

section \<open>Layout\<close>

type_synonym PricePageHandle = u32

definition kInvalidPricePageHandle :: PricePageHandle where "kInvalidPricePageHandle = 0"
definition kPricePartBits :: nat where "kPricePartBits = 16"
definition kPricePartCount :: u32 where "kPricePartCount = push_bit kPricePartBits 1"
definition kTopLevelCount :: nat where "kTopLevelCount = 10"

record PriceParts =
  pp_page_index :: u16
  pp_level_index :: u16

definition splitPrice :: "u32 \<Rightarrow> PriceParts" where
  "splitPrice price = \<lparr>pp_page_index = ucast (drop_bit kPricePartBits price),
                       pp_level_index = ucast (price AND 0xffff)\<rparr>"

definition joinPrice :: "u16 \<Rightarrow> u16 \<Rightarrow> u32" where
  "joinPrice page_index level_index = push_bit kPricePartBits (ucast page_index) OR ucast level_index"

definition priceRootIndex :: "u16 \<Rightarrow> u16 \<Rightarrow> u64" where
  "priceRootIndex stock_locate page_index =
     push_bit kPricePartBits (ucast stock_locate) OR ucast page_index"

record PriceLevelState =
  total_qty :: u64
  order_count :: u32

record PricePage =
  bids :: "u16 \<Rightarrow> PriceLevelState"
  asks :: "u16 \<Rightarrow> PriceLevelState"

record PriceAddress =
  page_handle :: PricePageHandle
  level_index :: u16

definition address_valid :: "PriceAddress \<Rightarrow> bool" where
  "address_valid a = (page_handle a \<noteq> kInvalidPricePageHandle)"

record PricePageReservation =
  res_result :: MutationResult
  res_address :: PriceAddress
  res_stock_locate :: u16
  res_page_index :: u16
  res_expected_committed_pages :: u32
  res_requires_commit :: bool

definition defaultPriceReservation :: PricePageReservation where
  "defaultPriceReservation = \<lparr>res_result = InvariantViolation,
     res_address = \<lparr>page_handle = kInvalidPricePageHandle, level_index = 0\<rparr>,
     res_stock_locate = 0, res_page_index = 0, res_expected_committed_pages = 0,
     res_requires_commit = False\<rparr>"

definition price_reservation_valid :: "PricePageReservation \<Rightarrow> bool" where
  "price_reservation_valid r = (res_result r = Applied \<and> address_valid (res_address r))"

record PriceLevelCursor =
  cur_page_handle :: PricePageHandle
  cur_raw_price :: u32
  cur_stock_locate :: u16
  cur_valid :: bool

definition noCursor :: PriceLevelCursor where
  "noCursor = \<lparr>cur_page_handle = kInvalidPricePageHandle, cur_raw_price = 0, cur_stock_locate = 0,
     cur_valid = False\<rparr>"

record PriceLevelView =
  view_raw_price :: u32
  view_total_qty :: u64
  view_order_count :: u32
  view_valid :: bool

definition noView :: PriceLevelView where
  "noView = \<lparr>view_raw_price = 0, view_total_qty = 0, view_order_count = 0, view_valid = False\<rparr>"

record PriceLevelStoreConfig =
  page_capacity :: u32
  pls_prefault :: bool

record PriceLevelStoreCounters =
  cnt_page_capacity :: u32
  cnt_committed_pages :: u32
  cnt_prepared_books :: u32
  cnt_page_capacity_failures :: u64

record PageOwner =
  own_stock_locate :: u16
  own_page_index :: u16
  own_committed :: u32

record PageSideSummary =
  best_level_index :: u32
  active_levels :: u32

record BookSideSummary =
  best_raw_price :: u32
  best_page_handle :: PricePageHandle
  active_pages :: u32

record DeactivationPlan =
  next_level_index :: u32
  next_book_raw_price :: u32
  next_book_page_handle :: PricePageHandle
  page_becomes_empty :: bool
  page_best_changes :: bool
  book_best_changes :: bool

definition emptyPlan :: DeactivationPlan where
  "emptyPlan = \<lparr>next_level_index = kInvalid, next_book_raw_price = 0,
     next_book_page_handle = kInvalidPricePageHandle, page_becomes_empty = False,
     page_best_changes = False, book_best_changes = False\<rparr>"

record PriceLevelStore =
  pls_config :: PriceLevelStoreConfig
  roots :: "u64 \<Rightarrow> PricePageHandle"
  prepared_books :: "u16 \<Rightarrow> u8"
  pages :: "u32 \<Rightarrow> PricePage"
  page_owners :: "u32 \<Rightarrow> PageOwner"
  page_summaries :: "u32 \<Rightarrow> u32 \<Rightarrow> PageSideSummary"
  page_occupancy :: "u64 \<Rightarrow> PriceBitmapStorage"
  book_summaries :: "u16 \<Rightarrow> u32 \<Rightarrow> BookSideSummary"
  book_occupancy :: "u32 \<Rightarrow> PriceBitmapStorage"
  committed_pages :: u32
  prepared_book_count :: u32
  page_capacity_failures :: u64

section \<open>Construction\<close>

text \<open>\<open>validatedConfig\<close> throws \<open>std::invalid_argument\<close> on a capacity outside
  \<open>[1, UINT32_MAX - 1]\<close>: the model returns no store.\<close>

definition validatedPriceConfig :: "PriceLevelStoreConfig \<Rightarrow> PriceLevelStoreConfig option" where
  "validatedPriceConfig config =
     (if page_capacity config = 0 \<or> page_capacity config = u32_max then None else Some config)"

definition zeroLevel :: PriceLevelState where "zeroLevel = \<lparr>total_qty = 0, order_count = 0\<rparr>"
definition zeroPage :: PricePage where "zeroPage = \<lparr>bids = (\<lambda>_. zeroLevel), asks = (\<lambda>_. zeroLevel)\<rparr>"
definition zeroOwner :: PageOwner where
  "zeroOwner = \<lparr>own_stock_locate = 0, own_page_index = 0, own_committed = 0\<rparr>"
definition zeroPageSummary :: PageSideSummary where
  "zeroPageSummary = \<lparr>best_level_index = 0, active_levels = 0\<rparr>"
definition zeroBookSummary :: BookSideSummary where
  "zeroBookSummary = \<lparr>best_raw_price = 0, best_page_handle = 0, active_pages = 0\<rparr>"

definition newPriceLevelStore :: "PriceLevelStoreConfig \<Rightarrow> PriceLevelStore option" where
  "newPriceLevelStore config =
     map_option (\<lambda>c. \<lparr>pls_config = c, roots = (\<lambda>_. 0), prepared_books = (\<lambda>_. 0),
        pages = (\<lambda>_. zeroPage), page_owners = (\<lambda>_. zeroOwner),
        page_summaries = (\<lambda>_ _. zeroPageSummary), page_occupancy = (\<lambda>_. zeroStorage),
        book_summaries = (\<lambda>_ _. zeroBookSummary), book_occupancy = (\<lambda>_. zeroStorage),
        committed_pages = 0, prepared_book_count = 0, page_capacity_failures = 0\<rparr>)
       (validatedPriceConfig config)"

section \<open>Accessors\<close>

definition validSide :: "OrderSide \<Rightarrow> bool" where
  "validSide side = (side = Buy \<or> side = Sell)"

definition sideIndex :: "OrderSide \<Rightarrow> u32" where
  "sideIndex side = (if side = Buy then 0 else 1)"

definition better :: "OrderSide \<Rightarrow> u32 \<Rightarrow> u32 \<Rightarrow> bool" where
  "better side lhs rhs = (if side = Buy then lhs > rhs else lhs < rhs)"

definition pageSideIndex :: "PricePageHandle \<Rightarrow> OrderSide \<Rightarrow> u64" where
  "pageSideIndex handle side = ucast handle * 2 + ucast (sideIndex side)"

definition bookSideIndex :: "u16 \<Rightarrow> OrderSide \<Rightarrow> u32" where
  "bookSideIndex stock_locate side = ucast stock_locate * 2 + sideIndex side"

definition pageSummary :: "PriceLevelStore \<Rightarrow> PricePageHandle \<Rightarrow> OrderSide \<Rightarrow> PageSideSummary" where
  "pageSummary s handle side = page_summaries s handle (sideIndex side)"

definition set_pageSummary ::
    "PriceLevelStore \<Rightarrow> PricePageHandle \<Rightarrow> OrderSide \<Rightarrow> PageSideSummary \<Rightarrow> PriceLevelStore" where
  "set_pageSummary s handle side v =
     s\<lparr>page_summaries := (page_summaries s)
         (handle := (page_summaries s handle)(sideIndex side := v))\<rparr>"

definition pageOccupancy :: "PriceLevelStore \<Rightarrow> PricePageHandle \<Rightarrow> OrderSide \<Rightarrow> PriceBitmapStorage" where
  "pageOccupancy s handle side = page_occupancy s (pageSideIndex handle side)"

definition set_pageOccupancy ::
    "PriceLevelStore \<Rightarrow> PricePageHandle \<Rightarrow> OrderSide \<Rightarrow> PriceBitmapStorage \<Rightarrow> PriceLevelStore" where
  "set_pageOccupancy s handle side v =
     s\<lparr>page_occupancy := (page_occupancy s)(pageSideIndex handle side := v)\<rparr>"

definition bookSummary :: "PriceLevelStore \<Rightarrow> u16 \<Rightarrow> OrderSide \<Rightarrow> BookSideSummary" where
  "bookSummary s stock_locate side = book_summaries s stock_locate (sideIndex side)"

definition set_bookSummary ::
    "PriceLevelStore \<Rightarrow> u16 \<Rightarrow> OrderSide \<Rightarrow> BookSideSummary \<Rightarrow> PriceLevelStore" where
  "set_bookSummary s stock_locate side v =
     s\<lparr>book_summaries := (book_summaries s)
         (stock_locate := (book_summaries s stock_locate)(sideIndex side := v))\<rparr>"

definition bookOccupancy :: "PriceLevelStore \<Rightarrow> u16 \<Rightarrow> OrderSide \<Rightarrow> PriceBitmapStorage" where
  "bookOccupancy s stock_locate side = book_occupancy s (bookSideIndex stock_locate side)"

definition set_bookOccupancy ::
    "PriceLevelStore \<Rightarrow> u16 \<Rightarrow> OrderSide \<Rightarrow> PriceBitmapStorage \<Rightarrow> PriceLevelStore" where
  "set_bookOccupancy s stock_locate side v =
     s\<lparr>book_occupancy := (book_occupancy s)(bookSideIndex stock_locate side := v)\<rparr>"

definition pls_page :: "PriceLevelStore \<Rightarrow> PricePageHandle \<Rightarrow> PricePage option" where
  "pls_page s handle =
     (if handle = kInvalidPricePageHandle \<or> handle > committed_pages s then None
      else Some (pages s (handle - 1)))"

definition levelUnchecked :: "PriceLevelStore \<Rightarrow> PriceAddress \<Rightarrow> OrderSide \<Rightarrow> PriceLevelState" where
  "levelUnchecked s a side =
     (let price_page = pages s (page_handle a - 1)
      in if side = Buy then bids price_page (level_index a) else asks price_page (level_index a))"

definition set_level ::
    "PriceLevelStore \<Rightarrow> PriceAddress \<Rightarrow> OrderSide \<Rightarrow> PriceLevelState \<Rightarrow> PriceLevelStore" where
  "set_level s a side v =
     (let i = page_handle a - 1; p = pages s i
      in s\<lparr>pages := (pages s)(i :=
           (if side = Buy then p\<lparr>bids := (bids p)(level_index a := v)\<rparr>
            else p\<lparr>asks := (asks p)(level_index a := v)\<rparr>))\<rparr>)"

definition pls_owner :: "PriceLevelStore \<Rightarrow> PricePageHandle \<Rightarrow> PageOwner option" where
  "pls_owner s handle =
     (if handle = kInvalidPricePageHandle \<or> handle > committed_pages s then None
      else Some (page_owners s handle))"

definition rootHandleMatches :: "PriceLevelStore \<Rightarrow> u16 \<Rightarrow> u16 \<Rightarrow> PricePageHandle \<Rightarrow> bool" where
  "rootHandleMatches s stock_locate page_index handle =
     (case pls_owner s handle of None \<Rightarrow> False
      | Some page_owner \<Rightarrow> own_committed page_owner \<noteq> 0 \<and>
          own_stock_locate page_owner = stock_locate \<and> own_page_index page_owner = page_index)"

section \<open>Book preparation and page reservation\<close>

definition prepareBook :: "PriceLevelStore \<Rightarrow> u16 \<Rightarrow> MutationResult \<times> PriceLevelStore" where
  "prepareBook s stock_locate =
     (if \<not> isValidStockLocate stock_locate then (InvalidLocate, s)
      else if prepared_books s stock_locate = 0 then
        (Applied, s\<lparr>prepared_books := (prepared_books s)(stock_locate := 1),
                    prepared_book_count := prepared_book_count s + 1\<rparr>)
      else (Applied, s))"

definition isBookPrepared :: "PriceLevelStore \<Rightarrow> u16 \<Rightarrow> bool" where
  "isBookPrepared s stock_locate =
     (isValidStockLocate stock_locate \<and> prepared_books s stock_locate \<noteq> 0)"

definition pageHandle :: "PriceLevelStore \<Rightarrow> u16 \<Rightarrow> u16 \<Rightarrow> PricePageHandle" where
  "pageHandle s stock_locate page_index =
     (if \<not> isValidStockLocate stock_locate then kInvalidPricePageHandle
      else let handle = roots s (priceRootIndex stock_locate page_index)
           in if rootHandleMatches s stock_locate page_index handle then handle
              else kInvalidPricePageHandle)"

definition ownsAddress :: "PriceLevelStore \<Rightarrow> u16 \<Rightarrow> u16 \<Rightarrow> PriceAddress \<Rightarrow> bool" where
  "ownsAddress s stock_locate page_index a =
     (if \<not> isValidStockLocate stock_locate then False
      else case pls_owner s (page_handle a) of None \<Rightarrow> False
           | Some page_owner \<Rightarrow> own_committed page_owner \<noteq> 0 \<and>
               own_stock_locate page_owner = stock_locate \<and> own_page_index page_owner = page_index)"

definition reservePrice :: "PriceLevelStore \<Rightarrow> u16 \<Rightarrow> u32 \<Rightarrow> PricePageReservation \<times> PriceLevelStore" where
  "reservePrice s stock_locate raw_price =
     (let r0 = defaultPriceReservation
      in if \<not> isValidStockLocate stock_locate then (r0\<lparr>res_result := InvalidLocate\<rparr>, s)
         else if \<not> isBookPrepared s stock_locate then (r0\<lparr>res_result := BookNotPrepared\<rparr>, s)
         else
           let parts = splitPrice raw_price;
               r1 = r0\<lparr>res_stock_locate := stock_locate,
                       res_page_index := pp_page_index parts,
                       res_address := (res_address r0)\<lparr>level_index := pp_level_index parts\<rparr>,
                       res_expected_committed_pages := committed_pages s\<rparr>;
               existing = roots s (priceRootIndex stock_locate (pp_page_index parts))
           in if existing \<noteq> kInvalidPricePageHandle then
                (if \<not> rootHandleMatches s stock_locate (pp_page_index parts) existing then
                   (r1\<lparr>res_result := InvariantViolation\<rparr>, s)
                 else (r1\<lparr>res_address := (res_address r1)\<lparr>page_handle := existing\<rparr>,
                          res_requires_commit := False, res_result := Applied\<rparr>, s))
              else if committed_pages s \<ge> page_capacity (pls_config s) then
                (r1\<lparr>res_result := PricePageCapacityExceeded\<rparr>,
                 s\<lparr>page_capacity_failures := page_capacity_failures s + 1\<rparr>)
              else (r1\<lparr>res_address := (res_address r1)\<lparr>page_handle := committed_pages s + 1\<rparr>,
                       res_requires_commit := True, res_result := Applied\<rparr>, s))"

definition commitReservation ::
    "PriceLevelStore \<Rightarrow> PricePageReservation \<Rightarrow> MutationResult \<times> PriceLevelStore" where
  "commitReservation s r =
     (if res_result r \<noteq> Applied then (res_result r, s)
      else if \<not> address_valid (res_address r) then (InvalidPricePage, s)
      else if \<not> isValidStockLocate (res_stock_locate r) then (InvalidLocate, s)
      else if \<not> isBookPrepared s (res_stock_locate r) then (BookNotPrepared, s)
      else
        let root_index = priceRootIndex (res_stock_locate r) (res_page_index r);
            root = roots s root_index
        in if \<not> res_requires_commit r then
             (if root = page_handle (res_address r) then Applied else StaleReservation, s)
           else if root \<noteq> kInvalidPricePageHandle \<or>
                committed_pages s \<noteq> res_expected_committed_pages r \<or>
                page_handle (res_address r) \<noteq> committed_pages s + 1 \<or>
                page_handle (res_address r) > page_capacity (pls_config s) then
             (StaleReservation, s)
           else
             let handle = page_handle (res_address r)
             in if own_committed (page_owners s handle) \<noteq> 0 then (InvariantViolation, s)
                else (Applied,
                  s\<lparr>page_owners := (page_owners s)(handle :=
                       \<lparr>own_stock_locate = res_stock_locate r, own_page_index = res_page_index r,
                        own_committed = 1\<rparr>),
                    committed_pages := handle,
                    roots := (roots s)(root_index := handle)\<rparr>))"

section \<open>Validation of level mutations\<close>

definition validateAddress :: "PriceLevelStore \<Rightarrow> PriceAddress \<Rightarrow> OrderSide \<Rightarrow> MutationResult" where
  "validateAddress s a side =
     (if \<not> validSide side then InvalidSide
      else if \<not> address_valid a \<or> page_handle a > committed_pages s then InvalidPricePage
      else Applied)"

definition resolveLevel :: "PriceLevelStore \<Rightarrow> PriceAddress \<Rightarrow> OrderSide \<Rightarrow> PriceLevelState option" where
  "resolveLevel s a side =
     (if validateAddress s a side \<noteq> Applied then None else Some (levelUnchecked s a side))"

definition validateActivation :: "PriceLevelStore \<Rightarrow> PriceAddress \<Rightarrow> OrderSide \<Rightarrow> MutationResult" where
  "validateActivation s a side =
     (case pls_owner s (page_handle a) of
        None \<Rightarrow> InvariantViolation
      | Some page_owner \<Rightarrow>
          if own_committed page_owner = 0 \<or> \<not> isValidStockLocate (own_stock_locate page_owner) then
            InvariantViolation
          else
            let page_summary = pageSummary s (page_handle a) side;
                book_summary = bookSummary s (own_stock_locate page_owner) side
            in if active_levels page_summary \<ge> kPricePartCount \<or>
                  (active_levels page_summary \<noteq> 0 \<and>
                   best_level_index page_summary \<ge> kPricePartCount) \<or>
                  (active_levels page_summary = 0 \<and>
                   active_pages book_summary \<ge> kPricePartCount)
               then InvariantViolation else Applied)"

definition validateAdd :: "PriceLevelStore \<Rightarrow> PriceAddress \<Rightarrow> OrderSide \<Rightarrow> u32 \<Rightarrow> MutationResult" where
  "validateAdd s a side qty =
     (let address_result = validateAddress s a side
      in if address_result \<noteq> Applied then address_result
         else if qty = 0 then InvalidQuantity
         else
           let level = levelUnchecked s a side
           in if order_count level = u32_max then OrderCountOverflow
              else if total_qty level > u64_max - ucast qty then QuantityOverflow
              else if (order_count level = 0) \<noteq> (total_qty level = 0) then InvariantViolation
              else if order_count level = 0 then validateActivation s a side
              else Applied)"

definition validateDeactivation ::
    "PriceLevelStore \<Rightarrow> PriceAddress \<Rightarrow> OrderSide \<Rightarrow> MutationResult \<times> DeactivationPlan" where
  "validateDeactivation s a side =
     (case pls_owner s (page_handle a) of
        None \<Rightarrow> (InvariantViolation, emptyPlan)
      | Some page_owner \<Rightarrow>
       if own_committed page_owner = 0 \<or> \<not> isValidStockLocate (own_stock_locate page_owner) then
         (InvariantViolation, emptyPlan)
       else
         let page_summary = pageSummary s (page_handle a) side;
             book_summary = bookSummary s (own_stock_locate page_owner) side;
             book_bitmap = bookOccupancy s (own_stock_locate page_owner) side;
             levels_before = active_levels page_summary
         in if levels_before = 0 \<or> levels_before > kPricePartCount \<or>
               best_level_index page_summary \<ge> kPricePartCount \<or>
               active_pages book_summary = 0 \<or>
               active_pages book_summary > kPricePartCount \<or>
               best_page_handle book_summary = kInvalidPricePageHandle \<or>
               \<not> bm_test book_bitmap (ucast (own_page_index page_owner)) then
              (InvariantViolation, emptyPlan)
            else
         let cached_best = splitPrice (best_raw_price book_summary)
         in case pls_owner s (best_page_handle book_summary) of
              None \<Rightarrow> (InvariantViolation, emptyPlan)
            | Some cached_owner \<Rightarrow>
         if own_committed cached_owner = 0 \<or>
            own_stock_locate cached_owner \<noteq> own_stock_locate page_owner \<or>
            own_page_index cached_owner \<noteq> pp_page_index cached_best then
           (InvariantViolation, emptyPlan)
         else
         let cached_page = pageSummary s (best_page_handle book_summary) side
         in if active_levels cached_page = 0 \<or>
               best_level_index cached_page \<noteq> ucast (pp_level_index cached_best) then
              (InvariantViolation, emptyPlan)
            else
         let cached_level = levelUnchecked s \<lparr>page_handle = best_page_handle book_summary,
                                               level_index = pp_level_index cached_best\<rparr> side
         in if order_count cached_level = 0 \<or> total_qty cached_level = 0 then
              (InvariantViolation, emptyPlan)
            else
         let removed_is_page_best = (best_level_index page_summary = ucast (level_index a));
             page_bitmap = pageOccupancy s (page_handle a) side;
             next_level =
               (if side = Buy then
                  (if level_index a \<noteq> 0
                   then findHighestAtOrBelow page_bitmap (ucast (level_index a) - 1) else kInvalid)
                else if level_index a \<noteq> u16_max
                   then findLowestAtOrAbove page_bitmap (ucast (level_index a) + 1) else kInvalid);
             next_level_state = levelUnchecked s \<lparr>page_handle = page_handle a,
                                                   level_index = ucast next_level\<rparr> side;
             page_step =
               (if levels_before = 1 then
                  (if \<not> removed_is_page_best then (InvariantViolation, emptyPlan)
                   else (Applied, emptyPlan\<lparr>page_becomes_empty := True\<rparr>))
                else if bm_empty page_bitmap \<or> \<not> bm_test page_bitmap (ucast (level_index a)) \<or>
                        \<not> bm_test page_bitmap (best_level_index page_summary) then
                  (InvariantViolation, emptyPlan)
                else if removed_is_page_best then
                  (if next_level = kInvalid then
                     (InvariantViolation, emptyPlan\<lparr>next_level_index := next_level\<rparr>)
                   else if order_count next_level_state = 0 \<or> total_qty next_level_state = 0 then
                     (InvariantViolation, emptyPlan\<lparr>next_level_index := next_level\<rparr>)
                   else (Applied, emptyPlan\<lparr>next_level_index := next_level,
                                            page_best_changes := True\<rparr>))
                else (Applied, emptyPlan));
             plan = snd page_step
         in if fst page_step \<noteq> Applied then page_step
            else
         let removed_raw = joinPrice (own_page_index page_owner) (level_index a);
             removed_is_book_best = (best_raw_price book_summary = removed_raw)
         in if removed_is_book_best then
              (if best_page_handle book_summary \<noteq> page_handle a \<or> \<not> removed_is_page_best then
                 (InvariantViolation, plan)
               else
                 let plan1 = plan\<lparr>book_best_changes := True\<rparr>
                 in if \<not> page_becomes_empty plan1 then
                      (if \<not> page_best_changes plan1 then (InvariantViolation, plan1)
                       else (Applied, plan1\<lparr>
                               next_book_raw_price := joinPrice (own_page_index page_owner)
                                 (ucast (next_level_index plan1)),
                               next_book_page_handle := page_handle a\<rparr>))
                    else
                      let next_page_index =
                            (if side = Buy then
                               (if own_page_index page_owner \<noteq> 0
                                then findHighestAtOrBelow book_bitmap (ucast (own_page_index page_owner) - 1)
                                else kInvalid)
                             else if own_page_index page_owner \<noteq> u16_max
                                then findLowestAtOrAbove book_bitmap (ucast (own_page_index page_owner) + 1)
                                else kInvalid)
                      in if active_pages book_summary = 1 then
                           (if next_page_index = kInvalid then Applied else InvariantViolation, plan1)
                         else if next_page_index = kInvalid then (InvariantViolation, plan1)
                         else
                           let next_handle = pageHandle s (own_stock_locate page_owner)
                                               (ucast next_page_index)
                           in if next_handle = kInvalidPricePageHandle then (InvariantViolation, plan1)
                              else
                                let next_page = pageSummary s next_handle side
                                in if active_levels next_page = 0 \<or>
                                      best_level_index next_page \<ge> kPricePartCount then
                                     (InvariantViolation, plan1)
                                   else
                                     let next_lv = levelUnchecked s \<lparr>page_handle = next_handle,
                                           level_index = ucast (best_level_index next_page)\<rparr> side
                                     in if order_count next_lv = 0 \<or> total_qty next_lv = 0 then
                                          (InvariantViolation, plan1)
                                        else (Applied, plan1\<lparr>
                                          next_book_raw_price := joinPrice (ucast next_page_index)
                                            (ucast (best_level_index next_page)),
                                          next_book_page_handle := next_handle\<rparr>))
            else if page_becomes_empty plan \<and> active_pages book_summary = 1 then
              (InvariantViolation, plan)
            else (Applied, plan))"

definition validateErase ::
    "PriceLevelStore \<Rightarrow> PriceAddress \<Rightarrow> OrderSide \<Rightarrow> u32 \<Rightarrow> MutationResult \<times> DeactivationPlan" where
  "validateErase s a side qty =
     (let address_result = validateAddress s a side
      in if address_result \<noteq> Applied then (address_result, emptyPlan)
         else if qty = 0 then (InvalidQuantity, emptyPlan)
         else
           let level = levelUnchecked s a side
           in if order_count level = 0 \<or> total_qty level = 0 then (MissingPriceLevel, emptyPlan)
              else if total_qty level < ucast qty then (QuantityUnderflow, emptyPlan)
              else if order_count level = 1 \<and> total_qty level \<noteq> ucast qty then
                (InvariantViolation, emptyPlan)
              else if order_count level > 1 \<and> total_qty level = ucast qty then
                (InvariantViolation, emptyPlan)
              else if order_count level = 1 then validateDeactivation s a side
              else (Applied, emptyPlan))"

section \<open>Level mutations\<close>

definition activateLevel :: "PriceLevelStore \<Rightarrow> PriceAddress \<Rightarrow> OrderSide \<Rightarrow> PriceLevelStore" where
  "activateLevel s a side =
     (let page_owner = page_owners s (page_handle a);
          page_summary = pageSummary s (page_handle a) side;
          page_bitmap = pageOccupancy s (page_handle a) side;
          book_summary = bookSummary s (own_stock_locate page_owner) side;
          book_bitmap = bookOccupancy s (own_stock_locate page_owner) side;
          page_was_empty = (active_levels page_summary = 0);
          book_was_empty = (active_pages book_summary = 0);
          page_bitmap' =
            (if active_levels page_summary = 1 then
               bm_set (bm_set page_bitmap (best_level_index page_summary)) (ucast (level_index a))
             else if active_levels page_summary > 1 then
               bm_set page_bitmap (ucast (level_index a))
             else page_bitmap);
          page_summary1 = page_summary\<lparr>active_levels := active_levels page_summary + 1\<rparr>;
          page_summary' =
            (if page_was_empty \<or>
                better side (ucast (level_index a)) (best_level_index page_summary1)
             then page_summary1\<lparr>best_level_index := ucast (level_index a)\<rparr>
             else page_summary1);
          book_bitmap' =
            (if page_was_empty then bm_set book_bitmap (ucast (own_page_index page_owner))
             else book_bitmap);
          book_summary1 =
            (if page_was_empty then book_summary\<lparr>active_pages := active_pages book_summary + 1\<rparr>
             else book_summary);
          raw_price = joinPrice (own_page_index page_owner) (level_index a);
          book_summary' =
            (if book_was_empty \<or> best_page_handle book_summary1 = kInvalidPricePageHandle \<or>
                better side raw_price (best_raw_price book_summary1)
             then book_summary1\<lparr>best_raw_price := raw_price, best_page_handle := page_handle a\<rparr>
             else book_summary1);
          s1 = set_pageOccupancy s (page_handle a) side page_bitmap';
          s2 = set_pageSummary s1 (page_handle a) side page_summary';
          s3 = set_bookOccupancy s2 (own_stock_locate page_owner) side book_bitmap'
      in set_bookSummary s3 (own_stock_locate page_owner) side book_summary')"

definition deactivateLevel ::
    "PriceLevelStore \<Rightarrow> PriceAddress \<Rightarrow> OrderSide \<Rightarrow> DeactivationPlan \<Rightarrow> PriceLevelStore" where
  "deactivateLevel s a side plan =
     (let page_owner = page_owners s (page_handle a);
          page_summary = pageSummary s (page_handle a) side;
          page_bitmap = pageOccupancy s (page_handle a) side;
          book_summary = bookSummary s (own_stock_locate page_owner) side;
          book_bitmap = bookOccupancy s (own_stock_locate page_owner) side;
          (page_summary', page_bitmap', book_summary1, book_bitmap') =
            (if page_becomes_empty plan then
               (page_summary\<lparr>active_levels := 0, best_level_index := 0\<rparr>, page_bitmap,
                book_summary\<lparr>active_pages := active_pages book_summary - 1\<rparr>,
                bm_reset book_bitmap (ucast (own_page_index page_owner)))
             else
               let page_bitmap1 = bm_reset page_bitmap (ucast (level_index a));
                   page_summary1 = page_summary\<lparr>active_levels := active_levels page_summary - 1\<rparr>;
                   page_summary2 =
                     (if page_best_changes plan
                      then page_summary1\<lparr>best_level_index := next_level_index plan\<rparr>
                      else page_summary1)
               in (page_summary2,
                   (if active_levels page_summary2 = 1
                    then bm_reset page_bitmap1 (best_level_index page_summary2)
                    else page_bitmap1),
                   book_summary, book_bitmap));
          book_summary' =
            (if book_best_changes plan
             then book_summary1\<lparr>best_raw_price := next_book_raw_price plan,
                                best_page_handle := next_book_page_handle plan\<rparr>
             else book_summary1);
          s1 = set_pageSummary s (page_handle a) side page_summary';
          s2 = set_pageOccupancy s1 (page_handle a) side page_bitmap';
          s3 = set_bookOccupancy s2 (own_stock_locate page_owner) side book_bitmap'
      in set_bookSummary s3 (own_stock_locate page_owner) side book_summary')"

definition addValidated :: "PriceLevelStore \<Rightarrow> PriceAddress \<Rightarrow> OrderSide \<Rightarrow> u32 \<Rightarrow> PriceLevelStore" where
  "addValidated s a side qty =
     (let was_empty = (order_count (levelUnchecked s a side) = 0);
          s1 = (if was_empty then activateLevel s a side else s);
          level = levelUnchecked s1 a side
      in set_level s1 a side (level\<lparr>total_qty := total_qty level + ucast qty,
                                    order_count := order_count level + 1\<rparr>))"

definition eraseValidated ::
    "PriceLevelStore \<Rightarrow> PriceAddress \<Rightarrow> OrderSide \<Rightarrow> u32 \<Rightarrow> DeactivationPlan \<Rightarrow> PriceLevelStore" where
  "eraseValidated s a side qty plan =
     (let level = levelUnchecked s a side;
          level_becomes_empty = (order_count level = 1);
          s1 = set_level s a side (level\<lparr>total_qty := total_qty level - ucast qty,
                                         order_count := order_count level - 1\<rparr>)
      in if level_becomes_empty then deactivateLevel s1 a side plan else s1)"

definition pls_add ::
    "PriceLevelStore \<Rightarrow> PriceAddress \<Rightarrow> OrderSide \<Rightarrow> u32 \<Rightarrow> MutationResult \<times> PriceLevelStore" where
  "pls_add s a side qty =
     (let validation = validateAdd s a side qty
      in if validation \<noteq> Applied then (validation, s)
         else (Applied, addValidated s a side qty))"

text \<open>The aggregate checks and the subtraction that \<open>reduce\<close> and \<open>reduceChecked\<close> perform alike once the
  address is accepted.\<close>

definition reduceLevel ::
    "PriceLevelStore \<Rightarrow> PriceAddress \<Rightarrow> OrderSide \<Rightarrow> u32 \<Rightarrow> u32 \<Rightarrow> MutationResult \<times> PriceLevelStore" where
  "reduceLevel s a side current_order_qty reduction_qty =
     (if current_order_qty = 0 \<or> reduction_qty = 0 then (InvalidQuantity, s)
      else if reduction_qty \<ge> current_order_qty then (QuantityUnderflow, s)
      else
        let level = levelUnchecked s a side
        in if order_count level = 0 \<or> total_qty level = 0 then (MissingPriceLevel, s)
           else if total_qty level < ucast current_order_qty then (QuantityUnderflow, s)
           else if order_count level = 1 \<and> total_qty level \<noteq> ucast current_order_qty then
             (InvariantViolation, s)
           else if order_count level > 1 \<and> total_qty level = ucast current_order_qty then
             (InvariantViolation, s)
           else if total_qty level \<le> ucast reduction_qty then (QuantityUnderflow, s)
           else (Applied, set_level s a side
                   (level\<lparr>total_qty := total_qty level - ucast reduction_qty\<rparr>)))"

definition pls_reduce ::
    "PriceLevelStore \<Rightarrow> PriceAddress \<Rightarrow> OrderSide \<Rightarrow> u32 \<Rightarrow> u32 \<Rightarrow> MutationResult \<times> PriceLevelStore" where
  "pls_reduce s a side current_order_qty reduction_qty =
     (let address_result = validateAddress s a side
      in if address_result \<noteq> Applied then (address_result, s)
         else reduceLevel s a side current_order_qty reduction_qty)"

definition reduceChecked ::
    "PriceLevelStore \<Rightarrow> u16 \<Rightarrow> u16 \<Rightarrow> PriceAddress \<Rightarrow> OrderSide \<Rightarrow> u32 \<Rightarrow> u32 \<Rightarrow>
     MutationResult \<times> PriceLevelStore" where
  "reduceChecked s expected_stock_locate expected_page_index a side current_order_qty reduction_qty =
     (if \<not> isValidStockLocate expected_stock_locate then (InvalidLocate, s)
      else
        let address_result = validateAddress s a side
        in if address_result \<noteq> Applied then (address_result, s)
           else
             let page_owner = page_owners s (page_handle a)
             in if own_committed page_owner = 0 \<or>
                   own_stock_locate page_owner \<noteq> expected_stock_locate \<or>
                   own_page_index page_owner \<noteq> expected_page_index then (InvariantViolation, s)
                else reduceLevel s a side current_order_qty reduction_qty)"

definition pls_erase ::
    "PriceLevelStore \<Rightarrow> PriceAddress \<Rightarrow> OrderSide \<Rightarrow> u32 \<Rightarrow> MutationResult \<times> PriceLevelStore" where
  "pls_erase s a side remaining_order_qty =
     (let (validation, plan) = validateErase s a side remaining_order_qty
      in if validation \<noteq> Applied then (validation, s)
         else (Applied, eraseValidated s a side remaining_order_qty plan))"

definition pls_move ::
    "PriceLevelStore \<Rightarrow> PriceAddress \<Rightarrow> u32 \<Rightarrow> PriceAddress \<Rightarrow> u32 \<Rightarrow> OrderSide \<Rightarrow>
     MutationResult \<times> PriceLevelStore" where
  "pls_move s old_address old_qty new_address new_qty side =
     (if new_qty = 0 then (InvalidQuantity, s)
      else
        case (pls_owner s (page_handle old_address), pls_owner s (page_handle new_address)) of
          (Some old_owner, Some new_owner) \<Rightarrow>
            if own_committed old_owner = 0 \<or> own_committed new_owner = 0 then (InvariantViolation, s)
            else if own_stock_locate old_owner \<noteq> own_stock_locate new_owner then (LocateMismatch, s)
            else
              let (source_validation, source_plan) = validateErase s old_address side old_qty
              in if source_validation \<noteq> Applied then (source_validation, s)
                 else if page_handle old_address = page_handle new_address \<and>
                         level_index old_address = level_index new_address then
                   (let level = levelUnchecked s old_address side;
                        without_old = total_qty level - ucast old_qty
                    in if without_old > u64_max - ucast new_qty then (QuantityOverflow, s)
                       else (Applied, set_level s old_address side
                               (level\<lparr>total_qty := without_old + ucast new_qty\<rparr>)))
                 else
                   let destination_validation = validateAdd s new_address side new_qty
                   in if destination_validation \<noteq> Applied then (destination_validation, s)
                      else (Applied,
                        addValidated (eraseValidated s old_address side old_qty source_plan)
                          new_address side new_qty)
        | _ \<Rightarrow> (InvalidPricePage, s))"

section \<open>Queries\<close>

definition pls_best :: "PriceLevelStore \<Rightarrow> u16 \<Rightarrow> OrderSide \<Rightarrow> PriceLevelCursor" where
  "pls_best s stock_locate side =
     (if \<not> isBookPrepared s stock_locate \<or> \<not> validSide side then noCursor
      else
        let book_summary = bookSummary s stock_locate side
        in if active_pages book_summary = 0 \<or>
              best_page_handle book_summary = kInvalidPricePageHandle then noCursor
           else \<lparr>cur_page_handle = best_page_handle book_summary,
                 cur_raw_price = best_raw_price book_summary,
                 cur_stock_locate = stock_locate, cur_valid = True\<rparr>)"

definition nextWorse :: "PriceLevelStore \<Rightarrow> u16 \<Rightarrow> OrderSide \<Rightarrow> PriceLevelCursor \<Rightarrow> PriceLevelCursor" where
  "nextWorse s stock_locate side current =
     (if \<not> cur_valid current \<or> cur_stock_locate current \<noteq> stock_locate \<or>
         \<not> isBookPrepared s stock_locate \<or> \<not> validSide side then noCursor
      else
        let parts = splitPrice (cur_raw_price current)
        in case pls_owner s (cur_page_handle current) of None \<Rightarrow> noCursor
           | Some page_owner \<Rightarrow>
        if own_committed page_owner = 0 \<or> own_stock_locate page_owner \<noteq> stock_locate \<or>
           own_page_index page_owner \<noteq> pp_page_index parts then noCursor
        else
          let page_summary = pageSummary s (cur_page_handle current) side;
              page_bitmap = pageOccupancy s (cur_page_handle current) side;
              next_level_index =
                (if active_levels page_summary > 1 then
                   (if side = Buy then
                      (if pp_level_index parts \<noteq> 0
                       then findHighestAtOrBelow page_bitmap (ucast (pp_level_index parts) - 1)
                       else kInvalid)
                    else if pp_level_index parts \<noteq> u16_max
                       then findLowestAtOrAbove page_bitmap (ucast (pp_level_index parts) + 1)
                       else kInvalid)
                 else kInvalid)
          in if next_level_index \<noteq> kInvalid then
               \<lparr>cur_page_handle = cur_page_handle current,
                cur_raw_price = joinPrice (pp_page_index parts) (ucast next_level_index),
                cur_stock_locate = stock_locate, cur_valid = True\<rparr>
             else
               let book_bitmap = bookOccupancy s stock_locate side;
                   next_page_index =
                     (if side = Buy then
                        (if pp_page_index parts \<noteq> 0
                         then findHighestAtOrBelow book_bitmap (ucast (pp_page_index parts) - 1)
                         else kInvalid)
                      else if pp_page_index parts \<noteq> u16_max
                         then findLowestAtOrAbove book_bitmap (ucast (pp_page_index parts) + 1)
                         else kInvalid)
               in if next_page_index = kInvalid then noCursor
                  else
                    let next_handle = pageHandle s stock_locate (ucast next_page_index)
                    in if next_handle = kInvalidPricePageHandle then noCursor
                       else
                         let next_page = pageSummary s next_handle side
                         in if active_levels next_page = 0 \<or>
                               best_level_index next_page \<ge> kPricePartCount then noCursor
                            else \<lparr>cur_page_handle = next_handle,
                                  cur_raw_price = joinPrice (ucast next_page_index)
                                    (ucast (best_level_index next_page)),
                                  cur_stock_locate = stock_locate, cur_valid = True\<rparr>)"

definition pls_view :: "PriceLevelStore \<Rightarrow> PriceLevelCursor \<Rightarrow> OrderSide \<Rightarrow> PriceLevelView" where
  "pls_view s cursor side =
     (if \<not> cur_valid cursor then noView
      else
        let parts = splitPrice (cur_raw_price cursor)
        in case pls_owner s (cur_page_handle cursor) of None \<Rightarrow> noView
           | Some page_owner \<Rightarrow>
        if own_committed page_owner = 0 \<or> \<not> isValidStockLocate (cur_stock_locate cursor) \<or>
           own_stock_locate page_owner \<noteq> cur_stock_locate cursor \<or>
           own_page_index page_owner \<noteq> pp_page_index parts then noView
        else
          case resolveLevel s \<lparr>page_handle = cur_page_handle cursor,
                               level_index = pp_level_index parts\<rparr> side of
            None \<Rightarrow> noView
          | Some level \<Rightarrow>
              if order_count level = 0 then noView
              else \<lparr>view_raw_price = cur_raw_price cursor, view_total_qty = total_qty level,
                    view_order_count = order_count level, view_valid = True\<rparr>)"

text \<open>The loop of \<open>topTen\<close>; the first argument is \<open>limit - count\<close>, the free entries of the output.\<close>

fun topTen_loop :: "nat \<Rightarrow> PriceLevelStore \<Rightarrow> u16 \<Rightarrow> OrderSide \<Rightarrow> PriceLevelCursor \<Rightarrow> PriceLevelView list" where
  "topTen_loop 0 s stock_locate side cursor = []"
| "topTen_loop (Suc n) s stock_locate side cursor =
     (if \<not> cur_valid cursor then []
      else
        let level_view = pls_view s cursor side
        in if \<not> view_valid level_view then []
           else level_view #
             (if n = 0 then [] else topTen_loop n s stock_locate side (nextWorse s stock_locate side cursor)))"

definition topTen :: "PriceLevelStore \<Rightarrow> u16 \<Rightarrow> OrderSide \<Rightarrow> nat \<Rightarrow> PriceLevelView list" where
  "topTen s stock_locate side output_size =
     topTen_loop (min output_size kTopLevelCount) s stock_locate side (pls_best s stock_locate side)"

definition pls_counters :: "PriceLevelStore \<Rightarrow> PriceLevelStoreCounters" where
  "pls_counters s = \<lparr>cnt_page_capacity = page_capacity (pls_config s),
     cnt_committed_pages = committed_pages s, cnt_prepared_books = prepared_book_count s,
     cnt_page_capacity_failures = page_capacity_failures s\<rparr>"

end
