(* ===== verification/OrderTable.thy ===== *)
theory OrderTable
  imports BookTypes
begin

text \<open>
  Model of \<open>OrderTable.hpp\<close> and \<open>OrderTable.cpp\<close>: the process-wide index from order reference numbers to
  order states. References below \<open>direct_slots\<close> address a slot of their own; every other reference
  has two candidate buckets of two entries each.

  A pointer \<open>OrderState *\<close> into the table is the place it points to (\<open>StateLoc\<close>), and a null pointer is
  \<open>None\<close>; reading and writing through it are \<open>loadState\<close> and \<open>storeState\<close>. The nested probe loops run over
  \<open>fallbackSlots\<close>, the candidate slots in the order in which the code visits them.
\<close>

section \<open>Data\<close>

record OrderTableConfig =
  direct_slots :: u64
  fallback_bucket_count :: u32
  ot_prefault :: bool

record FallbackEntry =
  fe_state :: OrderState
  fe_order_ref :: u64

record OrderTable =
  ot_config :: OrderTableConfig
  direct :: "u64 \<Rightarrow> OrderState"
  fallback :: "u32 \<Rightarrow> u8 \<Rightarrow> FallbackEntry"

datatype StateLoc = InDirect u64 | InFallback u32 u8

record OrderLookup =
  look_result :: MutationResult
  look_path :: LookupPath
  look_state :: "StateLoc option"

definition look_found :: "OrderLookup \<Rightarrow> bool" where
  "look_found l = (look_result l = Applied \<and> look_state l \<noteq> None)"

record OrderSlotReservation =
  slot_result :: MutationResult
  slot_path :: LookupPath
  slot_order_ref :: u64
  slot_bucket :: u32
  slot_way :: u8

definition defaultSlotReservation :: OrderSlotReservation where
  "defaultSlotReservation = \<lparr>slot_result = InvariantViolation, slot_path = NoPath, slot_order_ref = 0,
     slot_bucket = 0, slot_way = 0\<rparr>"

definition slot_valid :: "OrderSlotReservation \<Rightarrow> bool" where
  "slot_valid r = (slot_result r = Applied)"

definition kFallbackCandidateBuckets :: nat where "kFallbackCandidateBuckets = 2"
definition kFallbackWays :: nat where "kFallbackWays = 2"
definition kMaxFallbackSlotsExamined :: nat where
  "kMaxFallbackSlotsExamined = kFallbackCandidateBuckets * kFallbackWays"

section \<open>Construction\<close>

text \<open>\<open>validateConfig\<close> throws on a configuration it refuses. Its test \<open>direct_slots > SIZE_MAX\<close> cannot hold
  for a 64-bit \<open>size_t\<close>.\<close>

definition validateTableConfig :: "OrderTableConfig \<Rightarrow> OrderTableConfig option" where
  "validateTableConfig config =
     (if direct_slots config = 0 \<or> direct_slots config > u64_max then None
      else if fallback_bucket_count config = 0 \<or>
              (fallback_bucket_count config AND (fallback_bucket_count config - 1)) \<noteq> 0 then None
      else Some config)"

definition zeroEntry :: FallbackEntry where
  "zeroEntry = \<lparr>fe_state = zeroOrderState, fe_order_ref = 0\<rparr>"

definition newOrderTable :: "OrderTableConfig \<Rightarrow> OrderTable option" where
  "newOrderTable config =
     map_option (\<lambda>c. \<lparr>ot_config = c, direct = (\<lambda>_. zeroOrderState), fallback = (\<lambda>_ _. zeroEntry)\<rparr>)
       (validateTableConfig config)"

section \<open>Hashing\<close>

definition hashPrimary :: "u64 \<Rightarrow> u64" where
  "hashPrimary value0 =
     (let v1 = value0 XOR drop_bit 33 value0;
          v2 = v1 * 0xff51afd7ed558ccd;
          v3 = v2 XOR drop_bit 33 v2;
          v4 = v3 * 0xc4ceb9fe1a85ec53
      in v4 XOR drop_bit 33 v4)"

definition hashSecondary :: "u64 \<Rightarrow> u64" where
  "hashSecondary value0 =
     (let v1 = value0 + 0x9e3779b97f4a7c15;
          v2 = (v1 XOR drop_bit 30 v1) * 0xbf58476d1ce4e5b9;
          v3 = (v2 XOR drop_bit 27 v2) * 0x94d049bb133111eb
      in v3 XOR drop_bit 31 v3)"

definition fallbackCandidateBuckets :: "OrderTable \<Rightarrow> u64 \<Rightarrow> u32 \<times> u32" where
  "fallbackCandidateBuckets t order_ref =
     (let m = fallback_bucket_count (ot_config t) - 1;
          primary = (ucast (hashPrimary order_ref) :: u32) AND m;
          secondary = (ucast (hashSecondary order_ref) :: u32) AND m
      in (primary,
          if secondary = primary \<and> fallback_bucket_count (ot_config t) > 1
          then (secondary + 1) AND m else secondary))"

section \<open>Lookup\<close>

definition loadState :: "OrderTable \<Rightarrow> StateLoc \<Rightarrow> OrderState" where
  "loadState t l = (case l of InDirect i \<Rightarrow> direct t i | InFallback b w \<Rightarrow> fe_state (fallback t b w))"

definition storeState :: "OrderTable \<Rightarrow> StateLoc \<Rightarrow> OrderState \<Rightarrow> OrderTable" where
  "storeState t l v =
     (case l of
        InDirect i \<Rightarrow> t\<lparr>direct := (direct t)(i := v)\<rparr>
      | InFallback b w \<Rightarrow>
          t\<lparr>fallback := (fallback t)(b := (fallback t b)(w := (fallback t b w)\<lparr>fe_state := v\<rparr>))\<rparr>)"

text \<open>The slots a probe loop visits: candidate (as a lookup path), bucket and way.\<close>

definition fallbackSlots :: "OrderTable \<Rightarrow> u64 \<Rightarrow> (LookupPath \<times> u32 \<times> u8) list" where
  "fallbackSlots t order_ref =
     (let (b0, b1) = fallbackCandidateBuckets t order_ref
      in [(FallbackPrimary, b0, 0), (FallbackPrimary, b0, 1)] @
         (if b0 = b1 then [] else [(FallbackSecondary, b1, 0), (FallbackSecondary, b1, 1)]))"

definition slotHolds :: "OrderTable \<Rightarrow> u64 \<Rightarrow> u32 \<Rightarrow> u8 \<Rightarrow> bool" where
  "slotHolds t order_ref b w =
     (isActive (fe_state (fallback t b w)) \<and> fe_order_ref (fallback t b w) = order_ref)"

fun observed_loop ::
    "OrderTable \<Rightarrow> u64 \<Rightarrow> ('o \<Rightarrow> 'o) \<Rightarrow> 'o \<Rightarrow> (LookupPath \<times> u32 \<times> u8) list \<Rightarrow> StateLoc option \<times> 'o" where
  "observed_loop t order_ref onFallbackSlot observer [] = (None, observer)"
| "observed_loop t order_ref onFallbackSlot observer ((path, b, w) # slots) =
     (let observer' = onFallbackSlot observer
      in if slotHolds t order_ref b w then (Some (InFallback b w), observer')
         else observed_loop t order_ref onFallbackSlot observer' slots)"

definition findFallbackStateObserved ::
    "OrderTable \<Rightarrow> u64 \<Rightarrow> ('o \<Rightarrow> 'o) \<Rightarrow> 'o \<Rightarrow> StateLoc option \<times> 'o" where
  "findFallbackStateObserved t order_ref onFallbackSlot observer =
     observed_loop t order_ref onFallbackSlot observer (fallbackSlots t order_ref)"

definition findFallbackState :: "OrderTable \<Rightarrow> u64 \<Rightarrow> StateLoc option" where
  "findFallbackState t order_ref = fst (findFallbackStateObserved t order_ref (\<lambda>u. u) ())"

definition findState :: "OrderTable \<Rightarrow> u64 \<Rightarrow> StateLoc option" where
  "findState t order_ref =
     (if order_ref \<ge> direct_slots (ot_config t) then findFallbackState t order_ref
      else if isActive (direct t order_ref) then Some (InDirect order_ref) else None)"

fun find_loop :: "OrderTable \<Rightarrow> u64 \<Rightarrow> (LookupPath \<times> u32 \<times> u8) list \<Rightarrow> OrderLookup" where
  "find_loop t order_ref [] = \<lparr>look_result = OrderNotFound, look_path = Miss, look_state = None\<rparr>"
| "find_loop t order_ref ((path, b, w) # slots) =
     (if slotHolds t order_ref b w
      then \<lparr>look_result = Applied, look_path = path, look_state = Some (InFallback b w)\<rparr>
      else find_loop t order_ref slots)"

definition ot_find :: "OrderTable \<Rightarrow> u64 \<Rightarrow> OrderLookup" where
  "ot_find t order_ref =
     (if order_ref < direct_slots (ot_config t) then
        (if isActive (direct t order_ref)
         then \<lparr>look_result = Applied, look_path = Direct, look_state = Some (InDirect order_ref)\<rparr>
         else \<lparr>look_result = OrderNotFound, look_path = Direct, look_state = None\<rparr>)
      else find_loop t order_ref (fallbackSlots t order_ref))"

section \<open>Reservation, commit and erase\<close>

fun reserve_loop ::
    "OrderTable \<Rightarrow> u64 \<Rightarrow> OrderSlotReservation \<Rightarrow> (LookupPath \<times> u32 \<times> u8) list \<Rightarrow> OrderSlotReservation" where
  "reserve_loop t order_ref first_empty [] = first_empty"
| "reserve_loop t order_ref first_empty ((path, b, w) # slots) =
     (if wasSeen (fe_state (fallback t b w)) then
        (if fe_order_ref (fallback t b w) = order_ref
         then \<lparr>slot_result = DuplicateOrderRef, slot_path = path, slot_order_ref = order_ref,
               slot_bucket = b, slot_way = w\<rparr>
         else reserve_loop t order_ref first_empty slots)
      else if \<not> slot_valid first_empty
        then reserve_loop t order_ref
          \<lparr>slot_result = Applied, slot_path = path, slot_order_ref = order_ref,
           slot_bucket = b, slot_way = w\<rparr> slots
      else reserve_loop t order_ref first_empty slots)"

definition ot_reserve :: "OrderTable \<Rightarrow> u64 \<Rightarrow> OrderSlotReservation" where
  "ot_reserve t order_ref =
     (if order_ref < direct_slots (ot_config t) then
        \<lparr>slot_result = (if wasSeen (direct t order_ref) then DuplicateOrderRef else Applied),
         slot_path = Direct, slot_order_ref = order_ref, slot_bucket = 0, slot_way = 0\<rparr>
      else reserve_loop t order_ref
        \<lparr>slot_result = OrderTableCapacityExceeded, slot_path = NoPath, slot_order_ref = order_ref,
         slot_bucket = 0, slot_way = 0\<rparr> (fallbackSlots t order_ref))"

definition ot_commit ::
    "OrderTable \<Rightarrow> OrderSlotReservation \<Rightarrow> OrderState \<Rightarrow> MutationResult \<times> OrderTable" where
  "ot_commit t r state0 =
     (if \<not> slot_valid r then (slot_result r, t)
      else
        let state = state0\<lparr>os_flags := os_flags state0 OR kOrderStateActive OR kOrderStateSeen\<rparr>
        in if slot_path r = Direct then
             (if slot_order_ref r \<ge> direct_slots (ot_config t) then (StaleReservation, t)
              else if wasSeen (direct t (slot_order_ref r)) then (StaleReservation, t)
              else (Applied, t\<lparr>direct := (direct t)(slot_order_ref r := state)\<rparr>))
           else if (slot_path r \<noteq> FallbackPrimary \<and> slot_path r \<noteq> FallbackSecondary) \<or>
                   slot_bucket r \<ge> fallback_bucket_count (ot_config t) \<or>
                   unat (slot_way r) \<ge> kFallbackWays \<or>
                   slot_order_ref r < direct_slots (ot_config t) then (StaleReservation, t)
           else
             let (b0, b1) = fallbackCandidateBuckets t (slot_order_ref r);
                 primary = (slot_path r = FallbackPrimary)
             in if slot_bucket r \<noteq> (if primary then b0 else b1) \<or> (\<not> primary \<and> b0 = b1) then
                  (StaleReservation, t)
                else if wasSeen (fe_state (fallback t (slot_bucket r) (slot_way r))) then
                  (StaleReservation, t)
                else (Applied, t\<lparr>fallback := (fallback t)(slot_bucket r :=
                       (fallback t (slot_bucket r))(slot_way r :=
                         \<lparr>fe_state = state, fe_order_ref = slot_order_ref r\<rparr>))\<rparr>))"

definition ot_erase :: "OrderTable \<Rightarrow> StateLoc option \<Rightarrow> MutationResult \<times> OrderTable" where
  "ot_erase t p =
     (case p of None \<Rightarrow> (OrderNotFound, t)
      | Some l \<Rightarrow>
          if \<not> isActive (loadState t l) then (OrderNotFound, t)
          else (Applied, storeState t l (zeroOrderState\<lparr>os_flags := kOrderStateSeen\<rparr>)))"

definition ot_eraseLookup :: "OrderTable \<Rightarrow> OrderLookup \<Rightarrow> MutationResult \<times> OrderTable" where
  "ot_eraseLookup t l = (if look_found l then ot_erase t (look_state l) else (look_result l, t))"

definition ot_eraseRef :: "OrderTable \<Rightarrow> u64 \<Rightarrow> MutationResult \<times> OrderTable" where
  "ot_eraseRef t order_ref = ot_erase t (findState t order_ref)"

end
