(* ===== verification/OrderBook.thy ===== *)
theory OrderBook
  imports PriceLevelStore OrderTable
begin

text \<open>
  Model of \<open>OrderBook.hpp\<close> and \<open>OrderBook.cpp\<close>, with \<open>TopOfBook.hpp\<close>, \<open>BookUpdate.hpp\<close> and
  \<open>ChannelHealth.hpp\<close>: the book of one stock locate, a view over the shared order table and price store.

  The two stores the code reaches through pointers are the record \<open>Stores\<close>, passed in and returned
  beside the book itself. Both constructors set the pointers, so the tests for null pointers in the
  source are always false and have no counterpart. A member function returns its result, the book
  and the stores.
\<close>

section \<open>Data\<close>

datatype ChannelHealth = Good | GapDetected | Recovering | Stale | Invalid

record Stores =
  orders :: OrderTable
  prices :: PriceLevelStore

record OrderBook =
  ob_symbol_id :: u32
  ob_stock_locate :: u16
  local_invalid :: bool
  ob_order_capacity :: u64
  live_order_count :: u64
  allocation_failures :: u64
  latest_update_timestamp :: u64

record TopOfBook =
  top_timestamp :: u64
  bid_price :: u64
  bid_qty :: u64
  ask_price :: u64
  ask_qty :: u64
  top_symbol_id :: u32
  has_bid :: bool
  has_ask :: bool

record BookLevelUpdate =
  lvl_price :: u64
  lvl_qty :: u64
  lvl_num_orders :: u32

text \<open>The first \<open>bids_depth\<close> entries of the array \<open>bids\<close> are the list \<open>upd_bids\<close>; the entries beyond
  them keep their zero value.\<close>

record BookUpdate =
  upd_bids :: "BookLevelUpdate list"
  upd_asks :: "BookLevelUpdate list"
  upd_timestamp :: u64
  upd_symbol_id :: u32

section \<open>Construction\<close>

definition nextPowerOfTwo :: "u64 \<Rightarrow> u64" where
  "nextPowerOfTwo value0 =
     (if value0 \<le> 2 then 2
      else
        let v0 = value0 - 1;
            v1 = v0 OR drop_bit 1 v0;
            v2 = v1 OR drop_bit 2 v1;
            v3 = v2 OR drop_bit 4 v2;
            v4 = v3 OR drop_bit 8 v3;
            v5 = v4 OR drop_bit 16 v4;
            v6 = v5 OR drop_bit 32 v5
        in v6 + 1)"

definition standaloneOrderConfig :: "u64 \<Rightarrow> OrderTableConfig option" where
  "standaloneOrderConfig requested_capacity =
     (if requested_capacity > push_bit 28 1 then None
      else Some \<lparr>direct_slots = nextPowerOfTwo (max 1024 (requested_capacity * 4)),
                 fallback_bucket_count = ucast (nextPowerOfTwo (max 64 (requested_capacity div 4))),
                 ot_prefault = False\<rparr>)"

definition standalonePriceConfig :: "u64 \<Rightarrow> PriceLevelStoreConfig" where
  "standalonePriceConfig requested_capacity =
     \<lparr>page_capacity = ucast (min (max 1 requested_capacity) (ucast kPricePartCount)), pls_prefault = False\<rparr>"

definition emptyBook :: "u32 \<Rightarrow> u16 \<Rightarrow> u64 \<Rightarrow> OrderBook" where
  "emptyBook symbol_id stock_locate capacity =
     \<lparr>ob_symbol_id = symbol_id, ob_stock_locate = stock_locate, local_invalid = False,
      ob_order_capacity = capacity, live_order_count = 0, allocation_failures = 0,
      latest_update_timestamp = 0\<rparr>"

text \<open>\<open>OrderBook(symbol_id, order_capacity)\<close>: the standalone book with stores of its own. A construction of
  the stores that throws is \<open>None\<close>. The tests are in the order of the code: \<open>prepareBook\<close> is not called
  when an earlier disjunct holds.\<close>

definition newStandaloneBook :: "u32 \<Rightarrow> u64 \<Rightarrow> (OrderBook \<times> Stores) option" where
  "newStandaloneBook symbol_id order_capacity =
     (case standaloneOrderConfig order_capacity of None \<Rightarrow> None
      | Some oc \<Rightarrow>
     (case (newOrderTable oc, newPriceLevelStore (standalonePriceConfig order_capacity)) of
        (Some t, Some s) \<Rightarrow>
          let stock_locate = ucast symbol_id;
              book = emptyBook symbol_id stock_locate order_capacity
          in if symbol_id > 0xffff \<or> \<not> isValidStockLocate stock_locate then
               Some (book\<lparr>local_invalid := True\<rparr>, \<lparr>orders = t, prices = s\<rparr>)
             else
               let (result, s') = prepareBook s stock_locate
               in Some (book\<lparr>local_invalid := (result \<noteq> Applied)\<rparr>, \<lparr>orders = t, prices = s'\<rparr>)
      | _ \<Rightarrow> None))"

text \<open>\<open>OrderBook(stock_locate, orders, prices, reported_capacity)\<close>: the view the manager builds.\<close>

definition newManagedBook :: "u16 \<Rightarrow> Stores \<Rightarrow> u64 \<Rightarrow> OrderBook" where
  "newManagedBook stock_locate st reported_capacity =
     (emptyBook (ucast stock_locate) stock_locate reported_capacity)
       \<lparr>local_invalid := \<not> isBookPrepared (prices st) stock_locate\<rparr>"

section \<open>Helpers\<close>

definition decodeSideChar :: "u8 \<Rightarrow> OrderSide" where
  "decodeSideChar side = (if side = 0x42 then Buy else if side = 0x53 then Sell else NoSide)"

definition decodeSideByte :: "u8 \<Rightarrow> OrderSide" where
  "decodeSideByte side = (if side = sideByte Buy then Buy else if side = sideByte Sell then Sell else NoSide)"

definition addressOf :: "OrderState \<Rightarrow> PriceAddress" where
  "addressOf state = \<lparr>page_handle = os_price_page_handle state, level_index = os_price_level_index state\<rparr>"

definition reject :: "OrderBook \<Rightarrow> MutationResult \<Rightarrow> MutationResult \<times> OrderBook" where
  "reject b result =
     (if result \<noteq> Applied then
        let b1 = (if result = OrderTableCapacityExceeded \<or> result = PricePageCapacityExceeded
                  then b\<lparr>allocation_failures := allocation_failures b + 1\<rparr> else b);
            b2 = (if result = QuantityOverflow \<or> result = QuantityUnderflow \<or> result = InvalidPricePage \<or>
                     result = MissingPriceLevel \<or> result = StaleReservation \<or>
                     result = InvariantViolation \<or> result = BookInvalid
                  then b1\<lparr>local_invalid := True\<rparr> else b1)
        in (result, b2)
      else (result, b))"

type_synonym BookResult = "MutationResult \<times> OrderBook \<times> Stores"

definition rejected :: "OrderBook \<Rightarrow> Stores \<Rightarrow> MutationResult \<Rightarrow> BookResult" where
  "rejected b st result = (let (r, b') = reject b result in (r, b', st))"

definition validateState :: "OrderBook \<Rightarrow> Stores \<Rightarrow> StateLoc option \<Rightarrow> MutationResult \<times> OrderBook" where
  "validateState b st p =
     (case p of None \<Rightarrow> reject b OrderNotFound
      | Some l \<Rightarrow>
          let state = loadState (orders st) l
          in if os_locate state \<noteq> ob_stock_locate b then reject b LocateMismatch
             else if decodeSideByte (os_side state) = NoSide \<or> os_qty state = 0 \<or>
                     os_price_page_handle state = kInvalidPricePageHandle then reject b InvariantViolation
             else if \<not> ownsAddress (prices st) (ob_stock_locate b) (os_price_page_index state) (addressOf state) then
               reject b InvariantViolation
             else (Applied, b))"

section \<open>Mutations\<close>

definition addOrder :: "OrderBook \<Rightarrow> Stores \<Rightarrow> u64 \<Rightarrow> u64 \<Rightarrow> u32 \<Rightarrow> u8 \<Rightarrow> u64 \<Rightarrow> BookResult" where
  "addOrder b st order_id price qty side timestamp =
     (if local_invalid b then (BookInvalid, b, st)
      else if \<not> isBookPrepared (prices st) (ob_stock_locate b) then rejected b st BookNotPrepared
      else
     let decoded_side = decodeSideChar side
     in if decoded_side = NoSide then rejected b st InvalidSide
        else if qty = 0 then rejected b st InvalidQuantity
        else if \<not> isValidItchPrice4 price then rejected b st PriceOutOfRange
        else
     let order_reservation = ot_reserve (orders st) order_id
     in if \<not> slot_valid order_reservation then rejected b st (slot_result order_reservation)
        else
     let (price_reservation, prices1) = reservePrice (prices st) (ob_stock_locate b) (ucast price);
         st1 = st\<lparr>prices := prices1\<rparr>
     in if \<not> price_reservation_valid price_reservation then
          rejected b st1 (res_result price_reservation)
        else
     let (page_commit, prices2) =
           (if res_requires_commit price_reservation then commitReservation prices1 price_reservation
            else (Applied, prices1));
         st2 = st\<lparr>prices := prices2\<rparr>
     in if page_commit \<noteq> Applied then rejected b st2 page_commit
        else
     let (level_result, prices3) = pls_add prices2 (res_address price_reservation) decoded_side qty;
         st3 = st\<lparr>prices := prices3\<rparr>
     in if level_result \<noteq> Applied then rejected b st3 level_result
        else
     let state = \<lparr>os_qty = qty, os_price_page_handle = page_handle (res_address price_reservation),
                  os_price_level_index = level_index (res_address price_reservation),
                  os_locate = ob_stock_locate b, os_side = sideByte decoded_side, os_flags = 0,
                  os_price_page_index = res_page_index price_reservation\<rparr>;
         (order_commit, orders1) = ot_commit (orders st3) order_reservation state
     in if order_commit \<noteq> Applied then
          (let (rollback, prices4) = pls_erase prices3 (res_address price_reservation) decoded_side qty
           in rejected b \<lparr>orders = orders1, prices = prices4\<rparr>
                (if rollback = Applied then order_commit else InvariantViolation))
        else (Applied, b\<lparr>live_order_count := live_order_count b + 1, latest_update_timestamp := timestamp\<rparr>,
              \<lparr>orders = orders1, prices = prices3\<rparr>))"

definition cancelShares :: "OrderBook \<Rightarrow> Stores \<Rightarrow> u64 \<Rightarrow> u32 \<Rightarrow> u64 \<Rightarrow> BookResult" where
  "cancelShares b st order_id canceled_qty timestamp =
     (if local_invalid b then (BookInvalid, b, st)
      else if canceled_qty = 0 then rejected b st InvalidQuantity
      else case findState (orders st) order_id of None \<Rightarrow> rejected b st OrderNotFound
      | Some l \<Rightarrow>
     let state = loadState (orders st) l;
         side = decodeSideByte (os_side state);
         current_qty = os_qty state;
         address = addressOf state
     in if os_locate state \<noteq> ob_stock_locate b then rejected b st LocateMismatch
        else if side = NoSide \<or> current_qty = 0 \<or> \<not> address_valid address then
          rejected b st InvariantViolation
        else if canceled_qty \<ge> current_qty then
          (if \<not> ownsAddress (prices st) (ob_stock_locate b) (os_price_page_index state) address
           then rejected b st InvariantViolation else rejected b st QuantityExceeded)
        else
     let (result, prices1) = reduceChecked (prices st) (ob_stock_locate b) (os_price_page_index state)
                               address side current_qty canceled_qty
     in if result \<noteq> Applied then rejected b (st\<lparr>prices := prices1\<rparr>) result
        else (Applied, b\<lparr>latest_update_timestamp := timestamp\<rparr>,
              \<lparr>orders = storeState (orders st) l (state\<lparr>os_qty := current_qty - canceled_qty\<rparr>),
               prices = prices1\<rparr>))"

definition deleteOrder :: "OrderBook \<Rightarrow> Stores \<Rightarrow> u64 \<Rightarrow> u64 \<Rightarrow> BookResult" where
  "deleteOrder b st order_id timestamp =
     (if local_invalid b then (BookInvalid, b, st)
      else
     let p = findState (orders st) order_id;
         (lookup_result, b1) = validateState b st p
     in if lookup_result \<noteq> Applied then (lookup_result, b1, st)
        else
     let state = loadState (orders st) (the p);
         (level_result, prices1) =
           pls_erase (prices st) (addressOf state) (decodeSideByte (os_side state)) (os_qty state)
     in if level_result \<noteq> Applied then rejected b1 (st\<lparr>prices := prices1\<rparr>) level_result
        else
     let (table_result, orders1) = ot_erase (orders st) p;
         st2 = \<lparr>orders = orders1, prices = prices1\<rparr>
     in if table_result \<noteq> Applied then rejected b1 st2 InvariantViolation
        else (Applied, b1\<lparr>live_order_count := live_order_count b1 - 1, latest_update_timestamp := timestamp\<rparr>, st2))"

definition executeOrder :: "OrderBook \<Rightarrow> Stores \<Rightarrow> u64 \<Rightarrow> u32 \<Rightarrow> u64 \<Rightarrow> BookResult" where
  "executeOrder b st order_id executed_qty timestamp =
     (if local_invalid b then (BookInvalid, b, st)
      else if executed_qty = 0 then rejected b st InvalidQuantity
      else case findState (orders st) order_id of None \<Rightarrow> rejected b st OrderNotFound
      | Some l \<Rightarrow>
     let state = loadState (orders st) l;
         side = decodeSideByte (os_side state);
         current_qty = os_qty state;
         address = addressOf state
     in if os_locate state \<noteq> ob_stock_locate b then rejected b st LocateMismatch
        else if side = NoSide \<or> current_qty = 0 \<or> \<not> address_valid address then
          rejected b st InvariantViolation
        else if executed_qty > current_qty then
          (if \<not> ownsAddress (prices st) (ob_stock_locate b) (os_price_page_index state) address
           then rejected b st InvariantViolation else rejected b st QuantityExceeded)
        else if executed_qty = current_qty then
          (if \<not> ownsAddress (prices st) (ob_stock_locate b) (os_price_page_index state) address
           then rejected b st InvariantViolation
           else
             let (level_result, prices1) = pls_erase (prices st) address side current_qty
             in if level_result \<noteq> Applied then rejected b (st\<lparr>prices := prices1\<rparr>) level_result
                else
                  let (table_result, orders1) = ot_erase (orders st) (Some l);
                      st2 = \<lparr>orders = orders1, prices = prices1\<rparr>
                  in if table_result \<noteq> Applied then rejected b st2 InvariantViolation
                     else (Applied, b\<lparr>live_order_count := live_order_count b - 1,
                                      latest_update_timestamp := timestamp\<rparr>, st2))
        else
          let (level_result, prices1) = reduceChecked (prices st) (ob_stock_locate b)
                (os_price_page_index state) address side current_qty executed_qty
          in if level_result \<noteq> Applied then rejected b (st\<lparr>prices := prices1\<rparr>) level_result
             else (Applied, b\<lparr>latest_update_timestamp := timestamp\<rparr>,
                   \<lparr>orders = storeState (orders st) l (state\<lparr>os_qty := current_qty - executed_qty\<rparr>),
                    prices = prices1\<rparr>))"

definition trade :: "OrderBook \<Rightarrow> Stores \<Rightarrow> u64 \<Rightarrow> u32 \<Rightarrow> u64 \<Rightarrow> bool \<times> OrderBook \<times> Stores" where
  "trade b st order_id executed_qty timestamp =
     (let (r, b', st') = executeOrder b st order_id executed_qty timestamp in (r = Applied, b', st'))"

definition replaceOrder ::
    "OrderBook \<Rightarrow> Stores \<Rightarrow> u64 \<Rightarrow> u64 \<Rightarrow> u64 \<Rightarrow> u32 \<Rightarrow> u64 \<Rightarrow> BookResult" where
  "replaceOrder b st old_id new_id new_price new_qty timestamp =
     (if local_invalid b then (BookInvalid, b, st)
      else if new_qty = 0 then rejected b st InvalidQuantity
      else if \<not> isValidItchPrice4 new_price then rejected b st PriceOutOfRange
      else
     let p = findState (orders st) old_id;
         (old_result, b0) = validateState b st p
     in if old_result \<noteq> Applied then (old_result, b0, st)
        else
     let new_order_reservation =
           (if new_id \<noteq> old_id then ot_reserve (orders st) new_id else defaultSlotReservation)
     in if new_id \<noteq> old_id \<and> \<not> slot_valid new_order_reservation then
          rejected b0 st (slot_result new_order_reservation)
        else
     let (price_reservation, prices1) = reservePrice (prices st) (ob_stock_locate b) (ucast new_price)
     in if \<not> price_reservation_valid price_reservation then
          rejected b0 (st\<lparr>prices := prices1\<rparr>) (res_result price_reservation)
        else
     let (page_commit, prices2) =
           (if res_requires_commit price_reservation then commitReservation prices1 price_reservation
            else (Applied, prices1))
     in if page_commit \<noteq> Applied then rejected b0 (st\<lparr>prices := prices2\<rparr>) page_commit
        else
     let old_state = loadState (orders st) (the p);
         side = decodeSideByte (os_side old_state);
         old_address = addressOf old_state;
         old_qty = os_qty old_state;
         new_address = res_address price_reservation
     in if new_id = old_id then
          (let (move_result, prices3) = pls_move prices2 old_address old_qty new_address new_qty side
           in if move_result \<noteq> Applied then rejected b0 (st\<lparr>prices := prices3\<rparr>) move_result
              else (Applied, b0\<lparr>latest_update_timestamp := timestamp\<rparr>,
                    \<lparr>orders = storeState (orders st) (the p)
                       (old_state\<lparr>os_qty := new_qty, os_price_page_handle := page_handle new_address,
                                  os_price_level_index := level_index new_address,
                                  os_price_page_index := res_page_index price_reservation\<rparr>),
                     prices = prices3\<rparr>))
        else
     let new_state = \<lparr>os_qty = new_qty, os_price_page_handle = page_handle new_address,
                      os_price_level_index = level_index new_address, os_locate = ob_stock_locate b,
                      os_side = sideByte side, os_flags = 0,
                      os_price_page_index = res_page_index price_reservation\<rparr>;
         (new_commit, orders1) = ot_commit (orders st) new_order_reservation new_state
     in if new_commit \<noteq> Applied then rejected b0 \<lparr>orders = orders1, prices = prices2\<rparr> new_commit
        else
     let (move_result, prices3) = pls_move prices2 old_address old_qty new_address new_qty side
     in if move_result \<noteq> Applied then
          (let (table_rollback, orders2) = ot_eraseRef orders1 new_id
           in rejected b0 \<lparr>orders = orders2, prices = prices3\<rparr>
                (if table_rollback = Applied then move_result else InvariantViolation))
        else
     let (table_result, orders2) = ot_erase orders1 p
     in if table_result \<noteq> Applied then
          (let (table_rollback, orders3) = ot_eraseRef orders2 new_id;
               (price_rollback, prices4) = pls_move prices3 new_address new_qty old_address old_qty side
           in if table_rollback \<noteq> Applied \<or> price_rollback \<noteq> Applied
              then rejected b0 \<lparr>orders = orders3, prices = prices4\<rparr> InvariantViolation
              else rejected b0 \<lparr>orders = orders3, prices = prices4\<rparr> InvariantViolation)
        else (Applied, b0\<lparr>latest_update_timestamp := timestamp\<rparr>, \<lparr>orders = orders2, prices = prices3\<rparr>))"

section \<open>Queries\<close>

definition getTopOfBook :: "OrderBook \<Rightarrow> Stores \<Rightarrow> TopOfBook" where
  "getTopOfBook b st =
     (let top = \<lparr>top_timestamp = latest_update_timestamp b, bid_price = 0, bid_qty = 0, ask_price = 0,
                 ask_qty = 0, top_symbol_id = ob_symbol_id b, has_bid = False, has_ask = False\<rparr>;
          bid = pls_view (prices st) (pls_best (prices st) (ob_stock_locate b) Buy) Buy;
          top1 = (if view_valid bid
                  then top\<lparr>bid_price := ucast (view_raw_price bid), bid_qty := view_total_qty bid, has_bid := True\<rparr>
                  else top);
          ask = pls_view (prices st) (pls_best (prices st) (ob_stock_locate b) Sell) Sell
      in if view_valid ask
         then top1\<lparr>ask_price := ucast (view_raw_price ask), ask_qty := view_total_qty ask, has_ask := True\<rparr>
         else top1)"

definition levelUpdate :: "PriceLevelView \<Rightarrow> BookLevelUpdate" where
  "levelUpdate v = \<lparr>lvl_price = ucast (view_raw_price v), lvl_qty = view_total_qty v,
     lvl_num_orders = view_order_count v\<rparr>"

definition getBookUpdate :: "OrderBook \<Rightarrow> Stores \<Rightarrow> BookUpdate" where
  "getBookUpdate b st =
     \<lparr>upd_bids = map levelUpdate (topTen (prices st) (ob_stock_locate b) Buy 10),
      upd_asks = map levelUpdate (topTen (prices st) (ob_stock_locate b) Sell 10),
      upd_timestamp = latest_update_timestamp b, upd_symbol_id = ob_symbol_id b\<rparr>"

definition isTradable :: "OrderBook \<Rightarrow> ChannelHealth \<Rightarrow> bool" where
  "isTradable b channel_health = (channel_health = Good \<and> \<not> local_invalid b)"

end
