(* ===== verification/StockDirectory.thy ===== *)
theory StockDirectory
  imports BookTypes
begin

text \<open>
  Model of \<open>StockDirectory.hpp\<close> and \<open>StockDirectoryEntry.hpp\<close>: the directory of securities indexed by stock
  locate, with a reverse index from tickers to locates by linear probing.

  A \<open>char\<close> is its byte. The nine bytes of \<open>ticker\<close> are a list of length nine, which every entry
  constructed by the code has. The two arrays are functions of their index. The probe loops carry the number of
  probes left.
\<close>

section \<open>Data\<close>

record StockDirectoryEntry =
  sde_round_lot_size :: u32
  sde_locate :: u16
  sde_ticker :: "u8 list"
  sde_market_category :: u8
  sde_fin_status :: u8
  sde_is_test :: bool
  sde_round_lots_only :: bool
  sde_issue_classification :: u8

definition zeroEntryRecord :: StockDirectoryEntry where
  "zeroEntryRecord = \<lparr>sde_round_lot_size = 0, sde_locate = 0, sde_ticker = replicate 9 0, sde_market_category = 0,
     sde_fin_status = 0, sde_is_test = False, sde_round_lots_only = False, sde_issue_classification = 0\<rparr>"

record StockDirectory =
  dir_entries :: "u16 \<Rightarrow> StockDirectoryEntry"
  dir_ticker_index :: "u64 \<Rightarrow> u16"
  dir_count :: u64

definition newStockDirectory :: StockDirectory where
  "newStockDirectory = \<lparr>dir_entries = (\<lambda>_. zeroEntryRecord), dir_ticker_index = (\<lambda>_. 0), dir_count = 0\<rparr>"

definition kTickerIndexCapacity :: u64 where "kTickerIndexCapacity = push_bit 17 1"
definition kTickerIndexMask :: u64 where "kTickerIndexMask = kTickerIndexCapacity - 1"

section \<open>Tickers\<close>

text \<open>The prefix of at most eight bytes up to the first zero byte.\<close>

definition tickerView :: "StockDirectoryEntry \<Rightarrow> u8 list" where
  "tickerView e = takeWhile (\<lambda>c. c \<noteq> 0) (take 8 (sde_ticker e))"

text \<open>The loop writes zero into the ticker bytes from the length of the view up to index eight.\<close>

definition canonicalEntry :: "u16 \<Rightarrow> StockDirectoryEntry \<Rightarrow> u8 list \<Rightarrow> StockDirectoryEntry" where
  "canonicalEntry locate e ticker_value =
     e\<lparr>sde_ticker := take (length ticker_value) (sde_ticker e) @ replicate (9 - length ticker_value) 0,
       sde_locate := locate\<rparr>"

definition tickerHash :: "u8 list \<Rightarrow> u64" where
  "tickerHash ticker_value =
     fold (\<lambda>b hash. (hash XOR ucast b) * 1099511628211) ticker_value 14695981039346656037"

section \<open>Queries\<close>

definition dir_get :: "StockDirectory \<Rightarrow> u16 \<Rightarrow> StockDirectoryEntry option" where
  "dir_get d locate =
     (if \<not> isValidStockLocate locate \<or> hd (sde_ticker (dir_entries d locate)) = 0 then None
      else Some (dir_entries d locate))"

definition dir_ticker :: "StockDirectory \<Rightarrow> u16 \<Rightarrow> u8 list option" where
  "dir_ticker d locate =
     (if \<not> isValidStockLocate locate \<or> hd (sde_ticker (dir_entries d locate)) = 0 then None
      else Some (sde_ticker (dir_entries d locate)))"

definition dir_isRegistered :: "StockDirectory \<Rightarrow> u16 \<Rightarrow> bool" where
  "dir_isRegistered d locate =
     (isValidStockLocate locate \<and> hd (sde_ticker (dir_entries d locate)) \<noteq> 0)"

fun locate_loop :: "nat \<Rightarrow> StockDirectory \<Rightarrow> u8 list \<Rightarrow> u64 \<Rightarrow> u16" where
  "locate_loop 0 d ticker_value slot = kInvalidStockLocate"
| "locate_loop (Suc n) d ticker_value slot =
     (let locate = dir_ticker_index d slot
      in if locate = kInvalidStockLocate then kInvalidStockLocate
         else if tickerView (dir_entries d locate) = ticker_value then locate
         else locate_loop n d ticker_value ((slot + 1) AND kTickerIndexMask))"

definition locateForTicker :: "StockDirectory \<Rightarrow> u8 list \<Rightarrow> u16" where
  "locateForTicker d ticker_value =
     (if ticker_value = [] then kInvalidStockLocate
      else locate_loop (unat kTickerIndexCapacity) d ticker_value (tickerHash ticker_value AND kTickerIndexMask))"

definition dir_size :: "StockDirectory \<Rightarrow> u64" where "dir_size d = dir_count d"

section \<open>Registration\<close>

fun empty_loop :: "nat \<Rightarrow> StockDirectory \<Rightarrow> u64 \<Rightarrow> u64" where
  "empty_loop 0 d slot = kTickerIndexCapacity"
| "empty_loop (Suc n) d slot =
     (if dir_ticker_index d slot = kInvalidStockLocate then slot
      else empty_loop n d ((slot + 1) AND kTickerIndexMask))"

definition emptyReverseSlot :: "StockDirectory \<Rightarrow> u8 list \<Rightarrow> u64" where
  "emptyReverseSlot d ticker_value =
     empty_loop (unat kTickerIndexCapacity) d (tickerHash ticker_value AND kTickerIndexMask)"

definition dir_set :: "StockDirectory \<Rightarrow> u16 \<Rightarrow> StockDirectoryEntry \<Rightarrow> bool \<times> StockDirectory" where
  "dir_set d locate e =
     (if \<not> isValidStockLocate locate then (False, d)
      else
     let new_ticker = tickerView e
     in if new_ticker = [] then (False, d)
        else case dir_get d locate of
          Some existing \<Rightarrow>
            if tickerView existing \<noteq> new_ticker then (False, d)
            else (True, d\<lparr>dir_entries := (dir_entries d)(locate := canonicalEntry locate e new_ticker)\<rparr>)
        | None \<Rightarrow>
            if locateForTicker d new_ticker \<noteq> kInvalidStockLocate then (False, d)
            else
              let reverse_slot = emptyReverseSlot d new_ticker
              in if reverse_slot = kTickerIndexCapacity then (False, d)
                 else (True, d\<lparr>dir_entries := (dir_entries d)(locate := canonicalEntry locate e new_ticker),
                               dir_ticker_index := (dir_ticker_index d)(reverse_slot := locate),
                               dir_count := dir_count d + 1\<rparr>))"

end
