(* ===== verification/BookManager.thy ===== *)
theory BookManager
  imports OrderBook StockDirectory "HOL-Library.Char_ord"
begin

text \<open>
  Model of \<open>BookManager.hpp\<close> and \<open>BookManager.cpp\<close>: the owner of the shared stores and of one book per
  stock locate, the routing of mutations to books, the end-of-session audits, and the startup
  arithmetic (storage footprint and capacity profile).

  Code that throws returns a value of the sum type: \<open>Inl\<close> carries the class and the text of the
  exception. The size and alignment of \<open>std::optional<OrderBook>\<close> are fixed by the compiler and the page
  size by the operating system: they are arguments. \<open>size_t\<close> is the 64-bit type of the supported
  targets.
\<close>

section \<open>Configuration\<close>

record BookManagerConfig =
  cfg_orders :: OrderTableConfig
  cfg_prices :: PriceLevelStoreConfig

definition compactConfig :: BookManagerConfig where
  "compactConfig = \<lparr>cfg_orders = \<lparr>direct_slots = push_bit 20 1, fallback_bucket_count = push_bit 12 1, ot_prefault = False\<rparr>,
     cfg_prices = \<lparr>page_capacity = 512, pls_prefault = False\<rparr>\<rparr>"

record BookCapacityEvidence =
  profiled_max_order_reference :: u64
  profiled_unique_price_pages :: u32

record BookCapacityHeadroom =
  direct_order_reference_slots :: u64
  headroom_price_pages :: u32

record BookCapacityProfile =
  prof_name :: string
  prof_evidence_sha256 :: string
  prof_config :: BookManagerConfig
  prof_evidence :: BookCapacityEvidence
  prof_minimum_headroom :: BookCapacityHeadroom

record BookStorageFootprint =
  system_page_bytes :: u64
  order_direct_mapped_bytes :: u64
  order_fallback_mapped_bytes :: u64
  price_roots_mapped_bytes :: u64
  price_prepared_books_mapped_bytes :: u64
  price_pages_mapped_bytes :: u64
  price_page_owners_mapped_bytes :: u64
  price_page_summaries_mapped_bytes :: u64
  price_page_occupancy_mapped_bytes :: u64
  price_book_summaries_mapped_bytes :: u64
  price_book_occupancy_mapped_bytes :: u64
  mapped_array_bytes :: u64
  descriptor_slot_bytes :: u64
  descriptor_mapped_bytes :: u64
  planned_storage_bytes :: u64

section \<open>Checked startup arithmetic\<close>

datatype StartupError =
    InvalidArgument string | LengthError string | RuntimeError string | LogicError string

definition ebind :: "StartupError + 'a \<Rightarrow> ('a \<Rightarrow> StartupError + 'b) \<Rightarrow> StartupError + 'b" where
  "ebind x f = (case x of Inl e \<Rightarrow> Inl e | Inr a \<Rightarrow> f a)"

definition isPowerOfTwo :: "u64 \<Rightarrow> bool" where
  "isPowerOfTwo value0 = (value0 \<noteq> 0 \<and> value0 AND (value0 - 1) = 0)"

definition isLowerHexSha256 :: "string \<Rightarrow> bool" where
  "isLowerHexSha256 value0 =
     (length value0 = 64 \<and>
      list_all (\<lambda>c. (CHR ''0'' \<le> c \<and> c \<le> CHR ''9'') \<or> (CHR ''a'' \<le> c \<and> c \<le> CHR ''f'')) value0)"

definition checkedAdd :: "u64 \<Rightarrow> u64 \<Rightarrow> StartupError + u64" where
  "checkedAdd lhs rhs =
     (if lhs > u64_max - rhs then Inl (LengthError ''book storage size addition overflows size_t'')
      else Inr (lhs + rhs))"

definition checkedMultiply :: "u64 \<Rightarrow> u64 \<Rightarrow> StartupError + u64" where
  "checkedMultiply lhs rhs =
     (if lhs \<noteq> 0 \<and> rhs > u64_max div lhs then
        Inl (LengthError ''book storage size multiplication overflows size_t'')
      else Inr (lhs * rhs))"

definition checkedCount :: "u64 \<Rightarrow> StartupError + u64" where
  "checkedCount count0 =
     (if count0 > u64_max then Inl (LengthError ''book storage element count overflows size_t'')
      else Inr count0)"

definition mappedBytes :: "u64 \<Rightarrow> u64 \<Rightarrow> u64 \<Rightarrow> u64 \<Rightarrow> u64 \<Rightarrow> StartupError + u64" where
  "mappedBytes count0 element_bytes element_alignment requested_alignment page_bytes =
     ebind (checkedMultiply count0 element_bytes) (\<lambda>logical_bytes.
       let a0 = (if requested_alignment = 0 then page_bytes else requested_alignment);
           a1 = (if a0 < page_bytes then page_bytes else a0);
           alignment = (if a1 < element_alignment then element_alignment else a1)
       in if \<not> isPowerOfTwo alignment \<or> alignment mod page_bytes \<noteq> 0 then
            Inl (InvalidArgument ''book storage alignment must be a page-multiple power of two'')
          else if logical_bytes = 0 then Inr 0
          else if logical_bytes > u64_max - (alignment - 1) then
            Inl (LengthError ''book storage rounded size overflows size_t'')
          else
            let rounded_bytes = (logical_bytes + alignment - 1) AND NOT (alignment - 1)
            in if rounded_bytes > u64_max - alignment then
                 Inl (LengthError ''book aligned mapping size overflows size_t'')
               else Inr rounded_bytes)"

definition validateManagerConfig :: "BookManagerConfig \<Rightarrow> StartupError + unit" where
  "validateManagerConfig config =
     (if direct_slots (cfg_orders config) = 0 \<or> direct_slots (cfg_orders config) > u64_max then
        Inl (InvalidArgument ''OrderTable direct_slots must fit nonzero size_t'')
      else if fallback_bucket_count (cfg_orders config) = 0 \<or>
              (fallback_bucket_count (cfg_orders config) AND (fallback_bucket_count (cfg_orders config) - 1)) \<noteq> 0 then
        Inl (InvalidArgument ''OrderTable fallback_bucket_count must be a power of two'')
      else if page_capacity (cfg_prices config) = 0 \<or> page_capacity (cfg_prices config) = u32_max then
        Inl (InvalidArgument ''PriceLevelStore page capacity must be in [1, UINT32_MAX-1]'')
      else Inr ())"

text \<open>Storage-layout constants of the headers, in bytes. A bitmap is \<open>1024 + 16 + 1\<close> words of eight bytes,
  rounded up to its alignment of 64.\<close>

definition kHotArenaAlignment :: u64 where "kHotArenaAlignment = 2 * 1024 * 1024"
definition kPricePageBytes :: u64 where "kPricePageBytes = 2 * 1024 * 1024"
definition kPriceRootSlotCount :: u64 where "kPriceRootSlotCount = push_bit (kPricePartBits * 2) 1"
definition kStockLocateSlots :: u64 where "kStockLocateSlots = push_bit 16 1"
definition kSideCount :: u64 where "kSideCount = 2"
definition kBitmapStorageBytes :: u64 where "kBitmapStorageBytes = 8384"
definition kBitmapStorageAlignment :: u64 where "kBitmapStorageAlignment = 64"

text \<open>The running sum of \<open>mapped_array_bytes\<close>: one checked addition after another.\<close>

fun checkedSum :: "u64 \<Rightarrow> u64 list \<Rightarrow> StartupError + u64" where
  "checkedSum acc [] = Inr acc"
| "checkedSum acc (x # xs) = ebind (checkedAdd acc x) (\<lambda>s. checkedSum s xs)"

definition estimateBookStorageFootprint ::
    "u64 \<Rightarrow> u64 \<Rightarrow> BookManagerConfig \<Rightarrow> u64 \<Rightarrow> StartupError + BookStorageFootprint" where
  "estimateBookStorageFootprint slot_bytes slot_align config page_bytes =
     ebind (validateManagerConfig config) (\<lambda>_.
     if \<not> isPowerOfTwo page_bytes then
       Inl (InvalidArgument ''system page size must be a nonzero power of two'')
     else
     ebind (checkedCount (direct_slots (cfg_orders config))) (\<lambda>direct_count.
     ebind (mappedBytes direct_count 16 16 kHotArenaAlignment page_bytes) (\<lambda>order_direct.
     ebind (mappedBytes (ucast (fallback_bucket_count (cfg_orders config))) 64 64 kHotArenaAlignment page_bytes) (\<lambda>order_fallback.
     ebind (checkedCount kPriceRootSlotCount) (\<lambda>root_count.
     ebind (mappedBytes root_count 4 4 kHotArenaAlignment page_bytes) (\<lambda>price_roots.
     ebind (mappedBytes kStockLocateSlots 1 1 kHotArenaAlignment page_bytes) (\<lambda>price_prepared.
     ebind (mappedBytes (ucast (page_capacity (cfg_prices config))) kPricePageBytes 64 kPricePageBytes page_bytes) (\<lambda>price_pages.
     ebind (checkedAdd (ucast (page_capacity (cfg_prices config))) 1) (\<lambda>metadata_slots.
     ebind (mappedBytes metadata_slots 8 4 kHotArenaAlignment page_bytes) (\<lambda>owners.
     ebind (mappedBytes metadata_slots 16 16 kHotArenaAlignment page_bytes) (\<lambda>summaries.
     ebind (checkedMultiply metadata_slots kSideCount) (\<lambda>occupancy_count.
     ebind (mappedBytes occupancy_count kBitmapStorageBytes kBitmapStorageAlignment kHotArenaAlignment page_bytes) (\<lambda>occupancy.
     ebind (mappedBytes kStockLocateSlots 32 32 kHotArenaAlignment page_bytes) (\<lambda>book_summaries.
     ebind (checkedMultiply kStockLocateSlots kSideCount) (\<lambda>book_occupancy_count.
     ebind (mappedBytes book_occupancy_count kBitmapStorageBytes kBitmapStorageAlignment kHotArenaAlignment page_bytes) (\<lambda>book_occupancy.
     ebind (checkedSum order_direct [order_fallback, price_roots, price_prepared, price_pages, owners, summaries,
                                     occupancy, book_summaries, book_occupancy]) (\<lambda>arrays.
     ebind (checkedMultiply kStockLocateSlots slot_bytes) (\<lambda>descriptor_slot.
     ebind (mappedBytes kStockLocateSlots slot_bytes slot_align kHotArenaAlignment page_bytes) (\<lambda>descriptor.
     ebind (checkedAdd arrays descriptor) (\<lambda>planned.
     Inr \<lparr>system_page_bytes = page_bytes, order_direct_mapped_bytes = order_direct,
          order_fallback_mapped_bytes = order_fallback, price_roots_mapped_bytes = price_roots,
          price_prepared_books_mapped_bytes = price_prepared, price_pages_mapped_bytes = price_pages,
          price_page_owners_mapped_bytes = owners, price_page_summaries_mapped_bytes = summaries,
          price_page_occupancy_mapped_bytes = occupancy, price_book_summaries_mapped_bytes = book_summaries,
          price_book_occupancy_mapped_bytes = book_occupancy, mapped_array_bytes = arrays,
          descriptor_slot_bytes = descriptor_slot, descriptor_mapped_bytes = descriptor,
          planned_storage_bytes = planned\<rparr>))))))))))))))))))))"

definition estimateFootprintForHost ::
    "u64 \<Rightarrow> u64 \<Rightarrow> BookManagerConfig \<Rightarrow> int \<Rightarrow> StartupError + BookStorageFootprint" where
  "estimateFootprintForHost slot_bytes slot_align config page_size =
     (if page_size \<le> 0 then Inl (RuntimeError ''unable to determine the system page size'')
      else estimateBookStorageFootprint slot_bytes slot_align config (word_of_int page_size))"

definition validateBookCapacityProfile :: "BookCapacityProfile \<Rightarrow> StartupError + BookCapacityHeadroom" where
  "validateBookCapacityProfile profile =
     ebind (validateManagerConfig (prof_config profile)) (\<lambda>_.
     let evidence = prof_evidence profile;
         headroom = prof_minimum_headroom profile;
         slots = direct_slots (cfg_orders (prof_config profile));
         pages0 = page_capacity (cfg_prices (prof_config profile))
     in if prof_name profile = [] then Inl (InvalidArgument ''book capacity profile name must be nonempty'')
        else if \<not> isLowerHexSha256 (prof_evidence_sha256 profile) then
          Inl (InvalidArgument ''book capacity profile evidence SHA-256 must be 64 lowercase hex digits'')
        else if profiled_max_order_reference evidence = 0 then
          Inl (InvalidArgument ''profiled maximum order reference must be nonzero'')
        else if profiled_unique_price_pages evidence = 0 then
          Inl (InvalidArgument ''profiled unique price pages must be nonzero'')
        else if direct_order_reference_slots headroom = 0 then
          Inl (InvalidArgument ''minimum direct-order-reference headroom must be nonzero'')
        else if headroom_price_pages headroom = 0 then
          Inl (InvalidArgument ''minimum price-page headroom must be nonzero'')
        else if profiled_max_order_reference evidence \<ge> slots then
          Inl (InvalidArgument ''profiled maximum order reference is outside the direct table'')
        else
     let effective_direct_headroom = slots - (profiled_max_order_reference evidence + 1)
     in if effective_direct_headroom < direct_order_reference_slots headroom then
          Inl (InvalidArgument ''direct order table does not provide the required profile headroom'')
        else if profiled_unique_price_pages evidence \<ge> pages0 then
          Inl (InvalidArgument ''profiled unique price pages leave no page-arena headroom'')
        else
     let effective_price_headroom = pages0 - profiled_unique_price_pages evidence
     in if effective_price_headroom < headroom_price_pages headroom then
          Inl (InvalidArgument ''price page arena does not provide the required profile headroom'')
        else Inr \<lparr>direct_order_reference_slots = effective_direct_headroom,
                  headroom_price_pages = effective_price_headroom\<rparr>)"

section \<open>The manager\<close>

record BookManager =
  mgr_config :: BookManagerConfig
  mgr_storage_footprint :: BookStorageFootprint
  mgr_stores :: Stores
  mgr_books :: "u16 \<Rightarrow> OrderBook option"

text \<open>Construction throws when the footprint does or when a store does (which a validated configuration
  excludes); the mappings themselves are the operating system's.\<close>

definition newBookManager :: "u64 \<Rightarrow> u64 \<Rightarrow> int \<Rightarrow> BookManagerConfig \<Rightarrow> StartupError + BookManager" where
  "newBookManager slot_bytes slot_align page_size config =
     ebind (estimateFootprintForHost slot_bytes slot_align config page_size) (\<lambda>footprint.
     case (newOrderTable (cfg_orders config), newPriceLevelStore (cfg_prices config)) of
       (Some t, Some s) \<Rightarrow> Inr \<lparr>mgr_config = config, mgr_storage_footprint = footprint,
                          mgr_stores = \<lparr>orders = t, prices = s\<rparr>, mgr_books = (\<lambda>_. None)\<rparr>
     | (None, _) \<Rightarrow> Inl (InvalidArgument ''OrderTable configuration'')
     | (Some _, None) \<Rightarrow> Inl (InvalidArgument ''PriceLevelStore configuration''))"

definition findBook :: "BookManager \<Rightarrow> u16 \<Rightarrow> OrderBook option" where
  "findBook m stock_locate = (if \<not> isValidStockLocate stock_locate then None else mgr_books m stock_locate)"

definition getOrCreate :: "BookManager \<Rightarrow> u16 \<Rightarrow> OrderBook option \<times> BookManager" where
  "getOrCreate m stock_locate =
     (if \<not> isValidStockLocate stock_locate then (None, m)
      else case findBook m stock_locate of Some book \<Rightarrow> (Some book, m)
      | None \<Rightarrow>
          let (result, prices1) = prepareBook (prices (mgr_stores m)) stock_locate;
              m1 = m\<lparr>mgr_stores := (mgr_stores m)\<lparr>prices := prices1\<rparr>\<rparr>
          in if result \<noteq> Applied then (None, m1)
             else
               let reported_capacity = direct_slots (cfg_orders (mgr_config m));
                   book = newManagedBook stock_locate (mgr_stores m1) reported_capacity
               in (Some book, m1\<lparr>mgr_books := (mgr_books m1)(stock_locate \<mapsto> book)\<rparr>))"

text \<open>Routing: look the book up, run the mutation on it, and write it back.\<close>

definition route ::
    "BookManager \<Rightarrow> u16 \<Rightarrow> (OrderBook \<Rightarrow> Stores \<Rightarrow> BookResult) \<Rightarrow> MutationResult \<times> BookManager" where
  "route m stock_locate f =
     (case findBook m stock_locate of None \<Rightarrow> (BookNotPrepared, m)
      | Some book \<Rightarrow>
          let (result, book', st') = f book (mgr_stores m)
          in (result, m\<lparr>mgr_stores := st', mgr_books := (mgr_books m)(stock_locate \<mapsto> book')\<rparr>))"

definition mgr_addOrder ::
    "BookManager \<Rightarrow> u16 \<Rightarrow> u64 \<Rightarrow> u64 \<Rightarrow> u32 \<Rightarrow> u8 \<Rightarrow> u64 \<Rightarrow> MutationResult \<times> BookManager" where
  "mgr_addOrder m stock_locate order_id price qty side timestamp =
     route m stock_locate (\<lambda>b st. addOrder b st order_id price qty side timestamp)"

definition mgr_cancelShares :: "BookManager \<Rightarrow> u16 \<Rightarrow> u64 \<Rightarrow> u32 \<Rightarrow> u64 \<Rightarrow> MutationResult \<times> BookManager" where
  "mgr_cancelShares m stock_locate order_id canceled_qty timestamp =
     route m stock_locate (\<lambda>b st. cancelShares b st order_id canceled_qty timestamp)"

definition mgr_deleteOrder :: "BookManager \<Rightarrow> u16 \<Rightarrow> u64 \<Rightarrow> u64 \<Rightarrow> MutationResult \<times> BookManager" where
  "mgr_deleteOrder m stock_locate order_id timestamp =
     route m stock_locate (\<lambda>b st. deleteOrder b st order_id timestamp)"

definition mgr_executeOrder :: "BookManager \<Rightarrow> u16 \<Rightarrow> u64 \<Rightarrow> u32 \<Rightarrow> u64 \<Rightarrow> MutationResult \<times> BookManager" where
  "mgr_executeOrder m stock_locate order_id executed_qty timestamp =
     route m stock_locate (\<lambda>b st. executeOrder b st order_id executed_qty timestamp)"

definition mgr_trade :: "BookManager \<Rightarrow> u16 \<Rightarrow> u64 \<Rightarrow> u32 \<Rightarrow> u64 \<Rightarrow> bool \<times> BookManager" where
  "mgr_trade m stock_locate order_id executed_qty timestamp =
     (let (r, m') = mgr_executeOrder m stock_locate order_id executed_qty timestamp in (r = Applied, m'))"

definition mgr_replaceOrder ::
    "BookManager \<Rightarrow> u16 \<Rightarrow> u64 \<Rightarrow> u64 \<Rightarrow> u64 \<Rightarrow> u32 \<Rightarrow> u64 \<Rightarrow> MutationResult \<times> BookManager" where
  "mgr_replaceOrder m stock_locate old_id new_id new_price new_qty timestamp =
     route m stock_locate (\<lambda>b st. replaceOrder b st old_id new_id new_price new_qty timestamp)"

definition getOrderBook :: "BookManager \<Rightarrow> u16 \<Rightarrow> OrderBook option" where
  "getOrderBook m stock_locate = findBook m stock_locate"

text \<open>The scans over the slots 1 to \<open>kMaxStockLocate - 1\<close>.\<close>

definition locateSlots :: "u16 list" where "locateSlots = map of_nat [1..<65536]"

definition totalLiveOrderCount :: "BookManager \<Rightarrow> u64" where
  "totalLiveOrderCount m =
     fold (\<lambda>slot total. case mgr_books m slot of None \<Rightarrow> total | Some b \<Rightarrow> total + live_order_count b)
       locateSlots 0"

record BookDirectoryAudit =
  aud_registered_symbols :: u64
  aud_materialized_books :: u64
  aud_prepared_books :: u32
  aud_registered_books_missing :: u64
  aud_unregistered_books_present :: u64
  aud_price_state_mismatches :: u64
  aud_identity_mismatches :: u64

definition audit_clean :: "BookDirectoryAudit \<Rightarrow> bool" where
  "audit_clean a =
     (aud_registered_books_missing a = 0 \<and> aud_unregistered_books_present a = 0 \<and>
      aud_price_state_mismatches a = 0 \<and> aud_identity_mismatches a = 0 \<and>
      aud_registered_symbols a = aud_materialized_books a \<and>
      aud_registered_symbols a = ucast (aud_prepared_books a))"

definition auditSlot :: "BookManager \<Rightarrow> StockDirectory \<Rightarrow> u16 \<Rightarrow> BookDirectoryAudit \<Rightarrow> BookDirectoryAudit" where
  "auditSlot m directory locate a0 =
     (let registered = dir_isRegistered directory locate;
          materialized = (mgr_books m locate \<noteq> None);
          prepared = isBookPrepared (prices (mgr_stores m)) locate;
          a1 = (if materialized then a0\<lparr>aud_materialized_books := aud_materialized_books a0 + 1\<rparr> else a0);
          a2 = (if registered \<and> (\<not> materialized \<or> \<not> prepared)
                then a1\<lparr>aud_registered_books_missing := aud_registered_books_missing a1 + 1\<rparr> else a1);
          a3 = (if \<not> registered \<and> (materialized \<or> prepared)
                then a2\<lparr>aud_unregistered_books_present := aud_unregistered_books_present a2 + 1\<rparr> else a2);
          a4 = (if materialized \<noteq> prepared
                then a3\<lparr>aud_price_state_mismatches := aud_price_state_mismatches a3 + 1\<rparr> else a3)
      in case mgr_books m locate of None \<Rightarrow> a4
         | Some book \<Rightarrow>
             if ob_stock_locate book \<noteq> locate \<or> ob_symbol_id book \<noteq> ucast locate
             then a4\<lparr>aud_identity_mismatches := aud_identity_mismatches a4 + 1\<rparr> else a4)"

definition auditDirectory :: "BookManager \<Rightarrow> StockDirectory \<Rightarrow> BookDirectoryAudit" where
  "auditDirectory m directory =
     fold (auditSlot m directory) locateSlots
       \<lparr>aud_registered_symbols = dir_size directory, aud_materialized_books = 0,
        aud_prepared_books = cnt_prepared_books (pls_counters (prices (mgr_stores m))),
        aud_registered_books_missing = 0, aud_unregistered_books_present = 0,
        aud_price_state_mismatches = 0, aud_identity_mismatches = 0\<rparr>"

end
