(* ===== verification/WireFormat.thy ===== *)
theory WireFormat
  imports BookTypes
begin

text \<open>
  The wire formats: \<open>PacketHeader.hpp\<close>, \<open>ItchMessageLength.hpp\<close>, \<open>MoldUdpControlPacket.hpp\<close>, the big-endian readers
  of \<open>ItchParser.cpp\<close> and \<open>MoldUdpDecoder.cpp\<close>, and the send schedules of \<open>MoldUdpControlSchedule.hpp\<close>.

  A byte span is a list of bytes, and a pointer into it the list and an offset. Time points and durations of
  \<open>steady_clock\<close> are integers counting its ticks of one nanosecond, between \<open>-2^63\<close> and \<open>timePointMax\<close>.
\<close>

section \<open>Packet headers and message lengths\<close>

definition kSessionSize :: nat where "kSessionSize = 10"
definition kHeaderSize :: nat where "kHeaderSize = 20"
definition kEndOfSessionMessageCount :: u16 where "kEndOfSessionMessageCount = 0xFFFF"

text \<open>The table entry of a type that is not listed is zero.\<close>

definition makeItchMessageLengths :: "(u8 \<times> u8) list" where
  "makeItchMessageLengths =
     [(0x53, 12), (0x52, 39), (0x48, 25), (0x59, 20), (0x4C, 26), (0x56, 35), (0x57, 12), (0x4B, 28),
      (0x4A, 35), (0x68, 21), (0x41, 36), (0x46, 40), (0x45, 31), (0x43, 36), (0x58, 23), (0x44, 19),
      (0x55, 35), (0x50, 44), (0x51, 40), (0x42, 19), (0x49, 50), (0x4E, 20), (0x4F, 48)]"

definition expectedItchMessageLength :: "u8 \<Rightarrow> u8" where
  "expectedItchMessageLength t = (case map_of makeItchMessageLengths t of None \<Rightarrow> 0 | Some n \<Rightarrow> n)"

section \<open>Big-endian fields\<close>

definition readU16BE :: "u8 list \<Rightarrow> nat \<Rightarrow> u16" where
  "readU16BE msg off = push_bit 8 (ucast (msg ! off)) OR ucast (msg ! (off + 1))"

definition readU32BE :: "u8 list \<Rightarrow> nat \<Rightarrow> u32" where
  "readU32BE msg off =
     push_bit 24 (ucast (msg ! off)) OR push_bit 16 (ucast (msg ! (off + 1))) OR
     push_bit 8 (ucast (msg ! (off + 2))) OR ucast (msg ! (off + 3))"

definition readU48BE :: "u8 list \<Rightarrow> nat \<Rightarrow> u64" where
  "readU48BE msg off = fold (\<lambda>i v. push_bit 8 v OR ucast (msg ! (off + i))) [0..<6] 0"

definition readU64BE :: "u8 list \<Rightarrow> nat \<Rightarrow> u64" where
  "readU64BE msg off = fold (\<lambda>i v. push_bit 8 v OR ucast (msg ! (off + i))) [0..<8] 0"

text \<open>The readers of the decoder, at \<open>p = data + off\<close>.\<close>

definition mold_readU16BE :: "u8 list \<Rightarrow> nat \<Rightarrow> u16" where
  "mold_readU16BE data off = push_bit 8 (ucast (data ! off)) OR ucast (data ! (off + 1))"

definition mold_readU64BE :: "u8 list \<Rightarrow> nat \<Rightarrow> u64" where
  "mold_readU64BE data off = fold (\<lambda>i v. push_bit 8 v OR ucast (data ! (off + i))) [0..<8] 0"

section \<open>Control packets\<close>

definition makeMoldControlPacket :: "u8 list \<Rightarrow> u64 \<Rightarrow> u16 \<Rightarrow> u8 list" where
  "makeMoldControlPacket session next_sequence message_count =
     (let packet0 = replicate kHeaderSize 0;
          packet1 = fold (\<lambda>i p. p[i := (if i < length session then session ! i else 0x20)]) [0..<kSessionSize] packet0;
          (packet2, _) = fold (\<lambda>i (p, s). (p[kSessionSize + i := ucast (s AND 0xFF)], drop_bit 8 s))
                            [7, 6, 5, 4, 3, 2, 1, 0] (packet1, next_sequence);
          packet3 = packet2[18 := ucast (drop_bit 8 message_count)]
      in packet3[19 := ucast (message_count AND 0xFF)])"

definition makeMoldHeartbeatPacket :: "u8 list \<Rightarrow> u64 \<Rightarrow> u8 list" where
  "makeMoldHeartbeatPacket session next_sequence = makeMoldControlPacket session next_sequence 0"

definition makeMoldEndOfSessionPacket :: "u8 list \<Rightarrow> u64 \<Rightarrow> u8 list" where
  "makeMoldEndOfSessionPacket session next_sequence =
     makeMoldControlPacket session next_sequence kEndOfSessionMessageCount"

section \<open>Send schedules\<close>

definition timePointMax :: int where "timePointMax = 2 ^ 63 - 1"

record RateSchedule =
  rs_interval :: int
  rs_scheduled_deadline :: "int option"

definition kNanosecondsPerSecond :: u64 where "kNanosecondsPerSecond = 1000000000"

definition intervalFor :: "u64 \<Rightarrow> int" where
  "intervalFor packets_per_second =
     (if packets_per_second = 0 then 0
      else
        let whole_nanoseconds = kNanosecondsPerSecond div packets_per_second;
            remainder = kNanosecondsPerSecond mod packets_per_second;
            ceiling_nanoseconds = whole_nanoseconds + (if remainder = 0 then 0 else 1)
        in uint ceiling_nanoseconds)"

definition newRateSchedule :: "u64 \<Rightarrow> RateSchedule" where
  "newRateSchedule packets_per_second = \<lparr>rs_interval = intervalFor packets_per_second, rs_scheduled_deadline = None\<rparr>"

definition rs_enabled :: "RateSchedule \<Rightarrow> bool" where "rs_enabled s = (rs_interval s > 0)"

definition rs_reset :: "RateSchedule \<Rightarrow> int \<Rightarrow> RateSchedule" where
  "rs_reset s base = s\<lparr>rs_scheduled_deadline := Some base\<rparr>"

definition rs_checkedAdd :: "RateSchedule \<Rightarrow> int \<Rightarrow> int option" where
  "rs_checkedAdd s base = (if base > timePointMax - rs_interval s then None else Some (base + rs_interval s))"

definition checkedDeadlineAfterPacket :: "RateSchedule \<Rightarrow> int \<Rightarrow> int option \<times> RateSchedule" where
  "checkedDeadlineAfterPacket s sent_at =
     (if \<not> rs_enabled s then (None, s)
      else
        let base = (case rs_scheduled_deadline s of Some d \<Rightarrow> if d > sent_at then d else sent_at | None \<Rightarrow> sent_at)
        in case rs_checkedAdd s base of None \<Rightarrow> (None, s)
           | Some candidate \<Rightarrow> (Some candidate, s\<lparr>rs_scheduled_deadline := Some candidate\<rparr>))"

record HeartbeatSchedule =
  hb_interval :: int
  hb_next_heartbeat :: "int option"

definition newHeartbeatSchedule :: "int \<Rightarrow> HeartbeatSchedule" where
  "newHeartbeatSchedule interval = \<lparr>hb_interval = interval, hb_next_heartbeat = None\<rparr>"

definition hb_enabled :: "HeartbeatSchedule \<Rightarrow> bool" where "hb_enabled s = (hb_interval s > 0)"

definition observeTraffic :: "HeartbeatSchedule \<Rightarrow> int \<Rightarrow> HeartbeatSchedule" where
  "observeTraffic s sent_at =
     (if \<not> hb_enabled s then s\<lparr>hb_next_heartbeat := None\<rparr>
      else s\<lparr>hb_next_heartbeat :=
             Some (if sent_at > timePointMax - hb_interval s then timePointMax else sent_at + hb_interval s)\<rparr>)"

definition nextHeartbeatBefore :: "HeartbeatSchedule \<Rightarrow> int \<Rightarrow> int option" where
  "nextHeartbeatBefore s data_deadline =
     (case hb_next_heartbeat s of None \<Rightarrow> None | Some h \<Rightarrow> if h \<ge> data_deadline then None else Some h)"

record EndOfSessionSchedule =
  eos_packet_count :: u64
  eos_interval :: int

text \<open>The division is one of positive integers.\<close>

definition eos_checkedDeadline :: "EndOfSessionSchedule \<Rightarrow> int \<Rightarrow> u64 \<Rightarrow> int option" where
  "eos_checkedDeadline s first_send packet_index =
     (if packet_index = 0 \<or> eos_interval s \<le> 0 then Some first_send
      else
        let maximum_index = (word_of_int (timePointMax div eos_interval s) :: u64)
        in if packet_index > maximum_index then None
           else
             let delay = eos_interval s * uint packet_index
             in if first_send > timePointMax - delay then None else Some (first_send + delay))"

definition checkedDeadlineAfterSend :: "EndOfSessionSchedule \<Rightarrow> int \<Rightarrow> int option" where
  "checkedDeadlineAfterSend s successful_send = eos_checkedDeadline s successful_send 1"

definition eos_deadline :: "EndOfSessionSchedule \<Rightarrow> int \<Rightarrow> u64 \<Rightarrow> int" where
  "eos_deadline s first_send packet_index =
     (case eos_checkedDeadline s first_send packet_index of None \<Rightarrow> timePointMax | Some t \<Rightarrow> t)"

end
