(* ===== verification/ItchParser.thy ===== *)
theory ItchParser
  imports BookManager StockDirectory WireFormat
begin

text \<open>
  Model of \<open>ItchParser.cpp\<close>, \<open>ItchParser.hpp\<close> and \<open>ChannelPhase.hpp\<close>: the parser of ITCH 5.0 messages, which checks the
  trading-day phase, decodes the fields and applies each message to the stock directory and the books.

  The parser's references to the directory and to the book manager are the fields \<open>ip_symbols\<close> and \<open>ip_books\<close>. A message
  is the list of its bytes; the offsets are those of the sources. Message types and event codes are written as
  their character codes.
\<close>

section \<open>State\<close>

datatype ChannelPhase =
    WaitingStartOfMessages
  | StartupDirectorySpin
  | StartupAdminSpin
  | SystemHours
  | MarketHours
  | PostMarketHours
  | PostSystemHours
  | EndOfMessages

record ItchParser =
  ip_symbols :: StockDirectory
  ip_books :: BookManager
  ip_channel_id :: u8
  ip_channel_phase :: ChannelPhase
  ip_last_message_skipped :: bool
  ip_last_error :: string
  ip_books_prepared :: bool

definition newItchParser :: "StockDirectory \<Rightarrow> BookManager \<Rightarrow> u8 \<Rightarrow> ItchParser" where
  "newItchParser symbols books channel_id =
     \<lparr>ip_symbols = symbols, ip_books = books, ip_channel_id = channel_id,
      ip_channel_phase = WaitingStartOfMessages, ip_last_message_skipped = False, ip_last_error = [],
      ip_books_prepared = False\<rparr>"

definition kStockLen :: nat where "kStockLen = 8"
definition kTimestampOffset :: nat where "kTimestampOffset = 5"
definition kAddStockOffset :: nat where "kAddStockOffset = 24"
definition kSystemEventCodeOffset :: nat where "kSystemEventCodeOffset = 11"
definition kNanosecondsPerDay :: u64 where "kNanosecondsPerDay = 86400000000000"

section \<open>Outcomes\<close>

definition ip_skip :: "ItchParser \<Rightarrow> bool \<times> ItchParser" where
  "ip_skip p = (False, p\<lparr>ip_last_message_skipped := True\<rparr>)"

definition ip_fail :: "ItchParser \<Rightarrow> string \<Rightarrow> bool \<times> ItchParser" where
  "ip_fail p error = (False, p\<lparr>ip_last_message_skipped := True, ip_last_error := error\<rparr>)"

definition applyBookFailure :: "ItchParser \<Rightarrow> MutationResult \<Rightarrow> string \<Rightarrow> ItchParser" where
  "applyBookFailure p result operation =
     p\<lparr>ip_last_message_skipped := True, ip_last_error := operation @ '': '' @ mutationResultName result\<rparr>"

definition applyBookResult :: "ItchParser \<Rightarrow> MutationResult \<Rightarrow> string \<Rightarrow> ItchParser" where
  "applyBookResult p result operation = (if result = Applied then p else applyBookFailure p result operation)"

section \<open>Text fields\<close>

fun fixedTextLength :: "u8 list \<Rightarrow> nat \<Rightarrow> nat \<Rightarrow> nat" where
  "fixedTextLength msg off 0 = 0"
| "fixedTextLength msg off (Suc n) =
     (if msg ! (off + n) = 0x20 \<or> msg ! (off + n) = 0 then fixedTextLength msg off n else Suc n)"

definition fixedText :: "u8 list \<Rightarrow> nat \<Rightarrow> nat \<Rightarrow> u8 list" where
  "fixedText msg off len = map (\<lambda>i. msg ! (off + i)) [0..<fixedTextLength msg off len]"

definition wireStockMatches :: "StockDirectoryEntry \<Rightarrow> u8 list \<Rightarrow> nat \<Rightarrow> bool" where
  "wireStockMatches entry msg offset0 =
     (let ticker_length = length (takeWhile (\<lambda>c. c \<noteq> 0) (take kStockLen (sde_ticker entry)))
      in list_all (\<lambda>index.
           let expected = (if index < ticker_length then sde_ticker entry ! index else 0x20);
               observed = msg ! (offset0 + index)
           in observed = expected) [0..<kStockLen])"

section \<open>Order messages\<close>

definition handleAdd :: "ItchParser \<Rightarrow> u8 list \<Rightarrow> u16 \<Rightarrow> ItchParser" where
  "handleAdd p msg locate =
     (case dir_get (ip_symbols p) locate of
        None \<Rightarrow> snd (ip_fail p ''add order uses unregistered stock locate'')
      | Some directory_entry \<Rightarrow>
          if \<not> wireStockMatches directory_entry msg kAddStockOffset
          then snd (ip_fail p ''add order stock does not match registered ticker'')
          else
            let order_id = readU64BE msg 11;
                qty = readU32BE msg 20;
                price = ucast (readU32BE msg 32);
                timestamp = readU48BE msg kTimestampOffset;
                (result, books) = mgr_addOrder (ip_books p) locate order_id price qty (msg ! 19) timestamp
            in applyBookResult (p\<lparr>ip_books := books\<rparr>) result ''add order'')"

definition applyExecution :: "ItchParser \<Rightarrow> u8 list \<Rightarrow> u16 \<Rightarrow> ItchParser" where
  "applyExecution p msg locate =
     (let order_id = readU64BE msg 11;
          executed_qty = readU32BE msg 19;
          timestamp = readU48BE msg kTimestampOffset;
          (result, books) = mgr_executeOrder (ip_books p) locate order_id executed_qty timestamp
      in applyBookResult (p\<lparr>ip_books := books\<rparr>) result ''order execution'')"

definition handleOrderExecuted :: "ItchParser \<Rightarrow> u8 list \<Rightarrow> u16 \<Rightarrow> ItchParser" where
  "handleOrderExecuted p msg locate = applyExecution p msg locate"

definition handleOrderExecutedWithPrice :: "ItchParser \<Rightarrow> u8 list \<Rightarrow> u16 \<Rightarrow> ItchParser" where
  "handleOrderExecutedWithPrice p msg locate =
     (let execution_price = readU32BE msg 32
      in if \<not> isValidItchPrice4 (ucast execution_price)
         then snd (ip_fail p ''order execution with price: price out of range'')
         else applyExecution p msg locate)"

definition handleCancel :: "ItchParser \<Rightarrow> u8 list \<Rightarrow> u16 \<Rightarrow> ItchParser" where
  "handleCancel p msg locate =
     (let order_id = readU64BE msg 11;
          canceled_qty = readU32BE msg 19;
          timestamp = readU48BE msg kTimestampOffset;
          (result, books) = mgr_cancelShares (ip_books p) locate order_id canceled_qty timestamp
      in applyBookResult (p\<lparr>ip_books := books\<rparr>) result ''order cancel'')"

definition handleDelete :: "ItchParser \<Rightarrow> u8 list \<Rightarrow> u16 \<Rightarrow> ItchParser" where
  "handleDelete p msg locate =
     (let order_id = readU64BE msg 11;
          timestamp = readU48BE msg kTimestampOffset;
          (result, books) = mgr_deleteOrder (ip_books p) locate order_id timestamp
      in applyBookResult (p\<lparr>ip_books := books\<rparr>) result ''order delete'')"

definition handleReplace :: "ItchParser \<Rightarrow> u8 list \<Rightarrow> u16 \<Rightarrow> ItchParser" where
  "handleReplace p msg locate =
     (let old_id = readU64BE msg 11;
          new_id = readU64BE msg 19;
          new_qty = readU32BE msg 27;
          new_price = ucast (readU32BE msg 31);
          timestamp = readU48BE msg kTimestampOffset
      in if new_id = old_id then snd (ip_fail p ''replacement order reference is not new'')
         else
           let (result, books) = mgr_replaceOrder (ip_books p) locate old_id new_id new_price new_qty timestamp
           in applyBookResult (p\<lparr>ip_books := books\<rparr>) result ''order replace'')"

definition handleBrokenTrade :: "ItchParser \<Rightarrow> u8 list \<Rightarrow> u16 \<Rightarrow> ItchParser" where
  "handleBrokenTrade p msg locate = snd (ip_skip p)"

section \<open>Books of registered securities\<close>

definition createRegisteredBook :: "ItchParser \<Rightarrow> u16 \<Rightarrow> bool \<times> ItchParser" where
  "createRegisteredBook p locate =
     (if \<not> isValidStockLocate locate \<or> \<not> dir_isRegistered (ip_symbols p) locate then (False, p)
      else
        let (book, books) = getOrCreate (ip_books p) locate
        in (book \<noteq> None, p\<lparr>ip_books := books\<rparr>))"

definition createRegisteredBooks :: "ItchParser \<Rightarrow> bool \<times> ItchParser" where
  "createRegisteredBooks p =
     fold (\<lambda>locate (success, q).
         if dir_isRegistered (ip_symbols q) locate
         then let (created, q') = createRegisteredBook q locate in (created \<and> success, q')
         else (success, q))
       locateSlots (True, p)"

section \<open>Directory messages\<close>

definition handleStockDirectory :: "ItchParser \<Rightarrow> u8 list \<Rightarrow> ItchParser" where
  "handleStockDirectory p msg =
     (let locate = readU16BE msg 1;
          sym = fixedText msg 11 kStockLen
      in if sym = [] \<or> \<not> isValidStockLocate locate then snd (ip_fail p ''invalid stock-directory identity'')
         else if (case dir_get (ip_symbols p) locate of None \<Rightarrow> False
                  | Some existing \<Rightarrow> takeWhile (\<lambda>c. c \<noteq> 0) (sde_ticker existing) \<noteq> sym)
         then snd (ip_fail p ''conflicting ticker for stock locate'')
         else
     let existing_locate = locateForTicker (ip_symbols p) sym
     in if existing_locate \<noteq> kInvalidStockLocate \<and> existing_locate \<noteq> locate
        then snd (ip_fail p ''ticker is already registered to another stock locate'')
        else
     let p1 = (if ip_channel_phase p = WaitingStartOfMessages
               then p\<lparr>ip_channel_phase := StartupDirectorySpin\<rparr> else p);
         n = (if length sym < 8 then length sym else 8);
         entry = \<lparr>sde_round_lot_size = readU32BE msg 21, sde_locate = locate,
                  sde_ticker = take n sym @ replicate (9 - n) 0, sde_market_category = msg ! 19,
                  sde_fin_status = msg ! 20, sde_is_test = (msg ! 29 = 0x54),
                  sde_round_lots_only = (msg ! 25 = 0x59), sde_issue_classification = msg ! 26\<rparr>;
         (registered, symbols) = dir_set (ip_symbols p1) locate entry;
         p2 = p1\<lparr>ip_symbols := symbols\<rparr>
     in if \<not> registered then snd (ip_fail p2 ''unable to register stock-directory identity'')
        else if \<not> ip_books_prepared p2 then p2
        else
          let (created, p3) = createRegisteredBook p2 locate
          in if \<not> created then snd (ip_fail p3 ''unable to prepare stock-directory book'') else p3)"

section \<open>System events\<close>

fun phase_allowed :: "ChannelPhase \<Rightarrow> ChannelPhase \<Rightarrow> bool" where
  "phase_allowed current StartupDirectorySpin = (current = WaitingStartOfMessages)"
| "phase_allowed current SystemHours = (current = StartupDirectorySpin \<or> current = StartupAdminSpin)"
| "phase_allowed current MarketHours = (current = SystemHours)"
| "phase_allowed current PostMarketHours = (current = MarketHours)"
| "phase_allowed current PostSystemHours = (current = PostMarketHours)"
| "phase_allowed current EndOfMessages = (current = PostSystemHours)"
| "phase_allowed current WaitingStartOfMessages = False"
| "phase_allowed current StartupAdminSpin = False"

definition advancePhase :: "ItchParser \<Rightarrow> ChannelPhase \<Rightarrow> bool \<times> ItchParser" where
  "advancePhase p next_phase =
     (if \<not> phase_allowed (ip_channel_phase p) next_phase
      then ip_fail p ''out-of-order or duplicate system event''
      else (True, p\<lparr>ip_channel_phase := next_phase\<rparr>))"

definition handleSystemHoursStart :: "ItchParser \<Rightarrow> ItchParser" where
  "handleSystemHoursStart p =
     (let (advanced, p1) = advancePhase p SystemHours
      in if \<not> advanced then p1
         else if ip_books_prepared p1 then p1
         else
           let (created, p2) = createRegisteredBooks (p1\<lparr>ip_books_prepared := True\<rparr>)
           in if \<not> created then snd (ip_fail p2 ''unable to prepare registered books'') else p2)"

definition handleSystemEvent :: "ItchParser \<Rightarrow> u8 list \<Rightarrow> ItchParser" where
  "handleSystemEvent p msg =
     (let event_code = msg ! kSystemEventCodeOffset
      in if event_code = 0x4F then snd (advancePhase p StartupDirectorySpin)
         else if event_code = 0x53 then handleSystemHoursStart p
         else if event_code = 0x51 then snd (advancePhase p MarketHours)
         else if event_code = 0x4D then snd (advancePhase p PostMarketHours)
         else if event_code = 0x45 then snd (advancePhase p PostSystemHours)
         else if event_code = 0x43 then
           (if totalLiveOrderCount (ip_books p) \<noteq> 0 then snd (ip_fail p ''end of messages with live orders'')
            else snd (advancePhase p EndOfMessages))
         else if event_code \<in> {0x41, 0x52, 0x42} then p
         else snd (ip_fail p ''unsupported system event code''))"

definition markStartupAdminMessage :: "ItchParser \<Rightarrow> ItchParser" where
  "markStartupAdminMessage p =
     (if ip_channel_phase p = StartupDirectorySpin then p\<lparr>ip_channel_phase := StartupAdminSpin\<rparr> else p)"

section \<open>Dispatch\<close>

definition book_outcome :: "ItchParser \<Rightarrow> bool \<times> ItchParser" where
  "book_outcome p = (\<not> ip_last_message_skipped p, p)"

definition dispatchMessage :: "ItchParser \<Rightarrow> u8 list \<Rightarrow> bool \<times> ItchParser" where
  "dispatchMessage p msg =
     (let type = msg ! 0;
          locate = readU16BE msg 1
      in if readU48BE msg kTimestampOffset \<ge> kNanosecondsPerDay
         then ip_fail p ''ITCH timestamp is outside trading day''
         else
     let system_event_code = (if type = 0x53 then msg ! kSystemEventCodeOffset else 0)
     in if type = 0x53 \<and> locate \<noteq> 0 then ip_fail p ''System Event stock locate is not zero''
        else if ip_channel_phase p = WaitingStartOfMessages \<and> (type \<noteq> 0x53 \<or> system_event_code \<noteq> 0x4F)
        then ip_fail p ''first ITCH message is not System Event O''
        else if ip_channel_phase p = EndOfMessages then ip_fail p ''ITCH message after end of messages''
        else if ip_channel_phase p = PostSystemHours \<and> type \<noteq> 0x58 \<and> type \<noteq> 0x44 \<and> type \<noteq> 0x42 \<and>
                \<not> (type = 0x53 \<and> system_event_code = 0x43)
        then ip_fail p ''ITCH message is not permitted after System Event E''
        else if type = 0x41 then book_outcome (handleAdd p msg locate)
        else if type = 0x46 then book_outcome (handleAdd p msg locate)
        else if type = 0x45 then book_outcome (handleOrderExecuted p msg locate)
        else if type = 0x43 then book_outcome (handleOrderExecutedWithPrice p msg locate)
        else if type = 0x58 then book_outcome (handleCancel p msg locate)
        else if type = 0x44 then book_outcome (handleDelete p msg locate)
        else if type = 0x55 then book_outcome (handleReplace p msg locate)
        else if type = 0x42 then book_outcome (handleBrokenTrade p msg locate)
        else if type = 0x52 then (False, handleStockDirectory p msg)
        else if type = 0x53 then (False, handleSystemEvent p msg)
        else if type \<in> {0x48, 0x59, 0x4C, 0x56, 0x57, 0x4B, 0x4A, 0x68} then (False, markStartupAdminMessage p)
        else ip_skip p)"

definition clear_outcome :: "ItchParser \<Rightarrow> ItchParser" where
  "clear_outcome p = p\<lparr>ip_last_error := [], ip_last_message_skipped := False\<rparr>"

definition handleMessage :: "ItchParser \<Rightarrow> u8 list \<Rightarrow> bool \<times> ItchParser" where
  "handleMessage p0 msg =
     (let p = clear_outcome p0
      in if msg = [] then ip_fail p ''empty ITCH message''
         else
           let expected_length = expectedItchMessageLength (msg ! 0)
           in if expected_length = 0 then ip_fail p ''unsupported ITCH message type''
              else if length msg \<noteq> unat expected_length then ip_fail p ''invalid ITCH message length''
              else dispatchMessage p msg)"

definition handlePrevalidatedMessage :: "ItchParser \<Rightarrow> u8 list \<Rightarrow> bool \<times> ItchParser" where
  "handlePrevalidatedMessage p0 msg =
     (let p = clear_outcome p0
      in if msg = [] then ip_fail p ''empty prevalidated ITCH message'' else dispatchMessage p msg)"

end
