(* ===== verification/MoldUdpDecoder.thy ===== *)
theory MoldUdpDecoder
  imports GapBuffer ItchParser
begin

text \<open>
  Model of \<open>MoldUdpDecoder.cpp\<close>, \<open>MoldUdpDecoder.hpp\<close>, \<open>DecodeResult.hpp\<close>, \<open>ChannelState.hpp\<close> and \<open>PacketView.hpp\<close>: the decoder of
  MoldUDP64 packets, which validates a packet, orders packets by sequence through the gap buffer, and hands every
  message to the parser.

  A packet is the list of its bytes, so that its size is the length of the list; \<open>None\<close> is a null pointer. Offsets into a
  packet are natural numbers: they stay far below the range of \<open>size_t\<close>. The loop of \<open>drainGapBuffer\<close> has
  no bound in the sources and is a partial function: \<open>None\<close> would be an endless loop. The latency that \<open>elapsedRdtscNs\<close> measures when the
  processing of a packet ends is a parameter \<open>elapsed\<close> of the start ticks and the first sequence of the packet. Log output is
  left out.
\<close>

section \<open>State\<close>

datatype DecodeStatus =
    DecodeOk
  | PacketTooSmall
  | InvalidMessageType
  | InvalidSize
  | UnSupportedVersion
  | InvalidOrderSide
  | Heartbeat
  | EndOfStream
  | InvalidSequence
  | InvalidSession
  | RedundantFeedMismatch
  | InvalidItchMessage
  | IncompleteSession

fun decodeStatusName :: "DecodeStatus \<Rightarrow> string" where
  "decodeStatusName DecodeOk = ''Ok''"
| "decodeStatusName PacketTooSmall = ''PacketTooSmall''"
| "decodeStatusName InvalidMessageType = ''InvalidMessageType''"
| "decodeStatusName InvalidSize = ''InvalidSize''"
| "decodeStatusName UnSupportedVersion = ''UnSupportedVersion''"
| "decodeStatusName InvalidOrderSide = ''InvalidOrderSide''"
| "decodeStatusName Heartbeat = ''Heartbeat''"
| "decodeStatusName EndOfStream = ''EndOfStream''"
| "decodeStatusName InvalidSequence = ''InvalidSequence''"
| "decodeStatusName InvalidSession = ''InvalidSession''"
| "decodeStatusName RedundantFeedMismatch = ''RedundantFeedMismatch''"
| "decodeStatusName InvalidItchMessage = ''InvalidItchMessage''"
| "decodeStatusName IncompleteSession = ''IncompleteSession''"

definition isTerminalDecodeFailure :: "DecodeStatus \<Rightarrow> bool" where
  "isTerminalDecodeFailure status =
     (status \<in> {InvalidSize, InvalidSequence, InvalidSession, RedundantFeedMismatch, InvalidItchMessage, IncompleteSession})"

record DecodeResult =
  dr_status :: DecodeStatus
  dr_had_gap :: bool
  dr_latency_total_ns :: u64
  dr_latency_sample_count :: u64

abbreviation result_of :: "DecodeStatus \<Rightarrow> bool \<Rightarrow> DecodeResult" where
  "result_of status had_gap \<equiv> \<lparr>dr_status = status, dr_had_gap = had_gap, dr_latency_total_ns = 0, dr_latency_sample_count = 0\<rparr>"

record PacketView =
  pv_data :: "u8 list option"
  pv_receive_start_ticks :: u64

record ChannelState =
  ch_channel_id :: u16
  ch_session :: "u8 list"
  ch_next_expected_seq :: u64
  ch_heartbeat_next_seq_high_watermark :: u64
  ch_identical_buffered_redundant_packets :: u64
  ch_conflicting_buffered_redundant_packets :: u64
  ch_status :: ChannelHealth
  ch_phase :: ChannelPhase
  ch_gap_buffer :: GapBuffer

record MoldUdpDecoder =
  md_first_packet_seen :: bool
  md_pending_end_sequence :: u64
  md_terminal_status :: DecodeStatus
  md_channel :: ChannelState
  md_parser :: ItchParser

definition kSessionBytes :: nat where "kSessionBytes = 10"

definition newChannelState :: "u8 \<Rightarrow> u64 \<Rightarrow> ChannelState" where
  "newChannelState channel_id initial_expected_sequence =
     \<lparr>ch_channel_id = ucast channel_id, ch_session = replicate (kSessionBytes + 1) 0,
      ch_next_expected_seq = initial_expected_sequence, ch_heartbeat_next_seq_high_watermark = 0,
      ch_identical_buffered_redundant_packets = 0, ch_conflicting_buffered_redundant_packets = 0,
      ch_status = Good, ch_phase = WaitingStartOfMessages, ch_gap_buffer = newGapBuffer\<rparr>"

definition newMoldUdpDecoder :: "StockDirectory \<Rightarrow> BookManager \<Rightarrow> u8 \<Rightarrow> u64 \<Rightarrow> MoldUdpDecoder" where
  "newMoldUdpDecoder symbols books channel_id initial_expected_sequence =
     \<lparr>md_first_packet_seen = False, md_pending_end_sequence = 0, md_terminal_status = DecodeOk,
      md_channel = newChannelState channel_id initial_expected_sequence,
      md_parser = newItchParser symbols books channel_id\<rparr>"

text \<open>The session bytes of a packet are its first ten.\<close>

definition setSession :: "ChannelState \<Rightarrow> u8 list \<Rightarrow> ChannelState" where
  "setSession ch bytes = ch\<lparr>ch_session := take kSessionBytes bytes @ [0]\<rparr>"

definition sessionMatches :: "ChannelState \<Rightarrow> u8 list \<Rightarrow> bool" where
  "sessionMatches ch bytes = (take kSessionBytes (ch_session ch) = take kSessionBytes bytes)"

definition kMinimumFramedItchMessageBytes :: u64 where "kMinimumFramedItchMessageBytes = 2 + 12"

definition kMaxMessagesPerStoredPacket :: u64 where
  "kMaxMessagesPerStoredPacket = (of_nat kMaxPacketSize - of_nat kHeaderSize) div kMinimumFramedItchMessageBytes"

definition mergeLatency :: "DecodeResult \<Rightarrow> DecodeResult \<Rightarrow> DecodeResult" where
  "mergeLatency target source =
     target\<lparr>dr_latency_total_ns := dr_latency_total_ns target + dr_latency_total_ns source,
            dr_latency_sample_count := dr_latency_sample_count target + dr_latency_sample_count source\<rparr>"

definition set_status :: "MoldUdpDecoder \<Rightarrow> ChannelHealth \<Rightarrow> MoldUdpDecoder" where
  "set_status d status = d\<lparr>md_channel := (md_channel d)\<lparr>ch_status := status\<rparr>\<rparr>"

definition set_expected :: "MoldUdpDecoder \<Rightarrow> u64 \<Rightarrow> MoldUdpDecoder" where
  "set_expected d seq = d\<lparr>md_channel := (md_channel d)\<lparr>ch_next_expected_seq := seq\<rparr>\<rparr>"

definition set_watermark :: "MoldUdpDecoder \<Rightarrow> u64 \<Rightarrow> MoldUdpDecoder" where
  "set_watermark d seq = d\<lparr>md_channel := (md_channel d)\<lparr>ch_heartbeat_next_seq_high_watermark := seq\<rparr>\<rparr>"

definition set_buffer :: "MoldUdpDecoder \<Rightarrow> GapBuffer \<Rightarrow> MoldUdpDecoder" where
  "set_buffer d g = d\<lparr>md_channel := (md_channel d)\<lparr>ch_gap_buffer := g\<rparr>\<rparr>"

definition terminalFailure :: "MoldUdpDecoder \<Rightarrow> DecodeStatus \<Rightarrow> DecodeResult \<times> MoldUdpDecoder" where
  "terminalFailure d status = (result_of status False, (set_status d Invalid)\<lparr>md_terminal_status := status\<rparr>)"

section \<open>Packets\<close>

primrec validate_loop :: "nat \<Rightarrow> u8 list \<Rightarrow> nat \<Rightarrow> DecodeStatus" where
  "validate_loop 0 data offset0 = (if offset0 \<noteq> length data then InvalidSize else DecodeOk)"
| "validate_loop (Suc n) data offset0 =
     (if offset0 + 2 > length data then InvalidSize
      else
        let msg_len = unat (mold_readU16BE data offset0);
            offset1 = offset0 + 2
        in if msg_len = 0 \<or> msg_len > length data - offset1 then InvalidSize
           else
             let expected_len = unat (expectedItchMessageLength (data ! offset1))
             in if expected_len = 0 \<or> msg_len \<noteq> expected_len then InvalidItchMessage
                else validate_loop n data (offset1 + msg_len))"

definition validateSequencedPacket :: "u8 list \<Rightarrow> u16 \<Rightarrow> DecodeStatus" where
  "validateSequencedPacket data msg_count = validate_loop (unat msg_count) data kHeaderSize"

text \<open>The loop over the messages. It returns an error, or the number of messages handed to the parser.\<close>

primrec process_loop :: "nat \<Rightarrow> u8 list \<Rightarrow> nat \<Rightarrow> u64 \<Rightarrow> u64 \<Rightarrow> u64 \<Rightarrow> MoldUdpDecoder \<Rightarrow> (DecodeStatus + u64) \<times> MoldUdpDecoder" where
  "process_loop 0 data offset0 message_seq start_seq processed_messages d = (Inr processed_messages, d)"
| "process_loop (Suc n) data offset0 message_seq start_seq processed_messages d =
     (if offset0 + 2 > length data then (Inl InvalidSize, d)
      else
        let msg_len = unat (mold_readU16BE data offset0);
            offset1 = offset0 + 2
        in if msg_len = 0 \<or> offset1 + msg_len > length data then (Inl InvalidSize, d)
           else if message_seq \<ge> start_seq then
             (let parser1 = snd (handlePrevalidatedMessage (md_parser d) (take msg_len (drop offset1 data)));
                  d1 = d\<lparr>md_parser := parser1, md_channel := (md_channel d)\<lparr>ch_phase := ip_channel_phase parser1\<rparr>\<rparr>
              in if ip_last_error parser1 \<noteq> [] then (Inl InvalidItchMessage, set_status d1 Invalid)
                 else process_loop n data (offset1 + msg_len) (message_seq + 1) start_seq (processed_messages + 1) d1)
           else process_loop n data (offset1 + msg_len) (message_seq + 1) start_seq processed_messages d)"

definition processSequencedPacket ::
    "(u64 \<Rightarrow> u64 \<Rightarrow> u64) \<Rightarrow> MoldUdpDecoder \<Rightarrow> u8 list \<Rightarrow> u64 \<Rightarrow> u16 \<Rightarrow> u64 \<Rightarrow> u64 \<Rightarrow> DecodeResult \<times> MoldUdpDecoder" where
  "processSequencedPacket elapsed d data first_seq msg_count start_seq receive_start_ticks =
     (let packet_end = first_seq + ucast msg_count
      in if start_seq < first_seq \<or> start_seq > packet_end then (result_of InvalidSequence False, d)
         else case process_loop (unat msg_count) data kHeaderSize first_seq start_seq 0 d of
           (Inl status, d1) \<Rightarrow> (result_of status False, d1)
         | (Inr processed_messages, d1) \<Rightarrow>
             (if receive_start_ticks \<noteq> 0 \<and> processed_messages \<noteq> 0
              then \<lparr>dr_status = DecodeOk, dr_had_gap = False, dr_latency_total_ns = elapsed receive_start_ticks first_seq,
                    dr_latency_sample_count = processed_messages\<rparr>
              else result_of DecodeOk False, d1))"

section \<open>Recovery\<close>

text \<open>The inner loop of \<open>drainGapBuffer\<close>: the first packet found at a sequence at or below the expected one.\<close>

primrec candidate_loop :: "nat \<Rightarrow> ChannelState \<Rightarrow> u64 \<Rightarrow> SequencedPacket option" where
  "candidate_loop 0 ch distance = None"
| "candidate_loop (Suc n) ch distance =
     (case gb_find (ch_gap_buffer ch) (ch_next_expected_seq ch - distance) of
        None \<Rightarrow> candidate_loop n ch (distance + 1)
      | Some candidate \<Rightarrow> Some candidate)"

definition find_candidate :: "ChannelState \<Rightarrow> SequencedPacket option" where
  "find_candidate ch =
     (let max_distance = min (ch_next_expected_seq ch) kMaxMessagesPerStoredPacket
      in candidate_loop (Suc (unat max_distance)) ch 0)"

partial_function (option) drain_loop ::
    "(u64 \<Rightarrow> u64 \<Rightarrow> u64) \<Rightarrow> MoldUdpDecoder \<Rightarrow> DecodeResult \<Rightarrow> (DecodeResult \<times> MoldUdpDecoder) option" where
  "drain_loop elapsed d aggregate =
     (let ch = md_channel d
      in case find_candidate ch of None \<Rightarrow> Some (aggregate, d)
         | Some packet \<Rightarrow>
             let first_seq = pkt_seq packet;
                 packet_end = pkt_seq packet + ucast (pkt_msg_count packet)
             in if packet_end \<le> ch_next_expected_seq ch
                then drain_loop elapsed (set_buffer d (gb_erase (ch_gap_buffer ch) first_seq)) aggregate
                else
                  let (result, d1) = processSequencedPacket elapsed d (pkt_data packet) first_seq (pkt_msg_count packet)
                                       (ch_next_expected_seq ch) (pkt_receive_start_ticks packet);
                      aggregate1 = mergeLatency aggregate result;
                      d2 = set_buffer d1 (gb_erase (ch_gap_buffer (md_channel d1)) first_seq)
                  in if dr_status result \<noteq> DecodeOk
                     then Some (aggregate1\<lparr>dr_status := dr_status result\<rparr>, set_status d2 Invalid)
                     else drain_loop elapsed (set_expected d2 packet_end) aggregate1)"

definition drainGapBuffer :: "(u64 \<Rightarrow> u64 \<Rightarrow> u64) \<Rightarrow> MoldUdpDecoder \<Rightarrow> (DecodeResult \<times> MoldUdpDecoder) option" where
  "drainGapBuffer elapsed d = drain_loop elapsed d (result_of DecodeOk False)"

definition resolvePendingEndOfStream :: "MoldUdpDecoder \<Rightarrow> DecodeStatus \<times> MoldUdpDecoder" where
  "resolvePendingEndOfStream d =
     (let ch = md_channel d
      in if md_pending_end_sequence d = 0 \<or> ch_next_expected_seq ch < md_pending_end_sequence d then (DecodeOk, d)
         else if ch_next_expected_seq ch > md_pending_end_sequence d then (InvalidSequence, d)
         else if ch_status ch \<noteq> Good \<or> \<not> gb_empty (ch_gap_buffer ch) \<or> ch_heartbeat_next_seq_high_watermark ch \<noteq> 0
         then (DecodeOk, d)
         else if ch_phase ch \<noteq> EndOfMessages then (IncompleteSession, d)
         else (EndOfStream, d\<lparr>md_pending_end_sequence := 0, md_terminal_status := EndOfStream\<rparr>))"

section \<open>Packets of each kind\<close>

text \<open>An end-of-session marker (message count \<open>0xFFFF\<close>).\<close>

definition processEndOfSession :: "MoldUdpDecoder \<Rightarrow> u64 \<Rightarrow> DecodeResult \<times> MoldUdpDecoder" where
  "processEndOfSession d first_seq =
     (let ch = md_channel d
      in if first_seq < ch_next_expected_seq ch \<or>
            md_pending_end_sequence d \<noteq> 0 \<and> md_pending_end_sequence d \<noteq> first_seq \<or>
            ch_heartbeat_next_seq_high_watermark ch > first_seq
         then terminalFailure d InvalidSequence
         else if first_seq > ch_next_expected_seq ch then
           (if ch_phase ch = EndOfMessages \<or> ch_status ch = Invalid \<or> ch_status ch = Stale
            then terminalFailure d InvalidSequence
            else
              let d1 = d\<lparr>md_pending_end_sequence := first_seq\<rparr>;
                  d2 = set_watermark d1 (max (ch_heartbeat_next_seq_high_watermark ch) first_seq)
              in (result_of DecodeOk True, set_status d2 GapDetected))
         else if ch_status ch \<noteq> Good \<or> \<not> gb_empty (ch_gap_buffer ch) \<or> ch_heartbeat_next_seq_high_watermark ch \<noteq> 0
         then terminalFailure d InvalidSequence
         else if ch_phase ch \<noteq> EndOfMessages then terminalFailure d IncompleteSession
         else (result_of EndOfStream False, d\<lparr>md_terminal_status := EndOfStream\<rparr>))"

text \<open>A heartbeat (message count zero).\<close>

definition processHeartbeat :: "MoldUdpDecoder \<Rightarrow> u64 \<Rightarrow> DecodeResult \<times> MoldUdpDecoder" where
  "processHeartbeat d first_seq =
     (let ch = md_channel d
      in if md_pending_end_sequence d \<noteq> 0 \<and> first_seq > md_pending_end_sequence d then terminalFailure d InvalidSequence
         else if first_seq > ch_next_expected_seq ch then
           (let d1 = set_watermark d (max (ch_heartbeat_next_seq_high_watermark ch) first_seq)
            in (result_of DecodeOk True,
                if ch_status ch \<noteq> Stale \<and> ch_status ch \<noteq> Invalid then set_status d1 GapDetected else d1))
         else if ch_heartbeat_next_seq_high_watermark ch \<noteq> 0 \<and>
                 ch_next_expected_seq ch \<ge> ch_heartbeat_next_seq_high_watermark ch then
           (let d1 = set_watermark d 0
            in (result_of DecodeOk False,
                if gb_empty (ch_gap_buffer ch) \<and> ch_status ch \<noteq> Invalid \<and> ch_status ch \<noteq> Stale
                then set_status d1 Good else d1))
         else (result_of DecodeOk False, d))"

text \<open>A sequenced packet that starts ahead of the expected sequence.\<close>

definition bufferPacket :: "MoldUdpDecoder \<Rightarrow> u8 list \<Rightarrow> u64 \<Rightarrow> u16 \<Rightarrow> u64 \<Rightarrow> DecodeResult \<times> MoldUdpDecoder" where
  "bufferPacket d data first_seq msg_count receive_start_ticks =
     (let already_stale = (ch_status (md_channel d) = Stale);
          d1 = set_status d GapDetected
      in if already_stale then (result_of DecodeOk True, set_status d1 Stale)
         else if length data > kMaxPacketSize then terminalFailure d1 InvalidSize
         else
           let (insert_result, g) = gb_insert (ch_gap_buffer (md_channel d1)) (Some data) (of_nat (length data)) first_seq
                                      msg_count receive_start_ticks;
               d2 = set_buffer d1 g
           in if insert_result = ConflictingDuplicate then
                terminalFailure (d2\<lparr>md_channel := (md_channel d2)\<lparr>ch_conflicting_buffered_redundant_packets :=
                  ch_conflicting_buffered_redundant_packets (md_channel d2) + 1\<rparr>\<rparr>) RedundantFeedMismatch
              else if insert_result = DuplicateIdentical then
                (result_of DecodeOk True, d2\<lparr>md_channel := (md_channel d2)\<lparr>ch_identical_buffered_redundant_packets :=
                  ch_identical_buffered_redundant_packets (md_channel d2) + 1\<rparr>\<rparr>)
              else if insert_result \<noteq> Inserted then (result_of DecodeOk True, set_status d2 Stale)
              else (result_of DecodeOk True, d2))"

text \<open>A sequenced packet that holds the expected sequence, and the recovery behind it.\<close>

definition applyPacket ::
    "(u64 \<Rightarrow> u64 \<Rightarrow> u64) \<Rightarrow> MoldUdpDecoder \<Rightarrow> u8 list \<Rightarrow> u64 \<Rightarrow> u16 \<Rightarrow> u64 \<Rightarrow> (DecodeResult \<times> MoldUdpDecoder) option" where
  "applyPacket elapsed d data first_seq msg_count receive_start_ticks =
     (let expected = ch_next_expected_seq (md_channel d);
          packet_end = first_seq + ucast msg_count;
          start_seq = (if expected > first_seq then expected else first_seq);
          (result, d1) = processSequencedPacket elapsed d data first_seq msg_count start_seq receive_start_ticks
      in if dr_status result \<noteq> DecodeOk then Some (terminalFailure d1 (dr_status result))
         else
           let d2 = (if ch_status (md_channel d1) = GapDetected then set_status d1 Recovering else d1);
               d3 = set_expected d2 packet_end;
               had_gap = (ch_status (md_channel d3) = GapDetected \<or> ch_status (md_channel d3) = Recovering)
           in case drainGapBuffer elapsed d3 of None \<Rightarrow> None
              | Some (drained, d4) \<Rightarrow>
                  let result1 = mergeLatency result drained
                  in if dr_status drained \<noteq> DecodeOk then Some (terminalFailure d4 (dr_status drained))
                     else
                       let ch4 = md_channel d4;
                           d6 = (if ch_status ch4 \<noteq> Invalid \<and> ch_status ch4 \<noteq> Stale
                                 then
                                   let d5 = (if ch_heartbeat_next_seq_high_watermark ch4 \<noteq> 0 \<and>
                                                ch_next_expected_seq ch4 \<ge> ch_heartbeat_next_seq_high_watermark ch4
                                             then set_watermark d4 0 else d4);
                                       resolved = (gb_empty (ch_gap_buffer (md_channel d5)) \<and>
                                                   ch_heartbeat_next_seq_high_watermark (md_channel d5) = 0)
                                   in set_status d5 (if resolved then Good else Recovering)
                                 else d4);
                           result2 = result1\<lparr>dr_had_gap := had_gap\<rparr>;
                           (pending_status, d7) = resolvePendingEndOfStream d6
                       in if pending_status = DecodeOk then Some (result2, d7)
                          else if pending_status = EndOfStream then Some (result2\<lparr>dr_status := EndOfStream\<rparr>, d7)
                          else Some (terminalFailure d7 pending_status))"

text \<open>The sequenced branch of \<open>processPacket\<close>.\<close>

definition processSequenced ::
    "(u64 \<Rightarrow> u64 \<Rightarrow> u64) \<Rightarrow> MoldUdpDecoder \<Rightarrow> u8 list \<Rightarrow> u64 \<Rightarrow> u16 \<Rightarrow> u64 \<Rightarrow> (DecodeResult \<times> MoldUdpDecoder) option" where
  "processSequenced elapsed d data first_seq msg_count receive_start_ticks =
     (if first_seq > u64_max - ucast msg_count then Some (terminalFailure d InvalidSequence)
      else
        let validation_status = validateSequencedPacket data msg_count
        in if validation_status \<noteq> DecodeOk then Some (terminalFailure d validation_status)
           else
             let expected = ch_next_expected_seq (md_channel d);
                 packet_end = first_seq + ucast msg_count
             in if md_pending_end_sequence d \<noteq> 0 \<and> packet_end > md_pending_end_sequence d
                then Some (terminalFailure d InvalidSequence)
                else if packet_end \<le> expected then Some (result_of DecodeOk False, d)
                else if first_seq > expected then Some (bufferPacket d data first_seq msg_count receive_start_ticks)
                else applyPacket elapsed d data first_seq msg_count receive_start_ticks)"

definition processPacket ::
    "(u64 \<Rightarrow> u64 \<Rightarrow> u64) \<Rightarrow> MoldUdpDecoder \<Rightarrow> PacketView \<Rightarrow> (DecodeResult \<times> MoldUdpDecoder) option" where
  "processPacket elapsed d packet =
     (if md_terminal_status d \<noteq> DecodeOk then Some (result_of (md_terminal_status d) False, d)
      else case pv_data packet of None \<Rightarrow> Some (result_of PacketTooSmall False, d)
      | Some data \<Rightarrow>
          if length data < kHeaderSize then Some (result_of PacketTooSmall False, d)
          else
     let msg_count = mold_readU16BE data 18;
         first_seq = mold_readU64BE data 10
     in if (msg_count = 0 \<or> msg_count = kEndOfSessionMessageCount) \<and> length data \<noteq> kHeaderSize
        then Some (terminalFailure d InvalidSize)
        else if md_first_packet_seen d \<and> \<not> sessionMatches (md_channel d) data
        then Some (terminalFailure d InvalidSession)
        else
          let d1 = (if \<not> md_first_packet_seen d
                    then d\<lparr>md_first_packet_seen := True, md_channel := setSession (md_channel d) data\<rparr> else d)
          in if msg_count = kEndOfSessionMessageCount then Some (processEndOfSession d1 first_seq)
             else if msg_count = 0 then Some (processHeartbeat d1 first_seq)
             else processSequenced elapsed d1 data first_seq msg_count (pv_receive_start_ticks packet))"

definition endOfStreamAccepted :: "MoldUdpDecoder \<Rightarrow> bool" where
  "endOfStreamAccepted d = (md_terminal_status d = EndOfStream)"

end
