(* ===== verification/ItchMoldUdpSource.thy ===== *)
theory ItchMoldUdpSource
  imports MoldUdpDecoder
begin

text \<open>
  Model of \<open>replay/itch/ItchMoldUdpSource.hpp\<close> and \<open>ItchMoldUdpSource.cpp\<close>: the reader of a Nasdaq BinaryFILE that emits MoldUDP64 packets.

  The input stream is the list of its unread bytes: \<open>read\<close> takes from its front, \<open>seekg(-2, cur)\<close> leaves the two bytes just read in it, and
  \<open>peek\<close> finds the end of the file when it is empty. A file that cannot be opened is \<open>None\<close>. The packet buffer is
  represented by the bytes written behind the header so far (\<open>body\<close>), so that \<open>offset\<close> is the header size plus its length; the
  message bytes of a record that is refused are never part of it. The time stamp of a packet is a parameter.
\<close>

datatype CompletionPolicy = RequireTerminator | AllowEofAfterEndOfMessages

datatype CompletionKind = CompletionNone | CompletionTerminator | LegacyEndOfMessagesEof

definition kDefaultMsgsPerPacket :: u16 where "kDefaultMsgsPerPacket = 20"
definition kMoldHeaderSize :: nat where "kMoldHeaderSize = 20"
definition kStandardIpv4UdpPayloadBytes :: nat where "kStandardIpv4UdpPayloadBytes = 1472"
definition kMaxPacketBytes :: nat where
  "kMaxPacketBytes = (if kStandardIpv4UdpPayloadBytes < kMaxPacketSize then kStandardIpv4UdpPayloadBytes else kMaxPacketSize)"

record ItchMoldUdpSource =
  src_input :: "u8 list"
  src_is_open :: bool
  src_session :: "u8 list"
  src_msgs_per_packet :: u16
  src_completion_policy :: CompletionPolicy
  src_next_seq :: u64
  src_last_error :: string
  src_eof :: bool
  src_completed :: bool
  src_saw_message :: bool
  src_last_message_was_end_of_messages :: bool
  src_completion_kind :: CompletionKind

section \<open>Big-endian writers\<close>

definition writeU16BE :: "u16 \<Rightarrow> u8 list" where
  "writeU16BE v = [ucast (drop_bit 8 v AND 0xFF), ucast (v AND 0xFF)]"

definition writeU64BE :: "u64 \<Rightarrow> u8 list" where
  "writeU64BE v = fst (fold (\<lambda>i (buf, s). (buf[i := ucast (s AND 0xFF)], drop_bit 8 s)) [7, 6, 5, 4, 3, 2, 1, 0] (replicate 8 0, v))"

section \<open>Construction\<close>

definition src_fail :: "ItchMoldUdpSource \<Rightarrow> string \<Rightarrow> ItchMoldUdpSource" where
  "src_fail s error = s\<lparr>src_eof := True, src_last_error := error\<rparr>"

definition newItchMoldUdpSource :: "u8 list option \<Rightarrow> string \<Rightarrow> u8 list \<Rightarrow> u16 \<Rightarrow> CompletionPolicy \<Rightarrow> ItchMoldUdpSource" where
  "newItchMoldUdpSource file path session msgs_per_packet completion_policy =
     (let s0 = \<lparr>src_input = (case file of None \<Rightarrow> [] | Some bytes \<Rightarrow> bytes), src_is_open = (file \<noteq> None), src_session = session,
                src_msgs_per_packet = msgs_per_packet, src_completion_policy = completion_policy, src_next_seq = 1,
                src_last_error = [], src_eof = False, src_completed = False, src_saw_message = False,
                src_last_message_was_end_of_messages = False, src_completion_kind = CompletionNone\<rparr>;
          s1 = (if \<not> src_is_open s0 then src_fail s0 (''failed to open ITCH file: '' @ path)
                else if length session > 10 then src_fail s0 ''MoldUDP64 session must not exceed 10 bytes''
                else if msgs_per_packet = 0 then src_fail s0 ''msgs_per_packet must be greater than zero''
                else s0)
      in s1\<lparr>src_session := take 10 (session @ replicate 10 0x20)\<rparr>)"

section \<open>Packets\<close>

text \<open>The checks of a message that has been read: the error, if any.\<close>

definition record_error :: "ItchMoldUdpSource \<Rightarrow> u8 list \<Rightarrow> string option" where
  "record_error s msg =
     (let expected_length = expectedItchMessageLength (msg ! 0);
          is_system_event = (msg ! 0 = 0x53)
      in if expected_length = 0 then Some ''unsupported ITCH message type''
         else if length msg \<noteq> unat expected_length then Some ''invalid ITCH message length''
         else if is_system_event \<and> (msg ! 1 \<noteq> 0 \<or> msg ! 2 \<noteq> 0) then Some ''System Event stock locate is not zero''
         else if \<not> src_saw_message s \<and> \<not> (is_system_event \<and> msg ! 11 = 0x4F) then Some ''first ITCH record is not System Event O''
         else None)"

definition is_end_of_messages :: "u8 list \<Rightarrow> bool" where
  "is_end_of_messages msg = (msg ! 0 = 0x53 \<and> msg ! 11 = 0x43)"

definition is_replay_timing_boundary :: "u8 list \<Rightarrow> bool" where
  "is_replay_timing_boundary msg = (msg ! 0 = 0x53 \<and> (msg ! 11 = 0x53 \<or> msg ! 11 = 0x51))"

text \<open>The stream after a length prefix of zero.\<close>

definition read_terminator :: "ItchMoldUdpSource \<Rightarrow> ItchMoldUdpSource" where
  "read_terminator s =
     (if src_input s \<noteq> [] then src_fail s ''data follows zero-length BinaryFILE terminator''
      else if \<not> src_last_message_was_end_of_messages s then src_fail s ''BinaryFILE terminator before ITCH System Event C''
      else s\<lparr>src_eof := True, src_completed := True, src_completion_kind := CompletionTerminator\<rparr>)"

text \<open>The end of the file in place of a length prefix.\<close>

definition read_eof :: "ItchMoldUdpSource \<Rightarrow> ItchMoldUdpSource" where
  "read_eof s =
     (if src_completion_policy s = AllowEofAfterEndOfMessages \<and> src_last_message_was_end_of_messages s
      then s\<lparr>src_eof := True, src_completed := True, src_completion_kind := LegacyEndOfMessagesEof\<rparr>
      else src_fail s ''physical EOF before zero-length BinaryFILE terminator'')"

function next_loop :: "ItchMoldUdpSource \<Rightarrow> u16 \<Rightarrow> u8 list \<Rightarrow> ItchMoldUdpSource \<times> u16 \<times> u8 list" where
  "next_loop s count body =
     (if \<not> (count < src_msgs_per_packet s \<or> src_last_message_was_end_of_messages s) then (s, count, body)
      else if src_input s = [] then (read_eof s, count, body)
      else if length (src_input s) < 2 then (src_fail (s\<lparr>src_input := []\<rparr>) ''truncated ITCH message-length prefix'', count, body)
      else
        let msg_len = mold_readU16BE (src_input s) 0;
            rest = drop 2 (src_input s);
            s1 = s\<lparr>src_input := rest\<rparr>
        in if msg_len = 0 then (read_terminator s1, count, body)
           else if src_last_message_was_end_of_messages s then (src_fail s1 ''ITCH record follows System Event C'', count, body)
           else if kMoldHeaderSize + length body + 2 + unat msg_len > kMaxPacketBytes then
             (if count = 0 then (src_fail s1 ''ITCH message is too large for a MoldUDP packet'', count, body) else (s, count, body))
           else if length rest < unat msg_len then
             (src_fail (s1\<lparr>src_input := []\<rparr>) ''truncated ITCH message payload'', count, body)
           else
             let msg = take (unat msg_len) rest;
                 s2 = s1\<lparr>src_input := drop (unat msg_len) rest\<rparr>
             in case record_error s2 msg of Some error \<Rightarrow> (src_fail s2 error, count, body)
                | None \<Rightarrow>
                    let s3 = s2\<lparr>src_saw_message := True, src_last_message_was_end_of_messages := is_end_of_messages msg,
                                src_next_seq := src_next_seq s2 + 1\<rparr>;
                        body1 = body @ writeU16BE msg_len @ msg
                    in if is_replay_timing_boundary msg then (s3, count + 1, body1) else next_loop s3 (count + 1) body1)"
  by pat_completeness auto

termination
  by (relation "measure (\<lambda>(s, count, body). length (src_input s))") auto

definition src_next :: "u64 \<Rightarrow> ItchMoldUdpSource \<Rightarrow> PacketView option \<times> ItchMoldUdpSource" where
  "src_next ticks s =
     (if src_eof s then (None, s)
      else
        let first_seq = src_next_seq s;
            (s1, count, body) = next_loop s 0 []
        in if count = 0 then (None, s1)
           else (Some \<lparr>pv_data = Some (src_session s1 @ writeU64BE first_seq @ writeU16BE count @ body),
                      pv_receive_start_ticks = ticks\<rparr>, s1))"

definition src_isOpen :: "ItchMoldUdpSource \<Rightarrow> bool" where
  "src_isOpen s = (src_is_open s \<and> src_last_error s = [])"

definition setMessagesPerPacket :: "ItchMoldUdpSource \<Rightarrow> u16 \<Rightarrow> bool \<times> ItchMoldUdpSource" where
  "setMessagesPerPacket s msgs_per_packet =
     (if msgs_per_packet = 0 then (False, s) else (True, s\<lparr>src_msgs_per_packet := msgs_per_packet\<rparr>))"

end
