(* ===== verification/SenderOptions.thy ===== *)
theory SenderOptions
  imports ItchMoldUdpSource Complex_Main
begin

text \<open>
  The command line and the environment of the sender, \<open>apps/itch_moldudp_sender_main.cpp\<close>: the strict number parsers, the replay mode, and the
  checks that \<open>main\<close> makes before it opens a file or a socket.

  An argument is a string without NUL bytes, \<open>argv\<close> the list of arguments with the program's name first, and the environment a map from
  names to values; a null pointer is \<open>None\<close>. The conversion of a decimal text to a floating-point number, \<open>strtod\<close>, is a parameter: for a text
  it gives the number of characters read, the value if it is finite, and whether the range was exceeded. The division of \<open>long double\<close>
  numbers is a parameter as well. Every exit with a message is a value of \<open>ConfigError\<close>.
\<close>

section \<open>Constants\<close>

definition kDefaultLineBDelayNs :: u64 where "kDefaultLineBDelayNs = 1000"
definition kMaxLineBDelayNs :: u64 where "kMaxLineBDelayNs = 1000000000"
definition kDefaultStartupHeartbeatCount :: u64 where "kDefaultStartupHeartbeatCount = 0"
definition kDefaultStartupHeartbeatIntervalMs :: u64 where "kDefaultStartupHeartbeatIntervalMs = 1000"
definition kMaxStartupHeartbeatCount :: u64 where "kMaxStartupHeartbeatCount = 1000000"
definition kMaxStartupHeartbeatIntervalMs :: u64 where "kMaxStartupHeartbeatIntervalMs = 60000"
definition kDefaultIdleHeartbeatIntervalMs :: u64 where "kDefaultIdleHeartbeatIntervalMs = 1000"
definition kMaxIdleHeartbeatIntervalMs :: u64 where "kMaxIdleHeartbeatIntervalMs = 60000"
definition kDefaultEndOfSessionPacketCount :: u64 where "kDefaultEndOfSessionPacketCount = 10"
definition kDefaultEndOfSessionIntervalMs :: u64 where "kDefaultEndOfSessionIntervalMs = 100"
definition kMaxEndOfSessionPacketCount :: u64 where "kMaxEndOfSessionPacketCount = 1000000"
definition kMaxEndOfSessionIntervalMs :: u64 where "kMaxEndOfSessionIntervalMs = 60000"
definition kMaxPacketsPerSecond :: u64 where "kMaxPacketsPerSecond = kNanosecondsPerSecond"
definition kMaxSchedulingSeconds :: u64 where "kMaxSchedulingSeconds = word_of_int (timePointMax div 1000000000)"

section \<open>Number parsers\<close>

primrec parse_u64_loop :: "string \<Rightarrow> u64 \<Rightarrow> u64 option" where
  "parse_u64_loop [] parsed = Some parsed"
| "parse_u64_loop (c # cs) parsed =
     (if (of_char c :: nat) < 48 \<or> (of_char c :: nat) > 57 then None
      else
        let digit = of_nat (of_char c - 48) :: u64
        in if parsed > (u64_max - digit) div 10 then None else parse_u64_loop cs (parsed * 10 + digit))"

definition parseU64Strict :: "string option \<Rightarrow> u64 option" where
  "parseU64Strict value = (case value of None \<Rightarrow> None | Some text \<Rightarrow> if text = [] then None else parse_u64_loop text 0)"

definition parseCpuId :: "string option \<Rightarrow> int option" where
  "parseCpuId value = (case parseU64Strict value of None \<Rightarrow> None | Some parsed \<Rightarrow> if parsed > 0x7FFFFFFF then None else Some (uint parsed))"

definition parseU64InRange :: "string option \<Rightarrow> u64 \<Rightarrow> u64 \<Rightarrow> u64 option" where
  "parseU64InRange value minimum maximum =
     (case parseU64Strict value of None \<Rightarrow> None
      | Some parsed \<Rightarrow> if parsed < minimum \<or> parsed > maximum then None else Some parsed)"

definition parsePositiveDoubleStrict :: "(string \<Rightarrow> nat \<times> real option \<times> bool) \<Rightarrow> string option \<Rightarrow> real option" where
  "parsePositiveDoubleStrict strtod value =
     (case value of None \<Rightarrow> None
      | Some text \<Rightarrow>
          if text = [] then None
          else
            let (consumed, parsed, out_of_range) = strtod text
            in if consumed = 0 \<or> consumed \<noteq> length text \<or> out_of_range then None
               else case parsed of None \<Rightarrow> None | Some x \<Rightarrow> if x \<le> 0 then None else Some x)"

definition parsePort :: "string option \<Rightarrow> u16 option" where
  "parsePort value = map_option ucast (parseU64InRange value 1 (ucast u16_max))"

definition parseMsgsPerPacket :: "string option \<Rightarrow> u16 option" where
  "parseMsgsPerPacket value = map_option ucast (parseU64InRange value 1 (ucast u16_max))"

datatype PremarketReplayMode = ReplayOff | ReplayFlat | ReplayTimestamp

definition parseReplayMode :: "string option \<Rightarrow> u64 \<Rightarrow> PremarketReplayMode option" where
  "parseReplayMode value premarket_seconds =
     (if value = None \<or> value = Some [] then Some (if premarket_seconds > 0 then ReplayFlat else ReplayOff)
      else if value = Some ''flat'' then Some ReplayFlat
      else if value = Some ''timestamp'' then Some ReplayTimestamp
      else if value = Some ''off'' \<or> value = Some ''none'' \<or> value = Some ''disabled'' then Some ReplayOff
      else None)"

definition replayModeName :: "PremarketReplayMode \<Rightarrow> string" where
  "replayModeName mode = (case mode of ReplayFlat \<Rightarrow> ''flat'' | ReplayTimestamp \<Rightarrow> ''timestamp'' | ReplayOff \<Rightarrow> ''off'')"

definition completionKindName :: "CompletionKind \<Rightarrow> string" where
  "completionKindName kind =
     (case kind of CompletionNone \<Rightarrow> ''none'' | CompletionTerminator \<Rightarrow> ''terminator'' | LegacyEndOfMessagesEof \<Rightarrow> ''legacy_sc_eof'')"

section \<open>The intervals of paced replay\<close>

text \<open>Both results are the counts of \<open>std::chrono::nanoseconds\<close>.\<close>

definition premarketIntervalFor :: "u64 \<Rightarrow> u64 \<Rightarrow> int" where
  "premarketIntervalFor seconds packets =
     (if seconds = 0 \<or> packets = 0 then 0
      else if seconds > u64_max div kNanosecondsPerSecond then timePointMax
      else
        let total_ns = seconds * kNanosecondsPerSecond;
            whole_ns = total_ns div packets;
            remainder = total_ns mod packets;
            ceiling_ns = whole_ns + (if remainder = 0 then 0 else 1)
        in if ceiling_ns > word_of_int timePointMax then timePointMax else uint ceiling_ns)"

definition scaledDelay :: "(real \<Rightarrow> real \<Rightarrow> real) \<Rightarrow> u64 \<Rightarrow> real \<Rightarrow> int" where
  "scaledDelay ld_divide ns_delta speedup =
     (if ns_delta = 0 \<or> speedup \<le> 0 then 0
      else
        let scaled_ns = ld_divide (of_nat (unat ns_delta)) speedup
        in if scaled_ns < 1 then 1
           else if scaled_ns > of_int timePointMax then timePointMax
           else \<lceil>scaled_ns\<rceil>)"

section \<open>Command line and environment\<close>

datatype ConfigError =
    Usage | BadPort | BadPortB | SamePorts | BadMsgsPerPacket | BadSession | BadRate | BadPremarketSeconds | BadSsPauseSeconds
  | BadReplayMode | BadSpeedup | CpuPairIncomplete | BadCpuId | SameCpu | BadLineBDelay | BadStartupHeartbeatCount
  | BadStartupHeartbeatInterval | BadHeartbeatInterval | BadEosPacketCount | BadEosInterval | BadCompletion

record SenderArguments =
  arg_redundant :: bool
  arg_path :: string
  arg_ip :: string
  arg_port_a :: u16
  arg_port_b :: u16
  arg_msgs_per_packet :: u16
  arg_session :: string
  arg_pkts_per_second :: u64
  arg_premarket_seconds :: u64
  arg_ss_pause_seconds :: u64
  arg_replay_mode :: PremarketReplayMode
  arg_premarket_speedup :: real

record SenderConfig = SenderArguments +
  cfg_cpus :: "(int \<times> int) option"
  cfg_line_b_delay_ns :: u64
  cfg_startup_heartbeat_count :: u64
  cfg_startup_heartbeat_interval_ms :: u64
  cfg_idle_heartbeat_interval_ms :: u64
  cfg_end_of_session_packet_count :: u64
  cfg_end_of_session_interval_ms :: u64
  cfg_completion_policy :: CompletionPolicy

text \<open>A check that leaves \<open>main\<close> with an error when the value is not there.\<close>

definition require :: "'a option \<Rightarrow> ConfigError \<Rightarrow> ('a \<Rightarrow> ConfigError + 'b) \<Rightarrow> ConfigError + 'b" where
  "require value e continue = (case value of None \<Rightarrow> Inl e | Some x \<Rightarrow> continue x)"

definition ensure :: "bool \<Rightarrow> ConfigError \<Rightarrow> (ConfigError + 'b) \<Rightarrow> ConfigError + 'b" where
  "ensure ok e continue = (if ok then continue else Inl e)"

definition parseArguments ::
    "(string \<Rightarrow> nat \<times> real option \<times> bool) \<Rightarrow> (string \<Rightarrow> string option) \<Rightarrow> string list \<Rightarrow> ConfigError + SenderArguments" where
  "parseArguments strtod getenv argv =
     (let argc = length argv;
          redundant = (argc \<ge> 2 \<and> argv ! 1 = ''--redundant'');
          valid_single_args = (\<not> redundant \<and> argc \<ge> 4 \<and> argc \<le> 11);
          valid_redundant_args = (redundant \<and> argc \<ge> 9 \<and> argc \<le> 13);
          arg = (\<lambda>i j. if redundant then argv ! i else argv ! j);
          given = (\<lambda>i j. argc > (if redundant then i else j));
          premarket_seconds_value = (if given 9 7 then Some (arg 9 7) else getenv ''ASTRA_PREMARKET_SECONDS'');
          ss_pause_seconds_value = (if given 10 8 then Some (arg 10 8) else getenv ''ASTRA_SS_PAUSE_SECONDS'');
          replay_mode_value = (if given 11 9 then Some (arg 11 9) else getenv ''ASTRA_PREMARKET_REPLAY_MODE'');
          speedup_value = (if given 12 10 then Some (arg 12 10) else getenv ''ASTRA_PREMARKET_SPEEDUP'');
          session = (if given 7 5 then arg 7 5 else ''ASTRA     '')
      in ensure (valid_single_args \<or> valid_redundant_args) Usage
        (require (parsePort (Some (arg 4 3))) BadPort (\<lambda>port_a.
         require (if redundant then parsePort (Some (argv ! 5)) else Some 0) BadPortB (\<lambda>port_b.
         ensure (\<not> (redundant \<and> port_a = port_b)) SamePorts
        (require (if given 6 4 then parseMsgsPerPacket (Some (arg 6 4)) else Some kDefaultMsgsPerPacket) BadMsgsPerPacket (\<lambda>msgs_per_packet.
         ensure (length session \<le> kSessionSize) BadSession
        (require (if given 8 6 then parseU64InRange (Some (arg 8 6)) 0 kMaxPacketsPerSecond else Some 0) BadRate (\<lambda>pkts_per_second.
         require (if premarket_seconds_value \<noteq> None then parseU64InRange premarket_seconds_value 0 kMaxSchedulingSeconds else Some 0)
           BadPremarketSeconds (\<lambda>premarket_seconds.
         require (if ss_pause_seconds_value \<noteq> None then parseU64InRange ss_pause_seconds_value 0 kMaxSchedulingSeconds else Some 0)
           BadSsPauseSeconds (\<lambda>ss_pause_seconds.
         require (parseReplayMode replay_mode_value premarket_seconds) BadReplayMode (\<lambda>replay_mode.
         require (if speedup_value \<noteq> None then parsePositiveDoubleStrict strtod speedup_value else Some 1) BadSpeedup (\<lambda>speedup.
         Inr \<lparr>arg_redundant = redundant, arg_path = arg 2 1, arg_ip = arg 3 2, arg_port_a = port_a, arg_port_b = port_b,
              arg_msgs_per_packet = msgs_per_packet, arg_session = session, arg_pkts_per_second = pkts_per_second,
              arg_premarket_seconds = premarket_seconds, arg_ss_pause_seconds = ss_pause_seconds, arg_replay_mode = replay_mode,
              arg_premarket_speedup = speedup\<rparr>))))))))))))"

text \<open>The settings of the redundant mode: the two CPUs, if configured, and the delay of line B.\<close>

definition parseRedundantSettings :: "(string \<Rightarrow> string option) \<Rightarrow> ConfigError + (int \<times> int) option \<times> u64" where
  "parseRedundantSettings getenv =
     (let cpu_a_env = getenv ''ASTRA_CPU_A'';
          cpu_b_env = getenv ''ASTRA_CPU_B'';
          cpu_a_configured = (cpu_a_env \<noteq> None \<and> cpu_a_env \<noteq> Some []);
          cpu_b_configured = (cpu_b_env \<noteq> None \<and> cpu_b_env \<noteq> Some []);
          delay = (\<lambda>cpus. case getenv ''ASTRA_LINE_B_DELAY_NS'' of None \<Rightarrow> Inr (cpus, kDefaultLineBDelayNs)
                          | Some text \<Rightarrow> require (parseU64Strict (Some text)) BadLineBDelay (\<lambda>line_b_delay_ns.
                              ensure (line_b_delay_ns \<le> kMaxLineBDelayNs) BadLineBDelay (Inr (cpus, line_b_delay_ns))))
      in ensure (cpu_a_configured = cpu_b_configured) CpuPairIncomplete
        (if cpu_a_configured then
           require (parseCpuId cpu_a_env) BadCpuId (\<lambda>cpu_a. require (parseCpuId cpu_b_env) BadCpuId (\<lambda>cpu_b.
           ensure (cpu_a \<noteq> cpu_b) SameCpu (delay (Some (cpu_a, cpu_b)))))
         else delay None))"

text \<open>A setting with a default, taken from the environment when it is there and at most its maximum.\<close>

definition envSetting :: "(string \<Rightarrow> string option) \<Rightarrow> string \<Rightarrow> u64 \<Rightarrow> u64 \<Rightarrow> u64 \<Rightarrow> u64 option" where
  "envSetting getenv name preset minimum maximum =
     (case getenv name of None \<Rightarrow> Some preset
      | Some text \<Rightarrow> (case parseU64Strict (Some text) of None \<Rightarrow> None
                      | Some v \<Rightarrow> if v < minimum \<or> v > maximum then None else Some v))"

definition parseCompletionPolicy :: "string option \<Rightarrow> CompletionPolicy option" where
  "parseCompletionPolicy value =
     (case value of None \<Rightarrow> Some RequireTerminator
      | Some text \<Rightarrow> if text = ''strict'' then Some RequireTerminator
                     else if text = ''legacy-sc-eof'' then Some AllowEofAfterEndOfMessages else None)"

definition parseConfig ::
    "(string \<Rightarrow> nat \<times> real option \<times> bool) \<Rightarrow> (string \<Rightarrow> string option) \<Rightarrow> string list \<Rightarrow> ConfigError + SenderConfig" where
  "parseConfig strtod getenv argv =
     (case parseArguments strtod getenv argv of Inl e \<Rightarrow> Inl e
      | Inr a \<Rightarrow>
        (case if arg_redundant a then parseRedundantSettings getenv else Inr (None, kDefaultLineBDelayNs) of Inl e \<Rightarrow> Inl e
         | Inr (cpus, line_b_delay_ns) \<Rightarrow>
         require (envSetting getenv ''ASTRA_STARTUP_HEARTBEAT_COUNT'' kDefaultStartupHeartbeatCount 0 kMaxStartupHeartbeatCount)
           BadStartupHeartbeatCount (\<lambda>startup_count.
         require (envSetting getenv ''ASTRA_STARTUP_HEARTBEAT_INTERVAL_MS'' kDefaultStartupHeartbeatIntervalMs 0 kMaxStartupHeartbeatIntervalMs)
           BadStartupHeartbeatInterval (\<lambda>startup_interval.
         require (envSetting getenv ''ASTRA_HEARTBEAT_INTERVAL_MS'' kDefaultIdleHeartbeatIntervalMs 0 kMaxIdleHeartbeatIntervalMs)
           BadHeartbeatInterval (\<lambda>idle_interval.
         require (envSetting getenv ''ASTRA_EOS_PACKET_COUNT'' kDefaultEndOfSessionPacketCount 1 kMaxEndOfSessionPacketCount)
           BadEosPacketCount (\<lambda>eos_count.
         require (envSetting getenv ''ASTRA_EOS_INTERVAL_MS'' kDefaultEndOfSessionIntervalMs 0 kMaxEndOfSessionIntervalMs)
           BadEosInterval (\<lambda>eos_interval.
         require (parseCompletionPolicy (getenv ''ASTRA_BINARYFILE_COMPLETION'')) BadCompletion (\<lambda>policy.
         Inr (SenderArguments.extend a
           (SenderConfig.fields cpus line_b_delay_ns startup_count startup_interval idle_interval eos_count eos_interval policy))))))))))"

end
