(* ===== verification/MoldUdpSender.thy ===== *)
theory MoldUdpSender
  imports SenderOptions
begin

text \<open>
  The replay sender, \<open>main\<close> of \<open>apps/itch_moldudp_sender_main.cpp\<close> after its command line has been read: the inspection of packets, the scan for the
  pre-market window, paced transmission with heartbeats, the end-of-session announcement and the exit status.

  What the sender observes of the outside world is given by functions of the number of observations made so far (\<open>SenderWorld\<close>): readings of
  the steady clock, the arrival of a signal, if any, and the results of \<open>sendto\<close> on the two lines. The datagrams taken by the network are
  recorded for each line. A loop that waits for the clock may run forever: such a call has the value \<open>None\<close>. An exception that
  leaves a step is \<open>Throw\<close>. The hand-off of a packet to the thread of line B appears here as one step (\<open>send_redundant\<close>); its protocol
  is modelled in \<open>RedundantHandoff\<close>. Sleeping has no effect but the passing of time, and messages on the standard streams are left out. The
  readers of big-endian fields are textually those of the decoder and the parser.
\<close>

section \<open>Packet inspection\<close>

record PacketTiming =
  has_timestamp :: bool
  first_timestamp_ns :: u64
  contains_ss :: bool
  contains_sq :: bool
  timing_ss_timestamp_ns :: u64
  timing_sq_timestamp_ns :: u64

definition noTiming :: PacketTiming where
  "noTiming = \<lparr>has_timestamp = False, first_timestamp_ns = 0, contains_ss = False, contains_sq = False,
     timing_ss_timestamp_ns = 0, timing_sq_timestamp_ns = 0\<rparr>"

text \<open>The inspection of the message of \<open>msg_len\<close> bytes at \<open>offset\<close>.\<close>

definition inspect_message :: "u8 list \<Rightarrow> nat \<Rightarrow> u16 \<Rightarrow> PacketTiming \<Rightarrow> PacketTiming" where
  "inspect_message data offset msg_len timing =
     (let timing1 = (if msg_len \<ge> 11 \<and> \<not> has_timestamp timing
                     then timing\<lparr>first_timestamp_ns := readU48BE data (offset + 5), has_timestamp := True\<rparr> else timing)
      in if msg_len \<ge> 12 \<and> data ! offset = 0x53 then
           (if data ! (offset + 11) = 0x53 then timing1\<lparr>contains_ss := True, timing_ss_timestamp_ns := readU48BE data (offset + 5)\<rparr>
            else if data ! (offset + 11) = 0x51 then timing1\<lparr>contains_sq := True, timing_sq_timestamp_ns := readU48BE data (offset + 5)\<rparr>
            else timing1)
         else timing1)"

primrec inspect_loop :: "nat \<Rightarrow> u8 list \<Rightarrow> nat \<Rightarrow> PacketTiming \<Rightarrow> PacketTiming" where
  "inspect_loop 0 data offset timing = timing"
| "inspect_loop (Suc n) data offset timing =
     (if offset + 2 > length data then timing
      else
        let msg_len = mold_readU16BE data offset
        in if msg_len = 0 \<or> offset + 2 + unat msg_len > length data then timing
           else inspect_loop n data (offset + 2 + unat msg_len) (inspect_message data (offset + 2) msg_len timing))"

definition inspectPacket :: "u8 list \<Rightarrow> PacketTiming" where
  "inspectPacket data =
     (if length data < kMoldHeaderSize then noTiming
      else inspect_loop (unat (mold_readU16BE data 18)) data kMoldHeaderSize noTiming)"

section \<open>The pre-market window\<close>

record PremarketWindow =
  pw_found :: bool
  pw_ss_packet :: u64
  pw_sq_packet :: u64
  pw_ss_timestamp_ns :: u64
  pw_sq_timestamp_ns :: u64

definition noWindow :: PremarketWindow where
  "noWindow = \<lparr>pw_found = False, pw_ss_packet = 0, pw_sq_packet = 0, pw_ss_timestamp_ns = 0, pw_sq_timestamp_ns = 0\<rparr>"

definition packetsToPace :: "PremarketWindow \<Rightarrow> u64" where
  "packetsToPace w = (if \<not> pw_found w \<or> pw_sq_packet w \<le> pw_ss_packet w then 0 else pw_sq_packet w - pw_ss_packet w)"

definition durationNs :: "PremarketWindow \<Rightarrow> u64" where
  "durationNs w = (if \<not> pw_found w \<or> pw_sq_timestamp_ns w \<le> pw_ss_timestamp_ns w then 0 else pw_sq_timestamp_ns w - pw_ss_timestamp_ns w)"

function scan_loop :: "u8 list \<Rightarrow> u16 \<Rightarrow> u64 \<Rightarrow> u16 \<Rightarrow> nat \<Rightarrow> bool \<Rightarrow> PremarketWindow \<Rightarrow> PremarketWindow" where
  "scan_loop input msgs_per_packet packet_index packet_count packet_offset force_next_packet window =
     (if length input < 2 then window
      else
        let msg_len = mold_readU16BE input 0;
            rest = drop 2 input
        in if msg_len = 0 then window
           else
             let next_packet = (force_next_packet \<or> packet_count = msgs_per_packet \<or> packet_offset + 2 + unat msg_len > kMaxPacketBytes);
                 packet_index = (if next_packet then packet_index + 1 else packet_index);
                 packet_count = (if next_packet then 0 else packet_count);
                 packet_offset = (if next_packet then kMoldHeaderSize else packet_offset);
                 force_next_packet = (if next_packet then False else force_next_packet);
                 msg = take (unat msg_len) rest
             in if length rest < unat msg_len then window
                else
                  let event_code = (if length msg > 11 then msg ! 11 else 0);
                      timestamp_ns = (if length msg \<ge> 11 then readU48BE msg 5 else 0)
                  in if msg ! 0 = 0x53 \<and> event_code = 0x53 then
                       scan_loop (drop (unat msg_len) rest) msgs_per_packet packet_index (packet_count + 1) (packet_offset + 2 + unat msg_len) True
                         (window\<lparr>pw_ss_packet := packet_index, pw_ss_timestamp_ns := timestamp_ns\<rparr>)
                     else if msg ! 0 = 0x53 \<and> event_code = 0x51 \<and> pw_ss_packet window \<noteq> 0 then
                       window\<lparr>pw_sq_packet := packet_index, pw_sq_timestamp_ns := timestamp_ns, pw_found := True\<rparr>
                     else
                       scan_loop (drop (unat msg_len) rest) msgs_per_packet packet_index (packet_count + 1) (packet_offset + 2 + unat msg_len)
                         force_next_packet window)"
  by pat_completeness auto

termination
  by (relation "measure (\<lambda>(input, mpp, index, cnt, off, force, window). length input)") auto

definition scanPremarketWindow :: "u8 list option \<Rightarrow> u16 \<Rightarrow> PremarketWindow" where
  "scanPremarketWindow file msgs_per_packet =
     (case file of None \<Rightarrow> noWindow | Some bytes \<Rightarrow> scan_loop bytes msgs_per_packet 1 0 kMoldHeaderSize False noWindow)"

record ReplayPlan =
  plan_premarket :: PremarketWindow
  plan_interval :: int
  plan_enabled :: bool

definition replayPlan :: "SenderConfig \<Rightarrow> u8 list option \<Rightarrow> ReplayPlan" where
  "replayPlan cfg file =
     (let mode = arg_replay_mode cfg;
          premarket = (if mode = ReplayFlat \<or> mode = ReplayTimestamp then scanPremarketWindow file (arg_msgs_per_packet cfg) else noWindow);
          interval = (if mode = ReplayFlat then premarketIntervalFor (arg_premarket_seconds cfg) (packetsToPace premarket) else 0)
      in \<lparr>plan_premarket = premarket, plan_interval = interval,
          plan_enabled = (mode = ReplayFlat \<and> interval > 0 \<or>
            mode = ReplayTimestamp \<and> pw_found premarket \<and> durationNs premarket > 0 \<and> arg_premarket_speedup cfg > 0)\<rparr>)"

section \<open>State and observations\<close>

record SenderWorld =
  sw_clock :: "nat \<Rightarrow> int"
  sw_signal :: "nat option"
  sw_line_a :: "nat \<Rightarrow> bool"
  sw_line_b :: "nat \<Rightarrow> bool"
  sw_overrun :: "nat \<Rightarrow> bool"

record LineState =
  ln_packets_sent :: u64
  ln_messages_sent :: u64
  ln_send_failures :: u64
  ln_delay_overruns :: u64

record SenderState =
  ss_source :: ItchMoldUdpSource
  ss_packet_rate_schedule :: RateSchedule
  ss_heartbeat_schedule :: HeartbeatSchedule
  ss_next_premarket_send :: int
  ss_premarket_start :: int
  ss_premarket_active :: bool
  ss_pause_pending :: bool
  ss_line_a :: LineState
  ss_line_b :: LineState
  ss_logical_packets :: u64
  ss_logical_messages :: u64
  ss_logical_first_seq :: u64
  ss_logical_next_seq :: u64
  ss_startup_heartbeats_sent :: u64
  ss_periodic_heartbeats_sent :: u64
  ss_end_of_session_packets_sent :: u64
  ss_transmission_failed :: bool
  ss_tick :: nat
  ss_wire_a :: "u8 list list"
  ss_wire_b :: "u8 list list"

definition newLineState :: LineState where
  "newLineState = \<lparr>ln_packets_sent = 0, ln_messages_sent = 0, ln_send_failures = 0, ln_delay_overruns = 0\<rparr>"

datatype 'a flow = Ret 'a SenderState | Throw string SenderState

text \<open>Sequencing: an exception and a call that does not return end the sequence.\<close>

definition flow_bind :: "'a flow option \<Rightarrow> ('a \<Rightarrow> SenderState \<Rightarrow> 'b flow option) \<Rightarrow> 'b flow option" where
  "flow_bind m f = (case m of None \<Rightarrow> None | Some (Throw e s) \<Rightarrow> Some (Throw e s) | Some (Ret a s) \<Rightarrow> f a s)"

text \<open>Steps of a loop body return whether the loop goes on; \<open>False\<close> is its \<open>break\<close>.\<close>

definition and_then :: "bool flow option \<Rightarrow> (SenderState \<Rightarrow> bool flow option) \<Rightarrow> bool flow option" where
  "and_then m f = flow_bind m (\<lambda>continue s. if continue then f s else Some (Ret False s))"

text \<open>\<open>onSignal\<close> stores \<open>false\<close> to \<open>g_running\<close>, and nothing stores \<open>true\<close>.\<close>

definition running_at :: "SenderWorld \<Rightarrow> nat \<Rightarrow> bool" where
  "running_at W t = (case sw_signal W of None \<Rightarrow> True | Some signalled \<Rightarrow> t < signalled)"

definition check_running :: "SenderWorld \<Rightarrow> SenderState \<Rightarrow> bool \<times> SenderState" where
  "check_running W s = (running_at W (ss_tick s), s\<lparr>ss_tick := ss_tick s + 1\<rparr>)"

definition read_clock :: "SenderWorld \<Rightarrow> SenderState \<Rightarrow> int \<times> SenderState" where
  "read_clock W s = (sw_clock W (ss_tick s), s\<lparr>ss_tick := ss_tick s + 1\<rparr>)"

definition checkedDeadlineAfter :: "int \<Rightarrow> int \<Rightarrow> int option" where
  "checkedDeadlineAfter base delay = (if delay < 0 \<or> base > timePointMax - delay then None else Some (base + delay))"

definition with_deadline :: "int \<Rightarrow> int \<Rightarrow> string \<Rightarrow> SenderState \<Rightarrow> (int \<Rightarrow> 'a flow option) \<Rightarrow> 'a flow option" where
  "with_deadline base delay label s continue =
     (case checkedDeadlineAfter base delay of None \<Rightarrow> Some (Throw (label @ '' exceeds steady-clock range'') s) | Some deadline \<Rightarrow> continue deadline)"

partial_function (option) sleepUntilOrStopped :: "SenderWorld \<Rightarrow> int \<Rightarrow> SenderState \<Rightarrow> (bool \<times> SenderState) option" where
  "sleepUntilOrStopped W deadline s =
     (let (running, s1) = check_running W s
      in if \<not> running then Some (False, s1)
         else
           let (now, s2) = read_clock W s1
           in if now \<ge> deadline then Some (True, s2) else sleepUntilOrStopped W deadline s2)"

section \<open>Transmission\<close>

definition count_sent :: "bool \<Rightarrow> u16 \<Rightarrow> LineState \<Rightarrow> LineState" where
  "count_sent sent msg_count line =
     (if sent then line\<lparr>ln_packets_sent := ln_packets_sent line + 1, ln_messages_sent := ln_messages_sent line + ucast msg_count\<rparr>
      else line\<lparr>ln_send_failures := ln_send_failures line + 1\<rparr>)"

definition send_line_a :: "SenderWorld \<Rightarrow> u8 list \<Rightarrow> u16 \<Rightarrow> SenderState \<Rightarrow> bool \<times> SenderState" where
  "send_line_a W data msg_count s =
     (let sent = sw_line_a W (ss_tick s)
      in (sent, s\<lparr>ss_tick := ss_tick s + 1, ss_line_a := count_sent sent msg_count (ss_line_a s),
                  ss_wire_a := (if sent then ss_wire_a s @ [data] else ss_wire_a s)\<rparr>))"

definition send_redundant :: "SenderWorld \<Rightarrow> SenderConfig \<Rightarrow> u8 list \<Rightarrow> u16 \<Rightarrow> SenderState \<Rightarrow> bool \<times> SenderState" where
  "send_redundant W cfg data msg_count s =
     (let (line_a_sent, s1) = send_line_a W data msg_count s;
          line_b = ss_line_b s1;
          line_b1 = (if cfg_line_b_delay_ns cfg > 0 \<and> sw_overrun W (ss_tick s1)
                     then line_b\<lparr>ln_delay_overruns := ln_delay_overruns line_b + 1\<rparr> else line_b);
          line_b_sent = sw_line_b W (ss_tick s1)
      in (line_a_sent \<and> line_b_sent,
          s1\<lparr>ss_tick := ss_tick s1 + 1, ss_line_b := count_sent line_b_sent msg_count line_b1,
             ss_wire_b := (if line_b_sent then ss_wire_b s1 @ [data] else ss_wire_b s1)\<rparr>))"

definition transmit :: "SenderWorld \<Rightarrow> SenderConfig \<Rightarrow> u8 list \<Rightarrow> u16 \<Rightarrow> SenderState \<Rightarrow> bool \<times> SenderState" where
  "transmit W cfg data msg_count s =
     (if arg_redundant cfg then send_redundant W cfg data msg_count s else send_line_a W data msg_count s)"

definition send_control_packet :: "SenderWorld \<Rightarrow> SenderConfig \<Rightarrow> u8 list \<Rightarrow> u64 \<Rightarrow> SenderState \<Rightarrow> bool \<times> SenderState" where
  "send_control_packet W cfg control_packet next_sequence s =
     (let (sent, s1) = transmit W cfg control_packet 0 s
      in if \<not> sent then (False, s1\<lparr>ss_transmission_failed := True\<rparr>)
         else (True, s1\<lparr>ss_logical_packets := ss_logical_packets s1 + 1, ss_logical_next_seq := next_sequence\<rparr>))"

abbreviation session_bytes :: "SenderConfig \<Rightarrow> u8 list" where "session_bytes cfg \<equiv> map of_char (arg_session cfg)"

partial_function (option) wait_until_with_heartbeats ::
    "SenderWorld \<Rightarrow> SenderConfig \<Rightarrow> int \<Rightarrow> u64 \<Rightarrow> SenderState \<Rightarrow> (bool \<times> SenderState) option" where
  "wait_until_with_heartbeats W cfg deadline next_sequence s =
     (let (running, s1) = check_running W s
      in if \<not> running then Some (False, s1)
         else
           let (now, s2) = read_clock W s1
           in if now \<ge> deadline then Some (True, s2)
              else case nextHeartbeatBefore (ss_heartbeat_schedule s2) deadline of
                None \<Rightarrow> sleepUntilOrStopped W deadline s2
              | Some heartbeat_deadline \<Rightarrow>
                  (case sleepUntilOrStopped W heartbeat_deadline s2 of None \<Rightarrow> None
                   | Some (reached, s3) \<Rightarrow>
                       if \<not> reached then Some (False, s3)
                       else
                         let (sent, s4) = send_control_packet W cfg (makeMoldHeartbeatPacket (session_bytes cfg) next_sequence) next_sequence s3
                         in if \<not> sent then Some (False, s4)
                            else
                              let (sent_at, s5) = read_clock W (s4\<lparr>ss_periodic_heartbeats_sent := ss_periodic_heartbeats_sent s4 + 1\<rparr>)
                              in wait_until_with_heartbeats W cfg deadline next_sequence
                                   (s5\<lparr>ss_heartbeat_schedule := observeTraffic (ss_heartbeat_schedule s5) sent_at\<rparr>)))"

text \<open>A wait as a step of a loop body.\<close>

definition wait_step :: "SenderWorld \<Rightarrow> SenderConfig \<Rightarrow> int \<Rightarrow> u64 \<Rightarrow> SenderState \<Rightarrow> bool flow option" where
  "wait_step W cfg deadline next_sequence s =
     (case wait_until_with_heartbeats W cfg deadline next_sequence s of None \<Rightarrow> None | Some (reached, s1) \<Rightarrow> Some (Ret reached s1))"

section \<open>Startup heartbeats\<close>

primrec startup_loop :: "nat \<Rightarrow> SenderWorld \<Rightarrow> SenderConfig \<Rightarrow> u8 list \<Rightarrow> int \<Rightarrow> SenderState \<Rightarrow> unit flow option" where
  "startup_loop 0 W cfg heartbeat deadline s = Some (Ret () s)"
| "startup_loop (Suc n) W cfg heartbeat deadline s =
     (let (running, s1) = check_running W s
      in if \<not> running then Some (Ret () s1)
         else
           let (sent, s2) = send_control_packet W cfg heartbeat (src_next_seq (ss_source s1)) s1
           in if \<not> sent then Some (Ret () s2)
              else
                let s3 = s2\<lparr>ss_startup_heartbeats_sent := ss_startup_heartbeats_sent s2 + 1\<rparr>;
                    interval = uint (cfg_startup_heartbeat_interval_ms cfg) * 1000000
                in if interval > 0 then
                     with_deadline deadline interval ''startup heartbeat deadline'' s3 (\<lambda>deadline1.
                       case sleepUntilOrStopped W deadline1 s3 of None \<Rightarrow> None
                       | Some (reached, s4) \<Rightarrow> if reached then startup_loop n W cfg heartbeat deadline1 s4 else Some (Ret () s4))
                   else startup_loop n W cfg heartbeat deadline s3)"

definition startup :: "SenderWorld \<Rightarrow> SenderConfig \<Rightarrow> SenderState \<Rightarrow> unit flow option" where
  "startup W cfg s =
     (if cfg_startup_heartbeat_count cfg = 0 then Some (Ret () s)
      else
        let heartbeat = makeMoldHeartbeatPacket (session_bytes cfg) (src_next_seq (ss_source s));
            (now, s1) = read_clock W s
        in startup_loop (unat (cfg_startup_heartbeat_count cfg)) W cfg heartbeat now s1)"

section \<open>The data loop\<close>

text \<open>The pacing of a packet before it is sent, inside the pre-market window.\<close>

definition pace_packet ::
    "(real \<Rightarrow> real \<Rightarrow> real) \<Rightarrow> SenderWorld \<Rightarrow> SenderConfig \<Rightarrow> ReplayPlan \<Rightarrow> u64 \<Rightarrow> PacketTiming \<Rightarrow> SenderState \<Rightarrow> bool flow option" where
  "pace_packet ld_divide W cfg plan first_seq timing s =
     (if \<not> ss_premarket_active s then Some (Ret True s)
      else case arg_replay_mode cfg of
        ReplayFlat \<Rightarrow>
          and_then (wait_step W cfg (ss_next_premarket_send s) first_seq s) (\<lambda>s1.
            with_deadline (ss_next_premarket_send s1) (plan_interval plan) ''flat premarket deadline'' s1 (\<lambda>deadline.
              Some (Ret True (s1\<lparr>ss_next_premarket_send := deadline\<rparr>))))
      | ReplayTimestamp \<Rightarrow>
          (let packet_timestamp = (if contains_sq timing then timing_sq_timestamp_ns timing else first_timestamp_ns timing);
               ss_timestamp = pw_ss_timestamp_ns (plan_premarket plan)
           in if has_timestamp timing \<and> packet_timestamp > ss_timestamp then
                with_deadline (ss_premarket_start s) (scaledDelay ld_divide (packet_timestamp - ss_timestamp) (arg_premarket_speedup cfg))
                  ''timestamp premarket deadline'' s (\<lambda>deadline. wait_step W cfg deadline first_seq s)
              else Some (Ret True s))
      | ReplayOff \<Rightarrow> Some (Ret True s))"

definition send_packet :: "SenderWorld \<Rightarrow> SenderConfig \<Rightarrow> u8 list \<Rightarrow> SenderState \<Rightarrow> bool flow option" where
  "send_packet W cfg data s =
     (let first_seq = mold_readU64BE data 10;
          msg_count = mold_readU16BE data 18;
          (packet_sent, s1) = transmit W cfg data msg_count s
      in if \<not> packet_sent then Some (Ret False (s1\<lparr>ss_transmission_failed := True\<rparr>))
         else Some (Ret True (s1\<lparr>ss_logical_packets := ss_logical_packets s1 + 1,
                                  ss_logical_messages := ss_logical_messages s1 + ucast msg_count,
                                  ss_logical_first_seq := (if ss_logical_first_seq s1 = 0 then first_seq else ss_logical_first_seq s1),
                                  ss_logical_next_seq := first_seq + ucast msg_count\<rparr>)))"

text \<open>After a packet is sent: the heartbeat and rate schedules. The result is the time of the next ordinary packet, if one is set.\<close>

definition schedule_next :: "SenderWorld \<Rightarrow> PacketTiming \<Rightarrow> SenderState \<Rightarrow> int option flow option" where
  "schedule_next W timing s =
     (let (data_sent_at, s1) = read_clock W s;
          s2 = (if hb_enabled (ss_heartbeat_schedule s1)
                then s1\<lparr>ss_heartbeat_schedule := observeTraffic (ss_heartbeat_schedule s1) data_sent_at\<rparr> else s1)
      in if rs_enabled (ss_packet_rate_schedule s2) \<and> (\<not> ss_premarket_active s2 \<or> contains_sq timing) then
           let rate = (if contains_sq timing then rs_reset (ss_packet_rate_schedule s2) data_sent_at else ss_packet_rate_schedule s2);
               (deadline, rate1) = checkedDeadlineAfterPacket rate data_sent_at;
               s3 = s2\<lparr>ss_packet_rate_schedule := rate1\<rparr>
           in if deadline = None then Some (Throw ''packet-rate deadline exceeds steady-clock range'' s3) else Some (Ret deadline s3)
         else Some (Ret None s2))"

definition start_premarket :: "SenderWorld \<Rightarrow> SenderConfig \<Rightarrow> ReplayPlan \<Rightarrow> SenderState \<Rightarrow> bool flow option" where
  "start_premarket W cfg plan s =
     (if plan_enabled plan \<and> \<not> ss_premarket_active s then
        let (now, s1) = read_clock W (s\<lparr>ss_premarket_active := True\<rparr>);
            s2 = s1\<lparr>ss_premarket_start := now\<rparr>
        in with_deadline now (plan_interval plan) ''initial premarket deadline'' s2 (\<lambda>deadline.
             let s3 = s2\<lparr>ss_next_premarket_send := deadline\<rparr>
             in if arg_replay_mode cfg = ReplayTimestamp then
                  let (ok, source) = setMessagesPerPacket (ss_source s3) 1;
                      s4 = s3\<lparr>ss_source := source\<rparr>
                  in if \<not> ok then Some (Throw ''failed to enable timestamp packetization'' s4) else Some (Ret True s4)
                else Some (Ret True s3))
      else Some (Ret True s))"

definition handle_ss :: "SenderWorld \<Rightarrow> SenderConfig \<Rightarrow> ReplayPlan \<Rightarrow> PacketTiming \<Rightarrow> SenderState \<Rightarrow> bool flow option" where
  "handle_ss W cfg plan timing s =
     (if \<not> contains_ss timing then Some (Ret True s)
      else if ss_pause_pending s then
        let (now, s1) = read_clock W s
        in with_deadline now (uint (arg_ss_pause_seconds cfg) * 1000000000) ''System Event S pause deadline'' s1 (\<lambda>deadline.
             case wait_until_with_heartbeats W cfg deadline (src_next_seq (ss_source s1)) s1 of None \<Rightarrow> None
             | Some (completed, s2) \<Rightarrow>
                 let s3 = s2\<lparr>ss_pause_pending := False\<rparr>
                 in if \<not> completed then Some (Ret False s3) else start_premarket W cfg plan s3)
      else start_premarket W cfg plan s)"

definition handle_sq :: "SenderConfig \<Rightarrow> PacketTiming \<Rightarrow> SenderState \<Rightarrow> bool flow option" where
  "handle_sq cfg timing s =
     (if \<not> contains_sq timing then Some (Ret True s)
      else
        let s1 = s\<lparr>ss_premarket_active := False\<rparr>
        in if arg_replay_mode cfg = ReplayTimestamp then
             let (ok, source) = setMessagesPerPacket (ss_source s1) (arg_msgs_per_packet cfg);
                 s2 = s1\<lparr>ss_source := source\<rparr>
             in if \<not> ok then Some (Throw ''failed to restore configured packetization'' s2) else Some (Ret True s2)
           else Some (Ret True s1))"

definition ordinary_wait :: "SenderWorld \<Rightarrow> SenderConfig \<Rightarrow> int option \<Rightarrow> SenderState \<Rightarrow> bool flow option" where
  "ordinary_wait W cfg next_ordinary_send s =
     (case next_ordinary_send of None \<Rightarrow> Some (Ret True s)
      | Some deadline \<Rightarrow>
          if \<not> ss_premarket_active s \<and> \<not> src_completed (ss_source s) \<and> src_last_error (ss_source s) = [] \<and> \<not> ss_transmission_failed s
          then wait_step W cfg deadline (src_next_seq (ss_source s)) s else Some (Ret True s))"

definition send_step :: "(real \<Rightarrow> real \<Rightarrow> real) \<Rightarrow> SenderWorld \<Rightarrow> SenderConfig \<Rightarrow> ReplayPlan \<Rightarrow> u8 list \<Rightarrow> SenderState \<Rightarrow> bool flow option" where
  "send_step ld_divide W cfg plan data s =
     (let timing = (if plan_enabled plan \<or> ss_pause_pending s then inspectPacket data else noTiming)
      in and_then (pace_packet ld_divide W cfg plan (mold_readU64BE data 10) timing s) (\<lambda>s1.
         and_then (send_packet W cfg data s1) (\<lambda>s2.
         flow_bind (schedule_next W timing s2) (\<lambda>next_ordinary_send s3.
         and_then (handle_ss W cfg plan timing s3) (\<lambda>s4.
         and_then (handle_sq cfg timing s4) (\<lambda>s5.
         ordinary_wait W cfg next_ordinary_send s5))))))"

partial_function (option) send_loop ::
    "(real \<Rightarrow> real \<Rightarrow> real) \<Rightarrow> SenderWorld \<Rightarrow> SenderConfig \<Rightarrow> ReplayPlan \<Rightarrow> SenderState \<Rightarrow> unit flow option" where
  "send_loop ld_divide W cfg plan s =
     (let (running, s1) = check_running W s
      in if \<not> running \<or> ss_transmission_failed s1 then Some (Ret () s1)
         else
           let (packet, source) = src_next 0 (ss_source s1);
               s2 = s1\<lparr>ss_source := source\<rparr>
           in case packet of None \<Rightarrow> Some (Ret () s2)
              | Some p \<Rightarrow>
                  (case pv_data p of None \<Rightarrow> Some (Ret () s2)
                   | Some data \<Rightarrow>
                       (case send_step ld_divide W cfg plan data s2 of None \<Rightarrow> None
                        | Some (Throw e s3) \<Rightarrow> Some (Throw e s3)
                        | Some (Ret continue s3) \<Rightarrow> if continue then send_loop ld_divide W cfg plan s3 else Some (Ret () s3))))"

section \<open>End of session and exit status\<close>

primrec eos_loop :: "nat \<Rightarrow> SenderWorld \<Rightarrow> SenderConfig \<Rightarrow> EndOfSessionSchedule \<Rightarrow> u8 list \<Rightarrow> u64 \<Rightarrow> int option \<Rightarrow> SenderState \<Rightarrow> unit flow option" where
  "eos_loop 0 W cfg schedule end_packet end_sequence previous s = Some (Ret () s)"
| "eos_loop (Suc n) W cfg schedule end_packet end_sequence previous s =
     (let (running, s1) = check_running W s
      in if \<not> running then Some (Ret () s1)
         else
           let waited = (case previous of None \<Rightarrow> Some (Ret True s1)
                         | Some sent_at \<Rightarrow>
                             (case checkedDeadlineAfterSend schedule sent_at of None \<Rightarrow> Some (Throw ''end-of-session deadline exceeds steady-clock range'' s1)
                              | Some deadline \<Rightarrow>
                                  (case sleepUntilOrStopped W deadline s1 of None \<Rightarrow> None | Some (reached, s2) \<Rightarrow> Some (Ret reached s2))))
           in flow_bind waited (\<lambda>reached s2.
                if \<not> reached then Some (Ret () s2)
                else
                  let (sent, s3) = send_control_packet W cfg end_packet end_sequence s2
                  in if \<not> sent then Some (Ret () s3)
                     else
                       let (now, s4) = read_clock W s3;
                           s5 = (if previous = None \<and> ss_logical_first_seq s4 = 0 then s4\<lparr>ss_logical_first_seq := end_sequence\<rparr> else s4)
                       in eos_loop n W cfg schedule end_packet end_sequence (Some now)
                            (s5\<lparr>ss_end_of_session_packets_sent := ss_end_of_session_packets_sent s5 + 1\<rparr>)))"

definition eosSchedule :: "SenderConfig \<Rightarrow> EndOfSessionSchedule" where
  "eosSchedule cfg = \<lparr>eos_packet_count = cfg_end_of_session_packet_count cfg, eos_interval = uint (cfg_end_of_session_interval_ms cfg) * 1000000\<rparr>"

text \<open>The result tells whether the whole announcement was sent.\<close>

definition announce_end :: "SenderWorld \<Rightarrow> SenderConfig \<Rightarrow> SenderState \<Rightarrow> bool flow option" where
  "announce_end W cfg s =
     (if src_completed (ss_source s) \<and> \<not> ss_transmission_failed s then
        let end_sequence = src_next_seq (ss_source s);
            end_packet = makeMoldEndOfSessionPacket (session_bytes cfg) end_sequence
        in flow_bind (eos_loop (unat (eos_packet_count (eosSchedule cfg))) W cfg (eosSchedule cfg) end_packet end_sequence None s)
             (\<lambda>_ s1. Some (Ret (ss_end_of_session_packets_sent s1 = eos_packet_count (eosSchedule cfg)) s1))
      else Some (Ret False s))"

definition completion_text :: "bool \<Rightarrow> bool \<Rightarrow> SenderState \<Rightarrow> string" where
  "completion_text end_of_session_sent interrupted s =
     (if ss_transmission_failed s then ''send_error''
      else if src_completed (ss_source s) \<and> end_of_session_sent then ''complete''
      else if interrupted then ''interrupted''
      else if src_completed (ss_source s) then ''eos_incomplete''
      else ''source_error'')"

definition exit_success :: "SenderConfig \<Rightarrow> bool \<Rightarrow> SenderState \<Rightarrow> bool" where
  "exit_success cfg end_of_session_sent s =
     (let redundant_counts_clean =
            (\<not> arg_redundant cfg \<or>
             ln_packets_sent (ss_line_a s) = ss_logical_packets s \<and> ln_packets_sent (ss_line_b s) = ss_logical_packets s \<and>
             ln_messages_sent (ss_line_a s) = ss_logical_messages s \<and> ln_messages_sent (ss_line_b s) = ss_logical_messages s)
      in src_completed (ss_source s) \<and> \<not> ss_transmission_failed s \<and> end_of_session_sent \<and>
         ln_send_failures (ss_line_a s) = 0 \<and> ln_send_failures (ss_line_b s) = 0 \<and> redundant_counts_clean)"

section \<open>The run\<close>

definition initialState :: "SenderWorld \<Rightarrow> SenderConfig \<Rightarrow> ItchMoldUdpSource \<Rightarrow> SenderState" where
  "initialState W cfg source =
     \<lparr>ss_source = source, ss_packet_rate_schedule = newRateSchedule (arg_pkts_per_second cfg),
      ss_heartbeat_schedule = newHeartbeatSchedule (uint (cfg_idle_heartbeat_interval_ms cfg) * 1000000),
      ss_next_premarket_send = sw_clock W 0, ss_premarket_start = sw_clock W 1, ss_premarket_active = False,
      ss_pause_pending = (arg_ss_pause_seconds cfg > 0), ss_line_a = newLineState, ss_line_b = newLineState,
      ss_logical_packets = 0, ss_logical_messages = 0, ss_logical_first_seq = 0, ss_logical_next_seq = 0,
      ss_startup_heartbeats_sent = 0, ss_periodic_heartbeats_sent = 0, ss_end_of_session_packets_sent = 0,
      ss_transmission_failed = False, ss_tick = 2, ss_wire_a = [], ss_wire_b = []\<rparr>"

text \<open>Between the startup heartbeats and the data loop.\<close>

definition start_schedules :: "SenderWorld \<Rightarrow> SenderState \<Rightarrow> SenderState" where
  "start_schedules W s =
     (let s1 = (if hb_enabled (ss_heartbeat_schedule s) \<and> \<not> ss_transmission_failed s
                then let (now, s') = read_clock W s in s'\<lparr>ss_heartbeat_schedule := observeTraffic (ss_heartbeat_schedule s') now\<rparr> else s);
          (now, s2) = read_clock W s1
      in s2\<lparr>ss_packet_rate_schedule := rs_reset (ss_packet_rate_schedule s2) now\<rparr>)"

text \<open>\<open>main\<close> from the opening of the source on, without the creation of the sockets. The result is whether the status is
  \<open>EXIT_SUCCESS\<close>, the completion that is reported, and the final state; a file that cannot be used and an exception are failures.\<close>

definition sender_run ::
    "(real \<Rightarrow> real \<Rightarrow> real) \<Rightarrow> SenderWorld \<Rightarrow> SenderConfig \<Rightarrow> u8 list option \<Rightarrow> (bool \<times> string \<times> SenderState) option" where
  "sender_run ld_divide W cfg file =
     (let plan = replayPlan cfg file;
          source = newItchMoldUdpSource file (arg_path cfg) (session_bytes cfg) (arg_msgs_per_packet cfg) (cfg_completion_policy cfg);
          s0 = initialState W cfg source
      in if \<not> src_isOpen source then Some (False, [], s0)
         else
           case flow_bind (startup W cfg s0) (\<lambda>_ s1.
                flow_bind (send_loop ld_divide W cfg plan (start_schedules W s1)) (\<lambda>_ s2. announce_end W cfg s2)) of
             None \<Rightarrow> None
           | Some (Throw e s) \<Rightarrow> Some (False, e, s)
           | Some (Ret end_of_session_sent s) \<Rightarrow>
               let (running, s1) = check_running W s
               in Some (exit_success cfg end_of_session_sent s1, completion_text end_of_session_sent (\<not> running) s1, s1))"

text \<open>\<open>main\<close>: the exit status and the datagrams put on the two lines. Whether a CPU can be pinned and whether the sockets can be opened are
  parameters.\<close>

definition cpus_pinned :: "(int \<Rightarrow> bool) \<Rightarrow> (string \<Rightarrow> string option) \<Rightarrow> SenderConfig \<Rightarrow> bool" where
  "cpus_pinned pin getenv cfg =
     (if arg_redundant cfg then (case cfg_cpus cfg of None \<Rightarrow> True | Some (cpu_a, cpu_b) \<Rightarrow> pin cpu_a \<and> pin cpu_b)
      else case getenv ''ASTRA_CPU'' of None \<Rightarrow> True
           | Some text \<Rightarrow> text = [] \<or> (case parseCpuId (Some text) of None \<Rightarrow> False | Some cpu_id \<Rightarrow> pin cpu_id))"

definition sender_main ::
    "(int \<Rightarrow> bool) \<Rightarrow> bool \<Rightarrow> (string \<Rightarrow> nat \<times> real option \<times> bool) \<Rightarrow> (real \<Rightarrow> real \<Rightarrow> real) \<Rightarrow> SenderWorld \<Rightarrow> (string \<Rightarrow> u8 list option) \<Rightarrow>
     (string \<Rightarrow> string option) \<Rightarrow> string list \<Rightarrow> (bool \<times> u8 list list \<times> u8 list list) option" where
  "sender_main pin sockets_open strtod ld_divide W files getenv argv =
     (case parseConfig strtod getenv argv of Inl e \<Rightarrow> Some (False, [], [])
      | Inr cfg \<Rightarrow>
          if \<not> cpus_pinned pin getenv cfg \<or> \<not> sockets_open then Some (False, [], [])
          else case sender_run ld_divide W cfg (files (arg_path cfg)) of None \<Rightarrow> None
               | Some (success, completion, s) \<Rightarrow> Some (success, ss_wire_a s, ss_wire_b s))"

declare sleepUntilOrStopped.simps [code] wait_until_with_heartbeats.simps [code] send_loop.simps [code]

end
