(* ===== verification/PriceLevelInv.thy ===== *)
theory PriceLevelInv
  imports PriceLevelStore
begin

text \<open>
  The invariant of the price store and the two ways of keeping it.

  \<open>active s h sd\<close> is the set of levels of page \<open>h\<close> with orders on side \<open>sd\<close>; \<open>act_pages\<close> and
  \<open>act_prices\<close> lift it to a book. The invariant \<open>store_inv\<close> says that the compact caches the code
  keeps are determined by these sets: the page summary holds their number and their best element,
  the level bitmap is empty for at most one active level and otherwise is the set, the page bitmap is
  the set of active pages, and the book summary holds the best price of the book and its page. It
  also ties the root table, the page owners and the committed-page count together.

  \<open>rewritten\<close> describes a store that differs from another in one level and the caches over it;
  \<open>store_inv_rewritten\<close> reduces preservation of the invariant to the two local statements
  \<open>page_ok\<close> and \<open>book_ok\<close>.
\<close>

section \<open>Sides and orders\<close>

definition beats :: "OrderSide \<Rightarrow> 'a::linorder \<Rightarrow> 'a \<Rightarrow> bool" where
  "beats sd x y = (if sd = Buy then x > y else x < y)"

definition is_best :: "OrderSide \<Rightarrow> 'a::linorder set \<Rightarrow> 'a \<Rightarrow> bool" where
  "is_best sd A x \<longleftrightarrow> x \<in> A \<and> (\<forall>y\<in>A. y \<noteq> x \<longrightarrow> beats sd x y)"

lemma better_beats: "better sd x y = beats sd x y"
  by (simp add: better_def beats_def)

lemma beats_irrefl [simp]: "\<not> beats sd x x"
  by (simp add: beats_def)

lemma beats_trans: "beats sd x y \<Longrightarrow> beats sd y z \<Longrightarrow> beats sd x z"
  by (auto simp: beats_def split: if_splits)

lemma beats_total: "x \<noteq> y \<Longrightarrow> \<not> beats sd x y \<Longrightarrow> beats sd y x"
  by (auto simp: beats_def split: if_splits)

lemma beats_asym: "beats sd x y \<Longrightarrow> \<not> beats sd y x"
  by (auto simp: beats_def split: if_splits)

lemma is_best_unique: "is_best sd A x \<Longrightarrow> is_best sd A y \<Longrightarrow> x = y"
  unfolding is_best_def by (metis beats_asym)

lemma is_best_ex: "finite A \<Longrightarrow> A \<noteq> {} \<Longrightarrow> \<exists>x. is_best sd A x"
proof (cases "sd = Buy")
  case True
  then show "finite A \<Longrightarrow> A \<noteq> {} \<Longrightarrow> ?thesis"
    by (intro exI [of _ "Max A"]) (auto simp: is_best_def beats_def order_less_le)
next
  case False
  then show "finite A \<Longrightarrow> A \<noteq> {} \<Longrightarrow> ?thesis"
    by (intro exI [of _ "Min A"]) (auto simp: is_best_def beats_def order_less_le)
qed

lemma is_best_single [simp]: "is_best sd {x} y \<longleftrightarrow> y = x"
  by (auto simp: is_best_def)

lemma is_best_insert:
  "is_best sd A b \<Longrightarrow> l \<notin> A \<Longrightarrow> is_best sd (insert l A) (if beats sd l b then l else b)"
  unfolding is_best_def by (auto intro: beats_trans beats_total)

lemma is_best_remove_other: "is_best sd A b \<Longrightarrow> l \<noteq> b \<Longrightarrow> is_best sd (A - {l}) b"
  by (auto simp: is_best_def)

lemma is_best_rest: "is_best sd A b \<Longrightarrow> A - {b} = {y \<in> A. beats sd b y}"
  by (auto simp: is_best_def)

section \<open>Indices\<close>

lemma unat_ucast_u16_64 [simp]: "unat (ucast (i :: u16) :: u64) = unat i"
  by (simp add: unsigned_ucast_eq take_bit_nat_eq_self order_less_trans [OF u16_less])

lemma unat_joinPrice: "unat (joinPrice p l) = unat p * 65536 + unat l"
  unfolding joinPrice_def kPricePartBits_def
  using unat_shl_or [of "ucast p :: u32" 16 "ucast l"] u16_less [of p] u16_less [of l] by simp

lemma unat_priceRootIndex: "unat (priceRootIndex loc p) = unat loc * 65536 + unat p"
  unfolding priceRootIndex_def kPricePartBits_def
  using unat_shl_or [of "ucast loc :: u64" 16 "ucast p"] u16_less [of p] u16_less [of loc] by simp

lemma two_part_eq: "a < (65536::nat) \<Longrightarrow> b < 65536 \<Longrightarrow> x * 65536 + a = y * 65536 + b \<longleftrightarrow> x = y \<and> a = b"
  by (metis add.commute div_mult_self1 div_less mod_mult_self1 mod_less plus_nat.add_0 zero_neq_numeral)

lemma priceRootIndex_inject [simp]: "priceRootIndex loc p = priceRootIndex loc' p' \<longleftrightarrow> loc = loc' \<and> p = p'"
  by (simp add: word_unat_eq_iff unat_priceRootIndex two_part_eq u16_less)

lemma joinPrice_inject [simp]: "joinPrice p l = joinPrice p' l' \<longleftrightarrow> p = p' \<and> l = l'"
  by (simp add: word_unat_eq_iff unat_joinPrice two_part_eq u16_less)

lemma unat_ucast_down: "unat (ucast (x :: u32) :: u16) = unat x mod 65536"
  by (simp add: unsigned_ucast_eq unsigned_take_bit_eq take_bit_eq_mod)

lemma split_parts:
  "unat (pp_page_index (splitPrice x)) = unat x div 65536"
  "unat (pp_level_index (splitPrice x)) = unat x mod 65536"
proof -
  have "unat (drop_bit 16 x) < 65536" using unsigned_less [of x, where 'a=nat] by (simp add: unat_shr)
  then show "unat (pp_page_index (splitPrice x)) = unat x div 65536"
    by (simp add: splitPrice_def kPricePartBits_def unat_ucast_down) (simp add: unat_shr)
  have "unat (x AND 0xffff) = unat x mod 65536"
    using unat_and_mask [of x 16] by (simp add: mask_eq_exp_minus_1)
  then show "unat (pp_level_index (splitPrice x)) = unat x mod 65536"
    by (simp add: splitPrice_def unat_ucast_down)
qed

lemma split_join [simp]:
  "pp_page_index (splitPrice (joinPrice p l)) = p" "pp_level_index (splitPrice (joinPrice p l)) = l"
  using u16_less [of l] by (simp_all add: word_unat_eq_iff split_parts unat_joinPrice)

lemma join_split [simp]: "joinPrice (pp_page_index (splitPrice x)) (pp_level_index (splitPrice x)) = x"
  by (simp add: word_unat_eq_iff split_parts unat_joinPrice)

lemma joinPrice_less: "joinPrice p l < joinPrice p' l' \<longleftrightarrow> p < p' \<or> p = p' \<and> l < l'"
  using u16_less [of l] u16_less [of l']
  by (auto simp: word_less_nat_alt unat_joinPrice word_unat_eq_iff)

lemma beats_joinPrice: "beats sd (joinPrice p l) (joinPrice p' l') \<longleftrightarrow> beats sd p p' \<or> p = p' \<and> beats sd l l'"
  by (auto simp: beats_def joinPrice_less)

lemma beats_ucast [simp]: "beats sd (ucast (i :: u16) :: u32) (ucast j) \<longleftrightarrow> beats sd i j"
  by (auto simp: beats_def word_less_nat_alt)

definition same_side :: "OrderSide \<Rightarrow> OrderSide \<Rightarrow> bool" where
  "same_side sd sd' \<longleftrightarrow> (sd = Buy \<longleftrightarrow> sd' = Buy)"

lemma sideIndex_eq: "sideIndex sd = sideIndex sd' \<longleftrightarrow> same_side sd sd'"
  by (auto simp: sideIndex_def same_side_def)

lemma pageSideIndex_eq: "pageSideIndex h sd = pageSideIndex h' sd' \<longleftrightarrow> h = h' \<and> same_side sd sd'"
proof -
  have h: "unat (ucast (h :: u32) :: u64) = unat h" for h
    using unsigned_less [of h, where 'a=nat] by (simp add: unsigned_ucast_eq take_bit_nat_eq_self)
  have "unat (pageSideIndex h sd) = 2 * unat h + (if sd = Buy then 0 else 1)" for h sd
    using unsigned_less [of h, where 'a=nat]
    by (simp add: pageSideIndex_def sideIndex_def unat_word_ariths h)
  then show ?thesis unfolding word_unat_eq_iff [of "pageSideIndex h sd"]
    by (auto simp: word_unat_eq_iff same_side_def split: if_splits) presburger+
qed

lemma bookSideIndex_eq: "bookSideIndex h sd = bookSideIndex h' sd' \<longleftrightarrow> h = h' \<and> same_side sd sd'"
proof -
  have "unat (bookSideIndex h sd) = 2 * unat h + (if sd = Buy then 0 else 1)" for h sd
    using u16_less [of h]
    by (simp add: bookSideIndex_def sideIndex_def unat_word_ariths)
  then show ?thesis unfolding word_unat_eq_iff [of "bookSideIndex h sd"]
    by (auto simp: word_unat_eq_iff same_side_def split: if_splits) presburger+
qed

section \<open>Reads after writes\<close>

named_theorems store_frame

lemma same_side_refl [simp]: "same_side sd sd" by (simp add: same_side_def)
lemma same_side_sym: "same_side sd sd' = same_side sd' sd" by (auto simp: same_side_def)

lemma pageSummary_set [store_frame]:
  "pageSummary (set_pageSummary s h sd v) h' sd' =
     (if h' = h \<and> same_side sd sd' then v else pageSummary s h' sd')"
  "pageSummary (set_pageOccupancy s h sd b) h' sd' = pageSummary s h' sd'"
  "pageSummary (set_bookSummary s loc sd u) h' sd' = pageSummary s h' sd'"
  "pageSummary (set_bookOccupancy s loc sd b) h' sd' = pageSummary s h' sd'"
  "pageSummary (set_level s a sd lv) h' sd' = pageSummary s h' sd'"
  by (auto simp: pageSummary_def set_pageSummary_def set_pageOccupancy_def set_bookSummary_def
      set_bookOccupancy_def set_level_def Let_def sideIndex_eq same_side_sym)

lemma pageOccupancy_set [store_frame]:
  "pageOccupancy (set_pageOccupancy s h sd v) h' sd' =
     (if h' = h \<and> same_side sd sd' then v else pageOccupancy s h' sd')"
  "pageOccupancy (set_pageSummary s h sd p) h' sd' = pageOccupancy s h' sd'"
  "pageOccupancy (set_bookSummary s loc sd u) h' sd' = pageOccupancy s h' sd'"
  "pageOccupancy (set_bookOccupancy s loc sd b) h' sd' = pageOccupancy s h' sd'"
  "pageOccupancy (set_level s a sd lv) h' sd' = pageOccupancy s h' sd'"
  by (auto simp: pageOccupancy_def set_pageSummary_def set_pageOccupancy_def set_bookSummary_def
      set_bookOccupancy_def set_level_def Let_def pageSideIndex_eq same_side_sym)

lemma bookSummary_set [store_frame]:
  "bookSummary (set_bookSummary s loc sd v) loc' sd' =
     (if loc' = loc \<and> same_side sd sd' then v else bookSummary s loc' sd')"
  "bookSummary (set_pageSummary s h sd p) loc' sd' = bookSummary s loc' sd'"
  "bookSummary (set_pageOccupancy s h sd b) loc' sd' = bookSummary s loc' sd'"
  "bookSummary (set_bookOccupancy s loc sd b) loc' sd' = bookSummary s loc' sd'"
  "bookSummary (set_level s a sd lv) loc' sd' = bookSummary s loc' sd'"
  by (auto simp: bookSummary_def set_pageSummary_def set_pageOccupancy_def set_bookSummary_def
      set_bookOccupancy_def set_level_def Let_def sideIndex_eq same_side_sym)

lemma bookOccupancy_set [store_frame]:
  "bookOccupancy (set_bookOccupancy s loc sd v) loc' sd' =
     (if loc' = loc \<and> same_side sd sd' then v else bookOccupancy s loc' sd')"
  "bookOccupancy (set_pageSummary s h sd p) loc' sd' = bookOccupancy s loc' sd'"
  "bookOccupancy (set_pageOccupancy s h sd b) loc' sd' = bookOccupancy s loc' sd'"
  "bookOccupancy (set_bookSummary s loc sd u) loc' sd' = bookOccupancy s loc' sd'"
  "bookOccupancy (set_level s a sd lv) loc' sd' = bookOccupancy s loc' sd'"
  by (auto simp: bookOccupancy_def set_pageSummary_def set_pageOccupancy_def set_bookSummary_def
      set_bookOccupancy_def set_level_def Let_def bookSideIndex_eq same_side_sym)

lemma levelUnchecked_set [store_frame]:
  "levelUnchecked (set_level s a sd v) a' sd' =
     (if page_handle a' = page_handle a \<and> level_index a' = level_index a \<and> same_side sd sd'
      then v else levelUnchecked s a' sd')"
  "levelUnchecked (set_pageSummary s h sd p) a' sd' = levelUnchecked s a' sd'"
  "levelUnchecked (set_pageOccupancy s h sd b) a' sd' = levelUnchecked s a' sd'"
  "levelUnchecked (set_bookSummary s loc sd u) a' sd' = levelUnchecked s a' sd'"
  "levelUnchecked (set_bookOccupancy s loc sd b) a' sd' = levelUnchecked s a' sd'"
  by (auto simp: levelUnchecked_def set_pageSummary_def set_pageOccupancy_def set_bookSummary_def
      set_bookOccupancy_def set_level_def Let_def same_side_def)

text \<open>The parts of the store no level mutation writes.\<close>

definition same_arena :: "PriceLevelStore \<Rightarrow> PriceLevelStore \<Rightarrow> bool" where
  "same_arena s t \<longleftrightarrow> pls_config t = pls_config s \<and> roots t = roots s \<and>
     prepared_books t = prepared_books s \<and> page_owners t = page_owners s \<and>
     committed_pages t = committed_pages s \<and> prepared_book_count t = prepared_book_count s \<and>
     page_capacity_failures t = page_capacity_failures s"

lemma same_arena_refl [simp]: "same_arena s s" by (simp add: same_arena_def)

lemma same_arena_trans: "same_arena s t \<Longrightarrow> same_arena t u \<Longrightarrow> same_arena s u"
  by (simp add: same_arena_def)

lemma same_arena_set [simp]:
  "same_arena s (set_pageSummary t h sd p) = same_arena s t"
  "same_arena s (set_pageOccupancy t h sd b) = same_arena s t"
  "same_arena s (set_bookSummary t loc sd u) = same_arena s t"
  "same_arena s (set_bookOccupancy t loc sd b) = same_arena s t"
  "same_arena s (set_level t a sd lv) = same_arena s t"
  by (simp_all add: same_arena_def set_pageSummary_def set_pageOccupancy_def set_bookSummary_def
      set_bookOccupancy_def set_level_def Let_def)

section \<open>The store invariant\<close>

abbreviation addr :: "PricePageHandle \<Rightarrow> u16 \<Rightarrow> PriceAddress" where
  "addr h l \<equiv> \<lparr>page_handle = h, level_index = l\<rparr>"

definition hdl :: "PriceLevelStore \<Rightarrow> u16 \<Rightarrow> u16 \<Rightarrow> PricePageHandle" where
  "hdl s loc p = roots s (priceRootIndex loc p)"

definition in_arena :: "PriceLevelStore \<Rightarrow> PricePageHandle \<Rightarrow> bool" where
  "in_arena s h \<longleftrightarrow> h \<noteq> 0 \<and> h \<le> committed_pages s"

definition active :: "PriceLevelStore \<Rightarrow> PricePageHandle \<Rightarrow> OrderSide \<Rightarrow> u16 set" where
  "active s h sd = {l. order_count (levelUnchecked s (addr h l) sd) \<noteq> 0}"

definition act_pages :: "PriceLevelStore \<Rightarrow> u16 \<Rightarrow> OrderSide \<Rightarrow> u16 set" where
  "act_pages s loc sd = {p. hdl s loc p \<noteq> 0 \<and> active s (hdl s loc p) sd \<noteq> {}}"

definition act_prices :: "PriceLevelStore \<Rightarrow> u16 \<Rightarrow> OrderSide \<Rightarrow> u32 set" where
  "act_prices s loc sd = {joinPrice p l | p l. hdl s loc p \<noteq> 0 \<and> l \<in> active s (hdl s loc p) sd}"

definition page_ok :: "PageSideSummary \<Rightarrow> PriceBitmapStorage \<Rightarrow> OrderSide \<Rightarrow> u16 set \<Rightarrow> bool" where
  "page_ok ps bm sd A \<longleftrightarrow>
     unat (active_levels ps) = card A \<and>
     (A \<noteq> {} \<longrightarrow> (\<exists>b. is_best sd A b \<and> best_level_index ps = ucast b)) \<and>
     bitmap_inv bm \<and> bm_elems bm = (if card A \<le> 1 then {} else A)"

definition book_ok ::
    "BookSideSummary \<Rightarrow> PriceBitmapStorage \<Rightarrow> OrderSide \<Rightarrow> (u16 \<Rightarrow> PricePageHandle) \<Rightarrow> u16 set \<Rightarrow> u32 set \<Rightarrow> bool" where
  "book_ok bs bm sd hs P R \<longleftrightarrow>
     unat (active_pages bs) = card P \<and> bitmap_inv bm \<and> bm_elems bm = P \<and>
     (if P = {} then best_page_handle bs = 0
      else is_best sd R (best_raw_price bs) \<and>
           best_page_handle bs = hs (pp_page_index (splitPrice (best_raw_price bs))))"

definition arena_inv :: "PriceLevelStore \<Rightarrow> bool" where
  "arena_inv s \<longleftrightarrow>
     page_capacity (pls_config s) \<noteq> 0 \<and> page_capacity (pls_config s) \<noteq> u32_max \<and>
     committed_pages s \<le> page_capacity (pls_config s) \<and>
     (\<forall>loc p. hdl s loc p \<noteq> 0 \<longrightarrow> in_arena s (hdl s loc p) \<and>
        own_stock_locate (page_owners s (hdl s loc p)) = loc \<and>
        own_page_index (page_owners s (hdl s loc p)) = p) \<and>
     (\<forall>h. in_arena s h \<longrightarrow> own_committed (page_owners s h) \<noteq> 0 \<and>
        isBookPrepared s (own_stock_locate (page_owners s h)) \<and>
        hdl s (own_stock_locate (page_owners s h)) (own_page_index (page_owners s h)) = h) \<and>
     (\<forall>h. committed_pages s < h \<longrightarrow> own_committed (page_owners s h) = 0 \<and>
        (\<forall>sd. pageSummary s h sd = zeroPageSummary \<and> pageOccupancy s h sd = zeroStorage \<and>
           (\<forall>l. levelUnchecked s (addr h l) sd = zeroLevel)))"

definition levels_inv :: "PriceLevelStore \<Rightarrow> bool" where
  "levels_inv s \<longleftrightarrow> (\<forall>h l sd. h \<noteq> 0 \<longrightarrow>
     (order_count (levelUnchecked s (addr h l) sd) = 0 \<longleftrightarrow>
      total_qty (levelUnchecked s (addr h l) sd) = 0))"

definition store_inv :: "PriceLevelStore \<Rightarrow> bool" where
  "store_inv s \<longleftrightarrow> arena_inv s \<and> levels_inv s \<and>
     (\<forall>h sd. in_arena s h \<longrightarrow> page_ok (pageSummary s h sd) (pageOccupancy s h sd) sd (active s h sd)) \<and>
     (\<forall>loc sd. book_ok (bookSummary s loc sd) (bookOccupancy s loc sd) sd (hdl s loc)
        (act_pages s loc sd) (act_prices s loc sd))"

lemma card_u16: "card (A :: u16 set) \<le> 65536"
  using card_mono [of UNIV A] by (simp add: card_word)

lemma finite_u16 [simp]: "finite (A :: u16 set)" by (rule finite)


section \<open>Activation of a level\<close>

lemma is_best_same_side: "same_side sd sd' \<Longrightarrow> is_best sd = is_best sd'"
  by (auto simp: is_best_def beats_def same_side_def fun_eq_iff)

lemma page_ok_same_side: "same_side sd sd' \<Longrightarrow> page_ok ps bm sd A = page_ok ps bm sd' A"
  by (simp add: page_ok_def is_best_same_side)

lemma book_ok_same_side: "same_side sd sd' \<Longrightarrow> book_ok bs bm sd hs P R = book_ok bs bm sd' hs P R"
  by (simp add: book_ok_def is_best_same_side)

lemma active_same_side: "same_side sd sd' \<Longrightarrow> active s h sd = active s h sd'"
  by (auto simp: active_def levelUnchecked_def same_side_def)

lemma unat_Suc_u32: "unat x < 65536 \<Longrightarrow> unat (x + 1 :: u32) = Suc (unat x)"
  by (simp add: unat_word_ariths)

lemma card_fresh_u16: "l \<notin> A \<Longrightarrow> card (A :: u16 set) < 65536"
  using card_u16 [of "insert l A"] by simp

lemma page_ok_activate:
  assumes ok: "page_ok ps bm sd A" and l: "l \<notin> A"
  shows "page_ok
    (let ps1 = ps\<lparr>active_levels := active_levels ps + 1\<rparr>
     in if active_levels ps = 0 \<or> better sd (ucast l) (best_level_index ps1)
        then ps1\<lparr>best_level_index := ucast l\<rparr> else ps1)
    (if active_levels ps = 1 then bm_set (bm_set bm (best_level_index ps)) (ucast l)
     else if active_levels ps > 1 then bm_set bm (ucast l) else bm)
    sd (insert l A)"
proof -
  note c = card_fresh_u16 [OF l]
  have n: "unat (active_levels ps) = card A" using ok by (simp add: page_ok_def)
  consider (zero) "A = {}" | (one) b where "A = {b}" | (many) "card A > 1"
    by (metis One_nat_def Suc_lessI card_1_singletonE card_gt_0_iff finite_u16)
  then show ?thesis
  proof cases
    case zero
    then have "active_levels ps = 0" using n by (simp add: unat_eq_0)
    with zero ok show ?thesis by (simp add: page_ok_def)
  next
    case (one b)
    then have "active_levels ps = 1" using n by (simp add: word_unat_eq_iff)
    with one ok l show ?thesis using is_best_insert [of sd "{b}" b l]
      by (auto simp: page_ok_def better_beats bm.inv_insert bm.elems_insert split: if_splits)
  next
    case many
    with n have a: "active_levels ps > 1" by (simp add: word_less_nat_alt)
    from many have "A \<noteq> {}" by auto
    with ok obtain b where b: "is_best sd A b" "best_level_index ps = ucast b" by (auto simp: page_ok_def)
    from a have "active_levels ps \<noteq> 0" "active_levels ps \<noteq> 1" by auto
    with many ok l b n a c is_best_insert [OF b(1) l] show ?thesis
      by (auto simp: page_ok_def better_beats bm.inv_insert bm.elems_insert unat_Suc_u32 split: if_splits)
  qed
qed

text \<open>One level of one page and side rewritten, with the summaries and bitmaps over it.\<close>

definition rewritten :: "PriceLevelStore \<Rightarrow> PriceLevelStore \<Rightarrow> PriceAddress \<Rightarrow> u16 \<Rightarrow> OrderSide \<Rightarrow>
    PriceLevelState \<Rightarrow> PageSideSummary \<Rightarrow> PriceBitmapStorage \<Rightarrow> BookSideSummary \<Rightarrow> PriceBitmapStorage \<Rightarrow> bool" where
  "rewritten s t a loc sd lv ps pb bs bb \<longleftrightarrow> same_arena s t \<and>
     (\<forall>a' sd'. levelUnchecked t a' sd' =
        (if page_handle a' = page_handle a \<and> level_index a' = level_index a \<and> same_side sd sd'
         then lv else levelUnchecked s a' sd')) \<and>
     (\<forall>h' sd'. pageSummary t h' sd' = (if h' = page_handle a \<and> same_side sd sd' then ps else pageSummary s h' sd')) \<and>
     (\<forall>h' sd'. pageOccupancy t h' sd' = (if h' = page_handle a \<and> same_side sd sd' then pb else pageOccupancy s h' sd')) \<and>
     (\<forall>loc' sd'. bookSummary t loc' sd' = (if loc' = loc \<and> same_side sd sd' then bs else bookSummary s loc' sd')) \<and>
     (\<forall>loc' sd'. bookOccupancy t loc' sd' = (if loc' = loc \<and> same_side sd sd' then bb else bookOccupancy s loc' sd'))"

lemma same_arenaD:
  assumes "same_arena s t"
  shows "hdl t = hdl s" "in_arena t = in_arena s" "isBookPrepared t = isBookPrepared s"
    "committed_pages t = committed_pages s" "page_owners t = page_owners s" "pls_config t = pls_config s"
  using assms by (auto simp: same_arena_def hdl_def in_arena_def isBookPrepared_def fun_eq_iff)

lemma active_rewritten:
  assumes "rewritten s t a loc sd lv ps pb bs bb"
  shows "active t h' sd' = (if h' = page_handle a \<and> same_side sd sd'
     then (if order_count lv = 0 then active s h' sd' - {level_index a} else insert (level_index a) (active s h' sd'))
     else active s h' sd')"
  using assms by (auto simp: rewritten_def active_def)

lemma arena_hdl_unique:
  assumes "arena_inv s" "in_arena s h"
  shows "hdl s loc p = h \<longleftrightarrow> loc = own_stock_locate (page_owners s h) \<and> p = own_page_index (page_owners s h)"
  using assms unfolding arena_inv_def in_arena_def by metis

lemma arena_rewritten:
  assumes inv: "arena_inv s" and h: "in_arena s (page_handle a)"
    and rw: "rewritten s t a loc sd lv ps pb bs bb"
  shows "arena_inv t"
proof -
  have sa: "same_arena s t" using rw by (simp add: rewritten_def)
  have "page_handle a \<le> committed_pages s" using h by (simp add: in_arena_def)
  then show ?thesis using inv rw unfolding arena_inv_def same_arenaD [OF sa] rewritten_def by fastforce
qed

lemma addr_eta [simp]: "addr (page_handle a) (level_index a) = a"
  by (cases a) simp

lemma act_pages_rewritten:
  assumes inv: "arena_inv s" and h: "in_arena s (page_handle a)"
    and o: "page_owners s (page_handle a) = ow" "own_stock_locate ow = loc"
    and rw: "rewritten s t a loc sd lv ps pb bs bb"
  shows "act_pages t loc' sd' = (if loc' = loc \<and> same_side sd sd'
     then (if active t (page_handle a) sd = {} then act_pages s loc' sd' - {own_page_index ow}
           else insert (own_page_index ow) (act_pages s loc' sd'))
     else act_pages s loc' sd')"
proof -
  have sa: "same_arena s t" using rw by (simp add: rewritten_def)
  have u: "hdl s l p = page_handle a \<longleftrightarrow> l = loc \<and> p = own_page_index ow" for l p
    using arena_hdl_unique [OF inv h] o by auto
  then have h0: "hdl s loc (own_page_index ow) = page_handle a" by blast
  have nz: "page_handle a \<noteq> 0" using h by (simp add: in_arena_def)
  have ss: "same_side sd sd' \<Longrightarrow> active s (page_handle a) sd = active s (page_handle a) sd'"
    by (rule active_same_side)
  show ?thesis
    unfolding act_pages_def same_arenaD [OF sa] active_rewritten [OF rw]
    using nz ss by (auto simp: h0 u)
qed

lemma act_prices_iff:
  "x \<in> act_prices s loc sd \<longleftrightarrow> hdl s loc (pp_page_index (splitPrice x)) \<noteq> 0 \<and>
     pp_level_index (splitPrice x) \<in> active s (hdl s loc (pp_page_index (splitPrice x))) sd"
proof -
  have "x = joinPrice (pp_page_index (splitPrice x)) (pp_level_index (splitPrice x))" by simp
  then show ?thesis unfolding act_prices_def by (auto simp del: join_split)
qed

lemma act_prices_rewritten:
  assumes inv: "arena_inv s" and h: "in_arena s (page_handle a)"
    and o: "page_owners s (page_handle a) = ow" "own_stock_locate ow = loc"
    and rw: "rewritten s t a loc sd lv ps pb bs bb"
  shows "act_prices t loc' sd' = (if loc' = loc \<and> same_side sd sd'
     then (if order_count lv = 0 then act_prices s loc' sd' - {joinPrice (own_page_index ow) (level_index a)}
           else insert (joinPrice (own_page_index ow) (level_index a)) (act_prices s loc' sd'))
     else act_prices s loc' sd')"
proof -
  have sa: "same_arena s t" using rw by (simp add: rewritten_def)
  have u: "hdl s l p = page_handle a \<longleftrightarrow> l = loc \<and> p = own_page_index ow" for l p
    using arena_hdl_unique [OF inv h] o by auto
  then have h0: "hdl s loc (own_page_index ow) = page_handle a" by blast
  have nz: "page_handle a \<noteq> 0" using h by (simp add: in_arena_def)
  have j: "x = joinPrice p l \<longleftrightarrow> pp_page_index (splitPrice x) = p \<and> pp_level_index (splitPrice x) = l" for x p l
    by auto
  show ?thesis
    by (rule set_eqI) (use nz in \<open>auto simp: act_prices_iff same_arenaD [OF sa] active_rewritten [OF rw] h0 u j\<close>)
qed

lemma same_side_trans: "same_side a b \<Longrightarrow> same_side a c \<longleftrightarrow> same_side b c"
  by (simp add: same_side_def)

lemma store_inv_rewritten:
  assumes inv: "store_inv s" and h: "in_arena s (page_handle a)"
    and o: "own_stock_locate (page_owners s (page_handle a)) = loc"
    and rw: "rewritten s t a loc sd lv ps pb bs bb"
    and lv: "order_count lv = 0 \<longleftrightarrow> total_qty lv = 0"
    and page: "page_ok ps pb sd (active t (page_handle a) sd)"
    and book: "book_ok bs bb sd (hdl s loc) (act_pages t loc sd) (act_prices t loc sd)"
  shows "store_inv t"
proof -
  have sa: "same_arena s t" using rw by (simp add: rewritten_def)
  have ar: "arena_inv s" using inv by (simp add: store_inv_def)
  note act = act_pages_rewritten [OF ar h refl o rw] act_prices_rewritten [OF ar h refl o rw]
  have "levels_inv t" using inv rw lv by (simp add: store_inv_def levels_inv_def rewritten_def)
  moreover have "page_ok (pageSummary t h' sd') (pageOccupancy t h' sd') sd' (active t h' sd')"
    if "in_arena s h'" for h' sd'
  proof (cases "h' = page_handle a \<and> same_side sd sd'")
    case True
    then show ?thesis using page rw active_same_side [of sd sd'] page_ok_same_side [of sd sd']
      by (auto simp: rewritten_def)
  next
    case False
    then show ?thesis using inv that rw active_rewritten [OF rw, of h' sd'] by (auto simp: rewritten_def store_inv_def)
  qed
  moreover have "book_ok (bookSummary t loc' sd') (bookOccupancy t loc' sd') sd' (hdl s loc')
      (act_pages t loc' sd') (act_prices t loc' sd')" for loc' sd'
  proof (cases "loc' = loc \<and> same_side sd sd'")
    case True
    then have "act_pages t loc sd = act_pages t loc sd'" "act_prices t loc sd = act_prices t loc sd'"
      using active_same_side [of sd sd'] by (simp_all add: act_pages_def act_prices_def)
    then show ?thesis using True book rw book_ok_same_side [of sd sd']
      by (auto simp: rewritten_def)
  next
    case False
    then show ?thesis using inv rw act [of loc' sd'] by (auto simp: rewritten_def store_inv_def)
  qed
  ultimately show ?thesis
    using arena_rewritten [OF ar h rw] by (simp add: store_inv_def same_arenaD [OF sa])
qed

section \<open>Adding to a level\<close>

lemma reads_same_side:
  assumes "same_side sd sd'"
  shows "pageSummary s h sd' = pageSummary s h sd" "pageOccupancy s h sd' = pageOccupancy s h sd"
    "bookSummary s loc sd' = bookSummary s loc sd" "bookOccupancy s loc sd' = bookOccupancy s loc sd"
    "levelUnchecked s a sd' = levelUnchecked s a sd"
  using assms sideIndex_eq [of sd sd'] pageSideIndex_eq [of h sd h sd'] bookSideIndex_eq [of loc sd loc sd']
  by (simp_all add: pageSummary_def pageOccupancy_def bookSummary_def bookOccupancy_def levelUnchecked_def same_side_def)

lemma rewritten_level:
  "rewritten s (set_level s a sd lv) a loc sd lv
     (pageSummary s (page_handle a) sd) (pageOccupancy s (page_handle a) sd) (bookSummary s loc sd) (bookOccupancy s loc sd)"
  unfolding rewritten_def by (auto simp: store_frame reads_same_side)

lemma store_inv_set_level:
  assumes inv: "store_inv s" and h: "in_arena s (page_handle a)"
    and c: "order_count (levelUnchecked s a sd) \<noteq> 0" "order_count lv \<noteq> 0" "total_qty lv \<noteq> 0"
  shows "store_inv (set_level s a sd lv)"
proof -
  let ?ow = "page_owners s (page_handle a)"
  have ar: "arena_inv s" using inv by (simp add: store_inv_def)
  have l: "level_index a \<in> active s (page_handle a) sd" using c(1) by (simp add: active_def)
  have hd: "hdl s (own_stock_locate ?ow) (own_page_index ?ow) = page_handle a" "page_handle a \<noteq> 0"
    using ar h by (auto simp: arena_inv_def in_arena_def)
  note rw = rewritten_level [of s a sd lv "own_stock_locate ?ow"]
  have "active (set_level s a sd lv) (page_handle a) sd = active s (page_handle a) sd"
    using active_rewritten [OF rw] c l by auto
  moreover have "act_pages (set_level s a sd lv) (own_stock_locate ?ow) sd = act_pages s (own_stock_locate ?ow) sd"
    using act_pages_rewritten [OF ar h refl refl rw, of "own_stock_locate ?ow" sd] calculation l hd
    by (auto simp: act_pages_def)
  moreover have "act_prices (set_level s a sd lv) (own_stock_locate ?ow) sd = act_prices s (own_stock_locate ?ow) sd"
    using act_prices_rewritten [OF ar h refl refl rw, of "own_stock_locate ?ow" sd] c l hd
    by (auto simp: act_prices_iff)
  ultimately show ?thesis
    using inv h c by (intro store_inv_rewritten [OF inv h refl rw]) (simp_all add: store_inv_def)
qed

lemma book_ok_activate:
  assumes ok: "book_ok bs bb sd hs P R" and h: "hs p = h" and fresh: "joinPrice p l \<notin> R"
    and PR: "R = {} \<longleftrightarrow> P = {}" and hs: "\<forall>x\<in>R. hs (pp_page_index (splitPrice x)) \<noteq> 0"
    and e: "e \<longleftrightarrow> p \<notin> P"
  shows "book_ok
    (let bs1 = (if e then bs\<lparr>active_pages := active_pages bs + 1\<rparr> else bs)
     in if active_pages bs = 0 \<or> best_page_handle bs1 = 0 \<or> better sd (joinPrice p l) (best_raw_price bs1)
        then bs1\<lparr>best_raw_price := joinPrice p l, best_page_handle := h\<rparr> else bs1)
    (if e then bm_set bb (ucast p) else bb) sd hs (insert p P) (insert (joinPrice p l) R)"
proof -
  have n: "unat (active_pages bs) = card P" and bb: "bitmap_inv bb" "bm_elems bb = P"
    using ok by (auto simp: book_ok_def)
  have n': "e \<Longrightarrow> unat (active_pages bs + 1) = card (insert p P)"
    using n e card_fresh_u16 [of p P] by (simp add: unat_Suc_u32)
  have bb': "bitmap_inv (if e then bm_set bb (ucast p) else bb)"
     "bm_elems (if e then bm_set bb (ucast p) else bb) = insert p P"
    using bb e by (auto simp: bm.inv_insert bm.elems_insert)
  show ?thesis
  proof (cases "P = {}")
    case True
    then show ?thesis using PR n' bb' h e n by (simp add: book_ok_def unat_eq_0)
  next
    case False
    then have b: "is_best sd R (best_raw_price bs)"
      and bh: "best_page_handle bs = hs (pp_page_index (splitPrice (best_raw_price bs)))"
      using ok by (auto simp: book_ok_def)
    then have bh0: "best_page_handle bs \<noteq> 0" using hs by (simp add: is_best_def)
    have "active_pages bs \<noteq> 0" using False n by auto
    then show ?thesis
      using False is_best_insert [OF b fresh] bh bh0 n n' bb' e h
      by (auto simp: book_ok_def Let_def better_beats insert_absorb split: if_splits)
  qed
qed

lemma act_prices_pages:
  "act_prices s loc sd = {} \<longleftrightarrow> act_pages s loc sd = {}"
  "\<forall>x\<in>act_prices s loc sd. hdl s loc (pp_page_index (splitPrice x)) \<noteq> 0"
  by (auto simp: act_prices_iff act_pages_def) (auto simp: act_prices_def)

lemma rewritten_add_empty:
  assumes "order_count (levelUnchecked s a sd) = 0"
    and "loc = own_stock_locate (page_owners s (page_handle a))"
    and "p = own_page_index (page_owners s (page_handle a))"
    and "ps = pageSummary s (page_handle a) sd" and "pb = pageOccupancy s (page_handle a) sd"
    and "bs = bookSummary s loc sd" and "bb = bookOccupancy s loc sd"
  shows "rewritten s (addValidated s a sd qty) a loc sd
    ((levelUnchecked s a sd)\<lparr>total_qty := total_qty (levelUnchecked s a sd) + ucast qty, order_count := 1\<rparr>)
    (let ps1 = ps\<lparr>active_levels := active_levels ps + 1\<rparr>
     in if active_levels ps = 0 \<or> better sd (ucast (level_index a)) (best_level_index ps1)
        then ps1\<lparr>best_level_index := ucast (level_index a)\<rparr> else ps1)
    (if active_levels ps = 1 then bm_set (bm_set pb (best_level_index ps)) (ucast (level_index a))
     else if active_levels ps > 1 then bm_set pb (ucast (level_index a)) else pb)
    (let bs1 = (if active_levels ps = 0 then bs\<lparr>active_pages := active_pages bs + 1\<rparr> else bs)
     in if active_pages bs = 0 \<or> best_page_handle bs1 = 0 \<or> better sd (joinPrice p (level_index a)) (best_raw_price bs1)
        then bs1\<lparr>best_raw_price := joinPrice p (level_index a), best_page_handle := page_handle a\<rparr> else bs1)
    (if active_levels ps = 0 then bm_set bb (ucast p) else bb)"
  unfolding rewritten_def addValidated_def activateLevel_def Let_def assms(2-) kInvalidPricePageHandle_def
  using assms(1) by (simp add: store_frame cong: if_cong)

lemma page_summary_zero:
  assumes "store_inv s" "in_arena s h"
  shows "active_levels (pageSummary s h sd) = 0 \<longleftrightarrow> active s h sd = {}"
proof -
  have "unat (active_levels (pageSummary s h sd)) = card (active s h sd)"
    using assms by (auto simp: store_inv_def page_ok_def)
  then show ?thesis by (metis card_eq_0_iff finite_u16 unat_eq_0)
qed

lemma owner_page:
  assumes "store_inv s" "in_arena s h"
  shows "hdl s (own_stock_locate (page_owners s h)) (own_page_index (page_owners s h)) = h"
    "isBookPrepared s (own_stock_locate (page_owners s h))" "own_committed (page_owners s h) \<noteq> 0" "h \<noteq> 0"
  using assms by (auto simp: store_inv_def arena_inv_def in_arena_def)

lemma owner_active:
  assumes "store_inv s" "in_arena s h" "loc = own_stock_locate (page_owners s h)" "p = own_page_index (page_owners s h)"
  shows "p \<in> act_pages s loc sd \<longleftrightarrow> active s h sd \<noteq> {}"
    "joinPrice p l \<in> act_prices s loc sd \<longleftrightarrow> l \<in> active s h sd"
  using owner_page [OF assms(1,2)] assms(3,4) by (simp_all add: act_pages_def act_prices_iff)

lemma store_inv_page: "store_inv s \<Longrightarrow> in_arena s h \<Longrightarrow> page_ok (pageSummary s h sd) (pageOccupancy s h sd) sd (active s h sd)"
  by (simp add: store_inv_def)

lemma store_inv_book: "store_inv s \<Longrightarrow> book_ok (bookSummary s loc sd) (bookOccupancy s loc sd) sd (hdl s loc)
        (act_pages s loc sd) (act_prices s loc sd)"
  by (simp add: store_inv_def)

lemma level_zero: "store_inv s \<Longrightarrow> page_handle a \<noteq> 0 \<Longrightarrow>
  order_count (levelUnchecked s a sd) = 0 \<longleftrightarrow> total_qty (levelUnchecked s a sd) = 0"
  unfolding store_inv_def levels_inv_def by (metis addr_eta)

lemma active_level: "l \<in> active s h sd \<longleftrightarrow> order_count (levelUnchecked s (addr h l) sd) \<noteq> 0"
  by (simp add: active_def)

lemma store_inv_addValidated:
  assumes inv: "store_inv s" and h: "in_arena s (page_handle a)" and q: "qty \<noteq> 0"
    and ov: "order_count (levelUnchecked s a sd) \<noteq> u32_max" "total_qty (levelUnchecked s a sd) \<le> u64_max - ucast qty"
  shows "store_inv (addValidated s a sd qty)"
proof (cases "order_count (levelUnchecked s a sd) = 0")
  case True
  let ?ow = "page_owners s (page_handle a)"
  let ?loc = "own_stock_locate ?ow" and ?p = "own_page_index ?ow" and ?l = "level_index a"
  have ar: "arena_inv s" using inv by (simp add: store_inv_def)
  have z: "total_qty (levelUnchecked s a sd) = 0" using True level_zero [OF inv] h by (simp add: in_arena_def)
  have l: "?l \<notin> active s (page_handle a) sd" using True by (simp add: active_def)
  note rw = rewritten_add_empty [OF True refl refl refl refl refl refl, of qty]
  have act: "active (addValidated s a sd qty) (page_handle a) sd = insert ?l (active s (page_handle a) sd)"
    using active_rewritten [OF rw] by simp
  note ap = act_pages_rewritten [OF ar h refl refl rw, of ?loc sd] act_prices_rewritten [OF ar h refl refl rw, of ?loc sd]
  show ?thesis
    apply (intro store_inv_rewritten [OF inv h refl rw])
      apply (simp add: z q)
     apply (unfold act)
     apply (rule page_ok_activate [OF store_inv_page [OF inv h] l])
    using book_ok_activate [OF store_inv_book [OF inv] owner_page(1) [OF inv h] _ act_prices_pages, of ?l sd "active_levels (pageSummary s (page_handle a) sd) = 0"] l
    by (simp add: ap act owner_active [OF inv h] page_summary_zero [OF inv h])
next
  case False
  have z: "total_qty (levelUnchecked s a sd) + ucast qty \<noteq> 0"
    using unat_add_checked [OF ov(2)] q by (metis add_is_0 unat_eq_0 unat_ucast_u32_64)
  have z': "order_count (levelUnchecked s a sd) + 1 \<noteq> 0"
    using unat_inc_checked [OF ov(1)] by auto
  show ?thesis using store_inv_set_level [OF inv h False] z z' False by (simp add: addValidated_def Let_def)
qed

end
