(* ===== verification/PriceLevelMutation.thy ===== *)
theory PriceLevelMutation
  imports PriceLevelInv
begin

text \<open>
  Every operation of the price store keeps \<open>store_inv\<close>. The hard part is \<open>validateDeactivation\<close>, which
  decides what the caches become when a level empties: under the invariant its consistency checks
  pass and the plan it builds names the true next-best level and price
  (\<open>validateDeactivation_ok\<close>). The decision lemmas (\<open>validateAdd_decides\<close>, \<open>validateErase_decides\<close>,
  \<open>reservePrice_decides\<close>) give the result of each validation as a function of the request alone.
\<close>

section \<open>The nearest worse index\<close>

context ordered_bitmap
begin

definition next_worse_index :: "OrderSide \<Rightarrow> 's \<Rightarrow> u16 \<Rightarrow> u32" where
  "next_worse_index sd s i =
     (if sd = Buy then (if i \<noteq> 0 then at_or_below s (ucast i - 1) else kInvalid)
      else if i \<noteq> u16_max then at_or_above s (ucast i + 1) else kInvalid)"

lemma next_worse_index_none:
  assumes "inv s" and none: "{j \<in> elems s. beats sd i j} = {}"
  shows "next_worse_index sd s i = kInvalid"
  using assms strictly_below [of s i] strictly_above [of s i]
  by (auto simp: next_worse_index_def beats_def split: if_splits)

lemma next_worse_index_some:
  assumes inv: "inv s" and b: "is_best sd {j \<in> elems s. beats sd i j} b"
  shows "next_worse_index sd s i = ucast b"
proof (cases "sd = Buy")
  case True
  with b have m: "b \<in> {j \<in> elems s. j < i}" "\<And>y. y \<in> {j \<in> elems s. j < i} \<Longrightarrow> y \<le> b"
    by (auto simp: is_best_def beats_def order_less_le)
  then have "i \<noteq> 0" "Max {j \<in> elems s. j < i} = b" by (auto intro!: Max_eqI)
  then show ?thesis using True m(1) strictly_below [OF inv, of i] by (auto simp: next_worse_index_def)
next
  case False
  with b have m: "b \<in> {j \<in> elems s. i < j}" "\<And>y. y \<in> {j \<in> elems s. i < j} \<Longrightarrow> b \<le> y"
    by (auto simp: is_best_def beats_def order_less_le)
  then have "i \<noteq> u16_max" "Min {j \<in> elems s. i < j} = b"
    using u16_less [of b] by (auto intro!: Min_eqI simp: word_less_nat_alt)
  then show ?thesis using False m(1) strictly_above [OF inv, of i] by (auto simp: next_worse_index_def)
qed

end

section \<open>What the invariant says of cached values\<close>

lemma unat_kPricePartCount [simp]: "unat kPricePartCount = 65536"
  by (simp add: kPricePartCount_def kPricePartBits_def)

lemma ucast_less_part [simp]: "(ucast (l :: u16) :: u32) < kPricePartCount" "\<not> kPricePartCount \<le> ucast l"
  using u16_less [of l] by (auto simp: word_less_nat_alt word_le_nat_alt)

lemma is_best_join:
  assumes "is_best sd P p" "is_best sd (L p) l"
    and R: "\<And>q m. joinPrice q m \<in> R \<longleftrightarrow> q \<in> P \<and> m \<in> L q"
  shows "is_best sd R (joinPrice p l)"
proof -
  have "beats sd (joinPrice p l) y" if y: "y \<in> R" "y \<noteq> joinPrice p l" for y
  proof -
    obtain q m where qm: "y = joinPrice q m" by (metis join_split)
    then have "q \<in> P" "m \<in> L q" using R y by auto
    then show ?thesis using assms(1,2) y(2) qm by (auto simp: is_best_def beats_joinPrice)
  qed
  then show ?thesis using assms by (auto simp: is_best_def)
qed

lemma active_page_summary:
  assumes inv: "store_inv s" and h: "in_arena s h" and ne: "active s h sd \<noteq> {}"
  obtains b where "is_best sd (active s h sd) b" "best_level_index (pageSummary s h sd) = ucast b"
    "active_levels (pageSummary s h sd) \<noteq> 0" "active_levels (pageSummary s h sd) \<le> kPricePartCount"
    "unat (active_levels (pageSummary s h sd)) = card (active s h sd)"
proof -
  have ok: "page_ok (pageSummary s h sd) (pageOccupancy s h sd) sd (active s h sd)"
    by (rule store_inv_page [OF inv h])
  then obtain b where "is_best sd (active s h sd) b" "best_level_index (pageSummary s h sd) = ucast b"
    using ne by (auto simp: page_ok_def)
  moreover have c: "unat (active_levels (pageSummary s h sd)) = card (active s h sd)"
    using ok by (simp add: page_ok_def)
  then have "active_levels (pageSummary s h sd) \<le> kPricePartCount" using card_u16 by (simp add: word_le_nat_alt)
  ultimately show ?thesis using that c page_summary_zero [OF inv h] ne by blast
qed

lemma hdl_in_arena:
  assumes "store_inv s" "hdl s loc p \<noteq> 0"
  shows "in_arena s (hdl s loc p)" "own_stock_locate (page_owners s (hdl s loc p)) = loc"
    "own_page_index (page_owners s (hdl s loc p)) = p"
  using assms by (auto simp: store_inv_def arena_inv_def)

lemma active_book_summary:
  assumes inv: "store_inv s" and ne: "act_prices s loc sd \<noteq> {}"
  obtains p l where "is_best sd (act_prices s loc sd) (joinPrice p l)"
    "best_raw_price (bookSummary s loc sd) = joinPrice p l"
    "best_page_handle (bookSummary s loc sd) = hdl s loc p" "hdl s loc p \<noteq> 0"
    "is_best sd (active s (hdl s loc p) sd) l" "is_best sd (act_pages s loc sd) p"
    "active_pages (bookSummary s loc sd) \<noteq> 0" "active_pages (bookSummary s loc sd) \<le> kPricePartCount"
    "unat (active_pages (bookSummary s loc sd)) = card (act_pages s loc sd)"
proof -
  have ok: "book_ok (bookSummary s loc sd) (bookOccupancy s loc sd) sd (hdl s loc) (act_pages s loc sd) (act_prices s loc sd)"
    by (rule store_inv_book [OF inv])
  have ne': "act_pages s loc sd \<noteq> {}" using ne act_prices_pages by blast
  obtain p l where x: "best_raw_price (bookSummary s loc sd) = joinPrice p l" by (metis join_split)
  then have b: "is_best sd (act_prices s loc sd) (joinPrice p l)" and bh: "best_page_handle (bookSummary s loc sd) = hdl s loc p"
    using ok ne' by (auto simp: book_ok_def)
  then have nz: "hdl s loc p \<noteq> 0" and lp: "l \<in> active s (hdl s loc p) sd"
    by (auto simp: is_best_def act_prices_iff)
  have "is_best sd (active s (hdl s loc p) sd) l" "is_best sd (act_pages s loc sd) p"
    using b nz lp by (force simp: is_best_def act_prices_def act_pages_def beats_joinPrice)+
  moreover have c: "unat (active_pages (bookSummary s loc sd)) = card (act_pages s loc sd)"
    using ok by (simp add: book_ok_def)
  then have "active_pages (bookSummary s loc sd) \<le> kPricePartCount" using card_u16 by (simp add: word_le_nat_alt)
  moreover have "active_pages (bookSummary s loc sd) \<noteq> 0" using c ne' by auto
  ultimately show ?thesis using that x b bh nz c by blast
qed

lemma pls_owner_in_arena: "in_arena s h \<Longrightarrow> pls_owner s h = Some (page_owners s h)"
  by (auto simp: pls_owner_def in_arena_def kInvalidPricePageHandle_def)

text \<open>What a deactivation plan must say, in terms of the active levels \<open>A\<close> of the page, the active
  prices \<open>R\<close> of the book and the price removed.\<close>

definition page_plan_ok :: "DeactivationPlan \<Rightarrow> OrderSide \<Rightarrow> u16 set \<Rightarrow> u16 \<Rightarrow> bool" where
  "page_plan_ok plan sd A l \<longleftrightarrow>
     (page_becomes_empty plan \<longleftrightarrow> A = {l}) \<and>
     (page_best_changes plan \<longleftrightarrow> A \<noteq> {l} \<and> is_best sd A l) \<and>
     (page_best_changes plan \<longrightarrow> (\<exists>b. is_best sd (A - {l}) b \<and> next_level_index plan = ucast b))"

definition book_plan_ok :: "DeactivationPlan \<Rightarrow> OrderSide \<Rightarrow> (u16 \<Rightarrow> PricePageHandle) \<Rightarrow> u32 set \<Rightarrow> u32 \<Rightarrow> bool" where
  "book_plan_ok plan sd hs R x \<longleftrightarrow>
     (book_best_changes plan \<longleftrightarrow> is_best sd R x) \<and>
     (book_best_changes plan \<longrightarrow>
        (if R = {x} then next_book_page_handle plan = 0
         else is_best sd (R - {x}) (next_book_raw_price plan) \<and>
              next_book_page_handle plan = hs (pp_page_index (splitPrice (next_book_raw_price plan)))))"

text \<open>The cached page of the best price is what the validation finds it to be.\<close>

lemma cached_best_checks:
  assumes inv: "store_inv s" and h: "hdl s loc p \<noteq> 0" and b: "is_best sd (active s (hdl s loc p) sd) l"
  shows "pls_owner s (hdl s loc p) = Some (page_owners s (hdl s loc p))"
    "own_committed (page_owners s (hdl s loc p)) \<noteq> 0"
    "own_stock_locate (page_owners s (hdl s loc p)) = loc"
    "own_page_index (page_owners s (hdl s loc p)) = p"
    "active_levels (pageSummary s (hdl s loc p) sd) \<noteq> 0"
    "best_level_index (pageSummary s (hdl s loc p) sd) = ucast l"
    "order_count (levelUnchecked s (addr (hdl s loc p) l) sd) \<noteq> 0"
    "total_qty (levelUnchecked s (addr (hdl s loc p) l) sd) \<noteq> 0"
    "isValidStockLocate loc" "pageHandle s loc p = hdl s loc p"
proof -
  note ar = hdl_in_arena [OF inv h]
  from b have l: "l \<in> active s (hdl s loc p) sd" by (simp add: is_best_def)
  show "pls_owner s (hdl s loc p) = Some (page_owners s (hdl s loc p))"
    by (rule pls_owner_in_arena [OF ar(1)])
  show "own_committed (page_owners s (hdl s loc p)) \<noteq> 0" using owner_page [OF inv ar(1)] by simp
  show "isValidStockLocate loc" using owner_page(2) [OF inv ar(1)] ar by (simp add: isBookPrepared_def)
  then show "pageHandle s loc p = hdl s loc p"
    using ar owner_page [OF inv ar(1)] pls_owner_in_arena [OF ar(1)]
    by (simp add: pageHandle_def rootHandleMatches_def hdl_def [symmetric])
  obtain b' where "is_best sd (active s (hdl s loc p) sd) b'" "best_level_index (pageSummary s (hdl s loc p) sd) = ucast b'"
    "active_levels (pageSummary s (hdl s loc p) sd) \<noteq> 0"
    using active_page_summary [OF inv ar(1)] l by blast
  then show "active_levels (pageSummary s (hdl s loc p) sd) \<noteq> 0" "best_level_index (pageSummary s (hdl s loc p) sd) = ucast l"
    using is_best_unique [OF b] by auto
  show "order_count (levelUnchecked s (addr (hdl s loc p) l) sd) \<noteq> 0" using l by (simp add: active_def)
  then show "total_qty (levelUnchecked s (addr (hdl s loc p) l) sd) \<noteq> 0" using level_zero [OF inv, of "addr (hdl s loc p) l"] h by simp
  show "own_stock_locate (page_owners s (hdl s loc p)) = loc" "own_page_index (page_owners s (hdl s loc p)) = p"
    by (rule ar)+
qed

text \<open>The two decisions the validation takes once its consistency checks have passed.\<close>

definition deact_page :: "PriceLevelStore \<Rightarrow> PriceAddress \<Rightarrow> OrderSide \<Rightarrow> MutationResult \<times> DeactivationPlan" where
  "deact_page s a sd =
     (let ps = pageSummary s (page_handle a) sd;
          pb = pageOccupancy s (page_handle a) sd;
          next_level = bm.next_worse_index sd pb (level_index a);
          lv = levelUnchecked s (addr (page_handle a) (ucast next_level)) sd
      in if active_levels ps = 1 then
           (if best_level_index ps \<noteq> ucast (level_index a) then (InvariantViolation, emptyPlan)
            else (Applied, emptyPlan\<lparr>page_becomes_empty := True\<rparr>))
         else if bm_empty pb \<or> \<not> bm_test pb (ucast (level_index a)) \<or> \<not> bm_test pb (best_level_index ps) then
           (InvariantViolation, emptyPlan)
         else if best_level_index ps = ucast (level_index a) then
           (if next_level = kInvalid then (InvariantViolation, emptyPlan\<lparr>next_level_index := next_level\<rparr>)
            else if order_count lv = 0 \<or> total_qty lv = 0 then
              (InvariantViolation, emptyPlan\<lparr>next_level_index := next_level\<rparr>)
            else (Applied, emptyPlan\<lparr>next_level_index := next_level, page_best_changes := True\<rparr>))
         else (Applied, emptyPlan))"

definition deact_book ::
    "PriceLevelStore \<Rightarrow> PriceAddress \<Rightarrow> OrderSide \<Rightarrow> u16 \<Rightarrow> u16 \<Rightarrow> DeactivationPlan \<Rightarrow> MutationResult \<times> DeactivationPlan" where
  "deact_book s a sd loc p plan =
     (let bs = bookSummary s loc sd;
          removed_is_page_best = (best_level_index (pageSummary s (page_handle a) sd) = ucast (level_index a))
      in if best_raw_price bs = joinPrice p (level_index a) then
           (if best_page_handle bs \<noteq> page_handle a \<or> \<not> removed_is_page_best then (InvariantViolation, plan)
            else if \<not> page_becomes_empty plan then
              (if \<not> page_best_changes plan then (InvariantViolation, plan\<lparr>book_best_changes := True\<rparr>)
               else (Applied, plan\<lparr>book_best_changes := True,
                       next_book_raw_price := joinPrice p (ucast (next_level_index plan)),
                       next_book_page_handle := page_handle a\<rparr>))
            else
              let q = bm.next_worse_index sd (bookOccupancy s loc sd) p
              in if active_pages bs = 1 then
                   (if q = kInvalid then Applied else InvariantViolation, plan\<lparr>book_best_changes := True\<rparr>)
                 else if q = kInvalid then (InvariantViolation, plan\<lparr>book_best_changes := True\<rparr>)
                 else
                   let hq = pageHandle s loc (ucast q)
                   in if hq = kInvalidPricePageHandle then (InvariantViolation, plan\<lparr>book_best_changes := True\<rparr>)
                      else
                        let np = pageSummary s hq sd
                        in if active_levels np = 0 \<or> best_level_index np \<ge> kPricePartCount then
                             (InvariantViolation, plan\<lparr>book_best_changes := True\<rparr>)
                           else
                             let lv = levelUnchecked s (addr hq (ucast (best_level_index np))) sd
                             in if order_count lv = 0 \<or> total_qty lv = 0 then
                                  (InvariantViolation, plan\<lparr>book_best_changes := True\<rparr>)
                                else (Applied, plan\<lparr>book_best_changes := True,
                                  next_book_raw_price := joinPrice (ucast q) (ucast (best_level_index np)),
                                  next_book_page_handle := hq\<rparr>))
         else if page_becomes_empty plan \<and> active_pages bs = 1 then (InvariantViolation, plan)
         else (Applied, plan))"

lemma validateDeactivation_split:
  assumes inv: "store_inv s" and h: "in_arena s (page_handle a)"
    and l: "level_index a \<in> active s (page_handle a) sd"
    and ow: "loc = own_stock_locate (page_owners s (page_handle a))" "p = own_page_index (page_owners s (page_handle a))"
  shows "validateDeactivation s a sd =
    (if fst (deact_page s a sd) \<noteq> Applied then deact_page s a sd
     else deact_book s a sd loc p (snd (deact_page s a sd)))"
proof -
  have R: "act_prices s loc sd \<noteq> {}" using owner_active(2) [OF inv h ow] l by blast
  then obtain q m where bk: "best_raw_price (bookSummary s loc sd) = joinPrice q m"
      "best_page_handle (bookSummary s loc sd) = hdl s loc q" "hdl s loc q \<noteq> 0"
      "is_best sd (active s (hdl s loc q) sd) m"
      "active_pages (bookSummary s loc sd) \<noteq> 0" "\<not> kPricePartCount < active_pages (bookSummary s loc sd)"
    using active_book_summary [OF inv R] by (metis leD)
  have ne: "active s (page_handle a) sd \<noteq> {}" using l by blast
  obtain b :: u16 where pg: "best_level_index (pageSummary s (page_handle a) sd) = ucast b"
      "active_levels (pageSummary s (page_handle a) sd) \<noteq> 0" "\<not> kPricePartCount < active_levels (pageSummary s (page_handle a) sd)"
    by (rule active_page_summary [OF inv h ne]) (metis leD)
  have t: "bm_test (bookOccupancy s loc sd) (ucast p)"
    using store_inv_book [OF inv, of loc sd] owner_active(1) [OF inv h ow, of sd] l by (auto simp: book_ok_def bm.member_elems)
  have v: "isValidStockLocate loc" using owner_page(2) [OF inv h] ow by (simp add: isBookPrepared_def)
  note cb = cached_best_checks [OF inv bk(3,4)]
  show ?thesis
    unfolding validateDeactivation_def
    by (simp add: pls_owner_in_arena [OF h] owner_page [OF inv h] ow [symmetric] v bk(1,2,3,5,6) t pg(2,3) cb
         kInvalidPricePageHandle_def pg(1) del: ucast_u16_inject)
      (simp add: deact_page_def deact_book_def bm.next_worse_index_def kInvalidPricePageHandle_def bk pg ow [symmetric] Let_def cong: if_cong)
qed

lemma card_cases_u16:
  assumes "l \<in> (A :: u16 set)"
  shows "card A = 1 \<longleftrightarrow> A = {l}" "card A \<le> 1 \<longleftrightarrow> A = {l}"
proof -
  show 1: "card A = 1 \<longleftrightarrow> A = {l}" using assms by (auto simp: card_Suc_eq dest: card_1_singletonE)
  have "card A \<noteq> 0" using assms by auto
  then show "card A \<le> 1 \<longleftrightarrow> A = {l}" using 1 by linarith
qed

lemma ucast_next_index [simp]: "ucast (ucast (b :: u16) :: u32) = b"
  using u16_less [of b] by (simp add: word_unat_eq_iff unat_ucast_down)

lemma deact_page_ok:
  assumes inv: "store_inv s" and h: "in_arena s (page_handle a)"
    and l: "level_index a \<in> active s (page_handle a) sd"
  shows "\<exists>plan. deact_page s a sd = (Applied, plan) \<and>
    page_plan_ok plan sd (active s (page_handle a) sd) (level_index a) \<and>
    \<not> book_best_changes plan \<and> next_book_page_handle plan = 0"
proof -
  let ?A = "active s (page_handle a) sd" and ?l = "level_index a"
  let ?ps = "pageSummary s (page_handle a) sd" and ?pb = "pageOccupancy s (page_handle a) sd"
  have ne: "?A \<noteq> {}" using l by blast
  obtain b where b: "is_best sd ?A b" "best_level_index ?ps = ucast b" "unat (active_levels ?ps) = card ?A"
    by (rule active_page_summary [OF inv h ne])
  have one: "active_levels ?ps = 1 \<longleftrightarrow> ?A = {?l}" using b(3) card_cases_u16(1) [OF l] by (simp add: word_unat_eq_iff)
  have pb: "bitmap_inv ?pb" "?A \<noteq> {?l} \<Longrightarrow> bm_elems ?pb = ?A"
    using store_inv_page [OF inv h, of sd] card_cases_u16(2) [OF l] by (auto simp: page_ok_def)
  note d = deact_page_def Let_def one b(2) page_plan_ok_def emptyPlan_def kInvalidPricePageHandle_def
  show ?thesis
  proof (cases "?A = {?l}")
    case True
    then show ?thesis using b(1) by (simp add: d)
  next
    case False
    have t: "\<not> bm_empty ?pb" "bm_test ?pb (ucast ?l)" "bm_test ?pb (ucast b)"
      using pb b(1) l False by (auto simp: bm.is_empty_elems bm.member_elems is_best_def)
    show ?thesis
    proof (cases "b = ?l")
      case True
      from False l have "?A - {?l} \<noteq> {}" by blast
      then obtain c where c: "is_best sd (?A - {?l}) c" using is_best_ex by (metis finite_u16)
      then have n: "bm.next_worse_index sd ?pb ?l = ucast c"
        using pb False True is_best_rest [OF b(1)] by (intro bm.next_worse_index_some) auto
      have "c \<in> ?A" using c by (simp add: is_best_def)
      then have "order_count (levelUnchecked s (addr (page_handle a) c) sd) \<noteq> 0"
        "total_qty (levelUnchecked s (addr (page_handle a) c) sd) \<noteq> 0"
        using level_zero [OF inv, of "addr (page_handle a) c"] h by (auto simp: active_def in_arena_def)
      then show ?thesis using False True b(1) c t by (simp add: d n ucast_u16_valid)
    next
      case other: False
      then have "\<not> is_best sd ?A ?l" using is_best_unique [OF b(1)] by auto
      then show ?thesis using other False t by (simp add: d)
    qed
  qed
qed

lemma deact_book_ok:
  assumes inv: "store_inv s" and h: "in_arena s (page_handle a)"
    and l: "level_index a \<in> active s (page_handle a) sd"
    and ow: "loc = own_stock_locate (page_owners s (page_handle a))" "p = own_page_index (page_owners s (page_handle a))"
    and pl: "page_plan_ok plan sd (active s (page_handle a) sd) (level_index a)"
    and d0: "\<not> book_best_changes plan" "next_book_page_handle plan = 0"
  shows "\<exists>plan'. deact_book s a sd loc p plan = (Applied, plan') \<and>
    page_plan_ok plan' sd (active s (page_handle a) sd) (level_index a) \<and>
    book_plan_ok plan' sd (hdl s loc) (act_prices s loc sd) (joinPrice p (level_index a))"
proof -
  let ?A = "active s (page_handle a) sd" and ?l = "level_index a" and ?R = "act_prices s loc sd" and ?P = "act_pages s loc sd"
  let ?bs = "bookSummary s loc sd"
  have hp: "hdl s loc p = page_handle a" "page_handle a \<noteq> 0" using owner_page [OF inv h] ow by auto
  have R: "joinPrice p ?l \<in> ?R" and pP: "p \<in> ?P" using owner_active [OF inv h ow] l by auto
  then have "?R \<noteq> {}" by blast
  then obtain q m where bk: "is_best sd ?R (joinPrice q m)" "best_raw_price ?bs = joinPrice q m"
      "best_page_handle ?bs = hdl s loc q" "hdl s loc q \<noteq> 0" "is_best sd (active s (hdl s loc q) sd) m" "is_best sd ?P q"
      "unat (active_pages ?bs) = card ?P"
    using active_book_summary [OF inv] by metis
  have one: "active_pages ?bs = 1 \<longleftrightarrow> ?P = {p}" using bk(7) card_cases_u16(1) [OF pP] by (simp add: word_unat_eq_iff)
  have RP: "joinPrice r k \<in> ?R \<longleftrightarrow> r \<in> ?P \<and> k \<in> active s (hdl s loc r) sd" for r k
    by (auto simp: act_prices_iff act_pages_def)
  have pt: "page_plan_ok (plan\<lparr>book_best_changes := x\<rparr>) sd ?A ?l"
    "page_plan_ok (plan\<lparr>book_best_changes := x, next_book_raw_price := y, next_book_page_handle := z\<rparr>) sd ?A ?l" for x y z
    using pl by (auto simp: page_plan_ok_def)
  note d = deact_book_def Let_def one bk(2,3) kInvalidPricePageHandle_def
  show ?thesis
  proof (cases "q = p \<and> m = ?l")
    case False
    then have nb: "\<not> is_best sd ?R (joinPrice p ?l)" using is_best_unique [OF bk(1), of "joinPrice p ?l"] by auto
    have "\<not> (?A = {?l} \<and> ?P = {p})" using bk(5,6) False hp by (auto simp: is_best_def)
    then show ?thesis using False pl d0 nb by (auto simp: d page_plan_ok_def book_plan_ok_def)
  next
    case True
    then have best: "is_best sd ?A ?l" "is_best sd ?R (joinPrice p ?l)" "is_best sd ?P p" using bk hp by auto
    then have bl: "best_level_index (pageSummary s (page_handle a) sd) = ucast ?l"
      using cached_best_checks(6) [OF inv bk(4,5)] True hp by simp
    show ?thesis
    proof (cases "?A = {?l}")
      case Afalse: False
      then obtain c where c: "is_best sd (?A - {?l}) c" "next_level_index plan = ucast c"
        and pc: "page_best_changes plan" "\<not> page_becomes_empty plan"
        using pl best by (auto simp: page_plan_ok_def)
      have "is_best sd (?R - {joinPrice p ?l}) (joinPrice p c)"
        using best(3) c(1) hp
        by (intro is_best_join [where P = ?P and L = "\<lambda>r. active s (hdl s loc r) sd - (if r = p then {?l} else {})"])
           (auto simp: RP)
      moreover have "?R \<noteq> {joinPrice p ?l}" using c(1) RP [of p c] pP hp by (auto simp: is_best_def)
      ultimately show ?thesis using True pl best bl c pc hp pt by (simp add: d book_plan_ok_def)
    next
      case A: True
      have pc: "page_becomes_empty plan" using A pl by (simp add: page_plan_ok_def)
      have bb: "bitmap_inv (bookOccupancy s loc sd)" "bm_elems (bookOccupancy s loc sd) = ?P"
        using store_inv_book [OF inv, of loc sd] by (auto simp: book_ok_def)
      show ?thesis
      proof (cases "?P = {p}")
        case P: True
        have "bm.next_worse_index sd (bookOccupancy s loc sd) p = kInvalid"
          using bb P by (intro bm.next_worse_index_none) auto
        moreover have "x = joinPrice p ?l" if "x \<in> ?R" for x
        proof -
          obtain r k where "x = joinPrice r k" by (metis join_split)
          then show ?thesis using RP [of r k] P A hp that by auto
        qed
        then have "?R = {joinPrice p ?l}" using R by blast
        ultimately show ?thesis using True pl best bl pc hp pt P d0 by (simp add: d book_plan_ok_def)
      next
        case P: False
        then have "?P - {p} \<noteq> {}" using pP by blast
        then obtain r where r: "is_best sd (?P - {p}) r" using is_best_ex by (metis finite_u16)
        then have n: "bm.next_worse_index sd (bookOccupancy s loc sd) p = ucast r"
          using bb is_best_rest [OF best(3)] by (intro bm.next_worse_index_some) auto
        have rP: "hdl s loc r \<noteq> 0" "active s (hdl s loc r) sd \<noteq> {}" "r \<noteq> p" "r \<in> ?P"
          using r by (auto simp: is_best_def act_pages_def)
        then obtain k where k: "is_best sd (active s (hdl s loc r) sd) k" using is_best_ex by (metis finite_u16)
        note cb = cached_best_checks [OF inv rP(1) k]
        have "joinPrice u v \<in> ?R - {joinPrice p ?l} \<longleftrightarrow> u \<in> ?P - {p} \<and> v \<in> active s (hdl s loc u) sd" for u v
          using RP [of u v] A hp(1) by (cases "u = p") simp_all
        then have "is_best sd (?R - {joinPrice p ?l}) (joinPrice r k)" by (rule is_best_join [where L = "\<lambda>u. active s (hdl s loc u) sd", OF r k])
        moreover have "?R \<noteq> {joinPrice p ?l}" using k rP RP [of r k] by (auto simp: is_best_def)
        ultimately show ?thesis
          using True pl best bl pc hp pt P rP cb by (simp add: d book_plan_ok_def n ucast_u16_valid)
      qed
    qed
  qed
qed

lemma validateDeactivation_ok:
  assumes inv: "store_inv s" and h: "in_arena s (page_handle a)"
    and l: "level_index a \<in> active s (page_handle a) sd"
    and ow: "loc = own_stock_locate (page_owners s (page_handle a))" "p = own_page_index (page_owners s (page_handle a))"
  obtains plan where "validateDeactivation s a sd = (Applied, plan)"
    "page_plan_ok plan sd (active s (page_handle a) sd) (level_index a)"
    "book_plan_ok plan sd (hdl s loc) (act_prices s loc sd) (joinPrice p (level_index a))"
proof -
  obtain pl where pl: "deact_page s a sd = (Applied, pl)"
      "page_plan_ok pl sd (active s (page_handle a) sd) (level_index a)"
      "\<not> book_best_changes pl" "next_book_page_handle pl = 0"
    using deact_page_ok [OF inv h l] by blast
  then show ?thesis
    using that deact_book_ok [OF inv h l ow pl(2-4)] validateDeactivation_split [OF inv h l ow] by auto
qed

section \<open>Removing from a level\<close>

lemma page_ok_deactivate:
  assumes ok: "page_ok ps pb sd A" and l: "l \<in> A" and pl: "page_plan_ok plan sd A l"
    and new: "(ps', pb') =
      (if page_becomes_empty plan then (ps\<lparr>active_levels := 0, best_level_index := 0\<rparr>, pb)
       else let pb1 = bm_reset pb (ucast l);
                ps1 = ps\<lparr>active_levels := active_levels ps - 1\<rparr>;
                ps2 = (if page_best_changes plan then ps1\<lparr>best_level_index := next_level_index plan\<rparr> else ps1)
            in (ps2, if active_levels ps2 = 1 then bm_reset pb1 (best_level_index ps2) else pb1))"
  shows "page_ok ps' pb' sd (A - {l})"
proof (cases "A = {l}")
  case True
  then show ?thesis using ok pl new by (simp add: page_ok_def page_plan_ok_def)
next
  case False
  have cA: "\<not> card A \<le> 1" using card_cases_u16(2) [OF l] False by simp
  have pe: "\<not> page_becomes_empty plan" using False pl by (simp add: page_plan_ok_def)
  obtain b where b: "is_best sd A b" "best_level_index ps = ucast b" using ok l by (auto simp: page_ok_def)
  have n: "unat (active_levels ps) = card A" and pb: "bitmap_inv pb" "bm_elems pb = A"
    using ok cA by (auto simp: page_ok_def)
  have "active_levels ps \<noteq> 0" using n cA by auto
  then have n': "unat (active_levels ps - 1) = card (A - {l})"
    using n l by (simp add: unat_dec_checked)
  obtain c where c: "is_best sd (A - {l}) c" "best_level_index ps' = ucast c"
  proof (cases "page_best_changes plan")
    case True
    then show ?thesis using that pl pe new by (auto simp: page_plan_ok_def Let_def)
  next
    case other: False
    then have "b \<noteq> l" using pl b(1) False by (auto simp: page_plan_ok_def)
    then show ?thesis using that [of b] is_best_remove_other [OF b(1), of l] other new pe b(2) by (auto simp: Let_def)
  qed
  have ps: "active_levels ps' = active_levels ps - 1" using new pe by (auto simp: Let_def split: if_splits)
  have pbe: "pb' = (if active_levels ps' = 1 then bm_reset (bm_reset pb (ucast l)) (ucast c) else bm_reset pb (ucast l))"
    using new pe c(2) by (auto simp: Let_def split: if_splits)
  have one: "active_levels ps' = 1 \<longleftrightarrow> card (A - {l}) = 1" using ps n' by (simp add: word_unat_eq_iff)
  have cm: "c \<in> A - {l}" using c(1) by (simp add: is_best_def)
  have "bm_elems pb' = (if card (A - {l}) \<le> 1 then {} else A - {l})"
    using pb card_cases_u16 [OF cm] one by (auto simp: pbe bm.elems_remove)
  then show ?thesis using c n' ps pb by (auto simp: page_ok_def pbe bm.inv_remove)
qed

lemma book_ok_deactivate:
  assumes ok: "book_ok bs bb sd hs P R" and x: "x \<in> R" and p: "p \<in> P"
    and pl: "book_plan_ok plan sd hs R x"
    and RP: "R - {x} = {} \<longleftrightarrow> (if page_becomes_empty plan then P - {p} else P) = {}"
    and bs1: "bs1 = (if page_becomes_empty plan then bs\<lparr>active_pages := active_pages bs - 1\<rparr> else bs)"
    and bs': "bs' = (if book_best_changes plan
       then bs1\<lparr>best_raw_price := next_book_raw_price plan, best_page_handle := next_book_page_handle plan\<rparr> else bs1)"
    and bb': "bb' = (if page_becomes_empty plan then bm_reset bb (ucast p) else bb)"
  shows "book_ok bs' bb' sd hs (if page_becomes_empty plan then P - {p} else P) (R - {x})"
proof -
  let ?P = "if page_becomes_empty plan then P - {p} else P"
  have n: "unat (active_pages bs) = card P" and bb: "bitmap_inv bb" "bm_elems bb = P"
    and b: "is_best sd R (best_raw_price bs)" "best_page_handle bs = hs (pp_page_index (splitPrice (best_raw_price bs)))"
    using ok p by (auto simp: book_ok_def split: if_splits)
  have "active_pages bs \<noteq> 0" using n p by auto
  then have n': "unat (active_pages bs') = card ?P"
    using n p by (auto simp: bs' bs1 unat_dec_checked)
  have bbe: "bitmap_inv bb'" "bm_elems bb' = ?P" using bb by (auto simp: bb' bm.inv_remove bm.elems_remove)
  have "if ?P = {} then best_page_handle bs' = 0
      else is_best sd (R - {x}) (best_raw_price bs') \<and>
           best_page_handle bs' = hs (pp_page_index (splitPrice (best_raw_price bs')))"
  proof (cases "book_best_changes plan")
    case True
    have "R = {x} \<longleftrightarrow> ?P = {}" using RP x by auto
    then show ?thesis using True pl by (auto simp: book_plan_ok_def bs')
  next
    case False
    then have nb: "best_raw_price bs \<noteq> x" using pl b(1) by (auto simp: book_plan_ok_def)
    then have "R - {x} \<noteq> {}" using b(1) by (auto simp: is_best_def)
    then have "?P \<noteq> {}" using RP by blast
    then show ?thesis using False is_best_remove_other [OF b(1)] nb b(2) by (auto simp: bs' bs1)
  qed
  then show ?thesis using n' bbe unfolding book_ok_def by blast
qed

lemma rewritten_erase_last:
  assumes "order_count (levelUnchecked s a sd) = 1"
    and "loc = own_stock_locate (page_owners s (page_handle a))"
    and "p = own_page_index (page_owners s (page_handle a))"
    and ps: "ps = pageSummary s (page_handle a) sd" and pb: "pb = pageOccupancy s (page_handle a) sd"
    and bs: "bs = bookSummary s loc sd" and bb: "bb = bookOccupancy s loc sd"
    and new: "(ps', pb') =
      (if page_becomes_empty plan then (ps\<lparr>active_levels := 0, best_level_index := 0\<rparr>, pb)
       else let pb1 = bm_reset pb (ucast (level_index a));
                ps1 = ps\<lparr>active_levels := active_levels ps - 1\<rparr>;
                ps2 = (if page_best_changes plan then ps1\<lparr>best_level_index := next_level_index plan\<rparr> else ps1)
            in (ps2, if active_levels ps2 = 1 then bm_reset pb1 (best_level_index ps2) else pb1))"
    and bs1: "bs1 = (if page_becomes_empty plan then bs\<lparr>active_pages := active_pages bs - 1\<rparr> else bs)"
    and bs': "bs' = (if book_best_changes plan
       then bs1\<lparr>best_raw_price := next_book_raw_price plan, best_page_handle := next_book_page_handle plan\<rparr> else bs1)"
    and bb': "bb' = (if page_becomes_empty plan then bm_reset bb (ucast p) else bb)"
  shows "rewritten s (eraseValidated s a sd qty plan) a loc sd
    ((levelUnchecked s a sd)\<lparr>total_qty := total_qty (levelUnchecked s a sd) - ucast qty, order_count := 0\<rparr>)
    ps' pb' bs' bb'"
proof -
  have ow: "page_owners (set_level s a sd lv) = page_owners s" for lv by (simp add: set_level_def Let_def)
  show ?thesis
  proof (cases "page_becomes_empty plan")
    case True
    then show ?thesis using assms(1) new
      unfolding rewritten_def eraseValidated_def deactivateLevel_def Let_def bs' bs1 bb' ps pb bs bb assms(2,3)
      by (simp add: store_frame ow cong: if_cong)
  next
    case False
    then show ?thesis using assms(1) new
      unfolding rewritten_def eraseValidated_def deactivateLevel_def Let_def bs' bs1 bb' ps pb bs bb assms(2,3)
      by (simp add: store_frame ow cong: if_cong)
  qed
qed

lemma unat_level_erase:
  assumes "total_qty lv \<ge> ucast (qty :: u32)" "total_qty lv \<noteq> ucast qty"
  shows "total_qty lv - ucast qty \<noteq> 0"
  using assms by simp

lemma store_inv_eraseValidated_last:
  assumes inv: "store_inv s" and h: "in_arena s (page_handle a)"
    and c: "order_count (levelUnchecked s a sd) = 1" and q: "total_qty (levelUnchecked s a sd) = ucast qty"
    and ow: "loc = own_stock_locate (page_owners s (page_handle a))" "p = own_page_index (page_owners s (page_handle a))"
    and pl: "page_plan_ok plan sd (active s (page_handle a) sd) (level_index a)"
      "book_plan_ok plan sd (hdl s loc) (act_prices s loc sd) (joinPrice p (level_index a))"
  shows "store_inv (eraseValidated s a sd qty plan)"
proof -
  let ?t = "eraseValidated s a sd qty plan"
  let ?A = "active s (page_handle a) sd" and ?l = "level_index a"
  have ar: "arena_inv s" using inv by (simp add: store_inv_def)
  have l: "?l \<in> ?A" using c by (simp add: active_def)
  have mem: "joinPrice p ?l \<in> act_prices s loc sd" "p \<in> act_pages s loc sd"
    using owner_active [OF inv h ow] l by auto
  obtain ps' pb' where new: "(ps', pb') =
      (let ps = pageSummary s (page_handle a) sd; pb = pageOccupancy s (page_handle a) sd in
       if page_becomes_empty plan then (ps\<lparr>active_levels := 0, best_level_index := 0\<rparr>, pb)
       else let pb1 = bm_reset pb (ucast ?l);
                ps1 = ps\<lparr>active_levels := active_levels ps - 1\<rparr>;
                ps2 = (if page_best_changes plan then ps1\<lparr>best_level_index := next_level_index plan\<rparr> else ps1)
            in (ps2, if active_levels ps2 = 1 then bm_reset pb1 (best_level_index ps2) else pb1))"
    by (metis surj_pair)
  note new' = new [unfolded Let_def [of "pageSummary s (page_handle a) sd"] Let_def [of "pageOccupancy s (page_handle a) sd"]]
  note rw = rewritten_erase_last [OF c ow refl refl refl refl new' refl refl refl, of qty]
  have act: "active ?t (page_handle a) sd = ?A - {?l}" using active_rewritten [OF rw] by simp
  have pe: "page_becomes_empty plan \<longleftrightarrow> ?A - {?l} = {}" using pl(1) l by (auto simp: page_plan_ok_def)
  have pages: "act_pages ?t loc sd = (if page_becomes_empty plan then act_pages s loc sd - {p} else act_pages s loc sd)"
    using act_pages_rewritten [OF ar h refl ow(1) [symmetric] rw, of loc sd] pe act mem ow by (auto simp: insert_absorb)
  have prices: "act_prices ?t loc sd = act_prices s loc sd - {joinPrice p ?l}"
    using act_prices_rewritten [OF ar h refl ow(1) [symmetric] rw, of loc sd] ow by simp
  show ?thesis
    using page_ok_deactivate [OF store_inv_page [OF inv h] l pl(1) new']
      book_ok_deactivate [OF store_inv_book [OF inv] mem pl(2) _ refl refl refl]
      act_prices_pages(1) [of ?t loc sd] pages prices
    by (intro store_inv_rewritten [OF inv h ow(1) [symmetric] rw]) (simp_all add: q act)
qed

lemma one_less_u32: "1 < (x :: u32) \<longleftrightarrow> x \<noteq> 0 \<and> x \<noteq> 1"
  using unat_eq_0 [of x] by (auto simp: word_less_nat_alt word_unat_eq_iff [of x 1])

lemma validateErase_cases:
  assumes "validateErase s a sd qty = (Applied, plan)"
  shows "validSide sd" "in_arena s (page_handle a)" "qty \<noteq> 0"
    "order_count (levelUnchecked s a sd) \<noteq> 0" "ucast qty \<le> total_qty (levelUnchecked s a sd)"
    "order_count (levelUnchecked s a sd) = 1 \<longleftrightarrow> total_qty (levelUnchecked s a sd) = ucast qty"
    "order_count (levelUnchecked s a sd) = 1 \<Longrightarrow> validateDeactivation s a sd = (Applied, plan)"
  using assms unfolding validateErase_def validateAddress_def Let_def
  by (auto simp: in_arena_def address_valid_def kInvalidPricePageHandle_def one_less_u32 not_less
      split: if_splits)

lemma store_inv_erase_validated:
  assumes inv: "store_inv s" and v: "validateErase s a sd qty = (Applied, plan)"
  shows "store_inv (eraseValidated s a sd qty plan)"
proof (cases "order_count (levelUnchecked s a sd) = 1")
  case True
  note c = validateErase_cases [OF v]
  from True have l: "level_index a \<in> active s (page_handle a) sd" by (simp add: active_def)
  obtain pl where "validateDeactivation s a sd = (Applied, pl)"
    "page_plan_ok pl sd (active s (page_handle a) sd) (level_index a)"
    "book_plan_ok pl sd (hdl s (own_stock_locate (page_owners s (page_handle a))))
       (act_prices s (own_stock_locate (page_owners s (page_handle a))) sd)
       (joinPrice (own_page_index (page_owners s (page_handle a))) (level_index a))"
    by (rule validateDeactivation_ok [OF inv c(2) l refl refl])
  then show ?thesis using c(6,7) True
    by (intro store_inv_eraseValidated_last [OF inv c(2) True _ refl refl]) auto
next
  case False
  note c = validateErase_cases [OF v]
  have "order_count (levelUnchecked s a sd) - 1 \<noteq> 0" "total_qty (levelUnchecked s a sd) - ucast qty \<noteq> 0"
    using False c(6) by simp_all
  then show ?thesis using False store_inv_set_level [OF inv c(2,4)] by (simp add: eraseValidated_def Let_def)
qed

text \<open>The validation of an erase never finds the store inconsistent: what it rejects is the request.\<close>

lemma validateErase_decides:
  assumes inv: "store_inv s"
  shows "fst (validateErase s a sd qty) =
    (if \<not> validSide sd then InvalidSide
     else if \<not> in_arena s (page_handle a) then InvalidPricePage
     else if qty = 0 then InvalidQuantity
     else let lv = levelUnchecked s a sd
          in if order_count lv = 0 then MissingPriceLevel
             else if total_qty lv < ucast qty then QuantityUnderflow
             else if (order_count lv = 1) \<noteq> (total_qty lv = ucast qty) then InvariantViolation
             else Applied)"
proof (cases "in_arena s (page_handle a) \<and> order_count (levelUnchecked s a sd) = 1")
  case True
  then have l: "level_index a \<in> active s (page_handle a) sd" by (simp add: active_def)
  from True have h: "in_arena s (page_handle a)" by simp
  obtain pl where "validateDeactivation s a sd = (Applied, pl)"
    by (rule validateDeactivation_ok [OF inv h l refl refl])
  then show ?thesis using True level_zero [OF inv, of a sd]
    by (auto simp: validateErase_def validateAddress_def Let_def in_arena_def address_valid_def
        kInvalidPricePageHandle_def)
next
  case False
  then show ?thesis using level_zero [OF inv, of a sd]
    by (auto simp: validateErase_def validateAddress_def Let_def in_arena_def address_valid_def
        kInvalidPricePageHandle_def one_less_u32)
qed

section \<open>Decisions and effects of the operations\<close>

lemma validateAdd_decides:
  assumes inv: "store_inv s"
  shows "validateAdd s a sd qty =
    (if \<not> validSide sd then InvalidSide
     else if \<not> in_arena s (page_handle a) then InvalidPricePage
     else if qty = 0 then InvalidQuantity
     else let lv = levelUnchecked s a sd
          in if order_count lv = u32_max then OrderCountOverflow
             else if total_qty lv > u64_max - ucast qty then QuantityOverflow
             else Applied)"
proof (cases "in_arena s (page_handle a) \<and> order_count (levelUnchecked s a sd) = 0")
  case True
  let ?ow = "page_owners s (page_handle a)"
  let ?loc = "own_stock_locate ?ow" and ?p = "own_page_index ?ow"
  from True have h: "in_arena s (page_handle a)" by simp
  have l: "level_index a \<notin> active s (page_handle a) sd" using True by (simp add: active_def)
  have "unat (active_levels (pageSummary s (page_handle a) sd)) = card (active s (page_handle a) sd)"
    using store_inv_page [OF inv h, of sd] by (simp add: page_ok_def)
  then have c1: "\<not> kPricePartCount \<le> active_levels (pageSummary s (page_handle a) sd)"
    using card_fresh_u16 [OF l] by (simp add: word_le_nat_alt)
  have c2: "\<not> kPricePartCount \<le> best_level_index (pageSummary s (page_handle a) sd)"
    if "active_levels (pageSummary s (page_handle a) sd) \<noteq> 0"
    using active_page_summary [OF inv h, of sd] that page_summary_zero [OF inv h, of sd] by (metis ucast_less_part(2))
  have c3: "\<not> kPricePartCount \<le> active_pages (bookSummary s ?loc sd)"
    if "active_levels (pageSummary s (page_handle a) sd) = 0"
  proof -
    have "?p \<notin> act_pages s ?loc sd"
      using that page_summary_zero [OF inv h, of sd] owner_active(1) [OF inv h refl refl, of sd] by simp
    then show ?thesis using card_fresh_u16 store_inv_book [OF inv, of ?loc sd]
      by (fastforce simp: word_le_nat_alt book_ok_def)
  qed
  have "validateActivation s a sd = Applied"
    using c1 c2 c3 owner_page [OF inv h] pls_owner_in_arena [OF h]
    by (auto simp: validateActivation_def Let_def isBookPrepared_def)
  then show ?thesis using True level_zero [OF inv, of a sd]
    by (auto simp: validateAdd_def validateAddress_def Let_def in_arena_def address_valid_def kInvalidPricePageHandle_def)
next
  case False
  then show ?thesis using level_zero [OF inv, of a sd]
    by (auto simp: validateAdd_def validateAddress_def Let_def in_arena_def address_valid_def kInvalidPricePageHandle_def)
qed

lemma addValidated_level:
  "levelUnchecked (addValidated s a sd qty) a' sd' =
     (if a' = a \<and> same_side sd sd'
      then \<lparr>total_qty = total_qty (levelUnchecked s a sd) + ucast qty, order_count = order_count (levelUnchecked s a sd) + 1\<rparr>
      else levelUnchecked s a' sd')"
proof -
  have "a' = a \<longleftrightarrow> page_handle a' = page_handle a \<and> level_index a' = level_index a" by (cases a; cases a') auto
  then show ?thesis by (auto simp: addValidated_def activateLevel_def Let_def store_frame)
qed

lemma eraseValidated_level:
  "levelUnchecked (eraseValidated s a sd qty plan) a' sd' =
     (if a' = a \<and> same_side sd sd'
      then \<lparr>total_qty = total_qty (levelUnchecked s a sd) - ucast qty, order_count = order_count (levelUnchecked s a sd) - 1\<rparr>
      else levelUnchecked s a' sd')"
proof -
  have "a' = a \<longleftrightarrow> page_handle a' = page_handle a \<and> level_index a' = level_index a" by (cases a; cases a') auto
  then show ?thesis
    by (auto simp: eraseValidated_def deactivateLevel_def Let_def store_frame case_prod_beta)
qed

lemma set_level_level:
  "levelUnchecked (set_level s a sd lv) a' sd' = (if a' = a \<and> same_side sd sd' then lv else levelUnchecked s a' sd')"
proof -
  have "a' = a \<longleftrightarrow> page_handle a' = page_handle a \<and> level_index a' = level_index a" by (cases a; cases a') auto
  then show ?thesis by (auto simp: store_frame)
qed

lemma same_arena_validated [simp]:
  "same_arena s (addValidated t a sd qty) = same_arena s t"
  "same_arena s (eraseValidated t a sd qty plan) = same_arena s t"
  by (simp_all add: addValidated_def activateLevel_def eraseValidated_def deactivateLevel_def Let_def case_prod_beta)

section \<open>Arena operations\<close>

lemma store_inv_new: "newPriceLevelStore config = Some s \<Longrightarrow> store_inv s"
proof -
  assume "newPriceLevelStore config = Some s"
  then have c: "page_capacity config \<noteq> 0" "page_capacity config \<noteq> u32_max"
    and s: "s = \<lparr>pls_config = config, roots = (\<lambda>_. 0), prepared_books = (\<lambda>_. 0),
        pages = (\<lambda>_. zeroPage), page_owners = (\<lambda>_. zeroOwner),
        page_summaries = (\<lambda>_ _. zeroPageSummary), page_occupancy = (\<lambda>_. zeroStorage),
        book_summaries = (\<lambda>_ _. zeroBookSummary), book_occupancy = (\<lambda>_. zeroStorage),
        committed_pages = 0, prepared_book_count = 0, page_capacity_failures = 0\<rparr>"
    by (auto simp: newPriceLevelStore_def validatedPriceConfig_def split: if_splits)
  have lv: "levelUnchecked s a sd = zeroLevel" for a sd by (simp add: s levelUnchecked_def zeroPage_def Let_def)
  have "arena_inv s" using c
    by (auto simp: arena_inv_def lv) (auto simp: s in_arena_def hdl_def zeroOwner_def pageSummary_def pageOccupancy_def)
  moreover have "levels_inv s" by (simp add: levels_inv_def lv zeroLevel_def)
  moreover have "active s h sd = {}" for h sd by (simp add: active_def lv zeroLevel_def)
  ultimately show ?thesis
    by (auto simp: store_inv_def in_arena_def s book_ok_def act_pages_def act_prices_def bookSummary_def
        bookOccupancy_def zeroBookSummary_def bm.inv_zero bm.elems_zero)
qed

text \<open>Preparing a book and counting a failed reservation touch nothing the invariant reads.\<close>

lemma same_contents:
  assumes "roots t = roots s" "pages t = pages s" "committed_pages t = committed_pages s"
    "page_summaries t = page_summaries s" "page_occupancy t = page_occupancy s"
    "book_summaries t = book_summaries s" "book_occupancy t = book_occupancy s"
  shows "hdl t = hdl s" "in_arena t = in_arena s" "levelUnchecked t = levelUnchecked s" "active t = active s"
    "pageSummary t = pageSummary s" "pageOccupancy t = pageOccupancy s" "bookSummary t = bookSummary s"
    "bookOccupancy t = bookOccupancy s" "act_pages t = act_pages s" "act_prices t = act_prices s"
proof -
  show *: "hdl t = hdl s" "levelUnchecked t = levelUnchecked s"
    by (intro ext, simp add: hdl_def levelUnchecked_def assms)+
  show **: "active t = active s" by (intro ext) (simp add: active_def *)
  show "act_pages t = act_pages s" "act_prices t = act_prices s"
    by (intro ext, simp add: act_pages_def act_prices_def * **)+
  show "in_arena t = in_arena s" "pageSummary t = pageSummary s" "pageOccupancy t = pageOccupancy s"
    "bookSummary t = bookSummary s" "bookOccupancy t = bookOccupancy s"
    by (intro ext, simp add: in_arena_def pageSummary_def pageOccupancy_def bookSummary_def bookOccupancy_def assms)+
qed

lemma store_inv_same_contents:
  assumes "store_inv s" and c: "roots t = roots s" "pages t = pages s" "committed_pages t = committed_pages s"
    "page_summaries t = page_summaries s" "page_occupancy t = page_occupancy s"
    "book_summaries t = book_summaries s" "book_occupancy t = book_occupancy s"
    and o: "page_owners t = page_owners s" "pls_config t = pls_config s"
    and p: "\<And>l. isBookPrepared s l \<Longrightarrow> isBookPrepared t l"
  shows "store_inv t"
  using assms(1) p c(3) o by (simp add: store_inv_def arena_inv_def levels_inv_def same_contents [OF c])

lemma store_inv_prepareBook:
  assumes "store_inv s" and "prepareBook s loc = (r, t)"
  shows "store_inv t"
  by (rule store_inv_same_contents [OF assms(1)])
     (use assms(2) in \<open>auto simp: prepareBook_def isBookPrepared_def split: if_splits\<close>)

lemma reservePrice_store:
  assumes "reservePrice s loc price = (r, t)"
  shows "t = s \<or> res_result r = PricePageCapacityExceeded \<and> t = s\<lparr>page_capacity_failures := page_capacity_failures s + 1\<rparr>"
  using assms by (auto simp: reservePrice_def Let_def split: if_splits)

lemma store_inv_reservePrice:
  assumes "store_inv s" and "reservePrice s loc price = (r, t)"
  shows "store_inv t"
  by (rule store_inv_same_contents [OF assms(1)])
     (use reservePrice_store [OF assms(2)] in \<open>auto simp: isBookPrepared_def\<close>)

text \<open>What a reservation promises: an address of the requested price whose page is, or becomes on
  commit, the page of that book.\<close>

lemma rootHandleMatches_hdl:
  assumes inv: "store_inv s" and "hdl s loc p \<noteq> 0"
  shows "rootHandleMatches s loc p (hdl s loc p)"
  using hdl_in_arena [OF assms] owner_page [OF inv hdl_in_arena(1) [OF assms]]
  by (simp add: rootHandleMatches_def pls_owner_in_arena)

lemma reservePrice_decides:
  assumes inv: "store_inv s"
  shows "res_result (fst (reservePrice s loc price)) =
    (if \<not> isValidStockLocate loc then InvalidLocate else if \<not> isBookPrepared s loc then BookNotPrepared
     else if hdl s loc (pp_page_index (splitPrice price)) = 0 \<and> page_capacity (pls_config s) \<le> committed_pages s
     then PricePageCapacityExceeded else Applied)"
  using rootHandleMatches_hdl [OF inv, of loc "pp_page_index (splitPrice price)"]
  by (simp add: reservePrice_def Let_def kInvalidPricePageHandle_def hdl_def [symmetric])

lemma reservePrice_applied:
  assumes inv: "store_inv s" and r: "reservePrice s loc price = (r, t)" and ap: "res_result r = Applied"
  shows "t = s" "isBookPrepared s loc" "res_stock_locate r = loc" "price_reservation_valid r"
    "level_index (res_address r) = pp_level_index (splitPrice price)"
    "res_page_index r = pp_page_index (splitPrice price)"
    "\<not> res_requires_commit r \<Longrightarrow> page_handle (res_address r) = hdl s loc (res_page_index r) \<and> page_handle (res_address r) \<noteq> 0"
    "res_requires_commit r \<Longrightarrow> hdl s loc (res_page_index r) = 0 \<and> committed_pages s < page_capacity (pls_config s) \<and>
       page_handle (res_address r) = committed_pages s + 1 \<and> res_expected_committed_pages r = committed_pages s"
proof -
  have c: "committed_pages s < page_capacity (pls_config s) \<Longrightarrow> committed_pages s + 1 \<noteq> 0"
    using unat_inc_checked [of "committed_pages s"] unsigned_less [of "page_capacity (pls_config s)", where 'a=nat]
    by (auto simp: word_less_nat_alt word_unat_eq_iff)
  show "t = s" "isBookPrepared s loc" "res_stock_locate r = loc" "price_reservation_valid r"
    "level_index (res_address r) = pp_level_index (splitPrice price)"
    "res_page_index r = pp_page_index (splitPrice price)"
    "\<not> res_requires_commit r \<Longrightarrow> page_handle (res_address r) = hdl s loc (res_page_index r) \<and> page_handle (res_address r) \<noteq> 0"
    "res_requires_commit r \<Longrightarrow> hdl s loc (res_page_index r) = 0 \<and> committed_pages s < page_capacity (pls_config s) \<and>
       page_handle (res_address r) = committed_pages s + 1 \<and> res_expected_committed_pages r = committed_pages s"
    using r ap c by (auto simp: reservePrice_def Let_def defaultPriceReservation_def kInvalidPricePageHandle_def hdl_def
        price_reservation_valid_def address_valid_def not_le split: if_splits)
qed

text \<open>Committing a fresh page: a page of zeros enters the arena under one root.\<close>

lemma fresh_page_ok: "page_ok zeroPageSummary zeroStorage sd {}"
  by (simp add: page_ok_def zeroPageSummary_def bm.inv_zero bm.elems_zero)

lemma store_inv_fresh_page:
  assumes inv: "store_inv s" and root: "hdl s loc p = 0" and cap: "committed_pages s + 1 \<le> page_capacity (pls_config s)"
    and prep: "isBookPrepared s loc"
    and t: "t = s\<lparr>page_owners := (page_owners s)(committed_pages s + 1 :=
                       \<lparr>own_stock_locate = loc, own_page_index = p, own_committed = 1\<rparr>),
                 committed_pages := committed_pages s + 1,
                 roots := (roots s)(priceRootIndex loc p := committed_pages s + 1)\<rparr>"
  shows "store_inv t"
proof -
  let ?h = "committed_pages s + 1"
  have ar: "arena_inv s" using inv by (simp add: store_inv_def)
  then have "committed_pages s \<le> page_capacity (pls_config s)" "page_capacity (pls_config s) \<noteq> u32_max"
    by (simp_all add: arena_inv_def)
  then have nm: "committed_pages s \<noteq> u32_max" using unsigned_less [of "page_capacity (pls_config s)", where 'a=nat]
    by (auto simp: word_le_nat_alt word_unat_eq_iff)
  note uh = unat_inc_checked [OF nm]
  have h0: "?h \<noteq> 0" using uh by auto
  have gt: "committed_pages s < ?h" using uh by (simp add: word_less_nat_alt)
  have le: "h \<le> ?h \<longleftrightarrow> h = ?h \<or> h \<le> committed_pages s" for h
    using uh by (auto simp: word_le_nat_alt word_unat_eq_iff)
  have fresh: "pageSummary s ?h sd = zeroPageSummary" "pageOccupancy s ?h sd = zeroStorage"
     "levelUnchecked s (addr ?h l) sd = zeroLevel" for sd l
    using ar gt by (auto simp: arena_inv_def)
  have reads: "levelUnchecked t = levelUnchecked s" "pageSummary t = pageSummary s" "pageOccupancy t = pageOccupancy s"
    "bookSummary t = bookSummary s" "bookOccupancy t = bookOccupancy s" "pls_config t = pls_config s"
    "isBookPrepared t = isBookPrepared s"
    by (auto simp: t fun_eq_iff levelUnchecked_def pageSummary_def pageOccupancy_def bookSummary_def bookOccupancy_def
        isBookPrepared_def Let_def)
  have act: "active t = active s" by (auto simp: fun_eq_iff active_def reads)
  have fe: "active s ?h sd = {}" for sd by (simp add: active_def fresh zeroLevel_def)
  have ht: "hdl t l q = (if l = loc \<and> q = p then ?h else hdl s l q)" for l q by (simp add: t hdl_def)
  have at: "in_arena t h \<longleftrightarrow> h = ?h \<or> in_arena s h" for h
    using h0 le by (auto simp: t in_arena_def)
  have ot: "page_owners t h = (if h = ?h then \<lparr>own_stock_locate = loc, own_page_index = p, own_committed = 1\<rparr> else page_owners s h)" for h
    by (simp add: t)
  have ap: "act_pages t l sd = act_pages s l sd" for l sd
    using root fe by (auto simp: act_pages_def ht act)
  have ax: "act_prices t l sd = act_prices s l sd" for l sd
    using root fe by (auto simp: act_prices_iff ht act split: if_splits)
  have hs: "hdl s l q \<noteq> ?h" for l q using ar gt by (metis arena_inv_def in_arena_def not_le h0)
  have ct: "committed_pages t = ?h" by (simp add: t)
  have "arena_inv t" unfolding arena_inv_def
  proof (intro conjI allI impI)
    fix l q assume "hdl t l q \<noteq> 0"
    then show "in_arena t (hdl t l q)" "own_stock_locate (page_owners t (hdl t l q)) = l"
        "own_page_index (page_owners t (hdl t l q)) = q"
      using ar by (auto simp: ht at ot hs arena_inv_def split: if_splits)
  next
    fix h assume h: "in_arena t h"
    show "own_committed (page_owners t h) \<noteq> 0" "isBookPrepared t (own_stock_locate (page_owners t h))"
      using ar h prep by (auto simp: at ot reads arena_inv_def)
    show "hdl t (own_stock_locate (page_owners t h)) (own_page_index (page_owners t h)) = h"
    proof (cases "h = ?h")
      case False
      then have "in_arena s h" using h at by blast
      then have "hdl s (own_stock_locate (page_owners s h)) (own_page_index (page_owners s h)) = h" "h \<noteq> 0"
        using ar by (auto simp: arena_inv_def in_arena_def)
      then show ?thesis using root False by (auto simp: ht ot)
    qed (simp add: ot ht)
  next
    fix h assume "committed_pages t < h"
    then have "committed_pages s < h" "h \<noteq> ?h" using gt by (auto simp: ct)
    then show "own_committed (page_owners t h) = 0"
      "\<And>sd. pageSummary t h sd = zeroPageSummary" "\<And>sd. pageOccupancy t h sd = zeroStorage"
      "\<And>sd l. levelUnchecked t (addr h l) sd = zeroLevel"
      using ar by (simp_all add: ot reads arena_inv_def)
  qed (use ar cap in \<open>simp_all add: reads ct arena_inv_def\<close>)
  moreover have "levels_inv t" using inv by (simp add: store_inv_def levels_inv_def reads)
  moreover have "page_ok (pageSummary t h sd) (pageOccupancy t h sd) sd (active t h sd)" if "in_arena t h" for h sd
    using that inv fresh_page_ok by (auto simp: at reads act fe fresh store_inv_def)
  moreover have "book_ok (bookSummary t l sd) (bookOccupancy t l sd) sd (hdl t l) (act_pages t l sd) (act_prices t l sd)" for l sd
  proof -
    have b: "book_ok (bookSummary s l sd) (bookOccupancy s l sd) sd (hdl s l) (act_pages s l sd) (act_prices s l sd)"
      by (rule store_inv_book [OF inv])
    have "is_best sd (act_prices s l sd) x \<Longrightarrow> \<not> (l = loc \<and> pp_page_index (splitPrice x) = p)" for x
      using root by (auto simp: is_best_def act_prices_iff)
    then show ?thesis using b by (auto simp: book_ok_def reads ap ax ht split: if_splits)
  qed
  ultimately show ?thesis by (simp add: store_inv_def)
qed

lemma commitReservation_cases:
  assumes "commitReservation s r = (x, t)"
  shows "t = s \<or> (x = Applied \<and> res_requires_commit r \<and> hdl s (res_stock_locate r) (res_page_index r) = 0 \<and>
     page_handle (res_address r) = committed_pages s + 1 \<and> committed_pages s + 1 \<le> page_capacity (pls_config s) \<and>
     isBookPrepared s (res_stock_locate r) \<and>
     t = s\<lparr>page_owners := (page_owners s)(committed_pages s + 1 :=
              \<lparr>own_stock_locate = res_stock_locate r, own_page_index = res_page_index r, own_committed = 1\<rparr>),
           committed_pages := committed_pages s + 1,
           roots := (roots s)(priceRootIndex (res_stock_locate r) (res_page_index r) := committed_pages s + 1)\<rparr>)"
  using assms unfolding commitReservation_def Let_def hdl_def
  by (auto simp: kInvalidPricePageHandle_def not_less split: if_splits)

lemma store_inv_commitReservation:
  assumes inv: "store_inv s" and c: "commitReservation s r = (x, t)"
  shows "store_inv t"
  using commitReservation_cases [OF c] inv store_inv_fresh_page [OF inv] by blast

section \<open>Public mutations\<close>

lemma store_inv_pls_add:
  assumes inv: "store_inv s" and c: "pls_add s a sd qty = (x, t)"
  shows "store_inv t"
proof (cases "validateAdd s a sd qty = Applied")
  case True
  then show ?thesis using c inv validateAdd_decides [OF inv, of a sd qty]
    by (auto simp: pls_add_def Let_def not_less intro!: store_inv_addValidated split: if_splits)
qed (use assms in \<open>simp add: pls_add_def\<close>)

lemma reduceLevel_applied:
  assumes "reduceLevel s a sd cur red = (Applied, t)"
  shows "t = set_level s a sd ((levelUnchecked s a sd)\<lparr>total_qty := total_qty (levelUnchecked s a sd) - ucast red\<rparr>)"
    "order_count (levelUnchecked s a sd) \<noteq> 0" "ucast red < total_qty (levelUnchecked s a sd)"
  using assms by (auto simp: reduceLevel_def Let_def not_le split: if_splits)

lemma reduceLevel_rejected: "reduceLevel s a sd cur red = (x, t) \<Longrightarrow> x \<noteq> Applied \<Longrightarrow> t = s"
  by (auto simp: reduceLevel_def Let_def split: if_splits)

lemma store_inv_reduceLevel:
  assumes inv: "store_inv s" and h: "in_arena s (page_handle a)" and c: "reduceLevel s a sd cur red = (x, t)"
  shows "store_inv t"
proof (cases "x = Applied")
  case True
  note r = reduceLevel_applied [OF c [unfolded True]]
  show ?thesis unfolding r(1) using r(2,3) by (intro store_inv_set_level [OF inv h r(2)]) auto
qed (use reduceLevel_rejected [OF c] inv in simp)

lemma validateAddress_applied: "validateAddress s a sd = Applied \<longleftrightarrow> validSide sd \<and> in_arena s (page_handle a)"
  by (auto simp: validateAddress_def in_arena_def address_valid_def kInvalidPricePageHandle_def)

lemma store_inv_reduce:
  assumes inv: "store_inv s"
  shows "pls_reduce s a sd cur red = (x, t) \<Longrightarrow> store_inv t"
    "reduceChecked s loc p a sd cur red = (x, t) \<Longrightarrow> store_inv t"
  using inv store_inv_reduceLevel [OF inv]
  by (auto simp: pls_reduce_def reduceChecked_def Let_def validateAddress_applied split: if_splits)

lemma store_inv_pls_erase:
  assumes inv: "store_inv s" and c: "pls_erase s a sd qty = (x, t)"
  shows "store_inv t"
  using c inv store_inv_erase_validated [OF inv, of a sd qty]
  by (auto simp: pls_erase_def case_prod_beta prod_eq_iff Let_def split: if_splits)

lemma pls_move_applied:
  assumes "pls_move s old oq new nq sd = (Applied, t)"
  obtains plan where "validateErase s old sd oq = (Applied, plan)" "nq \<noteq> 0" "in_arena s (page_handle new)"
    "old = new" "t = set_level s old sd ((levelUnchecked s old sd)\<lparr>total_qty := total_qty (levelUnchecked s old sd) - ucast oq + ucast nq\<rparr>)"
    "total_qty (levelUnchecked s old sd) - ucast oq \<le> u64_max - ucast nq"
  | plan where "validateErase s old sd oq = (Applied, plan)" "nq \<noteq> 0" "in_arena s (page_handle new)"
    "old \<noteq> new" "validateAdd s new sd nq = Applied" "t = addValidated (eraseValidated s old sd oq plan) new sd nq"
proof -
  have eq: "page_handle old = page_handle new \<and> level_index old = level_index new \<longleftrightarrow> old = new"
    by (cases old; cases new) auto
  have ar: "pls_owner s h = Some ow \<Longrightarrow> in_arena s h" for h ow
    by (auto simp: pls_owner_def in_arena_def kInvalidPricePageHandle_def split: if_splits)
  show ?thesis using assms that unfolding pls_move_def Let_def eq
    by (auto simp: prod_eq_iff case_prod_beta not_less dest: ar split: if_splits option.splits)
qed

lemma pls_move_rejected: "pls_move s old oq new nq sd = (x, t) \<Longrightarrow> x \<noteq> Applied \<Longrightarrow> t = s"
  by (auto simp: pls_move_def Let_def split: if_splits option.splits prod.splits)

lemma store_inv_pls_move:
  assumes inv: "store_inv s" and c: "pls_move s old oq new nq sd = (x, t)"
  shows "store_inv t"
proof (cases "x = Applied")
  case True
  from c [unfolded True] show ?thesis
  proof (rule pls_move_applied)
    fix plan assume v: "validateErase s old sd oq = (Applied, plan)" and nq: "nq \<noteq> 0"
      and t: "t = set_level s old sd ((levelUnchecked s old sd)\<lparr>total_qty := total_qty (levelUnchecked s old sd) - ucast oq + ucast nq\<rparr>)"
      and ov: "total_qty (levelUnchecked s old sd) - ucast oq \<le> u64_max - ucast nq"
    note e = validateErase_cases [OF v]
    have "total_qty (levelUnchecked s old sd) - ucast oq + ucast nq \<noteq> 0"
      using unat_add_checked [OF ov] nq by (metis add_is_0 unat_eq_0 unat_ucast_u32_64)
    then show "store_inv t" unfolding t using e by (intro store_inv_set_level [OF inv e(2)]) auto
  next
    fix plan assume v: "validateErase s old sd oq = (Applied, plan)" and nq: "nq \<noteq> 0" and ne: "old \<noteq> new"
      and h: "in_arena s (page_handle new)"
      and d: "validateAdd s new sd nq = Applied" and t: "t = addValidated (eraseValidated s old sd oq plan) new sd nq"
    have sa: "same_arena s (eraseValidated s old sd oq plan)" by simp
    have "levelUnchecked (eraseValidated s old sd oq plan) new sd = levelUnchecked s new sd"
      using ne by (simp add: eraseValidated_level)
    then show "store_inv t" unfolding t using d h nq validateAdd_decides [OF inv, of new sd nq] same_arenaD(2) [OF sa]
      by (intro store_inv_addValidated [OF store_inv_erase_validated [OF inv v]]) (auto simp: Let_def not_less split: if_splits)
  qed
qed (use pls_move_rejected [OF c] inv in simp)

lemmas store_inv_operations =
  store_inv_prepareBook store_inv_reservePrice store_inv_commitReservation store_inv_pls_add
  store_inv_reduce store_inv_pls_erase store_inv_pls_move

section \<open>Runs of the store\<close>

text \<open>One call of a public mutating operation, whatever its arguments and its result.\<close>

inductive store_step :: "PriceLevelStore \<Rightarrow> PriceLevelStore \<Rightarrow> bool" where
  step_prepare: "prepareBook s loc = (x, t) \<Longrightarrow> store_step s t"
| step_reserve: "reservePrice s loc price = (r, t) \<Longrightarrow> store_step s t"
| step_commit: "commitReservation s r = (x, t) \<Longrightarrow> store_step s t"
| step_add: "pls_add s a sd q = (x, t) \<Longrightarrow> store_step s t"
| step_reduce: "pls_reduce s a sd q red = (x, t) \<Longrightarrow> store_step s t"
| step_reduce_checked: "reduceChecked s loc p a sd q red = (x, t) \<Longrightarrow> store_step s t"
| step_erase: "pls_erase s a sd q = (x, t) \<Longrightarrow> store_step s t"
| step_move: "pls_move s a q b r sd = (x, t) \<Longrightarrow> store_step s t"

inductive store_reachable :: "PriceLevelStoreConfig \<Rightarrow> PriceLevelStore \<Rightarrow> bool" for config where
  reach_new: "newPriceLevelStore config = Some s \<Longrightarrow> store_reachable config s"
| reach_step: "store_reachable config s \<Longrightarrow> store_step s t \<Longrightarrow> store_reachable config t"

inductive_cases store_stepE: "store_step s t"

lemma store_inv_step: "store_step s t \<Longrightarrow> store_inv s \<Longrightarrow> store_inv t"
  by (erule store_stepE) (blast intro: store_inv_operations)+

lemma store_inv_reachable: "store_reachable config s \<Longrightarrow> store_inv s"
  by (induction rule: store_reachable.induct) (auto intro: store_inv_new store_inv_step)

lemma store_step_config: "store_step s t \<Longrightarrow> pls_config t = pls_config s"
proof (erule store_stepE)
  fix a sd q x assume "pls_add s a sd q = (x, t)"
  then have "same_arena s t" by (auto simp: pls_add_def Let_def split: if_splits)
  then show ?thesis by (rule same_arenaD)
next
  fix a sd q x assume "pls_erase s a sd q = (x, t)"
  then have "same_arena s t" by (auto simp: pls_erase_def Let_def split: if_splits prod.splits)
  then show ?thesis by (rule same_arenaD)
next
  fix a q b r sd x assume m: "pls_move s a q b r sd = (x, t)"
  have "same_arena s t"
  proof (cases "x = Applied")
    case True
    from m [unfolded True] show ?thesis by (rule pls_move_applied) auto
  qed (use pls_move_rejected [OF m] in simp)
  then show ?thesis by (rule same_arenaD)
qed (auto simp: prepareBook_def commitReservation_def pls_reduce_def reduceChecked_def reduceLevel_def set_level_def
      Let_def dest!: reservePrice_store split: if_splits)

lemma store_reachable_config: "store_reachable config s \<Longrightarrow> pls_config s = config"
  by (induction rule: store_reachable.induct)
     (auto simp: newPriceLevelStore_def validatedPriceConfig_def store_step_config split: if_splits)

text \<open>A small store for the witnesses: one book prepared, one page committed and one bid on it.\<close>

definition demo_config :: PriceLevelStoreConfig where
  "demo_config = \<lparr>page_capacity = 2, pls_prefault = False\<rparr>"

definition demo_empty :: PriceLevelStore where
  "demo_empty = the (newPriceLevelStore demo_config)"

definition demo_paged :: PriceLevelStore where
  "demo_paged = (let s = snd (prepareBook demo_empty 7) in snd (commitReservation s (fst (reservePrice s 7 100))))"

definition demo_store :: PriceLevelStore where
  "demo_store = snd (pls_add demo_paged (addr 1 100) Buy 5)"

lemma demo_reachable: "store_reachable demo_config demo_paged" "store_reachable demo_config demo_store"
proof -
  have "newPriceLevelStore demo_config = Some demo_empty"
    by (simp add: demo_empty_def newPriceLevelStore_def validatedPriceConfig_def demo_config_def)
  then have 0: "store_reachable demo_config demo_empty" by (rule reach_new)
  have 1: "store_reachable demo_config (snd (prepareBook demo_empty 7))"
    by (rule reach_step [OF 0 step_prepare [OF prod.collapse [symmetric]]])
  show 2: "store_reachable demo_config demo_paged" unfolding demo_paged_def Let_def
    by (rule reach_step [OF 1 step_commit [OF prod.collapse [symmetric]]])
  show "store_reachable demo_config demo_store" unfolding demo_store_def
    by (rule reach_step [OF 2 step_add [OF prod.collapse [symmetric]]])
qed

lemma demo_inv: "store_inv demo_store"
  by (rule store_inv_reachable [OF demo_reachable(2)])

lemma demo_paged_fields:
  "committed_pages demo_paged = 1" "isBookPrepared demo_paged 7"
  "page_owners demo_paged 1 = \<lparr>own_stock_locate = 7, own_page_index = 0, own_committed = 1\<rparr>"
  "roots demo_paged (priceRootIndex 7 0) = 1"
  "levelUnchecked demo_paged (addr 1 100) Buy = zeroLevel"
  by (simp_all add: demo_paged_def demo_empty_def demo_config_def newPriceLevelStore_def validatedPriceConfig_def
      prepareBook_def reservePrice_def commitReservation_def isBookPrepared_def isValidStockLocate_def
      kInvalidStockLocate_def defaultPriceReservation_def kInvalidPricePageHandle_def splitPrice_def kPricePartBits_def
      address_valid_def zeroOwner_def levelUnchecked_def zeroPage_def)

lemma demo_add: "pls_add demo_paged (addr 1 100) Buy 5 = (Applied, demo_store)"
proof -
  have "store_inv demo_paged" by (rule store_inv_reachable [OF demo_reachable(1)])
  from validateAdd_decides [OF this, of "addr 1 100" Buy 5]
  have "validateAdd demo_paged (addr 1 100) Buy 5 = Applied"
    by (simp add: demo_paged_fields in_arena_def validSide_def zeroLevel_def)
  then show ?thesis by (simp add: demo_store_def pls_add_def)
qed

lemma demo_store_eq: "demo_store = addValidated demo_paged (addr 1 100) Buy 5"
  using demo_add by (simp add: pls_add_def Let_def split: if_splits)

lemma demo_level: "levelUnchecked demo_store (addr 1 100) Buy = \<lparr>total_qty = 5, order_count = 1\<rparr>"
  unfolding demo_store_eq addValidated_level by (simp add: demo_paged_fields zeroLevel_def)

lemma demo_arena: "same_arena demo_paged demo_store"
  unfolding demo_store_eq by simp

section \<open>Properties\<close>

text \<open>C38. In every state reached from a fresh store by any sequence of calls, whatever their arguments,
  the summaries and bitmaps are exactly what the levels say (\<open>store_inv\<close>), and the committed pages
  stay within the configured capacity.\<close>

theorem price_store_consistent:
  assumes "store_reachable config s"
  shows "store_inv s \<and> committed_pages s \<le> page_capacity config"
  using store_inv_reachable [OF assms] store_reachable_config [OF assms] by (auto simp: store_inv_def arena_inv_def)

theorem price_store_consistent_witness:
  "store_inv demo_store \<and> committed_pages demo_store \<le> page_capacity demo_config"
  by (rule price_store_consistent [OF demo_reachable(2)])

text \<open>In a consistent store the validation of an erase, with its long list of corruption checks over
  the caches, rejects a request only for what is wrong with the request: the side, the page, the
  quantity, an empty level, or a quantity that cannot be one of the orders of the level.\<close>

theorem erase_validation_exact:
  assumes "store_inv s"
  shows "fst (validateErase s a sd qty) =
    (if \<not> validSide sd then InvalidSide
     else if page_handle a = 0 \<or> page_handle a > committed_pages s then InvalidPricePage
     else if qty = 0 then InvalidQuantity
     else let lv = levelUnchecked s a sd
          in if order_count lv = 0 then MissingPriceLevel
             else if total_qty lv < ucast qty then QuantityUnderflow
             else if (order_count lv = 1) \<noteq> (total_qty lv = ucast qty) then InvariantViolation
             else Applied)"
  using validateErase_decides [OF assms, of a sd qty] by (simp add: in_arena_def not_le)

theorem erase_validation_exact_witness: "fst (validateErase demo_store (addr 1 100) Buy 5) = Applied"
  using erase_validation_exact [OF demo_inv, of "addr 1 100" Buy 5] demo_level same_arenaD(4) [OF demo_arena]
  by (simp add: validSide_def demo_paged_fields)

text \<open>A call of \<open>move\<close> that is not applied changes nothing; one that is applied in a consistent store
  keeps it consistent, keeps the arena, and changes the levels exactly as erasing the old order and
  adding the new one would.\<close>

theorem move_atomic:
  assumes "store_inv s" and "pls_move s old oq new nq sd = (x, t)"
  shows "(x \<noteq> Applied \<longrightarrow> t = s) \<and>
    (x = Applied \<longrightarrow> store_inv t \<and> same_arena s t \<and>
      (\<forall>a. levelUnchecked t a sd =
        (let lv = (if a = old then (levelUnchecked s a sd)\<lparr>total_qty := total_qty (levelUnchecked s a sd) - ucast oq,
                                                   order_count := order_count (levelUnchecked s a sd) - 1\<rparr>
                   else levelUnchecked s a sd)
         in if a = new then lv\<lparr>total_qty := total_qty lv + ucast nq, order_count := order_count lv + 1\<rparr> else lv)))"
proof (cases "x = Applied")
  case True
  from assms(2) [unfolded True] have "same_arena s t \<and> (\<forall>a. levelUnchecked t a sd =
        (let lv = (if a = old then (levelUnchecked s a sd)\<lparr>total_qty := total_qty (levelUnchecked s a sd) - ucast oq,
                                                   order_count := order_count (levelUnchecked s a sd) - 1\<rparr>
                   else levelUnchecked s a sd)
         in if a = new then lv\<lparr>total_qty := total_qty lv + ucast nq, order_count := order_count lv + 1\<rparr> else lv))"
    by (rule pls_move_applied) (auto simp: set_level_level addValidated_level eraseValidated_level Let_def)
  then show ?thesis using True store_inv_pls_move [OF assms] by blast
qed (use pls_move_rejected [OF assms(2)] in simp)

theorem move_atomic_witness:
  "fst (pls_move demo_store (addr 1 100) 5 (addr 2 100) 5 Buy) = InvalidPricePage \<and>
   snd (pls_move demo_store (addr 1 100) 5 (addr 2 100) 5 Buy) = demo_store"
proof -
  have "fst (pls_move demo_store (addr 1 100) 5 (addr 2 100) 5 Buy) = InvalidPricePage"
    using same_arenaD(4) [OF demo_arena] by (simp add: pls_move_def pls_owner_def demo_paged_fields kInvalidPricePageHandle_def)
  then show ?thesis
    using move_atomic [OF demo_inv prod.collapse [symmetric], of "addr 1 100" 5 "addr 2 100" 5 Buy] by simp
qed

end
