(* ===== verification/PriceLevelQuery.thy ===== *)
theory PriceLevelQuery
  imports PriceLevelMutation
begin

text \<open>
  The read side of the price store: \<open>best\<close>, \<open>nextWorse\<close>, \<open>view\<close> and \<open>topTen\<close> return the active prices of a
  book in order of quality, each with the aggregate stored at its level.
\<close>

section \<open>Queries\<close>

definition book_level :: "PriceLevelStore \<Rightarrow> u16 \<Rightarrow> OrderSide \<Rightarrow> u32 \<Rightarrow> PriceLevelState" where
  "book_level s loc sd x =
     (let h = hdl s loc (pp_page_index (splitPrice x))
      in if h = 0 then zeroLevel else levelUnchecked s (addr h (pp_level_index (splitPrice x))) sd)"

lemma act_prices_book_level: "x \<in> act_prices s loc sd \<longleftrightarrow> order_count (book_level s loc sd x) \<noteq> 0"
  by (simp add: act_prices_iff book_level_def active_def Let_def zeroLevel_def)

definition cursor_at :: "PriceLevelStore \<Rightarrow> u16 \<Rightarrow> u32 \<Rightarrow> PriceLevelCursor" where
  "cursor_at s loc x = \<lparr>cur_page_handle = hdl s loc (pp_page_index (splitPrice x)), cur_raw_price = x,
     cur_stock_locate = loc, cur_valid = True\<rparr>"

definition view_at :: "PriceLevelStore \<Rightarrow> u16 \<Rightarrow> OrderSide \<Rightarrow> u32 \<Rightarrow> PriceLevelView" where
  "view_at s loc sd x = \<lparr>view_raw_price = x, view_total_qty = total_qty (book_level s loc sd x),
     view_order_count = order_count (book_level s loc sd x), view_valid = True\<rparr>"

lemma pls_best_none:
  assumes "store_inv s" "act_prices s loc sd = {}"
  shows "pls_best s loc sd = noCursor"
  using store_inv_book [OF assms(1), of loc sd] act_prices_pages(1) [of s loc sd] assms(2)
  by (auto simp: pls_best_def book_ok_def Let_def kInvalidPricePageHandle_def)

lemma pls_best_some:
  assumes inv: "store_inv s" and p: "isBookPrepared s loc" "validSide sd" and b: "is_best sd (act_prices s loc sd) x"
  shows "pls_best s loc sd = cursor_at s loc x"
proof -
  have "act_prices s loc sd \<noteq> {}" using b by (auto simp: is_best_def)
  then obtain q m where bk: "is_best sd (act_prices s loc sd) (joinPrice q m)"
      "best_raw_price (bookSummary s loc sd) = joinPrice q m"
      "best_page_handle (bookSummary s loc sd) = hdl s loc q" "hdl s loc q \<noteq> 0"
      "active_pages (bookSummary s loc sd) \<noteq> 0"
    using active_book_summary [OF inv] by metis
  then show ?thesis using p is_best_unique [OF b bk(1)]
    by (simp add: pls_best_def Let_def kInvalidPricePageHandle_def cursor_at_def)
qed

lemma prepared_valid: "isBookPrepared s loc \<Longrightarrow> isValidStockLocate loc"
  by (simp add: isBookPrepared_def)

lemma pls_view_at:
  assumes inv: "store_inv s" and v: "validSide sd" and x: "x \<in> act_prices s loc sd"
  shows "pls_view s (cursor_at s loc x) sd = view_at s loc sd x"
proof -
  have h: "hdl s loc (pp_page_index (splitPrice x)) \<noteq> 0" using x by (simp add: act_prices_iff)
  note ar = hdl_in_arena [OF inv h]
  note ow = owner_page [OF inv ar(1), unfolded ar]
  show ?thesis using x ar ow(2,3) h v prepared_valid [OF ow(2)] pls_owner_in_arena [OF ar(1)]
    by (simp add: pls_view_def cursor_at_def Let_def resolveLevel_def validateAddress_applied view_at_def
        book_level_def act_prices_iff active_def)
qed

lemma page_next_level:
  assumes inv: "store_inv s" and h: "in_arena s h" and l: "l \<in> active s h sd"
  shows "{j \<in> active s h sd. beats sd l j} = {} \<Longrightarrow>
      (if active_levels (pageSummary s h sd) > 1 then bm.next_worse_index sd (pageOccupancy s h sd) l else kInvalid) = kInvalid"
    "is_best sd {j \<in> active s h sd. beats sd l j} b \<Longrightarrow>
      (if active_levels (pageSummary s h sd) > 1 then bm.next_worse_index sd (pageOccupancy s h sd) l else kInvalid) = ucast b"
proof -
  let ?A = "active s h sd"
  have ok: "page_ok (pageSummary s h sd) (pageOccupancy s h sd) sd ?A" by (rule store_inv_page [OF inv h])
  then have many: "active_levels (pageSummary s h sd) > 1 \<longleftrightarrow> card ?A > 1"
    by (simp add: page_ok_def word_less_nat_alt)
  have bi: "bitmap_inv (pageOccupancy s h sd)" and be: "card ?A > 1 \<Longrightarrow> bm_elems (pageOccupancy s h sd) = ?A"
    using ok by (auto simp: page_ok_def)
  show "(if active_levels (pageSummary s h sd) > 1 then bm.next_worse_index sd (pageOccupancy s h sd) l else kInvalid) = kInvalid"
    if "{j \<in> ?A. beats sd l j} = {}" using that be bm.next_worse_index_none [OF bi, of sd l] by (simp add: many)
  show "(if active_levels (pageSummary s h sd) > 1 then bm.next_worse_index sd (pageOccupancy s h sd) l else kInvalid) = ucast b"
    if b: "is_best sd {j \<in> ?A. beats sd l j} b"
  proof -
    from b have "b \<in> ?A" "b \<noteq> l" by (auto simp: is_best_def)
    then have "card ?A > 1" using card_cases_u16(2) [OF l] by (metis not_le singletonD)
    then show ?thesis using be b bm.next_worse_index_some [OF bi, of sd l b] by (simp add: many)
  qed
qed

lemma book_next_page:
  assumes inv: "store_inv s"
  shows "{q \<in> act_pages s loc sd. beats sd p q} = {} \<Longrightarrow> bm.next_worse_index sd (bookOccupancy s loc sd) p = kInvalid"
    "is_best sd {q \<in> act_pages s loc sd. beats sd p q} b \<Longrightarrow> bm.next_worse_index sd (bookOccupancy s loc sd) p = ucast b"
proof -
  have "bitmap_inv (bookOccupancy s loc sd)" "bm_elems (bookOccupancy s loc sd) = act_pages s loc sd"
    using store_inv_book [OF inv, of loc sd] by (auto simp: book_ok_def)
  then show "{q \<in> act_pages s loc sd. beats sd p q} = {} \<Longrightarrow> bm.next_worse_index sd (bookOccupancy s loc sd) p = kInvalid"
    "is_best sd {q \<in> act_pages s loc sd. beats sd p q} b \<Longrightarrow> bm.next_worse_index sd (bookOccupancy s loc sd) p = ucast b"
    using bm.next_worse_index_none bm.next_worse_index_some by auto
qed

text \<open>\<open>nextWorse\<close> with its searches named.\<close>

lemma nextWorse_search:
  "nextWorse s loc sd current =
     (if \<not> cur_valid current \<or> cur_stock_locate current \<noteq> loc \<or> \<not> isBookPrepared s loc \<or> \<not> validSide sd then noCursor
      else let parts = splitPrice (cur_raw_price current)
        in case pls_owner s (cur_page_handle current) of None \<Rightarrow> noCursor
           | Some ow \<Rightarrow>
        if own_committed ow = 0 \<or> own_stock_locate ow \<noteq> loc \<or> own_page_index ow \<noteq> pp_page_index parts then noCursor
        else let ps = pageSummary s (cur_page_handle current) sd; pb = pageOccupancy s (cur_page_handle current) sd;
                 nl = (if active_levels ps > 1 then bm.next_worse_index sd pb (pp_level_index parts) else kInvalid)
          in if nl \<noteq> kInvalid then
               \<lparr>cur_page_handle = cur_page_handle current, cur_raw_price = joinPrice (pp_page_index parts) (ucast nl),
                cur_stock_locate = loc, cur_valid = True\<rparr>
             else let bb = bookOccupancy s loc sd; q = bm.next_worse_index sd bb (pp_page_index parts)
               in if q = kInvalid then noCursor
                  else let nh = pageHandle s loc (ucast q)
                    in if nh = kInvalidPricePageHandle then noCursor
                       else let np = pageSummary s nh sd
                         in if active_levels np = 0 \<or> best_level_index np \<ge> kPricePartCount then noCursor
                            else \<lparr>cur_page_handle = nh, cur_raw_price = joinPrice (ucast q) (ucast (best_level_index np)),
                                  cur_stock_locate = loc, cur_valid = True\<rparr>)"
  by (simp only: nextWorse_def bm.next_worse_index_def)

lemma nextWorse_unfold:
  assumes inv: "store_inv s" and pr: "isBookPrepared s loc" "validSide sd" and x: "joinPrice p l \<in> act_prices s loc sd"
  shows "nextWorse s loc sd (cursor_at s loc (joinPrice p l)) =
    (let h = hdl s loc p;
         nl = (if active_levels (pageSummary s h sd) > 1 then bm.next_worse_index sd (pageOccupancy s h sd) l else kInvalid)
     in if nl \<noteq> kInvalid then \<lparr>cur_page_handle = h, cur_raw_price = joinPrice p (ucast nl), cur_stock_locate = loc, cur_valid = True\<rparr>
        else let q = bm.next_worse_index sd (bookOccupancy s loc sd) p
          in if q = kInvalid then noCursor
             else let nh = pageHandle s loc (ucast q)
               in if nh = 0 then noCursor
                  else let np = pageSummary s nh sd
                    in if active_levels np = 0 \<or> best_level_index np \<ge> kPricePartCount then noCursor
                       else \<lparr>cur_page_handle = nh, cur_raw_price = joinPrice (ucast q) (ucast (best_level_index np)),
                             cur_stock_locate = loc, cur_valid = True\<rparr>)"
proof -
  have h: "hdl s loc p \<noteq> 0" using x by (simp add: act_prices_iff)
  note ar = hdl_in_arena [OF inv h]
  note ow = owner_page [OF inv ar(1), unfolded ar]
  show ?thesis using pr ar ow(2,3) pls_owner_in_arena [OF ar(1)]
    unfolding nextWorse_search Let_def by (simp add: cursor_at_def kInvalidPricePageHandle_def)
qed

lemma worse_prices:
  assumes x: "joinPrice p l \<in> act_prices s loc sd"
  shows "joinPrice q m \<in> {y \<in> act_prices s loc sd. beats sd (joinPrice p l) y} \<longleftrightarrow>
    q \<in> act_pages s loc sd \<and> m \<in> active s (hdl s loc q) sd \<and> (beats sd p q \<or> q = p \<and> beats sd l m)"
  by (auto simp: act_prices_iff act_pages_def beats_joinPrice)

lemma nextWorse_some:
  assumes inv: "store_inv s" and pr: "isBookPrepared s loc" "validSide sd" and x: "x \<in> act_prices s loc sd"
    and b: "is_best sd {y \<in> act_prices s loc sd. beats sd x y} y"
  shows "nextWorse s loc sd (cursor_at s loc x) = cursor_at s loc y"
proof -
  let ?W = "{y \<in> act_prices s loc sd. beats sd x y}"
  obtain p l where pl: "x = joinPrice p l" by (metis join_split)
  note x' = x [unfolded pl]
  note W = worse_prices [OF x']
  have h: "hdl s loc p \<noteq> 0" "l \<in> active s (hdl s loc p) sd" using x' by (auto simp: act_prices_iff)
  note ar = hdl_in_arena [OF inv h(1)]
  have pP: "p \<in> act_pages s loc sd" using h by (auto simp: act_pages_def)
  show ?thesis
  proof (cases "{j \<in> active s (hdl s loc p) sd. beats sd l j} = {}")
    case False
    then obtain c where c: "is_best sd {j \<in> active s (hdl s loc p) sd. beats sd l j} c" using is_best_ex by (metis finite_u16)
    have "is_best sd ?W (joinPrice p c)" unfolding is_best_def
    proof (intro conjI ballI impI)
      show "joinPrice p c \<in> ?W" using c pP W [of p c] pl by (auto simp: is_best_def)
      fix z assume z: "z \<in> ?W" "z \<noteq> joinPrice p c"
      obtain q m where qm: "z = joinPrice q m" by (metis join_split)
      then show "beats sd (joinPrice p c) z" using z W [of q m] c pl by (auto simp: is_best_def beats_joinPrice)
    qed
    then have "y = joinPrice p c" by (rule is_best_unique [OF b])
    then show ?thesis using page_next_level(2) [OF inv ar(1) h(2) c]
      unfolding pl nextWorse_unfold [OF inv pr x'] Let_def by (simp add: cursor_at_def ucast_u16_valid)
  next
    case True
    then have Wq: "joinPrice q m \<in> ?W \<longleftrightarrow> q \<in> {q \<in> act_pages s loc sd. beats sd p q} \<and> m \<in> active s (hdl s loc q) sd" for q m
      using W [of q m] pl by auto
    obtain q m where qm: "y = joinPrice q m" by (metis join_split)
    then have q: "q \<in> act_pages s loc sd" "beats sd p q" using b Wq [of q m] by (auto simp: is_best_def)
    then obtain r where r: "is_best sd {q \<in> act_pages s loc sd. beats sd p q} r" using is_best_ex [of "{q \<in> act_pages s loc sd. beats sd p q}"] by auto
    then have rh: "hdl s loc r \<noteq> 0" "active s (hdl s loc r) sd \<noteq> {}" by (auto simp: is_best_def act_pages_def)
    then obtain k where k: "is_best sd (active s (hdl s loc r) sd) k" using is_best_ex by (metis finite_u16)
    note cb = cached_best_checks [OF inv rh(1) k]
    have "is_best sd ?W (joinPrice r k)" by (rule is_best_join [where L = "\<lambda>u. active s (hdl s loc u) sd", OF r k Wq])
    then have "y = joinPrice r k" by (rule is_best_unique [OF b])
    then show ?thesis using page_next_level(1) [OF inv ar(1) h(2) True] book_next_page(2) [OF inv r] cb rh
      unfolding pl nextWorse_unfold [OF inv pr x'] Let_def by (simp add: cursor_at_def ucast_u16_valid)
  qed
qed

lemma nextWorse_none:
  assumes inv: "store_inv s" and pr: "isBookPrepared s loc" "validSide sd" and x: "x \<in> act_prices s loc sd"
    and none: "{y \<in> act_prices s loc sd. beats sd x y} = {}"
  shows "nextWorse s loc sd (cursor_at s loc x) = noCursor"
proof -
  obtain p l where pl: "x = joinPrice p l" by (metis join_split)
  note x' = x [unfolded pl]
  have h: "hdl s loc p \<noteq> 0" "l \<in> active s (hdl s loc p) sd" using x' by (auto simp: act_prices_iff)
  note ar = hdl_in_arena [OF inv h(1)]
  have pP: "p \<in> act_pages s loc sd" using h by (auto simp: act_pages_def)
  have W: "\<not> (q \<in> act_pages s loc sd \<and> m \<in> active s (hdl s loc q) sd \<and> (beats sd p q \<or> q = p \<and> beats sd l m))" for q m
    using worse_prices [OF x', of q m] none pl by auto
  then have 1: "{j \<in> active s (hdl s loc p) sd. beats sd l j} = {}" using pP by blast
  have "{q \<in> act_pages s loc sd. beats sd p q} = {}" using W by (fastforce simp: act_pages_def)
  then show ?thesis using page_next_level(1) [OF inv ar(1) h(2) 1] book_next_page(1) [OF inv]
    unfolding pl nextWorse_unfold [OF inv pr x'] Let_def by simp
qed

section \<open>The ten best levels\<close>

definition best_first :: "OrderSide \<Rightarrow> u32 set \<Rightarrow> u32 list" where
  "best_first sd R = (if sd = Buy then rev (sorted_list_of_set R) else sorted_list_of_set R)"

lemma best_first_empty [simp]: "best_first sd {} = []" by (simp add: best_first_def)

lemma best_first_Cons:
  assumes "is_best sd R x"
  shows "best_first sd R = x # best_first sd {y \<in> R. beats sd x y}"
proof -
  have R: "R = insert x {y \<in> R. beats sd x y}" "x \<notin> {y \<in> R. beats sd x y}"
    using assms by (auto simp: is_best_def)
  define W where "W = {y \<in> R. beats sd x y}"
  have less: "\<forall>y\<in>W. beats sd x y" "x \<notin> W" by (auto simp: W_def)
  have "sorted_list_of_set (insert x W) = (if sd = Buy then sorted_list_of_set W @ [x] else x # sorted_list_of_set W)"
    by (rule sorted_distinct_set_unique)
       (use less in \<open>auto simp: beats_def sorted_append less_imp_le set_insort_key distinct_insort sorted_insort\<close>)
  then show ?thesis using R by (auto simp: best_first_def W_def)
qed

lemma set_best_first: "set (best_first sd R) = R" "distinct (best_first sd R)"
  by (simp_all add: best_first_def)

lemma topTen_loop_correct:
  assumes inv: "store_inv s" and pr: "isBookPrepared s loc" "validSide sd"
  shows "is_best sd W x \<Longrightarrow> W \<subseteq> act_prices s loc sd \<Longrightarrow>
    {y \<in> act_prices s loc sd. beats sd x y} = W - {x} \<Longrightarrow>
    topTen_loop n s loc sd (cursor_at s loc x) = map (view_at s loc sd) (take n (best_first sd W))"
proof (induction n arbitrary: W x)
  case (Suc n)
  let ?W = "{y \<in> act_prices s loc sd. beats sd x y}"
  have x: "x \<in> act_prices s loc sd" using Suc.prems by (auto simp: is_best_def)
  have WW: "{y \<in> W. beats sd x y} = ?W" using Suc.prems by auto
  have cv: "cur_valid (cursor_at s loc x)" "view_valid (view_at s loc sd x)" by (simp_all add: cursor_at_def view_at_def)
  have "topTen_loop n s loc sd (nextWorse s loc sd (cursor_at s loc x)) = map (view_at s loc sd) (take n (best_first sd ?W))"
  proof (cases "?W = {}")
    case True
    then show ?thesis unfolding nextWorse_none [OF inv pr x True] True by (cases n) (simp_all add: noCursor_def)
  next
    case False
    then obtain y where y: "is_best sd ?W y" using is_best_ex [of ?W sd] by auto
    have "{z \<in> act_prices s loc sd. beats sd y z} = ?W - {y}"
      using y by (auto simp: is_best_def intro: beats_trans)
    then show ?thesis using Suc.IH [OF y] nextWorse_some [OF inv pr x y] by auto
  qed
  then show ?case
    by (simp add: pls_view_at [OF inv pr(2) x] cv best_first_Cons [OF Suc.prems(1)] WW)
qed simp

lemma topTen_best_first:
  assumes inv: "store_inv s" and pr: "isBookPrepared s loc" "validSide sd"
  shows "topTen s loc sd n = map (view_at s loc sd) (take (min n 10) (best_first sd (act_prices s loc sd)))"
proof (cases "act_prices s loc sd = {}")
  case True
  then have "topTen s loc sd n = topTen_loop (min n 10) s loc sd noCursor"
    by (simp add: topTen_def kTopLevelCount_def pls_best_none [OF inv])
  then show ?thesis using True by (cases "min n 10") (simp_all add: noCursor_def)
next
  case False
  then obtain x where x: "is_best sd (act_prices s loc sd) x" using is_best_ex [of "act_prices s loc sd" sd] by auto
  have "{y \<in> act_prices s loc sd. beats sd x y} = act_prices s loc sd - {x}" using x by (auto simp: is_best_def)
  then show ?thesis
    using topTen_loop_correct [OF inv pr x] by (simp add: topTen_def kTopLevelCount_def pls_best_some [OF inv pr x])
qed

section \<open>Properties\<close>

lemma demo_prices: "act_prices demo_store 7 Buy \<noteq> {}" "isBookPrepared demo_store 7" "validSide Buy"
proof -
  have "hdl demo_store 7 0 = 1" using same_arenaD(1) [OF demo_arena] by (simp add: hdl_def demo_paged_fields)
  then have "joinPrice 0 100 \<in> act_prices demo_store 7 Buy" by (simp add: act_prices_iff active_def demo_level)
  then show "act_prices demo_store 7 Buy \<noteq> {}" by blast
qed (use same_arenaD(3) [OF demo_arena] in \<open>simp_all add: demo_paged_fields validSide_def\<close>)

text \<open>The cached best price is the true best one, and stepping from an active price gives the next
  worse active price, however the prices are spread over pages: \<open>best\<close> followed by \<open>nextWorse\<close>
  enumerates the active prices.\<close>

theorem best_and_next_exact:
  assumes "store_inv s" and "isBookPrepared s loc" and "validSide sd"
  shows "(act_prices s loc sd = {} \<longrightarrow> pls_best s loc sd = noCursor) \<and>
    (\<forall>x. is_best sd (act_prices s loc sd) x \<longrightarrow> pls_best s loc sd = cursor_at s loc x) \<and>
    (\<forall>x \<in> act_prices s loc sd.
       ({y \<in> act_prices s loc sd. beats sd x y} = {} \<longrightarrow> nextWorse s loc sd (cursor_at s loc x) = noCursor) \<and>
       (\<forall>y. is_best sd {y \<in> act_prices s loc sd. beats sd x y} y \<longrightarrow>
          nextWorse s loc sd (cursor_at s loc x) = cursor_at s loc y))"
  using assms pls_best_none pls_best_some nextWorse_none nextWorse_some by simp

theorem best_and_next_exact_witness: "\<exists>x. is_best Buy (act_prices demo_store 7 Buy) x \<and> pls_best demo_store 7 Buy = cursor_at demo_store 7 x"
  using best_and_next_exact [OF demo_inv demo_prices(2,3)] is_best_ex [OF _ demo_prices(1), of Buy] by auto

text \<open>\<open>topTen\<close> returns the views of the best active prices, best first, as many as there are up to
  ten and the size of the output.\<close>

theorem topTen_exact:
  assumes "store_inv s" and "isBookPrepared s loc" and "validSide sd"
  shows "topTen s loc sd n = map (view_at s loc sd) (take (min n 10) (best_first sd (act_prices s loc sd)))"
  by (rule topTen_best_first [OF assms])

theorem topTen_exact_witness: "topTen demo_store 7 Buy 10 \<noteq> []"
proof -
  have "set (best_first Buy (act_prices demo_store 7 Buy)) \<noteq> {}" unfolding set_best_first by (rule demo_prices)
  then have "best_first Buy (act_prices demo_store 7 Buy) \<noteq> []" by auto
  then show ?thesis using topTen_exact [OF demo_inv demo_prices(2,3), of 10] by simp
qed

end
