(* ===== verification/PriceLedger.thy ===== *)
theory PriceLedger
  imports PriceLevelQuery "HOL-Library.Multiset"
begin

text \<open>
  The price store as its clients see it. \<open>aggregates f L\<close> says that a map of levels holds, for every
  address and side, the total quantity and the number of the orders of a multiset \<open>L\<close>. The locale
  \<open>price_ledger\<close> states what adding, reducing, erasing and moving an order promise of the levels,
  \<open>price_store\<close> adds the reservation of pages; the lemmas on \<open>books\<close> inside them are what the order
  book uses. Both are interpreted on the operations of \<open>PriceLevelStore\<close>.
\<close>

section \<open>The contract a ledger of orders relies on\<close>

type_synonym ledger_entry = "PriceAddress \<times> OrderSide \<times> u32"
type_synonym level_map = "PriceAddress \<Rightarrow> OrderSide \<Rightarrow> PriceLevelState"

definition level_plus :: "PriceLevelState \<Rightarrow> u32 \<Rightarrow> PriceLevelState" where
  "level_plus lv q = lv\<lparr>total_qty := total_qty lv + ucast q, order_count := order_count lv + 1\<rparr>"

definition level_minus :: "PriceLevelState \<Rightarrow> u32 \<Rightarrow> PriceLevelState" where
  "level_minus lv q = lv\<lparr>total_qty := total_qty lv - ucast q, order_count := order_count lv - 1\<rparr>"

definition level_room :: "PriceLevelState \<Rightarrow> u32 \<Rightarrow> bool" where
  "level_room lv q \<longleftrightarrow> order_count lv \<noteq> u32_max \<and> total_qty lv \<le> u64_max - ucast q"

text \<open>An order of quantity \<open>q\<close> fits a level: it is the whole level or a proper part of it.\<close>

definition level_holds :: "PriceLevelState \<Rightarrow> u32 \<Rightarrow> bool" where
  "level_holds lv q \<longleftrightarrow> order_count lv \<noteq> 0 \<and> ucast q \<le> total_qty lv \<and> (order_count lv = 1 \<longleftrightarrow> total_qty lv = ucast q)"

definition level_put :: "level_map \<Rightarrow> PriceAddress \<Rightarrow> OrderSide \<Rightarrow> PriceLevelState \<Rightarrow> level_map" where
  "level_put f a sd v = (\<lambda>a' sd'. if a' = a \<and> sd' = sd then v else f a' sd')"

definition same_levels :: "level_map \<Rightarrow> level_map \<Rightarrow> bool" where
  "same_levels f g \<longleftrightarrow> (\<forall>a sd. validSide sd \<longrightarrow> f a sd = g a sd)"

definition entries_at :: "ledger_entry multiset \<Rightarrow> PriceAddress \<Rightarrow> OrderSide \<Rightarrow> ledger_entry multiset" where
  "entries_at L a sd = filter_mset (\<lambda>e. fst e = a \<and> fst (snd e) = sd) L"

definition entry_sum :: "ledger_entry multiset \<Rightarrow> nat" where
  "entry_sum L = sum_mset (image_mset (\<lambda>e. unat (snd (snd e))) L)"

lemma entries_at_add [simp]:
  "entries_at (add_mset e L) a sd = (if fst e = a \<and> fst (snd e) = sd then add_mset e (entries_at L a sd) else entries_at L a sd)"
  by (simp add: entries_at_def)

lemma entry_sum_simps [simp]:
  "entry_sum {#} = 0" "entry_sum (add_mset e L) = unat (snd (snd e)) + entry_sum L"
  by (simp_all add: entry_sum_def)

lemma entries_at_subset: "size (entries_at L a sd) \<le> size L"
  by (simp add: entries_at_def size_filter_mset_lesseq)

lemma entry_sum_bound: "entry_sum L \<le> size L * (2 ^ 32 - 1)"
proof (induction L)
  case (add e L)
  have "unat (snd (snd e)) \<le> 2 ^ 32 - 1" using unsigned_less [of "snd (snd e)", where 'a=nat] by simp
  then show ?case using add by simp
qed simp

lemma entry_sum_zero: "\<forall>e\<in>#L. snd (snd e) \<noteq> 0 \<Longrightarrow> entry_sum L = 0 \<longleftrightarrow> L = {#}"
  by (induction L) (auto simp: unat_eq_0)

text \<open>The levels are the aggregates of a multiset of orders.\<close>

definition aggregates :: "level_map \<Rightarrow> ledger_entry multiset \<Rightarrow> bool" where
  "aggregates f L \<longleftrightarrow> (\<forall>e\<in>#L. validSide (fst (snd e)) \<and> snd (snd e) \<noteq> 0) \<and>
     (\<forall>a sd. validSide sd \<longrightarrow> unat (total_qty (f a sd)) = entry_sum (entries_at L a sd) \<and>
        unat (order_count (f a sd)) = size (entries_at L a sd))"

lemma aggregates_same: "same_levels f g \<Longrightarrow> aggregates f L = aggregates g L"
  by (simp add: aggregates_def same_levels_def)

lemma aggregates_member:
  assumes "aggregates f (add_mset (a, sd, q) L)"
  shows "level_holds (f a sd) q" "validSide sd" "q \<noteq> 0"
    "unat (total_qty (f a sd)) = unat q + entry_sum (entries_at L a sd)"
    "unat (order_count (f a sd)) = Suc (size (entries_at L a sd))"
proof -
  show *: "validSide sd" "q \<noteq> 0" "unat (total_qty (f a sd)) = unat q + entry_sum (entries_at L a sd)"
    "unat (order_count (f a sd)) = Suc (size (entries_at L a sd))"
    using assms by (auto simp: aggregates_def)
  have "\<forall>e\<in>#entries_at L a sd. snd (snd e) \<noteq> 0" using assms by (auto simp: aggregates_def entries_at_def)
  then show "level_holds (f a sd) q"
    using * entry_sum_zero [of "entries_at L a sd"] unat_eq_0 [of "order_count (f a sd)"]
    by (auto simp: level_holds_def word_le_nat_alt word_unat_eq_iff)
qed

lemma aggregates_room:
  assumes b: "aggregates f L" and sd: "validSide sd" and c: "size (entries_at L a sd) < 2 ^ 32 - 1"
  shows "level_room (f a sd) q"
proof -
  have n: "unat (order_count (f a sd)) = size (entries_at L a sd)"
     "unat (total_qty (f a sd)) = entry_sum (entries_at L a sd)" using b sd by (auto simp: aggregates_def)
  have "entry_sum (entries_at L a sd) \<le> size (entries_at L a sd) * (2 ^ 32 - 1)" by (rule entry_sum_bound)
  also have "\<dots> \<le> (2 ^ 32 - 2) * (2 ^ 32 - 1)" using c by (intro mult_right_mono) simp_all
  finally have "entry_sum (entries_at L a sd) + unat q \<le> 2 ^ 64 - 1"
    using unsigned_less [of q, where 'a=nat] by simp
  then show ?thesis
    using n c by (auto simp: level_room_def word_le_nat_alt unat_u64_max_minus word_unat_eq_iff)
qed

lemma aggregates_plus:
  assumes b: "aggregates f L" and sd: "validSide sd" and q: "q \<noteq> 0" and r: "level_room (f a sd) q"
  shows "aggregates (level_put f a sd (level_plus (f a sd) q)) (add_mset (a, sd, q) L)"
proof -
  have "unat (total_qty (f a sd) + ucast q) = unat (total_qty (f a sd)) + unat q"
    using unat_add_checked [of "total_qty (f a sd)" "ucast q"] r by (simp add: level_room_def)
  then show ?thesis using b sd q r unat_inc_checked [of "order_count (f a sd)"]
    by (auto simp: aggregates_def level_put_def level_plus_def level_room_def)
qed

lemma aggregates_minus:
  assumes b: "aggregates f (add_mset (a, sd, q) L)"
  shows "aggregates (level_put f a sd (level_minus (f a sd) q)) L"
proof -
  note d = aggregates_member [OF b]
  have "order_count (f a sd) \<noteq> 0" "ucast q \<le> total_qty (f a sd)" using d(1) by (auto simp: level_holds_def)
  then show ?thesis using b d(4,5) unat_dec_checked [of "order_count (f a sd)"] unat_sub [of "ucast q" "total_qty (f a sd)"]
    by (auto simp: aggregates_def level_put_def level_minus_def)
qed

lemma aggregates_reduce:
  assumes b: "aggregates f (add_mset (a, sd, q) L)" and red: "red < q"
  shows "aggregates (level_put f a sd ((f a sd)\<lparr>total_qty := total_qty (f a sd) - ucast red\<rparr>)) (add_mset (a, sd, q - red) L)"
proof -
  note d = aggregates_member [OF b]
  have u: "unat (q - red) = unat q - unat red" "q - red \<noteq> 0" "unat red < unat q"
    using red unat_sub [of red q] by (auto simp: word_less_nat_alt word_le_nat_alt)
  have "ucast red \<le> total_qty (f a sd)" using d(1) u(3) by (simp add: level_holds_def word_le_nat_alt)
  then show ?thesis using b d(4,5) unat_sub [of "ucast red" "total_qty (f a sd)"] u
    by (auto simp: aggregates_def level_put_def)
qed

locale price_ledger =
  fixes inv :: "'s \<Rightarrow> bool"
    and level :: "'s \<Rightarrow> PriceAddress \<Rightarrow> OrderSide \<Rightarrow> PriceLevelState"
    and owner :: "'s \<Rightarrow> PricePageHandle \<Rightarrow> (u16 \<times> u16) option"
    and add :: "'s \<Rightarrow> PriceAddress \<Rightarrow> OrderSide \<Rightarrow> u32 \<Rightarrow> MutationResult \<times> 's"
    and reduce :: "'s \<Rightarrow> PriceAddress \<Rightarrow> OrderSide \<Rightarrow> u32 \<Rightarrow> u32 \<Rightarrow> MutationResult \<times> 's"
    and erase :: "'s \<Rightarrow> PriceAddress \<Rightarrow> OrderSide \<Rightarrow> u32 \<Rightarrow> MutationResult \<times> 's"
    and move :: "'s \<Rightarrow> PriceAddress \<Rightarrow> u32 \<Rightarrow> PriceAddress \<Rightarrow> u32 \<Rightarrow> OrderSide \<Rightarrow> MutationResult \<times> 's"
  assumes add_room: "inv s \<Longrightarrow> validSide sd \<Longrightarrow> owner s (page_handle a) \<noteq> None \<Longrightarrow> q \<noteq> 0 \<Longrightarrow> level_room (level s a sd) q \<Longrightarrow>
      \<exists>t. add s a sd q = (Applied, t) \<and> inv t \<and> owner t = owner s \<and>
        same_levels (level t) (level_put (level s) a sd (level_plus (level s a sd) q))"
    and add_full: "inv s \<Longrightarrow> validSide sd \<Longrightarrow> owner s (page_handle a) \<noteq> None \<Longrightarrow> q \<noteq> 0 \<Longrightarrow> \<not> level_room (level s a sd) q \<Longrightarrow>
      add s a sd q \<in> {(OrderCountOverflow, s), (QuantityOverflow, s)}"
    and reduce_partial: "inv s \<Longrightarrow> validSide sd \<Longrightarrow> owner s (page_handle a) \<noteq> None \<Longrightarrow> red \<noteq> 0 \<Longrightarrow> red < q \<Longrightarrow>
      level_holds (level s a sd) q \<Longrightarrow>
      \<exists>t. reduce s a sd q red = (Applied, t) \<and> inv t \<and> owner t = owner s \<and>
        same_levels (level t) (level_put (level s) a sd ((level s a sd)\<lparr>total_qty := total_qty (level s a sd) - ucast red\<rparr>))"
    and erase_whole: "inv s \<Longrightarrow> validSide sd \<Longrightarrow> owner s (page_handle a) \<noteq> None \<Longrightarrow> q \<noteq> 0 \<Longrightarrow> level_holds (level s a sd) q \<Longrightarrow>
      \<exists>t. erase s a sd q = (Applied, t) \<and> inv t \<and> owner t = owner s \<and>
        same_levels (level t) (level_put (level s) a sd (level_minus (level s a sd) q))"
    and move_room: "inv s \<Longrightarrow> validSide sd \<Longrightarrow> owner s (page_handle a) = Some (loc, p) \<Longrightarrow> owner s (page_handle b) = Some (loc, p') \<Longrightarrow>
      q \<noteq> 0 \<Longrightarrow> r \<noteq> 0 \<Longrightarrow> level_holds (level s a sd) q \<Longrightarrow>
      f = level_put (level s) a sd (level_minus (level s a sd) q) \<Longrightarrow> level_room (f b sd) r \<Longrightarrow>
      \<exists>t. move s a q b r sd = (Applied, t) \<and> inv t \<and> owner t = owner s \<and>
        same_levels (level t) (level_put f b sd (level_plus (f b sd) r))"
    and move_full: "inv s \<Longrightarrow> validSide sd \<Longrightarrow> owner s (page_handle a) = Some (loc, p) \<Longrightarrow> owner s (page_handle b) = Some (loc, p') \<Longrightarrow>
      q \<noteq> 0 \<Longrightarrow> r \<noteq> 0 \<Longrightarrow> level_holds (level s a sd) q \<Longrightarrow>
      f = level_put (level s) a sd (level_minus (level s a sd) q) \<Longrightarrow> \<not> level_room (f b sd) r \<Longrightarrow>
      move s a q b r sd \<in> {(OrderCountOverflow, s), (QuantityOverflow, s)}"
begin

definition books :: "'s \<Rightarrow> ledger_entry multiset \<Rightarrow> bool" where
  "books s L \<longleftrightarrow> inv s \<and> aggregates (level s) L \<and> (\<forall>e\<in>#L. owner s (page_handle (fst e)) \<noteq> None)"

lemma books_aggregates: "books s L \<Longrightarrow> inv s" "books s L \<Longrightarrow> aggregates (level s) L"
  by (simp_all add: books_def)

lemma booksI: "inv t \<Longrightarrow> aggregates f L \<Longrightarrow> same_levels (level t) f \<Longrightarrow> owner t = owner s \<Longrightarrow>
   \<forall>e\<in>#L. owner s (page_handle (fst e)) \<noteq> None \<Longrightarrow> books t L"
  using aggregates_same by (simp add: books_def)

lemma books_add:
  assumes b: "books s L" and sd: "validSide sd" and h: "owner s (page_handle a) \<noteq> None" and q: "q \<noteq> 0"
    and r: "add s a sd q = (x, t)"
  shows "x = Applied \<and> owner t = owner s \<and> books t (add_mset (a, sd, q) L) \<or>
    x \<in> {OrderCountOverflow, QuantityOverflow} \<and> t = s \<and> 2 ^ 32 - 1 \<le> size L"
proof (cases "level_room (level s a sd) q")
  case True
  have "books t (add_mset (a, sd, q) L)" "x = Applied" "owner t = owner s"
    using add_room [OF books_aggregates(1) [OF b] sd h q True] r b h aggregates_plus [OF books_aggregates(2) [OF b] sd q True]
    by (auto simp: books_def dest: aggregates_same)
  then show ?thesis by blast
next
  case False
  have "2 ^ 32 - 1 \<le> size L"
    using aggregates_room [OF books_aggregates(2) [OF b] sd, of a q] False entries_at_subset [of L a sd] by fastforce
  then show ?thesis using add_full [OF books_aggregates(1) [OF b] sd h q False] r by auto
qed

lemma books_erase:
  assumes b: "books s (add_mset (a, sd, q) L)" and r: "erase s a sd q = (x, t)"
  shows "x = Applied" "owner t = owner s" "books t L"
proof -
  note d = aggregates_member [OF books_aggregates(2) [OF b]]
  have h: "owner s (page_handle a) \<noteq> None" using b by (simp add: books_def)
  show "x = Applied" "owner t = owner s" "books t L"
    using erase_whole [OF books_aggregates(1) [OF b] d(2) h d(3,1)] r b
      aggregates_minus [OF books_aggregates(2) [OF b]]
    by (auto simp: books_def dest: aggregates_same)
qed

lemma books_reduce:
  assumes b: "books s (add_mset (a, sd, q) L)" and r: "reduce s a sd q red = (x, t)" and red: "red \<noteq> 0" "red < q"
  shows "x = Applied" "owner t = owner s" "books t (add_mset (a, sd, q - red) L)"
proof -
  note d = aggregates_member [OF books_aggregates(2) [OF b]]
  have h: "owner s (page_handle a) \<noteq> None" using b by (simp add: books_def)
  show "x = Applied" "owner t = owner s" "books t (add_mset (a, sd, q - red) L)"
    using reduce_partial [OF books_aggregates(1) [OF b] d(2) h red d(1)] r b
      aggregates_reduce [OF books_aggregates(2) [OF b] red(2)]
    by (auto simp: books_def dest: aggregates_same)
qed

lemma books_move:
  assumes b: "books s (add_mset (a, sd, q) L)" and r: "r \<noteq> 0"
    and o: "owner s (page_handle a) = Some (loc, p)" "owner s (page_handle b) = Some (loc, p')"
    and m: "move s a q b r sd = (x, t)"
  shows "x = Applied \<and> owner t = owner s \<and> books t (add_mset (b, sd, r) L) \<or>
    x \<in> {OrderCountOverflow, QuantityOverflow} \<and> t = s \<and> 2 ^ 32 - 1 \<le> size L"
proof -
  note i = books_aggregates [OF b]
  note d = aggregates_member [OF i(2)]
  define f where "f = level_put (level s) a sd (level_minus (level s a sd) q)"
  have af: "aggregates f L" unfolding f_def by (rule aggregates_minus [OF i(2)])
  show ?thesis
  proof (cases "level_room (f b sd) r")
    case True
    have "x = Applied" "owner t = owner s" "books t (add_mset (b, sd, r) L)"
      using move_room [OF i(1) d(2) o d(3) r d(1) f_def True] m b o aggregates_plus [OF af d(2) r True]
      by (auto simp: books_def dest: aggregates_same)
    then show ?thesis by blast
  next
    case False
    have "2 ^ 32 - 1 \<le> size L"
      using aggregates_room [OF af d(2), of b r] False entries_at_subset [of L b sd] by fastforce
    then show ?thesis using move_full [OF i(1) d(2) o d(3) r d(1) f_def False] m by auto
  qed
qed

end

text \<open>The same store as a supplier of pages: a reservation of a price and its commit.\<close>

locale price_store = price_ledger inv level owner add reduce erase move
  for inv :: "'s \<Rightarrow> bool" and level owner add reduce erase move +
  fixes prepared :: "'s \<Rightarrow> u16 \<Rightarrow> bool"
    and reserve :: "'s \<Rightarrow> u16 \<Rightarrow> u32 \<Rightarrow> PricePageReservation \<times> 's"
    and commit :: "'s \<Rightarrow> PricePageReservation \<Rightarrow> MutationResult \<times> 's"
  assumes reserve_keeps: "inv s \<Longrightarrow> reserve s loc x = (r, t) \<Longrightarrow>
      inv t \<and> owner t = owner s \<and> level t = level s \<and> prepared t = prepared s"
    and reserve_result: "inv s \<Longrightarrow> prepared s loc \<Longrightarrow> reserve s loc x = (r, t) \<Longrightarrow>
      res_result r = PricePageCapacityExceeded \<or> res_result r = Applied \<and> t = s \<and> price_reservation_valid r \<and>
        res_page_index r = pp_page_index (splitPrice x) \<and> level_index (res_address r) = pp_level_index (splitPrice x)"
    and reserve_ready: "inv s \<Longrightarrow> reserve s loc x = (r, t) \<Longrightarrow> res_result r = Applied \<Longrightarrow> \<not> res_requires_commit r \<Longrightarrow>
      owner s (page_handle (res_address r)) = Some (loc, res_page_index r)"
    and commit_fresh: "inv s \<Longrightarrow> reserve s loc x = (r, t) \<Longrightarrow> res_result r = Applied \<Longrightarrow> res_requires_commit r \<Longrightarrow>
      \<exists>u. commit s r = (Applied, u) \<and> inv u \<and> owner s (page_handle (res_address r)) = None \<and>
        owner u = (owner s)(page_handle (res_address r) \<mapsto> (loc, res_page_index r)) \<and>
        level u = level s \<and> prepared u = prepared s"
begin

lemma books_open:
  assumes b: "books s L" and p: "prepared s loc" and r: "reserve s loc x = (r, t)" and v: "price_reservation_valid r"
    and c: "(y, u) = (if res_requires_commit r then commit t r else (Applied, t))"
  shows "y = Applied" "books u L" "owner u (page_handle (res_address r)) = Some (loc, res_page_index r)"
    "prepared u = prepared s" "level u = level s" "owner s \<subseteq>\<^sub>m owner u"
    "res_page_index r = pp_page_index (splitPrice x)" "level_index (res_address r) = pp_level_index (splitPrice x)"
proof -
  have i: "inv s" using b by (rule books_aggregates)
  have ap: "res_result r = Applied" using v by (simp add: price_reservation_valid_def)
  with reserve_result [OF i p r] have t: "t = s" and rr: "res_page_index r = pp_page_index (splitPrice x)"
    "level_index (res_address r) = pp_level_index (splitPrice x)" by auto
  show "res_page_index r = pp_page_index (splitPrice x)" "level_index (res_address r) = pp_level_index (splitPrice x)" by fact+
  show "y = Applied" "books u L" "owner u (page_handle (res_address r)) = Some (loc, res_page_index r)"
    "prepared u = prepared s" "level u = level s" "owner s \<subseteq>\<^sub>m owner u"
    using b c t commit_fresh [OF i r ap] reserve_ready [OF i r ap]
    by (auto simp: books_def map_le_def split: if_splits)
qed

lemma books_reserve:
  assumes "books s L" "prepared s loc" "reserve s loc x = (r, t)" "\<not> price_reservation_valid r"
  shows "res_result r = PricePageCapacityExceeded" "books t L" "owner t = owner s" "prepared t = prepared s" "level t = level s"
  using reserve_result [OF books_aggregates(1) [OF assms(1)] assms(2,3)] reserve_keeps [OF books_aggregates(1) [OF assms(1)] assms(3)] assms(1,4)
  by (auto simp: books_def)

end

definition page_book :: "PriceLevelStore \<Rightarrow> PricePageHandle \<Rightarrow> (u16 \<times> u16) option" where
  "page_book s h = (if in_arena s h
     then Some (own_stock_locate (page_owners s h), own_page_index (page_owners s h)) else None)"

lemma page_book_same_arena: "same_arena s t \<Longrightarrow> page_book t = page_book s"
  by (auto simp: page_book_def fun_eq_iff same_arenaD)

lemma page_book_in_arena: "page_book s h \<noteq> None \<longleftrightarrow> in_arena s h"
  by (simp add: page_book_def)

lemma same_side_valid: "validSide sd \<Longrightarrow> validSide sd' \<Longrightarrow> same_side sd sd' \<longleftrightarrow> sd = sd'"
  by (auto simp: validSide_def same_side_def)

lemma addValidated_levels:
  assumes "validSide sd"
  shows "same_levels (levelUnchecked (addValidated s a sd q)) (level_put (levelUnchecked s) a sd (level_plus (levelUnchecked s a sd) q))"
  using same_side_valid [OF assms] by (auto simp: same_levels_def addValidated_level level_put_def level_plus_def)

lemma eraseValidated_levels:
  assumes "validSide sd"
  shows "same_levels (levelUnchecked (eraseValidated s a sd q plan)) (level_put (levelUnchecked s) a sd (level_minus (levelUnchecked s a sd) q))"
  using same_side_valid [OF assms] by (auto simp: same_levels_def eraseValidated_level level_put_def level_minus_def)

lemma set_level_levels:
  assumes "validSide sd"
  shows "same_levels (levelUnchecked (set_level s a sd v)) (level_put (levelUnchecked s) a sd v)"
  using same_side_valid [OF assms] by (auto simp: same_levels_def set_level_level level_put_def)

lemma pls_add_room:
  assumes inv: "store_inv s" and sd: "validSide sd" and h: "in_arena s (page_handle a)" and q: "q \<noteq> 0"
  shows "level_room (levelUnchecked s a sd) q \<Longrightarrow> pls_add s a sd q = (Applied, addValidated s a sd q)"
    "\<not> level_room (levelUnchecked s a sd) q \<Longrightarrow> pls_add s a sd q \<in> {(OrderCountOverflow, s), (QuantityOverflow, s)}"
  using validateAdd_decides [OF inv, of a sd q] sd h q
  by (auto simp: pls_add_def Let_def level_room_def not_le not_less)

lemma pls_erase_holds:
  assumes inv: "store_inv s" and sd: "validSide sd" and h: "in_arena s (page_handle a)" and q: "q \<noteq> 0"
    and l: "level_holds (levelUnchecked s a sd) q"
  obtains plan where "validateErase s a sd q = (Applied, plan)" "pls_erase s a sd q = (Applied, eraseValidated s a sd q plan)"
proof -
  have "fst (validateErase s a sd q) = Applied"
    using validateErase_decides [OF inv, of a sd q] sd h q l by (auto simp: level_holds_def Let_def not_less)
  then obtain plan where "validateErase s a sd q = (Applied, plan)" by (metis prod.collapse)
  then show ?thesis using that by (simp add: pls_erase_def)
qed

lemma pls_reduce_holds:
  assumes sd: "validSide sd" and h: "in_arena s (page_handle a)" and red: "red \<noteq> 0" "red < q"
    and l: "level_holds (levelUnchecked s a sd) q"
  shows "pls_reduce s a sd q red = (Applied, set_level s a sd
    ((levelUnchecked s a sd)\<lparr>total_qty := total_qty (levelUnchecked s a sd) - ucast red\<rparr>))"
proof -
  have "unat red < unat q" "unat q \<le> unat (total_qty (levelUnchecked s a sd))"
    using red(2) l by (auto simp: word_less_nat_alt level_holds_def word_le_nat_alt)
  then have "\<not> total_qty (levelUnchecked s a sd) \<le> ucast red" "q \<noteq> 0" "\<not> q \<le> red"
    "total_qty (levelUnchecked s a sd) \<noteq> 0" "\<not> total_qty (levelUnchecked s a sd) < ucast q"
    by (auto simp: word_le_nat_alt word_less_nat_alt)
  then show ?thesis using assms validateAddress_applied [of s a sd]
    by (auto simp: pls_reduce_def reduceLevel_def Let_def level_holds_def one_less_u32)
qed

lemma pls_move_holds:
  assumes inv: "store_inv s" and sd: "validSide sd" and a: "page_book s (page_handle a) = Some (loc, p)"
    and b: "page_book s (page_handle b) = Some (loc, p')" and q: "q \<noteq> 0" and r: "r \<noteq> 0"
    and l: "level_holds (levelUnchecked s a sd) q"
    and f: "f = level_put (levelUnchecked s) a sd (level_minus (levelUnchecked s a sd) q)"
  shows "level_room (f b sd) r \<Longrightarrow> \<exists>t. pls_move s a q b r sd = (Applied, t) \<and> same_arena s t \<and>
        same_levels (levelUnchecked t) (level_put f b sd (level_plus (f b sd) r))"
    "\<not> level_room (f b sd) r \<Longrightarrow> pls_move s a q b r sd \<in> {(OrderCountOverflow, s), (QuantityOverflow, s)}"
proof -
  have ar: "in_arena s (page_handle a)" "in_arena s (page_handle b)" using a b by (auto simp: page_book_def split: if_splits)
  have ow: "own_stock_locate (page_owners s (page_handle a)) = own_stock_locate (page_owners s (page_handle b))"
    using a b ar by (simp add: page_book_def)
  obtain plan where v: "validateErase s a sd q = (Applied, plan)"
    by (rule pls_erase_holds [OF inv sd ar(1) q l])
  have eq: "page_handle a = page_handle b \<and> level_index a = level_index b \<longleftrightarrow> a = b"
    by (cases a; cases b) auto
  have m: "pls_move s a q b r sd =
     (if a = b then
        (let level = levelUnchecked s a sd; without_old = total_qty level - ucast q
         in if without_old > u64_max - ucast r then (QuantityOverflow, s)
            else (Applied, set_level s a sd (level\<lparr>total_qty := without_old + ucast r\<rparr>)))
      else let d = validateAdd s b sd r
        in if d \<noteq> Applied then (d, s) else (Applied, addValidated (eraseValidated s a sd q plan) b sd r))"
    using ow r v ar owner_page(3) [OF inv ar(1)] owner_page(3) [OF inv ar(2)]
    by (simp add: pls_move_def eq pls_owner_in_arena)
  have dec: "order_count (levelUnchecked s a sd) - 1 \<noteq> u32_max" if "order_count (levelUnchecked s a sd) \<noteq> 0"
  proof -
    have "unat (order_count (levelUnchecked s a sd) - 1) < 4294967295"
      using unat_dec_checked [OF that] unsigned_less [of "order_count (levelUnchecked s a sd)", where 'a=nat] that
      by (simp add: unat_gt_0 [symmetric])
    then show ?thesis by (auto simp only: unat_numeral) simp
  qed
  note add = validateAdd_decides [OF inv, of b sd r]
  note eraseValidated_levels [OF sd, of s a q plan, folded f]
  then have fb: "levelUnchecked (eraseValidated s a sd q plan) b sd = f b sd" using sd by (simp add: same_levels_def)
  show "\<exists>t. pls_move s a q b r sd = (Applied, t) \<and> same_arena s t \<and>
        same_levels (levelUnchecked t) (level_put f b sd (level_plus (f b sd) r))" if room: "level_room (f b sd) r"
  proof (cases "a = b")
    case True
    then have "pls_move s a q b r sd = (Applied, set_level s a sd ((levelUnchecked s a sd)\<lparr>total_qty := total_qty (levelUnchecked s a sd) - ucast q + ucast r\<rparr>))"
      unfolding m using room by (simp add: Let_def f level_put_def level_room_def level_minus_def not_less)
    moreover have "level_put f b sd (level_plus (f b sd) r) =
        level_put (levelUnchecked s) a sd ((levelUnchecked s a sd)\<lparr>total_qty := total_qty (levelUnchecked s a sd) - ucast q + ucast r\<rparr>)"
      using True by (auto simp: f level_put_def level_plus_def level_minus_def fun_eq_iff)
    ultimately show ?thesis using set_level_levels [OF sd] by auto
  next
    case False
    then have "f b sd = levelUnchecked s b sd" by (simp add: f level_put_def)
    then have "pls_move s a q b r sd = (Applied, addValidated (eraseValidated s a sd q plan) b sd r)"
      using room add False sd ar r by (auto simp: m Let_def level_room_def not_le)
    moreover have "same_levels (levelUnchecked (addValidated (eraseValidated s a sd q plan) b sd r)) (level_put f b sd (level_plus (f b sd) r))"
      using addValidated_levels [OF sd, of "eraseValidated s a sd q plan" b r] eraseValidated_levels [OF sd, of s a q plan, folded f] sd
      by (auto simp: same_levels_def fb level_put_def)
    ultimately show ?thesis by auto
  qed
  show "pls_move s a q b r sd \<in> {(OrderCountOverflow, s), (QuantityOverflow, s)}" if full: "\<not> level_room (f b sd) r"
  proof (cases "a = b")
    case True
    then show ?thesis unfolding m using full dec l
      by (auto simp: Let_def f level_put_def level_room_def level_minus_def not_le level_holds_def)
  next
    case False
    then have "f b sd = levelUnchecked s b sd" by (simp add: f level_put_def)
    then show ?thesis unfolding m using False full add sd ar r by (auto simp: Let_def level_room_def not_le)
  qed
qed

interpretation pl: price_ledger store_inv levelUnchecked page_book pls_add pls_reduce pls_erase pls_move
proof
  fix s sd and a :: PriceAddress and q assume i: "store_inv s" and sd: "validSide sd" and h: "page_book s (page_handle a) \<noteq> None" and q: "q \<noteq> (0 :: u32)"
  note h' = h [unfolded page_book_in_arena]
  show "\<exists>t. pls_add s a sd q = (Applied, t) \<and> store_inv t \<and> page_book t = page_book s \<and>
      same_levels (levelUnchecked t) (level_put (levelUnchecked s) a sd (level_plus (levelUnchecked s a sd) q))"
    if "level_room (levelUnchecked s a sd) q"
    using pls_add_room(1) [OF i sd h' q that] store_inv_pls_add [OF i] addValidated_levels [OF sd]
    by (auto simp: page_book_same_arena)
  show "pls_add s a sd q \<in> {(OrderCountOverflow, s), (QuantityOverflow, s)}" if "\<not> level_room (levelUnchecked s a sd) q"
    by (rule pls_add_room(2) [OF i sd h' q that])
  show "\<exists>t. pls_erase s a sd q = (Applied, t) \<and> store_inv t \<and> page_book t = page_book s \<and>
      same_levels (levelUnchecked t) (level_put (levelUnchecked s) a sd (level_minus (levelUnchecked s a sd) q))"
    if "level_holds (levelUnchecked s a sd) q"
    by (rule pls_erase_holds [OF i sd h' q that])
       (use store_inv_pls_erase [OF i] eraseValidated_levels [OF sd] in \<open>auto simp: page_book_same_arena\<close>)
next
  fix s sd and a :: PriceAddress and red q assume i: "store_inv s" and sd: "validSide sd" and h: "page_book s (page_handle a) \<noteq> None"
    and red: "red \<noteq> 0" "red < q" and l: "level_holds (levelUnchecked s a sd) q"
  note r = pls_reduce_holds [OF sd h [unfolded page_book_in_arena] red l]
  show "\<exists>t. pls_reduce s a sd q red = (Applied, t) \<and> store_inv t \<and> page_book t = page_book s \<and>
      same_levels (levelUnchecked t) (level_put (levelUnchecked s) a sd
        ((levelUnchecked s a sd)\<lparr>total_qty := total_qty (levelUnchecked s a sd) - ucast red\<rparr>))"
    using r store_inv_reduce(1) [OF i r] set_level_levels [OF sd] by (auto simp: page_book_same_arena)
next
  fix s sd and a b :: PriceAddress and loc p p' and q r :: u32 and f assume *: "store_inv s" "validSide sd" "page_book s (page_handle a) = Some (loc, p)"
    "page_book s (page_handle b) = Some (loc, p')" "q \<noteq> 0" "r \<noteq> 0" "level_holds (levelUnchecked s a sd) q"
    "f = level_put (levelUnchecked s) a sd (level_minus (levelUnchecked s a sd) q)"
  show "\<exists>t. pls_move s a q b r sd = (Applied, t) \<and> store_inv t \<and> page_book t = page_book s \<and>
      same_levels (levelUnchecked t) (level_put f b sd (level_plus (f b sd) r))" if "level_room (f b sd) r"
    using pls_move_holds(1) [OF * that] store_inv_pls_move [OF *(1)] page_book_same_arena by blast
  show "pls_move s a q b r sd \<in> {(OrderCountOverflow, s), (QuantityOverflow, s)}" if "\<not> level_room (f b sd) r"
    by (rule pls_move_holds(2) [OF * that])
qed

lemma reduceChecked_owned:
  assumes inv: "store_inv s" and "page_book s (page_handle a) = Some (loc, p)"
  shows "reduceChecked s loc p a sd q red = pls_reduce s a sd q red"
proof -
  have h: "in_arena s (page_handle a)" and o: "own_stock_locate (page_owners s (page_handle a)) = loc"
    "own_page_index (page_owners s (page_handle a)) = p" using assms(2) by (auto simp: page_book_def split: if_splits)
  then show ?thesis using owner_page(2,3) [OF inv h] by (simp add: reduceChecked_def pls_reduce_def Let_def isBookPrepared_def)
qed

lemma ownsAddress_page_book:
  assumes inv: "store_inv s" and v: "isValidStockLocate loc"
  shows "ownsAddress s loc p a \<longleftrightarrow> page_book s (page_handle a) = Some (loc, p)"
proof (cases "in_arena s (page_handle a)")
  case True
  then show ?thesis using owner_page(3) [OF inv True] v by (auto simp: ownsAddress_def pls_owner_in_arena page_book_def)
next
  case False
  then have "pls_owner s (page_handle a) = None" by (auto simp: pls_owner_def in_arena_def kInvalidPricePageHandle_def)
  then show ?thesis using False by (simp add: ownsAddress_def page_book_def)
qed

lemma commit_fresh_page:
  assumes i: "store_inv s" and r: "reservePrice s loc x = (r, t)" and ap: "res_result r = Applied" and c: "res_requires_commit r"
  shows "\<exists>u. commitReservation s r = (Applied, u) \<and> page_book s (page_handle (res_address r)) = None \<and>
        page_book u = (page_book s)(page_handle (res_address r) \<mapsto> (loc, res_page_index r)) \<and>
        levelUnchecked u = levelUnchecked s \<and> isBookPrepared u = isBookPrepared s"
proof -
  note ra = reservePrice_applied [OF i r ap]
  let ?h = "committed_pages s + 1"
  from ra(8) [OF c] have root: "hdl s loc (res_page_index r) = 0" and lt: "committed_pages s < page_capacity (pls_config s)"
    and h: "page_handle (res_address r) = ?h" and e: "res_expected_committed_pages r = committed_pages s" by auto
  have "committed_pages s \<noteq> u32_max" using lt unsigned_less [of "page_capacity (pls_config s)", where 'a=nat]
    by (auto simp: word_less_nat_alt)
  note uh = unat_inc_checked [OF this]
  have le: "y \<le> ?h \<longleftrightarrow> y = ?h \<or> y \<le> committed_pages s" for y
    using uh by (auto simp: word_le_nat_alt word_unat_eq_iff)
  have gt: "committed_pages s < ?h" "?h \<noteq> 0" "?h \<le> page_capacity (pls_config s)"
    using uh lt by (auto simp: word_less_nat_alt word_le_nat_alt)
  have fresh: "own_committed (page_owners s ?h) = 0" using i gt(1) by (simp add: store_inv_def arena_inv_def)
  define u where "u = s\<lparr>page_owners := (page_owners s)(?h :=
              \<lparr>own_stock_locate = loc, own_page_index = res_page_index r, own_committed = 1\<rparr>),
           committed_pages := ?h, roots := (roots s)(priceRootIndex loc (res_page_index r) := ?h)\<rparr>"
  have "commitReservation s r = (Applied, u)"
    using ra(2-4) c root h e gt fresh ap prepared_valid [OF ra(2)]
    by (simp add: commitReservation_def Let_def hdl_def kInvalidPricePageHandle_def address_valid_def u_def not_less)
  moreover have "page_book s ?h = None" using gt by (simp add: page_book_def in_arena_def)
  moreover have "page_book u = (page_book s)(?h \<mapsto> (loc, res_page_index r))"
    using gt le by (auto simp: page_book_def u_def in_arena_def fun_eq_iff)
  moreover have "levelUnchecked u = levelUnchecked s" "isBookPrepared u = isBookPrepared s"
    by (auto simp: u_def levelUnchecked_def isBookPrepared_def fun_eq_iff Let_def)
  ultimately show ?thesis using h by simp
qed

interpretation ps: price_store store_inv levelUnchecked page_book pls_add pls_reduce pls_erase pls_move
  isBookPrepared reservePrice commitReservation
proof
  fix s loc x r t assume i: "store_inv s" and r: "reservePrice s loc x = (r, t)"
  show "store_inv t \<and> page_book t = page_book s \<and> levelUnchecked t = levelUnchecked s \<and> isBookPrepared t = isBookPrepared s"
    using store_inv_reservePrice [OF i r] reservePrice_store [OF r]
    by (auto simp: page_book_def in_arena_def levelUnchecked_def isBookPrepared_def fun_eq_iff Let_def)
  show "res_result r = PricePageCapacityExceeded \<or> res_result r = Applied \<and> t = s \<and> price_reservation_valid r \<and>
        res_page_index r = pp_page_index (splitPrice x) \<and> level_index (res_address r) = pp_level_index (splitPrice x)"
    if "isBookPrepared s loc"
    using reservePrice_decides [OF i, of loc x] reservePrice_applied(1,4,5,6) [OF i r] that prepared_valid [OF that]
    unfolding r fst_conv by metis
  assume ap: "res_result r = Applied"
  note ra = reservePrice_applied [OF i r ap]
  show "page_book s (page_handle (res_address r)) = Some (loc, res_page_index r)" if "\<not> res_requires_commit r"
    using ra(7) [OF that] hdl_in_arena [OF i, of loc "res_page_index r"] by (auto simp: page_book_def)
  show "\<exists>u. commitReservation s r = (Applied, u) \<and> store_inv u \<and> page_book s (page_handle (res_address r)) = None \<and>
        page_book u = (page_book s)(page_handle (res_address r) \<mapsto> (loc, res_page_index r)) \<and>
        levelUnchecked u = levelUnchecked s \<and> isBookPrepared u = isBookPrepared s" if c: "res_requires_commit r"
  proof -
    show ?thesis using commit_fresh_page [OF i r ap c] store_inv_commitReservation [OF i] by blast
  qed
qed

end
