(* ===== verification/OrderTableIndex.thy ===== *)
theory OrderTableIndex
  imports OrderTable
begin

text \<open>
  The order table as an index: \<open>live_state\<close> is the map from references to live states it represents and
  \<open>seen_refs\<close> the references it has ever accepted. \<open>table_inv\<close> says that an occupied fallback entry sits in
  a candidate bucket of its reference and that no reference occupies two entries. The locale
  \<open>order_index\<close> is the contract the order book relies on, interpreted on the operations of the table.
\<close>

section \<open>Probe loops\<close>

lemma observed_loop_find:
  "fst (observed_loop t r f obs slots) =
     map_option (\<lambda>(_, b, w). InFallback b w) (List.find (\<lambda>(_, b, w). slotHolds t r b w) slots)"
  by (induction t r f obs slots rule: observed_loop.induct) (auto simp: Let_def)

lemma observed_loop_count:
  "snd (observed_loop t r Suc n slots) \<le> n + length slots"
proof (induction slots arbitrary: n)
  case (Cons a slots)
  obtain p b w where "a = (p, b, w)" by (cases a)
  then show ?case using Cons.IH [of "Suc n"] by (simp add: Let_def)
qed simp

lemma find_loop_find:
  "find_loop t r slots =
     (case List.find (\<lambda>(_, b, w). slotHolds t r b w) slots of
        None \<Rightarrow> \<lparr>look_result = OrderNotFound, look_path = Miss, look_state = None\<rparr>
      | Some (p, b, w) \<Rightarrow> \<lparr>look_result = Applied, look_path = p, look_state = Some (InFallback b w)\<rparr>)"
  by (induction t r slots rule: find_loop.induct) auto

lemma fallbackSlots_length: "length (fallbackSlots t r) \<le> kMaxFallbackSlotsExamined"
  by (simp add: fallbackSlots_def kMaxFallbackSlotsExamined_def kFallbackWays_def kFallbackCandidateBuckets_def case_prod_beta)

lemma fallbackSlots_mem:
  "(p, b, w) \<in> set (fallbackSlots t r) \<longleftrightarrow>
     (w = 0 \<or> w = 1) \<and>
     (p = FallbackPrimary \<and> b = fst (fallbackCandidateBuckets t r) \<or>
      p = FallbackSecondary \<and> b = snd (fallbackCandidateBuckets t r) \<and>
        fst (fallbackCandidateBuckets t r) \<noteq> snd (fallbackCandidateBuckets t r))"
  by (auto simp: fallbackSlots_def case_prod_beta)

text \<open>A bucket is a candidate of at most one of the two searches.\<close>

lemma candidate_path: "(p, b, w) \<in> set (fallbackSlots t r) \<Longrightarrow> (p', b, w') \<in> set (fallbackSlots t r) \<Longrightarrow> p = p'"
  by (auto simp: fallbackSlots_mem)

lemma candidate_buckets_bound:
  assumes "fallback_bucket_count (ot_config t) \<noteq> 0" and "(p, b, w) \<in> set (fallbackSlots t r)"
  shows "b < fallback_bucket_count (ot_config t)"
proof -
  let ?n = "fallback_bucket_count (ot_config t)"
  have "x AND (?n - 1) \<le> ?n - 1" for x by (rule word_and_le1)
  moreover have "?n - 1 < ?n" using assms(1) unat_gt_0 [of ?n] by (simp add: word_less_nat_alt unat_minus_one)
  ultimately have "x AND (?n - 1) < ?n" for x by (rule order_le_less_trans)
  then show ?thesis using assms(2) by (auto simp: fallbackSlots_mem fallbackCandidateBuckets_def Let_def)
qed

section \<open>Abstraction and invariant\<close>

text \<open>The occupied fallback entries, and the references a table has seen.\<close>

definition entry_seen :: "OrderTable \<Rightarrow> u32 \<Rightarrow> u8 \<Rightarrow> bool" where
  "entry_seen t b w = wasSeen (fe_state (fallback t b w))"

definition seen_refs :: "OrderTable \<Rightarrow> u64 set" where
  "seen_refs t = {r. if r < direct_slots (ot_config t) then wasSeen (direct t r)
                     else \<exists>b w. entry_seen t b w \<and> fe_order_ref (fallback t b w) = r}"

definition live_state :: "OrderTable \<Rightarrow> u64 \<Rightarrow> OrderState option" where
  "live_state t r = map_option (loadState t) (findState t r)"

definition active_seen :: "OrderState \<Rightarrow> bool" where
  "active_seen st \<longleftrightarrow> (isActive st \<longrightarrow> wasSeen st)"

definition table_inv :: "OrderTable \<Rightarrow> bool" where
  "table_inv t \<longleftrightarrow> direct_slots (ot_config t) \<noteq> 0 \<and> fallback_bucket_count (ot_config t) \<noteq> 0 \<and>
     (\<forall>r. active_seen (direct t r)) \<and>
     (\<forall>b w. active_seen (fe_state (fallback t b w))) \<and>
     (\<forall>b w. entry_seen t b w \<longrightarrow> direct_slots (ot_config t) \<le> fe_order_ref (fallback t b w) \<and>
        (\<exists>p. (p, b, w) \<in> set (fallbackSlots t (fe_order_ref (fallback t b w))))) \<and>
     (\<forall>b w b' w'. entry_seen t b w \<longrightarrow> entry_seen t b' w' \<longrightarrow>
        fe_order_ref (fallback t b w) = fe_order_ref (fallback t b' w') \<longrightarrow> b = b' \<and> w = w')"

lemma table_inv_unique:
  assumes "table_inv t" "entry_seen t b w" "entry_seen t b' w'" "fe_order_ref (fallback t b w) = fe_order_ref (fallback t b' w')"
  shows "b = b' \<and> w = w'"
  using assms unfolding table_inv_def by blast

lemma slotHolds_seen: "table_inv t \<Longrightarrow> slotHolds t r b w \<Longrightarrow> entry_seen t b w \<and> fe_order_ref (fallback t b w) = r"
  by (simp add: table_inv_def slotHolds_def entry_seen_def active_seen_def)

text \<open>Where an active reference is stored: the lookup finds exactly that place.\<close>

lemma findFallbackState_iff:
  assumes inv: "table_inv t"
  shows "findFallbackState t r = Some l \<longleftrightarrow> (\<exists>b w. l = InFallback b w \<and> slotHolds t r b w)"
proof -
  have f: "findFallbackState t r =
     map_option (\<lambda>(_, b, w). InFallback b w) (List.find (\<lambda>(_, b, w). slotHolds t r b w) (fallbackSlots t r))"
    by (simp add: findFallbackState_def findFallbackStateObserved_def observed_loop_find)
  show ?thesis
  proof
    assume "findFallbackState t r = Some l"
    then show "\<exists>b w. l = InFallback b w \<and> slotHolds t r b w" by (auto simp: f find_Some_iff)
  next
    assume "\<exists>b w. l = InFallback b w \<and> slotHolds t r b w"
    then obtain b w where l: "l = InFallback b w" "slotHolds t r b w" by blast
    note s = slotHolds_seen [OF inv l(2)]
    then obtain p where "(p, b, w) \<in> set (fallbackSlots t r)" using inv unfolding table_inv_def by blast
    then obtain p' b' w' where *: "List.find (\<lambda>(_, b, w). slotHolds t r b w) (fallbackSlots t r) = Some (p', b', w')"
      using l(2) by (cases "List.find (\<lambda>(_, b, w). slotHolds t r b w) (fallbackSlots t r)") (auto simp: find_None_iff)
    then have "slotHolds t r b' w'" by (auto simp: find_Some_iff)
    from slotHolds_seen [OF inv this] s table_inv_unique [OF inv, of b w b' w'] have "b' = b" "w' = w" by auto
    then show "findFallbackState t r = Some l" by (simp add: f * l)
  qed
qed

lemma findState_iff:
  assumes inv: "table_inv t"
  shows "findState t r = Some l \<longleftrightarrow>
    (if r < direct_slots (ot_config t) then l = InDirect r \<and> isActive (direct t r)
     else \<exists>b w. l = InFallback b w \<and> slotHolds t r b w)"
  using findFallbackState_iff [OF inv] by (auto simp: findState_def not_le)

lemma live_seen:
  assumes inv: "table_inv t" and "findState t r = Some l"
  shows "r \<in> seen_refs t" "isActive (loadState t l)"
  using assms(2) inv slotHolds_seen [OF inv, of r] unfolding findState_iff [OF inv]
  by (auto simp: seen_refs_def loadState_def slotHolds_def table_inv_def active_seen_def split: if_splits)

lemma findState_inj:
  assumes inv: "table_inv t" and "findState t r = Some l" "findState t r' = Some l"
  shows "r' = r"
  using assms(2,3) unfolding findState_iff [OF inv] by (auto simp: slotHolds_def split: if_splits)

section \<open>Writing through a state pointer\<close>

lemma loadState_store: "loadState (storeState t l v) l' = (if l' = l then v else loadState t l')"
  by (auto simp: loadState_def storeState_def split: StateLoc.splits)

lemma storeState_frame:
  "ot_config (storeState t l v) = ot_config t" "fallbackSlots (storeState t l v) = fallbackSlots t"
  "fe_order_ref (fallback (storeState t l v) b w) = fe_order_ref (fallback t b w)"
proof -
  show *: "ot_config (storeState t l v) = ot_config t" by (cases l) (simp_all add: storeState_def)
  show "fallbackSlots (storeState t l v) = fallbackSlots t"
    by (simp add: fun_eq_iff fallbackSlots_def fallbackCandidateBuckets_def *)
  show "fe_order_ref (fallback (storeState t l v) b w) = fe_order_ref (fallback t b w)"
    by (cases l) (simp_all add: storeState_def)
qed

lemma store_reads:
  "direct (storeState t l v) i = (if l = InDirect i then v else direct t i)"
  "fe_state (fallback (storeState t l v) b w) = (if l = InFallback b w then v else fe_state (fallback t b w))"
  by (cases l; auto simp: storeState_def)+

text \<open>A store that keeps the seen bit of the state it overwrites.\<close>

lemma store_keeps_seen:
  assumes inv: "table_inv t" and v: "wasSeen v" "wasSeen (loadState t l)"
  shows "table_inv (storeState t l v)" "seen_refs (storeState t l v) = seen_refs t"
proof -
  have e: "entry_seen (storeState t l v) b w = entry_seen t b w" for b w
    using v by (auto simp: entry_seen_def store_reads loadState_def)
  show "table_inv (storeState t l v)"
    using inv v unfolding table_inv_def e storeState_frame by (simp add: store_reads active_seen_def)
  have "wasSeen (direct (storeState t l v) i) = wasSeen (direct t i)" for i
    using v by (auto simp: store_reads loadState_def)
  then show "seen_refs (storeState t l v) = seen_refs t"
    by (simp add: seen_refs_def e storeState_frame)
qed

lemma findState_store:
  assumes inv: "table_inv t" and l: "findState t r = Some l" and v: "wasSeen v"
  shows "findState (storeState t l v) r' = (if r' = r \<and> \<not> isActive v then None else findState t r')"
proof -
  note ls = live_seen [OF inv l]
  have ws: "wasSeen (loadState t l)" using inv ls(2) by (cases l) (auto simp: table_inv_def loadState_def active_seen_def)
  note inv' = store_keeps_seen(1) [OF inv v ws]
  have h: "slotHolds (storeState t l v) r' b w = (slotHolds t r' b w \<and> (l = InFallback b w \<longrightarrow> isActive v))" for b w
  proof (cases "l = InFallback b w")
    case True
    then have "isActive (fe_state (fallback t b w))" using ls(2) by (simp add: loadState_def)
    then show ?thesis using True by (auto simp: slotHolds_def store_reads storeState_frame)
  qed (simp add: slotHolds_def store_reads storeState_frame)
  have d: "isActive (direct (storeState t l v) r') = (isActive (direct t r') \<and> (l = InDirect r' \<longrightarrow> isActive v))"
    using ls(2) by (auto simp: store_reads loadState_def)
  have "findState (storeState t l v) r' = Some m \<longleftrightarrow> (findState t r' = Some m \<and> (l = m \<longrightarrow> isActive v))" for m
    unfolding findState_iff [OF inv] findState_iff [OF inv'] storeState_frame h d
    by (cases "r' < direct_slots (ot_config t)"; cases m) auto
  moreover have "findState t r' = Some m \<Longrightarrow> l = m \<longleftrightarrow> r' = r" for m
    using findState_inj [OF inv l, of r'] l by auto
  ultimately have "findState (storeState t l v) r' = Some m \<longleftrightarrow> (findState t r' = Some m \<and> \<not> (r' = r \<and> \<not> isActive v))" for m
    by blast
  then have "findState (storeState t l v) r' = (if \<not> (r' = r \<and> \<not> isActive v) then findState t r' else None)"
    by (rule option_filter_eq)
  then show ?thesis by simp
qed

section \<open>Reserving and committing\<close>

lemma reserve_loop_spec:
  "reserve_loop t r fe slots =
    (case List.find (\<lambda>(_, b, w). entry_seen t b w \<and> fe_order_ref (fallback t b w) = r) slots of
       Some (p, b, w) \<Rightarrow> \<lparr>slot_result = DuplicateOrderRef, slot_path = p, slot_order_ref = r, slot_bucket = b, slot_way = w\<rparr>
     | None \<Rightarrow> if slot_valid fe then fe
         else case List.find (\<lambda>(_, b, w). \<not> entry_seen t b w) slots of
           Some (p, b, w) \<Rightarrow> \<lparr>slot_result = Applied, slot_path = p, slot_order_ref = r, slot_bucket = b, slot_way = w\<rparr>
         | None \<Rightarrow> fe)"
proof (induction slots arbitrary: fe)
  case (Cons x slots)
  obtain p b w where x: "x = (p, b, w)" by (cases x)
  show ?case
  proof (cases "entry_seen t b w")
    case True
    then show ?thesis using Cons.IH [of fe] by (simp add: x entry_seen_def cong: option.case_cong)
  next
    case False
    then show ?thesis
      using Cons.IH [of "\<lparr>slot_result = Applied, slot_path = p, slot_order_ref = r, slot_bucket = b, slot_way = w\<rparr>"] Cons.IH [of fe]
      by (simp add: x entry_seen_def slot_valid_def cong: option.case_cong)
  qed
qed simp

lemma reserve_fallback:
  assumes inv: "table_inv t" and r: "\<not> r < direct_slots (ot_config t)"
  obtains (dup) "slot_result (ot_reserve t r) = DuplicateOrderRef" "r \<in> seen_refs t"
  | (full) "slot_result (ot_reserve t r) = OrderTableCapacityExceeded" "r \<notin> seen_refs t"
      "\<And>p b w. (p, b, w) \<in> set (fallbackSlots t r) \<Longrightarrow> entry_seen t b w"
  | (free) p b w where "ot_reserve t r = \<lparr>slot_result = Applied, slot_path = p, slot_order_ref = r, slot_bucket = b, slot_way = w\<rparr>"
      "(p, b, w) \<in> set (fallbackSlots t r)" "\<not> entry_seen t b w" "r \<notin> seen_refs t"
proof -
  let ?dup = "List.find (\<lambda>(_, b, w). entry_seen t b w \<and> fe_order_ref (fallback t b w) = r) (fallbackSlots t r)"
  let ?free = "List.find (\<lambda>(_, b, w). \<not> entry_seen t b w) (fallbackSlots t r)"
  have seen: "r \<in> seen_refs t \<longleftrightarrow> (\<exists>b w. entry_seen t b w \<and> fe_order_ref (fallback t b w) = r)"
    using r by (simp add: seen_refs_def)
  show ?thesis
  proof (cases ?dup)
    case (Some x)
    then have "r \<in> seen_refs t" unfolding seen by (auto simp: find_Some_iff)
    then show ?thesis using dup Some r by (cases x) (auto simp: ot_reserve_def reserve_loop_spec)
  next
    case None
    have ns: "r \<notin> seen_refs t"
    proof
      assume "r \<in> seen_refs t"
      then obtain b w where bw: "entry_seen t b w" "fe_order_ref (fallback t b w) = r" unfolding seen by blast
      then obtain p where "(p, b, w) \<in> set (fallbackSlots t r)" using inv unfolding table_inv_def by blast
      then show False using None bw by (auto simp: find_None_iff)
    qed
    show ?thesis
    proof (cases ?free)
      case f: None
      have "slot_result (ot_reserve t r) = OrderTableCapacityExceeded"
        using r by (simp add: ot_reserve_def reserve_loop_spec slot_valid_def None f)
      then show ?thesis using full ns f by (auto simp: find_None_iff)
    next
      case (Some x)
      obtain p b w where "x = (p, b, w)" by (cases x)
      then have "(p, b, w) \<in> set (fallbackSlots t r)" "\<not> entry_seen t b w"
        using Some by (auto simp: find_Some_iff intro: nth_mem) (metis nth_mem)
      then show ?thesis using free ns None r Some \<open>x = _\<close> by (simp add: ot_reserve_def reserve_loop_spec slot_valid_def)
    qed
  qed
qed

definition committed_state :: "OrderState \<Rightarrow> OrderState" where
  "committed_state st = st\<lparr>os_flags := os_flags st OR kOrderStateActive OR kOrderStateSeen\<rparr>"

lemma committed_flags [simp]: "isActive (committed_state st)" "wasSeen (committed_state st)"
proof -
  have "bit (os_flags (committed_state st) AND kOrderStateActive) 0" "bit (os_flags (committed_state st) AND kOrderStateSeen) 1"
    by (simp_all add: committed_state_def kOrderStateActive_def kOrderStateSeen_def bit_simps)
  then show "isActive (committed_state st)" "wasSeen (committed_state st)"
    unfolding isActive_def wasSeen_def by (metis bit_0_eq bot_apply bot_bool_def)+
qed

lemma erased_flags [simp]:
  "\<not> isActive (zeroOrderState\<lparr>os_flags := kOrderStateSeen\<rparr>)" "wasSeen (zeroOrderState\<lparr>os_flags := kOrderStateSeen\<rparr>)"
  "\<not> isActive zeroOrderState" "\<not> wasSeen zeroOrderState"
  by (simp_all add: isActive_def wasSeen_def kOrderStateSeen_def kOrderStateActive_def zeroOrderState_def)

text \<open>The table with a state placed at a location and, in the fallback table, its reference.\<close>

definition place :: "OrderTable \<Rightarrow> u64 \<Rightarrow> StateLoc \<Rightarrow> OrderState \<Rightarrow> OrderTable" where
  "place t r l v =
     (case l of InDirect i \<Rightarrow> t\<lparr>direct := (direct t)(i := v)\<rparr>
      | InFallback b w \<Rightarrow> t\<lparr>fallback := (fallback t)(b := (fallback t b)(w := \<lparr>fe_state = v, fe_order_ref = r\<rparr>))\<rparr>)"

definition vacant :: "OrderTable \<Rightarrow> u64 \<Rightarrow> StateLoc \<Rightarrow> bool" where
  "vacant t r l \<longleftrightarrow> r \<notin> seen_refs t \<and>
     (if r < direct_slots (ot_config t) then l = InDirect r
      else \<exists>p b w. l = InFallback b w \<and> (p, b, w) \<in> set (fallbackSlots t r) \<and> \<not> entry_seen t b w)"

lemma reserve_commit:
  assumes inv: "table_inv t" and v: "slot_valid (ot_reserve t r)"
  obtains l where "vacant t r l" "ot_commit t (ot_reserve t r) st = (Applied, place t r l (committed_state st))"
proof (cases "r < direct_slots (ot_config t)")
  case True
  then have "\<not> wasSeen (direct t r)" using v by (auto simp: ot_reserve_def slot_valid_def split: if_splits)
  then show ?thesis using that [of "InDirect r"] True
    by (simp add: vacant_def seen_refs_def ot_commit_def ot_reserve_def slot_valid_def place_def committed_state_def Let_def)
next
  case False
  with inv show ?thesis
  proof (cases rule: reserve_fallback)
    case (free p b w)
    have "b < fallback_bucket_count (ot_config t)" using inv candidate_buckets_bound [OF _ free(2)] by (simp add: table_inv_def)
    moreover have "unat w < kFallbackWays" using free(2) by (auto simp: fallbackSlots_mem kFallbackWays_def)
    ultimately have "ot_commit t (ot_reserve t r) st = (Applied, place t r (InFallback b w) (committed_state st))"
      using free False unfolding ot_commit_def free(1)
      by (auto simp: slot_valid_def fallbackSlots_mem case_prod_beta Let_def not_le entry_seen_def place_def committed_state_def)
    then show ?thesis using that [of "InFallback b w"] free False by (auto simp: vacant_def)
  qed (use v in \<open>simp_all add: slot_valid_def\<close>)
qed

lemma place_frame:
  "ot_config (place t r l v) = ot_config t" "fallbackSlots (place t r l v) = fallbackSlots t"
proof -
  show *: "ot_config (place t r l v) = ot_config t" by (cases l) (simp_all add: place_def)
  show "fallbackSlots (place t r l v) = fallbackSlots t"
    by (simp add: fun_eq_iff fallbackSlots_def fallbackCandidateBuckets_def *)
qed

lemma place_reads:
  "direct (place t r l v) i = (if l = InDirect i then v else direct t i)"
  "fe_state (fallback (place t r l v) b w) = (if l = InFallback b w then v else fe_state (fallback t b w))"
  "fe_order_ref (fallback (place t r l v) b w) = (if l = InFallback b w then r else fe_order_ref (fallback t b w))"
  "loadState (place t r l v) l' = (if l' = l then v else loadState t l')"
  by (cases l; auto simp: place_def loadState_def split: StateLoc.splits)+

lemma entry_seen_place: "entry_seen (place t r l v) b w = (if l = InFallback b w then wasSeen v else entry_seen t b w)"
  by (simp add: entry_seen_def place_reads)

lemma place_inv:
  assumes inv: "table_inv t" and vac: "vacant t r l" and v: "wasSeen v"
  shows "table_inv (place t r l v)" "seen_refs (place t r l v) = insert r (seen_refs t)"
proof -
  show "seen_refs (place t r l v) = insert r (seen_refs t)"
  proof (cases "r < direct_slots (ot_config t)")
    case True
    then have l: "l = InDirect r" using vac by (simp add: vacant_def)
    then show ?thesis using v True by (auto simp: seen_refs_def place_frame place_reads entry_seen_place)
  next
    case False
    then obtain b w where l: "l = InFallback b w" "\<not> entry_seen t b w" using vac by (auto simp: vacant_def)
    have "x \<in> seen_refs (place t r l v) \<longleftrightarrow> x \<in> insert r (seen_refs t)" for x
      using False v l by (auto simp: seen_refs_def place_frame place_reads entry_seen_place split: if_splits)
    then show ?thesis by blast
  qed
  show "table_inv (place t r l v)"
  proof (cases "r < direct_slots (ot_config t)")
    case True
    then have l: "l = InDirect r" using vac by (simp add: vacant_def)
    then show ?thesis using inv v
      unfolding table_inv_def place_frame place_reads entry_seen_place by (simp add: active_seen_def)
  next
    case False
    then obtain p b w where l: "l = InFallback b w" "(p, b, w) \<in> set (fallbackSlots t r)" "r \<notin> seen_refs t"
      using vac by (auto simp: vacant_def)
    then have n: "entry_seen t b' w' \<Longrightarrow> fe_order_ref (fallback t b' w') \<noteq> r" for b' w'
      using False by (auto simp: seen_refs_def)
    show ?thesis using inv v l False n
      unfolding table_inv_def place_frame place_reads entry_seen_place l(1) StateLoc.inject
      by (auto simp: active_seen_def not_less)
  qed
qed

lemma entry_seen_ref: "table_inv t \<Longrightarrow> entry_seen t b w \<Longrightarrow> fe_order_ref (fallback t b w) \<in> seen_refs t"
  unfolding table_inv_def seen_refs_def by (auto simp: not_less [symmetric])

lemma findState_place:
  assumes inv: "table_inv t" and vac: "vacant t r l" and v: "wasSeen v" "isActive v"
  shows "findState (place t r l v) r' = (if r' = r then Some l else findState t r')"
proof -
  note inv' = place_inv(1) [OF inv vac v(1)]
  have old: "findState t r' = Some m \<Longrightarrow> r' \<noteq> r" for m using live_seen(1) [OF inv] vac by (auto simp: vacant_def)
  have "findState (place t r l v) r' = Some m \<longleftrightarrow> (if r' = r then m = l else findState t r' = Some m)" for m
  proof (cases "r' < direct_slots (ot_config t)")
    case True
    then show ?thesis using vac v unfolding findState_iff [OF inv] findState_iff [OF inv'] place_frame
      by (auto simp: place_reads vacant_def split: if_splits)
  next
    case False
    have "slotHolds (place t r l v) r' b w \<longleftrightarrow> (if l = InFallback b w then r' = r else slotHolds t r' b w)" for b w
      using v by (auto simp: slotHolds_def place_reads)
    moreover have "\<not> slotHolds t r b w" for b w
      using slotHolds_seen [OF inv, of r b w] entry_seen_ref [OF inv, of b w] vac by (auto simp: vacant_def)
    moreover have "l = InFallback b w \<Longrightarrow> \<not> slotHolds t r' b w" for b w
      using slotHolds_seen [OF inv, of r' b w] vac by (auto simp: vacant_def split: if_splits)
    ultimately show ?thesis using False vac unfolding findState_iff [OF inv] findState_iff [OF inv'] place_frame
      by (cases m) (auto simp: vacant_def split: if_splits)
  qed
  then show ?thesis by (intro option_ext) auto
qed

section \<open>The contract of an order index\<close>

locale order_index =
  fixes inv :: "'s \<Rightarrow> bool"
    and live :: "'s \<Rightarrow> u64 \<Rightarrow> OrderState option"
    and seen :: "'s \<Rightarrow> u64 set"
    and find :: "'s \<Rightarrow> u64 \<Rightarrow> 'p option"
    and load :: "'s \<Rightarrow> 'p \<Rightarrow> OrderState"
    and store :: "'s \<Rightarrow> 'p \<Rightarrow> OrderState \<Rightarrow> 's"
    and reserve :: "'s \<Rightarrow> u64 \<Rightarrow> OrderSlotReservation"
    and commit :: "'s \<Rightarrow> OrderSlotReservation \<Rightarrow> OrderState \<Rightarrow> MutationResult \<times> 's"
    and erase :: "'s \<Rightarrow> 'p option \<Rightarrow> MutationResult \<times> 's"
  assumes live_find: "inv s \<Longrightarrow> live s r = map_option (load s) (find s r)"
    and find_seen: "inv s \<Longrightarrow> find s r = Some p \<Longrightarrow> r \<in> seen s \<and> isActive (load s p)"
    and reserve_result: "inv s \<Longrightarrow>
      slot_result (reserve s r) \<in> {Applied, DuplicateOrderRef, OrderTableCapacityExceeded} \<and>
      (slot_result (reserve s r) = DuplicateOrderRef \<longleftrightarrow> r \<in> seen s)"
    and commit_reserved: "inv s \<Longrightarrow> slot_valid (reserve s r) \<Longrightarrow>
      \<exists>t p. commit s (reserve s r) st = (Applied, t) \<and> inv t \<and> seen t = insert r (seen s) \<and>
        find t = (find s)(r \<mapsto> p) \<and> live t = (live s)(r \<mapsto> committed_state st)"
    and erase_found: "inv s \<Longrightarrow> find s r = Some p \<Longrightarrow>
      \<exists>t. erase s (Some p) = (Applied, t) \<and> inv t \<and> seen t = seen s \<and>
        find t = (find s)(r := None) \<and> live t = (live s)(r := None)"
    and store_found: "inv s \<Longrightarrow> find s r = Some p \<Longrightarrow> os_flags v = os_flags (load s p) \<Longrightarrow>
      inv (store s p v) \<and> seen (store s p v) = seen s \<and> find (store s p v) = find s \<and>
      live (store s p v) = (live s)(r \<mapsto> v)"
begin

lemma reserve_fresh: "inv s \<Longrightarrow> slot_valid (reserve s r) \<Longrightarrow> r \<notin> seen s \<and> live s r = None"
  using reserve_result [of s r] find_seen [of s r] live_find [of s r] by (cases "find s r") (auto simp: slot_valid_def)

lemma found_live: "inv s \<Longrightarrow> find s r = Some p \<Longrightarrow> live s r = Some (load s p)"
  by (simp add: live_find)

text \<open>Publishing a new reference and retiring an old one through the pointer taken before.\<close>

lemma replace_reference:
  assumes inv: "inv s" and old: "find s r = Some p" and new: "slot_valid (reserve s r')"
    and c: "commit s (reserve s r') st = (x, t)" and e: "erase t (Some p) = (y, u)"
  shows "x = Applied" "y = Applied" "inv t" "inv u" "seen u = insert r' (seen s)" "r' \<noteq> r"
    "live t = (live s)(r' \<mapsto> committed_state st)" "seen t = insert r' (seen s)"
    "live u = (live s)(r' \<mapsto> committed_state st, r := None)"
proof -
  have ne: "r' \<noteq> r" using reserve_fresh [OF inv new] find_seen [OF inv old] by auto
  obtain q where t: "x = Applied" "inv t" "seen t = insert r' (seen s)" "find t = (find s)(r' \<mapsto> q)"
      "live t = (live s)(r' \<mapsto> committed_state st)"
    using commit_reserved [OF inv new, of st] c by auto
  have "find t r = Some p" using t(4) ne old by simp
  from erase_found [OF t(2) this] e show "x = Applied" "y = Applied" "inv t" "inv u" "seen u = insert r' (seen s)" "r' \<noteq> r"
    "live t = (live s)(r' \<mapsto> committed_state st)" "seen t = insert r' (seen s)"
    "live u = (live s)(r' \<mapsto> committed_state st, r := None)" using t ne by auto
qed

end

lemma storeState_flags_live:
  assumes inv: "table_inv t" and l: "findState t r = Some l" and f: "os_flags v = os_flags (loadState t l)"
  shows "isActive v" "wasSeen v" "wasSeen (loadState t l)"
proof -
  have "isActive (loadState t l)" by (rule live_seen [OF inv l])
  moreover have "active_seen (loadState t l)" using inv by (cases l) (auto simp: table_inv_def loadState_def)
  ultimately show "isActive v" "wasSeen v" "wasSeen (loadState t l)" using f by (auto simp: active_seen_def isActive_def wasSeen_def)
qed

lemma live_state_store:
  assumes inv: "table_inv t" and l: "findState t r = Some l" and v: "wasSeen v"
  shows "live_state (storeState t l v) = (live_state t)(r := (if isActive v then Some v else None))"
proof
  fix r'
  show "live_state (storeState t l v) r' = ((live_state t)(r := (if isActive v then Some v else None))) r'"
    using findState_store [OF inv l v, of r'] findState_inj [OF inv l, of r'] l
    by (cases "findState t r'") (auto simp: live_state_def loadState_store)
qed

lemma live_state_place:
  assumes inv: "table_inv t" and vac: "vacant t r l" and v: "wasSeen v" "isActive v"
  shows "live_state (place t r l v) = (live_state t)(r \<mapsto> v)"
proof
  fix r'
  have "findState t r' \<noteq> Some l"
  proof
    assume f: "findState t r' = Some l"
    then have "r' \<in> seen_refs t" by (rule live_seen [OF inv])
    then show False using f vac unfolding findState_iff [OF inv] vacant_def
      by (auto dest: slotHolds_seen [OF inv] split: if_splits)
  qed
  then show "live_state (place t r l v) r' = ((live_state t)(r \<mapsto> v)) r'"
    using findState_place [OF inv vac v, of r'] by (cases "findState t r'") (auto simp: live_state_def place_reads)
qed

interpretation ot: order_index table_inv live_state seen_refs findState loadState storeState ot_reserve ot_commit ot_erase
proof
  fix t r assume inv: "table_inv t"
  show "live_state t r = map_option (loadState t) (findState t r)" by (simp add: live_state_def)
  show "slot_result (ot_reserve t r) \<in> {Applied, DuplicateOrderRef, OrderTableCapacityExceeded} \<and>
      (slot_result (ot_reserve t r) = DuplicateOrderRef \<longleftrightarrow> r \<in> seen_refs t)"
  proof (cases "r < direct_slots (ot_config t)")
    case False
    with inv show ?thesis by (cases rule: reserve_fallback) auto
  qed (simp add: ot_reserve_def seen_refs_def)
  show "r \<in> seen_refs t \<and> isActive (loadState t p)" if "findState t r = Some p" for p
    using live_seen [OF inv that] by blast
  show "\<exists>u p. ot_commit t (ot_reserve t r) st = (Applied, u) \<and> table_inv u \<and> seen_refs u = insert r (seen_refs t) \<and>
        findState u = (findState t)(r \<mapsto> p) \<and> live_state u = (live_state t)(r \<mapsto> committed_state st)"
    if v: "slot_valid (ot_reserve t r)" for st
  proof (rule reserve_commit [OF inv v])
    fix l assume vac: "vacant t r l" and c: "ot_commit t (ot_reserve t r) st = (Applied, place t r l (committed_state st))"
    have "findState (place t r l (committed_state st)) = (findState t)(r \<mapsto> l)"
      by (rule ext) (simp add: findState_place [OF inv vac])
    then show ?thesis using c place_inv [OF inv vac] live_state_place [OF inv vac] by auto
  qed
  show "\<exists>u. ot_erase t (Some p) = (Applied, u) \<and> table_inv u \<and> seen_refs u = seen_refs t \<and>
        findState u = (findState t)(r := None) \<and> live_state u = (live_state t)(r := None)"
    if f: "findState t r = Some p" for p
    using live_seen(2) [OF inv f] store_keeps_seen [OF inv _ storeState_flags_live(3) [OF inv f refl]]
      findState_store [OF inv f] live_state_store [OF inv f]
    by (auto simp: ot_erase_def fun_eq_iff)
  show "table_inv (storeState t p v) \<and> seen_refs (storeState t p v) = seen_refs t \<and>
      findState (storeState t p v) = findState t \<and> live_state (storeState t p v) = (live_state t)(r \<mapsto> v)"
    if f: "findState t r = Some p" and fl: "os_flags v = os_flags (loadState t p)" for p v
    using storeState_flags_live [OF inv f fl] store_keeps_seen [OF inv]
      findState_store [OF inv f] live_state_store [OF inv f]
    by (auto simp: fun_eq_iff)
qed

lemma table_inv_new: "newOrderTable config = Some t \<Longrightarrow> table_inv t \<and> seen_refs t = {} \<and> live_state t = Map.empty"
proof -
  assume "newOrderTable config = Some t"
  then have t: "t = \<lparr>ot_config = config, direct = (\<lambda>_. zeroOrderState), fallback = (\<lambda>_ _. zeroEntry)\<rparr>"
    and c: "direct_slots config \<noteq> 0" "fallback_bucket_count config \<noteq> 0"
    by (auto simp: newOrderTable_def validateTableConfig_def split: if_splits)
  have inv: "table_inv t" using c by (simp add: t table_inv_def active_seen_def entry_seen_def zeroEntry_def)
  moreover have "seen_refs t = {}" by (auto simp: seen_refs_def t entry_seen_def zeroEntry_def)
  moreover have "findState t r = None" for r
    using calculation live_seen(1) [OF inv, of r] by (cases "findState t r") auto
  ultimately show ?thesis by (auto simp: live_state_def fun_eq_iff)
qed

section \<open>Runs of the table\<close>

text \<open>One step of a table as the books drive it: a reference is reserved and committed, a live state is
  overwritten in place with its flags kept, or a live state is erased.\<close>

inductive table_step :: "OrderTable \<Rightarrow> OrderTable \<Rightarrow> bool" where
  table_commit: "ot_commit t (ot_reserve t r) st = (x, u) \<Longrightarrow> table_step t u"
| table_store: "findState t r = Some l \<Longrightarrow> os_flags v = os_flags (loadState t l) \<Longrightarrow> table_step t (storeState t l v)"
| table_erase: "ot_eraseRef t r = (x, u) \<Longrightarrow> table_step t u"

inductive_cases table_stepE: "table_step t u"

lemma table_step_keeps:
  assumes inv: "table_inv t" and "table_step t u"
  shows "table_inv u" "seen_refs t \<subseteq> seen_refs u"
proof -
  from assms(2) have "table_inv u \<and> seen_refs t \<subseteq> seen_refs u"
  proof cases
    case (table_commit r st x)
    then show ?thesis using ot.commit_reserved [OF inv, of r st] inv
      by (cases "slot_valid (ot_reserve t r)") (auto simp: ot_commit_def)
  next
    case (table_store r l v)
    then show ?thesis using ot.store_found [OF inv] by auto
  next
    case (table_erase r x)
    then show ?thesis using ot.erase_found [OF inv, of r] inv
      by (cases "findState t r") (auto simp: ot_eraseRef_def ot_erase_def)
  qed
  then show "table_inv u" "seen_refs t \<subseteq> seen_refs u" by simp_all
qed

lemma table_steps_keep:
  "table_step\<^sup>*\<^sup>* t u \<Longrightarrow> table_inv t \<Longrightarrow> table_inv u \<and> seen_refs t \<subseteq> seen_refs u"
  by (induction rule: rtranclp_induct) (auto dest: table_step_keeps)

section \<open>Properties\<close>

definition demo_table_config :: OrderTableConfig where
  "demo_table_config = \<lparr>direct_slots = 4, fallback_bucket_count = 2, ot_prefault = False\<rparr>"

definition demo_table :: OrderTable where
  "demo_table = the (newOrderTable demo_table_config)"

definition demo_table1 :: OrderTable where
  "demo_table1 = snd (ot_commit demo_table (ot_reserve demo_table 3) zeroOrderState)"

lemma demo_table: "newOrderTable demo_table_config = Some demo_table"
  by (simp add: demo_table_def newOrderTable_def validateTableConfig_def demo_table_config_def)

lemma demo_table_inv: "table_inv demo_table" "seen_refs demo_table = {}"
  using table_inv_new [OF demo_table] by auto

lemma demo_reserve_valid: "slot_valid (ot_reserve demo_table 3)"
  by (simp add: demo_table_def newOrderTable_def validateTableConfig_def demo_table_config_def ot_reserve_def slot_valid_def)

lemma demo_table1: "table_inv demo_table1" "3 \<in> seen_refs demo_table1" "table_step\<^sup>*\<^sup>* demo_table demo_table1"
proof -
  show "table_inv demo_table1" "3 \<in> seen_refs demo_table1"
    using ot.commit_reserved [OF demo_table_inv(1) demo_reserve_valid, of zeroOrderState] by (auto simp: demo_table1_def)
  show "table_step\<^sup>*\<^sup>* demo_table demo_table1"
    unfolding demo_table1_def by (rule r_into_rtranclp) (rule table_commit [OF prod.collapse [symmetric]])
qed

text \<open>Adding a reference to a consistent table: it is refused as a duplicate exactly when it was seen
  before, refused for capacity only when it has no direct slot and all its candidate entries are taken, and
  otherwise committing the reservation succeeds, makes the state findable under this reference and
  changes no other reference.\<close>

theorem order_table_insert:
  assumes "table_inv t"
  shows "(slot_result (ot_reserve t r) = DuplicateOrderRef \<longleftrightarrow> r \<in> seen_refs t) \<and>
    (slot_result (ot_reserve t r) = OrderTableCapacityExceeded \<longrightarrow> direct_slots (ot_config t) \<le> r \<and>
       (\<forall>(p, b, w) \<in> set (fallbackSlots t r). wasSeen (fe_state (fallback t b w)))) \<and>
    (slot_result (ot_reserve t r) \<notin> {DuplicateOrderRef, OrderTableCapacityExceeded} \<longrightarrow>
       (\<exists>u. ot_commit t (ot_reserve t r) st = (Applied, u) \<and> table_inv u \<and>
          seen_refs u = insert r (seen_refs t) \<and> live_state u = (live_state t)(r \<mapsto> committed_state st)))"
proof -
  have "direct_slots (ot_config t) \<le> r \<and> (\<forall>(p, b, w) \<in> set (fallbackSlots t r). wasSeen (fe_state (fallback t b w)))"
    if c: "slot_result (ot_reserve t r) = OrderTableCapacityExceeded"
  proof -
    have r: "\<not> r < direct_slots (ot_config t)" using c by (auto simp: ot_reserve_def split: if_splits)
    with assms show ?thesis by (cases rule: reserve_fallback) (use c r in \<open>auto simp: entry_seen_def not_less\<close>)
  qed
  then show ?thesis using ot.reserve_result [OF assms, of r] ot.commit_reserved [OF assms, of r st] by (auto simp: slot_valid_def)
qed

theorem order_table_insert_witness:
  "(slot_result (ot_reserve demo_table1 3) = DuplicateOrderRef) \<and>
   (\<exists>u. ot_commit demo_table (ot_reserve demo_table 3) zeroOrderState = (Applied, u) \<and> seen_refs u = {3})"
  using order_table_insert [OF demo_table1(1), of 3] order_table_insert [OF demo_table_inv(1), of 3 zeroOrderState]
    demo_table1(2) demo_table_inv(2) demo_reserve_valid by (auto simp: slot_valid_def)

text \<open>Order references are unique for the session: once a reference has been committed, no later
  sequence of commits, in-place updates and erases makes the table accept it again.\<close>

theorem order_refs_day_unique:
  assumes "table_inv t" and "r \<in> seen_refs t" and "table_step\<^sup>*\<^sup>* t u"
  shows "slot_result (ot_reserve u r) = DuplicateOrderRef"
  using table_steps_keep [OF assms(3,1)] assms(2) ot.reserve_result [of u r] by auto

theorem order_refs_day_unique_witness:
  "slot_result (ot_reserve (snd (ot_eraseRef demo_table1 3)) 3) = DuplicateOrderRef"
  by (rule order_refs_day_unique [OF demo_table1(1,2)])
     (rule r_into_rtranclp, rule table_erase [OF prod.collapse [symmetric]])

text \<open>The two lookups agree: \<open>findState\<close>, the hot path without diagnostics, returns the state that \<open>find\<close>
  reports, whatever observer counts the probes, and a fallback lookup examines at most four slots.\<close>

theorem lookups_agree_and_bounded:
  "look_state (ot_find t r) = findState t r \<and> (look_found (ot_find t r) \<longleftrightarrow> findState t r \<noteq> None) \<and>
   fst (findFallbackStateObserved t r f obs) = findFallbackState t r \<and>
   snd (findFallbackStateObserved t r Suc 0) \<le> kMaxFallbackSlotsExamined \<and> kMaxFallbackSlotsExamined = 4"
proof -
  have "snd (findFallbackStateObserved t r Suc 0) \<le> kMaxFallbackSlotsExamined"
    using observed_loop_count [of t r 0 "fallbackSlots t r"] fallbackSlots_length [of t r]
    by (simp add: findFallbackStateObserved_def)
  then show ?thesis
    by (auto simp: ot_find_def findState_def find_loop_find findFallbackState_def findFallbackStateObserved_def observed_loop_find
        look_found_def kMaxFallbackSlotsExamined_def kFallbackWays_def kFallbackCandidateBuckets_def not_le split: option.splits)
qed

end
