(* ===== verification/OrderBookInv.thy ===== *)
theory OrderBookInv
  imports PriceLedger OrderTableIndex OrderBook
begin

text \<open>
  The two stores of a book taken together. \<open>stores_inv\<close> says that the table is well formed, that every
  live order carries a page its book owns, and that the price levels aggregate exactly the live orders
  (the \<open>books\<close> of the interface of the price store). \<open>book_orders\<close> abstracts the stores to the map of live
  orders; the specifications of cancel, delete and execute over that map, and the proofs that the
  book's operations refine them, are here.
\<close>

section \<open>The ledger of live orders\<close>

definition entry_of :: "OrderState \<Rightarrow> ledger_entry" where
  "entry_of v = (addressOf v, decodeSideByte (os_side v), os_qty v)"

definition ledger :: "(u64 \<rightharpoonup> OrderState) \<Rightarrow> ledger_entry multiset" where
  "ledger m = image_mset (\<lambda>r. entry_of (the (m r))) (mset_set (dom m))"

lemma ledger_remove: "m r = Some v \<Longrightarrow> ledger m = add_mset (entry_of v) (ledger (m(r := None)))"
proof -
  assume m: "m r = Some v"
  then have d: "dom m = insert r (dom (m(r := None)))" by auto
  have "mset_set (dom m) = add_mset r (mset_set (dom (m(r := None))))"
    by (subst d) (rule mset_set.insert, simp_all)
  then have "ledger m = add_mset (entry_of v) (image_mset (\<lambda>r'. entry_of (the (m r'))) (mset_set (dom (m(r := None)))))"
    using m by (simp add: ledger_def)
  also have "image_mset (\<lambda>r'. entry_of (the (m r'))) (mset_set (dom (m(r := None)))) = ledger (m(r := None))"
    unfolding ledger_def by (rule image_mset_cong) auto
  finally show ?thesis .
qed

lemma ledger_insert: "m r = None \<Longrightarrow> ledger (m(r \<mapsto> v)) = add_mset (entry_of v) (ledger m)"
  using ledger_remove [of "m(r \<mapsto> v)" r v] by (simp add: fun_upd_idem)

lemma ledger_update: "m r = Some v \<Longrightarrow> ledger (m(r \<mapsto> v')) = add_mset (entry_of v') (ledger (m(r := None)))"
  using ledger_remove [of "m(r \<mapsto> v')" r v'] by simp

lemma ledger_member: "e \<in># ledger m \<longleftrightarrow> (\<exists>r v. m r = Some v \<and> e = entry_of v)"
  by (force simp: ledger_def dom_def)

lemma entry_of_committed [simp]: "entry_of (committed_state v) = entry_of v"
  by (simp add: entry_of_def committed_state_def addressOf_def)

lemma size_ledger: "size (ledger m) = card (dom m)"
  by (simp add: ledger_def)

section \<open>Consistency of the stores\<close>

definition stores_inv :: "Stores \<Rightarrow> bool" where
  "stores_inv st \<longleftrightarrow> table_inv (orders st) \<and> pl.books (prices st) (ledger (live_state (orders st))) \<and>
     (\<forall>r v. live_state (orders st) r = Some v \<longrightarrow>
        page_book (prices st) (os_price_page_handle v) = Some (os_locate v, os_price_page_index v))"

text \<open>What a consistent store says of a live order.\<close>

lemma stores_inv_live:
  assumes inv: "stores_inv st" and v: "live_state (orders st) r = Some v"
  shows "validSide (decodeSideByte (os_side v))" "os_qty v \<noteq> 0" "os_price_page_handle v \<noteq> 0"
    "decodeSideByte (os_side v) \<noteq> NoSide"
    "page_book (prices st) (os_price_page_handle v) = Some (os_locate v, os_price_page_index v)"
    "store_inv (prices st)" "isValidStockLocate (os_locate v)" "isBookPrepared (prices st) (os_locate v)"
    "address_valid (addressOf v)"
    "pl.books (prices st) (add_mset (addressOf v, decodeSideByte (os_side v), os_qty v) (ledger ((live_state (orders st))(r := None))))"
proof -
  have b: "pl.books (prices st) (ledger (live_state (orders st)))" using inv by (simp add: stores_inv_def)
  then show i: "store_inv (prices st)" by (rule pl.books_aggregates)
  show *: "pl.books (prices st) (add_mset (addressOf v, decodeSideByte (os_side v), os_qty v) (ledger ((live_state (orders st))(r := None))))"
    using b ledger_remove [of "live_state (orders st)" r v, OF v] by (simp add: entry_of_def)
  note m = aggregates_member [OF pl.books_aggregates(2) [OF *]]
  show "validSide (decodeSideByte (os_side v))" "os_qty v \<noteq> 0" by (rule m)+
  then show "decodeSideByte (os_side v) \<noteq> NoSide" by (auto simp: validSide_def)
  show pb: "page_book (prices st) (os_price_page_handle v) = Some (os_locate v, os_price_page_index v)"
    using inv v by (simp add: stores_inv_def)
  then have h: "in_arena (prices st) (os_price_page_handle v)"
    and o: "own_stock_locate (page_owners (prices st) (os_price_page_handle v)) = os_locate v"
    by (auto simp: page_book_def split: if_splits)
  show "os_price_page_handle v \<noteq> 0" using h by (simp add: in_arena_def)
  then show "address_valid (addressOf v)" by (simp add: address_valid_def addressOf_def kInvalidPricePageHandle_def)
  show p: "isBookPrepared (prices st) (os_locate v)" using owner_page(2) [OF i h] o by simp
  then show "isValidStockLocate (os_locate v)" by (rule prepared_valid)
qed

lemma found_is_live:
  assumes "stores_inv st" "findState (orders st) r = Some l"
  shows "live_state (orders st) r = Some (loadState (orders st) l)"
  using assms by (simp add: live_state_def)

text \<open>The lookup step of the mutations of an existing order rejects only what is not this book's order.\<close>

lemma validateState_decides:
  assumes inv: "stores_inv st"
  shows "validateState b st (findState (orders st) r) =
    (case live_state (orders st) r of None \<Rightarrow> reject b OrderNotFound
     | Some v \<Rightarrow> if os_locate v \<noteq> ob_stock_locate b then reject b LocateMismatch else (Applied, b))"
proof (cases "findState (orders st) r")
  case None
  then show ?thesis by (simp add: validateState_def live_state_def)
next
  case (Some l)
  note f = stores_inv_live [OF inv found_is_live [OF inv Some]]
  have "ownsAddress (prices st) (os_locate (loadState (orders st) l)) (os_price_page_index (loadState (orders st) l)) (addressOf (loadState (orders st) l))"
    using ownsAddress_page_book [OF f(6,7)] f(5) by (simp add: addressOf_def)
  then show ?thesis using f(2-4) Some by (auto simp: validateState_def live_state_def Let_def kInvalidPricePageHandle_def)
qed

text \<open>A store whose pages only grow keeps the owners of live orders.\<close>

lemma stores_invI:
  assumes "table_inv t" "pl.books s (ledger (live_state t))"
    "\<And>r v. live_state t r = Some v \<Longrightarrow> page_book s (os_price_page_handle v) = Some (os_locate v, os_price_page_index v)"
  shows "stores_inv \<lparr>orders = t, prices = s\<rparr>"
  using assms by (simp add: stores_inv_def)

definition reject_kind :: "MutationResult \<Rightarrow> bool" where
  "reject_kind r \<longleftrightarrow> r \<in> {QuantityOverflow, QuantityUnderflow, InvalidPricePage, MissingPriceLevel, StaleReservation,
     InvariantViolation, BookInvalid}"

lemma reject_simps [simp]:
  "fst (reject b r) = r" "ob_stock_locate (snd (reject b r)) = ob_stock_locate b"
  "live_order_count (snd (reject b r)) = live_order_count b"
  "latest_update_timestamp (snd (reject b r)) = latest_update_timestamp b"
  "ob_symbol_id (snd (reject b r)) = ob_symbol_id b"
  "local_invalid (snd (reject b r)) \<longleftrightarrow> local_invalid b \<or> reject_kind r"
  by (auto simp: reject_def reject_kind_def Let_def)

lemma rejected_simps: "rejected b st r = (r, snd (reject b r), st)"
  by (simp add: rejected_def case_prod_beta)

section \<open>Removing and reducing a live order\<close>

lemma stores_inv_erase:
  assumes inv: "stores_inv st" and f: "findState (orders st) r = Some l"
    and v: "v = loadState (orders st) l"
    and e: "pls_erase (prices st) (addressOf v) (decodeSideByte (os_side v)) (os_qty v) = (x, s')"
    and o: "ot_erase (orders st) (Some l) = (y, t')"
  shows "x = Applied" "y = Applied" "stores_inv \<lparr>orders = t', prices = s'\<rparr>"
    "live_state t' = (live_state (orders st))(r := None)" "seen_refs t' = seen_refs (orders st)"
    "isBookPrepared s' = isBookPrepared (prices st)"
proof -
  have ti: "table_inv (orders st)" using inv by (simp add: stores_inv_def)
  note lv = found_is_live [OF inv f, folded v]
  note b = stores_inv_live(10) [OF inv lv]
  note pe = pl.books_erase [OF b e]
  obtain u where u: "ot_erase (orders st) (Some l) = (Applied, u)" "table_inv u" "seen_refs u = seen_refs (orders st)"
      "live_state u = (live_state (orders st))(r := None)" using ot.erase_found [OF ti f] by blast
  then show "x = Applied" "y = Applied" "live_state t' = (live_state (orders st))(r := None)"
    "seen_refs t' = seen_refs (orders st)" using o pe by auto
  have "t' = u" using u o by simp
  then show "stores_inv \<lparr>orders = t', prices = s'\<rparr>"
    using u pe inv by (intro stores_invI) (auto simp: stores_inv_def split: if_splits)
  have "same_arena (prices st) s'"
    using e by (auto simp: pls_erase_def Let_def split: if_splits prod.splits)
  then show "isBookPrepared s' = isBookPrepared (prices st)" by (rule same_arenaD)
qed

lemma same_arena_reduce: "reduceChecked s loc p a sd q red = (x, t) \<Longrightarrow> same_arena s t"
  by (auto simp: reduceChecked_def reduceLevel_def Let_def split: if_splits)

lemma stores_inv_reduce:
  assumes inv: "stores_inv st" and f: "findState (orders st) r = Some l"
    and v: "v = loadState (orders st) l" and red: "red \<noteq> 0" "red < os_qty v"
    and e: "reduceChecked (prices st) (os_locate v) (os_price_page_index v) (addressOf v) (decodeSideByte (os_side v)) (os_qty v) red = (x, s')"
    and t': "t' = storeState (orders st) l (v\<lparr>os_qty := os_qty v - red\<rparr>)"
  shows "x = Applied" "stores_inv \<lparr>orders = t', prices = s'\<rparr>"
    "live_state t' = (live_state (orders st))(r \<mapsto> v\<lparr>os_qty := os_qty v - red\<rparr>)" "seen_refs t' = seen_refs (orders st)"
    "isBookPrepared s' = isBookPrepared (prices st)"
proof -
  have ti: "table_inv (orders st)" using inv by (simp add: stores_inv_def)
  note lv = found_is_live [OF inv f, folded v]
  note L = stores_inv_live [OF inv lv]
  have pb: "page_book (prices st) (page_handle (addressOf v)) = Some (os_locate v, os_price_page_index v)"
    using L(5) by (simp add: addressOf_def)
  have e': "pls_reduce (prices st) (addressOf v) (decodeSideByte (os_side v)) (os_qty v) red = (x, s')"
    using e reduceChecked_owned [OF L(6) pb] by simp
  note pr = pl.books_reduce [OF L(10) e' red]
  have fl: "os_flags (v\<lparr>os_qty := os_qty v - red\<rparr>) = os_flags (loadState (orders st) l)" by (simp add: v)
  note os = ot.store_found [OF ti f fl, folded t']
  show "x = Applied" by (rule pr)
  show ls: "live_state t' = (live_state (orders st))(r \<mapsto> v\<lparr>os_qty := os_qty v - red\<rparr>)" "seen_refs t' = seen_refs (orders st)"
    using os by auto
  have "ledger (live_state t') = add_mset (addressOf v, decodeSideByte (os_side v), os_qty v - red) (ledger ((live_state (orders st))(r := None)))"
    unfolding ls ledger_update [of "live_state (orders st)" r v, OF lv] by (simp add: entry_of_def addressOf_def)
  then show "stores_inv \<lparr>orders = t', prices = s'\<rparr>"
    using os pr(2,3) inv L(5) by (intro stores_invI) (auto simp: stores_inv_def split: if_splits)
  show "isBookPrepared s' = isBookPrepared (prices st)" by (rule same_arenaD [OF same_arena_reduce [OF e]])
qed

section \<open>Abstract orders\<close>

record Order =
  o_locate :: u16
  o_side :: OrderSide
  o_price :: u32
  o_qty :: u32

definition abs_order :: "OrderState \<Rightarrow> Order" where
  "abs_order v = \<lparr>o_locate = os_locate v, o_side = decodeSideByte (os_side v),
     o_price = joinPrice (os_price_page_index v) (os_price_level_index v), o_qty = os_qty v\<rparr>"

definition book_orders :: "Stores \<Rightarrow> u64 \<rightharpoonup> Order" where
  "book_orders st r = map_option abs_order (live_state (orders st) r)"

definition refs_seen :: "Stores \<Rightarrow> u64 set" where "refs_seen st = seen_refs (orders st)"

text \<open>A call that leaves orders, references and prepared books alone.\<close>

definition unchanged :: "Stores \<Rightarrow> Stores \<Rightarrow> bool" where
  "unchanged st st' \<longleftrightarrow> stores_inv st' \<and> book_orders st' = book_orders st \<and> refs_seen st' = refs_seen st \<and>
     isBookPrepared (prices st') = isBookPrepared (prices st)"

lemma unchanged_refl [simp]: "stores_inv st \<Longrightarrow> unchanged st st" by (simp add: unchanged_def)

lemma book_orders_None: "book_orders st r = None \<longleftrightarrow> live_state (orders st) r = None"
  by (simp add: book_orders_def)

lemma book_orders_Some: "book_orders st r = Some w \<longleftrightarrow> (\<exists>v. live_state (orders st) r = Some v \<and> w = abs_order v)"
  by (auto simp: book_orders_def)

lemma book_orders_upd:
  "live_state (orders st') = (live_state (orders st))(r := x) \<Longrightarrow> book_orders st' = (book_orders st)(r := map_option abs_order x)"
  by (auto simp: book_orders_def fun_eq_iff)

section \<open>The abstract book\<close>

text \<open>What the mutations of one book promise, over the map of live orders of all books.\<close>

definition spec_cancel :: "u16 \<Rightarrow> (u64 \<rightharpoonup> Order) \<Rightarrow> u64 \<Rightarrow> u32 \<Rightarrow> MutationResult \<times> (u64 \<rightharpoonup> Order)" where
  "spec_cancel loc m r n =
     (if n = 0 then (InvalidQuantity, m)
      else case m r of None \<Rightarrow> (OrderNotFound, m)
      | Some w \<Rightarrow> if o_locate w \<noteq> loc then (LocateMismatch, m)
                  else if n \<ge> o_qty w then (QuantityExceeded, m)
                  else (Applied, m(r \<mapsto> w\<lparr>o_qty := o_qty w - n\<rparr>)))"

definition spec_delete :: "u16 \<Rightarrow> (u64 \<rightharpoonup> Order) \<Rightarrow> u64 \<Rightarrow> MutationResult \<times> (u64 \<rightharpoonup> Order)" where
  "spec_delete loc m r =
     (case m r of None \<Rightarrow> (OrderNotFound, m)
      | Some w \<Rightarrow> if o_locate w \<noteq> loc then (LocateMismatch, m) else (Applied, m(r := None)))"

definition spec_execute :: "u16 \<Rightarrow> (u64 \<rightharpoonup> Order) \<Rightarrow> u64 \<Rightarrow> u32 \<Rightarrow> MutationResult \<times> (u64 \<rightharpoonup> Order)" where
  "spec_execute loc m r n =
     (if n = 0 then (InvalidQuantity, m)
      else case m r of None \<Rightarrow> (OrderNotFound, m)
      | Some w \<Rightarrow> if o_locate w \<noteq> loc then (LocateMismatch, m)
                  else if n > o_qty w then (QuantityExceeded, m)
                  else (Applied, if n = o_qty w then m(r := None) else m(r \<mapsto> w\<lparr>o_qty := o_qty w - n\<rparr>)))"

text \<open>A call refines a specified result: the stores stay consistent, no reference and no book is
  prepared or seen anew, and the book carries the timestamp on success and only the bookkeeping of
  \<open>reject\<close> otherwise.\<close>

definition book_after :: "OrderBook \<Rightarrow> (u64 \<rightharpoonup> Order) \<Rightarrow> (u64 \<rightharpoonup> Order) \<Rightarrow> MutationResult \<Rightarrow> u64 \<Rightarrow> OrderBook" where
  "book_after b m m' x ts =
     (if x = Applied
      then b\<lparr>live_order_count := live_order_count b + of_nat (card (dom m')) - of_nat (card (dom m)),
             latest_update_timestamp := ts\<rparr>
      else snd (reject b x))"

definition refines_spec ::
    "OrderBook \<Rightarrow> Stores \<Rightarrow> u64 \<Rightarrow> BookResult \<Rightarrow> MutationResult \<times> (u64 \<rightharpoonup> Order) \<Rightarrow> bool" where
  "refines_spec b st ts res spec \<longleftrightarrow>
     (case res of (x, b', st') \<Rightarrow> (x, book_orders st') = spec \<and> stores_inv st' \<and>
        refs_seen st' = refs_seen st \<and> isBookPrepared (prices st') = isBookPrepared (prices st) \<and>
        b' = book_after b (book_orders st) (book_orders st') x ts)"

lemma refines_rejected:
  "stores_inv st \<Longrightarrow> x \<noteq> Applied \<Longrightarrow> refines_spec b st ts (rejected b st x) (x, book_orders st)"
  by (simp add: refines_spec_def rejected_simps book_after_def)

lemma card_dom_update: "m r = Some w \<Longrightarrow> card (dom (m(r \<mapsto> w'))) = card (dom m)"
  by (simp add: insert_absorb domI)

lemma card_dom_remove: "(m :: u64 \<rightharpoonup> Order) r = Some w \<Longrightarrow> of_nat (card (dom (m(r := None)))) - of_nat (card (dom m)) = (-1 :: u64)"
proof -
  assume m: "m r = Some w"
  then have "card (dom m) = Suc (card (dom (m(r := None))))"
    using card_Suc_Diff1 [of "dom m" r] by (simp add: domI)
  then show ?thesis by simp
qed

lemma refines_reduce:
  assumes inv: "stores_inv st" and f: "findState (orders st) r = Some l"
    and v: "v = loadState (orders st) l" and red: "red \<noteq> 0" "red < os_qty v"
    and e: "reduceChecked (prices st) (os_locate v) (os_price_page_index v) (addressOf v) (decodeSideByte (os_side v)) (os_qty v) red = (x, s')"
  shows "refines_spec b st ts (Applied, b\<lparr>latest_update_timestamp := ts\<rparr>,
      \<lparr>orders = storeState (orders st) l (v\<lparr>os_qty := os_qty v - red\<rparr>), prices = s'\<rparr>)
    (Applied, (book_orders st)(r \<mapsto> (abs_order v)\<lparr>o_qty := os_qty v - red\<rparr>))" and "x = Applied"
proof -
  note R = stores_inv_reduce [OF inv f v red e refl]
  have w: "book_orders st r = Some (abs_order v)" using found_is_live [OF inv f] v by (simp add: book_orders_def)
  let ?st = "\<lparr>orders = storeState (orders st) l (v\<lparr>os_qty := os_qty v - red\<rparr>), prices = s'\<rparr>"
  have "book_orders ?st = (book_orders st)(r \<mapsto> (abs_order v)\<lparr>o_qty := os_qty v - red\<rparr>)"
    using book_orders_upd [of ?st st r "Some (v\<lparr>os_qty := os_qty v - red\<rparr>)"] R(3) by (simp add: abs_order_def)
  then show "refines_spec b st ts (Applied, b\<lparr>latest_update_timestamp := ts\<rparr>, ?st)
    (Applied, (book_orders st)(r \<mapsto> (abs_order v)\<lparr>o_qty := os_qty v - red\<rparr>))"
    using R card_dom_update [of "book_orders st" r, OF w] by (simp add: refines_spec_def book_after_def refs_seen_def)
  show "x = Applied" by (rule R)
qed

lemma refines_erase:
  assumes inv: "stores_inv st" and f: "findState (orders st) r = Some l"
    and v: "v = loadState (orders st) l"
    and e: "pls_erase (prices st) (addressOf v) (decodeSideByte (os_side v)) (os_qty v) = (x, s')"
    and o: "ot_erase (orders st) (Some l) = (y, t')"
  shows "refines_spec b st ts (Applied, b\<lparr>live_order_count := live_order_count b - 1, latest_update_timestamp := ts\<rparr>,
      \<lparr>orders = t', prices = s'\<rparr>) (Applied, (book_orders st)(r := None))" and "x = Applied" and "y = Applied"
proof -
  note R = stores_inv_erase [OF inv f v e o]
  have w: "book_orders st r = Some (abs_order v)" using found_is_live [OF inv f] v by (simp add: book_orders_def)
  let ?st = "\<lparr>orders = t', prices = s'\<rparr>"
  have b: "book_orders ?st = (book_orders st)(r := None)"
    using book_orders_upd [of ?st st r None] R(4) by simp
  have "live_order_count b + of_nat (card (dom (book_orders ?st))) - of_nat (card (dom (book_orders st))) = live_order_count b - 1"
    using card_dom_remove [of "book_orders st" r, OF w] unfolding b by (simp add: add_diff_eq [symmetric] del: dom_fun_upd)
  then show "refines_spec b st ts (Applied, b\<lparr>live_order_count := live_order_count b - 1, latest_update_timestamp := ts\<rparr>, ?st)
    (Applied, (book_orders st)(r := None))"
    using R b by (simp add: refines_spec_def book_after_def refs_seen_def)
  show "x = Applied" "y = Applied" by (rule R)+
qed

section \<open>Cancel, delete and execute\<close>

text \<open>The state a lookup finds, with the checks the code makes on it.\<close>

lemma live_lookup:
  assumes inv: "stores_inv st" and w: "book_orders st r = Some w"
  obtains l v where "findState (orders st) r = Some l" "loadState (orders st) l = v" "w = abs_order v"
    "live_state (orders st) r = Some v"
    "decodeSideByte (os_side v) \<noteq> NoSide" "os_qty v \<noteq> 0" "address_valid (addressOf v)"
    "ownsAddress (prices st) (os_locate v) (os_price_page_index v) (addressOf v)"
proof -
  obtain l where f: "findState (orders st) r = Some l" using w by (auto simp: book_orders_def live_state_def)
  note lv = found_is_live [OF inv f]
  note L = stores_inv_live [OF inv lv]
  have "ownsAddress (prices st) (os_locate (loadState (orders st) l)) (os_price_page_index (loadState (orders st) l)) (addressOf (loadState (orders st) l))"
    using ownsAddress_page_book [OF L(6,7)] L(5) by (simp add: addressOf_def)
  then show ?thesis using that [OF f refl _ lv] L w lv by (auto simp: book_orders_def)
qed

lemma cancelShares_refines:
  assumes inv: "stores_inv st" and li: "\<not> local_invalid b"
  shows "refines_spec b st ts (cancelShares b st r n ts) (spec_cancel (ob_stock_locate b) (book_orders st) r n)"
proof (cases "book_orders st r")
  case None
  then have "findState (orders st) r = None" by (simp add: book_orders_def live_state_def)
  then show ?thesis using None li refines_rejected [OF inv] by (simp add: cancelShares_def spec_cancel_def)
next
  case (Some w)
  with inv obtain l v where f: "findState (orders st) r = Some l" "loadState (orders st) l = v" "w = abs_order v"
    and c: "decodeSideByte (os_side v) \<noteq> NoSide" "os_qty v \<noteq> 0" "address_valid (addressOf v)"
      "ownsAddress (prices st) (os_locate v) (os_price_page_index v) (addressOf v)"
    by (rule live_lookup)
  have w: "o_locate w = os_locate v" "o_qty w = os_qty v" using f(3) by (simp_all add: abs_order_def)
  show ?thesis
  proof (cases "n = 0 \<or> os_locate v \<noteq> ob_stock_locate b \<or> n \<ge> os_qty v")
    case True
    then show ?thesis using Some f c w li refines_rejected [OF inv]
      by (auto simp: cancelShares_def spec_cancel_def Let_def)
  next
    case False
    obtain y s' where e: "reduceChecked (prices st) (os_locate v) (os_price_page_index v) (addressOf v) (decodeSideByte (os_side v)) (os_qty v) n = (y, s')"
      by fastforce
    have n: "n \<noteq> 0" "n < os_qty v" using False by auto
    note R = refines_reduce [OF inv f(1) f(2) [symmetric] n e]
    have "cancelShares b st r n ts = (Applied, b\<lparr>latest_update_timestamp := ts\<rparr>,
      \<lparr>orders = storeState (orders st) l (v\<lparr>os_qty := os_qty v - n\<rparr>), prices = s'\<rparr>)"
      using li False f(1,2) c e R(2) by (simp add: cancelShares_def Let_def)
    then show ?thesis using R(1) [of b ts] Some False w f(3) by (simp add: spec_cancel_def)
  qed
qed

lemma deleteOrder_refines:
  assumes inv: "stores_inv st" and li: "\<not> local_invalid b"
  shows "refines_spec b st ts (deleteOrder b st r ts) (spec_delete (ob_stock_locate b) (book_orders st) r)"
proof (cases "book_orders st r")
  case None
  then have "live_state (orders st) r = None" by (simp add: book_orders_None)
  then show ?thesis using None li refines_rejected [OF inv, of OrderNotFound b ts] validateState_decides [OF inv, of b r]
    by (auto simp: deleteOrder_def spec_delete_def rejected_def case_prod_beta Let_def)
next
  case (Some w)
  with inv obtain l v where f: "findState (orders st) r = Some l" "loadState (orders st) l = v" "w = abs_order v" "live_state (orders st) r = Some v"
    by (rule live_lookup)
  have w: "o_locate w = os_locate v" "o_qty w = os_qty v" using f(3) by (simp_all add: abs_order_def)
  show ?thesis
  proof (cases "os_locate v \<noteq> ob_stock_locate b")
    case True
    then show ?thesis using Some f w li refines_rejected [OF inv, of LocateMismatch b ts] validateState_decides [OF inv, of b r]
      by (auto simp: deleteOrder_def spec_delete_def rejected_def case_prod_beta Let_def)
  next
    case False
    obtain y s' where e: "pls_erase (prices st) (addressOf v) (decodeSideByte (os_side v)) (os_qty v) = (y, s')" by fastforce
    obtain z t' where o: "ot_erase (orders st) (Some l) = (z, t')" by fastforce
    note R = refines_erase [OF inv f(1) f(2) [symmetric] e o]
    have "deleteOrder b st r ts = (Applied, b\<lparr>live_order_count := live_order_count b - 1, latest_update_timestamp := ts\<rparr>,
      \<lparr>orders = t', prices = s'\<rparr>)"
      using li False f(1,2,4) e o R(2,3) validateState_decides [OF inv, of b r] by (simp add: deleteOrder_def Let_def)
    then show ?thesis using R(1) [of b ts] Some False w by (simp add: spec_delete_def)
  qed
qed

lemma executeOrder_refines:
  assumes inv: "stores_inv st" and li: "\<not> local_invalid b"
  shows "refines_spec b st ts (executeOrder b st r n ts) (spec_execute (ob_stock_locate b) (book_orders st) r n)"
proof (cases "book_orders st r")
  case None
  then have "findState (orders st) r = None" by (simp add: book_orders_def live_state_def)
  then show ?thesis using None li refines_rejected [OF inv] by (simp add: executeOrder_def spec_execute_def)
next
  case (Some w)
  with inv obtain l v where f: "findState (orders st) r = Some l" "loadState (orders st) l = v" "w = abs_order v"
    and c: "decodeSideByte (os_side v) \<noteq> NoSide" "os_qty v \<noteq> 0" "address_valid (addressOf v)"
      "ownsAddress (prices st) (os_locate v) (os_price_page_index v) (addressOf v)"
    by (rule live_lookup)
  have w: "o_locate w = os_locate v" "o_qty w = os_qty v" using f(3) by (simp_all add: abs_order_def)
  consider (reject) "n = 0 \<or> os_locate v \<noteq> ob_stock_locate b \<or> n > os_qty v"
    | (fill) "n \<noteq> 0" "os_locate v = ob_stock_locate b" "n = os_qty v"
    | (part) "n \<noteq> 0" "os_locate v = ob_stock_locate b" "n < os_qty v" by fastforce
  then show ?thesis
  proof cases
    case reject
    then show ?thesis using Some f c w li refines_rejected [OF inv]
      by (auto simp: executeOrder_def spec_execute_def Let_def)
  next
    case fill
    obtain y s' where e: "pls_erase (prices st) (addressOf v) (decodeSideByte (os_side v)) (os_qty v) = (y, s')" by fastforce
    obtain z t' where o: "ot_erase (orders st) (Some l) = (z, t')" by fastforce
    note R = refines_erase [OF inv f(1) f(2) [symmetric] e o]
    have "executeOrder b st r n ts = (Applied, b\<lparr>live_order_count := live_order_count b - 1, latest_update_timestamp := ts\<rparr>,
      \<lparr>orders = t', prices = s'\<rparr>)"
      using li fill f(1,2) c e o R(2,3) by (simp add: executeOrder_def Let_def)
    then show ?thesis using R(1) [of b ts] Some fill w by (simp add: spec_execute_def)
  next
    case part
    obtain y s' where e: "reduceChecked (prices st) (os_locate v) (os_price_page_index v) (addressOf v) (decodeSideByte (os_side v)) (os_qty v) n = (y, s')"
      by fastforce
    note R = refines_reduce [OF inv f(1) f(2) [symmetric] part(1,3) e]
    have "executeOrder b st r n ts = (Applied, b\<lparr>latest_update_timestamp := ts\<rparr>,
      \<lparr>orders = storeState (orders st) l (v\<lparr>os_qty := os_qty v - n\<rparr>), prices = s'\<rparr>)"
      using li part f(1,2) c e R(2) order_less_imp_not_less [OF part(3)] order_less_imp_not_eq [OF part(3)]
      by (simp add: executeOrder_def Let_def)
    then show ?thesis using R(1) [of b ts] Some part w f(3) by (auto simp: spec_execute_def)
  qed
qed

end
