(* ===== verification/OrderBookRefine.thy ===== *)
theory OrderBookRefine
  imports OrderBookInv
begin

text \<open>
  Refinement of the operations that publish an order: \<open>addOrder\<close> and \<open>replaceOrder\<close>, with their
  reservations, commits and roll-backs, against \<open>spec_add\<close> and \<open>spec_replace\<close>.
\<close>

section \<open>Adding an order\<close>

definition spec_add :: "u16 \<Rightarrow> u64 set \<Rightarrow> (u64 \<rightharpoonup> Order) \<Rightarrow> u64 \<Rightarrow> u64 \<Rightarrow> u32 \<Rightarrow> OrderSide \<Rightarrow>
    MutationResult \<times> (u64 \<rightharpoonup> Order)" where
  "spec_add loc seen m r price qty side =
     (if side = NoSide then (InvalidSide, m)
      else if qty = 0 then (InvalidQuantity, m)
      else if price > 2000000000 then (PriceOutOfRange, m)
      else if r \<in> seen then (DuplicateOrderRef, m)
      else (Applied, m(r \<mapsto> \<lparr>o_locate = loc, o_side = side, o_price = ucast price, o_qty = qty\<rparr>)))"

text \<open>The only reasons for which an acceptable request is refused. The reference is beyond the directly addressed ones and
  all of its candidate slots are used up; or the price has no page in its book yet and every page of the arena is
  committed; or a level would exceed its counters, which takes more live orders than a 32-bit count can hold.\<close>

definition no_order_slot :: "OrderTable \<Rightarrow> u64 \<Rightarrow> bool" where
  "no_order_slot t r \<longleftrightarrow> direct_slots (ot_config t) \<le> r \<and>
     (\<forall>(path, b, w)\<in>set (fallbackSlots t r). wasSeen (fe_state (fallback t b w)))"

definition no_price_page :: "PriceLevelStore \<Rightarrow> u16 \<Rightarrow> u64 \<Rightarrow> bool" where
  "no_price_page s loc price \<longleftrightarrow> page_capacity (pls_config s) \<le> committed_pages s \<and>
     hdl s loc (pp_page_index (splitPrice (ucast price))) = 0"

definition out_of_room :: "Stores \<Rightarrow> u16 \<Rightarrow> u64 \<Rightarrow> u64 \<Rightarrow> MutationResult \<Rightarrow> bool" where
  "out_of_room st loc r price x \<longleftrightarrow> x = OrderTableCapacityExceeded \<and> no_order_slot (orders st) r \<or>
     x = PricePageCapacityExceeded \<and> no_price_page (prices st) loc price"

definition counters_full :: "Stores \<Rightarrow> MutationResult \<Rightarrow> bool" where
  "counters_full st x \<longleftrightarrow> x \<in> {OrderCountOverflow, QuantityOverflow} \<and> 2 ^ 32 - 1 \<le> card (dom (book_orders st))"

definition resource_failure :: "Stores \<Rightarrow> u16 \<Rightarrow> u64 \<Rightarrow> u64 \<Rightarrow> MutationResult \<Rightarrow> bool" where
  "resource_failure st loc r price x \<longleftrightarrow> out_of_room st loc r price x \<or> counters_full st x"

lemmas resource_defs = resource_failure_def out_of_room_def counters_full_def

lemma reserve_loop_full:
  assumes "slot_result (reserve_loop t r first slots) = OrderTableCapacityExceeded"
  shows "slot_result first = OrderTableCapacityExceeded \<and> (\<forall>(path, b, w)\<in>set slots. wasSeen (fe_state (fallback t b w)))"
  using assms
proof (induction slots arbitrary: first)
  case (Cons slot slots)
  obtain path b w where slot: "slot = (path, b, w)" by (cases slot)
  define e where "e = fallback t b w"
  define fresh where "fresh = \<lparr>slot_result = Applied, slot_path = path, slot_order_ref = r, slot_bucket = b, slot_way = w\<rparr>"
  have run: "reserve_loop t r first (slot # slots) =
    (if wasSeen (fe_state e) then
       (if fe_order_ref e = r then fresh\<lparr>slot_result := DuplicateOrderRef\<rparr> else reserve_loop t r first slots)
     else if \<not> slot_valid first then reserve_loop t r fresh slots else reserve_loop t r first slots)"
    by (simp only: slot reserve_loop.simps e_def fresh_def OrderTable.OrderSlotReservation.update_convs)
  have f: "slot_result fresh = Applied" by (simp add: fresh_def)
  consider (seen) "wasSeen (fe_state e)" "fe_order_ref e \<noteq> r" | (other) "\<not> wasSeen (fe_state e)" | (dup) "wasSeen (fe_state e)" "fe_order_ref e = r"
    by blast
  then show ?case
  proof cases
    case seen
    then show ?thesis using Cons.IH [of first] Cons.prems unfolding run by (simp add: slot e_def)
  next
    case other
    then show ?thesis using Cons.IH [of first] Cons.IH [of fresh] Cons.prems f unfolding run
      by (cases "slot_valid first") (simp_all add: slot_valid_def)
  next
    case dup
    then show ?thesis using Cons.prems unfolding run by simp
  qed
qed simp

lemma reserve_full:
  assumes "slot_result (ot_reserve t r) = OrderTableCapacityExceeded"
  shows "no_order_slot t r"
proof (cases "r < direct_slots (ot_config t)")
  case True
  then show ?thesis using assms by (simp add: ot_reserve_def split: if_splits)
next
  case False
  then have "slot_result (reserve_loop t r \<lparr>slot_result = OrderTableCapacityExceeded, slot_path = NoPath, slot_order_ref = r,
      slot_bucket = 0, slot_way = 0\<rparr> (fallbackSlots t r)) = OrderTableCapacityExceeded"
    using assms by (simp only: ot_reserve_def if_False)
  from reserve_loop_full [OF this, THEN conjunct2] False show ?thesis unfolding no_order_slot_def not_less by blast
qed

lemma reserve_page_full:
  assumes "reservePrice s loc (ucast price) = (res, s')" "res_result res = PricePageCapacityExceeded"
  shows "no_price_page s loc price"
  using assms by (auto simp: reservePrice_def no_price_page_def hdl_def kInvalidPricePageHandle_def Let_def
      defaultPriceReservation_def split: if_splits)

lemma size_book_orders: "size (ledger (live_state (orders st))) = card (dom (book_orders st))"
proof -
  have "dom (book_orders st) = dom (live_state (orders st))" by (auto simp: book_orders_def)
  then show ?thesis by (simp add: size_ledger)
qed

definition refines_add ::
    "OrderBook \<Rightarrow> Stores \<Rightarrow> u64 \<Rightarrow> u64 \<Rightarrow> u64 \<Rightarrow> BookResult \<Rightarrow> MutationResult \<times> (u64 \<rightharpoonup> Order) \<Rightarrow> bool" where
  "refines_add b st r price ts res spec \<longleftrightarrow>
     (case res of (x, b', st') \<Rightarrow> stores_inv st' \<and> isBookPrepared (prices st') = isBookPrepared (prices st) \<and>
        b' = book_after b (book_orders st) (book_orders st') x ts \<and>
        ((x, book_orders st') = spec \<and> refs_seen st' = (if x = Applied then insert r (refs_seen st) else refs_seen st) \<or>
         fst spec = Applied \<and> resource_failure st (ob_stock_locate b) r price x \<and> book_orders st' = book_orders st \<and>
           refs_seen st' = refs_seen st))"

lemma decode_sideByte [simp]: "sd \<noteq> NoSide \<Longrightarrow> decodeSideByte (sideByte sd) = sd" "decodeSideByte (sideByte NoSide) = NoSide"
  by (cases sd) (simp_all add: decodeSideByte_def)

lemma validSide_iff: "validSide sd \<longleftrightarrow> sd \<noteq> NoSide"
  by (cases sd) (simp_all add: validSide_def)

lemma unchanged_prices:
  assumes inv: "stores_inv st" and b: "pl.books s' (ledger (live_state (orders st)))" and o: "page_book (prices st) \<subseteq>\<^sub>m page_book s'"
    and p: "isBookPrepared s' = isBookPrepared (prices st)"
  shows "unchanged st (st\<lparr>prices := s'\<rparr>)"
  using inv b o p by (auto simp: unchanged_def stores_inv_def book_orders_def refs_seen_def map_le_def dom_def fun_eq_iff)

lemma refines_add_rejected:
  assumes "unchanged st st'" "x \<noteq> Applied" "spec = (x, book_orders st) \<or> fst spec = Applied \<and> resource_failure st (ob_stock_locate b) r price x"
  shows "refines_add b st r price ts (rejected b st' x) spec"
  using assms by (auto simp: refines_add_def rejected_simps unchanged_def book_after_def)

lemma card_dom_insert: "m r = None \<Longrightarrow> of_nat (card (dom (m(r \<mapsto> w)))) - of_nat (card (dom m)) = (1 :: u64)" for m :: "u64 \<rightharpoonup> Order"
  by (simp add: domIff)

text \<open>Publishing an order whose level has been counted.\<close>

lemma stores_inv_publish:
  assumes inv: "stores_inv st" and new: "slot_valid (ot_reserve (orders st) r)"
    and c: "ot_commit (orders st) (ot_reserve (orders st) r) v = (y, t')"
    and b: "pl.books s' (add_mset (entry_of v) (ledger (live_state (orders st))))"
    and o: "page_book (prices st) \<subseteq>\<^sub>m page_book s'"
    and v: "page_book s' (os_price_page_handle v) = Some (os_locate v, os_price_page_index v)"
  shows "y = Applied" "stores_inv \<lparr>orders = t', prices = s'\<rparr>"
    "live_state t' = (live_state (orders st))(r \<mapsto> committed_state v)"
    "book_orders \<lparr>orders = t', prices = s'\<rparr> = (book_orders st)(r \<mapsto> abs_order v)"
    "refs_seen \<lparr>orders = t', prices = s'\<rparr> = insert r (refs_seen st)" "book_orders st r = None" "r \<notin> refs_seen st"
proof -
  have ti: "table_inv (orders st)" using inv by (simp add: stores_inv_def)
  have fr: "r \<notin> seen_refs (orders st)" "live_state (orders st) r = None" using ot.reserve_fresh [OF ti new] by auto
  then show "book_orders st r = None" "r \<notin> refs_seen st" by (simp_all add: book_orders_None refs_seen_def)
  from ot.commit_reserved [OF ti new, of v] c have t: "y = Applied" "table_inv t'" "seen_refs t' = insert r (seen_refs (orders st))"
      "live_state t' = (live_state (orders st))(r \<mapsto> committed_state v)" by auto
  then show "y = Applied" "live_state t' = (live_state (orders st))(r \<mapsto> committed_state v)"
    "refs_seen \<lparr>orders = t', prices = s'\<rparr> = insert r (refs_seen st)" by (simp_all add: refs_seen_def)
  show "book_orders \<lparr>orders = t', prices = s'\<rparr> = (book_orders st)(r \<mapsto> abs_order v)"
    using book_orders_upd [of "\<lparr>orders = t', prices = s'\<rparr>" st r "Some (committed_state v)"] t(4)
    by (simp add: abs_order_def committed_state_def)
  have "ledger (live_state t') = add_mset (entry_of v) (ledger (live_state (orders st)))"
    unfolding t(4) ledger_insert [of "live_state (orders st)" r, OF fr(2)] by simp
  then show "stores_inv \<lparr>orders = t', prices = s'\<rparr>" using t b o v inv
    by (intro stores_invI) (auto simp: stores_inv_def committed_state_def map_le_def dom_def split: if_splits)
qed

lemma price_in_range: "isValidItchPrice4 price \<longleftrightarrow> \<not> price > 2000000000"
  by (simp add: isValidItchPrice4_def kMaxItchPrice4_def not_less)

text \<open>The order state \<open>addOrder\<close> and \<open>replaceOrder\<close> write for a reserved price.\<close>

definition reserved_state :: "u16 \<Rightarrow> OrderSide \<Rightarrow> u32 \<Rightarrow> PricePageReservation \<Rightarrow> OrderState" where
  "reserved_state loc sd qty res = \<lparr>os_qty = qty, os_price_page_handle = page_handle (res_address res),
     os_price_level_index = level_index (res_address res), os_locate = loc, os_side = sideByte sd, os_flags = 0,
     os_price_page_index = res_page_index res\<rparr>"

lemma reserved_state_entry:
  assumes "validSide sd"
  shows "entry_of (reserved_state loc sd qty res) = (res_address res, sd, qty)"
    "abs_order (reserved_state loc sd qty res) = \<lparr>o_locate = loc, o_side = sd,
       o_price = joinPrice (res_page_index res) (level_index (res_address res)), o_qty = qty\<rparr>"
  using assms by (simp_all add: entry_of_def abs_order_def reserved_state_def addressOf_def validSide_iff)

lemma refines_add_publish:
  assumes inv: "stores_inv st" and new: "slot_valid (ot_reserve (orders st) r)" and sd: "validSide sd"
    and c: "ot_commit (orders st) (ot_reserve (orders st) r) (reserved_state (ob_stock_locate b) sd qty res) = (w, t')"
    and bk: "pl.books s' (add_mset (res_address res, sd, qty) (ledger (live_state (orders st))))"
    and o: "page_book (prices st) \<subseteq>\<^sub>m page_book s'" "page_book s' (page_handle (res_address res)) = Some (ob_stock_locate b, res_page_index res)"
    and p: "isBookPrepared s' = isBookPrepared (prices st)"
    and price: "joinPrice (res_page_index res) (level_index (res_address res)) = price"
  shows "refines_add b st r asked ts (Applied,
      b\<lparr>live_order_count := live_order_count b + 1, latest_update_timestamp := ts\<rparr>, \<lparr>orders = t', prices = s'\<rparr>)
      (Applied, (book_orders st)(r \<mapsto> \<lparr>o_locate = ob_stock_locate b, o_side = sd, o_price = price, o_qty = qty\<rparr>))"
    and "w = Applied"
proof -
  have pb: "page_book s' (os_price_page_handle (reserved_state (ob_stock_locate b) sd qty res)) =
      Some (os_locate (reserved_state (ob_stock_locate b) sd qty res), os_price_page_index (reserved_state (ob_stock_locate b) sd qty res))"
    using o(2) by (simp add: reserved_state_def)
  note P = stores_inv_publish [OF inv new c _ o(1) pb, unfolded reserved_state_entry [OF sd], OF bk, unfolded price]
  show "w = Applied" by (rule P)
  show "refines_add b st r asked ts (Applied,
      b\<lparr>live_order_count := live_order_count b + 1, latest_update_timestamp := ts\<rparr>, \<lparr>orders = t', prices = s'\<rparr>)
      (Applied, (book_orders st)(r \<mapsto> \<lparr>o_locate = ob_stock_locate b, o_side = sd, o_price = price, o_qty = qty\<rparr>))"
    using P(2,4,5) p card_dom_insert [of "book_orders st" r, OF P(6)]
    by (auto simp: refines_add_def book_after_def add_diff_eq [symmetric])
qed

lemma addOrder_rejects:
  assumes inv: "stores_inv st" and li: "\<not> local_invalid b" and prep: "isBookPrepared (prices st) (ob_stock_locate b)"
    and bad: "decodeSideChar side = NoSide \<or> qty = 0 \<or> price > 2000000000 \<or> \<not> slot_valid (ot_reserve (orders st) r)"
  shows "refines_add b st r price ts (addOrder b st r price qty side ts)
    (spec_add (ob_stock_locate b) (refs_seen st) (book_orders st) r price qty (decodeSideChar side))"
proof -
  have "table_inv (orders st)" using inv by (simp add: stores_inv_def)
  from ot.reserve_result [OF this, of r] show ?thesis using bad li prep unchanged_refl [OF inv] reserve_full [of "orders st" r]
    by (auto simp: addOrder_def Let_def spec_add_def price_in_range refs_seen_def slot_valid_def resource_defs
        intro!: refines_add_rejected)
qed

lemma addOrder_refines:
  assumes inv: "stores_inv st" and li: "\<not> local_invalid b" and prep: "isBookPrepared (prices st) (ob_stock_locate b)"
  shows "refines_add b st r price ts (addOrder b st r price qty side ts)
    (spec_add (ob_stock_locate b) (refs_seen st) (book_orders st) r price qty (decodeSideChar side))"
    (is "refines_add b st r price ts _ ?spec")
proof (cases "decodeSideChar side = NoSide \<or> qty = 0 \<or> price > 2000000000 \<or> \<not> slot_valid (ot_reserve (orders st) r)")
  case False
  then have sd: "validSide (decodeSideChar side)" and q: "qty \<noteq> 0" and new: "slot_valid (ot_reserve (orders st) r)"
    by (auto simp: validSide_iff)
  have b: "pl.books (prices st) (ledger (live_state (orders st)))" and ti: "table_inv (orders st)"
    using inv by (simp_all add: stores_inv_def)
  have spec: "?spec = (Applied, (book_orders st)(r \<mapsto> \<lparr>o_locate = ob_stock_locate b, o_side = decodeSideChar side, o_price = ucast price, o_qty = qty\<rparr>))"
    using False ot.reserve_fresh [OF ti new] by (auto simp: spec_add_def refs_seen_def)
  obtain res s1 where r1: "reservePrice (prices st) (ob_stock_locate b) (ucast price) = (res, s1)" by fastforce
  show ?thesis
  proof (cases "price_reservation_valid res")
    case nv: False
    note R = ps.books_reserve [OF b prep r1 nv]
    have "unchanged st (st\<lparr>prices := s1\<rparr>)" using R by (intro unchanged_prices [OF inv]) auto
    then show ?thesis
      using False li prep r1 nv spec R(1) refines_add_rejected [of st "st\<lparr>prices := s1\<rparr>"] reserve_page_full [OF r1 R(1)]
      by (simp add: addOrder_def Let_def price_in_range resource_defs)
  next
    case v: True
    obtain y s2 where c2: "(y, s2) = (if res_requires_commit res then commitReservation s1 res else (Applied, s1))"
      by (metis surj_pair)
    note O = ps.books_open [OF b prep r1 v c2]
    obtain z s3 where a3: "pls_add s2 (res_address res) (decodeSideChar side) qty = (z, s3)" by fastforce
    obtain w t' where c4: "ot_commit (orders st) (ot_reserve (orders st) r) (reserved_state (ob_stock_locate b) (decodeSideChar side) qty res) = (w, t')"
      by fastforce
    have h: "page_book s2 (page_handle (res_address res)) \<noteq> None" using O(3) by simp
    note eq = False li prep r1 v c2 [symmetric] O(1) a3 c4 [unfolded reserved_state_def]
    from pl.books_add [OF O(2) sd h q a3] show ?thesis
    proof
      assume A: "z = Applied \<and> page_book s3 = page_book s2 \<and>
        pl.books s3 (add_mset (res_address res, decodeSideChar side, qty) (ledger (live_state (orders st))))"
      have "same_arena s2 s3" using a3 by (auto simp: pls_add_def Let_def split: if_splits)
      then have p: "isBookPrepared s3 = isBookPrepared (prices st)" using O(4) by (simp add: same_arenaD(3))
      have pr: "joinPrice (res_page_index res) (level_index (res_address res)) = ucast price" using O(7,8) by simp
      note P = refines_add_publish [OF inv new sd c4 _ _ _ p pr]
      have P': "w = Applied" using P(2) A O(3,6) by simp
      have "addOrder b st r price qty side ts = (Applied,
          b\<lparr>live_order_count := live_order_count b + 1, latest_update_timestamp := ts\<rparr>, \<lparr>orders = t', prices = s3\<rparr>)"
        using eq A P' by (simp add: addOrder_def Let_def price_in_range)
      then show ?thesis using P(1) A O(3,6) spec by simp
    next
      assume A: "z \<in> {OrderCountOverflow, QuantityOverflow} \<and> s3 = s2 \<and> 2 ^ 32 - 1 \<le> size (ledger (live_state (orders st)))"
      have "unchanged st (st\<lparr>prices := s2\<rparr>)" using O by (intro unchanged_prices [OF inv]) auto
      then have "refines_add b st r price ts (rejected b (st\<lparr>prices := s2\<rparr>) z) ?spec"
        using A spec by (intro refines_add_rejected) (auto simp: resource_defs size_book_orders)
      moreover have "addOrder b st r price qty side ts = rejected b (st\<lparr>prices := s2\<rparr>) z"
        using eq A by (auto simp: addOrder_def Let_def price_in_range)
      ultimately show ?thesis by simp
    qed
  qed
qed (rule addOrder_rejects [OF assms])

section \<open>Replacing an order\<close>

definition spec_replace :: "u16 \<Rightarrow> u64 set \<Rightarrow> (u64 \<rightharpoonup> Order) \<Rightarrow> u64 \<Rightarrow> u64 \<Rightarrow> u64 \<Rightarrow> u32 \<Rightarrow>
    MutationResult \<times> (u64 \<rightharpoonup> Order)" where
  "spec_replace loc seen m old new price qty =
     (if qty = 0 then (InvalidQuantity, m)
      else if price > 2000000000 then (PriceOutOfRange, m)
      else case m old of None \<Rightarrow> (OrderNotFound, m)
      | Some w \<Rightarrow>
          if o_locate w \<noteq> loc then (LocateMismatch, m)
          else if new \<noteq> old \<and> new \<in> seen then (DuplicateOrderRef, m)
          else (Applied, m(old := None, new \<mapsto> \<lparr>o_locate = loc, o_side = o_side w, o_price = ucast price, o_qty = qty\<rparr>)))"

text \<open>A refused replace leaves the orders alone; when the refusal comes from the level counters the new
  reference has already been recorded and stays reserved.\<close>

definition refines_replace ::
    "OrderBook \<Rightarrow> Stores \<Rightarrow> u64 \<Rightarrow> u64 \<Rightarrow> u64 \<Rightarrow> BookResult \<Rightarrow> MutationResult \<times> (u64 \<rightharpoonup> Order) \<Rightarrow> bool" where
  "refines_replace b st new price ts res spec \<longleftrightarrow>
     (case res of (x, b', st') \<Rightarrow> stores_inv st' \<and> isBookPrepared (prices st') = isBookPrepared (prices st) \<and>
        b' = book_after b (book_orders st) (book_orders st') x ts \<and>
        ((x, book_orders st') = spec \<and> refs_seen st' = (if x = Applied then insert new (refs_seen st) else refs_seen st) \<or>
         fst spec = Applied \<and> book_orders st' = book_orders st \<and>
           (out_of_room st (ob_stock_locate b) new price x \<and> refs_seen st' = refs_seen st \<or>
            counters_full st x \<and> refs_seen st' \<in> {refs_seen st, insert new (refs_seen st)})))"

lemma refines_replace_rejected:
  assumes "unchanged st st'" "x \<noteq> Applied" "spec = (x, book_orders st) \<or> fst spec = Applied \<and> resource_failure st (ob_stock_locate b) new price x"
  shows "refines_replace b st new price ts (rejected b st' x) spec"
  using assms by (auto simp: refines_replace_def resource_failure_def rejected_simps unchanged_def book_after_def)

lemma card_dom_replace:
  "m old = Some w \<Longrightarrow> new = old \<or> m new = None \<Longrightarrow> card (dom (m(old := None, new \<mapsto> w'))) = card (dom m)" for m :: "u64 \<rightharpoonup> Order"
proof -
  assume m: "m old = Some w" and n: "new = old \<or> m new = None"
  have "card (dom m) = Suc (card (dom m - {old}))" using m by (simp only: card_Suc_Diff1 [OF finite domI])
  moreover have "new \<notin> dom m - {old}" using n by auto
  ultimately show ?thesis by simp
qed

lemma seen_live: "stores_inv st \<Longrightarrow> book_orders st r = Some w \<Longrightarrow> r \<in> refs_seen st"
  using ot.find_seen [of "orders st" r] by (auto simp: stores_inv_def book_orders_def live_state_def refs_seen_def)

lemma stores_inv_move_same:
  assumes inv: "stores_inv st" and f: "findState (orders st) r = Some l" "loadState (orders st) l = v"
    and sd: "sd = decodeSideByte (os_side v)"
    and bk: "pl.books s' (add_mset (res_address res, sd, qty) (ledger ((live_state (orders st))(r := None))))"
    and o: "page_book (prices st) \<subseteq>\<^sub>m page_book s'" "page_book s' (page_handle (res_address res)) = Some (os_locate v, res_page_index res)"
    and t': "t' = storeState (orders st) l (v\<lparr>os_qty := qty, os_price_page_handle := page_handle (res_address res),
        os_price_level_index := level_index (res_address res), os_price_page_index := res_page_index res\<rparr>)"
  shows "stores_inv \<lparr>orders = t', prices = s'\<rparr>" "refs_seen \<lparr>orders = t', prices = s'\<rparr> = refs_seen st"
    "book_orders \<lparr>orders = t', prices = s'\<rparr> = (book_orders st)(r \<mapsto> \<lparr>o_locate = os_locate v, o_side = sd,
       o_price = joinPrice (res_page_index res) (level_index (res_address res)), o_qty = qty\<rparr>)"
proof -
  let ?v = "v\<lparr>os_qty := qty, os_price_page_handle := page_handle (res_address res),
        os_price_level_index := level_index (res_address res), os_price_page_index := res_page_index res\<rparr>"
  have ti: "table_inv (orders st)" using inv by (simp add: stores_inv_def)
  have lv: "live_state (orders st) r = Some v" using f by (simp add: live_state_def)
  have fl: "os_flags ?v = os_flags (loadState (orders st) l)" using f by simp
  from ot.store_found [OF ti f(1) fl, folded t'] have T: "table_inv t'" "seen_refs t' = seen_refs (orders st)"
    "live_state t' = (live_state (orders st))(r \<mapsto> ?v)" by auto
  show "refs_seen \<lparr>orders = t', prices = s'\<rparr> = refs_seen st" using T(2) by (simp add: refs_seen_def)
  show "book_orders \<lparr>orders = t', prices = s'\<rparr> = (book_orders st)(r \<mapsto> \<lparr>o_locate = os_locate v, o_side = sd,
       o_price = joinPrice (res_page_index res) (level_index (res_address res)), o_qty = qty\<rparr>)"
    using book_orders_upd [of "\<lparr>orders = t', prices = s'\<rparr>" st r "Some ?v"] T(3) by (simp add: abs_order_def sd)
  have "entry_of ?v = (res_address res, sd, qty)" by (simp add: entry_of_def addressOf_def sd)
  then have "ledger (live_state t') = add_mset (res_address res, sd, qty) (ledger ((live_state (orders st))(r := None)))"
    unfolding T(3) ledger_update [of "live_state (orders st)" r v, OF lv] by simp
  then show "stores_inv \<lparr>orders = t', prices = s'\<rparr>" using T(1,3) bk o inv
    by (intro stores_invI) (auto simp: stores_inv_def map_le_def dom_def split: if_splits)
qed

lemma stores_inv_move_new:
  assumes inv: "stores_inv st" and f: "findState (orders st) r = Some l" "loadState (orders st) l = v"
    and sd: "sd = decodeSideByte (os_side v)" "validSide sd"
    and new: "slot_valid (ot_reserve (orders st) r')"
    and bk: "pl.books s' (add_mset (res_address res, sd, qty) (ledger ((live_state (orders st))(r := None))))"
    and o: "page_book (prices st) \<subseteq>\<^sub>m page_book s'" "page_book s' (page_handle (res_address res)) = Some (os_locate v, res_page_index res)"
    and c: "ot_commit (orders st) (ot_reserve (orders st) r') (reserved_state (os_locate v) sd qty res) = (x, t)"
    and e: "ot_erase t (Some l) = (y, u)"
  shows "x = Applied" "y = Applied" "stores_inv \<lparr>orders = u, prices = s'\<rparr>"
    "refs_seen \<lparr>orders = u, prices = s'\<rparr> = insert r' (refs_seen st)" "r' \<noteq> r" "book_orders st r' = None"
    "book_orders \<lparr>orders = u, prices = s'\<rparr> = (book_orders st)(r := None, r' \<mapsto> \<lparr>o_locate = os_locate v, o_side = sd,
       o_price = joinPrice (res_page_index res) (level_index (res_address res)), o_qty = qty\<rparr>)"
proof -
  let ?v = "reserved_state (os_locate v) sd qty res"
  have ti: "table_inv (orders st)" using inv by (simp add: stores_inv_def)
  note R = ot.replace_reference [OF ti f(1) new c e]
  show "x = Applied" "y = Applied" "r' \<noteq> r" "refs_seen \<lparr>orders = u, prices = s'\<rparr> = insert r' (refs_seen st)"
    using R by (simp_all add: refs_seen_def)
  show "book_orders st r' = None" using ot.reserve_fresh [OF ti new] by (simp add: book_orders_None)
  have lu: "live_state u = (live_state (orders st))(r := None, r' \<mapsto> committed_state ?v)"
    using R(6,9) by (simp add: fun_upd_twist)
  then show "book_orders \<lparr>orders = u, prices = s'\<rparr> = (book_orders st)(r := None, r' \<mapsto> \<lparr>o_locate = os_locate v, o_side = sd,
       o_price = joinPrice (res_page_index res) (level_index (res_address res)), o_qty = qty\<rparr>)"
    using reserved_state_entry(2) [OF sd(2), of "os_locate v" qty res]
    by (auto simp: book_orders_def fun_eq_iff abs_order_def committed_state_def)
  have "((live_state (orders st))(r := None)) r' = None" using ot.reserve_fresh [OF ti new] by simp
  then have "ledger (live_state u) = add_mset (res_address res, sd, qty) (ledger ((live_state (orders st))(r := None)))"
    unfolding lu using ledger_insert [of "(live_state (orders st))(r := None)" r' "committed_state ?v"]
    by (simp add: reserved_state_entry(1) [OF sd(2)] del: fun_upd_apply)
  then show "stores_inv \<lparr>orders = u, prices = s'\<rparr>" using R(4) lu bk o inv
    by (intro stores_invI)
       (auto simp: stores_inv_def map_le_def dom_def committed_state_def reserved_state_def split: if_splits)
qed

text \<open>A new reference published and withdrawn again.\<close>

lemma stores_inv_withdraw:
  assumes inv: "stores_inv st" and new: "slot_valid (ot_reserve (orders st) r)"
    and c: "ot_commit (orders st) (ot_reserve (orders st) r) v = (x, t)" and e: "ot_eraseRef t r = (y, u)"
    and bk: "pl.books s' (ledger (live_state (orders st)))" and o: "page_book (prices st) \<subseteq>\<^sub>m page_book s'"
  shows "x = Applied" "y = Applied" "stores_inv \<lparr>orders = u, prices = s'\<rparr>"
    "book_orders \<lparr>orders = u, prices = s'\<rparr> = book_orders st" "refs_seen \<lparr>orders = u, prices = s'\<rparr> = insert r (refs_seen st)"
proof -
  have ti: "table_inv (orders st)" using inv by (simp add: stores_inv_def)
  from ot.commit_reserved [OF ti new, of v] c obtain p where t: "x = Applied" "table_inv t" "seen_refs t = insert r (seen_refs (orders st))"
    "findState t r = Some p" "live_state t = (live_state (orders st))(r \<mapsto> committed_state v)" by auto
  from ot.erase_found [OF t(2,4)] e t(4) have u: "y = Applied" "table_inv u" "seen_refs u = seen_refs t"
    "live_state u = (live_state t)(r := None)" by (auto simp: ot_eraseRef_def)
  have lu: "live_state u = live_state (orders st)" using u(4) t(5) ot.reserve_fresh [OF ti new] by (auto simp: fun_eq_iff)
  show "x = Applied" "y = Applied" "refs_seen \<lparr>orders = u, prices = s'\<rparr> = insert r (refs_seen st)"
    "book_orders \<lparr>orders = u, prices = s'\<rparr> = book_orders st"
    using t u lu by (auto simp: refs_seen_def book_orders_def fun_eq_iff)
  show "stores_inv \<lparr>orders = u, prices = s'\<rparr>" using u(2) lu bk o inv
    by (intro stores_invI) (auto simp: stores_inv_def map_le_def dom_def)
qed

lemma replaceOrder_rejects:
  assumes inv: "stores_inv st" and li: "\<not> local_invalid b"
    and bad: "qty = 0 \<or> price > 2000000000 \<or> book_orders st old = None \<or>
      (\<exists>w. book_orders st old = Some w \<and> o_locate w \<noteq> ob_stock_locate b) \<or>
      (new \<noteq> old \<and> \<not> slot_valid (ot_reserve (orders st) new))"
  shows "refines_replace b st new price ts (replaceOrder b st old new price qty ts)
    (spec_replace (ob_stock_locate b) (refs_seen st) (book_orders st) old new price qty)"
proof -
  have ti: "table_inv (orders st)" using inv by (simp add: stores_inv_def)
  note rr = ot.reserve_result [OF ti, of new]
  have rj: "refines_replace b st new price ts (x, snd (reject b x), st) (x, book_orders st)" if "x \<noteq> Applied" for x
    using refines_replace_rejected [OF unchanged_refl [OF inv] that, of "(x, book_orders st)" b new price ts]
    by (simp add: rejected_simps)
  have rk: "refines_replace b st new price ts (x, snd (reject b x), st) (Applied, m)"
    if "x = OrderTableCapacityExceeded" "slot_result (ot_reserve (orders st) new) = x" for x m
    using refines_replace_rejected [OF unchanged_refl [OF inv], of x "(Applied, m)" b new price ts] that
      reserve_full [of "orders st" new]
    by (simp add: rejected_simps resource_defs)
  have vs: "validateState b st (findState (orders st) old) =
    (case book_orders st old of None \<Rightarrow> (OrderNotFound, snd (reject b OrderNotFound))
     | Some w \<Rightarrow> if o_locate w \<noteq> ob_stock_locate b then (LocateMismatch, snd (reject b LocateMismatch)) else (Applied, b))"
    using validateState_decides [OF inv, of b old]
    by (auto simp: book_orders_def abs_order_def prod_eq_iff split: option.splits)
  consider (early) "qty = 0 \<or> price > 2000000000" | (state) "\<not> (qty = 0 \<or> price > 2000000000)"
      "book_orders st old = None \<or> (\<exists>w. book_orders st old = Some w \<and> o_locate w \<noteq> ob_stock_locate b)"
    | (slot) w where "\<not> (qty = 0 \<or> price > 2000000000)" "book_orders st old = Some w" "o_locate w = ob_stock_locate b"
      "new \<noteq> old" "\<not> slot_valid (ot_reserve (orders st) new)" using bad by force
  then show ?thesis
  proof cases
    case early
    then show ?thesis using li rj by (auto simp: replaceOrder_def spec_replace_def price_in_range rejected_simps)
  next
    case state
    then show ?thesis using li rj by (auto simp: replaceOrder_def spec_replace_def price_in_range rejected_simps vs)
  next
    case slot
    then show ?thesis using li rj rk rr
      by (auto simp: replaceOrder_def spec_replace_def price_in_range rejected_simps vs Let_def refs_seen_def slot_valid_def)
  qed
qed

text \<open>The last part of \<open>replaceOrder\<close>: the old order, the new slot and the page of the new price have been
  found, the order moves.\<close>

definition replace_tail :: "OrderBook \<Rightarrow> Stores \<Rightarrow> u64 \<Rightarrow> u64 \<Rightarrow> u32 \<Rightarrow> u64 \<Rightarrow> PricePageReservation \<Rightarrow> StateLoc \<Rightarrow>
    PriceLevelStore \<Rightarrow> BookResult" where
  "replace_tail b st old new qty ts res l s2 =
     (let v = loadState (orders st) l; sd = decodeSideByte (os_side v);
          (m, s3) = pls_move s2 (addressOf v) (os_qty v) (res_address res) qty sd
      in if new = old then
           (if m \<noteq> Applied then rejected b (st\<lparr>prices := s3\<rparr>) m
            else (Applied, b\<lparr>latest_update_timestamp := ts\<rparr>,
              \<lparr>orders = storeState (orders st) l (v\<lparr>os_qty := qty, os_price_page_handle := page_handle (res_address res),
                 os_price_level_index := level_index (res_address res), os_price_page_index := res_page_index res\<rparr>),
               prices = s3\<rparr>))
         else let (c, t) = ot_commit (orders st) (ot_reserve (orders st) new) (reserved_state (ob_stock_locate b) sd qty res)
           in if c \<noteq> Applied then rejected b \<lparr>orders = t, prices = s2\<rparr> c
              else if m \<noteq> Applied then
                (let (k, u) = ot_eraseRef t new
                 in rejected b \<lparr>orders = u, prices = s3\<rparr> (if k = Applied then m else InvariantViolation))
              else let (k, u) = ot_erase t (Some l)
                in if k \<noteq> Applied then
                     (let (k', u') = ot_eraseRef u new;
                          (m', s4) = pls_move s3 (res_address res) qty (addressOf v) (os_qty v) sd
                      in rejected b \<lparr>orders = u', prices = s4\<rparr> InvariantViolation)
                   else (Applied, b\<lparr>latest_update_timestamp := ts\<rparr>, \<lparr>orders = u, prices = s3\<rparr>))"

lemma replaceOrder_accepted:
  assumes li: "\<not> local_invalid b" and ok: "qty \<noteq> 0" "\<not> price > 2000000000"
    and vs: "validateState b st (findState (orders st) old) = (Applied, b)"
    and f: "findState (orders st) old = Some l"
    and slot: "new \<noteq> old \<Longrightarrow> slot_valid (ot_reserve (orders st) new)"
    and r1: "reservePrice (prices st) (ob_stock_locate b) (ucast price) = (res, s1)"
  shows "replaceOrder b st old new price qty ts =
    (if \<not> price_reservation_valid res then rejected b (st\<lparr>prices := s1\<rparr>) (res_result res)
     else let (y, s2) = (if res_requires_commit res then commitReservation s1 res else (Applied, s1))
       in if y \<noteq> Applied then rejected b (st\<lparr>prices := s2\<rparr>) y
          else replace_tail b st old new qty ts res l s2)"
  using assms unfolding replaceOrder_def replace_tail_def
  by (simp add: price_in_range reserved_state_def case_prod_beta Let_def)

lemma replace_tail_same:
  assumes inv: "stores_inv st" and f: "findState (orders st) old = Some l" "loadState (orders st) l = v"
    and w: "book_orders st old = Some w" and p: "isBookPrepared s3 = isBookPrepared (prices st)"
    and m: "pls_move s2 (addressOf v) (os_qty v) (res_address res) qty (decodeSideByte (os_side v)) = (Applied, s3)"
    and bk: "pl.books s3 (add_mset (res_address res, decodeSideByte (os_side v), qty) (ledger ((live_state (orders st))(old := None))))"
    and o: "page_book (prices st) \<subseteq>\<^sub>m page_book s3" "page_book s3 (page_handle (res_address res)) = Some (os_locate v, res_page_index res)"
    and price: "joinPrice (res_page_index res) (level_index (res_address res)) = price"
  shows "refines_replace b st old asked ts (replace_tail b st old old qty ts res l s2)
    (Applied, (book_orders st)(old := None, old \<mapsto> \<lparr>o_locate = os_locate v, o_side = decodeSideByte (os_side v), o_price = price, o_qty = qty\<rparr>))"
proof -
  note R = stores_inv_move_same [OF inv f refl bk o refl, unfolded price]
  have "replace_tail b st old old qty ts res l s2 = (Applied, b\<lparr>latest_update_timestamp := ts\<rparr>,
      \<lparr>orders = storeState (orders st) l (v\<lparr>os_qty := qty, os_price_page_handle := page_handle (res_address res),
                 os_price_level_index := level_index (res_address res), os_price_page_index := res_page_index res\<rparr>), prices = s3\<rparr>)"
    using m f by (simp add: replace_tail_def Let_def)
  then show ?thesis using R p seen_live [OF inv w] card_dom_update [of "book_orders st" old, OF w]
    by (simp add: refines_replace_def book_after_def insert_absorb)
qed

lemma replace_tail_new:
  assumes inv: "stores_inv st" and f: "findState (orders st) old = Some l" "loadState (orders st) l = v"
    and w: "book_orders st old = Some w" and p: "isBookPrepared s3 = isBookPrepared (prices st)"
    and ne: "new \<noteq> old" and slot: "slot_valid (ot_reserve (orders st) new)" and sd: "validSide (decodeSideByte (os_side v))"
    and loc: "os_locate v = ob_stock_locate b"
    and m: "pls_move s2 (addressOf v) (os_qty v) (res_address res) qty (decodeSideByte (os_side v)) = (Applied, s3)"
    and bk: "pl.books s3 (add_mset (res_address res, decodeSideByte (os_side v), qty) (ledger ((live_state (orders st))(old := None))))"
    and o: "page_book (prices st) \<subseteq>\<^sub>m page_book s3" "page_book s3 (page_handle (res_address res)) = Some (os_locate v, res_page_index res)"
    and price: "joinPrice (res_page_index res) (level_index (res_address res)) = price"
  shows "refines_replace b st new asked ts (replace_tail b st old new qty ts res l s2)
    (Applied, (book_orders st)(old := None, new \<mapsto> \<lparr>o_locate = os_locate v, o_side = decodeSideByte (os_side v), o_price = price, o_qty = qty\<rparr>))"
proof -
  obtain c t where c: "ot_commit (orders st) (ot_reserve (orders st) new) (reserved_state (os_locate v) (decodeSideByte (os_side v)) qty res) = (c, t)"
    by fastforce
  obtain k u where e: "ot_erase t (Some l) = (k, u)" by fastforce
  note R = stores_inv_move_new [OF inv f refl sd slot bk o c e, unfolded price]
  have "replace_tail b st old new qty ts res l s2 = (Applied, b\<lparr>latest_update_timestamp := ts\<rparr>, \<lparr>orders = u, prices = s3\<rparr>)"
    using m f ne c e R(1,2) loc by (simp add: replace_tail_def Let_def)
  then show ?thesis using R(3-7) p card_dom_replace [of "book_orders st" old w new, OF w] 
    by (simp add: refines_replace_def book_after_def del: dom_fun_upd fun_upd_apply)
qed

lemma replace_tail_full:
  assumes inv: "stores_inv st" and f: "findState (orders st) old = Some l" "loadState (orders st) l = v"
    and slot: "new \<noteq> old \<Longrightarrow> slot_valid (ot_reserve (orders st) new)"
    and loc: "os_locate v = ob_stock_locate b"
    and m: "pls_move s2 (addressOf v) (os_qty v) (res_address res) qty (decodeSideByte (os_side v)) = (x, s2)"
    and x: "x \<noteq> Applied" "counters_full st x"
    and bk: "pl.books s2 (ledger (live_state (orders st)))" and o: "page_book (prices st) \<subseteq>\<^sub>m page_book s2"
    and p: "isBookPrepared s2 = isBookPrepared (prices st)" and spec: "fst spec = Applied"
  shows "refines_replace b st new price ts (replace_tail b st old new qty ts res l s2) spec"
proof (cases "new = old")
  case True
  then have "replace_tail b st old new qty ts res l s2 = rejected b (st\<lparr>prices := s2\<rparr>) x"
    using m f x by (simp add: replace_tail_def Let_def)
  then show ?thesis using unchanged_prices [OF inv bk o p] x spec by (simp add: refines_replace_rejected resource_failure_def)
next
  case False
  obtain c t where c: "ot_commit (orders st) (ot_reserve (orders st) new) (reserved_state (ob_stock_locate b) (decodeSideByte (os_side v)) qty res) = (c, t)"
    by fastforce
  obtain k u where e: "ot_eraseRef t new = (k, u)" by fastforce
  note R = stores_inv_withdraw [OF inv slot [OF False] c e bk o]
  have "replace_tail b st old new qty ts res l s2 = rejected b \<lparr>orders = u, prices = s2\<rparr> x"
    using m f False c e R(1,2) x by (simp add: replace_tail_def Let_def)
  then show ?thesis using R(3-5) x spec p by (auto simp: refines_replace_def rejected_simps book_after_def)
qed

lemma replaceOrder_refines:
  assumes inv: "stores_inv st" and li: "\<not> local_invalid b" and prep: "isBookPrepared (prices st) (ob_stock_locate b)"
  shows "refines_replace b st new price ts (replaceOrder b st old new price qty ts)
    (spec_replace (ob_stock_locate b) (refs_seen st) (book_orders st) old new price qty)"
    (is "refines_replace b st new price ts _ ?spec")
proof (cases "qty = 0 \<or> price > 2000000000 \<or> book_orders st old = None \<or>
      (\<exists>w. book_orders st old = Some w \<and> o_locate w \<noteq> ob_stock_locate b) \<or>
      (new \<noteq> old \<and> \<not> slot_valid (ot_reserve (orders st) new))")
  case False
  then obtain w where w: "book_orders st old = Some w" "o_locate w = ob_stock_locate b" and ok: "qty \<noteq> 0" "\<not> price > 2000000000"
    and slot: "new \<noteq> old \<Longrightarrow> slot_valid (ot_reserve (orders st) new)" by auto
  obtain l v where f: "findState (orders st) old = Some l" "loadState (orders st) l = v" "w = abs_order v" "live_state (orders st) old = Some v"
    by (rule live_lookup [OF inv w(1)])
  have loc: "os_locate v = ob_stock_locate b" and side: "o_side w = decodeSideByte (os_side v)"
    using w(2) f(3) by (simp_all add: abs_order_def)
  note L = stores_inv_live [OF inv f(4)]
  have vs: "validateState b st (findState (orders st) old) = (Applied, b)"
    using validateState_decides [OF inv, of b old] f(4) loc by simp
  have bk: "pl.books (prices st) (ledger (live_state (orders st)))" and ti: "table_inv (orders st)"
    using inv by (simp_all add: stores_inv_def)
  have spec: "?spec = (Applied, (book_orders st)(old := None, new \<mapsto> \<lparr>o_locate = ob_stock_locate b, o_side = decodeSideByte (os_side v), o_price = ucast price, o_qty = qty\<rparr>))"
    using ok w side slot ot.reserve_fresh [OF ti, of new] by (auto simp: spec_replace_def refs_seen_def)
  obtain res s1 where r1: "reservePrice (prices st) (ob_stock_locate b) (ucast price) = (res, s1)" by fastforce
  note eq = replaceOrder_accepted [OF li ok vs f(1) slot r1, of ts]
  show ?thesis
  proof (cases "price_reservation_valid res")
    case nv: False
    note R = ps.books_reserve [OF bk prep r1 nv]
    have "unchanged st (st\<lparr>prices := s1\<rparr>)" using R by (intro unchanged_prices [OF inv]) auto
    then show ?thesis
      using nv spec R(1) refines_replace_rejected [of st "st\<lparr>prices := s1\<rparr>"] reserve_page_full [OF r1 R(1)]
      by (simp add: eq resource_defs)
  next
    case va: True
    obtain y s2 where c2: "(y, s2) = (if res_requires_commit res then commitReservation s1 res else (Applied, s1))"
      by (metis surj_pair)
    note O = ps.books_open [OF bk prep r1 va c2]
    have eq': "replaceOrder b st old new price qty ts = replace_tail b st old new qty ts res l s2"
      using va c2 [symmetric] O(1) by (simp add: eq)
    obtain m s3 where m: "pls_move s2 (addressOf v) (os_qty v) (res_address res) qty (decodeSideByte (os_side v)) = (m, s3)"
      by fastforce
    have b2: "pl.books s2 (add_mset (addressOf v, decodeSideByte (os_side v), os_qty v) (ledger ((live_state (orders st))(old := None))))"
      using O(2) ledger_remove [of "live_state (orders st)" old v, OF f(4)] by (simp add: entry_of_def)
    have o1: "page_book s2 (page_handle (addressOf v)) = Some (ob_stock_locate b, os_price_page_index v)"
      using L(5) O(6) loc by (auto simp: addressOf_def map_le_def dom_def)
    have pr: "joinPrice (res_page_index res) (level_index (res_address res)) = ucast price" using O(7,8) by simp
    have sz: "size (ledger ((live_state (orders st))(old := None))) \<le> card (dom (book_orders st))"
      using ledger_remove [of "live_state (orders st)" old v, OF f(4)] size_book_orders [of st] by simp
    from pl.books_move [OF b2 ok(1) o1 O(3) m] show ?thesis
    proof
      assume A: "m = Applied \<and> page_book s3 = page_book s2 \<and>
        pl.books s3 (add_mset (res_address res, decodeSideByte (os_side v), qty) (ledger ((live_state (orders st))(old := None))))"
      have "same_arena s2 s3" using m A by (auto elim: pls_move_applied)
      then have p: "isBookPrepared s3 = isBookPrepared (prices st)" using O(4) by (simp add: same_arenaD(3))
      have h: "page_book s3 (page_handle (res_address res)) = Some (os_locate v, res_page_index res)" "page_book (prices st) \<subseteq>\<^sub>m page_book s3"
        using A O(3,6) loc by auto
      show ?thesis unfolding eq' spec unfolding loc [symmetric]
        using replace_tail_same [OF inv f(1,2) w(1) p _ _ h(2,1) pr] replace_tail_new [OF inv f(1,2) w(1) p _ slot L(1) loc _ _ h(2,1) pr] m A
        by (cases "new = old") auto
    next
      assume A: "m \<in> {OrderCountOverflow, QuantityOverflow} \<and> s3 = s2 \<and>
        2 ^ 32 - 1 \<le> size (ledger ((live_state (orders st))(old := None)))"
      show ?thesis unfolding eq' using A m sz spec O(2,4,6)
        by (intro replace_tail_full [OF inv f(1,2) slot loc]) (auto simp: counters_full_def)
    qed
  qed
qed (rule replaceOrder_rejects [OF inv li])

end
