(* ===== verification/OrderBookCorrect.thy ===== *)
theory OrderBookCorrect
  imports OrderBookRefine
begin

text \<open>
  The book as its readers see it: the levels hold the counts and the sums of the live orders, so that
  the top of the book and the published depth are determined by the map of live orders. Also the
  construction of the stores, a worked book, and the properties of the component.
\<close>

section \<open>What the book shows\<close>

definition orders_at :: "Stores \<Rightarrow> u16 \<Rightarrow> OrderSide \<Rightarrow> u32 \<Rightarrow> u64 set" where
  "orders_at st loc sd x = {r. \<exists>w. book_orders st r = Some w \<and> o_locate w = loc \<and> o_side w = sd \<and> o_price w = x}"

lemma orders_at_live:
  "orders_at st loc sd x = {r. \<exists>v. live_state (orders st) r = Some v \<and>
     (os_locate v = loc \<and> joinPrice (os_price_page_index v) (os_price_level_index v) = x) \<and> decodeSideByte (os_side v) = sd}"
  by (auto simp: orders_at_def book_orders_Some abs_order_def)

lemma entries_at_ledger:
  fixes m :: "u64 \<rightharpoonup> OrderState"
  assumes A: "A = {r. \<exists>v. m r = Some v \<and> addressOf v = a \<and> decodeSideByte (os_side v) = sd}"
  shows "size (entries_at (ledger m) a sd) = card A"
    "entry_sum (entries_at (ledger m) a sd) = (\<Sum>r\<in>A. unat (os_qty (the (m r))))"
proof -
  have "A = {r \<in> dom m. fst (entry_of (the (m r))) = a \<and> fst (snd (entry_of (the (m r)))) = sd}"
    unfolding A by (auto simp: entry_of_def)
  then have "entries_at (ledger m) a sd = image_mset (\<lambda>r. entry_of (the (m r))) (mset_set A)"
    by (simp add: entries_at_def ledger_def filter_mset_image_mset)
  then show "size (entries_at (ledger m) a sd) = card A"
    "entry_sum (entries_at (ledger m) a sd) = (\<Sum>r\<in>A. unat (os_qty (the (m r))))"
    by (simp_all add: entry_sum_def image_mset.compositionality o_def entry_of_def sum_unfold_sum_mset)
qed

text \<open>The address of an order is the page of its book that holds its price.\<close>

lemma live_address:
  assumes inv: "stores_inv st" and v: "live_state (orders st) r = Some v"
  shows "os_price_page_handle v = hdl (prices st) (os_locate v) (os_price_page_index v)"
proof -
  note L = stores_inv_live [OF inv v]
  have h: "in_arena (prices st) (os_price_page_handle v)"
    and o: "own_stock_locate (page_owners (prices st) (os_price_page_handle v)) = os_locate v"
      "own_page_index (page_owners (prices st) (os_price_page_handle v)) = os_price_page_index v"
    using L(5) by (auto simp: page_book_def split: if_splits)
  then show ?thesis using owner_page(1) [OF L(6) h] by simp
qed

lemma orders_at_address:
  assumes inv: "stores_inv st" and h: "h = hdl (prices st) loc (pp_page_index (splitPrice x))" "h \<noteq> 0"
  shows "orders_at st loc sd x = {r. \<exists>v. live_state (orders st) r = Some v \<and>
      addressOf v = addr h (pp_level_index (splitPrice x)) \<and> decodeSideByte (os_side v) = sd}"
proof -
  have si: "store_inv (prices st)" using inv pl.books_aggregates(1) by (auto simp: stores_inv_def)
  note ar = hdl_in_arena [OF si h(2) [unfolded h(1)], folded h(1)]
  have "(os_locate v = loc \<and> joinPrice (os_price_page_index v) (os_price_level_index v) = x) \<longleftrightarrow>
      addressOf v = addr h (pp_level_index (splitPrice x))" if v: "live_state (orders st) r = Some v" for r v
  proof -
    have "os_price_page_handle v = h \<longleftrightarrow> os_locate v = loc \<and> os_price_page_index v = pp_page_index (splitPrice x)"
      using live_address [OF inv v] stores_inv_live(5) [OF inv v] h ar by (auto simp: page_book_def split: if_splits)
    then show ?thesis by (auto simp: addressOf_def)
  qed
  then show ?thesis unfolding orders_at_live by blast
qed

lemma book_level_orders:
  assumes inv: "stores_inv st" and sd: "validSide sd"
  shows "unat (order_count (book_level (prices st) loc sd x)) = card (orders_at st loc sd x)"
    "unat (total_qty (book_level (prices st) loc sd x)) = (\<Sum>r\<in>orders_at st loc sd x. unat (o_qty (the (book_orders st r))))"
proof -
  define h where "h = hdl (prices st) loc (pp_page_index (splitPrice x))"
  have ag: "aggregates (levelUnchecked (prices st)) (ledger (live_state (orders st)))"
    using inv by (auto simp: stores_inv_def dest: pl.books_aggregates(2))
  have "unat (order_count (book_level (prices st) loc sd x)) = card (orders_at st loc sd x) \<and>
    unat (total_qty (book_level (prices st) loc sd x)) = (\<Sum>r\<in>orders_at st loc sd x. unat (o_qty (the (book_orders st r))))"
  proof (cases "h = 0")
    case True
    have "orders_at st loc sd x = {}"
    proof -
      have False if "live_state (orders st) r = Some v" "os_locate v = loc" "joinPrice (os_price_page_index v) (os_price_level_index v) = x" for r v
        using live_address [OF inv that(1)] stores_inv_live(3) [OF inv that(1)] that True by (auto simp: h_def)
      then show ?thesis unfolding orders_at_live by blast
    qed
    then show ?thesis using True by (simp add: book_level_def h_def [symmetric] zeroLevel_def)
  next
    case False
    note oa = orders_at_address [OF inv h_def False, of sd]
    have q: "os_qty (the (live_state (orders st) r)) = o_qty (the (book_orders st r))" if "r \<in> orders_at st loc sd x" for r
      using that by (auto simp: orders_at_def book_orders_Some book_orders_def abs_order_def)
    show ?thesis using entries_at_ledger [OF oa] ag sd False q
      by (simp add: book_level_def h_def [symmetric] aggregates_def Let_def cong: sum.cong)
  qed
  then show "unat (order_count (book_level (prices st) loc sd x)) = card (orders_at st loc sd x)"
    "unat (total_qty (book_level (prices st) loc sd x)) = (\<Sum>r\<in>orders_at st loc sd x. unat (o_qty (the (book_orders st r))))"
    by simp_all
qed

definition order_prices :: "Stores \<Rightarrow> u16 \<Rightarrow> OrderSide \<Rightarrow> u32 set" where
  "order_prices st loc sd = {o_price w | w r. book_orders st r = Some w \<and> o_locate w = loc \<and> o_side w = sd}"

lemma act_prices_orders:
  assumes inv: "stores_inv st" and sd: "validSide sd"
  shows "act_prices (prices st) loc sd = order_prices st loc sd"
proof -
  have "x \<in> act_prices (prices st) loc sd \<longleftrightarrow> orders_at st loc sd x \<noteq> {}" for x
    using book_level_orders(1) [OF assms, of loc x] by (metis act_prices_book_level card_eq_0_iff finite unat_eq_0)
  then show ?thesis by (force simp: order_prices_def orders_at_def)
qed

lemma stores_store_inv: "stores_inv st \<Longrightarrow> store_inv (prices st)"
  using pl.books_aggregates(1) by (auto simp: stores_inv_def)

lemma side_view:
  assumes inv: "stores_inv st" and p: "isBookPrepared (prices st) loc" and sd: "validSide sd"
  shows "pls_view (prices st) (pls_best (prices st) loc sd) sd =
    (if order_prices st loc sd = {} then noView
     else view_at (prices st) loc sd (if sd = Buy then Max (order_prices st loc sd) else Min (order_prices st loc sd)))"
proof (cases "order_prices st loc sd = {}")
  case True
  then show ?thesis using pls_best_none [OF stores_store_inv [OF inv], of loc sd] act_prices_orders [OF inv sd]
    by (simp add: pls_view_def noCursor_def)
next
  case False
  let ?x = "if sd = Buy then Max (order_prices st loc sd) else Min (order_prices st loc sd)"
  have b: "is_best sd (act_prices (prices st) loc sd) ?x"
    unfolding act_prices_orders [OF inv sd] is_best_def using Max_in [OF finite False] Min_in [OF finite False] by (auto simp: beats_def order_less_le)
  then have "?x \<in> act_prices (prices st) loc sd" by (simp add: is_best_def)
  then show ?thesis
    using False pls_best_some [OF stores_store_inv [OF inv] p sd b] pls_view_at [OF stores_store_inv [OF inv] sd] by simp
qed

section \<open>Construction\<close>

lemma new_store_empty:
  assumes "newPriceLevelStore config = Some s"
  shows "store_inv s" "levelUnchecked s a sd = zeroLevel" "\<not> isBookPrepared s loc" "prepared_book_count s = 0"
    "page_book s h = None"
  using assms store_inv_new [OF assms]
  by (auto simp: newPriceLevelStore_def levelUnchecked_def zeroPage_def Let_def isBookPrepared_def page_book_def in_arena_def)

lemma stores_inv_new:
  assumes t: "newOrderTable oc = Some t" and s: "newPriceLevelStore pc = Some s"
  shows "stores_inv \<lparr>orders = t, prices = s\<rparr>" "book_orders \<lparr>orders = t, prices = s\<rparr> = Map.empty"
    "refs_seen \<lparr>orders = t, prices = s\<rparr> = {}"
proof -
  note T = table_inv_new [OF t] and S = new_store_empty [OF s]
  have "pl.books s {#}" using S(1,2) by (simp add: pl.books_def aggregates_def entries_at_def entry_sum_def zeroLevel_def)
  then show "stores_inv \<lparr>orders = t, prices = s\<rparr>" using T by (simp add: stores_inv_def ledger_def)
  show "book_orders \<lparr>orders = t, prices = s\<rparr> = Map.empty" "refs_seen \<lparr>orders = t, prices = s\<rparr> = {}"
    using T by (auto simp: book_orders_def refs_seen_def)
qed

lemma stores_inv_prepare:
  assumes inv: "stores_inv st" and p: "prepareBook (prices st) loc = (x, s')"
  shows "stores_inv (st\<lparr>prices := s'\<rparr>)" "book_orders (st\<lparr>prices := s'\<rparr>) = book_orders st"
    "refs_seen (st\<lparr>prices := s'\<rparr>) = refs_seen st" "x = Applied \<longleftrightarrow> isValidStockLocate loc"
    "isBookPrepared s' = (\<lambda>l. isBookPrepared (prices st) l \<or> l = loc \<and> isValidStockLocate loc)"
    "prepared_book_count s' = prepared_book_count (prices st) +
       (if isValidStockLocate loc \<and> \<not> isBookPrepared (prices st) loc then 1 else 0)"
proof -
  have "page_book s' = page_book (prices st)" "levelUnchecked s' = levelUnchecked (prices st)"
    using p by (auto simp: prepareBook_def page_book_def in_arena_def levelUnchecked_def fun_eq_iff split: if_splits)
  then show "stores_inv (st\<lparr>prices := s'\<rparr>)"
    using inv store_inv_prepareBook [OF stores_store_inv [OF inv] p] by (simp add: stores_inv_def pl.books_def)
  show "x = Applied \<longleftrightarrow> isValidStockLocate loc"
    "isBookPrepared s' = (\<lambda>l. isBookPrepared (prices st) l \<or> l = loc \<and> isValidStockLocate loc)"
    "prepared_book_count s' = prepared_book_count (prices st) +
       (if isValidStockLocate loc \<and> \<not> isBookPrepared (prices st) loc then 1 else 0)"
    using p by (auto simp: prepareBook_def isBookPrepared_def fun_eq_iff split: if_splits)
qed (simp_all add: book_orders_def refs_seen_def fun_eq_iff)

section \<open>A worked book\<close>

definition demo_stores :: Stores where
  "demo_stores = \<lparr>orders = demo_table, prices = snd (prepareBook demo_empty 7)\<rparr>"
definition demo_book :: OrderBook where "demo_book = newManagedBook 7 demo_stores 4"
definition demo_add_run :: BookResult where "demo_add_run = addOrder demo_book demo_stores 3 100 5 0x42 9"
definition demo_book1 :: OrderBook where "demo_book1 = fst (snd demo_add_run)"
definition demo_stores1 :: Stores where "demo_stores1 = snd (snd demo_add_run)"

lemma demo_stores:
  "stores_inv demo_stores" "book_orders demo_stores = Map.empty" "refs_seen demo_stores = {}"
  "isBookPrepared (prices demo_stores) 7" "\<not> local_invalid demo_book" "ob_stock_locate demo_book = 7"
proof -
  have s: "newPriceLevelStore demo_config = Some demo_empty"
    by (simp add: demo_empty_def newPriceLevelStore_def validatedPriceConfig_def demo_config_def)
  note N = stores_inv_new [OF demo_table s]
  obtain x s' where p: "prepareBook demo_empty 7 = (x, s')" by fastforce
  note P = stores_inv_prepare [OF N(1), of 7 x s', unfolded OrderBook.Stores.select_convs, OF p]
  have d: "demo_stores = \<lparr>orders = demo_table, prices = s'\<rparr>" using p by (simp add: demo_stores_def)
  show "stores_inv demo_stores" "book_orders demo_stores = Map.empty" "refs_seen demo_stores = {}"
    using P(1-3) N(2,3) d by simp_all
  show i: "isBookPrepared (prices demo_stores) 7"
    unfolding d using fun_cong [OF P(5), of 7] by (simp add: isValidStockLocate_def kInvalidStockLocate_def)
  show "\<not> local_invalid demo_book" "ob_stock_locate demo_book = 7"
    using i by (simp_all add: demo_book_def newManagedBook_def emptyBook_def)
qed

lemma demo_applied: "fst demo_add_run = Applied" by code_simp

lemma demo_stores1:
  "stores_inv demo_stores1" "\<not> local_invalid demo_book1" "ob_stock_locate demo_book1 = 7" "isBookPrepared (prices demo_stores1) 7"
  "book_orders demo_stores1 = [3 \<mapsto> \<lparr>o_locate = 7, o_side = Buy, o_price = 100, o_qty = 5\<rparr>]" "refs_seen demo_stores1 = {3}"
proof -
  have r: "demo_add_run = (Applied, demo_book1, demo_stores1)"
    using demo_applied by (simp add: demo_book1_def demo_stores1_def prod_eq_iff)
  have A: "refines_add demo_book demo_stores 3 100 9 (Applied, demo_book1, demo_stores1)
      (spec_add 7 (refs_seen demo_stores) (book_orders demo_stores) 3 100 5 (decodeSideChar 0x42))"
    using addOrder_refines [OF demo_stores(1,5), where r = 3 and ts = 9 and price = 100 and qty = 5 and side = "0x42"] demo_stores(4,6) r
    unfolding demo_add_run_def by simp
  have sp: "spec_add 7 (refs_seen demo_stores) (book_orders demo_stores) 3 100 5 (decodeSideChar 0x42) =
    (Applied, [3 \<mapsto> \<lparr>o_locate = 7, o_side = Buy, o_price = 100, o_qty = 5\<rparr>])"
    by (simp add: spec_add_def demo_stores decodeSideChar_def)
  have c: "fst (spec_add 7 (refs_seen demo_stores) (book_orders demo_stores) 3 100 5 (decodeSideChar 0x42)) = Applied"
    "\<not> resource_failure demo_stores 7 3 100 Applied" using sp by (auto simp: resource_defs)
  show "stores_inv demo_stores1" "isBookPrepared (prices demo_stores1) 7" "refs_seen demo_stores1 = {3}"
    "book_orders demo_stores1 = [3 \<mapsto> \<lparr>o_locate = 7, o_side = Buy, o_price = 100, o_qty = 5\<rparr>]"
    using A c sp demo_stores(3,4,6) by (auto simp: refines_add_def)
  have d: "demo_book1 = book_after demo_book (book_orders demo_stores) (book_orders demo_stores1) Applied 9"
    using A by (simp add: refines_add_def)
  show "\<not> local_invalid demo_book1" "ob_stock_locate demo_book1 = 7"
    unfolding d using demo_stores(5,6) by (simp_all add: book_after_def)
qed

definition shown_level :: "Stores \<Rightarrow> u16 \<Rightarrow> OrderSide \<Rightarrow> u32 \<Rightarrow> BookLevelUpdate" where
  "shown_level st loc sd x = \<lparr>lvl_price = ucast x,
     lvl_qty = of_nat (\<Sum>r\<in>orders_at st loc sd x. unat (o_qty (the (book_orders st r)))),
     lvl_num_orders = of_nat (card (orders_at st loc sd x))\<rparr>"

lemma levelUpdate_shown:
  assumes "stores_inv st" "validSide sd"
  shows "levelUpdate (view_at (prices st) loc sd x) = shown_level st loc sd x"
  using book_level_orders [OF assms, of loc x, symmetric]
  by (simp add: levelUpdate_def view_at_def shown_level_def)

lemma topTen_shown:
  assumes "stores_inv st" "isBookPrepared (prices st) loc" "validSide sd"
  shows "map levelUpdate (topTen (prices st) loc sd 10) = map (shown_level st loc sd) (take 10 (best_first sd (order_prices st loc sd)))"
  unfolding topTen_best_first [OF stores_store_inv [OF assms(1)] assms(2,3)] act_prices_orders [OF assms(1,3)]
  by (simp add: levelUpdate_shown [OF assms(1,3)])

section \<open>Properties\<close>

text \<open>C33. Adding an order. The call refines the abstract insertion: on success exactly the new order appears,
  its reference counts as seen from then on and the book counts one live order more; an
  unacceptable request is refused with its reason and changes no order. An acceptable request is
  refused only in three situations, each with its own result code: the reference is not directly addressed and its candidate
  slots have all been used; the price has no page in the book and every page of the arena is committed; or at
  least \<open>2^32 - 1\<close> orders are live and a level would pass its counters. A refusal changes neither the orders nor the used
  references. The stores stay consistent on every path.\<close>

theorem book_add_refines:
  assumes "stores_inv st" and "\<not> local_invalid b" and "isBookPrepared (prices st) (ob_stock_locate b)"
  shows "refines_add b st r price ts (addOrder b st r price qty side ts)
    (spec_add (ob_stock_locate b) (refs_seen st) (book_orders st) r price qty (decodeSideChar side))"
  by (rule addOrder_refines [OF assms])

theorem book_add_refines_witness:
  "refines_add demo_book1 demo_stores1 3 100 9 (addOrder demo_book1 demo_stores1 3 100 5 0x42 9)
     (DuplicateOrderRef, book_orders demo_stores1) \<and>
   refines_add demo_book1 demo_stores1 2 200 9 (addOrder demo_book1 demo_stores1 2 200 8 0x53 9)
     (Applied, (book_orders demo_stores1)(2 \<mapsto> \<lparr>o_locate = 7, o_side = Sell, o_price = 200, o_qty = 8\<rparr>))"
  using book_add_refines [OF demo_stores1(1,2), where r = 3 and ts = 9 and price = 100 and qty = 5 and side = "0x42"]
    book_add_refines [OF demo_stores1(1,2), where r = 2 and ts = 9 and price = 200 and qty = 8 and side = "0x53"] demo_stores1
  by (simp add: spec_add_def decodeSideChar_def)

text \<open>C34. Reducing and removing orders: partial cancel, delete and execution refine their specifications over
  the map of live orders. A cancel must leave a remainder, an execution of the whole quantity
  removes the order, a foreign or unknown reference is refused, and no call touches another order
  or forgets a reference.\<close>

theorem book_reductions_refine:
  assumes "stores_inv st" and "\<not> local_invalid b"
  shows "refines_spec b st ts (cancelShares b st r n ts) (spec_cancel (ob_stock_locate b) (book_orders st) r n) \<and>
    refines_spec b st ts (deleteOrder b st r ts) (spec_delete (ob_stock_locate b) (book_orders st) r) \<and>
    refines_spec b st ts (executeOrder b st r n ts) (spec_execute (ob_stock_locate b) (book_orders st) r n)"
  using cancelShares_refines [OF assms] deleteOrder_refines [OF assms] executeOrder_refines [OF assms] by blast

theorem book_reductions_refine_witness:
  "refines_spec demo_book1 demo_stores1 11 (executeOrder demo_book1 demo_stores1 3 5 11) (Applied, Map.empty) \<and>
   refines_spec demo_book1 demo_stores1 11 (cancelShares demo_book1 demo_stores1 3 5 11) (QuantityExceeded, book_orders demo_stores1)"
  using book_reductions_refine [OF demo_stores1(1,2), of 11 3 5] demo_stores1(3,5) by (simp add: spec_execute_def spec_cancel_def)

text \<open>C35. Replacing an order: on success the old order is gone and the new reference carries the new price
  and quantity on the same side of the same book, the number of live orders does not change, and a
  reference used before is refused. On every refusal, a resource failure included, the live
  orders are exactly those before the call.\<close>

theorem book_replace_refines:
  assumes "stores_inv st" and "\<not> local_invalid b" and "isBookPrepared (prices st) (ob_stock_locate b)"
  shows "refines_replace b st new price ts (replaceOrder b st old new price qty ts)
    (spec_replace (ob_stock_locate b) (refs_seen st) (book_orders st) old new price qty)"
  by (rule replaceOrder_refines [OF assms])

theorem book_replace_refines_witness:
  "refines_replace demo_book1 demo_stores1 2 200 12 (replaceOrder demo_book1 demo_stores1 3 2 200 8 12)
     (Applied, [2 \<mapsto> \<lparr>o_locate = 7, o_side = Buy, o_price = 200, o_qty = 8\<rparr>])"
  using book_replace_refines [OF demo_stores1(1,2), where old = 3 and new = 2 and price = 200 and qty = 8 and ts = 12]
    demo_stores1(3-6) by (simp add: spec_replace_def)

text \<open>The published depth: each side of a book update lists the best ten prices at which the book has
  live orders, best first, each with the exact sum of the quantities and the exact number of the
  orders at that price.\<close>

theorem book_update_exact:
  assumes "stores_inv st" and "isBookPrepared (prices st) (ob_stock_locate b)"
  shows "getBookUpdate b st =
    \<lparr>upd_bids = map (shown_level st (ob_stock_locate b) Buy) (take 10 (best_first Buy (order_prices st (ob_stock_locate b) Buy))),
     upd_asks = map (shown_level st (ob_stock_locate b) Sell) (take 10 (best_first Sell (order_prices st (ob_stock_locate b) Sell))),
     upd_timestamp = latest_update_timestamp b, upd_symbol_id = ob_symbol_id b\<rparr>"
  using topTen_shown [OF assms, of Buy] topTen_shown [OF assms, of Sell] by (simp add: getBookUpdate_def validSide_def)

lemma demo_order_prices: "order_prices demo_stores1 7 Buy = {100}" "order_prices demo_stores1 7 Sell = {}"
  "orders_at demo_stores1 7 Buy 100 = {3}"
  by (auto simp: order_prices_def orders_at_def demo_stores1(5) split: if_splits)

theorem book_update_exact_witness:
  "upd_bids (getBookUpdate demo_book1 demo_stores1) = [\<lparr>lvl_price = 100, lvl_qty = 5, lvl_num_orders = 1\<rparr>] \<and>
   upd_asks (getBookUpdate demo_book1 demo_stores1) = []"
  using book_update_exact [OF demo_stores1(1), of demo_book1] demo_stores1(3,4)
  by (simp add: demo_order_prices best_first_def shown_level_def demo_stores1(5))

text \<open>C36. The top of the book: a side is reported exactly when the book has a live order on it, with the
  highest bid or the lowest ask among its orders and the total quantity of the orders there.\<close>

theorem top_of_book_exact:
  assumes "stores_inv st" and "isBookPrepared (prices st) (ob_stock_locate b)"
  shows "getTopOfBook b st =
    (let B = order_prices st (ob_stock_locate b) Buy; A = order_prices st (ob_stock_locate b) Sell;
         bid = shown_level st (ob_stock_locate b) Buy (Max B); ask = shown_level st (ob_stock_locate b) Sell (Min A)
     in \<lparr>top_timestamp = latest_update_timestamp b,
         bid_price = (if B = {} then 0 else lvl_price bid), bid_qty = (if B = {} then 0 else lvl_qty bid),
         ask_price = (if A = {} then 0 else lvl_price ask), ask_qty = (if A = {} then 0 else lvl_qty ask),
         top_symbol_id = ob_symbol_id b, has_bid = (B \<noteq> {}), has_ask = (A \<noteq> {})\<rparr>)"
proof -
  have "lvl_price (shown_level st (ob_stock_locate b) sd x) = ucast (view_raw_price (view_at (prices st) (ob_stock_locate b) sd x))"
    "lvl_qty (shown_level st (ob_stock_locate b) sd x) = view_total_qty (view_at (prices st) (ob_stock_locate b) sd x)"
    if "validSide sd" for sd x
    unfolding levelUpdate_shown [OF assms(1) that, symmetric] by (simp_all add: levelUpdate_def)
  then show ?thesis using side_view [OF assms, of Buy] side_view [OF assms, of Sell]
    by (simp add: getTopOfBook_def validSide_def Let_def noView_def view_at_def)
qed

theorem top_of_book_exact_witness:
  "getTopOfBook demo_book1 demo_stores1 =
     \<lparr>top_timestamp = 9, bid_price = 100, bid_qty = 5, ask_price = 0, ask_qty = 0, top_symbol_id = 7,
      has_bid = True, has_ask = False\<rparr>"
proof -
  have "latest_update_timestamp demo_book1 = 9" "ob_symbol_id demo_book1 = 7" by code_simp+
  then show ?thesis using top_of_book_exact [OF demo_stores1(1), of demo_book1] demo_stores1(3,4)
    by (simp add: demo_order_prices Let_def shown_level_def demo_stores1(5))
qed

end
