(* ===== verification/BookManagerInv.thy ===== *)
theory BookManagerInv
  imports OrderBookCorrect BookManager
begin

text \<open>
  The books of the manager together. Every call on one book leaves the orders of the others alone
  (\<open>local_change\<close>), keeps the configuration and the number of prepared books (\<open>stores_frame\<close>) and moves
  the live-order counter of its book by the change of its orders (\<open>call_effect\<close>). \<open>manager_inv\<close> is the
  resulting invariant of the manager, kept by every public operation (\<open>manager_step\<close>), and the number of
  live orders is bounded by the slots of the order table.
\<close>

section \<open>What every operation of a book leaves alone\<close>

definition stores_frame :: "Stores \<Rightarrow> OrderTableConfig \<times> u32" where
  "stores_frame st = (ot_config (orders st), prepared_book_count (prices st))"

lemma table_frame [simp]:
  "ot_config (storeState t l v) = ot_config t" "ot_config (snd (ot_commit t res v)) = ot_config t"
  "ot_config (snd (ot_erase t p)) = ot_config t" "ot_config (snd (ot_eraseRef t r)) = ot_config t"
  by (auto simp: storeState_frame ot_commit_def ot_erase_def ot_eraseRef_def Let_def case_prod_beta split: option.split)

lemma same_arena_count: "same_arena s t \<Longrightarrow> prepared_book_count t = prepared_book_count s"
  by (simp add: same_arena_def)

lemma same_arena_snd:
  "same_arena s (snd (pls_add s a sd q))" "same_arena s (snd (pls_erase s a sd q))"
  "same_arena s (snd (pls_move s a q b r sd))" "same_arena s (snd (reduceChecked s loc p a sd q red))"
  by (simp_all add: pls_add_def pls_erase_def pls_move_def reduceChecked_def reduceLevel_def Let_def case_prod_beta
      split: option.split)

lemma price_frame [simp]:
  "prepared_book_count (snd (pls_add s a sd q)) = prepared_book_count s"
  "prepared_book_count (snd (pls_erase s a sd q)) = prepared_book_count s"
  "prepared_book_count (snd (pls_move s a q b r sd)) = prepared_book_count s"
  "prepared_book_count (snd (reduceChecked s loc p a sd q red)) = prepared_book_count s"
  "prepared_book_count (snd (reservePrice s loc x)) = prepared_book_count s"
  "prepared_book_count (snd (commitReservation s res)) = prepared_book_count s"
  using same_arena_snd [THEN same_arena_count] by (simp_all add: reservePrice_def commitReservation_def Let_def)

lemma op_frame:
  "stores_frame (snd (snd (addOrder b st r price qty side ts))) = stores_frame st"
  "stores_frame (snd (snd (cancelShares b st r n ts))) = stores_frame st"
  "stores_frame (snd (snd (deleteOrder b st r ts))) = stores_frame st"
  "stores_frame (snd (snd (executeOrder b st r n ts))) = stores_frame st"
  "stores_frame (snd (snd (replaceOrder b st r r' price qty ts))) = stores_frame st"
  by (simp_all add: stores_frame_def addOrder_def cancelShares_def deleteOrder_def executeOrder_def replaceOrder_def
      rejected_simps case_prod_beta Let_def split: option.split)

section \<open>The number of live orders\<close>

lemma live_orders_bound:
  assumes inv: "table_inv t"
  shows "card (dom (live_state t)) \<le> unat (direct_slots (ot_config t)) + 2 * unat (fallback_bucket_count (ot_config t))"
proof -
  let ?D = "direct_slots (ot_config t)" and ?F = "fallback_bucket_count (ot_config t)"
  let ?S = "InDirect ` {r. r < ?D} \<union> (\<lambda>(b, w). InFallback b w) ` ({b. b < ?F} \<times> {0, 1})"
  let ?f = "\<lambda>r. the (findState t r)"
  have dom: "dom (live_state t) = {r. findState t r \<noteq> None}" by (auto simp: live_state_def)
  have "inj_on ?f (dom (live_state t))" unfolding dom by (auto intro!: inj_onI dest: findState_inj [OF inv])
  moreover have "?f ` dom (live_state t) \<subseteq> ?S"
  proof -
    have "l \<in> ?S" if rl: "findState t r = Some l" for r l
    proof (cases "r < ?D")
      case False
      then obtain bk w where l: "l = InFallback bk w" "slotHolds t r bk w" using rl findState_iff [OF inv, of r l] by auto
      then obtain p where "(p, bk, w) \<in> set (fallbackSlots t r)"
        using slotHolds_seen [OF inv l(2)] inv unfolding table_inv_def by blast
      then have "bk < ?F" "w = 0 \<or> w = 1"
        using inv candidate_buckets_bound [of t p bk w r] by (auto simp: fallbackSlots_mem table_inv_def)
      then show ?thesis using l by auto
    qed (use rl in \<open>auto simp: findState_iff [OF inv]\<close>)
    then have "the (findState t r) \<in> ?S" if "findState t r \<noteq> None" for r using that by (metis option.collapse)
    then show ?thesis unfolding dom by blast
  qed
  moreover have "finite ?S" by simp
  ultimately have "card (dom (live_state t)) \<le> card ?S" using card_inj_on_le by blast
  also have "\<dots> \<le> card {r. r < ?D} + card ({b. b < ?F} \<times> {0, 1 :: u8})"
    by (intro order_trans [OF card_Un_le] add_mono card_image_le) simp_all
  also have "\<dots> = unat ?D + 2 * unat ?F" by (simp add: card_word_less)
  finally show ?thesis .
qed

section \<open>The effect of a call on the orders of all books\<close>

definition orders_of :: "(u64 \<rightharpoonup> Order) \<Rightarrow> u16 \<Rightarrow> u64 set" where
  "orders_of m loc = {r. \<exists>w. m r = Some w \<and> o_locate w = loc}"

text \<open>Two maps of orders that agree outside one book.\<close>

definition local_change :: "u16 \<Rightarrow> (u64 \<rightharpoonup> Order) \<Rightarrow> (u64 \<rightharpoonup> Order) \<Rightarrow> bool" where
  "local_change loc m m' \<longleftrightarrow> (\<forall>r w. o_locate w \<noteq> loc \<longrightarrow> (m r = Some w) = (m' r = Some w))"

lemma local_change_simps [simp]:
  "local_change loc m m"
  "m r = None \<or> o_locate (the (m r)) = loc \<Longrightarrow> o_locate w = loc \<Longrightarrow> local_change loc m (m(r \<mapsto> w))"
  "m r = None \<or> o_locate (the (m r)) = loc \<Longrightarrow> local_change loc m (m(r := None))"
  by (auto simp: local_change_def)

lemma local_change_trans: "local_change loc m m' \<Longrightarrow> local_change loc m' m'' \<Longrightarrow> local_change loc m m''"
  by (auto simp: local_change_def)

lemma orders_of_other: "local_change loc m m' \<Longrightarrow> l \<noteq> loc \<Longrightarrow> orders_of m' l = orders_of m l"
  by (auto simp: orders_of_def local_change_def)

lemma card_orders_split: "card (dom m) = card (orders_of m loc) + card (dom m - orders_of m loc)"
proof -
  have "orders_of m loc \<subseteq> dom m" by (auto simp: orders_of_def)
  then have "card (dom m - orders_of m loc) = card (dom m) - card (orders_of m loc)" "card (orders_of m loc) \<le> card (dom m)"
    by (simp_all add: card_Diff_subset card_mono)
  then show ?thesis by simp
qed

lemma local_change_count:
  assumes "local_change loc m m'"
  shows "(of_nat (card (dom m')) :: u64) - of_nat (card (dom m)) = of_nat (card (orders_of m' loc)) - of_nat (card (orders_of m loc))"
proof -
  have "dom m' - orders_of m' loc = dom m - orders_of m loc"
  proof -
    have foreign: "dom k - orders_of k loc = {r. \<exists>w. o_locate w \<noteq> loc \<and> k r = Some w}" for k
      by (auto simp: orders_of_def)
    show ?thesis unfolding foreign using assms by (simp add: local_change_def cong: conj_cong)
  qed
  then show ?thesis using card_orders_split [of m loc] card_orders_split [of m' loc] by simp
qed

section \<open>Calls\<close>

datatype book_call =
    CallAdd u64 u64 u32 u8 u64
  | CallCancel u64 u32 u64
  | CallDelete u64 u64
  | CallExecute u64 u32 u64
  | CallReplace u64 u64 u64 u32 u64

fun run_call :: "book_call \<Rightarrow> OrderBook \<Rightarrow> Stores \<Rightarrow> BookResult" where
  "run_call (CallAdd r price qty side ts) b st = addOrder b st r price qty side ts"
| "run_call (CallCancel r n ts) b st = cancelShares b st r n ts"
| "run_call (CallDelete r ts) b st = deleteOrder b st r ts"
| "run_call (CallExecute r n ts) b st = executeOrder b st r n ts"
| "run_call (CallReplace r r' price qty ts) b st = replaceOrder b st r r' price qty ts"

text \<open>What the refinement proofs say of any call at once.\<close>

definition call_effect :: "OrderBook \<Rightarrow> Stores \<Rightarrow> BookResult \<Rightarrow> bool" where
  "call_effect b st res \<longleftrightarrow> (case res of (x, b', st') \<Rightarrow>
     stores_inv st' \<and> isBookPrepared (prices st') = isBookPrepared (prices st) \<and> stores_frame st' = stores_frame st \<and>
     local_change (ob_stock_locate b) (book_orders st) (book_orders st') \<and>
     (x \<noteq> Applied \<longrightarrow> book_orders st' = book_orders st) \<and> refs_seen st \<subseteq> refs_seen st' \<and>
     (\<exists>ts. b' = book_after b (book_orders st) (book_orders st') x ts) \<and>
     (reject_kind x \<longrightarrow> 2 ^ 32 - 1 \<le> card (dom (book_orders st))))"

lemma spec_changes:
  assumes live: "\<And>r w. m r = Some w \<Longrightarrow> r \<in> s"
  shows "local_change loc m (snd (spec_cancel loc m r n))" "local_change loc m (snd (spec_delete loc m r))"
    "local_change loc m (snd (spec_execute loc m r n))" "local_change loc m (snd (spec_add loc s m r p q sd))"
    "local_change loc m (snd (spec_replace loc s m r r' p q))"
proof -
  have fresh: "m r = None" if "r \<notin> s" for r using live that by (cases "m r") auto
  show "local_change loc m (snd (spec_cancel loc m r n))" "local_change loc m (snd (spec_delete loc m r))"
    "local_change loc m (snd (spec_execute loc m r n))"
    by (cases "m r"; simp add: spec_cancel_def spec_delete_def spec_execute_def)+
  show "local_change loc m (snd (spec_add loc s m r p q sd))"
    using fresh by (simp add: spec_add_def)
  show "local_change loc m (snd (spec_replace loc s m r r' p q))"
  proof (cases "m r")
    case (Some w)
    show ?thesis
    proof (cases "o_locate w = loc \<and> (r' = r \<or> r' \<notin> s)")
      case True
      then have "local_change loc m (m(r := None))" using Some by simp
      moreover have "local_change loc (m(r := None)) (m(r := None, r' \<mapsto> \<lparr>o_locate = loc, o_side = o_side w, o_price = ucast p, o_qty = q\<rparr>))"
        by (rule local_change_simps(2)) (use True fresh [of r'] in auto)
      ultimately show ?thesis using Some by (simp add: spec_replace_def) (blast intro: local_change_trans)
    qed (use Some in \<open>auto simp: spec_replace_def\<close>)
  qed (simp add: spec_replace_def)
qed

lemma spec_no_internal:
  "\<not> reject_kind (fst (spec_cancel loc m r n))" "\<not> reject_kind (fst (spec_delete loc m r))"
  "\<not> reject_kind (fst (spec_execute loc m r n))" "\<not> reject_kind (fst (spec_add loc s m r p q sd))"
  "\<not> reject_kind (fst (spec_replace loc s m r r' p q))"
  by (auto simp: reject_kind_def spec_cancel_def spec_delete_def spec_execute_def spec_add_def spec_replace_def split: option.split)

lemma spec_rejected:
  "fst (spec_cancel loc m r n) \<noteq> Applied \<Longrightarrow> snd (spec_cancel loc m r n) = m"
  "fst (spec_delete loc m r) \<noteq> Applied \<Longrightarrow> snd (spec_delete loc m r) = m"
  "fst (spec_execute loc m r n) \<noteq> Applied \<Longrightarrow> snd (spec_execute loc m r n) = m"
  "fst (spec_add loc s m r p q sd) \<noteq> Applied \<Longrightarrow> snd (spec_add loc s m r p q sd) = m"
  "fst (spec_replace loc s m r r' p q) \<noteq> Applied \<Longrightarrow> snd (spec_replace loc s m r r' p q) = m"
  by (auto simp: spec_cancel_def spec_delete_def spec_execute_def spec_add_def spec_replace_def split: option.splits if_splits)

lemma refines_spec_effect:
  assumes "refines_spec b st ts res spec" "local_change (ob_stock_locate b) (book_orders st) (snd spec)"
    "\<not> reject_kind (fst spec)" "fst spec \<noteq> Applied \<Longrightarrow> snd spec = book_orders st" "stores_frame (snd (snd res)) = stores_frame st"
  shows "call_effect b st res"
  using assms by (cases res) (auto simp: refines_spec_def call_effect_def)

lemma resource_failure_kind: "resource_failure st loc r price x \<Longrightarrow> reject_kind x \<Longrightarrow> 2 ^ 32 - 1 \<le> card (dom (book_orders st))"
  by (auto simp: resource_defs reject_kind_def)

lemma resource_not_applied: "\<not> resource_failure st loc r price Applied" "\<not> out_of_room st loc r price Applied" "\<not> counters_full st Applied"
  by (simp_all add: resource_defs)

lemma refines_add_effect:
  assumes "refines_add b st r price ts res spec" "local_change (ob_stock_locate b) (book_orders st) (snd spec)"
    "\<not> reject_kind (fst spec)" "fst spec \<noteq> Applied \<Longrightarrow> snd spec = book_orders st" "stores_frame (snd (snd res)) = stores_frame st"
  shows "call_effect b st res"
  using assms resource_failure_kind [of st _ _ _ "fst res"] by (cases res) (auto simp: refines_add_def call_effect_def)

lemma refines_replace_effect:
  assumes "refines_replace b st r price ts res spec" "local_change (ob_stock_locate b) (book_orders st) (snd spec)"
    "\<not> reject_kind (fst spec)" "fst spec \<noteq> Applied \<Longrightarrow> snd spec = book_orders st" "stores_frame (snd (snd res)) = stores_frame st"
  shows "call_effect b st res"
  using assms resource_failure_kind [of st _ _ _ "fst res"] by (cases res) (auto simp: refines_replace_def resource_failure_def call_effect_def)

lemma run_call_effect:
  assumes inv: "stores_inv st" and li: "\<not> local_invalid b" and prep: "isBookPrepared (prices st) (ob_stock_locate b)"
  shows "call_effect b st (run_call c b st)"
proof -
  note ch = spec_changes [OF seen_live [OF inv]]
  show ?thesis
  proof (cases c)
    case (CallAdd r price qty side ts)
    then show ?thesis using refines_add_effect [OF addOrder_refines [OF inv li prep] ch(4) spec_no_internal(4) spec_rejected(4) op_frame(1)]
      by simp
  next
    case (CallReplace r r' price qty ts)
    then show ?thesis using refines_replace_effect [OF replaceOrder_refines [OF inv li prep] ch(5) spec_no_internal(5) spec_rejected(5) op_frame(5)]
      by simp
  qed (simp_all add: refines_spec_effect [OF cancelShares_refines [OF inv li] ch(1) spec_no_internal(1) spec_rejected(1) op_frame(2)]
      refines_spec_effect [OF deleteOrder_refines [OF inv li] ch(2) spec_no_internal(2) spec_rejected(2) op_frame(3)]
      refines_spec_effect [OF executeOrder_refines [OF inv li] ch(3) spec_no_internal(3) spec_rejected(3) op_frame(4)])
qed

lemma run_call_invalid: "local_invalid b \<Longrightarrow> run_call c b st = (BookInvalid, b, st)"
  by (cases c) (simp_all add: addOrder_def cancelShares_def deleteOrder_def executeOrder_def replaceOrder_def)

section \<open>The manager's invariant\<close>

definition prepared_locates :: "PriceLevelStore \<Rightarrow> u16 set" where
  "prepared_locates s = {loc. isBookPrepared s loc}"

definition manager_inv :: "BookManager \<Rightarrow> bool" where
  "manager_inv m \<longleftrightarrow> stores_inv (mgr_stores m) \<and>
     (\<forall>loc. isBookPrepared (prices (mgr_stores m)) loc \<longleftrightarrow> mgr_books m loc \<noteq> None) \<and>
     (\<forall>loc b. mgr_books m loc = Some b \<longrightarrow> ob_stock_locate b = loc \<and> ob_symbol_id b = ucast loc \<and>
        live_order_count b = of_nat (card (orders_of (book_orders (mgr_stores m)) loc))) \<and>
     stores_frame (mgr_stores m) =
       (cfg_orders (mgr_config m), of_nat (card (prepared_locates (prices (mgr_stores m)))))"

lemma manager_invD:
  assumes "manager_inv m"
  shows "stores_inv (mgr_stores m)" "isBookPrepared (prices (mgr_stores m)) loc \<longleftrightarrow> mgr_books m loc \<noteq> None"
    "mgr_books m loc = Some b \<Longrightarrow> ob_stock_locate b = loc \<and> ob_symbol_id b = ucast loc \<and>
        live_order_count b = of_nat (card (orders_of (book_orders (mgr_stores m)) loc))"
    "ot_config (orders (mgr_stores m)) = cfg_orders (mgr_config m)"
    "prepared_book_count (prices (mgr_stores m)) = of_nat (card (prepared_locates (prices (mgr_stores m))))"
  using assms by (auto simp: manager_inv_def stores_frame_def)

lemma book_after_simps [simp]:
  "ob_stock_locate (book_after b m m' x ts) = ob_stock_locate b" "ob_symbol_id (book_after b m m' x ts) = ob_symbol_id b"
  "local_invalid (book_after b m m' x ts) \<longleftrightarrow> local_invalid b \<or> (x \<noteq> Applied \<and> reject_kind x)"
  "live_order_count (book_after b m m' x ts) = (if x = Applied
     then live_order_count b + of_nat (card (dom m')) - of_nat (card (dom m)) else live_order_count b)"
  by (auto simp: book_after_def)

lemma reject_kind_Applied [simp]: "\<not> reject_kind Applied" by (simp add: reject_kind_def)

definition no_invalid_book :: "BookManager \<Rightarrow> bool" where
  "no_invalid_book m \<longleftrightarrow> (\<forall>loc b. mgr_books m loc = Some b \<longrightarrow> \<not> local_invalid b)"

definition order_slots :: "BookManagerConfig \<Rightarrow> nat" where
  "order_slots c = unat (direct_slots (cfg_orders c)) + 2 * unat (fallback_bucket_count (cfg_orders c))"

lemma manager_live_bound: "manager_inv m \<Longrightarrow> card (dom (book_orders (mgr_stores m))) \<le> order_slots (mgr_config m)"
proof -
  assume inv: "manager_inv m"
  have "dom (book_orders (mgr_stores m)) = dom (live_state (orders (mgr_stores m)))" by (auto simp: book_orders_def)
  then show ?thesis using live_orders_bound [of "orders (mgr_stores m)"] manager_invD(1,4) [OF inv]
    by (simp add: order_slots_def stores_inv_def)
qed

lemma count_arith: "c = y \<Longrightarrow> a' - a = x - y \<Longrightarrow> c + a' - a = x" for c :: u64
  by (simp add: algebra_simps)

lemma route_inv:
  assumes inv: "manager_inv m" and r: "route m loc (run_call c) = (x, m')"
  shows "manager_inv m'" "mgr_config m' = mgr_config m"
    "no_invalid_book m \<Longrightarrow> order_slots (mgr_config m) < 2 ^ 32 - 1 \<Longrightarrow> no_invalid_book m' \<and> \<not> reject_kind x"
proof -
  let ?st = "mgr_stores m"
  have "manager_inv m' \<and> mgr_config m' = mgr_config m \<and>
    (no_invalid_book m \<longrightarrow> order_slots (mgr_config m) < 2 ^ 32 - 1 \<longrightarrow> no_invalid_book m' \<and> \<not> reject_kind x)"
  proof (cases "findBook m loc")
    case None
    then show ?thesis using r inv by (auto simp: route_def reject_kind_def)
  next
    case (Some b)
    then have b: "mgr_books m loc = Some b" by (simp add: findBook_def split: if_splits)
    note B = manager_invD(3) [OF inv b]
    have prep: "isBookPrepared (prices ?st) (ob_stock_locate b)" using manager_invD(2) [OF inv] b B by simp
    obtain b' st' where run: "run_call c b ?st = (x, b', st')" and m': "m' = m\<lparr>mgr_stores := st', mgr_books := (mgr_books m)(loc \<mapsto> b')\<rparr>"
      using r Some by (auto simp: route_def Let_def split: prod.splits)
    show ?thesis
    proof (cases "local_invalid b")
      case True
      then have "m' = m" using run run_call_invalid [of b c ?st] b m' by (simp add: fun_upd_idem)
      then show ?thesis using inv True b by (auto simp: no_invalid_book_def)
    next
      case False
      note E = run_call_effect [OF manager_invD(1) [OF inv] False prep, of c, unfolded run call_effect_def, simplified]
      then obtain ts where b': "b' = book_after b (book_orders ?st) (book_orders st') x ts" by blast
      have lc: "local_change loc (book_orders ?st) (book_orders st')" using E B by simp
      have cnt: "live_order_count b' = of_nat (card (orders_of (book_orders st') loc))"
        using count_arith [OF _ local_change_count [OF lc], of "live_order_count b"] B E by (cases "x = Applied") (simp_all add: b')
      have pl: "prepared_locates (prices st') = prepared_locates (prices ?st)" using E by (simp add: prepared_locates_def)
      have "manager_inv m'"
        using E B b' cnt pl manager_invD(2,3) [OF inv] inv orders_of_other [OF lc] b
        by (auto simp: m' manager_inv_def)
      moreover have "no_invalid_book m' \<and> \<not> reject_kind x" if "no_invalid_book m" "order_slots (mgr_config m) < 2 ^ 32 - 1"
        using that manager_live_bound [OF inv] E False by (auto simp: m' no_invalid_book_def b')
      ultimately show ?thesis by (simp add: m')
    qed
  qed
  then show "manager_inv m'" "mgr_config m' = mgr_config m"
    "no_invalid_book m \<Longrightarrow> order_slots (mgr_config m) < 2 ^ 32 - 1 \<Longrightarrow> no_invalid_book m' \<and> \<not> reject_kind x" by blast+
qed

lemma live_order_prepared:
  "stores_inv st \<Longrightarrow> book_orders st r = Some w \<Longrightarrow> isBookPrepared (prices st) (o_locate w)"
  using stores_inv_live(8) by (auto simp: book_orders_Some abs_order_def)

lemma getOrCreate_new:
  assumes inv: "manager_inv m" and v: "isValidStockLocate loc" and n: "mgr_books m loc = None"
  obtains s' b where "getOrCreate m loc = (Some b, m\<lparr>mgr_stores := (mgr_stores m)\<lparr>prices := s'\<rparr>, mgr_books := (mgr_books m)(loc \<mapsto> b)\<rparr>)"
    "stores_inv ((mgr_stores m)\<lparr>prices := s'\<rparr>)" "book_orders ((mgr_stores m)\<lparr>prices := s'\<rparr>) = book_orders (mgr_stores m)"
    "refs_seen ((mgr_stores m)\<lparr>prices := s'\<rparr>) = refs_seen (mgr_stores m)"
    "isBookPrepared s' = (\<lambda>l. isBookPrepared (prices (mgr_stores m)) l \<or> l = loc)"
    "prepared_book_count s' = prepared_book_count (prices (mgr_stores m)) + 1"
    "b = emptyBook (ucast loc) loc (direct_slots (cfg_orders (mgr_config m)))"
proof -
  obtain x s' where p: "prepareBook (prices (mgr_stores m)) loc = (x, s')" by fastforce
  note P = stores_inv_prepare [OF manager_invD(1) [OF inv] p]
  let ?b = "emptyBook (ucast loc) loc (direct_slots (cfg_orders (mgr_config m)))"
  have ip: "isBookPrepared s' = (\<lambda>l. isBookPrepared (prices (mgr_stores m)) l \<or> l = loc)" using P(5) v by simp
  have "getOrCreate m loc = (Some ?b, m\<lparr>mgr_stores := (mgr_stores m)\<lparr>prices := s'\<rparr>, mgr_books := (mgr_books m)(loc \<mapsto> ?b)\<rparr>)"
    using P(4) v n p ip by (simp add: getOrCreate_def findBook_def newManagedBook_def emptyBook_def Let_def)
  then show ?thesis using that P(1-3,6) ip v n manager_invD(2) [OF inv, of loc] by simp
qed

lemma getOrCreate_old:
  assumes "\<not> (isValidStockLocate loc \<and> mgr_books m loc = None)"
  shows "getOrCreate m loc = (if isValidStockLocate loc then mgr_books m loc else None, m)"
  using assms by (auto simp: getOrCreate_def findBook_def)

lemma getOrCreate_inv:
  assumes inv: "manager_inv m" and g: "getOrCreate m loc = (bk, m')"
  shows "manager_inv m'" "mgr_config m' = mgr_config m" "no_invalid_book m \<Longrightarrow> no_invalid_book m'"
    "book_orders (mgr_stores m') = book_orders (mgr_stores m)" "refs_seen (mgr_stores m') = refs_seen (mgr_stores m)"
    "bk \<noteq> None \<longleftrightarrow> isValidStockLocate loc"
    "dom (mgr_books m') = (if isValidStockLocate loc then insert loc (dom (mgr_books m)) else dom (mgr_books m))"
proof -
  have "manager_inv m' \<and> mgr_config m' = mgr_config m \<and> (no_invalid_book m \<longrightarrow> no_invalid_book m') \<and>
    book_orders (mgr_stores m') = book_orders (mgr_stores m) \<and> refs_seen (mgr_stores m') = refs_seen (mgr_stores m) \<and>
    (bk \<noteq> None \<longleftrightarrow> isValidStockLocate loc) \<and>
    dom (mgr_books m') = (if isValidStockLocate loc then insert loc (dom (mgr_books m)) else dom (mgr_books m))"
  proof (cases "isValidStockLocate loc \<and> mgr_books m loc = None")
    case True
    then obtain s' b where G: "getOrCreate m loc = (Some b, m\<lparr>mgr_stores := (mgr_stores m)\<lparr>prices := s'\<rparr>, mgr_books := (mgr_books m)(loc \<mapsto> b)\<rparr>)"
      "stores_inv ((mgr_stores m)\<lparr>prices := s'\<rparr>)" "book_orders ((mgr_stores m)\<lparr>prices := s'\<rparr>) = book_orders (mgr_stores m)"
      "refs_seen ((mgr_stores m)\<lparr>prices := s'\<rparr>) = refs_seen (mgr_stores m)"
      "isBookPrepared s' = (\<lambda>l. isBookPrepared (prices (mgr_stores m)) l \<or> l = loc)"
      "prepared_book_count s' = prepared_book_count (prices (mgr_stores m)) + 1"
      "b = emptyBook (ucast loc) loc (direct_slots (cfg_orders (mgr_config m)))"
      using getOrCreate_new [OF inv] by blast
    have np: "\<not> isBookPrepared (prices (mgr_stores m)) loc" using True manager_invD(2) [OF inv] by simp
    have none: "orders_of (book_orders (mgr_stores m)) loc = {}"
      using live_order_prepared [OF manager_invD(1) [OF inv]] np by (auto simp: orders_of_def)
    have "prepared_locates s' = insert loc (prepared_locates (prices (mgr_stores m)))" "loc \<notin> prepared_locates (prices (mgr_stores m))"
      using G(5) np by (auto simp: prepared_locates_def)
    then have c: "prepared_book_count s' = of_nat (card (prepared_locates s'))"
      using G(6) manager_invD(5) [OF inv] by simp
    have m': "m' = m\<lparr>mgr_stores := (mgr_stores m)\<lparr>prices := s'\<rparr>, mgr_books := (mgr_books m)(loc \<mapsto> b)\<rparr>" "bk = Some b"
      using g unfolding G(1) by auto
    have "manager_inv m'" using manager_invD [OF inv] G(2,3,5,7) none c
      by (auto simp: m' manager_inv_def stores_frame_def emptyBook_def)
    then show ?thesis using True G(3,4,7) by (auto simp: m' no_invalid_book_def emptyBook_def)
  next
    case False
    note o = getOrCreate_old [OF False]
    then show ?thesis using g inv False by (auto split: if_splits)
  qed
  then show "manager_inv m'" "mgr_config m' = mgr_config m" "no_invalid_book m \<Longrightarrow> no_invalid_book m'"
    "book_orders (mgr_stores m') = book_orders (mgr_stores m)" "refs_seen (mgr_stores m') = refs_seen (mgr_stores m)"
    "bk \<noteq> None \<longleftrightarrow> isValidStockLocate loc"
    "dom (mgr_books m') = (if isValidStockLocate loc then insert loc (dom (mgr_books m)) else dom (mgr_books m))"
    by blast+
qed

section \<open>Construction and runs\<close>

lemma ebind_Inr [simp]: "ebind x f = Inr y \<longleftrightarrow> (\<exists>a. x = Inr a \<and> f a = Inr y)"
  by (cases x) (simp_all add: ebind_def)

lemma new_manager_inv:
  assumes "newBookManager sb sa page config = Inr m"
  shows "manager_inv m" "no_invalid_book m" "mgr_config m = config" "book_orders (mgr_stores m) = Map.empty"
    "refs_seen (mgr_stores m) = {}" "mgr_books m = Map.empty"
proof -
  obtain fp t s where t: "newOrderTable (cfg_orders config) = Some t" and s: "newPriceLevelStore (cfg_prices config) = Some s"
    and m: "m = \<lparr>mgr_config = config, mgr_storage_footprint = fp, mgr_stores = \<lparr>orders = t, prices = s\<rparr>, mgr_books = (\<lambda>_. None)\<rparr>"
    using assms by (cases "newOrderTable (cfg_orders config)"; cases "newPriceLevelStore (cfg_prices config)")
      (auto simp: newBookManager_def)
  note N = stores_inv_new [OF t s] and S = new_store_empty [OF s]
  have "ot_config t = cfg_orders config" using t by (auto simp: newOrderTable_def validateTableConfig_def split: if_splits)
  then show "manager_inv m" using N(1) S(3,4)
    by (simp add: manager_inv_def m stores_frame_def prepared_locates_def)
  show "no_invalid_book m" "mgr_config m = config" "book_orders (mgr_stores m) = Map.empty"
    "refs_seen (mgr_stores m) = {}" "mgr_books m = Map.empty" using N(2,3) by (auto simp: m no_invalid_book_def)
qed

text \<open>The public mutations of the manager, with the result they return.\<close>

inductive manager_step :: "BookManager \<Rightarrow> MutationResult option \<Rightarrow> BookManager \<Rightarrow> bool" where
  "getOrCreate m loc = (bk, m') \<Longrightarrow> manager_step m None m'"
| "mgr_addOrder m loc r price qty side ts = (x, m') \<Longrightarrow> manager_step m (Some x) m'"
| "mgr_cancelShares m loc r n ts = (x, m') \<Longrightarrow> manager_step m (Some x) m'"
| "mgr_deleteOrder m loc r ts = (x, m') \<Longrightarrow> manager_step m (Some x) m'"
| "mgr_executeOrder m loc r n ts = (x, m') \<Longrightarrow> manager_step m (Some x) m'"
| "mgr_replaceOrder m loc r r' price qty ts = (x, m') \<Longrightarrow> manager_step m (Some x) m'"

inductive manager_reachable :: "BookManagerConfig \<Rightarrow> BookManager \<Rightarrow> bool" for config where
  manager_new: "newBookManager slot_bytes slot_align page config = Inr m \<Longrightarrow> manager_reachable config m"
| manager_more: "manager_reachable config m \<Longrightarrow> manager_step m x m' \<Longrightarrow> manager_reachable config m'"

lemma mgr_ops_route:
  "mgr_addOrder m loc r price qty side ts = route m loc (run_call (CallAdd r price qty side ts))"
  "mgr_cancelShares m loc r n ts = route m loc (run_call (CallCancel r n ts))"
  "mgr_deleteOrder m loc r ts = route m loc (run_call (CallDelete r ts))"
  "mgr_executeOrder m loc r n ts = route m loc (run_call (CallExecute r n ts))"
  "mgr_replaceOrder m loc r r' price qty ts = route m loc (run_call (CallReplace r r' price qty ts))"
  by (simp_all add: mgr_addOrder_def mgr_cancelShares_def mgr_deleteOrder_def mgr_executeOrder_def mgr_replaceOrder_def
      route_def split: option.split)

lemma manager_step_cases:
  assumes "manager_step m x m'"
  obtains (create) loc bk where "getOrCreate m loc = (bk, m')" "x = None"
  | (call) loc c y where "route m loc (run_call c) = (y, m')" "x = Some y"
  using assms by cases (auto simp: mgr_ops_route)

lemma manager_step_inv:
  assumes "manager_step m x m'" "manager_inv m"
  shows "manager_inv m'" "mgr_config m' = mgr_config m"
    "no_invalid_book m \<Longrightarrow> order_slots (mgr_config m) < 2 ^ 32 - 1 \<Longrightarrow> no_invalid_book m' \<and> (\<forall>y. x = Some y \<longrightarrow> \<not> reject_kind y)"
  using assms(1) by (cases rule: manager_step_cases; use getOrCreate_inv [OF assms(2)] route_inv [OF assms(2)] in auto)+

lemma manager_reachable_inv: "manager_reachable config m \<Longrightarrow> manager_inv m \<and> mgr_config m = config"
  by (induction rule: manager_reachable.induct) (use new_manager_inv manager_step_inv in auto)

lemma manager_reachable_valid:
  "manager_reachable config m \<Longrightarrow> order_slots config < 2 ^ 32 - 1 \<Longrightarrow> no_invalid_book m"
  by (induction rule: manager_reachable.induct) (use new_manager_inv manager_step_inv manager_reachable_inv in auto)

end
