(* ===== verification/StockDirectoryIndex.thy ===== *)
theory StockDirectoryIndex
  imports StockDirectory
begin

text \<open>
  The stock directory as a partial map from locates to tickers with an inverse. \<open>dir_inv\<close> is the invariant of
  the linear-probing index: every registered ticker is reached from its hash without crossing an empty
  slot. At most 65535 of the 131072 slots are in use, so that a free slot always exists. The locale
  \<open>ticker_directory\<close> states what the message handlers rely on.
\<close>

section \<open>The probe sequence\<close>

definition probe :: "u8 list \<Rightarrow> nat \<Rightarrow> u64" where
  "probe tk i = (tickerHash tk + of_nat i) AND kTickerIndexMask"

lemma unat_index_mask: "unat (x AND kTickerIndexMask) = unat x mod 2 ^ 17"
  using unat_and_mask [of x 17]
  by (simp add: kTickerIndexMask_def kTickerIndexCapacity_def mask_eq_exp_minus_1 push_bit_of_1)

lemma probe_start: "tickerHash tk AND kTickerIndexMask = probe tk 0" by (simp add: probe_def)

lemma unat_probe: "unat (probe tk i) = (unat (tickerHash tk) + i) mod 2 ^ 17"
proof -
  have "unat (tickerHash tk + of_nat i) = (unat (tickerHash tk) + i) mod 2 ^ 64"
    by (simp add: unat_word_ariths unat_of_nat mod_simps)
  moreover have "(unat (tickerHash tk) + i) mod 2 ^ 64 mod 2 ^ 17 = (unat (tickerHash tk) + i) mod 2 ^ 17"
    by (rule mod_mod_cancel) simp
  ultimately show ?thesis by (simp add: probe_def unat_index_mask)
qed

lemma probe_next: "(probe tk i + 1) AND kTickerIndexMask = probe tk (Suc i)"
proof -
  have "unat (probe tk i) < 2 ^ 17" by (simp add: unat_probe)
  then have "unat (probe tk i + 1) = unat (probe tk i) + 1" by (simp add: unat_word_ariths)
  then have "unat ((probe tk i + 1) AND kTickerIndexMask) = unat (probe tk (Suc i))"
    by (simp add: unat_index_mask unat_probe mod_simps)
  then show ?thesis by (simp add: word_unat_eq_iff)
qed

lemma probe_inj:
  assumes "probe tk i = probe tk j" "i < 2 ^ 17" "j < 2 ^ 17"
  shows "i = j"
proof -
  have *: "p = q" if "p \<le> q" "q < 2 ^ 17" "(c + q) mod 2 ^ 17 = (c + p) mod 2 ^ 17" for p q c :: nat
  proof -
    have "2 ^ 17 dvd q - p" using that mod_eq_dvd_iff_nat [of "c + p" "c + q" "2 ^ 17"] by simp
    then show ?thesis using that by (metis diff_is_0_eq dvd_imp_le le_antisym less_imp_diff_less linorder_not_le zero_less_diff)
  qed
  have "(unat (tickerHash tk) + i) mod 2 ^ 17 = (unat (tickerHash tk) + j) mod 2 ^ 17" using assms(1) by (metis unat_probe)
  then show ?thesis using * [of i j] * [of j i] assms(2,3) by (metis nat_le_linear)
qed

lemma probe_not_capacity: "probe tk i \<noteq> kTickerIndexCapacity"
proof -
  have "unat (probe tk i) < 2 ^ 17" by (simp add: unat_probe)
  moreover have "unat kTickerIndexCapacity = 2 ^ 17" by (simp add: kTickerIndexCapacity_def push_bit_of_1)
  ultimately show ?thesis by auto
qed

lemma unat_capacity: "unat kTickerIndexCapacity = 2 ^ 17" by (simp add: kTickerIndexCapacity_def push_bit_of_1)

section \<open>The probe loops\<close>

lemma locate_loop_result:
  "locate_loop n d tk s = loc \<Longrightarrow> loc \<noteq> 0 \<Longrightarrow> (\<exists>slot. dir_ticker_index d slot = loc) \<and> tickerView (dir_entries d loc) = tk"
  by (induction n d tk s rule: locate_loop.induct) (auto simp: Let_def kInvalidStockLocate_def split: if_splits)

lemma locate_loop_finds:
  "(\<forall>j<k. dir_ticker_index d (probe tk (i + j)) \<noteq> 0) \<Longrightarrow> dir_ticker_index d (probe tk (i + k)) \<noteq> 0 \<Longrightarrow>
   tickerView (dir_entries d (dir_ticker_index d (probe tk (i + k)))) = tk \<Longrightarrow> k < n \<Longrightarrow> locate_loop n d tk (probe tk i) \<noteq> 0"
proof (induction n arbitrary: i k)
  case (Suc n)
  show ?case
  proof (cases k)
    case 0
    then show ?thesis using Suc.prems by (simp add: Let_def kInvalidStockLocate_def)
  next
    case (Suc k')
    have "dir_ticker_index d (probe tk i) \<noteq> 0" using Suc.prems(1) Suc by force
    moreover have "locate_loop n d tk (probe tk (Suc i)) \<noteq> 0"
    proof (rule Suc.IH [of k'])
      show "\<forall>j<k'. dir_ticker_index d (probe tk (Suc i + j)) \<noteq> 0"
        using Suc.prems(1) Suc by (metis Suc_less_eq add_Suc_right add_Suc)
    qed (use Suc.prems Suc in simp_all)
    ultimately show ?thesis using probe_next [of tk i] by (simp add: Let_def kInvalidStockLocate_def)
  qed
qed simp

lemma empty_loop_cases:
  "(empty_loop n d (probe tk i) = kTickerIndexCapacity \<and> (\<forall>j<n. dir_ticker_index d (probe tk (i + j)) \<noteq> 0)) \<or>
   (\<exists>k<n. empty_loop n d (probe tk i) = probe tk (i + k) \<and> dir_ticker_index d (probe tk (i + k)) = 0 \<and>
      (\<forall>j<k. dir_ticker_index d (probe tk (i + j)) \<noteq> 0))"
proof (induction n arbitrary: i)
  case (Suc n)
  show ?case
  proof (cases "dir_ticker_index d (probe tk i) = 0")
    case True
    then show ?thesis by (intro disjI2 exI [of _ 0]) (simp add: kInvalidStockLocate_def)
  next
    case False
    then have e: "empty_loop (Suc n) d (probe tk i) = empty_loop n d (probe tk (Suc i))"
      by (simp add: kInvalidStockLocate_def probe_next)
    have all: "(\<forall>j<Suc k. dir_ticker_index d (probe tk (i + j)) \<noteq> 0) \<longleftrightarrow> (\<forall>j<k. dir_ticker_index d (probe tk (Suc i + j)) \<noteq> 0)" for k
      using False by (simp add: All_less_Suc2)
    from Suc.IH [of "Suc i"] show ?thesis
    proof (elim disjE exE conjE)
      fix k assume "k < n" "empty_loop n d (probe tk (Suc i)) = probe tk (Suc i + k)" "dir_ticker_index d (probe tk (Suc i + k)) = 0"
        "\<forall>j<k. dir_ticker_index d (probe tk (Suc i + j)) \<noteq> 0"
      then show ?thesis unfolding e all by (intro disjI2 exI [of _ "Suc k"]) (simp add: all)
    next
      assume "empty_loop n d (probe tk (Suc i)) = kTickerIndexCapacity" "\<forall>j<n. dir_ticker_index d (probe tk (Suc i + j)) \<noteq> 0"
      then show ?thesis unfolding e all by blast
    qed
  qed
qed simp


section \<open>The directory invariant\<close>

definition dir_tickers :: "StockDirectory \<Rightarrow> u16 \<rightharpoonup> u8 list" where
  "dir_tickers d loc = (if dir_isRegistered d loc then Some (tickerView (dir_entries d loc)) else None)"

definition on_probe_path :: "StockDirectory \<Rightarrow> u8 list \<Rightarrow> u16 \<Rightarrow> bool" where
  "on_probe_path d tk loc \<longleftrightarrow> (\<exists>k<2 ^ 17. dir_ticker_index d (probe tk k) = loc \<and> (\<forall>j<k. dir_ticker_index d (probe tk j) \<noteq> 0))"

definition dir_inv :: "StockDirectory \<Rightarrow> bool" where
  "dir_inv d \<longleftrightarrow> (\<forall>loc. length (sde_ticker (dir_entries d loc)) = 9) \<and>
     (\<forall>loc. dir_isRegistered d loc \<longrightarrow> sde_locate (dir_entries d loc) = loc) \<and>
     (\<forall>s. dir_ticker_index d s \<noteq> 0 \<longrightarrow> dir_isRegistered d (dir_ticker_index d s)) \<and>
     (\<forall>s s'. dir_ticker_index d s \<noteq> 0 \<longrightarrow> dir_ticker_index d s' = dir_ticker_index d s \<longrightarrow> s' = s) \<and>
     (\<forall>loc tk. dir_tickers d loc = Some tk \<longrightarrow> on_probe_path d tk loc) \<and>
     (\<forall>loc loc' tk. dir_tickers d loc = Some tk \<longrightarrow> dir_tickers d loc' = Some tk \<longrightarrow> loc' = loc) \<and>
     dir_count d = of_nat (card (dom (dir_tickers d)))"

lemma dir_inv_new: "dir_inv newStockDirectory" "dir_tickers newStockDirectory = Map.empty"
proof -
  have r: "\<not> dir_isRegistered newStockDirectory loc" for loc
    by (simp add: newStockDirectory_def zeroEntryRecord_def dir_isRegistered_def)
  then show t: "dir_tickers newStockDirectory = Map.empty" by (simp add: dir_tickers_def fun_eq_iff)
  show "dir_inv newStockDirectory" unfolding dir_inv_def t
    by (simp add: r) (simp add: newStockDirectory_def zeroEntryRecord_def)
qed

lemma view_nonempty: "length (sde_ticker e) = 9 \<Longrightarrow> tickerView e \<noteq> [] \<longleftrightarrow> hd (sde_ticker e) \<noteq> 0"
  by (cases "sde_ticker e") (auto simp: tickerView_def takeWhile_eq_Nil_iff)

lemma view_length: "length (tickerView e) \<le> 8"
  unfolding tickerView_def using length_takeWhile_le [of "\<lambda>c. c \<noteq> 0" "take 8 (sde_ticker e)"] by simp

lemma canonical_ticker:
  assumes "length (sde_ticker e) = 9"
  shows "length (sde_ticker (canonicalEntry loc e (tickerView e))) = 9"
    "tickerView (canonicalEntry loc e (tickerView e)) = tickerView e" "sde_locate (canonicalEntry loc e (tickerView e)) = loc"
proof -
  let ?v = "tickerView e"
  have v: "take (length ?v) (sde_ticker e) = ?v"
  proof -
    have "take (length ?v) (take 8 (sde_ticker e)) = ?v" unfolding tickerView_def by (rule takeWhile_eq_take [symmetric])
    then show ?thesis using view_length [of e] by (simp add: take_take min_def)
  qed
  have nz: "\<forall>c\<in>set ?v. c \<noteq> 0" unfolding tickerView_def by (metis set_takeWhileD)
  have t: "sde_ticker (canonicalEntry loc e ?v) = ?v @ replicate (9 - length ?v) 0" by (simp add: canonicalEntry_def v)
  show "length (sde_ticker (canonicalEntry loc e ?v)) = 9" using view_length [of e] by (simp add: t)
  have "takeWhile (\<lambda>c. c \<noteq> 0) (take 8 (?v @ replicate (9 - length ?v) 0)) = ?v"
    using nz view_length [of e] by (simp add: takeWhile_append)
  then show "tickerView (canonicalEntry loc e ?v) = ?v" by (subst tickerView_def) (simp add: t)
  show "sde_locate (canonicalEntry loc e ?v) = loc" by (simp add: canonicalEntry_def)
qed

lemma registered_index:
  assumes inv: "dir_inv d" and "dir_ticker_index d s \<noteq> 0"
  shows "dir_tickers d (dir_ticker_index d s) = Some (tickerView (dir_entries d (dir_ticker_index d s)))"
  using assms by (simp add: dir_inv_def dir_tickers_def)

text \<open>The reverse index inverts the ticker map.\<close>

lemma locateForTicker_decides:
  assumes inv: "dir_inv d" and tk: "tk \<noteq> []"
  shows "locateForTicker d tk = loc \<and> loc \<noteq> 0 \<longleftrightarrow> dir_tickers d loc = Some tk"
proof -
  let ?l = "locateForTicker d tk"
  have l: "?l = locate_loop (2 ^ 17) d tk (probe tk 0)"
    using tk by (simp only: locateForTicker_def unat_capacity probe_start if_False)
  have sound: "dir_tickers d ?l = Some tk" if "?l \<noteq> 0"
    using locate_loop_result [OF l [symmetric] that] registered_index [OF inv] that by metis
  have complete: "?l = loc \<and> loc \<noteq> 0" if r: "dir_tickers d loc = Some tk" for loc
  proof -
    have nz: "loc \<noteq> 0" using r by (auto simp: dir_tickers_def dir_isRegistered_def isValidStockLocate_def kInvalidStockLocate_def split: if_splits)
    have v: "tickerView (dir_entries d loc) = tk" using r by (simp add: dir_tickers_def split: if_splits)
    have "on_probe_path d tk loc" using inv r unfolding dir_inv_def by blast
    then obtain k where "k < 2 ^ 17" "dir_ticker_index d (probe tk k) = loc" "\<forall>j<k. dir_ticker_index d (probe tk j) \<noteq> 0"
      unfolding on_probe_path_def by blast
    then have "?l \<noteq> 0" unfolding l by (intro locate_loop_finds [of k]) (simp_all add: nz v)
    then show ?thesis using sound inv r nz unfolding dir_inv_def by blast
  qed
  show ?thesis using sound complete by blast
qed

lemma emptyReverseSlot_ok:
  assumes inv: "dir_inv d"
  obtains k where "k < 2 ^ 17" "emptyReverseSlot d tk = probe tk k" "dir_ticker_index d (probe tk k) = 0"
    "\<forall>j<k. dir_ticker_index d (probe tk j) \<noteq> 0"
proof -
  have e: "emptyReverseSlot d tk = empty_loop (2 ^ 17) d (probe tk 0)"
    by (simp only: emptyReverseSlot_def unat_capacity probe_start)
  have "\<not> (\<forall>j<2 ^ 17. dir_ticker_index d (probe tk j) \<noteq> 0)"
  proof
    assume a: "\<forall>j<2 ^ 17. dir_ticker_index d (probe tk j) \<noteq> 0"
    have "inj_on (\<lambda>j. dir_ticker_index d (probe tk j)) {..<2 ^ 17}"
      using a inv unfolding dir_inv_def by (intro inj_onI) (metis lessThan_iff probe_inj)
    from card_inj_on_le [OF this, of UNIV] have "(2::nat) ^ 17 \<le> CARD(u16)" by simp
    then show False by (simp add: card_word)
  qed
  then show ?thesis using that empty_loop_cases [of "2 ^ 17" d tk 0] e by auto
qed


section \<open>Registration\<close>

lemma dir_get_registered: "dir_get d loc = (if dir_isRegistered d loc then Some (dir_entries d loc) else None)"
  by (simp add: dir_get_def dir_isRegistered_def)

lemma dir_tickers_set:
  assumes "isValidStockLocate loc" "length (sde_ticker e) = 9" "tickerView e \<noteq> []"
    "dir_entries d' = (dir_entries d)(loc := canonicalEntry loc e (tickerView e))"
  shows "dir_tickers d' = (dir_tickers d)(loc \<mapsto> tickerView e)"
    "dir_isRegistered d' l \<longleftrightarrow> l = loc \<or> dir_isRegistered d l"
proof -
  note c = canonical_ticker [OF assms(2), of loc]
  have "hd (sde_ticker (canonicalEntry loc e (tickerView e))) \<noteq> 0"
    using view_nonempty [OF c(1)] c(2) assms(3) by simp
  then show "dir_tickers d' = (dir_tickers d)(loc \<mapsto> tickerView e)" "dir_isRegistered d' l \<longleftrightarrow> l = loc \<or> dir_isRegistered d l"
    using assms(1,4) c(2) by (auto simp: dir_tickers_def dir_isRegistered_def fun_eq_iff)
qed

lemma dir_refresh_inv:
  assumes inv: "dir_inv d" and v: "isValidStockLocate loc" "length (sde_ticker e) = 9"
    and t: "dir_tickers d loc = Some (tickerView e)" "tickerView e \<noteq> []"
    and d': "d' = d\<lparr>dir_entries := (dir_entries d)(loc := canonicalEntry loc e (tickerView e))\<rparr>"
  shows "dir_inv d'" "dir_tickers d' = dir_tickers d"
proof -
  have e: "dir_entries d' = (dir_entries d)(loc := canonicalEntry loc e (tickerView e))" by (simp add: d')
  note S = dir_tickers_set [OF v t(2) e]
  show dt: "dir_tickers d' = dir_tickers d" using S(1) t(1) by (simp add: fun_upd_idem)
  have "on_probe_path d' = on_probe_path d" by (simp add: on_probe_path_def d' fun_eq_iff)
  moreover have "dir_ticker_index d' = dir_ticker_index d" "dir_count d' = dir_count d" by (simp_all add: d')
  ultimately show "dir_inv d'" using inv canonical_ticker [OF v(2), of loc] S(2)
    unfolding dir_inv_def dt by (simp add: e)
qed

lemma dir_register_inv:
  assumes inv: "dir_inv d" and v: "isValidStockLocate loc" "length (sde_ticker e) = 9"
    and t: "dir_tickers d loc = None" "tickerView e \<noteq> []" "\<And>l. dir_tickers d l \<noteq> Some (tickerView e)"
    and k: "k < 2 ^ 17" "dir_ticker_index d (probe (tickerView e) k) = 0" "\<forall>j<k. dir_ticker_index d (probe (tickerView e) j) \<noteq> 0"
    and d': "d' = d\<lparr>dir_entries := (dir_entries d)(loc := canonicalEntry loc e (tickerView e)),
       dir_ticker_index := (dir_ticker_index d)(probe (tickerView e) k := loc), dir_count := dir_count d + 1\<rparr>"
  shows "dir_inv d'" "dir_tickers d' = (dir_tickers d)(loc \<mapsto> tickerView e)"
proof -
  have e: "dir_entries d' = (dir_entries d)(loc := canonicalEntry loc e (tickerView e))" by (simp add: d')
  note S = dir_tickers_set [OF v t(2) e]
  show "dir_tickers d' = (dir_tickers d)(loc \<mapsto> tickerView e)" by (rule S(1))
  have nz: "loc \<noteq> 0" using v by (simp add: isValidStockLocate_def kInvalidStockLocate_def)
  have idx: "dir_ticker_index d' = (dir_ticker_index d)(probe (tickerView e) k := loc)" by (simp add: d')
  have unused: "dir_ticker_index d s \<noteq> loc" for s
    using registered_index [OF inv, of s] t(1) nz by auto
  have path: "on_probe_path d' tk l" if "on_probe_path d tk l" "l \<noteq> 0" for tk l
    using that k(2) nz unfolding on_probe_path_def idx by (metis fun_upd_apply)
  have new: "on_probe_path d' (tickerView e) loc"
    unfolding on_probe_path_def idx using k nz by (intro exI [of _ k]) simp
  have c: "card (dom (dir_tickers d')) = Suc (card (dom (dir_tickers d)))"
    unfolding S(1) using t(1) by (simp add: domIff)
  have z: "l \<noteq> 0" if "dir_tickers d l = Some tk" for l tk
    using that by (auto simp: dir_tickers_def dir_isRegistered_def isValidStockLocate_def kInvalidStockLocate_def split: if_splits)
  show "dir_inv d'" unfolding dir_inv_def
  proof (intro conjI allI impI)
    fix l show "length (sde_ticker (dir_entries d' l)) = 9"
      using inv canonical_ticker(1) [OF v(2), of loc] by (simp add: e dir_inv_def)
    show "dir_isRegistered d' l \<Longrightarrow> sde_locate (dir_entries d' l) = l"
      using inv canonical_ticker(3) [OF v(2), of loc] S(2) [of l] by (auto simp: e dir_inv_def)
  next
    fix s assume "dir_ticker_index d' s \<noteq> 0"
    then show "dir_isRegistered d' (dir_ticker_index d' s)" using inv S(2) by (auto simp: idx dir_inv_def)
  next
    fix s s' assume "dir_ticker_index d' s \<noteq> 0" "dir_ticker_index d' s' = dir_ticker_index d' s"
    then show "s' = s" using inv unused unfolding idx dir_inv_def by (metis fun_upd_apply)
  next
    fix l tk assume l: "dir_tickers d' l = Some tk"
    show "on_probe_path d' tk l"
    proof (cases "l = loc")
      case False
      then have "dir_tickers d l = Some tk" using l S(1) by simp
      then show ?thesis using inv path z unfolding dir_inv_def by blast
    qed (use l S(1) new in simp)
  next
    fix l l' tk assume "dir_tickers d' l = Some tk" "dir_tickers d' l' = Some tk"
    then show "l' = l" using S(1) t(3) inv unfolding dir_inv_def by (metis fun_upd_apply option.sel)
  next
    show "dir_count d' = of_nat (card (dom (dir_tickers d')))" using inv unfolding c by (simp add: d' dir_inv_def)
  qed
qed

text \<open>What registration promises, over the map from locates to tickers.\<close>

definition spec_set :: "(u16 \<rightharpoonup> u8 list) \<Rightarrow> u16 \<Rightarrow> u8 list \<Rightarrow> bool" where
  "spec_set T loc tk \<longleftrightarrow> isValidStockLocate loc \<and> tk \<noteq> [] \<and>
     (case T loc of Some old \<Rightarrow> old = tk | None \<Rightarrow> tk \<notin> ran T)"

lemma dir_set_refines:
  assumes inv: "dir_inv d" and len: "length (sde_ticker e) = 9" and r: "dir_set d loc e = (ok, d')"
  shows "ok = spec_set (dir_tickers d) loc (tickerView e)" "dir_inv d'"
    "dir_tickers d' = (if ok then (dir_tickers d)(loc \<mapsto> tickerView e) else dir_tickers d)"
    "\<not> ok \<Longrightarrow> d' = d" "ok \<Longrightarrow> dir_entries d' = (dir_entries d)(loc := canonicalEntry loc e (tickerView e))"
proof -
  have "ok = spec_set (dir_tickers d) loc (tickerView e) \<and> dir_inv d' \<and>
    dir_tickers d' = (if ok then (dir_tickers d)(loc \<mapsto> tickerView e) else dir_tickers d) \<and> (\<not> ok \<longrightarrow> d' = d) \<and>
    (ok \<longrightarrow> dir_entries d' = (dir_entries d)(loc := canonicalEntry loc e (tickerView e)))"
  proof (cases "isValidStockLocate loc \<and> tickerView e \<noteq> []")
    case True
    note v = True [THEN conjunct1] and ne = True [THEN conjunct2]
    show ?thesis
    proof (cases "dir_isRegistered d loc")
      case reg: True
      have t: "dir_tickers d loc = Some (tickerView (dir_entries d loc))" using reg by (simp add: dir_tickers_def)
      show ?thesis
      proof (cases "tickerView (dir_entries d loc) = tickerView e")
        case True
        then have d': "ok" "d' = d\<lparr>dir_entries := (dir_entries d)(loc := canonicalEntry loc e (tickerView e))\<rparr>"
          using r v ne reg by (auto simp: dir_set_def dir_get_registered)
        then show ?thesis using dir_refresh_inv [OF inv v len _ ne d'(2)] t True v ne
          by (simp add: spec_set_def fun_upd_idem)
      qed (use r v ne reg inv t in \<open>auto simp: dir_set_def dir_get_registered spec_set_def\<close>)
    next
      case reg: False
      have t: "dir_tickers d loc = None" using reg by (simp add: dir_tickers_def)
      note L = locateForTicker_decides [OF inv ne]
      show ?thesis
      proof (cases "locateForTicker d (tickerView e) = 0")
        case True
        then have u: "dir_tickers d l \<noteq> Some (tickerView e)" for l using L [of l] by auto
        obtain k where k: "k < 2 ^ 17" "emptyReverseSlot d (tickerView e) = probe (tickerView e) k"
          "dir_ticker_index d (probe (tickerView e) k) = 0" "\<forall>j<k. dir_ticker_index d (probe (tickerView e) j) \<noteq> 0"
          by (rule emptyReverseSlot_ok [OF inv])
        have d': "ok" "d' = d\<lparr>dir_entries := (dir_entries d)(loc := canonicalEntry loc e (tickerView e)),
            dir_ticker_index := (dir_ticker_index d)(probe (tickerView e) k := loc), dir_count := dir_count d + 1\<rparr>"
          using r v ne reg True k(2) probe_not_capacity [of "tickerView e" k]
          by (auto simp: dir_set_def dir_get_registered kInvalidStockLocate_def Let_def)
        have "tickerView e \<notin> ran (dir_tickers d)" using u by (auto simp: ran_def)
        then show ?thesis using dir_register_inv [OF inv v len t ne u k(1,3,4) d'(2)] d' t v ne by (simp add: spec_set_def)
      next
        case False
        then have "tickerView e \<in> ran (dir_tickers d)" using L by (auto simp: ran_def)
        then show ?thesis using r v ne reg False t inv
          by (auto simp: dir_set_def dir_get_registered kInvalidStockLocate_def Let_def spec_set_def)
      qed
    qed
  next
    case False
    then have "dir_set d loc e = (False, d)" by (auto simp: dir_set_def Let_def)
    then show ?thesis using r inv False by (auto simp: spec_set_def)
  qed
  then show "ok = spec_set (dir_tickers d) loc (tickerView e)" "dir_inv d'"
    "dir_tickers d' = (if ok then (dir_tickers d)(loc \<mapsto> tickerView e) else dir_tickers d)"
    "\<not> ok \<Longrightarrow> d' = d" "ok \<Longrightarrow> dir_entries d' = (dir_entries d)(loc := canonicalEntry loc e (tickerView e))" by blast+
qed

section \<open>The directory as an interface\<close>

text \<open>What the message handlers rely on: registration either refuses and changes nothing, or adds one pair;
  the reverse lookup inverts the map.\<close>

locale ticker_directory =
  fixes inv :: "'d \<Rightarrow> bool" and tickers :: "'d \<Rightarrow> 'l \<rightharpoonup> 't"
    and register :: "'d \<Rightarrow> 'l \<Rightarrow> 'e \<Rightarrow> bool \<times> 'd" and find :: "'d \<Rightarrow> 't \<Rightarrow> 'l"
    and wf :: "'e \<Rightarrow> bool" and view :: "'e \<Rightarrow> 't" and valid :: "'l \<Rightarrow> bool" and usable :: "'t \<Rightarrow> bool"
  assumes register_inv: "inv d \<Longrightarrow> wf e \<Longrightarrow> inv (snd (register d l e))"
    and register_result: "inv d \<Longrightarrow> wf e \<Longrightarrow> fst (register d l e) \<longleftrightarrow> valid l \<and> usable (view e) \<and>
        (case tickers d l of Some old \<Rightarrow> old = view e | None \<Rightarrow> view e \<notin> ran (tickers d))"
    and register_effect: "inv d \<Longrightarrow> wf e \<Longrightarrow> tickers (snd (register d l e)) =
        (if fst (register d l e) then (tickers d)(l \<mapsto> view e) else tickers d)"
    and find_inverts: "inv d \<Longrightarrow> usable t \<Longrightarrow> find d t = l \<and> valid l \<longleftrightarrow> tickers d l = Some t"
begin

primrec registrations :: "('l \<times> 'e) list \<Rightarrow> 'd \<Rightarrow> 'd" where
  "registrations [] d = d"
| "registrations (x # xs) d = registrations xs (snd (register d (fst x) (snd x)))"

lemma registrations_inv: "inv d \<Longrightarrow> list_all (\<lambda>x. wf (snd x)) xs \<Longrightarrow> inv (registrations xs d)"
  by (induction xs arbitrary: d) (simp_all add: register_inv)

lemma registrations_keep:
  "inv d \<Longrightarrow> list_all (\<lambda>x. wf (snd x)) xs \<Longrightarrow> tickers d \<subseteq>\<^sub>m tickers (registrations xs d)"
proof (induction xs arbitrary: d)
  case (Cons x xs)
  then have wf: "wf (snd x)" by simp
  have "tickers d \<subseteq>\<^sub>m tickers (snd (register d (fst x) (snd x)))"
    using register_result [OF Cons.prems(1) wf, of "fst x"]
    by (auto simp: register_effect [OF Cons.prems(1) wf] map_le_def split: option.splits)
  then show ?case using Cons register_inv [OF Cons.prems(1) wf] by (auto intro: map_le_trans)
qed simp

lemma one_locate_per_ticker: "inv d \<Longrightarrow> usable t \<Longrightarrow> tickers d l = Some t \<Longrightarrow> tickers d l' = Some t \<Longrightarrow> l' = l"
  using find_inverts by metis

end

definition entry_wf :: "StockDirectoryEntry \<Rightarrow> bool" where
  "entry_wf e \<longleftrightarrow> length (sde_ticker e) = 9"

interpretation td: ticker_directory dir_inv dir_tickers dir_set locateForTicker entry_wf tickerView isValidStockLocate "\<lambda>t. t \<noteq> []"
proof
  fix d e l assume a: "dir_inv d" "entry_wf e"
  note R = dir_set_refines [OF a(1) a(2) [unfolded entry_wf_def] prod.collapse [symmetric]]
  show "dir_inv (snd (dir_set d l e))" by (rule R(2))
  show "fst (dir_set d l e) \<longleftrightarrow> isValidStockLocate l \<and> tickerView e \<noteq> [] \<and>
    (case dir_tickers d l of None \<Rightarrow> tickerView e \<notin> ran (dir_tickers d) | Some old \<Rightarrow> old = tickerView e)"
    using R(1) [of l] by (simp add: spec_set_def)
  show "dir_tickers (snd (dir_set d l e)) = (if fst (dir_set d l e) then (dir_tickers d)(l \<mapsto> tickerView e) else dir_tickers d)"
    by (rule R(3))
next
  fix d :: StockDirectory and t :: "u8 list" and l assume "dir_inv d" "t \<noteq> []"
  then show "locateForTicker d t = l \<and> isValidStockLocate l \<longleftrightarrow> dir_tickers d l = Some t"
    using locateForTicker_decides [of d t l] by (simp add: isValidStockLocate_def kInvalidStockLocate_def)
qed

definition directory_after :: "(u16 \<times> StockDirectoryEntry) list \<Rightarrow> StockDirectory" where
  "directory_after xs = td.registrations xs newStockDirectory"

section \<open>Properties\<close>

definition demo_entry :: StockDirectoryEntry where
  "demo_entry = zeroEntryRecord\<lparr>sde_ticker := [65, 66, 0, 90, 0, 0, 0, 0, 0]\<rparr>"

text \<open>Registration is decided by the pairs registered before: an entry is accepted exactly when the locate
  is valid, its ticker is nonempty, and either the locate already carries this ticker or neither
  the locate nor the ticker is in use. The reverse index never fills up. An accepted entry is stored in
  canonical form at its locate and changes no other one; a refused one changes nothing.\<close>

theorem registration_exact:
  assumes "dir_inv d" and "length (sde_ticker e) = 9"
  shows "(fst (dir_set d loc e) \<longleftrightarrow> spec_set (dir_tickers d) loc (tickerView e)) \<and> dir_inv (snd (dir_set d loc e)) \<and>
    (if fst (dir_set d loc e)
     then dir_entries (snd (dir_set d loc e)) = (dir_entries d)(loc := canonicalEntry loc e (tickerView e)) \<and>
       dir_tickers (snd (dir_set d loc e)) = (dir_tickers d)(loc \<mapsto> tickerView e)
     else snd (dir_set d loc e) = d)"
  using dir_set_refines [OF assms prod.collapse [symmetric], of loc] by auto

theorem registration_exact_witness:
  "fst (dir_set newStockDirectory 7 demo_entry) \<and> dir_tickers (snd (dir_set newStockDirectory 7 demo_entry)) = [7 \<mapsto> [65, 66]]"
proof -
  have "spec_set (dir_tickers newStockDirectory) 7 (tickerView demo_entry)" "length (sde_ticker demo_entry) = 9" "tickerView demo_entry = [65, 66]"
    by (simp_all add: dir_inv_new spec_set_def demo_entry_def tickerView_def isValidStockLocate_def kInvalidStockLocate_def)
  then show ?thesis using registration_exact [OF dir_inv_new(1), of demo_entry 7] by (simp add: dir_inv_new)
qed

text \<open>Whatever sequence of entries is registered, a locate keeps its ticker for good, no ticker names two
  locates, the size is the number of registered locates, and the reverse lookup returns exactly the
  locate of a ticker, or the invalid locate when it has none.\<close>

theorem directory_identity:
  assumes "list_all (\<lambda>x. entry_wf (snd x)) xs" and "list_all (\<lambda>x. entry_wf (snd x)) ys"
  shows "dir_tickers (directory_after xs) \<subseteq>\<^sub>m dir_tickers (directory_after (xs @ ys)) \<and>
    inj_on (dir_tickers (directory_after xs)) (dom (dir_tickers (directory_after xs))) \<and>
    dir_size (directory_after xs) = of_nat (card (dom (dir_tickers (directory_after xs)))) \<and>
    (\<forall>tk l. tk \<noteq> [] \<longrightarrow>
       (locateForTicker (directory_after xs) tk = l \<longleftrightarrow>
          (if l = kInvalidStockLocate then tk \<notin> ran (dir_tickers (directory_after xs)) else dir_tickers (directory_after xs) l = Some tk)))"
proof -
  let ?d = "directory_after xs"
  have inv: "dir_inv ?d" unfolding directory_after_def by (rule td.registrations_inv [OF dir_inv_new(1) assms(1)])
  have "td.registrations (xs @ ys) e = td.registrations ys (td.registrations xs e)" for e
    by (induction xs arbitrary: e) simp_all
  then have m: "dir_tickers ?d \<subseteq>\<^sub>m dir_tickers (directory_after (xs @ ys))"
    using td.registrations_keep [OF inv assms(2)] by (simp add: directory_after_def)
  have i: "inj_on (dir_tickers ?d) (dom (dir_tickers ?d))"
    using inv unfolding dir_inv_def by (intro inj_onI) (metis domD)
  have l: "locateForTicker ?d tk = l \<longleftrightarrow> (if l = kInvalidStockLocate then tk \<notin> ran (dir_tickers ?d) else dir_tickers ?d l = Some tk)"
    if "tk \<noteq> []" for tk l
  proof (cases "l = 0")
    case True
    have "locateForTicker ?d tk = 0 \<longleftrightarrow> (\<forall>l. dir_tickers ?d l \<noteq> Some tk)"
      using locateForTicker_decides [OF inv that] by metis
    then show ?thesis using True by (simp add: ran_def kInvalidStockLocate_def)
  qed (use locateForTicker_decides [OF inv that, of l] in \<open>simp add: kInvalidStockLocate_def\<close>)
  have "dir_size ?d = of_nat (card (dom (dir_tickers ?d)))" using inv by (simp add: dir_inv_def dir_size_def)
  then show ?thesis using m i l by blast
qed

theorem directory_identity_witness:
  "locateForTicker (directory_after [(7, demo_entry)]) [65, 66] = 7"
proof -
  have w: "entry_wf demo_entry" by (simp add: entry_wf_def demo_entry_def)
  have r: "fst (dir_set newStockDirectory 7 demo_entry)" unfolding td.register_result [OF dir_inv_new(1) w]
    by (simp add: dir_inv_new demo_entry_def tickerView_def isValidStockLocate_def kInvalidStockLocate_def)
  have "dir_tickers (directory_after [(7, demo_entry)]) 7 = Some [65, 66]"
    using td.register_effect [OF dir_inv_new(1) w, of 7] r by (simp add: directory_after_def demo_entry_def tickerView_def)
  then show ?thesis using directory_identity [of "[(7, demo_entry)]" "[]"] w by (simp add: kInvalidStockLocate_def)
qed

end
