(* ===== verification/BookManagerCorrect.thy ===== *)
theory BookManagerCorrect
  imports BookManagerInv StockDirectoryIndex
begin

text \<open>
  The cold scans of the manager (live-order total, directory audit) against the map of live orders and the
  directory, the exactness of the startup arithmetic, and the properties of the component.
\<close>

section \<open>Scans over the locates\<close>

lemma locateSlots_set: "set locateSlots = UNIV - {0}" "distinct locateSlots"
proof -
  have "x \<in> set locateSlots" if "x \<noteq> 0" for x :: u16
  proof -
    have "unat x \<in> {1..<65536}" using that unsigned_less [of x] by (simp add: Suc_le_eq unat_gt_0)
    then show ?thesis unfolding locateSlots_def by (auto intro!: image_eqI [of _ _ "unat x"])
  qed
  moreover have z: "(of_nat n :: u16) \<noteq> 0" if "n \<in> {1..<65536}" for n
    using that by (simp add: word_unat_eq_iff unat_of_nat)
  then have "0 \<notin> set locateSlots" unfolding locateSlots_def by force
  ultimately show "set locateSlots = UNIV - {0}" by auto
  have "inj_on (of_nat :: nat \<Rightarrow> u16) {1..<65536}"
  proof (rule inj_onI)
    fix a b :: nat assume ab: "a \<in> {1..<65536}" "b \<in> {1..<65536}" "(of_nat a :: u16) = of_nat b"
    then have "unat (of_nat a :: u16) = unat (of_nat b :: u16)" by simp
    then show "a = b" using ab(1,2) by (simp add: unat_of_nat)
  qed
  then show "distinct locateSlots" unfolding locateSlots_def by (simp add: distinct_map)
qed


lemma fold_add: "fold (\<lambda>s t. t + g s) xs a = a + sum_list (map g xs)" for a :: u64
  by (induction xs arbitrary: a) (simp_all add: add.assoc)

lemma total_live_sum:
  assumes inv: "manager_inv m"
  shows "totalLiveOrderCount m = of_nat (card (dom (book_orders (mgr_stores m))))"
proof -
  let ?O = "book_orders (mgr_stores m)"
  let ?g = "\<lambda>loc. case mgr_books m loc of None \<Rightarrow> 0 | Some b \<Rightarrow> live_order_count b"
  have none: "orders_of ?O loc = {}" if "mgr_books m loc = None" for loc
    using live_order_prepared [OF manager_invD(1) [OF inv]] manager_invD(2) [OF inv, of loc] that by (fastforce simp: orders_of_def)
  have g: "?g loc = of_nat (card (orders_of ?O loc))" for loc
    using none manager_invD(3) [OF inv, of loc] by (auto split: option.split)
  have z: "orders_of ?O 0 = {}"
    using none [of 0] manager_invD(2) [OF inv, of 0] by (auto simp: isBookPrepared_def isValidStockLocate_def kInvalidStockLocate_def)
  have "totalLiveOrderCount m = fold (\<lambda>s t. t + ?g s) locateSlots 0"
    unfolding totalLiveOrderCount_def by (rule arg_cong [of _ _ "\<lambda>f. fold f locateSlots 0"]) (auto simp: fun_eq_iff split: option.split)
  also have "\<dots> = (\<Sum>loc\<in>UNIV - {0}. ?g loc)"
    unfolding fold_add using sum_list_distinct_conv_sum_set [OF locateSlots_set(2), of ?g] by (simp add: locateSlots_set(1))
  also have "\<dots> = of_nat (\<Sum>loc\<in>UNIV. card (orders_of ?O loc))" unfolding g
    using z by (simp add: sum.remove [of UNIV 0])
  also have "(\<Sum>loc\<in>UNIV. card (orders_of ?O loc)) = card (\<Union>loc. orders_of ?O loc)"
    by (rule card_UN_disjoint [symmetric]) (auto simp: orders_of_def)
  also have "(\<Union>loc. orders_of ?O loc) = dom ?O" by (auto simp: orders_of_def)
  finally show ?thesis .
qed

section \<open>The directory audit\<close>

definition count_if :: "('a \<Rightarrow> bool) \<Rightarrow> 'a list \<Rightarrow> u64" where
  "count_if P xs = of_nat (length (filter P xs))"

lemma count_if_simps [simp]: "count_if P [] = 0" "count_if P (x # xs) = (if P x then 1 else 0) + count_if P xs"
  by (simp_all add: count_if_def)

lemma count_if_slots: "count_if P locateSlots = of_nat (card {loc. loc \<noteq> 0 \<and> P loc})"
proof -
  have "length (filter P locateSlots) = card (set (filter P locateSlots))"
    using distinct_card [of "filter P locateSlots"] locateSlots_set(2) by simp
  then show ?thesis by (simp add: count_if_def locateSlots_set(1) Diff_eq conj_commute)
qed

lemma audit_fold:
  "fold (auditSlot m d) xs a =
     a\<lparr>aud_materialized_books := aud_materialized_books a + count_if (\<lambda>l. mgr_books m l \<noteq> None) xs,
       aud_registered_books_missing := aud_registered_books_missing a +
         count_if (\<lambda>l. dir_isRegistered d l \<and> (mgr_books m l = None \<or> \<not> isBookPrepared (prices (mgr_stores m)) l)) xs,
       aud_unregistered_books_present := aud_unregistered_books_present a +
         count_if (\<lambda>l. \<not> dir_isRegistered d l \<and> (mgr_books m l \<noteq> None \<or> isBookPrepared (prices (mgr_stores m)) l)) xs,
       aud_price_state_mismatches := aud_price_state_mismatches a +
         count_if (\<lambda>l. (mgr_books m l \<noteq> None) \<noteq> isBookPrepared (prices (mgr_stores m)) l) xs,
       aud_identity_mismatches := aud_identity_mismatches a +
         count_if (\<lambda>l. \<exists>b. mgr_books m l = Some b \<and> (ob_stock_locate b \<noteq> l \<or> ob_symbol_id b \<noteq> ucast l)) xs\<rparr>"
proof (induction xs arbitrary: a)
  case (Cons l xs)
  show ?case unfolding fold_Cons comp_apply Cons.IH
    by (cases "mgr_books m l") (simp_all add: auditSlot_def Let_def)
qed simp

lemma card_u16_bound: "card (A :: u16 set) \<le> 65536"
  using card_mono [OF _ subset_UNIV, of A] by (simp add: card_word)

lemma card_u64_zero: "(of_nat (card A) :: u64) = 0 \<longleftrightarrow> A = {}" for A :: "u16 set"
proof -
  have "unat (of_nat (card A) :: u64) = card A" using card_u16_bound [of A] by (simp add: unat_of_nat)
  then show ?thesis by (metis card_0_eq finite unat_eq_0)
qed

lemma audit_decides:
  assumes inv: "manager_inv m" and d: "dir_inv d"
  shows "aud_materialized_books (auditDirectory m d) = of_nat (card (dom (mgr_books m)))"
    "aud_registered_books_missing (auditDirectory m d) = of_nat (card (dom (dir_tickers d) - dom (mgr_books m)))"
    "aud_unregistered_books_present (auditDirectory m d) = of_nat (card (dom (mgr_books m) - dom (dir_tickers d)))"
    "aud_price_state_mismatches (auditDirectory m d) = 0" "aud_identity_mismatches (auditDirectory m d) = 0"
    "aud_registered_symbols (auditDirectory m d) = of_nat (card (dom (dir_tickers d)))"
    "aud_prepared_books (auditDirectory m d) = of_nat (card (dom (mgr_books m)))"
proof -
  note P = manager_invD(2) [OF inv]
  have z: "mgr_books m 0 = None" "\<not> dir_isRegistered d 0"
    using P [of 0] by (auto simp: isBookPrepared_def isValidStockLocate_def kInvalidStockLocate_def dir_isRegistered_def)
  have r: "dir_isRegistered d l \<longleftrightarrow> l \<in> dom (dir_tickers d)" for l by (auto simp: dir_tickers_def split: if_splits)
  have "{loc. loc \<noteq> 0 \<and> mgr_books m loc \<noteq> None} = dom (mgr_books m)"
    "{loc. loc \<noteq> 0 \<and> dir_isRegistered d loc \<and> (mgr_books m loc = None \<or> \<not> isBookPrepared (prices (mgr_stores m)) loc)} = dom (dir_tickers d) - dom (mgr_books m)"
    "{loc. loc \<noteq> 0 \<and> \<not> dir_isRegistered d loc \<and> (mgr_books m loc \<noteq> None \<or> isBookPrepared (prices (mgr_stores m)) loc)} = dom (mgr_books m) - dom (dir_tickers d)"
    "{loc. loc \<noteq> 0 \<and> (mgr_books m loc \<noteq> None) \<noteq> isBookPrepared (prices (mgr_stores m)) loc} = {}"
    "{loc. loc \<noteq> 0 \<and> (\<exists>b. mgr_books m loc = Some b \<and> (ob_stock_locate b \<noteq> loc \<or> ob_symbol_id b \<noteq> ucast loc))} = {}"
    using z manager_invD(3) [OF inv] by (auto simp: P r)
  note S = this
  have pl: "prepared_locates (prices (mgr_stores m)) = dom (mgr_books m)" using P by (auto simp: prepared_locates_def)
  show "aud_materialized_books (auditDirectory m d) = of_nat (card (dom (mgr_books m)))"
    "aud_registered_books_missing (auditDirectory m d) = of_nat (card (dom (dir_tickers d) - dom (mgr_books m)))"
    "aud_unregistered_books_present (auditDirectory m d) = of_nat (card (dom (mgr_books m) - dom (dir_tickers d)))"
    "aud_price_state_mismatches (auditDirectory m d) = 0" "aud_identity_mismatches (auditDirectory m d) = 0"
    unfolding auditDirectory_def audit_fold count_if_slots S by simp_all
  show "aud_registered_symbols (auditDirectory m d) = of_nat (card (dom (dir_tickers d)))"
    "aud_prepared_books (auditDirectory m d) = of_nat (card (dom (mgr_books m)))"
    using d manager_invD(5) [OF inv] unfolding auditDirectory_def audit_fold pl
    by (simp_all add: dir_size_def dir_inv_def pls_counters_def)
qed

lemma audit_clean_iff:
  assumes inv: "manager_inv m" and d: "dir_inv d"
  shows "audit_clean (auditDirectory m d) \<longleftrightarrow> dom (mgr_books m) = dom (dir_tickers d)"
proof -
  have u: "(ucast (of_nat (card A) :: u32) :: u64) = of_nat (card A)" for A :: "u16 set"
    using card_u16_bound [of A] by (simp add: word_unat_eq_iff unat_of_nat unat_ucast_u32_64)
  have e: "A - B = {} \<and> B - A = {} \<longleftrightarrow> A = B" for A B :: "u16 set" by auto
  show ?thesis unfolding audit_clean_def audit_decides [OF assms] u card_u64_zero using e by auto
qed

section \<open>Startup arithmetic\<close>

lemma nat_power_of_two: "0 < x \<Longrightarrow> x AND (x - 1) = 0 \<Longrightarrow> \<exists>n. x = 2 ^ n" for x :: nat
proof (induction x rule: less_induct)
  case (less x)
  show ?case
  proof (cases "even x")
    case True
    then obtain y where y: "x = 2 * y" "0 < y" using less.prems(1) by (auto elim: evenE)
    have "x - 1 = 2 * (y - 1) + 1" using y by simp
    then have "y AND (y - 1) = 0" using less.prems(2) y by (simp add: and_rec [of "2 * y"])
    then obtain n where "y = 2 ^ n" using less.IH [of y] y by auto
    then show ?thesis using y by (intro exI [of _ "Suc n"]) simp
  next
    case False
    then obtain y where y: "x = 2 * y + 1" by (auto elim: oddE)
    then have "2 * y = 0" using less.prems(2) by (simp add: and_rec [of "Suc (2 * y)"])
    then show ?thesis using y by (intro exI [of _ 0]) simp
  qed
qed

lemma isPowerOfTwo_exp: "isPowerOfTwo a \<Longrightarrow> \<exists>n. unat a = 2 ^ n"
proof -
  assume a: "isPowerOfTwo a"
  then have "unat a AND (unat a - 1) = 0" "0 < unat a"
    using unsigned_and_eq [of a "a - 1", where ?'a = nat] by (auto simp: isPowerOfTwo_def unat_minus_one unat_gt_0)
  then show ?thesis using nat_power_of_two by blast
qed

lemma and_not_mask:
  fixes y :: u64
  assumes "unat a = 2 ^ n"
  shows "unat (y AND NOT (a - 1)) = unat y - unat y mod 2 ^ n"
proof -
  have m: "a - 1 = mask n"
  proof -
    have "of_nat (unat a) = (2 :: u64) ^ n" unfolding assms by simp
    then have "a = 2 ^ n" by simp
    then show ?thesis by (simp add: mask_eq_exp_minus_1)
  qed
  have "(y AND mask n) + (y AND NOT (mask n)) = (y AND mask n) OR (y AND NOT (mask n))"
    by (rule disjunctive_add_eq_or) (simp add: bit_eq_iff bit_simps)
  also have "\<dots> = y" by (rule bit_eqI) (auto simp: bit_simps)
  finally have "y AND NOT (mask n) = y - (y AND mask n)" by (metis add_diff_cancel_left')
  moreover have "unat (y - (y AND mask n)) = unat y - unat (y AND mask n)"
    by (rule unat_sub) (simp add: word_and_le2)
  ultimately show ?thesis by (simp add: m unat_and_mask)
qed

lemma round_up:
  assumes a: "isPowerOfTwo a" and x: "\<not> x > u64_max - (a - 1)"
  shows "unat a dvd unat ((x + a - 1) AND NOT (a - 1))" "unat x \<le> unat ((x + a - 1) AND NOT (a - 1))"
    "unat ((x + a - 1) AND NOT (a - 1)) < unat x + unat a"
proof -
  obtain n where n: "unat a = 2 ^ n" using isPowerOfTwo_exp [OF a] by blast
  have "a \<noteq> 0" using a by (simp add: isPowerOfTwo_def)
  then have "unat (a - 1) = 2 ^ n - 1" using n by (simp add: unat_minus_one)
  then have y: "unat (x + a - 1) = unat x + (2 ^ n - 1)"
    using unat_add_checked [of x "a - 1"] x by (simp add: not_less algebra_simps)
  have r: "unat ((x + a - 1) AND NOT (a - 1)) = (unat x + (2 ^ n - 1)) div 2 ^ n * 2 ^ n"
    unfolding and_not_mask [OF n] y by (rule minus_mod_eq_div_mult)
  show "unat a dvd unat ((x + a - 1) AND NOT (a - 1))" unfolding r n by simp
  define Q where "Q = (unat x + (2 ^ n - 1)) div 2 ^ n * 2 ^ n"
  define M where "M = (unat x + (2 ^ n - 1)) mod 2 ^ n"
  have "unat x + (2 ^ n - 1) = Q + M" unfolding Q_def M_def by (rule div_mult_mod_eq [symmetric])
  moreover have "M < 2 ^ n" unfolding M_def by simp
  ultimately have "unat x \<le> Q" "Q < unat x + 2 ^ n" by linarith+
  then show "unat x \<le> unat ((x + a - 1) AND NOT (a - 1))" "unat ((x + a - 1) AND NOT (a - 1)) < unat x + unat a"
    unfolding r n Q_def .
qed

lemma checkedMultiply_exact: "checkedMultiply x y = Inr z \<Longrightarrow> unat z = unat x * unat y"
proof -
  assume "checkedMultiply x y = Inr z"
  then have z: "z = x * y" and c: "x = 0 \<or> y \<le> u64_max div x" by (auto simp: checkedMultiply_def not_less split: if_splits)
  have "unat x * unat y < 2 ^ 64"
  proof (cases "x = 0")
    case False
    then have "unat y \<le> unat (u64_max :: u64) div unat x" using c unfolding word_le_nat_alt unat_div by simp
    then have "unat x * unat y \<le> unat (u64_max :: u64)" using False by (simp add: less_eq_div_iff_mult_less_eq unat_gt_0 mult.commute)
    then show ?thesis by simp
  qed simp
  then show ?thesis using z by (simp add: unat_word_ariths)
qed

lemma checkedAdd_exact: "checkedAdd x y = Inr z \<Longrightarrow> unat z = unat x + unat y"
  using unat_add_checked [of x y] by (auto simp: checkedAdd_def not_less split: if_splits)

lemma checkedSum_exact: "checkedSum a xs = Inr z \<Longrightarrow> unat z = unat a + sum_list (map unat xs)"
  by (induction xs arbitrary: a) (auto dest: checkedAdd_exact)

definition region_ok :: "nat \<Rightarrow> nat \<Rightarrow> u64 \<Rightarrow> bool" where
  "region_ok align bytes r \<longleftrightarrow> align dvd unat r \<and> bytes \<le> unat r \<and> unat r < bytes + align"

lemma mappedBytes_exact:
  assumes m: "mappedBytes n e ea ra page = Inr r"
  shows "region_ok (max (unat (if ra = 0 then page else ra)) (max (unat page) (unat ea))) (unat n * unat e) r"
proof -
  define a0 where "a0 = (if ra = 0 then page else ra)"
  define a1 where "a1 = (if a0 < page then page else a0)"
  define a where "a = (if a1 < ea then ea else a1)"
  obtain l where l: "checkedMultiply n e = Inr l" using m by (auto simp: mappedBytes_def)
  have ul: "unat l = unat n * unat e" by (rule checkedMultiply_exact [OF l])
  have eq: "mappedBytes n e ea ra page = ebind (checkedMultiply n e) (\<lambda>l.
      if \<not> isPowerOfTwo a \<or> a mod page \<noteq> 0 then Inl (InvalidArgument ''book storage alignment must be a page-multiple power of two'')
      else if l = 0 then Inr 0
      else if l > u64_max - (a - 1) then Inl (LengthError ''book storage rounded size overflows size_t'')
      else if ((l + a - 1) AND NOT (a - 1)) > u64_max - a then Inl (LengthError ''book aligned mapping size overflows size_t'')
      else Inr ((l + a - 1) AND NOT (a - 1)))"
    unfolding mappedBytes_def Let_def a_def a1_def a0_def by (rule refl)
  have p: "isPowerOfTwo a" and r: "l = 0 \<and> r = 0 \<or> \<not> l > u64_max - (a - 1) \<and> r = (l + a - 1) AND NOT (a - 1)"
    using m l unfolding eq by (auto split: if_splits)
  have ua: "unat a = max (unat a0) (max (unat page) (unat ea))"
    by (auto simp: a_def a1_def word_less_nat_alt)
  have "0 < unat a" using p by (simp add: isPowerOfTwo_def unat_gt_0)
  then show ?thesis unfolding region_ok_def a0_def [symmetric] ua [symmetric] ul [symmetric]
    using r round_up [OF p, of l] by auto
qed

lemma hot_region:
  assumes "mappedBytes n e ea kHotArenaAlignment page = Inr r" "unat ea \<le> 64"
  shows "region_ok (max (2 ^ 21) (unat page)) (unat n * unat e) r"
proof -
  have h: "unat kHotArenaAlignment = 2 ^ 21" "kHotArenaAlignment \<noteq> 0" by (simp_all add: kHotArenaAlignment_def)
  have "max (2 ^ 21) (max p x) = max (2 ^ 21) p" if "x \<le> 64" for p x :: nat using that by (simp add: max_def)
  then show ?thesis using mappedBytes_exact [OF assms(1)] assms(2) h by simp
qed

lemma descriptor_region:
  assumes "mappedBytes n e ea kHotArenaAlignment page = Inr r"
  shows "region_ok (max (2 ^ 21) (max (unat page) (unat ea))) (unat n * unat e) r"
  using mappedBytes_exact [OF assms] by (simp add: kHotArenaAlignment_def)

lemma hot_page_alignment: "kPricePageBytes = kHotArenaAlignment" by (simp add: kPricePageBytes_def kHotArenaAlignment_def)

text \<open>The regions of the manager's storage with the bytes their elements take.\<close>

definition storage_regions :: "BookManagerConfig \<Rightarrow> BookStorageFootprint \<Rightarrow> (nat \<times> u64) list" where
  "storage_regions config fp =
     (let pages1 = unat (page_capacity (cfg_prices config)) + 1 in
     [(16 * unat (direct_slots (cfg_orders config)), order_direct_mapped_bytes fp),
      (64 * unat (fallback_bucket_count (cfg_orders config)), order_fallback_mapped_bytes fp),
      (4 * 2 ^ 32, price_roots_mapped_bytes fp),
      (2 ^ 16, price_prepared_books_mapped_bytes fp),
      (2 ^ 21 * unat (page_capacity (cfg_prices config)), price_pages_mapped_bytes fp),
      (8 * pages1, price_page_owners_mapped_bytes fp),
      (16 * pages1, price_page_summaries_mapped_bytes fp),
      (8384 * (2 * pages1), price_page_occupancy_mapped_bytes fp),
      (32 * 2 ^ 16, price_book_summaries_mapped_bytes fp),
      (8384 * (2 * 2 ^ 16), price_book_occupancy_mapped_bytes fp)])"

lemma footprint_regions:
  assumes "estimateBookStorageFootprint slot_bytes slot_align config page = Inr fp"
  shows "list_all (\<lambda>(bytes, r). region_ok (max (2 ^ 21) (unat page)) bytes r) (storage_regions config fp)"
    "region_ok (max (2 ^ 21) (max (unat page) (unat slot_align))) (2 ^ 16 * unat slot_bytes) (descriptor_mapped_bytes fp)"
    "unat (planned_storage_bytes fp) =
       sum_list (map (unat \<circ> snd) (storage_regions config fp)) + unat (descriptor_mapped_bytes fp)"
proof -
  let ?m = "\<lambda>n e ea. mappedBytes n e ea kHotArenaAlignment page"
  obtain d f ro pr pg ms ow su oc occ bs bo boo ar de ds pl where
    D: "?m (direct_slots (cfg_orders config)) 16 16 = Inr d" "?m (ucast (fallback_bucket_count (cfg_orders config))) 64 64 = Inr f"
      "?m kPriceRootSlotCount 4 4 = Inr ro" "?m kStockLocateSlots 1 1 = Inr pr"
      "?m (ucast (page_capacity (cfg_prices config))) kPricePageBytes 64 = Inr pg"
      "?m ms 8 4 = Inr ow" "?m ms 16 16 = Inr su" "?m oc kBitmapStorageBytes kBitmapStorageAlignment = Inr occ"
      "?m kStockLocateSlots 32 32 = Inr bs" "?m bo kBitmapStorageBytes kBitmapStorageAlignment = Inr boo"
      "?m kStockLocateSlots slot_bytes slot_align = Inr de"
    and A: "checkedAdd (ucast (page_capacity (cfg_prices config))) 1 = Inr ms" "checkedMultiply ms kSideCount = Inr oc"
      "checkedMultiply kStockLocateSlots kSideCount = Inr bo" "checkedSum d [f, ro, pr, pg, ow, su, occ, bs, boo] = Inr ar"
      "checkedAdd ar de = Inr pl"
    and fp: "fp = \<lparr>system_page_bytes = page, order_direct_mapped_bytes = d, order_fallback_mapped_bytes = f,
      price_roots_mapped_bytes = ro, price_prepared_books_mapped_bytes = pr, price_pages_mapped_bytes = pg,
      price_page_owners_mapped_bytes = ow, price_page_summaries_mapped_bytes = su, price_page_occupancy_mapped_bytes = occ,
      price_book_summaries_mapped_bytes = bs, price_book_occupancy_mapped_bytes = boo, mapped_array_bytes = ar,
      descriptor_slot_bytes = ds, descriptor_mapped_bytes = de, planned_storage_bytes = pl\<rparr>"
    using assms unfolding estimateBookStorageFootprint_def hot_page_alignment
    by (auto simp del: checkedSum.simps simp: checkedCount_def split: if_splits)
  have c: "unat kPriceRootSlotCount = 2 ^ 32" "unat kStockLocateSlots = 2 ^ 16" "unat kSideCount = 2" "unat kBitmapStorageBytes = 8384"
    "unat kPricePageBytes = 2 ^ 21" "unat kBitmapStorageAlignment = 64"
    by (simp_all add: kPriceRootSlotCount_def kPricePartBits_def kStockLocateSlots_def kSideCount_def kBitmapStorageBytes_def
        kPricePageBytes_def kBitmapStorageAlignment_def push_bit_of_1)
  have n: "unat ms = unat (page_capacity (cfg_prices config)) + 1" using checkedAdd_exact [OF A(1)] by simp
  have o: "unat oc = 2 * unat ms" "unat bo = 2 * 2 ^ 16"
    using checkedMultiply_exact [OF A(2)] checkedMultiply_exact [OF A(3)] c by simp_all
  show "list_all (\<lambda>(bytes, r). region_ok (max (2 ^ 21) (unat page)) bytes r) (storage_regions config fp)"
    using D(1-10) [THEN hot_region] unfolding storage_regions_def Let_def fp c o n
    by (simp add: c o n mult.commute)
  show "region_ok (max (2 ^ 21) (max (unat page) (unat slot_align))) (2 ^ 16 * unat slot_bytes) (descriptor_mapped_bytes fp)"
    using descriptor_region [OF D(11)] unfolding fp c by simp
  show "unat (planned_storage_bytes fp) =
       sum_list (map (unat \<circ> snd) (storage_regions config fp)) + unat (descriptor_mapped_bytes fp)"
    using checkedSum_exact [OF A(4)] checkedAdd_exact [OF A(5)] by (simp add: storage_regions_def Let_def fp)
qed

lemma slots_above:
  fixes a s h :: u64
  shows "a < s \<and> h = s - (a + 1) \<longleftrightarrow> unat s = unat a + 1 + unat h"
proof (cases "a < s")
  case True
  then have "unat a < unat s" by (simp add: word_less_nat_alt)
  moreover have "unat (a + 1) = unat a + 1" using calculation unsigned_less [of s, where 'a = nat] by (simp add: unat_word_ariths)
  moreover have "unat (s - (a + 1)) = unat s - unat (a + 1)"
    by (rule unat_sub) (use calculation in \<open>simp add: word_le_nat_alt\<close>)
  ultimately show ?thesis using True by (auto simp: word_unat_eq_iff)
qed (simp add: word_less_nat_alt)

lemma pages_above:
  fixes a s h :: u32
  shows "h \<noteq> 0 \<Longrightarrow> a < s \<and> h = s - a \<longleftrightarrow> unat s = unat a + unat h"
proof (cases "a < s")
  case True
  then have "unat (s - a) = unat s - unat a" "unat a < unat s" by (simp_all add: word_less_nat_alt unat_sub word_le_nat_alt)
  then show ?thesis using True by (auto simp: word_unat_eq_iff)
next
  case False
  assume "h \<noteq> 0"
  then have "0 < unat h" by (simp add: unat_gt_0)
  then show ?thesis using False by (simp add: word_less_nat_alt)
qed

lemma profile_decides:
  "validateBookCapacityProfile p = Inr h \<longleftrightarrow>
     validateManagerConfig (prof_config p) = Inr () \<and> prof_name p \<noteq> [] \<and> isLowerHexSha256 (prof_evidence_sha256 p) \<and>
     profiled_max_order_reference (prof_evidence p) \<noteq> 0 \<and> profiled_unique_price_pages (prof_evidence p) \<noteq> 0 \<and>
     direct_order_reference_slots (prof_minimum_headroom p) \<noteq> 0 \<and> headroom_price_pages (prof_minimum_headroom p) \<noteq> 0 \<and>
     unat (direct_slots (cfg_orders (prof_config p))) =
       unat (profiled_max_order_reference (prof_evidence p)) + 1 + unat (direct_order_reference_slots h) \<and>
     unat (page_capacity (cfg_prices (prof_config p))) =
       unat (profiled_unique_price_pages (prof_evidence p)) + unat (headroom_price_pages h) \<and>
     direct_order_reference_slots (prof_minimum_headroom p) \<le> direct_order_reference_slots h \<and>
     headroom_price_pages (prof_minimum_headroom p) \<le> headroom_price_pages h"
  (is "_ \<longleftrightarrow> ?conds")
proof -
  let ?a = "profiled_max_order_reference (prof_evidence p)" and ?s = "direct_slots (cfg_orders (prof_config p))"
  let ?b = "profiled_unique_price_pages (prof_evidence p)" and ?t = "page_capacity (cfg_prices (prof_config p))"
  let ?H = "direct_order_reference_slots (prof_minimum_headroom p)" and ?K = "headroom_price_pages (prof_minimum_headroom p)"
  have "validateBookCapacityProfile p = Inr h \<longleftrightarrow>
     validateManagerConfig (prof_config p) = Inr () \<and> prof_name p \<noteq> [] \<and> isLowerHexSha256 (prof_evidence_sha256 p) \<and>
     ?a \<noteq> 0 \<and> ?b \<noteq> 0 \<and> ?H \<noteq> 0 \<and> ?K \<noteq> 0 \<and> (?a < ?s \<and> direct_order_reference_slots h = ?s - (?a + 1)) \<and>
     ?H \<le> direct_order_reference_slots h \<and> (?b < ?t \<and> headroom_price_pages h = ?t - ?b) \<and> ?K \<le> headroom_price_pages h"
    by (cases h) (auto simp: validateBookCapacityProfile_def Let_def not_less not_le)
  also have "\<dots> \<longleftrightarrow> ?conds"
  proof (cases "headroom_price_pages h = 0")
    case True
    then have "?K \<le> headroom_price_pages h \<Longrightarrow> ?K = 0" by simp
    then show ?thesis by blast
  qed (simp add: slots_above pages_above conj_ac)
  finally show ?thesis .
qed

section \<open>A worked manager\<close>

definition demo_manager_config :: BookManagerConfig where
  "demo_manager_config = \<lparr>cfg_orders = demo_table_config, cfg_prices = demo_config\<rparr>"

definition demo_manager :: BookManager where
  "demo_manager = projr (newBookManager 128 8 4096 demo_manager_config)"

definition demo_manager1 :: BookManager where "demo_manager1 = snd (getOrCreate demo_manager 7)"

lemma demo_manager_new: "newBookManager 128 8 4096 demo_manager_config = Inr demo_manager"
proof -
  have "\<not> isl (newBookManager 128 8 4096 demo_manager_config)" by code_simp
  then show ?thesis by (simp add: demo_manager_def)
qed

lemma demo_manager_reachable: "manager_reachable demo_manager_config demo_manager" "manager_reachable demo_manager_config demo_manager1"
proof -
  show r: "manager_reachable demo_manager_config demo_manager" by (rule manager_new [OF demo_manager_new])
  show "manager_reachable demo_manager_config demo_manager1" unfolding demo_manager1_def
    by (rule manager_more [OF r manager_step.intros(1) [OF prod.collapse [symmetric]]])
qed

lemma demo_manager1:
  "book_orders (mgr_stores demo_manager1) = Map.empty" "dom (mgr_books demo_manager1) = {7}"
proof -
  note N = new_manager_inv [OF demo_manager_new]
  note G = getOrCreate_inv [OF N(1) prod.collapse [symmetric], of 7, folded demo_manager1_def]
  show "book_orders (mgr_stores demo_manager1) = Map.empty" "dom (mgr_books demo_manager1) = {7}"
    using G(4,7) N(4,6) by (simp_all add: isValidStockLocate_def kInvalidStockLocate_def)
qed

section \<open>Properties\<close>

text \<open>Every state of the manager reachable through its public operations is consistent: the shared stores
  agree, a book exists exactly for the prepared locates, every book carries its own locate, and its
  live-order counter is the number of live orders of its locate, so that no call on one book
  miscounts another.\<close>

theorem manager_consistent:
  assumes "manager_reachable config m"
  shows "manager_inv m \<and> mgr_config m = config"
  by (rule manager_reachable_inv [OF assms])

theorem manager_consistent_witness: "manager_inv demo_manager1 \<and> mgr_config demo_manager1 = demo_manager_config"
  by (rule manager_consistent [OF demo_manager_reachable(2)])

text \<open>C37. With an order table of fewer than \<open>2^32 - 1\<close> slots no sequence of calls, whatever their arguments, ever
  invalidates a book, and no call reports a broken invariant, a stale reservation, a missing level,
  an arithmetic overflow of an aggregate or an invalid book.\<close>

theorem books_never_invalidated:
  assumes "manager_reachable config m" and "order_slots config < 2 ^ 32 - 1" and "manager_step m (Some x) m'"
  shows "no_invalid_book m' \<and>
    x \<notin> {QuantityOverflow, QuantityUnderflow, InvalidPricePage, MissingPriceLevel, StaleReservation, InvariantViolation, BookInvalid}"
  using manager_step_inv(3) [OF assms(3)] manager_reachable_inv [OF assms(1)] manager_reachable_valid [OF assms(1,2)] assms(2)
  by (auto simp: reject_kind_def)

theorem books_never_invalidated_witness:
  "fst (mgr_addOrder demo_manager1 7 3 100 5 0x42 9) = Applied \<and> no_invalid_book (snd (mgr_addOrder demo_manager1 7 3 100 5 0x42 9))"
proof -
  have "fst (mgr_addOrder demo_manager1 7 3 100 5 0x42 9) = Applied" by code_simp
  moreover have "order_slots demo_manager_config < 2 ^ 32 - 1"
    by (simp add: order_slots_def demo_manager_config_def demo_table_config_def)
  ultimately show ?thesis
    using books_never_invalidated [OF demo_manager_reachable(2) _ manager_step.intros(2) [OF prod.collapse [symmetric]]] by blast
qed

text \<open>The end-of-session count is the number of live orders of the process; with a table below the range of
  the counter it is zero exactly when no order is left.\<close>

theorem total_live_exact:
  assumes "manager_reachable config m" and "order_slots config < 2 ^ 64"
  shows "unat (totalLiveOrderCount m) = card (dom (book_orders (mgr_stores m))) \<and>
    (totalLiveOrderCount m = 0 \<longleftrightarrow> book_orders (mgr_stores m) = Map.empty)"
proof -
  have inv: "manager_inv m" "mgr_config m = config" using manager_reachable_inv [OF assms(1)] by auto
  have "unat (totalLiveOrderCount m) = card (dom (book_orders (mgr_stores m)))"
    using manager_live_bound [OF inv(1)] assms(2) inv(2) unfolding total_live_sum [OF inv(1)] by (simp add: unat_of_nat)
  moreover from this have "totalLiveOrderCount m = 0 \<longleftrightarrow> dom (book_orders (mgr_stores m)) = {}"
    by (metis card_0_eq finite unat_eq_0)
  ultimately show ?thesis by simp
qed

theorem total_live_exact_witness: "totalLiveOrderCount demo_manager1 = 0 \<and> mgr_books demo_manager1 7 \<noteq> None"
  using total_live_exact [OF demo_manager_reachable(2)] demo_manager1
  by (auto simp: order_slots_def demo_manager_config_def demo_table_config_def)

text \<open>The directory audit is exact: it is clean exactly when the materialized books are the registered
  locates, and it counts the registered locates without a book and the books without a registration.\<close>

theorem audit_exact:
  assumes "manager_reachable config m" and "dir_inv d"
  shows "(audit_clean (auditDirectory m d) \<longleftrightarrow> dom (mgr_books m) = dom (dir_tickers d)) \<and>
    aud_registered_books_missing (auditDirectory m d) = of_nat (card (dom (dir_tickers d) - dom (mgr_books m))) \<and>
    aud_unregistered_books_present (auditDirectory m d) = of_nat (card (dom (mgr_books m) - dom (dir_tickers d)))"
  using manager_reachable_inv [OF assms(1)] audit_clean_iff [OF _ assms(2), of m] audit_decides [OF _ assms(2), of m] by blast

theorem audit_exact_witness:
  "\<not> audit_clean (auditDirectory demo_manager1 newStockDirectory) \<and>
   aud_unregistered_books_present (auditDirectory demo_manager1 newStockDirectory) = 1"
  using audit_exact [OF demo_manager_reachable(2) dir_inv_new(1)] demo_manager1(2) dir_inv_new(2) by simp

text \<open>The planned storage is computed without wrap-around: each region is a multiple of its alignment, holds
  all its elements and exceeds them by less than one alignment unit, and the plan is the exact sum
  of the regions. A configuration whose sizes do not fit is refused before anything is mapped.\<close>

theorem footprint_exact:
  assumes "estimateBookStorageFootprint slot_bytes slot_align config page = Inr fp"
  shows "list_all (\<lambda>(bytes, r). region_ok (max (2 ^ 21) (unat page)) bytes r) (storage_regions config fp) \<and>
    region_ok (max (2 ^ 21) (max (unat page) (unat slot_align))) (2 ^ 16 * unat slot_bytes) (descriptor_mapped_bytes fp) \<and>
    unat (planned_storage_bytes fp) =
      sum_list (map (unat \<circ> snd) (storage_regions config fp)) + unat (descriptor_mapped_bytes fp)"
  using footprint_regions [OF assms] by blast

theorem footprint_exact_witness:
  "\<exists>fp. estimateBookStorageFootprint 128 8 demo_manager_config 4096 = Inr fp \<and>
     region_ok (2 ^ 21) (2 ^ 16 * 128) (descriptor_mapped_bytes fp)"
proof -
  have "\<not> isl (estimateBookStorageFootprint 128 8 demo_manager_config 4096)" by code_simp
  then obtain fp where fp: "estimateBookStorageFootprint 128 8 demo_manager_config 4096 = Inr fp"
    by (cases "estimateBookStorageFootprint 128 8 demo_manager_config 4096") simp_all
  then show ?thesis using footprint_exact [OF fp] by auto
qed

text \<open>A capacity profile is accepted exactly when its configuration and evidence are well formed and the
  direct table and the page arena exceed the profiled demand by at least the declared reserve; the
  reported headroom is the exact difference.\<close>

theorem capacity_profile_exact:
  "validateBookCapacityProfile p = Inr h \<longleftrightarrow>
     validateManagerConfig (prof_config p) = Inr () \<and> prof_name p \<noteq> [] \<and> isLowerHexSha256 (prof_evidence_sha256 p) \<and>
     profiled_max_order_reference (prof_evidence p) \<noteq> 0 \<and> profiled_unique_price_pages (prof_evidence p) \<noteq> 0 \<and>
     direct_order_reference_slots (prof_minimum_headroom p) \<noteq> 0 \<and> headroom_price_pages (prof_minimum_headroom p) \<noteq> 0 \<and>
     unat (direct_slots (cfg_orders (prof_config p))) =
       unat (profiled_max_order_reference (prof_evidence p)) + 1 + unat (direct_order_reference_slots h) \<and>
     unat (page_capacity (cfg_prices (prof_config p))) =
       unat (profiled_unique_price_pages (prof_evidence p)) + unat (headroom_price_pages h) \<and>
     direct_order_reference_slots (prof_minimum_headroom p) \<le> direct_order_reference_slots h \<and>
     headroom_price_pages (prof_minimum_headroom p) \<le> headroom_price_pages h"
  by (rule profile_decides)

end
