(* ===== verification/ItchFeed.thy ===== *)
theory ItchFeed
  imports BookManagerCorrect StockDirectoryIndex ItchParser
begin

text \<open>
  The specification of the feed and the parser's invariant. A message is decoded to an event (\<open>decode_event\<close>), and \<open>spec_message\<close>
  says what an admissible event does to the tickers, the live orders, the used references and the phase of the
  day (\<open>FeedState\<close>). \<open>feed_of\<close> abstracts a parser with its directory and books to that state; \<open>parser_inv\<close> ties
  the existence of books to the registered locates and the phase. The handlers of order messages are shown to
  refine the specification here.
\<close>

section \<open>Calls on the books of the manager\<close>

fun spec_call :: "book_call \<Rightarrow> u16 \<Rightarrow> u64 set \<Rightarrow> (u64 \<rightharpoonup> Order) \<Rightarrow> MutationResult \<times> (u64 \<rightharpoonup> Order)" where
  "spec_call (CallAdd r price qty side ts) loc seen m = spec_add loc seen m r price qty (decodeSideChar side)"
| "spec_call (CallCancel r n ts) loc seen m = spec_cancel loc m r n"
| "spec_call (CallDelete r ts) loc seen m = spec_delete loc m r"
| "spec_call (CallExecute r n ts) loc seen m = spec_execute loc m r n"
| "spec_call (CallReplace r r' price qty ts) loc seen m = spec_replace loc seen m r r' price qty"

text \<open>The references a call publishes.\<close>

fun call_refs :: "book_call \<Rightarrow> u64 set" where
  "call_refs (CallAdd r price qty side ts) = {r}"
| "call_refs (CallReplace r r' price qty ts) = {r'}"
| "call_refs c = {}"

text \<open>A call finds no room: the process is out of slots for the reference it publishes, or out of pages for its price. Calls that
  publish nothing always find room.\<close>

fun call_exhausts :: "Stores \<Rightarrow> u16 \<Rightarrow> book_call \<Rightarrow> MutationResult \<Rightarrow> bool" where
  "call_exhausts st loc (CallAdd r price qty side ts) x = out_of_room st loc r price x"
| "call_exhausts st loc (CallReplace r r' price qty ts) x = out_of_room st loc r' price x"
| "call_exhausts st loc c x = False"

lemma call_exhausts_not_applied: "\<not> call_exhausts st loc c Applied"
  by (cases c) (simp_all add: resource_not_applied)

text \<open>A call routed to a valid book does what its specification says, or it finds no room, or a level would pass its
  counters; the live orders then stay.\<close>

definition call_refined :: "book_call \<Rightarrow> u16 \<Rightarrow> Stores \<Rightarrow> MutationResult \<Rightarrow> Stores \<Rightarrow> bool" where
  "call_refined c loc st x st' \<longleftrightarrow>
     (x, book_orders st') = spec_call c loc (refs_seen st) (book_orders st) \<and>
       refs_seen st' = (if x = Applied then refs_seen st \<union> call_refs c else refs_seen st) \<or>
     fst (spec_call c loc (refs_seen st) (book_orders st)) = Applied \<and> book_orders st' = book_orders st \<and>
       (call_exhausts st loc c x \<and> refs_seen st' = refs_seen st \<or> counters_full st x)"

lemma run_call_refines:
  assumes inv: "stores_inv st" and li: "\<not> local_invalid b" and prep: "isBookPrepared (prices st) (ob_stock_locate b)"
    and run: "run_call c b st = (x, b', st')"
  shows "call_refined c (ob_stock_locate b) st x st'"
proof (cases c)
  case (CallAdd r price qty side ts)
  then show ?thesis using addOrder_refines [OF inv li prep, where r = r and ts = ts and price = price and qty = qty and side = side] run
    by (cases "x = Applied"; simp add: refines_add_def call_refined_def resource_failure_def; blast)
next
  case (CallReplace r r' price qty ts)
  then show ?thesis using replaceOrder_refines [OF inv li prep, where old = r and new = r' and ts = ts and price = price and qty = qty] run
    by (cases "x = Applied"; simp add: refines_replace_def call_refined_def; blast)
next
  case (CallCancel r n ts)
  then show ?thesis using cancelShares_refines [OF inv li, of ts r n] run by (simp add: refines_spec_def call_refined_def)
next
  case (CallDelete r ts)
  then show ?thesis using deleteOrder_refines [OF inv li, of ts r] run by (simp add: refines_spec_def call_refined_def)
next
  case (CallExecute r n ts)
  then show ?thesis using executeOrder_refines [OF inv li, of ts r n] run by (simp add: refines_spec_def call_refined_def)
qed

lemma route_refines:
  assumes inv: "manager_inv m" and valid: "no_invalid_book m" and r: "route m loc (run_call c) = (x, m')"
  shows "findBook m loc = None \<Longrightarrow> x = BookNotPrepared \<and> m' = m"
    "findBook m loc \<noteq> None \<Longrightarrow> call_refined c loc (mgr_stores m) x (mgr_stores m')"
    "dom (mgr_books m') = dom (mgr_books m)"
proof -
  show "findBook m loc = None \<Longrightarrow> x = BookNotPrepared \<and> m' = m" using r by (auto simp: route_def)
  show "call_refined c loc (mgr_stores m) x (mgr_stores m')" if f: "findBook m loc \<noteq> None"
  proof -
    obtain b where b: "findBook m loc = Some b" "mgr_books m loc = Some b" using f by (auto simp: findBook_def split: if_splits)
    obtain b' st' where run: "run_call c b (mgr_stores m) = (x, b', st')" and m': "m' = m\<lparr>mgr_stores := st', mgr_books := (mgr_books m)(loc \<mapsto> b')\<rparr>"
      using r b by (auto simp: route_def Let_def split: prod.splits)
    have "isBookPrepared (prices (mgr_stores m)) loc" "ob_stock_locate b = loc" "\<not> local_invalid b"
      using manager_invD(2,3) [OF inv] b valid by (auto simp: no_invalid_book_def)
    then show ?thesis using run_call_refines [OF manager_invD(1) [OF inv] _ _ run] by (simp add: m')
  qed
  show "dom (mgr_books m') = dom (mgr_books m)" using r
    by (auto simp: route_def findBook_def Let_def split: option.splits prod.splits if_splits)
qed

section \<open>The feed\<close>

text \<open>What a consumer of the feed has to know: the ticker of every registered locate, the live orders, the order
  references used so far, and the phase of the trading day.\<close>

record FeedState =
  fs_tickers :: "u16 \<rightharpoonup> u8 list"
  fs_orders :: "u64 \<rightharpoonup> Order"
  fs_seen :: "u64 set"
  fs_phase :: ChannelPhase

text \<open>The phases in which the books of the registered securities exist.\<close>

definition open_phase :: "ChannelPhase \<Rightarrow> bool" where
  "open_phase ph \<longleftrightarrow> ph \<in> {SystemHours, MarketHours, PostMarketHours, PostSystemHours, EndOfMessages}"

datatype feed_event =
    EvOrder u16 book_call
  | EvListed u16 "u8 list" book_call
  | EvPriced u16 u32 book_call
  | EvDirectory u16 "u8 list"
  | EvSystem u16 u8
  | EvAdmin
  | EvBroken
  | EvOther

text \<open>The content of a message. \<open>EvListed\<close> carries the stock an add order names, \<open>EvPriced\<close> the price of an execution.\<close>

definition message_time :: "u8 list \<Rightarrow> u64" where "message_time msg = readU48BE msg 5"

definition decode_event :: "u8 list \<Rightarrow> feed_event" where
  "decode_event msg =
     (let t = msg ! 0; loc = readU16BE msg 1; ref = readU64BE msg 11; ts = message_time msg
      in if t \<in> {0x41, 0x46} then EvListed loc (take 8 (drop 24 msg)) (CallAdd ref (ucast (readU32BE msg 32)) (readU32BE msg 20) (msg ! 19) ts)
         else if t = 0x45 then EvOrder loc (CallExecute ref (readU32BE msg 19) ts)
         else if t = 0x43 then EvPriced loc (readU32BE msg 32) (CallExecute ref (readU32BE msg 19) ts)
         else if t = 0x58 then EvOrder loc (CallCancel ref (readU32BE msg 19) ts)
         else if t = 0x44 then EvOrder loc (CallDelete ref ts)
         else if t = 0x55 then EvOrder loc (CallReplace ref (readU64BE msg 19) (ucast (readU32BE msg 31)) (readU32BE msg 27) ts)
         else if t = 0x52 then EvDirectory loc (take 8 (drop 11 msg))
         else if t = 0x53 then EvSystem loc (msg ! 11)
         else if t \<in> {0x48, 0x59, 0x4C, 0x56, 0x57, 0x4B, 0x4A, 0x68} then EvAdmin
         else if t = 0x42 then EvBroken else EvOther)"

text \<open>The messages a phase admits.\<close>

fun tail_call :: "book_call \<Rightarrow> bool" where
  "tail_call (CallCancel r n ts) = True"
| "tail_call (CallDelete r ts) = True"
| "tail_call c = False"

definition permitted :: "ChannelPhase \<Rightarrow> feed_event \<Rightarrow> bool" where
  "permitted ph ev \<longleftrightarrow>
     (ph = WaitingStartOfMessages \<longrightarrow> (\<exists>loc. ev = EvSystem loc 0x4F)) \<and> ph \<noteq> EndOfMessages \<and>
     (ph = PostSystemHours \<longrightarrow> ev = EvBroken \<or> (\<exists>loc. ev = EvSystem loc 0x43) \<or> (\<exists>loc c. ev = EvOrder loc c \<and> tail_call c))"

definition next_phase_of :: "ChannelPhase \<Rightarrow> u8 \<Rightarrow> ChannelPhase option" where
  "next_phase_of ph code =
     (if code = 0x4F \<and> ph = WaitingStartOfMessages then Some StartupDirectorySpin
      else if code = 0x53 \<and> ph \<in> {StartupDirectorySpin, StartupAdminSpin} then Some SystemHours
      else if code = 0x51 \<and> ph = SystemHours then Some MarketHours
      else if code = 0x4D \<and> ph = MarketHours then Some PostMarketHours
      else if code = 0x45 \<and> ph = PostMarketHours then Some PostSystemHours
      else if code = 0x43 \<and> ph = PostSystemHours then Some EndOfMessages
      else if code \<in> {0x41, 0x52, 0x42} then Some ph
      else None)"

text \<open>A stock symbol loses its trailing blanks; what is registered ends at the first zero byte.\<close>

definition stock_text :: "u8 list \<Rightarrow> u8 list" where
  "stock_text s = rev (dropWhile (\<lambda>c. c = 0x20 \<or> c = 0) (rev s))"

definition spec_order :: "FeedState \<Rightarrow> u16 \<Rightarrow> book_call \<Rightarrow> FeedState option" where
  "spec_order fs loc c =
     (if \<not> open_phase (fs_phase fs) \<or> fs_tickers fs loc = None then None
      else case spec_call c loc (fs_seen fs) (fs_orders fs) of (x, m) \<Rightarrow>
        if x = Applied then Some (fs\<lparr>fs_orders := m, fs_seen := fs_seen fs \<union> call_refs c\<rparr>) else None)"

fun replaces_itself :: "book_call \<Rightarrow> bool" where
  "replaces_itself (CallReplace r r' price qty ts) = (r' = r)"
| "replaces_itself c = False"

definition spec_event :: "FeedState \<Rightarrow> feed_event \<Rightarrow> FeedState option" where
  "spec_event fs ev =
     (if \<not> permitted (fs_phase fs) ev then None
      else case ev of
        EvOrder loc c \<Rightarrow> if replaces_itself c then None else spec_order fs loc c
      | EvListed loc stock c \<Rightarrow>
          (case fs_tickers fs loc of None \<Rightarrow> None
           | Some tk \<Rightarrow> if stock = take 8 (tk @ replicate 8 0x20) then spec_order fs loc c else None)
      | EvPriced loc price c \<Rightarrow> if price \<le> 2000000000 then spec_order fs loc c else None
      | EvDirectory loc stock \<Rightarrow>
          (let tk = takeWhile (\<lambda>c. c \<noteq> 0) (stock_text stock)
           in if loc \<noteq> 0 \<and> tk \<noteq> [] \<and>
                 (case fs_tickers fs loc of Some old \<Rightarrow> old = stock_text stock | None \<Rightarrow> tk \<notin> ran (fs_tickers fs))
              then Some (fs\<lparr>fs_tickers := (fs_tickers fs)(loc \<mapsto> tk)\<rparr>) else None)
      | EvSystem loc code \<Rightarrow>
          if loc \<noteq> 0 \<or> code = 0x43 \<and> fs_orders fs \<noteq> Map.empty then None
          else map_option (\<lambda>ph. fs\<lparr>fs_phase := ph\<rparr>) (next_phase_of (fs_phase fs) code)
      | EvAdmin \<Rightarrow> Some (if fs_phase fs = StartupDirectorySpin then fs\<lparr>fs_phase := StartupAdminSpin\<rparr> else fs)
      | EvBroken \<Rightarrow> Some fs
      | EvOther \<Rightarrow> Some fs)"

definition spec_message :: "FeedState \<Rightarrow> u8 list \<Rightarrow> FeedState option" where
  "spec_message fs msg = (if message_time msg \<ge> kNanosecondsPerDay then None else spec_event fs (decode_event msg))"

section \<open>The parser's invariant\<close>

definition feed_of :: "ItchParser \<Rightarrow> FeedState" where
  "feed_of p = \<lparr>fs_tickers = dir_tickers (ip_symbols p), fs_orders = book_orders (mgr_stores (ip_books p)),
     fs_seen = refs_seen (mgr_stores (ip_books p)), fs_phase = ip_channel_phase p\<rparr>"

text \<open>The ticker of a registered entry ends in a zero byte.\<close>

definition terminated :: "StockDirectory \<Rightarrow> bool" where
  "terminated d \<longleftrightarrow> (\<forall>loc. dir_isRegistered d loc \<longrightarrow> sde_ticker (dir_entries d loc) ! 8 = 0)"

definition parser_inv :: "ItchParser \<Rightarrow> bool" where
  "parser_inv p \<longleftrightarrow> dir_inv (ip_symbols p) \<and> terminated (ip_symbols p) \<and> manager_inv (ip_books p) \<and> no_invalid_book (ip_books p) \<and>
     order_slots (mgr_config (ip_books p)) < 2 ^ 32 - 1 \<and>
     ip_books_prepared p = open_phase (ip_channel_phase p) \<and>
     dom (mgr_books (ip_books p)) = (if open_phase (ip_channel_phase p) then dom (dir_tickers (ip_symbols p)) else {})"

lemma parser_invD:
  assumes "parser_inv p"
  shows "dir_inv (ip_symbols p)" "manager_inv (ip_books p)" "no_invalid_book (ip_books p)"
    "order_slots (mgr_config (ip_books p)) < 2 ^ 32 - 1" "ip_books_prepared p = open_phase (ip_channel_phase p)"
    "dom (mgr_books (ip_books p)) = (if open_phase (ip_channel_phase p) then dom (dir_tickers (ip_symbols p)) else {})" "terminated (ip_symbols p)"
  using assms by (auto simp: parser_inv_def)

lemma parser_inv_new:
  assumes "newBookManager sb sa page config = Inr m" "order_slots config < 2 ^ 32 - 1"
  shows "parser_inv (newItchParser newStockDirectory m ch)"
    "feed_of (newItchParser newStockDirectory m ch) = \<lparr>fs_tickers = Map.empty, fs_orders = Map.empty, fs_seen = {}, fs_phase = WaitingStartOfMessages\<rparr>"
proof -
  have "terminated newStockDirectory"
    by (simp add: terminated_def newStockDirectory_def zeroEntryRecord_def dir_isRegistered_def)
  then show "parser_inv (newItchParser newStockDirectory m ch)"
    "feed_of (newItchParser newStockDirectory m ch) = \<lparr>fs_tickers = Map.empty, fs_orders = Map.empty, fs_seen = {}, fs_phase = WaitingStartOfMessages\<rparr>"
    using new_manager_inv [OF assms(1)] assms(2) dir_inv_new
    by (simp_all add: parser_inv_def newItchParser_def open_phase_def feed_of_def)
qed

lemma outcome_fields [simp]:
  "parser_inv (p\<lparr>ip_last_message_skipped := b, ip_last_error := e\<rparr>) = parser_inv p"
  "parser_inv (p\<lparr>ip_last_message_skipped := b\<rparr>) = parser_inv p" "parser_inv (p\<lparr>ip_last_error := e\<rparr>) = parser_inv p"
  "feed_of (p\<lparr>ip_last_message_skipped := b, ip_last_error := e\<rparr>) = feed_of p"
  "feed_of (p\<lparr>ip_last_message_skipped := b\<rparr>) = feed_of p" "feed_of (p\<lparr>ip_last_error := e\<rparr>) = feed_of p"
  by (simp_all add: parser_inv_def feed_of_def)

lemma feed_of_sel [simp]:
  "fs_tickers (feed_of p) = dir_tickers (ip_symbols p)" "fs_orders (feed_of p) = book_orders (mgr_stores (ip_books p))"
  "fs_seen (feed_of p) = refs_seen (mgr_stores (ip_books p))" "fs_phase (feed_of p) = ip_channel_phase p"
  by (simp_all add: feed_of_def)

text \<open>The outcome of a message against its specification. An admissible message may still be refused for want of order
  slots or price pages; \<open>ex\<close> says which results stand for such a want. Then nothing has changed.\<close>

definition capacity_error :: "(MutationResult \<Rightarrow> bool) \<Rightarrow> string \<Rightarrow> bool" where
  "capacity_error ex e \<longleftrightarrow> (\<exists>operation x. e = operation @ '': '' @ mutationResultName x \<and> ex x)"

definition refined :: "(MutationResult \<Rightarrow> bool) \<Rightarrow> FeedState \<Rightarrow> FeedState option \<Rightarrow> ItchParser \<Rightarrow> bool" where
  "refined ex fs spec p' \<longleftrightarrow> parser_inv p' \<and>
     ((case spec of None \<Rightarrow> ip_last_error p' \<noteq> [] \<and> feed_of p' = fs | Some fs' \<Rightarrow> ip_last_error p' = [] \<and> feed_of p' = fs') \<or>
      spec \<noteq> None \<and> capacity_error ex (ip_last_error p') \<and> feed_of p' = fs)"

lemma refined_fail: "parser_inv p \<Longrightarrow> e \<noteq> [] \<Longrightarrow> refined ex (feed_of p) None (snd (ip_fail p e))"
  by (simp add: refined_def ip_fail_def)

lemma refined_same: "parser_inv p \<Longrightarrow> ip_last_error p = [] \<Longrightarrow> refined ex (feed_of p) (Some (feed_of p)) p"
  by (simp add: refined_def)

text \<open>The results by which a message can be refused for want of room.\<close>

definition event_exhausts :: "Stores \<Rightarrow> feed_event \<Rightarrow> MutationResult \<Rightarrow> bool" where
  "event_exhausts st ev x =
     (case ev of EvOrder loc c \<Rightarrow> call_exhausts st loc c x | EvListed loc stock c \<Rightarrow> call_exhausts st loc c x
      | EvPriced loc price c \<Rightarrow> call_exhausts st loc c x | _ \<Rightarrow> False)"

lemma event_exhausts_simps [simp]:
  "event_exhausts st (EvOrder loc c) = call_exhausts st loc c" "event_exhausts st (EvListed loc stock c) = call_exhausts st loc c"
  "event_exhausts st (EvPriced loc price c) = call_exhausts st loc c"
  by (simp_all add: event_exhausts_def fun_eq_iff)

definition message_exhausts :: "ItchParser \<Rightarrow> u8 list \<Rightarrow> MutationResult \<Rightarrow> bool" where
  "message_exhausts p msg = event_exhausts (mgr_stores (ip_books p)) (decode_event msg)"

section \<open>Order messages\<close>

lemma dir_tickers_valid: "dir_tickers d loc = Some tk \<Longrightarrow> loc \<noteq> 0"
  by (auto simp: dir_tickers_def dir_isRegistered_def isValidStockLocate_def kInvalidStockLocate_def split: if_splits)

lemma findBook_feed:
  assumes "parser_inv p"
  shows "findBook (ip_books p) loc = None \<longleftrightarrow> \<not> open_phase (ip_channel_phase p) \<or> dir_tickers (ip_symbols p) loc = None"
proof -
  have "mgr_books (ip_books p) loc = None \<longleftrightarrow> loc \<notin> dom (mgr_books (ip_books p))" by (simp add: domIff)
  then have "mgr_books (ip_books p) loc = None \<longleftrightarrow> \<not> open_phase (ip_channel_phase p) \<or> dir_tickers (ip_symbols p) loc = None"
    unfolding parser_invD(6) [OF assms] by (simp add: domIff)
  moreover have "dir_tickers (ip_symbols p) 0 = None" using dir_tickers_valid [of "ip_symbols p" 0] by (cases "dir_tickers (ip_symbols p) 0") auto
  ultimately show ?thesis by (auto simp: findBook_def isValidStockLocate_def kInvalidStockLocate_def)
qed

definition apply_call :: "ItchParser \<Rightarrow> u16 \<Rightarrow> book_call \<Rightarrow> string \<Rightarrow> ItchParser" where
  "apply_call p loc c operation =
     (let (x, books) = route (ip_books p) loc (run_call c) in applyBookResult (p\<lparr>ip_books := books\<rparr>) x operation)"

lemma mutationResultName_nonempty: "x \<noteq> Applied \<Longrightarrow> mutationResultName x \<noteq> []"
  by (cases x) simp_all

lemma parser_inv_books:
  assumes "parser_inv p" "manager_inv m" "mgr_config m = mgr_config (ip_books p)" "no_invalid_book m"
    "dom (mgr_books m) = dom (mgr_books (ip_books p))"
  shows "parser_inv (p\<lparr>ip_books := m\<rparr>)"
  using assms by (simp add: parser_inv_def)

lemma apply_call_refines:
  assumes inv: "parser_inv p" and e: "ip_last_error p = []"
  shows "refined (call_exhausts (mgr_stores (ip_books p)) loc c) (feed_of p) (spec_order (feed_of p) loc c) (apply_call p loc c operation)"
proof -
  obtain x m where r: "route (ip_books p) loc (run_call c) = (x, m)" by fastforce
  note I = parser_invD [OF inv]
  note R = route_inv [OF I(2) r] and F = route_refines [OF I(2,3) r]
  have V: "no_invalid_book m" using R(3) I(3,4) by blast
  have inv': "parser_inv (p\<lparr>ip_books := m\<rparr>)" by (rule parser_inv_books [OF inv R(1,2) V F(3)])
  have A: "apply_call p loc c operation = applyBookResult (p\<lparr>ip_books := m\<rparr>) x operation" by (simp add: apply_call_def r)
  let ?q = "applyBookResult (p\<lparr>ip_books := m\<rparr>) x operation"
  have q: "parser_inv ?q" "feed_of ?q = (feed_of p)\<lparr>fs_orders := book_orders (mgr_stores m), fs_seen := refs_seen (mgr_stores m)\<rparr>"
    "ip_last_error ?q = (if x = Applied then [] else operation @ '': '' @ mutationResultName x)"
    using inv' e by (simp_all add: applyBookResult_def applyBookFailure_def)
  show ?thesis
  proof (cases "findBook (ip_books p) loc = None")
    case True
    then have "x = BookNotPrepared" "m = ip_books p" "spec_order (feed_of p) loc c = None"
      using F(1) findBook_feed [OF inv, of loc] by (auto simp: spec_order_def)
    then show ?thesis using q by (simp add: A refined_def)
  next
    case False
    let ?st = "mgr_stores (ip_books p)"
    have S: "spec_order (feed_of p) loc c = (case spec_call c loc (refs_seen ?st) (book_orders ?st) of (y, o') \<Rightarrow>
        if y = Applied then Some ((feed_of p)\<lparr>fs_orders := o', fs_seen := refs_seen ?st \<union> call_refs c\<rparr>) else None)"
      using False findBook_feed [OF inv, of loc] by (auto simp: spec_order_def case_prod_beta)
    from F(2) [OF False] consider
      (spec) "(x, book_orders (mgr_stores m)) = spec_call c loc (refs_seen ?st) (book_orders ?st)"
        "refs_seen (mgr_stores m) = (if x = Applied then refs_seen ?st \<union> call_refs c else refs_seen ?st)"
    | (full) "fst (spec_call c loc (refs_seen ?st) (book_orders ?st)) = Applied" "call_exhausts ?st loc c x"
        "book_orders (mgr_stores m) = book_orders ?st" "refs_seen (mgr_stores m) = refs_seen ?st"
    | (counters) "counters_full ?st x"
      unfolding call_refined_def by blast
    then show ?thesis
    proof cases
      case spec
      have "book_orders (mgr_stores m) = book_orders ?st" if "x \<noteq> Applied"
        using that spec(1) spec_rejected [where loc = loc and m = "book_orders ?st"] by (cases c) (simp_all, (metis fst_conv snd_conv)+)
      then show ?thesis using q spec by (auto simp: A refined_def S spec(1) [symmetric])
    next
      case full
      then have "x \<noteq> Applied" using call_exhausts_not_applied by metis
      then have "capacity_error (call_exhausts ?st loc c) (ip_last_error ?q)" using q(3) full(2) by (auto simp: capacity_error_def)
      moreover have "spec_order (feed_of p) loc c \<noteq> None" using full(1) by (simp add: S case_prod_beta)
      moreover have "feed_of ?q = feed_of p" using q(2) full(3,4) by simp
      ultimately show ?thesis using q(1) by (simp add: A refined_def)
    next
      case counters
      then show ?thesis using manager_live_bound [OF I(2)] I(4) by (simp add: counters_full_def)
    qed
  qed
qed

section \<open>Message lengths and text fields\<close>

definition valid_message :: "u8 list \<Rightarrow> bool" where
  "valid_message msg \<longleftrightarrow> msg \<noteq> [] \<and> expectedItchMessageLength (msg ! 0) \<noteq> 0 \<and>
     length msg = unat (expectedItchMessageLength (msg ! 0))"

lemma message_lengths:
  assumes "valid_message msg"
  shows "msg ! 0 = 0x41 \<Longrightarrow> length msg = 36" "msg ! 0 = 0x46 \<Longrightarrow> length msg = 40" "msg ! 0 = 0x45 \<Longrightarrow> length msg = 31"
    "msg ! 0 = 0x43 \<Longrightarrow> length msg = 36" "msg ! 0 = 0x58 \<Longrightarrow> length msg = 23" "msg ! 0 = 0x44 \<Longrightarrow> length msg = 19"
    "msg ! 0 = 0x55 \<Longrightarrow> length msg = 35" "msg ! 0 = 0x52 \<Longrightarrow> length msg = 39" "msg ! 0 = 0x53 \<Longrightarrow> length msg = 12"
  using assms by (simp_all add: valid_message_def expectedItchMessageLength_def makeItchMessageLengths_def)

lemma expected_length_cases: "expectedItchMessageLength t = 0 \<or> 12 \<le> unat (expectedItchMessageLength t) \<and> unat (expectedItchMessageLength t) \<le> 50"
proof (cases "map_of makeItchMessageLengths t")
  case (Some n)
  then have "n \<in> snd ` set makeItchMessageLengths" by (force dest: map_of_SomeD)
  then show ?thesis using Some by (auto simp: expectedItchMessageLength_def makeItchMessageLengths_def)
qed (simp add: expectedItchMessageLength_def)

lemma valid_message_length: "valid_message msg \<Longrightarrow> 12 \<le> length msg"
  using expected_length_cases [of "msg ! 0"] by (auto simp: valid_message_def)

lemma fixedText_text:
  assumes "off + n \<le> length msg"
  shows "fixedText msg off n = stock_text (take n (drop off msg))"
proof -
  have *: "map (\<lambda>i. msg ! (off + i)) [0..<k] = take k (drop off msg)" if "off + k \<le> length msg" for k
    by (rule nth_equalityI) (use that in auto)
  have "fixedTextLength msg off n \<le> n \<and> take (fixedTextLength msg off n) (drop off msg) = stock_text (take n (drop off msg))"
    using assms
  proof (induction n)
    case (Suc n)
    have t: "take (Suc n) (drop off msg) = take n (drop off msg) @ [msg ! (off + n)]"
      using Suc.prems by (simp add: take_Suc_conv_app_nth)
    show ?case using Suc by (auto simp: t stock_text_def)
  qed (simp add: stock_text_def)
  then show ?thesis using * [of "fixedTextLength msg off n"] assms by (simp add: fixedText_def)
qed

lemma list_take_eq: "length ys = n \<Longrightarrow> n + off \<le> length msg \<Longrightarrow> take n (drop off msg) = ys \<longleftrightarrow> (\<forall>i<n. msg ! (off + i) = ys ! i)"
  by (auto simp: list_eq_iff_nth_eq)

lemma wireStockMatches_text:
  assumes l: "length (sde_ticker e) = 9" and m: "off + 8 \<le> length msg"
  shows "wireStockMatches e msg off \<longleftrightarrow> take 8 (drop off msg) = take 8 (tickerView e @ replicate 8 0x20)"
proof -
  have v: "tickerView e ! i = sde_ticker e ! i" if "i < length (tickerView e)" for i
    using that takeWhile_nth [of i "\<lambda>c. c \<noteq> 0" "take 8 (sde_ticker e)"] view_length [of e] by (simp add: tickerView_def)
  have "take 8 (tickerView e @ replicate 8 0x20) ! i = (if i < length (tickerView e) then sde_ticker e ! i else 0x20)" if "i < 8" for i
    using that v by (simp add: nth_append)
  moreover have "length (take 8 (tickerView e @ replicate 8 (0x20 :: u8))) = 8" by simp
  ultimately show ?thesis using m list_take_eq [of "take 8 (tickerView e @ replicate 8 0x20)" 8 off msg]
    by (simp add: wireStockMatches_def Let_def kStockLen_def list_all_iff tickerView_def Ball_def del: length_take)
qed

lemma dir_get_tickers:
  "dir_get d loc = None \<longleftrightarrow> dir_tickers d loc = None" "dir_get d loc = Some e \<Longrightarrow> dir_tickers d loc = Some (tickerView e)"
  "dir_inv d \<Longrightarrow> dir_get d loc = Some e \<Longrightarrow> length (sde_ticker e) = 9"
  by (auto simp: dir_get_registered dir_tickers_def dir_inv_def split: if_splits)

section \<open>Handlers of order messages\<close>

lemma handlers_apply_call:
  "applyExecution p msg loc = apply_call p loc (CallExecute (readU64BE msg 11) (readU32BE msg 19) (message_time msg)) ''order execution''"
  "handleCancel p msg loc = apply_call p loc (CallCancel (readU64BE msg 11) (readU32BE msg 19) (message_time msg)) ''order cancel''"
  "handleDelete p msg loc = apply_call p loc (CallDelete (readU64BE msg 11) (message_time msg)) ''order delete''"
  by (simp_all add: applyExecution_def handleCancel_def handleDelete_def apply_call_def mgr_ops_route message_time_def kTimestampOffset_def Let_def)

lemma handleReplace_apply:
  "handleReplace p msg loc =
     (if readU64BE msg 19 = readU64BE msg 11 then snd (ip_fail p ''replacement order reference is not new'')
      else apply_call p loc (CallReplace (readU64BE msg 11) (readU64BE msg 19) (ucast (readU32BE msg 31)) (readU32BE msg 27) (message_time msg)) ''order replace'')"
  by (simp add: handleReplace_def apply_call_def mgr_ops_route message_time_def kTimestampOffset_def Let_def)

lemma handleAdd_apply:
  "handleAdd p msg loc =
     (case dir_get (ip_symbols p) loc of None \<Rightarrow> snd (ip_fail p ''add order uses unregistered stock locate'')
      | Some e \<Rightarrow> if \<not> wireStockMatches e msg 24 then snd (ip_fail p ''add order stock does not match registered ticker'')
          else apply_call p loc (CallAdd (readU64BE msg 11) (ucast (readU32BE msg 32)) (readU32BE msg 20) (msg ! 19) (message_time msg)) ''add order'')"
  by (simp add: handleAdd_def apply_call_def mgr_ops_route message_time_def kTimestampOffset_def kAddStockOffset_def Let_def split: option.split)

lemma handleAdd_refines:
  assumes "parser_inv p" "ip_last_error p = []" "32 \<le> length msg"
  shows "refined (call_exhausts (mgr_stores (ip_books p)) loc
       (CallAdd (readU64BE msg 11) (ucast (readU32BE msg 32)) (readU32BE msg 20) (msg ! 19) (message_time msg))) (feed_of p) (case fs_tickers (feed_of p) loc of None \<Rightarrow> None
     | Some tk \<Rightarrow> if take 8 (drop 24 msg) = take 8 (tk @ replicate 8 0x20)
         then spec_order (feed_of p) loc (CallAdd (readU64BE msg 11) (ucast (readU32BE msg 32)) (readU32BE msg 20) (msg ! 19) (message_time msg)) else None)
     (handleAdd p msg loc)"
proof (cases "dir_get (ip_symbols p) loc")
  case None
  then show ?thesis using refined_fail [OF assms(1)] dir_get_tickers(1) [THEN iffD1, OF None] by (simp add: handleAdd_apply)
next
  case (Some e)
  have "wireStockMatches e msg 24 \<longleftrightarrow> take 8 (drop 24 msg) = take 8 (tickerView e @ replicate 8 0x20)"
    by (rule wireStockMatches_text [OF dir_get_tickers(3) [OF parser_invD(1) [OF assms(1)] Some]]) (use assms(3) in simp)
  then show ?thesis using refined_fail [OF assms(1)] apply_call_refines [OF assms(1,2)] Some
    by (simp add: handleAdd_apply dir_get_tickers(2) [OF Some] del: take_append)
qed

lemma isValidItchPrice4_u32: "isValidItchPrice4 (ucast price) \<longleftrightarrow> price \<le> 2000000000" for price :: u32
  by (simp add: isValidItchPrice4_def kMaxItchPrice4_def word_le_nat_alt unsigned_ucast_eq take_bit_nat_eq_self)

end
