(* ===== verification/ItchParserRefine.thy ===== *)
theory ItchParserRefine
  imports ItchFeed
begin

text \<open>
  Refinement of the remaining handlers: creation of the books, system events, stock directory messages, and the dispatch
  of a message of valid length.
\<close>

section \<open>Creation of the books\<close>

definition books_grown :: "BookManager \<Rightarrow> u16 set \<Rightarrow> BookManager \<Rightarrow> bool" where
  "books_grown m L m' \<longleftrightarrow> manager_inv m' \<and> mgr_config m' = mgr_config m \<and> (no_invalid_book m \<longrightarrow> no_invalid_book m') \<and>
     book_orders (mgr_stores m') = book_orders (mgr_stores m) \<and> refs_seen (mgr_stores m') = refs_seen (mgr_stores m) \<and>
     dom (mgr_books m') = dom (mgr_books m) \<union> L"

lemma createRegisteredBook_grows:
  assumes inv: "manager_inv (ip_books p)" and r: "dir_isRegistered (ip_symbols p) loc"
  shows "\<exists>m'. createRegisteredBook p loc = (True, p\<lparr>ip_books := m'\<rparr>) \<and> books_grown (ip_books p) {loc} m'"
proof -
  obtain bk m' where g: "getOrCreate (ip_books p) loc = (bk, m')" by fastforce
  have v: "isValidStockLocate loc" using r by (simp add: dir_isRegistered_def)
  show ?thesis using getOrCreate_inv [OF inv g] v r g by (auto simp: createRegisteredBook_def books_grown_def)
qed

lemma createRegisteredBooks_loop:
  "manager_inv (ip_books q) \<Longrightarrow>
     \<exists>m'. fold (\<lambda>locate (success, q).
         if dir_isRegistered (ip_symbols q) locate
         then let (created, q') = createRegisteredBook q locate in (created \<and> success, q')
         else (success, q)) xs (True, q) = (True, q\<lparr>ip_books := m'\<rparr>) \<and>
       books_grown (ip_books q) {loc \<in> set xs. dir_isRegistered (ip_symbols q) loc} m'"
proof (induction xs arbitrary: q)
  case Nil
  then show ?case by (auto simp: books_grown_def intro!: exI [of _ "ip_books q"])
next
  case (Cons loc xs)
  show ?case
  proof (cases "dir_isRegistered (ip_symbols q) loc")
    case True
    obtain m1 where m1: "createRegisteredBook q loc = (True, q\<lparr>ip_books := m1\<rparr>)" "books_grown (ip_books q) {loc} m1"
      using createRegisteredBook_grows [OF Cons.prems True] by blast
    obtain m2 where m2: "fold (\<lambda>locate (success, q).
         if dir_isRegistered (ip_symbols q) locate
         then let (created, q') = createRegisteredBook q locate in (created \<and> success, q')
         else (success, q)) xs (True, q\<lparr>ip_books := m1\<rparr>) = (True, q\<lparr>ip_books := m2\<rparr>)"
      "books_grown m1 {loc \<in> set xs. dir_isRegistered (ip_symbols q) loc} m2"
      using Cons.IH [of "q\<lparr>ip_books := m1\<rparr>"] m1(2) by (auto simp: books_grown_def)
    have "{l \<in> set (loc # xs). dir_isRegistered (ip_symbols q) l} = insert loc {l \<in> set xs. dir_isRegistered (ip_symbols q) l}"
      using True by auto
    then have "books_grown (ip_books q) {l \<in> set (loc # xs). dir_isRegistered (ip_symbols q) l} m2"
      using m1(2) m2(2) by (simp add: books_grown_def)
    then show ?thesis using m1(1) m2(1) True by (auto simp: Let_def)
  next
    case False
    then have "{l \<in> set (loc # xs). dir_isRegistered (ip_symbols q) l} = {l \<in> set xs. dir_isRegistered (ip_symbols q) l}" by auto
    then show ?thesis using Cons.IH [OF Cons.prems] False by simp
  qed
qed

lemma registered_dom: "dom (dir_tickers d) = {loc. dir_isRegistered d loc}"
  by (auto simp: dir_tickers_def dom_def)

lemma createRegisteredBooks_grows:
  assumes "manager_inv (ip_books p)"
  shows "\<exists>m'. createRegisteredBooks p = (True, p\<lparr>ip_books := m'\<rparr>) \<and> books_grown (ip_books p) (dom (dir_tickers (ip_symbols p))) m'"
proof -
  have "{loc \<in> set locateSlots. dir_isRegistered (ip_symbols p) loc} = dom (dir_tickers (ip_symbols p))"
    unfolding locateSlots_set registered_dom by (auto simp: dir_isRegistered_def isValidStockLocate_def kInvalidStockLocate_def)
  then show ?thesis using createRegisteredBooks_loop [OF assms, of locateSlots] by (simp add: createRegisteredBooks_def)
qed

section \<open>System events\<close>

lemma advancePhase_refined:
  assumes inv: "parser_inv p" and e: "ip_last_error p = []" and ph: "open_phase ph = open_phase (ip_channel_phase p)"
  shows "refined ex (feed_of p) (if phase_allowed (ip_channel_phase p) ph then Some ((feed_of p)\<lparr>fs_phase := ph\<rparr>) else None)
    (snd (advancePhase p ph))"
  using inv e ph refined_fail [OF inv] by (simp add: advancePhase_def refined_def parser_inv_def feed_of_def)

lemma handleSystemHoursStart_effect:
  assumes inv: "parser_inv p" and ph: "ip_channel_phase p \<in> {StartupDirectorySpin, StartupAdminSpin}"
  shows "\<exists>m'. handleSystemHoursStart p = p\<lparr>ip_channel_phase := SystemHours, ip_books_prepared := True, ip_books := m'\<rparr> \<and>
    books_grown (ip_books p) (dom (dir_tickers (ip_symbols p))) m'"
proof -
  note I = parser_invD [OF inv]
  let ?q = "p\<lparr>ip_channel_phase := SystemHours, ip_books_prepared := True\<rparr>"
  obtain m' where m': "createRegisteredBooks ?q = (True, ?q\<lparr>ip_books := m'\<rparr>)" "books_grown (ip_books p) (dom (dir_tickers (ip_symbols p))) m'"
    using createRegisteredBooks_grows [of ?q] I(2) by auto
  have "\<not> ip_books_prepared p" using I(5) ph by (auto simp: open_phase_def)
  then have "handleSystemHoursStart p = ?q\<lparr>ip_books := m'\<rparr>"
    using ph m'(1) by (auto simp: handleSystemHoursStart_def advancePhase_def)
  then show ?thesis using m'(2) by auto
qed

lemma handleSystemHoursStart_refines:
  assumes inv: "parser_inv p" and e: "ip_last_error p = []"
  shows "refined ex (feed_of p) (map_option (\<lambda>ph. (feed_of p)\<lparr>fs_phase := ph\<rparr>)
     (if ip_channel_phase p \<in> {StartupDirectorySpin, StartupAdminSpin} then Some SystemHours else None)) (handleSystemHoursStart p)"
proof (cases "ip_channel_phase p \<in> {StartupDirectorySpin, StartupAdminSpin}")
  case True
  then have closed: "\<not> open_phase (ip_channel_phase p)" by (auto simp: open_phase_def)
  obtain m' where H: "handleSystemHoursStart p = p\<lparr>ip_channel_phase := SystemHours, ip_books_prepared := True, ip_books := m'\<rparr>"
    and m': "books_grown (ip_books p) (dom (dir_tickers (ip_symbols p))) m'"
    using handleSystemHoursStart_effect [OF inv True] by blast
  have "parser_inv (handleSystemHoursStart p)"
    using parser_invD [OF inv] m' closed unfolding H by (simp add: parser_inv_def books_grown_def open_phase_def)
  then show ?thesis using True e m' unfolding H by (simp add: refined_def) (simp add: feed_of_def books_grown_def)
next
  case False
  then show ?thesis using refined_fail [OF inv] by (simp add: handleSystemHoursStart_def advancePhase_def ip_fail_def Let_def)
qed

lemma live_count_zero: "parser_inv p \<Longrightarrow> totalLiveOrderCount (ip_books p) = 0 \<longleftrightarrow> fs_orders (feed_of p) = Map.empty"
proof -
  assume inv: "parser_inv p"
  note I = parser_invD [OF inv]
  let ?O = "book_orders (mgr_stores (ip_books p))"
  have "card (dom ?O) < 2 ^ 64" using manager_live_bound [OF I(2)] I(4) by simp
  then have "totalLiveOrderCount (ip_books p) = 0 \<longleftrightarrow> card (dom ?O) = 0"
    unfolding total_live_sum [OF I(2)] by (simp add: word_unat_eq_iff unat_of_nat)
  then show ?thesis by simp
qed

lemma handleSystemEvent_refines:
  assumes inv: "parser_inv p" and e: "ip_last_error p = []"
  shows "refined ex (feed_of p) (if msg ! 11 = 0x43 \<and> fs_orders (feed_of p) \<noteq> Map.empty then None
     else map_option (\<lambda>ph. (feed_of p)\<lparr>fs_phase := ph\<rparr>) (next_phase_of (fs_phase (feed_of p)) (msg ! 11))) (handleSystemEvent p msg)"
proof -
  note A = advancePhase_refined [OF inv e] and F = refined_fail [OF inv] and S = handleSystemHoursStart_refines [OF inv e]
  have same: "(feed_of p)\<lparr>fs_phase := ip_channel_phase p\<rparr> = feed_of p" by (simp add: feed_of_def)
  have adv: "refined ex (feed_of p) (map_option (\<lambda>ph. (feed_of p)\<lparr>fs_phase := ph\<rparr>) (if ip_channel_phase p = a then Some ph else None)) (snd (advancePhase p ph))"
    if "phase_allowed (ip_channel_phase p) ph \<longleftrightarrow> ip_channel_phase p = a" "open_phase ph = open_phase a" for ph a
    using that A [of ph] F by (cases "ip_channel_phase p = a") (simp_all add: advancePhase_def)
  consider "msg ! 11 = 0x4F" | "msg ! 11 = 0x53" | "msg ! 11 = 0x51" | "msg ! 11 = 0x4D" | "msg ! 11 = 0x45" | "msg ! 11 = 0x43"
    | "msg ! 11 \<in> {0x41, 0x52, 0x42}" | "msg ! 11 \<notin> {0x4F, 0x53, 0x51, 0x4D, 0x45, 0x43, 0x41, 0x52, 0x42}"
    unfolding insert_iff empty_iff by argo
  then show ?thesis
  proof cases
    case 1
    then show ?thesis using adv [of StartupDirectorySpin WaitingStartOfMessages]
      by (simp add: handleSystemEvent_def kSystemEventCodeOffset_def next_phase_of_def open_phase_def split: if_splits)
  next
    case 2
    then show ?thesis using S
      by (auto simp: handleSystemEvent_def kSystemEventCodeOffset_def next_phase_of_def split: if_splits)
  next
    case 3
    then show ?thesis using adv [of MarketHours SystemHours]
      by (simp add: handleSystemEvent_def kSystemEventCodeOffset_def next_phase_of_def open_phase_def split: if_splits)
  next
    case 4
    then show ?thesis using adv [of PostMarketHours MarketHours]
      by (simp add: handleSystemEvent_def kSystemEventCodeOffset_def next_phase_of_def open_phase_def split: if_splits)
  next
    case 5
    then show ?thesis using adv [of PostSystemHours PostMarketHours]
      by (simp add: handleSystemEvent_def kSystemEventCodeOffset_def next_phase_of_def open_phase_def split: if_splits)
  next
    case 6
    then show ?thesis using adv [of EndOfMessages PostSystemHours] live_count_zero [OF inv] F
      by (simp add: handleSystemEvent_def kSystemEventCodeOffset_def next_phase_of_def open_phase_def split: if_splits)
  next
    case 7
    then have c: "msg ! 11 = 0x41 \<or> msg ! 11 = 0x52 \<or> msg ! 11 = 0x42" by simp
    have "handleSystemEvent p msg = p" "next_phase_of (ip_channel_phase p) (msg ! 11) = Some (ip_channel_phase p)" "msg ! 11 \<noteq> 0x43"
      using c by (elim disjE; simp add: handleSystemEvent_def kSystemEventCodeOffset_def next_phase_of_def)+
    then show ?thesis using refined_same [OF inv e] by (simp add: same)
  next
    case 8
    then show ?thesis using F by (simp add: handleSystemEvent_def kSystemEventCodeOffset_def next_phase_of_def)
  qed
qed

section \<open>Stock directory messages\<close>

lemma length_stock_text: "length (stock_text s) \<le> length s"
  unfolding stock_text_def by (metis length_dropWhile_le length_rev)

lemma takeWhile_take_Suc: "length xs = Suc n \<Longrightarrow> xs ! n = 0 \<Longrightarrow> takeWhile (\<lambda>c. c \<noteq> 0) (take n xs) = takeWhile (\<lambda>c. c \<noteq> 0) xs"
  for xs :: "u8 list"
proof -
  assume "length xs = Suc n" "xs ! n = 0"
  then have "xs = take n xs @ [0]" using take_Suc_conv_app_nth [of n xs] by simp
  then show ?thesis using takeWhile_tail [of "\<lambda>c. c \<noteq> 0" 0 "take n xs" "[]"] by simp
qed

lemma view_c_string:
  assumes "parser_inv p" "dir_get (ip_symbols p) loc = Some e"
  shows "takeWhile (\<lambda>c. c \<noteq> 0) (sde_ticker e) = tickerView e"
proof -
  have "length (sde_ticker e) = 9" "sde_ticker e ! 8 = 0"
    using dir_get_tickers(3) [OF parser_invD(1) [OF assms(1)] assms(2)] parser_invD(7) [OF assms(1)] assms(2)
    by (auto simp: terminated_def dir_get_registered split: if_splits)
  then show ?thesis using takeWhile_take_Suc [of "sde_ticker e" 8] by (simp add: tickerView_def)
qed

lemma view_no_zero: "takeWhile (\<lambda>c. c \<noteq> 0) (tickerView e) = tickerView e"
  by (simp add: tickerView_def)

lemma entry_view:
  assumes "length sy \<le> 8"
  shows "takeWhile (\<lambda>c. c \<noteq> 0) (take 8 (take (length sy) sy @ replicate (9 - length sy) (0 :: u8))) = takeWhile (\<lambda>c. c \<noteq> 0) sy"
proof -
  have "take 8 (sy @ replicate (9 - length sy) (0 :: u8)) = sy @ replicate (8 - length sy) 0" using assms by (simp add: min_def)
  moreover have "takeWhile (\<lambda>c. c \<noteq> 0) (sy @ replicate n (0 :: u8)) = takeWhile (\<lambda>c. c \<noteq> 0) sy" for n
    by (induction sy) (simp_all add: takeWhile_replicate)
  ultimately show ?thesis by simp
qed

lemma canonical_last:
  assumes "length (sde_ticker e) = 9"
  shows "sde_ticker (canonicalEntry loc e (tickerView e)) ! 8 = 0"
  using view_length [of e] assms by (simp add: canonicalEntry_def nth_append)

lemma locate_unique:
  assumes inv: "dir_inv d" and t: "t \<noteq> []"
  shows "locateForTicker d t \<noteq> 0 \<Longrightarrow> dir_tickers d (locateForTicker d t) = Some t" "dir_tickers d l = Some t \<Longrightarrow> locateForTicker d t = l"
  using td.find_inverts [OF inv t] by (auto simp: isValidStockLocate_def kInvalidStockLocate_def)

text \<open>Registering an accepted symbol, with the book of the security when the books exist.\<close>

lemma register_refines:
  assumes inv: "parser_inv p" and e: "ip_last_error p = []" and len: "length (sde_ticker en) = 9"
    and set: "dir_set (ip_symbols p) loc en = (True, d')"
    and q: "q = p\<lparr>ip_symbols := d'\<rparr>"
    and r: "r = (if \<not> ip_books_prepared q then q else let (created, q') = createRegisteredBook q loc
       in if \<not> created then snd (ip_fail q' msg) else q')"
  shows "refined ex (feed_of p) (Some ((feed_of p)\<lparr>fs_tickers := (dir_tickers (ip_symbols p))(loc \<mapsto> tickerView en)\<rparr>)) r"
proof -
  note I = parser_invD [OF inv] and D = dir_set_refines [OF parser_invD(1) [OF inv] len set]
  have T: "dir_tickers d' = (dir_tickers (ip_symbols p))(loc \<mapsto> tickerView en)" using D(3) by simp
  have reg: "dir_isRegistered d' loc" using T by (metis dir_tickers_def fun_upd_same option.discI)
  have tm: "terminated d'" unfolding terminated_def
  proof (intro allI impI)
    fix l assume "dir_isRegistered d' l"
    then have "l \<noteq> loc \<Longrightarrow> dir_isRegistered (ip_symbols p) l" using T by (metis dir_tickers_def fun_upd_other option.discI)
    then show "sde_ticker (dir_entries d' l) ! 8 = 0" using D(5) I(7) canonical_last [OF len] by (auto simp: terminated_def)
  qed
  show ?thesis
  proof (cases "ip_books_prepared p")
    case False
    then have "r = q" "\<not> open_phase (ip_channel_phase p)" using r q I(5) by auto
    then show ?thesis using I D(2) tm T e by (simp add: q refined_def parser_inv_def)
  next
    case True
    obtain m' where m': "createRegisteredBook q loc = (True, q\<lparr>ip_books := m'\<rparr>)" "books_grown (ip_books p) {loc} m'"
      using createRegisteredBook_grows [of q loc] I(2) reg q by auto
    have "r = q\<lparr>ip_books := m'\<rparr>" using r m'(1) True q by simp
    moreover have "open_phase (ip_channel_phase p)" using I(5) True by simp
    ultimately show ?thesis using I D(2) tm T e m'(2) by (simp add: q refined_def parser_inv_def books_grown_def)
  qed
qed

lemma handleStockDirectory_refines:
  assumes inv: "parser_inv p" and e: "ip_last_error p = []" and ph: "ip_channel_phase p \<noteq> WaitingStartOfMessages"
    and len: "length msg = 39"
  shows "refined ex (feed_of p)
    (let stock = take 8 (drop 11 msg); loc = readU16BE msg 1; tk = takeWhile (\<lambda>c. c \<noteq> 0) (stock_text stock)
     in if loc \<noteq> 0 \<and> tk \<noteq> [] \<and>
           (case fs_tickers (feed_of p) loc of Some old \<Rightarrow> old = stock_text stock | None \<Rightarrow> tk \<notin> ran (fs_tickers (feed_of p)))
        then Some ((feed_of p)\<lparr>fs_tickers := (fs_tickers (feed_of p))(loc \<mapsto> tk)\<rparr>) else None) (handleStockDirectory p msg)"
proof -
  let ?loc = "readU16BE msg 1" and ?sym = "stock_text (take 8 (drop 11 msg))" and ?d = "ip_symbols p"
  let ?tk = "takeWhile (\<lambda>c. c \<noteq> 0) ?sym" and ?T = "dir_tickers (ip_symbols p)"
  note F = refined_fail [OF inv] and I = parser_invD [OF inv]
  have s8: "length ?sym \<le> 8" using length_stock_text [of "take 8 (drop 11 msg)"] by simp
  have sy: "fixedText msg 11 kStockLen = ?sym" using fixedText_text [of 11 8 msg] len by (simp add: kStockLen_def)
  let ?n = "if length ?sym < 8 then length ?sym else 8"
  have n: "?n = length ?sym" using s8 by auto
  let ?en = "\<lparr>sde_round_lot_size = readU32BE msg 21, sde_locate = ?loc, sde_ticker = take (length ?sym) ?sym @ replicate (9 - length ?sym) 0,
     sde_market_category = msg ! 19, sde_fin_status = msg ! 20, sde_is_test = (msg ! 29 = 0x54),
     sde_round_lots_only = (msg ! 25 = 0x59), sde_issue_classification = msg ! 26\<rparr>"
  have en: "length (sde_ticker ?en) = 9" "tickerView ?en = ?tk" using s8 entry_view [OF s8] by (simp_all add: tickerView_def)
  obtain ok d' where set: "dir_set ?d ?loc ?en = (ok, d')" by fastforce
  note D = dir_set_refines(1,4) [OF I(1) en(1) set, unfolded en(2)]
  let ?conflict = "case dir_get ?d ?loc of None \<Rightarrow> False | Some x \<Rightarrow> takeWhile (\<lambda>c. c \<noteq> 0) (sde_ticker x) \<noteq> ?sym"
  have conflict: "?conflict \<longleftrightarrow> (\<exists>old. ?T ?loc = Some old \<and> old \<noteq> ?sym)"
    using view_c_string [OF inv, of ?loc] dir_get_tickers(1,2) [of ?d ?loc] by (auto split: option.split)
  have valid: "isValidStockLocate ?loc \<longleftrightarrow> ?loc \<noteq> 0" by (simp add: isValidStockLocate_def kInvalidStockLocate_def)
  have H: "handleStockDirectory p msg =
     (if ?sym = [] \<or> ?loc = 0 then snd (ip_fail p ''invalid stock-directory identity'')
      else if ?conflict then snd (ip_fail p ''conflicting ticker for stock locate'')
      else if locateForTicker ?d ?sym \<noteq> 0 \<and> locateForTicker ?d ?sym \<noteq> ?loc
      then snd (ip_fail p ''ticker is already registered to another stock locate'')
      else if \<not> ok then snd (ip_fail (p\<lparr>ip_symbols := d'\<rparr>) ''unable to register stock-directory identity'')
      else let q = p\<lparr>ip_symbols := d'\<rparr> in if \<not> ip_books_prepared q then q else let (created, q') = createRegisteredBook q ?loc
       in if \<not> created then snd (ip_fail q' ''unable to prepare stock-directory book'') else q')"
    unfolding handleStockDirectory_def Let_def sy n valid kInvalidStockLocate_def using ph
    by (simp only: if_False set prod.case ItchParser.select_convs simp_thms)
  let ?acc = "?loc \<noteq> 0 \<and> ?tk \<noteq> [] \<and> (case ?T ?loc of Some old \<Rightarrow> old = ?sym | None \<Rightarrow> ?tk \<notin> ran ?T)"
  have reg: "refined ex (feed_of p) (Some ((feed_of p)\<lparr>fs_tickers := ?T(?loc \<mapsto> ?tk)\<rparr>)) (handleStockDirectory p msg)"
    if c: "\<not> (?sym = [] \<or> ?loc = 0)" "\<not> ?conflict" "\<not> (locateForTicker ?d ?sym \<noteq> 0 \<and> locateForTicker ?d ?sym \<noteq> ?loc)" "ok"
  proof -
    have set': "dir_set ?d ?loc ?en = (True, d')" using set c(4) by (simp only:)
    have "handleStockDirectory p msg = (if \<not> ip_books_prepared (p\<lparr>ip_symbols := d'\<rparr>) then p\<lparr>ip_symbols := d'\<rparr>
       else let (created, q') = createRegisteredBook (p\<lparr>ip_symbols := d'\<rparr>) ?loc
       in if \<not> created then snd (ip_fail q' ''unable to prepare stock-directory book'') else q')"
      unfolding H Let_def if_not_P [OF c(1)] if_not_P [OF c(2)] if_not_P [OF c(3)] using c(4) by (simp only: simp_thms if_False)
    then show ?thesis using register_refines [OF inv e en(1) set' refl] by (simp only: en(2))
  qed
  have None: "refined ex (feed_of p) None (handleStockDirectory p msg)"
    if "?sym = [] \<or> ?loc = 0 \<or> ?conflict \<or> locateForTicker ?d ?sym \<noteq> 0 \<and> locateForTicker ?d ?sym \<noteq> ?loc \<or> \<not> ok"
  proof -
    have d: "\<not> ok \<Longrightarrow> p\<lparr>ip_symbols := d'\<rparr> = p" using D(2) by simp
    have "\<exists>m. m \<noteq> [] \<and> handleStockDirectory p msg = snd (ip_fail p m)"
      using that d unfolding H by (auto split del: option.split)
    then show ?thesis using F by auto
  qed
  have zero: "?tk = ?sym" if "?T l = Some ?sym" for l
    using that view_no_zero [of "dir_entries ?d l"] by (simp add: dir_tickers_def split: if_splits)
  have acc: "?acc \<longleftrightarrow> \<not> (?sym = [] \<or> ?loc = 0 \<or> ?conflict \<or> locateForTicker ?d ?sym \<noteq> 0 \<and> locateForTicker ?d ?sym \<noteq> ?loc \<or> \<not> ok)"
  proof (cases "?sym = [] \<or> ?loc = 0")
    case False
    then have ne: "?sym \<noteq> []" and l0: "?loc \<noteq> 0" by simp_all
    note U = locate_unique [OF I(1) ne]
    have ok: "ok \<longleftrightarrow> ?tk \<noteq> [] \<and> (case ?T ?loc of Some old \<Rightarrow> old = ?tk | None \<Rightarrow> ?tk \<notin> ran ?T)"
      using D(1) valid l0 by (simp only: spec_set_def simp_thms)
    show ?thesis
    proof (cases "?T ?loc")
      case None
      have "locateForTicker ?d ?sym \<noteq> 0 \<Longrightarrow> ?tk \<in> ran ?T" using U(1) zero by (metis ranI)
      then show ?thesis unfolding conflict using ok None l0 ne by auto
    next
      case (Some old)
      have "old = ?sym \<Longrightarrow> locateForTicker ?d ?sym = ?loc \<and> ?tk = ?sym" using U(2) zero Some by blast
      then show ?thesis unfolding conflict using ok Some l0 ne by (auto simp del: takeWhile_eq_all_conv)
    qed
  qed auto
  have "refined ex (feed_of p) (if ?acc then Some ((feed_of p)\<lparr>fs_tickers := ?T(?loc \<mapsto> ?tk)\<rparr>) else None) (handleStockDirectory p msg)"
  proof (cases ?acc)
    case True
    then have "refined ex (feed_of p) (Some ((feed_of p)\<lparr>fs_tickers := ?T(?loc \<mapsto> ?tk)\<rparr>)) (handleStockDirectory p msg)"
      using reg unfolding acc by blast
    then show ?thesis unfolding if_P [OF True] .
  next
    case False
    then have "refined ex (feed_of p) None (handleStockDirectory p msg)" using None unfolding acc by blast
    then show ?thesis unfolding if_not_P [OF False] .
  qed
  then show ?thesis unfolding Let_def feed_of_sel .
qed

section \<open>Dispatch\<close>

lemma outcome_snd [simp]: "snd (book_outcome q) = q" "snd (ip_skip q) = q\<lparr>ip_last_message_skipped := True\<rparr>"
  by (simp_all add: book_outcome_def ip_skip_def)

lemma refined_skip: "parser_inv p \<Longrightarrow> ip_last_error p = [] \<Longrightarrow> refined ex (feed_of p) (Some (feed_of p)) (snd (ip_skip p))"
  by (simp add: refined_def)

lemma markStartupAdmin_refines:
  assumes "parser_inv p" "ip_last_error p = []"
  shows "refined ex (feed_of p) (Some (if fs_phase (feed_of p) = StartupDirectorySpin
     then (feed_of p)\<lparr>fs_phase := StartupAdminSpin\<rparr> else feed_of p)) (markStartupAdminMessage p)"
  using assms by (simp add: markStartupAdminMessage_def refined_def parser_inv_def open_phase_def)

text \<open>The bytes that name a message with a handler of its own.\<close>

definition guard_passed :: "ItchParser \<Rightarrow> u8 list \<Rightarrow> bool" where
  "guard_passed p msg \<longleftrightarrow>
     \<not> readU48BE msg kTimestampOffset \<ge> kNanosecondsPerDay \<and> \<not> (msg ! 0 = 0x53 \<and> readU16BE msg 1 \<noteq> 0) \<and>
     \<not> (ip_channel_phase p = WaitingStartOfMessages \<and> (msg ! 0 \<noteq> 0x53 \<or> (if msg ! 0 = 0x53 then msg ! kSystemEventCodeOffset else 0) \<noteq> 0x4F)) \<and>
     ip_channel_phase p \<noteq> EndOfMessages \<and>
     \<not> (ip_channel_phase p = PostSystemHours \<and> msg ! 0 \<noteq> 0x58 \<and> msg ! 0 \<noteq> 0x44 \<and> msg ! 0 \<noteq> 0x42 \<and>
        \<not> (msg ! 0 = 0x53 \<and> (if msg ! 0 = 0x53 then msg ! kSystemEventCodeOffset else 0) = 0x43))"

definition dispatched :: "ItchParser \<Rightarrow> u8 list \<Rightarrow> bool \<times> ItchParser" where
  "dispatched p msg =
     (let type = msg ! 0; locate = readU16BE msg 1
      in if type = 0x41 then book_outcome (handleAdd p msg locate)
        else if type = 0x46 then book_outcome (handleAdd p msg locate)
        else if type = 0x45 then book_outcome (handleOrderExecuted p msg locate)
        else if type = 0x43 then book_outcome (handleOrderExecutedWithPrice p msg locate)
        else if type = 0x58 then book_outcome (handleCancel p msg locate)
        else if type = 0x44 then book_outcome (handleDelete p msg locate)
        else if type = 0x55 then book_outcome (handleReplace p msg locate)
        else if type = 0x42 then book_outcome (handleBrokenTrade p msg locate)
        else if type = 0x52 then (False, handleStockDirectory p msg)
        else if type = 0x53 then (False, handleSystemEvent p msg)
        else if type \<in> {0x48, 0x59, 0x4C, 0x56, 0x57, 0x4B, 0x4A, 0x68} then (False, markStartupAdminMessage p)
        else ip_skip p)"

lemma dispatch_guard:
  "guard_passed p msg \<Longrightarrow> dispatchMessage p msg = dispatched p msg"
  "\<not> guard_passed p msg \<Longrightarrow> \<exists>e. e \<noteq> [] \<and> dispatchMessage p msg = ip_fail p e"
proof -
  let ?chain = "dispatched p msg"
  have D: "dispatchMessage p msg =
     (if readU48BE msg kTimestampOffset \<ge> kNanosecondsPerDay then ip_fail p ''ITCH timestamp is outside trading day''
      else if msg ! 0 = 0x53 \<and> readU16BE msg 1 \<noteq> 0 then ip_fail p ''System Event stock locate is not zero''
      else if ip_channel_phase p = WaitingStartOfMessages \<and> (msg ! 0 \<noteq> 0x53 \<or> (if msg ! 0 = 0x53 then msg ! kSystemEventCodeOffset else 0) \<noteq> 0x4F)
      then ip_fail p ''first ITCH message is not System Event O''
      else if ip_channel_phase p = EndOfMessages then ip_fail p ''ITCH message after end of messages''
      else if ip_channel_phase p = PostSystemHours \<and> msg ! 0 \<noteq> 0x58 \<and> msg ! 0 \<noteq> 0x44 \<and> msg ! 0 \<noteq> 0x42 \<and>
        \<not> (msg ! 0 = 0x53 \<and> (if msg ! 0 = 0x53 then msg ! kSystemEventCodeOffset else 0) = 0x43)
      then ip_fail p ''ITCH message is not permitted after System Event E'' else ?chain)"
    unfolding dispatchMessage_def dispatched_def Let_def by (rule refl)
  show "guard_passed p msg \<Longrightarrow> dispatchMessage p msg = ?chain" unfolding D guard_passed_def by argo
  show "\<not> guard_passed p msg \<Longrightarrow> \<exists>e. e \<noteq> [] \<and> dispatchMessage p msg = ip_fail p e"
    unfolding D guard_passed_def by (split if_split, intro conjI impI, force)+ argo
qed


lemma decode_event_cases:
  "msg ! 0 = 0x41 \<or> msg ! 0 = 0x46 \<Longrightarrow> decode_event msg = EvListed (readU16BE msg 1) (take 8 (drop 24 msg))
     (CallAdd (readU64BE msg 11) (ucast (readU32BE msg 32)) (readU32BE msg 20) (msg ! 19) (message_time msg))"
  "msg ! 0 = 0x45 \<Longrightarrow> decode_event msg = EvOrder (readU16BE msg 1) (CallExecute (readU64BE msg 11) (readU32BE msg 19) (message_time msg))"
  "msg ! 0 = 0x43 \<Longrightarrow> decode_event msg = EvPriced (readU16BE msg 1) (readU32BE msg 32) (CallExecute (readU64BE msg 11) (readU32BE msg 19) (message_time msg))"
  "msg ! 0 = 0x58 \<Longrightarrow> decode_event msg = EvOrder (readU16BE msg 1) (CallCancel (readU64BE msg 11) (readU32BE msg 19) (message_time msg))"
  "msg ! 0 = 0x44 \<Longrightarrow> decode_event msg = EvOrder (readU16BE msg 1) (CallDelete (readU64BE msg 11) (message_time msg))"
  "msg ! 0 = 0x55 \<Longrightarrow> decode_event msg = EvOrder (readU16BE msg 1)
     (CallReplace (readU64BE msg 11) (readU64BE msg 19) (ucast (readU32BE msg 31)) (readU32BE msg 27) (message_time msg))"
  "msg ! 0 = 0x52 \<Longrightarrow> decode_event msg = EvDirectory (readU16BE msg 1) (take 8 (drop 11 msg))"
  "msg ! 0 = 0x53 \<Longrightarrow> decode_event msg = EvSystem (readU16BE msg 1) (msg ! 11)"
  "msg ! 0 = 0x42 \<Longrightarrow> decode_event msg = EvBroken"
  "msg ! 0 \<in> {0x48, 0x59, 0x4C, 0x56, 0x57, 0x4B, 0x4A, 0x68} \<Longrightarrow> decode_event msg = EvAdmin"
  "msg ! 0 \<notin> {0x41, 0x46, 0x45, 0x43, 0x58, 0x44, 0x55, 0x52, 0x53, 0x42, 0x48, 0x59, 0x4C, 0x56, 0x57, 0x4B, 0x4A, 0x68} \<Longrightarrow> decode_event msg = EvOther"
  unfolding decode_event_def Let_def by (simp_all, auto)

lemma type_cases:
  obtains (add) "msg ! 0 = 0x41 \<or> msg ! 0 = 0x46" | (executed) "msg ! 0 = 0x45" | (priced) "msg ! 0 = 0x43" | (cancel) "msg ! 0 = 0x58"
  | (deleted) "msg ! 0 = 0x44" | (replaced) "msg ! 0 = 0x55" | (directory) "msg ! 0 = 0x52" | (system) "msg ! 0 = 0x53" | (broken) "msg ! 0 = (0x42 :: u8)"
  | (admin) "msg ! 0 \<in> {0x48, 0x59, 0x4C, 0x56, 0x57, 0x4B, 0x4A, 0x68}"
  | (other) "msg ! 0 \<notin> {0x41, 0x46, 0x45, 0x43, 0x58, 0x44, 0x55, 0x52, 0x53, 0x42, 0x48, 0x59, 0x4C, 0x56, 0x57, 0x4B, 0x4A, 0x68}"
  unfolding insert_iff empty_iff by argo

lemma guard_permits:
  "guard_passed p msg \<longleftrightarrow> \<not> message_time msg \<ge> kNanosecondsPerDay \<and> permitted (ip_channel_phase p) (decode_event msg) \<and>
     (msg ! 0 = 0x53 \<longrightarrow> readU16BE msg 1 = 0)"
proof (cases msg rule: type_cases)
  case admin
  then have "msg ! 0 \<notin> {0x53, 0x58, 0x44, 0x42}" unfolding insert_iff empty_iff by (elim disjE) simp_all
  then show ?thesis unfolding decode_event_cases(10) [OF admin]
    by (simp add: guard_passed_def permitted_def message_time_def kTimestampOffset_def)
next
  case other
  then show ?thesis unfolding decode_event_cases(11) [OF other]
    by (simp add: guard_passed_def permitted_def message_time_def kTimestampOffset_def)
next
  case add
  then show ?thesis unfolding decode_event_cases(1) [OF add]
    by (elim disjE) (simp_all add: guard_passed_def permitted_def message_time_def kTimestampOffset_def)
qed (simp_all add: guard_passed_def permitted_def decode_event_cases message_time_def kTimestampOffset_def kSystemEventCodeOffset_def, auto)

lemma dispatched_refines:
  assumes inv: "parser_inv p" and e: "ip_last_error p = []" and v: "valid_message msg" and g: "guard_passed p msg"
  shows "refined (message_exhausts p msg) (feed_of p) (spec_message (feed_of p) msg) (snd (dispatched p msg))"
proof -
  have G: "\<not> message_time msg \<ge> kNanosecondsPerDay" "permitted (ip_channel_phase p) (decode_event msg)" "msg ! 0 = 0x53 \<Longrightarrow> readU16BE msg 1 = 0"
    using g guard_permits by blast+
  note F = refined_fail [OF inv] and A = apply_call_refines [OF inv e] and L = message_lengths [OF v]
  show ?thesis
  proof (cases msg rule: type_cases)
    case add
    then have "32 \<le> length msg" using L(1,2) by auto
    from handleAdd_refines [OF inv e this, of "readU16BE msg 1"] show ?thesis
      using G(1,2) decode_event_cases(1) [OF add] add by (elim disjE) (simp_all add: spec_message_def spec_event_def dispatched_def message_exhausts_def del: One_nat_def)
  next
    case executed
    then show ?thesis using G A decode_event_cases(2)
      by (simp add: spec_message_def spec_event_def dispatched_def message_exhausts_def handleOrderExecuted_def handlers_apply_call)
  next
    case priced
    then show ?thesis using G A F decode_event_cases(3)
      by (simp add: spec_message_def spec_event_def dispatched_def message_exhausts_def handleOrderExecutedWithPrice_def handlers_apply_call isValidItchPrice4_u32 Let_def)
  next
    case cancel
    then show ?thesis using G A decode_event_cases(4) by (simp add: spec_message_def spec_event_def dispatched_def message_exhausts_def handlers_apply_call)
  next
    case deleted
    then show ?thesis using G A decode_event_cases(5) by (simp add: spec_message_def spec_event_def dispatched_def message_exhausts_def handlers_apply_call)
  next
    case replaced
    then show ?thesis using G A F decode_event_cases(6) by (simp add: spec_message_def spec_event_def dispatched_def message_exhausts_def handleReplace_apply)
  next
    case directory
    have "ip_channel_phase p \<noteq> WaitingStartOfMessages" using G(2) decode_event_cases(7) [OF directory] by (auto simp: permitted_def)
    from handleStockDirectory_refines [OF inv e this L(8) [OF directory]] show ?thesis
      using G(1,2) decode_event_cases(7) [OF directory] directory by (simp add: spec_message_def spec_event_def dispatched_def message_exhausts_def Let_def del: One_nat_def)
  next
    case system
    from handleSystemEvent_refines [OF inv e, where msg = msg] show ?thesis
      using G decode_event_cases(8) [OF system] system by (simp add: spec_message_def spec_event_def dispatched_def message_exhausts_def)
  next
    case broken
    then show ?thesis using G refined_skip [OF inv e] decode_event_cases(9)
      by (simp add: spec_message_def spec_event_def dispatched_def message_exhausts_def handleBrokenTrade_def)
  next
    case admin
    have "snd (dispatched p msg) = markStartupAdminMessage p" using admin unfolding insert_iff empty_iff by (elim disjE) (simp_all add: dispatched_def)
    then show ?thesis using G(1,2) markStartupAdmin_refines [OF inv e] decode_event_cases(10) [OF admin] by (simp add: spec_message_def spec_event_def)
  next
    case other
    have "dispatched p msg = ip_skip p" using other by (simp add: dispatched_def)
    then show ?thesis using G(1,2) refined_skip [OF inv e] decode_event_cases(11) [OF other] by (simp add: spec_message_def spec_event_def)
  qed
qed

lemma spec_needs_guard:
  assumes "\<not> guard_passed p msg"
  shows "spec_message (feed_of p) msg = None"
proof -
  have "message_time msg \<ge> kNanosecondsPerDay \<or> \<not> permitted (ip_channel_phase p) (decode_event msg) \<or>
      msg ! 0 = 0x53 \<and> readU16BE msg 1 \<noteq> 0"
    using assms guard_permits by blast
  then show ?thesis using decode_event_cases(8) [of msg] by (auto simp: spec_message_def spec_event_def)
qed

lemma dispatch_refines:
  assumes inv: "parser_inv p" and e: "ip_last_error p = []" and v: "valid_message msg"
  shows "refined (message_exhausts p msg) (feed_of p) (spec_message (feed_of p) msg) (snd (dispatchMessage p msg))"
proof (cases "guard_passed p msg")
  case True
  then show ?thesis using dispatched_refines [OF inv e v True] by (simp add: dispatch_guard)
next
  case False
  then obtain er where "er \<noteq> []" "dispatchMessage p msg = ip_fail p er" using dispatch_guard(2) by blast
  then show ?thesis using refined_fail [OF inv] spec_needs_guard [OF False] by simp
qed

lemma clear_outcome_simps [simp]:
  "parser_inv (clear_outcome p) = parser_inv p" "feed_of (clear_outcome p) = feed_of p" "ip_last_error (clear_outcome p) = []"
  unfolding clear_outcome_def by (simp_all add: parser_inv_def feed_of_def)

lemma message_exhausts_clear [simp]: "message_exhausts (clear_outcome p) msg = message_exhausts p msg"
  by (simp add: message_exhausts_def clear_outcome_def)

lemma handlePrevalidated_refines:
  assumes "parser_inv p" "valid_message msg"
  shows "refined (message_exhausts p msg) (feed_of p) (spec_message (feed_of p) msg) (snd (handlePrevalidatedMessage p msg))"
  using dispatch_refines [of "clear_outcome p" msg] assms by (simp add: handlePrevalidatedMessage_def valid_message_def)

lemma handleMessage_refines:
  assumes "parser_inv p"
  shows "refined (message_exhausts p msg) (feed_of p) (if valid_message msg then spec_message (feed_of p) msg else None) (snd (handleMessage p msg))"
  using dispatch_refines [of "clear_outcome p" msg] refined_fail [of "clear_outcome p"] assms
  by (auto simp: handleMessage_def valid_message_def Let_def)

end
