(* ===== verification/WireFormatCorrect.thy ===== *)
theory WireFormatCorrect
  imports WireFormat
begin

text \<open>
  The wire formats: fields as big-endian numbers, the round trip of control packets, and the rate guarantee of the
  sender's schedule.
\<close>

section \<open>Fields as numbers\<close>

definition be_value :: "u8 list \<Rightarrow> nat" where "be_value bs = foldl (\<lambda>v b. 256 * v + unat b) 0 bs"

lemma byte_less: "unat (b :: u8) < 256" using unsigned_less [of b, where 'a = nat] by simp

lemma unat_ucast_byte:
  "unat (ucast (b :: u8) :: u16) = unat b" "unat (ucast b :: u32) = unat b" "unat (ucast b :: u64) = unat b"
  using byte_less [of b] by (simp_all add: unsigned_ucast_eq take_bit_nat_eq_self)

lemma join_bytes:
  "unat (push_bit 8 (ucast (a :: u8)) OR ucast (b :: u8) :: u16) = 256 * unat a + unat b"
  "unat (push_bit 8 (ucast (a :: u8)) OR ucast (b :: u8) :: u32) = 256 * unat a + unat b"
  using unat_shl_or [of "ucast a :: u16" 8 "ucast b"] unat_shl_or [of "ucast a :: u32" 8 "ucast b"] byte_less [of a] byte_less [of b]
  by (simp_all add: unat_ucast_byte)

lemma be_value_snoc [simp]: "be_value (bs @ [b]) = 256 * be_value bs + unat b" by (simp add: be_value_def)

lemma be_value_Nil [simp]: "be_value [] = 0" by (simp add: be_value_def)

lemma be_value_less: "be_value bs < 256 ^ length bs"
proof (induction bs rule: rev_induct)
  case (snoc b bs)
  then show ?case using byte_less [of b] by simp
qed simp

lemma take_Suc_drop: "off + k < length msg \<Longrightarrow> take (Suc k) (drop off msg) = take k (drop off msg) @ [msg ! (off + k)]"
  by (simp add: take_Suc_conv_app_nth)

lemma be_loop:
  assumes "off + k \<le> length msg" "k \<le> 8"
  shows "unat (fold (\<lambda>i v. push_bit 8 v OR ucast (msg ! (off + i))) [0..<k] (0 :: u64)) = be_value (take k (drop off msg))"
  using assms
proof (induction k)
  case (Suc k)
  let ?v = "fold (\<lambda>i v. push_bit 8 v OR ucast (msg ! (off + i))) [0..<k] (0 :: u64)"
  have IH: "unat ?v = be_value (take k (drop off msg))" using Suc by simp
  have "(256 :: nat) ^ k \<le> 256 ^ 7" using Suc.prems by (intro power_increasing) auto
  then have "unat ?v * 2 ^ 8 < 2 ^ 64" using be_value_less [of "take k (drop off msg)"] Suc.prems IH by simp
  then have "unat (push_bit 8 ?v OR ucast (msg ! (off + k))) = unat ?v * 2 ^ 8 + unat (msg ! (off + k))"
    using unat_shl_or [of ?v 8 "ucast (msg ! (off + k))"] by (simp add: unat_ucast_byte byte_less)
  then show ?case using IH Suc.prems by (simp add: take_Suc_drop)
qed simp

lemma readers_value:
  "off + 2 \<le> length msg \<Longrightarrow> unat (readU16BE msg off) = be_value (take 2 (drop off msg))"
  "off + 4 \<le> length msg \<Longrightarrow> unat (readU32BE msg off) = be_value (take 4 (drop off msg))"
  "off + 6 \<le> length msg \<Longrightarrow> unat (readU48BE msg off) = be_value (take 6 (drop off msg))"
  "off + 8 \<le> length msg \<Longrightarrow> unat (readU64BE msg off) = be_value (take 8 (drop off msg))"
proof -
  assume "off + 2 \<le> length msg"
  then have "take 2 (drop off msg) = [msg ! off, msg ! (off + 1)]" by (simp add: numeral_2_eq_2 take_Suc_drop)
  then show "unat (readU16BE msg off) = be_value (take 2 (drop off msg))"
    by (simp add: readU16BE_def join_bytes be_value_def)
next
  let ?b = "\<lambda>i. ucast (msg ! (off + i)) :: u32"
  let ?h = "push_bit 8 (?b 0) OR ?b 1" and ?l = "push_bit 8 (?b 2) OR ?b 3"
  assume "off + 4 \<le> length msg"
  then have t: "take 4 (drop off msg) = [msg ! off, msg ! (off + 1), msg ! (off + 2), msg ! (off + 3)]"
    by (simp add: eval_nat_numeral take_Suc_drop)
  have hl: "unat ?h = 256 * unat (msg ! off) + unat (msg ! (off + 1))" "unat ?l = 256 * unat (msg ! (off + 2)) + unat (msg ! (off + 3))"
    by (simp_all add: join_bytes)
  have "readU32BE msg off = push_bit 16 ?h OR ?l" by (simp add: readU32BE_def push_bit_or ac_simps)
  then show "unat (readU32BE msg off) = be_value (take 4 (drop off msg))"
    using unat_shl_or [of ?h 16 ?l] hl byte_less [of "msg ! off"] byte_less [of "msg ! (off + 1)"]
      byte_less [of "msg ! (off + 2)"] byte_less [of "msg ! (off + 3)"] by (simp add: be_value_def t)
next
  assume "off + 6 \<le> length msg"
  then show "unat (readU48BE msg off) = be_value (take 6 (drop off msg))" unfolding readU48BE_def by (intro be_loop) simp_all
next
  assume "off + 8 \<le> length msg"
  then show "unat (readU64BE msg off) = be_value (take 8 (drop off msg))" unfolding readU64BE_def by (intro be_loop) simp_all
qed

lemma mold_readers: "mold_readU16BE = readU16BE" "mold_readU64BE = readU64BE"
  by (simp_all add: fun_eq_iff mold_readU16BE_def readU16BE_def mold_readU64BE_def readU64BE_def)

lemma readers_append:
  "off + 2 \<le> length msg \<Longrightarrow> readU16BE (msg @ xs) off = readU16BE msg off"
  "off + 4 \<le> length msg \<Longrightarrow> readU32BE (msg @ xs) off = readU32BE msg off"
  "off + 6 \<le> length msg \<Longrightarrow> readU48BE (msg @ xs) off = readU48BE msg off"
  "off + 8 \<le> length msg \<Longrightarrow> readU64BE (msg @ xs) off = readU64BE msg off"
  by (simp_all add: readU16BE_def readU32BE_def readU48BE_def readU64BE_def nth_append upt_rec)

section \<open>Control packets\<close>

definition padded_session :: "u8 list \<Rightarrow> u8 list" where
  "padded_session session = take 10 (session @ replicate 10 0x20)"

definition be_bytes :: "nat \<Rightarrow> 'a::len word \<Rightarrow> u8 list" where
  "be_bytes k w = map (\<lambda>i. ucast (drop_bit (8 * i) w)) (rev [0..<k])"

lemma padded_nth: "i < 10 \<Longrightarrow> padded_session session ! i = (if i < length session then session ! i else 0x20)"
  by (simp add: padded_session_def nth_append)

lemma length_padded [simp]: "length (padded_session session) = 10" by (simp add: padded_session_def)

lemma list10: "length xs = 10 \<Longrightarrow> xs = [xs ! 0, xs ! 1, xs ! 2, xs ! 3, xs ! 4, xs ! 5, xs ! 6, xs ! 7, xs ! 8, xs ! 9]"
  by (rule nth_equalityI) (auto simp: less_Suc_eq numeral_eq_Suc)

lemma low_byte: "(ucast (w AND 0xFF) :: u8) = ucast w" for w :: "'a::len word"
proof -
  have m: "(0xFF :: 'a word) = mask 8" by (simp add: mask_eq_exp_minus_1)
  show ?thesis unfolding m by (rule bit_word_eqI) (auto simp: bit_simps dest: bit_imp_le_length)
qed

lemma session_loop:
  "fold (\<lambda>i p. p[i := f i]) [0..<10] (replicate 20 (0 :: u8)) =
     [f 0, f 1, f 2, f 3, f 4, f 5, f 6, f 7, f 8, f 9, 0, 0, 0, 0, 0, 0, 0, 0, 0, 0]"
  by (simp add: eval_nat_numeral)

lemma control_packet_layout:
  "makeMoldControlPacket session n c = padded_session session @ be_bytes 8 n @ be_bytes 2 c"
  by (subst list10 [OF length_padded])
    (simp only: padded_nth makeMoldControlPacket_def kHeaderSize_def kSessionSize_def session_loop Let_def,
      simp add: be_bytes_def low_byte padded_nth upt_rec)

lemma be_value_foldl: "foldl (\<lambda>v b. 256 * v + unat b) a bs = a * 256 ^ length bs + be_value bs"
proof (induction bs rule: rev_induct)
  case (snoc b bs)
  then show ?case by (simp add: be_value_def algebra_simps)
qed simp

lemma be_value_Cons: "be_value (b # bs) = unat b * 256 ^ length bs + be_value bs"
  using be_value_foldl [of "unat b" bs] by (simp add: be_value_def)

lemma be_bytes_Suc: "be_bytes (Suc k) w = ucast (drop_bit (8 * k) w) # be_bytes k w" by (simp add: be_bytes_def)

lemma length_be_bytes [simp]: "length (be_bytes k w) = k" by (simp add: be_bytes_def)

lemma unat_byte_of: "unat (ucast (drop_bit n w) :: u8) = unat w div 2 ^ n mod 256" for w :: "'a::len word"
  by (simp only: unsigned_ucast_eq unat_shr) (simp add: take_bit_eq_mod)

lemma be_value_bytes: "be_value (be_bytes k w) = unat w mod 256 ^ k"
proof (induction k)
  case 0
  then show ?case by (simp add: be_bytes_def)
next
  case (Suc k)
  have "unat w mod 256 ^ Suc k = 256 ^ k * (unat w div 256 ^ k mod 256) + unat w mod 256 ^ k"
    using mod_mult2_eq [of "unat w" "256 ^ k" 256] by (simp add: ac_simps)
  moreover have "(2 :: nat) ^ (8 * k) = 256 ^ k" by (simp add: power_mult)
  ultimately show ?case using Suc by (simp add: be_bytes_Suc be_value_Cons unat_byte_of)
qed

lemma control_packet_fields:
  "readU64BE (makeMoldControlPacket session n c) 10 = n" "readU16BE (makeMoldControlPacket session n c) 18 = c"
proof -
  let ?P = "makeMoldControlPacket session n c"
  have "unat (readU64BE ?P 10) = unat n mod 256 ^ 8" "unat (readU16BE ?P 18) = unat c mod 256 ^ 2"
    using readers_value(4) [of 10 ?P] readers_value(1) [of 18 ?P] by (simp_all add: control_packet_layout be_value_bytes)
  then show "readU64BE ?P 10 = n" "readU16BE ?P 18 = c"
    using unsigned_less [of n, where 'a = nat] unsigned_less [of c, where 'a = nat] by (simp_all add: word_unat_eq_iff)
qed

section \<open>Schedules\<close>

lemma ceil_arith:
  "q * p + r = K \<Longrightarrow> 0 \<le> r \<Longrightarrow> r < p \<Longrightarrow>
     K \<le> (q + (if r = 0 then 0 else 1)) * p \<and> (q + (if r = 0 then 0 else 1) - 1) * p < K" for p :: int
  by (auto simp: algebra_simps)

lemma interval_covers_rate:
  assumes "packets_per_second \<noteq> 0"
  shows "1000000000 \<le> intervalFor packets_per_second * uint packets_per_second"
    "(intervalFor packets_per_second - 1) * uint packets_per_second < 1000000000" "0 < intervalFor packets_per_second"
proof -
  let ?p = "uint packets_per_second"
  have p: "0 < ?p" using assms by (simp add: word_neq_0_conv [symmetric] uint_0_iff order_less_le)
  have K: "uint kNanosecondsPerSecond = 1000000000" by (simp add: kNanosecondsPerSecond_def)
  let ?q = "1000000000 div ?p" and ?r = "1000000000 mod ?p"
  have q: "0 \<le> ?q" "?q \<le> 1000000000" using p zdiv_mono2 [of 1000000000 1 ?p] by (simp_all add: pos_imp_zdiv_nonneg_iff)
  have "uint (kNanosecondsPerSecond div packets_per_second) = ?q" by (simp add: uint_div K)
  moreover have "kNanosecondsPerSecond mod packets_per_second = 0 \<longleftrightarrow> ?r = 0" by (simp add: word_uint_eq_iff uint_mod K)
  ultimately have I: "intervalFor packets_per_second = ?q + (if ?r = 0 then 0 else 1)"
    using assms q by (simp add: intervalFor_def Let_def uint_word_ariths)
  have e: "?q * ?p + ?r = 1000000000" "0 \<le> ?r" "?r < ?p" using p by (simp_all add: div_mult_mod_eq)
  show "1000000000 \<le> intervalFor packets_per_second * ?p" "(intervalFor packets_per_second - 1) * ?p < 1000000000"
    using ceil_arith [OF e] by (simp_all only: I)
  then show "0 < intervalFor packets_per_second" using p by (smt (verit) mult_nonpos_nonneg)
qed

text \<open>A sender obeys the schedule when it asks for a deadline after every packet and sends no packet before
  the deadline it got.\<close>

fun obeys :: "RateSchedule \<Rightarrow> int list \<Rightarrow> bool" where
  "obeys s [] = True"
| "obeys s [t] = True"
| "obeys s (t # t' # ts) =
     (case checkedDeadlineAfterPacket s t of (None, _) \<Rightarrow> False | (Some d, s') \<Rightarrow> d \<le> t' \<and> obeys s' (t' # ts))"

lemma deadline_after:
  assumes "checkedDeadlineAfterPacket s t = (Some d, s')"
  shows "t + rs_interval s \<le> d" "rs_interval s' = rs_interval s" "d \<le> timePointMax"
  using assms by (auto simp: checkedDeadlineAfterPacket_def rs_checkedAdd_def Let_def split: if_splits option.splits)

lemma obeys_spread: "obeys s (t # ts) \<Longrightarrow> j < length (t # ts) \<Longrightarrow> t + int j * rs_interval s \<le> (t # ts) ! j"
proof (induction ts arbitrary: s t j)
  case (Cons t' ts)
  then obtain d s' where d: "checkedDeadlineAfterPacket s t = (Some d, s')" "d \<le> t'" "obeys s' (t' # ts)"
    by (auto split: prod.splits option.splits)
  show ?case
  proof (cases j)
    case (Suc i)
    then show ?thesis using Cons.IH [OF d(3), of i] Cons.prems deadline_after [OF d(1)] d(2) by (simp add: algebra_simps)
  qed simp
qed simp

lemma obeys_drop: "obeys s ts \<Longrightarrow> \<exists>s'. rs_interval s' = rs_interval s \<and> obeys s' (drop i ts)"
proof (induction s ts arbitrary: i rule: obeys.induct)
  case (3 s t t' ts)
  then obtain d s' where d: "checkedDeadlineAfterPacket s t = (Some d, s')" "d \<le> t'" "obeys s' (t' # ts)"
    by (auto split: prod.splits option.splits)
  show ?case
  proof (cases i)
    case 0
    then show ?thesis using 3(2) by auto
  next
    case (Suc k)
    then show ?thesis using 3(1) [OF d(1) [symmetric] refl d(3), of k] deadline_after(2) [OF d(1)] by auto
  qed
next
  case (2 s t)
  then show ?case by (cases i) auto
qed auto

section \<open>Properties\<close>

text \<open>Control packets round trip. The decoder's readers recover from a heartbeat or end-of-session packet exactly
  the session (padded with blanks to ten characters), the next sequence and the message count it was made from.\<close>

theorem control_packet_roundtrip:
  "length (makeMoldControlPacket session n c) = kHeaderSize \<and>
   take 10 (makeMoldControlPacket session n c) = take 10 (session @ replicate 10 0x20) \<and>
   mold_readU64BE (makeMoldControlPacket session n c) 10 = n \<and>
   mold_readU16BE (makeMoldControlPacket session n c) 18 = c \<and>
   mold_readU16BE (makeMoldHeartbeatPacket session n) 18 = 0 \<and>
   mold_readU16BE (makeMoldEndOfSessionPacket session n) 18 = kEndOfSessionMessageCount"
  by (simp add: mold_readers control_packet_fields makeMoldHeartbeatPacket_def makeMoldEndOfSessionPacket_def)
    (auto simp: control_packet_layout kHeaderSize_def padded_session_def min_def)

text \<open>The field readers return the unsigned big-endian value of the bytes of their field: nothing is lost to the
  width of the result, and nothing outside the field is read.\<close>

theorem readers_big_endian:
  assumes "off + 8 \<le> length msg"
  shows "unat (readU16BE msg off) = foldl (\<lambda>v b. 256 * v + unat b) 0 (take 2 (drop off msg)) \<and>
    unat (readU32BE msg off) = foldl (\<lambda>v b. 256 * v + unat b) 0 (take 4 (drop off msg)) \<and>
    unat (readU48BE msg off) = foldl (\<lambda>v b. 256 * v + unat b) 0 (take 6 (drop off msg)) \<and>
    unat (readU64BE msg off) = foldl (\<lambda>v b. 256 * v + unat b) 0 (take 8 (drop off msg))"
  using readers_value [of off msg, unfolded be_value_def] assms by simp_all

theorem readers_big_endian_witness:
  "unat (readU16BE [0, 1, 2, 3, 4, 5, 6, 7, 8] 1) = 258 \<and> unat (readU32BE [0, 1, 2, 3, 4, 5, 6, 7, 8] 1) = 16909060 \<and>
   unat (readU48BE [0, 1, 2, 3, 4, 5, 6, 7, 8] 1) = 1108152157446 \<and>
   unat (readU64BE [0, 1, 2, 3, 4, 5, 6, 7, 8] 1) = 72623859790382856"
  using readers_big_endian [of 1 "[0, 1, 2, 3, 4, 5, 6, 7, 8]"] by simp

text \<open>The sender's rate limit. A sender that never sends before the deadline the schedule gave it sends at most the
  configured number of packets per second over every stretch of packets, and the interval is the smallest whole
  number of nanoseconds with that guarantee.\<close>

theorem rate_never_exceeded:
  assumes "packets_per_second \<noteq> 0" "obeys (newRateSchedule packets_per_second) ts" "i \<le> j" "j < length ts"
  shows "int (j - i) * 1000000000 \<le> (ts ! j - ts ! i) * uint packets_per_second \<and>
    (rs_interval (newRateSchedule packets_per_second) - 1) * uint packets_per_second < 1000000000"
proof -
  let ?p = "uint packets_per_second" and ?s = "newRateSchedule packets_per_second"
  have I: "rs_interval ?s = intervalFor packets_per_second" by (simp add: newRateSchedule_def)
  obtain s' where s': "rs_interval s' = rs_interval ?s" "obeys s' (drop i ts)" using obeys_drop [OF assms(2)] by blast
  have d: "drop i ts = ts ! i # drop (Suc i) ts" using assms by (intro Cons_nth_drop_Suc [symmetric]) simp
  have "ts ! i + int (j - i) * rs_interval s' \<le> (ts ! i # drop (Suc i) ts) ! (j - i)"
    by (rule obeys_spread) (use s'(2) d assms in auto)
  then have "int (j - i) * rs_interval ?s \<le> ts ! j - ts ! i" unfolding d [symmetric] using s'(1) assms by simp
  then have "int (j - i) * rs_interval ?s * ?p \<le> (ts ! j - ts ! i) * ?p" by (rule mult_right_mono) simp
  moreover have "int (j - i) * 1000000000 \<le> int (j - i) * (rs_interval ?s * ?p)"
    using interval_covers_rate(1) [OF assms(1)] by (intro mult_left_mono) (simp_all add: I)
  ultimately have "int (j - i) * 1000000000 \<le> (ts ! j - ts ! i) * ?p" by (simp add: ac_simps)
  moreover have "(rs_interval ?s - 1) * ?p < 1000000000" using interval_covers_rate(2) [OF assms(1)] by (simp add: I)
  ultimately show ?thesis ..
qed

theorem rate_never_exceeded_witness:
  "obeys (newRateSchedule 3) [0, 333333334, 900000000, 1233333334] \<and>
   3 * 1000000000 \<le> ([0, 333333334, 900000000, 1233333334] ! 3 - [0, 333333334, 900000000, 1233333334] ! 0) * (3 :: int)"
proof -
  have "obeys (newRateSchedule 3) [0, 333333334, 900000000, 1233333334]" by code_simp
  then show ?thesis using rate_never_exceeded [of 3 "[0, 333333334, 900000000, 1233333334]" 0 3] by simp
qed

end
