(* ===== verification/ItchParserCorrect.thy ===== *)
theory ItchParserCorrect
  imports ItchParserRefine WireFormatCorrect
begin

text \<open>
  Reachable parsers, the phases of the day, the bytes a handler reads, and the properties of the component.
\<close>

section \<open>Reachable parsers\<close>

inductive parser_reachable :: "BookManagerConfig \<Rightarrow> ItchParser \<Rightarrow> bool" for config where
  parser_new: "newBookManager slot_bytes slot_align page config = Inr m \<Longrightarrow> parser_reachable config (newItchParser newStockDirectory m ch)"
| parser_message: "parser_reachable config p \<Longrightarrow> parser_reachable config (snd (handleMessage p msg))"
| parser_prevalidated: "parser_reachable config p \<Longrightarrow> valid_message msg \<Longrightarrow> parser_reachable config (snd (handlePrevalidatedMessage p msg))"

lemma parser_step_refined:
  assumes "parser_inv p"
  shows "\<exists>spec. refined (message_exhausts p msg) (feed_of p) spec (snd (handleMessage p msg)) \<and> (spec = None \<or> spec = spec_message (feed_of p) msg)"
    "valid_message msg \<Longrightarrow> \<exists>spec. refined (message_exhausts p msg) (feed_of p) spec (snd (handlePrevalidatedMessage p msg)) \<and> (spec = None \<or> spec = spec_message (feed_of p) msg)"
  using handleMessage_refines [OF assms, of msg] handlePrevalidated_refines [OF assms, of msg] by (metis, blast)

lemma parser_reachable_inv: "parser_reachable config p \<Longrightarrow> order_slots config < 2 ^ 32 - 1 \<Longrightarrow> parser_inv p"
proof (induction rule: parser_reachable.induct)
  case (parser_new sb sa page m ch)
  then show ?case by (rule parser_inv_new(1))
qed (use handleMessage_refines handlePrevalidated_refines in \<open>auto simp: refined_def\<close>)

section \<open>The phase of the day\<close>

text \<open>One message moves the phase by at most one step of the day, and the day ends without live orders.\<close>

definition phase_step :: "ChannelPhase \<Rightarrow> ChannelPhase \<Rightarrow> bool" where
  "phase_step ph ph' \<longleftrightarrow> ph' = ph \<or> (ph, ph') \<in>
     {(WaitingStartOfMessages, StartupDirectorySpin), (StartupDirectorySpin, StartupAdminSpin), (StartupDirectorySpin, SystemHours),
      (StartupAdminSpin, SystemHours), (SystemHours, MarketHours), (MarketHours, PostMarketHours),
      (PostMarketHours, PostSystemHours), (PostSystemHours, EndOfMessages)}"

lemma next_phase_step: "next_phase_of ph code = Some ph' \<Longrightarrow> phase_step ph ph' \<and> (ph' = EndOfMessages \<longrightarrow> ph = EndOfMessages \<or> code = 0x43)"
  by (auto simp: next_phase_of_def phase_step_def split: if_splits)

lemma spec_order_phase: "spec_order fs loc c = Some fs' \<Longrightarrow> fs_phase fs' = fs_phase fs"
  by (auto simp: spec_order_def split: if_splits prod.splits)

lemma spec_event_phase:
  assumes "spec_event fs ev = Some fs'"
  shows "phase_step (fs_phase fs) (fs_phase fs')" "fs_phase fs' = EndOfMessages \<Longrightarrow> fs_orders fs' = Map.empty"
proof -
  have p: "fs_phase fs \<noteq> EndOfMessages" using assms by (auto simp: spec_event_def permitted_def split: if_splits)
  have "phase_step (fs_phase fs) (fs_phase fs') \<and> (fs_phase fs' = EndOfMessages \<longrightarrow> fs_orders fs' = Map.empty)"
  proof (cases ev)
    case (EvSystem loc code)
    then obtain ph where "next_phase_of (fs_phase fs) code = Some ph" "fs' = fs\<lparr>fs_phase := ph\<rparr>" "code = 0x43 \<Longrightarrow> fs_orders fs = Map.empty"
      using assms by (auto simp: spec_event_def split: if_splits)
    then show ?thesis using next_phase_step p by fastforce
  next
    case (EvDirectory loc stock)
    then show ?thesis using assms p by (auto simp: spec_event_def phase_step_def Let_def split: if_splits)
  next
    case (EvOrder loc c)
    then show ?thesis using assms p spec_order_phase by (auto simp: spec_event_def phase_step_def split: if_splits)
  next
    case (EvListed loc stock c)
    then show ?thesis using assms p spec_order_phase by (auto simp: spec_event_def phase_step_def split: if_splits option.splits)
  next
    case (EvPriced loc price c)
    then show ?thesis using assms p spec_order_phase by (auto simp: spec_event_def phase_step_def split: if_splits)
  next
    case EvAdmin
    then show ?thesis using assms p by (auto simp: spec_event_def phase_step_def split: if_splits)
  qed (use assms p in \<open>auto simp: spec_event_def phase_step_def split: if_splits\<close>)
  then show "phase_step (fs_phase fs) (fs_phase fs')" "fs_phase fs' = EndOfMessages \<Longrightarrow> fs_orders fs' = Map.empty" by blast+
qed

lemma refined_phase:
  assumes "refined ex fs spec p'" "spec = None \<or> spec = spec_message fs msg" "fs_phase fs = EndOfMessages \<Longrightarrow> fs_orders fs = Map.empty"
  shows "phase_step (fs_phase fs) (ip_channel_phase p')" "ip_channel_phase p' = EndOfMessages \<Longrightarrow> fs_orders (feed_of p') = Map.empty"
proof -
  consider (same) "feed_of p' = fs" | (new) "spec_message fs msg = Some (feed_of p')"
    using assms(1,2) by (auto simp: refined_def split: option.splits)
  then have "phase_step (fs_phase fs) (fs_phase (feed_of p')) \<and> (fs_phase (feed_of p') = EndOfMessages \<longrightarrow> fs_orders (feed_of p') = Map.empty)"
  proof cases
    case same
    then show ?thesis using assms(3) by (simp add: phase_step_def)
  next
    case new
    then have "spec_event fs (decode_event msg) = Some (feed_of p')" by (simp add: spec_message_def split: if_splits)
    then show ?thesis using spec_event_phase [of fs "decode_event msg" "feed_of p'"] by blast
  qed
  then show "phase_step (fs_phase fs) (ip_channel_phase p')" "ip_channel_phase p' = EndOfMessages \<Longrightarrow> fs_orders (feed_of p') = Map.empty" by auto
qed

lemma end_without_orders:
  "parser_reachable config p \<Longrightarrow> order_slots config < 2 ^ 32 - 1 \<Longrightarrow> ip_channel_phase p = EndOfMessages \<Longrightarrow> fs_orders (feed_of p) = Map.empty"
proof (induction rule: parser_reachable.induct)
  case (parser_new sb sa page m ch)
  then show ?case by (simp add: newItchParser_def)
next
  case (parser_message p msg)
  then show ?case using parser_step_refined(1) [OF parser_reachable_inv, of config p msg] refined_phase(2) by fastforce
next
  case (parser_prevalidated p msg)
  then show ?case using parser_step_refined(2) [OF parser_reachable_inv, of config p msg] refined_phase(2) by fastforce
qed

section \<open>Reads of a message\<close>

lemma fixedTextLength_append: "off + n \<le> length msg \<Longrightarrow> fixedTextLength (msg @ xs) off n = fixedTextLength msg off n"
  by (induction n) (simp_all add: nth_append)

lemma fixedTextLength_le: "fixedTextLength msg off n \<le> n" by (induction n) simp_all

lemma fixedText_append: "off + n \<le> length msg \<Longrightarrow> fixedText (msg @ xs) off n = fixedText msg off n"
  using fixedTextLength_le [of msg off n] by (simp add: fixedText_def fixedTextLength_append nth_append)

lemma wireStockMatches_append: "off + 8 \<le> length msg \<Longrightarrow> wireStockMatches e (msg @ xs) off = wireStockMatches e msg off"
  by (auto simp: wireStockMatches_def Let_def kStockLen_def list_all_iff nth_append)

lemmas reads_append = readers_append nth_append fixedText_append wireStockMatches_append

lemmas field_offsets = kTimestampOffset_def kAddStockOffset_def kSystemEventCodeOffset_def kStockLen_def

lemma handlers_append:
  "36 \<le> length msg \<Longrightarrow> handleAdd p (msg @ xs) loc = handleAdd p msg loc"
  "23 \<le> length msg \<Longrightarrow> applyExecution p (msg @ xs) loc = applyExecution p msg loc"
  "36 \<le> length msg \<Longrightarrow> handleOrderExecutedWithPrice p (msg @ xs) loc = handleOrderExecutedWithPrice p msg loc"
  "23 \<le> length msg \<Longrightarrow> handleCancel p (msg @ xs) loc = handleCancel p msg loc"
  "19 \<le> length msg \<Longrightarrow> handleDelete p (msg @ xs) loc = handleDelete p msg loc"
  "35 \<le> length msg \<Longrightarrow> handleReplace p (msg @ xs) loc = handleReplace p msg loc"
  "12 \<le> length msg \<Longrightarrow> handleSystemEvent p (msg @ xs) = handleSystemEvent p msg"
  by (simp_all only: handleAdd_def applyExecution_def handleOrderExecutedWithPrice_def handleCancel_def handleDelete_def handleReplace_def
      handleSystemEvent_def field_offsets, simp_all add: reads_append Let_def split: option.split)

lemma handleStockDirectory_append: "39 \<le> length msg \<Longrightarrow> handleStockDirectory p (msg @ xs) = handleStockDirectory p msg"
  unfolding handleStockDirectory_def field_offsets by (simp add: reads_append split del: if_split cong: if_cong option.case_cong)

lemma dispatch_append:
  assumes v: "valid_message msg"
  shows "dispatchMessage p (msg @ xs) = dispatchMessage p msg"
proof -
  have l: "12 \<le> length msg" by (rule valid_message_length [OF v])
  then have r: "(msg @ xs) ! 0 = msg ! 0" "readU16BE (msg @ xs) 1 = readU16BE msg 1" "readU48BE (msg @ xs) 5 = readU48BE msg 5" "(msg @ xs) ! 11 = msg ! 11"
    using v by (simp_all add: reads_append valid_message_def)
  note L = message_lengths [OF v]
  have h: "msg ! 0 = 0x41 \<or> msg ! 0 = 0x46 \<Longrightarrow> handleAdd p (msg @ xs) loc = handleAdd p msg loc"
    "msg ! 0 = 0x45 \<Longrightarrow> handleOrderExecuted p (msg @ xs) loc = handleOrderExecuted p msg loc"
    "msg ! 0 = 0x43 \<Longrightarrow> handleOrderExecutedWithPrice p (msg @ xs) loc = handleOrderExecutedWithPrice p msg loc"
    "msg ! 0 = 0x58 \<Longrightarrow> handleCancel p (msg @ xs) loc = handleCancel p msg loc"
    "msg ! 0 = 0x44 \<Longrightarrow> handleDelete p (msg @ xs) loc = handleDelete p msg loc"
    "msg ! 0 = 0x55 \<Longrightarrow> handleReplace p (msg @ xs) loc = handleReplace p msg loc"
    "msg ! 0 = 0x52 \<Longrightarrow> handleStockDirectory p (msg @ xs) = handleStockDirectory p msg"
    "msg ! 0 = 0x53 \<Longrightarrow> handleSystemEvent p (msg @ xs) = handleSystemEvent p msg" for loc
    using L handlers_append [of msg p xs] handleStockDirectory_append [of msg p xs] by (auto simp: handleOrderExecuted_def)
  have "handleBrokenTrade p (msg @ xs) loc = handleBrokenTrade p msg loc" for loc by (simp add: handleBrokenTrade_def)
  then show ?thesis unfolding dispatchMessage_def field_offsets Let_def r by (simp only: h simp_thms cong: if_cong)
qed

section \<open>A worked day\<close>

definition demo_parser :: ItchParser where "demo_parser = newItchParser newStockDirectory demo_manager 0"
definition demo_event :: "u8 \<Rightarrow> u8 list" where "demo_event code = 0x53 # replicate 10 0 @ [code]"
definition demo_parser1 :: ItchParser where "demo_parser1 = snd (handleMessage demo_parser (demo_event 0x4F))"
definition demo_parser2 :: ItchParser where "demo_parser2 = snd (handleMessage demo_parser1 (demo_event 0x53))"

lemma demo_slots: "order_slots demo_manager_config < 2 ^ 32 - 1"
  by (simp add: order_slots_def demo_manager_config_def demo_table_config_def)

lemma demo_parser_reachable:
  "parser_reachable demo_manager_config demo_parser" "parser_reachable demo_manager_config demo_parser1"
  "parser_reachable demo_manager_config demo_parser2"
proof -
  show r: "parser_reachable demo_manager_config demo_parser" unfolding demo_parser_def by (rule parser_new [OF demo_manager_new])
  show r1: "parser_reachable demo_manager_config demo_parser1" unfolding demo_parser1_def by (rule parser_message [OF r])
  show "parser_reachable demo_manager_config demo_parser2" unfolding demo_parser2_def by (rule parser_message [OF r1])
qed

lemma demo_event_fields:
  "demo_event code ! 0 = 0x53" "readU16BE (demo_event code) 1 = 0" "message_time (demo_event code) = 0" "demo_event code ! 11 = code"
  by (simp_all add: demo_event_def readU16BE_def message_time_def readU48BE_def nth_append nth_Cons' upt_rec)

lemma demo_event_valid: "valid_message (demo_event code)"
  by (simp add: valid_message_def demo_event_fields(1) expectedItchMessageLength_def makeItchMessageLengths_def) (simp add: demo_event_def)

lemma demo_event_decoded: "decode_event (demo_event code) = EvSystem 0 code"
  using decode_event_cases(8) [OF demo_event_fields(1), of code] by (simp only: demo_event_fields)

lemma system_message:
  assumes "permitted (ip_channel_phase p) (EvSystem 0 code)"
  shows "handleMessage p (demo_event code) = (False, handleSystemEvent (clear_outcome p) (demo_event code))"
proof -
  have ph: "ip_channel_phase (clear_outcome p) = ip_channel_phase p" by (simp add: clear_outcome_def)
  have "guard_passed (clear_outcome p) (demo_event code)"
    unfolding guard_permits ph demo_event_decoded demo_event_fields using assms by (simp add: kNanosecondsPerDay_def)
  then have "dispatchMessage (clear_outcome p) (demo_event code) = (False, handleSystemEvent (clear_outcome p) (demo_event code))"
    by (simp add: dispatch_guard dispatched_def demo_event_fields)
  then show ?thesis using demo_event_valid [of code] by (simp add: handleMessage_def valid_message_def Let_def)
qed

lemma demo_parser1: "ip_channel_phase demo_parser1 = StartupDirectorySpin" "ip_last_error demo_parser1 = []"
proof -
  have "permitted (ip_channel_phase demo_parser) (EvSystem 0 0x4F)" by (simp add: demo_parser_def newItchParser_def permitted_def)
  from system_message [OF this] show "ip_channel_phase demo_parser1 = StartupDirectorySpin" "ip_last_error demo_parser1 = []"
    by (simp_all add: demo_parser1_def handleSystemEvent_def kSystemEventCodeOffset_def demo_event_fields advancePhase_def
        clear_outcome_def demo_parser_def newItchParser_def)
qed

lemma demo_parser2_phase: "ip_channel_phase demo_parser2 = SystemHours"
proof -
  have inv: "parser_inv (clear_outcome demo_parser1)" using parser_reachable_inv [OF demo_parser_reachable(2) demo_slots] by simp
  have ph: "ip_channel_phase (clear_outcome demo_parser1) = StartupDirectorySpin" by (simp add: clear_outcome_def demo_parser1)
  have "permitted (ip_channel_phase demo_parser1) (EvSystem 0 0x53)" by (simp add: demo_parser1 permitted_def)
  then have "demo_parser2 = handleSystemHoursStart (clear_outcome demo_parser1)"
    by (simp add: demo_parser2_def system_message handleSystemEvent_def kSystemEventCodeOffset_def demo_event_fields)
  then obtain m' where "demo_parser2 = (clear_outcome demo_parser1)\<lparr>ip_channel_phase := SystemHours, ip_books_prepared := True, ip_books := m'\<rparr>"
    using handleSystemHoursStart_effect [OF inv] ph by auto
  then show ?thesis by (metis ItchParser.select_convs(4) ItchParser.surjective ItchParser.update_convs(2,4,7))
qed

section \<open>Properties\<close>

text \<open>C31. The parser refines the feed specification. Whatever bytes it is given in a reachable state, a malformed message or
  one the specification refuses is reported and changes no live order, no ticker, no used reference
  and no phase. Any other message has exactly the specified effect on the live orders, the tickers, the used references
  and the phase, unless it adds or replaces an order for whose new reference all candidate slots of the order table have
  been used, or whose price needs a new page when every page is committed: that is reported by its result code, and
  changes nothing of the four either. The order table must have fewer than \<open>2^32 - 1\<close> slots.\<close>

theorem parser_refines_feed:
  assumes "parser_reachable config p" "order_slots config < 2 ^ 32 - 1" "handleMessage p msg = (updated, p')"
  shows "case (if valid_message msg then spec_message (feed_of p) msg else None) of
     None \<Rightarrow> ip_last_error p' \<noteq> [] \<and> feed_of p' = feed_of p
   | Some fs' \<Rightarrow> ip_last_error p' = [] \<and> feed_of p' = fs' \<or>
       capacity_error (message_exhausts p msg) (ip_last_error p') \<and> feed_of p' = feed_of p"
proof -
  have "refined (message_exhausts p msg) (feed_of p) (if valid_message msg then spec_message (feed_of p) msg else None) p'"
    using handleMessage_refines [OF parser_reachable_inv [OF assms(1,2)], of msg] assms(3) by simp
  then show ?thesis
    by (cases "if valid_message msg then spec_message (feed_of p) msg else None") (simp_all only: refined_def option.case option.simps, blast+)
qed

theorem parser_refines_feed_witness:
  "ip_last_error demo_parser1 = [] \<and>
   feed_of demo_parser1 = \<lparr>fs_tickers = Map.empty, fs_orders = Map.empty, fs_seen = {}, fs_phase = StartupDirectorySpin\<rparr>"
proof -
  have f: "feed_of demo_parser = \<lparr>fs_tickers = Map.empty, fs_orders = Map.empty, fs_seen = {}, fs_phase = WaitingStartOfMessages\<rparr>"
    unfolding demo_parser_def by (rule parser_inv_new(2) [OF demo_manager_new demo_slots])
  have s: "spec_message (feed_of demo_parser) (demo_event 0x4F) =
      Some \<lparr>fs_tickers = Map.empty, fs_orders = Map.empty, fs_seen = {}, fs_phase = StartupDirectorySpin\<rparr>"
    unfolding f spec_message_def demo_event_decoded demo_event_fields
    by (simp add: spec_event_def permitted_def next_phase_of_def kNanosecondsPerDay_def)
  have "\<not> capacity_error ex []" for ex by (simp add: capacity_error_def)
  then show ?thesis
    using parser_refines_feed [OF demo_parser_reachable(1) demo_slots prod.collapse [symmetric], of "demo_event 0x4F"] demo_parser1(2)
    by (simp add: demo_event_valid s demo_parser1_def [symmetric])
qed

text \<open>C32. The trading day runs forward: a message moves the phase by at most one step of the day, and when the end of messages
  is reached no order is live.\<close>

theorem day_runs_forward:
  assumes "parser_reachable config p" "order_slots config < 2 ^ 32 - 1" "handleMessage p msg = (updated, p')"
  shows "phase_step (ip_channel_phase p) (ip_channel_phase p') \<and>
    (ip_channel_phase p' = EndOfMessages \<longrightarrow> book_orders (mgr_stores (ip_books p')) = Map.empty \<and> totalLiveOrderCount (ip_books p') = 0)"
proof -
  have inv: "parser_inv p" by (rule parser_reachable_inv [OF assms(1,2)])
  obtain spec where s: "refined (message_exhausts p msg) (feed_of p) spec p'" "spec = None \<or> spec = spec_message (feed_of p) msg"
    using parser_step_refined(1) [OF inv, of msg] assms(3) by auto
  have "fs_phase (feed_of p) = EndOfMessages \<Longrightarrow> fs_orders (feed_of p) = Map.empty" using end_without_orders [OF assms(1,2)] by simp
  note R = refined_phase [OF s this]
  have "parser_inv p'" using s(1) by (simp add: refined_def)
  then show ?thesis using R live_count_zero by auto
qed

theorem day_runs_forward_witness:
  "phase_step (ip_channel_phase demo_parser) (ip_channel_phase demo_parser1) \<and> ip_channel_phase demo_parser1 = StartupDirectorySpin"
  using day_runs_forward [OF demo_parser_reachable(1) demo_slots prod.collapse [symmetric], of "demo_event 0x4F"] demo_parser1(1)
  by (simp add: demo_parser1_def)

text \<open>The directory audit is clean at every moment from the start of system hours on: the parser creates the books of all
  registered securities then, and the book of a security registered later with its registration. Before, no
  book exists.\<close>

theorem audit_stays_clean:
  assumes "parser_reachable config p" "order_slots config < 2 ^ 32 - 1"
  shows "if ip_channel_phase p \<in> {WaitingStartOfMessages, StartupDirectorySpin, StartupAdminSpin} then mgr_books (ip_books p) = Map.empty
    else audit_clean (auditDirectory (ip_books p) (ip_symbols p))"
proof -
  note I = parser_invD [OF parser_reachable_inv [OF assms]]
  show ?thesis
  proof (cases "open_phase (ip_channel_phase p)")
    case True
    then show ?thesis using I(6) audit_clean_iff [OF I(2,1)] by (auto simp: open_phase_def)
  next
    case False
    then have "ip_channel_phase p \<in> {WaitingStartOfMessages, StartupDirectorySpin, StartupAdminSpin}"
      by (cases "ip_channel_phase p") (simp_all add: open_phase_def)
    then show ?thesis using I(6) False by simp
  qed
qed

theorem audit_stays_clean_witness:
  "mgr_books (ip_books demo_parser1) = Map.empty \<and> audit_clean (auditDirectory (ip_books demo_parser2) (ip_symbols demo_parser2))"
  using audit_stays_clean [OF demo_parser_reachable(2) demo_slots] audit_stays_clean [OF demo_parser_reachable(3) demo_slots]
    demo_parser1(1) demo_parser2_phase by simp

text \<open>The entry for prevalidated messages does what the checking entry does, and the parser reads no byte outside a message of
  the length its type demands: what follows the message in the packet has no influence.\<close>

theorem prevalidated_equiv:
  assumes "valid_message msg"
  shows "handlePrevalidatedMessage p (msg @ rest) = handleMessage p msg"
  using assms dispatch_append [OF assms, of "clear_outcome p" rest]
  by (auto simp: handlePrevalidatedMessage_def handleMessage_def valid_message_def Let_def)

theorem prevalidated_equiv_witness:
  "handlePrevalidatedMessage demo_parser (demo_event 0x4F @ [0x41, 0x42]) = handleMessage demo_parser (demo_event 0x4F)"
  by (rule prevalidated_equiv [OF demo_event_valid])

end
