(* ===== verification/GapBufferIndex.thy ===== *)
theory GapBufferIndex
  imports GapBuffer
begin

text \<open>
  Lookup and insertion in the gap buffer, and the loop of the backward shift. \<open>slots_ok\<close>: keys are unique and
  every entry is reached from its home slot without crossing an empty slot. \<open>pivot\<close>: some slot is passed
  by no other entry, so that the circular slot array can be cut there and read as a line; the loop of
  \<open>eraseAt\<close> is analysed in those coordinates (\<open>hole_ok\<close>), also for a full buffer.
\<close>

section \<open>Slots as residues\<close>

abbreviation N :: nat where "N \<equiv> 1048576"

lemma unat_kCapacity [simp]: "unat kCapacity = N" by (simp add: kCapacity_def)

lemma unat_and_kMask: "unat (x AND kMask) = unat x mod N"
  using unat_and_mask [of x 20] by (simp add: kMask_def kCapacity_def mask_eq_exp_minus_1)

lemma word32_mod: "(a :: nat) mod 2 ^ 32 mod N = a mod N" by (rule mod_mod_cancel) simp

lemma unat_probe_slot: "unat ((start + of_nat k) AND kMask) = (unat start + k) mod N"
  by (simp add: unat_and_kMask unat_word_ariths unat_of_nat mod_simps word32_mod [simplified])

lemma unat_gb_next: "unat (gb_next s) = (unat s + 1) mod N"
  using unat_probe_slot [of s 1] by (simp add: gb_next_def)

lemma unat_probeDistance:
  assumes "unat n < N"
  shows "unat (probeDistance n s) = (unat s + (N - unat n)) mod N"
proof -
  have "unat s = unat ((s - n) + n)" by simp
  also have "\<dots> = (unat (s - n) + unat n) mod 2 ^ 32" by (subst unat_word_ariths) simp
  finally have "(unat s + (N - unat n)) mod N = ((unat (s - n) + unat n) mod 2 ^ 32 + (N - unat n)) mod N" by simp
  also have "\<dots> = ((unat (s - n) + unat n) mod 2 ^ 32 mod N + (N - unat n)) mod N" by (simp only: mod_add_left_eq)
  also have "\<dots> = (unat (s - n) + unat n + (N - unat n)) mod N" by (simp only: word32_mod mod_add_left_eq)
  also have "\<dots> = unat (s - n) mod N" using assms by simp
  finally show ?thesis by (simp add: probeDistance_def unat_and_kMask)
qed

lemma slotFor_less: "unat (slotFor s) < N"
proof -
  have "unat (gb_hash s AND ucast kMask) = unat (gb_hash s) mod N"
    using unat_and_mask [of "gb_hash s" 20] by (simp add: kMask_def kCapacity_def mask_eq_exp_minus_1)
  then have *: "unat (gb_hash s AND ucast kMask) < N" by simp
  then have "unat (slotFor s) = unat (gb_hash s AND ucast kMask)"
    unfolding slotFor_def by (simp only: unsigned_ucast_eq) (simp add: take_bit_nat_eq_self)
  then show ?thesis using * by simp
qed

section \<open>Slots counted from a pivot\<close>

text \<open>\<open>lin k x\<close> is the slot \<open>x\<close> steps after the successor of slot \<open>k\<close>; slot \<open>k\<close> itself comes last.\<close>

definition lin :: "nat \<Rightarrow> nat \<Rightarrow> u32" where "lin k x = of_nat ((k + 1 + x) mod N)"

definition lin_inv :: "nat \<Rightarrow> u32 \<Rightarrow> nat" where "lin_inv k s = (unat s + (N - 1 - k)) mod N"

lemma unat_lin: "unat (lin k x) = (k + 1 + x) mod N"
proof -
  have "(k + 1 + x) mod N < 2 ^ 32" by (rule less_trans [of _ N]) simp_all
  then show ?thesis unfolding lin_def by (simp add: unat_of_nat)
qed

lemma lin_less: "unat (lin k x) < N" by (simp add: unat_lin)

lemma lin_inv_less: "lin_inv k s < N" by (simp add: lin_inv_def)

lemma lin_lin_inv: "k < N \<Longrightarrow> unat s < N \<Longrightarrow> lin k (lin_inv k s) = s"
proof -
  assume "k < N" "unat s < N"
  then have "unat (lin k (lin_inv k s)) = unat s"
    unfolding unat_lin lin_inv_def mod_add_right_eq by (simp add: add.commute [of "unat s"])
  then show ?thesis by (simp add: word_unat_eq_iff)
qed

lemma lin_inv_lin: "k < N \<Longrightarrow> x < N \<Longrightarrow> lin_inv k (lin k x) = x"
proof -
  assume "k < N" "x < N"
  then have "(k + 1 + x + (N - 1 - k)) mod N = x" by simp
  then show ?thesis unfolding lin_inv_def unat_lin mod_add_left_eq .
qed

lemma lin_inject: "k < N \<Longrightarrow> x < N \<Longrightarrow> y < N \<Longrightarrow> lin k x = lin k y \<longleftrightarrow> x = y"
  by (metis lin_inv_lin)

lemma lin_next: "gb_next (lin k x) = lin k (x + 1)"
proof -
  have "unat (gb_next (lin k x)) = unat (lin k (x + 1))"
    unfolding unat_gb_next unat_lin mod_add_left_eq by simp
  then show ?thesis by (simp add: word_unat_eq_iff)
qed

lemma lin_wrap: "lin k N = lin k 0"
proof -
  have "(k + 1 + N) mod N = (k + 1 + 0) mod N" by (simp only: mod_add_self2 add_0_right)
  then show ?thesis unfolding lin_def by (simp only:)
qed

lemma lin_last: "k < N \<Longrightarrow> unat (lin k (N - 1)) = k" unfolding unat_lin by simp

lemma int_mod: "(a mod n + (n - b mod n)) mod n = (a - b) mod n" for a b n :: int
proof -
  have "(a mod n + (n - b mod n)) mod n = (a mod n - b mod n + n) mod n" by (simp add: algebra_simps)
  then show ?thesis by (simp only: mod_add_self2 mod_diff_eq)
qed

lemma distance_lin:
  assumes "x < N" "y < N"
  shows "unat (probeDistance (lin k y) (lin k x)) = (if y \<le> x then x - y else x + N - y)"
proof -
  have "((k + 1 + x) mod N + (N - (k + 1 + y) mod N)) mod N = (x + (N - y)) mod N"
  proof -
    have a: "(k + 1 + y) mod N \<le> N" by (simp add: less_imp_le)
    have "int (((k + 1 + x) mod N + (N - (k + 1 + y) mod N)) mod N) = (int (k + 1 + x) mod int N + (int N - int (k + 1 + y) mod int N)) mod int N"
      using a by (simp only: of_nat_mod of_nat_add of_nat_diff)
    also have "\<dots> = (int (k + 1 + x) - int (k + 1 + y)) mod int N" by (rule int_mod)
    also have "\<dots> = (int x - int y) mod int N" by simp
    also have "\<dots> = (int x - int y + int N) mod int N" by (simp only: mod_add_self2)
    also have "\<dots> = int ((x + (N - y)) mod N)" using assms by (simp add: of_nat_mod of_nat_diff algebra_simps)
    finally show ?thesis by linarith
  qed
  moreover have "(x + (N - y)) mod N = (if y \<le> x then x - y else x + N - y)"
  proof (cases "y \<le> x")
    case True
    then have "x + (N - y) = (x - y) + N" using assms by simp
    then have "(x + (N - y)) mod N = (x - y) mod N" by (simp only: mod_add_self2)
    then show ?thesis using True assms by simp
  qed (use assms in simp)
  ultimately show ?thesis unfolding unat_probeDistance [OF lin_less] unat_lin by simp
qed

section \<open>The invariant\<close>

definition steps_from :: "u32 \<Rightarrow> nat \<Rightarrow> u32" where "steps_from n t = (n + of_nat t) AND kMask"

lemma unat_steps_from: "unat (steps_from n t) = (unat n + t) mod N"
  unfolding steps_from_def by (rule unat_probe_slot)

lemma steps_from_less: "unat (steps_from n t) < N" by (simp add: unat_steps_from)

lemma distance_steps: "unat n < N \<Longrightarrow> t < N \<Longrightarrow> unat (probeDistance n (steps_from n t)) = t"
proof -
  assume a: "unat n < N" "t < N"
  have "unat (probeDistance n (steps_from n t)) = (unat n + t + (N - unat n)) mod N"
    unfolding unat_probeDistance [OF a(1)] unat_steps_from mod_add_left_eq ..
  also have "unat n + t + (N - unat n) = t + N" using a by simp
  finally show ?thesis using a by simp
qed

lemma steps_distance: "unat n < N \<Longrightarrow> unat s < N \<Longrightarrow> steps_from n (unat (probeDistance n s)) = s"
proof -
  assume a: "unat n < N" "unat s < N"
  have "unat (steps_from n (unat (probeDistance n s))) = (unat n + (unat s + (N - unat n))) mod N"
    unfolding unat_steps_from unat_probeDistance [OF a(1)] mod_add_right_eq ..
  also have "unat n + (unat s + (N - unat n)) = unat s + N" using a by simp
  finally show ?thesis using a by (simp add: word_unat_eq_iff)
qed

lemma distance_less: "unat n < N \<Longrightarrow> unat (probeDistance n s) < N"
  by (simp add: unat_probeDistance)

lemma steps_inject: "unat n < N \<Longrightarrow> t < N \<Longrightarrow> t' < N \<Longrightarrow> steps_from n t = steps_from n t' \<longleftrightarrow> t = t'"
  by (metis distance_steps)

definition skey :: "(u32 \<Rightarrow> GapSlot) \<Rightarrow> u32 \<Rightarrow> u64" where "skey sl s = pkt_seq (gs_packet (sl s))"

definition home :: "(u32 \<Rightarrow> GapSlot) \<Rightarrow> u32 \<Rightarrow> u32" where "home sl s = slotFor (skey sl s)"

text \<open>Slot \<open>j\<close> lies on the probe path from \<open>n\<close> to \<open>s\<close>, \<open>s\<close> itself excluded.\<close>

definition crosses :: "u32 \<Rightarrow> u32 \<Rightarrow> u32 \<Rightarrow> bool" where
  "crosses n s j \<longleftrightarrow> unat j < N \<and> probeDistance n j < probeDistance n s"

definition slots_ok :: "(u32 \<Rightarrow> GapSlot) \<Rightarrow> bool" where
  "slots_ok sl \<longleftrightarrow> (\<forall>s. gs_occupied (sl s) \<longrightarrow> unat s < N) \<and>
     (\<forall>s s'. gs_occupied (sl s) \<longrightarrow> gs_occupied (sl s') \<longrightarrow> skey sl s = skey sl s' \<longrightarrow> s = s') \<and>
     (\<forall>s j. gs_occupied (sl s) \<longrightarrow> crosses (home sl s) s j \<longrightarrow> gs_occupied (sl j))"

text \<open>A pivot is a slot that no other entry had to pass. An empty slot is one; in a full buffer it is the slot
  filled last.\<close>

definition pivot :: "(u32 \<Rightarrow> GapSlot) \<Rightarrow> u32 \<Rightarrow> bool" where
  "pivot sl k \<longleftrightarrow> unat k < N \<and> (\<forall>s. gs_occupied (sl s) \<longrightarrow> s \<noteq> k \<longrightarrow> \<not> crosses (home sl s) s k)"

definition gap_inv :: "GapBuffer \<Rightarrow> bool" where
  "gap_inv g \<longleftrightarrow> slots_ok (gb_slots g) \<and> (\<exists>k. pivot (gb_slots g) k) \<and>
     gb_size g = of_nat (card {s. gs_occupied (gb_slots g s)})"

lemma gap_inv_new: "gap_inv newGapBuffer"
proof -
  have "pivot (gb_slots newGapBuffer) 0" by (simp add: pivot_def newGapBuffer_def zeroSlot_def)
  then have "\<exists>k. pivot (gb_slots newGapBuffer) k" by blast
  then show ?thesis by (simp add: gap_inv_def slots_ok_def) (simp add: newGapBuffer_def zeroSlot_def)
qed

lemma slots_okD:
  assumes "slots_ok sl"
  shows "gs_occupied (sl s) \<Longrightarrow> unat s < N"
    "gs_occupied (sl s) \<Longrightarrow> gs_occupied (sl s') \<Longrightarrow> skey sl s = skey sl s' \<Longrightarrow> s = s'"
    "gs_occupied (sl s) \<Longrightarrow> crosses (home sl s) s j \<Longrightarrow> gs_occupied (sl j)"
  using assms unfolding slots_ok_def by blast+

section \<open>Lookup\<close>

lemma find_loop_sound:
  "gb_find_loop n start g seq p = Some i \<Longrightarrow> gs_occupied (gb_slots g i) \<and> skey (gb_slots g) i = seq"
  by (induction n start g seq p rule: gb_find_loop.induct) (auto simp: Let_def skey_def split: if_splits)

lemma find_loop_complete:
  "\<forall>t\<in>{p..<k}. gs_occupied (gb_slots g (steps_from start t)) \<and> skey (gb_slots g) (steps_from start t) \<noteq> seq \<Longrightarrow>
   gs_occupied (gb_slots g (steps_from start k)) \<Longrightarrow> skey (gb_slots g) (steps_from start k) = seq \<Longrightarrow>
   p \<le> k \<Longrightarrow> k < p + n \<Longrightarrow> gb_find_loop n start g seq (of_nat p) = Some (steps_from start k)"
proof (induction n arbitrary: p)
  case (Suc n)
  show ?case
  proof (cases "p = k")
    case True
    then show ?thesis using Suc.prems by (simp add: Let_def skey_def steps_from_def)
  next
    case False
    then have "gb_find_loop n start g seq (of_nat (Suc p)) = Some (steps_from start k)"
      using Suc.prems by (intro Suc.IH) auto
    moreover have "gs_occupied (gb_slots g (steps_from start p))" "skey (gb_slots g) (steps_from start p) \<noteq> seq"
      using Suc.prems False by auto
    ultimately show ?thesis by (simp add: Let_def skey_def steps_from_def add.commute)
  qed
qed simp

lemma path_occupied:
  assumes ok: "slots_ok (gb_slots g)" and i: "gs_occupied (gb_slots g i)" "skey (gb_slots g) i = seq"
    and t: "t < unat (probeDistance (slotFor seq) i)"
  shows "gs_occupied (gb_slots g (steps_from (slotFor seq) t)) \<and> skey (gb_slots g) (steps_from (slotFor seq) t) \<noteq> seq"
proof -
  let ?n = "slotFor seq"
  have d: "unat (probeDistance ?n (steps_from ?n t)) = t"
    using t distance_less [OF slotFor_less, of seq i] by (intro distance_steps [OF slotFor_less]) simp
  then have "crosses ?n i (steps_from ?n t)" using t by (simp add: crosses_def steps_from_less word_less_nat_alt)
  then have o: "gs_occupied (gb_slots g (steps_from ?n t))" using slots_okD(3) [OF ok i(1)] i(2) by (simp add: home_def)
  have "steps_from ?n t \<noteq> i" using d t by auto
  then show ?thesis using o slots_okD(2) [OF ok] i by metis
qed

text \<open>Where a sequence number is stored: the probe loop finds exactly that slot.\<close>

lemma find_loop_iff:
  assumes ok: "slots_ok (gb_slots g)"
  shows "gb_find_loop N (slotFor seq) g seq 0 = Some i \<longleftrightarrow> gs_occupied (gb_slots g i) \<and> skey (gb_slots g) i = seq"
proof
  assume i: "gs_occupied (gb_slots g i) \<and> skey (gb_slots g) i = seq"
  let ?n = "slotFor seq" let ?k = "unat (probeDistance ?n i)"
  have h: "home (gb_slots g) i = ?n" using i by (simp add: home_def)
  have k: "steps_from ?n ?k = i" by (rule steps_distance [OF slotFor_less slots_okD(1) [OF ok]]) (use i in blast)
  have kN: "?k < N" by (rule distance_less [OF slotFor_less])
  have "gs_occupied (gb_slots g (steps_from ?n t)) \<and> skey (gb_slots g) (steps_from ?n t) \<noteq> seq" if "t < ?k" for t
    using path_occupied [OF ok _ _ that] i by blast
  then show "gb_find_loop N ?n g seq 0 = Some i"
    using find_loop_complete [of 0 ?k g ?n seq N] k i kN by simp
qed (rule find_loop_sound)

lemma gb_find_iff:
  assumes "slots_ok (gb_slots g)"
  shows "gb_find g seq = Some p \<longleftrightarrow> (\<exists>i. gs_occupied (gb_slots g i) \<and> gs_packet (gb_slots g i) = p \<and> pkt_seq p = seq)"
  using find_loop_iff [OF assms, of seq] by (auto simp: gb_find_def skey_def)

section \<open>Insertion\<close>

lemma insert_loop_skip:
  "\<forall>t\<in>{p..<k}. gs_occupied (gb_slots g (steps_from start t)) \<and> skey (gb_slots g) (steps_from start t) \<noteq> pkt_seq q \<Longrightarrow>
   p \<le> k \<Longrightarrow> k \<le> p + n \<Longrightarrow> insert_loop n start g q (of_nat p) = insert_loop (p + n - k) start g q (of_nat k)"
proof (induction n arbitrary: p)
  case (Suc n)
  show ?case
  proof (cases "p = k")
    case False
    then have "insert_loop n start g q (of_nat (Suc p)) = insert_loop (Suc p + n - k) start g q (of_nat k)"
      using Suc.prems by (intro Suc.IH) auto
    moreover have "gs_occupied (gb_slots g (steps_from start p))" "skey (gb_slots g) (steps_from start p) \<noteq> pkt_seq q"
      using Suc.prems False by auto
    ultimately show ?thesis by (simp add: Let_def skey_def steps_from_def add.commute)
  qed simp
qed simp

lemma insert_loop_reach:
  "\<forall>t<k. gs_occupied (gb_slots g (steps_from start t)) \<and> skey (gb_slots g) (steps_from start t) \<noteq> pkt_seq q \<Longrightarrow> k < N \<Longrightarrow>
   insert_loop N start g q 0 = insert_loop (Suc (N - Suc k)) start g q (of_nat k)"
  using insert_loop_skip [of 0 k g start q N] Suc_diff_Suc [of k N] by (simp del: insert_loop.simps)

definition gap_full :: "GapBuffer \<Rightarrow> bool" where
  "gap_full g \<longleftrightarrow> (\<forall>s. unat s < N \<longrightarrow> gs_occupied (gb_slots g s))"

lemma insert_present:
  assumes ok: "slots_ok (gb_slots g)" and r: "gb_find g (pkt_seq q) = Some r"
  shows "insert_loop N (slotFor (pkt_seq q)) g q 0 =
    (if pkt_len r \<noteq> pkt_len q \<or> pkt_msg_count r \<noteq> pkt_msg_count q \<or> pkt_data r \<noteq> pkt_data q
     then ConflictingDuplicate else DuplicateIdentical, g)"
proof -
  let ?n = "slotFor (pkt_seq q)"
  obtain i where i: "gs_occupied (gb_slots g i)" "gs_packet (gb_slots g i) = r" "skey (gb_slots g) i = pkt_seq q"
    using r unfolding gb_find_iff [OF ok] by (auto simp: skey_def)
  let ?k = "unat (probeDistance ?n i)"
  have h: "home (gb_slots g) i = ?n" using i by (simp add: home_def)
  have k: "steps_from ?n ?k = i" by (rule steps_distance [OF slotFor_less slots_okD(1) [OF ok i(1)]])
  have kN: "?k < N" by (rule distance_less [OF slotFor_less])
  have "insert_loop N ?n g q 0 = insert_loop (Suc (N - Suc ?k)) ?n g q (of_nat ?k)"
    using path_occupied [OF ok i(1,3)] by (intro insert_loop_reach [OF _ kN]) simp
  moreover have "(?n + of_nat ?k) AND kMask = i" using k by (simp only: steps_from_def)
  ultimately show ?thesis using i by (simp add: Let_def skey_def)
qed

lemma insert_absent:
  assumes ok: "slots_ok (gb_slots g)" and r: "gb_find g (pkt_seq q) = None"
  shows "gap_full g \<Longrightarrow> insert_loop N (slotFor (pkt_seq q)) g q 0 = (CapacityExceeded, g)"
    "\<not> gap_full g \<Longrightarrow> \<exists>k<N. \<not> gs_occupied (gb_slots g (steps_from (slotFor (pkt_seq q)) k)) \<and>
       (\<forall>t<k. gs_occupied (gb_slots g (steps_from (slotFor (pkt_seq q)) t))) \<and>
       insert_loop N (slotFor (pkt_seq q)) g q 0 = (Inserted, g\<lparr>gb_slots := (gb_slots g)(steps_from (slotFor (pkt_seq q)) k :=
         \<lparr>gs_occupied = True, gs_packet = q\<rparr>), gb_size := gb_size g + 1\<rparr>)"
proof -
  let ?n = "slotFor (pkt_seq q)"
  have ne: "skey (gb_slots g) i \<noteq> pkt_seq q" if "gs_occupied (gb_slots g i)" for i
    using r that gb_find_iff [OF ok, of "pkt_seq q" "gs_packet (gb_slots g i)"] by (auto simp: skey_def)
  { assume "gap_full g"
    then have "\<forall>t\<in>{0..<N}. gs_occupied (gb_slots g (steps_from ?n t)) \<and> skey (gb_slots g) (steps_from ?n t) \<noteq> pkt_seq q"
      using ne by (simp add: gap_full_def steps_from_less)
    then show "insert_loop N ?n g q 0 = (CapacityExceeded, g)" using insert_loop_skip [of 0 N g ?n q N] by simp }
  { assume "\<not> gap_full g"
    then obtain s where s: "unat s < N" "\<not> gs_occupied (gb_slots g s)" by (auto simp: gap_full_def)
    define k where "k = (LEAST t. \<not> gs_occupied (gb_slots g (steps_from ?n t)))"
    have "\<not> gs_occupied (gb_slots g (steps_from ?n (unat (probeDistance ?n s))))"
      using s steps_distance [OF slotFor_less s(1)] by simp
    then have k: "\<not> gs_occupied (gb_slots g (steps_from ?n k))" "k \<le> unat (probeDistance ?n s)"
      unfolding k_def by (rule LeastI, rule Least_le)
    have kN: "k < N" using k(2) distance_less [OF slotFor_less, of "pkt_seq q" s] by simp
    have lt: "gs_occupied (gb_slots g (steps_from ?n t))" if "t < k" for t
      using not_less_Least [OF that [unfolded k_def]] by simp
    then have "insert_loop N ?n g q 0 = insert_loop (Suc (N - Suc k)) ?n g q (of_nat k)"
      using ne by (intro insert_loop_reach [OF _ kN]) simp
    also have "\<dots> = (Inserted, g\<lparr>gb_slots := (gb_slots g)(steps_from ?n k := \<lparr>gs_occupied = True, gs_packet = q\<rparr>), gb_size := gb_size g + 1\<rparr>)"
      using k(1) by (simp add: Let_def steps_from_def)
    finally show "\<exists>k<N. \<not> gs_occupied (gb_slots g (steps_from ?n k)) \<and> (\<forall>t<k. gs_occupied (gb_slots g (steps_from ?n t))) \<and>
       insert_loop N ?n g q 0 = (Inserted, g\<lparr>gb_slots := (gb_slots g)(steps_from ?n k := \<lparr>gs_occupied = True, gs_packet = q\<rparr>), gb_size := gb_size g + 1\<rparr>)"
      using kN k(1) lt by blast }
qed

lemma gap_inv_insert:
  assumes inv: "gap_inv g" and r: "gb_find g (pkt_seq q) = None" and k: "k < N"
    "\<not> gs_occupied (gb_slots g (steps_from (slotFor (pkt_seq q)) k))"
    "\<forall>t<k. gs_occupied (gb_slots g (steps_from (slotFor (pkt_seq q)) t))"
    and g': "g' = g\<lparr>gb_slots := (gb_slots g)(steps_from (slotFor (pkt_seq q)) k := \<lparr>gs_occupied = True, gs_packet = q\<rparr>), gb_size := gb_size g + 1\<rparr>"
  shows "gap_inv g'" "gb_find g' = (gb_find g)(pkt_seq q \<mapsto> q)"
proof -
  let ?n = "slotFor (pkt_seq q)" and ?sl = "gb_slots g"
  define i where "i = steps_from ?n k"
  have ok: "slots_ok ?sl" using inv by (simp add: gap_inv_def)
  have sl': "gb_slots g' = ?sl(i := \<lparr>gs_occupied = True, gs_packet = q\<rparr>)" by (simp add: g' i_def)
  have iN: "unat i < N" and free: "\<not> gs_occupied (?sl i)" using k by (simp_all add: i_def steps_from_less)
  have ne: "skey ?sl s \<noteq> pkt_seq q" if "gs_occupied (?sl s)" for s
    using r that gb_find_iff [OF ok, of "pkt_seq q" "gs_packet (?sl s)"] by (auto simp: skey_def)
  have keys: "skey (gb_slots g') s = (if s = i then pkt_seq q else skey ?sl s)" for s by (simp add: skey_def sl')
  have occ: "gs_occupied (gb_slots g' s) \<longleftrightarrow> s = i \<or> gs_occupied (?sl s)" for s by (simp add: sl')
  have path: "gs_occupied (?sl j)" if "crosses ?n i j" for j
  proof -
    have "steps_from ?n (unat (probeDistance ?n j)) = j" "unat (probeDistance ?n j) < k"
      using that distance_steps [OF slotFor_less k(1), of "pkt_seq q"] steps_distance [OF slotFor_less]
      by (auto simp: crosses_def i_def word_less_nat_alt)
    then show ?thesis using k(3) by metis
  qed
  have "slots_ok (gb_slots g')" unfolding slots_ok_def
  proof (intro conjI allI impI)
    fix s s' j assume s: "gs_occupied (gb_slots g' s)"
    show "unat s < N" using s iN slots_okD(1) [OF ok] by (auto simp: occ)
    show "s = s'" if "gs_occupied (gb_slots g' s')" "skey (gb_slots g') s = skey (gb_slots g') s'"
      using s that ne slots_okD(2) [OF ok] unfolding occ keys by metis
    show "gs_occupied (gb_slots g' j)" if "crosses (home (gb_slots g') s) s j"
      using s that path slots_okD(3) [OF ok, of s j] unfolding occ home_def keys by (metis home_def)
  qed
  moreover have "pivot (gb_slots g') i" unfolding pivot_def
    using iN free slots_okD(3) [OF ok, of _ i] by (auto simp: occ home_def keys)
  moreover have "card {s. gs_occupied (gb_slots g' s)} = Suc (card {s. gs_occupied (?sl s)})"
  proof -
    have "{s. gs_occupied (gb_slots g' s)} = insert i {s. gs_occupied (?sl s)}" by (auto simp: occ)
    then show ?thesis using free by simp
  qed
  ultimately show inv': "gap_inv g'" using inv by (auto simp: gap_inv_def g')
  have ok': "slots_ok (gb_slots g')" using inv' by (simp add: gap_inv_def)
  show "gb_find g' = (gb_find g)(pkt_seq q \<mapsto> q)"
  proof
    fix seq
    have "gb_find g' seq = Some p \<longleftrightarrow> ((gb_find g)(pkt_seq q \<mapsto> q)) seq = Some p" for p
    proof (cases "seq = pkt_seq q")
      case True
      then show ?thesis unfolding gb_find_iff [OF ok'] using ne by (auto simp: sl' skey_def)
    next
      case False
      then show ?thesis unfolding gb_find_iff [OF ok'] fun_upd_other [OF False] gb_find_iff [OF ok] using free by (auto simp: sl')
    qed
    then show "gb_find g' seq = ((gb_find g)(pkt_seq q \<mapsto> q)) seq" by (rule option_ext)
  qed
qed

section \<open>Deletion\<close>

text \<open>Counted from a pivot the probe paths do not wrap around.\<close>

definition lin_home :: "nat \<Rightarrow> (u32 \<Rightarrow> GapSlot) \<Rightarrow> nat \<Rightarrow> nat" where
  "lin_home k sl x = lin_inv k (home sl (lin k x))"

lemma lin_home_less: "lin_home k sl x < N" by (simp add: lin_home_def lin_inv_less)

lemma lin_home: "k < N \<Longrightarrow> lin k (lin_home k sl x) = home sl (lin k x)"
  unfolding lin_home_def home_def by (rule lin_lin_inv [OF _ slotFor_less])

lemma distance_home:
  assumes "k < N" "x < N" "z < N"
  shows "unat (probeDistance (home sl (lin k x)) (lin k z)) =
    (if lin_home k sl x \<le> z then z - lin_home k sl x else z + N - lin_home k sl x)"
  unfolding lin_home [OF assms(1), symmetric] by (rule distance_lin [OF assms(3) lin_home_less])

lemma crosses_lin:
  assumes "k < N" "x < N" "z < N" "lin_home k sl x \<le> x"
  shows "crosses (home sl (lin k x)) (lin k x) (lin k z) \<longleftrightarrow> lin_home k sl x \<le> z \<and> z < x"
  using assms(2-4) lin_home_less [of k sl x]
  unfolding crosses_def word_less_nat_alt distance_home [OF assms(1,2,3)] distance_home [OF assms(1,2,2)]
  by (auto simp: lin_less)

lemma pivot_linear:
  assumes p: "pivot sl c" and o: "gs_occupied (sl (lin (unat c) x))" and x: "x < N"
  shows "lin_home (unat c) sl x \<le> x"
proof (rule ccontr)
  assume n: "\<not> lin_home (unat c) sl x \<le> x"
  have c: "unat c < N" using p by (simp add: pivot_def)
  have xl: "x \<noteq> N - 1" using n lin_home_less [of "unat c" sl x] by auto
  have l: "lin (unat c) (N - 1) = c" using lin_last [OF c] by (simp add: word_unat_eq_iff)
  then have ne: "lin (unat c) x \<noteq> c" using lin_inject [OF c x, of "N - 1"] xl by auto
  have "unat (probeDistance (home sl (lin (unat c) x)) c) < unat (probeDistance (home sl (lin (unat c) x)) (lin (unat c) x))"
    using distance_home [OF c x, of "N - 1" sl] distance_home [OF c x x, of sl] n lin_home_less [of "unat c" sl x] xl unfolding l by simp
  then have "crosses (home sl (lin (unat c) x)) (lin (unat c) x) c" using c by (simp add: crosses_def word_less_nat_alt)
  then show False using p o ne by (simp add: pivot_def)
qed

text \<open>A table with a hole at \<open>g\<close>, whose stale content does not count: probe paths may be interrupted by the hole
  only for entries from position \<open>i\<close> on.\<close>

definition hole_ok :: "nat \<Rightarrow> (u32 \<Rightarrow> GapSlot) \<Rightarrow> nat \<Rightarrow> nat \<Rightarrow> bool" where
  "hole_ok k sl g i \<longleftrightarrow> g < N \<and>
     (\<forall>x<N. x \<noteq> g \<longrightarrow> gs_occupied (sl (lin k x)) \<longrightarrow> lin_home k sl x \<le> x \<and>
        (\<forall>z. lin_home k sl x \<le> z \<longrightarrow> z < x \<longrightarrow> z \<noteq> g \<longrightarrow> gs_occupied (sl (lin k z)))) \<and>
     (\<forall>x<i. x < N \<longrightarrow> x \<noteq> g \<longrightarrow> gs_occupied (sl (lin k x)) \<longrightarrow> \<not> (lin_home k sl x \<le> g \<and> g < x)) \<and>
     (\<forall>x<N. \<forall>y<N. x \<noteq> g \<longrightarrow> y \<noteq> g \<longrightarrow> gs_occupied (sl (lin k x)) \<longrightarrow> gs_occupied (sl (lin k y)) \<longrightarrow>
        skey sl (lin k x) = skey sl (lin k y) \<longrightarrow> x = y)"

definition hole_contents :: "nat \<Rightarrow> (u32 \<Rightarrow> GapSlot) \<Rightarrow> nat \<Rightarrow> GapSlot set" where
  "hole_contents k sl g = {sl (lin k x) | x. x < N \<and> x \<noteq> g \<and> gs_occupied (sl (lin k x))}"

lemma hole_okD:
  assumes "hole_ok k sl g i" "x < N" "x \<noteq> g" "gs_occupied (sl (lin k x))"
  shows "lin_home k sl x \<le> x" "lin_home k sl x \<le> z \<Longrightarrow> z < x \<Longrightarrow> z \<noteq> g \<Longrightarrow> gs_occupied (sl (lin k z))"
    "x < i \<Longrightarrow> \<not> (lin_home k sl x \<le> g \<and> g < x)"
  using assms unfolding hole_ok_def by blast+

lemma shift_wrapped:
  assumes k: "k < N" and h: "hole_ok k sl g N"
  shows "x + m \<le> g \<Longrightarrow> shift_loop m sl (lin k g) (lin k x) = (sl, lin k g)"
proof (induction m arbitrary: x)
  case (Suc m)
  have g: "g < N" using h by (simp add: hole_ok_def)
  show ?case
  proof (cases "gs_occupied (sl (lin k x))")
    case True
    have "lin_home k sl x \<le> x" using hole_okD(1) [OF h, of x] True Suc.prems g by simp
    then have "\<not> probeDistance (home sl (lin k x)) (lin k g) < probeDistance (home sl (lin k x)) (lin k x)"
      using crosses_lin [OF k, of x g sl] Suc.prems g by (simp add: crosses_def lin_less)
    then show ?thesis using True Suc.IH [of "x + 1"] Suc.prems by (simp add: Let_def home_def skey_def lin_next)
  qed (simp add: Let_def)
qed simp

lemma hole_stop:
  assumes h: "hole_ok k sl g i" and i: "g < i" "i < N" "\<not> gs_occupied (sl (lin k i))"
  shows "hole_ok k sl g N"
proof -
  have "\<not> (lin_home k sl x \<le> g \<and> g < x)" if x: "x < N" "x \<noteq> g" "gs_occupied (sl (lin k x))" for x
  proof (cases "x < i")
    case True
    then show ?thesis using hole_okD(3) [OF h x] by simp
  next
    case False
    then have "i < x" using i x by (metis linorder_neqE_nat)
    then show ?thesis using hole_okD(2) [OF h x, of i] i by auto
  qed
  then show ?thesis using h unfolding hole_ok_def by blast
qed

lemma hole_keep:
  assumes h: "hole_ok k sl g i" and i: "g < i" "i < N" "gs_occupied (sl (lin k i))" "\<not> lin_home k sl i \<le> g"
  shows "hole_ok k sl g (i + 1)"
proof -
  have "\<not> (lin_home k sl x \<le> g \<and> g < x)" if x: "x < i + 1" "x < N" "x \<noteq> g" "gs_occupied (sl (lin k x))" for x
    using hole_okD(3) [OF h x(2-4)] i(4) x(1) by (cases "x = i") auto
  then show ?thesis using h unfolding hole_ok_def by blast
qed

lemma hole_move:
  assumes k: "k < N" and h: "hole_ok k sl g i" and i: "g < i" "i < N" "gs_occupied (sl (lin k i))" "lin_home k sl i \<le> g"
  shows "hole_ok k (sl(lin k g := sl (lin k i))) i (i + 1)"
    "hole_contents k (sl(lin k g := sl (lin k i))) i = hole_contents k sl g"
proof -
  let ?sl = "sl(lin k g := sl (lin k i))"
  have g: "g < N" using h by (simp add: hole_ok_def)
  have sl: "?sl (lin k x) = (if x = g then sl (lin k i) else sl (lin k x))" if "x < N" for x
    using lin_inject [OF k that g] by simp
  have sk: "skey ?sl (lin k x) = (if x = g then skey sl (lin k i) else skey sl (lin k x))" if "x < N" for x
    using sl [OF that] by (simp add: skey_def)
  have lh: "lin_home k ?sl x = (if x = g then lin_home k sl i else lin_home k sl x)" if "x < N" for x
    using sk [OF that] by (simp add: lin_home_def home_def)
  show "hole_ok k ?sl i (i + 1)" unfolding hole_ok_def
  proof (intro conjI allI impI)
    show "i < N" by (rule i(2))
  next
    fix x assume x: "x < N" "x \<noteq> i" "gs_occupied (?sl (lin k x))"
    show "lin_home k ?sl x \<le> x"
      using hole_okD(1) [OF h, of x] x i lh [OF x(1)] sl [OF x(1)] by (auto split: if_splits)
    fix z assume z: "lin_home k ?sl x \<le> z" "z < x" "z \<noteq> i"
    show "gs_occupied (?sl (lin k z))"
    proof (cases "x = g")
      case True
      then have "gs_occupied (sl (lin k z))" using hole_okD(2) [OF h i(2) _ i(3), of z] z i lh [OF x(1)] by auto
      then show ?thesis using sl [of z] True z g by auto
    next
      case False
      then have "z \<noteq> g \<Longrightarrow> gs_occupied (sl (lin k z))" using hole_okD(2) [OF h x(1) False, of z] z x lh [OF x(1)] sl [OF x(1)] by auto
      then show ?thesis using sl [of z] z x i by auto
    qed
  next
    fix x assume "x < i + 1" "x < N" "x \<noteq> i"
    then show "\<not> (lin_home k ?sl x \<le> i \<and> i < x)" by simp
  next
    fix x y assume a: "x < N" "y < N" "x \<noteq> i" "y \<noteq> i" "gs_occupied (?sl (lin k x))" "gs_occupied (?sl (lin k y))"
      "skey ?sl (lin k x) = skey ?sl (lin k y)"
    let ?u = "if x = g then i else x" and ?v = "if y = g then i else y"
    have "?u < N" "?v < N" "?u \<noteq> g" "?v \<noteq> g" "gs_occupied (sl (lin k ?u))" "gs_occupied (sl (lin k ?v))"
      "skey sl (lin k ?u) = skey sl (lin k ?v)"
      using a i sl [OF a(1)] sl [OF a(2)] sk [OF a(1)] sk [OF a(2)] by (auto split: if_splits)
    then have "?u = ?v" using h unfolding hole_ok_def by blast
    then show "x = y" using a by (auto split: if_splits)
  qed
  show "hole_contents k ?sl i = hole_contents k sl g"
  proof (intro set_eqI iffI)
    fix s assume "s \<in> hole_contents k ?sl i"
    then obtain x where x: "x < N" "x \<noteq> i" "gs_occupied (?sl (lin k x))" "s = ?sl (lin k x)" by (auto simp: hole_contents_def)
    then have "s = sl (lin k (if x = g then i else x))" using sl by simp
    then show "s \<in> hole_contents k sl g" using x i unfolding hole_contents_def by (intro CollectI exI [of _ "if x = g then i else x"]) auto
  next
    fix s assume "s \<in> hole_contents k sl g"
    then obtain x where x: "x < N" "x \<noteq> g" "gs_occupied (sl (lin k x))" "s = sl (lin k x)" by (auto simp: hole_contents_def)
    then show "s \<in> hole_contents k ?sl i" using i g sl [of x] sl [of g] unfolding hole_contents_def
      by (intro CollectI exI [of _ "if x = i then g else x"]) auto
  qed
qed

lemma shift_loop_correct:
  assumes k: "k < N"
  shows "hole_ok k sl g i \<Longrightarrow> e \<le> g \<Longrightarrow> g < i \<Longrightarrow> i + d = N \<Longrightarrow>
    \<exists>sl' g'. shift_loop (d + e) sl (lin k g) (lin k i) = (sl', lin k g') \<and> hole_ok k sl' g' N \<and>
      hole_contents k sl' g' = hole_contents k sl g \<and> (\<forall>s. \<not> unat s < N \<longrightarrow> sl' s = sl s)"
proof (induction d arbitrary: sl g i)
  case 0
  then have "shift_loop e sl (lin k g) (lin k 0) = (sl, lin k g)" by (intro shift_wrapped [OF k]) simp_all
  then show ?case using 0 lin_wrap [of k] by auto
next
  case (Suc d)
  have iN: "i < N" and d: "(i + 1) + d = N" using Suc.prems(4) by auto
  show ?case
  proof (cases "gs_occupied (sl (lin k i))")
    case False
    then show ?thesis using hole_stop [OF Suc.prems(1,3) iN False] by (auto simp: Let_def)
  next
    case True
    have le: "lin_home k sl i \<le> i" using hole_okD(1) [OF Suc.prems(1) iN _ True] Suc.prems(3) by simp
    have g: "g < N" using Suc.prems(1) by (simp add: hole_ok_def)
    have c: "probeDistance (home sl (lin k i)) (lin k g) < probeDistance (home sl (lin k i)) (lin k i) \<longleftrightarrow> lin_home k sl i \<le> g"
      using crosses_lin [OF k iN g le] Suc.prems(3) by (simp add: crosses_def lin_less)
    show ?thesis
    proof (cases "lin_home k sl i \<le> g")
      case m: True
      let ?sl = "sl(lin k g := sl (lin k i))"
      note H = hole_move [OF k Suc.prems(1,3) iN True m]
      have "shift_loop (Suc d + e) sl (lin k g) (lin k i) = shift_loop (d + e) ?sl (lin k i) (lin k (i + 1))"
        using True m c by (simp add: Let_def home_def skey_def lin_next)
      moreover obtain sl' g' where "shift_loop (d + e) ?sl (lin k i) (lin k (i + 1)) = (sl', lin k g')" "hole_ok k sl' g' N"
        "hole_contents k sl' g' = hole_contents k ?sl i" "\<forall>s. \<not> unat s < N \<longrightarrow> sl' s = ?sl s"
        using Suc.IH [OF H(1) less_imp_le [OF le_less_trans [OF Suc.prems(2,3)]] _ d] by (metis less_add_one)
      ultimately show ?thesis using H(2) lin_less [of k g] by (auto intro!: exI [of _ sl'] exI [of _ g'])
    next
      case m: False
      have "shift_loop (Suc d + e) sl (lin k g) (lin k i) = shift_loop (d + e) sl (lin k g) (lin k (i + 1))"
        using True m c by (simp add: Let_def home_def skey_def lin_next)
      then show ?thesis using Suc.IH [OF hole_keep [OF Suc.prems(1,3) iN True m] Suc.prems(2) _ d] Suc.prems(3) by auto
    qed
  qed
qed

end
