(* ===== verification/GapBufferCorrect.thy ===== *)
theory GapBufferCorrect
  imports GapBufferIndex
begin

text \<open>
  The gap buffer as a bounded map of packets: deletion, the contract \<open>packet_buffer\<close> the decoder relies on and its
  interpretation, the statistics, and the properties of the component.
\<close>

text \<open>The stored slots without the one deleted.\<close>

lemma hole_contents_slots:
  assumes k: "k < N" and g: "g < N" and out: "\<And>s. gs_occupied (sl s) \<Longrightarrow> unat s < N"
  shows "hole_contents k sl g = {sl s | s. s \<noteq> lin k g \<and> gs_occupied (sl s)}"
proof (intro set_eqI iffI)
  fix v assume "v \<in> {sl s | s. s \<noteq> lin k g \<and> gs_occupied (sl s)}"
  then obtain s where s: "v = sl s" "s \<noteq> lin k g" "gs_occupied (sl s)" by blast
  have l: "lin k (lin_inv k s) = s" by (rule lin_lin_inv [OF k out [OF s(3)]])
  then have "lin_inv k s \<noteq> g" using s(2) by auto
  then show "v \<in> hole_contents k sl g" unfolding hole_contents_def using s l lin_inv_less [of k s] by (metis (mono_tags, lifting) CollectI)
next
  fix v assume "v \<in> hole_contents k sl g"
  then obtain x where x: "x < N" "x \<noteq> g" "gs_occupied (sl (lin k x))" "v = sl (lin k x)" by (auto simp: hole_contents_def)
  then have "lin k x \<noteq> lin k g" using lin_inject [OF k x(1) g] by simp
  then show "v \<in> {sl s | s. s \<noteq> lin k g \<and> gs_occupied (sl s)}" using x by blast
qed

lemma hole_start:
  assumes ok: "slots_ok sl" and p: "pivot sl c" and e: "e < N"
  shows "hole_ok (unat c) sl e (e + 1)"
proof -
  have c: "unat c < N" using p by (simp add: pivot_def)
  have path: "gs_occupied (sl (lin (unat c) z))"
    if "x < N" "gs_occupied (sl (lin (unat c) x))" "lin_home (unat c) sl x \<le> z" "z < x" for x z
    using slots_okD(3) [OF ok that(2)] crosses_lin [OF c that(1) _ pivot_linear [OF p that(2,1)], of z] that by simp
  have uniq: "x = y" if "x < N" "y < N" "gs_occupied (sl (lin (unat c) x))" "gs_occupied (sl (lin (unat c) y))"
    "skey sl (lin (unat c) x) = skey sl (lin (unat c) y)" for x y
    using slots_okD(2) [OF ok that(3-5)] lin_inject [OF c that(1,2)] by simp
  have early: "\<not> e < x" if "x < e + 1" for x using that by simp
  show ?thesis unfolding hole_ok_def using pivot_linear [OF p] path uniq early e by blast
qed

lemma hole_finish:
  assumes k: "k < N" and h: "hole_ok k sl g N" and out: "\<And>s. gs_occupied (sl s) \<Longrightarrow> unat s < N"
  shows "slots_ok (sl(lin k g := zeroSlot))" "pivot (sl(lin k g := zeroSlot)) (lin k g)"
proof -
  let ?sl = "sl(lin k g := zeroSlot)"
  have g: "g < N" using h by (simp add: hole_ok_def)
  have pos: "\<exists>x<N. x \<noteq> g \<and> s = lin k x \<and> gs_occupied (sl (lin k x))" if "gs_occupied (?sl s)" for s
  proof -
    have s: "s \<noteq> lin k g" "gs_occupied (sl s)" using that by (auto simp: zeroSlot_def split: if_splits)
    then show ?thesis using lin_lin_inv [OF k out [OF s(2)]] lin_inv_less [of k s] by metis
  qed
  have key: "skey ?sl (lin k x) = skey sl (lin k x)" if "x < N" "x \<noteq> g" for x
    using lin_inject [OF k that(1) g] that(2) by (simp add: skey_def)
  have path: "lin_home k sl x \<le> z \<and> z < x \<and> z \<noteq> g \<and> gs_occupied (sl (lin k z))"
    if x: "x < N" "x \<noteq> g" "gs_occupied (sl (lin k x))" and z: "z < N" "crosses (home ?sl (lin k x)) (lin k x) (lin k z)" for x z
  proof -
    have "crosses (home sl (lin k x)) (lin k x) (lin k z)" using z(2) key [OF x(1,2)] by (simp add: home_def)
    then have "lin_home k sl x \<le> z" "z < x" using crosses_lin [OF k x(1) z(1) hole_okD(1) [OF h x]] by simp_all
    then show ?thesis using hole_okD(2,3) [OF h x] x(1) by blast
  qed
  show "slots_ok ?sl" unfolding slots_ok_def
  proof (intro conjI allI impI)
    fix s assume "gs_occupied (?sl s)" then show "unat s < N" using pos lin_less by metis
  next
    fix s s' assume a: "gs_occupied (?sl s)" "gs_occupied (?sl s')" "skey ?sl s = skey ?sl s'"
    then obtain x y where xy: "x < N" "x \<noteq> g" "s = lin k x" "gs_occupied (sl (lin k x))" "y < N" "y \<noteq> g" "s' = lin k y" "gs_occupied (sl (lin k y))"
      using pos [OF a(1)] pos [OF a(2)] by blast
    have "x = y" using h a(3) key [OF xy(1,2)] key [OF xy(5,6)] xy unfolding hole_ok_def by metis
    then show "s = s'" using xy by simp
  next
    fix s j assume a: "gs_occupied (?sl s)" "crosses (home ?sl s) s j"
    obtain x where x: "x < N" "x \<noteq> g" "s = lin k x" "gs_occupied (sl (lin k x))" using pos [OF a(1)] by blast
    have j: "lin k (lin_inv k j) = j" by (rule lin_lin_inv [OF k]) (use a(2) in \<open>simp add: crosses_def\<close>)
    have "lin_inv k j \<noteq> g \<and> gs_occupied (sl j)" using path [OF x(1,2,4) lin_inv_less [of k j]] a(2) x(3) j by simp
    then show "gs_occupied (?sl j)" using lin_inject [OF k lin_inv_less [of k j] g] j by simp
  qed
  show "pivot ?sl (lin k g)" unfolding pivot_def
  proof (intro conjI allI impI)
    fix s assume a: "gs_occupied (?sl s)"
    obtain x where x: "x < N" "x \<noteq> g" "s = lin k x" "gs_occupied (sl (lin k x))" using pos [OF a] by blast
    show "\<not> crosses (home ?sl s) s (lin k g)" using path [OF x(1,2,4) g] x(3) by blast
  qed (rule lin_less)
qed

lemma slot_card:
  assumes "slots_ok sl"
  shows "card {s. s \<in> A \<and> gs_occupied (sl s)} = card {sl s | s. s \<in> A \<and> gs_occupied (sl s)}"
proof -
  have "inj_on sl {s. s \<in> A \<and> gs_occupied (sl s)}"
    by (intro inj_onI) (metis (mono_tags, lifting) mem_Collect_eq skey_def slots_okD(2) [OF assms])
  then have "card (sl ` {s. s \<in> A \<and> gs_occupied (sl s)}) = card {s. s \<in> A \<and> gs_occupied (sl s)}" by (rule card_image)
  moreover have "sl ` {s. s \<in> A \<and> gs_occupied (sl s)} = {sl s | s. s \<in> A \<and> gs_occupied (sl s)}" by blast
  ultimately show ?thesis by simp
qed

text \<open>The backward shift removes exactly one entry.\<close>

lemma eraseAt_correct:
  assumes inv: "gap_inv g" and i: "gs_occupied (gb_slots g i)"
  shows "gap_inv (eraseAt g i)"
    "{gb_slots (eraseAt g i) s | s. gs_occupied (gb_slots (eraseAt g i) s)} = {gb_slots g s | s. s \<noteq> i \<and> gs_occupied (gb_slots g s)}"
proof -
  let ?sl = "gb_slots g"
  obtain c where c: "pivot ?sl c" using inv by (auto simp: gap_inv_def)
  have ok: "slots_ok ?sl" using inv by (simp add: gap_inv_def)
  have cN: "unat c < N" using c by (simp add: pivot_def)
  define e where "e = lin_inv (unat c) i"
  have e: "e < N" "lin (unat c) e = i" unfolding e_def by (rule lin_inv_less, rule lin_lin_inv [OF cN slots_okD(1) [OF ok i]])
  obtain sl' g' where sh: "shift_loop ((N - (e + 1)) + e) ?sl (lin (unat c) e) (lin (unat c) (e + 1)) = (sl', lin (unat c) g')"
    and H: "hole_ok (unat c) sl' g' N" "hole_contents (unat c) sl' g' = hole_contents (unat c) ?sl e"
      "\<forall>s. \<not> unat s < N \<longrightarrow> sl' s = ?sl s"
    using shift_loop_correct [OF cN hole_start [OF ok c e(1)], of e "N - (e + 1)"] e(1) by auto
  have out: "gs_occupied (sl' s) \<Longrightarrow> unat s < N" for s using H(3) slots_okD(1) [OF ok] by metis
  let ?F = "sl'(lin (unat c) g' := zeroSlot)"
  have "N - (e + 1) + e = N - 1" using e(1) by simp
  moreover have "lin (unat c) (e + 1) = gb_next i" using lin_next [of "unat c" e] e(2) by simp
  ultimately have E: "eraseAt g i = g\<lparr>gb_slots := ?F, gb_size := gb_size g - 1\<rparr>"
    using sh by (simp add: eraseAt_def e(2))
  note F = hole_finish [OF cN H(1) out]
  have "{?F s | s. gs_occupied (?F s)} = {sl' s | s. s \<noteq> lin (unat c) g' \<and> gs_occupied (sl' s)}"
    by (auto simp: zeroSlot_def split: if_splits)
  also have "\<dots> = hole_contents (unat c) sl' g'" by (rule hole_contents_slots [OF cN _ out, symmetric]) (use H(1) in \<open>simp add: hole_ok_def\<close>)
  also have "\<dots> = {?sl s | s. s \<noteq> i \<and> gs_occupied (?sl s)}"
    unfolding H(2) e(2) [symmetric] by (rule hole_contents_slots [OF cN e(1)]) (rule slots_okD(1) [OF ok])
  finally have C: "{?F s | s. gs_occupied (?F s)} = {?sl s | s. s \<noteq> i \<and> gs_occupied (?sl s)}" .
  then show "{gb_slots (eraseAt g i) s | s. gs_occupied (gb_slots (eraseAt g i) s)} = {?sl s | s. s \<noteq> i \<and> gs_occupied (?sl s)}"
    by (simp add: E)
  have "card {s. gs_occupied (?F s)} = card {s. s \<noteq> i \<and> gs_occupied (?sl s)}"
    using slot_card [OF F(1), of UNIV] slot_card [OF ok, of "UNIV - {i}"] C by simp
  moreover have "{s. gs_occupied (?sl s)} = insert i {s. s \<noteq> i \<and> gs_occupied (?sl s)}" using i by auto
  then have "card {s. gs_occupied (?sl s)} = Suc (card {s. s \<noteq> i \<and> gs_occupied (?sl s)})" by simp
  ultimately show "gap_inv (eraseAt g i)" using F inv by (auto simp: gap_inv_def E)
qed

lemma gb_find_contents:
  assumes "slots_ok (gb_slots g)"
  shows "gb_find g seq = Some p \<longleftrightarrow> (\<exists>v\<in>{gb_slots g s | s. gs_occupied (gb_slots g s)}. gs_packet v = p \<and> pkt_seq p = seq)"
  unfolding gb_find_iff [OF assms] by blast

lemma gb_erase_correct:
  assumes inv: "gap_inv g"
  shows "gap_inv (gb_erase g seq)" "gb_find (gb_erase g seq) = (gb_find g)(seq := None)"
proof -
  have ok: "slots_ok (gb_slots g)" using inv by (simp add: gap_inv_def)
  have "gap_inv (gb_erase g seq) \<and> gb_find (gb_erase g seq) = (gb_find g)(seq := None)"
  proof (cases "gb_find_loop N (slotFor seq) g seq 0")
    case None
    then have "gb_find g seq = None" by (simp add: gb_find_def)
    then show ?thesis using None inv by (simp add: gb_erase_def fun_upd_idem)
  next
    case (Some i)
    then have i: "gs_occupied (gb_slots g i)" "skey (gb_slots g) i = seq" using find_loop_iff [OF ok] by auto
    have E: "gb_erase g seq = eraseAt g i" using Some by (simp add: gb_erase_def)
    note R = eraseAt_correct [OF inv i(1)]
    have ok': "slots_ok (gb_slots (eraseAt g i))" using R(1) by (simp add: gap_inv_def)
    have "gb_find (eraseAt g i) q = ((gb_find g)(seq := None)) q" for q
    proof (rule option_ext)
      fix p
      show "gb_find (eraseAt g i) q = Some p \<longleftrightarrow> ((gb_find g)(seq := None)) q = Some p"
      proof (cases "q = seq")
        case True
        have "s = i" if "gs_occupied (gb_slots g s)" "pkt_seq (gs_packet (gb_slots g s)) = seq" for s
          using slots_okD(2) [OF ok that(1) i(1)] that(2) i(2) by (simp add: skey_def)
        then show ?thesis unfolding gb_find_contents [OF ok'] R(2) using True by auto
      next
        case False
        then show ?thesis unfolding gb_find_contents [OF ok'] R(2) fun_upd_other [OF False] gb_find_contents [OF ok]
          using i(2) by (auto simp: skey_def)
      qed
    qed
    then show ?thesis using R(1) by (simp add: E fun_eq_iff)
  qed
  then show "gap_inv (gb_erase g seq)" "gb_find (gb_erase g seq) = (gb_find g)(seq := None)" by blast+
qed

section \<open>The buffer as a bounded map\<close>

lemma dom_gb_find:
  assumes "slots_ok (gb_slots g)"
  shows "dom (gb_find g) = skey (gb_slots g) ` {s. gs_occupied (gb_slots g s)}"
  using gb_find_iff [OF assms] by (auto simp: dom_def skey_def)

lemma card_gb_find:
  assumes ok: "slots_ok (gb_slots g)"
  shows "card (dom (gb_find g)) = card {s. gs_occupied (gb_slots g s)}"
  unfolding dom_gb_find [OF ok] by (intro card_image inj_onI) (use slots_okD(2) [OF ok] in blast)

lemma card_slots: "card {s :: u32. unat s < N} = N"
proof -
  have "{s :: u32. unat s < N} = {s. s < kCapacity}" by (auto simp: word_less_nat_alt)
  then show ?thesis by (simp add: card_word_less)
qed

lemma slots_bound: "slots_ok (gb_slots g) \<Longrightarrow> card {s. gs_occupied (gb_slots g s)} \<le> N"
  using card_mono [of "{s :: u32. unat s < N}" "{s. gs_occupied (gb_slots g s)}"] slots_okD(1) [of "gb_slots g"]
  by (auto simp: card_slots)

lemma gap_full_card:
  assumes ok: "slots_ok (gb_slots g)"
  shows "gap_full g \<longleftrightarrow> card (dom (gb_find g)) = N"
proof -
  have sub: "{s. gs_occupied (gb_slots g s)} \<subseteq> {s. unat s < N}" using slots_okD(1) [OF ok] by blast
  have "gap_full g \<longleftrightarrow> {s. gs_occupied (gb_slots g s)} = {s. unat s < N}" using sub by (auto simp: gap_full_def)
  also have "\<dots> \<longleftrightarrow> card {s. gs_occupied (gb_slots g s)} = N"
    using card_subset_eq [OF _ sub] card_slots by auto
  finally show ?thesis by (simp add: card_gb_find [OF ok])
qed

lemma gb_size_exact: "gap_inv g \<Longrightarrow> unat (gb_size g) = card (dom (gb_find g))"
  using slots_bound [of g] by (simp add: gap_inv_def card_gb_find unat_of_nat)

lemma gb_empty_iff: "gap_inv g \<Longrightarrow> gb_empty g \<longleftrightarrow> gb_find g = Map.empty"
proof -
  assume "gap_inv g"
  then have "gb_empty g \<longleftrightarrow> card (dom (gb_find g)) = 0" using gb_size_exact [of g] by (simp add: gb_empty_def word_unat_eq_iff)
  then show ?thesis by simp
qed

definition packet_wf :: "SequencedPacket \<Rightarrow> bool" where
  "packet_wf p \<longleftrightarrow> length (pkt_data p) \<le> unat (pkt_len p) \<and> unat (pkt_len p) \<le> 2048"

definition same_copy :: "SequencedPacket \<Rightarrow> SequencedPacket \<Rightarrow> bool" where
  "same_copy r p \<longleftrightarrow> pkt_len r = pkt_len p \<and> pkt_msg_count r = pkt_msg_count p \<and> pkt_data r = pkt_data p"

definition gb_put :: "GapBuffer \<Rightarrow> SequencedPacket \<Rightarrow> InsertResult \<times> GapBuffer" where
  "gb_put g p = gb_insert g (Some (pkt_data p)) (pkt_len p) (pkt_seq p) (pkt_msg_count p) (pkt_receive_start_ticks p)"

lemma gb_put_loop: "packet_wf p \<Longrightarrow> gb_put g p = insert_loop N (slotFor (pkt_seq p)) g p 0"
  by (cases p) (simp add: gb_put_def gb_insert_def packet_wf_def kMaxPacketSize_def del: insert_loop.simps)

lemma gb_put_present:
  assumes "gap_inv g" "packet_wf p" "gb_find g (pkt_seq p) = Some r"
  shows "gb_put g p = (if same_copy r p then DuplicateIdentical else ConflictingDuplicate, g)"
  using insert_present [OF _ assms(3)] assms(1) unfolding gb_put_loop [OF assms(2)] by (simp add: gap_inv_def same_copy_def)

lemma gb_put_full:
  assumes "gap_inv g" "packet_wf p" "gb_find g (pkt_seq p) = None" "card (dom (gb_find g)) = N"
  shows "gb_put g p = (CapacityExceeded, g)"
  using insert_absent(1) [OF _ assms(3)] assms(1,4) gap_full_card unfolding gb_put_loop [OF assms(2)] by (simp add: gap_inv_def)

lemma gb_put_new:
  assumes inv: "gap_inv g" and p: "packet_wf p" "gb_find g (pkt_seq p) = None" "card (dom (gb_find g)) \<noteq> N"
  shows "\<exists>g'. gb_put g p = (Inserted, g') \<and> gap_inv g' \<and> gb_find g' = (gb_find g)(pkt_seq p \<mapsto> p)"
proof -
  have ok: "slots_ok (gb_slots g)" using inv by (simp add: gap_inv_def)
  obtain k where k: "k < N" "\<not> gs_occupied (gb_slots g (steps_from (slotFor (pkt_seq p)) k))"
    "\<forall>t<k. gs_occupied (gb_slots g (steps_from (slotFor (pkt_seq p)) t))"
    "insert_loop N (slotFor (pkt_seq p)) g p 0 = (Inserted, g\<lparr>gb_slots := (gb_slots g)(steps_from (slotFor (pkt_seq p)) k :=
       \<lparr>gs_occupied = True, gs_packet = p\<rparr>), gb_size := gb_size g + 1\<rparr>)"
    using insert_absent(2) [OF ok p(2)] gap_full_card [OF ok] p(3) by blast
  then show ?thesis using gap_inv_insert [OF inv p(2) k(1-3) refl] unfolding gb_put_loop [OF p(1)] by blast
qed

text \<open>What the decoder relies on: a finite map of packets that refuses only when it is full, reports redundant
  copies, and forgets exactly what is erased.\<close>

locale packet_buffer =
  fixes inv :: "'b \<Rightarrow> bool" and lookup :: "'b \<Rightarrow> 'k::finite \<rightharpoonup> 'p" and put :: "'b \<Rightarrow> 'p \<Rightarrow> InsertResult \<times> 'b"
    and remove :: "'b \<Rightarrow> 'k \<Rightarrow> 'b" and is_empty :: "'b \<Rightarrow> bool" and key :: "'p \<Rightarrow> 'k" and wf :: "'p \<Rightarrow> bool"
    and same :: "'p \<Rightarrow> 'p \<Rightarrow> bool" and capacity :: nat
  assumes put_new: "inv b \<Longrightarrow> wf p \<Longrightarrow> lookup b (key p) = None \<Longrightarrow> card (dom (lookup b)) \<noteq> capacity \<Longrightarrow>
      \<exists>b'. put b p = (Inserted, b') \<and> inv b' \<and> lookup b' = (lookup b)(key p \<mapsto> p)"
    and put_full: "inv b \<Longrightarrow> wf p \<Longrightarrow> lookup b (key p) = None \<Longrightarrow> card (dom (lookup b)) = capacity \<Longrightarrow>
      put b p = (CapacityExceeded, b)"
    and put_again: "inv b \<Longrightarrow> wf p \<Longrightarrow> lookup b (key p) = Some r \<Longrightarrow>
      put b p = (if same r p then DuplicateIdentical else ConflictingDuplicate, b)"
    and remove_inv: "inv b \<Longrightarrow> inv (remove b k)"
    and lookup_remove: "inv b \<Longrightarrow> lookup (remove b k) = (lookup b)(k := None)"
    and is_empty_iff: "inv b \<Longrightarrow> is_empty b \<longleftrightarrow> lookup b = Map.empty"
begin

lemma put_cases:
  assumes "inv b" "wf p" "put b p = (x, b')"
  shows "inv b'" "x = Inserted \<and> lookup b' = (lookup b)(key p \<mapsto> p) \<or> b' = b \<and> x \<in> {DuplicateIdentical, ConflictingDuplicate, CapacityExceeded}"
proof -
  have "inv b' \<and> (x = Inserted \<and> lookup b' = (lookup b)(key p \<mapsto> p) \<or> b' = b \<and> x \<in> {DuplicateIdentical, ConflictingDuplicate, CapacityExceeded})"
  proof (cases "lookup b (key p)")
    case None
    then show ?thesis using put_new [OF assms(1,2)] put_full [OF assms(1,2)] assms by (cases "card (dom (lookup b)) = capacity") auto
  next
    case (Some r)
    then show ?thesis using put_again [OF assms(1,2) Some] assms by (auto split: if_splits)
  qed
  then show "inv b'" "x = Inserted \<and> lookup b' = (lookup b)(key p \<mapsto> p) \<or> b' = b \<and> x \<in> {DuplicateIdentical, ConflictingDuplicate, CapacityExceeded}"
    by blast+
qed

lemma remove_shrinks:
  assumes "inv b" "lookup b k = Some p"
  shows "card (dom (lookup (remove b k))) < card (dom (lookup b))"
proof -
  have "k \<in> dom (lookup b)" using assms(2) by blast
  then show ?thesis unfolding lookup_remove [OF assms(1)] by (simp del: card_Diff_insert add: card_Diff1_less)
qed

text \<open>Any operation on the buffer leaves the packets of the other keys alone.\<close>

lemma put_other: "inv b \<Longrightarrow> wf p \<Longrightarrow> k \<noteq> key p \<Longrightarrow> lookup (snd (put b p)) k = lookup b k"
  using put_cases [of b p "fst (put b p)" "snd (put b p)"] by auto

end

interpretation gb: packet_buffer gap_inv gb_find gb_put gb_erase gb_empty pkt_seq packet_wf same_copy "1024 * 1024"
  using gb_put_new gb_put_full gb_put_present gb_erase_correct gb_empty_iff by unfold_locales simp_all

section \<open>Statistics\<close>

definition slot_keys :: "GapBuffer \<Rightarrow> u32 list \<Rightarrow> u64 set" where
  "slot_keys g xs = skey (gb_slots g) ` {i \<in> set xs. gs_occupied (gb_slots g i)}"

lemma slot_keys_simps:
  "slot_keys g [] = {}" "slot_keys g (i # xs) = (if gs_occupied (gb_slots g i) then insert (skey (gb_slots g) i) (slot_keys g xs) else slot_keys g xs)"
  by (auto simp: slot_keys_def)

lemma if_less_min: "(if a < b then a else b) = min a b" and if_greater_max: "(if b < a then a else b) = max a b" for a b :: "'a::linorder"
  by (auto simp: min_def max_def)

lemma stat_step_eq:
  "stat_step g e i (mn, mx, nx) = (if gs_occupied (gb_slots g i)
     then (min (skey (gb_slots g) i) mn, max (skey (gb_slots g) i) mx,
       if e \<le> skey (gb_slots g) i then min (skey (gb_slots g) i) nx else nx) else (mn, mx, nx))"
  unfolding stat_step_def Let_def skey_def if_less_min [symmetric] if_greater_max [symmetric] by simp

lemma finite_slot_keys: "finite (slot_keys g xs)" by (simp add: slot_keys_def)

lemma stat_fold:
  "fold (stat_step g e) xs (mn, mx, nx) =
     (Min (insert mn (slot_keys g xs)), Max (insert mx (slot_keys g xs)), Min (insert nx {s \<in> slot_keys g xs. e \<le> s}))"
proof (induction xs arbitrary: mn mx nx)
  case (Cons i xs)
  let ?s = "skey (gb_slots g) i" and ?T = "slot_keys g xs"
  have f: "finite ?T" by (rule finite_slot_keys)
  have a: "Min (insert (min a b) X) = Min (insert b (insert a X))" "Max (insert (max a b) X) = Max (insert b (insert a X))"
    if "finite X" for a b :: u64 and X
    using that by (cases "X = {}"; simp add: min.commute max.commute min.assoc max.assoc min.left_commute max.left_commute)+
  have s: "{s \<in> insert ?s ?T. e \<le> s} = (if e \<le> ?s then insert ?s {s \<in> ?T. e \<le> s} else {s \<in> ?T. e \<le> s})" by auto
  have fA: "finite {s \<in> ?T. e \<le> s}" using f by simp
  show ?case
  proof (cases "gs_occupied (gb_slots g i)")
    case True
    then have T: "slot_keys g (i # xs) = insert ?s ?T" by (simp add: slot_keys_simps)
    show ?thesis unfolding T s using Cons.IH True by (simp add: stat_step_eq a [OF f] a [OF fA] del: Min_insert Max_insert Min_insert2)
  qed (simp add: Cons.IH stat_step_eq slot_keys_simps)
qed (simp add: slot_keys_simps)

lemma all_slots: "set (map of_nat [0..<N]) = {s :: u32. unat s < N}"
proof (intro set_eqI iffI)
  fix s :: u32 assume "s \<in> {s. unat s < N}"
  then show "s \<in> set (map of_nat [0..<N])" by (auto intro!: image_eqI [of _ _ "unat s"])
qed (auto simp: unat_of_nat)

lemma slot_keys_all: "slots_ok (gb_slots g) \<Longrightarrow> slot_keys g (map of_nat [0..<N]) = dom (gb_find g)"
  unfolding slot_keys_def all_slots using slots_okD(1) [of "gb_slots g"] by (auto simp: dom_gb_find)

lemma Min_below_max: "finite A \<Longrightarrow> A \<noteq> {} \<Longrightarrow> Min (insert u64_max A) = Min A" for A :: "u64 set"
proof -
  assume "finite A" "A \<noteq> {}"
  moreover have "Min A \<le> u64_max" using unsigned_less [of "Min A", where 'a = nat] by (simp add: word_le_nat_alt)
  ultimately show ?thesis using Min_insert [of A u64_max] by (simp only: min_absorb2 simp_thms)
qed

lemma gb_stats_exact:
  assumes inv: "gap_inv g" and ne: "gb_find g \<noteq> Map.empty"
  shows "gb_stats g e = \<lparr>st_size = gb_size g, st_min_seq = Min (dom (gb_find g)), st_max_seq = Max (dom (gb_find g)),
    st_next_seq_at_or_after = (let A = {s \<in> dom (gb_find g). e \<le> s} in if A = {} \<or> Min A = u64_max then 0 else Min A)\<rparr>"
proof -
  let ?D = "dom (gb_find g)" and ?A = "{s \<in> dom (gb_find g). e \<le> s}"
  have ok: "slots_ok (gb_slots g)" using inv by (simp add: gap_inv_def)
  have D: "finite ?D" "?D \<noteq> {}" using ne by simp_all
  have "\<not> gb_size g = 0" using gb_empty_iff [OF inv] ne by (simp add: gb_empty_def)
  moreover have "fold (stat_step g e) (map of_nat [0..<unat kCapacity]) (u64_max, 0, u64_max) =
      (Min ?D, Max ?D, Min (insert u64_max ?A))"
    unfolding unat_kCapacity stat_fold slot_keys_all [OF ok] Min_below_max [OF D] using D by simp
  moreover have m: "Min (insert u64_max ?A) = (if ?A = {} then u64_max else Min ?A)"
  proof (cases "?A = {}")
    case True
    show ?thesis unfolding True by simp
  next
    case False
    then show ?thesis using Min_below_max [of ?A] by (simp only: if_False) simp
  qed
  ultimately show ?thesis by (cases "?A = {}") (simp_all only: gb_stats_def Let_def if_True if_False prod.case simp_thms not_True_eq_False, simp)
qed

section \<open>Sequences of operations\<close>

lemma gap_inv_clear: "gap_inv g \<Longrightarrow> gap_inv (gb_clear g)" and gb_find_clear: "gb_find (gb_clear g) = Map.empty"
proof -
  assume "gap_inv g"
  then have "\<not> gs_occupied (gb_slots (gb_clear g) s)" for s
    using slots_okD(1) [of "gb_slots g" s] by (auto simp: gap_inv_def gb_clear_def zeroSlot_def word_less_nat_alt)
  moreover have "pivot (gb_slots (gb_clear g)) 0" using calculation by (simp add: pivot_def)
  ultimately show "gap_inv (gb_clear g)" by (auto simp: gap_inv_def slots_ok_def) (simp add: gb_clear_def)
next
  have "\<not> gs_occupied (gb_slots (gb_clear g) (i AND kMask))" for i
    using unat_and_kMask [of i] by (simp add: gb_clear_def zeroSlot_def word_less_nat_alt)
  then have "gb_find_loop n start (gb_clear g) seq i = None" for n start seq i by (cases n) (simp_all add: Let_def)
  then show "gb_find (gb_clear g) = Map.empty" by (simp add: gb_find_def fun_eq_iff)
qed

datatype gap_op = OpInsert "u8 list option" u16 u64 u16 u64 | OpErase u64 | OpClear

fun gap_exec :: "gap_op \<Rightarrow> GapBuffer \<Rightarrow> InsertResult option \<times> GapBuffer" where
  "gap_exec (OpInsert data len seq cnt ticks) g = map_prod Some id (gb_insert g data len seq cnt ticks)"
| "gap_exec (OpErase seq) g = (None, gb_erase g seq)"
| "gap_exec OpClear g = (None, gb_clear g)"

text \<open>The specification: a map from sequence numbers to packets that holds at most 1048576 of them and keeps the
  first copy of each.\<close>

fun spec_gap :: "gap_op \<Rightarrow> (u64 \<rightharpoonup> SequencedPacket) \<Rightarrow> InsertResult option \<times> (u64 \<rightharpoonup> SequencedPacket)" where
  "spec_gap (OpInsert data len seq cnt ticks) m =
     (case data of None \<Rightarrow> (Some InvalidPacket, m)
      | Some bytes \<Rightarrow>
          if unat len > 2048 then (Some InvalidPacket, m)
          else let p = \<lparr>pkt_seq = seq, pkt_receive_start_ticks = ticks, pkt_msg_count = cnt, pkt_len = len,
                        pkt_data = take (unat len) bytes\<rparr>
               in case m seq of
                    Some r \<Rightarrow> (Some (if same_copy r p then DuplicateIdentical else ConflictingDuplicate), m)
                  | None \<Rightarrow> if card (dom m) = 1024 * 1024 then (Some CapacityExceeded, m) else (Some Inserted, m(seq \<mapsto> p)))"
| "spec_gap (OpErase seq) m = (None, m(seq := None))"
| "spec_gap OpClear m = (None, Map.empty)"

lemma insert_as_put:
  "unat len \<le> 2048 \<Longrightarrow> gb_insert g (Some bytes) len seq cnt ticks =
     gb_put g \<lparr>pkt_seq = seq, pkt_receive_start_ticks = ticks, pkt_msg_count = cnt, pkt_len = len, pkt_data = take (unat len) bytes\<rparr>"
  by (simp add: gb_put_def gb_insert_def)

lemma gap_insert_step:
  assumes inv: "gap_inv g"
  shows "gap_inv (snd (gap_exec (OpInsert data len seq cnt ticks) g)) \<and>
    map_prod id gb_find (gap_exec (OpInsert data len seq cnt ticks) g) = spec_gap (OpInsert data len seq cnt ticks) (gb_find g)"
proof (cases "data = None \<or> unat len > 2048")
  case True
  then show ?thesis using inv by (auto simp: gb_insert_def kMaxPacketSize_def split: option.split)
next
  case False
  then obtain bytes where b: "data = Some bytes" "unat len \<le> 2048" by auto
  let ?p = "\<lparr>pkt_seq = seq, pkt_receive_start_ticks = ticks, pkt_msg_count = cnt, pkt_len = len, pkt_data = take (unat len) bytes\<rparr>"
  have wf: "packet_wf ?p" using b(2) by (simp add: packet_wf_def)
  note I = insert_as_put [OF b(2), of g bytes seq cnt ticks]
  show ?thesis
  proof (cases "gb_find g seq")
    case None
    then show ?thesis using b I gb.put_new [OF inv wf] gb.put_full [OF inv wf] inv
      by (cases "card (dom (gb_find g)) = N") (auto simp: Let_def)
  next
    case (Some r)
    then show ?thesis using b I gb.put_again [OF inv wf, of r] inv by (simp add: Let_def)
  qed
qed

lemma gap_exec_refines:
  assumes "gap_inv g"
  shows "gap_inv (snd (gap_exec c g)) \<and> map_prod id gb_find (gap_exec c g) = spec_gap c (gb_find g)"
proof (cases c)
  case OpInsert
  then show ?thesis using gap_insert_step [OF assms] by simp
qed (use assms gb.remove_inv gb.lookup_remove gap_inv_clear gb_find_clear in auto)

fun gap_run :: "('c \<Rightarrow> 's \<Rightarrow> 'r \<times> 's) \<Rightarrow> 'c list \<Rightarrow> 's \<Rightarrow> 'r list \<times> 's" where
  "gap_run f [] s = ([], s)"
| "gap_run f (c # cs) s = (let (r, s') = f c s; (rs, t) = gap_run f cs s' in (r # rs, t))"

lemma gap_run_refines:
  "gap_inv g \<Longrightarrow> gap_inv (snd (gap_run gap_exec cs g)) \<and> map_prod id gb_find (gap_run gap_exec cs g) = gap_run spec_gap cs (gb_find g)"
proof (induction cs arbitrary: g)
  case (Cons c cs)
  obtain r g' where E: "gap_exec c g = (r, g')" by (cases "gap_exec c g")
  obtain rs g'' where R: "gap_run gap_exec cs g' = (rs, g'')" by (cases "gap_run gap_exec cs g'")
  have "gap_inv g'" "spec_gap c (gb_find g) = (r, gb_find g')" using gap_exec_refines [OF Cons.prems, of c] E by auto
  moreover have "gap_inv g''" "gap_run spec_gap cs (gb_find g') = (rs, gb_find g'')" using Cons.IH [of g'] calculation(1) R by auto
  ultimately show ?case using E R by simp
qed simp

lemma gb_find_new: "gb_find newGapBuffer = Map.empty"
  by (rule gb_empty_iff [OF gap_inv_new, THEN iffD1]) (simp add: gb_empty_def newGapBuffer_def)

lemma gap_run_new:
  "gap_inv (snd (gap_run gap_exec cs newGapBuffer))"
  "fst (gap_run gap_exec cs newGapBuffer) = fst (gap_run spec_gap cs Map.empty)"
  "gb_find (snd (gap_run gap_exec cs newGapBuffer)) = snd (gap_run spec_gap cs Map.empty)"
  using gap_run_refines [OF gap_inv_new, of cs] unfolding gb_find_new by (auto simp: prod_eq_iff)

section \<open>Properties\<close>

text \<open>C40. The gap buffer is a bounded map of packets. Whatever sequence of \<open>insert\<close>, \<open>erase\<close> and \<open>clear\<close>
  calls runs on a new buffer, every call returns the result of the specification, \<open>find\<close> returns exactly
  the packets the specification holds (the backward shift of a deletion loses none of the others, also in
  a full buffer), \<open>size\<close> is their number and \<open>empty\<close> tells whether there are any.\<close>

theorem gap_buffer_refines_map:
  "fst (gap_run gap_exec cs newGapBuffer) = fst (gap_run spec_gap cs Map.empty) \<and>
   gb_find (snd (gap_run gap_exec cs newGapBuffer)) = snd (gap_run spec_gap cs Map.empty) \<and>
   unat (gb_size (snd (gap_run gap_exec cs newGapBuffer))) = card (dom (snd (gap_run spec_gap cs Map.empty))) \<and>
   gb_empty (snd (gap_run gap_exec cs newGapBuffer)) = (snd (gap_run spec_gap cs Map.empty) = Map.empty)"
  using gap_run_new [of cs] gb_size_exact [OF gap_run_new(1)] gb_empty_iff [OF gap_run_new(1)] by simp

text \<open>The statistics of a buffer that any sequence of operations left: the number of packets, the lowest
  and the highest sequence number held, and the first one at or after the expected sequence, zero when
  there is none (or when it is the largest 64-bit number, which the code cannot tell from none).\<close>

theorem gap_stats_exact:
  assumes "g = snd (gap_run gap_exec cs newGapBuffer)" "m = snd (gap_run spec_gap cs Map.empty)"
  shows "gb_stats g e =
    (if m = Map.empty then \<lparr>st_size = 0, st_min_seq = 0, st_max_seq = 0, st_next_seq_at_or_after = 0\<rparr>
     else \<lparr>st_size = of_nat (card (dom m)), st_min_seq = Min (dom m), st_max_seq = Max (dom m),
           st_next_seq_at_or_after = (let A = {s \<in> dom m. e \<le> s} in if A = {} \<or> Min A = u64_max then 0 else Min A)\<rparr>)"
proof -
  have inv: "gap_inv g" and m: "gb_find g = m"
    using gap_run_new [of cs] assms by simp_all
  have sz: "gb_size g = of_nat (card (dom m))" unfolding m [symmetric] by (simp flip: gb_size_exact [OF inv])
  show ?thesis
  proof (cases "m = Map.empty")
    case True
    then show ?thesis using sz by (simp add: gb_stats_def)
  next
    case False
    then show ?thesis using gb_stats_exact [OF inv, of e] m sz by simp
  qed
qed

theorem gap_stats_exact_witness:
  "gb_stats (snd (gap_run gap_exec [OpInsert (Some [0x41]) 1 7 1 0, OpInsert (Some [0x42]) 1 9 1 0] newGapBuffer)) 8 =
     \<lparr>st_size = 2, st_min_seq = 7, st_max_seq = 9, st_next_seq_at_or_after = 9\<rparr>"
proof -
  let ?cs = "[OpInsert (Some [0x41]) 1 7 1 0, OpInsert (Some [0x42]) 1 9 1 0]"
  have D: "dom (snd (gap_run spec_gap ?cs Map.empty)) = {7, 9}" by (auto simp: Let_def split: if_splits)
  have A: "{s \<in> {7, 9}. 8 \<le> s} = {9 :: u64}" by auto
  have "snd (gap_run spec_gap ?cs Map.empty) \<noteq> Map.empty" using D by force
  then show ?thesis using gap_stats_exact [OF refl refl, of ?cs 8] by (simp only: D A if_False Let_def) simp
qed

end
