(* ===== verification/MoldUdpPackets.thy ===== *)
theory MoldUdpPackets
  imports ItchParserCorrect GapBufferCorrect MoldUdpDecoder
begin

text \<open>
  The packets of the decoder. Validation splits a packet into messages of valid length (\<open>frames\<close>), and the loop over the messages hands
  them to the parser up to the first one it refuses (\<open>run_messages\<close>). The locale \<open>message_sink\<close> states what the decoder relies on.
  \<open>history\<close> relates the state of the parser to the messages that the received packets claim, and the recovery loop is shown
  to return, to apply what is ready and to lose nothing.
\<close>

section \<open>Messages of a packet\<close>

fun frames :: "nat \<Rightarrow> u8 list \<Rightarrow> nat \<Rightarrow> u8 list list" where
  "frames 0 data off = []"
| "frames (Suc n) data off =
     take (unat (mold_readU16BE data off)) (drop (off + 2) data) # frames n data (off + 2 + unat (mold_readU16BE data off))"

definition packet_messages :: "u8 list \<Rightarrow> u16 \<Rightarrow> u8 list list" where
  "packet_messages data msg_count = frames (unat msg_count) data kHeaderSize"

lemma length_frames [simp]: "length (frames n data off) = n" by (induction n arbitrary: off) simp_all

lemma length_packet_messages [simp]: "length (packet_messages data c) = unat c" by (simp add: packet_messages_def)

text \<open>What the validation establishes: every message has the length its type demands, and the packet ends with the
  last message. A framed message has at least fourteen bytes.\<close>

lemma validate_step:
  assumes "validate_loop (Suc n) data off = DecodeOk"
  shows "off + 2 + unat (mold_readU16BE data off) \<le> length data" "valid_message (take (unat (mold_readU16BE data off)) (drop (off + 2) data))"
    "12 \<le> unat (mold_readU16BE data off)"
    "validate_loop n data (off + 2 + unat (mold_readU16BE data off)) = DecodeOk"
proof -
  let ?l = "unat (mold_readU16BE data off)"
  have c: "off + 2 \<le> length data" "?l \<noteq> 0" "?l \<le> length data - (off + 2)" "?l = unat (expectedItchMessageLength (data ! (off + 2)))"
    "validate_loop n data (off + 2 + ?l) = DecodeOk"
    using assms by (auto simp: Let_def split: if_splits)
  show b: "off + 2 + ?l \<le> length data" and "validate_loop n data (off + 2 + ?l) = DecodeOk" using c by auto
  show "12 \<le> ?l" using c(2,4) expected_length_cases [of "data ! (off + 2)"] by auto
  have "take ?l (drop (off + 2) data) ! 0 = data ! (off + 2)" using c(2) b by simp
  then show "valid_message (take ?l (drop (off + 2) data))" using b c(2,4) by (auto simp: valid_message_def min_def)
qed

lemma validate_frames:
  assumes "validate_loop n data off = DecodeOk" "off \<le> length data"
  shows "list_all valid_message (frames n data off)" "off + 14 * n \<le> length data"
  using assms
proof (induction n arbitrary: off)
  case (Suc n)
  { case 1
    show ?case using validate_step [OF 1(1)] Suc(1) by simp
  next
    case 2
    show ?case using validate_step [OF 2(1)] Suc(2) [of "off + 2 + unat (mold_readU16BE data off)"] by simp }
qed simp_all

definition wf_packet :: "u8 list \<Rightarrow> u64 \<Rightarrow> u16 \<Rightarrow> bool" where
  "wf_packet data first cnt \<longleftrightarrow> kHeaderSize \<le> length data \<and> validateSequencedPacket data cnt = DecodeOk \<and>
     unat first + unat cnt < 2 ^ 64 \<and> cnt \<noteq> 0"

lemma wf_packetD:
  assumes "wf_packet data first cnt"
  shows "list_all valid_message (packet_messages data cnt)" "20 + 14 * unat cnt \<le> length data"
    "unat (first + ucast cnt) = unat first + unat cnt" "0 < unat cnt"
proof -
  have v: "validate_loop (unat cnt) data kHeaderSize = DecodeOk" "kHeaderSize \<le> length data"
    using assms by (auto simp: wf_packet_def validateSequencedPacket_def)
  note F = validate_frames [OF v]
  show "list_all valid_message (packet_messages data cnt)" "20 + 14 * unat cnt \<le> length data"
    using F by (simp_all add: packet_messages_def kHeaderSize_def)
  have "unat (ucast cnt :: u64) = unat cnt" using unsigned_less [of cnt, where 'a = nat] by (simp add: unsigned_ucast_eq take_bit_nat_eq_self)
  then show "unat (first + ucast cnt) = unat first + unat cnt" using assms by (simp add: wf_packet_def unat_word_ariths)
  show "0 < unat cnt" using assms by (simp add: wf_packet_def word_neq_0_conv [symmetric] unat_gt_0)
qed

section \<open>Handing messages to the parser\<close>

text \<open>The messages up to the first one that the parser reports.\<close>

fun run_messages :: "('p \<Rightarrow> 'm \<Rightarrow> 'p) \<Rightarrow> ('p \<Rightarrow> bool) \<Rightarrow> 'p \<Rightarrow> 'm list \<Rightarrow> bool \<times> 'p" where
  "run_messages handle refused p [] = (True, p)"
| "run_messages handle refused p (m # ms) =
     (let p' = handle p m in if refused p' then (False, p') else run_messages handle refused p' ms)"

text \<open>What the decoder relies on: the state of the consumer stays consistent under valid messages.\<close>

locale message_sink =
  fixes inv :: "'p \<Rightarrow> bool" and valid :: "'m \<Rightarrow> bool" and handle :: "'p \<Rightarrow> 'm \<Rightarrow> 'p" and refused :: "'p \<Rightarrow> bool"
  assumes handle_inv: "inv p \<Longrightarrow> valid m \<Longrightarrow> inv (handle p m)"
begin

lemma run_inv: "inv p \<Longrightarrow> list_all valid ms \<Longrightarrow> inv (snd (run_messages handle refused p ms))"
  by (induction ms arbitrary: p) (simp_all add: handle_inv Let_def)

lemma run_append:
  "run_messages handle refused p (ms @ ms') =
     (if fst (run_messages handle refused p ms) then run_messages handle refused (snd (run_messages handle refused p ms)) ms'
      else run_messages handle refused p ms)"
  by (induction ms arbitrary: p) (simp_all add: Let_def)

lemma run_all: "fst (run_messages handle refused p ms) \<Longrightarrow> snd (run_messages handle refused p ms) = fold (\<lambda>m p. handle p m) ms p"
  by (induction ms arbitrary: p) (simp_all add: Let_def split: if_splits)

lemma run_prefix: "\<not> fst (run_messages handle refused p ms) \<Longrightarrow>
    \<exists>k < length ms. snd (run_messages handle refused p ms) = fold (\<lambda>m p. handle p m) (take (Suc k) ms) p"
proof (induction ms arbitrary: p)
  case (Cons m ms)
  then show ?case by (cases "refused (handle p m)") (force simp: Let_def)+
qed simp

end

definition parse :: "ItchParser \<Rightarrow> u8 list \<Rightarrow> ItchParser" where
  "parse p m = snd (handlePrevalidatedMessage p m)"

definition parse_refused :: "ItchParser \<Rightarrow> bool" where "parse_refused p \<longleftrightarrow> ip_last_error p \<noteq> []"

interpretation sink: message_sink parser_inv valid_message parse parse_refused
  using handlePrevalidated_refines by unfold_locales (auto simp: parse_def refined_def)

abbreviation run_parser :: "ItchParser \<Rightarrow> u8 list list \<Rightarrow> bool \<times> ItchParser" where
  "run_parser \<equiv> run_messages parse parse_refused"

definition with_parser :: "MoldUdpDecoder \<Rightarrow> ItchParser \<Rightarrow> MoldUdpDecoder" where
  "with_parser d p = d\<lparr>md_parser := p, md_channel := (md_channel d)\<lparr>ch_phase := ip_channel_phase p\<rparr>\<rparr>"

definition phase_synced :: "MoldUdpDecoder \<Rightarrow> bool" where
  "phase_synced d \<longleftrightarrow> ch_phase (md_channel d) = ip_channel_phase (md_parser d)"

lemma with_parser_simps [simp]:
  "md_parser (with_parser d p) = p" "with_parser (with_parser d p) q = with_parser d q" "phase_synced (with_parser d p)"
  "md_terminal_status (with_parser d p) = md_terminal_status d" "md_pending_end_sequence (with_parser d p) = md_pending_end_sequence d"
  "md_first_packet_seen (with_parser d p) = md_first_packet_seen d"
  "md_channel (with_parser d p) = (md_channel d)\<lparr>ch_phase := ip_channel_phase p\<rparr>"
  by (simp_all add: with_parser_def phase_synced_def)

lemma with_parser_same: "phase_synced d \<Longrightarrow> with_parser d (md_parser d) = d"
  by (cases d) (auto simp: with_parser_def phase_synced_def)

lemma process_loop_run:
  assumes "validate_loop n data off = DecodeOk" "unat seq + n < 2 ^ 64" "unat start \<le> unat seq + n" "phase_synced d"
    "run_parser (md_parser d) (drop (unat start - unat seq) (frames n data off)) = (ok, p')"
  shows "fst (process_loop n data off seq start cnt d) = (if ok then Inr (cnt + of_nat (n - (unat start - unat seq))) else Inl InvalidItchMessage)"
    "snd (process_loop n data off seq start cnt d) = (if ok then with_parser d p' else set_status (with_parser d p') Invalid)"
  using assms
proof (induction n arbitrary: off seq cnt d)
  case 0
  { case 1 then show ?case by simp
  next case 2 then show ?case using with_parser_same [of d] by simp }
next
  case (Suc n)
  have both: "fst (process_loop (Suc n) data off seq start cnt d) = (if ok then Inr (cnt + of_nat (Suc n - (unat start - unat seq))) else Inl InvalidItchMessage) \<and>
    snd (process_loop (Suc n) data off seq start cnt d) = (if ok then with_parser d p' else set_status (with_parser d p') Invalid)"
    if A: "validate_loop (Suc n) data off = DecodeOk" "unat seq + Suc n < 2 ^ 64" "unat start \<le> unat seq + Suc n" "phase_synced d"
      "run_parser (md_parser d) (drop (unat start - unat seq) (frames (Suc n) data off)) = (ok, p')" for off seq cnt d
  proof -
    let ?l = "unat (mold_readU16BE data off)" and ?m = "take (unat (mold_readU16BE data off)) (drop (off + 2) data)"
    note V = validate_step [OF A(1)]
    have s1: "unat (seq + 1) = unat seq + 1" using A(2) by (simp add: unat_word_ariths)
    have chk: "\<not> off + 2 > length data" "\<not> (?l = 0 \<or> off + 2 + ?l > length data)" using V(1,3) by auto
    show ?thesis
    proof (cases "start \<le> seq")
      case True
      then have d0: "unat start - unat seq = 0" "unat start - unat (seq + 1) = 0" "unat start - Suc (unat seq) = 0" using s1 by (simp_all add: word_le_nat_alt)
      let ?p = "parse (md_parser d) ?m"
      have L: "process_loop (Suc n) data off seq start cnt d = (if parse_refused ?p then (Inl InvalidItchMessage, set_status (with_parser d ?p) Invalid)
          else process_loop n data (off + 2 + ?l) (seq + 1) start (cnt + 1) (with_parser d ?p))"
        using chk True by (simp add: parse_def parse_refused_def with_parser_def Let_def)
      show ?thesis
      proof (cases "parse_refused ?p")
        case True
        then have "ok = False" "p' = ?p" using A(5) by (auto simp: d0 Let_def)
        then show ?thesis unfolding L using True by simp
      next
        case False
        have run: "run_parser (md_parser (with_parser d ?p)) (drop (unat start - unat (seq + 1)) (frames n data (off + 2 + ?l))) = (ok, p')"
          using A(5) False by (simp add: d0 Let_def)
        have "unat start \<le> unat (seq + 1) + n" using True s1 by (simp add: word_le_nat_alt)
        note IH = Suc [OF V(4) _ this _ run, of "cnt + 1"]
        show ?thesis unfolding L using IH s1 A(2) False by (simp add: d0 del: process_loop.simps)
      qed
    next
      case False
      then have lt: "unat seq < unat start" by (simp add: word_le_nat_alt)
      then have d0: "unat start - unat seq = Suc (unat start - unat (seq + 1))" using s1 by simp
      have L: "process_loop (Suc n) data off seq start cnt d = process_loop n data (off + 2 + ?l) (seq + 1) start cnt d"
        using chk False by (simp add: Let_def)
      have run: "run_parser (md_parser d) (drop (unat start - unat (seq + 1)) (frames n data (off + 2 + ?l))) = (ok, p')"
        using A(5) by (simp add: d0)
      have "unat start \<le> unat (seq + 1) + n" using A(3) s1 by simp
      note IH = Suc [OF V(4) _ this A(4) run, of cnt]
      show ?thesis unfolding L using IH s1 A(2) by (simp add: d0 del: process_loop.simps)
    qed
  qed
  { case 1 show ?case using both [OF 1] by blast
  next case 2 show ?case using both [OF 2] by blast }
qed

lemma processSequencedPacket_run:
  assumes wf: "wf_packet data first cnt" and s: "unat first \<le> unat start" "unat start \<le> unat first + unat cnt" and sync: "phase_synced d"
    and run: "run_parser (md_parser d) (drop (unat start - unat first) (packet_messages data cnt)) = (ok, p')"
    and R: "processSequencedPacket elapsed d data first cnt start ticks = (r, d')"
  shows "dr_status r = (if ok then DecodeOk else InvalidItchMessage)"
    "d' = (if ok then with_parser d p' else set_status (with_parser d p') Invalid)"
proof -
  have v: "validate_loop (unat cnt) data kHeaderSize = DecodeOk" "unat first + unat cnt < 2 ^ 64"
    using wf by (auto simp: wf_packet_def validateSequencedPacket_def)
  note L = process_loop_run [OF v(1) v(2) s(2) sync run [unfolded packet_messages_def], of 0]
  have g: "\<not> (start < first \<or> start > first + ucast cnt)" using s wf_packetD(3) [OF wf] by (simp add: word_less_nat_alt)
  obtain x d1 where x: "process_loop (unat cnt) data kHeaderSize first start 0 d = (x, d1)" by fastforce
  show "dr_status r = (if ok then DecodeOk else InvalidItchMessage)"
    "d' = (if ok then with_parser d p' else set_status (with_parser d p') Invalid)"
    using R g x L by (auto simp: processSequencedPacket_def Let_def split: if_splits)
qed

section \<open>What has been received and what has been applied\<close>

text \<open>The messages a packet claims, by sequence number.\<close>

definition claims :: "u8 list \<Rightarrow> u64 \<Rightarrow> u16 \<Rightarrow> (nat \<times> u8 list) set" where
  "claims data first cnt = {(unat first + k, packet_messages data cnt ! k) | k. k < unat cnt}"

text \<open>The parser has applied one claimed message for every sequence from \<open>init\<close> up to \<open>n\<close>, in order.\<close>

definition history :: "nat \<Rightarrow> ItchParser \<Rightarrow> (nat \<times> u8 list) set \<Rightarrow> ItchParser \<Rightarrow> nat \<Rightarrow> bool" where
  "history init p0 C p n \<longleftrightarrow> (\<exists>ms. run_parser p0 ms = (True, p) \<and> init + length ms = n \<and> (\<forall>k<length ms. (init + k, ms ! k) \<in> C))"

definition failed_history :: "nat \<Rightarrow> ItchParser \<Rightarrow> (nat \<times> u8 list) set \<Rightarrow> ItchParser \<Rightarrow> bool" where
  "failed_history init p0 C p \<longleftrightarrow> (\<exists>ms. run_parser p0 ms = (False, p) \<and> (\<forall>k<length ms. (init + k, ms ! k) \<in> C))"

lemma history_mono: "history init p0 C p n \<Longrightarrow> C \<subseteq> C' \<Longrightarrow> history init p0 C' p n"
  unfolding history_def by blast

lemma failed_history_mono: "failed_history init p0 C p \<Longrightarrow> C \<subseteq> C' \<Longrightarrow> failed_history init p0 C' p"
  unfolding failed_history_def by blast

lemma history_extend:
  assumes h: "history init p0 C p n" and c: "claims data first cnt \<subseteq> C" and s: "unat first \<le> n" "n \<le> unat first + unat cnt"
    and run: "run_parser p (drop (n - unat first) (packet_messages data cnt)) = (ok, p')"
  shows "if ok then history init p0 C p' (unat first + unat cnt) else failed_history init p0 C p'"
proof -
  let ?new = "drop (n - unat first) (packet_messages data cnt)"
  obtain ms where ms: "run_parser p0 ms = (True, p)" "init + length ms = n" "\<forall>k<length ms. (init + k, ms ! k) \<in> C"
    using h unfolding history_def by blast
  have r: "run_parser p0 (ms @ ?new) = (ok, p')" unfolding sink.run_append ms(1) using run by simp
  have "(init + k, (ms @ ?new) ! k) \<in> C" if k: "k < length (ms @ ?new)" for k
  proof (cases "k < length ms")
    case True
    then show ?thesis using ms(3) by (simp add: nth_append)
  next
    case False
    let ?i = "n - unat first + (k - length ms)"
    have i: "?i < unat cnt" "init + k = unat first + ?i" using k False ms(2) s by auto
    have "(unat first + ?i, packet_messages data cnt ! ?i) \<in> C" using c i(1) unfolding claims_def by blast
    then show ?thesis using False i k by (simp add: nth_append)
  qed
  moreover have "init + length (ms @ ?new) = unat first + unat cnt" using ms(2) s by simp
  ultimately show ?thesis using r unfolding history_def failed_history_def by auto
qed

section \<open>The buffered packets\<close>

definition stored_ok :: "(nat \<times> u8 list) set \<Rightarrow> GapBuffer \<Rightarrow> bool" where
  "stored_ok C g \<longleftrightarrow> gap_inv g \<and> (\<forall>s q. gb_find g s = Some q \<longrightarrow> pkt_seq q = s \<and>
     wf_packet (pkt_data q) s (pkt_msg_count q) \<and> unat (pkt_msg_count q) \<le> 144 \<and> claims (pkt_data q) s (pkt_msg_count q) \<subseteq> C)"

lemma stored_okD:
  assumes "stored_ok C g"
  shows "gap_inv g" "gb_find g s = Some q \<Longrightarrow> pkt_seq q = s" "gb_find g s = Some q \<Longrightarrow> wf_packet (pkt_data q) s (pkt_msg_count q)"
    "gb_find g s = Some q \<Longrightarrow> unat (pkt_msg_count q) \<le> 144" "gb_find g s = Some q \<Longrightarrow> claims (pkt_data q) s (pkt_msg_count q) \<subseteq> C"
  using assms unfolding stored_ok_def by blast+

lemma stored_ok_erase: "stored_ok C g \<Longrightarrow> stored_ok C (gb_erase g s)"
  unfolding stored_ok_def using gb.remove_inv [of g s] gb.lookup_remove [of g s] by simp

lemma stored_ok_mono: "stored_ok C g \<Longrightarrow> C \<subseteq> C' \<Longrightarrow> stored_ok C' g"
  unfolding stored_ok_def by blast

lemma stored_ok_new: "stored_ok C newGapBuffer"
  by (simp add: stored_ok_def gap_inv_new gb_find_new)

section \<open>The search for a candidate\<close>

lemma max_messages: "kMaxMessagesPerStoredPacket = 144"
  by (simp add: kMaxMessagesPerStoredPacket_def kMaxPacketSize_def kHeaderSize_def kMinimumFramedItchMessageBytes_def)

lemma candidate_loop_Some:
  "candidate_loop n ch dist = Some q \<Longrightarrow>
     \<exists>k<n. gb_find (ch_gap_buffer ch) (ch_next_expected_seq ch - (dist + of_nat k)) = Some q"
proof (induction n arbitrary: dist)
  case (Suc n)
  show ?case
  proof (cases "gb_find (ch_gap_buffer ch) (ch_next_expected_seq ch - dist)")
    case None
    then obtain k where "k < n" "gb_find (ch_gap_buffer ch) (ch_next_expected_seq ch - (dist + 1 + of_nat k)) = Some q"
      using Suc by auto
    then show ?thesis by (intro exI [of _ "Suc k"]) (simp add: algebra_simps)
  next
    case (Some x)
    then show ?thesis using Suc.prems by (intro exI [of _ 0]) simp
  qed
qed simp

lemma candidate_loop_None:
  "candidate_loop n ch dist = None \<Longrightarrow> k < n \<Longrightarrow> gb_find (ch_gap_buffer ch) (ch_next_expected_seq ch - (dist + of_nat k)) = None"
proof (induction n arbitrary: dist k)
  case (Suc n)
  then have n: "gb_find (ch_gap_buffer ch) (ch_next_expected_seq ch - dist) = None" "candidate_loop n ch (dist + 1) = None"
    by (auto split: option.splits)
  show ?case
  proof (cases k)
    case (Suc j)
    then show ?thesis using Suc.IH [OF n(2), of j] Suc.prems by (simp add: algebra_simps)
  qed (use n in simp)
qed simp

text \<open>A found packet starts at or below the expected sequence, at a distance of at most 144.\<close>

lemma find_candidate_Some:
  assumes "find_candidate ch = Some q"
  obtains s where "gb_find (ch_gap_buffer ch) s = Some q" "s \<le> ch_next_expected_seq ch"
proof -
  let ?e = "ch_next_expected_seq ch"
  obtain k where k: "k < Suc (unat (min ?e 144))" "gb_find (ch_gap_buffer ch) (?e - of_nat k) = Some q"
    using candidate_loop_Some [of "Suc (unat (min ?e kMaxMessagesPerStoredPacket))" ch 0 q] assms
    by (auto simp: find_candidate_def Let_def max_messages)
  have "unat (min ?e 144) \<le> unat ?e" by (simp add: min_def word_le_nat_alt)
  then have "k \<le> unat ?e" using k(1) by simp
  moreover have "unat (of_nat k :: u64) \<le> k" by (simp add: unat_of_nat)
  ultimately have "of_nat k \<le> ?e" by (simp add: word_le_nat_alt)
  then have "?e - of_nat k \<le> ?e" by (rule word_sub_le)
  then show ?thesis using that k(2) by blast
qed

lemma find_candidate_None:
  assumes n: "find_candidate ch = None" and ok: "stored_ok C (ch_gap_buffer ch)" and q: "gb_find (ch_gap_buffer ch) s = Some q"
  shows "unat (ch_next_expected_seq ch) < unat s \<or> unat s + unat (pkt_msg_count q) \<le> unat (ch_next_expected_seq ch)"
proof (rule ccontr)
  let ?e = "ch_next_expected_seq ch"
  assume "\<not> ?thesis"
  then have c: "unat s \<le> unat ?e" "unat ?e < unat s + unat (pkt_msg_count q)" by auto
  let ?k = "unat ?e - unat s"
  have "?k < 144" using c stored_okD(4) [OF ok q] by simp
  moreover have "?k \<le> unat ?e" by simp
  ultimately have "?k < Suc (unat (min ?e 144))" by (simp add: min_def less_Suc_eq_le)
  then have "gb_find (ch_gap_buffer ch) (?e - of_nat ?k) = None"
    using candidate_loop_None [of "Suc (unat (min ?e kMaxMessagesPerStoredPacket))" ch 0 ?k] n
    by (simp add: find_candidate_def Let_def max_messages)
  moreover have "?e - of_nat ?k = s"
    using c(1) by (simp add: of_nat_diff)
  ultimately show False using q by simp
qed

section \<open>Draining the buffer\<close>

abbreviation buf :: "MoldUdpDecoder \<Rightarrow> GapBuffer" where "buf d \<equiv> ch_gap_buffer (md_channel d)"
abbreviation expected_seq :: "MoldUdpDecoder \<Rightarrow> u64" where "expected_seq d \<equiv> ch_next_expected_seq (md_channel d)"

named_theorems decoder_updates \<open>the field updates of the decoder\<close>

lemmas [decoder_updates] = set_status_def set_expected_def set_watermark_def set_buffer_def with_parser_def phase_synced_def

text \<open>What the recovery does not touch; it only takes packets out of the buffer.\<close>

definition same_frame :: "MoldUdpDecoder \<Rightarrow> MoldUdpDecoder \<Rightarrow> bool" where
  "same_frame d d' \<longleftrightarrow> md_first_packet_seen d' = md_first_packet_seen d \<and> md_pending_end_sequence d' = md_pending_end_sequence d \<and>
     md_terminal_status d' = md_terminal_status d \<and> ch_session (md_channel d') = ch_session (md_channel d) \<and>
     ch_heartbeat_next_seq_high_watermark (md_channel d') = ch_heartbeat_next_seq_high_watermark (md_channel d) \<and>
     gb_find (buf d') \<subseteq>\<^sub>m gb_find (buf d)"

lemma same_frame_refl [simp]: "same_frame d d" by (simp add: same_frame_def)

lemma same_frame_trans: "same_frame d d' \<Longrightarrow> same_frame d' d'' \<Longrightarrow> same_frame d d''"
  by (auto simp: same_frame_def intro: map_le_trans)

lemma erase_fewer: "gap_inv g \<Longrightarrow> gb_find (gb_erase g s) \<subseteq>\<^sub>m gb_find g"
  by (simp add: gb.lookup_remove map_le_def)

definition applied_ok :: "nat \<Rightarrow> ItchParser \<Rightarrow> (nat \<times> u8 list) set \<Rightarrow> MoldUdpDecoder \<Rightarrow> bool" where
  "applied_ok init p0 C d \<longleftrightarrow> stored_ok C (buf d) \<and> phase_synced d \<and> history init p0 C (md_parser d) (unat (expected_seq d))"

lemma applied_okD:
  assumes "applied_ok init p0 C d"
  shows "stored_ok C (buf d)" "phase_synced d" "history init p0 C (md_parser d) (unat (expected_seq d))"
  using assms by (auto simp: applied_ok_def)

text \<open>A buffered packet is forgotten only when all its messages have been applied.\<close>

definition kept_packets :: "MoldUdpDecoder \<Rightarrow> MoldUdpDecoder \<Rightarrow> bool" where
  "kept_packets d d' \<longleftrightarrow> expected_seq d \<le> expected_seq d' \<and> (\<forall>s q. gb_find (buf d) s = Some q \<longrightarrow>
     gb_find (buf d') s = Some q \<or> unat s + unat (pkt_msg_count q) \<le> unat (expected_seq d'))"

lemma kept_packets_trans: "kept_packets d d' \<Longrightarrow> kept_packets d' d'' \<Longrightarrow> kept_packets d d''"
  unfolding kept_packets_def word_le_nat_alt by (meson order_trans)

definition nothing_ready :: "MoldUdpDecoder \<Rightarrow> bool" where
  "nothing_ready d \<longleftrightarrow> (\<forall>s q. gb_find (buf d) s = Some q \<longrightarrow>
     unat (expected_seq d) < unat s \<or> unat s + unat (pkt_msg_count q) \<le> unat (expected_seq d))"

definition drain_result :: "nat \<Rightarrow> ItchParser \<Rightarrow> (nat \<times> u8 list) set \<Rightarrow> MoldUdpDecoder \<Rightarrow> DecodeResult \<Rightarrow> MoldUdpDecoder \<Rightarrow> bool" where
  "drain_result init p0 C d r d' \<longleftrightarrow> same_frame d d' \<and>
     (dr_status r = DecodeOk \<and> applied_ok init p0 C d' \<and> ch_status (md_channel d') = ch_status (md_channel d) \<and>
        kept_packets d d' \<and> nothing_ready d' \<or>
      dr_status r = InvalidItchMessage \<and> stored_ok C (buf d') \<and> phase_synced d' \<and> failed_history init p0 C (md_parser d'))"

lemma drain_result_trans:
  assumes "same_frame d d1" "ch_status (md_channel d1) = ch_status (md_channel d)" "kept_packets d d1" "drain_result init p0 C d1 r d'"
  shows "drain_result init p0 C d r d'"
  using assms(2,4) kept_packets_trans [OF assms(3)] same_frame_trans [OF assms(1)] unfolding drain_result_def by auto

text \<open>Dropping a packet whose messages have all been applied.\<close>

lemma drop_stale:
  assumes ok: "applied_ok init p0 C d" and q: "gb_find (buf d) s = Some q"
    and fin: "unat s + unat (pkt_msg_count q) \<le> unat (expected_seq d)"
    and d1: "d1 = set_buffer d (gb_erase (buf d) s)"
  shows "applied_ok init p0 C d1" "same_frame d d1" "ch_status (md_channel d1) = ch_status (md_channel d)" "kept_packets d d1"
proof -
  have L: "gb_find (buf d1) = (gb_find (buf d))(s := None)"
    using gb.lookup_remove [OF stored_okD(1) [OF applied_okD(1) [OF ok]]] by (simp add: d1 decoder_updates)
  show "applied_ok init p0 C d1" using ok stored_ok_erase by (simp add: applied_ok_def d1 decoder_updates)
  show "same_frame d d1" "ch_status (md_channel d1) = ch_status (md_channel d)"
    using erase_fewer [OF stored_okD(1) [OF applied_okD(1) [OF ok]], of s] by (simp_all add: d1 same_frame_def decoder_updates)
  have "expected_seq d1 = expected_seq d" by (simp add: d1 decoder_updates)
  then show "kept_packets d d1" unfolding kept_packets_def L using q fin by auto
qed

text \<open>Applying the tail of a packet that holds the expected sequence. The packet may be a buffered one, which is then removed.\<close>

lemma apply_tail:
  assumes ok: "applied_ok init p0 C d" and wf: "wf_packet data s cnt" and c: "claims data s cnt \<subseteq> C"
    and here: "s \<le> expected_seq d" "unat (expected_seq d) < unat s + unat cnt"
    and R: "processSequencedPacket elapsed d data s cnt (expected_seq d) ticks = (r, d1)"
  shows "\<exists>p'. if dr_status r = DecodeOk then d1 = with_parser d p' \<and> history init p0 C p' (unat s + unat cnt)
     else dr_status r = InvalidItchMessage \<and> d1 = set_status (with_parser d p') Invalid \<and> failed_history init p0 C p'"
proof -
  have s: "unat s \<le> unat (expected_seq d)" using here(1) by (simp add: word_le_nat_alt)
  obtain oks p' where run: "run_parser (md_parser d) (drop (unat (expected_seq d) - unat s) (packet_messages data cnt)) = (oks, p')" by fastforce
  have le: "unat (expected_seq d) \<le> unat s + unat cnt" using here(2) by simp
  note P = processSequencedPacket_run [OF wf s le applied_okD(2) [OF ok] run R]
    and H = history_extend [OF applied_okD(3) [OF ok] c s le run]
  show ?thesis using P H by (intro exI [of _ p']) (simp split: if_splits)
qed


lemma drain_loop_correct:
  "applied_ok init p0 C d \<Longrightarrow> dr_status agg = DecodeOk \<Longrightarrow>
     \<exists>r d'. drain_loop elapsed d agg = Some (r, d') \<and> drain_result init p0 C d r d'"
proof (induction "card (dom (gb_find (buf d)))" arbitrary: d agg rule: less_induct)
  case less
  note ok = less.prems(1) and G = stored_okD [OF applied_okD(1) [OF less.prems(1)]]
  show ?case
  proof (cases "find_candidate (md_channel d)")
    case None
    then have "drain_loop elapsed d agg = Some (agg, d)" by (simp add: drain_loop.simps [of elapsed d agg] Let_def)
    moreover have "nothing_ready d" using find_candidate_None [OF None applied_okD(1) [OF ok]] by (simp add: nothing_ready_def)
    ultimately show ?thesis using ok less.prems(2) by (auto simp: drain_result_def kept_packets_def)
  next
    case (Some q)
    obtain s where q: "gb_find (buf d) s = Some q" "s \<le> expected_seq d" using find_candidate_Some [OF Some] by blast
    have seq: "pkt_seq q = s" by (rule G(2) [OF q(1)])
    note W = wf_packetD [OF G(3) [OF q(1)]]
    let ?finish = "s + ucast (pkt_msg_count q)" and ?g = "gb_erase (buf d) s"
    have smaller: "card (dom (gb_find ?g)) < card (dom (gb_find (buf d)))" by (rule gb.remove_shrinks [OF G(1) q(1)])
    show ?thesis
    proof (cases "?finish \<le> expected_seq d")
      case True
      then have fin: "unat s + unat (pkt_msg_count q) \<le> unat (expected_seq d)" using W(3) by (simp add: word_le_nat_alt)
      let ?d1 = "set_buffer d ?g"
      note D = drop_stale [OF ok q(1) fin refl]
      have "drain_loop elapsed d agg = drain_loop elapsed ?d1 agg"
        using Some True by (simp add: drain_loop.simps [of elapsed d agg] Let_def seq)
      moreover have "buf ?d1 = ?g" by (simp add: decoder_updates)
      ultimately show ?thesis using less.hyps [of ?d1 agg] smaller D less.prems(2) drain_result_trans [OF D(2-4)] by auto
    next
      case False
      then have here: "unat (expected_seq d) < unat s + unat (pkt_msg_count q)" using W(3) by (simp add: word_le_nat_alt)
      obtain r d1 where R: "processSequencedPacket elapsed d (pkt_data q) s (pkt_msg_count q) (expected_seq d) (pkt_receive_start_ticks q) = (r, d1)"
        by fastforce
      obtain p' where P: "if dr_status r = DecodeOk then d1 = with_parser d p' \<and> history init p0 C p' (unat s + unat (pkt_msg_count q))
          else dr_status r = InvalidItchMessage \<and> d1 = set_status (with_parser d p') Invalid \<and> failed_history init p0 C p'"
        using apply_tail [OF ok G(3) [OF q(1)] G(5) [OF q(1)] q(2) here R] by blast
      let ?d2 = "set_buffer d1 (gb_erase (buf d1) s)"
      have L: "drain_loop elapsed d agg = (if dr_status r \<noteq> DecodeOk then Some ((mergeLatency agg r)\<lparr>dr_status := dr_status r\<rparr>, set_status ?d2 Invalid)
          else drain_loop elapsed (set_expected ?d2 ?finish) (mergeLatency agg r))"
        using Some False R by (simp add: drain_loop.simps [of elapsed d agg] Let_def seq)
      show ?thesis
      proof (cases "dr_status r = DecodeOk")
        case True
        let ?d3 = "set_expected ?d2 ?finish"
        have d1: "d1 = with_parser d p'" and h: "history init p0 C p' (unat s + unat (pkt_msg_count q))" using P True by auto
        have b: "buf ?d3 = ?g" "expected_seq ?d3 = ?finish" by (simp_all add: d1 decoder_updates)
        have "applied_ok init p0 C ?d3"
          using h stored_ok_erase [OF applied_okD(1) [OF ok], of s] unfolding applied_ok_def b W(3) by (simp add: d1 decoder_updates)
        moreover have "same_frame d ?d3" "ch_status (md_channel ?d3) = ch_status (md_channel d)"
          using erase_fewer [OF G(1), of s] by (simp_all add: d1 same_frame_def decoder_updates)
        moreover have "kept_packets d ?d3"
          unfolding kept_packets_def b gb.lookup_remove [OF G(1)] using q(1) here W(3) by (auto simp: word_le_nat_alt)
        moreover have "dr_status (mergeLatency agg r) = DecodeOk" using less.prems(2) by (simp add: mergeLatency_def)
        ultimately show ?thesis using less.hyps [of ?d3 "mergeLatency agg r"] smaller L True b drain_result_trans [of d ?d3] by auto
      next
        case False
        then have d1: "d1 = set_status (with_parser d p') Invalid" and h: "failed_history init p0 C p'" "dr_status r = InvalidItchMessage" using P by auto
        have "drain_result init p0 C d ((mergeLatency agg r)\<lparr>dr_status := dr_status r\<rparr>) (set_status ?d2 Invalid)"
          using h stored_ok_erase [OF applied_okD(1) [OF ok], of s] erase_fewer [OF G(1), of s]
          by (simp add: drain_result_def same_frame_def d1 decoder_updates)
        then show ?thesis using L False by auto
      qed
    qed
  qed
qed

end
