(* ===== verification/MoldUdpDecoderInv.thy ===== *)
theory MoldUdpDecoderInv
  imports MoldUdpPackets
begin

text \<open>
  The invariant of the decoder and its preservation by every kind of packet: control packets, packets ahead of the expected sequence, and
  packets that hold it.
\<close>

section \<open>The decoder's invariant\<close>

definition dec_core :: "nat \<Rightarrow> ItchParser \<Rightarrow> (nat \<times> u8 list) set \<Rightarrow> MoldUdpDecoder \<Rightarrow> bool" where
  "dec_core init p0 C d \<longleftrightarrow> stored_ok C (buf d) \<and> phase_synced d \<and>
     ((\<exists>n. history init p0 C (md_parser d) n) \<or> failed_history init p0 C (md_parser d))"

definition session_complete :: "MoldUdpDecoder \<Rightarrow> bool" where
  "session_complete d \<longleftrightarrow> ch_phase (md_channel d) = EndOfMessages \<and> gb_empty (buf d) \<and> ch_heartbeat_next_seq_high_watermark (md_channel d) = 0"

definition dec_inv :: "nat \<Rightarrow> ItchParser \<Rightarrow> (nat \<times> u8 list) set \<Rightarrow> MoldUdpDecoder \<Rightarrow> bool" where
  "dec_inv init p0 C d \<longleftrightarrow> dec_core init p0 C d \<and>
     (md_terminal_status d \<in> {DecodeOk, EndOfStream} \<longrightarrow> history init p0 C (md_parser d) (unat (expected_seq d))) \<and>
     (md_terminal_status d = DecodeOk \<longrightarrow> nothing_ready d) \<and> (md_terminal_status d = EndOfStream \<longrightarrow> session_complete d) \<and>
     (md_terminal_status d \<in> {DecodeOk, EndOfStream} \<or> isTerminalDecodeFailure (md_terminal_status d))"

definition live :: "nat \<Rightarrow> ItchParser \<Rightarrow> (nat \<times> u8 list) set \<Rightarrow> MoldUdpDecoder \<Rightarrow> bool" where
  "live init p0 C d \<longleftrightarrow> applied_ok init p0 C d \<and> nothing_ready d \<and> md_terminal_status d = DecodeOk"

lemma live_inv: "live init p0 C d \<Longrightarrow> dec_inv init p0 C d"
  by (auto simp: live_def dec_inv_def dec_core_def applied_ok_def)

lemma inv_live: "dec_inv init p0 C d \<Longrightarrow> md_terminal_status d = DecodeOk \<Longrightarrow> live init p0 C d"
  by (auto simp: live_def dec_inv_def dec_core_def applied_ok_def)

lemma applied_core: "applied_ok init p0 C d \<Longrightarrow> dec_core init p0 C d"
  by (auto simp: applied_ok_def dec_core_def)

lemma dec_inv_mono: "dec_inv init p0 C d \<Longrightarrow> C \<subseteq> C' \<Longrightarrow> dec_inv init p0 C' d"
  unfolding dec_inv_def dec_core_def
  using history_mono [of init p0 C "md_parser d" _ C'] failed_history_mono [of init p0 C "md_parser d" C'] stored_ok_mono [of C "buf d" C']
  by (auto intro: history_mono)

text \<open>The outcome of a call in a live state: the invariant, the reported status, and progress.\<close>

definition outcome :: "nat \<Rightarrow> ItchParser \<Rightarrow> (nat \<times> u8 list) set \<Rightarrow> MoldUdpDecoder \<Rightarrow> DecodeResult \<times> MoldUdpDecoder \<Rightarrow> bool" where
  "outcome init p0 C d res \<longleftrightarrow> (case res of (r, d') \<Rightarrow> dec_inv init p0 C d' \<and> md_terminal_status d' = dr_status r \<and>
     (dr_status r = DecodeOk \<longrightarrow> kept_packets d d' \<and> (ch_status (md_channel d) = Stale \<longrightarrow> ch_status (md_channel d') = Stale)))"

lemma outcome_failure:
  assumes "dec_core init p0 C d1" "isTerminalDecodeFailure st"
  shows "outcome init p0 C d (terminalFailure d1 st)"
  using assms by (auto simp: outcome_def terminalFailure_def dec_inv_def dec_core_def decoder_updates isTerminalDecodeFailure_def)

lemma terminal_failures [simp]:
  "isTerminalDecodeFailure InvalidSize" "isTerminalDecodeFailure InvalidSequence" "isTerminalDecodeFailure InvalidSession"
  "isTerminalDecodeFailure RedundantFeedMismatch" "isTerminalDecodeFailure InvalidItchMessage" "isTerminalDecodeFailure IncompleteSession"
  "\<not> isTerminalDecodeFailure DecodeOk" "\<not> isTerminalDecodeFailure EndOfStream" "\<not> isTerminalDecodeFailure PacketTooSmall"
  by (simp_all add: isTerminalDecodeFailure_def)

lemma kept_same: "buf d' = buf d \<Longrightarrow> expected_seq d' = expected_seq d \<Longrightarrow> kept_packets d d'"
  by (simp add: kept_packets_def)

text \<open>Changes of the status, the watermark and the pending end leave a live decoder live.\<close>

lemma live_same:
  assumes "live init p0 C d" "buf d' = buf d" "expected_seq d' = expected_seq d" "md_parser d' = md_parser d"
    "ch_phase (md_channel d') = ch_phase (md_channel d)" "md_terminal_status d' = md_terminal_status d"
  shows "live init p0 C d'"
  using assms by (simp add: live_def applied_ok_def nothing_ready_def phase_synced_def)

lemma outcome_same:
  assumes "live init p0 C d" "buf d' = buf d" "expected_seq d' = expected_seq d" "md_parser d' = md_parser d"
    "ch_phase (md_channel d') = ch_phase (md_channel d)" "md_terminal_status d' = md_terminal_status d"
    "ch_status (md_channel d) = Stale \<Longrightarrow> ch_status (md_channel d') = Stale" "dr_status r = DecodeOk"
  shows "outcome init p0 C d (r, d')"
  using live_inv [OF live_same [OF assms(1-6)]] kept_same [OF assms(2,3)] assms by (simp add: outcome_def live_def)

section \<open>Control packets\<close>

lemma processHeartbeat_outcome:
  assumes l: "live init p0 C d"
  shows "outcome init p0 C d (processHeartbeat d first)"
proof -
  have core: "dec_core init p0 C d" using l by (simp add: live_def applied_core)
  show ?thesis
    using outcome_failure [OF core, of InvalidSequence d]
    by (auto simp: processHeartbeat_def Let_def decoder_updates intro!: outcome_same [OF l])
qed

lemma processEndOfSession_outcome:
  assumes l: "live init p0 C d"
  shows "outcome init p0 C d (processEndOfSession d first)"
proof -
  have core: "dec_core init p0 C d" using l by (simp add: live_def applied_core)
  have eos: "outcome init p0 C d (result_of EndOfStream False, d\<lparr>md_terminal_status := EndOfStream\<rparr>)" if "session_complete d"
    using l that by (auto simp: outcome_def dec_inv_def live_def applied_ok_def dec_core_def session_complete_def phase_synced_def)
  note F = outcome_failure [OF core, of InvalidSequence d] outcome_failure [OF core, of IncompleteSession d]
  show ?thesis unfolding processEndOfSession_def Let_def
    using F eos by (auto simp: decoder_updates session_complete_def intro!: outcome_same [OF l])
qed

section \<open>Sequenced packets ahead of the expected sequence\<close>

lemma stored_insert:
  assumes ok: "stored_ok C (buf d)" and wf: "wf_packet data first cnt" and c: "claims data first cnt \<subseteq> C" and len: "length data \<le> 2048"
    and I: "gb_insert (buf d) (Some data) (of_nat (length data)) first cnt ticks = (x, g)"
  shows "stored_ok C g" "x = Inserted \<and> gb_find g = (gb_find (buf d))(first \<mapsto> \<lparr>pkt_seq = first, pkt_receive_start_ticks = ticks,
      pkt_msg_count = cnt, pkt_len = of_nat (length data), pkt_data = data\<rparr>) \<and> gb_find (buf d) first = None \<or>
    g = buf d \<and> (x = DuplicateIdentical \<and> (\<exists>q. gb_find g first = Some q \<and> pkt_msg_count q = cnt \<and> pkt_data q = data) \<or>
      x = ConflictingDuplicate \<or> x = CapacityExceeded)"
proof -
  let ?q = "\<lparr>pkt_seq = first, pkt_receive_start_ticks = ticks, pkt_msg_count = cnt, pkt_len = of_nat (length data) :: u16, pkt_data = data\<rparr>"
  have l: "unat (of_nat (length data) :: u16) = length data" using len by (simp add: unat_of_nat)
  have p: "gb_put (buf d) ?q = (x, g)" "packet_wf ?q"
    using I len by (simp_all add: insert_as_put l packet_wf_def)
  note inv = stored_okD(1) [OF ok]
  have r: "x = Inserted \<and> gap_inv g \<and> gb_find g = (gb_find (buf d))(first \<mapsto> ?q) \<and> gb_find (buf d) first = None \<or>
    g = buf d \<and> (x = DuplicateIdentical \<and> (\<exists>q. gb_find g first = Some q \<and> pkt_msg_count q = cnt \<and> pkt_data q = data) \<or>
      x = ConflictingDuplicate \<or> x = CapacityExceeded)"
  proof (cases "gb_find (buf d) first")
    case None
    show ?thesis
    proof (cases "card (dom (gb_find (buf d))) = N")
      case True
      then show ?thesis using gb.put_full [OF inv p(2)] None p(1) by simp
    next
      case False
      then show ?thesis using gb.put_new [OF inv p(2)] None p(1) by auto
    qed
  next
    case (Some q)
    then show ?thesis using gb.put_again [OF inv p(2), of q] p(1) by (auto simp: same_copy_def split: if_splits)
  qed
  then show "x = Inserted \<and> gb_find g = (gb_find (buf d))(first \<mapsto> ?q) \<and> gb_find (buf d) first = None \<or>
    g = buf d \<and> (x = DuplicateIdentical \<and> (\<exists>q. gb_find g first = Some q \<and> pkt_msg_count q = cnt \<and> pkt_data q = data) \<or>
      x = ConflictingDuplicate \<or> x = CapacityExceeded)" by blast
  have "unat cnt \<le> 144" using wf_packetD(2) [OF wf] len by simp
  then show "stored_ok C g" using r ok wf c unfolding stored_ok_def by (elim disjE) (auto split: if_splits)
qed

definition stored_here :: "MoldUdpDecoder \<Rightarrow> u8 list \<Rightarrow> u64 \<Rightarrow> u16 \<Rightarrow> bool" where
  "stored_here d data first cnt \<longleftrightarrow> (\<exists>q. gb_find (buf d) first = Some q \<and> pkt_msg_count q = cnt \<and> pkt_data q = data)"

lemma bufferPacket_outcome:
  assumes l: "live init p0 C d" and wf: "wf_packet data first cnt" and c: "claims data first cnt \<subseteq> C" and ahead: "expected_seq d < first"
    and R: "bufferPacket d data first cnt ticks = (r, d')"
  shows "outcome init p0 C d (r, d')" "dr_status r = DecodeOk \<Longrightarrow> ch_status (md_channel d') \<noteq> Stale \<Longrightarrow> stored_here d' data first cnt"
proof -
  have ok: "applied_ok init p0 C d" "nothing_ready d" using l by (auto simp: live_def)
  have ahead': "unat (expected_seq d) < unat first" using ahead by (simp add: word_less_nat_alt)
  obtain x g where I: "gb_insert (buf d) (Some data) (of_nat (length data)) first cnt ticks = (x, g)" by fastforce
  have core: "dec_core init p0 C d1" if "buf d1 = buf d" "md_parser d1 = md_parser d" "ch_phase (md_channel d1) = ch_phase (md_channel d)" for d1
    using applied_core [OF ok(1)] that by (simp add: dec_core_def phase_synced_def)
  have "outcome init p0 C d (r, d') \<and> (dr_status r = DecodeOk \<and> ch_status (md_channel d') \<noteq> Stale \<longrightarrow> stored_here d' data first cnt)"
  proof (cases "ch_status (md_channel d) = Stale \<or> length data > 2048")
    case True
    then show ?thesis
    proof (cases "ch_status (md_channel d) = Stale")
      case True
      then have "r = result_of DecodeOk True" "d' = set_status (set_status d GapDetected) Stale" using R by (auto simp: bufferPacket_def Let_def)
      then show ?thesis using outcome_same [OF l, of d' r] by (simp add: decoder_updates)
    next
      case False
      then have "(r, d') = terminalFailure (set_status d GapDetected) InvalidSize" using R True by (simp add: bufferPacket_def kMaxPacketSize_def)
      then show ?thesis using outcome_failure [OF core [of "set_status d GapDetected"], of InvalidSize d] by (simp add: decoder_updates terminalFailure_def)
    qed
  next
    case False
    then have len: "length data \<le> 2048" and ns: "ch_status (md_channel d) \<noteq> Stale" by auto
    note S = stored_insert [OF applied_okD(1) [OF ok(1)] wf c len I]
    let ?d2 = "set_buffer (set_status d GapDetected) g"
    have B: "bufferPacket d data first cnt ticks = (if x = ConflictingDuplicate then
        terminalFailure (?d2\<lparr>md_channel := (md_channel ?d2)\<lparr>ch_conflicting_buffered_redundant_packets :=
          ch_conflicting_buffered_redundant_packets (md_channel ?d2) + 1\<rparr>\<rparr>) RedundantFeedMismatch
       else if x = DuplicateIdentical then
         (result_of DecodeOk True, ?d2\<lparr>md_channel := (md_channel ?d2)\<lparr>ch_identical_buffered_redundant_packets :=
            ch_identical_buffered_redundant_packets (md_channel ?d2) + 1\<rparr>\<rparr>)
       else if x \<noteq> Inserted then (result_of DecodeOk True, set_status ?d2 Stale) else (result_of DecodeOk True, ?d2))"
      using I len ns by (simp add: bufferPacket_def kMaxPacketSize_def Let_def) (simp add: decoder_updates)
    from S(2) consider (ins) "x = Inserted" "gb_find g = (gb_find (buf d))(first \<mapsto> \<lparr>pkt_seq = first, pkt_receive_start_ticks = ticks,
        pkt_msg_count = cnt, pkt_len = of_nat (length data), pkt_data = data\<rparr>)" "gb_find (buf d) first = None"
      | (dup) "x = DuplicateIdentical" "g = buf d" "\<exists>q. gb_find g first = Some q \<and> pkt_msg_count q = cnt \<and> pkt_data q = data"
      | (conflict) "x = ConflictingDuplicate" "g = buf d" | (full) "x = CapacityExceeded" "g = buf d" by (elim disjE conjE)
    then show ?thesis
    proof cases
      case ins
      have d': "r = result_of DecodeOk True" "d' = ?d2" using B ins(1) R by auto
      have "nothing_ready ?d2" using ok(2) ahead' unfolding nothing_ready_def by (simp add: decoder_updates ins(2))
      then have "live init p0 C ?d2" using l S(1) by (simp add: live_def applied_ok_def decoder_updates)
      moreover have "kept_packets d ?d2" unfolding kept_packets_def using ins(2,3) by (simp add: decoder_updates)
      ultimately show ?thesis using live_inv ns by (auto simp: outcome_def d' live_def stored_here_def ins(2) decoder_updates)
    next
      case dup
      have d': "r = result_of DecodeOk True" "d' = ?d2\<lparr>md_channel := (md_channel ?d2)\<lparr>ch_identical_buffered_redundant_packets :=
            ch_identical_buffered_redundant_packets (md_channel ?d2) + 1\<rparr>\<rparr>" using B dup(1) R by auto
      have "outcome init p0 C d (r, d')" by (rule outcome_same [OF l]) (use ns dup(2) in \<open>simp_all add: d' decoder_updates\<close>)
      then show ?thesis using dup(3) by (auto simp: stored_here_def d' decoder_updates)
    next
      case conflict
      let ?d3 = "?d2\<lparr>md_channel := (md_channel ?d2)\<lparr>ch_conflicting_buffered_redundant_packets :=
          ch_conflicting_buffered_redundant_packets (md_channel ?d2) + 1\<rparr>\<rparr>"
      have "(r, d') = terminalFailure ?d3 RedundantFeedMismatch" using B conflict(1) R by simp
      moreover have "outcome init p0 C d (terminalFailure ?d3 RedundantFeedMismatch)"
        by (rule outcome_failure [OF core]) (use conflict(2) in \<open>simp_all add: decoder_updates\<close>)
      ultimately show ?thesis by (auto simp: terminalFailure_def)
    next
      case full
      have d': "r = result_of DecodeOk True" "d' = set_status ?d2 Stale" using B full(1) R by auto
      have "outcome init p0 C d (r, d')" by (rule outcome_same [OF l]) (use ns full(2) in \<open>simp_all add: d' decoder_updates\<close>)
      then show ?thesis by (simp add: d' decoder_updates)
    qed
  qed
  then show "outcome init p0 C d (r, d')" "dr_status r = DecodeOk \<Longrightarrow> ch_status (md_channel d') \<noteq> Stale \<Longrightarrow> stored_here d' data first cnt" by blast+
qed

section \<open>Sequenced packets at the expected sequence\<close>

lemma resolve_outcome:
  assumes ok: "applied_ok init p0 C d" "nothing_ready d" "md_terminal_status d = DecodeOk" and R: "resolvePendingEndOfStream d = (st, d')"
  shows "st = DecodeOk \<and> d' = d \<or> st \<in> {InvalidSequence, IncompleteSession} \<and> d' = d \<or>
    st = EndOfStream \<and> d' = d\<lparr>md_pending_end_sequence := 0, md_terminal_status := EndOfStream\<rparr> \<and> session_complete d"
  using R by (auto simp: resolvePendingEndOfStream_def Let_def session_complete_def split: if_splits)

text \<open>The status and watermark update after a successful recovery.\<close>

definition settle :: "MoldUdpDecoder \<Rightarrow> MoldUdpDecoder" where
  "settle d = (if ch_status (md_channel d) \<noteq> Invalid \<and> ch_status (md_channel d) \<noteq> Stale
     then let d5 = (if ch_heartbeat_next_seq_high_watermark (md_channel d) \<noteq> 0 \<and> expected_seq d \<ge> ch_heartbeat_next_seq_high_watermark (md_channel d)
            then set_watermark d 0 else d)
       in set_status d5 (if gb_empty (buf d5) \<and> ch_heartbeat_next_seq_high_watermark (md_channel d5) = 0 then Good else Recovering)
     else d)"

lemma settle_simps:
  "buf (settle d) = buf d" "expected_seq (settle d) = expected_seq d" "md_parser (settle d) = md_parser d"
  "ch_phase (md_channel (settle d)) = ch_phase (md_channel d)" "md_terminal_status (settle d) = md_terminal_status d"
  "ch_status (md_channel d) = Stale \<Longrightarrow> ch_status (md_channel (settle d)) = Stale"
  by (simp_all add: settle_def Let_def decoder_updates)

lemma applyPacket_unfold:
  "applyPacket elapsed d data first cnt ticks =
     (let expected = expected_seq d; packet_end = first + ucast cnt; start_seq = (if expected > first then expected else first);
          (result, d1) = processSequencedPacket elapsed d data first cnt start_seq ticks
      in if dr_status result \<noteq> DecodeOk then Some (terminalFailure d1 (dr_status result))
         else
           let d2 = (if ch_status (md_channel d1) = GapDetected then set_status d1 Recovering else d1);
               d3 = set_expected d2 packet_end;
               had_gap = (ch_status (md_channel d3) = GapDetected \<or> ch_status (md_channel d3) = Recovering)
           in case drainGapBuffer elapsed d3 of None \<Rightarrow> None
              | Some (drained, d4) \<Rightarrow>
                  if dr_status drained \<noteq> DecodeOk then Some (terminalFailure d4 (dr_status drained))
                  else
                    let result2 = (mergeLatency result drained)\<lparr>dr_had_gap := had_gap\<rparr>;
                        (pending_status, d7) = resolvePendingEndOfStream (settle d4)
                    in if pending_status = DecodeOk then Some (result2, d7)
                       else if pending_status = EndOfStream then Some (result2\<lparr>dr_status := EndOfStream\<rparr>, d7)
                       else Some (terminalFailure d7 pending_status))"
  unfolding applyPacket_def settle_def Let_def by (rule refl)


text \<open>The end of \<open>processPacket\<close> once the packet and the buffer behind it have been applied.\<close>

definition finish :: "DecodeResult \<Rightarrow> MoldUdpDecoder \<Rightarrow> (DecodeResult \<times> MoldUdpDecoder) option" where
  "finish result d = (let (pending_status, d7) = resolvePendingEndOfStream (settle d)
     in if pending_status = DecodeOk then Some (result, d7)
        else if pending_status = EndOfStream then Some (result\<lparr>dr_status := EndOfStream\<rparr>, d7)
        else Some (terminalFailure d7 pending_status))"

lemma finish_outcome:
  assumes ok: "applied_ok init p0 C d4" "nothing_ready d4" "md_terminal_status d4 = DecodeOk" and r: "dr_status r = DecodeOk"
    and k: "kept_packets d d4" and st: "ch_status (md_channel d) = Stale \<Longrightarrow> ch_status (md_channel d4) = Stale" and e: "n \<le> unat (expected_seq d4)"
  shows "\<exists>r' d'. finish r d4 = Some (r', d') \<and> outcome init p0 C d (r', d') \<and> (dr_status r' = DecodeOk \<longrightarrow> n \<le> unat (expected_seq d'))"
proof -
  let ?d6 = "settle d4"
  have l6: "live init p0 C ?d6" using ok by (simp add: live_def applied_ok_def nothing_ready_def phase_synced_def settle_simps)
  note l6D = l6 [unfolded live_def]
  have k6: "kept_packets d ?d6" by (rule kept_packets_trans [OF k kept_same [OF settle_simps(1,2)]])
  obtain s d7 where Q: "resolvePendingEndOfStream ?d6 = (s, d7)" by fastforce
  from resolve_outcome [OF _ _ _ Q] l6D consider (go) "s = DecodeOk" "d7 = ?d6" | (bad) "s \<in> {InvalidSequence, IncompleteSession}" "d7 = ?d6"
    | (eos) "s = EndOfStream" "d7 = ?d6\<lparr>md_pending_end_sequence := 0, md_terminal_status := EndOfStream\<rparr>" "session_complete ?d6" by blast
  then show ?thesis
  proof cases
    case go
    then show ?thesis using Q r live_inv [OF l6] l6D k6 e st settle_simps(2,6) by (simp add: finish_def outcome_def)
  next
    case bad
    then show ?thesis using Q outcome_failure [OF applied_core, of init p0 C ?d6 s d] l6D by (auto simp: finish_def terminalFailure_def)
  next
    case eos
    have "dec_inv init p0 C d7" using eos(2,3) l6D by (auto simp: dec_inv_def dec_core_def applied_ok_def session_complete_def phase_synced_def)
    then show ?thesis using Q eos by (simp add: finish_def outcome_def)
  qed
qed

lemma applyPacket_outcome:
  assumes l: "live init p0 C d" and wf: "wf_packet data first cnt" and c: "claims data first cnt \<subseteq> C"
    and here: "first \<le> expected_seq d" "unat (expected_seq d) < unat first + unat cnt"
  shows "\<exists>r d'. applyPacket elapsed d data first cnt ticks = Some (r, d') \<and> outcome init p0 C d (r, d') \<and>
    (dr_status r = DecodeOk \<longrightarrow> unat first + unat cnt \<le> unat (expected_seq d'))"
proof -
  have ok: "applied_ok init p0 C d" "nothing_ready d" "md_terminal_status d = DecodeOk" using l by (auto simp: live_def)
  have start: "(if expected_seq d > first then expected_seq d else first) = expected_seq d" using here(1) by auto
  obtain r1 d1 where R: "processSequencedPacket elapsed d data first cnt (expected_seq d) ticks = (r1, d1)" by fastforce
  obtain p' where P: "if dr_status r1 = DecodeOk then d1 = with_parser d p' \<and> history init p0 C p' (unat first + unat cnt)
      else dr_status r1 = InvalidItchMessage \<and> d1 = set_status (with_parser d p') Invalid \<and> failed_history init p0 C p'"
    using apply_tail [OF ok(1) wf c here R] by blast
  show ?thesis
  proof (cases "dr_status r1 = DecodeOk")
    case False
    then have A: "applyPacket elapsed d data first cnt ticks = Some (terminalFailure d1 InvalidItchMessage)"
      using P R by (simp add: applyPacket_unfold start)
    have "dec_core init p0 C d1" using P False applied_okD(1) [OF ok(1)] by (simp add: dec_core_def decoder_updates)
    from outcome_failure [OF this, of InvalidItchMessage d] show ?thesis using A by (simp add: terminalFailure_def)
  next
    case True
    then have d1: "d1 = with_parser d p'" and h: "history init p0 C p' (unat first + unat cnt)" using P by auto
    let ?d2 = "if ch_status (md_channel d1) = GapDetected then set_status d1 Recovering else d1"
    let ?d3 = "set_expected ?d2 (first + ucast cnt)"
    have E: "expected_seq ?d3 = first + ucast cnt" "buf ?d3 = buf d" by (simp_all add: d1 decoder_updates)
    have a3: "applied_ok init p0 C ?d3"
      using applied_okD(1) [OF ok(1)] h unfolding applied_ok_def E wf_packetD(3) [OF wf] by (simp add: d1 decoder_updates)
    have k3: "kept_packets d ?d3" unfolding kept_packets_def E using here(2) wf_packetD(3) [OF wf] by (simp add: word_le_nat_alt)
    have s3: "md_terminal_status ?d3 = DecodeOk" "ch_status (md_channel d) = Stale \<Longrightarrow> ch_status (md_channel ?d3) = Stale"
      using ok(3) by (simp_all add: d1 decoder_updates)
    obtain r4 d4 where D: "drainGapBuffer elapsed ?d3 = Some (r4, d4)" "drain_result init p0 C ?d3 r4 d4"
      using drain_loop_correct [OF a3, of "result_of DecodeOk False" elapsed] by (auto simp: drainGapBuffer_def)
    show ?thesis
    proof (cases "dr_status r4 = DecodeOk")
      case False
      then have f: "dr_status r4 = InvalidItchMessage" "dec_core init p0 C d4" using D(2) by (auto simp: drain_result_def dec_core_def)
      have "applyPacket elapsed d data first cnt ticks = Some (terminalFailure d4 InvalidItchMessage)"
        using R True D(1) f(1) unfolding applyPacket_unfold start Let_def by simp
      then show ?thesis using outcome_failure [OF f(2), of InvalidItchMessage d] by (simp add: terminalFailure_def)
    next
      case ok4: True
      then have f: "applied_ok init p0 C d4" "nothing_ready d4" "kept_packets ?d3 d4" "md_terminal_status d4 = DecodeOk"
        "ch_status (md_channel d4) = ch_status (md_channel ?d3)"
        using D(2) s3(1) by (auto simp: drain_result_def same_frame_def)
      let ?r = "(mergeLatency r1 r4)\<lparr>dr_had_gap := (ch_status (md_channel ?d3) = GapDetected \<or> ch_status (md_channel ?d3) = Recovering)\<rparr>"
      have rs: "dr_status ?r = DecodeOk" using True by (simp add: mergeLatency_def)
      have e: "unat first + unat cnt \<le> unat (expected_seq d4)"
        using f(3) wf_packetD(3) [OF wf] unfolding kept_packets_def E by (simp add: word_le_nat_alt)
      have "applyPacket elapsed d data first cnt ticks = finish ?r d4"
        using R True D(1) ok4 unfolding applyPacket_unfold start Let_def finish_def by simp
      then show ?thesis using finish_outcome [OF f(1,2,4) rs kept_packets_trans [OF k3 f(3)] _ e] s3(2) f(5) by simp
    qed
  qed
qed

section \<open>Packets\<close>

text \<open>A sequenced packet that passes the validation.\<close>

definition packet_first :: "u8 list \<Rightarrow> u64" where "packet_first data = mold_readU64BE data 10"
definition packet_count :: "u8 list \<Rightarrow> u16" where "packet_count data = mold_readU16BE data 18"

definition sequenced :: "u8 list \<Rightarrow> bool" where
  "sequenced data \<longleftrightarrow> packet_count data \<noteq> kEndOfSessionMessageCount \<and> wf_packet data (packet_first data) (packet_count data)"

definition view_claims :: "PacketView \<Rightarrow> (nat \<times> u8 list) set" where
  "view_claims v = (case pv_data v of None \<Rightarrow> {}
     | Some data \<Rightarrow> if sequenced data then claims data (packet_first data) (packet_count data) else {})"

text \<open>The messages of a packet have been applied, or it waits in the buffer.\<close>

definition delivered :: "MoldUdpDecoder \<Rightarrow> u8 list \<Rightarrow> bool" where
  "delivered d data \<longleftrightarrow> unat (packet_first data) + unat (packet_count data) \<le> unat (expected_seq d) \<or>
     stored_here d data (packet_first data) (packet_count data)"

lemma delivered_kept: "delivered d data \<Longrightarrow> kept_packets d d' \<Longrightarrow> delivered d' data"
proof -
  assume a: "delivered d data" "kept_packets d d'"
  have le: "unat (expected_seq d) \<le> unat (expected_seq d')" using a(2) by (simp add: kept_packets_def word_le_nat_alt)
  show ?thesis
  proof (cases "stored_here d data (packet_first data) (packet_count data)")
    case True
    then obtain q where q: "gb_find (buf d) (packet_first data) = Some q" "pkt_msg_count q = packet_count data" "pkt_data q = data"
      by (auto simp: stored_here_def)
    then have "gb_find (buf d') (packet_first data) = Some q \<or> unat (packet_first data) + unat (pkt_msg_count q) \<le> unat (expected_seq d')"
      using a(2) q(1) unfolding kept_packets_def by blast
    then show ?thesis using q by (auto simp: delivered_def stored_here_def)
  qed (use a(1) le in \<open>simp add: delivered_def\<close>)
qed

lemma no_wrap: "\<not> first > u64_max - ucast cnt \<longleftrightarrow> unat first + unat cnt < 2 ^ 64" for first :: u64 and cnt :: u16
proof -
  have c: "unat (ucast cnt :: u64) = unat cnt" "unat cnt < 2 ^ 16" using unsigned_less [of cnt, where 'a = nat]
    by (simp_all add: unsigned_ucast_eq take_bit_nat_eq_self)
  have "unat (u64_max - ucast cnt) = 2 ^ 64 - 1 - unat cnt" using c by (subst unat_sub) (simp_all add: word_le_nat_alt)
  then show ?thesis using c(2) by (simp add: word_less_nat_alt) linarith
qed

lemma validate_status: "validateSequencedPacket data cnt \<in> {DecodeOk, InvalidSize, InvalidItchMessage}"
proof -
  have "validate_loop n data off \<in> {DecodeOk, InvalidSize, InvalidItchMessage}" for n off
    by (induction n arbitrary: off) (auto simp: Let_def)
  then show ?thesis by (simp add: validateSequencedPacket_def)
qed

lemma processSequenced_outcome:
  assumes l: "live init p0 C d" and len: "kHeaderSize \<le> length data" and cnt: "cnt \<noteq> 0"
    and c: "wf_packet data first cnt \<Longrightarrow> claims data first cnt \<subseteq> C"
  shows "\<exists>r d'. processSequenced elapsed d data first cnt ticks = Some (r, d') \<and> outcome init p0 C d (r, d') \<and>
    (dr_status r = DecodeOk \<and> ch_status (md_channel d') \<noteq> Stale \<longrightarrow>
       unat first + unat cnt \<le> unat (expected_seq d') \<or> stored_here d' data first cnt)"
proof -
  have core: "dec_core init p0 C d" using l by (simp add: live_def applied_core)
  have failed: "\<exists>r d'. Some (terminalFailure d st) = Some (r, d') \<and> outcome init p0 C d (r, d') \<and> dr_status r \<noteq> DecodeOk"
    if "isTerminalDecodeFailure st" for st
    using outcome_failure [OF core that, of d] that by (auto simp: terminalFailure_def)
  show ?thesis
  proof (cases "first > u64_max - ucast cnt \<or> validateSequencedPacket data cnt \<noteq> DecodeOk \<or>
      md_pending_end_sequence d \<noteq> 0 \<and> first + ucast cnt > md_pending_end_sequence d")
    case True
    then obtain st where "processSequenced elapsed d data first cnt ticks = Some (terminalFailure d st)" "isTerminalDecodeFailure st"
      using validate_status [of data cnt] unfolding processSequenced_def Let_def by (cases "first > u64_max - ucast cnt"; cases "validateSequencedPacket data cnt \<noteq> DecodeOk") auto
    then show ?thesis using failed [of st] by auto
  next
    case False
    then have wf: "wf_packet data first cnt" using len cnt no_wrap [of cnt first] by (simp add: wf_packet_def)
    note W = wf_packetD(3) [OF wf]
    consider (old) "first + ucast cnt \<le> expected_seq d" | (ahead) "\<not> first + ucast cnt \<le> expected_seq d" "first > expected_seq d"
      | (now) "\<not> first + ucast cnt \<le> expected_seq d" "first \<le> expected_seq d" by fastforce
    then show ?thesis
    proof cases
      case old
      then have "processSequenced elapsed d data first cnt ticks = Some (result_of DecodeOk False, d)"
        using False by (auto simp: processSequenced_def Let_def)
      then show ?thesis using outcome_same [OF l, of d "result_of DecodeOk False"] old W by (simp add: word_le_nat_alt)
    next
      case ahead
      obtain r d' where B: "bufferPacket d data first cnt ticks = (r, d')" by fastforce
      have "processSequenced elapsed d data first cnt ticks = Some (r, d')" using False ahead B by (auto simp: processSequenced_def Let_def)
      then show ?thesis using bufferPacket_outcome [OF l wf c [OF wf] ahead(2) B] by simp
    next
      case now
      then have "processSequenced elapsed d data first cnt ticks = applyPacket elapsed d data first cnt ticks"
        using False by (auto simp: processSequenced_def Let_def)
      moreover have "unat (expected_seq d) < unat first + unat cnt" using now(1) W by (simp add: word_le_nat_alt)
      ultimately show ?thesis using applyPacket_outcome [OF l wf c [OF wf] now(2), of elapsed ticks] by fastforce
    qed
  qed
qed


lemma live_first:
  assumes "live init p0 C d" "d1 = (if \<not> md_first_packet_seen d then d\<lparr>md_first_packet_seen := True, md_channel := setSession (md_channel d) data\<rparr> else d)"
  shows "live init p0 C d1" "buf d1 = buf d" "expected_seq d1 = expected_seq d" "ch_status (md_channel d1) = ch_status (md_channel d)"
  using assms(1) by (auto simp: assms(2) live_def applied_ok_def nothing_ready_def phase_synced_def setSession_def)

text \<open>A call of \<open>processPacket\<close> on a consistent decoder returns. It keeps the decoder consistent with the packets received so far, its
  status is the terminal status of the decoder (a datagram too short for a header apart), and on success no received packet is forgotten.\<close>

definition packet_step :: "nat \<Rightarrow> ItchParser \<Rightarrow> (nat \<times> u8 list) set \<Rightarrow> MoldUdpDecoder \<Rightarrow> PacketView \<Rightarrow> DecodeResult \<Rightarrow> MoldUdpDecoder \<Rightarrow> bool" where
  "packet_step init p0 C d v r d' \<longleftrightarrow> dec_inv init p0 (C \<union> view_claims v) d' \<and>
     (dr_status r = md_terminal_status d' \<or> dr_status r = PacketTooSmall \<and> d' = d) \<and>
     (md_terminal_status d \<noteq> DecodeOk \<longrightarrow> d' = d) \<and>
     (md_terminal_status d' = DecodeOk \<longrightarrow> kept_packets d d' \<and> (ch_status (md_channel d) = Stale \<longrightarrow> ch_status (md_channel d') = Stale) \<and>
        (\<forall>data. ch_status (md_channel d') \<noteq> Stale \<longrightarrow> pv_data v = Some data \<longrightarrow> sequenced data \<longrightarrow> delivered d' data))"

lemma packet_step_unchanged:
  assumes "dec_inv init p0 C d" "md_terminal_status d \<noteq> DecodeOk \<or> (\<forall>data. pv_data v = Some data \<longrightarrow> \<not> sequenced data)"
    "dr_status r = md_terminal_status d \<or> dr_status r = PacketTooSmall"
  shows "packet_step init p0 C d v r d"
  using assms dec_inv_mono [OF assms(1), of "C \<union> view_claims v"] by (auto simp: packet_step_def kept_same)

lemma packet_step_outcome:
  assumes "outcome init p0 (C \<union> view_claims v) d1 (r, d')" "buf d1 = buf d" "expected_seq d1 = expected_seq d"
    "ch_status (md_channel d1) = ch_status (md_channel d)" "md_terminal_status d = DecodeOk"
    "\<And>data. dr_status r = DecodeOk \<Longrightarrow> ch_status (md_channel d') \<noteq> Stale \<Longrightarrow> pv_data v = Some data \<Longrightarrow> sequenced data \<Longrightarrow> delivered d' data"
  shows "packet_step init p0 C d v r d'"
  using assms by (auto simp: packet_step_def outcome_def kept_packets_def)

lemma processPacket_step:
  assumes inv: "dec_inv init p0 C d"
  shows "\<exists>r d'. processPacket elapsed d v = Some (r, d') \<and> packet_step init p0 C d v r d'"
proof (cases "md_terminal_status d \<noteq> DecodeOk \<or> pv_data v = None \<or> (\<exists>data. pv_data v = Some data \<and> length data < kHeaderSize)")
  case True
  have "\<exists>r. processPacket elapsed d v = Some (r, d) \<and> (dr_status r = md_terminal_status d \<or> dr_status r = PacketTooSmall)"
    using True by (cases "pv_data v"; cases "md_terminal_status d = DecodeOk") (auto simp: processPacket_def)
  moreover have "md_terminal_status d \<noteq> DecodeOk \<or> (\<forall>data. pv_data v = Some data \<longrightarrow> \<not> sequenced data)"
    using True by (auto simp: sequenced_def wf_packet_def)
  ultimately show ?thesis using packet_step_unchanged [OF inv] by blast
next
  case False
  then obtain data where v: "pv_data v = Some data" and len: "kHeaderSize \<le> length data" and t: "md_terminal_status d = DecodeOk" by auto
  let ?C = "C \<union> view_claims v" and ?cnt = "packet_count data" and ?first = "packet_first data"
  have l: "live init p0 ?C d" by (rule inv_live [OF dec_inv_mono [OF inv] t]) simp
  have core: "dec_core init p0 ?C d" using l by (simp add: live_def applied_core)
  let ?d1 = "if \<not> md_first_packet_seen d then d\<lparr>md_first_packet_seen := True, md_channel := setSession (md_channel d) data\<rparr> else d"
  note F = live_first [OF l refl, of data]
  have P: "processPacket elapsed d v =
     (if (?cnt = 0 \<or> ?cnt = kEndOfSessionMessageCount) \<and> length data \<noteq> kHeaderSize then Some (terminalFailure d InvalidSize)
      else if md_first_packet_seen d \<and> \<not> sessionMatches (md_channel d) data then Some (terminalFailure d InvalidSession)
      else if ?cnt = kEndOfSessionMessageCount then Some (processEndOfSession ?d1 ?first)
      else if ?cnt = 0 then Some (processHeartbeat ?d1 ?first)
      else processSequenced elapsed ?d1 data ?first ?cnt (pv_receive_start_ticks v))"
    using t v len by (simp add: processPacket_def packet_count_def packet_first_def Let_def)
  have control: "packet_step init p0 C d v (fst res) (snd res)"
    if "outcome init p0 ?C ?d1 res" "\<not> sequenced data \<or> dr_status (fst res) \<noteq> DecodeOk" for res
    by (rule packet_step_outcome [OF _ F(2-4) t]) (use that v in auto)
  have failed: "packet_step init p0 C d v (fst (terminalFailure d st)) (snd (terminalFailure d st))" if "st = InvalidSize \<or> st = InvalidSession" for st
    by (rule control) (use outcome_failure [OF core, of st ?d1] that in \<open>auto simp: terminalFailure_def\<close>)
  consider "(?cnt = 0 \<or> ?cnt = kEndOfSessionMessageCount) \<and> length data \<noteq> kHeaderSize \<or> md_first_packet_seen d \<and> \<not> sessionMatches (md_channel d) data"
    | (eos) "processPacket elapsed d v = Some (processEndOfSession ?d1 ?first)" "?cnt = kEndOfSessionMessageCount"
    | (hb) "processPacket elapsed d v = Some (processHeartbeat ?d1 ?first)" "?cnt = 0"
    | (seq) "processPacket elapsed d v = processSequenced elapsed ?d1 data ?first ?cnt (pv_receive_start_ticks v)" "?cnt \<noteq> 0" "?cnt \<noteq> kEndOfSessionMessageCount"
    unfolding P by argo
  then show ?thesis
  proof cases
    case 1
    then have "processPacket elapsed d v = Some (terminalFailure d InvalidSize) \<or> processPacket elapsed d v = Some (terminalFailure d InvalidSession)"
      unfolding P by argo
    then show ?thesis using failed by (metis prod.collapse)
  next
    case eos
    then have "\<not> sequenced data" by (simp add: sequenced_def)
    then show ?thesis using control [OF processEndOfSession_outcome [OF F(1)], of ?first] eos by (metis prod.collapse)
  next
    case hb
    then have "\<not> sequenced data" by (simp add: sequenced_def wf_packet_def)
    then show ?thesis using control [OF processHeartbeat_outcome [OF F(1)], of ?first] hb by (metis prod.collapse)
  next
    case seq
    have c: "claims data ?first ?cnt \<subseteq> ?C" if "wf_packet data ?first ?cnt" using that seq(3) v by (auto simp: view_claims_def sequenced_def)
    obtain r d' where S: "processSequenced elapsed ?d1 data ?first ?cnt (pv_receive_start_ticks v) = Some (r, d')" "outcome init p0 ?C ?d1 (r, d')"
      "dr_status r = DecodeOk \<and> ch_status (md_channel d') \<noteq> Stale \<longrightarrow> unat ?first + unat ?cnt \<le> unat (expected_seq d') \<or> stored_here d' data ?first ?cnt"
      using processSequenced_outcome [OF F(1) len seq(2) c, of elapsed "pv_receive_start_ticks v"] by blast
    have "packet_step init p0 C d v r d'"
      by (rule packet_step_outcome [OF S(2) F(2-4) t]) (use S(3) v in \<open>auto simp: delivered_def\<close>)
    then show ?thesis using S(1) seq(1) by auto
  qed
qed

end
