(* ===== verification/MoldUdpEnd.thy ===== *)
theory MoldUdpEnd
  imports MoldUdpDecoderInv
begin

text \<open>
  The announced end of a session. An end-of-session packet announces the sequence number after the last message; while
  the decoder runs it remembers the one number that was announced, and it accepts the end of the stream at that
  number and at no other.
\<close>

section \<open>Announcements\<close>

definition announced_end :: "PacketView \<Rightarrow> u64 set" where
  "announced_end v = (case pv_data v of None \<Rightarrow> {}
     | Some data \<Rightarrow> if length data = kHeaderSize \<and> packet_count data = kEndOfSessionMessageCount then {packet_first data} else {})"

definition announced_ends :: "PacketView list \<Rightarrow> u64 set" where
  "announced_ends vs = \<Union> (announced_end ` set vs)"

lemma announced_ends_simps [simp]:
  "announced_ends [] = {}" "announced_ends (v # vs) = announced_end v \<union> announced_ends vs"
  by (simp_all add: announced_ends_def)

text \<open>The announcements so far, against the state of a decoder that has not failed.\<close>

definition end_inv :: "u64 set \<Rightarrow> MoldUdpDecoder \<Rightarrow> bool" where
  "end_inv A d \<longleftrightarrow>
     (md_terminal_status d = DecodeOk \<longrightarrow> A = (if md_pending_end_sequence d = 0 then {} else {md_pending_end_sequence d})) \<and>
     (md_terminal_status d = EndOfStream \<longrightarrow> A = {expected_seq d})"

section \<open>What the parts of the decoder do to the pending end\<close>

definition same_end :: "MoldUdpDecoder \<Rightarrow> MoldUdpDecoder \<Rightarrow> bool" where
  "same_end d d' \<longleftrightarrow> md_pending_end_sequence d' = md_pending_end_sequence d \<and> md_terminal_status d' = md_terminal_status d"

lemma same_end_updates [simp]:
  "same_end d (set_status d' st) = same_end d d'" "same_end d (set_expected d' n) = same_end d d'"
  "same_end d (set_watermark d' n) = same_end d d'" "same_end d (set_buffer d' g) = same_end d d'"
  "same_end (set_status d st) d' = same_end d d'" "same_end (set_expected d n) d' = same_end d d'" "same_end (set_buffer d g) d' = same_end d d'"
  "same_end d d"
  by (simp_all add: same_end_def decoder_updates)

lemma same_end_trans: "same_end d d1 \<Longrightarrow> same_end d1 d2 \<Longrightarrow> same_end d d2"
  by (simp add: same_end_def)

definition packet_failures :: "DecodeStatus set" where
  "packet_failures = {InvalidSequence, InvalidSize, InvalidItchMessage}"

lemma process_loop_end:
  "process_loop n data off seq start k d = (x, d') \<Longrightarrow> same_end d d' \<and> (\<forall>st. x = Inl st \<longrightarrow> st \<in> packet_failures)"
proof (induction n arbitrary: off seq k d)
  case (Suc n)
  let ?len = "unat (mold_readU16BE data off)"
  let ?p = "snd (handlePrevalidatedMessage (md_parser d) (take ?len (drop (off + 2) data)))"
  let ?d = "d\<lparr>md_parser := ?p, md_channel := (md_channel d)\<lparr>ch_phase := ip_channel_phase ?p\<rparr>\<rparr>"
  have same: "same_end d ?d" by (simp add: same_end_def)
  consider (size) "off + 2 > length data \<or> ?len = 0 \<or> off + 2 + ?len > length data"
    | (skip) "\<not> (off + 2 > length data \<or> ?len = 0 \<or> off + 2 + ?len > length data)" "\<not> seq \<ge> start"
    | (bad) "\<not> (off + 2 > length data \<or> ?len = 0 \<or> off + 2 + ?len > length data)" "seq \<ge> start" "ip_last_error ?p \<noteq> []"
    | (go) "\<not> (off + 2 > length data \<or> ?len = 0 \<or> off + 2 + ?len > length data)" "seq \<ge> start" "ip_last_error ?p = []"
    by blast
  then show ?case
  proof cases
    case size
    then have "x = Inl InvalidSize \<and> d' = d" using Suc.prems by (auto simp: Let_def split: if_splits)
    then show ?thesis by (simp add: packet_failures_def)
  next
    case skip
    then have "process_loop n data (off + 2 + ?len) (seq + 1) start k d = (x, d')" using Suc.prems by (simp add: Let_def)
    from Suc.IH [OF this] show ?thesis .
  next
    case bad
    then have "x = Inl InvalidItchMessage \<and> d' = set_status ?d Invalid" using Suc.prems by (simp add: Let_def)
    then show ?thesis using same by (simp add: packet_failures_def)
  next
    case go
    then have "process_loop n data (off + 2 + ?len) (seq + 1) start (k + 1) ?d = (x, d')" using Suc.prems by (simp add: Let_def)
    from Suc.IH [OF this] show ?thesis using same_end_trans [OF same] by blast
  qed
qed auto

lemma sequencedPacket_end:
  assumes "processSequencedPacket elapsed d data first cnt start ticks = (r, d')"
  shows "same_end d d'" "dr_status r = DecodeOk \<or> dr_status r \<in> packet_failures"
proof -
  obtain x d1 where l: "process_loop (unat cnt) data kHeaderSize first start 0 d = (x, d1)" by fastforce
  note L = process_loop_end [OF l]
  show "same_end d d'" "dr_status r = DecodeOk \<or> dr_status r \<in> packet_failures"
    using assms l L by (auto simp: processSequencedPacket_def Let_def packet_failures_def split: if_splits sum.splits)
qed

lemma drain_loop_end:
  assumes "drain_loop elapsed d agg = Some res"
  shows "dr_status agg = DecodeOk \<longrightarrow>
     same_end d (snd res) \<and> (dr_status (fst res) = DecodeOk \<or> dr_status (fst res) \<in> packet_failures)"
proof (rule drain_loop.raw_induct
    [where P = "\<lambda>elapsed d agg res. dr_status agg = DecodeOk \<longrightarrow>
       same_end d (snd res) \<and> (dr_status (fst res) = DecodeOk \<or> dr_status (fst res) \<in> packet_failures)", OF _ assms],
    rule impI, goal_cases)
  case (1 loop elapsed d agg res)
  show ?case
  proof (cases "find_candidate (md_channel d)")
    case None
    then show ?thesis using 1 by (auto simp: Let_def)
  next
    case (Some q)
    obtain r1 d1 where R: "processSequencedPacket elapsed d (pkt_data q) (pkt_seq q) (pkt_msg_count q) (expected_seq d) (pkt_receive_start_ticks q) = (r1, d1)"
      by fastforce
    note S = sequencedPacket_end [OF R]
    have ih: "same_end d2 (snd res) \<and> (dr_status (fst res) = DecodeOk \<or> dr_status (fst res) \<in> packet_failures)"
      if "loop elapsed d2 agg2 = Some res" "dr_status agg2 = DecodeOk" for d2 agg2
      using 1(1) that by blast
    show ?thesis
    proof (cases "pkt_seq q + ucast (pkt_msg_count q) \<le> expected_seq d")
      case True
      then show ?thesis using ih [of "set_buffer d (gb_erase (buf d) (pkt_seq q))" agg] 1(2,3) Some by (simp add: Let_def)
    next
      case False
      show ?thesis
      proof (cases "dr_status r1 = DecodeOk")
        case True
        then show ?thesis
          using ih [of "set_expected (set_buffer d1 (gb_erase (buf d1) (pkt_seq q))) (pkt_seq q + ucast (pkt_msg_count q))" "mergeLatency agg r1"]
            1(2,3) Some False R S(1) same_end_trans [OF S(1)] by (auto simp: Let_def mergeLatency_def)
      next
        case nok: False
        then show ?thesis using 1(2,3) Some False R S by (auto simp: Let_def)
      qed
    qed
  qed
qed

lemma failure_end: "terminalFailure d st = (r, d') \<Longrightarrow> md_terminal_status d' = st"
  by (auto simp: terminalFailure_def)

text \<open>A sequenced packet keeps the pending end; it ends the stream only at the pending end.\<close>

definition keeps_end :: "MoldUdpDecoder \<Rightarrow> MoldUdpDecoder \<Rightarrow> bool" where
  "keeps_end d d' \<longleftrightarrow> (md_terminal_status d' = DecodeOk \<longrightarrow> md_pending_end_sequence d' = md_pending_end_sequence d) \<and>
     (md_terminal_status d' = EndOfStream \<longrightarrow> md_pending_end_sequence d \<noteq> 0 \<and> expected_seq d' = md_pending_end_sequence d)"

lemma keeps_failure: "st \<in> packet_failures \<union> {IncompleteSession, RedundantFeedMismatch, InvalidSession} \<Longrightarrow> keeps_end d (snd (terminalFailure d1 st))"
  by (auto simp: keeps_end_def terminalFailure_def packet_failures_def)

lemma keeps_same: "same_end d d' \<Longrightarrow> md_terminal_status d = DecodeOk \<Longrightarrow> keeps_end d d'"
  by (simp add: keeps_end_def same_end_def)

lemma resolve_end:
  assumes "resolvePendingEndOfStream d = (st, d')" "md_terminal_status d = DecodeOk"
  shows "st = DecodeOk \<and> d' = d \<or> st \<in> {InvalidSequence, IncompleteSession} \<or>
    st = EndOfStream \<and> md_terminal_status d' = EndOfStream \<and> md_pending_end_sequence d \<noteq> 0 \<and> expected_seq d' = md_pending_end_sequence d"
  using assms by (auto simp: resolvePendingEndOfStream_def Let_def split: if_splits)

lemma settle_end: "same_end d (settle d)"
  by (simp add: settle_def Let_def same_end_def decoder_updates)

lemma applyPacket_end:
  assumes a: "applyPacket elapsed d data first cnt ticks = Some (r, d')" and t: "md_terminal_status d = DecodeOk"
  shows "keeps_end d d'"
proof -
  define start where "start = (if expected_seq d > first then expected_seq d else first)"
  obtain r1 d1 where R: "processSequencedPacket elapsed d data first cnt start ticks = (r1, d1)" by fastforce
  note S = sequencedPacket_end [OF R]
  note A = a [unfolded applyPacket_unfold Let_def start_def [symmetric] R prod.case]
  show ?thesis
  proof (cases "dr_status r1 = DecodeOk")
    case False
    then show ?thesis using A S(2) keeps_failure [of "dr_status r1" d d1] by auto
  next
    case True
    let ?d3 = "set_expected (if ch_status (md_channel d1) = GapDetected then set_status d1 Recovering else d1) (first + ucast cnt)"
    have s3: "same_end d ?d3" using S(1) by simp
    obtain r4 d4 where D: "drainGapBuffer elapsed ?d3 = Some (r4, d4)" using A True by (auto split: option.splits)
    have s4: "same_end d d4" "dr_status r4 = DecodeOk \<or> dr_status r4 \<in> packet_failures"
      using drain_loop_end [of elapsed ?d3 "result_of DecodeOk False" "(r4, d4)"] D same_end_trans [OF s3] by (auto simp: drainGapBuffer_def)
    note A1 = A [unfolded D option.case prod.case]
    show ?thesis
    proof (cases "dr_status r4 = DecodeOk")
      case False
      then show ?thesis using A1 True s4(2) keeps_failure [of "dr_status r4" d d4] by auto
    next
      case ok: True
      obtain st d7 where Q: "resolvePendingEndOfStream (settle d4) = (st, d7)" by fastforce
      have s6: "same_end d (settle d4)" by (rule same_end_trans [OF s4(1) settle_end])
      then have t6: "md_terminal_status (settle d4) = DecodeOk" "md_pending_end_sequence (settle d4) = md_pending_end_sequence d"
        using t by (simp_all add: same_end_def)
      from resolve_end [OF Q t6(1)] show ?thesis
      proof (elim disjE conjE)
        assume "st = DecodeOk" "d7 = settle d4"
        then show ?thesis using A1 True ok Q keeps_same [OF s6 t] by simp
      next
        assume "st \<in> {InvalidSequence, IncompleteSession}"
        then show ?thesis using A1 True ok Q keeps_failure [of st d d7] by (auto simp: packet_failures_def)
      next
        assume "st = EndOfStream" "md_terminal_status d7 = EndOfStream" "md_pending_end_sequence (settle d4) \<noteq> 0"
          "expected_seq d7 = md_pending_end_sequence (settle d4)"
        then show ?thesis using A1 True ok Q t6(2) by (simp add: keeps_end_def)
      qed
    qed
  qed
qed

lemma bufferPacket_end:
  assumes "md_terminal_status d = DecodeOk"
  shows "keeps_end d (snd (bufferPacket d data first cnt ticks))"
proof -
  obtain x g where I: "gb_insert (buf d) (Some data) (of_nat (length data)) first cnt ticks = (x, g)" by fastforce
  show ?thesis
    using assms I keeps_failure [of InvalidSize d] keeps_failure [of RedundantFeedMismatch d]
    by (simp add: bufferPacket_def Let_def packet_failures_def) (simp add: keeps_end_def decoder_updates)
qed

lemma processSequenced_end:
  assumes "processSequenced elapsed d data first cnt ticks = Some (r, d')" "md_terminal_status d = DecodeOk"
  shows "keeps_end d d'"
proof -
  have v: "validateSequencedPacket data cnt \<noteq> DecodeOk \<Longrightarrow> validateSequencedPacket data cnt \<in> packet_failures"
    using validate_status [of data cnt] by (auto simp: packet_failures_def)
  note F = keeps_failure [of InvalidSequence d d] keeps_failure [of "validateSequencedPacket data cnt" d d]
  show ?thesis
    using assms v F applyPacket_end [of elapsed d data first cnt ticks r d'] bufferPacket_end [OF assms(2), of data first cnt ticks]
      keeps_same [of d d]
    by (auto simp: processSequenced_def Let_def packet_failures_def split: if_splits)
qed

section \<open>The end of the stream\<close>

lemma processHeartbeat_end: "md_terminal_status d = DecodeOk \<Longrightarrow> keeps_end d (snd (processHeartbeat d first))"
  using keeps_failure [of InvalidSequence d d]
  by (simp add: processHeartbeat_def Let_def packet_failures_def) (simp add: keeps_end_def decoder_updates)

lemma processEndOfSession_end:
  assumes "end_inv A d" "md_terminal_status d = DecodeOk"
  shows "end_inv (insert first A) (snd (processEndOfSession d first))"
proof -
  have A: "A = (if md_pending_end_sequence d = 0 then {} else {md_pending_end_sequence d})" using assms by (simp add: end_inv_def)
  have nz: "first \<noteq> 0" if "first > expected_seq d" using that by auto
  have bad: "end_inv B (snd (terminalFailure d st))" if "st = InvalidSequence \<or> st = IncompleteSession" for B st
    using that by (auto simp: end_inv_def terminalFailure_def)
  show ?thesis
    using A nz bad assms(2)
    by (auto simp: processEndOfSession_def Let_def) (auto simp: end_inv_def decoder_updates not_less)
qed

lemma processPacket_end:
  assumes inv: "end_inv A d" and t: "md_terminal_status d = DecodeOk" and p: "processPacket elapsed d v = Some (r, d')"
  shows "end_inv (A \<union> announced_end v) d'"
proof (cases "pv_data v = None \<or> (\<exists>data. pv_data v = Some data \<and> length data < kHeaderSize)")
  case True
  then have "d' = d" "announced_end v = {}" using p t by (auto simp: processPacket_def announced_end_def)
  then show ?thesis using inv by simp
next
  case False
  then obtain data where v: "pv_data v = Some data" and len: "\<not> length data < kHeaderSize" by auto
  let ?cnt = "packet_count data" and ?first = "packet_first data"
  let ?d1 = "if \<not> md_first_packet_seen d then d\<lparr>md_first_packet_seen := True, md_channel := setSession (md_channel d) data\<rparr> else d"
  define d1 where "d1 = ?d1"
  have d1: "end_inv A d1" "md_terminal_status d1 = DecodeOk" using inv t by (simp_all add: d1_def end_inv_def)
  have "processPacket elapsed d v =
     (if (?cnt = 0 \<or> ?cnt = kEndOfSessionMessageCount) \<and> length data \<noteq> kHeaderSize then Some (terminalFailure d InvalidSize)
      else if md_first_packet_seen d \<and> \<not> sessionMatches (md_channel d) data then Some (terminalFailure d InvalidSession)
      else if ?cnt = kEndOfSessionMessageCount then Some (processEndOfSession ?d1 ?first)
      else if ?cnt = 0 then Some (processHeartbeat ?d1 ?first)
      else processSequenced elapsed ?d1 data ?first ?cnt (pv_receive_start_ticks v))"
    using t v len by (simp add: processPacket_def packet_count_def packet_first_def Let_def)
  note P = p [unfolded this, folded d1_def]
  have failed: "end_inv B (snd (terminalFailure d st))" if "st = InvalidSize \<or> st = InvalidSession" for B st
    using that by (auto simp: end_inv_def terminalFailure_def)
  have kept: "end_inv A e" if "keeps_end d1 e" for e
    using that d1(1,2) by (auto simp: end_inv_def keeps_end_def split: if_splits)
  consider (bad) st where "terminalFailure d st = (r, d')" "st = InvalidSize \<or> st = InvalidSession"
    | (eos) "?cnt = kEndOfSessionMessageCount" "length data = kHeaderSize" "processEndOfSession d1 ?first = (r, d')"
    | (hb) "?cnt \<noteq> kEndOfSessionMessageCount" "processHeartbeat d1 ?first = (r, d')"
    | (seq) "?cnt \<noteq> kEndOfSessionMessageCount" "processSequenced elapsed d1 data ?first ?cnt (pv_receive_start_ticks v) = Some (r, d')"
    using P by (auto split: if_splits)
  then show ?thesis
  proof cases
    case bad
    then show ?thesis using failed by (metis snd_conv)
  next
    case eos
    then show ?thesis using processEndOfSession_end [OF d1(1,2), of ?first] v by (simp add: announced_end_def)
  next
    case hb
    then have "announced_end v = {}" using v by (simp add: announced_end_def)
    then show ?thesis using kept [of d'] processHeartbeat_end [OF d1(2), of ?first] hb(2) by simp
  next
    case seq
    then have "announced_end v = {}" using v by (simp add: announced_end_def)
    then show ?thesis using kept [OF processSequenced_end [OF seq(2) d1(2)]] by simp
  qed
qed

end
