(* ===== verification/MoldUdpClean.thy ===== *)
theory MoldUdpClean
  imports MoldUdpEnd
begin

text \<open>
  Streams on which the decoder cannot fail. The packets are sequenced packets of one session that fit a buffer slot, packets with the same first number are
  copies of each other, there are at most as many different packets as the gap buffer has slots, and the parser refuses none of the
  messages. In whatever order and however often they arrive, the decoder goes on and drops nothing.
\<close>

section \<open>Numbered messages\<close>

definition numbered :: "nat \<Rightarrow> u8 list list \<Rightarrow> (nat \<times> u8 list) set" where
  "numbered n ms = {(n + k, ms ! k) | k. k < length ms}"

lemma numbered_append: "numbered n (ms @ ms') = numbered n ms \<union> numbered (n + length ms) ms'"
proof -
  have "(n + k, (ms @ ms') ! k) \<in> numbered n ms \<union> numbered (n + length ms) ms'" if "k < length (ms @ ms')" for k
    using that by (cases "k < length ms") (force simp: numbered_def nth_append intro: exI [of _ "k - length ms"])+
  moreover have "(n + length ms + k, ms' ! k) \<in> numbered n (ms @ ms')" if "k < length ms'" for k
    unfolding numbered_def using that by (auto intro!: exI [of _ "length ms + k"])
  moreover have "(n + k, ms ! k) \<in> numbered n (ms @ ms')" if "k < length ms" for k
    unfolding numbered_def using that by (auto simp: nth_append intro!: exI [of _ k])
  ultimately show ?thesis unfolding numbered_def by blast
qed

lemma numbered_fst: "fst ` numbered n ms = {n ..< n + length ms}"
proof -
  have "numbered n ms = (\<lambda>k. (n + k, ms ! k)) ` {0 ..< length ms}" by (auto simp: numbered_def)
  then have "fst ` numbered n ms = (+) n ` {0 ..< length ms}" by (simp add: image_image)
  then show ?thesis by (simp add: add.commute)
qed

lemma numbered_single_valued: "single_valued (numbered n ms)"
  by (auto simp: single_valued_def numbered_def)

lemma numbered_inject: "numbered n ms = numbered n ms' \<Longrightarrow> ms = ms'"
proof -
  assume eq: "numbered n ms = numbered n ms'"
  have "{n ..< n + length ms} = {n ..< n + length ms'}" using arg_cong [OF eq, of "image fst"] unfolding numbered_fst .
  from arg_cong [OF this, of card] have l: "length ms = length ms'" by simp
  have "ms ! k = ms' ! k" if "k < length ms" for k
  proof -
    have "(n + k, ms ! k) \<in> numbered n ms" using that by (auto simp: numbered_def)
    then have "(n + k, ms ! k) \<in> numbered n ms'" by (simp only: eq)
    then show ?thesis by (auto simp: numbered_def)
  qed
  then show ?thesis using l by (simp add: list_eq_iff_nth_eq)
qed

lemma numbered_claims: "sequenced data \<Longrightarrow> pv_data v = Some data \<Longrightarrow>
    view_claims v = numbered (unat (packet_first data)) (packet_messages data (packet_count data))"
  by (simp add: view_claims_def claims_def numbered_def)

text \<open>Messages that the parser accepts leave no way to a refusal.\<close>

lemma accepted_no_failure:
  assumes "fst (run_parser p0 ms)" "C \<subseteq> numbered init ms"
  shows "\<not> failed_history init p0 C p"
proof
  assume "failed_history init p0 C p"
  then obtain ms' where m: "run_parser p0 ms' = (False, p)" "\<forall>k<length ms'. (init + k, ms' ! k) \<in> C" unfolding failed_history_def by blast
  have in_ms: "k < length ms \<and> ms' ! k = ms ! k" if "k < length ms'" for k
    using m(2) that assms(2) by (auto simp: numbered_def)
  then have "length ms' \<le> length ms" by (meson leI less_irrefl)
  then have "ms = ms' @ drop (length ms') ms"
    using in_ms by (intro nth_equalityI) (auto simp: nth_append)
  then have "run_parser p0 ms = (False, p)" using sink.run_append [of p0 ms' "drop (length ms') ms"] m(1) by simp
  then show False using assms(1) by simp
qed

section \<open>States without a failure\<close>

definition clean_packets :: "u8 list \<Rightarrow> u8 list set \<Rightarrow> bool" where
  "clean_packets session D \<longleftrightarrow> length session = 10 \<and> finite D \<and> card D \<le> unat kCapacity \<and> inj_on packet_first D \<and>
     (\<forall>data \<in> D. sequenced data \<and> take 10 data = session \<and> length data \<le> 2048)"

definition clean_copy :: "u8 list set \<Rightarrow> u64 \<Rightarrow> SequencedPacket \<Rightarrow> bool" where
  "clean_copy D s q \<longleftrightarrow> pkt_data q \<in> D \<and> s = packet_first (pkt_data q) \<and>
     pkt_msg_count q = packet_count (pkt_data q) \<and> pkt_len q = of_nat (length (pkt_data q))"

definition clean_state :: "u8 list \<Rightarrow> u8 list set \<Rightarrow> MoldUdpDecoder \<Rightarrow> bool" where
  "clean_state session D d \<longleftrightarrow> md_terminal_status d = DecodeOk \<and> md_pending_end_sequence d = 0 \<and>
     ch_status (md_channel d) \<noteq> Stale \<and> ch_status (md_channel d) \<noteq> Invalid \<and>
     (md_first_packet_seen d \<longrightarrow> take 10 (ch_session (md_channel d)) = session) \<and>
     (\<forall>s q. gb_find (buf d) s = Some q \<longrightarrow> clean_copy D s q)"

lemma clean_state_new: "clean_state session D (newMoldUdpDecoder symbols books ch start)"
  by (simp add: clean_state_def newMoldUdpDecoder_def newChannelState_def gb_find_new)

lemma clean_state_fewer:
  assumes "clean_state session D d" "same_frame d d'" "ch_status (md_channel d') \<noteq> Stale" "ch_status (md_channel d') \<noteq> Invalid"
  shows "clean_state session D d'"
proof -
  have "gb_find (buf d) s = Some q" if "gb_find (buf d') s = Some q" for s q
    using assms(2) that unfolding same_frame_def map_le_def by (metis domI)
  then show ?thesis using assms unfolding clean_state_def same_frame_def by simp
qed

lemma settle_clean:
  assumes "clean_state session D d"
  shows "clean_state session D (settle d)" "resolvePendingEndOfStream (settle d) = (DecodeOk, settle d)"
proof -
  show c: "clean_state session D (settle d)"
    using assms by (simp add: clean_state_def settle_def Let_def decoder_updates)
  then show "resolvePendingEndOfStream (settle d) = (DecodeOk, settle d)" by (simp add: clean_state_def resolvePendingEndOfStream_def)
qed

section \<open>Packets on such a state\<close>

lemma applyPacket_clean:
  assumes l: "live init p0 C d" and wf: "wf_packet data first cnt" and c: "claims data first cnt \<subseteq> C"
    and here: "first \<le> expected_seq d" "unat (expected_seq d) < unat first + unat cnt"
    and ok: "clean_state session D d" and nf: "\<And>p. \<not> failed_history init p0 C p"
  shows "\<exists>r d'. applyPacket elapsed d data first cnt ticks = Some (r, d') \<and> clean_state session D d'"
proof -
  have a: "applied_ok init p0 C d" "md_terminal_status d = DecodeOk" using l by (auto simp: live_def)
  have start: "(if expected_seq d > first then expected_seq d else first) = expected_seq d" using here(1) by auto
  obtain r1 d1 where R: "processSequencedPacket elapsed d data first cnt (expected_seq d) ticks = (r1, d1)" by fastforce
  obtain p' where P: "dr_status r1 = DecodeOk" "d1 = with_parser d p'" "history init p0 C p' (unat first + unat cnt)"
    using apply_tail [OF a(1) wf c here R] nf by (metis (full_types))
  let ?d3 = "set_expected (if ch_status (md_channel d1) = GapDetected then set_status d1 Recovering else d1) (first + ucast cnt)"
  have E: "expected_seq ?d3 = first + ucast cnt" "buf ?d3 = buf d" by (simp_all add: P(2) decoder_updates)
  have a3: "applied_ok init p0 C ?d3"
    using applied_okD(1) [OF a(1)] P(3) unfolding applied_ok_def E wf_packetD(3) [OF wf] by (simp add: P(2) decoder_updates)
  have c3: "clean_state session D ?d3" using ok by (simp add: clean_state_def P(2) decoder_updates)
  obtain r4 d4 where D: "drainGapBuffer elapsed ?d3 = Some (r4, d4)" "drain_result init p0 C ?d3 r4 d4"
    using drain_loop_correct [OF a3, of "result_of DecodeOk False" elapsed] by (auto simp: drainGapBuffer_def)
  then have r4: "dr_status r4 = DecodeOk" "same_frame ?d3 d4" "ch_status (md_channel d4) = ch_status (md_channel ?d3)"
    using nf by (auto simp: drain_result_def)
  have c4: "clean_state session D d4" by (rule clean_state_fewer [OF c3 r4(2)]) (use c3 r4(3) in \<open>simp_all add: clean_state_def\<close>)
  note S = settle_clean [OF c4]
  have "\<exists>r. applyPacket elapsed d data first cnt ticks = Some (r, settle d4)"
    using R P(1) D(1) r4(1) S(2) unfolding applyPacket_unfold start Let_def by simp
  then show ?thesis using S(1) by blast
qed

text \<open>There is always room for one more of the packets.\<close>

lemma clean_room:
  assumes D: "clean_packets session D" and ok: "clean_state session D d" and data: "data \<in> D"
    and n: "gb_find (buf d) (packet_first data) = None"
  shows "card (dom (gb_find (buf d))) < 1024 * 1024"
proof -
  have "dom (gb_find (buf d)) \<subseteq> packet_first ` (D - {data})"
  proof
    fix s assume "s \<in> dom (gb_find (buf d))"
    then obtain q where q: "gb_find (buf d) s = Some q" by blast
    then have "pkt_data q \<in> D" "s = packet_first (pkt_data q)" using ok by (auto simp: clean_state_def clean_copy_def)
    moreover have "pkt_data q \<noteq> data" using q n calculation(2) by auto
    ultimately show "s \<in> packet_first ` (D - {data})" by blast
  qed
  moreover have fin: "finite D" "card D \<le> 1024 * 1024" using D by (simp_all add: clean_packets_def kCapacity_def)
  ultimately have "card (dom (gb_find (buf d))) \<le> card (D - {data})" using surj_card_le [of "D - {data}"] by blast
  also have "card (D - {data}) < card D" using data fin(1) by (intro card_Diff1_less)
  finally show ?thesis using fin(2) by simp
qed

lemma bufferPacket_clean:
  assumes D: "clean_packets session D" and ok: "clean_state session D d" and data: "data \<in> D" and g: "gap_inv (buf d)"
  shows "clean_state session D (snd (bufferPacket d data (packet_first data) (packet_count data) ticks))"
proof -
  let ?q = "\<lparr>pkt_seq = packet_first data, pkt_receive_start_ticks = ticks, pkt_msg_count = packet_count data,
    pkt_len = of_nat (length data) :: u16, pkt_data = data\<rparr>"
  have len: "length data \<le> 2048" using D data by (simp add: clean_packets_def)
  then have l: "unat (of_nat (length data) :: u16) = length data" by (simp add: unat_of_nat)
  have put: "gb_insert (buf d) (Some data) (of_nat (length data)) (packet_first data) (packet_count data) ticks = gb_put (buf d) ?q" "packet_wf ?q"
    using len by (simp_all add: insert_as_put l packet_wf_def)
  have "\<exists>g'. gb_put (buf d) ?q = (Inserted, g') \<and> gb_find g' = (gb_find (buf d))(packet_first data \<mapsto> ?q) \<or>
    gb_put (buf d) ?q = (DuplicateIdentical, g') \<and> g' = buf d"
  proof (cases "gb_find (buf d) (packet_first data)")
    case None
    then show ?thesis using gb.put_new [OF g put(2)] clean_room [OF D ok data None] by auto
  next
    case (Some q)
    then have q: "pkt_data q \<in> D" "packet_first data = packet_first (pkt_data q)" "pkt_msg_count q = packet_count (pkt_data q)"
      "pkt_len q = of_nat (length (pkt_data q))" using ok by (auto simp: clean_state_def clean_copy_def)
    have "pkt_data q = data" using D q(1,2) data by (auto simp: clean_packets_def inj_on_def)
    then have "same_copy q ?q" using q(3,4) by (simp add: same_copy_def)
    then show ?thesis using gb.put_again [OF g put(2), of q] Some by simp
  qed
  then obtain x g' where I: "gb_put (buf d) ?q = (x, g')" and
    x: "x = Inserted \<and> gb_find g' = (gb_find (buf d))(packet_first data \<mapsto> ?q) \<or> x = DuplicateIdentical \<and> g' = buf d" by blast
  have q: "clean_copy D (packet_first data) ?q" using data by (simp add: clean_copy_def)
  have st: "ch_status (md_channel d) \<noteq> Stale" using ok by (simp add: clean_state_def)
  have B: "bufferPacket d data (packet_first data) (packet_count data) ticks = (let d2 = set_buffer (set_status d GapDetected) g' in
      if x = DuplicateIdentical then (result_of DecodeOk True, d2\<lparr>md_channel := (md_channel d2)\<lparr>ch_identical_buffered_redundant_packets :=
        ch_identical_buffered_redundant_packets (md_channel d2) + 1\<rparr>\<rparr>) else (result_of DecodeOk True, d2))"
  proof -
    have "\<not> length data > kMaxPacketSize" "x = Inserted \<or> x = DuplicateIdentical" using len x by (auto simp: kMaxPacketSize_def)
    moreover have "gb_insert (ch_gap_buffer (md_channel (set_status d GapDetected))) (Some data) (of_nat (length data)) (packet_first data)
        (packet_count data) ticks = (x, g')" using put(1) [unfolded I] by (simp add: set_status_def)
    ultimately show ?thesis using st unfolding bufferPacket_def Let_def by auto
  qed
  from x show ?thesis
  proof (elim disjE conjE)
    assume "x = Inserted" "gb_find g' = (gb_find (buf d))(packet_first data \<mapsto> ?q)"
    then show ?thesis using ok q unfolding B by (simp add: clean_state_def decoder_updates)
  next
    assume "x = DuplicateIdentical" "g' = buf d"
    then show ?thesis using ok unfolding B by (simp add: clean_state_def decoder_updates)
  qed
qed

lemma processPacket_clean:
  assumes inv: "dec_inv init p0 C d" and D: "clean_packets session D" and ok: "clean_state session D d"
    and v: "pv_data v = Some data" "data \<in> D" and nf: "\<And>p. \<not> failed_history init p0 (C \<union> view_claims v) p"
  shows "\<exists>r d'. processPacket elapsed d v = Some (r, d') \<and> clean_state session D d'"
proof -
  let ?cnt = "packet_count data" and ?first = "packet_first data" and ?C = "C \<union> view_claims v"
  define d1 where "d1 = (if \<not> md_first_packet_seen d then d\<lparr>md_first_packet_seen := True, md_channel := setSession (md_channel d) data\<rparr> else d)"
  have s: "sequenced data" "take 10 data = session" "length session = 10" using D v(2) by (auto simp: clean_packets_def)
  have wf: "wf_packet data ?first ?cnt" "?cnt \<noteq> 0xFFFF" using s(1) by (simp_all add: sequenced_def kEndOfSessionMessageCount_def)
  have t: "md_terminal_status d = DecodeOk" using ok by (simp add: clean_state_def)
  have l: "live init p0 ?C d1" by (rule live_first(1) [OF inv_live [OF dec_inv_mono [OF inv] t] d1_def]) simp
  have c1: "clean_state session D d1" using ok s(2,3) by (auto simp: d1_def clean_state_def setSession_def kSessionBytes_def)
  have g: "gap_inv (buf d1)" using l by (auto simp: live_def applied_ok_def stored_ok_def)
  have claimed: "claims data ?first ?cnt \<subseteq> ?C" using s(1) v(1) by (auto simp: view_claims_def)
  have m: "md_first_packet_seen d \<Longrightarrow> sessionMatches (md_channel d) data"
    using ok s(2,3) by (simp add: clean_state_def sessionMatches_def kSessionBytes_def)
  have P: "processPacket elapsed d v = processSequenced elapsed d1 data ?first ?cnt (pv_receive_start_ticks v)"
    using t v(1) wf m by (auto simp: processPacket_def packet_count_def packet_first_def Let_def wf_packet_def d1_def kEndOfSessionMessageCount_def)
  have Q: "processSequenced elapsed d1 data ?first ?cnt (pv_receive_start_ticks v) =
     (if ?first + ucast ?cnt \<le> expected_seq d1 then Some (result_of DecodeOk False, d1)
      else if ?first > expected_seq d1 then Some (bufferPacket d1 data ?first ?cnt (pv_receive_start_ticks v))
      else applyPacket elapsed d1 data ?first ?cnt (pv_receive_start_ticks v))"
    using wf(1) no_wrap [of ?cnt ?first] c1 by (simp add: processSequenced_def Let_def wf_packet_def clean_state_def)
  show ?thesis
  proof (cases "?first + ucast ?cnt \<le> expected_seq d1 \<or> ?first > expected_seq d1")
    case True
    then show ?thesis unfolding P Q using c1 bufferPacket_clean [OF D c1 v(2) g, of "pv_receive_start_ticks v"]
      by (auto intro: prod.collapse [symmetric])
  next
    case False
    then have "?first \<le> expected_seq d1" "unat (expected_seq d1) < unat ?first + unat ?cnt"
      using wf_packetD(3) [OF wf(1)] by (auto simp: word_le_nat_alt word_less_nat_alt)
    from applyPacket_clean [OF l wf(1) claimed this c1 nf] show ?thesis unfolding P Q using False by simp
  qed
qed

end
