(* ===== verification/LatencyRecorder.thy ===== *)
theory LatencyRecorder
  imports Prelude
begin

text \<open>
  Model of \<open>LatencyRecorder.cpp\<close> and \<open>LatencyRecorder.hpp\<close>: the histogram of latencies with exact, fine, coarse and overflow buckets.

  The bucket array is a function of the index. Percentiles and snapshots, and what a recorder says of its samples, are
  in \<open>LatencyPercentile\<close>. Reports are output only.
\<close>

record LatencyRecorder =
  lr_buckets :: "nat \<Rightarrow> u64"
  lr_count :: u64
  lr_invalid_samples :: u64
  lr_min_ns :: u64
  lr_max_ns :: u64
  lr_total_ns :: u64

definition kExactBucketCount :: nat where "kExactBucketCount = 1024"
definition kFineBucketCount :: nat where "kFineBucketCount = 4096"
definition kCoarseBucketCount :: nat where "kCoarseBucketCount = 4096"
definition kFineBucketWidthNs :: u64 where "kFineBucketWidthNs = 16"
definition kCoarseBucketWidthNs :: u64 where "kCoarseBucketWidthNs = 1024"
definition kFineRangeNs :: u64 where "kFineRangeNs = of_nat kFineBucketCount * kFineBucketWidthNs"
definition kCoarseRangeNs :: u64 where "kCoarseRangeNs = of_nat kCoarseBucketCount * kCoarseBucketWidthNs"
definition kOverflowBucket :: nat where "kOverflowBucket = kExactBucketCount + kFineBucketCount + kCoarseBucketCount"
definition kBucketCount :: nat where "kBucketCount = kOverflowBucket + 1"

definition newLatencyRecorder :: LatencyRecorder where
  "newLatencyRecorder = \<lparr>lr_buckets = (\<lambda>_. 0), lr_count = 0, lr_invalid_samples = 0, lr_min_ns = u64_max, lr_max_ns = 0, lr_total_ns = 0\<rparr>"

definition lr_reset :: "LatencyRecorder \<Rightarrow> LatencyRecorder" where
  "lr_reset l = l\<lparr>lr_buckets := (\<lambda>_. 0), lr_count := 0, lr_invalid_samples := 0, lr_min_ns := u64_max, lr_max_ns := 0, lr_total_ns := 0\<rparr>"

definition bucketIndex :: "u64 \<Rightarrow> nat" where
  "bucketIndex latency_ns =
     (if latency_ns < of_nat kExactBucketCount then unat latency_ns
      else
        let fine = latency_ns - of_nat kExactBucketCount
        in if fine < kFineRangeNs then kExactBucketCount + unat (fine div kFineBucketWidthNs)
           else
             let coarse = fine - kFineRangeNs
             in if coarse < kCoarseRangeNs
                then kExactBucketCount + kFineBucketCount + unat (coarse div kCoarseBucketWidthNs)
                else kOverflowBucket)"

definition bucketUpperBoundNs :: "nat \<Rightarrow> u64" where
  "bucketUpperBoundNs bucket_index =
     (if bucket_index < kExactBucketCount then of_nat bucket_index
      else
        let fine = bucket_index - kExactBucketCount
        in if fine < kFineBucketCount then of_nat kExactBucketCount + of_nat (fine + 1) * kFineBucketWidthNs - 1
           else
             let coarse = fine - kFineBucketCount
             in if coarse < kCoarseBucketCount
                then of_nat kExactBucketCount + kFineRangeNs + of_nat (coarse + 1) * kCoarseBucketWidthNs - 1
                else u64_max)"

definition recordDuration :: "LatencyRecorder \<Rightarrow> u64 \<Rightarrow> u64 \<Rightarrow> LatencyRecorder" where
  "recordDuration l duration_ns sample_count =
     (if sample_count = 0 then l
      else
        let i = bucketIndex duration_ns
        in l\<lparr>lr_buckets := (lr_buckets l)(i := lr_buckets l i + sample_count), lr_count := lr_count l + sample_count,
             lr_total_ns := lr_total_ns l + duration_ns * sample_count, lr_min_ns := min (lr_min_ns l) duration_ns,
             lr_max_ns := max (lr_max_ns l) duration_ns\<rparr>)"

definition recordOne :: "LatencyRecorder \<Rightarrow> u64 \<Rightarrow> LatencyRecorder" where
  "recordOne l duration_ns = recordDuration l duration_ns 1"

definition lr_record :: "LatencyRecorder \<Rightarrow> u64 \<Rightarrow> u64 \<Rightarrow> LatencyRecorder" where
  "lr_record l start_ns end_ns =
     (if end_ns < start_ns then l\<lparr>lr_invalid_samples := lr_invalid_samples l + 1\<rparr> else recordOne l (end_ns - start_ns))"

fun rank_loop :: "nat \<Rightarrow> LatencyRecorder \<Rightarrow> u64 \<Rightarrow> nat \<Rightarrow> u64 \<Rightarrow> u64" where
  "rank_loop 0 l rank i cumulative = lr_max_ns l"
| "rank_loop (Suc n) l rank i cumulative =
     (let cumulative1 = cumulative + lr_buckets l i
      in if cumulative1 \<ge> rank then (if i = kOverflowBucket then lr_max_ns l else bucketUpperBoundNs i)
         else rank_loop n l rank (i + 1) cumulative1)"

definition valueAtRank :: "LatencyRecorder \<Rightarrow> u64 \<Rightarrow> u64" where
  "valueAtRank l rank = rank_loop kBucketCount l rank 0 0"

section \<open>Buckets\<close>

lemmas bucket_constants = kExactBucketCount_def kFineBucketCount_def kCoarseBucketCount_def kFineBucketWidthNs_def
  kCoarseBucketWidthNs_def kFineRangeNs_def kCoarseRangeNs_def kOverflowBucket_def kBucketCount_def

lemma bucketIndex_nat:
  "bucketIndex x = (if unat x < 1024 then unat x else if unat x < 66560 then 1024 + (unat x - 1024) div 16
     else if unat x < 4260864 then 5120 + (unat x - 66560) div 1024 else 9216)"
proof -
  have s: "unat (x - 1024) = unat x - 1024" if "1024 \<le> unat x" using that by (subst unat_sub) (simp_all add: word_le_nat_alt)
  have t: "unat (x - 1024 - 65536) = unat x - 66560" if "66560 \<le> unat x"
    using that s by (subst unat_sub) (simp_all add: word_le_nat_alt)
  show ?thesis using s t by (auto simp: bucketIndex_def bucket_constants Let_def word_less_nat_alt unat_div)
qed

text \<open>Every latency falls into a bucket of the array, and into one whose upper bound is at least the latency.\<close>

lemma bucket_in_range: "bucketIndex x < kBucketCount"
  by (auto simp: bucketIndex_nat bucket_constants)

lemma bucketUpperBound_nat:
  "unat (bucketUpperBoundNs i) = (if i < 1024 then i else if i < 5120 then 1024 + (i - 1023) * 16 - 1
     else if i < 9216 then 66560 + (i - 5119) * 1024 - 1 else 2 ^ 64 - 1)"
proof -
  have small: "unat (of_nat n :: u64) = n" if "n < 2 ^ 64" for n using that by (simp add: unat_of_nat)
  have "unat (bucketUpperBoundNs i) = 1024 + (i - 1023) * 16 - 1" if "1024 \<le> i" "i < 5120"
  proof -
    have "i - 1024 < 4096" using that by simp
    then have "bucketUpperBoundNs i = of_nat (1024 + (i - 1023) * 16 - 1)"
      using that by (simp add: bucketUpperBoundNs_def bucket_constants Let_def of_nat_diff)
    then show ?thesis by (simp only:) (rule small, use that in simp)
  qed
  moreover have "unat (bucketUpperBoundNs i) = 66560 + (i - 5119) * 1024 - 1" if "5120 \<le> i" "i < 9216"
  proof -
    have "\<not> i - 1024 < 4096" "i - 1024 - 4096 < 4096" using that by simp_all
    then have "bucketUpperBoundNs i = of_nat (66560 + (i - 5119) * 1024 - 1)"
      using that by (simp add: bucketUpperBoundNs_def bucket_constants Let_def of_nat_diff)
    then show ?thesis by (simp only:) (rule small, use that in simp)
  qed
  ultimately show ?thesis by (auto simp: bucketUpperBoundNs_def bucket_constants Let_def unat_of_nat)
qed

lemma bucket_bound: "x \<le> bucketUpperBoundNs (bucketIndex x)"
  using unsigned_less [of x, where 'a = nat] unfolding word_le_nat_alt bucketUpperBound_nat unfolding bucketIndex_nat by auto

lemma bucket_total:
  "(\<Sum>i<kBucketCount. lr_buckets (recordDuration l x n) i) = (\<Sum>i<kBucketCount. lr_buckets l i) + n"
proof (cases "n = 0")
  case False
  have "(\<Sum>i<kBucketCount. ((lr_buckets l)(bucketIndex x := lr_buckets l (bucketIndex x) + n)) i) =
      (\<Sum>i<kBucketCount. lr_buckets l i + (if i = bucketIndex x then n else 0))"
    by (rule sum.cong) auto
  also have "\<dots> = (\<Sum>i<kBucketCount. lr_buckets l i) + n" using bucket_in_range [of x] by (simp add: sum.distrib)
  finally show ?thesis using False by (simp add: recordDuration_def Let_def)
qed (simp add: recordDuration_def)

end
