(* ===== verification/MarketDataEngine.thy ===== *)
theory MarketDataEngine
  imports MoldUdpDecoder LatencyRecorder
begin

text \<open>
  Model of \<open>MarketDataEngine.cpp\<close>, \<open>MarketDataEngine.hpp\<close> and \<open>EngineConfig.hpp\<close>: the loop that takes packets from a source, hands them to
  the packet processor and decides when to stop.

  The source is the list of what its polls return, \<open>None\<close> when a poll yields no packet; the list is the finite part of the input
  that the run sees. The processor is a parameter, as in the sources, where it is an interface; \<open>None\<close> is a call that
  does not return. Messages on the error stream are left out.
\<close>

record EngineConfig =
  enable_latency_metrics :: bool
  enable_stage_latency_metrics :: bool
  stop_on_decode_error :: bool
  stop_on_sequence_gap :: bool

record 's MarketDataEngine =
  eng_running :: bool
  eng_processor :: 's
  eng_latency_recorder :: LatencyRecorder
  eng_config :: EngineConfig

definition newMarketDataEngine :: "'s \<Rightarrow> LatencyRecorder \<Rightarrow> EngineConfig \<Rightarrow> 's MarketDataEngine" where
  "newMarketDataEngine processor latency_recorder config =
     \<lparr>eng_running = True, eng_processor = processor, eng_latency_recorder = latency_recorder, eng_config = config\<rparr>"

definition eng_stop :: "'s MarketDataEngine \<Rightarrow> bool \<times> 's MarketDataEngine" where
  "eng_stop e = (eng_running e, e\<lparr>eng_running := False\<rparr>)"

text \<open>The body of the loop of \<open>run\<close> for one packet.\<close>

definition engine_packet ::
    "('s \<Rightarrow> PacketView \<Rightarrow> (DecodeResult \<times> 's) option) \<Rightarrow> 's MarketDataEngine \<Rightarrow> PacketView \<Rightarrow> 's MarketDataEngine option" where
  "engine_packet process e packet =
     (let latency_enabled = enable_latency_metrics (eng_config e)
      in case process (eng_processor e) packet of None \<Rightarrow> None
         | Some (result, processor1) \<Rightarrow>
             let e1 = e\<lparr>eng_processor := processor1\<rparr>
             in if dr_status result = EndOfStream then Some (snd (eng_stop e1))
                else if dr_status result \<noteq> DecodeOk then
                  (if isTerminalDecodeFailure (dr_status result) \<or> stop_on_decode_error (eng_config e1)
                   then Some (snd (eng_stop e1)) else Some e1)
                else if dr_had_gap result \<and> stop_on_sequence_gap (eng_config e1) then Some (snd (eng_stop e1))
                else if latency_enabled \<and> dr_latency_sample_count result \<noteq> 0 then
                  Some (e1\<lparr>eng_latency_recorder := recordDuration (eng_latency_recorder e1)
                    (dr_latency_total_ns result div dr_latency_sample_count result) (dr_latency_sample_count result)\<rparr>)
                else Some e1)"

fun engine_run ::
    "('s \<Rightarrow> PacketView \<Rightarrow> (DecodeResult \<times> 's) option) \<Rightarrow> 's MarketDataEngine \<Rightarrow> PacketView option list \<Rightarrow> 's MarketDataEngine option" where
  "engine_run process e [] = Some e"
| "engine_run process e (poll # polls) =
     (if \<not> eng_running e then Some e
      else case poll of None \<Rightarrow> engine_run process e polls
           | Some packet \<Rightarrow>
               (case engine_packet process e packet of None \<Rightarrow> None | Some e1 \<Rightarrow> engine_run process e1 polls))"

end
