(* ===== verification/MoldUdpDecoderCorrect.thy ===== *)
theory MoldUdpDecoderCorrect
  imports MoldUdpClean MarketDataEngine
begin

text \<open>
  Sequences of packets, a worked session, the engine around the decoder, and the properties of both.
\<close>

section \<open>Sequences of packets\<close>

fun decode_all :: "(u64 \<Rightarrow> u64 \<Rightarrow> u64) \<Rightarrow> MoldUdpDecoder \<Rightarrow> PacketView list \<Rightarrow> MoldUdpDecoder option" where
  "decode_all elapsed d [] = Some d"
| "decode_all elapsed d (v # vs) =
     (case processPacket elapsed d v of None \<Rightarrow> None | Some (r, d') \<Rightarrow> decode_all elapsed d' vs)"

definition all_claims :: "PacketView list \<Rightarrow> (nat \<times> u8 list) set" where
  "all_claims vs = \<Union> (view_claims ` set vs)"

lemma decode_all_snoc:
  "decode_all elapsed d (vs @ [v]) =
     (case decode_all elapsed d vs of None \<Rightarrow> None | Some d1 \<Rightarrow> map_option snd (processPacket elapsed d1 v))"
  by (induction vs arbitrary: d) (auto split: option.splits)

lemma all_claims_simps [simp]: "all_claims [] = {}" "all_claims (vs @ [v]) = all_claims vs \<union> view_claims v"
  by (auto simp: all_claims_def)

lemma new_decoder_inv:
  "dec_inv (unat start) (newItchParser symbols books ch) {} (newMoldUdpDecoder symbols books ch start)"
proof -
  let ?d = "newMoldUdpDecoder symbols books ch start" and ?p = "newItchParser symbols books ch"
  have b: "buf ?d = newGapBuffer" "expected_seq ?d = start" "md_parser ?d = ?p" "md_terminal_status ?d = DecodeOk" "phase_synced ?d"
    by (simp_all add: newMoldUdpDecoder_def newChannelState_def newItchParser_def phase_synced_def)
  have h: "history (unat start) ?p {} ?p (unat start)" unfolding history_def by (rule exI [of _ "[]"]) simp
  then show ?thesis using b stored_ok_new by (auto simp: dec_inv_def dec_core_def nothing_ready_def gb_find_new)
qed

lemma decode_all_inv:
  assumes "dec_inv init p0 {} d"
  shows "\<exists>d'. decode_all elapsed d vs = Some d' \<and> dec_inv init p0 (all_claims vs) d' \<and>
    (md_terminal_status d' = DecodeOk \<longrightarrow> ch_status (md_channel d') \<noteq> Stale \<longrightarrow>
      (\<forall>v data. v \<in> set vs \<longrightarrow> pv_data v = Some data \<longrightarrow> sequenced data \<longrightarrow> delivered d' data))"
proof (induction vs rule: rev_induct)
  case Nil
  then show ?case using assms by simp
next
  case (snoc v vs)
  then obtain d1 where d1: "decode_all elapsed d vs = Some d1" "dec_inv init p0 (all_claims vs) d1"
    "md_terminal_status d1 = DecodeOk \<Longrightarrow> ch_status (md_channel d1) \<noteq> Stale \<Longrightarrow> w \<in> set vs \<Longrightarrow> pv_data w = Some data \<Longrightarrow> sequenced data \<Longrightarrow> delivered d1 data"
    for w data by blast
  obtain r d2 where d2: "processPacket elapsed d1 v = Some (r, d2)" "packet_step init p0 (all_claims vs) d1 v r d2"
    using processPacket_step [OF d1(2)] by blast
  have "delivered d2 data" if a: "md_terminal_status d2 = DecodeOk" "ch_status (md_channel d2) \<noteq> Stale" "w \<in> set (vs @ [v])"
      "pv_data w = Some data" "sequenced data" for w data
  proof (cases "w \<in> set vs")
    case True
    have "md_terminal_status d1 = DecodeOk" "ch_status (md_channel d1) \<noteq> Stale" "kept_packets d1 d2"
      using d2(2) a(1,2) unfolding packet_step_def by auto
    then show ?thesis using d1(3) [OF _ _ True a(4,5)] delivered_kept by blast
  next
    case False
    then show ?thesis using d2(2) a unfolding packet_step_def by auto
  qed
  moreover have "decode_all elapsed d (vs @ [v]) = Some d2" using d2(1) by (simp add: decode_all_snoc d1(1))
  ultimately show ?case using d2(2) by (auto simp: packet_step_def)
qed

text \<open>A stream on which the decoder cannot fail.\<close>

lemma decode_all_clean:
  assumes D: "clean_packets session D" "\<forall>v \<in> set vs. \<exists>data \<in> D. pv_data v = Some data"
    and nf: "\<And>p. \<not> failed_history (unat start) (newItchParser symbols books ch) (all_claims vs) p"
  shows "\<exists>d. decode_all elapsed (newMoldUdpDecoder symbols books ch start) vs = Some d \<and> clean_state session D d"
  using D(2) nf
proof (induction vs rule: rev_induct)
  case Nil
  then show ?case by (simp add: clean_state_new)
next
  case (snoc v vs)
  let ?p = "newItchParser symbols books ch" and ?d = "newMoldUdpDecoder symbols books ch start"
  have "\<not> failed_history (unat start) ?p (all_claims vs) p" for p
    using snoc.prems(2) [of p] failed_history_mono [of "unat start" ?p "all_claims vs" p "all_claims (vs @ [v])"] by auto
  then obtain d where d: "decode_all elapsed ?d vs = Some d" "clean_state session D d" using snoc.IH snoc.prems(1) by auto
  have inv: "dec_inv (unat start) ?p (all_claims vs) d" using decode_all_inv [OF new_decoder_inv, of elapsed symbols books ch start vs] d(1) by auto
  obtain data where v: "pv_data v = Some data" "data \<in> D" using snoc.prems(1) by auto
  obtain r d' where "processPacket elapsed d v = Some (r, d')" "clean_state session D d'"
    using processPacket_clean [OF inv D(1) d(2) v, of elapsed] snoc.prems(2) by auto
  then show ?case by (simp add: decode_all_snoc d(1))
qed

lemma accepted_stream:
  assumes D: "clean_packets session D" "\<forall>v \<in> set vs. \<exists>data \<in> D. pv_data v = Some data"
    and acc: "fst (run_parser (newItchParser symbols books ch) ms)" "all_claims vs = numbered (unat start) ms"
  obtains d where "decode_all elapsed (newMoldUdpDecoder symbols books ch start) vs = Some d"
    "md_terminal_status d = DecodeOk" "ch_status (md_channel d) \<noteq> Stale"
  using decode_all_clean [OF D accepted_no_failure [OF acc(1)], of start elapsed] acc(2) unfolding clean_state_def by auto

section \<open>Consequences\<close>

lemma claims_valid:
  assumes "(n, m) \<in> all_claims vs"
  shows "valid_message m"
proof -
  obtain data where d: "sequenced data" "(n, m) \<in> claims data (packet_first data) (packet_count data)"
    using assms by (auto simp: all_claims_def view_claims_def split: option.splits if_splits)
  have "list_all valid_message (packet_messages data (packet_count data))" using wf_packetD(1) [of data "packet_first data"] d(1) by (simp add: sequenced_def)
  then show ?thesis using d(2) by (auto simp: claims_def list_all_length)
qed

lemma dec_inv_messages:
  assumes "dec_inv init p0 C d"
  shows "\<exists>ms. (\<forall>k<length ms. (init + k, ms ! k) \<in> C) \<and> md_parser d = fold (\<lambda>m p. parse p m) ms p0 \<and>
    (md_terminal_status d \<in> {DecodeOk, EndOfStream} \<longrightarrow> init + length ms = unat (expected_seq d))"
proof -
  have hist: "\<exists>ms. (\<forall>k<length ms. (init + k, ms ! k) \<in> C) \<and> md_parser d = fold (\<lambda>m p. parse p m) ms p0 \<and> init + length ms = n"
    if h: "history init p0 C (md_parser d) n" for n
  proof -
    obtain ms where ms: "run_parser p0 ms = (True, md_parser d)" "init + length ms = n" "\<forall>k<length ms. (init + k, ms ! k) \<in> C"
      using h unfolding history_def by blast
    then show ?thesis using sink.run_all [of p0 ms] by (intro exI [of _ ms]) simp
  qed
  have failed: "\<exists>ms. (\<forall>k<length ms. (init + k, ms ! k) \<in> C) \<and> md_parser d = fold (\<lambda>m p. parse p m) ms p0"
    if h: "failed_history init p0 C (md_parser d)"
  proof -
    obtain ms where ms: "run_parser p0 ms = (False, md_parser d)" "\<forall>k<length ms. (init + k, ms ! k) \<in> C"
      using h unfolding failed_history_def by blast
    obtain k where "md_parser d = fold (\<lambda>m p. parse p m) (take (Suc k) ms) p0" using sink.run_prefix [of p0 ms] ms(1) by auto
    then show ?thesis using ms(2) by (intro exI [of _ "take (Suc k) ms"]) simp
  qed
  show ?thesis
  proof (cases "md_terminal_status d \<in> {DecodeOk, EndOfStream}")
    case True
    then have "history init p0 C (md_parser d) (unat (expected_seq d))" using assms by (simp add: dec_inv_def)
    then show ?thesis using hist by blast
  next
    case False
    then show ?thesis using hist failed assms unfolding dec_inv_def dec_core_def by blast
  qed
qed

lemma delivered_not_ready:
  assumes inv: "dec_inv init p0 C d" and t: "md_terminal_status d = DecodeOk" and dl: "delivered d data" and s: "sequenced data"
    and c: "(unat (expected_seq d), m) \<in> claims data (packet_first data) (packet_count data)"
  shows False
proof -
  have r: "unat (packet_first data) \<le> unat (expected_seq d)" "unat (expected_seq d) < unat (packet_first data) + unat (packet_count data)"
    using c by (auto simp: claims_def)
  then obtain q where "gb_find (buf d) (packet_first data) = Some q" "pkt_msg_count q = packet_count data"
    using dl by (auto simp: delivered_def stored_here_def)
  moreover have "nothing_ready d" using inv t by (simp add: dec_inv_def)
  ultimately show False using r by (fastforce simp: nothing_ready_def)
qed

lemma expected_is_least:
  assumes inv: "dec_inv init p0 (all_claims vs) d" and t: "md_terminal_status d = DecodeOk"
    and dl: "\<And>v data. v \<in> set vs \<Longrightarrow> pv_data v = Some data \<Longrightarrow> sequenced data \<Longrightarrow> delivered d data"
  shows "unat (expected_seq d) = (LEAST n. init \<le> n \<and> n \<notin> fst ` all_claims vs)"
proof (rule Least_equality [symmetric])
  obtain ms where ms: "\<forall>k<length ms. (init + k, ms ! k) \<in> all_claims vs" "init + length ms = unat (expected_seq d)"
    using dec_inv_messages [OF inv] t by auto
  have "unat (expected_seq d) \<notin> fst ` all_claims vs"
  proof
    assume "unat (expected_seq d) \<in> fst ` all_claims vs"
    then obtain v data m where "v \<in> set vs" "pv_data v = Some data" "sequenced data"
      "(unat (expected_seq d), m) \<in> claims data (packet_first data) (packet_count data)"
      by (auto simp: all_claims_def view_claims_def split: option.splits if_splits)
    then show False using delivered_not_ready [OF inv t] dl by blast
  qed
  then show "init \<le> unat (expected_seq d) \<and> unat (expected_seq d) \<notin> fst ` all_claims vs" using ms(2) by simp
  fix n assume n: "init \<le> n \<and> n \<notin> fst ` all_claims vs"
  show "unat (expected_seq d) \<le> n"
  proof (rule ccontr)
    assume "\<not> ?thesis"
    then have "n - init < length ms" using ms(2) n by linarith
    then have "(init + (n - init), ms ! (n - init)) \<in> all_claims vs" using ms(1) by blast
    then show False using n by force
  qed
qed

lemma messages_determined:
  assumes "\<forall>k<length ms. (init + k, ms ! k) \<in> C" "\<forall>k<length ms'. (init + k, ms' ! k) \<in> C" "length ms = length ms'"
    "\<And>n m m'. (n, m) \<in> C \<Longrightarrow> (n, m') \<in> C \<Longrightarrow> m = m'"
  shows "ms = ms'"
  by (rule nth_equalityI) (use assms in auto)

lemma parse_reachable:
  assumes "parser_reachable config p" "list_all valid_message ms"
  shows "parser_reachable config (fold (\<lambda>m p. parse p m) ms p)"
  using assms by (induction ms arbitrary: p) (auto simp: parse_def intro: parser_prevalidated)

section \<open>A worked session\<close>

text \<open>An in-order packet on a channel without a gap.\<close>

lemma empty_candidate: "gb_find (ch_gap_buffer ch) = Map.empty \<Longrightarrow> find_candidate ch = None" for ch :: ChannelState
proof (rule ccontr)
  assume e: "gb_find (ch_gap_buffer ch) = Map.empty" and "find_candidate ch \<noteq> None"
  then obtain q where "find_candidate ch = Some q" by blast
  from find_candidate_Some [OF this] show False using e by auto
qed

lemma in_order_packet:
  assumes b: "gb_find (buf d) = Map.empty" "gb_empty (buf d)" and s: "phase_synced d" "ch_status (md_channel d) = Good"
      "ch_heartbeat_next_seq_high_watermark (md_channel d) = 0" "md_pending_end_sequence d = 0"
    and wf: "wf_packet data (expected_seq d) cnt" and run: "run_parser (md_parser d) (packet_messages data cnt) = (True, p')"
  shows "\<exists>r. processSequenced elapsed d data (expected_seq d) cnt ticks = Some (r, set_expected (with_parser d p') (expected_seq d + ucast cnt)) \<and> dr_status r = DecodeOk"
proof -
  let ?e = "expected_seq d" and ?d3 = "set_expected (with_parser d p') (expected_seq d + ucast cnt)"
  note W = wf_packetD [OF wf]
  obtain r1 d1 where R: "processSequencedPacket elapsed d data ?e cnt ?e ticks = (r1, d1)" by fastforce
  have P: "dr_status r1 = DecodeOk" "d1 = with_parser d p'"
    using processSequencedPacket_run [OF wf _ _ s(1) _ R, of True p'] run by auto
  have G: "ch_status (md_channel d1) = Good" using s(2) by (simp add: P(2) decoder_updates)
  have D: "drainGapBuffer elapsed ?d3 = Some (result_of DecodeOk False, ?d3)"
    using empty_candidate [of "md_channel ?d3"] b(1) by (simp add: drainGapBuffer_def drain_loop.simps Let_def decoder_updates)
  have S: "settle ?d3 = ?d3" using b(2) s by (simp add: settle_def decoder_updates)
  have Q: "resolvePendingEndOfStream ?d3 = (DecodeOk, ?d3)" using s(4) by (simp add: resolvePendingEndOfStream_def decoder_updates)
  have "\<exists>r. applyPacket elapsed d data ?e cnt ticks = Some (r, ?d3) \<and> dr_status r = DecodeOk"
    using R P D S Q G unfolding applyPacket_unfold Let_def by (auto simp: mergeLatency_def)
  moreover have "processSequenced elapsed d data ?e cnt ticks = applyPacket elapsed d data ?e cnt ticks"
  proof -
    have "\<not> ?e + ucast cnt \<le> ?e" using W(3,4) by (simp add: word_le_nat_alt)
    then show ?thesis using wf no_wrap [of cnt ?e] s(4) by (simp add: processSequenced_def wf_packet_def Let_def)
  qed
  ultimately show ?thesis by simp
qed

text \<open>A day without orders: the six events in one packet, then the end of the session.\<close>

lemma parse_event:
  assumes "permitted (ip_channel_phase p) (EvSystem 0 code)"
  shows "parse p (demo_event code) = handleSystemEvent (clear_outcome p) (demo_event code)"
  using system_message [OF assms] demo_event_valid [of code]
  by (simp add: parse_def handlePrevalidatedMessage_def handleMessage_def valid_message_def Let_def)

lemma day_step:
  assumes inv: "parser_inv p" and o: "fs_orders (feed_of p) = Map.empty" and ph: "permitted (ip_channel_phase p) (EvSystem 0 code)"
    and n: "next_phase_of (ip_channel_phase p) code = Some ph'" "code \<notin> {0x41, 0x52, 0x42}"
  shows "parser_inv (parse p (demo_event code))" "fs_orders (feed_of (parse p (demo_event code))) = Map.empty"
    "ip_channel_phase (parse p (demo_event code)) = ph'" "\<not> parse_refused (parse p (demo_event code))"
proof -
  let ?q = "clear_outcome p" and ?p' = "parse p (demo_event code)"
  have q: "parser_inv ?q" "ip_last_error ?q = []" "fs_orders (feed_of ?q) = Map.empty" "ip_channel_phase ?q = ip_channel_phase p"
    using inv o by (simp_all add: clear_outcome_def)
  have E: "ip_last_error ?p' = []" unfolding parse_event [OF ph]
  proof (cases "code = 0x53 \<and> ip_channel_phase p \<in> {StartupDirectorySpin, StartupAdminSpin}")
    case True
    then obtain m' where "handleSystemHoursStart ?q = ?q\<lparr>ip_channel_phase := SystemHours, ip_books_prepared := True, ip_books := m'\<rparr>"
      using handleSystemHoursStart_effect [OF q(1)] q(4) by auto
    then show "ip_last_error (handleSystemEvent ?q (demo_event code)) = []"
      using True q(2) by (simp add: handleSystemEvent_def kSystemEventCodeOffset_def demo_event_fields)
  next
    case False
    then show "ip_last_error (handleSystemEvent ?q (demo_event code)) = []"
      using n q(2,4) live_count_zero [OF q(1)] q(3)
      by (auto simp: handleSystemEvent_def kSystemEventCodeOffset_def demo_event_fields next_phase_of_def advancePhase_def split: if_splits)
  qed
  have R: "refined (message_exhausts p (demo_event code)) (feed_of p) (spec_message (feed_of p) (demo_event code)) ?p'"
    using handlePrevalidated_refines [OF inv demo_event_valid] by (simp add: parse_def)
  have S: "spec_message (feed_of p) (demo_event code) = Some ((feed_of p)\<lparr>fs_phase := ph'\<rparr>)"
    using o ph n by (simp add: spec_message_def demo_event_decoded demo_event_fields spec_event_def kNanosecondsPerDay_def)
  have "\<not> capacity_error ex []" for ex by (simp add: capacity_error_def)
  then have f: "feed_of ?p' = (feed_of p)\<lparr>fs_phase := ph'\<rparr>" and "parser_inv ?p'" using R E by (auto simp: refined_def S)
  then show "parser_inv ?p'" "\<not> parse_refused ?p'" using E by (simp_all add: parse_refused_def)
  have "fs_orders (feed_of ?p') = fs_orders (feed_of p)" "fs_phase (feed_of ?p') = ph'" unfolding f by simp_all
  then show "fs_orders (feed_of ?p') = Map.empty" "ip_channel_phase ?p' = ph'" using o by simp_all
qed

definition demo_day :: "u8 list" where "demo_day = [0x4F, 0x53, 0x51, 0x4D, 0x45, 0x43]"

definition demo_data :: "u8 list" where
  "demo_data = replicate 10 0x41 @ replicate 7 0 @ [1, 0, 6] @ concat (map (\<lambda>code. [0, 12] @ demo_event code) demo_day)"

definition demo_packet :: PacketView where "demo_packet = \<lparr>pv_data = Some demo_data, pv_receive_start_ticks = 0\<rparr>"

definition demo_end :: PacketView where
  "demo_end = \<lparr>pv_data = Some (makeMoldEndOfSessionPacket (replicate 10 0x41) 7), pv_receive_start_ticks = 0\<rparr>"

definition demo_decoder :: MoldUdpDecoder where "demo_decoder = newMoldUdpDecoder newStockDirectory demo_manager 0 1"

definition demo_clock :: "u64 \<Rightarrow> u64 \<Rightarrow> u64" where "demo_clock start seq = 0"

lemma demo_packet_fields:
  "length demo_data = 104" "packet_first demo_data = 1" "packet_count demo_data = 6" "validateSequencedPacket demo_data 6 = DecodeOk"
  "packet_messages demo_data 6 = map demo_event demo_day"
  by code_simp+

lemma demo_wf: "wf_packet demo_data 1 6" "sequenced demo_data"
  using demo_packet_fields by (simp_all add: wf_packet_def sequenced_def kHeaderSize_def kEndOfSessionMessageCount_def)

definition demo_parser_end :: ItchParser where "demo_parser_end = fold (\<lambda>m p. parse p m) (map demo_event demo_day) demo_parser"

lemma demo_day_parsed: "run_parser demo_parser (map demo_event demo_day) = (True, demo_parser_end)" "ip_channel_phase demo_parser_end = EndOfMessages"
proof -
  let ?q = "\<lambda>n. fold (\<lambda>m p. parse p m) (map demo_event (take n demo_day)) demo_parser"
  let ?ok = "\<lambda>p ph. parser_inv p \<and> fs_orders (feed_of p) = Map.empty \<and> ip_channel_phase p = ph"
  have step: "?ok (parse p (demo_event code)) ph' \<and> \<not> parse_refused (parse p (demo_event code))"
    if "?ok p ph" "permitted ph (EvSystem 0 code)" "next_phase_of ph code = Some ph'" "code \<notin> {0x41, 0x52, 0x42}" for p ph ph' code
    using day_step [of p code ph'] that by auto
  have "?ok demo_parser WaitingStartOfMessages"
    using parser_inv_new [OF demo_manager_new demo_slots, of 0] by (simp add: demo_parser_def newItchParser_def)
  note s1 = step [OF this, of "0x4F" StartupDirectorySpin]
  note s2 = step [OF conjunct1 [OF s1], of "0x53" SystemHours]
  note s3 = step [OF conjunct1 [OF s2], of "0x51" MarketHours]
  note s4 = step [OF conjunct1 [OF s3], of "0x4D" PostMarketHours]
  note s5 = step [OF conjunct1 [OF s4], of "0x45" PostSystemHours]
  note s6 = step [OF conjunct1 [OF s5], of "0x43" EndOfMessages]
  note S = s1 s2 s3 s4 s5 s6
  have "\<not> parse_refused (?q 1) \<and> \<not> parse_refused (?q 2) \<and> \<not> parse_refused (?q 3) \<and> \<not> parse_refused (?q 4) \<and> \<not> parse_refused (?q 5) \<and>
    \<not> parse_refused (?q 6) \<and> ip_channel_phase (?q 6) = EndOfMessages"
    using S by (simp add: demo_day_def permitted_def next_phase_of_def)
  then show "run_parser demo_parser (map demo_event demo_day) = (True, demo_parser_end)" "ip_channel_phase demo_parser_end = EndOfMessages"
    by (simp_all add: demo_day_def demo_parser_end_def Let_def)
qed

definition demo_decoder1 :: MoldUdpDecoder where
  "demo_decoder1 = set_expected (with_parser (demo_decoder\<lparr>md_first_packet_seen := True, md_channel := setSession (md_channel demo_decoder) demo_data\<rparr>) demo_parser_end) 7"

lemma demo_decoder_fields:
  "md_parser demo_decoder = demo_parser" "buf demo_decoder = newGapBuffer" "expected_seq demo_decoder = 1" "md_terminal_status demo_decoder = DecodeOk"
  "ch_status (md_channel demo_decoder) = Good" "ch_heartbeat_next_seq_high_watermark (md_channel demo_decoder) = 0" "md_pending_end_sequence demo_decoder = 0"
  "\<not> md_first_packet_seen demo_decoder" "phase_synced demo_decoder"
  by (simp_all add: demo_decoder_def newMoldUdpDecoder_def newChannelState_def demo_parser_def phase_synced_def newItchParser_def)

lemma demo_buffer: "gb_empty newGapBuffer" by (simp add: gb_empty_def newGapBuffer_def)

lemma demo_decoded:
  "\<exists>r. processPacket clk demo_decoder demo_packet = Some (r, demo_decoder1) \<and> dr_status r = DecodeOk"
  "decode_all clk demo_decoder [demo_packet] = Some demo_decoder1"
proof -
  let ?d = "demo_decoder\<lparr>md_first_packet_seen := True, md_channel := setSession (md_channel demo_decoder) demo_data\<rparr>"
  note F = demo_decoder_fields
  have d: "md_parser ?d = demo_parser" "buf ?d = newGapBuffer" "expected_seq ?d = 1" "ch_status (md_channel ?d) = Good"
    "ch_heartbeat_next_seq_high_watermark (md_channel ?d) = 0" "md_pending_end_sequence ?d = 0" "phase_synced ?d"
    using F by (simp_all add: setSession_def phase_synced_def)
  have "processPacket clk demo_decoder demo_packet = processSequenced clk ?d demo_data 1 6 0"
    using demo_packet_fields F unfolding packet_first_def packet_count_def
    by (simp add: processPacket_def demo_packet_def kHeaderSize_def kEndOfSessionMessageCount_def Let_def)
  moreover have "\<exists>r. processSequenced clk ?d demo_data 1 6 0 = Some (r, demo_decoder1) \<and> dr_status r = DecodeOk"
    using in_order_packet [of ?d demo_data 6 demo_parser_end clk 0] d demo_buffer gb_find_new demo_wf demo_day_parsed(1) demo_packet_fields(5)
    by (simp add: demo_decoder1_def)
  ultimately show one: "\<exists>r. processPacket clk demo_decoder demo_packet = Some (r, demo_decoder1) \<and> dr_status r = DecodeOk" by simp
  then show "decode_all clk demo_decoder [demo_packet] = Some demo_decoder1" by auto
qed

lemma demo_decoder1_fields:
  "md_terminal_status demo_decoder1 = DecodeOk" "ch_status (md_channel demo_decoder1) = Good" "expected_seq demo_decoder1 = 7"
  "buf demo_decoder1 = newGapBuffer" "ch_heartbeat_next_seq_high_watermark (md_channel demo_decoder1) = 0" "ch_phase (md_channel demo_decoder1) = EndOfMessages"
  "md_pending_end_sequence demo_decoder1 = 0" "md_first_packet_seen demo_decoder1"
  "ch_session (md_channel demo_decoder1) = replicate 10 0x41 @ [0]" "md_parser demo_decoder1 = demo_parser_end"
proof -
  have "take 10 demo_data = replicate 10 0x41" by (simp add: demo_data_def)
  then show "ch_session (md_channel demo_decoder1) = replicate 10 0x41 @ [0]"
    by (simp add: demo_decoder1_def setSession_def kSessionBytes_def decoder_updates)
qed (use demo_decoder_fields demo_day_parsed(2) in \<open>simp_all add: demo_decoder1_def setSession_def decoder_updates\<close>)

lemma demo_session_ends:
  "\<exists>r d. processPacket demo_clock demo_decoder1 demo_end = Some (r, d) \<and> dr_status r = EndOfStream \<and> md_terminal_status d = EndOfStream"
proof -
  note F = demo_decoder1_fields
  let ?P = "makeMoldEndOfSessionPacket (replicate 10 0x41) 7"
  have p: "length ?P = 20" "mold_readU16BE ?P 18 = 0xFFFF" "mold_readU64BE ?P 10 = 7" "take 10 ?P = replicate 10 0x41" by code_simp+
  have "sessionMatches (md_channel demo_decoder1) ?P" using F(9) p(4) by (simp add: sessionMatches_def kSessionBytes_def)
  then show ?thesis using F p demo_buffer
    by (simp add: processPacket_def demo_end_def processEndOfSession_def kHeaderSize_def kEndOfSessionMessageCount_def Let_def)
qed

section \<open>The engine\<close>

text \<open>One packet: the processor has taken its step, and the engine runs on only when the status allows it.\<close>

lemma engine_packet_step:
  assumes p: "process (eng_processor e) v = Some (r, s)" and run: "eng_running e"
  shows "\<exists>e'. engine_packet process e v = Some e' \<and> eng_processor e' = s \<and> eng_config e' = eng_config e \<and>
    (eng_running e' \<longleftrightarrow> dr_status r \<noteq> EndOfStream \<and> \<not> isTerminalDecodeFailure (dr_status r) \<and>
       (dr_status r \<noteq> DecodeOk \<longrightarrow> \<not> stop_on_decode_error (eng_config e)) \<and>
       (dr_status r = DecodeOk \<longrightarrow> \<not> (dr_had_gap r \<and> stop_on_sequence_gap (eng_config e))))"
  using p run by (auto simp: engine_packet_def eng_stop_def Let_def)

fun packets_of :: "PacketView option list \<Rightarrow> PacketView list" where
  "packets_of [] = []"
| "packets_of (None # ps) = packets_of ps"
| "packets_of (Some v # ps) = v # packets_of ps"

lemma engine_run_decodes:
  assumes "dec_inv init p0 C (eng_processor e)" "eng_running e" "md_terminal_status (eng_processor e) = DecodeOk"
  shows "\<exists>e' k. engine_run (processPacket elapsed) e polls = Some e' \<and> k \<le> length polls \<and>
    decode_all elapsed (eng_processor e) (packets_of (take k polls)) = Some (eng_processor e') \<and>
    (eng_running e' \<longrightarrow> k = length polls \<and> md_terminal_status (eng_processor e') = DecodeOk)"
  using assms
proof (induction polls arbitrary: e C)
  case Nil
  then show ?case by auto
next
  case (Cons poll polls)
  show ?case
  proof (cases poll)
    case None
    obtain e' k where "engine_run (processPacket elapsed) e polls = Some e'" "k \<le> length polls"
      "decode_all elapsed (eng_processor e) (packets_of (take k polls)) = Some (eng_processor e')"
      "eng_running e' \<longrightarrow> k = length polls \<and> md_terminal_status (eng_processor e') = DecodeOk"
      using Cons.IH [OF Cons.prems] by blast
    then show ?thesis using None Cons.prems(2) by (intro exI [of _ e'] exI [of _ "Suc k"]) simp
  next
    case (Some v)
    obtain r s where s: "processPacket elapsed (eng_processor e) v = Some (r, s)" "packet_step init p0 C (eng_processor e) v r s"
      using processPacket_step [OF Cons.prems(1)] by blast
    obtain e1 where e1: "engine_packet (processPacket elapsed) e v = Some e1" "eng_processor e1 = s"
      "eng_running e1 \<Longrightarrow> dr_status r \<noteq> EndOfStream \<and> \<not> isTerminalDecodeFailure (dr_status r)"
      using engine_packet_step [where process = "processPacket elapsed", OF s(1) Cons.prems(2)] by blast
    have one: "decode_all elapsed (eng_processor e) [v] = Some s" using s(1) by simp
    show ?thesis
    proof (cases "eng_running e1")
      case False
      have "engine_run (processPacket elapsed) e1 polls = Some e1" using False by (cases polls) simp_all
      then show ?thesis using e1 one False Some Cons.prems(2) by (intro exI [of _ e1] exI [of _ 1]) simp
    next
      case True
      have inv: "dec_inv init p0 (C \<union> view_claims v) (eng_processor e1)" using s(2) e1(2) by (simp add: packet_step_def)
      have t: "md_terminal_status (eng_processor e1) = DecodeOk"
        using s(2) e1(2,3) True inv Cons.prems(3) unfolding packet_step_def dec_inv_def by auto
      obtain e' k where "engine_run (processPacket elapsed) e1 polls = Some e'" "k \<le> length polls"
        "decode_all elapsed (eng_processor e1) (packets_of (take k polls)) = Some (eng_processor e')"
        "eng_running e' \<longrightarrow> k = length polls \<and> md_terminal_status (eng_processor e') = DecodeOk"
        using Cons.IH [OF inv True t] by blast
      then show ?thesis using e1 s(1) Some Cons.prems(2) by (intro exI [of _ e'] exI [of _ "Suc k"]) simp
    qed
  qed
qed

section \<open>Properties\<close>

lemma new_decoder_run:
  assumes "decode_all elapsed (newMoldUdpDecoder symbols books ch start) vs = Some d"
  shows "dec_inv (unat start) (newItchParser symbols books ch) (all_claims vs) d"
    "md_terminal_status d = DecodeOk \<Longrightarrow> ch_status (md_channel d) \<noteq> Stale \<Longrightarrow> v \<in> set vs \<Longrightarrow> pv_data v = Some data \<Longrightarrow>
      sequenced data \<Longrightarrow> delivered d data"
  using decode_all_inv [OF new_decoder_inv, of elapsed symbols books ch start vs] assms by auto

text \<open>C14. The decoder returns from every call. Its recovery loop has no bound in the sources; on whatever packets, in whatever order, from
  whatever first sequence, it ends.\<close>

theorem decoder_returns:
  "\<exists>d. decode_all elapsed (newMoldUdpDecoder symbols books ch start) vs = Some d"
  using decode_all_inv [OF new_decoder_inv] by blast

text \<open>C1. Exactly once and in order. Whatever packets arrive, lost, duplicated, reordered or malformed, the state of the parser, with its
  directory and books, is that of applying a list of messages in sequence order from the first sequence on, one for each
  sequence number and each taken from a validated packet that claims it for that number. While the decoder has not failed, the list
  reaches exactly up to the expected sequence.\<close>

theorem applied_exactly_once:
  assumes "decode_all elapsed (newMoldUdpDecoder symbols books ch start) vs = Some d"
  shows "\<exists>ms. (\<forall>k<length ms. (unat start + k, ms ! k) \<in> all_claims vs) \<and>
    md_parser d = fold (\<lambda>m p. snd (handlePrevalidatedMessage p m)) ms (newItchParser symbols books ch) \<and>
    (md_terminal_status d \<in> {DecodeOk, EndOfStream} \<longrightarrow> unat start + length ms = unat (ch_next_expected_seq (md_channel d)))"
  using dec_inv_messages [OF new_decoder_run(1) [OF assms]] unfolding parse_def .

theorem applied_exactly_once_witness:
  "\<exists>ms. length ms = 6 \<and> (\<forall>k<6. (1 + k, ms ! k) \<in> all_claims [demo_packet]) \<and>
     md_parser demo_decoder1 = fold (\<lambda>m p. snd (handlePrevalidatedMessage p m)) ms (newItchParser newStockDirectory demo_manager 0)"
  using applied_exactly_once [OF demo_decoded(2) [unfolded demo_decoder_def]] demo_decoder1_fields(1,3) by auto

text \<open>C2. Nothing that can be applied is left waiting. As long as the decoder has not failed and has not had to drop packets for lack of
  space, the expected sequence is the first sequence number, from the start on, that no validated packet received so far claims.\<close>

theorem expected_is_first_missing:
  assumes "decode_all elapsed (newMoldUdpDecoder symbols books ch start) vs = Some d"
    and "md_terminal_status d = DecodeOk" and "ch_status (md_channel d) \<noteq> Stale"
  shows "unat (ch_next_expected_seq (md_channel d)) = (LEAST n. unat start \<le> n \<and> n \<notin> fst ` all_claims vs)"
  using expected_is_least [OF new_decoder_run(1) [OF assms(1)] assms(2)] new_decoder_run(2) [OF assms] by blast

theorem expected_is_first_missing_witness: "(LEAST n. 1 \<le> n \<and> n \<notin> fst ` all_claims [demo_packet]) = (7 :: nat)"
  using expected_is_first_missing [OF demo_decoded(2) [unfolded demo_decoder_def]] demo_decoder1_fields(1,2,3) by simp

text \<open>C3. Redundant feeds converge. Two new decoders of the same configuration receive packets that claim the same messages, one message for each claimed
  sequence number. If neither decoder fails and neither has to drop packets (goes stale), they reach the same expected sequence and the
  same parser, directory and books, whatever the order, the grouping into packets and the duplicates on either side.\<close>

theorem feeds_converge:
  assumes "decode_all elapsed (newMoldUdpDecoder symbols books ch start) vs = Some d" "md_terminal_status d = DecodeOk" "ch_status (md_channel d) \<noteq> Stale"
    and "decode_all elapsed' (newMoldUdpDecoder symbols books ch start) ws = Some d'" "md_terminal_status d' = DecodeOk" "ch_status (md_channel d') \<noteq> Stale"
    and "all_claims vs = all_claims ws" "single_valued (all_claims vs)"
  shows "ch_next_expected_seq (md_channel d) = ch_next_expected_seq (md_channel d') \<and> md_parser d = md_parser d'"
proof -
  note R = new_decoder_run(1) [OF assms(1)] and R' = new_decoder_run(1) [OF assms(4)]
  have e: "unat (expected_seq d) = unat (expected_seq d')"
    using expected_is_least [OF R assms(2) new_decoder_run(2) [OF assms(1-3)]] expected_is_least [OF R' assms(5) new_decoder_run(2) [OF assms(4-6)]]
    unfolding assms(7) by simp
  obtain ms ms' where m: "\<forall>k<length ms. (unat start + k, ms ! k) \<in> all_claims vs" "md_parser d = fold (\<lambda>m p. parse p m) ms (newItchParser symbols books ch)"
      "unat start + length ms = unat (expected_seq d)"
    and m': "\<forall>k<length ms'. (unat start + k, ms' ! k) \<in> all_claims vs" "md_parser d' = fold (\<lambda>m p. parse p m) ms' (newItchParser symbols books ch)"
      "unat start + length ms' = unat (expected_seq d')"
    using dec_inv_messages [OF R] dec_inv_messages [OF R'] assms(2,5) unfolding assms(7) by auto
  have "ms = ms'" by (rule messages_determined [OF m(1) m'(1)]) (use m(3) m'(3) e assms(8) in \<open>auto dest: single_valuedD\<close>)
  then show ?thesis using m(2) m'(2) e by (simp add: word_unat_eq_iff)
qed

definition demo_noise :: PacketView where "demo_noise = \<lparr>pv_data = None, pv_receive_start_ticks = 0\<rparr>"

lemma demo_noise_ignored: "\<exists>r. processPacket clk demo_decoder1 demo_noise = Some (r, demo_decoder1) \<and> dr_status r = PacketTooSmall"
  using demo_decoder1_fields(1) by (simp add: processPacket_def demo_noise_def)

text \<open>The day of the worked session in other packets: the two halves of the day as one packet each. The second half comes first and
  waits in the buffer, each half comes twice.\<close>

definition demo_half :: "u8 \<Rightarrow> u8 list \<Rightarrow> u8 list" where
  "demo_half first codes = replicate 10 0x41 @ replicate 7 0 @ [first, 0, 3] @ concat (map (\<lambda>code. [0, 12] @ demo_event code) codes)"

definition demo_halves :: "PacketView list" where
  "demo_halves = map (\<lambda>data. \<lparr>pv_data = Some data, pv_receive_start_ticks = 0\<rparr>)
     [demo_half 4 (drop 3 demo_day), demo_half 4 (drop 3 demo_day), demo_half 1 (take 3 demo_day), demo_half 1 (take 3 demo_day)]"

lemma demo_half_fields:
  "length (demo_half 4 (drop 3 demo_day)) = 62" "packet_first (demo_half 4 (drop 3 demo_day)) = 4" "packet_count (demo_half 4 (drop 3 demo_day)) = 3"
  "validateSequencedPacket (demo_half 4 (drop 3 demo_day)) 3 = DecodeOk" "packet_messages (demo_half 4 (drop 3 demo_day)) 3 = map demo_event (drop 3 demo_day)"
  "length (demo_half 1 (take 3 demo_day)) = 62" "packet_first (demo_half 1 (take 3 demo_day)) = 1" "packet_count (demo_half 1 (take 3 demo_day)) = 3"
  "validateSequencedPacket (demo_half 1 (take 3 demo_day)) 3 = DecodeOk" "packet_messages (demo_half 1 (take 3 demo_day)) 3 = map demo_event (take 3 demo_day)"
  by code_simp+

lemma demo_half_wf: "sequenced (demo_half 4 (drop 3 demo_day))" "sequenced (demo_half 1 (take 3 demo_day))"
  using demo_half_fields by (simp_all add: wf_packet_def sequenced_def kHeaderSize_def kEndOfSessionMessageCount_def)

lemma demo_claims: "all_claims [demo_packet] = numbered 1 (map demo_event demo_day)" "all_claims demo_halves = numbered 1 (map demo_event demo_day)"
proof -
  show "all_claims [demo_packet] = numbered 1 (map demo_event demo_day)"
    using numbered_claims [OF demo_wf(2), of demo_packet] by (simp add: all_claims_def demo_packet_def demo_packet_fields)
  have "all_claims demo_halves = numbered 4 (map demo_event (drop 3 demo_day)) \<union> numbered 1 (map demo_event (take 3 demo_day))"
    using numbered_claims [OF demo_half_wf(1)] numbered_claims [OF demo_half_wf(2)]
    by (simp add: all_claims_def demo_halves_def demo_half_fields del: drop_map take_map)
  moreover have len: "1 + length (map demo_event (take 3 demo_day)) = 4" by code_simp
  moreover have "numbered 4 (map demo_event (drop 3 demo_day)) \<union> numbered 1 (map demo_event (take 3 demo_day)) = numbered 1 (map demo_event (take 3 demo_day) @ map demo_event (drop 3 demo_day))"
    unfolding numbered_append len by (rule Un_commute)
  ultimately show "all_claims demo_halves = numbered 1 (map demo_event demo_day)" by (metis append_take_drop_id map_append)
qed

lemma demo_halves_decoded:
  obtains d where "decode_all clk demo_decoder demo_halves = Some d" "md_terminal_status d = DecodeOk" "ch_status (md_channel d) \<noteq> Stale"
proof -
  let ?D = "{demo_half 4 (drop 3 demo_day), demo_half 1 (take 3 demo_day)}"
  have "take 10 (demo_half n codes) = replicate 10 0x41" for n codes by (simp add: demo_half_def)
  then have D: "clean_packets (replicate 10 0x41) ?D"
    using demo_half_fields demo_half_wf by (auto simp: clean_packets_def inj_on_def kCapacity_def card_insert_if)
  have v: "\<forall>v \<in> set demo_halves. \<exists>data \<in> ?D. pv_data v = Some data" by (simp add: demo_halves_def)
  have acc: "fst (run_parser (newItchParser newStockDirectory demo_manager 0) (map demo_event demo_day))"
    using demo_day_parsed(1) by (simp add: demo_parser_def)
  show thesis
    by (rule accepted_stream [OF D v acc, of 1 clk]) (use demo_claims(2) that in \<open>simp_all add: demo_decoder_def\<close>)
qed

theorem feeds_converge_witness:
  "\<exists>d d'. decode_all demo_clock demo_decoder demo_halves = Some d \<and> decode_all (\<lambda>_ _. 1) demo_decoder [demo_packet] = Some d' \<and>
     md_parser d = md_parser d' \<and> ch_next_expected_seq (md_channel d) = 7 \<and> ip_channel_phase (md_parser d) = EndOfMessages"
proof (rule demo_halves_decoded [of demo_clock])
  fix d assume d: "decode_all demo_clock demo_decoder demo_halves = Some d" "md_terminal_status d = DecodeOk" "ch_status (md_channel d) \<noteq> Stale"
  have one: "decode_all (\<lambda>_ _. 1) demo_decoder [demo_packet] = Some demo_decoder1" "md_terminal_status demo_decoder1 = DecodeOk"
    "ch_status (md_channel demo_decoder1) \<noteq> Stale" using demo_decoded(2) demo_decoder1_fields(1,2) by simp_all
  have c: "all_claims demo_halves = all_claims [demo_packet]" "single_valued (all_claims demo_halves)"
    unfolding demo_claims by (simp_all add: numbered_single_valued)
  note same = feeds_converge [OF d(1) [unfolded demo_decoder_def] d(2,3) one(1) [unfolded demo_decoder_def] one(2,3) c]
  show ?thesis using d(1) one(1) same demo_decoder1_fields(3,10) demo_day_parsed(2) by auto
qed

lemma end_of_stream_state:
  assumes "newBookManager slot_bytes slot_align page config = Inr m"
    and "decode_all elapsed (newMoldUdpDecoder newStockDirectory m ch start) vs = Some d" "endOfStreamAccepted d"
  shows "session_complete d" "phase_synced d" "gap_inv (buf d)" "parser_reachable config (md_parser d)"
    "unat start \<le> n \<Longrightarrow> n < unat (expected_seq d) \<Longrightarrow> n \<in> fst ` all_claims vs"
proof -
  have t: "md_terminal_status d = EndOfStream" using assms(3) by (simp add: endOfStreamAccepted_def)
  note R = new_decoder_run(1) [OF assms(2)]
  obtain ms where ms: "\<forall>k<length ms. (unat start + k, ms ! k) \<in> all_claims vs" "md_parser d = fold (\<lambda>m p. parse p m) ms (newItchParser newStockDirectory m ch)"
    "unat start + length ms = unat (expected_seq d)" using dec_inv_messages [OF R] t by auto
  show "session_complete d" "phase_synced d" "gap_inv (buf d)"
    using R t by (auto simp: dec_inv_def dec_core_def stored_ok_def)
  have "list_all valid_message ms" unfolding list_all_length using ms(1) claims_valid by blast
  then show "parser_reachable config (md_parser d)" unfolding ms(2) by (rule parse_reachable [OF parser_new [OF assms(1)]])
  show "n \<in> fst ` all_claims vs" if n: "unat start \<le> n" "n < unat (expected_seq d)" for n
  proof -
    have "n - unat start < length ms" using n ms(3) by linarith
    then have "(unat start + (n - unat start), ms ! (n - unat start)) \<in> all_claims vs" using ms(1) by blast
    then show ?thesis using n by force
  qed
qed

text \<open>A decoder that has reached the end of the stream did so on some first part of its input, and all end-of-session packets of that part announce the
  sequence number at which it stopped.\<close>

lemma decode_all_terminal: "md_terminal_status d \<noteq> DecodeOk \<Longrightarrow> decode_all elapsed d vs = Some d"
  by (induction vs) (simp_all add: processPacket_def)

lemma decode_all_end:
  assumes "end_inv A d" "md_terminal_status d = DecodeOk" "decode_all elapsed d vs = Some d'" "md_terminal_status d' = EndOfStream"
  shows "\<exists>us ws. vs = us @ ws \<and> decode_all elapsed d us = Some d' \<and> A \<union> announced_ends us = {expected_seq d'}"
  using assms
proof (induction vs arbitrary: A d)
  case (Cons v vs)
  obtain r d1 where s: "processPacket elapsed d v = Some (r, d1)" "decode_all elapsed d1 vs = Some d'"
    using Cons.prems(3) by (auto split: option.splits)
  note e = processPacket_end [OF Cons.prems(1,2) s(1)]
  show ?case
  proof (cases "md_terminal_status d1 = DecodeOk")
    case True
    then obtain us ws where "vs = us @ ws" "decode_all elapsed d1 us = Some d'" "A \<union> announced_end v \<union> announced_ends us = {expected_seq d'}"
      using Cons.IH [OF e True s(2) Cons.prems(4)] by blast
    then show ?thesis using s(1) by (intro exI [of _ "v # us"] exI [of _ ws]) (simp add: Un_assoc)
  next
    case False
    then have "d' = d1" using decode_all_terminal s(2) by simp
    then show ?thesis using e s(1) Cons.prems(4) by (intro exI [of _ "[v]"] exI [of _ vs]) (simp add: end_inv_def)
  qed
qed simp

text \<open>C4. The end of the stream is accepted only when the session is complete. A decoder that accepts it does so on a first part of the packets, and
  ignores what follows. In that part at least one end of session is announced, all announced ends are the same number, and it is the number after the
  last message applied: every sequence number from the start up to the announced end is claimed by a validated packet of that part. The
  last message applied was the end of messages, no packet is waiting, and no order is left in any book. (With fewer than \<open>2 ^ 32 - 1\<close> order
  slots configured.)\<close>

theorem end_of_stream_complete:
  assumes "newBookManager slot_bytes slot_align page config = Inr m" "order_slots config < 2 ^ 32 - 1"
    and "decode_all elapsed (newMoldUdpDecoder newStockDirectory m ch start) vs = Some d" "endOfStreamAccepted d"
  shows "\<exists>us ws final. vs = us @ ws \<and> decode_all elapsed (newMoldUdpDecoder newStockDirectory m ch start) us = Some d \<and>
    announced_ends us = {final} \<and> ch_next_expected_seq (md_channel d) = final \<and>
    (\<forall>n. unat start \<le> n \<and> n < unat final \<longrightarrow> n \<in> fst ` all_claims us) \<and>
    ip_channel_phase (md_parser d) = EndOfMessages \<and> gb_find (ch_gap_buffer (md_channel d)) = Map.empty \<and>
    book_orders (mgr_stores (ip_books (md_parser d))) = Map.empty"
proof -
  let ?new = "newMoldUdpDecoder newStockDirectory m ch start"
  have new: "end_inv {} ?new" "md_terminal_status ?new = DecodeOk" by (simp_all add: end_inv_def newMoldUdpDecoder_def)
  have "md_terminal_status d = EndOfStream" using assms(4) by (simp add: endOfStreamAccepted_def)
  then obtain us ws where us: "vs = us @ ws" "decode_all elapsed ?new us = Some d" "announced_ends us = {expected_seq d}"
    using decode_all_end [OF new assms(3)] by auto
  note s = end_of_stream_state [OF assms(1) us(2) assms(4)]
  have ph: "ip_channel_phase (md_parser d) = EndOfMessages" using s(1,2) by (simp add: session_complete_def phase_synced_def)
  then have "fs_orders (feed_of (md_parser d)) = Map.empty" using end_without_orders s(4) assms(2) by blast
  then show ?thesis using ph gb.is_empty_iff [OF s(3)] s(1,5) us
    by (intro exI [of _ us] exI [of _ ws] exI [of _ "expected_seq d"]) (simp add: session_complete_def)
qed

theorem end_of_stream_complete_witness:
  "\<exists>d. decode_all demo_clock demo_decoder [demo_packet, demo_end, demo_packet] = Some d \<and> ch_next_expected_seq (md_channel d) = 7 \<and>
     book_orders (mgr_stores (ip_books (md_parser d))) = Map.empty \<and> gb_find (ch_gap_buffer (md_channel d)) = Map.empty"
proof -
  let ?vs = "[demo_packet, demo_end, demo_packet]"
  obtain r d where d: "processPacket demo_clock demo_decoder1 demo_end = Some (r, d)" "md_terminal_status d = EndOfStream"
    using demo_session_ends by blast
  obtain r1 where "processPacket demo_clock demo_decoder demo_packet = Some (r1, demo_decoder1)" using demo_decoded(1) by blast
  then have run: "decode_all demo_clock demo_decoder ?vs = Some d"
    using d decode_all_terminal [of d demo_clock "[demo_packet]"] by simp
  have a: "announced_end demo_packet = {}" "announced_end demo_end = {7}" by code_simp+
  obtain us ws final where r: "?vs = us @ ws" "announced_ends us = {final}" "expected_seq d = final"
      "gb_find (buf d) = Map.empty" "book_orders (mgr_stores (ip_books (md_parser d))) = Map.empty"
    using end_of_stream_complete [OF demo_manager_new demo_slots run [unfolded demo_decoder_def]] d(2) by (auto simp: endOfStreamAccepted_def)
  have "set us \<subseteq> {demo_packet, demo_end}" using arg_cong [OF r(1), of set] by auto
  then have "announced_ends us \<subseteq> {7}" using a by (fastforce simp: announced_ends_def)
  then show ?thesis using run r by auto
qed

text \<open>C15. The reported status is the state of the decoder. A call returns the terminal status, except that a datagram too short for a header is
  reported as such and ignored; a failure that ends the session is one of those the engine must stop on; and a decoder that has failed
  or reached the end of the stream reports that for ever and never changes again.\<close>

theorem terminal_status_sticky:
  assumes "decode_all elapsed (newMoldUdpDecoder symbols books ch start) vs = Some d" and "processPacket elapsed d v = Some (r, d')"
  shows "(dr_status r = md_terminal_status d' \<or> dr_status r = PacketTooSmall \<and> d' = d \<and> md_terminal_status d = DecodeOk) \<and>
    (md_terminal_status d' \<in> {DecodeOk, EndOfStream} \<or> isTerminalDecodeFailure (md_terminal_status d')) \<and>
    (md_terminal_status d \<noteq> DecodeOk \<longrightarrow> d' = d \<and> dr_status r = md_terminal_status d)"
proof -
  have inv: "dec_inv (unat start) (newItchParser symbols books ch) (all_claims vs) d" by (rule new_decoder_run(1) [OF assms(1)])
  have st: "packet_step (unat start) (newItchParser symbols books ch) (all_claims vs) d v r d'"
    using processPacket_step [OF inv, of elapsed v] assms(2) by auto
  have "dr_status r = md_terminal_status d \<and> d' = d" if "md_terminal_status d \<noteq> DecodeOk" using assms(2) that by (auto simp: processPacket_def)
  then show ?thesis using st unfolding packet_step_def dec_inv_def by auto
qed

theorem terminal_status_sticky_witness:
  "\<exists>r d. processPacket demo_clock demo_decoder1 demo_noise = Some (r, d) \<and> dr_status r = PacketTooSmall \<and> d = demo_decoder1"
proof -
  obtain r d where p: "processPacket demo_clock demo_decoder1 demo_noise = Some (r, d)" "dr_status r = PacketTooSmall"
    using demo_noise_ignored [of demo_clock] by blast
  show ?thesis using terminal_status_sticky [OF demo_decoded(2) [unfolded demo_decoder_def] p(1)] p demo_decoder1_fields(1) by auto
qed

text \<open>The engine runs the decoder to its end and not beyond. Whatever its source delivers, the engine's loop gets through it; the decoder has then
  processed, once each and in order, the packets of the polls up to some point, all of them if the engine is still running, and the engine is
  not running once the decoder has failed or reached the end of the stream.\<close>

theorem engine_stops_with_decoder:
  assumes "e = newMarketDataEngine (newMoldUdpDecoder symbols books ch start) recorder config"
  shows "\<exists>e' k. engine_run (processPacket elapsed) e polls = Some e' \<and> k \<le> length polls \<and>
    decode_all elapsed (newMoldUdpDecoder symbols books ch start) (packets_of (take k polls)) = Some (eng_processor e') \<and>
    (eng_running e' \<longrightarrow> k = length polls) \<and> (md_terminal_status (eng_processor e') \<noteq> DecodeOk \<longrightarrow> \<not> eng_running e')"
proof -
  have p: "eng_processor e = newMoldUdpDecoder symbols books ch start" "eng_running e" by (simp_all add: assms newMarketDataEngine_def)
  have "md_terminal_status (eng_processor e) = DecodeOk" by (simp add: p newMoldUdpDecoder_def)
  from engine_run_decodes [OF new_decoder_inv [of start symbols books ch, folded p(1)] p(2) this, of elapsed polls] show ?thesis
    unfolding p(1) by blast
qed

theorem engine_stops_with_decoder_witness:
  "\<exists>e. engine_run (processPacket demo_clock) (newMarketDataEngine demo_decoder newLatencyRecorder
      \<lparr>enable_latency_metrics = True, enable_stage_latency_metrics = False, stop_on_decode_error = False, stop_on_sequence_gap = False\<rparr>)
      [None, Some demo_packet, Some demo_end, Some demo_packet] = Some e"
  using engine_stops_with_decoder [OF refl, where symbols = newStockDirectory and books = demo_manager and ch = 0 and start = 1
      and recorder = newLatencyRecorder and elapsed = demo_clock and polls = "[None, Some demo_packet, Some demo_end, Some demo_packet]"]
  unfolding demo_decoder_def by blast

end
