(* ===== verification/ItchReplay.thy ===== *)
theory ItchReplay
  imports ItchMoldUdpSource MoldUdpDecoderCorrect
begin

text \<open>
  The replay source against the BinaryFILE format and the decoder. \<open>file_of\<close> is the text of a list of messages, and \<open>day_so_far\<close> the
  form every prefix of a trading day has. The loop of \<open>next\<close> takes messages from the front of the file (\<open>next_loop_sound\<close>) and, on a
  complete file, never stops before the end (\<open>next_loop_complete\<close>).
\<close>

section \<open>Files\<close>

lemma writers: "writeU16BE v = be_bytes 2 v" "writeU64BE w = be_bytes 8 w"
  by (simp_all add: writeU16BE_def writeU64BE_def be_bytes_def low_byte eval_nat_numeral)

definition rec_of :: "u8 list \<Rightarrow> u8 list" where "rec_of m = writeU16BE (of_nat (length m)) @ m"

definition file_of :: "u8 list list \<Rightarrow> u8 list" where "file_of ms = concat (map rec_of ms)"

lemma file_of_simps [simp]: "file_of [] = []" "file_of (m # ms) = rec_of m @ file_of ms" "file_of (ms @ ms') = file_of ms @ file_of ms'"
  by (simp_all add: file_of_def)

text \<open>A message of the day, and the order of the messages: the first is the start of messages and only the last can be
  the end of messages.\<close>

definition day_message :: "u8 list \<Rightarrow> bool" where
  "day_message m \<longleftrightarrow> valid_message m \<and> (m ! 0 = 0x53 \<longrightarrow> m ! 1 = 0 \<and> m ! 2 = 0)"

definition is_start_of_messages :: "u8 list \<Rightarrow> bool" where "is_start_of_messages m \<longleftrightarrow> m ! 0 = 0x53 \<and> m ! 11 = 0x4F"

definition ended :: "u8 list list \<Rightarrow> bool" where "ended ms \<longleftrightarrow> ms \<noteq> [] \<and> is_end_of_messages (last ms)"

definition day_so_far :: "u8 list list \<Rightarrow> bool" where
  "day_so_far ms \<longleftrightarrow> list_all day_message ms \<and> (ms \<noteq> [] \<longrightarrow> is_start_of_messages (ms ! 0)) \<and>
     (\<forall>k. Suc k < length ms \<longrightarrow> \<not> is_end_of_messages (ms ! k))"

lemma day_message_length: "day_message m \<Longrightarrow> 12 \<le> length m \<and> length m \<le> 50"
  using expected_length_cases [of "m ! 0"] by (auto simp: day_message_def valid_message_def)

lemma record_length:
  assumes "length m < 2 ^ 16"
  shows "length (rec_of m) = length m + 2" "unat (mold_readU16BE (rec_of m @ xs) 0) = length m"
    "drop 2 (rec_of m @ xs) = m @ xs"
proof -
  show "length (rec_of m) = length m + 2" "drop 2 (rec_of m @ xs) = m @ xs" by (simp_all add: rec_of_def writers)
  have "unat (mold_readU16BE (rec_of m @ xs) 0) = be_value (take 2 (rec_of m @ xs))"
    using readers_value(1) [of 0 "rec_of m @ xs"] by (simp add: mold_readers rec_of_def writers)
  also have "\<dots> = unat (of_nat (length m) :: u16) mod 256 ^ 2" by (simp add: rec_of_def writers be_value_bytes)
  finally show "unat (mold_readU16BE (rec_of m @ xs) 0) = length m" using assms by (simp add: unat_of_nat)
qed

lemma be_bytes_2: "be_bytes 2 w = [ucast (drop_bit 8 w), ucast w]" by (simp add: be_bytes_def upt_rec)

lemma read_record:
  assumes "2 \<le> length xs" "unat (mold_readU16BE xs 0) \<le> length xs - 2"
  shows "xs = rec_of (take (unat (mold_readU16BE xs 0)) (drop 2 xs)) @ drop (unat (mold_readU16BE xs 0)) (drop 2 xs)"
proof -
  let ?n = "unat (mold_readU16BE xs 0)"
  have h: "xs = take 2 xs @ drop 2 xs" by simp
  have t: "take 2 xs = [xs ! 0, xs ! 1]" using assms(1) by (cases xs; cases "tl xs") auto
  have "be_bytes 2 (mold_readU16BE xs 0) = take 2 xs"
  proof -
    let ?w = "mold_readU16BE xs 0"
    have "unat (ucast (drop_bit 8 ?w) :: u8) = unat (xs ! 0)" "unat (ucast ?w :: u8) = unat (xs ! 1)"
      using readers_value(1) [of 0 xs] assms(1) byte_less [of "xs ! 0"] byte_less [of "xs ! 1"] unat_byte_of [of 0 ?w]
      by (simp_all add: mold_readers unat_byte_of t be_value_def)
    then show ?thesis by (simp add: t be_bytes_2 word_unat_eq_iff)
  qed
  moreover have "(of_nat (length (take ?n (drop 2 xs))) :: u16) = mold_readU16BE xs 0" using assms by (simp add: min_def)
  ultimately have "rec_of (take ?n (drop 2 xs)) = take 2 xs @ take ?n (drop 2 xs)" by (simp add: rec_of_def writers)
  then show ?thesis by (metis append.assoc append_take_drop_id)
qed

section \<open>One packet\<close>

text \<open>The states of a source on the file \<open>c\<close> that has taken the messages \<open>ms\<close>: reading, or stopped with an error or at a complete end.\<close>

definition src_at :: "u8 list \<Rightarrow> ItchMoldUdpSource \<Rightarrow> u8 list list \<Rightarrow> bool" where
  "src_at c s ms \<longleftrightarrow> \<not> src_eof s \<and> \<not> src_completed s \<and> src_last_error s = [] \<and> src_completion_kind s = CompletionNone \<and>
     c = file_of ms @ src_input s \<and> day_so_far ms \<and> src_saw_message s = (ms \<noteq> []) \<and>
     src_last_message_was_end_of_messages s = ended ms \<and> src_next_seq s = 1 + of_nat (length ms)"

definition complete_file :: "CompletionPolicy \<Rightarrow> u8 list list \<Rightarrow> CompletionKind \<Rightarrow> u8 list \<Rightarrow> bool" where
  "complete_file policy ms kind c \<longleftrightarrow> day_so_far ms \<and> ended ms \<and>
     (c = file_of ms @ [0, 0] \<and> kind = CompletionTerminator \<or>
      c = file_of ms \<and> policy = AllowEofAfterEndOfMessages \<and> kind = LegacyEndOfMessagesEof)"

definition src_stopped :: "u8 list \<Rightarrow> ItchMoldUdpSource \<Rightarrow> u8 list list \<Rightarrow> bool" where
  "src_stopped c s ms \<longleftrightarrow> src_eof s \<and> day_so_far ms \<and> (\<exists>rest. c = file_of ms @ rest) \<and> src_next_seq s = 1 + of_nat (length ms) \<and>
     (if src_completed s then src_last_error s = [] \<and> complete_file (src_completion_policy s) ms (src_completion_kind s) c
      else src_last_error s \<noteq> [] \<and> src_completion_kind s = CompletionNone)"

definition same_setup :: "ItchMoldUdpSource \<Rightarrow> ItchMoldUdpSource \<Rightarrow> bool" where
  "same_setup s s' \<longleftrightarrow> src_session s' = src_session s \<and> src_completion_policy s' = src_completion_policy s \<and>
     src_msgs_per_packet s' = src_msgs_per_packet s"

lemma day_so_far_snoc:
  assumes "day_so_far ms" "\<not> ended ms" "day_message m" "ms = [] \<Longrightarrow> is_start_of_messages m"
  shows "day_so_far (ms @ [m])"
proof -
  have "\<not> is_end_of_messages ((ms @ [m]) ! k)" if "Suc k < length (ms @ [m])" for k
  proof (cases "Suc k < length ms")
    case True
    then show ?thesis using assms(1) by (simp add: day_so_far_def nth_append)
  next
    case False
    then have "ms \<noteq> []" "k = length ms - 1" using that by auto
    then show ?thesis using assms(2) by (simp add: ended_def last_conv_nth nth_append)
  qed
  then show ?thesis using assms by (auto simp: day_so_far_def nth_append)
qed

lemma record_error_None:
  assumes "record_error s m = None" "m \<noteq> []"
  shows "day_message m" "\<not> src_saw_message s \<Longrightarrow> is_start_of_messages m"
  using assms by (auto simp: record_error_def Let_def day_message_def valid_message_def is_start_of_messages_def split: if_splits)

lemma record_error_Some: "record_error s m = Some e \<Longrightarrow> e \<noteq> []"
  by (auto simp: record_error_def Let_def split: if_splits)

declare next_loop.simps [simp del]

lemma packet_limit: "kMoldHeaderSize = 20" "kMaxPacketBytes = 1472"
  by (simp_all add: kMoldHeaderSize_def kMaxPacketBytes_def kStandardIpv4UdpPayloadBytes_def kMaxPacketSize_def)

lemma stop_states:
  assumes "src_at c s ms"
  shows "e \<noteq> [] \<Longrightarrow> src_stopped c (src_fail (s\<lparr>src_input := xs\<rparr>) e) ms"
    "src_input s = [] \<Longrightarrow> src_stopped c (read_eof s) ms"
    "src_input s = [0, 0] @ xs \<Longrightarrow> src_stopped c (read_terminator (s\<lparr>src_input := xs\<rparr>)) ms"
    "same_setup s (src_fail (s\<lparr>src_input := xs\<rparr>) e)" "same_setup s (read_eof s)" "same_setup s (read_terminator (s\<lparr>src_input := xs\<rparr>))"
  using assms by (auto simp: src_at_def src_stopped_def complete_file_def same_setup_def src_fail_def read_eof_def read_terminator_def)

text \<open>What is left to read of a complete file.\<close>

lemma file_split:
  assumes "list_all day_message ms" "list_all day_message day" "file_of ms @ xs = file_of day @ z" "length z \<le> 2"
  shows "\<exists>rest. day = ms @ rest \<and> xs = file_of rest @ z"
  using assms
proof (induction ms arbitrary: day)
  case (Cons m ms)
  have m: "length m < 2 ^ 16" "12 \<le> length m" using day_message_length [of m] Cons.prems(1) by auto
  show ?case
  proof (cases day)
    case Nil
    have "length (file_of (m # ms) @ xs) \<le> 2" using Cons.prems(3,4) Nil by simp
    then show ?thesis using m record_length(1) [OF m(1)] by simp
  next
    case (Cons m' day')
    have m': "length m' < 2 ^ 16" using day_message_length [of m'] Cons.prems(2) Cons by simp
    have e: "rec_of m @ file_of ms @ xs = rec_of m' @ file_of day' @ z" using Cons.prems(3) Cons by simp
    have "length m = length m'"
      using record_length(2) [OF m(1), of "file_of ms @ xs"] record_length(2) [OF m', of "file_of day' @ z"] by (simp add: e)
    then have "m = m'" "file_of ms @ xs = file_of day' @ z" using e by (simp_all add: rec_of_def writers)
    then show ?thesis using Cons.IH [of day'] Cons.prems Cons by auto
  qed
qed auto

lemma complete_rest:
  assumes at: "src_at c s ms" and day: "complete_file policy day kind c"
  shows "ended ms \<and> (src_input s = [0, 0] \<or> src_input s = [] \<and> policy = AllowEofAfterEndOfMessages) \<or>
    (\<exists>m xs. \<not> ended ms \<and> src_input s = rec_of m @ xs \<and> day_message m \<and> (ms = [] \<longrightarrow> is_start_of_messages m))"
proof -
  obtain z where z: "c = file_of day @ z" "z = [0, 0] \<or> z = [] \<and> policy = AllowEofAfterEndOfMessages"
    using day unfolding complete_file_def by auto
  have D: "list_all day_message day" "list_all day_message ms" "day_so_far day" "ended day" using at day by (auto simp: src_at_def complete_file_def day_so_far_def)
  have "file_of ms @ src_input s = file_of day @ z" using at z(1) by (simp add: src_at_def)
  then obtain rest where r: "day = ms @ rest" "src_input s = file_of rest @ z" using file_split [OF D(2,1)] z(2) by fastforce
  show ?thesis
  proof (cases rest)
    case Nil
    then show ?thesis using r D z(2) by auto
  next
    case (Cons m rest')
    have "\<not> is_end_of_messages (ms ! k)" if "k < length ms" for k
      using D(3) that unfolding day_so_far_def r(1) by (auto simp: Cons nth_append dest: spec [of _ k])
    then have "\<not> ended ms" by (auto simp: ended_def last_conv_nth)
    moreover have "ms = [] \<longrightarrow> is_start_of_messages m" using D(3) r(1) Cons by (auto simp: day_so_far_def)
    ultimately show ?thesis using r(2) D(1) Cons r(1) by auto
  qed
qed

definition loop_result :: "u8 list \<Rightarrow> ItchMoldUdpSource \<Rightarrow> u8 list list \<Rightarrow> u16 \<Rightarrow> u8 list \<Rightarrow> ItchMoldUdpSource \<times> u16 \<times> u8 list \<Rightarrow> bool" where
  "loop_result c s ms cnt body res \<longleftrightarrow> (case res of (s', cnt', body') \<Rightarrow>
     same_setup s s' \<and> 20 + length body' \<le> 1472 \<and>
     (\<exists>ms'. (src_at c s' (ms @ ms') \<or> src_stopped c s' (ms @ ms')) \<and> body' = body @ file_of ms' \<and> unat cnt' = unat cnt + length ms' \<and>
        (src_eof s' \<or> ms' \<noteq> [] \<or> cnt \<noteq> 0 \<or> src_msgs_per_packet s = 0)) \<and>
     ((\<exists>day kind. complete_file (src_completion_policy s) day kind c) \<longrightarrow> src_eof s' \<longrightarrow> src_completed s'))"

lemma loop_resultI:
  assumes "same_setup s s'" "src_at c s' ms \<or> src_stopped c s' ms" "20 + length body \<le> 1472"
    and "src_eof s' \<or> cnt \<noteq> 0 \<or> src_msgs_per_packet s = 0"
    and "\<And>day kind. complete_file (src_completion_policy s) day kind c \<Longrightarrow> src_eof s' \<Longrightarrow> src_completed s'"
  shows "loop_result c s ms cnt body (s', cnt, body)"
  using assms unfolding loop_result_def by (force intro: exI [of _ "[]"])

lemma loop_result_step:
  assumes "loop_result c s3 (ms @ [m]) (cnt + 1) (body @ rec_of m) res" "same_setup s s3" "unat (cnt + 1) = unat cnt + 1"
  shows "loop_result c s ms cnt body res"
proof -
  obtain s' cnt' body' where r: "res = (s', cnt', body')" by (cases res)
  obtain ms' where m: "src_at c s' ((ms @ [m]) @ ms') \<or> src_stopped c s' ((ms @ [m]) @ ms')" "body' = (body @ rec_of m) @ file_of ms'"
    "unat cnt' = unat (cnt + 1) + length ms'" and b: "20 + length body' \<le> 1472" "same_setup s3 s'"
    and p: "(\<exists>day kind. complete_file (src_completion_policy s3) day kind c) \<longrightarrow> src_eof s' \<longrightarrow> src_completed s'"
    using assms(1) unfolding loop_result_def r by blast
  have "same_setup s s'" "src_completion_policy s3 = src_completion_policy s" using b(2) assms(2) by (simp_all add: same_setup_def)
  then show ?thesis unfolding loop_result_def r using m b p assms(3) by (auto intro!: exI [of _ "m # ms'"])
qed

text \<open>One record: the checks that the loop makes before it takes a message.\<close>

definition takes_message :: "ItchMoldUdpSource \<Rightarrow> u16 \<Rightarrow> u8 list \<Rightarrow> bool" where
  "takes_message s cnt body \<longleftrightarrow> (let l = unat (mold_readU16BE (src_input s) 0); rest = drop 2 (src_input s) in
     cnt < src_msgs_per_packet s \<and> \<not> src_last_message_was_end_of_messages s \<and> 2 \<le> length (src_input s) \<and> l \<noteq> 0 \<and>
     20 + length body + 2 + l \<le> 1472 \<and> l \<le> length rest \<and> record_error (s\<lparr>src_input := drop l rest\<rparr>) (take l rest) = None)"

definition after_message :: "ItchMoldUdpSource \<Rightarrow> u8 list \<Rightarrow> ItchMoldUdpSource" where
  "after_message s m = s\<lparr>src_input := drop (length m + 2) (src_input s), src_saw_message := True,
     src_last_message_was_end_of_messages := is_end_of_messages m, src_next_seq := src_next_seq s + 1\<rparr>"

lemma record_error_setup [simp]: "record_error (s\<lparr>src_input := xs\<rparr>) m = record_error s m"
  by (auto simp: record_error_def Let_def)

lemma takes_message_loop:
  assumes at: "src_at c s ms" and t: "takes_message s cnt body"
  obtains m where "src_at c (after_message s m) (ms @ [m])" "20 + length (body @ rec_of m) \<le> 1472" "unat (cnt + 1) = unat cnt + 1"
    "next_loop s cnt body = (if is_replay_timing_boundary m then (after_message s m, cnt + 1, body @ rec_of m)
       else next_loop (after_message s m) (cnt + 1) (body @ rec_of m))"
    "length (src_input (after_message s m)) < length (src_input s)"
proof -
  let ?l = "mold_readU16BE (src_input s) 0" and ?rest = "drop 2 (src_input s)"
  let ?m = "take (unat ?l) ?rest"
  have T: "cnt < src_msgs_per_packet s" "\<not> src_last_message_was_end_of_messages s" "2 \<le> length (src_input s)" "?l \<noteq> 0"
    "20 + length body + 2 + unat ?l \<le> 1472" "unat ?l \<le> length ?rest" "record_error s ?m = None"
    using t by (auto simp: takes_message_def Let_def)
  have "0 < unat ?l" using T(4) by (simp add: unat_gt_0)
  then have m: "?m \<noteq> []" "length ?m = unat ?l" using T(3,6) by auto
  have r: "rec_of ?m = writeU16BE ?l @ ?m" using m(2) by (simp add: rec_of_def)
  have a: "after_message s ?m = s\<lparr>src_input := drop (unat ?l) ?rest, src_saw_message := True,
      src_last_message_was_end_of_messages := is_end_of_messages ?m, src_next_seq := src_next_seq s + 1\<rparr>"
    using m(2) by (simp add: after_message_def)
  have "src_input s = rec_of ?m @ drop (unat ?l) ?rest" using read_record [of "src_input s"] T by simp
  then have "src_at c (after_message s ?m) (ms @ [?m])"
    using at T(2) record_error_None [OF T(7) m(1)] day_so_far_snoc [of ms ?m] unfolding a by (auto simp: src_at_def ended_def)
  moreover have "unat (cnt + 1) = unat cnt + 1"
    using T(1) unsigned_less [of "src_msgs_per_packet s", where 'a = nat] by (simp add: word_less_nat_alt unat_word_ariths)
  moreover have "next_loop s cnt body = (if is_replay_timing_boundary ?m then (after_message s ?m, cnt + 1, body @ rec_of ?m)
       else next_loop (after_message s ?m) (cnt + 1) (body @ rec_of ?m))"
    using T unfolding a r by (subst next_loop.simps) (auto simp: Let_def packet_limit)
  moreover have "length (src_input (after_message s ?m)) < length (src_input s)" using T(3) by (simp add: a)
  ultimately show ?thesis using that [of ?m] m(2) T(5) r by (simp add: writers)
qed

lemma no_message_loop:
  assumes at: "src_at c s ms" and b: "20 + length body \<le> 1472" "cnt = 0 \<Longrightarrow> body = []" and t: "\<not> takes_message s cnt body"
  shows "loop_result c s ms cnt body (next_loop s cnt body)"
proof -
  let ?l = "mold_readU16BE (src_input s) 0" and ?rest = "drop 2 (src_input s)"
  note stop = stop_states [OF at]
  have E: "\<not> src_eof s" using at by (simp add: src_at_def)
  have stay: "loop_result c s ms cnt body (s, cnt, body)" if "cnt \<noteq> 0 \<or> src_msgs_per_packet s = 0"
    by (rule loop_resultI) (use at b that E in \<open>simp_all add: same_setup_def\<close>)
  have fail: "loop_result c s ms cnt body (src_fail (s\<lparr>src_input := xs\<rparr>) e, cnt, body)"
    if "e \<noteq> []" "\<And>day kind. \<not> complete_file (src_completion_policy s) day kind c" for xs e
    by (rule loop_resultI) (use stop that b in \<open>auto simp: src_fail_def\<close>)
  have L: "src_last_message_was_end_of_messages s = ended ms" "src_saw_message s = (ms \<noteq> [])" using at by (simp_all add: src_at_def)
  have stop_loop: "loop_result c s ms cnt body (s', cnt, body)" if "src_stopped c s' ms" "same_setup s s'"
      "\<And>day kind. complete_file (src_completion_policy s) day kind c \<Longrightarrow> src_completed s'" for s'
    by (rule loop_resultI) (use that b in \<open>auto simp: src_stopped_def\<close>)
  have count0: "cnt \<noteq> 0 \<or> src_msgs_per_packet s = 0" if "\<not> cnt < src_msgs_per_packet s" using that by (auto simp: word_neq_0_conv)
  show ?thesis
  proof (cases "\<exists>day kind. complete_file (src_completion_policy s) day kind c")
    case True
    then obtain day kind where day: "complete_file (src_completion_policy s) day kind c" by blast
    consider (stop) "ended ms" "src_input s = [0, 0] \<or> src_input s = [] \<and> src_completion_policy s = AllowEofAfterEndOfMessages"
      | (more) m xs where "\<not> ended ms" "src_input s = rec_of m @ xs" "day_message m" "ms = [] \<longrightarrow> is_start_of_messages m"
      using complete_rest [OF at day] by blast
    then show ?thesis
    proof cases
      case stop
      have z: "mold_readU16BE [0, 0] 0 = 0" by (simp add: mold_readU16BE_def)
      have "next_loop s cnt body = ((if src_input s = [] then read_eof s else read_terminator (s\<lparr>src_input := []\<rparr>)), cnt, body)"
        using stop L(1) z by (subst next_loop.simps) (auto simp: Let_def)
      moreover have "src_completed (read_eof s)" if "src_input s = []" using that stop L(1) by (simp add: read_eof_def)
      moreover have "src_completed (read_terminator (s\<lparr>src_input := []\<rparr>))" using stop L(1) by (simp add: read_terminator_def)
      ultimately show ?thesis using stop(2) stop_states(2,3,5,6) [OF at] by (auto intro!: stop_loop)
    next
      case more
      have m: "length m < 2 ^ 16" "12 \<le> length m" "length m \<le> 50" using day_message_length [OF more(3)] by auto
      note R = record_length [OF m(1)]
      have e: "record_error s m = None"
        using more(3,4) L(2) by (auto simp: record_error_def Let_def day_message_def valid_message_def is_start_of_messages_def)
      have "\<not> (cnt < src_msgs_per_packet s \<and> 20 + length body + 2 + length m \<le> 1472)"
        using t R(1) R(2) [of xs] R(3) [of xs] e more(1,2) L(1) m(2) by (auto simp: takes_message_def Let_def)
      moreover have "next_loop s cnt body = (s, cnt, body)" if "\<not> cnt < src_msgs_per_packet s \<or> 20 + length body + 2 + length m > 1472"
      proof -
        have "mold_readU16BE (rec_of m @ xs) 0 \<noteq> 0" using R(2) [of xs] m(2) by auto
        moreover have "rec_of m @ xs \<noteq> []" "\<not> length (rec_of m @ xs) < 2" using R(1) m(2) by auto
        moreover have "cnt \<noteq> 0" if "20 + length body + 2 + length m > 1472" using that b(2) m(3) by auto
        ultimately show ?thesis using that more(1,2) L(1) R(2) [of xs] by (subst next_loop.simps) (auto simp: Let_def packet_limit)
      qed
      moreover have "cnt \<noteq> 0" if "20 + length body + 2 + length m > 1472" using that b(2) m(3) by auto
      ultimately show ?thesis using stay count0 by auto
    qed
  next
    case nc: False
    then have F: "loop_result c s ms cnt body (src_fail (s\<lparr>src_input := xs\<rparr>) e, cnt, body)" if "e \<noteq> []" for xs e using fail that by blast
    have S: "loop_result c s ms cnt body (s', cnt, body)" if "src_stopped c s' ms" "same_setup s s'" for s' using stop_loop that nc by blast
    show ?thesis
    proof (cases "(cnt < src_msgs_per_packet s \<or> src_last_message_was_end_of_messages s) \<and> 2 \<le> length (src_input s)")
      case False
      then show ?thesis using stay count0 F S stop by (subst next_loop.simps) auto
    next
      case two: True
      show ?thesis
      proof (cases "?l = 0")
        case True
        have "src_input s = [0, 0] @ ?rest" using read_record [of "src_input s"] two True by (simp add: rec_of_def writers be_bytes_2)
        then show ?thesis using two True S stop(3,6) by (subst next_loop.simps) (auto simp: Let_def)
      next
        case l: False
        then show ?thesis using two t stay F record_error_Some [of s "take (unat ?l) ?rest"]
          by (subst next_loop.simps) (auto simp: Let_def packet_limit takes_message_def unat_gt_0 word_neq_0_conv)
      qed
    qed
  qed
qed

lemma next_loop_sound:
  "src_at c s ms \<Longrightarrow> 20 + length body \<le> 1472 \<Longrightarrow> (cnt = 0 \<Longrightarrow> body = []) \<Longrightarrow> loop_result c s ms cnt body (next_loop s cnt body)"
proof (induction "length (src_input s)" arbitrary: s cnt body ms rule: less_induct)
  case less
  show ?case
  proof (cases "takes_message s cnt body")
    case True
    obtain m where m: "src_at c (after_message s m) (ms @ [m])" "20 + length (body @ rec_of m) \<le> 1472" "unat (cnt + 1) = unat cnt + 1"
      "next_loop s cnt body = (if is_replay_timing_boundary m then (after_message s m, cnt + 1, body @ rec_of m)
         else next_loop (after_message s m) (cnt + 1) (body @ rec_of m))"
      "length (src_input (after_message s m)) < length (src_input s)"
      by (rule takes_message_loop [OF less.prems(1) True])
    have nz: "cnt + 1 \<noteq> 0" using m(3) by (metis add_is_0 one_neq_zero unat_0)
    have su: "same_setup s (after_message s m)" by (simp add: same_setup_def after_message_def)
    have "loop_result c (after_message s m) (ms @ [m]) (cnt + 1) (body @ rec_of m) (after_message s m, cnt + 1, body @ rec_of m)"
      by (rule loop_resultI) (use m nz in \<open>auto simp: same_setup_def src_at_def\<close>)
    moreover have "loop_result c (after_message s m) (ms @ [m]) (cnt + 1) (body @ rec_of m) (next_loop (after_message s m) (cnt + 1) (body @ rec_of m))"
      by (rule less.hyps [OF m(5,1,2)]) (use nz in simp)
    ultimately show ?thesis using loop_result_step [OF _ su m(3)] unfolding m(4) by presburger
  next
    case False
    then show ?thesis using no_message_loop less.prems by blast
  qed
qed

section \<open>Packets of the source\<close>

lemma read_at: "off + 2 \<le> length data \<Longrightarrow> mold_readU16BE data off = mold_readU16BE (drop off data) 0"
  by (simp add: mold_readU16BE_def)

lemma frames_of_file:
  assumes "drop off data = file_of ms" "list_all day_message ms" "off \<le> length data"
  shows "frames (length ms) data off = ms" "validate_loop (length ms) data off = DecodeOk"
  using assms
proof (induction ms arbitrary: off)
  case (Cons m ms)
  { fix off assume d: "drop off data = file_of (m # ms)" and dm: "list_all day_message (m # ms)"
    have m: "day_message m" "length m < 2 ^ 16" "12 \<le> length m" using day_message_length [of m] dm by auto
    note R = record_length [OF m(2)]
    have len: "length data - off = length m + 2 + length (file_of ms)" using arg_cong [OF d, of length] R(1) by simp
    then have l: "unat (mold_readU16BE data off) = length m" using read_at [of off data] R(2) [of "file_of ms"] m(3) d by simp
    have "drop (off + 2) data = m @ file_of ms" using R(3) [of "file_of ms"] d by (metis drop_drop add.commute file_of_simps(2))
    moreover from this have "drop (off + 2 + length m) data = file_of ms" by (metis drop_drop add.commute append_eq_conv_conj)
    moreover have "m \<noteq> []" using m(3) by auto
    moreover have "data ! (off + 2) = m ! 0" using arg_cong [OF calculation(1), of "\<lambda>xs. xs ! 0"] len \<open>m \<noteq> []\<close> by (simp add: nth_append)
    moreover have "off + 2 + length m \<le> length data" using len m(3) by linarith
    ultimately have "unat (mold_readU16BE data off) = length m" "take (length m) (drop (off + 2) data) = m"
      "drop (off + 2 + length m) data = file_of ms" "data ! (off + 2) = m ! 0" "off + 2 + length m \<le> length data" "m \<noteq> []"
      "expectedItchMessageLength (m ! 0) \<noteq> 0" "length m = unat (expectedItchMessageLength (m ! 0))"
      using l m by (auto simp: day_message_def valid_message_def) }
  note S = this
  { case 1
    then show ?case using S [OF 1(1,2)] Cons.IH(1) by simp
  next
    case 2
    note X = S [OF 2(1,2)]
    have "validate_loop (length (m # ms)) data off = validate_loop (length ms) data (off + 2 + length m)"
      using X by (auto simp: Let_def)
    then show ?case using Cons.IH(2) [OF X(3) _ X(5)] 2(2) by simp }
qed auto

definition packet_of :: "u8 list \<Rightarrow> u64 \<Rightarrow> u8 list list \<Rightarrow> u8 list" where
  "packet_of session first ms = session @ writeU64BE first @ writeU16BE (of_nat (length ms)) @ file_of ms"

lemma length_file: "list_all day_message ms \<Longrightarrow> 14 * length ms \<le> length (file_of ms)"
proof (induction ms)
  case (Cons m ms)
  then show ?case using day_message_length [of m] record_length(1) [of m] by auto
qed simp

lemma packet_of_fields:
  assumes s: "length session = 10" and ms: "list_all day_message ms" "ms \<noteq> []" "20 + length (file_of ms) \<le> 1472"
    and f: "unat first + length ms < 2 ^ 64"
  shows "sequenced (packet_of session first ms)" "packet_first (packet_of session first ms) = first"
    "packet_count (packet_of session first ms) = of_nat (length ms)" "unat (of_nat (length ms) :: u16) = length ms"
    "packet_messages (packet_of session first ms) (of_nat (length ms)) = ms" "length (packet_of session first ms) \<le> 1472"
    "take 10 (packet_of session first ms) = session"
proof -
  let ?P = "packet_of session first ms"
  have n: "length ms \<le> 104" using length_file [OF ms(1)] ms(3) by linarith
  then show u: "unat (of_nat (length ms) :: u16) = length ms" by (simp add: unat_of_nat)
  have d: "drop 20 ?P = file_of ms" "drop 10 ?P = be_bytes 8 first @ be_bytes 2 (of_nat (length ms) :: u16) @ file_of ms"
    "drop 18 ?P = be_bytes 2 (of_nat (length ms) :: u16) @ file_of ms" "length ?P = 20 + length (file_of ms)"
    using s by (simp_all add: packet_of_def writers)
  have "unat (mold_readU64BE ?P 10) = unat first mod 256 ^ 8" "unat (mold_readU16BE ?P 18) = unat (of_nat (length ms) :: u16) mod 256 ^ 2"
    using readers_value(4) [of 10 ?P] readers_value(1) [of 18 ?P] d(4) by (simp_all add: mold_readers d(2,3) be_value_bytes)
  then show pf: "packet_first ?P = first" "packet_count ?P = of_nat (length ms)"
    using unsigned_less [of first, where 'a = nat] unsigned_less [of "of_nat (length ms) :: u16", where 'a = nat]
    by (simp_all add: word_unat_eq_iff packet_first_def packet_count_def)
  note F = frames_of_file [OF d(1) ms(1)]
  show "packet_messages ?P (of_nat (length ms)) = ms" using F(1) d(4) u by (simp add: packet_messages_def kHeaderSize_def)
  have "(of_nat (length ms) :: u16) \<noteq> 0" "(of_nat (length ms) :: u16) \<noteq> 0xFFFF"
    using u ms(2) n by (auto simp: word_unat_eq_iff)
  then show "sequenced ?P"
    using F(2) d(4) f u by (simp add: sequenced_def wf_packet_def validateSequencedPacket_def pf kHeaderSize_def kEndOfSessionMessageCount_def)
  show "length ?P \<le> 1472" "take 10 ?P = session" using d(4) ms(3) s by (simp_all add: packet_of_def)
qed

section \<open>Calls\<close>

datatype source_call = NextPacket u64 | SetMessages u16

fun source_run :: "source_call list \<Rightarrow> ItchMoldUdpSource \<Rightarrow> PacketView list \<times> ItchMoldUdpSource" where
  "source_run [] s = ([], s)"
| "source_run (NextPacket ticks # cs) s =
     (let (v, s1) = src_next ticks s; (vs, s2) = source_run cs s1 in (case v of None \<Rightarrow> vs | Some p \<Rightarrow> p # vs, s2))"
| "source_run (SetMessages n # cs) s = source_run cs (snd (setMessagesPerPacket s n))"

lemma src_next_step:
  assumes at: "src_at c s ms" and n: "src_next ticks s = (v, s')"
  shows "same_setup s s'"
    "\<exists>ms'. (src_at c s' (ms @ ms') \<or> src_stopped c s' (ms @ ms')) \<and>
      (case v of None \<Rightarrow> ms' = [] | Some p \<Rightarrow> ms' \<noteq> [] \<and> 20 + length (file_of ms') \<le> 1472 \<and>
         p = \<lparr>pv_data = Some (packet_of (src_session s) (1 + of_nat (length ms)) ms'), pv_receive_start_ticks = ticks\<rparr>)"
    "v = None \<Longrightarrow> src_msgs_per_packet s \<noteq> 0 \<Longrightarrow> src_eof s'"
    "complete_file (src_completion_policy s) day kind c \<Longrightarrow> src_eof s' \<Longrightarrow> src_completed s'"
proof -
  obtain s1 cnt body where L: "next_loop s 0 [] = (s1, cnt, body)" by (cases "next_loop s 0 []")
  have "loop_result c s ms 0 [] (s1, cnt, body)" using next_loop_sound [OF at, of "[]" 0] by (simp add: L)
  then obtain ms' where m: "src_at c s1 (ms @ ms') \<or> src_stopped c s1 (ms @ ms')" "body = file_of ms'" "unat cnt = length ms'"
    "src_eof s1 \<or> ms' \<noteq> [] \<or> src_msgs_per_packet s = 0" "same_setup s s1" "20 + length body \<le> 1472"
    "(\<exists>day kind. complete_file (src_completion_policy s) day kind c) \<longrightarrow> src_eof s1 \<longrightarrow> src_completed s1"
    unfolding loop_result_def by auto
  have e: "\<not> src_eof s" "src_next_seq s = 1 + of_nat (length ms)" using at by (simp_all add: src_at_def)
  have cnt: "cnt = 0 \<longleftrightarrow> ms' = []" using m(3) by (auto simp: word_unat_eq_iff)
  have "cnt = of_nat (length ms')" by (simp flip: m(3))
  note cnt = cnt this
  have s': "s' = s1" using n e L by (auto simp: src_next_def split: if_splits)
  have v: "v = (if ms' = [] then None else Some \<lparr>pv_data = Some (packet_of (src_session s) (1 + of_nat (length ms)) ms'), pv_receive_start_ticks = ticks\<rparr>)"
    using n e L cnt m(2,5) by (auto simp: src_next_def packet_of_def same_setup_def split: if_splits)
  show "same_setup s s'" using m(5) s' by simp
  show "\<exists>ms'. (src_at c s' (ms @ ms') \<or> src_stopped c s' (ms @ ms')) \<and>
      (case v of None \<Rightarrow> ms' = [] | Some p \<Rightarrow> ms' \<noteq> [] \<and> 20 + length (file_of ms') \<le> 1472 \<and>
         p = \<lparr>pv_data = Some (packet_of (src_session s) (1 + of_nat (length ms)) ms'), pv_receive_start_ticks = ticks\<rparr>)"
    using m(1,2,6) v s' by (intro exI [of _ ms']) auto
  show "v = None \<Longrightarrow> src_msgs_per_packet s \<noteq> 0 \<Longrightarrow> src_eof s'" using v m(4) s' by (auto split: if_splits)
  show "complete_file (src_completion_policy s) day kind c \<Longrightarrow> src_eof s' \<Longrightarrow> src_completed s'" using m(7) s' by blast
qed

lemma src_next_stopped: "src_eof s \<Longrightarrow> src_next ticks s = (None, s)" by (simp add: src_next_def)

text \<open>The messages of a run, packet by packet.\<close>

fun packets_for :: "u8 list \<Rightarrow> nat \<Rightarrow> u8 list list list \<Rightarrow> u8 list list" where
  "packets_for session n [] = []"
| "packets_for session n (ms # mss) = packet_of session (1 + of_nat n) ms # packets_for session (n + length ms) mss"

definition source_result :: "u8 list \<Rightarrow> ItchMoldUdpSource \<Rightarrow> u8 list list \<Rightarrow> PacketView list \<Rightarrow> ItchMoldUdpSource \<Rightarrow> bool" where
  "source_result c s ms vs s' \<longleftrightarrow> src_session s' = src_session s \<and> src_completion_policy s' = src_completion_policy s \<and>
     (\<exists>mss. (src_at c s' (ms @ concat mss) \<or> src_stopped c s' (ms @ concat mss)) \<and>
        map pv_data vs = map Some (packets_for (src_session s) (length ms) mss) \<and>
        (\<forall>ms' \<in> set mss. ms' \<noteq> [] \<and> 20 + length (file_of ms') \<le> 1472))"

lemma source_run_sound:
  "src_at c s ms \<or> src_stopped c s ms \<Longrightarrow> source_run cs s = (vs, s') \<Longrightarrow> source_result c s ms vs s'"
proof (induction cs arbitrary: s ms vs)
  case Nil
  then show ?case unfolding source_result_def by (force intro: exI [of _ "[]"])
next
  case (Cons call cs)
  show ?case
  proof (cases call)
    case (SetMessages n)
    let ?s1 = "snd (setMessagesPerPacket s n)"
    have "src_at c ?s1 ms \<or> src_stopped c ?s1 ms" "src_session ?s1 = src_session s" "src_completion_policy ?s1 = src_completion_policy s"
      using Cons.prems(1) by (auto simp: setMessagesPerPacket_def src_at_def src_stopped_def)
    then show ?thesis using Cons.IH [of ?s1 ms vs] Cons.prems(2) SetMessages by (simp add: source_result_def)
  next
    case (NextPacket ticks)
    obtain v s1 vs1 where n: "src_next ticks s = (v, s1)" "source_run cs s1 = (vs1, s')" "vs = (case v of None \<Rightarrow> vs1 | Some p \<Rightarrow> p # vs1)"
      using Cons.prems(2) NextPacket by (auto simp: Let_def split: prod.splits)
    show ?thesis
    proof (cases "src_eof s")
      case True
      then show ?thesis using n Cons.IH [OF Cons.prems(1)] by (simp add: src_next_stopped)
    next
      case False
      then have at: "src_at c s ms" using Cons.prems(1) by (auto simp: src_stopped_def)
      note N = src_next_step [OF at n(1)]
      obtain ms' where m: "src_at c s1 (ms @ ms') \<or> src_stopped c s1 (ms @ ms')"
        "case v of None \<Rightarrow> ms' = [] | Some p \<Rightarrow> ms' \<noteq> [] \<and> 20 + length (file_of ms') \<le> 1472 \<and>
           p = \<lparr>pv_data = Some (packet_of (src_session s) (1 + of_nat (length ms)) ms'), pv_receive_start_ticks = ticks\<rparr>" using N(2) by blast
      have R: "source_result c s1 (ms @ ms') vs1 s'" by (rule Cons.IH [OF m(1) n(2)])
      then obtain mss where M: "src_at c s' ((ms @ ms') @ concat mss) \<or> src_stopped c s' ((ms @ ms') @ concat mss)"
        "map pv_data vs1 = map Some (packets_for (src_session s1) (length (ms @ ms')) mss)"
        "\<forall>ms' \<in> set mss. ms' \<noteq> [] \<and> 20 + length (file_of ms') \<le> 1472" and S: "src_session s' = src_session s1" "src_completion_policy s' = src_completion_policy s1"
        unfolding source_result_def by blast
      have su: "src_session s1 = src_session s" "src_completion_policy s1 = src_completion_policy s" using N(1) by (simp_all add: same_setup_def)
      show ?thesis
      proof (cases v)
        case None
        then show ?thesis using R n(3) m(2) su by (simp add: source_result_def)
      next
        case (Some q)
        then show ?thesis unfolding source_result_def using M S su m(2) n(3) by (auto intro!: exI [of _ "ms' # mss"])
      qed
    qed
  qed
qed

end
