(* ===== verification/ItchReplayCorrect.thy ===== *)
theory ItchReplayCorrect
  imports ItchReplay
begin

text \<open>
  The replay source and the decoder together: the packets of a file claim exactly its messages, a file is completed exactly when it
  is a complete day, and the decoder that receives the packets, in order or in any order, applies the messages of the file.
\<close>

section \<open>The messages the packets claim\<close>

definition emits :: "u8 list \<Rightarrow> nat \<Rightarrow> u8 list list list \<Rightarrow> PacketView list \<Rightarrow> bool" where
  "emits session n mss vs \<longleftrightarrow> map pv_data vs = map Some (packets_for session n mss) \<and> length session = 10 \<and>
     (\<forall>ms \<in> set mss. ms \<noteq> [] \<and> 20 + length (file_of ms) \<le> 1472 \<and> list_all day_message ms) \<and> 1 + n + length (concat mss) < 2 ^ 64"

lemma emits_Cons:
  assumes "emits session n (ms # mss) (v # vs)"
  shows "pv_data v = Some (packet_of session (1 + of_nat n) ms)" "emits session (n + length ms) mss vs"
    "unat (1 + of_nat n :: u64) = 1 + n" "length session = 10" "list_all day_message ms" "ms \<noteq> []" "20 + length (file_of ms) \<le> 1472"
    "unat (1 + of_nat n :: u64) + length ms < 2 ^ 64"
proof -
  show u: "unat (1 + of_nat n :: u64) = 1 + n" using assms by (simp add: emits_def unat_word_ariths unat_of_nat)
  then show "unat (1 + of_nat n :: u64) + length ms < 2 ^ 64" using assms by (simp add: emits_def)
qed (use assms in \<open>auto simp: emits_def\<close>)

lemma emits_claims:
  "emits session n mss vs \<Longrightarrow> all_claims vs = numbered (1 + n) (concat mss) \<and>
     (\<forall>v \<in> set vs. \<exists>data. pv_data v = Some data \<and> sequenced data \<and> length data \<le> 1472 \<and> take 10 data = session)"
proof (induction mss arbitrary: n vs)
  case Nil
  then show ?case by (simp add: emits_def numbered_def)
next
  case (Cons ms mss)
  then obtain v ws where vs: "vs = v # ws" by (cases vs) (auto simp: emits_def)
  note E = emits_Cons [OF Cons.prems [unfolded vs]]
  note F = packet_of_fields [OF E(4-8)]
  have "view_claims v = numbered (1 + n) ms"
    using F(1) by (simp add: view_claims_def E(1) F(2-5) claims_def numbered_def E(3))
  moreover have "all_claims vs = view_claims v \<union> all_claims ws" by (simp add: all_claims_def vs)
  ultimately show ?case using Cons.IH [OF E(2)] E(1) F(1,6,7) by (simp add: numbered_append vs add.assoc)
qed

section \<open>A run on a file\<close>

lemma new_source_at:
  assumes "length session \<le> 10" "mpp \<noteq> 0"
  shows "src_at bytes (newItchMoldUdpSource (Some bytes) path session mpp policy) []"
    "src_session (newItchMoldUdpSource (Some bytes) path session mpp policy) = padded_session session"
    "src_completion_policy (newItchMoldUdpSource (Some bytes) path session mpp policy) = policy"
    "src_msgs_per_packet (newItchMoldUdpSource (Some bytes) path session mpp policy) \<noteq> 0"
  using assms by (auto simp: newItchMoldUdpSource_def Let_def src_at_def day_so_far_def ended_def padded_session_def)

lemma run_on_file:
  assumes "length session \<le> 10" "mpp \<noteq> 0" "length bytes < 2 ^ 64 - 1"
    and run: "source_run calls (newItchMoldUdpSource (Some bytes) path session mpp policy) = (vs, s)"
  obtains mss where "emits (padded_session session) 0 mss vs"
    "src_at bytes s (concat mss) \<or> src_stopped bytes s (concat mss)" "src_completion_policy s = policy"
proof -
  let ?s0 = "newItchMoldUdpSource (Some bytes) path session mpp policy"
  note N = new_source_at [OF assms(1,2), of bytes path policy]
  obtain mss where m: "src_at bytes s (concat mss) \<or> src_stopped bytes s (concat mss)" "src_completion_policy s = policy"
    "map pv_data vs = map Some (packets_for (padded_session session) 0 mss)" "\<forall>ms \<in> set mss. ms \<noteq> [] \<and> 20 + length (file_of ms) \<le> 1472"
    using source_run_sound [OF disjI1 [OF N(1)] run] unfolding source_result_def N(2,3) by auto
  have d: "day_so_far (concat mss)" "\<exists>rest. bytes = file_of (concat mss) @ rest" using m(1) by (auto simp: src_at_def src_stopped_def)
  then have all: "list_all day_message (concat mss)" by (simp add: day_so_far_def)
  then have "14 * length (concat mss) \<le> length bytes" using length_file d(2) by fastforce
  then have "emits (padded_session session) 0 mss vs" using m(3,4) all assms(3) unfolding emits_def by (auto simp: list_all_iff)
  then show ?thesis using that m(1,2) by blast
qed

primrec next_calls :: "source_call list \<Rightarrow> nat" where
  "next_calls [] = 0"
| "next_calls (call # calls) = (case call of NextPacket ticks \<Rightarrow> 1 | SetMessages n \<Rightarrow> 0) + next_calls calls"

lemma at_prefix:
  assumes at: "src_at c s ms" and day: "complete_file policy day kind c"
  shows "length ms \<le> length day"
proof -
  obtain z where z: "c = file_of day @ z" "length z \<le> 2" using day unfolding complete_file_def by auto
  have "file_of ms @ src_input s = file_of day @ z" "list_all day_message ms" "list_all day_message day"
    using at z(1) day by (auto simp: src_at_def complete_file_def day_so_far_def)
  then obtain rest where "day = ms @ rest" using file_split [of ms day "src_input s" z] z(2) by blast
  then show ?thesis by simp
qed

lemma stopped_run: "src_eof s \<Longrightarrow> source_run cs s = (vs, s') \<Longrightarrow> vs = [] \<and> src_completed s' = src_completed s"
proof (induction cs arbitrary: s vs)
  case (Cons call cs)
  show ?case
  proof (cases call)
    case (NextPacket ticks)
    then show ?thesis using Cons src_next_stopped [OF Cons.prems(1), of ticks] by (auto simp: Let_def split: prod.splits)
  next
    case (SetMessages n)
    then show ?thesis using Cons.IH [of "snd (setMessagesPerPacket s n)" vs] Cons.prems by (simp add: setMessagesPerPacket_def split: if_splits)
  qed
qed simp

lemma run_completes:
  assumes "complete_file (src_completion_policy s) day kind c" "src_at c s ms" "src_msgs_per_packet s \<noteq> 0"
    "source_run cs s = (vs, s')" "length day < length ms + next_calls cs"
  shows "src_completed s'"
  using assms
proof (induction cs arbitrary: s ms vs)
  case Nil
  then show ?case using at_prefix [OF Nil(2,1)] by simp
next
  case (Cons call cs)
  note day = Cons.prems(1) and at = Cons.prems(2)
  show ?case
  proof (cases call)
    case (SetMessages n)
    let ?s1 = "snd (setMessagesPerPacket s n)"
    have "src_at c ?s1 ms" "src_completion_policy ?s1 = src_completion_policy s" "src_msgs_per_packet ?s1 \<noteq> 0"
      using at Cons.prems(3) by (auto simp: setMessagesPerPacket_def src_at_def)
    then show ?thesis using Cons.IH [of ?s1 ms vs] Cons.prems SetMessages by simp
  next
    case (NextPacket ticks)
    obtain v s1 vs1 where n: "src_next ticks s = (v, s1)" "source_run cs s1 = (vs1, s')"
      using Cons.prems(4) NextPacket by (auto simp: Let_def split: prod.splits)
    note N = src_next_step [OF at n(1)]
    show ?thesis
    proof (cases "src_eof s1")
      case True
      then show ?thesis using stopped_run [OF True n(2)] N(4) [OF day] by simp
    next
      case False
      then obtain ms' where m: "src_at c s1 (ms @ ms')" "case v of None \<Rightarrow> ms' = [] | Some p \<Rightarrow> ms' \<noteq> []"
        using N(2) by (auto simp: src_stopped_def split: option.splits)
      then have "ms' \<noteq> []" using N(3) False Cons.prems(3) by (cases v) auto
      then have "length day < length (ms @ ms') + next_calls cs" using Cons.prems(5) NextPacket by (cases ms') auto
      then show ?thesis using Cons.IH [OF _ m(1) _ n(2)] N(1) day Cons.prems(3) by (simp add: same_setup_def)
    qed
  qed
qed

lemma complete_unique:
  assumes "complete_file policy ms kind c" "complete_file policy ms' kind' c"
  shows "ms = ms'"
proof -
  obtain z where z: "c = file_of ms @ z" "length z \<le> 2" using assms(1) unfolding complete_file_def by auto
  obtain z' where z': "c = file_of ms' @ z'" "length z' \<le> 2" using assms(2) unfolding complete_file_def by auto
  have d: "list_all day_message ms" "list_all day_message ms'" using assms by (auto simp: complete_file_def day_so_far_def)
  obtain r where "ms' = ms @ r" using file_split [OF d, of z z'] z z' by auto
  moreover obtain r' where "ms = ms' @ r'" using file_split [OF d(2,1), of z' z] z z' by auto
  ultimately show ?thesis by simp
qed

section \<open>In-order delivery\<close>

definition in_step :: "u8 list \<Rightarrow> MoldUdpDecoder \<Rightarrow> nat \<Rightarrow> ItchParser \<Rightarrow> bool" where
  "in_step session d n p \<longleftrightarrow> md_terminal_status d = DecodeOk \<and> (md_first_packet_seen d \<longrightarrow> take 10 (ch_session (md_channel d)) = session) \<and>
     gb_find (buf d) = Map.empty \<and> gb_empty (buf d) \<and> ch_status (md_channel d) = Good \<and>
     ch_heartbeat_next_seq_high_watermark (md_channel d) = 0 \<and> md_pending_end_sequence d = 0 \<and> expected_seq d = 1 + of_nat n \<and>
     phase_synced d \<and> md_parser d = p"

lemma in_step_new: "in_step session (newMoldUdpDecoder symbols books ch 1) 0 (newItchParser symbols books ch)"
  by (simp add: in_step_def newMoldUdpDecoder_def newChannelState_def phase_synced_def newItchParser_def gb_find_new gb_empty_def)
    (simp add: newGapBuffer_def)

text \<open>The first packet binds the session; the others must match it.\<close>

definition bind_session :: "MoldUdpDecoder \<Rightarrow> u8 list \<Rightarrow> MoldUdpDecoder" where
  "bind_session d data = (if \<not> md_first_packet_seen d then d\<lparr>md_first_packet_seen := True, md_channel := setSession (md_channel d) data\<rparr> else d)"

lemma in_step_session:
  assumes "in_step session d n p" "take 10 data = session" "length session = 10"
  shows "in_step session (bind_session d data) n p" "md_first_packet_seen d \<Longrightarrow> sessionMatches (md_channel d) data"
    "md_first_packet_seen (bind_session d data)"
  using assms by (auto simp: in_step_def bind_session_def setSession_def kSessionBytes_def sessionMatches_def phase_synced_def)

lemma in_step_packet:
  assumes d: "in_step session d n p" and s: "length session = 10" and v: "pv_data v = Some (packet_of session (1 + of_nat n) ms)"
    and ms: "list_all day_message ms" "ms \<noteq> []" "20 + length (file_of ms) \<le> 1472" "unat (1 + of_nat n :: u64) + length ms < 2 ^ 64"
    and run: "run_parser p ms = (True, p')"
  shows "\<exists>r d'. processPacket elapsed d v = Some (r, d') \<and> in_step session d' (n + length ms) p' \<and> md_first_packet_seen d'"
proof -
  let ?data = "packet_of session (1 + of_nat n) ms" and ?c = "of_nat (length ms) :: u16"
  note F = packet_of_fields [OF s ms]
  let ?d = "bind_session d ?data"
  note I = in_step_session [OF d F(7) s]
  have D: "gb_find (buf ?d) = Map.empty" "gb_empty (buf ?d)" "phase_synced ?d" "ch_status (md_channel ?d) = Good"
    "ch_heartbeat_next_seq_high_watermark (md_channel ?d) = 0" "md_pending_end_sequence ?d = 0" "expected_seq ?d = 1 + of_nat n"
    "md_parser ?d = p" "md_terminal_status d = DecodeOk" using I(1) d by (simp_all add: in_step_def)
  have W: "wf_packet ?data (1 + of_nat n) ?c" "?c \<noteq> 0xFFFF" using F(1-3) by (simp_all add: sequenced_def kEndOfSessionMessageCount_def)
  then have c0: "?c \<noteq> 0" "20 \<le> length ?data" by (simp_all add: wf_packet_def kHeaderSize_def)
  have "processPacket elapsed d v = processSequenced elapsed ?d ?data (1 + of_nat n) ?c (pv_receive_start_ticks v)"
    using D(9) F(2,3) c0 W(2) I(2)
    by (auto simp: processPacket_def v kHeaderSize_def kEndOfSessionMessageCount_def bind_session_def packet_first_def packet_count_def Let_def)
  moreover obtain r where r: "processSequenced elapsed ?d ?data (expected_seq ?d) ?c (pv_receive_start_ticks v) =
      Some (r, set_expected (with_parser ?d p') (expected_seq ?d + ucast ?c))"
    using in_order_packet [OF D(1-6), of ?data ?c p' elapsed "pv_receive_start_ticks v"] W(1) F(5) run by (auto simp: D(7,8))
  moreover have "ucast ?c = (of_nat (length ms) :: u64)"
  proof -
    have "unat (ucast ?c :: u64) = length ms"
      using F(4) unsigned_less [of ?c, where 'a = nat] by (simp add: unsigned_ucast_eq take_bit_nat_eq_self)
    then show ?thesis using ms(4) by (simp add: word_unat_eq_iff unat_of_nat)
  qed
  moreover have "in_step session (set_expected (with_parser ?d p') (expected_seq ?d + of_nat (length ms))) (n + length ms) p'"
    using I(1) by (simp add: in_step_def decoder_updates algebra_simps phase_synced_def)
  ultimately show ?thesis using I(3) by (auto simp: D(7) decoder_updates)
qed

lemma in_step_run:
  "emits session n mss vs \<Longrightarrow> in_step session d n p \<Longrightarrow> run_parser p (concat mss) = (True, p') \<Longrightarrow>
     \<exists>d'. decode_all elapsed d vs = Some d' \<and> in_step session d' (n + length (concat mss)) p' \<and> (vs \<noteq> [] \<longrightarrow> md_first_packet_seen d')"
proof (induction mss arbitrary: n vs d p)
  case Nil
  then show ?case by (auto simp: emits_def)
next
  case (Cons ms mss)
  then obtain v ws where vs: "vs = v # ws" by (cases vs) (auto simp: emits_def)
  note E = emits_Cons [OF Cons.prems(1) [unfolded vs]]
  obtain p1 where p1: "run_parser p ms = (True, p1)" "run_parser p1 (concat mss) = (True, p')"
    using Cons.prems(3) sink.run_append [of p ms "concat mss"] by (cases "run_parser p ms") (auto split: if_splits)
  obtain r d1 where d1: "processPacket elapsed d v = Some (r, d1)" "in_step session d1 (n + length ms) p1" "md_first_packet_seen d1"
    using in_step_packet [OF Cons.prems(2) E(4,1,5-8) p1(1)] by blast
  obtain d' where d': "decode_all elapsed d1 ws = Some d'" "in_step session d' (n + length ms + length (concat mss)) p'" "ws \<noteq> [] \<longrightarrow> md_first_packet_seen d'"
    using Cons.IH [OF E(2) d1(2) p1(2)] by blast
  moreover have "md_first_packet_seen d'" if "ws = []" using d'(1) d1(3) that by simp
  ultimately show ?case using d1(1) by (auto simp: vs add.assoc)
qed

lemma accepted_end:
  assumes "valid_message m" "is_end_of_messages m" "\<not> parse_refused (parse p m)"
  shows "ip_channel_phase (parse p m) = EndOfMessages"
proof -
  let ?q = "clear_outcome p"
  have m: "m \<noteq> []" "m ! 0 = 0x53" "m ! 11 = 0x43" using assms(1,2) by (auto simp: valid_message_def is_end_of_messages_def)
  have P: "parse p m = snd (dispatchMessage ?q m)" using m(1) by (simp add: parse_def handlePrevalidatedMessage_def)
  have F: "ip_last_error (snd (ip_fail ?q e)) = e" for e by (simp add: ip_fail_def)
  have "parse p m = handleSystemEvent ?q m"
    using assms(3) m(2,3) unfolding P parse_refused_def dispatchMessage_def Let_def
    by (auto simp: F kSystemEventCodeOffset_def split: if_splits)
  then show ?thesis using assms(3) m(3)
    by (auto simp: handleSystemEvent_def parse_refused_def kSystemEventCodeOffset_def advancePhase_def ip_fail_def Let_def split: if_splits)
qed

lemma run_accepted_last: "run_parser p ms = (True, p') \<Longrightarrow> ms \<noteq> [] \<Longrightarrow> \<exists>q. p' = parse q (last ms) \<and> \<not> parse_refused p'"
proof (induction ms arbitrary: p)
  case (Cons m ms)
  then show ?case by (cases "ms = []") (auto simp: Let_def split: if_splits)
qed simp

lemma in_step_end:
  assumes d: "in_step session d n p" and s: "md_first_packet_seen d" "length sess \<le> 10" "session = padded_session sess"
    and p: "ip_channel_phase p = EndOfMessages" and v: "pv_data v = Some (makeMoldEndOfSessionPacket sess (1 + of_nat n))"
  shows "\<exists>r d'. processPacket elapsed d v = Some (r, d') \<and> endOfStreamAccepted d' \<and> md_parser d' = p"
proof -
  let ?P = "makeMoldEndOfSessionPacket sess (1 + of_nat n)"
  have P: "length ?P = 20" "mold_readU16BE ?P 18 = 0xFFFF" "mold_readU64BE ?P 10 = 1 + of_nat n" "take 10 ?P = session"
    by (simp_all add: makeMoldEndOfSessionPacket_def mold_readers control_packet_fields kEndOfSessionMessageCount_def s(3))
      (simp_all add: control_packet_layout)
  have m: "sessionMatches (md_channel d) ?P" using d s(1) P(4) by (simp add: in_step_def sessionMatches_def kSessionBytes_def)
  have "ch_phase (md_channel d) = EndOfMessages" using d p by (simp add: in_step_def phase_synced_def)
  then show ?thesis using d P m s(1) unfolding in_step_def
    by (simp add: processPacket_def v processEndOfSession_def kHeaderSize_def kEndOfSessionMessageCount_def endOfStreamAccepted_def Let_def)
qed

section \<open>A day of six messages\<close>

text \<open>The concrete replay of the witnesses: the six system events of a day in a terminated file, sent with at most two messages per
  packet.\<close>

definition demo_messages :: "u8 list list" where "demo_messages = map demo_event demo_day"
definition demo_file :: "u8 list" where "demo_file = file_of demo_messages @ [0, 0]"
definition demo_session :: "u8 list" where "demo_session = replicate 4 0x41"
definition demo_source :: ItchMoldUdpSource where
  "demo_source = newItchMoldUdpSource (Some demo_file) ''day.itch'' demo_session 2 RequireTerminator"
definition demo_calls :: "source_call list" where "demo_calls = replicate 3 (NextPacket 0) @ [SetMessages 1] @ replicate 5 (NextPacket 0)"
definition demo_sent :: "PacketView list" where "demo_sent = fst (source_run demo_calls demo_source)"
definition demo_source_end :: ItchMoldUdpSource where "demo_source_end = snd (source_run demo_calls demo_source)"
definition demo_last :: PacketView where
  "demo_last = \<lparr>pv_data = Some (makeMoldEndOfSessionPacket demo_session (src_next_seq demo_source_end)), pv_receive_start_ticks = 0\<rparr>"

lemma demo_run: "source_run demo_calls demo_source = (demo_sent, demo_source_end)"
  by (simp add: demo_sent_def demo_source_end_def)

lemma demo_setup: "length demo_session \<le> 10" "(2 :: u16) \<noteq> 0" "length demo_file < 2 ^ 64 - 1"
  by (simp_all add: demo_session_def demo_file_def demo_messages_def demo_day_def rec_of_def writers demo_event_def)

lemma demo_complete: "complete_file RequireTerminator demo_messages CompletionTerminator demo_file"
proof -
  have "day_message (demo_event code)" for code by (simp add: day_message_def demo_event_valid) (simp add: demo_event_def nth_append)
  then show ?thesis
    by (auto simp: complete_file_def demo_file_def day_so_far_def ended_def demo_messages_def demo_day_def is_start_of_messages_def
        is_end_of_messages_def demo_event_fields less_Suc_eq)
qed

lemma demo_completed: "src_completed demo_source_end"
proof -
  note N = new_source_at [OF demo_setup(1,2), of demo_file "''day.itch''" RequireTerminator, folded demo_source_def]
  show ?thesis
    by (rule run_completes [OF _ N(1,4) demo_run]) (use demo_complete N(3) in \<open>auto simp: demo_calls_def demo_messages_def demo_day_def eval_nat_numeral\<close>)
qed

lemma demo_emits:
  obtains mss where "emits (padded_session demo_session) 0 mss demo_sent" "concat mss = demo_messages"
proof -
  obtain mss where m: "emits (padded_session demo_session) 0 mss demo_sent" "src_at demo_file demo_source_end (concat mss) \<or> src_stopped demo_file demo_source_end (concat mss)"
    "src_completion_policy demo_source_end = RequireTerminator" by (rule run_on_file [OF demo_setup demo_run [unfolded demo_source_def]])
  then have "complete_file RequireTerminator (concat mss) (src_completion_kind demo_source_end) demo_file"
    using demo_completed by (auto simp: src_at_def src_stopped_def)
  then show ?thesis using that m(1) complete_unique [OF _ demo_complete] by blast
qed

lemma demo_received:
  obtains d where "decode_all demo_clock demo_decoder demo_sent = Some d" "md_terminal_status d = DecodeOk" "ch_status (md_channel d) = Good"
proof (rule demo_emits)
  fix mss assume m: "emits (padded_session demo_session) 0 mss demo_sent" "concat mss = demo_messages"
  have r: "run_parser (newItchParser newStockDirectory demo_manager 0) (concat mss) = (True, demo_parser_end)"
    using demo_day_parsed(1) m(2) by (simp add: demo_messages_def demo_parser_def)
  show thesis using in_step_run [OF m(1) in_step_new r, of demo_clock] that unfolding in_step_def demo_decoder_def by auto
qed

section \<open>Properties\<close>

lemma next_seq_unat:
  assumes "emits session 0 mss vs" "src_at bytes s (concat mss) \<or> src_stopped bytes s (concat mss)"
  shows "unat (src_next_seq s) = 1 + length (concat mss)"
proof -
  have "src_next_seq s = 1 + of_nat (length (concat mss))" using assms(2) by (auto simp: src_at_def src_stopped_def)
  then show ?thesis using assms(1) by (simp add: emits_def unat_word_ariths unat_of_nat)
qed

text \<open>What a replay sends. Whatever calls are made on a source for a file, also with changes of the packet size in between, the file
  starts with the records of some messages, each of valid length, and the packets sent so far claim exactly these messages, numbered
  from one on; every packet passes the decoder's validation, carries the session and fits a datagram of 1,472 bytes.\<close>

theorem replay_sends_file:
  assumes "length session \<le> 10" "mpp \<noteq> 0" "length bytes < 2 ^ 64 - 1"
    and "source_run calls (newItchMoldUdpSource (Some bytes) path session mpp policy) = (vs, s)"
  shows "\<exists>ms rest. bytes = file_of ms @ rest \<and> day_so_far ms \<and> all_claims vs = numbered 1 ms \<and> unat (src_next_seq s) = 1 + length ms \<and>
    (\<forall>v \<in> set vs. \<exists>data. pv_data v = Some data \<and> sequenced data \<and> length data \<le> 1472 \<and> take 10 data = padded_session session)"
proof -
  obtain mss where m: "emits (padded_session session) 0 mss vs" "src_at bytes s (concat mss) \<or> src_stopped bytes s (concat mss)"
    using run_on_file [OF assms] by blast
  have "day_so_far (concat mss)" "\<exists>rest. bytes = file_of (concat mss) @ rest" using m(2) by (auto simp: src_at_def src_stopped_def)
  then show ?thesis using emits_claims [OF m(1)] next_seq_unat [OF m] by auto
qed

text \<open>The replay of the day of six messages.\<close>

theorem replay_sends_file_witness:
  "\<exists>ms rest. demo_file = file_of ms @ rest \<and> day_so_far ms \<and> all_claims demo_sent = numbered 1 ms \<and> unat (src_next_seq demo_source_end) = 1 + length ms \<and>
    (\<forall>v \<in> set demo_sent. \<exists>data. pv_data v = Some data \<and> sequenced data \<and> length data \<le> 1472 \<and> take 10 data = padded_session demo_session)"
  by (rule replay_sends_file [OF demo_setup demo_run [unfolded demo_source_def]])

text \<open>C16. Completion is exact. A source reports completion only of a complete day: all records of a day from the start of messages to the
  end of messages, followed by the terminator, or, when the policy allows it, by the end of the file; the reported kind tells which. On such a
  file every sequence of calls with more packet requests than messages completes, after all messages have been sent.\<close>

theorem replay_completion_exact:
  assumes "length session \<le> 10" "mpp \<noteq> 0" "length bytes < 2 ^ 64 - 1"
    and "source_run calls (newItchMoldUdpSource (Some bytes) path session mpp policy) = (vs, s)"
  shows "(src_completed s \<longrightarrow> (\<exists>ms. complete_file policy ms (src_completion_kind s) bytes \<and> all_claims vs = numbered 1 ms)) \<and>
    (\<forall>ms kind. complete_file policy ms kind bytes \<longrightarrow> length ms < next_calls calls \<longrightarrow> src_completed s)"
proof -
  obtain mss where m: "emits (padded_session session) 0 mss vs" "src_at bytes s (concat mss) \<or> src_stopped bytes s (concat mss)"
    "src_completion_policy s = policy" using run_on_file [OF assms] by blast
  have "complete_file policy (concat mss) (src_completion_kind s) bytes" if "src_completed s"
    using m(2,3) that by (auto simp: src_at_def src_stopped_def)
  moreover have "src_completed s" if "complete_file policy ms kind bytes" "length ms < next_calls calls" for ms kind
    using run_completes [OF _ new_source_at(1,4) [OF assms(1,2)] assms(4), where day = ms and kind = kind] that new_source_at(3) [OF assms(1,2)] by simp
  ultimately show ?thesis using emits_claims [OF m(1)] by auto
qed

theorem replay_completion_exact_witness:
  "src_completed demo_source_end \<and> (\<exists>ms. complete_file RequireTerminator ms (src_completion_kind demo_source_end) demo_file \<and> all_claims demo_sent = numbered 1 ms)"
  using replay_completion_exact [OF demo_setup demo_run [unfolded demo_source_def]] demo_completed by blast

text \<open>What the packets of a replay claim determines the state they lead to.\<close>

lemma replay_by_claims:
  assumes m: "emits session 0 mss vs" "src_at bytes s (concat mss) \<or> src_stopped bytes s (concat mss)" and ws: "all_claims ws = all_claims vs"
    and d: "decode_all elapsed (newMoldUdpDecoder symbols books ch 1) ws = Some d" "md_terminal_status d = DecodeOk" "ch_status (md_channel d) \<noteq> Stale"
  shows "md_parser d = fold (\<lambda>m p. snd (handlePrevalidatedMessage p m)) (concat mss) (newItchParser symbols books ch)"
    "ch_next_expected_seq (md_channel d) = src_next_seq s"
proof -
  let ?ms = "concat mss" and ?p = "newItchParser symbols books ch"
  have C: "all_claims ws = numbered 1 ?ms" using emits_claims [OF m(1)] ws by simp
  have R: "dec_inv 1 ?p (all_claims ws) d" using new_decoder_run(1) [OF d(1)] by simp
  have "unat (expected_seq d) = (LEAST n. 1 \<le> n \<and> n \<notin> fst ` all_claims ws)"
    by (rule expected_is_least [OF R d(2)]) (use new_decoder_run(2) [OF d] in blast)
  also have "fst ` all_claims ws = {1 ..< 1 + length ?ms}" unfolding C by (rule numbered_fst)
  also have "(LEAST n. 1 \<le> n \<and> n \<notin> {1 ..< 1 + length ?ms}) = 1 + length ?ms" by (rule Least_equality) auto
  finally have e: "unat (expected_seq d) = 1 + length ?ms" .
  obtain ms where ms: "\<forall>k<length ms. (1 + k, ms ! k) \<in> all_claims ws" "md_parser d = fold (\<lambda>m p. parse p m) ms ?p" "1 + length ms = unat (expected_seq d)"
    using dec_inv_messages [OF R] d(2) by auto
  have "ms = ?ms" by (rule nth_equalityI) (use ms(1,3) e C in \<open>auto simp: numbered_def\<close>)
  then show "md_parser d = fold (\<lambda>m p. snd (handlePrevalidatedMessage p m)) ?ms ?p" using ms(2) unfolding parse_def by simp
  show "expected_seq d = src_next_seq s" using e next_seq_unat [OF m] by (simp add: word_unat_eq_iff)
qed

text \<open>The packets of a replay are different packets of one session, so a decoder whose parser accepts the messages takes them in any order.\<close>

lemma emits_firsts: "emits session n mss vs \<Longrightarrow> v \<in> set vs \<Longrightarrow> 1 + n \<le> unat (packet_first (the (pv_data v)))"
proof (induction mss arbitrary: n vs)
  case Nil
  then show ?case by (simp add: emits_def)
next
  case (Cons ms mss)
  then obtain w ws where vs: "vs = w # ws" by (cases vs) (auto simp: emits_def)
  note E = emits_Cons [OF Cons.prems(1) [unfolded vs]]
  show ?case
  proof (cases "v = w")
    case True
    then show ?thesis using E(1,3) packet_of_fields(2) [OF E(4-8)] by simp
  next
    case False
    then show ?thesis using Cons.IH [OF E(2)] Cons.prems(2) vs by fastforce
  qed
qed

lemma emits_distinct: "emits session n mss vs \<Longrightarrow> inj_on packet_first ((\<lambda>v. the (pv_data v)) ` set vs)"
proof (induction mss arbitrary: n vs)
  case Nil
  then show ?case by (simp add: emits_def)
next
  case (Cons ms mss)
  then obtain w ws where vs: "vs = w # ws" by (cases vs) (auto simp: emits_def)
  note E = emits_Cons [OF Cons.prems [unfolded vs]]
  have "unat (packet_first (the (pv_data w))) = 1 + n" using E(1,3) packet_of_fields(2) [OF E(4-8)] by simp
  moreover have "1 + n < unat (packet_first (the (pv_data v)))" if "v \<in> set ws" for v
    using emits_firsts [OF E(2) that] E(6) by (cases ms) auto
  ultimately have "packet_first (the (pv_data w)) \<noteq> packet_first (the (pv_data v))" if "v \<in> set ws" for v using that by (metis less_irrefl)
  then show ?case using Cons.IH [OF E(2)] by (auto simp: vs)
qed

lemma emits_clean:
  assumes m: "emits session n mss vs" and "length vs \<le> 1048576"
  shows "clean_packets session ((\<lambda>v. the (pv_data v)) ` set vs)"
proof -
  have "card ((\<lambda>v. the (pv_data v)) ` set vs) \<le> length vs"
    using card_image_le [of "set vs" "\<lambda>v. the (pv_data v)"] card_length [of vs] by simp
  moreover have "length session = 10" using m by (simp add: emits_def)
  ultimately show ?thesis
    using emits_claims [OF m] emits_distinct [OF m] assms(2) unfolding clean_packets_def by (fastforce simp: kCapacity_def)
qed

text \<open>Replay over an unreliable network. Whatever the order and the duplicates in which the packets of a replay reach a decoder, if
  all of them arrive and the decoder neither fails nor drops packets, it has applied exactly the messages of the file, in the order of the file, and
  expects the sequence number the source sends next.\<close>

theorem replay_any_order:
  assumes "length session \<le> 10" "mpp \<noteq> 0" "length bytes < 2 ^ 64 - 1"
    and "source_run calls (newItchMoldUdpSource (Some bytes) path session mpp policy) = (vs, s)" "set ws = set vs"
    and "decode_all elapsed (newMoldUdpDecoder symbols books ch 1) ws = Some d" "md_terminal_status d = DecodeOk" "ch_status (md_channel d) \<noteq> Stale"
  shows "\<exists>ms rest. bytes = file_of ms @ rest \<and> all_claims vs = numbered 1 ms \<and>
    md_parser d = fold (\<lambda>m p. snd (handlePrevalidatedMessage p m)) ms (newItchParser symbols books ch) \<and>
    ch_next_expected_seq (md_channel d) = src_next_seq s"
proof -
  obtain mss where m: "emits (padded_session session) 0 mss vs" "src_at bytes s (concat mss) \<or> src_stopped bytes s (concat mss)"
    using run_on_file [OF assms(1-4)] by blast
  have "\<exists>rest. bytes = file_of (concat mss) @ rest" using m(2) by (auto simp: src_at_def src_stopped_def)
  moreover have "all_claims ws = all_claims vs" by (simp add: all_claims_def assms(5))
  ultimately show ?thesis using replay_by_claims [OF m _ assms(6-8)] emits_claims [OF m(1)] by auto
qed

theorem replay_any_order_witness:
  "\<exists>d ms rest. decode_all demo_clock demo_decoder demo_sent = Some d \<and> demo_file = file_of ms @ rest \<and>
     ch_next_expected_seq (md_channel d) = src_next_seq demo_source_end"
proof (rule demo_received)
  fix d assume d: "decode_all demo_clock demo_decoder demo_sent = Some d" "md_terminal_status d = DecodeOk" "ch_status (md_channel d) = Good"
  have "ch_status (md_channel d) \<noteq> Stale" using d(3) by simp
  from replay_any_order [OF demo_setup demo_run [unfolded demo_source_def] refl d(1) [unfolded demo_decoder_def] d(2) this] d(1)
  show ?thesis by auto
qed

text \<open>A complete replay is a complete session. If the source has completed its file and the parser refuses none of the messages, the
  decoder that receives the packets in order and then the end-of-session packet for the source's next sequence accepts the end of the
  stream and has applied exactly the messages of the file.\<close>

theorem replay_session_accepted:
  assumes "length session \<le> 10" "mpp \<noteq> 0" "length bytes < 2 ^ 64 - 1"
    and "source_run calls (newItchMoldUdpSource (Some bytes) path session mpp policy) = (vs, s)" "src_completed s"
    and "complete_file policy ms kind bytes" "fst (run_parser (newItchParser symbols books ch) ms)"
    and "pv_data v = Some (makeMoldEndOfSessionPacket session (src_next_seq s))"
  shows "\<exists>d. decode_all elapsed (newMoldUdpDecoder symbols books ch 1) (vs @ [v]) = Some d \<and> endOfStreamAccepted d \<and>
    md_parser d = fold (\<lambda>m p. snd (handlePrevalidatedMessage p m)) ms (newItchParser symbols books ch)"
proof -
  obtain mss where m: "emits (padded_session session) 0 mss vs" "src_at bytes s (concat mss) \<or> src_stopped bytes s (concat mss)"
    "src_completion_policy s = policy" using run_on_file [OF assms(1-4)] by blast
  let ?p = "newItchParser symbols books ch"
  have c: "complete_file policy (concat mss) (src_completion_kind s) bytes" "src_next_seq s = 1 + of_nat (length (concat mss))"
    using m(2,3) assms(5) by (auto simp: src_at_def src_stopped_def)
  have eq: "concat mss = ms" using complete_unique [OF c(1) assms(6)] .
  obtain p' where p': "run_parser ?p ms = (True, p')" using assms(7) by (cases "run_parser ?p ms") auto
  have ms: "ms \<noteq> []" "is_end_of_messages (last ms)" "valid_message (last ms)"
    using assms(6) by (auto simp: complete_file_def ended_def day_so_far_def list_all_iff day_message_def)
  then have ph: "ip_channel_phase p' = EndOfMessages" using run_accepted_last [OF p'] accepted_end by metis
  obtain d1 where d1: "decode_all elapsed (newMoldUdpDecoder symbols books ch 1) vs = Some d1" "in_step (padded_session session) d1 (length ms) p'"
    "vs \<noteq> [] \<longrightarrow> md_first_packet_seen d1" using in_step_run [OF m(1) in_step_new, of symbols books ch p' elapsed] p' eq by auto
  have "vs \<noteq> []" using m(1) eq ms(1) by (cases mss) (auto simp: emits_def)
  then obtain r d where "processPacket elapsed d1 v = Some (r, d)" "endOfStreamAccepted d" "md_parser d = p'"
    using in_step_end [OF d1(2) _ assms(1) refl ph, of v elapsed] d1(3) assms(8) c(2) eq by auto
  moreover have "p' = fold (\<lambda>m p. parse p m) ms ?p" using sink.run_all [of ?p ms] p' by simp
  ultimately show ?thesis unfolding parse_def by (auto simp: decode_all_snoc d1(1))
qed

theorem replay_session_accepted_witness:
  "\<exists>d. decode_all demo_clock demo_decoder (demo_sent @ [demo_last]) = Some d \<and> endOfStreamAccepted d"
proof -
  have "fst (run_parser (newItchParser newStockDirectory demo_manager 0) demo_messages)"
    using demo_day_parsed(1) by (simp add: demo_messages_def demo_parser_def)
  from replay_session_accepted [OF demo_setup demo_run [unfolded demo_source_def] demo_completed demo_complete this, of demo_last demo_clock]
  show ?thesis by (auto simp: demo_last_def demo_decoder_def)
qed

end
