(* ===== verification/SenderStream.thy ===== *)
theory SenderStream
  imports MoldUdpSender ItchReplayCorrect
begin

text \<open>
  What the replay sender puts on the wire. A stream is a list of data packets and heartbeats (\<open>datagram\<close>); \<open>render\<close> gives its bytes, each heartbeat
  announcing the sequence number of the next message. \<open>live_inv\<close> is the invariant of a sender that has not failed to transmit: its
  lines carry such a stream, with the messages the source has read. Every step of the data loop keeps it, or the sender fails.
\<close>

section \<open>Streams\<close>

datatype datagram = Data "u8 list list" | Beat

fun render :: "u8 list \<Rightarrow> nat \<Rightarrow> datagram list \<Rightarrow> u8 list list" where
  "render session n [] = []"
| "render session n (Data ms # ds) = packet_of (padded_session session) (1 + of_nat n) ms # render session (n + length ms) ds"
| "render session n (Beat # ds) = makeMoldHeartbeatPacket session (1 + of_nat n) # render session n ds"

primrec messages_in :: "datagram \<Rightarrow> u8 list list" where
  "messages_in (Data ms) = ms"
| "messages_in Beat = []"

definition carried :: "datagram list \<Rightarrow> u8 list list" where "carried ds = concat (map messages_in ds)"

lemma carried_simps [simp]: "carried [] = []" "carried (d # ds) = messages_in d @ carried ds" "carried (ds @ es) = carried ds @ carried es"
  by (simp_all add: carried_def)

lemma render_append: "render session n (ds @ es) = render session n ds @ render session (n + length (carried ds)) es"
  by (induction session n ds rule: render.induct) (simp_all add: add.assoc)

primrec datagram_fits :: "datagram \<Rightarrow> bool" where
  "datagram_fits (Data ms) = (ms \<noteq> [] \<and> 20 + length (file_of ms) \<le> 1472)"
| "datagram_fits Beat = True"

section \<open>The invariant\<close>

definition at_messages :: "SenderConfig \<Rightarrow> u8 list \<Rightarrow> u8 list list \<Rightarrow> ItchMoldUdpSource \<Rightarrow> bool" where
  "at_messages cfg bytes ms source \<longleftrightarrow> (src_at bytes source ms \<or> src_stopped bytes source ms) \<and>
     src_session source = padded_session (session_bytes cfg) \<and> src_completion_policy source = cfg_completion_policy cfg \<and>
     src_msgs_per_packet source \<noteq> 0"

definition line_clean :: "SenderState \<Rightarrow> LineState \<Rightarrow> bool" where
  "line_clean s line \<longleftrightarrow> ln_packets_sent line = ss_logical_packets s \<and> ln_messages_sent line = ss_logical_messages s \<and> ln_send_failures line = 0"

text \<open>\<open>ds\<close> is on the wire; the source has read the messages of \<open>ds\<close> and, behind them, those of a packet still to be sent.\<close>

definition live_inv :: "SenderConfig \<Rightarrow> u8 list \<Rightarrow> datagram list \<Rightarrow> u8 list list \<Rightarrow> SenderState \<Rightarrow> bool" where
  "live_inv cfg bytes ds pending s \<longleftrightarrow> \<not> ss_transmission_failed s \<and> list_all datagram_fits ds \<and>
     ss_wire_a s = render (session_bytes cfg) 0 ds \<and> ss_wire_b s = (if arg_redundant cfg then ss_wire_a s else []) \<and>
     at_messages cfg bytes (carried ds @ pending) (ss_source s) \<and> line_clean s (ss_line_a s) \<and>
     (if arg_redundant cfg then line_clean s (ss_line_b s) else ss_line_b s = newLineState) \<and> ss_end_of_session_packets_sent s = 0"

definition dead_inv :: "SenderConfig \<Rightarrow> u8 list \<Rightarrow> SenderState \<Rightarrow> bool" where
  "dead_inv cfg bytes s \<longleftrightarrow> ss_transmission_failed s \<and>
     (\<exists>ds pending. list_all datagram_fits ds \<and> ss_wire_a s = render (session_bytes cfg) 0 ds \<and>
        at_messages cfg bytes (carried ds @ pending) (ss_source s))"

lemma live_inv_tick [simp]: "live_inv cfg bytes ds pending (s\<lparr>ss_tick := t\<rparr>) = live_inv cfg bytes ds pending s"
  by (simp add: live_inv_def line_clean_def)

lemma live_inv_schedules [simp]:
  "live_inv cfg bytes ds pending (s\<lparr>ss_heartbeat_schedule := h\<rparr>) = live_inv cfg bytes ds pending s"
  "live_inv cfg bytes ds pending (s\<lparr>ss_packet_rate_schedule := r\<rparr>) = live_inv cfg bytes ds pending s"
  "live_inv cfg bytes ds pending (s\<lparr>ss_next_premarket_send := d\<rparr>) = live_inv cfg bytes ds pending s"
  "live_inv cfg bytes ds pending (s\<lparr>ss_premarket_start := d\<rparr>) = live_inv cfg bytes ds pending s"
  "live_inv cfg bytes ds pending (s\<lparr>ss_premarket_active := b\<rparr>) = live_inv cfg bytes ds pending s"
  "live_inv cfg bytes ds pending (s\<lparr>ss_pause_pending := b\<rparr>) = live_inv cfg bytes ds pending s"
  "live_inv cfg bytes ds pending (s\<lparr>ss_periodic_heartbeats_sent := n\<rparr>) = live_inv cfg bytes ds pending s"
  "live_inv cfg bytes ds pending (s\<lparr>ss_startup_heartbeats_sent := n\<rparr>) = live_inv cfg bytes ds pending s"
  "live_inv cfg bytes ds pending (s\<lparr>ss_logical_next_seq := n\<rparr>) = live_inv cfg bytes ds pending s"
  "live_inv cfg bytes ds pending (s\<lparr>ss_logical_first_seq := n\<rparr>) = live_inv cfg bytes ds pending s"
  by (simp_all add: live_inv_def line_clean_def)

text \<open>The sequence number behind the messages on the wire.\<close>

abbreviation next_number :: "datagram list \<Rightarrow> u64" where "next_number ds \<equiv> 1 + of_nat (length (carried ds))"

lemma live_next_seq: "live_inv cfg bytes ds [] s \<Longrightarrow> src_next_seq (ss_source s) = next_number ds"
  by (auto simp: live_inv_def at_messages_def src_at_def src_stopped_def)

lemma source_frame:
  assumes "at_messages cfg bytes ms source" "n \<noteq> 0"
  shows "at_messages cfg bytes ms (snd (setMessagesPerPacket source n))" "fst (setMessagesPerPacket source n)"
  using assms by (auto simp: at_messages_def setMessagesPerPacket_def src_at_def src_stopped_def)

section \<open>Waiting and sending\<close>

lemma running_mono: "\<not> running_at W t \<Longrightarrow> t \<le> t' \<Longrightarrow> \<not> running_at W t'"
  by (auto simp: running_at_def split: option.splits)

definition sending :: "SenderConfig \<Rightarrow> u8 list \<Rightarrow> u8 list list \<Rightarrow> u8 list list \<Rightarrow> SenderState \<Rightarrow> bool" where
  "sending cfg bytes ms pending s \<longleftrightarrow> (\<exists>ds. live_inv cfg bytes ds pending s \<and> carried ds = ms)"

text \<open>The outcome of a step: the sender is live and goes on, unless it was signalled to stop, or it failed.\<close>

definition step_outcome :: "SenderWorld \<Rightarrow> SenderConfig \<Rightarrow> u8 list \<Rightarrow> u8 list list \<Rightarrow> u8 list list \<Rightarrow> bool \<times> SenderState \<Rightarrow> bool" where
  "step_outcome W cfg bytes ms pending r \<longleftrightarrow>
     sending cfg bytes ms pending (snd r) \<and> (\<not> fst r \<longrightarrow> \<not> running_at W (ss_tick (snd r))) \<or> \<not> fst r \<and> dead_inv cfg bytes (snd r)"

lemma sleep_result:
  assumes "sleepUntilOrStopped W deadline s = Some r"
  shows "(\<exists>t. snd r = s\<lparr>ss_tick := t\<rparr>) \<and> (\<not> fst r \<longrightarrow> \<not> running_at W (ss_tick (snd r)))"
proof (rule sleepUntilOrStopped.raw_induct
    [where P = "\<lambda>W deadline s r. (\<exists>t. snd r = s\<lparr>ss_tick := t\<rparr>) \<and> (\<not> fst r \<longrightarrow> \<not> running_at W (ss_tick (snd r)))", OF _ assms], goal_cases)
  case (1 sleep W deadline s r)
  let ?s2 = "s\<lparr>ss_tick := Suc (Suc (ss_tick s))\<rparr>"
  show ?case
  proof (cases "running_at W (ss_tick s) \<and> \<not> sw_clock W (Suc (ss_tick s)) \<ge> deadline")
    case True
    then have "sleep W deadline ?s2 = Some r" using 1(2) by (simp add: check_running_def read_clock_def)
    from 1(1) [OF this] show ?thesis by auto
  next
    case False
    then show ?thesis using 1(2) running_mono [of W "ss_tick s" "Suc (ss_tick s)"]
      by (auto simp: check_running_def read_clock_def split: if_splits)
  qed
qed

lemma sending_tick [simp]: "sending cfg bytes ms pending (s\<lparr>ss_tick := t\<rparr>) = sending cfg bytes ms pending s"
  by (simp add: sending_def)

lemma transmit_result:
  assumes "transmit W cfg data cnt s = (sent, s')"
  shows "ss_source s' = ss_source s \<and> ss_end_of_session_packets_sent s' = ss_end_of_session_packets_sent s"
    "ss_transmission_failed s' = ss_transmission_failed s" "ss_logical_packets s' = ss_logical_packets s" "ss_logical_messages s' = ss_logical_messages s"
    "ss_wire_a s' = ss_wire_a s \<or> ss_wire_a s' = ss_wire_a s @ [data]"
    "sent \<Longrightarrow> ss_wire_a s' = ss_wire_a s @ [data] \<and> ss_wire_b s' = (if arg_redundant cfg then ss_wire_b s @ [data] else ss_wire_b s) \<and>
       ss_line_a s' = count_sent True cnt (ss_line_a s) \<and>
       (if arg_redundant cfg then \<exists>overruns. ss_line_b s' = count_sent True cnt ((ss_line_b s)\<lparr>ln_delay_overruns := overruns\<rparr>)
        else ss_line_b s' = ss_line_b s)"
proof -
  have o: "ss_line_b s = (ss_line_b s)\<lparr>ln_delay_overruns := ln_delay_overruns (ss_line_b s)\<rparr>" by simp
  show "sent \<Longrightarrow> ss_wire_a s' = ss_wire_a s @ [data] \<and> ss_wire_b s' = (if arg_redundant cfg then ss_wire_b s @ [data] else ss_wire_b s) \<and>
       ss_line_a s' = count_sent True cnt (ss_line_a s) \<and>
       (if arg_redundant cfg then \<exists>overruns. ss_line_b s' = count_sent True cnt ((ss_line_b s)\<lparr>ln_delay_overruns := overruns\<rparr>)
        else ss_line_b s' = ss_line_b s)"
    using assms by (auto simp: transmit_def send_redundant_def send_line_a_def Let_def split: if_splits intro: exI [of _ "ln_delay_overruns (ss_line_b s)"])
qed (use assms in \<open>auto simp: transmit_def send_redundant_def send_line_a_def Let_def split: if_splits\<close>)

lemma send_control_live:
  assumes live: "sending cfg bytes ms pending s" and n: "next_sequence = 1 + of_nat (length ms)"
    and c: "send_control_packet W cfg (makeMoldHeartbeatPacket (session_bytes cfg) next_sequence) next_sequence s = (sent, s')"
  shows "if sent then sending cfg bytes ms pending s' else dead_inv cfg bytes s'"
proof -
  let ?beat = "makeMoldHeartbeatPacket (session_bytes cfg) next_sequence"
  obtain ds where ds: "live_inv cfg bytes ds pending s" "carried ds = ms" using live by (auto simp: sending_def)
  obtain s1 where t: "transmit W cfg ?beat 0 s = (sent, s1)" using c by (auto simp: send_control_packet_def Let_def split: prod.splits if_splits)
  have r: "render (session_bytes cfg) 0 (ds @ [Beat]) = render (session_bytes cfg) 0 ds @ [?beat]" by (simp add: render_append ds(2) n)
  note T = transmit_result [OF t]
  show ?thesis
  proof (cases sent)
    case True
    have "live_inv cfg bytes (ds @ [Beat]) pending s'"
      using ds T True c t unfolding live_inv_def r by (auto simp: send_control_packet_def line_clean_def count_sent_def)
    then show ?thesis using True ds(2) by (auto simp: sending_def intro!: exI [of _ "ds @ [Beat]"])
  next
    case False
    have "\<exists>ds' pending'. list_all datagram_fits ds' \<and> ss_wire_a s1 = render (session_bytes cfg) 0 ds' \<and>
        at_messages cfg bytes (carried ds' @ pending') (ss_source s1)"
      using T(5) ds unfolding live_inv_def conjunct1 [OF T(1)]
    proof (elim disjE conjE, goal_cases)
      case 1 then show ?case by (intro exI [of _ ds] exI [of _ pending]) auto
    next
      case 2 then show ?case using r by (intro exI [of _ "ds @ [Beat]"] exI [of _ pending]) auto
    qed
    moreover have "s' = s1\<lparr>ss_transmission_failed := True\<rparr>" using False c t by (simp add: send_control_packet_def)
    ultimately show ?thesis using False unfolding dead_inv_def by simp
  qed
qed

lemma wait_result:
  assumes "wait_until_with_heartbeats W cfg deadline next_sequence s = Some r"
  shows "sending cfg bytes ms pending s \<longrightarrow> next_sequence = 1 + of_nat (length ms) \<longrightarrow> step_outcome W cfg bytes ms pending r"
proof (rule wait_until_with_heartbeats.raw_induct [where P = "\<lambda>W cfg deadline next_sequence s r.
      sending cfg bytes ms pending s \<longrightarrow> next_sequence = 1 + of_nat (length ms) \<longrightarrow> step_outcome W cfg bytes ms pending r", OF _ assms], intro impI, goal_cases)
  case (1 wait W cfg deadline next_sequence s r)
  note IH = 1(1) and run = 1(2) and live = 1(3) and n = 1(4)
  let ?t = "ss_tick s" and ?s2 = "s\<lparr>ss_tick := Suc (Suc (ss_tick s))\<rparr>"
  have l2: "sending cfg bytes ms pending (s\<lparr>ss_tick := t\<rparr>)" for t using live by simp
  have sl: "step_outcome W cfg bytes ms pending q" if "sleepUntilOrStopped W d ?s2 = Some q" for d q
    using sleep_result [OF that] live by (auto simp: step_outcome_def)
  show ?case
  proof (cases "running_at W ?t \<and> \<not> sw_clock W (Suc ?t) \<ge> deadline")
    case False
    then show ?thesis using run live running_mono [of W ?t "Suc ?t"]
      by (auto simp: check_running_def read_clock_def step_outcome_def split: if_splits)
  next
    case True
    show ?thesis
    proof (cases "nextHeartbeatBefore (ss_heartbeat_schedule s) deadline")
      case None
      then show ?thesis using run True sl by (simp add: check_running_def read_clock_def)
    next
      case (Some h)
      obtain reached s3 where s3: "sleepUntilOrStopped W h ?s2 = Some (reached, s3)"
        using run True Some by (auto simp: check_running_def read_clock_def split: option.splits)
      obtain sent s4 where s4: "send_control_packet W cfg (makeMoldHeartbeatPacket (session_bytes cfg) next_sequence) next_sequence s3 = (sent, s4)" by fastforce
      have live3: "sending cfg bytes ms pending s3" using sleep_result [OF s3] live by auto
      note C = send_control_live [OF live3 n s4]
      show ?thesis
      proof (cases "reached \<and> sent")
        case False
        then have "r = (if reached then (False, s4) else (False, s3))"
          using run True Some s3 s4 by (cases reached) (simp_all add: check_running_def read_clock_def)
        then show ?thesis using False C sl [OF s3] by (cases reached) (simp_all add: step_outcome_def)
      next
        case both: True
        let ?s5 = "s4\<lparr>ss_periodic_heartbeats_sent := ss_periodic_heartbeats_sent s4 + 1, ss_tick := Suc (ss_tick s4),
          ss_heartbeat_schedule := observeTraffic (ss_heartbeat_schedule s4) (sw_clock W (ss_tick s4))\<rparr>"
        have "wait W cfg deadline next_sequence ?s5 = Some r"
          using run True Some s3 s4 both by (simp add: check_running_def read_clock_def)
        moreover have "sending cfg bytes ms pending ?s5" using C both by (simp add: sending_def)
        ultimately show ?thesis using IH n by blast
      qed
    qed
  qed
qed

section \<open>Steps of the data loop\<close>

definition safe :: "SenderConfig \<Rightarrow> u8 list \<Rightarrow> SenderState \<Rightarrow> bool" where
  "safe cfg bytes s \<longleftrightarrow> (\<exists>ms pending. sending cfg bytes ms pending s) \<or> dead_inv cfg bytes s"

definition stopped :: "SenderWorld \<Rightarrow> SenderConfig \<Rightarrow> u8 list \<Rightarrow> SenderState \<Rightarrow> bool" where
  "stopped W cfg bytes s \<longleftrightarrow> (\<exists>ms pending. sending cfg bytes ms pending s) \<and> \<not> running_at W (ss_tick s) \<or> dead_inv cfg bytes s"

text \<open>\<open>Q\<close> holds where the loop goes on; a break comes from a signal or a failed transmission.\<close>

definition good_step :: "SenderWorld \<Rightarrow> SenderConfig \<Rightarrow> u8 list \<Rightarrow> (SenderState \<Rightarrow> bool) \<Rightarrow> bool flow option \<Rightarrow> bool" where
  "good_step W cfg bytes Q m \<longleftrightarrow>
     (case m of None \<Rightarrow> True | Some (Throw e s) \<Rightarrow> safe cfg bytes s
      | Some (Ret continue s) \<Rightarrow> if continue then Q s else stopped W cfg bytes s)"

lemma good_step_simps [simp]:
  "good_step W cfg bytes Q (Some (Ret True s)) = Q s" "good_step W cfg bytes Q (Some (Ret False s)) = stopped W cfg bytes s"
  "good_step W cfg bytes Q (Some (Throw e s)) = safe cfg bytes s" "good_step W cfg bytes Q None"
  by (simp_all add: good_step_def)

lemma good_step_then:
  assumes "good_step W cfg bytes Q m" "\<And>s. Q s \<Longrightarrow> good_step W cfg bytes Q' (f s)"
  shows "good_step W cfg bytes Q' (and_then m f)"
proof (cases m)
  case (Some r)
  show ?thesis
  proof (cases r)
    case (Ret continue s)
    then show ?thesis using assms Some by (cases continue) (simp_all add: and_then_def flow_bind_def)
  next
    case (Throw e s)
    then show ?thesis using assms(1) Some by (simp add: and_then_def flow_bind_def)
  qed
qed (simp add: and_then_def flow_bind_def)

lemma good_step_deadline:
  assumes "sending cfg bytes ms pending s" "\<And>d. good_step W cfg bytes Q (f d)"
  shows "good_step W cfg bytes Q (with_deadline base delay label s f)"
  using assms by (auto simp: with_deadline_def safe_def split: option.splits)

lemma good_wait:
  assumes "sending cfg bytes ms pending s" "next_sequence = 1 + of_nat (length ms)"
  shows "good_step W cfg bytes (sending cfg bytes ms pending) (wait_step W cfg deadline next_sequence s)"
  using wait_result [of W cfg deadline next_sequence s _ bytes ms pending] assms
  by (fastforce simp: wait_step_def step_outcome_def stopped_def good_step_def split: option.splits)

lemma sending_frames [simp]:
  "sending cfg bytes ms pending (s\<lparr>ss_heartbeat_schedule := h\<rparr>) = sending cfg bytes ms pending s"
  "sending cfg bytes ms pending (s\<lparr>ss_packet_rate_schedule := r\<rparr>) = sending cfg bytes ms pending s"
  "sending cfg bytes ms pending (s\<lparr>ss_next_premarket_send := d\<rparr>) = sending cfg bytes ms pending s"
  "sending cfg bytes ms pending (s\<lparr>ss_premarket_start := d\<rparr>) = sending cfg bytes ms pending s"
  "sending cfg bytes ms pending (s\<lparr>ss_premarket_active := b\<rparr>) = sending cfg bytes ms pending s"
  "sending cfg bytes ms pending (s\<lparr>ss_pause_pending := b\<rparr>) = sending cfg bytes ms pending s"
  "sending cfg bytes ms pending (s\<lparr>ss_startup_heartbeats_sent := n\<rparr>) = sending cfg bytes ms pending s"
  by (simp_all add: sending_def)

lemma sending_source:
  "sending cfg bytes ms pending s \<Longrightarrow> at_messages cfg bytes (ms @ pending) (ss_source s)"
  "sending cfg bytes ms pending s \<Longrightarrow> at_messages cfg bytes (ms @ pending') source \<Longrightarrow> sending cfg bytes ms pending' (s\<lparr>ss_source := source\<rparr>)"
  by (auto simp: sending_def live_inv_def line_clean_def)

lemma good_pace:
  assumes "sending cfg bytes ms pending s" "first_seq = 1 + of_nat (length ms)"
  shows "good_step W cfg bytes (sending cfg bytes ms pending) (pace_packet ld_divide W cfg plan first_seq timing s)"
  using good_wait [OF assms] assms unfolding pace_packet_def Let_def
  by (auto intro!: good_step_then [where Q = "sending cfg bytes ms pending"] good_step_deadline split: PremarketReplayMode.splits)

lemma good_send:
  assumes s: "sending cfg bytes ms ms' s" and ms': "ms' \<noteq> []" "20 + length (file_of ms') \<le> 1472"
    and d: "data = packet_of (padded_session (session_bytes cfg)) (1 + of_nat (length ms)) ms'"
  shows "good_step W cfg bytes (sending cfg bytes (ms @ ms') []) (send_packet W cfg data s)"
proof -
  let ?cnt = "mold_readU16BE data 18"
  obtain sent s1 where t: "transmit W cfg data ?cnt s = (sent, s1)" by fastforce
  obtain ds where ds: "live_inv cfg bytes ds ms' s" "carried ds = ms" using s by (auto simp: sending_def)
  have r: "render (session_bytes cfg) 0 (ds @ [Data ms']) = render (session_bytes cfg) 0 ds @ [data]" by (simp add: render_append ds(2) d)
  note T = transmit_result [OF t]
  show ?thesis
  proof (cases sent)
    case True
    define s2 where "s2 = s1\<lparr>ss_logical_packets := ss_logical_packets s1 + 1, ss_logical_messages := ss_logical_messages s1 + ucast ?cnt,
      ss_logical_first_seq := (if ss_logical_first_seq s1 = 0 then mold_readU64BE data 10 else ss_logical_first_seq s1),
      ss_logical_next_seq := mold_readU64BE data 10 + ucast ?cnt\<rparr>"
    have "live_inv cfg bytes (ds @ [Data ms']) [] s2"
      using ds T True ms' unfolding live_inv_def r s2_def by (auto simp: line_clean_def count_sent_def)
    then have "sending cfg bytes (ms @ ms') [] s2" using ds(2) by (auto simp: sending_def intro!: exI [of _ "ds @ [Data ms']"])
    then show ?thesis using True by (simp add: send_packet_def Let_def t s2_def)
  next
    case False
    have "\<exists>ds' pending'. list_all datagram_fits ds' \<and> ss_wire_a s1 = render (session_bytes cfg) 0 ds' \<and>
        at_messages cfg bytes (carried ds' @ pending') (ss_source s1)"
      using T(5) ds unfolding live_inv_def conjunct1 [OF T(1)]
    proof (elim disjE conjE, goal_cases)
      case 1 then show ?case by (intro exI [of _ ds] exI [of _ ms']) auto
    next
      case 2 then show ?case using r ms' by (intro exI [of _ "ds @ [Data ms']"] exI [of _ "[]"]) auto
    qed
    then have "stopped W cfg bytes (s1\<lparr>ss_transmission_failed := True\<rparr>)" unfolding stopped_def dead_inv_def by simp
    then show ?thesis using False by (simp add: send_packet_def Let_def t)
  qed
qed

lemma good_premarket:
  assumes "sending cfg bytes ms [] s"
  shows "good_step W cfg bytes (sending cfg bytes ms []) (start_premarket W cfg plan s)"
proof -
  have "at_messages cfg bytes (ms @ []) ((ss_source s)\<lparr>src_msgs_per_packet := 1\<rparr>)"
    using source_frame(1) [OF sending_source(1) [OF assms], of 1] by (simp add: setMessagesPerPacket_def)
  then show ?thesis using assms
    unfolding start_premarket_def Let_def
    by (auto simp: read_clock_def safe_def setMessagesPerPacket_def split: prod.splits intro!: good_step_deadline sending_source(2))
qed

lemma good_ss:
  assumes s: "sending cfg bytes ms [] s"
  shows "good_step W cfg bytes (sending cfg bytes ms []) (handle_ss W cfg plan timing s)"
proof -
  let ?s1 = "s\<lparr>ss_tick := Suc (ss_tick s)\<rparr>" and ?n = "src_next_seq (ss_source s)"
  have n: "?n = 1 + of_nat (length ms)" using sending_source(1) [OF s] by (auto simp: at_messages_def src_at_def src_stopped_def)
  have w: "good_step W cfg bytes (sending cfg bytes ms [])
     (case wait_until_with_heartbeats W cfg d ?n ?s1 of None \<Rightarrow> None
      | Some (completed, s2) \<Rightarrow> let s3 = s2\<lparr>ss_pause_pending := False\<rparr> in if \<not> completed then Some (Ret False s3) else start_premarket W cfg plan s3)" for d
  proof (cases "wait_until_with_heartbeats W cfg d ?n ?s1")
    case (Some r)
    have "step_outcome W cfg bytes ms [] r" using wait_result [OF Some, of bytes ms "[]"] s n by simp
    then show ?thesis using Some good_premarket [of cfg bytes ms]
      by (cases r; cases "fst r") (auto simp: step_outcome_def stopped_def dead_inv_def Let_def)
  qed simp
  show ?thesis using s w good_premarket [OF s]
    by (auto simp: handle_ss_def read_clock_def Let_def intro!: good_step_deadline)
qed

lemma good_sq:
  assumes s: "sending cfg bytes ms [] s" and n: "arg_msgs_per_packet cfg \<noteq> 0"
  shows "good_step W cfg bytes (sending cfg bytes ms []) (handle_sq cfg timing s)"
  using sending_source [OF s] source_frame [of cfg bytes ms "ss_source s" "arg_msgs_per_packet cfg"] s n sending_source(2) [of cfg bytes ms "[]" "s\<lparr>ss_premarket_active := False\<rparr>"]
  by (auto simp: handle_sq_def Let_def split: prod.splits)

lemma good_ordinary:
  assumes s: "sending cfg bytes ms [] s"
  shows "good_step W cfg bytes (sending cfg bytes ms []) (ordinary_wait W cfg next_ordinary_send s)"
proof -
  have "src_next_seq (ss_source s) = 1 + of_nat (length ms)" using sending_source(1) [OF s] by (auto simp: at_messages_def src_at_def src_stopped_def)
  from good_wait [OF s this] show ?thesis using s by (auto simp: ordinary_wait_def split: option.splits)
qed

lemma schedule_next_sending:
  assumes "sending cfg bytes ms [] s" "schedule_next W timing s = Some r"
  shows "case r of Throw e s' \<Rightarrow> sending cfg bytes ms [] s' | Ret d s' \<Rightarrow> sending cfg bytes ms [] s'"
  using assms by (auto simp: schedule_next_def read_clock_def Let_def split: prod.splits if_splits)

section \<open>The data loop\<close>

lemma good_send_step:
  assumes s: "sending cfg bytes ms ms' s" and ms': "list_all day_message ms'" "ms' \<noteq> []" "20 + length (file_of ms') \<le> 1472"
    and d: "data = packet_of (padded_session (session_bytes cfg)) (1 + of_nat (length ms)) ms'"
    and cfg: "arg_msgs_per_packet cfg \<noteq> 0" "length (session_bytes cfg) \<le> 10" and bound: "1 + length (ms @ ms') < 2 ^ 64"
  shows "good_step W cfg bytes (sending cfg bytes (ms @ ms') []) (send_step ld_divide W cfg plan data s)"
proof -
  have "unat (1 + of_nat (length ms) :: u64) + length ms' < 2 ^ 64" using bound by (simp add: unat_word_ariths unat_of_nat)
  then have "packet_first data = 1 + of_nat (length ms)" unfolding d using packet_of_fields(2) ms' cfg(2) by (simp add: padded_session_def)
  then have f: "mold_readU64BE data 10 = 1 + of_nat (length ms)" by (simp add: packet_first_def)
  show ?thesis unfolding send_step_def Let_def
  proof (intro good_step_then [OF good_pace [OF s f]] good_step_then [OF good_send [OF _ ms'(2,3) d]], goal_cases)
    case (2 s1 s2)
    note s2 = this
    show ?case
    proof (cases "schedule_next W (if plan_enabled plan \<or> ss_pause_pending s then inspectPacket data else noTiming) s2")
      case (Some r)
      note S = schedule_next_sending [OF s2(2) Some]
      show ?thesis
      proof (cases r)
        case (Throw e s3)
        then show ?thesis using S Some by (auto simp: flow_bind_def safe_def)
      next
        case (Ret deadline s3)
        then have s3: "sending cfg bytes (ms @ ms') [] s3" using S by simp
        show ?thesis unfolding flow_bind_def Some Ret option.case flow.case
          by (intro good_step_then [OF good_ss [OF s3]] good_step_then [OF good_sq [OF _ cfg(1)]] good_ordinary)
      qed
    qed (simp add: flow_bind_def)
  qed
qed

lemma next_packet:
  assumes at: "at_messages cfg bytes ms source" and n: "src_next ticks source = (v, source')"
  shows "case v of None \<Rightarrow> at_messages cfg bytes ms source' \<and> src_eof source'
     | Some p \<Rightarrow> (\<exists>ms'. at_messages cfg bytes (ms @ ms') source' \<and> ms' \<noteq> [] \<and> list_all day_message ms' \<and> 20 + length (file_of ms') \<le> 1472 \<and>
         pv_data p = Some (packet_of (padded_session (session_bytes cfg)) (1 + of_nat (length ms)) ms'))"
proof (cases "src_eof source")
  case True
  then show ?thesis using at n by (simp add: src_next_stopped)
next
  case False
  then have src: "src_at bytes source ms" "src_session source = padded_session (session_bytes cfg)" "src_msgs_per_packet source \<noteq> 0"
    using at by (auto simp: at_messages_def src_stopped_def)
  note N = src_next_step [OF src(1) n]
  obtain ms' where m: "src_at bytes source' (ms @ ms') \<or> src_stopped bytes source' (ms @ ms')"
    "case v of None \<Rightarrow> ms' = [] | Some p \<Rightarrow> ms' \<noteq> [] \<and> 20 + length (file_of ms') \<le> 1472 \<and>
       p = \<lparr>pv_data = Some (packet_of (src_session source) (1 + of_nat (length ms)) ms'), pv_receive_start_ticks = ticks\<rparr>" using N(2) by blast
  have "at_messages cfg bytes (ms @ ms') source'" using m(1) N(1) at by (simp add: at_messages_def same_setup_def)
  moreover have "list_all day_message ms'" using m(1) by (auto simp: src_at_def src_stopped_def day_so_far_def)
  ultimately show ?thesis using m(2) N(3) src by (cases v) auto
qed

lemma messages_bound:
  assumes "at_messages cfg bytes ms source" "length bytes < 2 ^ 64 - 1"
  shows "1 + length ms < 2 ^ 64"
proof -
  have "list_all day_message ms" "\<exists>rest. bytes = file_of ms @ rest" using assms(1) by (auto simp: at_messages_def src_at_def src_stopped_def day_so_far_def)
  then have "14 * length ms \<le> length bytes" using length_file [of ms] by auto
  then show ?thesis using assms(2) by simp
qed

definition loop_end :: "SenderWorld \<Rightarrow> SenderConfig \<Rightarrow> u8 list \<Rightarrow> unit flow \<Rightarrow> bool" where
  "loop_end W cfg bytes r \<longleftrightarrow>
     (case r of Throw e s \<Rightarrow> safe cfg bytes s | Ret u s \<Rightarrow> stopped W cfg bytes s \<or> (\<exists>ms. sending cfg bytes ms [] s))"

definition usable :: "SenderConfig \<Rightarrow> u8 list \<Rightarrow> bool" where
  "usable cfg bytes \<longleftrightarrow> arg_msgs_per_packet cfg \<noteq> 0 \<and> length (session_bytes cfg) \<le> 10 \<and> length bytes < 2 ^ 64 - 1"

lemma send_loop_result:
  assumes "send_loop ld_divide W cfg plan s = Some r"
  shows "usable cfg bytes \<longrightarrow> sending cfg bytes ms [] s \<longrightarrow> loop_end W cfg bytes r"
proof (rule send_loop.raw_induct [where P = "\<lambda>d W cfg plan s r. \<forall>ms. usable cfg bytes \<longrightarrow> sending cfg bytes ms [] s \<longrightarrow> loop_end W cfg bytes r",
      OF _ assms, THEN spec], intro allI impI, goal_cases)
  case (1 loop d W cfg plan s r ms)
  note IH = 1(1) and run = 1(2) and cfg = 1(3) [unfolded usable_def] and s = 1(4)
  let ?s1 = "s\<lparr>ss_tick := Suc (ss_tick s)\<rparr>"
  obtain v source' where n: "src_next 0 (ss_source s) = (v, source')" by fastforce
  let ?s2 = "?s1\<lparr>ss_source := source'\<rparr>"
  have at: "at_messages cfg bytes ms (ss_source s)" using sending_source(1) [OF s] by simp
  note N = next_packet [OF at n]
  show ?case
  proof (cases "running_at W (ss_tick s) \<and> \<not> ss_transmission_failed s")
    case False
    then have "r = Ret () ?s1" using run by (auto simp: check_running_def)
    then show ?thesis using s by (auto simp: loop_end_def)
  next
    case go: True
    show ?thesis
    proof (cases v)
      case None
      then have "r = Ret () ?s2" using run go n by (simp add: check_running_def)
      moreover have "sending cfg bytes ms [] ?s2" using s None N sending_source(2) [of cfg bytes ms "[]" ?s1 "[]" source'] by simp
      ultimately show ?thesis by (auto simp: loop_end_def)
    next
      case (Some p)
      then obtain ms' where m: "at_messages cfg bytes (ms @ ms') source'" "ms' \<noteq> []" "list_all day_message ms'" "20 + length (file_of ms') \<le> 1472"
        "pv_data p = Some (packet_of (padded_session (session_bytes cfg)) (1 + of_nat (length ms)) ms')" using N by auto
      let ?data = "packet_of (padded_session (session_bytes cfg)) (1 + of_nat (length ms)) ms'"
      have s2: "sending cfg bytes ms ms' ?s2" using s m(1) sending_source(2) [of cfg bytes ms "[]" ?s1 ms' source'] by simp
      have G: "good_step W cfg bytes (sending cfg bytes (ms @ ms') []) (send_step d W cfg plan ?data ?s2)"
        using good_send_step [OF s2 m(3,2,4) refl] cfg messages_bound [OF m(1)] by blast
      have R: "(case send_step d W cfg plan ?data ?s2 of None \<Rightarrow> None | Some (Throw e s3) \<Rightarrow> Some (Throw e s3)
          | Some (Ret continue s3) \<Rightarrow> if continue then loop d W cfg plan s3 else Some (Ret () s3)) = Some r"
        using run go n Some m(5) by (simp add: check_running_def)
      then obtain q where q: "send_step d W cfg plan ?data ?s2 = Some q" by (auto split: option.splits)
      show ?thesis
      proof (cases q)
        case (Throw e s3)
        then show ?thesis using G R q by (auto simp: loop_end_def)
      next
        case (Ret continue s3)
        then show ?thesis using G R q IH [of d W cfg plan s3 r] 1(3) by (cases continue) (auto simp: loop_end_def)
      qed
    qed
  qed
qed

end
