(* ===== verification/SenderSession.thy ===== *)
theory SenderSession
  imports SenderStream
begin

text \<open>
  The whole run of the sender: startup heartbeats, data loop and end-of-session announcement. Whatever happens, line A carries a stream with the
  messages of the file, followed, once the file is complete, by end-of-session packets (\<open>run_consistent\<close>); after a successful run
  the stream is complete (\<open>run_success\<close>). A decoder that receives a stream in order stays in step with it (\<open>in_step_stream\<close>).
\<close>

section \<open>Startup\<close>

lemma startup_loop_result:
  assumes "sending cfg bytes [] [] s" "heartbeat = makeMoldHeartbeatPacket (session_bytes cfg) 1" "startup_loop n W cfg heartbeat deadline s = Some r"
  shows "case r of Throw e s' \<Rightarrow> safe cfg bytes s' | Ret u s' \<Rightarrow> sending cfg bytes [] [] s' \<or> dead_inv cfg bytes s'"
  using assms
proof (induction n arbitrary: deadline s)
  case (Suc n)
  let ?s1 = "s\<lparr>ss_tick := Suc (ss_tick s)\<rparr>"
  have n: "src_next_seq (ss_source s) = 1"
    using sending_source(1) [OF Suc.prems(1)] by (auto simp: at_messages_def src_at_def src_stopped_def)
  obtain sent s2 where c: "send_control_packet W cfg heartbeat 1 ?s1 = (sent, s2)" by fastforce
  have C: "if sent then sending cfg bytes [] [] s2 else dead_inv cfg bytes s2"
    using send_control_live [of cfg bytes "[]" "[]" ?s1 1 W sent s2] Suc.prems(1,2) c by simp
  let ?s3 = "s2\<lparr>ss_startup_heartbeats_sent := ss_startup_heartbeats_sent s2 + 1\<rparr>"
  show ?case
  proof (cases "running_at W (ss_tick s) \<and> sent")
    case False
    then have "r = Ret () ?s1 \<or> r = Ret () s2 \<and> \<not> sent" using Suc.prems(3) c n by (auto simp: check_running_def split: if_splits)
    then show ?thesis using Suc.prems(1) C by auto
  next
    case True
    then have s3: "sending cfg bytes [] [] ?s3" using C by simp
    then have sf: "safe cfg bytes ?s3" unfolding safe_def by blast
    let ?i = "uint (cfg_startup_heartbeat_interval_ms cfg) * 1000000"
    have R: "(if ?i > 0 then with_deadline deadline ?i ''startup heartbeat deadline'' ?s3 (\<lambda>deadline1.
          case sleepUntilOrStopped W deadline1 ?s3 of None \<Rightarrow> None
          | Some (reached, s4) \<Rightarrow> if reached then startup_loop n W cfg heartbeat deadline1 s4 else Some (Ret () s4))
        else startup_loop n W cfg heartbeat deadline ?s3) = Some r"
      using Suc.prems(3) c n True by (simp add: check_running_def Let_def)
    show ?thesis
    proof (cases "?i > 0 \<and> checkedDeadlineAfter deadline ?i \<noteq> None")
      case False
      then show ?thesis using R sf Suc.IH [OF s3 Suc.prems(2), of deadline]
        by (auto simp: with_deadline_def split: if_splits)
    next
      case i: True
      then obtain d q where d: "checkedDeadlineAfter deadline ?i = Some d" "sleepUntilOrStopped W d ?s3 = Some q"
        using R by (auto simp: with_deadline_def split: option.splits)
      obtain t where q: "snd q = ?s3\<lparr>ss_tick := t\<rparr>" using sleep_result [OF d(2)] by blast
      then have sq: "sending cfg bytes [] [] (snd q)" using s3 by (simp del: sending_frames)
      show ?thesis
      proof (cases "fst q")
        case True
        then show ?thesis using R i d Suc.IH [OF sq Suc.prems(2), of d] by (cases q) (simp add: with_deadline_def)
      next
        case False
        then show ?thesis using R i d sq by (cases q) (auto simp: with_deadline_def)
      qed
    qed
  qed
qed auto

lemma startup_result:
  assumes "sending cfg bytes [] [] s" "startup W cfg s = Some r"
  shows "case r of Throw e s' \<Rightarrow> safe cfg bytes s' | Ret u s' \<Rightarrow> sending cfg bytes [] [] s' \<or> dead_inv cfg bytes s'"
proof (cases "cfg_startup_heartbeat_count cfg = 0")
  case True
  then show ?thesis using assms by (auto simp: startup_def)
next
  case False
  have n: "src_next_seq (ss_source s) = 1"
    using sending_source(1) [OF assms(1)] by (auto simp: at_messages_def src_at_def src_stopped_def)
  show ?thesis
    by (rule startup_loop_result [of cfg bytes "s\<lparr>ss_tick := Suc (ss_tick s)\<rparr>" "makeMoldHeartbeatPacket (session_bytes cfg) 1"
          "unat (cfg_startup_heartbeat_count cfg)" W "sw_clock W (ss_tick s)"])
      (use assms False n in \<open>simp_all add: startup_def read_clock_def\<close>)
qed

lemma start_schedules_frame:
  "sending cfg bytes ms pending (start_schedules W s) = sending cfg bytes ms pending s" "dead_inv cfg bytes (start_schedules W s) = dead_inv cfg bytes s"
  by (simp_all add: start_schedules_def read_clock_def dead_inv_def)

lemma send_loop_failed: "ss_transmission_failed s \<Longrightarrow> send_loop d W cfg plan s = Some (Ret () (s\<lparr>ss_tick := Suc (ss_tick s)\<rparr>))"
  by (subst send_loop.simps) (simp add: check_running_def)

section \<open>End of session\<close>

abbreviation end_packet :: "SenderConfig \<Rightarrow> datagram list \<Rightarrow> u8 list" where
  "end_packet cfg ds \<equiv> makeMoldEndOfSessionPacket (session_bytes cfg) (next_number ds)"

text \<open>\<open>k\<close> end-of-session packets have been sent behind the stream.\<close>

definition ending :: "SenderConfig \<Rightarrow> u8 list \<Rightarrow> datagram list \<Rightarrow> nat \<Rightarrow> SenderState \<Rightarrow> bool" where
  "ending cfg bytes ds k s \<longleftrightarrow> \<not> ss_transmission_failed s \<and> list_all datagram_fits ds \<and>
     ss_wire_a s = render (session_bytes cfg) 0 ds @ replicate k (end_packet cfg ds) \<and> ss_wire_b s = (if arg_redundant cfg then ss_wire_a s else []) \<and>
     at_messages cfg bytes (carried ds) (ss_source s) \<and> src_completed (ss_source s) \<and> line_clean s (ss_line_a s) \<and>
     (if arg_redundant cfg then line_clean s (ss_line_b s) else ss_line_b s = newLineState) \<and> ss_end_of_session_packets_sent s = of_nat k"

definition wire_consistent :: "SenderConfig \<Rightarrow> u8 list \<Rightarrow> SenderState \<Rightarrow> bool" where
  "wire_consistent cfg bytes s \<longleftrightarrow> (\<exists>ds k pending. list_all datagram_fits ds \<and>
     ss_wire_a s = render (session_bytes cfg) 0 ds @ replicate k (end_packet cfg ds) \<and>
     at_messages cfg bytes (carried ds @ pending) (ss_source s) \<and> (k > 0 \<longrightarrow> pending = [] \<and> src_completed (ss_source s)))"

lemma safe_consistent: "safe cfg bytes s \<Longrightarrow> wire_consistent cfg bytes s"
  by (auto simp: safe_def sending_def live_inv_def dead_inv_def wire_consistent_def intro!: exI [of _ "0 :: nat"])

lemma consistent_tick [simp]: "wire_consistent cfg bytes (s\<lparr>ss_tick := t\<rparr>) = wire_consistent cfg bytes s"
  by (simp add: wire_consistent_def)

lemma ending_consistent: "ending cfg bytes ds k s \<Longrightarrow> wire_consistent cfg bytes s"
  unfolding ending_def wire_consistent_def by (intro exI [of _ ds] exI [of _ k] exI [of _ "[]"]) auto

lemma ending_tick [simp]: "ending cfg bytes ds k (s\<lparr>ss_tick := t\<rparr>) = ending cfg bytes ds k s"
  by (simp add: ending_def line_clean_def)

lemma send_end:
  assumes e: "ending cfg bytes ds k s" and c: "send_control_packet W cfg (end_packet cfg ds) (next_number ds) s = (sent, s')"
  shows "sent \<Longrightarrow> ending cfg bytes ds (Suc k) (s'\<lparr>ss_end_of_session_packets_sent := ss_end_of_session_packets_sent s' + 1\<rparr>)"
    "\<not> sent \<Longrightarrow> wire_consistent cfg bytes s' \<and> ss_transmission_failed s'"
    "ss_end_of_session_packets_sent s' = ss_end_of_session_packets_sent s"
proof -
  obtain s1 where t: "transmit W cfg (end_packet cfg ds) 0 s = (sent, s1)" using c by (auto simp: send_control_packet_def Let_def split: prod.splits if_splits)
  note T = transmit_result [OF t]
  have n: "ss_end_of_session_packets_sent s1 = ss_end_of_session_packets_sent s" using T(1) ..
  then show "ss_end_of_session_packets_sent s' = ss_end_of_session_packets_sent s"
    using c t by (auto simp: send_control_packet_def split: if_splits)
  have r: "replicate (Suc k) x = replicate k x @ [x]" for x :: "u8 list" by (simp flip: replicate_append_same)
  { assume sent
    then show "ending cfg bytes ds (Suc k) (s'\<lparr>ss_end_of_session_packets_sent := ss_end_of_session_packets_sent s' + 1\<rparr>)"
      using e c t T n unfolding ending_def r by (auto simp: send_control_packet_def line_clean_def count_sent_def)
  next
    assume no: "\<not> sent"
    then have s': "s' = s1\<lparr>ss_transmission_failed := True\<rparr>" using c t by (simp add: send_control_packet_def)
    have w: "wire_consistent cfg bytes s'" if "ss_wire_a s1 = render (session_bytes cfg) 0 ds @ replicate j (end_packet cfg ds)" for j
      unfolding wire_consistent_def using e that T(1) s'
      by (intro exI [of _ ds] exI [of _ j] exI [of _ "[]"]) (auto simp: ending_def)
    then show "wire_consistent cfg bytes s' \<and> ss_transmission_failed s'"
      using T(5) e w [of k] w [of "Suc k"] s' unfolding ending_def r by auto }
qed

lemma eos_loop_result:
  assumes "ending cfg bytes ds k s" "eos_loop n W cfg schedule (end_packet cfg ds) (next_number ds) previous s = Some r"
  shows "case r of Throw e s' \<Rightarrow> wire_consistent cfg bytes s'
     | Ret u s' \<Rightarrow> (\<exists>k' \<le> k + n. ending cfg bytes ds k' s') \<or> wire_consistent cfg bytes s' \<and> ss_transmission_failed s'"
  using assms
proof (induction n arbitrary: k previous s)
  case (Suc n)
  let ?s1 = "s\<lparr>ss_tick := Suc (ss_tick s)\<rparr>"
  show ?case
  proof (cases "running_at W (ss_tick s)")
    case False
    then show ?thesis using Suc.prems by (auto simp: check_running_def)
  next
    case run: True
    define waited where "waited = (case previous of None \<Rightarrow> Some (Ret True ?s1)
       | Some sent_at \<Rightarrow> (case checkedDeadlineAfterSend schedule sent_at of None \<Rightarrow> Some (Throw ''end-of-session deadline exceeds steady-clock range'' ?s1)
            | Some deadline \<Rightarrow> (case sleepUntilOrStopped W deadline ?s1 of None \<Rightarrow> None | Some (reached, s2) \<Rightarrow> Some (Ret reached s2))))"
    have W: "waited = None \<or> (\<exists>e. waited = Some (Throw e ?s1)) \<or> (\<exists>b t. waited = Some (Ret b (s\<lparr>ss_tick := t\<rparr>)))"
    proof (cases previous)
      case (Some p)
      show ?thesis
      proof (cases "checkedDeadlineAfterSend schedule p")
        case d: (Some d)
        show ?thesis
        proof (cases "sleepUntilOrStopped W d ?s1")
          case q: (Some q)
          then show ?thesis using Some d sleep_result [OF q] by (cases q) (auto simp: waited_def)
        qed (simp add: waited_def Some d)
      qed (simp add: waited_def Some)
    qed (auto simp: waited_def)
    have R: "flow_bind waited (\<lambda>reached s2. if \<not> reached then Some (Ret () s2)
          else let (sent, s3) = send_control_packet W cfg (end_packet cfg ds) (next_number ds) s2
               in if \<not> sent then Some (Ret () s3)
                  else let (now, s4) = read_clock W s3;
                           s5 = (if previous = None \<and> ss_logical_first_seq s4 = 0 then s4\<lparr>ss_logical_first_seq := next_number ds\<rparr> else s4)
                       in eos_loop n W cfg schedule (end_packet cfg ds) (next_number ds) (Some now)
                            (s5\<lparr>ss_end_of_session_packets_sent := ss_end_of_session_packets_sent s5 + 1\<rparr>)) = Some r"
      using Suc.prems(2) run unfolding waited_def by (simp add: check_running_def Let_def)
    consider (throw) e where "waited = Some (Throw e ?s1)" | (ret) b t where "waited = Some (Ret b (s\<lparr>ss_tick := t\<rparr>))"
      using W R by (auto simp: flow_bind_def)
    then show ?thesis
    proof cases
      case throw
      then show ?thesis using R ending_consistent [of cfg bytes ds k ?s1] Suc.prems(1) by (auto simp: flow_bind_def)
    next
      case ret
      have e: "ending cfg bytes ds k (s\<lparr>ss_tick := t\<rparr>)" using Suc.prems(1) by simp
      obtain sent s3 where c: "send_control_packet W cfg (end_packet cfg ds) (next_number ds) (s\<lparr>ss_tick := t\<rparr>) = (sent, s3)" by fastforce
      note E = send_end [OF e c]
      let ?s5 = "(if previous = None \<and> ss_logical_first_seq s3 = 0 then s3\<lparr>ss_tick := Suc (ss_tick s3), ss_logical_first_seq := next_number ds\<rparr> else s3\<lparr>ss_tick := Suc (ss_tick s3)\<rparr>)"
      let ?s6 = "?s5\<lparr>ss_end_of_session_packets_sent := ss_end_of_session_packets_sent ?s5 + 1\<rparr>"
      show ?thesis
      proof (cases "b \<and> sent")
        case False
        then have "r = (if b then Ret () s3 else Ret () (s\<lparr>ss_tick := t\<rparr>))" using R ret c by (cases b) (simp_all add: flow_bind_def)
        then show ?thesis using False E(2) e by (auto intro!: exI [of _ k])
      next
        case True
        then have "eos_loop n W cfg schedule (end_packet cfg ds) (next_number ds) (Some (sw_clock W (ss_tick s3))) ?s6 = Some r"
          using R ret c by (simp add: flow_bind_def read_clock_def Let_def)
        moreover have "ending cfg bytes ds (Suc k) ?s6" using E(1) True by (cases "arg_redundant cfg") (auto simp: ending_def line_clean_def)
        ultimately show ?thesis using Suc.IH [of "Suc k" ?s6] by (simp cong: flow.case_cong)
      qed
    qed
  qed
qed auto

section \<open>The run\<close>

lemma initial_sending:
  assumes "usable cfg bytes"
  shows "sending cfg bytes [] [] (initialState W cfg (newItchMoldUdpSource (Some bytes) path (session_bytes cfg) (arg_msgs_per_packet cfg) (cfg_completion_policy cfg)))"
proof -
  have u: "length (session_bytes cfg) \<le> 10" "arg_msgs_per_packet cfg \<noteq> 0" using assms by (auto simp: usable_def)
  show ?thesis using new_source_at [OF u, of bytes path "cfg_completion_policy cfg"]
    by (auto simp: sending_def live_inv_def at_messages_def line_clean_def initialState_def newLineState_def intro!: exI [of _ "[]"])
qed

text \<open>Before the announcement: the sender is live with nothing pending, or it was stopped.\<close>

definition before_end :: "SenderWorld \<Rightarrow> SenderConfig \<Rightarrow> u8 list \<Rightarrow> SenderState \<Rightarrow> bool" where
  "before_end W cfg bytes s \<longleftrightarrow> stopped W cfg bytes s \<or> (\<exists>ms. sending cfg bytes ms [] s)"

lemma loop_before_end:
  assumes "usable cfg bytes" "sending cfg bytes ms [] s \<or> dead_inv cfg bytes s" "send_loop d W cfg plan (start_schedules W s) = Some r"
  shows "case r of Throw e s' \<Rightarrow> safe cfg bytes s' | Ret u s' \<Rightarrow> before_end W cfg bytes s'"
  using assms(2)
proof
  assume "sending cfg bytes ms [] s"
  then show ?thesis using send_loop_result [OF assms(3), of bytes ms] assms(1)
    by (auto simp: start_schedules_frame loop_end_def before_end_def split: flow.splits)
next
  assume d: "dead_inv cfg bytes s"
  then have "dead_inv cfg bytes (start_schedules W s)" by (simp add: start_schedules_frame)
  then have "r = Ret () ((start_schedules W s)\<lparr>ss_tick := Suc (ss_tick (start_schedules W s))\<rparr>)" "dead_inv cfg bytes (start_schedules W s)"
    using assms(3) send_loop_failed [of "start_schedules W s" d W cfg plan] by (auto simp: dead_inv_def)
  then show ?thesis by (auto simp: before_end_def stopped_def dead_inv_def)
qed

lemma announce_result:
  assumes b: "before_end W cfg bytes s" and r: "announce_end W cfg s = Some r"
    and c: "cfg_end_of_session_packet_count cfg \<noteq> 0"
  shows "case r of Throw e s' \<Rightarrow> wire_consistent cfg bytes s'
     | Ret all s' \<Rightarrow> wire_consistent cfg bytes s' \<and>
         (all \<longrightarrow> ss_transmission_failed s' \<or> (\<exists>ds. ending cfg bytes ds (unat (cfg_end_of_session_packet_count cfg)) s'))"
proof -
  let ?n = "unat (cfg_end_of_session_packet_count cfg)"
  have n: "?n \<noteq> 0" using c by (simp add: unat_eq_zero)
  have sf: "safe cfg bytes s" using b by (auto simp: before_end_def stopped_def safe_def)
  note w = safe_consistent [OF sf]
  show ?thesis
  proof (cases "src_completed (ss_source s) \<and> \<not> ss_transmission_failed s")
    case False
    then show ?thesis using r w by (auto simp: announce_end_def)
  next
    case True
    have e0: "ss_end_of_session_packets_sent s = 0"
      using b True by (auto simp: before_end_def stopped_def dead_inv_def sending_def live_inv_def)
    let ?E = "\<lambda>m. eos_loop m W cfg (eosSchedule cfg) (makeMoldEndOfSessionPacket (session_bytes cfg) (src_next_seq (ss_source s))) (src_next_seq (ss_source s)) None s"
    obtain q where q: "?E ?n = Some q" "flow_bind (Some q) (\<lambda>_ s1. Some (Ret (ss_end_of_session_packets_sent s1 = cfg_end_of_session_packet_count cfg) s1)) = Some r"
      using r True by (auto simp: announce_end_def eosSchedule_def flow_bind_def Let_def split: option.splits)
    have "\<not> running_at W (ss_tick s) \<or> (\<exists>ms. sending cfg bytes ms [] s)" using b True by (auto simp: before_end_def stopped_def dead_inv_def)
    then show ?thesis
    proof
      assume nr: "\<not> running_at W (ss_tick s)"
      obtain m where "?n = Suc m" using n not0_implies_Suc by blast
      then have "q = Ret () (s\<lparr>ss_tick := Suc (ss_tick s)\<rparr>)" using q(1) nr by (simp add: check_running_def)
      then show ?thesis using q(2) e0 c w by (auto simp: flow_bind_def)
    next
      assume "\<exists>ms. sending cfg bytes ms [] s"
      then obtain ds where ds: "live_inv cfg bytes ds [] s" by (auto simp: sending_def)
      then have "ending cfg bytes ds 0 s" using True e0 by (auto simp: live_inv_def ending_def)
      from eos_loop_result [OF this, of ?n W "eosSchedule cfg" None q] q(1) live_next_seq [OF ds]
      have E: "case q of Throw e s' \<Rightarrow> wire_consistent cfg bytes s'
         | Ret u s' \<Rightarrow> (\<exists>k' \<le> ?n. ending cfg bytes ds k' s') \<or> wire_consistent cfg bytes s' \<and> ss_transmission_failed s'" by (simp cong: flow.case_cong)
      show ?thesis
      proof (cases q)
        case (Throw e s')
        then show ?thesis using E q(2) by (auto simp: flow_bind_def)
      next
        case (Ret u s')
        have k: "k' = ?n" if "ending cfg bytes ds k' s'" "k' \<le> ?n" "ss_end_of_session_packets_sent s' = cfg_end_of_session_packet_count cfg" for k'
        proof -
          have "unat (of_nat k' :: u64) = k'" using that(2) unsigned_less [of "cfg_end_of_session_packet_count cfg", where 'a = nat]
            by (simp add: unat_of_nat)
          then show ?thesis using that(1,3) by (auto simp: ending_def)
        qed
        have r': "r = Ret (ss_end_of_session_packets_sent s' = cfg_end_of_session_packet_count cfg) s'" using Ret q(2) by (simp add: flow_bind_def)
        show ?thesis using E Ret r' k ending_consistent by fastforce
      qed
    qed
  qed
qed

text \<open>A run on a file that was opened.\<close>

lemma run_result:
  assumes u: "usable cfg bytes" and c: "cfg_end_of_session_packet_count cfg \<noteq> 0" and r: "sender_run d W cfg (Some bytes) = Some (success, text, s)"
  shows "wire_consistent cfg bytes s" "success \<Longrightarrow> \<exists>ds. ending cfg bytes ds (unat (cfg_end_of_session_packet_count cfg)) s"
proof -
  let ?src = "newItchMoldUdpSource (Some bytes) (arg_path cfg) (session_bytes cfg) (arg_msgs_per_packet cfg) (cfg_completion_policy cfg)"
  let ?s0 = "initialState W cfg ?src" and ?plan = "replayPlan cfg (Some bytes)"
  have s0: "sending cfg bytes [] [] ?s0" by (rule initial_sending [OF u])
  define m where "m = flow_bind (startup W cfg ?s0) (\<lambda>_ s1. flow_bind (send_loop d W cfg ?plan (start_schedules W s1)) (\<lambda>_ s2. announce_end W cfg s2))"
  have M: "case m of None \<Rightarrow> True | Some (Throw e s') \<Rightarrow> wire_consistent cfg bytes s'
     | Some (Ret all s') \<Rightarrow> wire_consistent cfg bytes s' \<and>
         (all \<longrightarrow> ss_transmission_failed s' \<or> (\<exists>ds. ending cfg bytes ds (unat (cfg_end_of_session_packet_count cfg)) s'))"
  proof (cases "startup W cfg ?s0")
    case (Some r1)
    note R1 = startup_result [OF s0 Some]
    show ?thesis
    proof (cases r1)
      case (Ret x s1)
      show ?thesis
      proof (cases "send_loop d W cfg ?plan (start_schedules W s1)")
        case l: (Some r2)
        have R2: "case r2 of Throw e s' \<Rightarrow> safe cfg bytes s' | Ret u s' \<Rightarrow> before_end W cfg bytes s'"
          by (rule loop_before_end [OF u _ l, of "[]"]) (use R1 Ret in simp)
        show ?thesis
        proof (cases r2)
          case r2: (Ret y s2)
          then show ?thesis using R2 Some Ret l announce_result [of W cfg bytes s2 _] c
            by (cases "announce_end W cfg s2") (auto simp: m_def flow_bind_def split: flow.splits)
        next
          case (Throw e s2)
          then show ?thesis using R2 Some Ret l safe_consistent by (auto simp: m_def flow_bind_def)
        qed
      qed (simp add: m_def flow_bind_def Some Ret)
    next
      case (Throw e s1)
      then show ?thesis using R1 Some safe_consistent by (auto simp: m_def flow_bind_def)
    qed
  qed (simp add: m_def flow_bind_def)
  show "wire_consistent cfg bytes s"
  proof (cases "src_isOpen ?src")
    case False
    then show ?thesis using r s0 safe_consistent [of cfg bytes ?s0] by (auto simp: sender_run_def Let_def safe_def)
  next
    case True
    then show ?thesis using r M unfolding sender_run_def Let_def m_def
      by (auto simp: check_running_def split: option.splits flow.splits)
  qed
  assume "success"
  then show "\<exists>ds. ending cfg bytes ds (unat (cfg_end_of_session_packet_count cfg)) s"
    using r M unfolding sender_run_def Let_def m_def
    by (auto simp: check_running_def exit_success_def split: option.splits flow.splits if_splits)
qed

section \<open>The receiving side\<close>

lemma in_step_beat:
  assumes d: "in_step session d n p" and s: "length sess \<le> 10" "session = padded_session sess"
    and v: "pv_data v = Some (makeMoldHeartbeatPacket sess (1 + of_nat n))"
  shows "\<exists>r d'. processPacket elapsed d v = Some (r, d') \<and> in_step session d' n p \<and> md_first_packet_seen d'"
proof -
  let ?P = "makeMoldHeartbeatPacket sess (1 + of_nat n)" and ?d = "bind_session d (makeMoldHeartbeatPacket sess (1 + of_nat n))"
  have P: "length ?P = 20" "mold_readU16BE ?P 18 = 0" "mold_readU64BE ?P 10 = 1 + of_nat n" "take 10 ?P = session"
    by (simp_all add: makeMoldHeartbeatPacket_def mold_readers control_packet_fields s(2)) (simp_all add: control_packet_layout)
  have l: "length session = 10" using s by (simp add: padded_session_def)
  note I = in_step_session [OF d P(4) l]
  have "processPacket elapsed d v = Some (processHeartbeat ?d (1 + of_nat n))"
    using d P I(2) by (auto simp: processPacket_def v kHeaderSize_def kEndOfSessionMessageCount_def bind_session_def in_step_def Let_def)
  moreover have "processHeartbeat ?d (1 + of_nat n) = (result_of DecodeOk False, ?d)"
    using I(1) by (simp add: processHeartbeat_def in_step_def)
  ultimately show ?thesis using I by auto
qed

lemma in_step_stream:
  assumes "map pv_data vs = map Some (render sess n ds)" "list_all datagram_fits ds" "list_all day_message (carried ds)"
    "1 + n + length (carried ds) < 2 ^ 64" "length sess \<le> 10" "in_step (padded_session sess) d n p" "run_parser p (carried ds) = (True, p')"
  shows "\<exists>d'. decode_all elapsed d vs = Some d' \<and> in_step (padded_session sess) d' (n + length (carried ds)) p' \<and> (ds \<noteq> [] \<longrightarrow> md_first_packet_seen d')"
  using assms
proof (induction ds arbitrary: n vs d p)
  case Nil
  then show ?case by simp
next
  case (Cons x ds)
  then obtain v ws where vs: "vs = v # ws" by (cases vs; cases x) auto
  let ?ms = "messages_in x"
  obtain p1 where p1: "run_parser p ?ms = (True, p1)" "run_parser p1 (carried ds) = (True, p')"
    using Cons.prems(7) sink.run_append [of p ?ms "carried ds"] by (cases "run_parser p ?ms") (auto split: if_splits)
  have u: "unat (1 + of_nat n :: u64) + length ?ms < 2 ^ 64" using Cons.prems(4) by (simp add: unat_word_ariths unat_of_nat)
  have l: "length (padded_session sess) = 10" using Cons.prems(5) by (simp add: padded_session_def)
  have "\<exists>r d1. processPacket elapsed d v = Some (r, d1) \<and> in_step (padded_session sess) d1 (n + length ?ms) p1 \<and> md_first_packet_seen d1"
  proof (cases x)
    case (Data ms)
    then show ?thesis using in_step_packet [OF Cons.prems(6) l, of v ms p1 elapsed] Cons.prems(1,2,3) u p1(1) by (simp add: vs)
  next
    case Beat
    then show ?thesis using in_step_beat [OF Cons.prems(6,5) refl, of v elapsed] Cons.prems(1) p1(1) by (simp add: vs)
  qed
  then obtain r d1 where d1: "processPacket elapsed d v = Some (r, d1)" "in_step (padded_session sess) d1 (n + length ?ms) p1" "md_first_packet_seen d1" by blast
  have ws: "map pv_data ws = map Some (render sess (n + length ?ms) ds)" using Cons.prems(1) by (cases x) (simp_all add: vs)
  obtain d' where d': "decode_all elapsed d1 ws = Some d'" "in_step (padded_session sess) d' (n + length ?ms + length (carried ds)) p'" "ds \<noteq> [] \<longrightarrow> md_first_packet_seen d'"
    using Cons.IH [OF ws _ _ _ Cons.prems(5) d1(2) p1(2)] Cons.prems(2-4) by auto
  moreover have "md_first_packet_seen d'" if "ds = []" using d'(1) d1(3) ws that by simp
  ultimately show ?case using d1(1) by (auto simp: vs add.assoc)
qed

end
