(* ===== verification/SenderProgress.thy ===== *)
theory SenderProgress
  imports SenderSession
begin

text \<open>
  The sender gets through its file. When the clock passes every time point it can represent, each wait ends (\<open>sleep_returns\<close>, \<open>wait_returns\<close>), so that
  every step of the data loop returns, and the loop ends because the source does. Without signals and failed transmissions no step leaves the
  loop early; the only exceptions are those of deadlines beyond the range of the clock.
\<close>

definition clock_advances :: "SenderWorld \<Rightarrow> bool" where
  "clock_advances W \<longleftrightarrow> (\<forall>n. sw_clock W n \<le> timePointMax) \<and> (\<forall>t \<le> timePointMax. \<exists>n0. \<forall>n \<ge> n0. t \<le> sw_clock W n)"

definition undisturbed :: "SenderWorld \<Rightarrow> bool" where
  "undisturbed W \<longleftrightarrow> sw_signal W = None \<and> (\<forall>n. sw_line_a W n) \<and> (\<forall>n. sw_line_b W n)"

definition clock_error :: "string \<Rightarrow> bool" where
  "clock_error e \<longleftrightarrow> (\<exists>label. e = label @ '' exceeds steady-clock range'')"

lemma clock_errors [simp]:
  "clock_error (label @ '' exceeds steady-clock range'')" "clock_error ''packet-rate deadline exceeds steady-clock range''"
  "clock_error ''end-of-session deadline exceeds steady-clock range''" "clock_error ''startup heartbeat deadline exceeds steady-clock range''"
proof -
  show e: "clock_error (label @ '' exceeds steady-clock range'')" for label by (auto simp: clock_error_def)
  show "clock_error ''packet-rate deadline exceeds steady-clock range''" using e [of "''packet-rate deadline''"] by simp
  show "clock_error ''end-of-session deadline exceeds steady-clock range''" using e [of "''end-of-session deadline''"] by simp
  show "clock_error ''startup heartbeat deadline exceeds steady-clock range''" using e [of "''startup heartbeat deadline''"] by simp
qed

text \<open>The deadlines kept in the state are in the range of the clock; \<open>full\<close> says that the file is complete.\<close>

definition on_time :: "SenderWorld \<Rightarrow> bool \<Rightarrow> SenderState \<Rightarrow> bool" where
  "on_time W full s \<longleftrightarrow> (case hb_next_heartbeat (ss_heartbeat_schedule s) of None \<Rightarrow> True | Some h \<Rightarrow> h \<le> timePointMax) \<and>
     (ss_premarket_active s \<longrightarrow> ss_next_premarket_send s \<le> timePointMax) \<and> (undisturbed W \<longrightarrow> \<not> ss_transmission_failed s) \<and>
     (full \<longrightarrow> src_eof (ss_source s) \<longrightarrow> src_completed (ss_source s))"

definition returns :: "SenderWorld \<Rightarrow> bool \<Rightarrow> bool flow option \<Rightarrow> bool" where
  "returns W full m \<longleftrightarrow>
     (\<exists>r. m = Some r \<and> (case r of Throw e s \<Rightarrow> clock_error e | Ret continue s \<Rightarrow> on_time W full s \<and> (undisturbed W \<longrightarrow> continue)))"

lemma returns_simps [simp]:
  "returns W full (Some (Ret continue s)) = (on_time W full s \<and> (undisturbed W \<longrightarrow> continue))" "returns W full (Some (Throw e s)) = clock_error e"
  "\<not> returns W full None"
  by (simp_all add: returns_def)

lemma returns_then:
  assumes "returns W full m" "\<And>s. on_time W full s \<Longrightarrow> returns W full (f s)"
  shows "returns W full (and_then m f)"
proof -
  obtain r where r: "m = Some r" using assms(1) by (auto simp: returns_def)
  show ?thesis
  proof (cases r)
    case (Ret continue s)
    then show ?thesis using assms r by (cases continue) (auto simp: and_then_def flow_bind_def)
  next
    case (Throw e s)
    then show ?thesis using assms r by (simp add: and_then_def flow_bind_def)
  qed
qed

lemma returns_deadline:
  assumes "\<And>d. d \<le> timePointMax \<Longrightarrow> returns W full (f d)"
  shows "returns W full (with_deadline base delay label s f)"
  using assms by (auto simp: with_deadline_def checkedDeadlineAfter_def)

lemma on_time_tick [simp]: "on_time W full (s\<lparr>ss_tick := t\<rparr>) = on_time W full s" by (simp add: on_time_def)

lemma on_time_traffic: "on_time W full s \<Longrightarrow> t \<le> timePointMax \<Longrightarrow> on_time W full (s\<lparr>ss_heartbeat_schedule := observeTraffic (ss_heartbeat_schedule s) t\<rparr>)"
  by (simp add: on_time_def observeTraffic_def)

section \<open>Waits end\<close>

lemma undisturbed_running: "undisturbed W \<Longrightarrow> running_at W t" by (simp add: undisturbed_def running_at_def)

lemma sleep_returns:
  assumes "clock_advances W" "deadline \<le> timePointMax"
  shows "\<exists>b t. sleepUntilOrStopped W deadline s = Some (b, s\<lparr>ss_tick := t\<rparr>) \<and> ss_tick s \<le> t \<and> (undisturbed W \<longrightarrow> b)"
proof -
  obtain n0 where n0: "\<forall>n \<ge> n0. deadline \<le> sw_clock W n" using assms by (auto simp: clock_advances_def)
  show ?thesis
  proof (induction "n0 - ss_tick s" arbitrary: s rule: less_induct)
    case less
    let ?s2 = "s\<lparr>ss_tick := Suc (Suc (ss_tick s))\<rparr>"
    show ?case
    proof (cases "running_at W (ss_tick s) \<and> \<not> sw_clock W (Suc (ss_tick s)) \<ge> deadline")
      case True
      then have "\<not> n0 \<le> Suc (ss_tick s)" using n0 by blast
      then have "n0 - ss_tick ?s2 < n0 - ss_tick s" by simp
      from less [OF this] obtain b t where "sleepUntilOrStopped W deadline ?s2 = Some (b, ?s2\<lparr>ss_tick := t\<rparr>)" "ss_tick ?s2 \<le> t" "undisturbed W \<longrightarrow> b" by blast
      moreover have "sleepUntilOrStopped W deadline s = sleepUntilOrStopped W deadline ?s2"
        using True by (subst sleepUntilOrStopped.simps) (simp add: check_running_def read_clock_def)
      ultimately show ?thesis by (intro exI [of _ b] exI [of _ t]) auto
    next
      case False
      then have "sleepUntilOrStopped W deadline s = (if running_at W (ss_tick s) then Some (True, ?s2) else Some (False, s\<lparr>ss_tick := Suc (ss_tick s)\<rparr>))"
        by (subst sleepUntilOrStopped.simps) (simp add: check_running_def read_clock_def)
      then show ?thesis using undisturbed_running [of W "ss_tick s"]
        by (intro exI [of _ "running_at W (ss_tick s)"] exI [of _ "if running_at W (ss_tick s) then Suc (Suc (ss_tick s)) else Suc (ss_tick s)"]) simp
    qed
  qed
qed

lemma transmit_tick: "transmit W cfg data cnt s = (sent, s') \<Longrightarrow> ss_tick s \<le> ss_tick s' \<and> (undisturbed W \<longrightarrow> sent)"
  by (auto simp: transmit_def send_redundant_def send_line_a_def undisturbed_def Let_def split: if_splits)

lemma transmit_schedules:
  assumes "transmit W cfg data cnt s = (sent, s')"
  shows "on_time W full s' = on_time W full s"
proof -
  have "ss_heartbeat_schedule s' = ss_heartbeat_schedule s" "ss_premarket_active s' = ss_premarket_active s"
    "ss_next_premarket_send s' = ss_next_premarket_send s"
    using assms by (auto simp: transmit_def send_redundant_def send_line_a_def Let_def split: if_splits)
  then show ?thesis using transmit_result(1,2) [OF assms] by (simp add: on_time_def)
qed

lemma send_control_on_time:
  assumes "send_control_packet W cfg packet next_sequence s = (sent, s')" "on_time W full s"
  shows "on_time W full s'" "ss_tick s \<le> ss_tick s'" "undisturbed W \<longrightarrow> sent"
proof -
  obtain s1 where t: "transmit W cfg packet 0 s = (sent, s1)" using assms(1) by (auto simp: send_control_packet_def Let_def split: prod.splits if_splits)
  note T = transmit_tick [OF t] transmit_schedules [OF t, of full] assms(2)
  have s': "s' = (if sent then s1\<lparr>ss_logical_packets := ss_logical_packets s1 + 1, ss_logical_next_seq := next_sequence\<rparr> else s1\<lparr>ss_transmission_failed := True\<rparr>)"
    using assms(1) t by (simp add: send_control_packet_def split: if_splits)
  show "on_time W full s'" "ss_tick s \<le> ss_tick s'" "undisturbed W \<longrightarrow> sent" using T unfolding s' by (auto simp: on_time_def)
qed

lemma wait_returns:
  assumes W: "clock_advances W" and d: "deadline \<le> timePointMax"
  shows "on_time W full s \<Longrightarrow> \<exists>b s'. wait_until_with_heartbeats W cfg deadline n s = Some (b, s') \<and> on_time W full s' \<and> (undisturbed W \<longrightarrow> b)"
proof -
  obtain n0 where n0: "\<forall>n \<ge> n0. deadline \<le> sw_clock W n" using assms by (auto simp: clock_advances_def)
  show "on_time W full s \<Longrightarrow> ?thesis"
  proof (induction "n0 - ss_tick s" arbitrary: s rule: less_induct)
    case less
    let ?s2 = "s\<lparr>ss_tick := Suc (Suc (ss_tick s))\<rparr>"
    show ?case
    proof (cases "running_at W (ss_tick s) \<and> \<not> sw_clock W (Suc (ss_tick s)) \<ge> deadline")
      case False
      then show ?thesis using undisturbed_running [of W "ss_tick s"] less.prems
        by (subst wait_until_with_heartbeats.simps) (auto simp: check_running_def read_clock_def)
    next
      case True
      then have lt: "\<not> n0 \<le> Suc (ss_tick s)" using n0 by blast
      show ?thesis
      proof (cases "nextHeartbeatBefore (ss_heartbeat_schedule s) deadline")
        case None
        then show ?thesis using True sleep_returns [OF W d, of ?s2] less.prems
          by (subst wait_until_with_heartbeats.simps) (auto simp: check_running_def read_clock_def)
      next
        case (Some h)
        then have "h \<le> timePointMax" using less.prems by (auto simp: nextHeartbeatBefore_def on_time_def split: option.splits if_splits)
        from sleep_returns [OF W this, of ?s2] obtain b t where
          b: "sleepUntilOrStopped W h ?s2 = Some (b, s\<lparr>ss_tick := t\<rparr>)" "Suc (Suc (ss_tick s)) \<le> t" "undisturbed W \<longrightarrow> b" by auto
        obtain sent s4 where c: "send_control_packet W cfg (makeMoldHeartbeatPacket (session_bytes cfg) n) n (s\<lparr>ss_tick := t\<rparr>) = (sent, s4)" by fastforce
        note C = send_control_on_time [OF c, of full]
        let ?s5 = "s4\<lparr>ss_periodic_heartbeats_sent := ss_periodic_heartbeats_sent s4 + 1, ss_tick := Suc (ss_tick s4)\<rparr>"
        let ?s6 = "?s5\<lparr>ss_heartbeat_schedule := observeTraffic (ss_heartbeat_schedule s4) (sw_clock W (ss_tick s4))\<rparr>"
        have E: "wait_until_with_heartbeats W cfg deadline n s =
            (if \<not> b then Some (False, s\<lparr>ss_tick := t\<rparr>) else if \<not> sent then Some (False, s4) else wait_until_with_heartbeats W cfg deadline n ?s6)"
          using True Some b(1) c by (subst wait_until_with_heartbeats.simps) (simp add: check_running_def read_clock_def)
        have o5: "on_time W full ?s5" using C(1) less.prems by (simp add: on_time_def)
        have "on_time W full ?s6" using on_time_traffic [OF o5, of "sw_clock W (ss_tick s4)"] W by (simp add: clock_advances_def)
        moreover have "n0 - ss_tick ?s6 < n0 - ss_tick s" using C(2) b(2) lt less.prems by simp
        ultimately show ?thesis using less.hyps [of ?s6] E b(3) C less.prems by (auto split: if_splits)
      qed
    qed
  qed
qed

lemma returns_wait: "clock_advances W \<Longrightarrow> deadline \<le> timePointMax \<Longrightarrow> on_time W full s \<Longrightarrow> returns W full (wait_step W cfg deadline n s)"
  using wait_returns [of W deadline full s cfg n] by (auto simp: wait_step_def)

section \<open>Steps return\<close>

lemma returns_pace:
  assumes W: "clock_advances W" and s: "on_time W full s"
  shows "returns W full (pace_packet ld_divide W cfg plan first_seq timing s)"
proof (cases "ss_premarket_active s")
  case False
  then show ?thesis using s by (simp add: pace_packet_def)
next
  case True
  then have d: "ss_next_premarket_send s \<le> timePointMax" using s by (simp add: on_time_def)
  have "on_time W full (s'\<lparr>ss_next_premarket_send := d\<rparr>)" if "on_time W full s'" "d \<le> timePointMax" for s' d using that by (simp add: on_time_def)
  then show ?thesis using True s returns_wait [OF W d s] returns_wait [OF W _ s]
    by (auto simp: pace_packet_def Let_def intro!: returns_then returns_deadline split: PremarketReplayMode.splits)
qed

lemma returns_send: "on_time W full s \<Longrightarrow> returns W full (send_packet W cfg data s)"
proof -
  assume s: "on_time W full s"
  obtain sent s1 where t: "transmit W cfg data (mold_readU16BE data 18) s = (sent, s1)" by fastforce
  show ?thesis using transmit_schedules [OF t, of full] transmit_tick [OF t] s
    by (cases sent) (auto simp: send_packet_def Let_def t on_time_def)
qed

lemma returns_schedule:
  assumes W: "clock_advances W" and s: "on_time W full s"
  shows "\<exists>r. schedule_next W timing s = Some r \<and>
    (case r of Throw e s' \<Rightarrow> clock_error e | Ret d s' \<Rightarrow> on_time W full s' \<and> (case d of None \<Rightarrow> True | Some t \<Rightarrow> t \<le> timePointMax))"
proof -
  let ?t = "sw_clock W (ss_tick s)" and ?s1 = "s\<lparr>ss_tick := ss_tick s + 1\<rparr>"
  define s2 where "s2 = (if hb_enabled (ss_heartbeat_schedule ?s1) then ?s1\<lparr>ss_heartbeat_schedule := observeTraffic (ss_heartbeat_schedule ?s1) ?t\<rparr> else ?s1)"
  have s2: "on_time W full s2"
    using on_time_traffic [of W full ?s1 ?t] s W by (auto simp: s2_def clock_advances_def)
  then have rate: "on_time W full (s2\<lparr>ss_packet_rate_schedule := r\<rparr>)" for r by (simp add: on_time_def)
  have D: "d \<le> timePointMax" if "checkedDeadlineAfterPacket r ?t = (Some d, r')" for r r' d
    using that by (auto simp: checkedDeadlineAfterPacket_def rs_checkedAdd_def Let_def split: if_splits option.splits)
  define r where "r = (if contains_sq timing then rs_reset (ss_packet_rate_schedule s2) ?t else ss_packet_rate_schedule s2)"
  obtain d r' where dr: "checkedDeadlineAfterPacket r ?t = (d, r')" by fastforce
  have "schedule_next W timing s = (if rs_enabled (ss_packet_rate_schedule s2) \<and> (\<not> ss_premarket_active s2 \<or> contains_sq timing)
      then if d = None then Some (Throw ''packet-rate deadline exceeds steady-clock range'' (s2\<lparr>ss_packet_rate_schedule := r'\<rparr>))
           else Some (Ret d (s2\<lparr>ss_packet_rate_schedule := r'\<rparr>)) else Some (Ret None s2))"
    unfolding schedule_next_def read_clock_def Let_def prod.case s2_def [symmetric] r_def [symmetric] dr ..
  then show ?thesis using s2 rate D dr by (cases d) auto
qed

lemma returns_premarket:
  assumes W: "clock_advances W" and s: "on_time W full s"
  shows "returns W full (start_premarket W cfg plan s)"
proof (cases "plan_enabled plan \<and> \<not> ss_premarket_active s")
  case True
  let ?s2 = "s\<lparr>ss_premarket_active := True, ss_tick := Suc (ss_tick s), ss_premarket_start := sw_clock W (ss_tick s)\<rparr>"
  have o: "on_time W full (?s2\<lparr>ss_next_premarket_send := d\<rparr>)" if "d \<le> timePointMax" for d using s that by (simp add: on_time_def)
  have "on_time W full (s'\<lparr>ss_source := (ss_source s')\<lparr>src_msgs_per_packet := 1\<rparr>\<rparr>)" if "on_time W full s'" for s' using that by (simp add: on_time_def)
  from this [OF o] o show ?thesis using True unfolding start_premarket_def read_clock_def Let_def
    by (auto intro!: returns_deadline simp: setMessagesPerPacket_def)
qed (use s in \<open>auto simp: start_premarket_def\<close>)

lemma returns_ss:
  assumes W: "clock_advances W" and s: "on_time W full s"
  shows "returns W full (handle_ss W cfg plan timing s)"
proof -
  let ?s1 = "s\<lparr>ss_tick := Suc (ss_tick s)\<rparr>" and ?n = "src_next_seq (ss_source s)"
  have w: "returns W full (case wait_until_with_heartbeats W cfg d ?n ?s1 of None \<Rightarrow> None
      | Some (completed, s2) \<Rightarrow> let s3 = s2\<lparr>ss_pause_pending := False\<rparr> in if \<not> completed then Some (Ret False s3) else start_premarket W cfg plan s3)"
    if d: "d \<le> timePointMax" for d
  proof -
    obtain b s2 where b: "wait_until_with_heartbeats W cfg d ?n ?s1 = Some (b, s2)" "on_time W full s2" "undisturbed W \<longrightarrow> b"
      using wait_returns [OF W d, of full ?s1 cfg ?n] s by auto
    have "on_time W full (s2\<lparr>ss_pause_pending := False\<rparr>)" using b(2) by (simp add: on_time_def)
    then show ?thesis using b returns_premarket [OF W] by (cases b) (auto simp: Let_def)
  qed
  then show ?thesis using s returns_premarket [OF W s]
    by (auto simp: handle_ss_def read_clock_def Let_def intro!: returns_deadline)
qed

lemma returns_sq: "on_time W full s \<Longrightarrow> arg_msgs_per_packet cfg \<noteq> 0 \<Longrightarrow> returns W full (handle_sq cfg timing s)"
  by (auto simp: handle_sq_def setMessagesPerPacket_def on_time_def Let_def)

lemma returns_ordinary:
  "clock_advances W \<Longrightarrow> on_time W full s \<Longrightarrow> (case d of None \<Rightarrow> True | Some t \<Rightarrow> t \<le> timePointMax) \<Longrightarrow> returns W full (ordinary_wait W cfg d s)"
  using returns_wait by (auto simp: ordinary_wait_def split: option.splits)

lemma returns_step:
  assumes W: "clock_advances W" and s: "on_time W full s" and cfg: "arg_msgs_per_packet cfg \<noteq> 0"
  shows "returns W full (send_step ld_divide W cfg plan data s)"
  unfolding send_step_def Let_def
proof (intro returns_then [OF returns_pace [OF W s]] returns_then [OF returns_send], goal_cases)
  case (2 s1 s2)
  let ?timing = "if plan_enabled plan \<or> ss_pause_pending s then inspectPacket data else noTiming"
  obtain r where r: "schedule_next W ?timing s2 = Some r"
    "case r of Throw e s' \<Rightarrow> clock_error e | Ret d s' \<Rightarrow> on_time W full s' \<and> (case d of None \<Rightarrow> True | Some t \<Rightarrow> t \<le> timePointMax)"
    using returns_schedule [OF W 2(2), of ?timing] by blast
  show ?case
  proof (cases r)
    case (Ret d s3)
    then have s3: "on_time W full s3" "case d of None \<Rightarrow> True | Some t \<Rightarrow> t \<le> timePointMax" using r(2) by auto
    show ?thesis unfolding flow_bind_def r(1) Ret option.case flow.case
      by (intro returns_then [OF returns_ss [OF W s3(1)]] returns_then [OF returns_sq [OF _ cfg]] returns_ordinary [OF W _ s3(2)])
  next
    case (Throw e s3)
    then show ?thesis using r by (simp add: flow_bind_def)
  qed
qed

section \<open>The loop ends\<close>

lemma next_complete:
  assumes at: "at_messages cfg bytes ms source" and n: "src_next ticks source = (v, source')"
    and full: "complete_file (cfg_completion_policy cfg) day kind bytes" "src_eof source \<longrightarrow> src_completed source"
  shows "src_eof source' \<longrightarrow> src_completed source'"
proof (cases "src_eof source")
  case True
  then show ?thesis using n full(2) by (simp add: src_next_stopped)
next
  case False
  then have "src_at bytes source ms" "src_completion_policy source = cfg_completion_policy cfg" using at by (auto simp: at_messages_def src_stopped_def)
  then show ?thesis using src_next_step(4) [OF _ n] full(1) by metis
qed

lemma send_loop_returns:
  assumes W: "clock_advances W" and u: "usable cfg bytes" and full: "full \<longrightarrow> (\<exists>day kind. complete_file (cfg_completion_policy cfg) day kind bytes)"
  shows "sending cfg bytes ms [] s \<Longrightarrow> on_time W full s \<Longrightarrow> \<exists>r. send_loop d W cfg plan s = Some r \<and>
    (case r of Throw e s' \<Rightarrow> clock_error e | Ret x s' \<Rightarrow> on_time W full s' \<and> (undisturbed W \<longrightarrow> src_eof (ss_source s')))"
proof (induction "length bytes - length ms" arbitrary: ms s rule: less_induct)
  case less
  let ?s1 = "s\<lparr>ss_tick := Suc (ss_tick s)\<rparr>"
  have at: "at_messages cfg bytes ms (ss_source s)" using sending_source(1) [OF less.prems(1)] by simp
  obtain v source' where n: "src_next 0 (ss_source s) = (v, source')" by fastforce
  let ?s2 = "?s1\<lparr>ss_source := source'\<rparr>"
  have c: "full \<longrightarrow> src_eof source' \<longrightarrow> src_completed source'"
    using next_complete [OF at n] full less.prems(2) by (auto simp: on_time_def)
  then have o2: "on_time W full ?s2" using less.prems(2) by (simp add: on_time_def)
  note N = next_packet [OF at n]
  show ?case
  proof (cases "running_at W (ss_tick s) \<and> \<not> ss_transmission_failed s")
    case False
    then have "send_loop d W cfg plan s = Some (Ret () ?s1)" by (subst send_loop.simps) (auto simp: check_running_def)
    moreover have "\<not> undisturbed W" using False less.prems(2) undisturbed_running [of W] by (auto simp: on_time_def)
    ultimately show ?thesis using less.prems(2) by simp
  next
    case go: True
    show ?thesis
    proof (cases v)
      case None
      then have "send_loop d W cfg plan s = Some (Ret () ?s2)" using go n by (subst send_loop.simps) (simp add: check_running_def)
      then show ?thesis using o2 N None by simp
    next
      case (Some p)
      then obtain ms' where m: "at_messages cfg bytes (ms @ ms') source'" "ms' \<noteq> []" "list_all day_message ms'" "20 + length (file_of ms') \<le> 1472"
        "pv_data p = Some (packet_of (padded_session (session_bytes cfg)) (1 + of_nat (length ms)) ms')" using N by auto
      let ?data = "packet_of (padded_session (session_bytes cfg)) (1 + of_nat (length ms)) ms'"
      have s2: "sending cfg bytes ms ms' ?s2" using less.prems(1) m(1) sending_source(2) [of cfg bytes ms "[]" ?s1 ms' source'] by simp
      have G: "good_step W cfg bytes (sending cfg bytes (ms @ ms') []) (send_step d W cfg plan ?data ?s2)"
        using good_send_step [OF s2 m(3,2,4) refl] u messages_bound [OF m(1)] unfolding usable_def by blast
      obtain q where q: "send_step d W cfg plan ?data ?s2 = Some q" "case q of Throw e s' \<Rightarrow> clock_error e | Ret b s' \<Rightarrow> on_time W full s' \<and> (undisturbed W \<longrightarrow> b)"
        using returns_step [OF W o2, of cfg d plan ?data] u unfolding returns_def usable_def by auto
      have L: "send_loop d W cfg plan s = (case q of Throw e s3 \<Rightarrow> Some (Throw e s3) | Ret b s3 \<Rightarrow> if b then send_loop d W cfg plan s3 else Some (Ret () s3))"
        using go n Some m(5) q(1) by (subst send_loop.simps) (simp add: check_running_def)
      show ?thesis
      proof (cases q)
        case (Throw e s3)
        then show ?thesis using q(2) L by simp
      next
        case (Ret b s3)
        show ?thesis
        proof (cases b)
          case True
          have l: "14 * length (ms @ ms') \<le> length bytes" using m(1) length_file [of "ms @ ms'"]
            by (fastforce simp: at_messages_def src_at_def src_stopped_def day_so_far_def)
          have s3: "sending cfg bytes (ms @ ms') [] s3" "on_time W full s3" using G q Ret True by simp_all
          have "length bytes - length (ms @ ms') < length bytes - length ms" using m(2) l by (cases ms') auto
          then show ?thesis using less.hyps [OF _ s3] L Ret True by simp
        next
          case False
          then show ?thesis using q(2) L Ret by simp
        qed
      qed
    qed
  qed
qed

end
