(* ===== verification/SenderOptionsCorrect.thy ===== *)
theory SenderOptionsCorrect
  imports SenderOptions
begin

text \<open>
  The number parsers against the value of a decimal text, the ranges of an accepted command line, and the intervals of paced replay.
\<close>

section \<open>Decimal texts\<close>

definition is_digit :: "char \<Rightarrow> bool" where "is_digit c \<longleftrightarrow> 48 \<le> (of_char c :: nat) \<and> (of_char c :: nat) \<le> 57"

definition dec_value :: "nat \<Rightarrow> string \<Rightarrow> nat" where "dec_value = foldl (\<lambda>n c. 10 * n + (of_char c - 48))"

lemma dec_value_simps [simp]: "dec_value n [] = n" "dec_value n (c # cs) = dec_value (10 * n + (of_char c - 48)) cs"
  by (simp_all add: dec_value_def)

lemma dec_value_mono: "n \<le> dec_value n cs"
proof (induction cs arbitrary: n)
  case (Cons c cs)
  have "n \<le> 10 * n + (of_char c - 48)" by simp
  also have "\<dots> \<le> dec_value (10 * n + (of_char c - 48)) cs" by (rule Cons.IH)
  finally show ?case by simp
qed simp

text \<open>The guard of the loop is exact: it refuses the digit that leaves the range of 64 bits.\<close>

lemma digit_guard:
  fixes parsed digit :: u64
  assumes "unat digit \<le> 9"
  shows "parsed > (u64_max - digit) div 10 \<longleftrightarrow> 10 * unat parsed + unat digit \<ge> 2 ^ 64"
    "\<not> parsed > (u64_max - digit) div 10 \<Longrightarrow> unat (parsed * 10 + digit) = 10 * unat parsed + unat digit"
proof -
  have "unat (u64_max - digit) = 2 ^ 64 - 1 - unat digit" using assms by (subst unat_sub) (auto simp: word_le_nat_alt)
  then have "unat ((u64_max - digit) div 10) = (2 ^ 64 - 1 - unat digit) div 10" by (simp add: unat_div)
  then show g: "parsed > (u64_max - digit) div 10 \<longleftrightarrow> 10 * unat parsed + unat digit \<ge> 2 ^ 64"
    using assms by (auto simp: word_less_nat_alt div_less_iff_less_mult)
  show "unat (parsed * 10 + digit) = 10 * unat parsed + unat digit" if "\<not> parsed > (u64_max - digit) div 10"
    using that g by (simp add: unat_word_ariths)
qed

lemma parse_loop_exact:
  "parse_u64_loop cs parsed = (if list_all is_digit cs \<and> dec_value (unat parsed) cs < 2 ^ 64 then Some (of_nat (dec_value (unat parsed) cs)) else None)"
proof (induction cs arbitrary: parsed)
  case (Cons c cs)
  show ?case
  proof (cases "is_digit c")
    case True
    let ?d = "of_nat (of_char c - 48) :: u64"
    obtain k :: nat where "of_char c - 48 = k" "k \<le> 9" using True by (auto simp: is_digit_def)
    then have d: "unat ?d = of_char c - 48" "unat ?d \<le> 9" by (simp_all only:) (simp_all add: unat_of_nat)
    note G = digit_guard [OF d(2), of parsed]
    show ?thesis
    proof (cases "parsed > (u64_max - ?d) div 10")
      case big: True
      then have "dec_value (unat parsed) (c # cs) \<ge> 2 ^ 64" using G(1) d dec_value_mono [of "10 * unat parsed + (of_char c - 48)" cs] by simp
      then show ?thesis using True big by (simp add: is_digit_def Let_def)
    next
      case False
      then show ?thesis using True G(2) d Cons.IH [of "parsed * 10 + ?d"] by (auto simp: is_digit_def Let_def)
    qed
  qed (auto simp: is_digit_def)
next
  case Nil
  show ?case using unsigned_less [of parsed, where 'a = nat] by simp
qed

text \<open>The strict parser is exact. A text is accepted exactly when it is not empty, has only decimal digits and its value fits in 64 bits, and
  the result is that value: no sign, no blank, no wrap-around.\<close>

theorem parse_strict_exact:
  "parseU64Strict value = Some n \<longleftrightarrow>
     (\<exists>text. value = Some text \<and> text \<noteq> [] \<and> list_all is_digit text \<and> dec_value 0 text < 2 ^ 64 \<and> unat n = dec_value 0 text)"
proof -
  have "of_nat (dec_value 0 cs) = n \<longleftrightarrow> unat n = dec_value 0 cs" if "dec_value 0 cs < 2 ^ 64" for cs
    using that by (auto simp: word_unat_eq_iff unat_of_nat)
  then show ?thesis by (auto simp: parseU64Strict_def parse_loop_exact split: option.splits)
qed

section \<open>Accepted command lines\<close>

lemma require_Inr: "require v e f = Inr x \<longleftrightarrow> (\<exists>a. v = Some a \<and> f a = Inr x)"
  by (auto simp: require_def split: option.splits)

lemma ensure_Inr: "ensure b e f = Inr x \<longleftrightarrow> b \<and> f = Inr x"
  by (simp add: ensure_def)

lemma in_range: "parseU64InRange v lo hi = Some n \<Longrightarrow> lo \<le> n \<and> n \<le> hi"
  by (auto simp: parseU64InRange_def not_less split: option.splits if_splits)

lemma env_range: "envSetting getenv name preset lo hi = Some n \<Longrightarrow> lo \<le> preset \<Longrightarrow> preset \<le> hi \<Longrightarrow> lo \<le> n \<and> n \<le> hi"
  by (auto simp: envSetting_def not_less split: option.splits if_splits)

lemma u16_range: "map_option ucast (parseU64InRange v 1 (ucast u16_max)) = Some (n :: u16) \<Longrightarrow> n \<noteq> 0"
proof -
  assume "map_option ucast (parseU64InRange v 1 (ucast u16_max)) = Some n"
  then obtain m where m: "n = ucast m" "parseU64InRange v 1 (ucast u16_max) = Some m" by auto
  note m = m(1) in_range [OF m(2)]
  then have "unat m < 2 ^ 16" "unat m \<noteq> 0" by (auto simp: word_le_nat_alt)
  then have "unat n = unat m" using m(1) by (simp add: unsigned_ucast_eq take_bit_nat_eq_self)
  then show ?thesis using \<open>unat m \<noteq> 0\<close> by auto
qed

text \<open>The parts of the argument chain, one fact each.\<close>

lemma requireE: "require v e f = Inr x \<Longrightarrow> (\<And>a. v = Some a \<Longrightarrow> f a = Inr x \<Longrightarrow> P) \<Longrightarrow> P"
  by (auto simp: require_Inr)

lemma ensureE: "ensure b e f = Inr x \<Longrightarrow> (b \<Longrightarrow> f = Inr x \<Longrightarrow> P) \<Longrightarrow> P"
  by (simp add: ensure_Inr)

lemma port_parsed: "parsePort v = Some n \<Longrightarrow> n \<noteq> 0"
  using u16_range by (auto simp: parsePort_def)

lemma optional_range: "(if b then parseU64InRange v 0 hi else Some 0) = Some n \<Longrightarrow> n \<le> hi"
  by (auto split: if_splits dest: in_range)

lemma optional_messages: "(if b then parseMsgsPerPacket v else Some kDefaultMsgsPerPacket) = Some n \<Longrightarrow> n \<noteq> 0"
  using u16_range [of v n] by (auto simp: parseMsgsPerPacket_def kDefaultMsgsPerPacket_def split: if_splits)

lemma optional_speedup: "(if b then parsePositiveDoubleStrict strtod v else Some 1) = Some x \<Longrightarrow> x > 0"
  by (auto simp: parsePositiveDoubleStrict_def Let_def split: if_splits option.splits prod.splits)

lemma arguments_range:
  assumes "parseArguments strtod getenv argv = Inr a"
  shows "arg_port_a a \<noteq> 0 \<and> (arg_redundant a \<longrightarrow> arg_port_b a \<noteq> 0 \<and> arg_port_a a \<noteq> arg_port_b a) \<and> arg_msgs_per_packet a \<noteq> 0 \<and>
    length (arg_session a) \<le> kSessionSize \<and> arg_pkts_per_second a \<le> kMaxPacketsPerSecond \<and> arg_premarket_seconds a \<le> kMaxSchedulingSeconds \<and>
    arg_ss_pause_seconds a \<le> kMaxSchedulingSeconds \<and> arg_premarket_speedup a > 0"
  using assms unfolding parseArguments_def Let_def
proof (elim requireE ensureE, goal_cases)
  case (1 port_a port_b mpp rate premarket pause mode speedup)
  have b: "port_b \<noteq> 0" if "2 \<le> length argv" "argv ! 1 = ''--redundant''" using 1(3) that port_parsed by simp
  show ?case using b port_parsed [OF 1(2)] optional_messages [OF 1(5)] optional_range [OF 1(7)] optional_range [OF 1(8)]
      optional_range [OF 1(9)] optional_speedup [OF 1(11)] 1(4,6)
    unfolding 1(12) [THEN Inr_inject, symmetric] by simp
qed

lemma cpu_range: "parseCpuId v = Some cpu \<Longrightarrow> 0 \<le> cpu \<and> cpu < 2 ^ 31"
  by (auto simp: parseCpuId_def word_less_def split: option.splits if_splits)

lemma redundant_range:
  assumes "parseRedundantSettings getenv = Inr (cpus, delay)"
  shows "(\<forall>cpu_a cpu_b. cpus = Some (cpu_a, cpu_b) \<longrightarrow> cpu_a \<noteq> cpu_b \<and> {cpu_a, cpu_b} \<subseteq> {0 ..< 2 ^ 31}) \<and> delay \<le> kMaxLineBDelayNs"
  using assms unfolding parseRedundantSettings_def Let_def
  by (auto elim!: requireE ensureE dest!: cpu_range simp: kDefaultLineBDelayNs_def kMaxLineBDelayNs_def split: if_splits option.splits)

lemma config_parts:
  assumes "parseConfig strtod getenv argv = Inr cfg"
  obtains a cpus delay sc si ii ec ei policy where "parseArguments strtod getenv argv = Inr a"
    "(if arg_redundant a then parseRedundantSettings getenv else Inr (None, kDefaultLineBDelayNs)) = Inr (cpus, delay)"
    "sc \<le> kMaxStartupHeartbeatCount" "si \<le> kMaxStartupHeartbeatIntervalMs" "ii \<le> kMaxIdleHeartbeatIntervalMs"
    "1 \<le> ec \<and> ec \<le> kMaxEndOfSessionPacketCount" "ei \<le> kMaxEndOfSessionIntervalMs"
    "cfg = SenderArguments.extend a (SenderConfig.fields cpus delay sc si ii ec ei policy)"
proof -
  obtain a where a: "parseArguments strtod getenv argv = Inr a" using assms by (auto simp: parseConfig_def split: sum.splits)
  obtain cpus delay where r: "(if arg_redundant a then parseRedundantSettings getenv else Inr (None, kDefaultLineBDelayNs)) = Inr (cpus, delay)"
    using assms a by (cases "if arg_redundant a then parseRedundantSettings getenv else Inr (None, kDefaultLineBDelayNs)") (auto simp: parseConfig_def)
  note bounds = kDefaultStartupHeartbeatCount_def kMaxStartupHeartbeatCount_def kDefaultStartupHeartbeatIntervalMs_def
    kMaxStartupHeartbeatIntervalMs_def kDefaultIdleHeartbeatIntervalMs_def kMaxIdleHeartbeatIntervalMs_def kDefaultEndOfSessionPacketCount_def
    kMaxEndOfSessionPacketCount_def kDefaultEndOfSessionIntervalMs_def kMaxEndOfSessionIntervalMs_def
  show thesis using assms unfolding parseConfig_def a r sum.case prod.case
  proof (elim requireE, goal_cases)
    case (1 sc si ii ec ei policy)
    show thesis by (rule that [OF a r _ _ _ _ _ 1(7) [THEN Inr_inject, symmetric]])
      (use env_range [OF 1(1)] env_range [OF 1(2)] env_range [OF 1(3)] env_range [OF 1(4)] env_range [OF 1(5)] in \<open>simp_all add: bounds\<close>)
  qed
qed

lemma config_usable:
  assumes "parseConfig strtod getenv argv = Inr cfg"
  shows "arg_msgs_per_packet cfg \<noteq> 0" "length (arg_session cfg) \<le> 10" "cfg_end_of_session_packet_count cfg \<noteq> 0"
  by (rule config_parts [OF assms], use arguments_range in \<open>force simp: SenderArguments.defs SenderConfig.defs kSessionSize_def\<close>)+

text \<open>C22. The settings of a sender that starts. Whatever the arguments and the environment, if they are accepted then the ports are not zero and distinct on
  redundant lines, the packet size is positive, the session fits its field, and every count, rate and interval is within its limit.\<close>

theorem accepted_options_in_range:
  assumes "parseConfig strtod getenv argv = Inr cfg"
  shows "arg_port_a cfg \<noteq> 0 \<and> (arg_redundant cfg \<longrightarrow> arg_port_b cfg \<noteq> 0 \<and> arg_port_a cfg \<noteq> arg_port_b cfg) \<and> arg_msgs_per_packet cfg \<noteq> 0 \<and>
    length (arg_session cfg) \<le> kSessionSize \<and> arg_pkts_per_second cfg \<le> kMaxPacketsPerSecond \<and> arg_premarket_seconds cfg \<le> kMaxSchedulingSeconds \<and>
    arg_ss_pause_seconds cfg \<le> kMaxSchedulingSeconds \<and> arg_premarket_speedup cfg > 0 \<and>
    (\<forall>cpu_a cpu_b. cfg_cpus cfg = Some (cpu_a, cpu_b) \<longrightarrow> arg_redundant cfg \<and> cpu_a \<noteq> cpu_b \<and> {cpu_a, cpu_b} \<subseteq> {0 ..< 2 ^ 31}) \<and>
    cfg_line_b_delay_ns cfg \<le> kMaxLineBDelayNs \<and> cfg_startup_heartbeat_count cfg \<le> kMaxStartupHeartbeatCount \<and>
    cfg_startup_heartbeat_interval_ms cfg \<le> kMaxStartupHeartbeatIntervalMs \<and> cfg_idle_heartbeat_interval_ms cfg \<le> kMaxIdleHeartbeatIntervalMs \<and>
    0 < cfg_end_of_session_packet_count cfg \<and> cfg_end_of_session_packet_count cfg \<le> kMaxEndOfSessionPacketCount \<and>
    cfg_end_of_session_interval_ms cfg \<le> kMaxEndOfSessionIntervalMs"
proof (rule config_parts [OF assms], goal_cases)
  case (1 a cpus delay sc si ii ec ei policy)
  have "(\<forall>cpu_a cpu_b. cpus = Some (cpu_a, cpu_b) \<longrightarrow> arg_redundant a \<and> cpu_a \<noteq> cpu_b \<and> {cpu_a, cpu_b} \<subseteq> {0 ..< 2 ^ 31}) \<and> delay \<le> kMaxLineBDelayNs"
    using 1(2) redundant_range [of getenv cpus delay] by (auto simp: kDefaultLineBDelayNs_def kMaxLineBDelayNs_def split: if_splits)
  moreover have "ec \<noteq> 0" using 1(6) by auto
  ultimately show ?case using arguments_range [OF 1(1)] 1(3-7) unfolding 1(8) by (simp add: SenderArguments.defs SenderConfig.defs word_gt_0)
qed

text \<open>A single line with the default settings, but two end-of-session packets.\<close>

definition demo_env :: "string \<Rightarrow> string option" where
  "demo_env name = (if name = ''ASTRA_EOS_PACKET_COUNT'' then Some ''2'' else None)"

definition demo_argv :: "string list" where "demo_argv = [''sender'', ''day.itch'', ''127.0.0.1'', ''5000'', ''2'', ''AAAA'']"

definition demo_sender_config :: SenderConfig where
  "demo_sender_config = \<lparr>arg_redundant = False, arg_path = ''day.itch'', arg_ip = ''127.0.0.1'', arg_port_a = 5000, arg_port_b = 0,
     arg_msgs_per_packet = 2, arg_session = ''AAAA'', arg_pkts_per_second = 0, arg_premarket_seconds = 0, arg_ss_pause_seconds = 0,
     arg_replay_mode = ReplayOff, arg_premarket_speedup = 1, cfg_cpus = None, cfg_line_b_delay_ns = 1000, cfg_startup_heartbeat_count = 0,
     cfg_startup_heartbeat_interval_ms = 1000, cfg_idle_heartbeat_interval_ms = 1000, cfg_end_of_session_packet_count = 2,
     cfg_end_of_session_interval_ms = 100, cfg_completion_policy = RequireTerminator\<rparr>"

lemma demo_config: "parseConfig (\<lambda>_. (0, None, False)) demo_env demo_argv = Inr demo_sender_config"
proof -
  have n: "parseU64Strict (Some ''5000'') = Some 5000" "parseU64Strict (Some ''2'') = Some 2" by code_simp+
  have "parseArguments (\<lambda>_. (0, None, False)) demo_env demo_argv = Inr \<lparr>arg_redundant = False, arg_path = ''day.itch'', arg_ip = ''127.0.0.1'',
     arg_port_a = 5000, arg_port_b = 0, arg_msgs_per_packet = 2, arg_session = ''AAAA'', arg_pkts_per_second = 0, arg_premarket_seconds = 0,
     arg_ss_pause_seconds = 0, arg_replay_mode = ReplayOff, arg_premarket_speedup = 1\<rparr>"
    by (simp add: parseArguments_def demo_argv_def Let_def require_def ensure_def parsePort_def parseMsgsPerPacket_def parseU64InRange_def n
        kSessionSize_def parseReplayMode_def demo_env_def)
  then show ?thesis
    by (simp add: parseConfig_def envSetting_def parseCompletionPolicy_def require_def SenderArguments.defs SenderConfig.defs demo_sender_config_def
        kDefaultLineBDelayNs_def kDefaultStartupHeartbeatCount_def kDefaultStartupHeartbeatIntervalMs_def kDefaultIdleHeartbeatIntervalMs_def
        kDefaultEndOfSessionIntervalMs_def demo_env_def n kMaxEndOfSessionPacketCount_def)
qed

theorem accepted_options_in_range_witness:
  "arg_port_a demo_sender_config \<noteq> 0 \<and> length (arg_session demo_sender_config) \<le> kSessionSize \<and> 0 < cfg_end_of_session_packet_count demo_sender_config"
  using accepted_options_in_range [OF demo_config] by blast

section \<open>Paced replay\<close>

text \<open>The interval of flat pacing. For every accepted duration the interval between two packets is the least number of nanoseconds with which
  the packets of the pre-market window take at least the configured time; it is positive, and neither its computation nor its conversion to
  the clock's signed count overflows.\<close>

theorem premarket_interval_exact:
  assumes "seconds \<noteq> 0" "seconds \<le> kMaxSchedulingSeconds" "packets \<noteq> 0"
  shows "let i = premarketIntervalFor seconds packets
    in 0 < i \<and> i \<le> timePointMax \<and> int (unat seconds) * 10 ^ 9 \<le> i * int (unat packets) \<and> (i - 1) * int (unat packets) < int (unat seconds) * 10 ^ 9"
proof -
  let ?s = "unat seconds" and ?p = "unat packets"
  define t where "t = seconds * kNanosecondsPerSecond"
  have s: "?s \<le> 9223372036" "0 < ?s" "0 < ?p"
    using assms by (auto simp: kMaxSchedulingSeconds_def timePointMax_def word_le_nat_alt unat_gt_0)
  have small: "\<not> seconds > u64_max div kNanosecondsPerSecond" using s(1) by (simp add: kNanosecondsPerSecond_def word_less_nat_alt unat_div)
  have t: "unat t = ?s * 10 ^ 9" using s(1) by (simp add: t_def unat_word_ariths kNanosecondsPerSecond_def)
  have m: "t mod packets = 0 \<longleftrightarrow> (?s * 10 ^ 9) mod ?p = 0" by (simp add: word_unat_eq_iff unat_mod t)
  define c where "c = (?s * 10 ^ 9) div ?p + (if (?s * 10 ^ 9) mod ?p = 0 then 0 else 1)"
  have "(?s * 10 ^ 9) div ?p \<le> ?s * 10 ^ 9" by (rule div_le_dividend)
  also have "\<dots> < 2 ^ 63 - 1" using s(1) by simp
  finally have cb: "c \<le> 2 ^ 63 - 1" unfolding c_def by simp
  have c: "unat (t div packets + (if t mod packets = 0 then 0 else 1)) = c"
    using cb unfolding m c_def by (simp add: unat_word_ariths unat_div t)
  have "premarketIntervalFor seconds packets = int c"
    using assms(1,3) small c cb unfolding premarketIntervalFor_def Let_def t_def
    by (simp add: timePointMax_def word_less_nat_alt uint_nat)
  moreover have C: "?s * 10 ^ 9 \<le> c * ?p" "0 < c" "(c - 1) * ?p < ?s * 10 ^ 9"
  proof -
    let ?x = "?s * 10 ^ 9"
    have q: "?x = ?x div ?p * ?p + ?x mod ?p" "?x mod ?p < ?p" "0 < ?x" using s by simp_all
    have "c * ?p = ?x div ?p * ?p + (if ?x mod ?p = 0 then 0 else ?p)" by (simp add: c_def add_mult_distrib)
    then obtain a b where "?x = a + b" "b < ?p" "c * ?p = a + (if b = 0 then 0 else ?p)" using q(1,2) by metis
    then show "?x \<le> c * ?p" by (simp split: if_splits)
    then show "0 < c" using q(3) by (cases c) auto
    show "(c - 1) * ?p < ?x"
    proof (cases "?x mod ?p = 0")
      case True
      then have "c * ?p = ?x" using q(1) by (simp add: c_def)
      then show ?thesis using s(3) \<open>0 < c\<close> by (cases c) auto
    next
      case False
      then have "(c - 1) * ?p + ?x mod ?p = ?x" "0 < ?x mod ?p" by (simp_all add: c_def)
      then show ?thesis by linarith
    qed
  qed
  moreover have Z: "int S * 10 ^ 9 \<le> int c * int P \<and> (int c - 1) * int P < int S * 10 ^ 9" if "S * 10 ^ 9 \<le> c * P" "0 < c" "(c - 1) * P < S * 10 ^ 9" for S P
  proof -
    have "int (S * 10 ^ 9) \<le> int (c * P)" "int ((c - 1) * P) < int (S * 10 ^ 9)" using that(1,3) by (simp_all only: of_nat_le_iff of_nat_less_iff)
    then show ?thesis using that(2) by (simp add: of_nat_diff)
  qed
  ultimately show ?thesis using Z [OF C] C(2) cb unfolding Let_def timePointMax_def by simp
qed

theorem premarket_interval_exact_witness: "premarketIntervalFor 60 7 = 8571428572 \<and> 60 * 10 ^ 9 \<le> premarketIntervalFor 60 7 * 7"
proof -
  have "(60 :: u64) \<noteq> 0" "(60 :: u64) \<le> kMaxSchedulingSeconds" "(7 :: u64) \<noteq> 0" by code_simp+
  moreover have "premarketIntervalFor 60 7 = 8571428572" by code_simp
  ultimately show ?thesis using premarket_interval_exact [of 60 7] by (simp add: Let_def)
qed

end
