(* ===== verification/SenderCorrect.thy ===== *)
theory SenderCorrect
  imports SenderProgress SenderOptionsCorrect
begin

text \<open>
  The properties of the replay sender: what it puts on the wire, that it gets through its file, and what its exit status means for a receiver.
\<close>

section \<open>The run returns\<close>

lemma startup_loop_returns:
  "clock_advances W \<Longrightarrow> on_time W full s \<Longrightarrow> \<exists>r. startup_loop n W cfg heartbeat deadline s = Some r \<and>
     (case r of Throw e s' \<Rightarrow> clock_error e | Ret u s' \<Rightarrow> on_time W full s')"
proof (induction n arbitrary: deadline s)
  case (Suc n)
  let ?s1 = "s\<lparr>ss_tick := Suc (ss_tick s)\<rparr>"
  obtain sent s2 where c: "send_control_packet W cfg heartbeat (src_next_seq (ss_source s)) ?s1 = (sent, s2)" by fastforce
  have o2: "on_time W full s2" using send_control_on_time(1) [OF c, of full] Suc.prems(2) by simp
  let ?s3 = "s2\<lparr>ss_startup_heartbeats_sent := ss_startup_heartbeats_sent s2 + 1\<rparr>" and ?i = "uint (cfg_startup_heartbeat_interval_ms cfg) * 1000000"
  have o3: "on_time W full ?s3" using o2 by (simp add: on_time_def)
  show ?case
  proof (cases "running_at W (ss_tick s) \<and> sent \<and> ?i > 0")
    case False
    then show ?thesis using c o2 Suc.prems(2) Suc.IH [OF Suc.prems(1) o3, of deadline] by (auto simp: check_running_def Let_def)
  next
    case True
    then have E: "startup_loop (Suc n) W cfg heartbeat deadline s = with_deadline deadline ?i ''startup heartbeat deadline'' ?s3 (\<lambda>deadline1.
        case sleepUntilOrStopped W deadline1 ?s3 of None \<Rightarrow> None
        | Some (reached, s4) \<Rightarrow> if reached then startup_loop n W cfg heartbeat deadline1 s4 else Some (Ret () s4))"
      using c by (simp add: check_running_def Let_def)
    show ?thesis
    proof (cases "checkedDeadlineAfter deadline ?i")
      case None
      then show ?thesis unfolding E by (simp add: with_deadline_def)
    next
      case (Some d)
      then have "d \<le> timePointMax" by (auto simp: checkedDeadlineAfter_def split: if_splits)
      from sleep_returns [OF Suc.prems(1) this, of ?s3] obtain b t where
        b: "sleepUntilOrStopped W d ?s3 = Some (b, ?s3\<lparr>ss_tick := t\<rparr>)" by blast
      have o4: "on_time W full (?s3\<lparr>ss_tick := t\<rparr>)" using o3 by (simp add: on_time_def)
      show ?thesis using o4 Suc.IH [OF Suc.prems(1) o4, of d] unfolding E by (cases b) (simp_all add: with_deadline_def Some b)
    qed
  qed
qed simp

lemma startup_returns:
  assumes "clock_advances W" "on_time W full s"
  shows "\<exists>r. startup W cfg s = Some r \<and> (case r of Throw e s' \<Rightarrow> clock_error e | Ret u s' \<Rightarrow> on_time W full s')"
  using startup_loop_returns [OF assms(1), of full "s\<lparr>ss_tick := Suc (ss_tick s)\<rparr>"] assms(2)
  by (auto simp: startup_def read_clock_def Let_def)

lemma start_schedules_on_time: "clock_advances W \<Longrightarrow> on_time W full s \<Longrightarrow> on_time W full (start_schedules W s)"
  by (auto simp: start_schedules_def read_clock_def on_time_def observeTraffic_def clock_advances_def Let_def)

lemma eos_deadline_range: "checkedDeadlineAfterSend schedule t = Some d \<Longrightarrow> t \<le> timePointMax \<Longrightarrow> d \<le> timePointMax"
  by (auto simp: checkedDeadlineAfterSend_def eos_checkedDeadline_def Let_def split: if_splits)

lemma eos_loop_returns:
  "clock_advances W \<Longrightarrow> on_time W full s \<Longrightarrow> (case previous of None \<Rightarrow> True | Some t \<Rightarrow> t \<le> timePointMax) \<Longrightarrow>
     \<exists>r. eos_loop n W cfg schedule packet sequence previous s = Some r \<and>
       (case r of Throw e s' \<Rightarrow> clock_error e
        | Ret u s' \<Rightarrow> on_time W full s' \<and> ss_source s' = ss_source s \<and>
            (undisturbed W \<longrightarrow> ss_end_of_session_packets_sent s' = ss_end_of_session_packets_sent s + of_nat n))"
proof (induction n arbitrary: previous s)
  case (Suc n)
  let ?s1 = "s\<lparr>ss_tick := Suc (ss_tick s)\<rparr>"
  show ?case
  proof (cases "running_at W (ss_tick s)")
    case False
    then show ?thesis using Suc.prems(2) undisturbed_running [of W] by (auto simp: check_running_def)
  next
    case run: True
    define waited where "waited = (case previous of None \<Rightarrow> Some (Ret True ?s1)
       | Some sent_at \<Rightarrow> (case checkedDeadlineAfterSend schedule sent_at of None \<Rightarrow> Some (Throw ''end-of-session deadline exceeds steady-clock range'' ?s1)
            | Some deadline \<Rightarrow> (case sleepUntilOrStopped W deadline ?s1 of None \<Rightarrow> None | Some (reached, s2) \<Rightarrow> Some (Ret reached s2))))"
    have W: "(\<exists>e. waited = Some (Throw e ?s1) \<and> clock_error e) \<or> (\<exists>b t. waited = Some (Ret b (s\<lparr>ss_tick := t\<rparr>)) \<and> (undisturbed W \<longrightarrow> b))"
    proof (cases previous)
      case (Some p)
      show ?thesis
      proof (cases "checkedDeadlineAfterSend schedule p")
        case d: (Some d)
        then have "d \<le> timePointMax" using eos_deadline_range Suc.prems(3) Some by auto
        from sleep_returns [OF Suc.prems(1) this, of ?s1] show ?thesis using Some d by (auto simp: waited_def)
      qed (simp add: waited_def Some)
    qed (auto simp: waited_def)
    have R: "eos_loop (Suc n) W cfg schedule packet sequence previous s = flow_bind waited (\<lambda>reached s2. if \<not> reached then Some (Ret () s2)
          else let (sent, s3) = send_control_packet W cfg packet sequence s2
               in if \<not> sent then Some (Ret () s3)
                  else let (now, s4) = read_clock W s3;
                           s5 = (if previous = None \<and> ss_logical_first_seq s4 = 0 then s4\<lparr>ss_logical_first_seq := sequence\<rparr> else s4)
                       in eos_loop n W cfg schedule packet sequence (Some now)
                            (s5\<lparr>ss_end_of_session_packets_sent := ss_end_of_session_packets_sent s5 + 1\<rparr>))"
      using run unfolding waited_def by (simp add: check_running_def Let_def)
    show ?thesis using W
    proof (elim disjE exE conjE)
      fix e assume "waited = Some (Throw e ?s1)" "clock_error e"
      then show ?thesis unfolding R by (simp add: flow_bind_def)
    next
      fix b t assume b: "waited = Some (Ret b (s\<lparr>ss_tick := t\<rparr>))" "undisturbed W \<longrightarrow> b"
      obtain sent s3 where c: "send_control_packet W cfg packet sequence (s\<lparr>ss_tick := t\<rparr>) = (sent, s3)" by fastforce
      note C = send_control_on_time [OF c, of full]
      have f: "ss_source s3 = ss_source s" "ss_end_of_session_packets_sent s3 = ss_end_of_session_packets_sent s"
        using c transmit_result(1) [of W cfg packet 0 "s\<lparr>ss_tick := t\<rparr>"] by (auto simp: send_control_packet_def Let_def split: prod.splits if_splits)
      let ?s5 = "(if previous = None \<and> ss_logical_first_seq s3 = 0 then s3\<lparr>ss_tick := Suc (ss_tick s3), ss_logical_first_seq := sequence\<rparr> else s3\<lparr>ss_tick := Suc (ss_tick s3)\<rparr>)"
      let ?s6 = "?s5\<lparr>ss_end_of_session_packets_sent := ss_end_of_session_packets_sent ?s5 + 1\<rparr>"
      have E: "eos_loop (Suc n) W cfg schedule packet sequence previous s = (if \<not> b then Some (Ret () (s\<lparr>ss_tick := t\<rparr>)) else if \<not> sent then Some (Ret () s3)
          else eos_loop n W cfg schedule packet sequence (Some (sw_clock W (ss_tick s3))) ?s6)"
        unfolding R using b c by (simp add: flow_bind_def read_clock_def Let_def)
      have o6: "on_time W full ?s6" using C(1) Suc.prems(2) by (simp add: on_time_def)
      have "sw_clock W (ss_tick s3) \<le> timePointMax" using Suc.prems(1) by (simp add: clock_advances_def)
      then obtain r where "eos_loop n W cfg schedule packet sequence (Some (sw_clock W (ss_tick s3))) ?s6 = Some r"
        "case r of Throw e s' \<Rightarrow> clock_error e
        | Ret u s' \<Rightarrow> on_time W full s' \<and> ss_source s' = ss_source ?s6 \<and>
            (undisturbed W \<longrightarrow> ss_end_of_session_packets_sent s' = ss_end_of_session_packets_sent ?s6 + of_nat n)"
        using Suc.IH [OF Suc.prems(1) o6, of "Some (sw_clock W (ss_tick s3))"] by auto
      moreover have "ss_source ?s6 = ss_source s" "ss_end_of_session_packets_sent ?s6 = ss_end_of_session_packets_sent s + 1" using f by simp_all
      ultimately show ?thesis unfolding E using b(2) C Suc.prems(2) f
        by (cases b; cases sent; cases r) (simp_all add: algebra_simps)
    qed
  qed
qed simp

lemma announce_returns:
  assumes W: "clock_advances W" and o: "on_time W full s" and b: "before_end W cfg bytes s" and c: "cfg_end_of_session_packet_count cfg \<noteq> 0"
    and e: "undisturbed W \<longrightarrow> src_eof (ss_source s)"
  shows "\<exists>r. announce_end W cfg s = Some r \<and> (case r of Throw e s' \<Rightarrow> clock_error e
     | Ret all s' \<Rightarrow> on_time W full s' \<and> ss_source s' = ss_source s \<and> (undisturbed W \<longrightarrow> full \<longrightarrow> all))"
proof (cases "src_completed (ss_source s) \<and> \<not> ss_transmission_failed s")
  case False
  moreover have "\<not> (undisturbed W \<and> full)" using False o e by (auto simp: on_time_def)
  ultimately show ?thesis using o by (auto simp: announce_end_def)
next
  case True
  let ?n = "cfg_end_of_session_packet_count cfg" and ?q = "src_next_seq (ss_source s)"
  have e0: "ss_end_of_session_packets_sent s = 0"
    using b True by (auto simp: before_end_def stopped_def dead_inv_def sending_def live_inv_def)
  obtain r where r: "eos_loop (unat ?n) W cfg (eosSchedule cfg) (makeMoldEndOfSessionPacket (session_bytes cfg) ?q) ?q None s = Some r"
    "case r of Throw e s' \<Rightarrow> clock_error e | Ret u s' \<Rightarrow> on_time W full s' \<and> ss_source s' = ss_source s \<and>
        (undisturbed W \<longrightarrow> ss_end_of_session_packets_sent s' = ss_end_of_session_packets_sent s + of_nat (unat ?n))"
    using eos_loop_returns [OF W o, of None "unat ?n" cfg "eosSchedule cfg"] by auto
  show ?thesis using True r e0 by (cases r) (simp_all add: announce_end_def eosSchedule_def flow_bind_def)
qed

lemma exit_ending: "ending cfg bytes ds k s \<Longrightarrow> exit_success cfg True (s\<lparr>ss_tick := t\<rparr>)"
  by (cases "arg_redundant cfg") (simp_all add: ending_def exit_success_def line_clean_def newLineState_def)

lemma run_returns:
  assumes W: "clock_advances W" and u: "usable cfg bytes" and c: "cfg_end_of_session_packet_count cfg \<noteq> 0"
    and full: "full \<longrightarrow> (\<exists>day kind. complete_file (cfg_completion_policy cfg) day kind bytes)"
  shows "\<exists>success text s. sender_run d W cfg (Some bytes) = Some (success, text, s) \<and> (undisturbed W \<longrightarrow> full \<longrightarrow> success \<or> clock_error text)"
proof -
  let ?src = "newItchMoldUdpSource (Some bytes) (arg_path cfg) (session_bytes cfg) (arg_msgs_per_packet cfg) (cfg_completion_policy cfg)"
  let ?s0 = "initialState W cfg ?src" and ?plan = "replayPlan cfg (Some bytes)" and ?n = "cfg_end_of_session_packet_count cfg"
  have s0: "sending cfg bytes [] [] ?s0" by (rule initial_sending [OF u])
  have src: "src_isOpen ?src" "\<not> src_eof ?src" using u by (auto simp: usable_def newItchMoldUdpSource_def src_isOpen_def Let_def)
  have o0: "on_time W full ?s0" using src by (simp add: on_time_def initialState_def newHeartbeatSchedule_def)
  define m where "m = flow_bind (startup W cfg ?s0) (\<lambda>_ s1. flow_bind (send_loop d W cfg ?plan (start_schedules W s1)) (\<lambda>_ s2. announce_end W cfg s2))"
  have run: "sender_run d W cfg (Some bytes) = (case m of None \<Rightarrow> None | Some (Throw e s) \<Rightarrow> Some (False, e, s)
      | Some (Ret all s) \<Rightarrow> Some (exit_success cfg all (s\<lparr>ss_tick := Suc (ss_tick s)\<rparr>),
          completion_text all (\<not> running_at W (ss_tick s)) (s\<lparr>ss_tick := Suc (ss_tick s)\<rparr>), s\<lparr>ss_tick := Suc (ss_tick s)\<rparr>))"
    using src(1) unfolding sender_run_def Let_def m_def [symmetric] by (simp add: check_running_def cong: option.case_cong flow.case_cong)
  obtain r1 where r1: "startup W cfg ?s0 = Some r1" "case r1 of Throw e s' \<Rightarrow> clock_error e | Ret u s' \<Rightarrow> on_time W full s'"
    using startup_returns [OF W o0] by blast
  show ?thesis
  proof (cases r1)
    case (Throw e s1)
    then show ?thesis using r1 exI [of Not False] unfolding run m_def by (simp add: flow_bind_def)
  next
    case (Ret x s1)
    then have o1: "on_time W full (start_schedules W s1)" and s1: "sending cfg bytes [] [] s1 \<or> dead_inv cfg bytes s1"
      using r1 start_schedules_on_time [OF W] startup_result [OF s0 r1(1)] by auto
    obtain r2 where r2: "send_loop d W cfg ?plan (start_schedules W s1) = Some r2"
      "case r2 of Throw e s' \<Rightarrow> clock_error e | Ret x s' \<Rightarrow> on_time W full s' \<and> (undisturbed W \<longrightarrow> src_eof (ss_source s'))"
      using s1
    proof
      assume "sending cfg bytes [] [] s1"
      then show thesis using send_loop_returns [OF W u full _ o1, of "[]" d ?plan] that by (auto simp: start_schedules_frame)
    next
      assume "dead_inv cfg bytes s1"
      then have f: "ss_transmission_failed (start_schedules W s1)" using start_schedules_frame(2) [of cfg bytes W s1] by (simp add: dead_inv_def)
      then have "\<not> undisturbed W" using o1 by (auto simp: on_time_def)
      then show thesis using that send_loop_failed [OF f, of d W cfg ?plan] o1 by simp
    qed
    have B: "case r2 of Throw e s' \<Rightarrow> safe cfg bytes s' | Ret u s' \<Rightarrow> before_end W cfg bytes s'" using loop_before_end [OF u s1 r2(1)] .
    show ?thesis
    proof (cases r2)
      case (Throw e s2)
      then show ?thesis using r1(1) r2 Ret exI [of Not False] unfolding run m_def by (simp add: flow_bind_def)
    next
      case r: (Ret y s2)
      then have o2: "on_time W full s2" and b2: "before_end W cfg bytes s2" and e2: "undisturbed W \<longrightarrow> src_eof (ss_source s2)" using r2(2) B by auto
      have m: "m = announce_end W cfg s2" unfolding m_def using r1(1) r2(1) Ret r by (simp add: flow_bind_def)
      obtain r3 where r3: "announce_end W cfg s2 = Some r3" "case r3 of Throw e s' \<Rightarrow> clock_error e
          | Ret all s' \<Rightarrow> on_time W full s' \<and> ss_source s' = ss_source s2 \<and> (undisturbed W \<longrightarrow> full \<longrightarrow> all)"
        using announce_returns [OF W o2 b2 c] e2 by blast
      show ?thesis
      proof (cases r3)
        case (Throw e s3)
        then show ?thesis using r3 m exI [of Not False] unfolding run by simp
      next
        case r3': (Ret all s3)
        have "exit_success cfg all (s3\<lparr>ss_tick := t\<rparr>)" if "undisturbed W" full for t
          using announce_result [OF b2 r3(1) c] r3' r3(2) that exit_ending by (auto simp: on_time_def)
        then show ?thesis using r3 m r3' unfolding run by simp
      qed
    qed
  qed
qed

section \<open>The receiver\<close>

lemma decode_ended: "md_terminal_status d \<noteq> DecodeOk \<Longrightarrow> decode_all elapsed d vs = Some d"
  by (induction vs) (simp_all add: processPacket_def)

lemma decode_all_append:
  "decode_all elapsed d (vs @ ws) = (case decode_all elapsed d vs of None \<Rightarrow> None | Some d1 \<Rightarrow> decode_all elapsed d1 ws)"
  by (induction vs arbitrary: d) (auto split: option.splits)

lemma stream_accepted:
  assumes e: "ending cfg bytes ds k s" and u: "usable cfg bytes" and c: "complete_file policy (carried ds) kind bytes"
    and vs: "map pv_data vs = map Some (ss_wire_a s)" and acc: "fst (run_parser (newItchParser symbols books ch) (carried ds))"
    and k: "k \<noteq> 0"
  shows "\<exists>d. decode_all elapsed (newMoldUdpDecoder symbols books ch 1) vs = Some d \<and> endOfStreamAccepted d \<and>
    md_parser d = fold (\<lambda>m p. parse p m) (carried ds) (newItchParser symbols books ch)"
proof -
  let ?p = "newItchParser symbols books ch" and ?ms = "carried ds" and ?S = "session_bytes cfg"
  obtain k' where k': "k = Suc k'" using k not0_implies_Suc by blast
  have at: "at_messages cfg bytes ?ms (ss_source s)" "list_all datagram_fits ds" "ss_wire_a s = render ?S 0 ds @ replicate k (end_packet cfg ds)"
    using e by (simp_all add: ending_def)
  have ms: "list_all day_message ?ms" "?ms \<noteq> []" "is_end_of_messages (last ?ms)" "valid_message (last ?ms)"
    using c by (auto simp: complete_file_def ended_def day_so_far_def list_all_iff day_message_def)
  have s: "length ?S \<le> 10" "1 + 0 + length ?ms < 2 ^ 64" using u messages_bound [OF at(1)] by (auto simp: usable_def)
  obtain p' where p': "run_parser ?p ?ms = (True, p')" using acc by (cases "run_parser ?p ?ms") auto
  have ph: "ip_channel_phase p' = EndOfMessages" using run_accepted_last [OF p' ms(2)] accepted_end ms(3,4) by metis
  let ?n = "length (render ?S 0 ds)"
  have split: "map pv_data (take ?n vs) = map Some (render ?S 0 ds)" "map pv_data (drop ?n vs) = replicate k (Some (end_packet cfg ds))"
    using vs unfolding at(3) by (simp_all flip: take_map drop_map)
  obtain v ws where v: "drop ?n vs = v # ws" "pv_data v = Some (end_packet cfg ds)" using split(2) unfolding k' by (cases "drop ?n vs") auto
  obtain d1 where d1: "decode_all elapsed (newMoldUdpDecoder symbols books ch 1) (take ?n vs) = Some d1" "in_step (padded_session ?S) d1 (length ?ms) p'"
    "md_first_packet_seen d1"
    using in_step_stream [OF split(1) at(2) ms(1) s(2,1) in_step_new p'] ms(2) by (cases ds) auto
  obtain r d where d: "processPacket elapsed d1 v = Some (r, d)" "endOfStreamAccepted d" "md_parser d = p'"
    using in_step_end [OF d1(2,3) s(1) refl ph v(2)] by blast
  have "decode_all elapsed (newMoldUdpDecoder symbols books ch 1) (take ?n vs @ v # ws) = Some d"
    using d1(1) d decode_ended [of d elapsed ws] by (simp add: decode_all_append endOfStreamAccepted_def)
  moreover have "vs = take ?n vs @ v # ws" using v(1) by (metis append_take_drop_id)
  ultimately show ?thesis using d(2,3) sink.run_all [of ?p ?ms] p' by auto
qed

section \<open>A replay on an undisturbed line\<close>

text \<open>The concrete run of the witnesses: the file of six messages, sent with the default settings; the clock advances by a second with every reading.\<close>

definition demo_world :: SenderWorld where
  "demo_world = \<lparr>sw_clock = (\<lambda>n. min (int n * 1000000000) timePointMax), sw_signal = None, sw_line_a = (\<lambda>n. True), sw_line_b = (\<lambda>n. True), sw_overrun = (\<lambda>n. False)\<rparr>"

definition demo_files :: "string \<Rightarrow> u8 list option" where "demo_files path = Some demo_file"

lemma demo_success: "map_option fst (sender_run (\<lambda>_ _. 1) demo_world demo_sender_config (Some demo_file)) = Some True"
  by code_simp

definition demo_wires :: "u8 list list \<times> u8 list list" where
  "demo_wires = (case sender_run (\<lambda>_ _. 1) demo_world demo_sender_config (Some demo_file) of
     None \<Rightarrow> ([], []) | Some (success, text, s) \<Rightarrow> (ss_wire_a s, ss_wire_b s))"

lemma demo_sender:
  "sender_main (\<lambda>_. True) True (\<lambda>_. (0, None, False)) (\<lambda>_ _. 1) demo_world demo_files demo_env demo_argv = Some (True, fst demo_wires, snd demo_wires)"
  using demo_success by (auto simp: sender_main_def demo_config cpus_pinned_def demo_sender_config_def demo_env_def demo_files_def demo_wires_def split: option.splits)

section \<open>Properties\<close>

text \<open>C17. What an exit status of success means. If the sender reports success then its file was a complete day, and in redundant mode line B carried the
  same datagrams as line A. If the parser of a new receiver refuses none of the messages of the file, then the receiver, given the datagrams of line A in
  order, heartbeats and repeated end-of-session packets included, accepts the end of the stream with exactly these messages applied.\<close>

theorem sender_success_session:
  assumes "sender_main pin sockets_open strtod ld_divide W files getenv argv = Some (True, wire_a, wire_b)"
    and "\<And>path bytes. files path = Some bytes \<Longrightarrow> length bytes < 2 ^ 64 - 1"
    and "map pv_data vs = map Some wire_a"
  shows "\<exists>cfg bytes ms kind. parseConfig strtod getenv argv = Inr cfg \<and> files (arg_path cfg) = Some bytes \<and>
    complete_file (cfg_completion_policy cfg) ms kind bytes \<and> (arg_redundant cfg \<longrightarrow> wire_b = wire_a) \<and>
    (fst (run_parser (newItchParser symbols books ch) ms) \<longrightarrow>
       (\<exists>d. decode_all elapsed (newMoldUdpDecoder symbols books ch 1) vs = Some d \<and> endOfStreamAccepted d \<and>
          md_parser d = fold (\<lambda>m p. snd (handlePrevalidatedMessage p m)) ms (newItchParser symbols books ch)))"
proof -
  obtain cfg where cfg: "parseConfig strtod getenv argv = Inr cfg" using assms(1) by (cases "parseConfig strtod getenv argv") (auto simp: sender_main_def)
  obtain reason s where run: "sender_run ld_divide W cfg (files (arg_path cfg)) = Some (True, reason, s)" "wire_a = ss_wire_a s" "wire_b = ss_wire_b s"
    using assms(1) cfg by (auto simp: sender_main_def split: if_splits option.splits)
  obtain bytes where b: "files (arg_path cfg) = Some bytes"
    using run(1) by (cases "files (arg_path cfg)") (auto simp: sender_run_def src_isOpen_def newItchMoldUdpSource_def src_fail_def Let_def)
  have u: "usable cfg bytes" using config_usable [OF cfg] assms(2) [OF b] by (simp add: usable_def)
  obtain ds where ds: "ending cfg bytes ds (unat (cfg_end_of_session_packet_count cfg)) s"
    using run_result(2) [OF u config_usable(3) [OF cfg] run(1) [unfolded b]] by auto
  let ?ms = "carried ds" and ?p = "newItchParser symbols books ch" and ?src = "ss_source s"
  have c: "complete_file (cfg_completion_policy cfg) ?ms (src_completion_kind ?src) bytes"
    using ds by (auto simp: ending_def at_messages_def src_at_def src_stopped_def)
  have B: "arg_redundant cfg \<longrightarrow> wire_b = wire_a" using ds run by (simp add: ending_def)
  have "\<exists>d. decode_all elapsed (newMoldUdpDecoder symbols books ch 1) vs = Some d \<and> endOfStreamAccepted d \<and>
      md_parser d = fold (\<lambda>m p. parse p m) ?ms ?p" if "fst (run_parser ?p ?ms)"
    by (rule stream_accepted [OF ds u c _ that]) (use assms(3) run config_usable(3) [OF cfg] in \<open>simp_all add: unat_eq_zero\<close>)
  then show ?thesis using cfg b c B unfolding parse_def by blast
qed

text \<open>The run of the day of six messages.\<close>

theorem sender_success_session_witness:
  "\<exists>d. decode_all demo_clock demo_decoder (map (\<lambda>data. \<lparr>pv_data = Some data, pv_receive_start_ticks = 0\<rparr>) (fst demo_wires)) = Some d \<and> endOfStreamAccepted d"
proof -
  have l: "length bytes < 2 ^ 64 - 1" if "demo_files path = Some bytes" for path bytes using that demo_setup(3) by (simp add: demo_files_def)
  let ?vs = "map (\<lambda>data. \<lparr>pv_data = Some data, pv_receive_start_ticks = 0\<rparr>) (fst demo_wires)"
  have "map pv_data ?vs = map Some (fst demo_wires)" by simp
  from sender_success_session [OF demo_sender l this, where symbols = newStockDirectory and books = demo_manager and ch = 0 and elapsed = demo_clock]
  obtain ms kind where m: "complete_file RequireTerminator ms kind demo_file"
    "fst (run_parser (newItchParser newStockDirectory demo_manager 0) ms) \<longrightarrow>
       (\<exists>d. decode_all demo_clock (newMoldUdpDecoder newStockDirectory demo_manager 0 1) ?vs = Some d \<and> endOfStreamAccepted d)"
    by (auto simp: demo_config demo_files_def demo_sender_config_def)
  have "ms = demo_messages" using complete_unique [OF m(1) demo_complete] .
  then show ?thesis using m(2) demo_day_parsed(1) by (simp add: demo_messages_def demo_parser_def demo_decoder_def)
qed

text \<open>C18. Whatever happens to a sender, a signal, a failed transmission or an exception included, line A carries the messages of a prefix of the file in order,
  numbered from one, each packet in a datagram of at most 1,472 bytes, between heartbeats that announce the number of the next message; end-of-session packets
  follow only after all messages of a complete file.\<close>

theorem sender_wire_consistent:
  assumes "parseConfig strtod getenv argv = Inr cfg" "length bytes < 2 ^ 64 - 1"
    and "sender_run ld_divide W cfg (Some bytes) = Some (success, reason, s)"
  shows "\<exists>ds k rest. bytes = file_of (carried ds) @ rest \<and> list_all datagram_fits ds \<and>
    ss_wire_a s = render (session_bytes cfg) 0 ds @ replicate k (end_packet cfg ds) \<and>
    (k > 0 \<longrightarrow> (\<exists>kind. complete_file (cfg_completion_policy cfg) (carried ds) kind bytes))"
proof -
  have u: "usable cfg bytes" using config_usable [OF assms(1)] assms(2) by (simp add: usable_def)
  obtain ds k pending where w: "list_all datagram_fits ds" "ss_wire_a s = render (session_bytes cfg) 0 ds @ replicate k (end_packet cfg ds)"
    "at_messages cfg bytes (carried ds @ pending) (ss_source s)" "k > 0 \<longrightarrow> pending = [] \<and> src_completed (ss_source s)"
    using run_result(1) [OF u config_usable(3) [OF assms(1)] assms(3)] by (auto simp: wire_consistent_def)
  have "\<exists>rest. bytes = file_of (carried ds) @ rest" using w(3) by (auto simp: at_messages_def src_at_def src_stopped_def)
  moreover have "\<exists>kind. complete_file (cfg_completion_policy cfg) (carried ds) kind bytes" if "k > 0"
    using w(3,4) that by (auto simp: at_messages_def src_at_def src_stopped_def)
  ultimately show ?thesis using w(1,2) by blast
qed

theorem sender_wire_consistent_witness:
  "\<exists>ds k rest. demo_file = file_of (carried ds) @ rest \<and> fst demo_wires = render (session_bytes demo_sender_config) 0 ds @ replicate k (end_packet demo_sender_config ds)"
proof -
  obtain reason s where r: "sender_run (\<lambda>_ _. 1) demo_world demo_sender_config (Some demo_file) = Some (True, reason, s)" using demo_success by auto
  then have "fst demo_wires = ss_wire_a s" by (simp add: demo_wires_def)
  then show ?thesis using sender_wire_consistent [OF demo_config demo_setup(3) r] by auto
qed

text \<open>C19. The sender gets through its file. When the clock passes every time point it can represent, the run returns; and if no signal arrives, no transmission
  fails and the file is a complete day, it reports success, unless a deadline lies beyond the range of the clock.\<close>

theorem sender_gets_through:
  assumes "parseConfig strtod getenv argv = Inr cfg" "length bytes < 2 ^ 64 - 1" "clock_advances W"
  shows "\<exists>success reason s. sender_run ld_divide W cfg (Some bytes) = Some (success, reason, s) \<and>
    (undisturbed W \<longrightarrow> (\<exists>ms kind. complete_file (cfg_completion_policy cfg) ms kind bytes) \<longrightarrow> success \<or> clock_error reason)"
proof -
  have u: "usable cfg bytes" using config_usable [OF assms(1)] assms(2) by (simp add: usable_def)
  show ?thesis using run_returns [OF assms(3) u config_usable(3) [OF assms(1)]] by blast
qed

lemma demo_clock_advances: "clock_advances demo_world"
  unfolding clock_advances_def
proof (intro conjI allI impI)
  fix t assume t: "t \<le> timePointMax"
  have "t \<le> sw_clock demo_world n" if "n \<ge> nat t" for n using that t by (simp add: demo_world_def)
  then show "\<exists>n0. \<forall>n \<ge> n0. t \<le> sw_clock demo_world n" by blast
qed (simp add: demo_world_def)

theorem sender_gets_through_witness:
  "undisturbed demo_world \<and> (\<exists>success reason s. sender_run (\<lambda>_ _. 1) demo_world demo_sender_config (Some demo_file) = Some (success, reason, s) \<and>
     (success \<or> clock_error reason))"
proof -
  have u: "undisturbed demo_world" by (simp add: undisturbed_def demo_world_def)
  have c: "complete_file (cfg_completion_policy demo_sender_config) demo_messages CompletionTerminator demo_file" using demo_complete by (simp add: demo_sender_config_def)
  from sender_gets_through [OF demo_config demo_setup(3) demo_clock_advances] u c show ?thesis by blast
qed

end
