(* ===== verification/RedundantHandoff.thy ===== *)
theory RedundantHandoff
  imports MoldUdpSender
begin

text \<open>
  The hand-off between the two threads of \<open>RedundantUdpSender\<close> in \<open>apps/itch_moldudp_sender_main.cpp\<close>: \<open>send\<close> on the main thread, \<open>lineBWorkerLoop\<close> on the worker, and
  \<open>stopAndJoin\<close>.

  A step is one access to the shared state; the steps of the threads interleave freely. The release stores and acquire loads of the generation
  counters order the plain accesses between them, so that interleaving is the meaning of the program. A loop that polls a counter is
  a step that is enabled once the counter has the awaited value. The main thread loads a packet into the buffer of the source, sends it, and so on for all
  packets; the program counters tell what a thread does next. The worker starts when its socket is open; nothing it calls afterwards
  throws.
\<close>

datatype MainPc =
    MainIdle                      \<comment> \<open>between two calls of \<open>send\<close>\<close>
  | MainSendA u16                 \<comment> \<open>a packet is in the buffer\<close>
  | MainPrepare u16 bool          \<comment> \<open>line A is done\<close>
  | MainPublish bool              \<comment> \<open>the hand-off is filled in\<close>
  | MainWait bool u64             \<comment> \<open>the generation is published\<close>
  | MainStop                      \<comment> \<open>\<open>stopAndJoin\<close> before the generation is advanced\<close>
  | MainJoin
  | MainEnd

datatype WorkerPc = WorkerPoll u64 | WorkerCheck u64 | WorkerDelay u64 | WorkerSend u64 | WorkerAck u64 | WorkerExit

record Handoff =
  ho_buffer :: "u8 list"
  ho_msg_count :: u16
  ho_line_b_send_succeeded :: bool
  ho_generation :: u64
  ho_line_b_completed_generation :: u64
  ho_stop :: bool
  ho_line_a :: LineState
  ho_line_b :: LineState
  ho_wire_a :: "u8 list list"
  ho_wire_b :: "u8 list list"
  ho_main :: MainPc
  ho_worker :: WorkerPc
  ho_todo :: "(u8 list \<times> u16) list"
  ho_results :: "bool list"

definition newHandoff :: "(u8 list \<times> u16) list \<Rightarrow> Handoff" where
  "newHandoff packets =
     \<lparr>ho_buffer = [], ho_msg_count = 0, ho_line_b_send_succeeded = False, ho_generation = 0, ho_line_b_completed_generation = 0, ho_stop = False,
      ho_line_a = newLineState, ho_line_b = newLineState, ho_wire_a = [], ho_wire_b = [], ho_main = MainIdle, ho_worker = WorkerPoll 0,
      ho_todo = packets, ho_results = []\<rparr>"

section \<open>Steps of the main thread\<close>

inductive main_step :: "Handoff \<Rightarrow> Handoff \<Rightarrow> bool" where
  load: "ho_main h = MainIdle \<Longrightarrow> ho_todo h = (data, msg_count) # packets \<Longrightarrow>
    main_step h (h\<lparr>ho_buffer := data, ho_todo := packets, ho_main := MainSendA msg_count\<rparr>)"
| send_a: "ho_main h = MainSendA msg_count \<Longrightarrow>
    main_step h (h\<lparr>ho_line_a := count_sent sent msg_count (ho_line_a h), ho_wire_a := (if sent then ho_wire_a h @ [ho_buffer h] else ho_wire_a h),
                   ho_main := MainPrepare msg_count sent\<rparr>)"
| prepare: "ho_main h = MainPrepare msg_count line_a_sent \<Longrightarrow>
    main_step h (h\<lparr>ho_msg_count := msg_count, ho_line_b_send_succeeded := False, ho_main := MainPublish line_a_sent\<rparr>)"
| publish: "ho_main h = MainPublish line_a_sent \<Longrightarrow>
    main_step h (h\<lparr>ho_generation := ho_generation h + 1, ho_main := MainWait line_a_sent (ho_generation h + 1)\<rparr>)"
| completed: "ho_main h = MainWait line_a_sent generation \<Longrightarrow> ho_line_b_completed_generation h = generation \<Longrightarrow>
    main_step h (h\<lparr>ho_results := ho_results h @ [line_a_sent \<and> ho_line_b_send_succeeded h], ho_main := MainIdle\<rparr>)"
| stop: "ho_main h = MainIdle \<Longrightarrow> ho_todo h = [] \<Longrightarrow> main_step h (h\<lparr>ho_stop := True, ho_main := (if ho_stop h then MainJoin else MainStop)\<rparr>)"
| wake: "ho_main h = MainStop \<Longrightarrow> main_step h (h\<lparr>ho_generation := ho_generation h + 1, ho_main := MainJoin\<rparr>)"
| join: "ho_main h = MainJoin \<Longrightarrow> ho_worker h = WorkerExit \<Longrightarrow> main_step h (h\<lparr>ho_main := MainEnd\<rparr>)"

section \<open>Steps of the worker\<close>

inductive worker_step :: "u64 \<Rightarrow> Handoff \<Rightarrow> Handoff \<Rightarrow> bool" for delay :: u64 where
  observe: "ho_worker h = WorkerPoll observed \<Longrightarrow> ho_generation h \<noteq> observed \<Longrightarrow>
    worker_step delay h (h\<lparr>ho_worker := WorkerCheck (ho_generation h)\<rparr>)"
| exit: "ho_worker h = WorkerCheck generation \<Longrightarrow> ho_stop h \<Longrightarrow> worker_step delay h (h\<lparr>ho_worker := WorkerExit\<rparr>)"
| proceed: "ho_worker h = WorkerCheck generation \<Longrightarrow> \<not> ho_stop h \<Longrightarrow>
    worker_step delay h (h\<lparr>ho_worker := (if delay > 0 then WorkerDelay generation else WorkerSend generation)\<rparr>)"
| delay: "ho_worker h = WorkerDelay generation \<Longrightarrow>
    worker_step delay h (h\<lparr>ho_line_b := (if overrun then (ho_line_b h)\<lparr>ln_delay_overruns := ln_delay_overruns (ho_line_b h) + 1\<rparr> else ho_line_b h),
                           ho_worker := WorkerSend generation\<rparr>)"
| send_b: "ho_worker h = WorkerSend generation \<Longrightarrow>
    worker_step delay h (h\<lparr>ho_line_b_send_succeeded := sent, ho_line_b := count_sent sent (ho_msg_count h) (ho_line_b h),
                           ho_wire_b := (if sent then ho_wire_b h @ [ho_buffer h] else ho_wire_b h), ho_worker := WorkerAck generation\<rparr>)"
| acknowledge: "ho_worker h = WorkerAck generation \<Longrightarrow>
    worker_step delay h (h\<lparr>ho_line_b_completed_generation := generation, ho_worker := WorkerPoll generation\<rparr>)"

inductive handoff_step :: "u64 \<Rightarrow> Handoff \<Rightarrow> Handoff \<Rightarrow> bool" for delay :: u64 where
  main: "main_step h h' \<Longrightarrow> handoff_step delay h h'"
| worker: "worker_step delay h h' \<Longrightarrow> handoff_step delay h h'"

definition handoff_reach :: "u64 \<Rightarrow> (u8 list \<times> u16) list \<Rightarrow> Handoff \<Rightarrow> bool" where
  "handoff_reach delay packets h \<longleftrightarrow> (handoff_step delay)\<^sup>*\<^sup>* (newHandoff packets) h"

end
