(* ===== verification/RedundantHandoffCorrect.thy ===== *)
theory RedundantHandoffCorrect
  imports RedundantHandoff
begin

text \<open>
  The hand-off of packets between the threads against the sequential \<open>send_redundant\<close>: in every interleaving the worker sends the packet
  the main thread has published, while the main thread waits, and the counters, wires and results are those of sending on line A, then on
  line B, one packet after the other.
\<close>

section \<open>The log of a sequence of sends\<close>

record SendLog =
  lg_line_a :: LineState
  lg_line_b :: LineState
  lg_wire_a :: "u8 list list"
  lg_wire_b :: "u8 list list"
  lg_results :: "bool list"

definition newLog :: SendLog where
  "newLog = \<lparr>lg_line_a = newLineState, lg_line_b = newLineState, lg_wire_a = [], lg_wire_b = [], lg_results = []\<rparr>"

definition on_line_a :: "u8 list \<times> u16 \<Rightarrow> bool \<Rightarrow> SendLog \<Rightarrow> SendLog" where
  "on_line_a p sent L = L\<lparr>lg_line_a := count_sent sent (snd p) (lg_line_a L), lg_wire_a := (if sent then lg_wire_a L @ [fst p] else lg_wire_a L)\<rparr>"

definition on_delay :: "u64 \<Rightarrow> bool \<Rightarrow> SendLog \<Rightarrow> SendLog" where
  "on_delay delay overrun L = (if delay > 0 \<and> overrun then L\<lparr>lg_line_b := (lg_line_b L)\<lparr>ln_delay_overruns := ln_delay_overruns (lg_line_b L) + 1\<rparr>\<rparr> else L)"

definition on_line_b :: "u8 list \<times> u16 \<Rightarrow> bool \<Rightarrow> SendLog \<Rightarrow> SendLog" where
  "on_line_b p sent L = L\<lparr>lg_line_b := count_sent sent (snd p) (lg_line_b L), lg_wire_b := (if sent then lg_wire_b L @ [fst p] else lg_wire_b L)\<rparr>"

definition on_result :: "bool \<Rightarrow> SendLog \<Rightarrow> SendLog" where "on_result r L = L\<lparr>lg_results := lg_results L @ [r]\<rparr>"

fun log_step :: "u64 \<Rightarrow> SendLog \<Rightarrow> (u8 list \<times> u16) \<times> bool \<times> bool \<times> bool \<Rightarrow> SendLog" where
  "log_step delay L (p, a, b, overrun) = on_result (a \<and> b) (on_line_b p b (on_delay delay overrun (on_line_a p a L)))"

definition send_log :: "u64 \<Rightarrow> (u8 list \<times> u16) list \<Rightarrow> (bool \<times> bool \<times> bool) list \<Rightarrow> SendLog" where
  "send_log delay packets outs = foldl (log_step delay) newLog (zip packets outs)"

lemma zip_snoc: "length ys < length xs \<Longrightarrow> zip xs (ys @ [y]) = zip xs ys @ [(xs ! length ys, y)]"
proof -
  assume l: "length ys < length xs"
  have "zip xs (ys @ [y]) = zip (take (length ys) xs) ys @ zip (drop (length ys) xs) [y]" by (simp add: zip_append2)
  moreover have "zip (take (length ys) xs) ys = zip xs ys" using take_zip [of "length ys" xs ys] by simp
  ultimately show ?thesis using l by (simp flip: Cons_nth_drop_Suc)
qed

lemma send_log_snoc:
  "length outs < length packets \<Longrightarrow> send_log delay packets (outs @ [x]) = log_step delay (send_log delay packets outs) (packets ! length outs, x)"
  by (simp add: send_log_def zip_snoc)

definition shows_log :: "Handoff \<Rightarrow> SendLog \<Rightarrow> bool" where
  "shows_log h L \<longleftrightarrow> ho_line_a h = lg_line_a L \<and> ho_line_b h = lg_line_b L \<and> ho_wire_a h = lg_wire_a L \<and> ho_wire_b h = lg_wire_b L \<and>
     ho_results h = lg_results L"

section \<open>The invariant\<close>

definition quiet :: "Handoff \<Rightarrow> bool" where
  "quiet h \<longleftrightarrow> ho_worker h = WorkerPoll (ho_generation h) \<and> ho_line_b_completed_generation h = ho_generation h"

definition current :: "(u8 list \<times> u16) list \<Rightarrow> nat \<Rightarrow> u16 \<Rightarrow> Handoff \<Rightarrow> bool" where
  "current packets n msg_count h \<longleftrightarrow> n < length packets \<and> packets ! n = (ho_buffer h, msg_count) \<and> ho_todo h = drop (Suc n) packets"

text \<open>The worker while the main thread waits for generation \<open>g\<close>; \<open>A\<close> is the log with the packet on line A.\<close>

primrec worker_inv :: "u64 \<Rightarrow> u8 list \<times> u16 \<Rightarrow> SendLog \<Rightarrow> u64 \<Rightarrow> Handoff \<Rightarrow> WorkerPc \<Rightarrow> bool" where
  "worker_inv delay p A g h (WorkerPoll seen) =
     (if seen = g then ho_line_b_completed_generation h = g \<and> (\<exists>overrun. shows_log h (on_line_b p (ho_line_b_send_succeeded h) (on_delay delay overrun A)))
      else ho_line_b_completed_generation h \<noteq> g \<and> shows_log h A)"
| "worker_inv delay p A g h (WorkerCheck g') = (g' = g \<and> ho_line_b_completed_generation h \<noteq> g \<and> shows_log h A)"
| "worker_inv delay p A g h (WorkerDelay g') = (g' = g \<and> delay > 0 \<and> ho_line_b_completed_generation h \<noteq> g \<and> shows_log h A)"
| "worker_inv delay p A g h (WorkerSend g') = (g' = g \<and> ho_line_b_completed_generation h \<noteq> g \<and> (\<exists>overrun. shows_log h (on_delay delay overrun A)))"
| "worker_inv delay p A g h (WorkerAck g') = (g' = g \<and> ho_line_b_completed_generation h \<noteq> g \<and>
     (\<exists>overrun. shows_log h (on_line_b p (ho_line_b_send_succeeded h) (on_delay delay overrun A))))"
| "worker_inv delay p A g h WorkerExit = False"

primrec main_inv :: "u64 \<Rightarrow> (u8 list \<times> u16) list \<Rightarrow> nat \<Rightarrow> SendLog \<Rightarrow> Handoff \<Rightarrow> MainPc \<Rightarrow> bool" where
  "main_inv delay packets n L h MainIdle = (\<not> ho_stop h \<and> quiet h \<and> ho_todo h = drop n packets \<and> shows_log h L)"
| "main_inv delay packets n L h (MainSendA c) = (\<not> ho_stop h \<and> quiet h \<and> current packets n c h \<and> shows_log h L)"
| "main_inv delay packets n L h (MainPrepare c a) = (\<not> ho_stop h \<and> quiet h \<and> current packets n c h \<and> shows_log h (on_line_a (packets ! n) a L))"
| "main_inv delay packets n L h (MainPublish a) = (\<not> ho_stop h \<and> quiet h \<and> current packets n (ho_msg_count h) h \<and> shows_log h (on_line_a (packets ! n) a L))"
| "main_inv delay packets n L h (MainWait a g) = (\<not> ho_stop h \<and> current packets n (ho_msg_count h) h \<and> ho_generation h = g \<and>
     worker_inv delay (packets ! n) (on_line_a (packets ! n) a L) g h (ho_worker h))"
| "main_inv delay packets n L h MainStop = (ho_stop h \<and> quiet h \<and> n = length packets \<and> shows_log h L)"
| "main_inv delay packets n L h MainJoin = (ho_stop h \<and> n = length packets \<and> shows_log h L \<and>
     (case ho_worker h of WorkerPoll seen \<Rightarrow> seen \<noteq> ho_generation h | WorkerCheck g \<Rightarrow> True | WorkerExit \<Rightarrow> True | _ \<Rightarrow> False))"
| "main_inv delay packets n L h MainEnd = (n = length packets \<and> shows_log h L \<and> ho_worker h = WorkerExit)"

definition handoff_inv :: "u64 \<Rightarrow> (u8 list \<times> u16) list \<Rightarrow> Handoff \<Rightarrow> bool" where
  "handoff_inv delay packets h \<longleftrightarrow> (\<exists>outs. length outs \<le> length packets \<and> main_inv delay packets (length outs) (send_log delay packets outs) h (ho_main h))"

lemma handoff_inv_new: "handoff_inv delay packets (newHandoff packets)"
  by (auto simp: handoff_inv_def newHandoff_def quiet_def shows_log_def send_log_def newLog_def intro!: exI [of _ "[]"])

lemma shows_simps [simp]:
  "shows_log (h\<lparr>ho_main := m\<rparr>) L = shows_log h L" "shows_log (h\<lparr>ho_worker := w\<rparr>) L = shows_log h L" "shows_log (h\<lparr>ho_buffer := b\<rparr>) L = shows_log h L"
  "shows_log (h\<lparr>ho_todo := t\<rparr>) L = shows_log h L" "shows_log (h\<lparr>ho_msg_count := c\<rparr>) L = shows_log h L" "shows_log (h\<lparr>ho_generation := g\<rparr>) L = shows_log h L"
  "shows_log (h\<lparr>ho_line_b_send_succeeded := s\<rparr>) L = shows_log h L" "shows_log (h\<lparr>ho_line_b_completed_generation := g\<rparr>) L = shows_log h L"
  "shows_log (h\<lparr>ho_stop := s\<rparr>) L = shows_log h L"
  by (simp_all add: shows_log_def)

lemma main_step_inv:
  assumes inv: "handoff_inv delay packets h" and step: "main_step h h'"
  shows "handoff_inv delay packets h'"
proof -
  obtain outs where o: "length outs \<le> length packets" "main_inv delay packets (length outs) (send_log delay packets outs) h (ho_main h)"
    using inv by (auto simp: handoff_inv_def)
  let ?n = "length outs" and ?L = "send_log delay packets outs"
  have I: "handoff_inv delay packets h'" if "main_inv delay packets ?n ?L h' (ho_main h')" using that o(1) by (auto simp: handoff_inv_def)
  show ?thesis using step
  proof cases
    case (load data c ps)
    then have "?n < length packets \<and> packets ! ?n = (data, c) \<and> ps = drop (Suc ?n) packets"
      using o(2) by (cases "?n < length packets") (auto simp flip: Cons_nth_drop_Suc)
    then show ?thesis using o(2) load by (intro I) (simp add: current_def quiet_def)
  next
    case (send_a c sent)
    then show ?thesis using o(2) by (intro I) (auto simp: current_def quiet_def shows_log_def on_line_a_def)
  next
    case (prepare c a)
    then show ?thesis using o(2) by (intro I) (auto simp: current_def quiet_def)
  next
    case (publish a)
    then show ?thesis using o(2) by (intro I) (auto simp: current_def quiet_def)
  next
    case (completed a g)
    then have w: "ho_worker h = WorkerPoll g" "\<exists>overrun. shows_log h (on_line_b (packets ! ?n) (ho_line_b_send_succeeded h) (on_delay delay overrun (on_line_a (packets ! ?n) a ?L)))"
      "current packets ?n (ho_msg_count h) h" "ho_generation h = g" "\<not> ho_stop h"
      using o(2) by (cases "ho_worker h"; simp split: if_splits)+
    then obtain overrun where "shows_log h (on_line_b (packets ! ?n) (ho_line_b_send_succeeded h) (on_delay delay overrun (on_line_a (packets ! ?n) a ?L)))" by blast
    then have "shows_log h' (send_log delay packets (outs @ [(a, ho_line_b_send_succeeded h, overrun)]))"
      using w(3) completed by (simp add: send_log_snoc current_def on_result_def shows_log_def)
    then show ?thesis unfolding handoff_inv_def using w completed
      by (intro exI [of _ "outs @ [(a, ho_line_b_send_succeeded h, overrun)]"]) (auto simp: quiet_def current_def)
  next
    case stop
    then show ?thesis using o by (intro I) (simp add: quiet_def)
  next
    case wake
    then show ?thesis using o(2) by (intro I) (simp add: quiet_def)
  next
    case join
    then show ?thesis using o(2) by (intro I) simp
  qed
qed

lemma worker_step_inv:
  assumes inv: "handoff_inv delay packets h" and step: "worker_step delay h h'"
  shows "handoff_inv delay packets h'"
proof -
  obtain outs where o: "length outs \<le> length packets" "main_inv delay packets (length outs) (send_log delay packets outs) h (ho_main h)"
    using inv by (auto simp: handoff_inv_def)
  let ?n = "length outs"
  have I: "handoff_inv delay packets h'" if "main_inv delay packets (length outs) (send_log delay packets outs) h' (ho_main h')"
    using that o(1) by (auto simp: handoff_inv_def)
  show ?thesis using step
  proof cases
    case (observe seen)
    then show ?thesis using o(2) by (intro I) (cases "ho_main h"; auto simp: quiet_def current_def)
  next
    case (exit g)
    then show ?thesis using o(2) by (intro I) (cases "ho_main h"; auto simp: quiet_def current_def)
  next
    case (proceed g)
    moreover have "\<exists>overrun. shows_log h (on_delay delay overrun L)" if "shows_log h L" for L using that by (auto simp: on_delay_def)
    ultimately show ?thesis using o(2) by (intro I) (cases "ho_main h"; auto simp: quiet_def current_def)
  next
    case (delay g overrun)
    have D: "\<exists>overrun. shows_log h' (on_delay delay overrun L)" if "delay > 0" "shows_log h L" for L
      using that delay by (intro exI [of _ overrun]) (auto simp: shows_log_def on_delay_def)
    obtain a where m: "ho_main h = MainWait a g" using o(2) delay by (cases "ho_main h") (auto simp: quiet_def)
    then have "ho_main h' = MainWait a g" "ho_worker h' = WorkerSend g" "current packets ?n (ho_msg_count h') h'"
      using o(2) delay by (simp_all add: current_def)
    then show ?thesis using o(2) delay m D by (intro I) simp
  next
    case (send_b g sent)
    obtain a where m: "ho_main h = MainWait a g" using o(2) send_b by (cases "ho_main h") (auto simp: quiet_def)
    then have "packets ! ?n = (ho_buffer h, ho_msg_count h)" using o(2) by (simp add: current_def)
    then have D: "shows_log h' (on_line_b (packets ! ?n) sent L)" if "shows_log h L" for L using that send_b by (auto simp: shows_log_def on_line_b_def)
    have "ho_main h' = MainWait a g" "ho_worker h' = WorkerAck g" "ho_line_b_send_succeeded h' = sent" "current packets ?n (ho_msg_count h') h'"
      using o(2) send_b m by (simp_all add: current_def)
    moreover obtain overrun where "shows_log h (on_delay delay overrun (on_line_a (packets ! ?n) a (send_log delay packets outs)))" using o(2) send_b m by auto
    then have "\<exists>overrun. shows_log h' (on_line_b (packets ! ?n) sent (on_delay delay overrun (on_line_a (packets ! ?n) a (send_log delay packets outs))))"
      using D by blast
    ultimately show ?thesis using o(2) send_b m by (intro I) simp
  next
    case (acknowledge g)
    then show ?thesis using o(2) by (intro I) (cases "ho_main h"; auto simp: quiet_def current_def)
  qed
qed

lemma reach_inv: "handoff_reach delay packets h \<Longrightarrow> handoff_inv delay packets h"
  unfolding handoff_reach_def
proof (induction rule: rtranclp_induct)
  case (step h h')
  from step(2) show ?case using step.IH by cases (blast intro: main_step_inv worker_step_inv)+
qed (rule handoff_inv_new)

section \<open>The sequential sends\<close>

primrec send_all :: "SenderWorld \<Rightarrow> SenderConfig \<Rightarrow> (u8 list \<times> u16) list \<Rightarrow> SenderState \<Rightarrow> bool list \<times> SenderState" where
  "send_all W cfg [] s = ([], s)"
| "send_all W cfg (p # ps) s = (let (r, s1) = send_redundant W cfg (fst p) (snd p) s; (rs, s2) = send_all W cfg ps s1 in (r # rs, s2))"

lemma send_all_snoc:
  "send_all W cfg (ps @ [p]) s = (let (rs, s1) = send_all W cfg ps s; (r, s2) = send_redundant W cfg (fst p) (snd p) s1 in (rs @ [r], s2))"
  by (induction ps arbitrary: s) (auto simp: Let_def split: prod.splits)

text \<open>A world in which the sends have given outcomes: every send makes two observations.\<close>

definition world_of :: "(bool \<times> bool \<times> bool) list \<Rightarrow> SenderWorld" where
  "world_of outs = \<lparr>sw_clock = (\<lambda>n. 0), sw_signal = None, sw_line_a = (\<lambda>n. fst (outs ! (n div 2))), sw_line_b = (\<lambda>n. fst (snd (outs ! (n div 2)))),
     sw_overrun = (\<lambda>n. snd (snd (outs ! (n div 2))))\<rparr>"

definition same_log :: "SenderState \<Rightarrow> bool list \<Rightarrow> SendLog \<Rightarrow> bool" where
  "same_log s rs L \<longleftrightarrow> ss_line_a s = lg_line_a L \<and> ss_line_b s = lg_line_b L \<and> ss_wire_a s = lg_wire_a L \<and> ss_wire_b s = lg_wire_b L \<and> rs = lg_results L"

lemma send_redundant_log:
  assumes "same_log s rs L" "ss_tick s = 2 * k" "outs ! k = (a, b, overrun)"
    and "send_redundant (world_of outs) cfg (fst p) (snd p) s = (r, s')"
  shows "same_log s' (rs @ [r]) (log_step (cfg_line_b_delay_ns cfg) L (p, a, b, overrun))" "ss_tick s' = 2 * Suc k"
  using assms by (auto simp: send_redundant_def send_line_a_def world_of_def same_log_def on_result_def on_line_a_def on_line_b_def on_delay_def Let_def)

lemma send_all_log:
  assumes s: "same_log s0 [] newLog" "ss_tick s0 = 0" and o: "length outs \<le> length packets"
  shows "k \<le> length outs \<Longrightarrow> (case send_all (world_of outs) cfg (take k packets) s0 of (rs, s) \<Rightarrow>
    same_log s rs (send_log (cfg_line_b_delay_ns cfg) packets (take k outs)) \<and> ss_tick s = 2 * k)"
proof (induction k)
  case 0
  then show ?case using s by (simp add: send_log_def)
next
  case (Suc k)
  then have k: "k < length outs" "k < length packets" using o by auto
  obtain rs s where r: "send_all (world_of outs) cfg (take k packets) s0 = (rs, s)" by fastforce
  obtain q s' where q: "send_redundant (world_of outs) cfg (fst (packets ! k)) (snd (packets ! k)) s = (q, s')" by fastforce
  obtain a b ov where x: "outs ! k = (a, b, ov)" by (cases "outs ! k") auto
  have I: "same_log s rs (send_log (cfg_line_b_delay_ns cfg) packets (take k outs))" "ss_tick s = 2 * k" using Suc r by auto
  have l: "send_log d packets (take (Suc k) outs) = log_step d (send_log d packets (take k outs)) (packets ! k, outs ! k)" for d
    using send_log_snoc [of "take k outs" packets d "outs ! k"] k by (simp add: take_Suc_conv_app_nth)
  have p: "take (Suc k) packets = take k packets @ [packets ! k]" using k by (simp add: take_Suc_conv_app_nth)
  show ?case unfolding p l x send_all_snoc r using send_redundant_log [OF I x q] by (simp add: q)
qed

lemma send_log_results: "length outs \<le> length packets \<Longrightarrow> length (lg_results (send_log delay packets outs)) = length outs"
proof (induction outs rule: rev_induct)
  case (snoc x outs)
  then show ?case by (cases x) (simp add: send_log_snoc on_result_def on_line_a_def on_line_b_def on_delay_def)
qed (simp add: send_log_def newLog_def)

section \<open>Progress\<close>

primrec worker_weight :: "u64 \<Rightarrow> WorkerPc \<Rightarrow> nat" where
  "worker_weight g (WorkerPoll seen) = (if seen = g then 0 else 6)"
| "worker_weight g (WorkerCheck g') = 5"
| "worker_weight g (WorkerDelay g') = 4"
| "worker_weight g (WorkerSend g') = 3"
| "worker_weight g (WorkerAck g') = 2"
| "worker_weight g WorkerExit = 0"

primrec main_weight :: "MainPc \<Rightarrow> nat" where
  "main_weight MainIdle = 9"
| "main_weight (MainSendA c) = 28"
| "main_weight (MainPrepare c a) = 27"
| "main_weight (MainPublish a) = 26"
| "main_weight (MainWait a g) = 10"
| "main_weight MainStop = 8"
| "main_weight MainJoin = 1"
| "main_weight MainEnd = 0"

definition handoff_weight :: "Handoff \<Rightarrow> nat" where
  "handoff_weight h = 20 * length (ho_todo h) + main_weight (ho_main h) + worker_weight (ho_generation h) (ho_worker h)"

lemma step_decreases:
  assumes inv: "handoff_inv delay packets h" and step: "handoff_step delay h h'"
  shows "handoff_weight h' < handoff_weight h"
proof -
  obtain n L where m: "main_inv delay packets n L h (ho_main h)" using inv by (auto simp: handoff_inv_def)
  from step show ?thesis
  proof cases
    case main
    then show ?thesis
    proof cases
      case load
      then show ?thesis by (simp add: handoff_weight_def)
    qed (use m in \<open>auto simp: handoff_weight_def quiet_def\<close>)
  next
    case worker
    then show ?thesis using m by cases (cases "ho_main h"; auto simp: handoff_weight_def quiet_def)+
  qed
qed

lemma handoff_progress:
  assumes inv: "handoff_inv delay packets h" and m: "ho_main h \<noteq> MainEnd"
  shows "\<exists>h'. handoff_step delay h h'"
proof -
  obtain n L where i: "main_inv delay packets n L h (ho_main h)" using inv by (auto simp: handoff_inv_def)
  have w: "\<exists>h'. handoff_step delay h h'" if "worker_step delay h h'" for h' using handoff_step.worker [OF that] by blast
  have p: "\<exists>h'. handoff_step delay h h'" if "main_step h h'" for h' using handoff_step.main [OF that] by blast
  show ?thesis
  proof (cases "ho_main h")
    case MainIdle
    then show ?thesis using p [OF main_step.load [OF MainIdle]] p [OF main_step.stop [OF MainIdle]] by (cases "ho_todo h") auto
  next
    case (MainWait a g)
    then show ?thesis using i p [OF main_step.completed [OF MainWait]]
      by (cases "ho_worker h") (auto intro: w worker_step.intros split: if_splits)
  next
    case MainJoin
    then show ?thesis using i p [OF main_step.join [OF MainJoin]]
      by (cases "ho_worker h") (auto intro: w worker_step.intros)
  qed (use m in \<open>auto intro: p main_step.intros\<close>)
qed

text \<open>One packet of one message, up to the point where the worker sends it, and to the end of the call.\<close>

definition demo_packets :: "(u8 list \<times> u16) list" where "demo_packets = [([1, 2], 1)]"

lemma reach_main: "handoff_reach delay packets h \<Longrightarrow> main_step h h' \<Longrightarrow> handoff_reach delay packets h'"
  unfolding handoff_reach_def by (blast intro: rtranclp.rtrancl_into_rtrancl handoff_step.main)

lemma reach_worker: "handoff_reach delay packets h \<Longrightarrow> worker_step delay h h' \<Longrightarrow> handoff_reach delay packets h'"
  unfolding handoff_reach_def by (blast intro: rtranclp.rtrancl_into_rtrancl handoff_step.worker)

lemma demo_handoff:
  shows "\<exists>h. handoff_reach 0 demo_packets h \<and> ho_worker h = WorkerSend 1"
    "\<exists>h. handoff_reach 0 demo_packets h \<and> ho_main h = MainIdle \<and> ho_results h = [True] \<and> ho_wire_b h = [[1, 2]]"
proof -
  let ?h0 = "newHandoff demo_packets"
  let ?h1 = "?h0\<lparr>ho_buffer := [1, 2], ho_todo := [], ho_main := MainSendA 1\<rparr>"
  let ?h2 = "?h1\<lparr>ho_line_a := count_sent True 1 (ho_line_a ?h1), ho_wire_a := (if True then ho_wire_a ?h1 @ [ho_buffer ?h1] else ho_wire_a ?h1), ho_main := MainPrepare 1 True\<rparr>"
  let ?h3 = "?h2\<lparr>ho_msg_count := 1, ho_line_b_send_succeeded := False, ho_main := MainPublish True\<rparr>"
  let ?h4 = "?h3\<lparr>ho_generation := ho_generation ?h3 + 1, ho_main := MainWait True (ho_generation ?h3 + 1)\<rparr>"
  let ?h5 = "?h4\<lparr>ho_worker := WorkerCheck (ho_generation ?h4)\<rparr>"
  let ?h6 = "?h5\<lparr>ho_worker := (if 0 < (0 :: u64) then WorkerDelay 1 else WorkerSend 1)\<rparr>"
  let ?h7 = "?h6\<lparr>ho_line_b_send_succeeded := True, ho_line_b := count_sent True (ho_msg_count ?h6) (ho_line_b ?h6),
    ho_wire_b := (if True then ho_wire_b ?h6 @ [ho_buffer ?h6] else ho_wire_b ?h6), ho_worker := WorkerAck 1\<rparr>"
  let ?h8 = "?h7\<lparr>ho_line_b_completed_generation := 1, ho_worker := WorkerPoll 1\<rparr>"
  let ?h9 = "?h8\<lparr>ho_results := ho_results ?h8 @ [True \<and> ho_line_b_send_succeeded ?h8], ho_main := MainIdle\<rparr>"
  note d = newHandoff_def demo_packets_def
  have "handoff_reach 0 demo_packets ?h0" by (simp add: handoff_reach_def)
  then have "handoff_reach 0 demo_packets ?h1" by (rule reach_main [OF _ main_step.load]) (simp_all add: d)
  then have "handoff_reach 0 demo_packets ?h2" by (rule reach_main [OF _ main_step.send_a]) (simp add: d)
  then have "handoff_reach 0 demo_packets ?h3" by (rule reach_main [OF _ main_step.prepare]) (simp add: d)
  then have "handoff_reach 0 demo_packets ?h4" by (rule reach_main [OF _ main_step.publish]) (simp add: d)
  then have "handoff_reach 0 demo_packets ?h5" by (rule reach_worker [OF _ worker_step.observe [where observed = 0]]) (simp_all add: d)
  then have 6: "handoff_reach 0 demo_packets ?h6" by (rule reach_worker [OF _ worker_step.proceed]) (simp_all add: d)
  then have "handoff_reach 0 demo_packets ?h7" by (rule reach_worker [OF _ worker_step.send_b]) (simp add: d)
  then have "handoff_reach 0 demo_packets ?h8" by (rule reach_worker [OF _ worker_step.acknowledge]) (simp add: d)
  then have 9: "handoff_reach 0 demo_packets ?h9" by (rule reach_main [OF _ main_step.completed]) (simp_all add: d)
  show "\<exists>h. handoff_reach 0 demo_packets h \<and> ho_worker h = WorkerSend 1" using 6 by (intro exI [of _ ?h6]) simp
  show "\<exists>h. handoff_reach 0 demo_packets h \<and> ho_main h = MainIdle \<and> ho_results h = [True] \<and> ho_wire_b h = [[1, 2]]"
    using 9 by (intro exI [of _ ?h9]) (simp add: d)
qed

section \<open>Properties\<close>

text \<open>The worker and the buffer. In every interleaving, when the worker waits for the delay of line B or sends, the main thread waits for that generation, and
  the shared buffer holds the packet of the call in progress: it is neither reused nor overwritten before line B is done.\<close>

theorem handoff_buffer_stable:
  assumes "handoff_reach delay packets h" "ho_worker h = WorkerDelay g \<or> ho_worker h = WorkerSend g"
  shows "\<exists>a. ho_main h = MainWait a g \<and> length (ho_results h) < length packets \<and> packets ! length (ho_results h) = (ho_buffer h, ho_msg_count h)"
proof -
  obtain outs where o: "length outs \<le> length packets" "main_inv delay packets (length outs) (send_log delay packets outs) h (ho_main h)"
    using reach_inv [OF assms(1)] by (auto simp: handoff_inv_def)
  let ?L = "send_log delay packets outs"
  obtain a where m: "ho_main h = MainWait a g" using o(2) assms(2) by (cases "ho_main h") (auto simp: quiet_def)
  have "ho_results h = lg_results ?L" using o(2) m assms(2) by (auto simp: shows_log_def on_line_a_def on_delay_def split: if_splits)
  then have "length (ho_results h) = length outs" using send_log_results [OF o(1), of delay] by simp
  then show ?thesis using o(2) m by (simp add: current_def)
qed

theorem handoff_buffer_stable_witness: "\<exists>h a. handoff_reach 0 demo_packets h \<and> ho_main h = MainWait a 1 \<and> demo_packets ! length (ho_results h) = (ho_buffer h, ho_msg_count h)"
proof -
  obtain h where "handoff_reach 0 demo_packets h" "ho_worker h = WorkerSend 1" using demo_handoff(1) by blast
  then show ?thesis using handoff_buffer_stable [of 0 demo_packets h 1] by blast
qed

text \<open>C20. The hand-off is sequential sending. Between two calls of \<open>send\<close>, and at the end, the line counters, the datagrams on both wires and the results of the calls are those of
  sending each packet on line A and then on line B before the next one, for some outcomes of the transmissions.\<close>

theorem handoff_refines_sequential:
  assumes "handoff_reach (cfg_line_b_delay_ns cfg) packets h" "ho_main h = MainIdle \<or> ho_main h = MainEnd"
    and "ss_tick s0 = 0" "ss_line_a s0 = newLineState" "ss_line_b s0 = newLineState" "ss_wire_a s0 = []" "ss_wire_b s0 = []"
  shows "\<exists>W s. send_all W cfg (take (length (ho_results h)) packets) s0 = (ho_results h, s) \<and>
    ss_line_a s = ho_line_a h \<and> ss_line_b s = ho_line_b h \<and> ss_wire_a s = ho_wire_a h \<and> ss_wire_b s = ho_wire_b h"
proof -
  let ?d = "cfg_line_b_delay_ns cfg"
  obtain outs where o: "length outs \<le> length packets" "main_inv ?d packets (length outs) (send_log ?d packets outs) h (ho_main h)"
    using reach_inv [OF assms(1)] by (auto simp: handoff_inv_def)
  then have L: "shows_log h (send_log ?d packets outs)" using assms(2) by auto
  then have n: "length (ho_results h) = length outs" using send_log_results [OF o(1), of ?d] by (simp add: shows_log_def)
  have "same_log s0 [] newLog" using assms(4-7) by (simp add: same_log_def newLog_def)
  from send_all_log [OF this assms(3) o(1), of "length outs" cfg]
  show ?thesis using L n by (auto simp: same_log_def shows_log_def split: prod.splits)
qed

definition demo_send_config :: SenderConfig where
  "demo_send_config = \<lparr>arg_redundant = True, arg_path = ''day.itch'', arg_ip = ''127.0.0.1'', arg_port_a = 5000, arg_port_b = 5001,
     arg_msgs_per_packet = 2, arg_session = ''AAAA'', arg_pkts_per_second = 0, arg_premarket_seconds = 0, arg_ss_pause_seconds = 0,
     arg_replay_mode = ReplayOff, arg_premarket_speedup = 1, cfg_cpus = None, cfg_line_b_delay_ns = 0, cfg_startup_heartbeat_count = 0,
     cfg_startup_heartbeat_interval_ms = 1000, cfg_idle_heartbeat_interval_ms = 1000, cfg_end_of_session_packet_count = 2,
     cfg_end_of_session_interval_ms = 100, cfg_completion_policy = RequireTerminator\<rparr>"

definition demo_start :: SenderState where
  "demo_start = (initialState (world_of []) demo_send_config (newItchMoldUdpSource None [] [] 1 RequireTerminator))\<lparr>ss_tick := 0\<rparr>"

theorem handoff_refines_sequential_witness: "\<exists>W s. send_all W demo_send_config demo_packets demo_start = ([True], s) \<and> ss_wire_b s = [[1, 2]]"
proof -
  obtain h where h: "handoff_reach 0 demo_packets h" "ho_main h = MainIdle" "ho_results h = [True]" "ho_wire_b h = [[1, 2]]" using demo_handoff(2) by blast
  have "handoff_reach (cfg_line_b_delay_ns demo_send_config) demo_packets h" using h(1) by (simp add: demo_send_config_def)
  moreover have "ss_tick demo_start = 0" "ss_line_a demo_start = newLineState" "ss_line_b demo_start = newLineState" "ss_wire_a demo_start = []" "ss_wire_b demo_start = []"
    by (simp_all add: demo_start_def initialState_def)
  ultimately show ?thesis using handoff_refines_sequential [of demo_send_config demo_packets h demo_start] h(2-4) by (auto simp: demo_packets_def)
qed

text \<open>C21. The hand-off always ends. Every interleaving of the two threads is finite, and one that cannot go on has sent all packets on both lines and joined the
  worker: no deadlock, no lost wake-up.\<close>

theorem handoff_terminates:
  "wfp (\<lambda>h' h. handoff_reach delay packets h \<and> handoff_step delay h h') \<and>
   (\<forall>h. handoff_reach delay packets h \<and> \<not> (\<exists>h'. handoff_step delay h h') \<longrightarrow> ho_main h = MainEnd \<and> ho_worker h = WorkerExit \<and> length (ho_results h) = length packets)"
proof (intro conjI allI impI)
  show "wfp (\<lambda>h' h. handoff_reach delay packets h \<and> handoff_step delay h h')"
    by (rule wfp_if_convertible_to_nat [of _ handoff_weight]) (use reach_inv step_decreases in blast)
next
  fix h assume h: "handoff_reach delay packets h \<and> \<not> (\<exists>h'. handoff_step delay h h')"
  then show m: "ho_main h = MainEnd" using handoff_progress reach_inv by blast
  obtain outs where o: "length outs \<le> length packets" "main_inv delay packets (length outs) (send_log delay packets outs) h (ho_main h)"
    using reach_inv [of delay packets h] h by (auto simp: handoff_inv_def)
  then show "ho_worker h = WorkerExit" "length (ho_results h) = length packets"
    using m send_log_results [OF o(1), of delay] by (auto simp: shows_log_def)
qed

theorem handoff_terminates_witness: "wfp (\<lambda>h' h. handoff_reach 0 demo_packets h \<and> handoff_step 0 h h')"
  using handoff_terminates [of 0 demo_packets] by blast

end
