(* ===== verification/UdpReceiver.thy ===== *)
theory UdpReceiver
  imports MoldUdpDecoder
begin

text \<open>
  Model of the receivers on kernel sockets: \<open>UdpReceiver.cpp\<close>, \<open>UdpBatchReceiver.cpp\<close>, \<open>DualUdpReceiver.cpp\<close>, \<open>DualUdpBatchReceiver.cpp\<close> and their headers.

  A non-blocking socket is the list of the answers that the coming receive calls give, one datagram or one error each, with
  \<open>EAGAIN\<close> when the list is used up; the calls that set the socket up are parameters, records of their return values. \<open>recv\<close> with
  \<open>MSG_TRUNC\<close> returns the length of the datagram and stores what fits the buffer; \<open>recvmmsg\<close> takes consecutive datagrams and leaves an error behind them
  for the next call. Ancillary data is a list of control messages with the 32-bit number each carries. The readings of the time stamp
  counter are a function of how often it has been read. The conditional branches are those of a Linux build.
\<close>

section \<open>Sockets\<close>

definition EINTR :: int where "EINTR = 4"
definition EAGAIN :: int where "EAGAIN = 11"
definition EWOULDBLOCK :: int where "EWOULDBLOCK = EAGAIN"
definition SOL_SOCKET :: int where "SOL_SOCKET = 1"
definition SO_RXQ_OVFL :: int where "SO_RXQ_OVFL = 40"

record cmsghdr =
  cmsg_level :: int
  cmsg_type :: int
  cmsg_value :: u32

datatype recv_event = RecvError int | Datagram "u8 list" "cmsghdr list"

definition sock_recv :: "recv_event list \<Rightarrow> recv_event \<times> recv_event list" where
  "sock_recv sock = (case sock of [] \<Rightarrow> (RecvError EAGAIN, []) | e # es \<Rightarrow> (e, es))"

fun datagrams :: "recv_event list \<Rightarrow> (u8 list \<times> cmsghdr list) list" where
  "datagrams (Datagram data cmsgs # es) = (data, cmsgs) # datagrams es"
| "datagrams _ = []"

text \<open>\<open>recvmmsg\<close>: an error, or at least one and at most \<open>vlen\<close> datagrams.\<close>

definition sock_recvmmsg :: "nat \<Rightarrow> recv_event list \<Rightarrow> (int + (u8 list \<times> cmsghdr list) list) \<times> recv_event list" where
  "sock_recvmmsg vlen sock =
     (case sock of [] \<Rightarrow> (Inl EAGAIN, [])
      | RecvError e # es \<Rightarrow> (Inl e, es)
      | _ \<Rightarrow> let msgs = take vlen (datagrams sock) in (Inr msgs, drop (length msgs) sock))"

definition real_error :: "int \<Rightarrow> bool" where
  "real_error e = (e \<noteq> EAGAIN \<and> e \<noteq> EWOULDBLOCK \<and> e \<noteq> EINTR)"

section \<open>UdpReceiver\<close>

definition udp_kMaxPacketSize :: nat where "udp_kMaxPacketSize = 2048"

record UdpReceiver =
  ur_fd :: int
  ur_buf :: "u8 list"
  ur_error_count :: u64
  ur_truncated_count :: u64
  ur_kernel_drop_count :: u64
  ur_last_kernel_drop_count :: u32
  ur_drop_metrics :: bool
  ur_socket :: "recv_event list"
  ur_clock :: nat

text \<open>\<open>recordKernelDrops\<close> on the two counters; the first control message that carries a drop count ends the loop.\<close>

fun record_drops :: "u64 \<Rightarrow> u32 \<Rightarrow> cmsghdr list \<Rightarrow> u64 \<times> u32" where
  "record_drops drops previous [] = (drops, previous)"
| "record_drops drops previous (c # cs) =
     (if cmsg_level c \<noteq> SOL_SOCKET \<or> cmsg_type c \<noteq> SO_RXQ_OVFL then record_drops drops previous cs
      else
        let kernel_drop_count = cmsg_value c
        in (if kernel_drop_count \<ge> previous then drops + ucast (kernel_drop_count - previous)
            else drops + (ucast (u32_max - previous) + ucast kernel_drop_count + 1),
            kernel_drop_count))"

definition recordKernelDrops :: "UdpReceiver \<Rightarrow> cmsghdr list \<Rightarrow> UdpReceiver" where
  "recordKernelDrops r cmsgs =
     (let (drops, previous) = record_drops (ur_kernel_drop_count r) (ur_last_kernel_drop_count r) cmsgs
      in r\<lparr>ur_kernel_drop_count := drops, ur_last_kernel_drop_count := previous\<rparr>)"

text \<open>The kernel's part: the buffer after a datagram of any length.\<close>

definition fill_buffer :: "u8 list \<Rightarrow> u8 list \<Rightarrow> u8 list" where
  "fill_buffer buf data = take (length buf) data @ drop (length data) buf"

definition nextWithDropMetrics :: "UdpReceiver \<Rightarrow> u64 \<Rightarrow> PacketView option \<times> UdpReceiver" where
  "nextWithDropMetrics r receive_start_ticks =
     (let (answer, sock) = sock_recv (ur_socket r); r1 = r\<lparr>ur_socket := sock\<rparr>
      in case answer of
           RecvError e \<Rightarrow> (None, if real_error e then r1\<lparr>ur_error_count := ur_error_count r1 + 1\<rparr> else r1)
         | Datagram data cmsgs \<Rightarrow>
             let r2 = recordKernelDrops (r1\<lparr>ur_buf := fill_buffer (ur_buf r1) data\<rparr>) cmsgs; size = length data
             in if size > udp_kMaxPacketSize then (None, r2\<lparr>ur_truncated_count := ur_truncated_count r2 + 1\<rparr>)
                else (Some \<lparr>pv_data = Some (take size (ur_buf r2)), pv_receive_start_ticks = receive_start_ticks\<rparr>, r2))"

definition udp_next :: "(nat \<Rightarrow> u64) \<Rightarrow> UdpReceiver \<Rightarrow> PacketView option \<times> UdpReceiver" where
  "udp_next rdtsc r0 =
     (let receive_start_ticks = rdtsc (ur_clock r0); r = r0\<lparr>ur_clock := ur_clock r0 + 1\<rparr>
      in if ur_drop_metrics r then nextWithDropMetrics r receive_start_ticks
         else
           let (answer, sock) = sock_recv (ur_socket r); r1 = r\<lparr>ur_socket := sock\<rparr>
           in case answer of
                RecvError e \<Rightarrow> (None, if real_error e then r1\<lparr>ur_error_count := ur_error_count r1 + 1\<rparr> else r1)
              | Datagram data _ \<Rightarrow>
                  let r2 = r1\<lparr>ur_buf := fill_buffer (ur_buf r1) data\<rparr>; size = length data
                  in if size > udp_kMaxPacketSize then (None, r2\<lparr>ur_truncated_count := ur_truncated_count r2 + 1\<rparr>)
                     else (Some \<lparr>pv_data = Some (take size (ur_buf r2)), pv_receive_start_ticks = receive_start_ticks\<rparr>, r2))"

section \<open>Opening a socket\<close>

text \<open>Return values of the calls that the constructors make; options are named as in the sources.\<close>

record SocketCalls =
  sk_socket :: int
  sk_getfl :: int
  sk_setfl :: int
  sk_setsockopt :: "string \<Rightarrow> int"
  sk_bind :: "u16 \<Rightarrow> int"
  sk_inet_pton :: "string \<Rightarrow> u32 option"

datatype SocketError = SocketFailed | NonBlockFailed | OptionFailed string | BadDropMetricsFlag | BindFailed | BadGroupAddress

definition is_multicast :: "u32 \<Rightarrow> bool" where
  "is_multicast address = (drop_bit 28 address = 0xE)"

definition env_flag_enabled :: "string option \<Rightarrow> SocketError + bool" where
  "env_flag_enabled flag =
     (case flag of None \<Rightarrow> Inr False
      | Some v \<Rightarrow>
          if v = [] \<or> v = ''0'' \<or> v = ''false'' \<or> v = ''off'' \<or> v = ''no'' then Inr False
          else if v = ''1'' \<or> v = ''true'' \<or> v = ''on'' \<or> v = ''yes'' then Inr True
          else Inl BadDropMetricsFlag)"

text \<open>The open descriptors of the process before and after; a throw closes the descriptor through \<open>ScopedFileDescriptor\<close>.\<close>

definition newUdpReceiver :: "int \<Rightarrow> bool \<Rightarrow> recv_event list \<Rightarrow> UdpReceiver" where
  "newUdpReceiver fd drop_metrics sock =
     \<lparr>ur_fd = fd, ur_buf = replicate udp_kMaxPacketSize 0, ur_error_count = 0, ur_truncated_count = 0, ur_kernel_drop_count = 0,
      ur_last_kernel_drop_count = 0, ur_drop_metrics = drop_metrics, ur_socket = sock, ur_clock = 0\<rparr>"

text \<open>The tail that both constructors share: bind the port, and join the group of a multicast address.\<close>

definition bind_and_join :: "SocketCalls \<Rightarrow> string \<Rightarrow> u16 \<Rightarrow> SocketError option" where
  "bind_and_join sk ip port =
     (if sk_bind sk port < 0 then Some BindFailed
      else case sk_inet_pton sk ip of None \<Rightarrow> Some BadGroupAddress
           | Some address \<Rightarrow>
               if is_multicast address \<and> sk_setsockopt sk ''IP_ADD_MEMBERSHIP'' < 0 then Some (OptionFailed ''IP_ADD_MEMBERSHIP'') else None)"

definition udpConstruct ::
    "SocketCalls \<Rightarrow> (string \<Rightarrow> string option) \<Rightarrow> string \<Rightarrow> u16 \<Rightarrow> recv_event list \<Rightarrow> int list \<Rightarrow> (SocketError + UdpReceiver) \<times> int list" where
  "udpConstruct sk getenv ip port sock fds =
     (let fd = sk_socket sk
      in if fd < 0 then (Inl SocketFailed, fds)
         else
      let fds1 = fd # fds; fail = (\<lambda>e. (Inl e, remove1 fd fds1))
      in if sk_getfl sk < 0 \<or> sk_setfl sk < 0 then fail NonBlockFailed
         else if sk_setsockopt sk ''SO_REUSEADDR'' < 0 then fail (OptionFailed ''SO_REUSEADDR'')
         else if sk_setsockopt sk ''SO_RCVBUF'' < 0 then fail (OptionFailed ''SO_RCVBUF'')
         else case env_flag_enabled (getenv ''ASTRA_UDP_DROP_METRICS'') of Inl e \<Rightarrow> fail e
         | Inr drop_metrics_requested \<Rightarrow>
             if drop_metrics_requested \<and> sk_setsockopt sk ''SO_RXQ_OVFL'' < 0 then fail (OptionFailed ''SO_RXQ_OVFL'')
             else case bind_and_join sk ip port of Some e \<Rightarrow> fail e
                  | None \<Rightarrow> (Inr (newUdpReceiver fd drop_metrics_requested sock), fds1))"

definition udpDestroy :: "UdpReceiver \<Rightarrow> int list \<Rightarrow> int list" where
  "udpDestroy r fds = (if ur_fd r \<ge> 0 then remove1 (ur_fd r) fds else fds)"

section \<open>UdpBatchReceiver\<close>

definition ub_kMaxPacketSize :: nat where "ub_kMaxPacketSize = 2048"
definition kMaxBatchSize :: nat where "kMaxBatchSize = 64"
definition kDefaultBatchSize :: nat where "kDefaultBatchSize = 8"

text \<open>A pending view is the index of a buffer, a size and a time; \<open>ub_buffers\<close> are the contents of the buffers.\<close>

record UdpBatchReceiver =
  ub_fd :: int
  ub_batch_size :: nat
  ub_pending :: "(nat \<times> nat \<times> u64) list"
  ub_pending_index :: nat
  ub_pending_count :: nat
  ub_buffers :: "nat \<Rightarrow> u8 list"
  ub_error_count :: u64
  ub_truncated_count :: u64
  ub_syscall_count :: u64
  ub_kernel_drop_count :: u64
  ub_last_kernel_drop_count :: u32
  ub_socket :: "recv_event list"
  ub_clock :: nat

definition newUdpBatchReceiver :: "int \<Rightarrow> nat \<Rightarrow> recv_event list \<Rightarrow> UdpBatchReceiver" where
  "newUdpBatchReceiver fd batch_size sock =
     \<lparr>ub_fd = fd, ub_batch_size = max 1 (min batch_size kMaxBatchSize), ub_pending = [], ub_pending_index = 0, ub_pending_count = 0,
      ub_buffers = (\<lambda>_. replicate ub_kMaxPacketSize 0), ub_error_count = 0, ub_truncated_count = 0, ub_syscall_count = 0,
      ub_kernel_drop_count = 0, ub_last_kernel_drop_count = 0, ub_socket = sock, ub_clock = 0\<rparr>"

definition udpBatchConstruct ::
    "SocketCalls \<Rightarrow> string \<Rightarrow> u16 \<Rightarrow> nat \<Rightarrow> recv_event list \<Rightarrow> int list \<Rightarrow> (SocketError + UdpBatchReceiver) \<times> int list" where
  "udpBatchConstruct sk ip port batch_size sock fds =
     (let fd = sk_socket sk
      in if fd < 0 then (Inl SocketFailed, fds)
         else
      let fds1 = fd # fds; fail = (\<lambda>e. (Inl e, remove1 fd fds1))
      in if sk_getfl sk < 0 \<or> sk_setfl sk < 0 then fail NonBlockFailed
         else if sk_setsockopt sk ''SO_REUSEADDR'' < 0 then fail (OptionFailed ''SO_REUSEADDR'')
         else if sk_setsockopt sk ''SO_RCVBUF'' < 0 then fail (OptionFailed ''SO_RCVBUF'')
         else if sk_setsockopt sk ''SO_RXQ_OVFL'' < 0 then fail (OptionFailed ''SO_RXQ_OVFL'')
         else case bind_and_join sk ip port of Some e \<Rightarrow> fail e
              | None \<Rightarrow> (Inr (newUdpBatchReceiver fd batch_size sock), fds1))"

definition udpBatchDestroy :: "UdpBatchReceiver \<Rightarrow> int list \<Rightarrow> int list" where
  "udpBatchDestroy r fds = (if ub_fd r \<ge> 0 then remove1 (ub_fd r) fds else fds)"

definition shouldDropDatagram :: "nat \<Rightarrow> bool \<Rightarrow> bool" where
  "shouldDropDatagram reported_size kernel_reported_truncation = (kernel_reported_truncation \<or> reported_size > ub_kMaxPacketSize)"

definition ub_recordKernelDrops :: "UdpBatchReceiver \<Rightarrow> cmsghdr list \<Rightarrow> UdpBatchReceiver" where
  "ub_recordKernelDrops r cmsgs =
     (let (drops, previous) = record_drops (ub_kernel_drop_count r) (ub_last_kernel_drop_count r) cmsgs
      in r\<lparr>ub_kernel_drop_count := drops, ub_last_kernel_drop_count := previous\<rparr>)"

text \<open>The loop over the messages of a batch; the kernel reports a truncation when a datagram is longer than its buffer.\<close>

fun batch_loop :: "u64 \<Rightarrow> nat \<Rightarrow> (u8 list \<times> cmsghdr list) list \<Rightarrow> UdpBatchReceiver \<Rightarrow> UdpBatchReceiver" where
  "batch_loop receive_start_ticks i [] r = r"
| "batch_loop receive_start_ticks i ((data, cmsgs) # msgs) r =
     (let r1 = ub_recordKernelDrops r cmsgs;
          size = length data;
          kernel_reported_truncation = (length data > ub_kMaxPacketSize)
      in if shouldDropDatagram size kernel_reported_truncation
         then batch_loop receive_start_ticks (i + 1) msgs (r1\<lparr>ub_truncated_count := ub_truncated_count r1 + 1\<rparr>)
         else batch_loop receive_start_ticks (i + 1) msgs (r1\<lparr>ub_pending := ub_pending r1 @ [(i, size, receive_start_ticks)]\<rparr>))"

text \<open>The entries of \<open>pending_\<close> beyond those written in this batch are dropped here; the count never reaches them.\<close>

definition receiveBatch :: "(nat \<Rightarrow> u64) \<Rightarrow> UdpBatchReceiver \<Rightarrow> nat \<times> UdpBatchReceiver" where
  "receiveBatch rdtsc r =
     (let receive_start_ticks = rdtsc (ub_clock r);
          (answer, sock) = sock_recvmmsg (ub_batch_size r) (ub_socket r);
          r1 = r\<lparr>ub_pending_index := 0, ub_pending_count := 0, ub_clock := ub_clock r + 1, ub_socket := sock\<rparr>
      in case answer of
           Inl e \<Rightarrow> (0, if real_error e then r1\<lparr>ub_error_count := ub_error_count r1 + 1\<rparr> else r1)
         | Inr msgs \<Rightarrow>
             let r2 = r1\<lparr>ub_syscall_count := ub_syscall_count r1 + 1, ub_pending := [],
                         ub_buffers := (\<lambda>i. if i < length msgs then fill_buffer (ub_buffers r1 i) (fst (msgs ! i)) else ub_buffers r1 i)\<rparr>;
                 r3 = batch_loop receive_start_ticks 0 msgs r2;
                 accepted = length (ub_pending r3)
             in (accepted, r3\<lparr>ub_pending_count := accepted\<rparr>))"

text \<open>Handing out the view at \<open>pending_index_\<close>.\<close>

definition pop_pending :: "UdpBatchReceiver \<Rightarrow> PacketView \<times> UdpBatchReceiver" where
  "pop_pending r =
     (let (i, size, ticks) = ub_pending r ! ub_pending_index r
      in (\<lparr>pv_data = Some (take size (ub_buffers r i)), pv_receive_start_ticks = ticks\<rparr>, r\<lparr>ub_pending_index := ub_pending_index r + 1\<rparr>))"

definition batch_next :: "(nat \<Rightarrow> u64) \<Rightarrow> UdpBatchReceiver \<Rightarrow> PacketView option \<times> UdpBatchReceiver" where
  "batch_next rdtsc r =
     (let (n, r1) = (if ub_pending_index r \<ge> ub_pending_count r then receiveBatch rdtsc r else (1, r))
      in if n = 0 then (None, r1) else let (packet, r2) = pop_pending r1 in (Some packet, r2))"

text \<open>The two loops of \<open>nextBatch\<close>: the inner one copies \<open>k\<close> views, the outer one ends after its second round at the latest, since it never refills
  once something has been copied.\<close>

fun copy_loop :: "nat \<Rightarrow> UdpBatchReceiver \<Rightarrow> PacketView list \<Rightarrow> PacketView list \<times> UdpBatchReceiver" where
  "copy_loop 0 r packets = (packets, r)"
| "copy_loop (Suc k) r packets =
     (if ub_pending_index r < ub_pending_count r then let (p, r1) = pop_pending r in copy_loop k r1 (packets @ [p])
      else (packets, r))"

fun batch_outer :: "(nat \<Rightarrow> u64) \<Rightarrow> nat \<Rightarrow> nat \<Rightarrow> UdpBatchReceiver \<Rightarrow> PacketView list \<Rightarrow> (PacketView list \<times> UdpBatchReceiver) option" where
  "batch_outer rdtsc 0 max_packets r packets = None"
| "batch_outer rdtsc (Suc rounds) max_packets r packets =
     (if length packets \<ge> max_packets then Some (packets, r)
      else
        let empty = (ub_pending_index r \<ge> ub_pending_count r);
            (n, r1) = (if empty \<and> packets = [] then receiveBatch rdtsc r else (1, r))
        in if empty \<and> (packets \<noteq> [] \<or> n = 0) then Some (packets, r1)
           else let (packets1, r2) = copy_loop (max_packets - length packets) r1 packets
                in batch_outer rdtsc rounds max_packets r2 packets1)"

definition nextBatch :: "(nat \<Rightarrow> u64) \<Rightarrow> bool \<Rightarrow> nat \<Rightarrow> UdpBatchReceiver \<Rightarrow> (PacketView list \<times> UdpBatchReceiver) option" where
  "nextBatch rdtsc has_packets max_packets r =
     (if \<not> has_packets \<or> max_packets = 0 then Some ([], r) else batch_outer rdtsc 2 max_packets r [])"

section \<open>Two lines\<close>

record 'r DualReceiver =
  du_receiver_a :: 'r
  du_receiver_b :: 'r
  du_next_a_first :: bool
  du_packets_a :: u64
  du_packets_b :: u64

definition newDualReceiver :: "'r \<Rightarrow> 'r \<Rightarrow> 'r DualReceiver" where
  "newDualReceiver a b = \<lparr>du_receiver_a = a, du_receiver_b = b, du_next_a_first = True, du_packets_a = 0, du_packets_b = 0\<rparr>"

text \<open>Both two-line constructors: the members are built in order, and a throw of the second one destroys the first.\<close>

definition dualConstruct ::
    "(int list \<Rightarrow> (SocketError + 'r) \<times> int list) \<Rightarrow> (int list \<Rightarrow> (SocketError + 'r) \<times> int list) \<Rightarrow> ('r \<Rightarrow> int list \<Rightarrow> int list) \<Rightarrow> int list \<Rightarrow>
     (SocketError + 'r DualReceiver) \<times> int list" where
  "dualConstruct construct_a construct_b destroy fds =
     (case construct_a fds of
        (Inl e, fds1) \<Rightarrow> (Inl e, fds1)
      | (Inr a, fds1) \<Rightarrow>
          (case construct_b fds1 of
             (Inl e, fds2) \<Rightarrow> (Inl e, destroy a fds2)
           | (Inr b, fds2) \<Rightarrow> (Inr (newDualReceiver a b), fds2)))"

text \<open>Asking one line: its answer, with the line's counter advanced when it has a packet.\<close>

definition ask_a :: "('r \<Rightarrow> PacketView option \<times> 'r) \<Rightarrow> 'r DualReceiver \<Rightarrow> PacketView option \<times> 'r DualReceiver" where
  "ask_a nxt d =
     (let (answer, a) = nxt (du_receiver_a d); d1 = d\<lparr>du_receiver_a := a\<rparr>
      in (answer, if answer = None then d1 else d1\<lparr>du_packets_a := du_packets_a d1 + 1\<rparr>))"

definition ask_b :: "('r \<Rightarrow> PacketView option \<times> 'r) \<Rightarrow> 'r DualReceiver \<Rightarrow> PacketView option \<times> 'r DualReceiver" where
  "ask_b nxt d =
     (let (answer, b) = nxt (du_receiver_b d); d1 = d\<lparr>du_receiver_b := b\<rparr>
      in (answer, if answer = None then d1 else d1\<lparr>du_packets_b := du_packets_b d1 + 1\<rparr>))"

definition dual_batch_next :: "('r \<Rightarrow> PacketView option \<times> 'r) \<Rightarrow> 'r DualReceiver \<Rightarrow> PacketView option \<times> 'r DualReceiver" where
  "dual_batch_next nxt d =
     (let (ask_first, ask_second) = (if du_next_a_first d then (ask_a nxt, ask_b nxt) else (ask_b nxt, ask_a nxt))
      in case ask_first d of
           (Some packet, d1) \<Rightarrow> (Some packet, d1\<lparr>du_next_a_first := \<not> du_next_a_first d1\<rparr>)
         | (None, d1) \<Rightarrow> ask_second d1)"

text \<open>\<open>DualUdpReceiver::next\<close> asks the kernel once more when both lines were empty; the answer of \<open>poll\<close> (its return value and the two
  \<open>POLLIN\<close> bits) is a parameter.\<close>

definition dual_next ::
    "('r \<Rightarrow> 'r \<Rightarrow> int \<times> bool \<times> bool) \<Rightarrow> ('r \<Rightarrow> PacketView option \<times> 'r) \<Rightarrow> 'r DualReceiver \<Rightarrow> PacketView option \<times> 'r DualReceiver" where
  "dual_next poll nxt d =
     (case dual_batch_next nxt d of
        (Some packet, d1) \<Rightarrow> (Some packet, d1)
      | (None, d1) \<Rightarrow>
          let (ready, in_a, in_b) = poll (du_receiver_a d1) (du_receiver_b d1)
          in if ready \<le> 0 then (None, d1)
             else if du_next_a_first d1 then
               (case (if in_a then ask_a nxt d1 else (None, d1)) of
                  (Some packet, d2) \<Rightarrow> (Some packet, d2\<lparr>du_next_a_first := False\<rparr>)
                | (None, d2) \<Rightarrow> if in_b then ask_b nxt d2 else (None, d2))
             else
               (case (if in_b then ask_b nxt d1 else (None, d1)) of
                  (Some packet, d2) \<Rightarrow> (Some packet, d2\<lparr>du_next_a_first := True\<rparr>)
                | (None, d2) \<Rightarrow> if in_a then ask_a nxt d2 else (None, d2)))"

end
