(* ===== verification/PacketSource.thy ===== *)
theory PacketSource
  imports MarketDataEngine
begin

text \<open>
  The interface between a receiver and the engine, \<open>IMarketDataSource.hpp\<close>: a call of \<open>next\<close> fills in a packet or reports that there is none.
  The locale states what the receivers promise: a state determines the payloads still to come, a packet is the first of them,
  and a call without a packet loses nothing and makes progress towards the next one.
\<close>

text \<open>Repeated polling, as the loop of \<open>MarketDataEngine::run\<close> does it: the answers and the source afterwards.\<close>

primrec poll_source :: "('s \<Rightarrow> PacketView option \<times> 's) \<Rightarrow> nat \<Rightarrow> 's \<Rightarrow> PacketView option list \<times> 's" where
  "poll_source nxt 0 s = ([], s)"
| "poll_source nxt (Suc n) s =
     (let (answer, s1) = nxt s; (answers, s2) = poll_source nxt n s1 in (answer # answers, s2))"

definition delivered_packets :: "PacketView option list \<Rightarrow> PacketView list" where
  "delivered_packets answers = List.map_filter id answers"

definition payloads :: "PacketView option list \<Rightarrow> u8 list option list" where
  "payloads answers = map pv_data (delivered_packets answers)"

lemma delivered_simps [simp]:
  "delivered_packets [] = []" "delivered_packets (None # as) = delivered_packets as" "delivered_packets (Some p # as) = p # delivered_packets as"
  by (simp_all add: delivered_packets_def List.map_filter_simps)

lemma payloads_simps [simp]:
  "payloads [] = []" "payloads (None # as) = payloads as" "payloads (Some p # as) = pv_data p # payloads as"
  by (simp_all add: payloads_def)

lemma poll_source_length: "length (fst (poll_source nxt n s)) = n"
  by (induction n arbitrary: s) (simp_all add: case_prod_beta Let_def)

text \<open>The engine sees the packets only: answers without a packet change nothing.\<close>

lemma engine_run_stopped: "\<not> eng_running e \<Longrightarrow> engine_run process e as = Some e"
  by (cases as) simp_all

lemma engine_run_delivered: "engine_run process e as = engine_run process e (map Some (delivered_packets as))"
proof (induction as arbitrary: e)
  case (Cons a as)
  show ?case
  proof (cases "eng_running e")
    case True
    then show ?thesis using Cons by (cases a) (simp_all split: option.split)
  next
    case False
    then show ?thesis using engine_run_stopped [OF False] by metis
  qed
qed simp

locale packet_source =
  fixes nxt :: "'s \<Rightarrow> PacketView option \<times> 's"
    and stream :: "'s \<Rightarrow> u8 list list"
    and wf :: "'s \<Rightarrow> bool"
    and idle :: "'s \<Rightarrow> nat"
  assumes packet: "wf s \<Longrightarrow> nxt s = (Some p, s1) \<Longrightarrow> (\<exists>b. pv_data p = Some b \<and> stream s = b # stream s1) \<and> wf s1 \<and> idle s1 \<le> idle s"
    and no_packet: "wf s \<Longrightarrow> nxt s = (None, s1) \<Longrightarrow> stream s1 = stream s \<and> wf s1 \<and> idle s1 \<le> idle s \<and> (stream s = [] \<or> idle s1 < idle s)"
begin

lemma polled_prefix:
  assumes "wf s" "poll_source nxt n s = (answers, s1)"
  shows "payloads answers @ map Some (stream s1) = map Some (stream s) \<and> wf s1"
  using assms
proof (induction n arbitrary: s answers)
  case (Suc n)
  obtain a s2 where a: "nxt s = (a, s2)" by (cases "nxt s")
  obtain as where as: "poll_source nxt n s2 = (as, s1)" "answers = a # as"
    using Suc.prems(2) a by (auto simp: Let_def split: prod.splits)
  show ?case
  proof (cases a)
    case None
    then show ?thesis using no_packet [OF Suc.prems(1)] a Suc.IH [OF _ as(1)] as(2) by auto
  next
    case (Some p)
    then show ?thesis using packet [OF Suc.prems(1)] a Suc.IH [OF _ as(1)] as(2) by auto
  qed
qed simp

lemma polled_all:
  assumes "wf s" "poll_source nxt n s = (answers, s1)" "length (stream s) + idle s \<le> n"
  shows "payloads answers = map Some (stream s)"
proof -
  have "stream s1 = []"
    using assms
  proof (induction n arbitrary: s answers)
    case (Suc n)
    obtain a s2 where a: "nxt s = (a, s2)" by (cases "nxt s")
    obtain as where as: "poll_source nxt n s2 = (as, s1)" using Suc.prems(2) a by (auto simp: Let_def split: prod.splits)
    show ?case
    proof (cases a)
      case None
      then have N: "stream s2 = stream s" "wf s2" "stream s = [] \<or> idle s2 < idle s"
        using no_packet [OF Suc.prems(1)] a by auto
      show ?thesis
      proof (cases "stream s = []")
        case True
        then show ?thesis using polled_prefix [OF N(2) as] N(1) by simp
      next
        case False
        then show ?thesis using N Suc.prems(3) by (intro Suc.IH [OF N(2) as]) auto
      qed
    next
      case (Some p)
      then show ?thesis using packet [OF Suc.prems(1)] a Suc.prems(3) by (intro Suc.IH [OF _ as]) auto
    qed
  qed simp
  then show ?thesis using polled_prefix [OF assms(1,2)] by simp
qed

lemma engine_fed:
  assumes "wf s" "poll_source nxt n s = (answers, s1)" "length (stream s) + idle s \<le> n"
  shows "\<exists>packets. map pv_data packets = map Some (stream s)
     \<and> engine_run process e answers = engine_run process e (map Some packets)"
  using polled_all [OF assms] engine_run_delivered [of process e answers]
  by (intro exI [of _ "delivered_packets answers"]) (simp add: payloads_def)

end

end
