(* ===== verification/UdpReceiverCorrect.thy ===== *)
theory UdpReceiverCorrect
  imports UdpReceiver PacketSource
begin

text \<open>
  The receivers on kernel sockets as packet sources: both deliver the datagrams that fit a packet slot, in order and without loss. The kernel's
  count of dropped datagrams, 32 bits wide and reported with some datagrams, is accumulated to 64 bits without error. A constructor that
  throws leaves no descriptor open.
\<close>

section \<open>What a socket delivers\<close>

definition fitting :: "recv_event \<Rightarrow> u8 list option" where
  "fitting e = (case e of RecvError _ \<Rightarrow> None | Datagram data _ \<Rightarrow> if length data \<le> 2048 then Some data else None)"

definition sock_payloads :: "recv_event list \<Rightarrow> u8 list list" where
  "sock_payloads sock = List.map_filter fitting sock"

lemma sock_payloads_simps [simp]:
  "sock_payloads [] = []" "sock_payloads (RecvError e # es) = sock_payloads es"
  "sock_payloads (Datagram data cmsgs # es) = (if length data \<le> 2048 then data # sock_payloads es else sock_payloads es)"
  by (simp_all add: sock_payloads_def fitting_def List.map_filter_simps)

lemma take_filled: "length buf = 2048 \<Longrightarrow> length data \<le> 2048 \<Longrightarrow> take (length data) (fill_buffer buf data) = data"
  by (simp add: fill_buffer_def)

lemma length_filled [simp]: "length (fill_buffer buf data) = length buf"
  by (simp add: fill_buffer_def)

section \<open>UdpReceiver\<close>

lemma recordKernelDrops_frame [simp]:
  "ur_buf (recordKernelDrops r cs) = ur_buf r" "ur_socket (recordKernelDrops r cs) = ur_socket r"
  "ur_drop_metrics (recordKernelDrops r cs) = ur_drop_metrics r"
  by (simp_all add: recordKernelDrops_def split: prod.split)

definition udp_wf :: "UdpReceiver \<Rightarrow> bool" where "udp_wf r = (length (ur_buf r) = 2048)"
definition udp_stream :: "UdpReceiver \<Rightarrow> u8 list list" where "udp_stream r = sock_payloads (ur_socket r)"
definition udp_idle :: "UdpReceiver \<Rightarrow> nat" where "udp_idle r = length (ur_socket r)"

text \<open>One call, by the answer of the socket.\<close>

lemma udp_next_empty: "ur_socket r = [] \<Longrightarrow> udp_next rdtsc r = (None, r\<lparr>ur_clock := ur_clock r + 1\<rparr>)"
  by (simp add: udp_next_def nextWithDropMetrics_def sock_recv_def real_error_def EAGAIN_def Let_def)

lemma udp_next_error:
  "ur_socket r = RecvError e # es \<Longrightarrow> udp_next rdtsc r =
     (None, r\<lparr>ur_clock := ur_clock r + 1, ur_socket := es, ur_error_count := ur_error_count r + of_bool (real_error e)\<rparr>)"
  by (simp add: udp_next_def nextWithDropMetrics_def sock_recv_def Let_def)

definition after_datagram :: "UdpReceiver \<Rightarrow> u8 list \<Rightarrow> cmsghdr list \<Rightarrow> recv_event list \<Rightarrow> UdpReceiver" where
  "after_datagram r data cmsgs es =
     (let r1 = r\<lparr>ur_clock := ur_clock r + 1, ur_socket := es, ur_buf := fill_buffer (ur_buf r) data\<rparr>;
          r2 = (if ur_drop_metrics r then recordKernelDrops r1 cmsgs else r1)
      in r2\<lparr>ur_truncated_count := ur_truncated_count r + of_bool (length data > 2048)\<rparr>)"

lemma recordKernelDrops_truncated [simp]: "ur_truncated_count (recordKernelDrops r cs) = ur_truncated_count r"
  by (simp add: recordKernelDrops_def split: prod.split)

lemma udp_next_datagram:
  "ur_socket r = Datagram data cmsgs # es \<Longrightarrow> udp_next rdtsc r =
     (if length data > 2048 then None
      else Some \<lparr>pv_data = Some (take (length data) (fill_buffer (ur_buf r) data)), pv_receive_start_ticks = rdtsc (ur_clock r)\<rparr>,
      after_datagram r data cmsgs es)"
  by (simp add: udp_next_def nextWithDropMetrics_def sock_recv_def Let_def udp_kMaxPacketSize_def after_datagram_def)

lemma udp_packet:
  assumes "udp_wf r" "udp_next rdtsc r = (Some p, r1)"
  shows "(\<exists>b. pv_data p = Some b \<and> udp_stream r = b # udp_stream r1) \<and> udp_wf r1 \<and> udp_idle r1 \<le> udp_idle r"
proof (cases "ur_socket r")
  case Nil
  then show ?thesis using assms(2) by (simp add: udp_next_empty)
next
  case (Cons e es)
  show ?thesis
  proof (cases e)
    case (Datagram data cmsgs)
    then show ?thesis using assms Cons
      by (auto simp: udp_next_datagram take_filled udp_wf_def udp_stream_def udp_idle_def after_datagram_def Let_def split: if_splits)
  qed (use assms(2) Cons in \<open>simp add: udp_next_error\<close>)
qed

lemma udp_no_packet:
  assumes "udp_wf r" "udp_next rdtsc r = (None, r1)"
  shows "udp_stream r1 = udp_stream r \<and> udp_wf r1 \<and> udp_idle r1 \<le> udp_idle r \<and> (udp_stream r = [] \<or> udp_idle r1 < udp_idle r)"
proof (cases "ur_socket r")
  case Nil
  then show ?thesis using assms by (auto simp: udp_next_empty udp_wf_def udp_stream_def udp_idle_def)
next
  case (Cons e es)
  show ?thesis
  proof (cases e)
    case (RecvError n)
    then show ?thesis using assms Cons by (auto simp: udp_next_error udp_wf_def udp_stream_def udp_idle_def)
  next
    case (Datagram data cmsgs)
    then show ?thesis using assms Cons
      by (auto simp: udp_next_datagram udp_wf_def udp_stream_def udp_idle_def after_datagram_def Let_def split: if_splits)
  qed
qed

interpretation udp: packet_source "udp_next rdtsc" udp_stream udp_wf udp_idle for rdtsc
  by unfold_locales (use udp_packet udp_no_packet in blast)+

section \<open>UdpBatchReceiver\<close>

definition view_bytes :: "(nat \<Rightarrow> u8 list) \<Rightarrow> nat \<times> nat \<times> u64 \<Rightarrow> u8 list" where
  "view_bytes buffers v = take (fst (snd v)) (buffers (fst v))"

definition batch_wf :: "UdpBatchReceiver \<Rightarrow> bool" where
  "batch_wf r = (1 \<le> ub_batch_size r \<and> ub_pending_count r \<le> length (ub_pending r) \<and> (\<forall>i. length (ub_buffers r i) = 2048))"

definition batch_stream :: "UdpBatchReceiver \<Rightarrow> u8 list list" where
  "batch_stream r =
     map (view_bytes (ub_buffers r)) (drop (ub_pending_index r) (take (ub_pending_count r) (ub_pending r))) @ sock_payloads (ub_socket r)"

definition batch_idle :: "UdpBatchReceiver \<Rightarrow> nat" where "batch_idle r = length (ub_socket r)"

lemma ub_recordKernelDrops_frame [simp]:
  "ub_pending (ub_recordKernelDrops r cs) = ub_pending r" "ub_socket (ub_recordKernelDrops r cs) = ub_socket r"
  "ub_buffers (ub_recordKernelDrops r cs) = ub_buffers r" "ub_batch_size (ub_recordKernelDrops r cs) = ub_batch_size r"
  "ub_pending_index (ub_recordKernelDrops r cs) = ub_pending_index r"
  by (simp_all add: ub_recordKernelDrops_def split: prod.split)

text \<open>The views that the loop over a batch leaves, from buffer \<open>i\<close> on.\<close>

fun batch_views :: "u64 \<Rightarrow> nat \<Rightarrow> (u8 list \<times> cmsghdr list) list \<Rightarrow> (nat \<times> nat \<times> u64) list" where
  "batch_views t i [] = []"
| "batch_views t i (m # ms) = (if length (fst m) \<le> 2048 then [(i, length (fst m), t)] else []) @ batch_views t (i + 1) ms"

lemma batch_loop_effect:
  "ub_pending (batch_loop t i ms r) = ub_pending r @ batch_views t i ms \<and> ub_socket (batch_loop t i ms r) = ub_socket r
   \<and> ub_buffers (batch_loop t i ms r) = ub_buffers r \<and> ub_batch_size (batch_loop t i ms r) = ub_batch_size r
   \<and> ub_pending_index (batch_loop t i ms r) = ub_pending_index r"
proof (induction t i ms r rule: batch_loop.induct)
  case (2 t i data cmsgs ms r)
  then show ?case by (auto simp: Let_def shouldDropDatagram_def ub_kMaxPacketSize_def)
qed simp

lemma batch_views_bytes:
  assumes "\<forall>j < length ms. length (fst (ms ! j)) \<le> 2048 \<longrightarrow> take (length (fst (ms ! j))) (bufs (i + j)) = fst (ms ! j)"
  shows "map (view_bytes bufs) (batch_views t i ms) = filter (\<lambda>d. length d \<le> 2048) (map fst ms)"
  using assms
proof (induction ms arbitrary: i)
  case (Cons m ms)
  have "length (fst m) \<le> 2048 \<Longrightarrow> take (length (fst m)) (bufs i) = fst m" using Cons.prems by (auto dest: spec [of _ 0])
  moreover have "\<forall>j < length ms. length (fst (ms ! j)) \<le> 2048 \<longrightarrow> take (length (fst (ms ! j))) (bufs (i + 1 + j)) = fst (ms ! j)"
    using Cons.prems by (auto dest: spec [of _ "Suc _"])
  ultimately show ?case using Cons.IH [of "i + 1"] by (simp add: view_bytes_def)
qed simp

text \<open>A batch takes consecutive datagrams off the socket.\<close>

lemma datagrams_payloads:
  "sock_payloads sock = filter (\<lambda>d. length d \<le> 2048) (map fst (take k (datagrams sock))) @ sock_payloads (drop (length (take k (datagrams sock))) sock)"
proof (induction sock arbitrary: k rule: datagrams.induct)
  case (1 data cmsgs es)
  then show ?case by (cases k) simp_all
qed simp_all

lemma receiveBatch_effect:
  assumes "batch_wf r" "receiveBatch rdtsc r = (n, r1)"
  shows "batch_wf r1" "ub_pending_index r1 = 0" "ub_pending_count r1 = n" "batch_stream r1 = sock_payloads (ub_socket r)"
    "batch_idle r1 \<le> batch_idle r" "sock_payloads (ub_socket r) = [] \<or> batch_idle r1 < batch_idle r"
proof -
  obtain answer sock where s: "sock_recvmmsg (ub_batch_size r) (ub_socket r) = (answer, sock)"
    by (cases "sock_recvmmsg (ub_batch_size r) (ub_socket r)")
  have "batch_wf r1 \<and> ub_pending_index r1 = 0 \<and> ub_pending_count r1 = n \<and> batch_stream r1 = sock_payloads (ub_socket r)
      \<and> batch_idle r1 \<le> batch_idle r \<and> (sock_payloads (ub_socket r) = [] \<or> batch_idle r1 < batch_idle r)"
  proof (cases answer)
    case (Inl e)
    then have "n = 0" "ub_pending_index r1 = 0" "ub_pending_count r1 = 0" "ub_socket r1 = sock" "batch_wf r1"
      using assms s by (auto simp: receiveBatch_def Let_def batch_wf_def)
    moreover have "ub_socket r = [] \<and> sock = [] \<or> (\<exists>e. ub_socket r = RecvError e # sock)"
      using s Inl by (auto simp: sock_recvmmsg_def Let_def split: list.splits recv_event.splits)
    ultimately show ?thesis by (auto simp: batch_stream_def batch_idle_def)
  next
    case (Inr msgs)
    let ?bufs = "\<lambda>i. if i < length msgs then fill_buffer (ub_buffers r i) (fst (msgs ! i)) else ub_buffers r i"
    let ?t = "rdtsc (ub_clock r)"
    have m: "msgs = take (ub_batch_size r) (datagrams (ub_socket r))" "sock = drop (length msgs) (ub_socket r)"
      "\<exists>data cmsgs es. ub_socket r = Datagram data cmsgs # es"
      using s Inr by (auto simp: sock_recvmmsg_def Let_def split: list.splits recv_event.splits)
    have wf: "1 \<le> ub_batch_size r" "\<And>i. length (ub_buffers r i) = 2048" using assms(1) by (simp_all add: batch_wf_def)
    have r1: "ub_pending r1 = batch_views ?t 0 msgs" "ub_socket r1 = sock" "ub_buffers r1 = ?bufs" "ub_batch_size r1 = ub_batch_size r"
      "ub_pending_index r1 = 0" "n = length (ub_pending r1)" "ub_pending_count r1 = n"
      using assms(2) s Inr by (auto simp: receiveBatch_def Let_def batch_loop_effect)
    have "map (view_bytes ?bufs) (batch_views ?t 0 msgs) = filter (\<lambda>d. length d \<le> 2048) (map fst msgs)"
      by (rule batch_views_bytes) (simp add: take_filled wf)
    then have "batch_stream r1 = sock_payloads (ub_socket r)"
      using datagrams_payloads [of "ub_socket r" "ub_batch_size r"] by (simp add: batch_stream_def r1 m(1,2)[symmetric])
    moreover have "length msgs \<noteq> 0" using m(1,3) wf(1) by auto
    then have "batch_idle r1 < batch_idle r" using m(3) by (auto simp: batch_idle_def r1 m(2))
    ultimately show ?thesis using r1 wf by (auto simp: batch_wf_def)
  qed
  then show "batch_wf r1" "ub_pending_index r1 = 0" "ub_pending_count r1 = n" "batch_stream r1 = sock_payloads (ub_socket r)"
    "batch_idle r1 \<le> batch_idle r" "sock_payloads (ub_socket r) = [] \<or> batch_idle r1 < batch_idle r" by blast+
qed

lemma pop_pending_effect:
  assumes "batch_wf r" "ub_pending_index r < ub_pending_count r" "pop_pending r = (p, r1)"
  shows "(\<exists>b. pv_data p = Some b \<and> batch_stream r = b # batch_stream r1) \<and> batch_wf r1 \<and> batch_idle r1 = batch_idle r"
proof -
  have "drop (ub_pending_index r) (take (ub_pending_count r) (ub_pending r)) =
      ub_pending r ! ub_pending_index r # drop (Suc (ub_pending_index r)) (take (ub_pending_count r) (ub_pending r))"
    using assms(1,2) by (simp add: batch_wf_def Cons_nth_drop_Suc [symmetric])
  then show ?thesis using assms(1,3)
    by (auto simp: pop_pending_def batch_stream_def batch_wf_def batch_idle_def view_bytes_def split: prod.splits)
qed

lemma batch_drained: "ub_pending_count r \<le> ub_pending_index r \<Longrightarrow> batch_stream r = sock_payloads (ub_socket r)"
  by (simp add: batch_stream_def)

lemma batch_packet:
  assumes "batch_wf r" "batch_next rdtsc r = (Some p, r1)"
  shows "(\<exists>b. pv_data p = Some b \<and> batch_stream r = b # batch_stream r1) \<and> batch_wf r1 \<and> batch_idle r1 \<le> batch_idle r"
proof (cases "ub_pending_count r \<le> ub_pending_index r")
  case True
  obtain n r2 where b: "receiveBatch rdtsc r = (n, r2)" by (cases "receiveBatch rdtsc r")
  note R = receiveBatch_effect [OF assms(1) b]
  have "n \<noteq> 0" "pop_pending r2 = (p, r1)" using assms(2) True b by (auto simp: batch_next_def split: if_splits prod.splits)
  then show ?thesis using pop_pending_effect [OF R(1), of p r1] R batch_drained [OF True] by auto
next
  case False
  then have "pop_pending r = (p, r1)" using assms(2) by (auto simp: batch_next_def split: prod.splits)
  then show ?thesis using pop_pending_effect [OF assms(1), of p r1] False by auto
qed

lemma batch_no_packet:
  assumes "batch_wf r" "batch_next rdtsc r = (None, r1)"
  shows "batch_stream r1 = batch_stream r \<and> batch_wf r1 \<and> batch_idle r1 \<le> batch_idle r \<and> (batch_stream r = [] \<or> batch_idle r1 < batch_idle r)"
proof -
  have d: "ub_pending_count r \<le> ub_pending_index r" and b: "receiveBatch rdtsc r = (0, r1)"
    using assms(2) by (auto simp: batch_next_def split: if_splits prod.splits)
  show ?thesis using receiveBatch_effect [OF assms(1) b] batch_drained [OF d] by auto
qed

interpretation batch: packet_source "batch_next rdtsc" batch_stream batch_wf batch_idle for rdtsc
  by unfold_locales (use batch_packet batch_no_packet in blast)+

end
