(* ===== verification/UdpReceiverProps.thy ===== *)
theory UdpReceiverProps
  imports UdpReceiverCorrect
begin

text \<open>
  Properties of the receivers on kernel sockets: delivery to the engine, the accounting of kernel drops, the batch interface against the
  single-packet interface, and descriptors. The two-line receivers follow in their own theory.
\<close>

section \<open>Delivery\<close>

lemma fresh_udp: "udp_wf (newUdpReceiver fd metrics sock)" "udp_stream (newUdpReceiver fd metrics sock) = sock_payloads sock"
  "udp_idle (newUdpReceiver fd metrics sock) = length sock"
  by (simp_all add: newUdpReceiver_def udp_wf_def udp_stream_def udp_idle_def udp_kMaxPacketSize_def)

lemma fresh_batch: "batch_wf (newUdpBatchReceiver fd k sock)" "batch_stream (newUdpBatchReceiver fd k sock) = sock_payloads sock"
  "batch_idle (newUdpBatchReceiver fd k sock) = length sock"
  by (simp_all add: newUdpBatchReceiver_def batch_wf_def batch_stream_def batch_idle_def ub_kMaxPacketSize_def)

lemma payloads_bound: "length (sock_payloads sock) \<le> length sock"
  by (induction sock) (auto simp: sock_payloads_def List.map_filter_simps split: option.split)

text \<open>The plain and the batching receiver deliver the same packets: opened on the same socket and called often enough, each hands out the
  datagrams of at most 2048 bytes, whole, in order and without loss, whatever the batch size and whatever errors come between.\<close>

theorem udp_receivers_agree:
  assumes "2 * length sock \<le> n"
  shows "payloads (fst (poll_source (udp_next rdtsc) n (newUdpReceiver fd metrics sock))) = map Some (sock_payloads sock)
    \<and> payloads (fst (poll_source (batch_next rdtsc') n (newUdpBatchReceiver fd' batch_size sock))) = map Some (sock_payloads sock)"
proof -
  have "length (sock_payloads sock) + length sock \<le> n" using assms payloads_bound [of sock] by simp
  then show ?thesis
    using udp.polled_all [OF fresh_udp(1) prod.collapse [symmetric], of fd metrics sock n rdtsc]
      batch.polled_all [OF fresh_batch(1) prod.collapse [symmetric], of fd' batch_size sock n rdtsc']
    by (simp add: fresh_udp fresh_batch)
qed

definition demo_socket :: "recv_event list" where
  "demo_socket = [Datagram [1, 2] [], RecvError 4, Datagram (replicate 2049 7) [], Datagram [3] []]"

theorem udp_receivers_agree_witness:
  "payloads (fst (poll_source (udp_next (\<lambda>_. 0)) 8 (newUdpReceiver 3 False demo_socket))) = [Some [1, 2], Some [3]]
    \<and> payloads (fst (poll_source (batch_next (\<lambda>_. 0)) 8 (newUdpBatchReceiver 4 2 demo_socket))) = [Some [1, 2], Some [3]]"
proof -
  have "sock_payloads demo_socket = [[1, 2], [3]]" by (simp add: demo_socket_def)
  moreover have "2 * length demo_socket \<le> 8" by (simp add: demo_socket_def)
  ultimately show ?thesis
    using udp_receivers_agree [of demo_socket 8 "\<lambda>_. 0" 3 False "\<lambda>_. 0" 4 2] by simp
qed

section \<open>Kernel drops\<close>

definition overflow_value :: "cmsghdr list \<Rightarrow> u32 option" where
  "overflow_value cs = map_option cmsg_value (List.find (\<lambda>c. cmsg_level c = SOL_SOCKET \<and> cmsg_type c = SO_RXQ_OVFL) cs)"

text \<open>Both branches of the accumulation add the difference modulo \<open>2 ^ 32\<close>.\<close>

lemma wrapped_difference:
  assumes "k < p"
  shows "(ucast (u32_max - p) + ucast k + 1 :: u64) = ucast (k - p :: u32)"
proof -
  have p: "unat p < 2 ^ 32" "unat k < unat p" using unsigned_less [of p, where 'a = nat] assms by (simp_all add: word_less_nat_alt)
  have "p \<le> u32_max" using p(1) by (simp add: word_le_nat_alt)
  then have a: "unat (u32_max - p) = 2 ^ 32 - 1 - unat p" by (simp add: unat_sub)
  have "unat (k - p) = 2 ^ 32 + unat k - unat p" using p by (simp add: unat_sub_if_size word_size)
  moreover have "unat (ucast (u32_max - p) + ucast k + 1 :: u64) = 2 ^ 32 - 1 - unat p + unat k + 1"
    using a p by (simp add: unat_word_ariths)
  ultimately show ?thesis using p by (simp add: word_unat_eq_iff)
qed

lemma record_drops_exact:
  "record_drops drops previous cs =
     (case overflow_value cs of None \<Rightarrow> (drops, previous) | Some k \<Rightarrow> (drops + ucast (k - previous), k))"
  by (induction cs) (auto simp: overflow_value_def Let_def wrapped_difference not_le)

text \<open>The kernel's own count at each datagram, an unbounded number: it never falls, it grows by less than \<open>2 ^ 32\<close> between two datagrams, and
  a datagram carries its low 32 bits, or nothing while it is zero.\<close>

fun drops_reported :: "nat \<Rightarrow> recv_event list \<Rightarrow> nat list \<Rightarrow> bool" where
  "drops_reported p [] totals = (totals = [])"
| "drops_reported p (RecvError e # es) totals = drops_reported p es totals"
| "drops_reported p (Datagram data cs # es) totals =
     (case totals of [] \<Rightarrow> False
      | t # ts \<Rightarrow> p \<le> t \<and> t < p + 2 ^ 32 \<and> overflow_value cs = (if t = 0 then None else Some (of_nat t)) \<and> drops_reported t es ts)"

definition drops_known :: "nat \<Rightarrow> u64 \<Rightarrow> u32 \<Rightarrow> recv_event list \<Rightarrow> nat list \<Rightarrow> bool" where
  "drops_known p drops previous es totals = (drops = of_nat p \<and> previous = of_nat p \<and> drops_reported p es totals)"

lemma ucast_difference:
  assumes "p \<le> t" "t < p + 2 ^ 32"
  shows "(of_nat p + ucast (of_nat t - of_nat p :: u32) :: u64) = of_nat t"
proof -
  obtain d where d: "t = p + d" "d < 2 ^ 32" using assms by (metis add_less_cancel_left le_Suc_ex)
  have "unat (ucast (of_nat d :: u32) :: u64) = unat (of_nat d :: u64)" using d(2) by (simp add: unat_of_nat)
  then have "(ucast (of_nat d :: u32) :: u64) = of_nat d" by (simp only: word_unat_eq_iff)
  then show ?thesis using d(1) by simp
qed

lemma drops_datagram:
  assumes "drops_known p drops previous (Datagram data cs # es) totals" "record_drops drops previous cs = (drops1, previous1)"
  obtains t ts where "totals = t # ts" "drops_known t drops1 previous1 es ts"
proof -
  obtain t ts where t: "totals = t # ts" "p \<le> t" "t < p + 2 ^ 32" "overflow_value cs = (if t = 0 then None else Some (of_nat t))"
    "drops_reported t es ts" "drops = of_nat p" "previous = of_nat p"
    using assms(1) by (auto simp: drops_known_def split: list.splits)
  then have "drops_known t drops1 previous1 es ts"
    using assms(2) ucast_difference [of p t] by (auto simp: record_drops_exact drops_known_def split: if_splits)
  then show ?thesis using t(1) that by blast
qed

text \<open>What the two counters know after some of the datagrams.\<close>

definition drops_so_far :: "nat list \<Rightarrow> u64 \<Rightarrow> u32 \<Rightarrow> recv_event list \<Rightarrow> bool" where
  "drops_so_far totals drops previous es = (\<exists>past left. totals = past @ left \<and> drops_known (last (0 # past)) drops previous es left)"

lemma so_far_error: "drops_so_far totals drops previous (RecvError e # es) = drops_so_far totals drops previous es"
  by (simp add: drops_so_far_def drops_known_def)

lemma so_far_datagram:
  assumes "drops_so_far totals drops previous (Datagram data cs # es)" "record_drops drops previous cs = (drops1, previous1)"
  shows "drops_so_far totals drops1 previous1 es"
proof -
  obtain past left where k: "totals = past @ left" "drops_known (last (0 # past)) drops previous (Datagram data cs # es) left"
    using assms(1) by (auto simp: drops_so_far_def)
  obtain t ts where t: "left = t # ts" "drops_known t drops1 previous1 es ts" using drops_datagram [OF k(2) assms(2)] .
  then show ?thesis unfolding drops_so_far_def using k(1) by (intro exI [of _ "past @ [t]"] exI [of _ ts]) simp
qed

definition datagrams_left :: "recv_event list \<Rightarrow> nat" where
  "datagrams_left es = length (filter (\<lambda>e. case e of Datagram _ _ \<Rightarrow> True | RecvError _ \<Rightarrow> False) es)"

lemma reported_length: "drops_reported p es totals \<Longrightarrow> length totals = datagrams_left es"
  by (induction p es totals rule: drops_reported.induct) (auto simp: datagrams_left_def split: list.splits)

lemma so_far_exact:
  assumes "drops_so_far totals drops previous es"
  shows "drops = of_nat (last (0 # take (length totals - datagrams_left es) totals))"
proof -
  obtain past left where k: "totals = past @ left" "drops_known (last (0 # past)) drops previous es left"
    using assms by (auto simp: drops_so_far_def)
  then have "length left = datagrams_left es" by (auto simp: drops_known_def dest: reported_length)
  then show ?thesis using k by (simp add: drops_known_def)
qed

lemma so_far_start: "drops_reported 0 es totals \<Longrightarrow> drops_so_far totals 0 0 es"
  unfolding drops_so_far_def by (intro exI [of _ "[]"] exI [of _ totals]) (simp add: drops_known_def)

text \<open>Every call of the receivers keeps it.\<close>

definition udp_drops :: "nat list \<Rightarrow> UdpReceiver \<Rightarrow> bool" where
  "udp_drops totals r = (ur_drop_metrics r \<and> drops_so_far totals (ur_kernel_drop_count r) (ur_last_kernel_drop_count r) (ur_socket r))"

lemma udp_drops_next:
  assumes "udp_drops totals r"
  shows "udp_drops totals (snd (udp_next rdtsc r))"
proof (cases "ur_socket r")
  case Nil
  then show ?thesis using assms by (simp add: udp_next_empty udp_drops_def)
next
  case (Cons e es)
  show ?thesis
  proof (cases e)
    case (RecvError n)
    then show ?thesis using assms Cons by (simp add: udp_next_error udp_drops_def so_far_error)
  next
    case (Datagram data cs)
    obtain drops1 previous1 where d: "record_drops (ur_kernel_drop_count r) (ur_last_kernel_drop_count r) cs = (drops1, previous1)"
      by (cases "record_drops (ur_kernel_drop_count r) (ur_last_kernel_drop_count r) cs")
    have "drops_so_far totals drops1 previous1 es"
      using assms Cons Datagram by (intro so_far_datagram [OF _ d, of _ data]) (simp add: udp_drops_def)
    then show ?thesis using assms Cons Datagram d
      by (simp add: udp_next_datagram udp_drops_def after_datagram_def recordKernelDrops_def Let_def)
  qed
qed

definition batch_drops :: "nat list \<Rightarrow> UdpBatchReceiver \<Rightarrow> bool" where
  "batch_drops totals r = drops_so_far totals (ub_kernel_drop_count r) (ub_last_kernel_drop_count r) (ub_socket r)"

lemma batch_loop_drops:
  assumes "drops_so_far totals (ub_kernel_drop_count r) (ub_last_kernel_drop_count r) (map (\<lambda>(d, c). Datagram d c) ms @ es)"
  shows "drops_so_far totals (ub_kernel_drop_count (batch_loop t i ms r)) (ub_last_kernel_drop_count (batch_loop t i ms r)) es"
  using assms
proof (induction t i ms r rule: batch_loop.induct)
  case (2 t i data cs ms r)
  obtain drops1 previous1 where d: "record_drops (ub_kernel_drop_count r) (ub_last_kernel_drop_count r) cs = (drops1, previous1)"
    by (cases "record_drops (ub_kernel_drop_count r) (ub_last_kernel_drop_count r) cs")
  then show ?case using "2.IH" so_far_datagram [OF _ d] "2.prems"
    by (auto simp: Let_def ub_recordKernelDrops_def)
qed simp

lemma datagrams_split: "sock = map (\<lambda>(d, c). Datagram d c) (take k (datagrams sock)) @ drop (length (take k (datagrams sock))) sock"
proof (induction sock arbitrary: k rule: datagrams.induct)
  case (1 data cmsgs es)
  then show ?case by (cases k) simp_all
qed simp_all

lemma batch_drops_receive:
  assumes "batch_drops totals r"
  shows "batch_drops totals (snd (receiveBatch rdtsc r))"
proof (cases "ub_socket r")
  case Nil
  then show ?thesis using assms by (simp add: receiveBatch_def sock_recvmmsg_def batch_drops_def Let_def)
next
  case (Cons e es)
  show ?thesis
  proof (cases e)
    case (RecvError n)
    then show ?thesis using assms Cons by (simp add: receiveBatch_def sock_recvmmsg_def batch_drops_def Let_def so_far_error)
  next
    case (Datagram data cs)
    define ms where "ms = take (ub_batch_size r) (datagrams (ub_socket r))"
    have "ub_socket r = map (\<lambda>(d, c). Datagram d c) ms @ drop (length ms) (ub_socket r)"
      unfolding ms_def by (rule datagrams_split)
    then have "drops_so_far totals (ub_kernel_drop_count r) (ub_last_kernel_drop_count r) (map (\<lambda>(d, c). Datagram d c) ms @ drop (length ms) (ub_socket r))"
      using assms by (simp add: batch_drops_def)
    moreover have "sock_recvmmsg (ub_batch_size r) (ub_socket r) = (Inr ms, drop (length ms) (ub_socket r))"
      using Cons Datagram by (simp add: sock_recvmmsg_def ms_def Let_def)
    ultimately show ?thesis by (simp add: receiveBatch_def batch_drops_def Let_def batch_loop_drops batch_loop_effect)
  qed
qed

lemma batch_drops_next:
  assumes "batch_drops totals r"
  shows "batch_drops totals (snd (batch_next rdtsc r))"
  using assms batch_drops_receive [OF assms, of rdtsc]
  by (auto simp: batch_next_def pop_pending_def Let_def batch_drops_def split: prod.splits)

lemma poll_source_keeps:
  assumes "\<And>s. P s \<Longrightarrow> P (snd (nxt s))" "P s"
  shows "P (snd (poll_source nxt n s))"
  using assms(2) by (induction n arbitrary: s) (simp_all add: Let_def case_prod_beta assms(1))

text \<open>C28. The accumulated count of datagrams lost in the kernel is exact at every moment, for both receivers: it is the kernel's own count at the last datagram
  taken from the socket (modulo \<open>2 ^ 64\<close>), although only its low 32 bits are reported and they wrap around.\<close>

theorem kernel_drops_exact:
  assumes "drops_reported 0 sock totals"
  shows "(let r = snd (poll_source (udp_next rdtsc) n (newUdpReceiver fd True sock))
      in ur_kernel_drop_count r = of_nat (last (0 # take (length totals - datagrams_left (ur_socket r)) totals)))
    \<and> (let r = snd (poll_source (batch_next rdtsc) n (newUdpBatchReceiver fd batch_size sock))
      in ub_kernel_drop_count r = of_nat (last (0 # take (length totals - datagrams_left (ub_socket r)) totals)))"
proof -
  have "udp_drops totals (newUdpReceiver fd True sock)" "batch_drops totals (newUdpBatchReceiver fd batch_size sock)"
    using so_far_start [OF assms] by (simp_all add: udp_drops_def batch_drops_def newUdpReceiver_def newUdpBatchReceiver_def)
  then have "udp_drops totals (snd (poll_source (udp_next rdtsc) n (newUdpReceiver fd True sock)))"
    "batch_drops totals (snd (poll_source (batch_next rdtsc) n (newUdpBatchReceiver fd batch_size sock)))"
    by (auto intro: poll_source_keeps udp_drops_next batch_drops_next)
  then show ?thesis unfolding Let_def udp_drops_def batch_drops_def using so_far_exact by blast
qed

definition overflow :: "u32 \<Rightarrow> cmsghdr list" where
  "overflow k = [\<lparr>cmsg_level = 0, cmsg_type = 8, cmsg_value = 9\<rparr>, \<lparr>cmsg_level = SOL_SOCKET, cmsg_type = SO_RXQ_OVFL, cmsg_value = k\<rparr>]"

definition demo_drop_socket :: "recv_event list" where
  "demo_drop_socket = [Datagram [1] (overflow 4294967290), RecvError 11, Datagram [2] (overflow 5)]"

theorem kernel_drops_exact_witness:
  "ur_kernel_drop_count (snd (poll_source (udp_next (\<lambda>_. 0)) 3 (newUdpReceiver 3 True demo_drop_socket))) = 4294967301"
proof -
  have r: "drops_reported 0 demo_drop_socket [4294967290, 4294967301]"
    by (simp add: demo_drop_socket_def overflow_value_def overflow_def SOL_SOCKET_def SO_RXQ_OVFL_def)
  have "datagrams_left (ur_socket (snd (poll_source (udp_next (\<lambda>_. 0)) 3 (newUdpReceiver 3 True demo_drop_socket)))) = 0"
    by code_simp
  then show ?thesis using kernel_drops_exact [OF r, of "\<lambda>_. 0" 3 3 1] by (simp add: Let_def)
qed

section \<open>Descriptors\<close>

lemma udp_descriptors:
  "case udpConstruct sk getenv ip port sock fds of (Inl e, fds1) \<Rightarrow> fds1 = fds
    | (Inr r, fds1) \<Rightarrow> 0 \<le> ur_fd r \<and> fds1 = ur_fd r # fds \<and> udpDestroy r fds1 = fds"
  by (auto simp: udpConstruct_def Let_def udpDestroy_def newUdpReceiver_def split: option.split sum.split if_splits)

lemma batch_descriptors:
  "case udpBatchConstruct sk ip port batch_size sock fds of (Inl e, fds1) \<Rightarrow> fds1 = fds
    | (Inr r, fds1) \<Rightarrow> 0 \<le> ub_fd r \<and> fds1 = ub_fd r # fds \<and> udpBatchDestroy r fds1 = fds \<and> 1 \<le> ub_batch_size r \<and> ub_batch_size r \<le> 64"
  by (auto simp: udpBatchConstruct_def Let_def udpBatchDestroy_def newUdpBatchReceiver_def kMaxBatchSize_def split: option.split if_splits)

text \<open>No constructor leaks a descriptor. When one of a single line throws, the descriptors of the process are those it found; when it succeeds there is exactly one
  more, which the destructor closes, and a batch size between 1 and 64. When a two-line constructor throws, for either of its lines, the
  descriptors are those it found; when it succeeds there are exactly two more, one for each line.\<close>

theorem descriptors_balanced:
  "(case udpConstruct sk getenv ip port sock fds of (Inl e, fds1) \<Rightarrow> fds1 = fds
    | (Inr r, fds1) \<Rightarrow> 0 \<le> ur_fd r \<and> fds1 = ur_fd r # fds \<and> udpDestroy r fds1 = fds)
   \<and> (case udpBatchConstruct sk ip port batch_size sock fds of (Inl e, fds1) \<Rightarrow> fds1 = fds
    | (Inr r, fds1) \<Rightarrow> 0 \<le> ub_fd r \<and> fds1 = ub_fd r # fds \<and> udpBatchDestroy r fds1 = fds \<and> 1 \<le> ub_batch_size r \<and> ub_batch_size r \<le> 64)
   \<and> (case dualConstruct (udpConstruct sk getenv ip port sock) (udpConstruct sk' getenv ip' port' sock') udpDestroy fds of
        (Inl e, fds1) \<Rightarrow> fds1 = fds | (Inr d, fds1) \<Rightarrow> fds1 = ur_fd (du_receiver_b d) # ur_fd (du_receiver_a d) # fds)
   \<and> (case dualConstruct (udpBatchConstruct sk ip port batch_size sock) (udpBatchConstruct sk' ip' port' batch_size sock') udpBatchDestroy fds of
        (Inl e, fds1) \<Rightarrow> fds1 = fds | (Inr d, fds1) \<Rightarrow> fds1 = ub_fd (du_receiver_b d) # ub_fd (du_receiver_a d) # fds)"
proof (intro conjI)
  show "case dualConstruct (udpConstruct sk getenv ip port sock) (udpConstruct sk' getenv ip' port' sock') udpDestroy fds of
      (Inl e, fds1) \<Rightarrow> fds1 = fds | (Inr d, fds1) \<Rightarrow> fds1 = ur_fd (du_receiver_b d) # ur_fd (du_receiver_a d) # fds"
    using udp_descriptors [where sk = sk and getenv = getenv and ip = ip and port = port and sock = sock and fds = fds]
      udp_descriptors [where sk = sk' and getenv = getenv and ip = ip' and port = port' and sock = sock' and fds = "snd (udpConstruct sk getenv ip port sock fds)"]
    by (auto simp: dualConstruct_def newDualReceiver_def split: prod.splits sum.splits)
  show "case dualConstruct (udpBatchConstruct sk ip port batch_size sock) (udpBatchConstruct sk' ip' port' batch_size sock') udpBatchDestroy fds of
      (Inl e, fds1) \<Rightarrow> fds1 = fds | (Inr d, fds1) \<Rightarrow> fds1 = ub_fd (du_receiver_b d) # ub_fd (du_receiver_a d) # fds"
    using batch_descriptors [where sk = sk and ip = ip and port = port and batch_size = batch_size and sock = sock and fds = fds]
      batch_descriptors [where sk = sk' and ip = ip' and port = port' and batch_size = batch_size and sock = sock'
        and fds = "snd (udpBatchConstruct sk ip port batch_size sock fds)"]
    by (auto simp: dualConstruct_def newDualReceiver_def split: prod.splits sum.splits)
qed (rule udp_descriptors batch_descriptors)+

section \<open>Whole batches\<close>

text \<open>Copying views is popping them.\<close>

primrec pop_many :: "nat \<Rightarrow> UdpBatchReceiver \<Rightarrow> PacketView list \<times> UdpBatchReceiver" where
  "pop_many 0 r = ([], r)"
| "pop_many (Suc k) r = (let (p, r1) = pop_pending r; (ps, r2) = pop_many k r1 in (p # ps, r2))"

lemma pop_pending_index:
  "ub_pending_index (snd (pop_pending r)) = Suc (ub_pending_index r)" "ub_pending_count (snd (pop_pending r)) = ub_pending_count r"
  by (simp_all add: pop_pending_def split: prod.split)

lemma pop_many_index:
  "ub_pending_index (snd (pop_many k r)) = ub_pending_index r + k" "ub_pending_count (snd (pop_many k r)) = ub_pending_count r"
  "length (fst (pop_many k r)) = k"
  by (induction k arbitrary: r) (simp_all add: Let_def case_prod_beta pop_pending_index)

lemma copy_loop_pops:
  "copy_loop k r ps = (let (qs, r1) = pop_many (min k (ub_pending_count r - ub_pending_index r)) r in (ps @ qs, r1))"
proof (induction k arbitrary: r ps)
  case (Suc k)
  show ?case
  proof (cases "ub_pending_index r < ub_pending_count r")
    case True
    then have "min (Suc k) (ub_pending_count r - ub_pending_index r) = Suc (min k (ub_pending_count r - Suc (ub_pending_index r)))" by simp
    then show ?thesis using True Suc [of "snd (pop_pending r)"] by (simp add: Let_def case_prod_beta pop_pending_index)
  qed simp
qed simp

text \<open>Asking for one packet at a time while views are pending is popping them too.\<close>

lemma poll_pops:
  "k \<le> ub_pending_count r - ub_pending_index r \<Longrightarrow>
     poll_source (batch_next rdtsc) k r = (map Some (fst (pop_many k r)), snd (pop_many k r))"
proof (induction k arbitrary: r)
  case (Suc k)
  have "\<not> ub_pending_count r \<le> ub_pending_index r" using Suc.prems by simp
  then have "batch_next rdtsc r = (Some (fst (pop_pending r)), snd (pop_pending r))"
    by (simp add: batch_next_def Let_def case_prod_beta)
  then show ?case using Suc.IH [of "snd (pop_pending r)"] Suc.prems by (simp add: Let_def case_prod_beta pop_pending_index)
qed simp

text \<open>A round that finds pending views copies as many as there is room for, and the next round ends the loop.\<close>

lemma outer_pending:
  assumes "ub_pending_index r < ub_pending_count r" "1 \<le> max_packets"
  defines "k \<equiv> min max_packets (ub_pending_count r - ub_pending_index r)"
  shows "(let (packets1, r2) = copy_loop (max_packets - length []) r [] in batch_outer rdtsc 1 max_packets r2 packets1) = Some (pop_many k r)"
proof -
  have "1 \<le> k" using assms by simp
  then have "fst (pop_many k r) \<noteq> []" using pop_many_index(3) [of k r] by auto
  moreover have "k < max_packets \<Longrightarrow> ub_pending_count r \<le> ub_pending_index r + k" using assms by auto
  ultimately show ?thesis using pop_many_index [of k r]
    by (auto simp: copy_loop_pops k_def [symmetric] Let_def case_prod_beta One_nat_def)
qed

text \<open>A batch is what single calls give: \<open>nextBatch\<close> always returns, its packets are those that as many calls of \<open>next\<close> return, with the same state
  afterwards, and it comes back empty only where \<open>next\<close> has no packet either.\<close>

theorem next_batch_is_next:
  assumes "batch_wf r" "1 \<le> max_packets"
  shows "\<exists>packets r1. nextBatch rdtsc True max_packets r = Some (packets, r1) \<and> length packets \<le> max_packets
    \<and> (if packets = [] then batch_next rdtsc r = (None, r1)
       else poll_source (batch_next rdtsc) (length packets) r = (map Some packets, r1))"
proof (cases "ub_pending_index r < ub_pending_count r")
  case True
  define k where "k = min max_packets (ub_pending_count r - ub_pending_index r)"
  have "nextBatch rdtsc True max_packets r = Some (pop_many k r)"
    using outer_pending [OF True assms(2), of rdtsc] True assms(2) by (simp add: nextBatch_def numeral_2_eq_2 k_def)
  moreover have "1 \<le> k" "k \<le> max_packets" "k \<le> ub_pending_count r - ub_pending_index r" using True assms(2) by (simp_all add: k_def)
  ultimately show ?thesis using poll_pops [of k r rdtsc] pop_many_index(3) [of k r]
    by (intro exI [of _ "fst (pop_many k r)"] exI [of _ "snd (pop_many k r)"]) auto
next
  case False
  obtain n r1 where b: "receiveBatch rdtsc r = (n, r1)" by (cases "receiveBatch rdtsc r")
  note R = receiveBatch_effect [OF assms(1) b]
  show ?thesis
  proof (cases "n = 0")
    case True
    then have "nextBatch rdtsc True max_packets r = Some ([], r1)" using False assms(2) b by (simp add: nextBatch_def numeral_2_eq_2)
    moreover have "batch_next rdtsc r = (None, r1)" using False True b by (simp add: batch_next_def)
    ultimately show ?thesis by auto
  next
    case n: False
    define k where "k = min max_packets n"
    have pend: "ub_pending_index r1 < ub_pending_count r1" using R(2,3) n by simp
    have k: "1 \<le> k" "k \<le> max_packets" "k \<le> ub_pending_count r1 - ub_pending_index r1" using n assms(2) R(2,3) by (simp_all add: k_def)
    have "nextBatch rdtsc True max_packets r = Some (pop_many k r1)"
      using outer_pending [OF pend assms(2), of rdtsc] False assms(2) b n R(2,3) by (simp add: nextBatch_def numeral_2_eq_2 k_def)
    moreover have "batch_next rdtsc r = batch_next rdtsc r1" using False b n pend by (simp add: batch_next_def)
    then have "poll_source (batch_next rdtsc) k r = poll_source (batch_next rdtsc) k r1" using k(1) by (cases k) simp_all
    ultimately show ?thesis using poll_pops [OF k(3), of rdtsc] pop_many_index(3) [of k r1] k
      by (intro exI [of _ "fst (pop_many k r1)"] exI [of _ "snd (pop_many k r1)"]) auto
  qed
qed

theorem next_batch_is_next_witness:
  "\<exists>packets r1. nextBatch (\<lambda>_. 0) True 5 (newUdpBatchReceiver 4 2 demo_socket) = Some (packets, r1) \<and> length packets \<le> 5
    \<and> (if packets = [] then batch_next (\<lambda>_. 0) (newUdpBatchReceiver 4 2 demo_socket) = (None, r1)
       else poll_source (batch_next (\<lambda>_. 0)) (length packets) (newUdpBatchReceiver 4 2 demo_socket) = (map Some packets, r1))"
  by (rule next_batch_is_next) (simp_all add: fresh_batch)

end
