(* ===== verification/DualReceiverCorrect.thy ===== *)
theory DualReceiverCorrect
  imports UdpReceiverProps
begin

text \<open>
  The receivers of two redundant lines, over any receivers that keep the contract of a packet source: what a line accepts is delivered in order and
  completely, the lines are interleaved, a line that has a packet waits for at most one packet of the other, and the counters
  tell how many packets each line gave.
\<close>

section \<open>One call\<close>

text \<open>What a call that asks the lines does to the two streams and counters.\<close>

definition line_step :: "('r \<Rightarrow> u8 list list) \<Rightarrow> PacketView option \<Rightarrow> 'r DualReceiver \<Rightarrow> 'r DualReceiver \<Rightarrow> bool" where
  "line_step stream answer d d1 =
     (let a = stream (du_receiver_a d); a1 = stream (du_receiver_a d1); b = stream (du_receiver_b d); b1 = stream (du_receiver_b d1)
      in case answer of
           None \<Rightarrow> a1 = a \<and> b1 = b \<and> du_packets_a d1 = du_packets_a d \<and> du_packets_b d1 = du_packets_b d
         | Some p \<Rightarrow> \<exists>x. pv_data p = Some x \<and>
             (a = x # a1 \<and> b1 = b \<and> du_packets_a d1 = du_packets_a d + 1 \<and> du_packets_b d1 = du_packets_b d \<or>
              b = x # b1 \<and> a1 = a \<and> du_packets_b d1 = du_packets_b d + 1 \<and> du_packets_a d1 = du_packets_a d))"

definition lines_wf :: "('r \<Rightarrow> bool) \<Rightarrow> 'r DualReceiver \<Rightarrow> bool" where
  "lines_wf ok d = (ok (du_receiver_a d) \<and> ok (du_receiver_b d))"

definition lines_idle :: "('r \<Rightarrow> nat) \<Rightarrow> 'r DualReceiver \<Rightarrow> nat" where
  "lines_idle idle d = idle (du_receiver_a d) + idle (du_receiver_b d)"

definition lines_left :: "('r \<Rightarrow> u8 list list) \<Rightarrow> 'r DualReceiver \<Rightarrow> nat" where
  "lines_left stream d = length (stream (du_receiver_a d)) + length (stream (du_receiver_b d))"

lemma line_step_none_trans:
  "line_step stream None d d1 \<Longrightarrow> line_step stream answer d1 d2 \<Longrightarrow> line_step stream answer d d2"
  by (cases answer) (simp_all add: line_step_def Let_def)

lemma line_step_order [simp]:
  "line_step stream answer d (d1\<lparr>du_next_a_first := f\<rparr>) = line_step stream answer d d1"
  "line_step stream None d d"
  by (cases answer; simp add: line_step_def Let_def)+

lemma line_step_left: "line_step stream (Some p) d d1 \<Longrightarrow> Suc (lines_left stream d1) = lines_left stream d"
  by (auto simp: line_step_def lines_left_def Let_def)

lemma line_step_none_left: "line_step stream None d d1 \<Longrightarrow> lines_left stream d1 = lines_left stream d"
  by (simp add: line_step_def lines_left_def Let_def)

lemma order_frame [simp]:
  "lines_wf ok (d\<lparr>du_next_a_first := f\<rparr>) = lines_wf ok d" "lines_idle idle (d\<lparr>du_next_a_first := f\<rparr>) = lines_idle idle d"
  by (simp_all add: lines_wf_def lines_idle_def)

text \<open>The contract of a call: the streams move by the packet returned, and a call without a packet makes progress on every line that still
  has something to give.\<close>

definition lines_correct ::
    "('r \<Rightarrow> u8 list list) \<Rightarrow> ('r \<Rightarrow> bool) \<Rightarrow> ('r \<Rightarrow> nat) \<Rightarrow> PacketView option \<Rightarrow> 'r DualReceiver \<Rightarrow> 'r DualReceiver \<Rightarrow> bool" where
  "lines_correct stream ok idle answer d d1 =
     (line_step stream answer d d1 \<and> lines_wf ok d1 \<and> lines_idle idle d1 \<le> lines_idle idle d)"

lemma lines_correct_trans:
  "lines_correct stream ok idle None d d1 \<Longrightarrow> lines_correct stream ok idle answer d1 d2 \<Longrightarrow> lines_correct stream ok idle answer d d2"
  by (auto simp: lines_correct_def intro: line_step_none_trans)

context packet_source
begin

lemma ask_lines:
  assumes "lines_wf wf d"
  shows "ask_a nxt d = (r, d1) \<Longrightarrow> lines_correct stream wf idle r d d1 \<and> du_receiver_b d1 = du_receiver_b d
      \<and> (r = None \<longrightarrow> stream (du_receiver_a d) = [] \<or> lines_idle idle d1 < lines_idle idle d)"
    "ask_b nxt d = (r, d1) \<Longrightarrow> lines_correct stream wf idle r d d1 \<and> du_receiver_a d1 = du_receiver_a d
      \<and> (r = None \<longrightarrow> stream (du_receiver_b d) = [] \<or> lines_idle idle d1 < lines_idle idle d)"
proof -
  have wf: "wf (du_receiver_a d)" "wf (du_receiver_b d)" using assms by (simp_all add: lines_wf_def)
  show "lines_correct stream wf idle r d d1 \<and> du_receiver_b d1 = du_receiver_b d
      \<and> (r = None \<longrightarrow> stream (du_receiver_a d) = [] \<or> lines_idle idle d1 < lines_idle idle d)" if asked: "ask_a nxt d = (r, d1)"
  proof (cases r)
    case None
    then show ?thesis using asked no_packet [OF wf(1)] wf
      by (auto simp: ask_a_def lines_correct_def line_step_def lines_wf_def lines_idle_def Let_def split: prod.splits)
  next
    case (Some p)
    then show ?thesis using asked packet [OF wf(1)] wf
      by (auto simp: ask_a_def lines_correct_def line_step_def lines_wf_def lines_idle_def Let_def split: prod.splits)
  qed
  show "lines_correct stream wf idle r d d1 \<and> du_receiver_a d1 = du_receiver_a d
      \<and> (r = None \<longrightarrow> stream (du_receiver_b d) = [] \<or> lines_idle idle d1 < lines_idle idle d)" if asked: "ask_b nxt d = (r, d1)"
  proof (cases r)
    case None
    then show ?thesis using asked no_packet [OF wf(2)] wf
      by (auto simp: ask_b_def lines_correct_def line_step_def lines_wf_def lines_idle_def Let_def split: prod.splits)
  next
    case (Some p)
    then show ?thesis using asked packet [OF wf(2)] wf
      by (auto simp: ask_b_def lines_correct_def line_step_def lines_wf_def lines_idle_def Let_def split: prod.splits)
  qed
qed

lemma dual_batch_correct:
  assumes "lines_wf wf d" "dual_batch_next nxt d = (r, d1)"
  shows "lines_correct stream wf idle r d d1 \<and> (r = None \<longrightarrow> lines_left stream d = 0 \<or> lines_idle idle d1 < lines_idle idle d)"
proof (cases "du_next_a_first d")
  case True
  obtain r2 d2 where a: "ask_a nxt d = (r2, d2)" by (cases "ask_a nxt d")
  note A = ask_lines(1) [OF assms(1) a]
  show ?thesis
  proof (cases r2)
    case None
    then have b: "ask_b nxt d2 = (r, d1)" using assms(2) True a by (simp add: dual_batch_next_def)
    have "lines_wf wf d2" using A by (simp add: lines_correct_def)
    note B = ask_lines(2) [OF this b]
    have "lines_correct stream wf idle r d d1" using A B None lines_correct_trans by blast
    then show ?thesis using A B None by (auto simp: lines_left_def lines_correct_def)
  next
    case (Some p)
    then have "r = Some p" "d1 = d2\<lparr>du_next_a_first := \<not> du_next_a_first d2\<rparr>" using assms(2) True a by (simp_all add: dual_batch_next_def)
    then show ?thesis using A Some by (simp add: lines_correct_def)
  qed
next
  case False
  obtain r2 d2 where b: "ask_b nxt d = (r2, d2)" by (cases "ask_b nxt d")
  note B = ask_lines(2) [OF assms(1) b]
  show ?thesis
  proof (cases r2)
    case None
    then have a: "ask_a nxt d2 = (r, d1)" using assms(2) False b by (simp add: dual_batch_next_def)
    have "lines_wf wf d2" using B by (simp add: lines_correct_def)
    note A = ask_lines(1) [OF this a]
    have "lines_correct stream wf idle r d d1" using A B None lines_correct_trans by blast
    then show ?thesis using A B None by (auto simp: lines_left_def lines_correct_def)
  next
    case (Some p)
    then have "r = Some p" "d1 = d2\<lparr>du_next_a_first := \<not> du_next_a_first d2\<rparr>" using assms(2) False b by (simp_all add: dual_batch_next_def)
    then show ?thesis using B Some by (simp add: lines_correct_def)
  qed
qed

text \<open>The second look at the lines, after \<open>poll\<close>.\<close>

lemma asked_lines:
  assumes "lines_wf wf d"
  shows "(if c then ask_a nxt d else (None, d)) = (r, d1) \<Longrightarrow> lines_correct stream wf idle r d d1"
    "(if c then ask_b nxt d else (None, d)) = (r, d1) \<Longrightarrow> lines_correct stream wf idle r d d1"
proof -
  have stay: "(None, d) = (r, d1) \<Longrightarrow> lines_correct stream wf idle r d d1" using assms by (auto simp: lines_correct_def)
  show "lines_correct stream wf idle r d d1" if "(if c then ask_a nxt d else (None, d)) = (r, d1)"
    using that ask_lines(1) [OF assms] stay by (cases c) simp_all
  show "lines_correct stream wf idle r d d1" if "(if c then ask_b nxt d else (None, d)) = (r, d1)"
    using that ask_lines(2) [OF assms] stay by (cases c) simp_all
qed

lemma dual_correct:
  assumes "lines_wf wf d" "dual_next poll nxt d = (r, d1)"
  shows "lines_correct stream wf idle r d d1 \<and> (r = None \<longrightarrow> lines_left stream d = 0 \<or> lines_idle idle d1 < lines_idle idle d)"
proof -
  obtain r2 d2 where n: "dual_batch_next nxt d = (r2, d2)" by (cases "dual_batch_next nxt d")
  note N = dual_batch_correct [OF assms(1) n]
  show ?thesis
  proof (cases r2)
    case (Some p)
    then show ?thesis using assms(2) n N by (simp add: dual_next_def)
  next
    case None
    obtain ready in_a in_b where p: "poll (du_receiver_a d2) (du_receiver_b d2) = (ready, in_a, in_b)" by (metis prod_cases3)
    have wf2: "lines_wf wf d2" using N by (simp add: lines_correct_def)
    have L: "lines_correct stream wf idle r d2 d1"
    proof (cases "ready \<le> 0")
      case True
      then show ?thesis using assms(2) n None p wf2 by (simp add: dual_next_def lines_correct_def)
    next
      case False
      define first where "first = (if du_next_a_first d2 then (if in_a then ask_a nxt d2 else (None, d2)) else (if in_b then ask_b nxt d2 else (None, d2)))"
      obtain r3 d3 where f: "first = (r3, d3)" by (cases first)
      have F: "lines_correct stream wf idle r3 d2 d3" using f asked_lines [OF wf2, of _ r3 d3] by (auto simp: first_def split: if_splits)
      show ?thesis
      proof (cases r3)
        case (Some q)
        then have "r = Some q" "\<exists>o'. d1 = d3\<lparr>du_next_a_first := o'\<rparr>"
          using assms(2) n None p False f by (auto simp: dual_next_def first_def split: if_splits)
        then show ?thesis using F Some by (auto simp: lines_correct_def)
      next
        case none3: None
        have wf3: "lines_wf wf d3" using F by (simp add: lines_correct_def)
        have "(if in_b then ask_b nxt d3 else (None, d3)) = (r, d1) \<or> (if in_a then ask_a nxt d3 else (None, d3)) = (r, d1)"
          using assms(2) n None p False f none3 by (auto simp: dual_next_def first_def split: if_splits)
        then have "lines_correct stream wf idle r d3 d1" using asked_lines [OF wf3] by blast
        then show ?thesis using F none3 lines_correct_trans by blast
      qed
    qed
    then have "lines_correct stream wf idle r d d1" using N None lines_correct_trans by blast
    then show ?thesis using N None L by (auto simp: lines_correct_def)
  qed
qed

end

section \<open>Any number of calls\<close>

text \<open>The interface that the engine uses of either two-line receiver.\<close>

locale line_pair =
  fixes dnxt :: "'r DualReceiver \<Rightarrow> PacketView option \<times> 'r DualReceiver"
    and stream :: "'r \<Rightarrow> u8 list list"
    and ok :: "'r \<Rightarrow> bool"
    and idle :: "'r \<Rightarrow> nat"
  assumes call: "lines_wf ok d \<Longrightarrow> dnxt d = (r, d1) \<Longrightarrow>
    lines_correct stream ok idle r d d1 \<and> (r = None \<longrightarrow> lines_left stream d = 0 \<or> lines_idle idle d1 < lines_idle idle d)"
begin

lemma interleaved:
  assumes "lines_wf ok d" "poll_source dnxt n d = (answers, d1)"
  shows "\<exists>xs ys ps. payloads answers = map Some ps \<and> ps \<in> shuffles xs ys
    \<and> xs @ stream (du_receiver_a d1) = stream (du_receiver_a d) \<and> ys @ stream (du_receiver_b d1) = stream (du_receiver_b d)
    \<and> du_packets_a d1 = du_packets_a d + of_nat (length xs) \<and> du_packets_b d1 = du_packets_b d + of_nat (length ys)"
  using assms
proof (induction n arbitrary: d answers)
  case 0
  then show ?case by (intro exI [of _ "[]"]) simp
next
  case (Suc n)
  obtain a d2 where a: "dnxt d = (a, d2)" by (cases "dnxt d")
  obtain as where as: "poll_source dnxt n d2 = (as, d1)" "answers = a # as"
    using Suc.prems(2) a by (auto simp: Let_def split: prod.splits)
  have C: "line_step stream a d d2" "lines_wf ok d2" using call [OF Suc.prems(1) a] by (simp_all add: lines_correct_def)
  obtain xs ys ps where I: "payloads as = map Some ps" "ps \<in> shuffles xs ys"
    "xs @ stream (du_receiver_a d1) = stream (du_receiver_a d2)" "ys @ stream (du_receiver_b d1) = stream (du_receiver_b d2)"
    "du_packets_a d1 = du_packets_a d2 + of_nat (length xs)" "du_packets_b d1 = du_packets_b d2 + of_nat (length ys)"
    using Suc.IH [OF C(2) as(1)] by blast
  show ?case
  proof (cases a)
    case None
    then show ?thesis using C(1) I as(2)
      by (intro exI [of _ xs] exI [of _ ys] exI [of _ ps]) (simp add: line_step_def Let_def)
  next
    case (Some p)
    then obtain x where x: "pv_data p = Some x"
      and "(stream (du_receiver_a d) = x # stream (du_receiver_a d2) \<and> stream (du_receiver_b d2) = stream (du_receiver_b d)
        \<and> du_packets_a d2 = du_packets_a d + 1 \<and> du_packets_b d2 = du_packets_b d) \<or>
       (stream (du_receiver_b d) = x # stream (du_receiver_b d2) \<and> stream (du_receiver_a d2) = stream (du_receiver_a d)
        \<and> du_packets_b d2 = du_packets_b d + 1 \<and> du_packets_a d2 = du_packets_a d)"
      using C(1) by (auto simp: line_step_def Let_def)
    then show ?thesis
    proof (elim disjE)
      assume l: "stream (du_receiver_a d) = x # stream (du_receiver_a d2) \<and> stream (du_receiver_b d2) = stream (du_receiver_b d)
        \<and> du_packets_a d2 = du_packets_a d + 1 \<and> du_packets_b d2 = du_packets_b d"
      show ?thesis using I as(2) Some x l Cons_in_shuffles_leftI [OF I(2), of x]
        by (intro exI [of _ "x # xs"] exI [of _ ys] exI [of _ "x # ps"]) simp
    next
      assume l: "stream (du_receiver_b d) = x # stream (du_receiver_b d2) \<and> stream (du_receiver_a d2) = stream (du_receiver_a d)
        \<and> du_packets_b d2 = du_packets_b d + 1 \<and> du_packets_a d2 = du_packets_a d"
      show ?thesis using I as(2) Some x l Cons_in_shuffles_rightI [OF I(2), of x]
        by (intro exI [of _ xs] exI [of _ "x # ys"] exI [of _ "x # ps"]) simp
    qed
  qed
qed

lemma lines_drained:
  assumes "lines_wf ok d" "poll_source dnxt n d = (answers, d1)" "lines_left stream d + lines_idle idle d \<le> n"
  shows "lines_left stream d1 = 0"
  using assms
proof (induction n arbitrary: d answers)
  case (Suc n)
  obtain a d2 where a: "dnxt d = (a, d2)" by (cases "dnxt d")
  obtain as where as: "poll_source dnxt n d2 = (as, d1)" using Suc.prems(2) a by (auto simp: Let_def split: prod.splits)
  note C = call [OF Suc.prems(1) a]
  then have wf2: "lines_wf ok d2" and L: "line_step stream a d d2" by (simp_all add: lines_correct_def)
  show ?case
  proof (cases "lines_left stream d2 = 0")
    case True
    then have e: "stream (du_receiver_a d2) = []" "stream (du_receiver_b d2) = []" by (simp_all add: lines_left_def)
    obtain xs ys where "xs @ stream (du_receiver_a d1) = stream (du_receiver_a d2)" "ys @ stream (du_receiver_b d1) = stream (du_receiver_b d2)"
      using interleaved [OF wf2 as] by blast
    then show ?thesis using e by (simp add: lines_left_def)
  next
    case False
    have "lines_left stream d2 + lines_idle idle d2 \<le> n"
    proof (cases a)
      case None
      then show ?thesis using C L False line_step_none_left [of stream d d2] Suc.prems(3) by auto
    next
      case (Some p)
      then show ?thesis using C L line_step_left [of stream p d d2] Suc.prems(3) by (auto simp: lines_correct_def)
    qed
    then show ?thesis by (rule Suc.IH [OF wf2 as])
  qed
qed (simp add: lines_left_def)

lemma all_interleaved:
  assumes "lines_wf ok d" "poll_source dnxt n d = (answers, d1)" "lines_left stream d + lines_idle idle d \<le> n"
  shows "\<exists>ps. payloads answers = map Some ps \<and> ps \<in> shuffles (stream (du_receiver_a d)) (stream (du_receiver_b d))
    \<and> du_packets_a d1 = du_packets_a d + of_nat (length (stream (du_receiver_a d)))
    \<and> du_packets_b d1 = du_packets_b d + of_nat (length (stream (du_receiver_b d)))"
proof -
  have "stream (du_receiver_a d1) = []" "stream (du_receiver_b d1) = []"
    using lines_drained [OF assms] by (simp_all add: lines_left_def)
  then show ?thesis using interleaved [OF assms(1,2)] by auto
qed

end

interpretation dual_udp: line_pair "dual_next poll (udp_next rdtsc)" udp_stream udp_wf udp_idle for poll rdtsc
  by unfold_locales (rule udp.dual_correct)

interpretation dual_batch: line_pair "dual_batch_next (batch_next rdtsc)" batch_stream batch_wf batch_idle for rdtsc
  by unfold_locales (rule batch.dual_batch_correct)

lemma merged_lines:
  assumes "2 * (length sock_a + length sock_b) \<le> n"
    and "poll_source (dual_next poll (udp_next rdtsc)) n
      (newDualReceiver (newUdpReceiver fd_a metrics sock_a) (newUdpReceiver fd_b metrics sock_b)) = (answers, d)"
  shows "\<exists>ps. payloads answers = map Some ps \<and> ps \<in> shuffles (sock_payloads sock_a) (sock_payloads sock_b)
    \<and> du_packets_a d = of_nat (length (sock_payloads sock_a)) \<and> du_packets_b d = of_nat (length (sock_payloads sock_b))"
proof -
  let ?u = "newDualReceiver (newUdpReceiver fd_a metrics sock_a) (newUdpReceiver fd_b metrics sock_b)"
  have "lines_left udp_stream ?u + lines_idle udp_idle ?u \<le> n"
    using assms(1) payloads_bound [of sock_a] payloads_bound [of sock_b] by (simp add: lines_left_def lines_idle_def newDualReceiver_def fresh_udp)
  moreover have "lines_wf udp_wf ?u" by (simp add: lines_wf_def newDualReceiver_def fresh_udp)
  ultimately show ?thesis using dual_udp.all_interleaved [OF _ assms(2)] by (simp add: newDualReceiver_def fresh_udp)
qed

lemma merged_batch_lines:
  assumes "2 * (length sock_a + length sock_b) \<le> n"
    and "poll_source (dual_batch_next (batch_next rdtsc)) n
      (newDualReceiver (newUdpBatchReceiver fd_a k sock_a) (newUdpBatchReceiver fd_b k sock_b)) = (answers, d)"
  shows "\<exists>ps. payloads answers = map Some ps \<and> ps \<in> shuffles (sock_payloads sock_a) (sock_payloads sock_b)
    \<and> du_packets_a d = of_nat (length (sock_payloads sock_a)) \<and> du_packets_b d = of_nat (length (sock_payloads sock_b))"
proof -
  let ?b = "newDualReceiver (newUdpBatchReceiver fd_a k sock_a) (newUdpBatchReceiver fd_b k sock_b)"
  have "lines_left batch_stream ?b + lines_idle batch_idle ?b \<le> n"
    using assms(1) payloads_bound [of sock_a] payloads_bound [of sock_b] by (simp add: lines_left_def lines_idle_def newDualReceiver_def fresh_batch)
  moreover have "lines_wf batch_wf ?b" by (simp add: lines_wf_def newDualReceiver_def fresh_batch)
  ultimately show ?thesis using dual_batch.all_interleaved [OF _ assms(2)] by (simp add: newDualReceiver_def fresh_batch)
qed

section \<open>Properties\<close>

text \<open>C6. Two lines are merged. Called at least twice as often as there are events on its two sockets, either two-line receiver hands out an interleaving of
  the payloads of the two sockets, each line in its order, whatever \<open>poll\<close> answers; its counters give the number of packets of each
  line (modulo \<open>2 ^ 64\<close>). The payloads of a socket are its datagrams of at most 2,048 bytes: longer ones are dropped by the receivers of the lines.\<close>

theorem dual_receivers_merge:
  assumes "2 * (length sock_a + length sock_b) \<le> n"
    and "poll_source (dual_next poll (udp_next rdtsc)) n
      (newDualReceiver (newUdpReceiver fd_a metrics sock_a) (newUdpReceiver fd_b metrics sock_b)) = (answers, d)"
    and "poll_source (dual_batch_next (batch_next rdtsc)) n
      (newDualReceiver (newUdpBatchReceiver fd_a k sock_a) (newUdpBatchReceiver fd_b k sock_b)) = (answers', d')"
  shows "(\<exists>ps. payloads answers = map Some ps \<and> ps \<in> shuffles (sock_payloads sock_a) (sock_payloads sock_b))
    \<and> (\<exists>ps. payloads answers' = map Some ps \<and> ps \<in> shuffles (sock_payloads sock_a) (sock_payloads sock_b))
    \<and> du_packets_a d = of_nat (length (sock_payloads sock_a)) \<and> du_packets_b d = of_nat (length (sock_payloads sock_b))
    \<and> du_packets_a d' = of_nat (length (sock_payloads sock_a)) \<and> du_packets_b d' = of_nat (length (sock_payloads sock_b))"
  using merged_lines [OF assms(1,2)] merged_batch_lines [OF assms(1,3)] by blast

definition demo_dual :: "UdpReceiver DualReceiver" where
  "demo_dual = newDualReceiver (newUdpReceiver 3 False demo_socket) (newUdpReceiver 4 False [Datagram [9] []])"

theorem dual_receivers_merge_witness:
  "\<exists>ps \<in> shuffles [[1, 2], [3]] [[9]]. payloads (fst (poll_source (dual_next (\<lambda>_ _. (0, False, False)) (udp_next (\<lambda>_. 0))) 10 demo_dual)) = map Some ps"
proof -
  have "2 * (length demo_socket + length [Datagram [9] []]) \<le> 10" "sock_payloads demo_socket = [[1, 2], [3]]" by (simp_all add: demo_socket_def)
  then show ?thesis
    using dual_receivers_merge [of demo_socket "[Datagram [9] []]" 10, OF _ prod.collapse [symmetric] prod.collapse [symmetric],
      of "\<lambda>_ _. (0, False, False)" "\<lambda>_. 0" 3 False 4 1] unfolding demo_dual_def by auto
qed

text \<open>C7. Neither line is starved: a packet that a line has ready is delivered by one of the next two calls, whatever the other line does and whatever
  \<open>poll\<close> answers.\<close>

theorem dual_line_served:
  "(fst (nxt (du_receiver_a d)) = Some p \<longrightarrow>
      Some p \<in> set (fst (poll_source (dual_batch_next nxt) 2 d)) \<and> Some p \<in> set (fst (poll_source (dual_next poll nxt) 2 d)))
   \<and> (fst (nxt (du_receiver_b d)) = Some p \<longrightarrow>
      Some p \<in> set (fst (poll_source (dual_batch_next nxt) 2 d)) \<and> Some p \<in> set (fst (poll_source (dual_next poll nxt) 2 d)))"
proof -
  obtain ra a where a: "nxt (du_receiver_a d) = (ra, a)" by (cases "nxt (du_receiver_a d)")
  obtain rb b where b: "nxt (du_receiver_b d) = (rb, b)" by (cases "nxt (du_receiver_b d)")
  show ?thesis using a b
    by (cases ra; cases rb; cases "du_next_a_first d")
      (simp_all add: numeral_2_eq_2 dual_batch_next_def dual_next_def ask_a_def ask_b_def Let_def case_prod_beta)
qed

theorem dual_line_served_witness:
  "Some \<lparr>pv_data = Some [9], pv_receive_start_ticks = 0\<rparr> \<in> set (fst (poll_source (dual_next (\<lambda>_ _. (0, False, False)) (udp_next (\<lambda>_. 0))) 2 demo_dual))"
proof -
  have "fst (udp_next (\<lambda>_. 0) (du_receiver_b demo_dual)) = Some \<lparr>pv_data = Some [9], pv_receive_start_ticks = 0\<rparr>"
    by (simp add: demo_dual_def newDualReceiver_def udp_next_datagram newUdpReceiver_def fill_buffer_def udp_kMaxPacketSize_def)
  then show ?thesis using dual_line_served [of "udp_next (\<lambda>_. 0)" demo_dual _ "\<lambda>_ _. (0, False, False)"] by blast
qed

end
