(* ===== verification/Decimal.thy ===== *)
theory Decimal
  imports Prelude
begin

text \<open>
  Decimal texts: the digits, the number a text spells, the canonical text of a number, and the standard library's
  \<open>std::from_chars\<close> in base 10 on a 64-bit unsigned integer. The readers of settings, of command lines and of
  manifests share them.
\<close>

definition is_decimal_digit :: "char \<Rightarrow> bool" where
  "is_decimal_digit c = (48 \<le> (of_char c :: nat) \<and> (of_char c :: nat) \<le> 57)"

definition decimal :: "string \<Rightarrow> nat" where
  "decimal cs = foldl (\<lambda>n c. 10 * n + (of_char c - 48)) 0 cs"

fun dec_text :: "nat \<Rightarrow> string" where
  "dec_text n = (if n < 10 then [char_of (48 + n)] else dec_text (n div 10) @ [char_of (48 + n mod 10)])"

declare dec_text.simps [simp del]

text \<open>The error code, the text from \<open>ptr\<close> on, and the value of the integer passed in, which an error leaves as it was.\<close>

datatype Errc = NoErrc | InvalidErrc | RangeErrc

definition fromChars :: "string \<Rightarrow> u64 \<Rightarrow> Errc \<times> string \<times> u64" where
  "fromChars cs initial =
     (let digits = takeWhile is_decimal_digit cs; rest = dropWhile is_decimal_digit cs
      in if digits = [] then (InvalidErrc, cs, initial)
         else if decimal digits \<ge> 2 ^ 64 then (RangeErrc, rest, initial)
         else (NoErrc, rest, of_nat (decimal digits)))"

lemma takeWhile_digits: "\<forall>c \<in> set ds. is_decimal_digit c \<Longrightarrow> takeWhile is_decimal_digit ds = ds \<and> dropWhile is_decimal_digit ds = []"
  by (simp add: takeWhile_eq_all_conv dropWhile_eq_Nil_conv)

text \<open>The whole text is read exactly when it is a number of 64 bits.\<close>

lemma fromChars_whole:
  "fromChars cs initial = (NoErrc, [], n) \<longleftrightarrow>
     cs \<noteq> [] \<and> (\<forall>c \<in> set cs. is_decimal_digit c) \<and> decimal cs < 2 ^ 64 \<and> n = of_nat (decimal cs)"
proof (cases "\<forall>c \<in> set cs. is_decimal_digit c")
  case True
  then show ?thesis by (auto simp: fromChars_def takeWhile_digits)
next
  case False
  then have "dropWhile is_decimal_digit cs \<noteq> []" by (auto simp: dropWhile_eq_Nil_conv)
  with False show ?thesis by (auto simp: fromChars_def Let_def)
qed

subsection \<open>Canonical texts\<close>

lemma decimal_snoc: "decimal (cs @ [c]) = 10 * decimal cs + (of_char c - 48)"
  by (simp add: decimal_def)

lemma digit_char: "d < 10 \<Longrightarrow> of_char (char_of (48 + d) :: char) = (48 + d :: nat)"
  by simp

lemma dec_text_digits: "\<forall>c \<in> set (dec_text n). is_decimal_digit c"
proof (induction n rule: dec_text.induct)
  case (1 n)
  have "n mod 10 < 10" by simp
  then show ?case using 1 by (subst dec_text.simps) (auto simp: is_decimal_digit_def digit_char simp del: of_char_of)
qed

lemma decimal_dec_text [simp]: "decimal (dec_text n) = n"
proof (induction n rule: dec_text.induct)
  case (1 n)
  show ?case
  proof (cases "n < 10")
    case True
    then show ?thesis by (subst dec_text.simps) (simp add: decimal_def digit_char del: of_char_of)
  next
    case False
    then show ?thesis using 1
      by (subst dec_text.simps) (simp add: decimal_snoc digit_char del: of_char_of)
  qed
qed

lemma dec_text_nonempty [simp]: "dec_text n \<noteq> []"
  by (subst dec_text.simps) simp

lemma dec_text_leading: "1 < length (dec_text n) \<Longrightarrow> hd (dec_text n) \<noteq> CHR ''0''"
proof (induction n rule: dec_text.induct)
  case (1 n)
  show ?case
  proof (cases "n < 100")
    case True
    with 1(2) have n: "\<not> n < 10" "n div 10 < 10" by (auto simp: dec_text.simps [of n] split: if_splits)
    then have "hd (dec_text n) = char_of (48 + n div 10)"
      by (simp add: dec_text.simps [of n] dec_text.simps [of "n div 10"])
    moreover have "n div 10 \<noteq> 0" using n by simp
    ultimately show ?thesis using n(2) digit_char [of "n div 10"] by (auto simp del: of_char_of)
  next
    case False
    then have "1 < length (dec_text (n div 10))"
      by (subst dec_text.simps) auto
    with 1(1) False have "hd (dec_text (n div 10)) \<noteq> CHR ''0''" by simp
    with False show ?thesis by (subst dec_text.simps) simp
  qed
qed

lemma digit_of_text:
  assumes "is_decimal_digit c" shows "char_of (48 + (of_char c - 48 :: nat)) = c" "of_char c - 48 < (10 :: nat)"
  using assms by (auto simp: is_decimal_digit_def)

lemma dec_text_decimal:
  assumes "cs \<noteq> []" "\<forall>c \<in> set cs. is_decimal_digit c" "1 < length cs \<longrightarrow> hd cs \<noteq> CHR ''0''"
  shows "dec_text (decimal cs) = cs"
  using assms
proof (induction cs rule: rev_induct)
  case (snoc c cs)
  have c: "is_decimal_digit c" using snoc.prems by simp
  note d = digit_of_text [OF c]
  show ?case
  proof (cases cs)
    case Nil
    with d show ?thesis by (simp add: decimal_def dec_text.simps)
  next
    case (Cons b bs)
    then have "dec_text (decimal cs) = cs" "b \<noteq> CHR ''0''" using snoc by auto
    moreover have "dec_text 0 = ''0''" by code_simp
    ultimately have "decimal cs \<noteq> 0" using Cons by (metis list.inject)
    moreover note \<open>dec_text (decimal cs) = cs\<close>
    ultimately show ?thesis using d by (subst dec_text.simps) (simp add: decimal_snoc)
  qed
qed simp

end
