(* ===== verification/DpdkFrames.thy ===== *)
theory DpdkFrames
  imports GapBuffer WireFormatCorrect
begin

text \<open>
  The frame filter of the kernel-bypass receiver, \<open>DpdkReceiver.cpp\<close>: the two endpoint filters of the redundant lines and the two parsers
  that take an Ethernet frame apart, \<open>parseFast\<close> for untagged IPv4 without options and \<open>parseGeneral\<close> for the rest.

  A frame is the list of its bytes. The headers are read at the offsets of their standard layouts (14 bytes of Ethernet with the type at
  12, 4 bytes of VLAN tag with the inner type at 2, 20 bytes of IPv4, 8 bytes of UDP); a payload is the offset and the
  size of a part of the frame. Addresses in network order are compared as the number that their four bytes spell.
\<close>

section \<open>Constants and endpoint filters\<close>

definition kQinqEtherType :: u16 where "kQinqEtherType = 0x88A8"
definition kIpv4FragmentOffsetMask :: u16 where "kIpv4FragmentOffsetMask = 0x1FFF"
definition kIpv4MoreFragmentsFlag :: u16 where "kIpv4MoreFragmentsFlag = 0x2000"

text \<open>Names of the network headers the receiver includes.\<close>

abbreviation (input) RTE_ETHER_TYPE_IPV4 :: u16 where "RTE_ETHER_TYPE_IPV4 \<equiv> 0x0800"
abbreviation (input) RTE_ETHER_TYPE_VLAN :: u16 where "RTE_ETHER_TYPE_VLAN \<equiv> 0x8100"
abbreviation (input) IPPROTO_UDP :: u8 where "IPPROTO_UDP \<equiv> 17"
abbreviation (input) sizeof_ether_hdr :: nat where "sizeof_ether_hdr \<equiv> 14"
abbreviation (input) sizeof_vlan_hdr :: nat where "sizeof_vlan_hdr \<equiv> 4"
abbreviation (input) sizeof_ipv4_hdr :: nat where "sizeof_ipv4_hdr \<equiv> 20"
abbreviation (input) sizeof_udp_hdr :: nat where "sizeof_udp_hdr \<equiv> 8"

definition isVlanEtherType :: "u16 \<Rightarrow> bool" where
  "isVlanEtherType ether_type = (ether_type = RTE_ETHER_TYPE_VLAN \<or> ether_type = kQinqEtherType)"

record EndpointFilter =
  ef_ip :: u32
  ef_port :: u16
  ef_match_ip :: bool
  ef_enabled :: bool

definition noEndpoint :: EndpointFilter where
  "noEndpoint = \<lparr>ef_ip = 0, ef_port = 0, ef_match_ip = False, ef_enabled = False\<rparr>"

definition ef_matches :: "EndpointFilter \<Rightarrow> u32 \<Rightarrow> u16 \<Rightarrow> bool" where
  "ef_matches f dst_ip dst_port = (ef_enabled f \<and> dst_port = ef_port f \<and> (\<not> ef_match_ip f \<or> dst_ip = ef_ip f))"

section \<open>Parsers\<close>

datatype ParseStatus = Accepted | Filtered | Malformed

record ParsedPacket =
  pp_status :: ParseStatus
  pp_payload :: "nat option"
  pp_payload_size :: nat
  pp_line_index :: u8
  pp_fast_path :: bool

text \<open>\<open>{status}\<close> and \<open>{status, nullptr, 0, 0, true}\<close>.\<close>

definition rejected_frame :: "ParseStatus \<Rightarrow> bool \<Rightarrow> ParsedPacket" where
  "rejected_frame status fast = \<lparr>pp_status = status, pp_payload = None, pp_payload_size = 0, pp_line_index = 0, pp_fast_path = fast\<rparr>"

definition accepted_at :: "nat \<Rightarrow> nat \<Rightarrow> u8 \<Rightarrow> bool \<Rightarrow> ParsedPacket" where
  "accepted_at payload payload_size line_index fast =
     \<lparr>pp_status = Accepted, pp_payload = Some payload, pp_payload_size = payload_size, pp_line_index = line_index, pp_fast_path = fast\<rparr>"

text \<open>The loop over at most two VLAN tags: \<open>None\<close> when a tag reaches past the frame.\<close>

fun vlan_loop :: "nat \<Rightarrow> u8 list \<Rightarrow> nat \<Rightarrow> u16 \<Rightarrow> (nat \<times> u16) option" where
  "vlan_loop 0 frame offset ether_type = Some (offset, ether_type)"
| "vlan_loop (Suc depth) frame offset ether_type =
     (if \<not> isVlanEtherType ether_type then Some (offset, ether_type)
      else if offset + sizeof_vlan_hdr > length frame then None
      else vlan_loop depth frame (offset + sizeof_vlan_hdr) (readU16BE frame (offset + 2)))"

text \<open>The part of \<open>parseGeneral\<close> behind the Ethernet header and its tags.\<close>

definition general_ipv4 :: "EndpointFilter \<Rightarrow> EndpointFilter \<Rightarrow> u8 list \<Rightarrow> nat \<Rightarrow> u16 \<Rightarrow> ParsedPacket" where
  "general_ipv4 line_a line_b frame offset ether_type =
     (if ether_type \<noteq> RTE_ETHER_TYPE_IPV4 then rejected_frame Filtered False
      else if offset + sizeof_ipv4_hdr > length frame then rejected_frame Malformed False
      else
        let version_ihl = frame ! offset;
            version = drop_bit 4 version_ihl;
            ipv4_header_len = unat (version_ihl AND 0x0F) * 4
        in if version \<noteq> 4 \<or> ipv4_header_len < sizeof_ipv4_hdr then rejected_frame Malformed False
           else if offset + ipv4_header_len > length frame then rejected_frame Malformed False
           else
        let total_len = unat (readU16BE frame (offset + 2))
        in if total_len < ipv4_header_len \<or> offset + total_len > length frame then rejected_frame Malformed False
           else if readU16BE frame (offset + 6) AND (kIpv4FragmentOffsetMask OR kIpv4MoreFragmentsFlag) \<noteq> 0 then rejected_frame Malformed False
           else if frame ! (offset + 9) \<noteq> IPPROTO_UDP then rejected_frame Filtered False
           else
        let udp_offset = offset + ipv4_header_len
        in if udp_offset + sizeof_udp_hdr > length frame then rejected_frame Malformed False
           else
        let dst_ip = readU32BE frame (offset + 16);
            dst_port = readU16BE frame (udp_offset + 2);
            udp_len = unat (readU16BE frame (udp_offset + 4))
        in if udp_len < sizeof_udp_hdr then rejected_frame Malformed False
           else if udp_offset + udp_len > offset + total_len then rejected_frame Malformed False
           else
        let payload_size = udp_len - sizeof_udp_hdr;
            payload_offset = udp_offset + sizeof_udp_hdr
        in if payload_size > kMaxPacketSize then rejected_frame Malformed False
           else if ef_matches line_a dst_ip dst_port then accepted_at payload_offset payload_size 0 False
           else if ef_matches line_b dst_ip dst_port then accepted_at payload_offset payload_size 1 False
           else rejected_frame Filtered False)"

definition parseGeneral :: "EndpointFilter \<Rightarrow> EndpointFilter \<Rightarrow> u8 list \<Rightarrow> ParsedPacket" where
  "parseGeneral line_a line_b frame =
     (if length frame < sizeof_ether_hdr then rejected_frame Malformed False
      else case vlan_loop 2 frame sizeof_ether_hdr (readU16BE frame 12) of
        None \<Rightarrow> rejected_frame Malformed False
      | Some (offset, ether_type) \<Rightarrow> general_ipv4 line_a line_b frame offset ether_type)"

definition parseFast :: "EndpointFilter \<Rightarrow> EndpointFilter \<Rightarrow> u8 list \<Rightarrow> ParsedPacket" where
  "parseFast line_a line_b frame =
     (let ip = sizeof_ether_hdr;
          udp_offset = sizeof_ether_hdr + sizeof_ipv4_hdr;
          payload_offset = udp_offset + sizeof_udp_hdr
      in if length frame < sizeof_ether_hdr then rejected_frame Malformed True
         else if readU16BE frame 12 \<noteq> RTE_ETHER_TYPE_IPV4 then parseGeneral line_a line_b frame
         else if length frame < payload_offset then rejected_frame Malformed True
         else if frame ! ip \<noteq> 0x45 then parseGeneral line_a line_b frame
         else
      let total_len = unat (readU16BE frame (ip + 2))
      in if total_len < sizeof_ipv4_hdr + sizeof_udp_hdr \<or> sizeof_ether_hdr + total_len > length frame then rejected_frame Malformed True
         else if readU16BE frame (ip + 6) AND (kIpv4FragmentOffsetMask OR kIpv4MoreFragmentsFlag) \<noteq> 0 then rejected_frame Malformed True
         else if frame ! (ip + 9) \<noteq> IPPROTO_UDP then rejected_frame Filtered True
         else
      let dst_ip = readU32BE frame (ip + 16);
          dst_port = readU16BE frame (udp_offset + 2);
          udp_len = unat (readU16BE frame (udp_offset + 4))
      in if udp_len < sizeof_udp_hdr \<or> udp_offset + udp_len > sizeof_ether_hdr + total_len then rejected_frame Malformed True
         else
      let payload_size = udp_len - sizeof_udp_hdr
      in if payload_size > kMaxPacketSize then rejected_frame Malformed True
         else if ef_matches line_a dst_ip dst_port then accepted_at payload_offset payload_size 0 True
         else if ef_matches line_b dst_ip dst_port then accepted_at payload_offset payload_size 1 True
         else rejected_frame Filtered True)"

section \<open>The fast path against the general parser\<close>

lemmas frame_constants = kQinqEtherType_def kIpv4FragmentOffsetMask_def kIpv4MoreFragmentsFlag_def isVlanEtherType_def

text \<open>An untagged frame skips the loop over the tags.\<close>

lemma vlan_loop_stop: "\<not> isVlanEtherType t \<Longrightarrow> vlan_loop n frame offset t = Some (offset, t)"
  by (cases n) simp_all

lemma ipv4_not_vlan [simp]: "\<not> isVlanEtherType RTE_ETHER_TYPE_IPV4"
  by (simp add: frame_constants)

lemma general_untagged:
  assumes "sizeof_ether_hdr \<le> length frame" "readU16BE frame 12 = RTE_ETHER_TYPE_IPV4"
  shows "parseGeneral a b frame = general_ipv4 a b frame sizeof_ether_hdr RTE_ETHER_TYPE_IPV4"
  using assms by (simp add: parseGeneral_def vlan_loop_stop)

lemma rejected_frame_fields [simp]:
  "pp_status (rejected_frame s f) = s" "pp_payload (rejected_frame s f) = None" "pp_payload_size (rejected_frame s f) = 0"
  "pp_line_index (rejected_frame s f) = 0" "pp_fast_path (rejected_frame s f) = f"
  by (simp_all add: rejected_frame_def)

lemma accepted_fields [simp]:
  "pp_status (accepted_at p n l f) = Accepted" "pp_payload (accepted_at p n l f) = Some p" "pp_payload_size (accepted_at p n l f) = n"
  "pp_line_index (accepted_at p n l f) = l" "pp_fast_path (accepted_at p n l f) = f"
  by (simp_all add: accepted_at_def)

text \<open>Two results that differ at most in the counter they are booked under.\<close>

definition same_packet :: "ParsedPacket \<Rightarrow> ParsedPacket \<Rightarrow> bool" where
  "same_packet p q = (p\<lparr>pp_fast_path := False\<rparr> = q\<lparr>pp_fast_path := False\<rparr>)"

lemma same_packet_simps [simp]:
  "same_packet p p" "same_packet (rejected_frame s f) (rejected_frame t g) = (s = t)"
  "same_packet (accepted_at i n l f) (accepted_at j m k g) = (i = j \<and> n = m \<and> l = k)"
  "same_packet (accepted_at i n l f) (rejected_frame Malformed g) = False" "same_packet (accepted_at i n l f) (rejected_frame Filtered g) = False"
  "same_packet (rejected_frame Malformed g) (accepted_at i n l f) = False" "same_packet (rejected_frame Filtered g) (accepted_at i n l f) = False"
  by (auto simp: same_packet_def rejected_frame_def accepted_at_def)

text \<open>A short IPv4 frame, or one whose IPv4 packet has no room for a UDP header.\<close>

definition no_udp_room :: "u8 list \<Rightarrow> bool" where
  "no_udp_room frame = (length frame < 42 \<or> frame ! 14 = 0x45 \<and> unat (readU16BE frame 16) < 28)"

lemma header_0x45: "drop_bit 4 (0x45 :: u8) = 4" "unat ((0x45 :: u8) AND 0x0F) = 5"
  by (simp_all add: drop_bit_eq_div)

text \<open>A frame without that room is never accepted by the general parser.\<close>

lemma general_short:
  assumes "no_udp_room frame" "sizeof_ether_hdr \<le> length frame" "readU16BE frame 12 = RTE_ETHER_TYPE_IPV4"
  shows "parseGeneral a b frame = rejected_frame Malformed False \<or>
    (parseGeneral a b frame = rejected_frame Filtered False \<and> frame ! 23 \<noteq> IPPROTO_UDP)"
proof -
  have "length frame < 42 \<Longrightarrow> ?thesis"
    using assms(2-) by (auto simp: general_untagged general_ipv4_def Let_def)
  moreover have "\<not> length frame < 42 \<Longrightarrow> ?thesis"
    using assms by (auto simp: no_udp_room_def general_untagged general_ipv4_def Let_def header_0x45)
  ultimately show ?thesis by blast
qed

text \<open>With that room the two parsers agree step by step.\<close>

lemma fast_agrees:
  assumes "\<not> (readU16BE frame 12 = RTE_ETHER_TYPE_IPV4 \<and> no_udp_room frame)"
  shows "same_packet (parseFast a b frame) (parseGeneral a b frame)"
proof (cases "sizeof_ether_hdr \<le> length frame \<and> readU16BE frame 12 = RTE_ETHER_TYPE_IPV4 \<and> frame ! 14 = 0x45")
  case True
  then have "\<not> length frame < 42" "\<not> unat (readU16BE frame 16) < 28" using assms by (auto simp: no_udp_room_def)
  then show ?thesis using True
    by (simp add: parseFast_def general_untagged general_ipv4_def Let_def header_0x45)
next
  case False
  then show ?thesis using assms by (auto simp: parseFast_def parseGeneral_def Let_def no_udp_room_def)
qed

lemma fast_short:
  assumes "no_udp_room frame" "readU16BE frame 12 = RTE_ETHER_TYPE_IPV4"
  shows "parseFast a b frame = rejected_frame Malformed True"
  using assms by (auto simp: parseFast_def Let_def no_udp_room_def)

end
