(* ===== verification/DpdkReceiver.thy ===== *)
theory DpdkReceiver
  imports Decimal DpdkFrames MoldUdpDecoder
begin

text \<open>
  Model of \<open>DpdkReceiver.cpp\<close> and \<open>DpdkReceiver.hpp\<close> around the frame parsers: the settings it reads from the environment, the bring-up and the
  teardown of the device, and the polling loop with its ownership of packet buffers.

  The DPDK library is a parameter: a record of the answers its calls give, where a negative or non-zero number is
  the failure the code tests for. What the calls leave behind (a memory pool, a configured and started port, flow rules, flow
  isolation) is the device state that the bring-up passes along, also when it fails. \<open>strtoul\<close> is the C library's conversion in base 10.
  Every \<open>throw\<close> is a value of \<open>DpdkError\<close>.
\<close>

section \<open>Settings from the environment\<close>

definition kDefaultMempoolSize :: u64 where "kDefaultMempoolSize = 65535"
definition kDefaultMbufCacheSize :: u64 where "kDefaultMbufCacheSize = 256"
definition kDefaultRxDesc :: u64 where "kDefaultRxDesc = 4096"
definition kMaxBurstSize :: u64 where "kMaxBurstSize = 256"
definition kDefaultBurstSize :: u64 where "kDefaultBurstSize = 32"

datatype LatencyMode = PacketMode | BurstMode

datatype DpdkError =
    BadFlag string | InvalidUnsigned string | OutOfRangeUnsigned string | BadBurstSize | BadLatencyMode | UnclosedQuote | BadAddress
  | EalInitFailed | QueueNotZero | NoPorts | InvalidPort | InfoFailed | NoRxQueues | FlowIsolateFailed | PoolFailed | ConfigureFailed
  | AdjustFailed | QueueSetupFailed | FlowValidateFailed | FlowCreateFailed | StartFailed

type_synonym environment = "string \<Rightarrow> string option"

definition envFlag :: "environment \<Rightarrow> string \<Rightarrow> bool \<Rightarrow> DpdkError + bool" where
  "envFlag getenv name preset =
     (case getenv name of None \<Rightarrow> Inr preset
      | Some v \<Rightarrow>
          if v = ''0'' \<or> v = ''false'' \<or> v = ''off'' \<or> v = ''no'' then Inr False
          else if v = ''1'' \<or> v = ''true'' \<or> v = ''on'' \<or> v = ''yes'' then Inr True
          else Inl (BadFlag name))"

text \<open>\<open>strtoul(text, &end, 10)\<close>: the number, the text from \<open>end\<close> on, and whether \<open>errno\<close> is set. A sign is accepted, and a negative number
  is reduced modulo \<open>2 ^ 64\<close>.\<close>

definition is_space :: "char \<Rightarrow> bool" where
  "is_space c = ((of_char c :: nat) = 32 \<or> (9 \<le> (of_char c :: nat) \<and> (of_char c :: nat) \<le> 13))"

definition strtoul :: "string \<Rightarrow> u64 \<times> string \<times> bool" where
  "strtoul s =
     (let body = dropWhile is_space s;
          negative = (take 1 body = ''-'');
          unsigned = (if negative \<or> take 1 body = ''+'' then drop 1 body else body);
          digits = takeWhile is_decimal_digit unsigned;
          rest = dropWhile is_decimal_digit unsigned
      in if digits = [] then (0, s, False)
         else if decimal digits > unat u64_max then (u64_max, rest, True)
         else (if negative then - of_nat (decimal digits) else of_nat (decimal digits), rest, False))"

definition envUnsigned :: "environment \<Rightarrow> string \<Rightarrow> u64 \<Rightarrow> u64 \<Rightarrow> u64 \<Rightarrow> DpdkError + u64" where
  "envUnsigned getenv name preset minimum maximum =
     (case getenv name of None \<Rightarrow> Inr preset
      | Some v \<Rightarrow>
          if v = [] then Inr preset
          else
            let (parsed, rest, errno) = strtoul v
            in if errno \<or> rest = v \<or> rest \<noteq> [] then Inl (InvalidUnsigned name)
               else if parsed < minimum \<or> parsed > maximum then Inl (OutOfRangeUnsigned name)
               else Inr parsed)"

definition dpdkBurstSize :: "environment \<Rightarrow> DpdkError + u64" where
  "dpdkBurstSize getenv =
     (case envUnsigned getenv ''ASTRA_DPDK_BURST_SIZE'' kDefaultBurstSize 1 kMaxBurstSize of Inl e \<Rightarrow> Inl e
      | Inr burst_size \<Rightarrow> if burst_size mod 8 \<noteq> 0 then Inl BadBurstSize else Inr burst_size)"

definition dpdkLatencyMode :: "environment \<Rightarrow> DpdkError + LatencyMode" where
  "dpdkLatencyMode getenv =
     (case getenv ''ASTRA_DPDK_LATENCY_MODE'' of None \<Rightarrow> Inr PacketMode
      | Some v \<Rightarrow>
          if v = [] \<or> v = ''packet'' then Inr PacketMode else if v = ''burst'' then Inr BurstMode else Inl BadLatencyMode)"

primrec split_loop :: "string \<Rightarrow> string list \<Rightarrow> string \<Rightarrow> bool \<Rightarrow> bool \<Rightarrow> DpdkError + string list" where
  "split_loop [] result current in_single_quote in_double_quote =
     (if in_single_quote \<or> in_double_quote then Inl UnclosedQuote
      else Inr (if current \<noteq> [] then result @ [current] else result))"
| "split_loop (ch # chs) result current in_single_quote in_double_quote =
     (if ch = CHR 0x27 \<and> \<not> in_double_quote then split_loop chs result current (\<not> in_single_quote) in_double_quote
      else if ch = CHR 0x22 \<and> \<not> in_single_quote then split_loop chs result current in_single_quote (\<not> in_double_quote)
      else if (ch = CHR '' '' \<or> ch = CHR 0x09 \<or> ch = CHR 0x0A) \<and> \<not> in_single_quote \<and> \<not> in_double_quote then
        (if current \<noteq> [] then split_loop chs (result @ [current]) [] in_single_quote in_double_quote
         else split_loop chs result current in_single_quote in_double_quote)
      else split_loop chs result (current @ [ch]) in_single_quote in_double_quote)"

definition splitArgs :: "string \<Rightarrow> DpdkError + string list" where
  "splitArgs args = split_loop args [] [] False False"

text \<open>\<open>inet_pton\<close> is a parameter: the address that a text denotes, as the number its bytes in network order spell.\<close>

definition makeEndpoint :: "(string \<Rightarrow> u32 option) \<Rightarrow> string option \<Rightarrow> u16 \<Rightarrow> DpdkError + EndpointFilter" where
  "makeEndpoint inet_pton ip port =
     (let endpoint = noEndpoint\<lparr>ef_port := port, ef_enabled := True\<rparr>
      in case ip of None \<Rightarrow> Inr endpoint
         | Some ip_text \<Rightarrow>
             if ip_text = [] \<or> ip_text = ''*'' \<or> ip_text = ''any'' \<or> ip_text = ''0.0.0.0'' then Inr endpoint
             else case inet_pton ip_text of None \<Rightarrow> Inl BadAddress
                  | Some address \<Rightarrow> Inr (endpoint\<lparr>ef_ip := address, ef_match_ip := True\<rparr>))"

section \<open>Bring-up of the device\<close>

text \<open>A flow rule of the hardware: the values and masks of the fields it compares, and the queue it directs to.\<close>

record FlowRule =
  fr_proto :: u8
  fr_proto_mask :: u8
  fr_dst_addr :: u32
  fr_dst_addr_mask :: u32
  fr_dst_port :: u16
  fr_dst_port_mask :: u16
  fr_queue :: u16

record DpdkLibrary =
  rte_eal_init :: "string list \<Rightarrow> int"
  rte_eth_dev_count_avail :: nat
  rte_eth_dev_is_valid_port :: "u16 \<Rightarrow> bool"
  rte_eth_dev_info_get :: "u16 \<Rightarrow> int \<times> nat"
  rte_flow_isolate :: "u16 \<Rightarrow> bool \<Rightarrow> int"
  rte_eth_dev_socket_id :: "u16 \<Rightarrow> int"
  rte_socket_id :: int
  rte_pktmbuf_pool_create :: "u16 \<Rightarrow> u32 \<Rightarrow> u32 \<Rightarrow> int \<Rightarrow> bool"
  rte_eth_dev_configure :: "u16 \<Rightarrow> int"
  rte_eth_dev_adjust_nb_rx_tx_desc :: "u16 \<Rightarrow> u16 \<Rightarrow> int \<times> u16"
  rte_eth_rx_queue_setup :: "u16 \<Rightarrow> u16 \<Rightarrow> u16 \<Rightarrow> int \<Rightarrow> int"
  rte_flow_validate :: "u16 \<Rightarrow> FlowRule \<Rightarrow> int"
  rte_flow_create :: "u16 \<Rightarrow> FlowRule \<Rightarrow> bool"
  rte_eth_dev_start :: "u16 \<Rightarrow> int"
  rte_eth_promiscuous_enable :: "u16 \<Rightarrow> int"
  rte_eth_allmulticast_enable :: "u16 \<Rightarrow> int"
  rte_flow_destroy :: "u16 \<Rightarrow> FlowRule \<Rightarrow> int"
  rte_eth_dev_stop :: "u16 \<Rightarrow> int"
  rte_eth_dev_close :: "u16 \<Rightarrow> int"

text \<open>What the calls have left in the process and the device. A call that returns an error has no effect here, also where the sources discard its
  result.\<close>

record DpdkDevice =
  dv_eal_initialized :: bool
  dv_flow_isolated :: bool
  dv_mempool :: bool
  dv_configured :: bool
  dv_flows :: "FlowRule list"
  dv_started :: bool
  dv_promiscuous :: bool
  dv_all_multicast :: bool

text \<open>A step of the bring-up fails with an error or yields a value, and changes the device.\<close>

type_synonym 'a bringup = "DpdkDevice \<Rightarrow> (DpdkError + 'a) \<times> DpdkDevice"

definition step_then :: "'a bringup \<Rightarrow> ('a \<Rightarrow> 'b bringup) \<Rightarrow> 'b bringup" where
  "step_then m f dv = (case m dv of (Inl e, dv1) \<Rightarrow> (Inl e, dv1) | (Inr x, dv1) \<Rightarrow> f x dv1)"

definition setting :: "DpdkError + 'a \<Rightarrow> 'a bringup" where
  "setting r dv = (r, dv)"

definition throw_if :: "bool \<Rightarrow> DpdkError \<Rightarrow> unit bringup" where
  "throw_if c e dv = (if c then Inl e else Inr (), dv)"

definition change :: "(DpdkDevice \<Rightarrow> DpdkDevice) \<Rightarrow> unit bringup" where
  "change f dv = (Inr (), f dv)"

definition initializeEalOnce :: "DpdkLibrary \<Rightarrow> environment \<Rightarrow> unit bringup" where
  "initializeEalOnce lib getenv dv =
     (if dv_eal_initialized dv then (Inr (), dv)
      else
        step_then (setting (case getenv ''ASTRA_DPDK_EAL_ARGS'' of None \<Rightarrow> Inr [] | Some env_args \<Rightarrow> splitArgs env_args)) (\<lambda>extra.
        step_then (throw_if (rte_eal_init lib (''astra-dpdk'' # extra) < 0) EalInitFailed) (\<lambda>_.
        change (dv_eal_initialized_update (\<lambda>_. True)))) dv)"

definition enableFlowIsolation :: "DpdkLibrary \<Rightarrow> u16 \<Rightarrow> unit bringup" where
  "enableFlowIsolation lib port_id =
     step_then (throw_if (rte_flow_isolate lib port_id True \<noteq> 0) FlowIsolateFailed) (\<lambda>_.
     change (dv_flow_isolated_update (\<lambda>_. True)))"

definition endpointRule :: "u16 \<Rightarrow> EndpointFilter \<Rightarrow> FlowRule" where
  "endpointRule queue_id endpoint =
     \<lparr>fr_proto = IPPROTO_UDP, fr_proto_mask = 0xFF,
      fr_dst_addr = (if ef_match_ip endpoint then ef_ip endpoint else 0), fr_dst_addr_mask = (if ef_match_ip endpoint then u32_max else 0),
      fr_dst_port = ef_port endpoint, fr_dst_port_mask = u16_max, fr_queue = queue_id\<rparr>"

definition installEndpointFlow :: "DpdkLibrary \<Rightarrow> u16 \<Rightarrow> u16 \<Rightarrow> EndpointFilter \<Rightarrow> unit bringup" where
  "installEndpointFlow lib port_id queue_id endpoint =
     (let rule = endpointRule queue_id endpoint
      in step_then (throw_if (rte_flow_validate lib port_id rule \<noteq> 0) FlowValidateFailed) (\<lambda>_.
         step_then (throw_if (\<not> rte_flow_create lib port_id rule) FlowCreateFailed) (\<lambda>_.
         change (dv_flows_update (\<lambda>flows. flows @ [rule])))))"

definition installFlowFilters :: "DpdkLibrary \<Rightarrow> u16 \<Rightarrow> u16 \<Rightarrow> EndpointFilter \<Rightarrow> EndpointFilter \<Rightarrow> unit bringup" where
  "installFlowFilters lib port_id queue_id line_a line_b =
     step_then (installEndpointFlow lib port_id queue_id line_a) (\<lambda>_.
     if ef_enabled line_b then installEndpointFlow lib port_id queue_id line_b else setting (Inr ()))"

text \<open>The settings that the receiver keeps, and the constructor with its member initializers.\<close>

record DpdkSettings =
  ds_line_a :: EndpointFilter
  ds_line_b :: EndpointFilter
  ds_burst_size :: nat
  ds_latency_mode :: LatencyMode
  ds_port_id :: u16
  ds_queue_id :: u16
  ds_rx_desc :: u16
  ds_socket_id :: int
  ds_mempool_size :: u32
  ds_mbuf_cache_size :: u32
  ds_promiscuous :: bool
  ds_all_multicast :: bool
  ds_flow_filter :: bool

definition initialize :: "DpdkLibrary \<Rightarrow> environment \<Rightarrow> DpdkSettings \<Rightarrow> DpdkSettings bringup" where
  "initialize lib getenv s =
     step_then (initializeEalOnce lib getenv) (\<lambda>_.
     step_then (setting (envUnsigned getenv ''ASTRA_DPDK_PORT_ID'' 0 0 (ucast u16_max))) (\<lambda>port.
     step_then (setting (envUnsigned getenv ''ASTRA_DPDK_QUEUE_ID'' 0 0 (ucast u16_max))) (\<lambda>queue.
     let port_id = ucast port :: u16; queue_id = ucast queue :: u16 in
     step_then (throw_if (queue_id \<noteq> 0) QueueNotZero) (\<lambda>_.
     step_then (throw_if (rte_eth_dev_count_avail lib = 0) NoPorts) (\<lambda>_.
     step_then (throw_if (\<not> rte_eth_dev_is_valid_port lib port_id) InvalidPort) (\<lambda>_.
     let (info_ret, max_rx_queues) = rte_eth_dev_info_get lib port_id in
     step_then (throw_if (info_ret \<noteq> 0) InfoFailed) (\<lambda>_.
     step_then (throw_if (max_rx_queues < 1) NoRxQueues) (\<lambda>_.
     step_then (setting (envUnsigned getenv ''ASTRA_DPDK_RX_DESC'' kDefaultRxDesc 1 (ucast u16_max))) (\<lambda>desc.
     step_then (setting (envUnsigned getenv ''ASTRA_DPDK_MEMPOOL_SIZE'' kDefaultMempoolSize 1024 (ucast u32_max))) (\<lambda>pool_size.
     step_then (setting (envUnsigned getenv ''ASTRA_DPDK_MBUF_CACHE_SIZE'' kDefaultMbufCacheSize 0 (ucast u32_max))) (\<lambda>cache_size.
     step_then (setting (envFlag getenv ''ASTRA_DPDK_PROMISCUOUS'' False)) (\<lambda>promiscuous.
     step_then (setting (envFlag getenv ''ASTRA_DPDK_ALLMULTICAST'' True)) (\<lambda>all_multicast.
     step_then (setting (envFlag getenv ''ASTRA_DPDK_FLOW_FILTER'' True)) (\<lambda>flow_filter.
     step_then (if flow_filter then enableFlowIsolation lib port_id else setting (Inr ())) (\<lambda>_.
     step_then (setting (if getenv ''ASTRA_DPDK_SOCKET_ID'' \<noteq> None
         then map_sum id uint (envUnsigned getenv ''ASTRA_DPDK_SOCKET_ID'' 0 0 0x7FFFFFFF)
         else Inr (rte_eth_dev_socket_id lib port_id))) (\<lambda>socket.
     let socket_id = (if socket < 0 then rte_socket_id lib else socket) in
     step_then (throw_if (\<not> rte_pktmbuf_pool_create lib port_id (ucast pool_size) (ucast cache_size) socket_id) PoolFailed) (\<lambda>_.
     step_then (change (dv_mempool_update (\<lambda>_. True))) (\<lambda>_.
     step_then (throw_if (rte_eth_dev_configure lib port_id < 0) ConfigureFailed) (\<lambda>_.
     step_then (change (dv_configured_update (\<lambda>_. True))) (\<lambda>_.
     let (adjust_ret, rx_desc) = rte_eth_dev_adjust_nb_rx_tx_desc lib port_id (ucast desc) in
     step_then (throw_if (adjust_ret < 0) AdjustFailed) (\<lambda>_.
     step_then (throw_if (rte_eth_rx_queue_setup lib port_id queue_id rx_desc socket_id < 0) QueueSetupFailed) (\<lambda>_.
     step_then (if flow_filter then installFlowFilters lib port_id queue_id (ds_line_a s) (ds_line_b s) else setting (Inr ())) (\<lambda>_.
     step_then (throw_if (rte_eth_dev_start lib port_id < 0) StartFailed) (\<lambda>_.
     step_then (change (dv_started_update (\<lambda>_. True))) (\<lambda>_.
     step_then (change (dv_promiscuous_update (\<lambda>on. on \<or> promiscuous \<and> rte_eth_promiscuous_enable lib port_id = 0))) (\<lambda>_.
     step_then (change (dv_all_multicast_update (\<lambda>on. on \<or> all_multicast \<and> rte_eth_allmulticast_enable lib port_id = 0))) (\<lambda>_.
     setting (Inr (s\<lparr>ds_port_id := port_id, ds_queue_id := queue_id, ds_rx_desc := rx_desc, ds_socket_id := socket_id,
       ds_mempool_size := ucast pool_size, ds_mbuf_cache_size := ucast cache_size, ds_promiscuous := promiscuous,
       ds_all_multicast := all_multicast, ds_flow_filter := flow_filter\<rparr>)))))))))))))))))))))))))))))"

definition memberSettings :: "EndpointFilter \<Rightarrow> EndpointFilter \<Rightarrow> nat \<Rightarrow> LatencyMode \<Rightarrow> DpdkSettings" where
  "memberSettings line_a line_b burst_size latency_mode =
     \<lparr>ds_line_a = line_a, ds_line_b = line_b, ds_burst_size = burst_size, ds_latency_mode = latency_mode, ds_port_id = 0, ds_queue_id = 0,
      ds_rx_desc = ucast kDefaultRxDesc, ds_socket_id = 0, ds_mempool_size = ucast kDefaultMempoolSize,
      ds_mbuf_cache_size = ucast kDefaultMbufCacheSize, ds_promiscuous = False, ds_all_multicast = True, ds_flow_filter = True\<rparr>"

text \<open>Both constructors: the second line is given or left out.\<close>

definition dpdkConstruct ::
    "DpdkLibrary \<Rightarrow> environment \<Rightarrow> (string \<Rightarrow> u32 option) \<Rightarrow> string option \<times> u16 \<Rightarrow> (string option \<times> u16) option \<Rightarrow> DpdkSettings bringup" where
  "dpdkConstruct lib getenv inet_pton endpoint_a endpoint_b =
     step_then (setting (makeEndpoint inet_pton (fst endpoint_a) (snd endpoint_a))) (\<lambda>line_a.
     step_then (setting (case endpoint_b of None \<Rightarrow> Inr noEndpoint | Some (ip, port) \<Rightarrow> makeEndpoint inet_pton ip port)) (\<lambda>line_b.
     step_then (setting (dpdkBurstSize getenv)) (\<lambda>burst_size.
     step_then (setting (dpdkLatencyMode getenv)) (\<lambda>latency_mode.
     initialize lib getenv (memberSettings line_a line_b (unat burst_size) latency_mode)))))"

text \<open>The device part of the destructor. The results of the calls are discarded; the next call is made in any case.\<close>

definition destroyFlowFilters :: "DpdkLibrary \<Rightarrow> u16 \<Rightarrow> DpdkDevice \<Rightarrow> DpdkDevice" where
  "destroyFlowFilters lib port_id dv =
     (let dv1 = dv\<lparr>dv_flows := filter (\<lambda>flow. rte_flow_destroy lib port_id flow \<noteq> 0) (dv_flows dv)\<rparr>
      in if dv_flow_isolated dv1 then dv1\<lparr>dv_flow_isolated := (rte_flow_isolate lib port_id False \<noteq> 0)\<rparr> else dv1)"

definition releaseDevice :: "DpdkLibrary \<Rightarrow> u16 \<Rightarrow> DpdkDevice \<Rightarrow> DpdkDevice" where
  "releaseDevice lib port_id dv =
     (let dv1 = destroyFlowFilters lib port_id dv;
          dv2 = (if dv_started dv1 then dv1\<lparr>dv_started := (rte_eth_dev_stop lib port_id \<noteq> 0)\<rparr> else dv1);
          dv3 = (if dv_configured dv2 then dv2\<lparr>dv_configured := (rte_eth_dev_close lib port_id \<noteq> 0)\<rparr> else dv2)
      in if dv_mempool dv3 then dv3\<lparr>dv_mempool := False\<rparr> else dv3)"

section \<open>Polling\<close>

text \<open>A packet buffer of the memory pool: its identity, whether it is one segment, and its frame.\<close>

record DpdkMbuf =
  mb_id :: nat
  mb_contiguous :: bool
  mb_frame :: "u8 list"

text \<open>The receiver in operation. The last three fields are what it sees of and does to its surroundings: the bursts that the
  coming calls of \<open>rte_eth_rx_burst\<close> return (none when the list is used up), the buffers given back with \<open>rte_pktmbuf_free\<close>, oldest
  first, and how often the clock has been read. \<open>dp_burst\<close> holds the entries of \<open>burst_\<close> written so far.\<close>

record DpdkImpl =
  dp_settings :: DpdkSettings
  dp_timestamping :: bool
  dp_burst :: "DpdkMbuf list"
  dp_burst_index :: nat
  dp_burst_count :: nat
  dp_burst_ticks :: u64
  dp_delivered :: "DpdkMbuf option"
  dp_packets_a :: u64
  dp_packets_b :: u64
  dp_filtered :: u64
  dp_malformed :: u64
  dp_fast_path :: u64
  dp_slow_path :: u64
  dp_poll_count :: u64
  dp_empty_poll_count :: u64
  dp_polls :: "DpdkMbuf list list"
  dp_freed :: "DpdkMbuf list"
  dp_clock :: nat

definition newDpdkImpl :: "DpdkSettings \<Rightarrow> DpdkMbuf list list \<Rightarrow> DpdkImpl" where
  "newDpdkImpl settings polls =
     \<lparr>dp_settings = settings, dp_timestamping = True, dp_burst = [], dp_burst_index = 0, dp_burst_count = 0, dp_burst_ticks = 0,
      dp_delivered = None, dp_packets_a = 0, dp_packets_b = 0, dp_filtered = 0, dp_malformed = 0, dp_fast_path = 0, dp_slow_path = 0,
      dp_poll_count = 0, dp_empty_poll_count = 0, dp_polls = polls, dp_freed = [], dp_clock = 0\<rparr>"

definition free_mbuf :: "DpdkImpl \<Rightarrow> DpdkMbuf \<Rightarrow> DpdkImpl" where
  "free_mbuf s m = s\<lparr>dp_freed := dp_freed s @ [m]\<rparr>"

definition releaseDelivered :: "DpdkImpl \<Rightarrow> DpdkImpl" where
  "releaseDelivered s = (case dp_delivered s of None \<Rightarrow> s | Some m \<Rightarrow> (free_mbuf s m)\<lparr>dp_delivered := None\<rparr>)"

text \<open>The loop of \<open>releaseCachedBurst\<close> over the entries that are left.\<close>

fun release_loop :: "nat \<Rightarrow> DpdkImpl \<Rightarrow> DpdkImpl" where
  "release_loop 0 s = s"
| "release_loop (Suc left) s =
     release_loop left ((free_mbuf s (dp_burst s ! dp_burst_index s))\<lparr>dp_burst_index := dp_burst_index s + 1\<rparr>)"

definition releaseCachedBurst :: "DpdkImpl \<Rightarrow> DpdkImpl" where
  "releaseCachedBurst s =
     (release_loop (dp_burst_count s - dp_burst_index s) s)\<lparr>dp_burst_index := 0, dp_burst_count := 0\<rparr>"

definition receiveBurst :: "(nat \<Rightarrow> u64) \<Rightarrow> DpdkImpl \<Rightarrow> bool \<times> DpdkImpl" where
  "receiveBurst rdtsc s =
     (let stamped = (dp_timestamping s \<and> ds_latency_mode (dp_settings s) = BurstMode);
          s1 = s\<lparr>dp_burst_index := 0, dp_burst_count := 0, dp_burst_ticks := (if stamped then rdtsc (dp_clock s) else 0),
                 dp_clock := (if stamped then dp_clock s + 1 else dp_clock s)\<rparr>;
          received = (case dp_polls s1 of [] \<Rightarrow> [] | r # _ \<Rightarrow> r);
          s2 = s1\<lparr>dp_polls := drop 1 (dp_polls s1), dp_burst := received @ drop (length received) (dp_burst s1),
                  dp_poll_count := dp_poll_count s1 + 1\<rparr>
      in if received = [] then (False, s2\<lparr>dp_empty_poll_count := dp_empty_poll_count s2 + 1\<rparr>)
         else (True, s2\<lparr>dp_burst_count := length received\<rparr>))"

definition dpdk_parse :: "DpdkSettings \<Rightarrow> DpdkMbuf \<Rightarrow> ParsedPacket" where
  "dpdk_parse settings m =
     (if \<not> mb_contiguous m then rejected_frame Malformed False
      else parseFast (ds_line_a settings) (ds_line_b settings) (mb_frame m))"

text \<open>One round of the loop of \<open>next\<close>, for the buffer at \<open>burst_index_\<close>: a packet, or \<open>None\<close> for \<open>continue\<close>.\<close>

definition dpdk_take :: "(nat \<Rightarrow> u64) \<Rightarrow> DpdkImpl \<Rightarrow> PacketView option \<times> DpdkImpl" where
  "dpdk_take rdtsc s =
     (let m = dp_burst s ! dp_burst_index s;
          s1 = s\<lparr>dp_burst_index := dp_burst_index s + 1\<rparr>;
          reads = (dp_timestamping s1 \<and> ds_latency_mode (dp_settings s1) \<noteq> BurstMode);
          ticks = (if dp_timestamping s1 then (if reads then rdtsc (dp_clock s1) else dp_burst_ticks s1) else 0);
          s2 = s1\<lparr>dp_clock := (if reads then dp_clock s1 + 1 else dp_clock s1)\<rparr>;
          parsed = dpdk_parse (dp_settings s2) m;
          s3 = (if pp_fast_path parsed then s2\<lparr>dp_fast_path := dp_fast_path s2 + 1\<rparr>
                else s2\<lparr>dp_slow_path := dp_slow_path s2 + 1\<rparr>)
      in case pp_status parsed of
           Filtered \<Rightarrow> (None, free_mbuf (s3\<lparr>dp_filtered := dp_filtered s3 + 1\<rparr>) m)
         | Malformed \<Rightarrow> (None, free_mbuf (s3\<lparr>dp_malformed := dp_malformed s3 + 1\<rparr>) m)
         | Accepted \<Rightarrow>
             let s4 = (if pp_line_index parsed = 0 then s3\<lparr>dp_packets_a := dp_packets_a s3 + 1\<rparr>
                       else s3\<lparr>dp_packets_b := dp_packets_b s3 + 1\<rparr>)
             in (Some \<lparr>pv_data = map_option (\<lambda>payload. take (pp_payload_size parsed) (drop payload (mb_frame m))) (pp_payload parsed),
                       pv_receive_start_ticks = ticks\<rparr>,
                 s4\<lparr>dp_delivered := Some m\<rparr>))"

text \<open>Buffers still to be looked at: the rest of the burst and the coming polls.\<close>

definition dp_left :: "DpdkImpl \<Rightarrow> nat" where
  "dp_left s = (dp_burst_count s - dp_burst_index s) + sum_list (map length (dp_polls s))"

definition dp_refill :: "(nat \<Rightarrow> u64) \<Rightarrow> DpdkImpl \<Rightarrow> bool \<times> DpdkImpl" where
  "dp_refill rdtsc s = (if dp_burst_index s \<ge> dp_burst_count s then receiveBurst rdtsc s else (True, s))"

lemma refill_left:
  assumes "dp_refill rdtsc s = (True, s1)"
  shows "dp_left s1 \<le> dp_left s" "dp_burst_index s1 < dp_burst_count s1"
  using assms by (cases "dp_polls s"; auto simp: dp_refill_def receiveBurst_def Let_def dp_left_def split: if_splits)+

lemma take_left:
  assumes "dpdk_take rdtsc s = (r, s1)" "dp_burst_index s < dp_burst_count s"
  shows "dp_left s1 < dp_left s"
  using assms by (auto simp: dpdk_take_def Let_def dp_left_def free_mbuf_def split: ParseStatus.splits if_splits)

lemma round_left:
  assumes "(True, s1) = dp_refill rdtsc s" "(r, s2) = dpdk_take rdtsc s1"
  shows "dp_left s2 < dp_left s"
  using refill_left [OF assms(1) [symmetric]] take_left [OF assms(2) [symmetric]] by simp

function dpdk_loop :: "(nat \<Rightarrow> u64) \<Rightarrow> DpdkImpl \<Rightarrow> PacketView option \<times> DpdkImpl" where
  "dpdk_loop rdtsc s =
     (case dp_refill rdtsc s of
        (False, s1) \<Rightarrow> (None, s1)
      | (True, s1) \<Rightarrow>
          (case dpdk_take rdtsc s1 of (Some packet, s2) \<Rightarrow> (Some packet, s2) | (None, s2) \<Rightarrow> dpdk_loop rdtsc s2))"
  by pat_completeness auto

termination
  by (relation "measure (\<lambda>(_, s). dp_left s)") (auto dest: round_left)

declare dpdk_loop.simps [simp del]

definition dpdk_next :: "(nat \<Rightarrow> u64) \<Rightarrow> DpdkImpl \<Rightarrow> PacketView option \<times> DpdkImpl" where
  "dpdk_next rdtsc s = dpdk_loop rdtsc (releaseDelivered s)"

text \<open>The buffers the destructor gives back.\<close>

definition releaseBuffers :: "DpdkImpl \<Rightarrow> DpdkImpl" where
  "releaseBuffers s = releaseCachedBurst (releaseDelivered s)"

end
