(* ===== verification/DpdkFramesCorrect.thy ===== *)
theory DpdkFramesCorrect
  imports DpdkFrames
begin

text \<open>
  What the frame parsers of the kernel-bypass receiver accept: the two parsers agree on every packet they deliver, both deliver
  exactly what a layer-by-layer decapsulation of the frame gives, and a payload put into a UDP/IPv4/Ethernet frame comes out
  unchanged, whatever tags, IPv4 options and padding the frame has.
\<close>

section \<open>Decapsulation layer by layer\<close>

text \<open>Bytes from an EtherType on, behind at most \<open>n\<close> VLAN tags.\<close>

fun untagged :: "nat \<Rightarrow> u8 list \<Rightarrow> u8 list option" where
  "untagged 0 bs = Some bs"
| "untagged (Suc n) bs =
     (if \<not> isVlanEtherType (readU16BE bs 0) then Some bs
      else if length bs < 6 then None else untagged n (drop 4 bs))"

definition ether_layer :: "u8 list \<Rightarrow> u8 list option" where
  "ether_layer frame =
     (if length frame < 14 then None
      else case untagged 2 (drop 12 frame) of None \<Rightarrow> None
           | Some bs \<Rightarrow> if readU16BE bs 0 = RTE_ETHER_TYPE_IPV4 then Some (drop 2 bs) else None)"

definition ipv4_layer :: "u8 list \<Rightarrow> (u32 \<times> u8 list) option" where
  "ipv4_layer p =
     (let h = 4 * unat (p ! 0 AND 0x0F); n = unat (readU16BE p 2)
      in if 20 \<le> length p \<and> drop_bit 4 (p ! 0) = 4 \<and> 20 \<le> h \<and> h \<le> n \<and> n \<le> length p
            \<and> readU16BE p 6 AND 0x3FFF = 0 \<and> p ! 9 = IPPROTO_UDP
         then Some (readU32BE p 16, take (n - h) (drop h p)) else None)"

definition udp_layer :: "u8 list \<Rightarrow> (u16 \<times> u8 list) option" where
  "udp_layer d =
     (let n = unat (readU16BE d 4)
      in if 8 \<le> length d \<and> 8 \<le> n \<and> n \<le> length d then Some (readU16BE d 2, take (n - 8) (drop 8 d)) else None)"

definition decapsulate :: "u8 list \<Rightarrow> (u32 \<times> u16 \<times> u8 list) option" where
  "decapsulate frame =
     (case ether_layer frame of None \<Rightarrow> None
      | Some p \<Rightarrow> (case ipv4_layer p of None \<Rightarrow> None
      | Some (dst, d) \<Rightarrow> (case udp_layer d of None \<Rightarrow> None
      | Some (port, payload) \<Rightarrow> Some (dst, port, payload))))"

text \<open>The line a decapsulated datagram belongs to, line A first.\<close>

definition line_of :: "EndpointFilter \<Rightarrow> EndpointFilter \<Rightarrow> u32 \<Rightarrow> u16 \<Rightarrow> u8 option" where
  "line_of a b dst port = (if ef_matches a dst port then Some 0 else if ef_matches b dst port then Some 1 else None)"

definition expected_delivery :: "EndpointFilter \<Rightarrow> EndpointFilter \<Rightarrow> u8 list \<Rightarrow> (u8 \<times> u8 list) option" where
  "expected_delivery a b frame =
     (case decapsulate frame of None \<Rightarrow> None
      | Some (dst, port, payload) \<Rightarrow>
          if length payload > kMaxPacketSize then None
          else map_option (\<lambda>line. (line, payload)) (line_of a b dst port))"

text \<open>What a parse result delivers from its frame.\<close>

definition delivery :: "u8 list \<Rightarrow> ParsedPacket \<Rightarrow> (u8 \<times> u8 list) option" where
  "delivery frame p =
     (if pp_status p = Accepted then Some (pp_line_index p, take (pp_payload_size p) (drop (the (pp_payload p)) frame)) else None)"

lemma delivery_simps [simp]:
  "delivery frame (rejected_frame Malformed f) = None" "delivery frame (rejected_frame Filtered f) = None"
  "delivery frame (accepted_at i n l f) = Some (l, take n (drop i frame))"
  by (simp_all add: delivery_def)

lemma same_delivery: "same_packet p q \<Longrightarrow> delivery frame p = delivery frame q"
  by (cases p; cases q) (simp add: same_packet_def delivery_def)

section \<open>Layers against offsets\<close>

text \<open>Offsets stay sums.\<close>

declare add_2_eq_Suc [simp del] add_2_eq_Suc' [simp del]

lemma readU16BE_drop: "o' \<le> length bs \<Longrightarrow> readU16BE (drop o' bs) i = readU16BE bs (o' + i)"
  by (simp add: readU16BE_def ac_simps)

lemma readU32BE_drop: "o' \<le> length bs \<Longrightarrow> readU32BE (drop o' bs) i = readU32BE bs (o' + i)"
  by (simp add: readU32BE_def ac_simps)

lemma readU16BE_take: "i + 2 \<le> n \<Longrightarrow> readU16BE (take n bs) i = readU16BE bs i"
  by (simp add: readU16BE_def)

text \<open>The loop over the tags and the recursive definition see the same bytes; \<open>off\<close> is behind the EtherType.\<close>

lemma vlan_untagged:
  assumes "2 \<le> off" "off \<le> length frame" "t = readU16BE frame (off - 2)"
  shows "(case vlan_loop n frame off t of None \<Rightarrow> untagged n (drop (off - 2) frame) = None
     | Some (off', t') \<Rightarrow> untagged n (drop (off - 2) frame) = Some (drop (off' - 2) frame)
         \<and> 2 \<le> off' \<and> off' \<le> length frame \<and> t' = readU16BE frame (off' - 2))"
  using assms
proof (induction n arbitrary: off t)
  case (Suc n)
  have e: "readU16BE (drop (off - 2) frame) 0 = t" using Suc.prems by (simp add: readU16BE_drop)
  show ?case
  proof (cases "isVlanEtherType t \<and> off + 4 \<le> length frame")
    case True
    then have "untagged (Suc n) (drop (off - 2) frame) = untagged n (drop (off + 4 - 2) frame)"
      using Suc.prems e True by auto
    then show ?thesis using Suc.IH [of "off + 4" "readU16BE frame (off + 2)"] Suc.prems True
      by (simp del: untagged.simps add: add.commute [of 2 off] split: option.splits prod.splits)
  next
    case False
    then show ?thesis using Suc.prems e by auto
  qed
qed simp

text \<open>The IPv4 and UDP checks at an offset are those of the two layers behind it.\<close>

lemma udp_at_offset:
  assumes "udp + m \<le> length frame" and d: "d = take m (drop udp frame)"
  shows "length d = m" "8 \<le> m \<Longrightarrow> readU16BE d 2 = readU16BE frame (udp + 2)" "8 \<le> m \<Longrightarrow> readU16BE d 4 = readU16BE frame (udp + 4)"
    "8 + k \<le> m \<Longrightarrow> take k (drop 8 d) = take k (drop (udp + 8) frame)"
  using assms(1) unfolding d by (auto simp: readU16BE_take readU16BE_drop drop_take min_def ac_simps)

lemma general_ipv4_layers:
  assumes "off \<le> length frame"
  shows "delivery frame (general_ipv4 a b frame off RTE_ETHER_TYPE_IPV4) =
    (case ipv4_layer (drop off frame) of None \<Rightarrow> None
     | Some (dst, d) \<Rightarrow> (case udp_layer d of None \<Rightarrow> None
     | Some (port, payload) \<Rightarrow> if length payload > kMaxPacketSize then None
         else map_option (\<lambda>line. (line, payload)) (line_of a b dst port)))"
proof -
  define p where "p = drop off frame"
  define h where "h = unat (frame ! off AND 0x0F) * 4"
  define n where "n = unat (readU16BE frame (off + 2))"
  have r: "p ! 0 = frame ! off" "p ! 9 = frame ! (off + 9)" "readU16BE p 2 = readU16BE frame (off + 2)"
    "readU16BE p 6 = readU16BE frame (off + 6)" "readU32BE p 16 = readU32BE frame (off + 16)" "length p = length frame - off"
    using assms by (simp_all add: p_def readU16BE_drop readU32BE_drop)
  have five: "unat (frame ! off AND 0x0F) < 5 \<longleftrightarrow> h < 20" by (auto simp: h_def)
  have m: "kIpv4FragmentOffsetMask OR kIpv4MoreFragmentsFlag = 0x3FFF" by (simp add: frame_constants)
  show ?thesis
  proof (cases "off + 20 \<le> length frame \<and> drop_bit 4 (frame ! off) = 4 \<and> 20 \<le> h \<and> h \<le> n \<and> off + n \<le> length frame
      \<and> readU16BE frame (off + 6) AND 0x3FFF = 0 \<and> frame ! (off + 9) = IPPROTO_UDP")
    case True
    define d where "d = take (n - h) (drop (off + h) frame)"
    define k where "k = unat (readU16BE frame (off + h + 4))"
    have u: "length d = n - h" "8 \<le> n - h \<Longrightarrow> readU16BE d 2 = readU16BE frame (off + h + 2)"
      "8 \<le> n - h \<Longrightarrow> readU16BE d 4 = readU16BE frame (off + h + 4)"
      "8 + j \<le> n - h \<Longrightarrow> take j (drop 8 d) = take j (drop (off + h + 8) frame)" for j
      using True udp_at_offset [of "off + h" "n - h" frame d] d_def by simp_all
    have ip: "ipv4_layer p = Some (readU32BE frame (off + 16), d)"
      using True assms by (simp add: ipv4_layer_def r d_def Let_def mult.commute [of 4] h_def [symmetric] n_def [symmetric] add.commute)
        (simp add: p_def add.commute le_diff_conv2)
    have g: "general_ipv4 a b frame off RTE_ETHER_TYPE_IPV4 =
      (if off + h + 8 > length frame \<or> k < 8 \<or> off + h + k > off + n \<or> k - 8 > kMaxPacketSize then rejected_frame Malformed False
       else let dst = readU32BE frame (off + 16); port = readU16BE frame (off + h + 2)
            in if ef_matches a dst port then accepted_at (off + h + 8) (k - 8) 0 False
               else if ef_matches b dst port then accepted_at (off + h + 8) (k - 8) 1 False else rejected_frame Filtered False)"
      using True by (auto simp: general_ipv4_def five Let_def h_def [symmetric] n_def [symmetric] k_def m)
    show ?thesis
    proof (cases "8 \<le> k \<and> k \<le> n - h")
      case k: True
      then have "udp_layer d = Some (readU16BE frame (off + h + 2), take (k - 8) (drop (off + h + 8) frame))"
        using u k_def by (simp add: udp_layer_def)
      moreover have "length (take (k - 8) (drop (off + h + 8) frame)) = k - 8" using k True by (auto simp: min_def)
      ultimately show ?thesis unfolding p_def [symmetric] g ip using k True by (auto simp: line_of_def Let_def)
    next
      case False
      then have "udp_layer d = None" using u k_def by (auto simp: udp_layer_def Let_def)
      then show ?thesis unfolding p_def [symmetric] g ip using False True by auto
    qed
  next
    case False
    then have "ipv4_layer p = None"
      using assms by (auto simp: ipv4_layer_def r Let_def mult.commute [of 4] h_def [symmetric] n_def [symmetric])
    moreover have "delivery frame (general_ipv4 a b frame off RTE_ETHER_TYPE_IPV4) = None"
      using False by (auto simp: general_ipv4_def five m Let_def h_def [symmetric] n_def [symmetric])
    ultimately show ?thesis by (simp add: p_def)
  qed
qed

lemma general_ipv4_other: "t \<noteq> RTE_ETHER_TYPE_IPV4 \<Longrightarrow> delivery frame (general_ipv4 a b frame off t) = None"
  by (simp add: general_ipv4_def)

lemma general_delivery: "delivery frame (parseGeneral a b frame) = expected_delivery a b frame"
proof (cases "length frame < 14")
  case True
  then show ?thesis by (simp add: parseGeneral_def expected_delivery_def decapsulate_def ether_layer_def)
next
  case False
  note V = vlan_untagged [of 14 frame "readU16BE frame 12" 2]
  show ?thesis
  proof (cases "vlan_loop 2 frame 14 (readU16BE frame 12)")
    case None
    then show ?thesis using V False
      by (simp add: parseGeneral_def expected_delivery_def decapsulate_def ether_layer_def)
  next
    case (Some r)
    obtain off t where r: "r = (off, t)" by (cases r)
    have U: "untagged 2 (drop 12 frame) = Some (drop (off - 2) frame)" "2 \<le> off" "off \<le> length frame" "t = readU16BE frame (off - 2)"
      using V False Some r by simp_all
    then have E: "ether_layer frame = (if t = RTE_ETHER_TYPE_IPV4 then Some (drop off frame) else None)"
      using False by (auto simp: ether_layer_def readU16BE_drop)
    show ?thesis
    proof (cases "t = RTE_ETHER_TYPE_IPV4")
      case True
      then show ?thesis using Some r False E general_ipv4_layers [OF U(3), of a b]
        by (simp add: parseGeneral_def expected_delivery_def decapsulate_def split: option.split prod.split)
    next
      case False14: False
      then show ?thesis using Some r False E
        by (simp add: parseGeneral_def expected_delivery_def decapsulate_def general_ipv4_other)
    qed
  qed
qed

lemma not_accepted_delivery: "pp_status p \<noteq> Accepted \<Longrightarrow> delivery frame p = None"
  by (simp add: delivery_def)

lemma fast_delivery: "delivery frame (parseFast a b frame) = expected_delivery a b frame"
proof (cases "readU16BE frame 12 = RTE_ETHER_TYPE_IPV4 \<and> no_udp_room frame")
  case True
  then have "delivery frame (parseGeneral a b frame) = None"
  proof (cases "length frame < 14")
    case False
    then show ?thesis using general_short [of frame a b] True by (intro not_accepted_delivery) auto
  qed (simp add: parseGeneral_def)
  then show ?thesis using True by (simp add: fast_short general_delivery [of frame a b, symmetric])
next
  case False
  then show ?thesis using fast_agrees [OF False, of a b] by (simp add: same_delivery general_delivery)
qed

section \<open>Frames around a payload\<close>

definition udp_datagram :: "u16 \<Rightarrow> u16 \<Rightarrow> u16 \<Rightarrow> u8 list \<Rightarrow> u8 list" where
  "udp_datagram src_port dst_port checksum payload =
     be_bytes 2 src_port @ be_bytes 2 dst_port @ be_bytes 2 (of_nat (8 + length payload) :: u16) @ be_bytes 2 checksum @ payload"

text \<open>An unfragmented IPv4 packet; the bit \<open>df\<close> is the only flag that is free.\<close>

definition ipv4_packet :: "u8 \<Rightarrow> u16 \<Rightarrow> bool \<Rightarrow> u8 \<Rightarrow> u16 \<Rightarrow> u32 \<Rightarrow> u32 \<Rightarrow> u8 list \<Rightarrow> u8 list \<Rightarrow> u8 list" where
  "ipv4_packet tos ident df ttl checksum src dst options body =
     (let h = 20 + length options
      in [of_nat (0x40 + h div 4), tos] @ be_bytes 2 (of_nat (h + length body) :: u16) @ be_bytes 2 ident
         @ [if df then 0x40 else 0, 0, ttl, IPPROTO_UDP] @ be_bytes 2 checksum @ be_bytes 4 src @ be_bytes 4 dst @ options @ body)"

definition ether_frame :: "u8 list \<Rightarrow> (u16 \<times> u16) list \<Rightarrow> u8 list \<Rightarrow> u8 list" where
  "ether_frame macs tags body =
     macs @ concat (map (\<lambda>(tpid, tci). be_bytes 2 tpid @ be_bytes 2 tci) tags) @ be_bytes 2 RTE_ETHER_TYPE_IPV4 @ body"

lemma two_bytes: "be_bytes 2 w = [ucast (drop_bit 8 w), ucast w]"
  by (simp add: be_bytes_def upt_rec)

lemma readU16BE_here: "readU16BE (be_bytes 2 w @ bs) 0 = (w :: u16)"
proof -
  have "unat (readU16BE (be_bytes 2 w @ bs) 0) = unat w mod 65536"
    using readers_value(1) [of 0 "be_bytes 2 w @ bs"] be_value_bytes [of 2 w] by simp
  then show ?thesis using u16_less [of w] by (simp add: word_unat_eq_iff)
qed

lemma readU32BE_here: "readU32BE (be_bytes 4 w @ bs) 0 = (w :: u32)"
proof -
  have "unat (readU32BE (be_bytes 4 w @ bs) 0) = unat w mod 2 ^ 32"
    using readers_value(2) [of 0 "be_bytes 4 w @ bs"] be_value_bytes [of 4 w] by simp
  then show ?thesis using unsigned_less [of w, where 'a = nat] by (simp add: word_unat_eq_iff)
qed

text \<open>Fields behind a prefix of known length.\<close>

lemma read_behind:
  "length xs = i \<Longrightarrow> readU16BE (xs @ be_bytes 2 w @ bs) i = w" "length xs = i \<Longrightarrow> readU32BE (xs @ be_bytes 4 v @ bs) i = v"
  using readU16BE_drop [of i "xs @ be_bytes 2 w @ bs" 0] readU32BE_drop [of i "xs @ be_bytes 4 v @ bs" 0]
  by (simp_all add: readU16BE_here readU32BE_here)

lemma unat_of_nat_u16: "n < 65536 \<Longrightarrow> unat (of_nat n :: u16) = n"
  by (simp add: unat_of_nat)

lemma udp_layer_datagram:
  assumes "length payload \<le> 65000"
  shows "udp_layer (udp_datagram src_port dst_port checksum payload) = Some (dst_port, payload)"
proof -
  let ?d = "udp_datagram src_port dst_port checksum payload"
  have "readU16BE ?d 2 = dst_port" unfolding udp_datagram_def by (rule read_behind(1)) simp
  moreover have "readU16BE ?d 4 = of_nat (8 + length payload)"
    using read_behind(1) [of "be_bytes 2 src_port @ be_bytes 2 dst_port" 4] by (simp add: udp_datagram_def)
  then have "unat (readU16BE ?d 4) = 8 + length payload" using assms by (simp only: unat_of_nat_u16)
  ultimately show ?thesis by (simp add: udp_layer_def Let_def udp_datagram_def)
qed

lemma version_ihl_byte:
  assumes "5 \<le> q" "q < 16"
  shows "drop_bit 4 (of_nat (0x40 + q) :: u8) = 4" "unat ((of_nat (0x40 + q) :: u8) AND 0x0F) = q"
proof -
  have "q = 5 \<or> q = 6 \<or> q = 7 \<or> q = 8 \<or> q = 9 \<or> q = 10 \<or> q = 11 \<or> q = 12 \<or> q = 13 \<or> q = 14 \<or> q = 15"
    using assms by arith
  then show "drop_bit 4 (of_nat (0x40 + q) :: u8) = 4" "unat ((of_nat (0x40 + q) :: u8) AND 0x0F) = q"
    by (auto simp: drop_bit_eq_div)
qed

lemma ipv4_layer_packet:
  assumes "length options mod 4 = 0" "length options \<le> 40" "length body \<le> 65000"
  shows "ipv4_layer (ipv4_packet tos ident df ttl checksum src dst options body @ padding) = Some (dst, body)"
proof -
  define h where "h = 20 + length options"
  let ?p = "ipv4_packet tos ident df ttl checksum src dst options body @ padding"
  have q: "5 \<le> h div 4" "h div 4 < 16" "4 * (h div 4) = h" using assms(1,2) by (auto simp: h_def)
  have b0: "drop_bit 4 (?p ! 0) = 4" "4 * unat (?p ! 0 AND 0x0F) = h"
    using version_ihl_byte [OF q(1,2)] q(3) by (simp_all add: ipv4_packet_def Let_def h_def)
  have "readU16BE ?p 2 = of_nat (h + length body)"
    using read_behind(1) [of "[of_nat (0x40 + h div 4), tos]" 2] by (simp add: ipv4_packet_def Let_def h_def)
  moreover have "h + length body < 65536" using assms by (simp add: h_def)
  ultimately have n: "unat (readU16BE ?p 2) = h + length body" by (simp only: unat_of_nat_u16)
  have f: "readU16BE ?p 6 AND 0x3FFF = 0" by (cases df) (simp_all add: ipv4_packet_def Let_def two_bytes readU16BE_def)
  have u: "?p ! 9 = IPPROTO_UDP" by (simp add: ipv4_packet_def Let_def two_bytes)
  have d: "readU32BE ?p 16 = dst"
    using read_behind(2) [of "[of_nat (0x40 + h div 4), tos] @ be_bytes 2 (of_nat (h + length body) :: u16) @ be_bytes 2 ident
      @ [if df then 0x40 else 0, 0, ttl, IPPROTO_UDP] @ be_bytes 2 checksum @ be_bytes 4 src" 16 dst "options @ body @ padding"]
    by (simp add: ipv4_packet_def Let_def h_def)
  have l: "length ?p = h + length body + length padding" by (simp add: ipv4_packet_def Let_def h_def)
  have "?p = ([of_nat (0x40 + h div 4), tos] @ be_bytes 2 (of_nat (h + length body) :: u16) @ be_bytes 2 ident
      @ [if df then 0x40 else 0, 0, ttl, IPPROTO_UDP] @ be_bytes 2 checksum @ be_bytes 4 src @ be_bytes 4 dst @ options) @ body @ padding"
    (is "_ = ?pre @ _") by (simp add: ipv4_packet_def Let_def h_def)
  moreover have "length ?pre = h" by (simp add: h_def)
  ultimately have "drop h ?p = body @ padding" by (metis append_eq_conv_conj)
  then show ?thesis using b0 n f u d l q by (simp add: ipv4_layer_def Let_def h_def)
qed

lemma untagged_tags:
  assumes "length tags \<le> n" "\<forall>t \<in> set tags. isVlanEtherType (fst t)" "\<not> isVlanEtherType e" "2 \<le> length rest"
  shows "untagged n (concat (map (\<lambda>(tpid, tci). be_bytes 2 tpid @ be_bytes 2 tci) tags) @ be_bytes 2 e @ rest) = Some (be_bytes 2 e @ rest)"
  using assms
proof (induction tags arbitrary: n)
  case Nil
  then show ?case by (cases n) (simp_all add: readU16BE_here)
next
  case (Cons t tags)
  obtain tpid tci where t: "t = (tpid, tci)" by (cases t)
  obtain m where "n = Suc m" using Cons.prems(1) by (cases n) auto
  then show ?case using Cons t by (simp add: readU16BE_here)
qed

lemma ether_layer_frame:
  assumes "length macs = 12" "length tags \<le> 2" "\<forall>t \<in> set tags. isVlanEtherType (fst t)" "2 \<le> length body"
  shows "ether_layer (ether_frame macs tags body) = Some body"
proof -
  have "untagged 2 (drop 12 (ether_frame macs tags body)) = Some (be_bytes 2 RTE_ETHER_TYPE_IPV4 @ body)"
    using untagged_tags [OF assms(2,3) ipv4_not_vlan assms(4)] assms(1) by (simp add: ether_frame_def)
  then show ?thesis using assms(1) by (simp add: ether_layer_def readU16BE_here) (simp add: ether_frame_def)
qed

section \<open>Properties\<close>

text \<open>The fast path delivers the packets of the general parser, neither more nor fewer, with the same bytes and the same line. The
  two differ only on untagged IPv4 frames that have no room for a UDP header and carry another protocol, which one books as
  malformed and the other as filtered.\<close>

theorem dpdk_fast_path_exact:
  "same_packet (parseFast a b frame) (parseGeneral a b frame) \<or>
   (pp_status (parseFast a b frame) = Malformed \<and> pp_status (parseGeneral a b frame) = Filtered
     \<and> readU16BE frame 12 = 0x0800 \<and> no_udp_room frame \<and> frame ! 23 \<noteq> 17)"
proof (cases "14 \<le> length frame \<and> readU16BE frame 12 = RTE_ETHER_TYPE_IPV4 \<and> no_udp_room frame")
  case True
  then show ?thesis using general_short [of frame a b] 
    by (auto simp: fast_short)
next
  case False
  then show ?thesis using fast_agrees [of frame a b] by (auto simp: parseFast_def parseGeneral_def not_le)
qed

text \<open>C23. The receiver delivers from a frame exactly the UDP payload that a layer-by-layer decapsulation gives (at most two VLAN tags,
  IPv4 with or without options, unfragmented, every length inside the layer below), provided that the payload fits a packet slot and
  the destination is one of the two lines, line A first.\<close>

theorem dpdk_delivers_decapsulation:
  "delivery frame (parseFast a b frame) = expected_delivery a b frame"
  by (rule fast_delivery)

text \<open>C24. A payload of at most 2,048 bytes in a UDP/IPv4/Ethernet frame whose destination matches the filter of line A comes out of the parser unchanged, as
  a packet of line A, with at most two VLAN tags and whatever IPv4 options (up to 40 bytes, a multiple of four) and Ethernet padding surround it.\<close>

theorem dpdk_frame_roundtrip:
  assumes "length macs = 12" "length tags \<le> 2" "\<forall>t \<in> set tags. isVlanEtherType (fst t)"
    and "length options mod 4 = 0" "length options \<le> 40" "length payload \<le> 2048" "ef_matches a dst dst_port"
  shows "delivery (ether_frame macs tags
      (ipv4_packet tos ident df ttl ip_checksum src dst options (udp_datagram src_port dst_port udp_checksum payload) @ padding))
    (parseFast a b (ether_frame macs tags
      (ipv4_packet tos ident df ttl ip_checksum src dst options (udp_datagram src_port dst_port udp_checksum payload) @ padding)))
    = Some (0, payload)"
proof -
  let ?d = "udp_datagram src_port dst_port udp_checksum payload"
  let ?p = "ipv4_packet tos ident df ttl ip_checksum src dst options ?d @ padding"
  have "ether_layer (ether_frame macs tags ?p) = Some ?p"
    using assms(1-3) by (rule ether_layer_frame) (simp add: ipv4_packet_def Let_def)
  moreover have "ipv4_layer ?p = Some (dst, ?d)"
    using assms(4,5) by (rule ipv4_layer_packet) (use assms(6) in \<open>simp add: udp_datagram_def\<close>)
  moreover have "udp_layer ?d = Some (dst_port, payload)" using assms(6) by (intro udp_layer_datagram) simp
  ultimately have "decapsulate (ether_frame macs tags ?p) = Some (dst, dst_port, payload)" by (simp add: decapsulate_def)
  then show ?thesis using assms(6,7) by (simp add: fast_delivery expected_delivery_def kMaxPacketSize_def line_of_def)
qed

definition demo_line_a :: EndpointFilter where
  "demo_line_a = \<lparr>ef_ip = 0xE0000001, ef_port = 26400, ef_match_ip = True, ef_enabled = True\<rparr>"

theorem dpdk_frame_roundtrip_witness:
  "delivery (ether_frame (replicate 12 1) [(0x88A8, 7), (0x8100, 9)]
      (ipv4_packet 0 1 True 64 0 0x0A000001 0xE0000001 [1, 1, 1, 0] (udp_datagram 5 26400 0 [65, 66, 67]) @ [0, 0]))
    (parseFast demo_line_a noEndpoint (ether_frame (replicate 12 1) [(0x88A8, 7), (0x8100, 9)]
      (ipv4_packet 0 1 True 64 0 0x0A000001 0xE0000001 [1, 1, 1, 0] (udp_datagram 5 26400 0 [65, 66, 67]) @ [0, 0])))
    = Some (0, [65, 66, 67])"
  by (rule dpdk_frame_roundtrip) (simp_all add: frame_constants ef_matches_def demo_line_a_def)

end
