(* ===== verification/DpdkReceiverProps.thy ===== *)
theory DpdkReceiverProps
  imports DpdkReceiverCorrect
begin

text \<open>
  Properties of the kernel-bypass receiver as a whole: delivery, buffer ownership and counters over any number of calls, and the life of the
  device from the constructor to the destructor.
\<close>

section \<open>Any number of calls\<close>

text \<open>What one call keeps, every number of calls keeps.\<close>

lemma calls_keep:
  assumes "\<And>s r s1. dp_wf s \<Longrightarrow> P s \<Longrightarrow> dpdk_next rdtsc s = (r, s1) \<Longrightarrow> P s1" "dp_wf s" "P s"
    "poll_source (dpdk_next rdtsc) n s = (answers, s1)"
  shows "P s1 \<and> dp_wf s1"
  using assms(2-)
proof (induction n arbitrary: s answers)
  case (Suc n)
  obtain a s2 where a: "dpdk_next rdtsc s = (a, s2)" by (cases "dpdk_next rdtsc s")
  have "dp_wf s2" using next_effect [OF Suc.prems(1) a] by (auto simp: loop_correct_def)
  then show ?case using Suc a assms(1) [OF Suc.prems(1,2) a] by (auto simp: Let_def split: prod.splits)
qed simp

lemma next_held:
  "dp_wf s \<Longrightarrow> dpdk_next rdtsc s = (r, s1) \<Longrightarrow>
     dp_done s1 @ dp_pending s1 = dp_done s @ dp_pending s \<and> dp_settings s1 = dp_settings s \<and> (dp_counted s \<longrightarrow> dp_counted s1)"
  using next_effect [of s rdtsc r s1] by (auto simp: loop_correct_def)

lemma fresh_receiver:
  "dp_wf (newDpdkImpl c polls)" "dp_done (newDpdkImpl c polls) = []" "dp_pending (newDpdkImpl c polls) = concat polls"
  "dp_settings (newDpdkImpl c polls) = c" "dp_counted (newDpdkImpl c polls)" "dp_polls (newDpdkImpl c polls) = polls"
  by (simp_all add: newDpdkImpl_def dp_wf_def dp_done_def dp_pending_def dp_counted_def)

lemma calls_held:
  assumes "poll_source (dpdk_next rdtsc) n (newDpdkImpl c polls) = (answers, s1)"
  shows "dp_done s1 @ dp_pending s1 = concat polls" "dp_settings s1 = c" "dp_counted s1" "dp_wf s1"
  using calls_keep [where P = "\<lambda>s. dp_done s @ dp_pending s = concat polls \<and> dp_settings s = c \<and> dp_counted s", OF _ _ _ assms]
    next_held fresh_receiver by auto

section \<open>Release of the buffers\<close>

lemma release_loop_effect:
  "dp_freed (release_loop k s) = dp_freed s @ map (nth (dp_burst s)) [dp_burst_index s..<dp_burst_index s + k]
   \<and> dp_polls (release_loop k s) = dp_polls s \<and> dp_delivered (release_loop k s) = dp_delivered s"
proof (induction k arbitrary: s)
  case (Suc k)
  have "[dp_burst_index s..<dp_burst_index s + Suc k] = dp_burst_index s # [Suc (dp_burst_index s)..<Suc (dp_burst_index s) + k]"
    by (simp add: upt_conv_Cons)
  then show ?case using Suc by (simp add: free_mbuf_def)
qed simp

lemma map_nth_upt: "j \<le> length xs \<Longrightarrow> map (nth xs) [i..<j] = drop i (take j xs)"
  by (rule nth_equalityI) simp_all

lemma releaseBuffers_effect:
  assumes "dp_wf s"
  shows "dp_freed (releaseBuffers s) @ concat (dp_polls s) = dp_done s @ dp_pending s" "dp_delivered (releaseBuffers s) = None"
proof -
  let ?s = "releaseDelivered s"
  have "dp_burst_index ?s + (dp_burst_count ?s - dp_burst_index ?s) = max (dp_burst_index ?s) (dp_burst_count ?s)" by simp
  then have "map (nth (dp_burst ?s)) [dp_burst_index ?s..<dp_burst_index ?s + (dp_burst_count ?s - dp_burst_index ?s)]
      = drop (dp_burst_index ?s) (take (dp_burst_count ?s) (dp_burst ?s))"
    using assms release_effect(2) [of s] map_nth_upt [of "dp_burst_count ?s" "dp_burst ?s" "dp_burst_index ?s"]
    by (cases "dp_burst_index ?s \<le> dp_burst_count ?s") (simp_all add: dp_wf_def)
  then have "dp_freed (releaseBuffers s) @ concat (dp_polls ?s) = dp_freed ?s @ dp_pending ?s"
    by (simp add: releaseBuffers_def releaseCachedBurst_def release_loop_effect dp_pending_def)
  then show "dp_freed (releaseBuffers s) @ concat (dp_polls s) = dp_done s @ dp_pending s" by (simp add: release_effect)
  show "dp_delivered (releaseBuffers s) = None" by (simp add: releaseBuffers_def releaseCachedBurst_def release_loop_effect release_effect)
qed

section \<open>Properties\<close>

text \<open>A receiver that starts on a device delivers the UDP payloads of the frames in the bursts that arrive, in their order and without loss, as soon
  as it has been called once per payload and once per poll; the packets it skips are exactly those that decapsulation rejects.\<close>

theorem dpdk_delivers_stream:
  assumes "poll_source (dpdk_next rdtsc) n (newDpdkImpl c polls) = (answers, s1)"
    and "length (mbuf_payloads c (concat polls)) + length polls \<le> n"
  shows "payloads answers = map Some (mbuf_payloads c (concat polls))"
  using dpdk.polled_all [of "newDpdkImpl c polls", OF _ assms(1)] assms(2)
  by (simp add: fresh_receiver dp_stream_def dp_idle_def)

definition demo_dpdk :: DpdkSettings where
  "demo_dpdk = memberSettings demo_line_a noEndpoint 32 PacketMode"

definition demo_mbuf :: "nat \<Rightarrow> u16 \<Rightarrow> DpdkMbuf" where
  "demo_mbuf i port =
     \<lparr>mb_id = i, mb_contiguous = True,
      mb_frame = ether_frame (replicate 12 1) [] (ipv4_packet 0 1 True 64 0 1 0xE0000001 [] (udp_datagram 5 port 0 [of_nat i, 66]))\<rparr>"

definition demo_polls :: "DpdkMbuf list list" where
  "demo_polls = [[demo_mbuf 0 26400, demo_mbuf 1 99], [], [demo_mbuf 2 26400]]"

lemma demo_stream: "mbuf_payloads demo_dpdk (concat demo_polls) = [[0, 66], [2, 66]]"
  by code_simp

theorem dpdk_delivers_stream_witness:
  "payloads (fst (poll_source (dpdk_next (\<lambda>_. 7)) 5 (newDpdkImpl demo_dpdk demo_polls))) = [Some [0, 66], Some [2, 66]]"
  using dpdk_delivers_stream [of "\<lambda>_. 7" 5 demo_dpdk demo_polls, OF prod.collapse [symmetric]]
  by (simp add: demo_stream) (simp add: demo_polls_def)

text \<open>C25. Packet buffers are neither lost nor freed twice: after any number of calls the buffers given back, the one whose packet the caller
  still holds and those still to come are together, in order, what the device delivers; the destructor gives back everything that
  has been taken.\<close>

theorem dpdk_buffers_freed_once:
  "case poll_source (dpdk_next rdtsc) n (newDpdkImpl c polls) of (answers, s1) \<Rightarrow>
     dp_freed s1 @ (case dp_delivered s1 of None \<Rightarrow> [] | Some m \<Rightarrow> [m]) @ dp_pending s1 = concat polls
     \<and> dp_freed (releaseBuffers s1) @ concat (dp_polls s1) = concat polls \<and> dp_delivered (releaseBuffers s1) = None"
proof -
  obtain answers s1 where p: "poll_source (dpdk_next rdtsc) n (newDpdkImpl c polls) = (answers, s1)"
    by (cases "poll_source (dpdk_next rdtsc) n (newDpdkImpl c polls)")
  show ?thesis using calls_held [OF p] releaseBuffers_effect [of s1] by (simp add: p) (simp add: dp_done_def)
qed

text \<open>The counters account for every frame taken from the device under what became of it: delivered on line A or B, filtered, or malformed, and
  under the parser that handled it; the four outcomes add up to the two parsers (modulo \<open>2 ^ 64\<close>).\<close>

theorem dpdk_counts_exact:
  "case poll_source (dpdk_next rdtsc) n (newDpdkImpl c polls) of (answers, s1) \<Rightarrow>
     dp_packets_a s1 = tally (on_line c 0) (dp_done s1) \<and> dp_packets_b s1 = tally (on_line c 1) (dp_done s1)
     \<and> dp_filtered s1 = tally (\<lambda>m. mbuf_status c m = Filtered) (dp_done s1)
     \<and> dp_malformed s1 = tally (\<lambda>m. mbuf_status c m = Malformed) (dp_done s1)
     \<and> dp_packets_a s1 + dp_packets_b s1 + dp_filtered s1 + dp_malformed s1 = dp_fast_path s1 + dp_slow_path s1"
proof -
  obtain answers s1 where p: "poll_source (dpdk_next rdtsc) n (newDpdkImpl c polls) = (answers, s1)"
    by (cases "poll_source (dpdk_next rdtsc) n (newDpdkImpl c polls)")
  have four: "tally (on_line c 0) ms + tally (on_line c 1) ms + tally (\<lambda>m. mbuf_status c m = Filtered) ms
      + tally (\<lambda>m. mbuf_status c m = Malformed) ms = of_nat (length ms)" for ms
  proof (induction ms rule: rev_induct)
    case (snoc m ms)
    then show ?case using accepted_line [of c m] by (cases "mbuf_status c m") (auto simp: on_line_accepted ac_simps)
  qed simp
  have two: "tally (\<lambda>m. pp_fast_path (dpdk_parse c m)) ms + tally (\<lambda>m. \<not> pp_fast_path (dpdk_parse c m)) ms = of_nat (length ms)" for ms
    by (induction ms rule: rev_induct) (auto simp: ac_simps)
  show ?thesis using calls_held [OF p] four [of "dp_done s1"] two [of "dp_done s1"] by (simp add: p dp_counted_def Let_def)
qed

end
