(* ===== verification/EndToEnd.thy ===== *)
theory EndToEnd
  imports ItchReplayCorrect DualReceiverCorrect DpdkReceiverProps
begin

text \<open>
  Components together, from a recorded file to the books: the replay source writes packets, two redundant lines carry them, each with losses, duplicates and
  reordering of its own but so that every packet arrives on one of them, a two-line receiver merges what arrives, and the decoder applies it. And the
  engine on each kind of receiver.
\<close>

section \<open>Claims of packets with the same bytes\<close>

definition data_claims :: "u8 list option \<Rightarrow> (nat \<times> u8 list) set" where
  "data_claims data = view_claims \<lparr>pv_data = data, pv_receive_start_ticks = 0\<rparr>"

lemma all_claims_image: "all_claims vs = \<Union> (data_claims ` pv_data ` set vs)"
  by (simp add: all_claims_def data_claims_def view_claims_def image_image)

lemma all_claims_data: "pv_data ` set vs = pv_data ` set ws \<Longrightarrow> all_claims vs = all_claims ws"
  by (simp add: all_claims_image)

section \<open>Properties\<close>

text \<open>C5. From a file to the books over two lines. The packets that a replay of a file has sent so far travel on two lines. Each line may lose, repeat and
  reorder them, but every packet reaches at least one of the two sockets, and nothing else does. The two-line receiver is called often enough (twice the
  number of socket events), and a new decoder gets what it delivers. The packets sent so far carry a first part of the records of the file, numbered from
  one. If the parser refuses none of these messages and at most 1,048,576 packets were sent (the slots of the gap buffer), the decoder neither fails nor drops
  a packet. And whenever it neither fails nor drops a packet, its parser, directory and books are those of applying these messages once each,
  in the order of the file, and it expects the sequence number the source sends next.\<close>

theorem redundant_replay_end_to_end:
  assumes "length session \<le> 10" "mpp \<noteq> 0" "length bytes < 2 ^ 64 - 1"
    and "source_run calls (newItchMoldUdpSource (Some bytes) path session mpp policy) = (vs, s)"
    and "Some ` (set (sock_payloads sock_a) \<union> set (sock_payloads sock_b)) = pv_data ` set vs"
    and "poll_source (dual_next poll (udp_next rdtsc)) n
      (newDualReceiver (newUdpReceiver fd_a metrics sock_a) (newUdpReceiver fd_b metrics sock_b)) = (answers, du)"
    and "2 * (length sock_a + length sock_b) \<le> n"
  shows "\<exists>ms rest d. bytes = file_of ms @ rest \<and> all_claims vs = numbered 1 ms \<and>
    decode_all elapsed (newMoldUdpDecoder symbols books ch 1) (delivered_packets answers) = Some d \<and>
    (fst (run_parser (newItchParser symbols books ch) ms) \<and> length vs \<le> 1048576 \<longrightarrow>
       md_terminal_status d = DecodeOk \<and> ch_status (md_channel d) \<noteq> Stale) \<and>
    (md_terminal_status d = DecodeOk \<and> ch_status (md_channel d) \<noteq> Stale \<longrightarrow>
       md_parser d = fold (\<lambda>m p. snd (handlePrevalidatedMessage p m)) ms (newItchParser symbols books ch) \<and>
       ch_next_expected_seq (md_channel d) = src_next_seq s)"
proof -
  let ?new = "newMoldUdpDecoder symbols books ch 1" and ?ws = "delivered_packets answers"
  obtain mss where m: "emits (padded_session session) 0 mss vs" "src_at bytes s (concat mss) \<or> src_stopped bytes s (concat mss)"
    using run_on_file [OF assms(1-4)] by blast
  obtain ps where ps: "payloads answers = map Some ps" "ps \<in> shuffles (sock_payloads sock_a) (sock_payloads sock_b)"
    using merged_lines [OF assms(7,6)] by blast
  have data: "pv_data ` set ?ws = pv_data ` set vs" using ps(1) set_shuffles [OF ps(2)] assms(5) by (metis list.set_map payloads_def)
  then have c: "all_claims ?ws = all_claims vs" by (rule all_claims_data)
  note E = emits_claims [OF m(1)]
  obtain d where d: "decode_all elapsed ?new ?ws = Some d" using decode_all_inv [OF new_decoder_inv] by blast
  have good: "md_terminal_status d = DecodeOk \<and> ch_status (md_channel d) \<noteq> Stale"
    if acc: "fst (run_parser (newItchParser symbols books ch) (concat mss))" and few: "length vs \<le> 1048576"
  proof (rule accepted_stream [OF emits_clean [OF m(1) few] _ acc, of ?ws 1 elapsed])
    show "\<forall>v \<in> set ?ws. \<exists>x \<in> (\<lambda>v. the (pv_data v)) ` set vs. pv_data v = Some x"
    proof
      fix v assume "v \<in> set ?ws"
      then obtain w where "w \<in> set vs" "pv_data v = pv_data w" using data by (metis imageE image_eqI)
      then show "\<exists>x \<in> (\<lambda>v. the (pv_data v)) ` set vs. pv_data v = Some x" using E by force
    qed
  qed (use c E d in auto)
  have "\<exists>rest. bytes = file_of (concat mss) @ rest" using m(2) by (auto simp: src_at_def src_stopped_def)
  then show ?thesis using good replay_by_claims [OF m c d] d E by (auto intro!: exI [of _ "concat mss"])
qed

text \<open>The replay of the witness sends four packets. Line A carries the last three of them, out of order, line B the first two, so that each line loses
  packets and the second packet arrives twice.\<close>

definition line_socket :: "PacketView list \<Rightarrow> recv_event list" where
  "line_socket vs = map (\<lambda>v. Datagram (the (pv_data v)) []) vs"

lemma demo_sent_four: "length demo_sent = 4"
  by code_simp

lemma line_payloads:
  assumes "\<forall>v \<in> set vs. \<exists>data. pv_data v = Some data \<and> length data \<le> 2048"
  shows "map Some (sock_payloads (line_socket vs)) = map pv_data vs"
  using assms by (induction vs) (auto simp: line_socket_def)

theorem redundant_replay_end_to_end_witness:
  "\<exists>answers du d. poll_source (dual_next (\<lambda>_ _. (0, False, False)) (udp_next (\<lambda>_. 0))) 10
      (newDualReceiver (newUdpReceiver 3 False (line_socket [demo_sent ! 3, demo_sent ! 1, demo_sent ! 2]))
        (newUdpReceiver 4 False (line_socket [demo_sent ! 0, demo_sent ! 1]))) = (answers, du) \<and>
    decode_all demo_clock demo_decoder (delivered_packets answers) = Some d \<and>
    md_terminal_status d = DecodeOk \<and> md_parser d = demo_parser_end \<and> ch_next_expected_seq (md_channel d) = src_next_seq demo_source_end"
proof (rule demo_emits)
  fix mss assume m: "emits (padded_session demo_session) 0 mss demo_sent" "concat mss = demo_messages"
  let ?a = "[demo_sent ! 3, demo_sent ! 1, demo_sent ! 2]" and ?b = "[demo_sent ! 0, demo_sent ! 1]"
  obtain v0 v1 v2 v3 where sent: "demo_sent = [v0, v1, v2, v3]"
    using demo_sent_four by (auto simp: eval_nat_numeral length_Suc_conv)
  note E = emits_claims [OF m(1)]
  have fits: "\<forall>v \<in> set demo_sent. \<exists>data. pv_data v = Some data \<and> length data \<le> 2048" using E by fastforce
  have h: "Some ` (set (sock_payloads (line_socket ?a)) \<union> set (sock_payloads (line_socket ?b))) = pv_data ` set demo_sent"
    using arg_cong [OF line_payloads [of ?a], of set] arg_cong [OF line_payloads [of ?b], of set] fits by (auto simp: sent image_Un)
  obtain answers du where p: "poll_source (dual_next (\<lambda>_ _. (0, False, False)) (udp_next (\<lambda>_. 0))) 10
      (newDualReceiver (newUdpReceiver 3 False (line_socket ?a)) (newUdpReceiver 4 False (line_socket ?b))) = (answers, du)" by (meson surj_pair)
  have n: "2 * (length (line_socket ?a) + length (line_socket ?b)) \<le> 10" by (simp add: line_socket_def)
  obtain ms rest d where d: "demo_file = file_of ms @ rest" "all_claims demo_sent = numbered 1 ms"
    "decode_all demo_clock demo_decoder (delivered_packets answers) = Some d"
    "fst (run_parser demo_parser ms) \<Longrightarrow> md_terminal_status d = DecodeOk \<and> ch_status (md_channel d) \<noteq> Stale"
    "md_terminal_status d = DecodeOk \<and> ch_status (md_channel d) \<noteq> Stale \<Longrightarrow>
       md_parser d = fold (\<lambda>m p. parse p m) ms demo_parser \<and> expected_seq d = src_next_seq demo_source_end"
    using redundant_replay_end_to_end [OF demo_setup demo_run [unfolded demo_source_def] h p n, of demo_clock newStockDirectory demo_manager 0] demo_sent_four
    unfolding demo_decoder_def demo_parser_def parse_def by auto
  have eq: "ms = demo_messages" using d(2) E m(2) by (auto intro: numbered_inject)
  then have "fst (run_parser demo_parser ms)" using demo_day_parsed(1) by (simp add: demo_messages_def)
  then show ?thesis using d p eq by (auto simp: demo_parser_end_def demo_messages_def)
qed

text \<open>The engine on a sequence of polls ends as it would on a list of packets with the given payloads.\<close>

definition fed_as :: "('p \<Rightarrow> PacketView \<Rightarrow> (DecodeResult \<times> 'p) option) \<Rightarrow> 'p MarketDataEngine \<Rightarrow> PacketView option list \<Rightarrow> u8 list list \<Rightarrow> bool" where
  "fed_as process e answers ps \<longleftrightarrow>
     (\<exists>packets. map pv_data packets = map Some ps \<and> engine_run process e answers = engine_run process e (map Some packets))"

lemma fed_asI: "payloads answers = map Some ps \<Longrightarrow> fed_as process e answers ps"
  using engine_run_delivered [of process e answers]
  unfolding fed_as_def by (intro exI [of _ "delivered_packets answers"]) (simp add: payloads_def)

text \<open>C8. The engine does not see which receiver feeds it. A receiver that is polled often enough (for each payload and each burst of the device, and twice for
  each socket event, as stated) hands the engine a list of packets: with the kernel-bypass receiver, and with the plain and the batching
  socket receiver, exactly the payloads of the stream in order; with the plain and the batching two-line receiver an interleaving of the payloads of the two
  sockets, each line in its order. The payloads of a socket are its datagrams of at most 2,048 bytes. The engine ends as it would on that list.\<close>

theorem engine_on_any_receiver:
  assumes "length (mbuf_payloads c (concat bursts)) + length bursts \<le> n" "2 * (length sock_a + length sock_b) \<le> n"
  shows "fed_as process e (fst (poll_source (dpdk_next rdtsc) n (newDpdkImpl c bursts))) (mbuf_payloads c (concat bursts))
    \<and> fed_as process e (fst (poll_source (udp_next rdtsc) n (newUdpReceiver fd_a metrics sock_a))) (sock_payloads sock_a)
    \<and> fed_as process e (fst (poll_source (batch_next rdtsc) n (newUdpBatchReceiver fd_a k sock_a))) (sock_payloads sock_a)
    \<and> (\<exists>ps \<in> shuffles (sock_payloads sock_a) (sock_payloads sock_b).
        fed_as process e (fst (poll_source (dual_next poll (udp_next rdtsc)) n
          (newDualReceiver (newUdpReceiver fd_a metrics sock_a) (newUdpReceiver fd_b metrics sock_b)))) ps)
    \<and> (\<exists>ps \<in> shuffles (sock_payloads sock_a) (sock_payloads sock_b).
        fed_as process e (fst (poll_source (dual_batch_next (batch_next rdtsc)) n
          (newDualReceiver (newUdpBatchReceiver fd_a k sock_a) (newUdpBatchReceiver fd_b k sock_b)))) ps)"
proof -
  have "length (sock_payloads sock_a) + length sock_a \<le> n" using assms(2) payloads_bound [of sock_a] by simp
  then have one: "fed_as process e (fst (poll_source (dpdk_next rdtsc) n (newDpdkImpl c bursts))) (mbuf_payloads c (concat bursts))"
    "fed_as process e (fst (poll_source (udp_next rdtsc) n (newUdpReceiver fd_a metrics sock_a))) (sock_payloads sock_a)"
    "fed_as process e (fst (poll_source (batch_next rdtsc) n (newUdpBatchReceiver fd_a k sock_a))) (sock_payloads sock_a)"
    using dpdk.engine_fed [where process = process and e = e and rdtsc = rdtsc and n = n,
        OF fresh_receiver(1) [of c bursts] prod.collapse [symmetric]]
      udp.engine_fed [where process = process and e = e and rdtsc = rdtsc and n = n,
        OF fresh_udp(1) [of fd_a metrics sock_a] prod.collapse [symmetric]]
      batch.engine_fed [where process = process and e = e and rdtsc = rdtsc and n = n,
        OF fresh_batch(1) [of fd_a k sock_a] prod.collapse [symmetric]] assms(1)
    by (simp_all add: fed_as_def fresh_udp fresh_batch dp_stream_def dp_idle_def fresh_receiver)
  show ?thesis
    using one merged_lines [OF assms(2) prod.collapse [symmetric], of poll rdtsc fd_a metrics fd_b]
      merged_batch_lines [OF assms(2) prod.collapse [symmetric], of rdtsc fd_a k fd_b] fed_asI by blast
qed

definition demo_engine :: "MoldUdpDecoder MarketDataEngine" where
  "demo_engine = newMarketDataEngine demo_decoder newLatencyRecorder
     \<lparr>enable_latency_metrics = False, enable_stage_latency_metrics = False, stop_on_decode_error = False, stop_on_sequence_gap = False\<rparr>"

theorem engine_on_any_receiver_witness:
  "\<exists>ps \<in> shuffles [[1, 2], [3]] [[9]].
     fed_as (processPacket demo_clock) demo_engine (fst (poll_source (dual_batch_next (batch_next (\<lambda>_. 0))) 10
       (newDualReceiver (newUdpBatchReceiver 3 2 demo_socket) (newUdpBatchReceiver 4 2 [Datagram [9] []])))) ps"
proof -
  have s: "sock_payloads demo_socket = [[1, 2], [3]]" "sock_payloads [Datagram [9] []] = [[9]]"
    "2 * (length demo_socket + length [Datagram [9] []]) \<le> 10" by (simp_all add: demo_socket_def)
  have d: "length (mbuf_payloads demo_dpdk (concat [])) + length [] \<le> 10" by simp
  show ?thesis using engine_on_any_receiver [OF d s(3), where process = "processPacket demo_clock" and e = demo_engine and rdtsc = "\<lambda>_. 0"
      and fd_a = 3 and fd_b = 4 and k = 2] unfolding s(1,2) by blast
qed

end
