(* ===== verification/DpdkBringup.thy ===== *)
theory DpdkBringup
  imports DpdkReceiver
begin

text \<open>
  The life of the device of the kernel-bypass receiver, by weakest preconditions: what the constructor leaves when it succeeds and when it throws,
  and which parts of a successful bring-up the destructor undoes; the hardware flow rules against the filters of the software parser; and what the
  readers of the environment accept.
\<close>

section \<open>Weakest preconditions\<close>

definition wp :: "'a bringup \<Rightarrow> ('a \<Rightarrow> DpdkDevice \<Rightarrow> bool) \<Rightarrow> (DpdkError \<Rightarrow> DpdkDevice \<Rightarrow> bool) \<Rightarrow> DpdkDevice \<Rightarrow> bool" where
  "wp m Q E dv = (case m dv of (Inl e, dv1) \<Rightarrow> E e dv1 | (Inr x, dv1) \<Rightarrow> Q x dv1)"

named_theorems wps \<open>rules for the weakest preconditions of the steps of the bring-up\<close>

lemma wp_step_then [wps]: "wp m (\<lambda>x. wp (f x) Q E) E dv \<Longrightarrow> wp (step_then m f) Q E dv"
  by (simp add: wp_def step_then_def split: prod.split sum.split prod.splits sum.splits)

lemma wp_throw_if [wps]: "(c \<Longrightarrow> E e dv) \<Longrightarrow> (\<not> c \<Longrightarrow> Q () dv) \<Longrightarrow> wp (throw_if c e) Q E dv"
  by (simp add: wp_def throw_if_def)

lemma wp_setting: "(\<And>e. r = Inl e \<Longrightarrow> E e dv) \<Longrightarrow> (\<And>x. r = Inr x \<Longrightarrow> Q x dv) \<Longrightarrow> wp (setting r) Q E dv"
  by (simp add: wp_def setting_def split: sum.split)

lemma wp_value [wps]: "Q x dv \<Longrightarrow> wp (setting (Inr x)) Q E dv"
  by (simp add: wp_def setting_def)

lemma wp_change [wps]: "Q () (f dv) \<Longrightarrow> wp (change f) Q E dv"
  by (simp add: wp_def change_def)

lemma wp_if [wps]: "(c \<Longrightarrow> wp m1 Q E dv) \<Longrightarrow> (\<not> c \<Longrightarrow> wp m2 Q E dv) \<Longrightarrow> wp (if c then m1 else m2) Q E dv"
  by simp

lemma wp_prod [wps]: "(\<And>x y. p = (x, y) \<Longrightarrow> wp (m x y) Q E dv) \<Longrightarrow> wp (case p of (x, y) \<Rightarrow> m x y) Q E dv"
  by (simp split: prod.split)

text \<open>The pieces that the bring-up is made of.\<close>

lemma splitArgs_error: "splitArgs args = Inl e \<Longrightarrow> e = UnclosedQuote"
proof -
  have "split_loop cs res cur a b = Inl e \<Longrightarrow> e = UnclosedQuote" for cs res cur a b
    by (induction cs arbitrary: res cur a b) (auto split: if_splits)
  then show "splitArgs args = Inl e \<Longrightarrow> e = UnclosedQuote" by (simp add: splitArgs_def)
qed

lemma wp_eal_once [wps]:
  assumes "E UnclosedQuote dv" "E EalInitFailed dv" "Q () (dv\<lparr>dv_eal_initialized := True\<rparr>)"
  shows "wp (initializeEalOnce lib getenv) Q E dv"
proof (cases "dv_eal_initialized dv")
  case True
  then have "dv\<lparr>dv_eal_initialized := True\<rparr> = dv" by simp
  then have "Q () dv" using assms(3) by metis
  then show ?thesis using True by (simp add: wp_def initializeEalOnce_def)
next
  case False
  have "wp (step_then (setting (case getenv ''ASTRA_DPDK_EAL_ARGS'' of None \<Rightarrow> Inr [] | Some env_args \<Rightarrow> splitArgs env_args)) (\<lambda>extra.
        step_then (throw_if (rte_eal_init lib (''astra-dpdk'' # extra) < 0) EalInitFailed) (\<lambda>_.
        change (dv_eal_initialized_update (\<lambda>_. True))))) Q E dv"
    by (intro wps wp_setting) (use assms splitArgs_error in \<open>auto split: option.splits\<close>)
  then show ?thesis using False by (simp add: wp_def initializeEalOnce_def)
qed

lemma wp_isolation [wps]:
  "E FlowIsolateFailed dv \<Longrightarrow> Q () (dv\<lparr>dv_flow_isolated := True\<rparr>) \<Longrightarrow> wp (enableFlowIsolation lib port) Q E dv"
  unfolding enableFlowIsolation_def by (intro wps) simp_all

lemma wp_endpoint [wps]:
  "E FlowValidateFailed dv \<Longrightarrow> E FlowCreateFailed dv \<Longrightarrow> Q () (dv_flows_update (\<lambda>flows. flows @ [endpointRule queue endpoint]) dv) \<Longrightarrow>
     wp (installEndpointFlow lib port queue endpoint) Q E dv"
  unfolding installEndpointFlow_def Let_def by (intro wps) simp_all

text \<open>Which errors the readers of settings give.\<close>

lemma envUnsigned_error: "envUnsigned getenv name preset lo hi = Inl e \<Longrightarrow> e = InvalidUnsigned name \<or> e = OutOfRangeUnsigned name"
  by (auto simp: envUnsigned_def Let_def split: option.splits if_splits prod.splits)

lemma envFlag_error: "envFlag getenv name preset = Inl e \<Longrightarrow> e = BadFlag name"
  by (auto simp: envFlag_def split: option.splits if_splits)

text \<open>Errors thrown once the memory pool exists.\<close>

definition late_error :: "DpdkError \<Rightarrow> bool" where
  "late_error e = (e \<in> {ConfigureFailed, AdjustFailed, QueueSetupFailed, FlowValidateFailed, FlowCreateFailed, StartFailed})"

lemma wp_unsigned [wps]:
  "(\<And>e. \<not> late_error e \<Longrightarrow> E e dv) \<Longrightarrow> (\<And>x. Q x dv) \<Longrightarrow> wp (setting (envUnsigned getenv name preset lo hi)) Q E dv"
  by (rule wp_setting) (auto simp: late_error_def dest: envUnsigned_error)

lemma wp_flag [wps]:
  "(\<And>e. \<not> late_error e \<Longrightarrow> E e dv) \<Longrightarrow> (\<And>x. Q x dv) \<Longrightarrow> wp (setting (envFlag getenv name preset)) Q E dv"
  by (rule wp_setting) (auto simp: late_error_def dest: envFlag_error)

lemma wp_socket [wps]:
  "(\<And>e. \<not> late_error e \<Longrightarrow> E e dv) \<Longrightarrow> (\<And>x. Q x dv) \<Longrightarrow>
     wp (setting (if c then map_sum id uint (envUnsigned getenv name preset lo hi) else Inr other)) Q E dv"
  by (rule wp_setting) (cases "envUnsigned getenv name preset lo hi"; auto simp: late_error_def dest: envUnsigned_error split: if_splits)+

section \<open>Bring-up and teardown\<close>

definition fresh_device :: "DpdkDevice \<Rightarrow> bool" where
  "fresh_device dv = (\<not> dv_flow_isolated dv \<and> \<not> dv_mempool dv \<and> \<not> dv_configured dv \<and> dv_flows dv = [] \<and> \<not> dv_started dv)"

definition line_rules :: "DpdkSettings \<Rightarrow> FlowRule list" where
  "line_rules s = map (endpointRule 0) (ds_line_a s # (if ef_enabled (ds_line_b s) then [ds_line_b s] else []))"

definition device_up :: "DpdkSettings \<Rightarrow> DpdkDevice \<Rightarrow> bool" where
  "device_up s dv = (dv_mempool dv \<and> dv_configured dv \<and> dv_started dv \<and> dv_flow_isolated dv = ds_flow_filter s
     \<and> dv_flows dv = (if ds_flow_filter s then line_rules s else []))"

text \<open>The modes that the bring-up turns on and nothing turns off.\<close>

definition modes_after :: "DpdkLibrary \<Rightarrow> DpdkSettings \<Rightarrow> DpdkDevice \<Rightarrow> DpdkDevice \<Rightarrow> bool" where
  "modes_after lib s dv dv1 = (dv_eal_initialized dv1
     \<and> dv_promiscuous dv1 = (dv_promiscuous dv \<or> ds_promiscuous s \<and> rte_eth_promiscuous_enable lib (ds_port_id s) = 0)
     \<and> dv_all_multicast dv1 = (dv_all_multicast dv \<or> ds_all_multicast s \<and> rte_eth_allmulticast_enable lib (ds_port_id s) = 0))"

lemma initialize_wp:
  assumes "fresh_device dv"
  shows "wp (initialize lib getenv s)
    (\<lambda>s1 dv1. ds_line_a s1 = ds_line_a s \<and> ds_line_b s1 = ds_line_b s \<and> ds_burst_size s1 = ds_burst_size s \<and> ds_queue_id s1 = 0
       \<and> device_up s1 dv1 \<and> modes_after lib s1 dv dv1)
    (\<lambda>e dv1. dv_mempool dv1 = late_error e \<and> \<not> dv_started dv1) dv"
proof -
  have F: "\<not> dv_flow_isolated dv" "\<not> dv_mempool dv" "\<not> dv_configured dv" "dv_flows dv = []" "\<not> dv_started dv"
    using assms by (simp_all add: fresh_device_def)
  show ?thesis unfolding initialize_def Let_def installFlowFilters_def
    apply (intro wps)
    apply (simp_all only: not_not)
    apply (simp_all (no_asm_simp) add: F late_error_def device_up_def line_rules_def modes_after_def)
    apply (simp_all only: not_True_eq_False)
    done
qed

lemma wp_mono:
  assumes "wp m Q E dv" "\<And>x dv. Q x dv \<Longrightarrow> Q' x dv"
  shows "wp m Q' E dv"
  using assms by (auto simp: wp_def split: prod.splits sum.splits)

lemma envUnsigned_range: "envUnsigned getenv name preset lo hi = Inr v \<Longrightarrow> v = preset \<or> lo \<le> v \<and> v \<le> hi"
  by (auto simp: envUnsigned_def Let_def split: option.splits if_splits prod.splits)

lemma burst_size_range:
  assumes "dpdkBurstSize getenv = Inr v"
  shows "8 dvd unat v" "8 \<le> unat v" "unat v \<le> 256"
proof -
  have r: "1 \<le> v" "v \<le> 256" "v mod 8 = 0"
    using assms envUnsigned_range [of getenv "''ASTRA_DPDK_BURST_SIZE''" kDefaultBurstSize 1 kMaxBurstSize v]
    by (auto simp: dpdkBurstSize_def kDefaultBurstSize_def kMaxBurstSize_def split: sum.splits if_splits)
  then have "unat (v mod 8) = 0" by simp
  then show d: "8 dvd unat v" by (simp add: unat_mod mod_eq_0_iff_dvd del: unat_eq_0)
  have n: "1 \<le> unat v" "unat v \<le> 256" using r(1,2) by (simp_all add: word_le_nat_alt)
  then show "8 \<le> unat v" "unat v \<le> 256" using d by (auto elim: dvdE)
qed

lemma construct_wp:
  assumes "fresh_device dv"
  shows "wp (dpdkConstruct lib getenv inet_pton a b)
    (\<lambda>s dv1. ds_queue_id s = 0 \<and> 8 dvd ds_burst_size s \<and> 8 \<le> ds_burst_size s \<and> ds_burst_size s \<le> 256 \<and> device_up s dv1
       \<and> modes_after lib s dv dv1)
    (\<lambda>e dv1. dv_mempool dv1 = late_error e \<and> \<not> dv_started dv1) dv"
proof -
  have F: "\<not> dv_mempool dv" "\<not> dv_started dv" using assms by (simp_all add: fresh_device_def)
  have early: "makeEndpoint inet_pton ip port = Inl e \<Longrightarrow> \<not> late_error e" "dpdkBurstSize getenv = Inl e \<Longrightarrow> \<not> late_error e"
    "dpdkLatencyMode getenv = Inl e \<Longrightarrow> \<not> late_error e" for ip port e
    using envUnsigned_error [of getenv _ _ _ _ e]
    by (auto simp: makeEndpoint_def dpdkBurstSize_def dpdkLatencyMode_def late_error_def Let_def split: option.splits if_splits sum.splits)
  show ?thesis unfolding dpdkConstruct_def
    apply (intro wp_step_then wp_setting)
    subgoal using F early by simp
    subgoal using F early by (auto split: option.splits)
    subgoal using F early by simp
    subgoal using F early by simp
    subgoal premises p for line_a line_b burst_size latency_mode
      using initialize_wp [OF assms] by (rule wp_mono) (use burst_size_range [OF p(3)] in \<open>simp add: memberSettings_def\<close>)
    done
qed

section \<open>Flow rules\<close>

text \<open>A rule compares each field under its mask.\<close>

definition rule_matches :: "FlowRule \<Rightarrow> u8 \<Rightarrow> u32 \<Rightarrow> u16 \<Rightarrow> bool" where
  "rule_matches r proto dst port =
     (proto AND fr_proto_mask r = fr_proto r AND fr_proto_mask r \<and> dst AND fr_dst_addr_mask r = fr_dst_addr r AND fr_dst_addr_mask r
      \<and> port AND fr_dst_port_mask r = fr_dst_port r AND fr_dst_port_mask r)"

lemma all_ones: "(0xFF :: u8) = -1" "(0xFFFF :: u16) = -1" "(0xFFFFFFFF :: u32) = -1"
  by simp_all

section \<open>Properties\<close>


definition demo_library :: "int \<Rightarrow> DpdkLibrary" where
  "demo_library start_ret =
     \<lparr>rte_eal_init = (\<lambda>_. 0), rte_eth_dev_count_avail = 1, rte_eth_dev_is_valid_port = (\<lambda>p. p = 0), rte_eth_dev_info_get = (\<lambda>_. (0, 4)),
      rte_flow_isolate = (\<lambda>_ _. 0), rte_eth_dev_socket_id = (\<lambda>_. -1), rte_socket_id = 0, rte_pktmbuf_pool_create = (\<lambda>_ _ _ _. True),
      rte_eth_dev_configure = (\<lambda>_. 0), rte_eth_dev_adjust_nb_rx_tx_desc = (\<lambda>_ n. (0, n)), rte_eth_rx_queue_setup = (\<lambda>_ _ _ _. 0),
      rte_flow_validate = (\<lambda>_ _. 0), rte_flow_create = (\<lambda>_ _. True), rte_eth_dev_start = (\<lambda>_. start_ret), rte_eth_promiscuous_enable = (\<lambda>_. 0),
      rte_eth_allmulticast_enable = (\<lambda>_. 0), rte_flow_destroy = (\<lambda>_ _. 0), rte_eth_dev_stop = (\<lambda>_. 0), rte_eth_dev_close = (\<lambda>_. -16)\<rparr>"

definition demo_device :: DpdkDevice where
  "demo_device = \<lparr>dv_eal_initialized = False, dv_flow_isolated = False, dv_mempool = False, dv_configured = False, dv_flows = [],
     dv_started = False, dv_promiscuous = False, dv_all_multicast = False\<rparr>"

definition demo_construct :: "int \<Rightarrow> (DpdkError + DpdkSettings) \<times> DpdkDevice" where
  "demo_construct start_ret = dpdkConstruct (demo_library start_ret) (\<lambda>_. None) (\<lambda>_. None) (Some ''any'', 26400) None demo_device"

lemma demo_fresh: "fresh_device demo_device"
  by (simp add: fresh_device_def demo_device_def)


text \<open>C27. A constructor that throws leaves the port stopped, but it leaves the memory pool allocated exactly when the failing step comes after the creation of
  the pool: the exception leaves the constructor body, so the destructor that would free it does not run.\<close>

theorem dpdk_failed_bringup_leaks:
  assumes "fresh_device dv" "dpdkConstruct lib getenv inet_pton a b dv = (Inl e, dv1)"
  shows "dv_mempool dv1 = late_error e \<and> \<not> dv_started dv1"
  using construct_wp [OF assms(1), of lib getenv inet_pton a b] assms(2) by (simp add: wp_def)

theorem dpdk_failed_bringup_leaks_witness:
  "case demo_construct (-5) of (Inl e, dv1) \<Rightarrow> e = StartFailed \<and> dv_mempool dv1 \<and> \<not> dv_started dv1 | (Inr _, _) \<Rightarrow> False"
proof -
  have "case demo_construct (-5) of (Inl e, _) \<Rightarrow> e = StartFailed | (Inr _, _) \<Rightarrow> False" by code_simp
  then show ?thesis
    using dpdk_failed_bringup_leaks [OF demo_fresh, of "demo_library (-5)" "\<lambda>_. None" "\<lambda>_. None" "(Some ''any'', 26400)" None]
    by (auto simp: demo_construct_def late_error_def split: prod.splits sum.splits)
qed

text \<open>The hardware rule installed for a line lets through exactly the UDP packets that the software filter of the line accepts.\<close>

theorem dpdk_flow_rule_exact:
  "rule_matches (endpointRule queue endpoint) proto dst port \<longleftrightarrow>
     proto = 17 \<and> ef_matches (endpoint\<lparr>ef_enabled := True\<rparr>) dst port"
  by (auto simp: rule_matches_def endpointRule_def ef_matches_def all_ones)

section \<open>Settings\<close>

text \<open>A text of decimal digits is read as the number it spells; the readers accept nothing outside the range they are given.\<close>

lemma digit_start:
  assumes "is_decimal_digit c"
  shows "\<not> is_space c" "c \<noteq> CHR ''-''" "c \<noteq> CHR ''+''"
  using assms by (auto simp: is_decimal_digit_def is_space_def)

lemma strtoul_digits:
  assumes "ds \<noteq> []" "\<forall>c \<in> set ds. is_decimal_digit c" "decimal ds < 2 ^ 64"
  shows "strtoul ds = (of_nat (decimal ds), [], False)"
proof -
  obtain c cs where c: "ds = c # cs" "is_decimal_digit c" using assms(1,2) by (cases ds) auto
  then have "dropWhile is_space ds = ds" "take 1 ds \<noteq> ''-''" "take 1 ds \<noteq> ''+''" using digit_start [of c] by auto
  then show ?thesis using assms(1,3) by (simp add: strtoul_def Let_def takeWhile_digits [OF assms(2)])
qed

text \<open>A setting written as decimal digits is taken over exactly when its number lies in the range of the setting, and otherwise the
  constructor throws a range error; whatever the text, no value outside the range gets through, apart from the preset of a
  variable that is unset or empty.\<close>

theorem dpdk_setting_exact:
  assumes "getenv name = Some ds" "ds \<noteq> []" "\<forall>c \<in> set ds. is_decimal_digit c" "decimal ds < 2 ^ 64"
  shows "envUnsigned getenv name preset lo hi =
    (if unat lo \<le> decimal ds \<and> decimal ds \<le> unat hi then Inr (of_nat (decimal ds)) else Inl (OutOfRangeUnsigned name))"
proof -
  have "unat (of_nat (decimal ds) :: u64) = decimal ds" using assms(4) by (simp add: unat_of_nat)
  then show ?thesis using assms(1,2) strtoul_digits [OF assms(2-)]
    by (auto simp: envUnsigned_def word_less_nat_alt word_le_nat_alt not_less)
qed

theorem dpdk_setting_exact_witness:
  "envUnsigned [''N'' \<mapsto> ''300''] ''N'' 32 1 256 = Inl (OutOfRangeUnsigned ''N'')"
  using dpdk_setting_exact [of "[''N'' \<mapsto> ''300'']" "''N''" "''300''" 32 1 256] by (simp add: is_decimal_digit_def decimal_def)

text \<open>A negative text is not rejected when its residue modulo \<open>2 ^ 64\<close> is in range, because \<open>strtoul\<close> negates instead of failing.\<close>

lemma dpdk_negative_accepted: "dpdkBurstSize [''ASTRA_DPDK_BURST_SIZE'' \<mapsto> ''-18446744073709551608''] = Inr 8"
  by (simp add: dpdkBurstSize_def envUnsigned_def strtoul_def decimal_def is_decimal_digit_def is_space_def kMaxBurstSize_def)

section \<open>EAL arguments\<close>

text \<open>An argument in single quotes, and a list of them with spaces between.\<close>

definition quoted :: "string \<Rightarrow> string" where
  "quoted arg = [CHR 0x27] @ arg @ [CHR 0x27]"

definition quoted_args :: "string list \<Rightarrow> string" where
  "quoted_args args = concat (map (\<lambda>arg. quoted arg @ '' '') args)"

lemma split_in_quotes:
  "CHR 0x27 \<notin> set arg \<Longrightarrow> split_loop (arg @ rest) res cur True False = split_loop rest res (cur @ arg) True False"
  by (induction arg arbitrary: cur) auto

lemma split_quoted:
  assumes "CHR 0x27 \<notin> set arg" "arg \<noteq> []"
  shows "split_loop (quoted arg @ '' '' @ rest) res [] False False = split_loop rest (res @ [arg]) [] False False"
  using assms by (simp add: quoted_def split_in_quotes)

lemma split_quoted_args:
  "\<forall>arg \<in> set args. arg \<noteq> [] \<and> CHR 0x27 \<notin> set arg \<Longrightarrow> split_loop (quoted_args args) res [] False False = Inr (res @ args)"
proof (induction args arbitrary: res)
  case (Cons arg args)
  then show ?case using split_quoted [of arg "quoted_args args" res] by (simp add: quoted_args_def)
qed (simp add: quoted_args_def)

text \<open>Arguments for the DPDK environment layer survive quoting: a list of non-empty arguments without single quotes, each put in single quotes and
  separated by spaces, is split into exactly that list, whatever blanks and double quotes the arguments contain.\<close>

theorem dpdk_args_roundtrip:
  assumes "\<forall>arg \<in> set args. arg \<noteq> [] \<and> CHR 0x27 \<notin> set arg"
  shows "splitArgs (quoted_args args) = Inr args"
  using split_quoted_args [OF assms, of "[]"] by (simp add: splitArgs_def)

theorem dpdk_args_roundtrip_witness: "splitArgs (quoted_args [''-l 1'', ''--vdev'']) = Inr [''-l 1'', ''--vdev'']"
  by (rule dpdk_args_roundtrip) simp

end
