(* ===== verification/Sha256.thy ===== *)
theory Sha256
  imports Prelude
begin

text \<open>
  Model of \<open>Sha256.hpp\<close> and \<open>Sha256.cpp\<close>: the incremental SHA-256 that authenticates the capacity
  evidence manifests. The member arrays are lists of the source's lengths (eight state words, a block
  buffer of 64 bytes, a digest of 32 bytes); the words are 32-bit, so the sums wrap as in the sources.
  The two exceptions of \<open>update\<close> are values of \<open>ShaError\<close>; \<open>finalize\<close> and \<open>finalizeHex\<close> return
  the changed object beside their result.
\<close>

section \<open>Constants\<close>

definition rotateRight :: "u32 \<Rightarrow> nat \<Rightarrow> u32" where
  "rotateRight value0 bits = (drop_bit bits value0) OR (push_bit (32 - bits) value0)"

text \<open>The table, in the rows of the source.\<close>

definition kRoundConstants :: "u32 list" where
  "kRoundConstants = concat
    [[0x428a2f98, 0x71374491, 0xb5c0fbcf, 0xe9b5dba5],
     [0x3956c25b, 0x59f111f1, 0x923f82a4, 0xab1c5ed5],
     [0xd807aa98, 0x12835b01, 0x243185be, 0x550c7dc3],
     [0x72be5d74, 0x80deb1fe, 0x9bdc06a7, 0xc19bf174],
     [0xe49b69c1, 0xefbe4786, 0x0fc19dc6, 0x240ca1cc],
     [0x2de92c6f, 0x4a7484aa, 0x5cb0a9dc, 0x76f988da],
     [0x983e5152, 0xa831c66d, 0xb00327c8, 0xbf597fc7],
     [0xc6e00bf3, 0xd5a79147, 0x06ca6351, 0x14292967],
     [0x27b70a85, 0x2e1b2138, 0x4d2c6dfc, 0x53380d13],
     [0x650a7354, 0x766a0abb, 0x81c2c92e, 0x92722c85],
     [0xa2bfe8a1, 0xa81a664b, 0xc24b8b70, 0xc76c51a3],
     [0xd192e819, 0xd6990624, 0xf40e3585, 0x106aa070],
     [0x19a4c116, 0x1e376c08, 0x2748774c, 0x34b0bcb5],
     [0x391c0cb3, 0x4ed8aa4a, 0x5b9cca4f, 0x682e6ff3],
     [0x748f82ee, 0x78a5636f, 0x84c87814, 0x8cc70208],
     [0x90befffa, 0xa4506ceb, 0xbef9a3f7, 0xc67178f2]]"

section \<open>The object\<close>

record Sha256 =
  sha_state :: "u32 list"
  sha_buffer :: "u8 list"
  sha_digest :: "u8 list"
  sha_total_bytes :: u64
  sha_buffered_bytes :: nat
  sha_finalized :: bool

datatype ShaError = ShaLogicError string | ShaLengthError string

definition newSha256 :: Sha256 where
  "newSha256 = \<lparr>sha_state = [0x6a09e667, 0xbb67ae85, 0x3c6ef372, 0xa54ff53a,
                             0x510e527f, 0x9b05688c, 0x1f83d9ab, 0x5be0cd19],
     sha_buffer = replicate 64 0, sha_digest = replicate 32 0, sha_total_bytes = 0,
     sha_buffered_bytes = 0, sha_finalized = False\<rparr>"

section \<open>The compression of one block\<close>

text \<open>The two loops that fill \<open>words\<close>, an array that starts out zero.\<close>

definition loadMessageWord :: "u8 list \<Rightarrow> nat \<Rightarrow> u32" where
  "loadMessageWord block index =
     (let offset = index * 4
      in push_bit 24 (ucast (block ! offset)) OR push_bit 16 (ucast (block ! (offset + 1)))
         OR push_bit 8 (ucast (block ! (offset + 2))) OR ucast (block ! (offset + 3)))"

definition extendWords :: "u32 list \<Rightarrow> nat \<Rightarrow> u32 list" where
  "extendWords words0 index =
     (let s0 = rotateRight (words0 ! (index - 15)) 7 XOR rotateRight (words0 ! (index - 15)) 18
               XOR drop_bit 3 (words0 ! (index - 15));
          s1 = rotateRight (words0 ! (index - 2)) 17 XOR rotateRight (words0 ! (index - 2)) 19
               XOR drop_bit 10 (words0 ! (index - 2))
      in words0[index := words0 ! (index - 16) + s0 + words0 ! (index - 7) + s1])"

definition messageWords :: "u8 list \<Rightarrow> u32 list" where
  "messageWords block =
     foldl extendWords
       (foldl (\<lambda>ws index. ws[index := loadMessageWord block index]) (replicate 64 0) [0..<16])
       [16..<64]"

text \<open>The working variables \<open>a\<close> to \<open>h\<close>.\<close>

datatype ShaVars = ShaVars u32 u32 u32 u32 u32 u32 u32 u32

fun shaRound :: "u32 list \<Rightarrow> ShaVars \<Rightarrow> nat \<Rightarrow> ShaVars" where
  "shaRound words0 (ShaVars a b c d e f g h) index =
     (let sum1 = rotateRight e 6 XOR rotateRight e 11 XOR rotateRight e 25;
          choose0 = (e AND f) XOR (NOT e AND g);
          temporary1 = h + sum1 + choose0 + kRoundConstants ! index + words0 ! index;
          sum0 = rotateRight a 2 XOR rotateRight a 13 XOR rotateRight a 22;
          majority = (a AND b) XOR (a AND c) XOR (b AND c);
          temporary2 = sum0 + majority
      in ShaVars (temporary1 + temporary2) a b c (d + temporary1) e f g)"

definition transform :: "u32 list \<Rightarrow> u8 list \<Rightarrow> u32 list" where
  "transform state block =
     (let words0 = messageWords block
      in case foldl (shaRound words0)
                (ShaVars (state ! 0) (state ! 1) (state ! 2) (state ! 3)
                         (state ! 4) (state ! 5) (state ! 6) (state ! 7)) [0..<64] of
           ShaVars a b c d e f g h \<Rightarrow>
             [state ! 0 + a, state ! 1 + b, state ! 2 + c, state ! 3 + d,
              state ! 4 + e, state ! 5 + f, state ! 6 + g, state ! 7 + h])"

section \<open>Updates\<close>

definition kMaximumBytes :: u64 where "kMaximumBytes = u64_max div 8"

text \<open>\<open>std::copy_n\<close> into an array at an offset.\<close>

definition copyInto :: "'a list \<Rightarrow> nat \<Rightarrow> 'a list \<Rightarrow> 'a list" where
  "copyInto buffer offset xs = take offset buffer @ xs @ drop (offset + length xs) buffer"

text \<open>The loop over the whole blocks of the input: the state reached and the bytes left over.\<close>

function absorbBlocks :: "u32 list \<Rightarrow> u8 list \<Rightarrow> u32 list \<times> u8 list" where
  "absorbBlocks state input =
     (if length input \<ge> 64 then absorbBlocks (transform state (take 64 input)) (drop 64 input)
      else (state, input))"
  by auto
termination by (relation "measure (length \<circ> snd)") auto

definition absorbRest :: "Sha256 \<Rightarrow> u8 list \<Rightarrow> Sha256" where
  "absorbRest s input =
     (let (state, rest) = absorbBlocks (sha_state s) input
      in s\<lparr>sha_state := state, sha_buffer := copyInto (sha_buffer s) 0 rest,
           sha_buffered_bytes := length rest\<rparr>)"

definition sha_update :: "Sha256 \<Rightarrow> u8 list \<Rightarrow> ShaError + Sha256" where
  "sha_update s input =
     (if sha_finalized s then Inl (ShaLogicError ''cannot update a finalized SHA-256'')
      else if length input > unat (kMaximumBytes - sha_total_bytes s) then
        Inl (ShaLengthError ''SHA-256 input exceeds 64-bit bit length'')
      else
        let s1 = s\<lparr>sha_total_bytes := sha_total_bytes s + of_nat (length input)\<rparr>
        in if sha_buffered_bytes s1 \<noteq> 0 then
             let copied = min (length input) (length (sha_buffer s1) - sha_buffered_bytes s1);
                 s2 = s1\<lparr>sha_buffer := copyInto (sha_buffer s1) (sha_buffered_bytes s1) (take copied input),
                         sha_buffered_bytes := sha_buffered_bytes s1 + copied\<rparr>
             in if sha_buffered_bytes s2 \<noteq> length (sha_buffer s2) then Inr s2
                else Inr (absorbRest (s2\<lparr>sha_state := transform (sha_state s2) (sha_buffer s2),
                                         sha_buffered_bytes := 0\<rparr>) (drop copied input))
           else Inr (absorbRest s1 input))"

text \<open>A string view is read as its bytes.\<close>

definition stringBytes :: "string \<Rightarrow> u8 list" where
  "stringBytes input = map of_char input"

definition sha_update_string :: "Sha256 \<Rightarrow> string \<Rightarrow> ShaError + Sha256" where
  "sha_update_string s input = sha_update s (stringBytes input)"

section \<open>Finalization\<close>

definition finalBlocks :: "Sha256 \<Rightarrow> nat \<times> u8 list" where
  "finalBlocks s =
     (let blocks0 = copyInto (replicate 128 0) 0 (take (sha_buffered_bytes s) (sha_buffer s));
          blocks1 = blocks0[sha_buffered_bytes s := 0x80];
          final_bytes = (if sha_buffered_bytes s < 56 then 64 else 128);
          bit_length = sha_total_bytes s * 8
      in (final_bytes,
          foldl (\<lambda>blocks index. blocks[final_bytes - 1 - index := ucast (drop_bit (index * 8) bit_length)])
            blocks1 [0..<8]))"

definition digestBytes :: "u32 list \<Rightarrow> u8 list" where
  "digestBytes state = concat (map (\<lambda>word0. map (\<lambda>shift. ucast (drop_bit shift word0)) [24, 16, 8, 0]) state)"

definition finalize :: "Sha256 \<Rightarrow> u8 list \<times> Sha256" where
  "finalize s =
     (if sha_finalized s then (sha_digest s, s)
      else
        let (final_bytes, final_blocks) = finalBlocks s;
            state1 = transform (sha_state s) (take 64 final_blocks);
            state2 = (if final_bytes = 128 then transform state1 (take 64 (drop 64 final_blocks)) else state1);
            digest = digestBytes state2
        in (digest, s\<lparr>sha_state := state2, sha_digest := digest, sha_finalized := True\<rparr>))"

definition kHex :: string where "kHex = ''0123456789abcdef''"

definition hexBytes :: "u8 list \<Rightarrow> string" where
  "hexBytes bytes = concat (map (\<lambda>b. [kHex ! unat (drop_bit 4 b), kHex ! unat (b AND 0x0f)]) bytes)"

definition finalizeHex :: "Sha256 \<Rightarrow> string \<times> Sha256" where
  "finalizeHex s = (let (bytes, s') = finalize s in (hexBytes bytes, s'))"

definition sha256HexBytes :: "u8 list \<Rightarrow> ShaError + string" where
  "sha256HexBytes input = map_sum id (\<lambda>s. fst (finalizeHex s)) (sha_update newSha256 input)"

definition sha256Hex :: "string \<Rightarrow> ShaError + string" where
  "sha256Hex input = map_sum id (\<lambda>s. fst (finalizeHex s)) (sha_update_string newSha256 input)"

end
