(* ===== verification/CapacityManifest.thy ===== *)
theory CapacityManifest
  imports BookManager Decimal Sha256
begin

text \<open>
  Model of \<open>BookCapacityProfile.cpp\<close>: the loader of the capacity evidence manifest, the file that fixes the sizes of
  the order and price arenas. The loader reads the file, checks its SHA-256 against the configured digest, splits it
  into the lines of one of the two schemas, reads the fields in their order and validates the resulting profile.

  The file system is a parameter: for a path it gives the file, if it can be opened, as its end position and what
  reading a number of bytes from its start gives. Every \<open>throw\<close> is a \<open>StartupError\<close>.
\<close>

record BookCapacityEvidenceManifest =
  ev_profile :: BookCapacityProfile
  ev_corpus_manifest_sha256 :: string
  ev_profiler_sha256 :: string
  ev_profile_output_sha256 :: string
  ev_schema :: string

definition kSchemaV1 :: string where "kSchemaV1 = ''astra_book_capacity_evidence_v1''"
definition kSchemaV2 :: string where "kSchemaV2 = ''astra_book_capacity_evidence_v2''"

definition kMaximumManifestBytes :: nat where "kMaximumManifestBytes = 16 * 1024"
definition kManifestV1LineCount :: nat where "kManifestV1LineCount = 11"
definition kManifestV2LineCount :: nat where "kManifestV2LineCount = 12"

text \<open>The hash check \<open>isLowerHexSha256\<close> has the same text here as in \<open>BookManager.cpp\<close> and is used from there.\<close>

definition isTokenChar :: "char \<Rightarrow> bool" where
  "isTokenChar c =
     ((CHR ''0'' \<le> c \<and> c \<le> CHR ''9'') \<or> (CHR ''A'' \<le> c \<and> c \<le> CHR ''Z'') \<or> (CHR ''a'' \<le> c \<and> c \<le> CHR ''z'') \<or>
      c \<in> set ''-_.:/+'')"

definition isProfileToken :: "string \<Rightarrow> bool" where
  "isProfileToken value0 =
     (if value0 = [] \<or> length value0 > 128 then False else list_all isTokenChar value0)"

record ManifestFile =
  fl_end :: int
  fl_read :: "nat \<Rightarrow> string"

definition readManifest :: "(string \<Rightarrow> ManifestFile option) \<Rightarrow> string \<Rightarrow> StartupError + string" where
  "readManifest files path =
     (if path = [] then Inl (InvalidArgument ''capacity evidence manifest path is empty'')
      else case files path of
        None \<Rightarrow> Inl (InvalidArgument ''cannot open capacity evidence manifest'')
      | Some input \<Rightarrow>
          if fl_end input \<le> 0 \<or> nat (fl_end input) > kMaximumManifestBytes then
            Inl (InvalidArgument ''capacity evidence manifest size must be in [1, 16384] bytes'')
          else
            let contents = fl_read input (nat (fl_end input))
            in if length contents \<noteq> nat (fl_end input) then
                 Inl (InvalidArgument ''cannot read complete capacity evidence manifest'')
               else Inr contents)"

abbreviation (input) LF :: char where "LF \<equiv> CHR 0x0A"

text \<open>The loop of \<open>canonicalLines\<close> over the text from \<open>begin\<close> on.\<close>

function linesLoop :: "string \<Rightarrow> string list \<Rightarrow> StartupError + string list" where
  "linesLoop rest lines =
     (if rest = [] then Inr lines
      else
        let line = takeWhile (\<lambda>c. c \<noteq> LF) rest
        in if line = rest \<or> length lines = kManifestV2LineCount then
             Inl (InvalidArgument ''capacity evidence manifest has an unexpected line count'')
           else linesLoop (drop (length line + 1) rest) (lines @ [line]))"
  by auto
termination by (relation "measure (length \<circ> fst)") auto

definition canonicalLines :: "string \<Rightarrow> StartupError + string list" where
  "canonicalLines contents =
     (if last contents \<noteq> LF then Inl (InvalidArgument ''capacity evidence manifest must end with one LF'')
      else if list_ex (\<lambda>c. c = CHR 0x0D \<or> c = CHR 0x00 \<or> (of_char c :: nat) > 0x7f) contents then
        Inl (InvalidArgument ''capacity evidence manifest must be canonical ASCII with LF endings'')
      else ebind (linesLoop contents []) (\<lambda>lines.
        if length lines \<noteq> kManifestV1LineCount \<and> length lines \<noteq> kManifestV2LineCount then
          Inl (InvalidArgument ''capacity evidence manifest has an unexpected line count'')
        else Inr lines))"

definition manifestField :: "string \<Rightarrow> string \<Rightarrow> StartupError + string" where
  "manifestField line key =
     (if take (length key) line \<noteq> key \<or> length line = length key \<or> line ! length key \<noteq> CHR ''='' then
        Inl (InvalidArgument ''capacity evidence manifest keys/order do not match schema'')
      else Inr (drop (length key + 1) line))"

definition canonicalUnsigned :: "string \<Rightarrow> string \<Rightarrow> u64 \<Rightarrow> StartupError + u64" where
  "canonicalUnsigned value0 key maximum =
     (if value0 = [] \<or> (length value0 > 1 \<and> hd value0 = CHR ''0'') then
        Inl (InvalidArgument (''capacity evidence manifest '' @ key @ '' is not a canonical positive integer''))
      else
        let (ec, rest, parsed) = fromChars value0 0
        in if ec \<noteq> NoErrc \<or> rest \<noteq> [] \<or> parsed = 0 \<or> parsed > maximum then
             Inl (InvalidArgument (''capacity evidence manifest '' @ key @ '' is not an in-range positive integer''))
           else Inr parsed)"

text \<open>The exceptions of the hash, as the loader passes them on.\<close>

definition hashResult :: "ShaError + string \<Rightarrow> StartupError + string" where
  "hashResult r = (case r of Inr digest \<Rightarrow> Inr digest
     | Inl (ShaLengthError what) \<Rightarrow> Inl (LengthError what) | Inl (ShaLogicError what) \<Rightarrow> Inl (LogicError what))"

text \<open>One capacity line: the value of a key, read as a number.\<close>

definition capacityField :: "string list \<Rightarrow> nat \<Rightarrow> string \<Rightarrow> u64 \<Rightarrow> StartupError + u64" where
  "capacityField lines index key maximum =
     ebind (manifestField (lines ! index) key) (\<lambda>value0. canonicalUnsigned value0 key maximum)"

definition loadBookCapacityEvidenceManifest ::
    "(string \<Rightarrow> ManifestFile option) \<Rightarrow> string \<Rightarrow> string \<Rightarrow> string \<Rightarrow> StartupError + BookCapacityEvidenceManifest" where
  "loadBookCapacityEvidenceManifest files path expected_profile_name expected_sha256 =
     (if \<not> isProfileToken expected_profile_name then
        Inl (InvalidArgument ''expected capacity profile name is not an audit-safe token'')
      else if \<not> isLowerHexSha256 expected_sha256 then
        Inl (InvalidArgument ''expected capacity evidence SHA-256 must be 64 lowercase hex digits'')
      else
      ebind (readManifest files path) (\<lambda>contents.
      ebind (hashResult (sha256Hex contents)) (\<lambda>computed_sha256.
      if computed_sha256 \<noteq> expected_sha256 then
        Inl (InvalidArgument ''capacity evidence manifest SHA-256 differs from configured digest'')
      else
      ebind (canonicalLines contents) (\<lambda>lines.
      ebind (manifestField (lines ! 0) ''schema'') (\<lambda>schema.
      let is_v1 = (schema = kSchemaV1); is_v2 = (schema = kSchemaV2)
      in if (\<not> is_v1 \<and> \<not> is_v2) \<or> (is_v1 \<and> length lines \<noteq> kManifestV1LineCount) \<or>
            (is_v2 \<and> length lines \<noteq> kManifestV2LineCount) then
        Inl (InvalidArgument ''unsupported capacity evidence manifest schema'')
      else
      ebind (manifestField (lines ! 1) ''profile_name'') (\<lambda>profile_name.
      if \<not> isProfileToken profile_name \<or> profile_name \<noteq> expected_profile_name then
        Inl (InvalidArgument ''capacity evidence manifest profile_name differs from configured profile'')
      else
      ebind (manifestField (lines ! 2) ''corpus_manifest_sha256'') (\<lambda>corpus_sha256.
      ebind (manifestField (lines ! 3) ''profiler_sha256'') (\<lambda>profiler_sha256.
      ebind (if is_v2 then manifestField (lines ! 4) ''profile_output_sha256'' else Inr []) (\<lambda>profile_output_sha256.
      if \<not> isLowerHexSha256 corpus_sha256 \<or> \<not> isLowerHexSha256 profiler_sha256 \<or>
         (is_v2 \<and> \<not> isLowerHexSha256 profile_output_sha256) then
        Inl (InvalidArgument ''capacity evidence manifest provenance hashes must be lowercase SHA-256'')
      else
      let capacity_offset = (if is_v2 then 1 else 0)
      in ebind (capacityField lines (4 + capacity_offset) ''order_direct_slots'' u64_max) (\<lambda>direct.
      ebind (capacityField lines (5 + capacity_offset) ''order_fallback_buckets'' (ucast u32_max)) (\<lambda>fallback_buckets.
      ebind (capacityField lines (6 + capacity_offset) ''price_page_capacity'' (ucast u32_max - 1)) (\<lambda>price_pages.
      ebind (capacityField lines (7 + capacity_offset) ''profiled_max_order_ref'' u64_max) (\<lambda>maximum_order_reference.
      ebind (capacityField lines (8 + capacity_offset) ''profiled_unique_price_pages'' (ucast u32_max - 1)) (\<lambda>unique_price_pages.
      ebind (capacityField lines (9 + capacity_offset) ''minimum_direct_order_headroom'' u64_max) (\<lambda>minimum_direct_headroom.
      ebind (capacityField lines (10 + capacity_offset) ''minimum_price_page_headroom'' (ucast u32_max)) (\<lambda>minimum_price_headroom.
      let profile = \<lparr>prof_name = profile_name, prof_evidence_sha256 = computed_sha256,
            prof_config = \<lparr>cfg_orders = \<lparr>direct_slots = direct, fallback_bucket_count = ucast fallback_buckets, ot_prefault = False\<rparr>,
                           cfg_prices = \<lparr>page_capacity = ucast price_pages, pls_prefault = False\<rparr>\<rparr>,
            prof_evidence = \<lparr>profiled_max_order_reference = maximum_order_reference,
                             profiled_unique_price_pages = ucast unique_price_pages\<rparr>,
            prof_minimum_headroom = \<lparr>direct_order_reference_slots = minimum_direct_headroom,
                                     headroom_price_pages = ucast minimum_price_headroom\<rparr>\<rparr>
      in ebind (validateBookCapacityProfile profile) (\<lambda>_.
      Inr \<lparr>ev_profile = profile, ev_corpus_manifest_sha256 = corpus_sha256, ev_profiler_sha256 = profiler_sha256,
           ev_profile_output_sha256 = profile_output_sha256, ev_schema = schema\<rparr>)))))))))))))))))"

end
