(* ===== verification/EngineMain.thy ===== *)
theory EngineMain
  imports CapacityManifest UdpReceiver MoldUdpDecoderInv MarketDataEngine
begin

text \<open>
  Model of \<open>apps/md_engine_main.cpp\<close>, the engine's application: its command line and environment, the capacity gate
  that must pass before a socket or a device is opened, the choice of the receiver, the run, and the verdict
  that becomes the exit status.

  The machine is a parameter, \<open>Host\<close>: the environment, the file system, whether the program was built with DPDK, whether
  the thread can be pinned to a CPU, the page size, the layout of a book slot, and for each receiver either the
  exception of its constructor or what its polls return until the run ends (the receivers have theories of their
  own). What the program prints is left out. An exception ends the program with the failure status.
\<close>

datatype ReceiverChoice =
    DpdkDual string u16 string u16
  | DpdkSingle string u16
  | DualBatch string u16 string u16 nat
  | DualPlain string u16 string u16
  | SingleBatch string u16 nat
  | SinglePlain string u16

record Host =
  h_getenv :: "string \<Rightarrow> string option"
  h_files :: "string \<Rightarrow> ManifestFile option"
  h_dpdk_built :: bool
  h_pin :: "int \<Rightarrow> bool"
  h_page_size :: int
  h_slot_bytes :: u64
  h_slot_align :: u64
  h_open :: "ReceiverChoice \<Rightarrow> StartupError + PacketView option list"

section \<open>Settings\<close>

text \<open>A pointer that is null or points to an empty string.\<close>

definition unset :: "string option \<Rightarrow> bool" where
  "unset value0 = (value0 = None \<or> value0 = Some [])"

definition pinRequestedCpu :: "Host \<Rightarrow> StartupError + unit" where
  "pinRequestedCpu h =
     (let cpu_env = h_getenv h ''ASTRA_CPU''
      in if unset cpu_env then Inr ()
         else
           let (ec, rest, parsed_cpu) = fromChars (the cpu_env) 0
           in if ec \<noteq> NoErrc \<or> rest \<noteq> [] \<or> parsed_cpu > 0x7FFFFFFF then
                Inl (InvalidArgument ''ASTRA_CPU must be a non-negative in-range integer CPU ID'')
              else if \<not> h_pin h (uint parsed_cpu) then
                Inl (RuntimeError ''requested CPU affinity is required for this run'')
              else Inr ())"

definition engine_envBool :: "string \<Rightarrow> string option \<Rightarrow> bool \<Rightarrow> StartupError + bool" where
  "engine_envBool name value0 preset =
     (case value0 of None \<Rightarrow> Inr preset
      | Some v \<Rightarrow>
          if v \<in> {''0'', ''false'', ''off'', ''no''} then Inr False
          else if v \<in> {''1'', ''true'', ''on'', ''yes''} then Inr True
          else Inl (InvalidArgument (name @ '' must be one of on/off, true/false, yes/no, 1/0'')))"

definition envU64 :: "Host \<Rightarrow> string \<Rightarrow> u64 \<Rightarrow> u64 \<Rightarrow> u64 \<Rightarrow> StartupError + u64" where
  "envU64 h name preset minimum maximum =
     (let value0 = h_getenv h name
      in if unset value0 then Inr preset
         else
           let (ec, rest, parsed) = fromChars (the value0) 0
           in if ec \<noteq> NoErrc \<or> rest \<noteq> [] \<or> parsed < minimum \<or> parsed > maximum then
                Inl (InvalidArgument (name @ '' is not a valid in-range integer''))
              else Inr parsed)"

definition requiredEnvU64 :: "Host \<Rightarrow> string \<Rightarrow> u64 \<Rightarrow> u64 \<Rightarrow> StartupError + u64" where
  "requiredEnvU64 h name minimum maximum =
     (if unset (h_getenv h name) then Inl (InvalidArgument (name @ '' is required for a custom capacity profile''))
      else envU64 h name 0 minimum maximum)"

definition parseUnsignedArgument :: "string \<Rightarrow> u64 \<Rightarrow> u64 \<Rightarrow> u64 option" where
  "parseUnsignedArgument value0 minimum maximum =
     (if value0 = [] then None
      else
        let (ec, rest, parsed) = fromChars value0 0
        in if ec = NoErrc \<and> rest = [] \<and> parsed \<ge> minimum \<and> parsed \<le> maximum then Some parsed else None)"

definition requiredMetadataToken :: "Host \<Rightarrow> string \<Rightarrow> nat \<Rightarrow> StartupError + string" where
  "requiredMetadataToken h name maximum_length =
     (let value0 = h_getenv h name
      in if unset value0 then Inl (InvalidArgument (name @ '' is required''))
         else
           let token = the value0
           in if length token > maximum_length then Inl (InvalidArgument (name @ '' is too long''))
              else if \<not> list_all isTokenChar token then
                Inl (InvalidArgument (name @ '' must contain only alphanumerics or - _ . : / +''))
              else Inr token)"

definition requiredSha256 :: "Host \<Rightarrow> string \<Rightarrow> StartupError + string" where
  "requiredSha256 h name =
     (let value0 = h_getenv h name
      in if unset value0 then Inl (InvalidArgument (name @ '' is required''))
         else if \<not> isLowerHexSha256 (the value0) then
           Inl (InvalidArgument (name @ '' must be exactly 64 lowercase hex digits''))
         else Inr (the value0))"

definition requiredEnvironmentValue :: "Host \<Rightarrow> string \<Rightarrow> StartupError + string" where
  "requiredEnvironmentValue h name =
     (let value0 = h_getenv h name
      in if unset value0 then Inl (InvalidArgument (name @ '' is required'')) else Inr (the value0))"

definition requireManifestValue :: "string \<Rightarrow> u64 \<Rightarrow> u64 \<Rightarrow> StartupError + unit" where
  "requireManifestValue name configured manifested =
     (if configured \<noteq> manifested then Inl (InvalidArgument (name @ '' differs from the capacity evidence manifest''))
      else Inr ())"

section \<open>The capacity gate\<close>

record BookDeploymentCapacity =
  dep_name :: string
  dep_evidence_schema :: string
  dep_evidence_sha256 :: string
  dep_corpus_manifest_sha256 :: string
  dep_profiler_sha256 :: string
  dep_profile_output_sha256 :: string
  dep_config :: BookManagerConfig
  dep_evidence :: BookCapacityEvidence
  dep_minimum_headroom :: BookCapacityHeadroom
  dep_effective_headroom :: BookCapacityHeadroom

definition bookCapacityFromEnvironment :: "Host \<Rightarrow> StartupError + BookDeploymentCapacity" where
  "bookCapacityFromEnvironment h =
     ebind (requiredMetadataToken h ''ASTRA_BOOK_CAPACITY_PROFILE'' 128) (\<lambda>profile_name.
     ebind (requiredSha256 h ''ASTRA_BOOK_CAPACITY_EVIDENCE_SHA256'') (\<lambda>expected_evidence_sha256.
     ebind (requiredEnvironmentValue h ''ASTRA_BOOK_CAPACITY_EVIDENCE_FILE'') (\<lambda>evidence_file.
     ebind (requiredEnvU64 h ''ASTRA_ORDER_DIRECT_SLOTS'' 1 u64_max) (\<lambda>configured_direct_slots.
     ebind (requiredEnvU64 h ''ASTRA_ORDER_FALLBACK_BUCKETS'' 1 (ucast u32_max)) (\<lambda>configured_fallback_buckets.
     ebind (requiredEnvU64 h ''ASTRA_PRICE_PAGE_CAPACITY'' 1 (ucast u32_max - 1)) (\<lambda>configured_price_pages.
     ebind (requiredEnvU64 h ''ASTRA_PROFILED_MAX_ORDER_REF'' 1 u64_max) (\<lambda>configured_maximum_order_reference.
     ebind (requiredEnvU64 h ''ASTRA_PROFILED_UNIQUE_PRICE_PAGES'' 1 (ucast u32_max - 1)) (\<lambda>configured_unique_price_pages.
     ebind (requiredEnvU64 h ''ASTRA_MIN_DIRECT_ORDER_HEADROOM'' 1 u64_max) (\<lambda>configured_minimum_direct_headroom.
     ebind (requiredEnvU64 h ''ASTRA_MIN_PRICE_PAGE_HEADROOM'' 1 (ucast u32_max)) (\<lambda>configured_minimum_price_headroom.
     ebind (loadBookCapacityEvidenceManifest (h_files h) evidence_file profile_name expected_evidence_sha256) (\<lambda>manifest.
     if ev_schema manifest \<noteq> kSchemaV2 then
       Inl (InvalidArgument ''md_engine startup requires astra_book_capacity_evidence_v2'')
     else
     let profile = ev_profile manifest; config = prof_config profile
     in ebind (requireManifestValue ''ASTRA_ORDER_DIRECT_SLOTS'' configured_direct_slots (direct_slots (cfg_orders config))) (\<lambda>_.
     ebind (requireManifestValue ''ASTRA_ORDER_FALLBACK_BUCKETS'' configured_fallback_buckets
              (ucast (fallback_bucket_count (cfg_orders config)))) (\<lambda>_.
     ebind (requireManifestValue ''ASTRA_PRICE_PAGE_CAPACITY'' configured_price_pages (ucast (page_capacity (cfg_prices config)))) (\<lambda>_.
     ebind (requireManifestValue ''ASTRA_PROFILED_MAX_ORDER_REF'' configured_maximum_order_reference
              (profiled_max_order_reference (prof_evidence profile))) (\<lambda>_.
     ebind (requireManifestValue ''ASTRA_PROFILED_UNIQUE_PRICE_PAGES'' configured_unique_price_pages
              (ucast (profiled_unique_price_pages (prof_evidence profile)))) (\<lambda>_.
     ebind (requireManifestValue ''ASTRA_MIN_DIRECT_ORDER_HEADROOM'' configured_minimum_direct_headroom
              (direct_order_reference_slots (prof_minimum_headroom profile))) (\<lambda>_.
     ebind (requireManifestValue ''ASTRA_MIN_PRICE_PAGE_HEADROOM'' configured_minimum_price_headroom
              (ucast (headroom_price_pages (prof_minimum_headroom profile)))) (\<lambda>_.
     ebind (engine_envBool ''ASTRA_BOOK_PREFAULT'' (h_getenv h ''ASTRA_BOOK_PREFAULT'') True) (\<lambda>prefault.
     let config1 = config\<lparr>cfg_orders := (cfg_orders config)\<lparr>ot_prefault := prefault\<rparr>,
                          cfg_prices := (cfg_prices config)\<lparr>pls_prefault := prefault\<rparr>\<rparr>;
         profile1 = profile\<lparr>prof_config := config1\<rparr>
     in ebind (validateBookCapacityProfile profile1) (\<lambda>effective.
     Inr \<lparr>dep_name = prof_name profile1, dep_evidence_schema = ev_schema manifest,
          dep_evidence_sha256 = prof_evidence_sha256 profile1,
          dep_corpus_manifest_sha256 = ev_corpus_manifest_sha256 manifest,
          dep_profiler_sha256 = ev_profiler_sha256 manifest,
          dep_profile_output_sha256 = ev_profile_output_sha256 manifest,
          dep_config = config1, dep_evidence = prof_evidence profile1,
          dep_minimum_headroom = prof_minimum_headroom profile1, dep_effective_headroom = effective\<rparr>))))))))))))))))))))"

section \<open>Names in reports\<close>

definition channelHealthName :: "ChannelHealth \<Rightarrow> string" where
  "channelHealthName status =
     (case status of Good \<Rightarrow> ''Good'' | GapDetected \<Rightarrow> ''GapDetected'' | Recovering \<Rightarrow> ''Recovering''
      | Stale \<Rightarrow> ''Stale'' | Invalid \<Rightarrow> ''Invalid'')"

definition channelPhaseName :: "ChannelPhase \<Rightarrow> string" where
  "channelPhaseName phase =
     (case phase of WaitingStartOfMessages \<Rightarrow> ''WaitingStartOfMessages'' | StartupDirectorySpin \<Rightarrow> ''StartupDirectorySpin''
      | StartupAdminSpin \<Rightarrow> ''StartupAdminSpin'' | SystemHours \<Rightarrow> ''SystemHours'' | MarketHours \<Rightarrow> ''MarketHours''
      | PostMarketHours \<Rightarrow> ''PostMarketHours'' | PostSystemHours \<Rightarrow> ''PostSystemHours'' | EndOfMessages \<Rightarrow> ''EndOfMessages'')"

section \<open>Command line\<close>

record EngineArguments =
  arg_dual_feed :: bool
  arg_ip_a :: string
  arg_port_a :: u16
  arg_ip_b :: string
  arg_port_b :: u16
  arg_channel_id :: u8

text \<open>\<open>argv\<close> with the program's name first; a usage message or a complaint about a number is \<open>None\<close>.\<close>

definition parseEngineArguments :: "string list \<Rightarrow> EngineArguments option" where
  "parseEngineArguments argv =
     (let argc = length argv
      in if argc \<noteq> 3 \<and> argc \<noteq> 4 \<and> argc \<noteq> 5 \<and> argc \<noteq> 6 then None
         else
      let dual_feed = (argc = 5 \<or> argc = 6)
      in case parseUnsignedArgument (argv ! 2) 1 (ucast u16_max) of None \<Rightarrow> None
      | Some parsed_a \<Rightarrow>
      (case (if dual_feed then parseUnsignedArgument (argv ! 4) 1 (ucast u16_max) else Some 0) of None \<Rightarrow> None
      | Some parsed_b \<Rightarrow>
      let channel_argument = (if \<not> dual_feed \<and> argc = 4 then Some (argv ! 3)
                              else if dual_feed \<and> argc = 6 then Some (argv ! 5) else None)
      in case (case channel_argument of None \<Rightarrow> Some 0 | Some argument \<Rightarrow> parseUnsignedArgument argument 0 0xFF) of None \<Rightarrow> None
      | Some parsed_channel \<Rightarrow>
          Some \<lparr>arg_dual_feed = dual_feed, arg_ip_a = argv ! 1, arg_port_a = ucast parsed_a,
                arg_ip_b = (if dual_feed then argv ! 3 else []), arg_port_b = (if dual_feed then ucast parsed_b else 0),
                arg_channel_id = ucast parsed_channel\<rparr>))"

section \<open>Receiver settings\<close>

record EngineSettings =
  set_use_dpdk :: bool
  set_use_recvmmsg :: bool
  set_batch_size :: nat
  set_config :: EngineConfig

definition defaultEngineConfig :: EngineConfig where
  "defaultEngineConfig = \<lparr>enable_latency_metrics = True, enable_stage_latency_metrics = False,
     stop_on_decode_error = False, stop_on_sequence_gap = False\<rparr>"

definition readEngineSettings :: "Host \<Rightarrow> StartupError + EngineSettings" where
  "readEngineSettings h =
     (let rx_transport = h_getenv h ''ASTRA_RX'';
          use_dpdk = (rx_transport = Some ''dpdk'')
      in if rx_transport \<noteq> None \<and> \<not> use_dpdk \<and> rx_transport \<noteq> Some ''udp'' \<and> rx_transport \<noteq> Some ''kernel'' then
           Inl (RuntimeError (''Unknown ASTRA_RX: '' @ the rx_transport))
         else
      let rx_mode = h_getenv h ''ASTRA_UDP_RX'';
          use_recvmmsg = (rx_mode = Some ''recvmmsg'' \<or> rx_mode = Some ''batch'')
      in if rx_mode \<noteq> None \<and> rx_mode \<noteq> Some [] \<and> \<not> use_recvmmsg \<and> rx_mode \<noteq> Some ''recv'' then
           Inl (RuntimeError (''Unknown ASTRA_UDP_RX: '' @ the rx_mode))
         else
      ebind (if h_getenv h ''ASTRA_UDP_BATCH_SIZE'' \<noteq> None
             then envU64 h ''ASTRA_UDP_BATCH_SIZE'' (of_nat kDefaultBatchSize) 1 (of_nat kMaxBatchSize)
             else Inr (of_nat kDefaultBatchSize)) (\<lambda>batch_size.
      ebind (engine_envBool ''ASTRA_LATENCY_METRICS'' (h_getenv h ''ASTRA_LATENCY_METRICS'')
               (enable_latency_metrics defaultEngineConfig)) (\<lambda>metrics.
      Inr \<lparr>set_use_dpdk = use_dpdk, set_use_recvmmsg = use_recvmmsg, set_batch_size = unat batch_size,
           set_config = defaultEngineConfig\<lparr>enable_latency_metrics := metrics\<rparr>\<rparr>)))"

definition chooseReceiver :: "EngineArguments \<Rightarrow> EngineSettings \<Rightarrow> ReceiverChoice" where
  "chooseReceiver a s =
     (if set_use_dpdk s then
        (if arg_dual_feed a then DpdkDual (arg_ip_a a) (arg_port_a a) (arg_ip_b a) (arg_port_b a)
         else DpdkSingle (arg_ip_a a) (arg_port_a a))
      else if arg_dual_feed a then
        (if set_use_recvmmsg s then DualBatch (arg_ip_a a) (arg_port_a a) (arg_ip_b a) (arg_port_b a) (set_batch_size s)
         else DualPlain (arg_ip_a a) (arg_port_a a) (arg_ip_b a) (arg_port_b a))
      else if set_use_recvmmsg s then SingleBatch (arg_ip_a a) (arg_port_a a) (set_batch_size s)
      else SinglePlain (arg_ip_a a) (arg_port_a a))"

definition openReceiver :: "Host \<Rightarrow> EngineArguments \<Rightarrow> EngineSettings \<Rightarrow> StartupError + PacketView option list" where
  "openReceiver h a s =
     ebind (if \<not> set_use_dpdk s then pinRequestedCpu h else Inr ()) (\<lambda>_.
     if set_use_dpdk s \<and> \<not> h_dpdk_built h then
       Inl (RuntimeError ''ASTRA_RX=dpdk requested, but md_engine was built without -DASTRA_ENABLE_DPDK=ON'')
     else
     ebind (h_open h (chooseReceiver a s)) (\<lambda>polls.
     ebind (if set_use_dpdk s then pinRequestedCpu h else Inr ()) (\<lambda>_. Inr polls)))"

section \<open>The run and its verdict\<close>

datatype ExitStatus = ExitSuccess | ExitFailure

definition sessionHealthy :: "MoldUdpDecoder \<Rightarrow> bool" where
  "sessionHealthy d =
     (let channel = md_channel d; books = ip_books (md_parser d)
      in \<not> (ch_status channel \<noteq> Good \<or> \<not> gb_empty (ch_gap_buffer channel) \<or> ch_phase channel \<noteq> EndOfMessages \<or>
            totalLiveOrderCount books \<noteq> 0 \<or> \<not> audit_clean (auditDirectory books (ip_symbols (md_parser d))) \<or>
            cnt_page_capacity_failures (pls_counters (prices (mgr_stores books))) \<noteq> 0 \<or> \<not> endOfStreamAccepted d))"

text \<open>The steps of \<open>main\<close> up to the start of the engine.\<close>

definition engineStartup ::
    "Host \<Rightarrow> EngineArguments \<Rightarrow> StartupError + MoldUdpDecoder MarketDataEngine \<times> PacketView option list" where
  "engineStartup h a =
     ebind (readEngineSettings h) (\<lambda>settings.
     ebind (bookCapacityFromEnvironment h) (\<lambda>deployment.
     ebind (estimateFootprintForHost (h_slot_bytes h) (h_slot_align h) (dep_config deployment) (h_page_size h)) (\<lambda>planned_storage.
     ebind (openReceiver h a settings) (\<lambda>polls.
     ebind (newBookManager (h_slot_bytes h) (h_slot_align h) (h_page_size h) (dep_config deployment)) (\<lambda>book_manager.
     let decoder = newMoldUdpDecoder newStockDirectory book_manager (arg_channel_id a) 1
     in Inr (newMarketDataEngine decoder newLatencyRecorder (set_config settings), polls))))))"

definition planOnly :: "Host \<Rightarrow> StartupError + BookStorageFootprint" where
  "planOnly h =
     ebind (bookCapacityFromEnvironment h) (\<lambda>deployment.
     estimateFootprintForHost (h_slot_bytes h) (h_slot_align h) (dep_config deployment) (h_page_size h))"

text \<open>The exit status; \<open>None\<close> stands for a run that does not return.\<close>

definition engineMain :: "Host \<Rightarrow> (u64 \<Rightarrow> u64 \<Rightarrow> u64) \<Rightarrow> string list \<Rightarrow> ExitStatus option" where
  "engineMain h elapsed argv =
     (if length argv = 2 \<and> argv ! 1 = ''--book-storage-plan-only'' then
        (case planOnly h of Inl _ \<Rightarrow> Some ExitFailure | Inr _ \<Rightarrow> Some ExitSuccess)
      else case parseEngineArguments argv of None \<Rightarrow> Some ExitFailure
      | Some arguments \<Rightarrow>
          (case engineStartup h arguments of Inl _ \<Rightarrow> Some ExitFailure
           | Inr (engine, polls) \<Rightarrow>
               (case engine_run (processPacket elapsed) engine polls of None \<Rightarrow> None
                | Some engine1 \<Rightarrow>
                    if sessionHealthy (eng_processor engine1) then Some ExitSuccess else Some ExitFailure)))"

end
