(* ===== verification/Sha256Stream.thy ===== *)
theory Sha256Stream
  imports Sha256Correct
begin

text \<open>
  The incremental use of the hash: any division of a message into \<open>update\<close> calls, followed by
  \<open>finalizeHex\<close>, gives the digest the standard assigns to the whole message; the only refusal is a message
  whose bit length does not fit 64 bits.
\<close>

section \<open>Absorbing blocks\<close>

declare absorbBlocks.simps [simp del]

lemma absorb_short: "length input < 64 \<Longrightarrow> absorbBlocks state input = (state, input)"
  by (simp add: absorbBlocks.simps)

lemma absorb_block: "length block = 64 \<Longrightarrow> absorbBlocks state (block @ input) = absorbBlocks (transform state block) input"
  by (subst absorbBlocks.simps) simp

lemma absorb_append:
  "absorbBlocks state (xs @ ys) = (case absorbBlocks state xs of (state', rest) \<Rightarrow> absorbBlocks state' (rest @ ys))"
proof (induction state xs rule: absorbBlocks.induct)
  case (1 state xs)
  show ?case
  proof (cases "64 \<le> length xs")
    case True
    then have "absorbBlocks state (xs @ ys) = absorbBlocks (transform state (take 64 xs)) (drop 64 xs @ ys)"
      using absorb_block [of "take 64 xs" state "drop 64 xs @ ys"] by (simp flip: append_assoc)
    with 1 True show ?thesis by (subst (2) absorbBlocks.simps) simp
  qed (simp add: absorb_short)
qed

lemma absorb_rest_short: "length (snd (absorbBlocks state xs)) < 64"
proof (induction state xs rule: absorbBlocks.induct)
  case (1 state xs)
  then show ?case by (subst absorbBlocks.simps) simp
qed

lemma absorb_state_length: "length state = 8 \<Longrightarrow> length (fst (absorbBlocks state xs)) = 8"
proof (induction state xs rule: absorbBlocks.induct)
  case (1 state xs)
  then show ?case by (subst absorbBlocks.simps) simp
qed

text \<open>Over a whole number of blocks the loop is the standard's iteration of the compression.\<close>

lemma fips_block_Suc: "fips_block p (Suc i) = fips_block (drop 64 p) i"
  by (simp add: fips_block_def ac_simps)

lemma take_4: "i + 3 < length xs \<Longrightarrow> take 4 (drop i xs) = [xs ! i, xs ! (i + 1), xs ! (i + 2), xs ! (i + 3)]"
  by (rule nth_equalityI) (auto simp: less_Suc_eq numeral_eq_Suc)

lemma loadMessageWord_number:
  assumes "4 * j + 3 < length block"
  shows "loadMessageWord block j = of_nat (foldl (\<lambda>n b. 256 * n + unat b) 0 (take 4 (drop (4 * j) block)))"
proof -
  define f :: "nat \<Rightarrow> u32" where "f i = ucast (block ! i)" for i
  have f: "unat (f i) = unat (block ! i)" "unat (f i) < 256" for i
    using unsigned_less [of "block ! i", where 'a=nat]
    by (simp_all add: f_def unsigned_ucast_eq take_bit_nat_eq_self)
  have "push_bit 24 w OR push_bit 16 x OR push_bit 8 y OR z =
        push_bit 8 (push_bit 8 (push_bit 8 w OR x) OR y) OR z" for w x y z :: u32
    by (simp add: push_bit_or or.assoc)
  moreover have "unat (push_bit 8 (push_bit 8 (push_bit 8 w OR x) OR y) OR z) =
        ((unat w * 256 + unat x) * 256 + unat y) * 256 + unat z"
    if "unat w < 256" "unat x < 256" "unat y < 256" "unat z < 256" for w x y z :: u32
  proof -
    have 1: "unat (push_bit 8 w OR x) = unat w * 256 + unat x"
      using that unat_shl_or [of w 8 x] by simp
    have 2: "unat (push_bit 8 (push_bit 8 w OR x) OR y) = (unat w * 256 + unat x) * 256 + unat y"
      using that unat_shl_or [of "push_bit 8 w OR x" 8 y] by (simp only: 1) simp
    show ?thesis
      using that unat_shl_or [of "push_bit 8 (push_bit 8 w OR x) OR y" 8 z] by (simp only: 2) simp
  qed
  ultimately have join: "unat (push_bit 24 w OR push_bit 16 x OR push_bit 8 y OR z) =
        ((unat w * 256 + unat x) * 256 + unat y) * 256 + unat z"
    if "unat w < 256" "unat x < 256" "unat y < 256" "unat z < 256" for w x y z :: u32
    using that by metis
  have "loadMessageWord block j = push_bit 24 (f (4 * j)) OR push_bit 16 (f (4 * j + 1)) OR push_bit 8 (f (4 * j + 2)) OR f (4 * j + 3)"
    by (simp only: loadMessageWord_def Let_def f_def mult.commute)
  then have "unat (loadMessageWord block j) = foldl (\<lambda>n b. 256 * n + unat b) 0 (take 4 (drop (4 * j) block))"
    using join [of "f (4 * j)" "f (4 * j + 1)" "f (4 * j + 2)" "f (4 * j + 3)"] f assms by (simp add: take_4)
  then show ?thesis by (metis of_nat_unat ucast_id)
qed

lemma block_words_exact: "64 \<le> length xs \<Longrightarrow> block_words (take 64 xs) = fips_block xs 0"
  by (auto simp: block_words_def fips_block_def loadMessageWord_number drop_take min_def)

lemma absorb_whole:
  "length state = 8 \<Longrightarrow> length xs = 64 * k \<Longrightarrow>
   fst (absorbBlocks state xs) = foldl (\<lambda>H i. fips_compress H (fips_block xs i)) state [0..<k]"
proof (induction k arbitrary: state xs)
  case (Suc k)
  have "[0..<Suc k] = 0 # map Suc [0..<k]" by (simp add: upt_conv_Cons map_Suc_upt del: upt_Suc)
  then have "foldl (\<lambda>H i. fips_compress H (fips_block xs i)) state [0..<Suc k] =
      foldl (\<lambda>H i. fips_compress H (fips_block (drop 64 xs) i)) (transform state (take 64 xs)) [0..<k]"
    using Suc.prems by (simp add: foldl_map fips_block_Suc transform_exact block_words_exact)
  moreover have "absorbBlocks state xs = absorbBlocks (transform state (take 64 xs)) (drop 64 xs)"
    using Suc.prems by (subst absorbBlocks.simps) simp
  ultimately show ?case using Suc by simp
qed (simp add: absorb_short)

section \<open>Updates\<close>

text \<open>What the object holds after the bytes of \<open>msg\<close>.\<close>

definition holds_msg :: "Sha256 \<Rightarrow> u8 list \<Rightarrow> bool" where
  "holds_msg s msg =
     (absorbBlocks fips_H0 msg = (sha_state s, take (sha_buffered_bytes s) (sha_buffer s)) \<and>
      length (sha_buffer s) = 64 \<and> sha_buffered_bytes s < 64 \<and>
      sha_total_bytes s = of_nat (length msg) \<and> length msg < 2 ^ 61 \<and> \<not> sha_finalized s)"

lemma holds_new: "holds_msg newSha256 []"
  by (simp add: holds_msg_def absorb_short) (simp add: newSha256_def fips_H0_eq)

lemma room: "n < 2 ^ 61 \<Longrightarrow> unat (kMaximumBytes - of_nat n) = 2 ^ 61 - 1 - n"
  by (subst unat_sub_if_size) (simp add: kMaximumBytes_def word_le_nat_alt unat_div take_bit_nat_eq_self unsigned_of_nat)

lemma absorbRest_holds:
  assumes "length (sha_buffer s) = 64" "\<not> sha_finalized s" "absorbBlocks fips_H0 msg = absorbBlocks (sha_state s) input"
    and "sha_total_bytes s = of_nat (length msg)" "length msg < 2 ^ 61"
  shows "holds_msg (absorbRest s input) msg"
  using assms absorb_rest_short [of "sha_state s" input]
  by (auto simp: absorbRest_def holds_msg_def copyInto_def split: prod.splits)

lemma update_holds:
  assumes s: "holds_msg s msg" and fits: "length (msg @ input) < 2 ^ 61"
  shows "\<exists>s'. sha_update s input = Inr s' \<and> holds_msg s' (msg @ input)"
proof -
  let ?r = "take (sha_buffered_bytes s) (sha_buffer s)"
  let ?n = "sha_buffered_bytes s"
  have inv: "absorbBlocks fips_H0 msg = (sha_state s, ?r)" "length (sha_buffer s) = 64" "?n < 64"
    "sha_total_bytes s = of_nat (length msg)" "length msg < 2 ^ 61" "\<not> sha_finalized s"
    using s by (simp_all add: holds_msg_def)
  have all: "absorbBlocks fips_H0 (msg @ input) = absorbBlocks (sha_state s) (?r @ input)"
    by (subst absorb_append) (simp add: inv(1))
  have accepted: "\<not> sha_finalized s" "\<not> unat (kMaximumBytes - sha_total_bytes s) < length input"
    using inv fits room [of "length msg"] by simp_all
  consider (empty) "?n = 0" | (short) "?n \<noteq> 0" "?n + length input < 64" | (full) "?n \<noteq> 0" "64 \<le> ?n + length input"
    by linarith
  then show ?thesis
  proof cases
    case empty
    then show ?thesis
      using accepted inv all fits by (simp add: sha_update_def Let_def absorbRest_holds)
  next
    case short
    then have "absorbBlocks fips_H0 (msg @ input) = (sha_state s, ?r @ input)"
      using inv by (simp add: all absorb_short)
    then show ?thesis
      using short accepted inv fits
      by (simp add: sha_update_def Let_def holds_msg_def copyInto_def min_absorb1)
  next
    case full
    let ?c = "64 - ?n"
    have "absorbBlocks fips_H0 (msg @ input) = absorbBlocks (transform (sha_state s) (?r @ take ?c input)) (drop ?c input)"
      using full inv absorb_block [of "?r @ take ?c input" "sha_state s" "drop ?c input"] by (simp add: all)
    then show ?thesis
      using full accepted inv fits
      by (simp add: sha_update_def Let_def copyInto_def min_absorb2 absorbRest_holds)
  qed
qed

text \<open>A sequence of calls, as \<open>finalizeHex\<close> finds it.\<close>

fun sha_updates :: "Sha256 \<Rightarrow> u8 list list \<Rightarrow> ShaError + Sha256" where
  "sha_updates s [] = Inr s"
| "sha_updates s (input # inputs) =
     (case sha_update s input of Inl e \<Rightarrow> Inl e | Inr s' \<Rightarrow> sha_updates s' inputs)"

lemma updates_hold:
  "holds_msg s msg \<Longrightarrow> length (msg @ concat inputs) < 2 ^ 61 \<Longrightarrow>
   \<exists>s'. sha_updates s inputs = Inr s' \<and> holds_msg s' (msg @ concat inputs)"
proof (induction inputs arbitrary: s msg)
  case (Cons input inputs)
  then obtain s' where "sha_update s input = Inr s'" "holds_msg s' (msg @ input)"
    using update_holds [of s msg input] by auto
  with Cons.IH [of s' "msg @ input"] Cons.prems show ?case by simp
qed simp

lemma updates_refused:
  "holds_msg s msg \<Longrightarrow> \<not> length (msg @ concat inputs) < 2 ^ 61 \<Longrightarrow>
   sha_updates s inputs = Inl (ShaLengthError ''SHA-256 input exceeds 64-bit bit length'')"
proof (induction inputs arbitrary: s msg)
  case Nil
  then show ?case by (simp add: holds_msg_def)
next
  case (Cons input inputs)
  show ?case
  proof (cases "length (msg @ input) < 2 ^ 61")
    case True
    then obtain s' where "sha_update s input = Inr s'" "holds_msg s' (msg @ input)"
      using update_holds [of s msg input] Cons.prems by auto
    with Cons.IH [of s' "msg @ input"] Cons.prems show ?thesis by simp
  next
    case False
    then have "unat (kMaximumBytes - sha_total_bytes s) < length input" "\<not> sha_finalized s"
      using Cons.prems room [of "length msg"] by (auto simp: holds_msg_def)
    then show ?thesis by (simp add: sha_update_def)
  qed
qed

section \<open>Padding and the digest\<close>

lemma ucast_byte: "(ucast (drop_bit (8 * i) (w :: 'a::len word)) :: u8) = of_nat (unat w div 256 ^ i)"
proof -
  have "unat (ucast (drop_bit (8 * i) w) :: u8) = unat w div 2 ^ (8 * i) mod 256"
    by (simp only: unsigned_ucast_eq take_bit_eq_mod unat_shr) simp
  also have "\<dots> = unat (of_nat (unat w div 256 ^ i) :: u8)"
    by (simp add: unsigned_of_nat take_bit_eq_mod power_mult)
  finally show ?thesis by (rule unsigned_word_eqI)
qed

lemma stored_bytes:
  "k \<le> F \<Longrightarrow> F \<le> length B \<Longrightarrow> j < length B \<Longrightarrow>
   foldl (\<lambda>b i. b[F - 1 - i := g i]) B [0..<k] ! j = (if j < F \<and> F - k \<le> j then g (F - 1 - j) else B ! j) \<and>
   length (foldl (\<lambda>b i. b[F - 1 - i := g i]) B [0..<k]) = length B"
proof (induction k)
  case (Suc k)
  then show ?case by (auto simp: nth_list_update)
qed auto

lemma rest_length:
  "length (snd (absorbBlocks state xs)) = length xs mod 64"
proof (induction state xs rule: absorbBlocks.induct)
  case (1 state xs)
  then show ?case by (subst absorbBlocks.simps) (simp add: le_mod_geq)
qed

lemma final_blocks_padded:
  assumes s: "holds_msg s msg"
  shows "take (fst (finalBlocks s)) (snd (finalBlocks s)) =
           take (sha_buffered_bytes s) (sha_buffer s) @ [0x80] @
           replicate ((119 - length msg mod 64) mod 64) 0 @ fips_bytes 8 (8 * length msg)"
    (is "?lhs = ?r @ [0x80] @ replicate ?z 0 @ ?be")
    and "length (snd (finalBlocks s)) = 128"
    and "sha_buffered_bytes s = length msg mod 64"
proof -
  let ?n = "sha_buffered_bytes s"
  define F :: nat where "F = (if ?n < 56 then 64 else 128)"
  define B where "B = ?r @ 0x80 # replicate (127 - ?n) (0::u8)"
  define g :: "nat \<Rightarrow> u8" where "g i = ucast (drop_bit (i * 8) (sha_total_bytes s * 8))" for i
  have n: "?n < 64" "length ?r = ?n" using s by (auto simp: holds_msg_def)
  show mod: "?n = length msg mod 64"
    using rest_length [of fips_H0 msg] s n by (simp add: holds_msg_def)
  have B: "(copyInto (replicate 128 0) 0 ?r)[?n := 0x80] = B" "length B = 128"
  proof -
    have "128 - ?n = Suc (127 - ?n)" using n by arith
    then have "replicate (128 - ?n) (0::u8) = 0 # replicate (127 - ?n) 0" by (simp only: replicate_Suc)
    then show "(copyInto (replicate 128 0) 0 ?r)[?n := 0x80] = B" "length B = 128"
      using n by (simp_all add: copyInto_def B_def list_update_append)
  qed
  have blocks: "finalBlocks s = (F, foldl (\<lambda>b i. b[F - 1 - i := g i]) B [0..<8])"
    unfolding finalBlocks_def Let_def B(1) by (simp only: F_def g_def)
  have F: "F = 64 \<and> ?n < 56 \<or> F = 128 \<and> 56 \<le> ?n" by (auto simp: F_def)
  have z: "?n + 1 + ?z + 8 = F" using F n(1) by (auto simp: le_mod_geq simp flip: mod)
  show len: "length (snd (finalBlocks s)) = 128"
    using stored_bytes [of 8 F B 0 g] F B(2) by (auto simp: blocks)
  have nth: "foldl (\<lambda>b i. b[F - 1 - i := g i]) B [0..<8] ! j = (if F - 8 \<le> j then g (F - 1 - j) else B ! j)"
    if "j < F" for j
    using that F stored_bytes [of 8 F B j g] B(2) by auto
  have total: "unat (sha_total_bytes s * 8) = 8 * length msg"
    using s by (simp add: holds_msg_def unat_word_ariths unsigned_of_nat take_bit_nat_eq_self)
  have be: "?be ! i = g (7 - i)" if "i < 8" for i
    using that ucast_byte [of "7 - i" "sha_total_bytes s * 8"] by (simp add: fips_bytes_def g_def total mult.commute)
  have be_len: "length ?be = 8" by (simp add: fips_bytes_def)
  show "?lhs = ?r @ [0x80] @ replicate ?z 0 @ ?be"
  proof (rule nth_equalityI)
    show "length ?lhs = length (?r @ [0x80] @ replicate ?z 0 @ ?be)"
      using z n F len be_len by (auto simp: blocks)
    fix j assume "j < length ?lhs"
    then have j: "j < F" by (simp add: blocks)
    have "(?r @ [0x80] @ replicate ?z 0 @ ?be) ! j = (if F - 8 \<le> j then g (F - 1 - j) else B ! j)"
    proof (cases "F - 8 \<le> j")
      case True
      moreover define pre where "pre = ?r @ [0x80] @ replicate ?z 0"
      moreover from this have "length pre = F - 8" using z n by simp
      ultimately have "(pre @ ?be) ! j = ?be ! (j - (F - 8))" by (simp only: nth_append) simp
      then have "(?r @ [0x80] @ replicate ?z 0 @ ?be) ! j = ?be ! (j - (F - 8))" by (simp add: pre_def)
      moreover have "7 - (j - (F - 8)) = F - 1 - j" using True j F by auto
      ultimately show ?thesis using True be [of "j - (F - 8)"] j by (simp only: if_True)
    next
      case False
      then show ?thesis using z n j by (auto simp: B_def nth_append nth_Cons')
    qed
    then show "?lhs ! j = (?r @ [0x80] @ replicate ?z 0 @ ?be) ! j"
      using j nth [OF j] by (simp add: blocks)
  qed
qed

lemma pad_length: "64 dvd length (fips_pad msg)"
proof -
  define n where "n = length msg mod 64"
  then have "n < 64" by simp
  then have "(n + (119 - n) mod 64 + 9) mod 64 = 0"
    by (cases "n < 56") (simp_all add: le_mod_geq)
  moreover have "length (fips_pad msg) = length msg + (119 - n) mod 64 + 9"
    by (simp add: fips_pad_def fips_bytes_def n_def)
  moreover have "(length msg + q + 9) mod 64 = (n + q + 9) mod 64" for q
    by (simp only: n_def add.assoc mod_add_left_eq)
  ultimately show ?thesis by (simp only: dvd_eq_mod_eq_0)
qed

lemma finalize_exact:
  assumes s: "holds_msg s msg"
  shows "fst (finalize s) = fips_hash msg"
proof -
  let ?F = "fst (finalBlocks s)" and ?B = "snd (finalBlocks s)"
  let ?p = "take ?F ?B"
  note fin = final_blocks_padded [OF s]
  have "fips_pad msg = msg @ drop (sha_buffered_bytes s) ?p"
    using s unfolding fin(1) by (auto simp: fips_pad_def holds_msg_def)
  moreover have "take (sha_buffered_bytes s) (sha_buffer s) @ drop (sha_buffered_bytes s) ?p = ?p"
    using s unfolding fin(1) by (auto simp: holds_msg_def)
  ultimately have pad: "absorbBlocks fips_H0 (fips_pad msg) = absorbBlocks (sha_state s) ?p"
    using s absorb_append [of fips_H0 msg "drop (sha_buffered_bytes s) ?p"] by (simp add: holds_msg_def)
  define state where "state = (let s1 = transform (sha_state s) (take 64 ?B)
                               in if ?F = 128 then transform s1 (take 64 (drop 64 ?B)) else s1)"
  have "?F = 64 \<or> ?F = 128" by (simp add: finalBlocks_def Let_def)
  then have "fst (absorbBlocks (sha_state s) ?p) = state"
  proof
    assume "?F = 64"
    then show ?thesis
      using fin(2) absorb_block [of ?p "sha_state s" "[]"] by (simp add: state_def absorb_short)
  next
    assume F: "?F = 128"
    have "take 64 (drop 64 ?B) = drop 64 ?B" using fin(2) by simp
    then have "absorbBlocks (sha_state s) ?B = absorbBlocks (transform (sha_state s) (take 64 ?B)) (take 64 (drop 64 ?B))"
      using fin(2) absorb_block [of "take 64 ?B" "sha_state s" "drop 64 ?B"] by simp
    with F show ?thesis
      using fin(2) absorb_block [of "take 64 (drop 64 ?B)" _ "[]"] by (simp add: state_def absorb_short)
  qed
  then have state: "state = foldl (\<lambda>H i. fips_compress H (fips_block (fips_pad msg) i)) fips_H0
      [0..<length (fips_pad msg) div 64]"
    using pad absorb_whole [of fips_H0 "fips_pad msg" "length (fips_pad msg) div 64"] pad_length [of msg]
    by (simp add: fips_H0_eq newSha256_def)
  have "[0..<4] = [0, 1, 2, 3 :: nat]" by (simp add: upt_conv_Cons)
  then have "map (\<lambda>shift. ucast (drop_bit shift w)) [24, 16, 8, 0] = fips_bytes 4 (unat w)" for w :: u32
    using ucast_byte [of 0 w] ucast_byte [of 1 w] ucast_byte [of 2 w] ucast_byte [of 3 w]
    by (simp add: fips_bytes_def)
  then have "digestBytes state = concat (map (\<lambda>w. fips_bytes 4 (unat w)) state)"
    by (simp only: digestBytes_def)
  moreover have "fst (finalize s) = digestBytes state"
    using s by (simp add: finalize_def state_def Let_def holds_msg_def case_prod_beta)
  ultimately show ?thesis by (simp only: fips_hash_def state)
qed

lemma hexBytes_exact: "hexBytes bs = concat (map (\<lambda>b. [hex_digit (unat b div 16), hex_digit (unat b mod 16)]) bs)"
proof -
  have "[kHex ! unat (drop_bit 4 b), kHex ! unat (b AND 15)] = [hex_digit (unat b div 16), hex_digit (unat b mod 16)]"
    for b :: u8
  proof -
    have "unat b < 256" using unsigned_less [of b, where 'a=nat] by simp
    then show ?thesis
      using unat_shr [of 4 b] unat_and_mask [of b 4] by (simp add: kHex_digit mask_eq_exp_minus_1)
  qed
  then show ?thesis by (simp add: hexBytes_def)
qed

lemma finalizeHex_exact: "holds_msg s msg \<Longrightarrow> fst (finalizeHex s) = fips_hex msg"
  using finalize_exact [of s msg]
  by (simp add: finalizeHex_def fips_hex_def hexBytes_exact case_prod_beta)

text \<open>C13. However a message is divided into \<open>update\<close> calls, \<open>finalizeHex\<close> returns the lower-case hexadecimal SHA-256 of
  the whole message as FIPS 180-4 defines it (padding, message schedule, rounds, and the constants taken
  from the roots of the first primes); a message of \<open>2\<^sup>6\<^sup>1\<close> bytes or more, whose bit length does not fit 64 bits,
  is refused with the length error.\<close>
theorem sha256_exact:
  "map_sum id (\<lambda>s. fst (finalizeHex s)) (sha_updates newSha256 inputs) =
     (if length (concat inputs) < 2 ^ 61 then Inr (fips_hex (concat inputs))
      else Inl (ShaLengthError ''SHA-256 input exceeds 64-bit bit length''))"
proof (cases "length (concat inputs) < 2 ^ 61")
  case True
  then show ?thesis
    using updates_hold [OF holds_new, of inputs] finalizeHex_exact by auto
next
  case False
  then show ?thesis using updates_refused [OF holds_new, of inputs] by simp
qed

lemma sha256Hex_exact:
  "length text0 < 2 ^ 61 \<Longrightarrow> sha256Hex text0 = Inr (fips_hex (stringBytes text0))"
  using update_holds [OF holds_new, of "stringBytes text0"] finalizeHex_exact
  by (auto simp: sha256Hex_def sha_update_string_def stringBytes_def)

lemma length_fips_hex: "length (fips_hex msg) = 64"
proof -
  have len: "length (fips_vars M H k) = 8" if "length H = 8" for M H k
    using that by (induction k) (simp_all add: Let_def)
  have fold: "length (foldl (\<lambda>H i. fips_compress H (f i)) H is) = 8" if "length H = 8" for f H "is"
    using that by (induction "is" arbitrary: H) (simp_all add: fips_compress_def len)
  have bytes: "length (concat (map (\<lambda>w. fips_bytes 4 (unat (w::u32))) ws)) = 4 * length ws" for ws
    by (induction ws) (simp_all add: fips_bytes_def)
  have hex: "length (concat (map (\<lambda>b. [f b, g b]) bs)) = 2 * length bs" for f g :: "u8 \<Rightarrow> char" and bs
    by (induction bs) simp_all
  show ?thesis
    by (simp only: fips_hex_def hex fips_hash_def bytes fold fips_H0_eq) (simp add: newSha256_def fold)
qed

end
