(* ===== verification/CapacityManifestCorrect.thy ===== *)
theory CapacityManifestCorrect
  imports CapacityManifest Sha256Stream
begin

text \<open>
  The loader accepts a file exactly when the file is the canonical text of the manifest it returns. Each reader is
  characterised by the text it accepts; the lines of a manifest are then determined by its fields.
\<close>

section \<open>The canonical text\<close>

definition manifest_lines :: "BookCapacityEvidenceManifest \<Rightarrow> string list" where
  "manifest_lines m =
     (let p = ev_profile m; o1 = cfg_orders (prof_config p); p1 = cfg_prices (prof_config p)
      in [''schema='' @ ev_schema m, ''profile_name='' @ prof_name p,
          ''corpus_manifest_sha256='' @ ev_corpus_manifest_sha256 m, ''profiler_sha256='' @ ev_profiler_sha256 m] @
         (if ev_schema m = kSchemaV2 then [''profile_output_sha256='' @ ev_profile_output_sha256 m] else []) @
         [''order_direct_slots='' @ dec_text (unat (direct_slots o1)),
          ''order_fallback_buckets='' @ dec_text (unat (fallback_bucket_count o1)),
          ''price_page_capacity='' @ dec_text (unat (page_capacity p1)),
          ''profiled_max_order_ref='' @ dec_text (unat (profiled_max_order_reference (prof_evidence p))),
          ''profiled_unique_price_pages='' @ dec_text (unat (profiled_unique_price_pages (prof_evidence p))),
          ''minimum_direct_order_headroom='' @ dec_text (unat (direct_order_reference_slots (prof_minimum_headroom p))),
          ''minimum_price_page_headroom='' @ dec_text (unat (headroom_price_pages (prof_minimum_headroom p)))])"

definition unlines :: "string list \<Rightarrow> string" where
  "unlines ls = concat (map (\<lambda>l. l @ [LF]) ls)"

definition manifest_text :: "BookCapacityEvidenceManifest \<Rightarrow> string" where
  "manifest_text m = unlines (manifest_lines m)"

text \<open>What a manifest returned for a profile name and a digest satisfies.\<close>

definition manifest_ok :: "string \<Rightarrow> string \<Rightarrow> BookCapacityEvidenceManifest \<Rightarrow> bool" where
  "manifest_ok name digest m =
     (let p = ev_profile m; o1 = cfg_orders (prof_config p); p1 = cfg_prices (prof_config p)
      in prof_name p = name \<and> isProfileToken name \<and> prof_evidence_sha256 p = digest \<and> isLowerHexSha256 digest \<and>
         isLowerHexSha256 (ev_corpus_manifest_sha256 m) \<and> isLowerHexSha256 (ev_profiler_sha256 m) \<and>
         (ev_schema m = kSchemaV1 \<and> ev_profile_output_sha256 m = [] \<or>
          ev_schema m = kSchemaV2 \<and> isLowerHexSha256 (ev_profile_output_sha256 m)) \<and>
         \<not> ot_prefault o1 \<and> \<not> pls_prefault p1 \<and>
         (\<exists>h. validateBookCapacityProfile p = Inr h))"

section \<open>The readers\<close>

lemma bind_accepts: "ebind x f = Inr b \<longleftrightarrow> (\<exists>a. x = Inr a \<and> f a = Inr b)"
  by (cases x) (auto simp: ebind_def)

lemma if_Inr: "(if c then Inl e else x) = Inr b \<longleftrightarrow> \<not> c \<and> x = Inr b"
  by auto

lemma manifestField_exact: "manifestField line key = Inr v \<longleftrightarrow> line = key @ ''='' @ v"
proof
  assume "manifestField line key = Inr v"
  then have *: "take (length key) line = key" "length line \<noteq> length key" "line ! length key = CHR ''=''"
      "v = drop (length key + 1) line"
    by (auto simp: manifestField_def split: if_splits)
  then have "length key < length line" by (metis nat_less_le length_take min.absorb_iff2 min.cobounded1)
  with * show "line = key @ ''='' @ v"
    using id_take_nth_drop [of "length key" line] by simp
qed (simp add: manifestField_def)

lemma canonicalUnsigned_exact:
  "canonicalUnsigned v key maximum = Inr n \<longleftrightarrow> n \<noteq> 0 \<and> n \<le> maximum \<and> v = dec_text (unat n)"
proof
  assume *: "canonicalUnsigned v key maximum = Inr n"
  then have v: "v \<noteq> []" "1 < length v \<longrightarrow> hd v \<noteq> CHR ''0''" and n: "fromChars v 0 = (NoErrc, [], n)" "n \<noteq> 0" "n \<le> maximum"
    by (auto simp: canonicalUnsigned_def split: if_splits prod.splits)
  from n(1) have "\<forall>c \<in> set v. is_decimal_digit c" "decimal v < 2 ^ 64" "n = of_nat (decimal v)"
    unfolding fromChars_whole by simp_all
  moreover from this have "unat n = decimal v" by (simp add: unat_of_nat)
  ultimately show "n \<noteq> 0 \<and> n \<le> maximum \<and> v = dec_text (unat n)"
    using v n dec_text_decimal [of v] by simp
next
  assume *: "n \<noteq> 0 \<and> n \<le> maximum \<and> v = dec_text (unat n)"
  then have "fromChars v 0 = (NoErrc, [], n)"
    using dec_text_digits [of "unat n"] unsigned_less [of n, where 'a=nat] by (simp add: fromChars_whole)
  with * dec_text_leading [of "unat n"] show "canonicalUnsigned v key maximum = Inr n"
    by (auto simp: canonicalUnsigned_def)
qed

lemma capacityField_exact:
  "capacityField lines i key maximum = Inr n \<longleftrightarrow> lines ! i = key @ ''='' @ dec_text (unat n) \<and> n \<noteq> 0 \<and> n \<le> maximum"
  by (auto simp: capacityField_def bind_accepts manifestField_exact canonicalUnsigned_exact)

text \<open>The splitter inverts the joining of lines.\<close>

declare linesLoop.simps [simp del]

lemma takeWhile_line: "LF \<notin> set l \<Longrightarrow> takeWhile (\<lambda>c. c \<noteq> LF) (l @ LF # rest) = l"
  by (induction l) auto

lemma linesLoop_unlines:
  "\<forall>l \<in> set ls. LF \<notin> set l \<Longrightarrow> length acc + length ls \<le> kManifestV2LineCount \<Longrightarrow> linesLoop (unlines ls) acc = Inr (acc @ ls)"
proof (induction ls arbitrary: acc)
  case Nil
  then show ?case by (simp add: linesLoop.simps unlines_def)
next
  case (Cons l ls)
  have "unlines (l # ls) = l @ LF # unlines ls" by (simp add: unlines_def)
  moreover have "takeWhile (\<lambda>c. c \<noteq> LF) (l @ LF # unlines ls) = l" using Cons.prems by (simp add: takeWhile_line)
  ultimately show ?case
    using Cons by (subst linesLoop.simps) (simp add: Let_def)
qed

lemma linesLoop_exact:
  "linesLoop rest acc = Inr ls \<Longrightarrow> \<exists>ls'. ls = acc @ ls' \<and> rest = unlines ls' \<and> (\<forall>l \<in> set ls'. LF \<notin> set l)"
proof (induction rest acc rule: linesLoop.induct)
  case (1 rest acc)
  show ?case
  proof (cases "rest = []")
    case True
    with 1(2) show ?thesis by (auto simp: linesLoop.simps unlines_def)
  next
    case False
    define line where "line = takeWhile (\<lambda>c. c \<noteq> LF) rest"
    have ok: "line \<noteq> rest" "length acc \<noteq> kManifestV2LineCount" "linesLoop (drop (length line + 1) rest) (acc @ [line]) = Inr ls"
      using 1(2) False by (auto simp: linesLoop.simps [of rest] line_def Let_def split: if_splits)
    then obtain ls' where ls': "ls = (acc @ [line]) @ ls'" "drop (length line + 1) rest = unlines ls'" "\<forall>l \<in> set ls'. LF \<notin> set l"
      using 1(1) [OF False line_def] by auto
    define d where "d = dropWhile (\<lambda>c. c \<noteq> LF) rest"
    have rest: "rest = line @ d" by (simp add: line_def d_def)
    with ok(1) have "d \<noteq> []" by auto
    then have "d = LF # tl d" using hd_dropWhile [of "\<lambda>c. c \<noteq> LF" rest] by (metis d_def list.collapse)
    then obtain d' where "d = LF # d'" by blast
    with rest have "rest = line @ LF # drop (length line + 1) rest" by simp
    moreover have "LF \<notin> set line" unfolding line_def by (metis (mono_tags, lifting) set_takeWhileD)
    ultimately have "rest = unlines (line # ls')" using ls'(2) by (simp add: unlines_def)
    with ls' \<open>LF \<notin> set line\<close> show ?thesis by (intro exI [of _ "line # ls'"]) simp
  qed
qed

section \<open>Canonical files\<close>

definition plain_char :: "char \<Rightarrow> bool" where
  "plain_char c = (c \<noteq> LF \<and> c \<noteq> CHR 0x0D \<and> c \<noteq> CHR 0x00 \<and> (of_char c :: nat) \<le> 0x7f)"

lemma set_unlines: "set (unlines ls) = (\<Union>l \<in> set ls. set l) \<union> (if ls = [] then {} else {LF})"
  by (auto simp: unlines_def)

lemma canonicalLines_exact:
  assumes "contents \<noteq> []"
  shows "canonicalLines contents = Inr ls \<longleftrightarrow>
    contents = unlines ls \<and> length ls \<in> {kManifestV1LineCount, kManifestV2LineCount} \<and> (\<forall>l \<in> set ls. list_all plain_char l)"
    (is "?lhs \<longleftrightarrow> ?rhs")
proof
  assume ?lhs
  then have no: "\<forall>c \<in> set contents. \<not> (c = CHR 0x0D \<or> c = CHR 0x00 \<or> (of_char c :: nat) > 0x7f)"
    and loop: "linesLoop contents [] = Inr ls" and len: "length ls \<in> {kManifestV1LineCount, kManifestV2LineCount}"
    by (auto simp: canonicalLines_def bind_accepts list_ex_iff split: if_splits)
  from linesLoop_exact [OF loop] have lines: "contents = unlines ls" "\<forall>l \<in> set ls. LF \<notin> set l" by simp_all
  have "plain_char c" if "l \<in> set ls" "c \<in> set l" for l c
  proof -
    have "c \<in> set contents" unfolding lines(1) set_unlines using that by blast
    moreover have "c \<noteq> LF" using lines(2) that by metis
    ultimately show ?thesis using no unfolding plain_char_def by (simp add: not_less)
  qed
  then show ?rhs using lines(1) len by (simp add: list_all_iff)
next
  assume r: ?rhs
  have no_LF: "\<forall>l \<in> set ls. LF \<notin> set l"
    using conjunct2 [OF conjunct2 [OF r]] by (auto simp: list_all_iff plain_char_def)
  have len: "ls \<noteq> []" "length ls \<le> kManifestV2LineCount"
    using conjunct1 [OF conjunct2 [OF r]] by (auto simp: kManifestV1LineCount_def kManifestV2LineCount_def)
  have "last (unlines ls) = LF" using len(1) by (cases ls rule: rev_cases) (auto simp: unlines_def)
  moreover have "\<not> list_ex (\<lambda>c. c = CHR 0x0D \<or> c = CHR 0x00 \<or> (of_char c :: nat) > 0x7f) (unlines ls)"
  proof -
    have "\<not> (c = CHR 0x0D \<or> c = CHR 0x00 \<or> (of_char c :: nat) > 0x7f)" if "c \<in> set (unlines ls)" for c
    proof (cases "c = LF")
      case False
      then have "plain_char c" using that conjunct2 [OF conjunct2 [OF r]] by (auto simp: set_unlines list_all_iff split: if_splits)
      then show ?thesis by (simp add: plain_char_def)
    qed simp
    then show ?thesis by (simp only: list_ex_iff) blast
  qed
  ultimately show ?lhs
    using r linesLoop_unlines [OF no_LF, of "[]"] len(2) unfolding canonicalLines_def ebind_def by force
qed

lemma plain_digits: "list_all plain_char (dec_text n)"
proof -
  have "plain_char c" if "is_decimal_digit c" for c
    using that by (auto simp: plain_char_def is_decimal_digit_def)
  with dec_text_digits [of n] show ?thesis by (auto simp: list_all_iff)
qed

lemma plain_token_char: "isTokenChar c \<Longrightarrow> plain_char c"
  by (auto simp: isTokenChar_def plain_char_def less_eq_char_def)

lemma plain_token: "isProfileToken v \<Longrightarrow> list_all plain_char v"
  by (auto simp: isProfileToken_def list_all_iff plain_token_char split: if_splits)

lemma plain_hash: "isLowerHexSha256 v \<Longrightarrow> list_all plain_char v"
  by (auto simp: isLowerHexSha256_def list_all_iff intro!: plain_token_char simp: isTokenChar_def less_eq_char_def)

lemma plain_key: "list_all plain_char (key @ v) \<longleftrightarrow> list_all plain_char key \<and> list_all plain_char v"
  by simp

section \<open>The loader\<close>

lemma readManifest_small: "readManifest files path = Inr contents \<Longrightarrow> contents \<noteq> [] \<and> length contents \<le> 16384"
  by (auto simp: readManifest_def kMaximumManifestBytes_def Let_def split: if_splits option.splits)

lemma hash_small: "length contents \<le> 16384 \<Longrightarrow> hashResult (sha256Hex contents) = Inr (fips_hex (stringBytes contents))"
  by (simp add: hashResult_def sha256Hex_exact)

text \<open>The numbers of a valid profile are the ones the readers of the capacity lines accept.\<close>

lemma valid_profile_numbers:
  assumes "validateBookCapacityProfile p = Inr h"
  shows "direct_slots (cfg_orders (prof_config p)) \<noteq> 0" "fallback_bucket_count (cfg_orders (prof_config p)) \<noteq> 0"
    "page_capacity (cfg_prices (prof_config p)) \<noteq> 0" "page_capacity (cfg_prices (prof_config p)) \<noteq> u32_max"
    "profiled_max_order_reference (prof_evidence p) \<noteq> 0" "profiled_unique_price_pages (prof_evidence p) \<noteq> 0"
    "profiled_unique_price_pages (prof_evidence p) < page_capacity (cfg_prices (prof_config p))"
    "direct_order_reference_slots (prof_minimum_headroom p) \<noteq> 0" "headroom_price_pages (prof_minimum_headroom p) \<noteq> 0"
  using assms
  by (auto simp: validateBookCapacityProfile_def validateManagerConfig_def bind_accepts Let_def split: if_splits)

lemma narrow: "n \<le> ucast (k :: u32) \<Longrightarrow> unat (ucast (n :: u64) :: u32) = unat n"
proof -
  assume "n \<le> ucast k"
  then have "unat n < 2 ^ 32" using unsigned_less [of k, where 'a=nat] by (simp add: word_le_nat_alt)
  then show ?thesis by (simp add: unsigned_ucast_eq take_bit_nat_eq_self)
qed

lemma list_11: "length xs = 11 \<Longrightarrow> xs = [xs!0, xs!1, xs!2, xs!3, xs!4, xs!5, xs!6, xs!7, xs!8, xs!9, xs!10]"
  using map_nth [of xs] by (simp add: upt_conv_Cons numeral_eq_Suc)

lemma list_12: "length xs = 12 \<Longrightarrow> xs = [xs!0, xs!1, xs!2, xs!3, xs!4, xs!5, xs!6, xs!7, xs!8, xs!9, xs!10, xs!11]"
  using map_nth [of xs] by (simp add: upt_conv_Cons numeral_eq_Suc)

lemma schemas: "kSchemaV1 \<noteq> kSchemaV2" "list_all plain_char kSchemaV1" "list_all plain_char kSchemaV2"
  by (simp_all add: kSchemaV1_def kSchemaV2_def plain_char_def)

lemma manifest_lines_plain:
  assumes "manifest_ok name digest m" shows "\<forall>l \<in> set (manifest_lines m). list_all plain_char l"
proof -
  have "list_all plain_char (ev_schema m)" "list_all plain_char (prof_name (ev_profile m))"
    "list_all plain_char (ev_corpus_manifest_sha256 m)" "list_all plain_char (ev_profiler_sha256 m)"
    "ev_schema m = kSchemaV2 \<Longrightarrow> list_all plain_char (ev_profile_output_sha256 m)"
    using assms schemas by (auto simp: manifest_ok_def Let_def plain_token plain_hash)
  then show ?thesis
    by (simp add: manifest_lines_def Let_def plain_digits) (simp add: plain_char_def)
qed

lemma manifest_lines_length:
  "length (manifest_lines m) = (if ev_schema m = kSchemaV2 then 12 else 11)"
  by (simp add: manifest_lines_def Let_def)

abbreviation (input) manifest_offset :: "BookCapacityEvidenceManifest \<Rightarrow> nat" where
  "manifest_offset m \<equiv> (if ev_schema m = kSchemaV2 then 1 else 0)"

lemma ucast_narrow: "ucast (ucast (x :: u32) :: u64) = x"
  by (simp add: word_unat_eq_iff narrow [of _ x])

lemma u32_bounds: "ucast (x :: u32) \<le> (0xFFFFFFFF :: u64)" "x \<noteq> u32_max \<Longrightarrow> ucast x \<le> (0xFFFFFFFE :: u64)"
  using unsigned_less [of x, where 'a=nat] by (auto simp: word_le_nat_alt word_unat_eq_iff)

lemma u64_top: "(x :: u64) \<le> u64_max"
  using unsigned_less [of x, where 'a=nat] by (simp add: word_le_nat_alt)

lemma below_u32: "(x :: u32) < y \<Longrightarrow> x \<noteq> u32_max"
  using unsigned_less [of y, where 'a=nat] by (auto simp: word_less_nat_alt)

text \<open>Reading back the lines of a manifest.\<close>

lemma fields_read:
  "manifestField (manifest_lines m ! 0) ''schema'' = Inr (ev_schema m)"
  "manifestField (manifest_lines m ! 1) ''profile_name'' = Inr (prof_name (ev_profile m))"
  "manifestField (manifest_lines m ! 2) ''corpus_manifest_sha256'' = Inr (ev_corpus_manifest_sha256 m)"
  "manifestField (manifest_lines m ! 3) ''profiler_sha256'' = Inr (ev_profiler_sha256 m)"
  "ev_schema m = kSchemaV2 \<Longrightarrow> manifestField (manifest_lines m ! 4) ''profile_output_sha256'' = Inr (ev_profile_output_sha256 m)"
  unfolding manifestField_exact by (simp_all add: manifest_lines_def Let_def)

lemma capacities_read:
  fixes m :: BookCapacityEvidenceManifest
  assumes "validateBookCapacityProfile (ev_profile m) = Inr h"
  defines "p \<equiv> ev_profile m"
  shows "capacityField (manifest_lines m) (4 + manifest_offset m) ''order_direct_slots'' u64_max = Inr (direct_slots (cfg_orders (prof_config p)))"
    "capacityField (manifest_lines m) (5 + manifest_offset m) ''order_fallback_buckets'' (ucast u32_max) = Inr (ucast (fallback_bucket_count (cfg_orders (prof_config p))))"
    "capacityField (manifest_lines m) (6 + manifest_offset m) ''price_page_capacity'' (ucast u32_max - 1) = Inr (ucast (page_capacity (cfg_prices (prof_config p))))"
    "capacityField (manifest_lines m) (7 + manifest_offset m) ''profiled_max_order_ref'' u64_max = Inr (profiled_max_order_reference (prof_evidence p))"
    "capacityField (manifest_lines m) (8 + manifest_offset m) ''profiled_unique_price_pages'' (ucast u32_max - 1) = Inr (ucast (profiled_unique_price_pages (prof_evidence p)))"
    "capacityField (manifest_lines m) (9 + manifest_offset m) ''minimum_direct_order_headroom'' u64_max = Inr (direct_order_reference_slots (prof_minimum_headroom p))"
    "capacityField (manifest_lines m) (10 + manifest_offset m) ''minimum_price_page_headroom'' (ucast u32_max) = Inr (ucast (headroom_price_pages (prof_minimum_headroom p)))"
  unfolding capacityField_exact using valid_profile_numbers [OF assms(1)]
  by (auto simp: manifest_lines_def Let_def p_def u64_top u32_bounds below_u32)

lemma profile_rebuilt:
  assumes "prof_name p = n" "prof_evidence_sha256 p = d"
    "\<not> ot_prefault (cfg_orders (prof_config p))" "\<not> pls_prefault (cfg_prices (prof_config p))"
  shows "\<lparr>prof_name = n, prof_evidence_sha256 = d,
     prof_config = \<lparr>cfg_orders = \<lparr>direct_slots = direct_slots (cfg_orders (prof_config p)),
         fallback_bucket_count = fallback_bucket_count (cfg_orders (prof_config p)), ot_prefault = False\<rparr>,
       cfg_prices = \<lparr>page_capacity = page_capacity (cfg_prices (prof_config p)), pls_prefault = False\<rparr>\<rparr>,
     prof_evidence = \<lparr>profiled_max_order_reference = profiled_max_order_reference (prof_evidence p),
       profiled_unique_price_pages = profiled_unique_price_pages (prof_evidence p)\<rparr>,
     prof_minimum_headroom = \<lparr>direct_order_reference_slots = direct_order_reference_slots (prof_minimum_headroom p),
       headroom_price_pages = headroom_price_pages (prof_minimum_headroom p)\<rparr>\<rparr> = p"
  using assms by simp

lemma manifest_rebuilt:
  assumes "ev_profile_output_sha256 m = out" "ev_schema m = s"
  shows "\<lparr>ev_profile = ev_profile m, ev_corpus_manifest_sha256 = ev_corpus_manifest_sha256 m,
    ev_profiler_sha256 = ev_profiler_sha256 m, ev_profile_output_sha256 = out, ev_schema = s\<rparr> = m"
  using assms by simp

lemma manifest_accepted:
  assumes read: "readManifest files path = Inr (manifest_text m)"
    and hash: "fips_hex (stringBytes (manifest_text m)) = digest" and ok: "manifest_ok name digest m"
  shows "loadBookCapacityEvidenceManifest files path name digest = Inr m"
proof -
  let ?ls = "manifest_lines m"
  obtain h where h: "validateBookCapacityProfile (ev_profile m) = Inr h" using ok by (auto simp: manifest_ok_def Let_def)
  have small: "manifest_text m \<noteq> []" "length (manifest_text m) \<le> 16384" using readManifest_small [OF read] by auto
  have "canonicalLines (manifest_text m) = Inr ?ls"
    using manifest_lines_plain [OF ok] canonicalLines_exact [OF small(1), of ?ls]
    by (simp add: manifest_text_def manifest_lines_length kManifestV1LineCount_def kManifestV2LineCount_def)
  then show ?thesis
    using ok h fields_read [of m] capacities_read [OF h] read hash hash_small [OF small(2)] schemas(1)
    by (cases "ev_schema m = kSchemaV2")
       (simp_all add: loadBookCapacityEvidenceManifest_def ebind_def Let_def manifest_ok_def manifest_lines_length
          kManifestV1LineCount_def kManifestV2LineCount_def ucast_narrow profile_rebuilt manifest_rebuilt)
qed

text \<open>What an accepted file went through, in the order of the code.\<close>

lemma load_steps:
  assumes "loadBookCapacityEvidenceManifest files path name digest = Inr m"
  obtains contents computed ls schema name1 corpus profiler out direct buckets pages0 reference unique slots0 pages1 h where
    "isProfileToken name" "isLowerHexSha256 digest" "readManifest files path = Inr contents"
    "hashResult (sha256Hex contents) = Inr computed" "computed = digest" "canonicalLines contents = Inr ls"
    "manifestField (ls ! 0) ''schema'' = Inr schema"
    "schema = kSchemaV1 \<or> schema = kSchemaV2"
    "schema \<noteq> kSchemaV1 \<or> length ls = kManifestV1LineCount" "schema \<noteq> kSchemaV2 \<or> length ls = kManifestV2LineCount"
    "manifestField (ls ! 1) ''profile_name'' = Inr name1" "isProfileToken name1" "name1 = name"
    "manifestField (ls ! 2) ''corpus_manifest_sha256'' = Inr corpus"
    "manifestField (ls ! 3) ''profiler_sha256'' = Inr profiler"
    "(if schema = kSchemaV2 then manifestField (ls ! 4) ''profile_output_sha256'' else Inr []) = Inr out"
    "isLowerHexSha256 corpus" "isLowerHexSha256 profiler" "schema \<noteq> kSchemaV2 \<or> isLowerHexSha256 out"
    "capacityField ls (4 + (if schema = kSchemaV2 then 1 else 0)) ''order_direct_slots'' u64_max = Inr direct"
    "capacityField ls (5 + (if schema = kSchemaV2 then 1 else 0)) ''order_fallback_buckets'' (ucast u32_max) = Inr buckets"
    "capacityField ls (6 + (if schema = kSchemaV2 then 1 else 0)) ''price_page_capacity'' (ucast u32_max - 1) = Inr pages0"
    "capacityField ls (7 + (if schema = kSchemaV2 then 1 else 0)) ''profiled_max_order_ref'' u64_max = Inr reference"
    "capacityField ls (8 + (if schema = kSchemaV2 then 1 else 0)) ''profiled_unique_price_pages'' (ucast u32_max - 1) = Inr unique"
    "capacityField ls (9 + (if schema = kSchemaV2 then 1 else 0)) ''minimum_direct_order_headroom'' u64_max = Inr slots0"
    "capacityField ls (10 + (if schema = kSchemaV2 then 1 else 0)) ''minimum_price_page_headroom'' (ucast u32_max) = Inr pages1"
    "validateBookCapacityProfile \<lparr>prof_name = name1, prof_evidence_sha256 = computed,
       prof_config = \<lparr>cfg_orders = \<lparr>direct_slots = direct, fallback_bucket_count = ucast buckets, ot_prefault = False\<rparr>,
                      cfg_prices = \<lparr>page_capacity = ucast pages0, pls_prefault = False\<rparr>\<rparr>,
       prof_evidence = \<lparr>profiled_max_order_reference = reference, profiled_unique_price_pages = ucast unique\<rparr>,
       prof_minimum_headroom = \<lparr>direct_order_reference_slots = slots0, headroom_price_pages = ucast pages1\<rparr>\<rparr> = Inr h"
    "m = \<lparr>ev_profile = \<lparr>prof_name = name1, prof_evidence_sha256 = computed,
       prof_config = \<lparr>cfg_orders = \<lparr>direct_slots = direct, fallback_bucket_count = ucast buckets, ot_prefault = False\<rparr>,
                      cfg_prices = \<lparr>page_capacity = ucast pages0, pls_prefault = False\<rparr>\<rparr>,
       prof_evidence = \<lparr>profiled_max_order_reference = reference, profiled_unique_price_pages = ucast unique\<rparr>,
       prof_minimum_headroom = \<lparr>direct_order_reference_slots = slots0, headroom_price_pages = ucast pages1\<rparr>\<rparr>,
       ev_corpus_manifest_sha256 = corpus, ev_profiler_sha256 = profiler, ev_profile_output_sha256 = out, ev_schema = schema\<rparr>"
  using assms unfolding loadBookCapacityEvidenceManifest_def Let_def bind_accepts if_Inr de_Morgan_disj de_Morgan_conj not_not
  apply (elim exE conjE)
  apply (rule that)
  apply assumption+
  apply (erule Inr_inject [THEN sym])
  done

lemma manifest_sound:
  assumes load: "loadBookCapacityEvidenceManifest files path name digest = Inr m"
  shows "readManifest files path = Inr (manifest_text m) \<and> fips_hex (stringBytes (manifest_text m)) = digest \<and>
         manifest_ok name digest m"
proof (rule load_steps [OF load], goal_cases)
  case (1 contents computed ls schema name1 corpus profiler out direct buckets pages0 reference unique slots0 pages1 h)
  note schema = 1(8,9,10) and fields = 1(7,11,14-16) and caps = 1(20-26) and m = 1(28)
  have valid: "validateBookCapacityProfile (ev_profile m) = Inr h" using 1(27) by (simp add: m)
  have small: "contents \<noteq> []" "length contents \<le> 16384" using readManifest_small [OF 1(3)] by auto
  have narrow': "x \<le> ucast u32_max \<Longrightarrow> unat (ucast x :: u32) = unat x"
    "x \<le> ucast u32_max - 1 \<Longrightarrow> unat (ucast x :: u32) = unat x" for x :: u64
    using narrow [of x u32_max] order_trans [of x "0xFFFFFFFE" "0xFFFFFFFF"] by simp_all
  have "ls = manifest_lines m"
  proof (cases "schema = kSchemaV2")
    case True
    then have "ls = [ls!0, ls!1, ls!2, ls!3, ls!4, ls!5, ls!6, ls!7, ls!8, ls!9, ls!10, ls!11]"
      using schema by (intro list_12) (simp add: kManifestV2LineCount_def)
    also have "\<dots> = manifest_lines m"
      using True fields caps by (simp add: m manifest_lines_def manifestField_exact capacityField_exact narrow' Let_def)
    finally show ?thesis .
  next
    case False
    then have "ls = [ls!0, ls!1, ls!2, ls!3, ls!4, ls!5, ls!6, ls!7, ls!8, ls!9, ls!10]"
      using schema by (intro list_11) (simp add: kManifestV1LineCount_def)
    also have "\<dots> = manifest_lines m"
      using False fields caps by (simp add: m manifest_lines_def manifestField_exact capacityField_exact narrow' Let_def)
    finally show ?thesis .
  qed
  then have "contents = manifest_text m"
    using 1(6) by (simp add: canonicalLines_exact [OF small(1)] manifest_text_def)
  moreover have "manifest_ok name digest m"
    using 1(1,2,5,13,17-19) schema fields(5) valid by (auto simp: m manifest_ok_def split: if_splits)
  ultimately show ?case using 1(3-5) hash_small [OF small(2)] by simp
qed

text \<open>C12. A capacity evidence file is accepted exactly when it is the canonical text of the manifest returned (no other
  spelling of the same values is accepted, and none of the values is changed), its SHA-256 is the configured
  digest, its profile name is the configured one, and the profile meets the deployment contract: well-formed
  hashes, counts that fit, and the declared headroom in the direct order table and the page arena.\<close>
theorem manifest_exact:
  "loadBookCapacityEvidenceManifest files path name digest = Inr m \<longleftrightarrow>
     readManifest files path = Inr (manifest_text m) \<and> fips_hex (stringBytes (manifest_text m)) = digest \<and>
     manifest_ok name digest m"
  using manifest_sound [of files path name digest m] manifest_accepted [of files path m digest name] by blast

text \<open>A manifest that is accepted, with the digest of its own text.\<close>

lemma fips_hex_lower: "isLowerHexSha256 (fips_hex msg)"
proof -
  have "list_all (\<lambda>n. (CHR ''0'' \<le> hex_digit n \<and> hex_digit n \<le> CHR ''9'') \<or> (CHR ''a'' \<le> hex_digit n \<and> hex_digit n \<le> CHR ''f'')) [0..<16]"
    by code_simp
  then have digit: "(CHR ''0'' \<le> hex_digit n \<and> hex_digit n \<le> CHR ''9'') \<or> (CHR ''a'' \<le> hex_digit n \<and> hex_digit n \<le> CHR ''f'')"
    if "n < 16" for n using that by (simp add: list_all_iff)
  have "unat b div 16 < 16" "unat b mod 16 < 16" for b :: u8
    using unsigned_less [of b, where 'a=nat] by auto
  then show ?thesis
    unfolding isLowerHexSha256_def using digit length_fips_hex [of msg]
    by (auto simp: fips_hex_def list_all_iff)
qed

definition demo_manifest :: "string \<Rightarrow> BookCapacityEvidenceManifest" where
  "demo_manifest digest = \<lparr>ev_profile = \<lparr>prof_name = ''demo'', prof_evidence_sha256 = digest,
       prof_config = \<lparr>cfg_orders = \<lparr>direct_slots = 4, fallback_bucket_count = 2, ot_prefault = False\<rparr>,
                      cfg_prices = \<lparr>page_capacity = 2, pls_prefault = False\<rparr>\<rparr>,
       prof_evidence = \<lparr>profiled_max_order_reference = 1, profiled_unique_price_pages = 1\<rparr>,
       prof_minimum_headroom = \<lparr>direct_order_reference_slots = 2, headroom_price_pages = 1\<rparr>\<rparr>,
     ev_corpus_manifest_sha256 = replicate 64 (CHR ''a''), ev_profiler_sha256 = replicate 64 (CHR ''b''),
     ev_profile_output_sha256 = replicate 64 (CHR ''c''), ev_schema = kSchemaV2\<rparr>"

definition demo_manifest_text :: string where
  "demo_manifest_text = manifest_text (demo_manifest [])"

definition demo_digest :: string where
  "demo_digest = fips_hex (stringBytes demo_manifest_text)"

definition demo_manifest_files :: "string \<Rightarrow> ManifestFile option" where
  "demo_manifest_files path = (if path = ''manifest'' then
     Some \<lparr>fl_end = int (length demo_manifest_text), fl_read = (\<lambda>n. take n demo_manifest_text)\<rparr> else None)"

lemma demo_texts:
  "manifest_text (demo_manifest digest) = demo_manifest_text"
  "demo_manifest_text \<noteq> []" "length demo_manifest_text \<le> 16384"
  by (simp_all add: demo_manifest_text_def manifest_text_def manifest_lines_def demo_manifest_def unlines_def Let_def
        kSchemaV2_def dec_text.simps)

lemma demo_manifest_ok: "manifest_ok ''demo'' demo_digest (demo_manifest demo_digest)"
proof -
  have "isLowerHexSha256 demo_digest" by (simp add: demo_digest_def fips_hex_lower)
  moreover have "isLowerHexSha256 (replicate 64 (CHR ''a''))" "isLowerHexSha256 (replicate 64 (CHR ''b''))"
      "isLowerHexSha256 (replicate 64 (CHR ''c''))" "isProfileToken ''demo''"
    by code_simp+
  ultimately show ?thesis
    by (simp add: manifest_ok_def demo_manifest_def validateBookCapacityProfile_def validateManagerConfig_def ebind_def Let_def word_le_nat_alt)
qed

lemma demo_manifest_read: "readManifest demo_manifest_files ''manifest'' = Inr demo_manifest_text"
  using demo_texts(2,3) by (simp add: readManifest_def demo_manifest_files_def kMaximumManifestBytes_def)

text \<open>The loader accepts this file under its digest.\<close>
theorem manifest_exact_witness:
  "loadBookCapacityEvidenceManifest demo_manifest_files ''manifest'' ''demo'' demo_digest = Inr (demo_manifest demo_digest)"
  using manifest_exact [of demo_manifest_files "''manifest''" "''demo''" demo_digest "demo_manifest demo_digest"]
    demo_manifest_ok demo_manifest_read by (simp add: demo_texts(1) demo_digest_def)

end
