(* ===== verification/EngineMainCorrect.thy ===== *)
theory EngineMainCorrect
  imports EngineMain CapacityManifestCorrect MoldUdpDecoderCorrect
begin

text \<open>
  What the engine's exit status means. The seven tests of the verdict are compared with what the decoder guarantees
  when it accepts the end of the stream; success is then traced back to the evidence file, the environment and
  the packets of the run.
\<close>

section \<open>The verdict\<close>

lemma verdict_decided:
  assumes "newBookManager slot_bytes slot_align page config = Inr m" "order_slots config < 2 ^ 32 - 1"
    and "decode_all elapsed (newMoldUdpDecoder newStockDirectory m ch start) vs = Some d"
  shows "sessionHealthy d \<longleftrightarrow> endOfStreamAccepted d \<and> ch_status (md_channel d) = Good \<and>
    cnt_page_capacity_failures (pls_counters (prices (mgr_stores (ip_books (md_parser d))))) = 0"
proof (cases "endOfStreamAccepted d")
  case True
  note s = end_of_stream_state [OF assms(1,3) True]
  have phase: "ip_channel_phase (md_parser d) = EndOfMessages"
    using s(1,2) by (simp add: session_complete_def phase_synced_def)
  note I = parser_invD [OF parser_reachable_inv [OF s(4) assms(2)]]
  have "fs_orders (feed_of (md_parser d)) = Map.empty" using end_without_orders s(4) assms(2) phase by blast
  then have "totalLiveOrderCount (ip_books (md_parser d)) = 0"
    using total_live_sum [OF I(2)] by simp
  moreover have "audit_clean (auditDirectory (ip_books (md_parser d)) (ip_symbols (md_parser d)))"
    using I(6) audit_clean_iff [OF I(2,1)] phase by (simp add: open_phase_def)
  ultimately show ?thesis using True s(1) by (simp add: sessionHealthy_def session_complete_def Let_def)
qed (simp add: sessionHealthy_def Let_def)

text \<open>C10. When the end of the stream is accepted, the gap buffer, the phase, the books and the directory audit are as \<open>main\<close>
  demands; only the health of the channel and the capacity failures of the price store are left to test.\<close>
theorem verdict_exact:
  assumes "newBookManager slot_bytes slot_align page config = Inr m" "order_slots config < 2 ^ 32 - 1"
    and "decode_all elapsed (newMoldUdpDecoder newStockDirectory m ch start) vs = Some d"
  shows "sessionHealthy d \<longleftrightarrow> endOfStreamAccepted d \<and> ch_status (md_channel d) = Good \<and>
    cnt_page_capacity_failures (pls_counters (prices (mgr_stores (ip_books (md_parser d))))) = 0"
  using verdict_decided [OF assms] .

text \<open>The verdict on the decoder of a complete demo session.\<close>
theorem verdict_exact_witness:
  "\<exists>d. decode_all demo_clock demo_decoder [demo_packet, demo_end] = Some d \<and>
     (sessionHealthy d \<longleftrightarrow> ch_status (md_channel d) = Good \<and>
        cnt_page_capacity_failures (pls_counters (prices (mgr_stores (ip_books (md_parser d))))) = 0)"
proof -
  obtain r d where d: "processPacket demo_clock demo_decoder1 demo_end = Some (r, d)" "md_terminal_status d = EndOfStream"
    using demo_session_ends by blast
  obtain r1 where "processPacket demo_clock demo_decoder demo_packet = Some (r1, demo_decoder1)" using demo_decoded(1) by blast
  then have "decode_all demo_clock demo_decoder [demo_packet, demo_end] = Some d" using d(1) by simp
  then show ?thesis
    using verdict_exact [OF demo_manager_new demo_slots, of demo_clock 0 1 "[demo_packet, demo_end]" d] d(2)
    by (simp add: demo_decoder_def endOfStreamAccepted_def)
qed

section \<open>The capacity gate\<close>

text \<open>The number a variable of the environment spells: a text of decimal digits only.\<close>

definition env_number :: "Host \<Rightarrow> string \<Rightarrow> nat option" where
  "env_number h name = (case h_getenv h name of None \<Rightarrow> None
     | Some text0 \<Rightarrow> if text0 \<noteq> [] \<and> list_all is_decimal_digit text0 then Some (decimal text0) else None)"

lemma requiredEnvU64_exact:
  "requiredEnvU64 h name lo hi = Inr n \<longleftrightarrow> env_number h name = Some (unat n) \<and> lo \<le> n \<and> n \<le> hi"
proof -
  have "fromChars text0 0 = (NoErrc, [], n) \<longleftrightarrow> text0 \<noteq> [] \<and> list_all is_decimal_digit text0 \<and> decimal text0 = unat n" for text0
    using unsigned_less [of n, where 'a=nat]
    by (auto simp: fromChars_whole list_all_iff unat_of_nat)
  moreover have "envU64 h name 0 lo hi = Inr n \<longleftrightarrow> fromChars text0 0 = (NoErrc, [], n) \<and> lo \<le> n \<and> n \<le> hi"
    if "h_getenv h name = Some text0" "text0 \<noteq> []" for text0
    using that by (auto simp: envU64_def unset_def not_less split: if_splits prod.splits)
  ultimately show ?thesis
    by (cases "h_getenv h name") (auto simp: requiredEnvU64_def unset_def env_number_def split: if_splits)
qed

lemma required_texts:
  "requiredMetadataToken h name k = Inr v \<Longrightarrow> h_getenv h name = Some v"
  "requiredSha256 h name = Inr v \<Longrightarrow> h_getenv h name = Some v"
  "requiredEnvironmentValue h name = Inr v \<Longrightarrow> h_getenv h name = Some v"
  by (auto simp: requiredMetadataToken_def requiredSha256_def requiredEnvironmentValue_def unset_def Let_def split: if_splits)

lemma requireManifestValue_exact: "requireManifestValue name a b = Inr u \<longleftrightarrow> a = b"
  by (simp add: requireManifestValue_def)

lemma gate_steps:
  assumes "bookCapacityFromEnvironment h = Inr dep"
  obtains m path name digest direct buckets pages0 reference unique slots0 pages1 prefault where
    "requiredMetadataToken h ''ASTRA_BOOK_CAPACITY_PROFILE'' 128 = Inr name"
    "requiredSha256 h ''ASTRA_BOOK_CAPACITY_EVIDENCE_SHA256'' = Inr digest"
    "requiredEnvironmentValue h ''ASTRA_BOOK_CAPACITY_EVIDENCE_FILE'' = Inr path"
    "env_number h ''ASTRA_ORDER_DIRECT_SLOTS'' = Some (unat direct)"
    "env_number h ''ASTRA_ORDER_FALLBACK_BUCKETS'' = Some (unat buckets)"
    "env_number h ''ASTRA_PRICE_PAGE_CAPACITY'' = Some (unat pages0)"
    "env_number h ''ASTRA_PROFILED_MAX_ORDER_REF'' = Some (unat reference)"
    "env_number h ''ASTRA_PROFILED_UNIQUE_PRICE_PAGES'' = Some (unat unique)"
    "env_number h ''ASTRA_MIN_DIRECT_ORDER_HEADROOM'' = Some (unat slots0)"
    "env_number h ''ASTRA_MIN_PRICE_PAGE_HEADROOM'' = Some (unat pages1)"
    "loadBookCapacityEvidenceManifest (h_files h) path name digest = Inr m" "ev_schema m = kSchemaV2"
    "direct = direct_slots (cfg_orders (prof_config (ev_profile m)))"
    "(buckets :: u64) = ucast (fallback_bucket_count (cfg_orders (prof_config (ev_profile m))))"
    "(pages0 :: u64) = ucast (page_capacity (cfg_prices (prof_config (ev_profile m))))"
    "reference = profiled_max_order_reference (prof_evidence (ev_profile m))"
    "(unique :: u64) = ucast (profiled_unique_price_pages (prof_evidence (ev_profile m)))"
    "slots0 = direct_order_reference_slots (prof_minimum_headroom (ev_profile m))"
    "(pages1 :: u64) = ucast (headroom_price_pages (prof_minimum_headroom (ev_profile m)))"
    "engine_envBool ''ASTRA_BOOK_PREFAULT'' (h_getenv h ''ASTRA_BOOK_PREFAULT'') True = Inr prefault"
    "dep_config dep = (prof_config (ev_profile m))
       \<lparr>cfg_orders := (cfg_orders (prof_config (ev_profile m)))\<lparr>ot_prefault := prefault\<rparr>,
        cfg_prices := (cfg_prices (prof_config (ev_profile m)))\<lparr>pls_prefault := prefault\<rparr>\<rparr>"
    "dep_evidence dep = prof_evidence (ev_profile m)" "dep_minimum_headroom dep = prof_minimum_headroom (ev_profile m)"
  using assms
  unfolding bookCapacityFromEnvironment_def Let_def bind_accepts if_Inr requiredEnvU64_exact requireManifestValue_exact not_not
  apply (elim exE conjE)
  apply (rule that)
  apply assumption+
  apply (drule sym [of "Inr _" "Inr dep"], simp)+
  done

text \<open>C11. The capacity gate opens only for an authentic deployment. The file named in the environment is the canonical text of
  a version 2 manifest whose SHA-256 and profile name are the configured ones; each of the seven capacity
  variables spells the number of the manifest; and the sizes handed to the books are those of the manifest.\<close>
theorem capacity_gate_sound:
  assumes "bookCapacityFromEnvironment h = Inr dep"
  shows "\<exists>m path name digest.
    h_getenv h ''ASTRA_BOOK_CAPACITY_PROFILE'' = Some name \<and>
    h_getenv h ''ASTRA_BOOK_CAPACITY_EVIDENCE_SHA256'' = Some digest \<and>
    h_getenv h ''ASTRA_BOOK_CAPACITY_EVIDENCE_FILE'' = Some path \<and>
    readManifest (h_files h) path = Inr (manifest_text m) \<and> fips_hex (stringBytes (manifest_text m)) = digest \<and>
    manifest_ok name digest m \<and> ev_schema m = kSchemaV2 \<and>
    direct_slots (cfg_orders (dep_config dep)) = direct_slots (cfg_orders (prof_config (ev_profile m))) \<and>
    fallback_bucket_count (cfg_orders (dep_config dep)) = fallback_bucket_count (cfg_orders (prof_config (ev_profile m))) \<and>
    page_capacity (cfg_prices (dep_config dep)) = page_capacity (cfg_prices (prof_config (ev_profile m))) \<and>
    env_number h ''ASTRA_ORDER_DIRECT_SLOTS'' = Some (unat (direct_slots (cfg_orders (dep_config dep)))) \<and>
    env_number h ''ASTRA_ORDER_FALLBACK_BUCKETS'' = Some (unat (fallback_bucket_count (cfg_orders (dep_config dep)))) \<and>
    env_number h ''ASTRA_PRICE_PAGE_CAPACITY'' = Some (unat (page_capacity (cfg_prices (dep_config dep)))) \<and>
    env_number h ''ASTRA_PROFILED_MAX_ORDER_REF'' = Some (unat (profiled_max_order_reference (dep_evidence dep))) \<and>
    env_number h ''ASTRA_PROFILED_UNIQUE_PRICE_PAGES'' = Some (unat (profiled_unique_price_pages (dep_evidence dep))) \<and>
    env_number h ''ASTRA_MIN_DIRECT_ORDER_HEADROOM'' = Some (unat (direct_order_reference_slots (dep_minimum_headroom dep))) \<and>
    env_number h ''ASTRA_MIN_PRICE_PAGE_HEADROOM'' = Some (unat (headroom_price_pages (dep_minimum_headroom dep)))"
proof (rule gate_steps [OF assms], goal_cases)
  case (1 m path name digest direct buckets pages0 reference unique slots0 pages1 prefault)
  note texts = required_texts(1) [OF 1(1)] required_texts(2) [OF 1(2)] required_texts(3) [OF 1(3)]
  show ?case
    using 1(4-10,12) texts manifest_sound [OF 1(11)] unfolding 1(13-19,21-23) unat_ucast_u32_64
    by (intro exI [of _ m] exI [of _ path] exI [of _ name] exI [of _ digest] conjI) simp_all
qed

text \<open>A deployment whose environment agrees with the accepted manifest.\<close>

definition demo_environment :: "string \<Rightarrow> string option" where
  "demo_environment =
     [''ASTRA_BOOK_CAPACITY_PROFILE'' \<mapsto> ''demo'', ''ASTRA_BOOK_CAPACITY_EVIDENCE_SHA256'' \<mapsto> demo_digest,
      ''ASTRA_BOOK_CAPACITY_EVIDENCE_FILE'' \<mapsto> ''manifest'', ''ASTRA_ORDER_DIRECT_SLOTS'' \<mapsto> ''4'',
      ''ASTRA_ORDER_FALLBACK_BUCKETS'' \<mapsto> ''2'', ''ASTRA_PRICE_PAGE_CAPACITY'' \<mapsto> ''2'',
      ''ASTRA_PROFILED_MAX_ORDER_REF'' \<mapsto> ''1'', ''ASTRA_PROFILED_UNIQUE_PRICE_PAGES'' \<mapsto> ''1'',
      ''ASTRA_MIN_DIRECT_ORDER_HEADROOM'' \<mapsto> ''2'', ''ASTRA_MIN_PRICE_PAGE_HEADROOM'' \<mapsto> ''1'',
      ''ASTRA_BOOK_PREFAULT'' \<mapsto> ''off'']"

definition demo_host :: "PacketView option list \<Rightarrow> Host" where
  "demo_host polls = \<lparr>h_getenv = demo_environment, h_files = demo_manifest_files, h_dpdk_built = False, h_pin = (\<lambda>_. True),
     h_page_size = 4096, h_slot_bytes = 128, h_slot_align = 8, h_open = (\<lambda>_. Inr polls)\<rparr>"

lemma demo_numbers:
  "requiredEnvU64 (demo_host polls) ''ASTRA_ORDER_DIRECT_SLOTS'' 1 u64_max = Inr 4"
  "requiredEnvU64 (demo_host polls) ''ASTRA_ORDER_FALLBACK_BUCKETS'' 1 (ucast u32_max) = Inr 2"
  "requiredEnvU64 (demo_host polls) ''ASTRA_PRICE_PAGE_CAPACITY'' 1 (ucast u32_max - 1) = Inr 2"
  "requiredEnvU64 (demo_host polls) ''ASTRA_PROFILED_MAX_ORDER_REF'' 1 u64_max = Inr 1"
  "requiredEnvU64 (demo_host polls) ''ASTRA_PROFILED_UNIQUE_PRICE_PAGES'' 1 (ucast u32_max - 1) = Inr 1"
  "requiredEnvU64 (demo_host polls) ''ASTRA_MIN_DIRECT_ORDER_HEADROOM'' 1 u64_max = Inr 2"
  "requiredEnvU64 (demo_host polls) ''ASTRA_MIN_PRICE_PAGE_HEADROOM'' 1 (ucast u32_max) = Inr 1"
  unfolding requiredEnvU64_exact
  by (simp_all add: env_number_def demo_host_def demo_environment_def decimal_def is_decimal_digit_def)

lemma demo_manifest_loaded:
  "loadBookCapacityEvidenceManifest demo_manifest_files ''manifest'' ''demo'' demo_digest = Inr (demo_manifest demo_digest)"
  using manifest_accepted [of demo_manifest_files "''manifest''" "demo_manifest demo_digest" demo_digest "''demo''"]
    demo_manifest_ok demo_manifest_read by (simp add: demo_texts(1) demo_digest_def)

lemma demo_gate: "\<exists>dep. bookCapacityFromEnvironment (demo_host polls) = Inr dep \<and>
  dep_config dep = prof_config (ev_profile (demo_manifest demo_digest))"
proof -
  have "requiredMetadataToken (demo_host polls) ''ASTRA_BOOK_CAPACITY_PROFILE'' 128 = Inr ''demo''"
    by (simp add: requiredMetadataToken_def demo_host_def demo_environment_def unset_def isTokenChar_def less_eq_char_def)
  moreover have digest: "isLowerHexSha256 demo_digest" by (simp add: demo_digest_def fips_hex_lower)
  moreover from this have "demo_digest \<noteq> []" by (auto simp: isLowerHexSha256_def)
  with digest have "requiredSha256 (demo_host polls) ''ASTRA_BOOK_CAPACITY_EVIDENCE_SHA256'' = Inr demo_digest"
    by (simp add: requiredSha256_def demo_host_def demo_environment_def unset_def)
  moreover have "requiredEnvironmentValue (demo_host polls) ''ASTRA_BOOK_CAPACITY_EVIDENCE_FILE'' = Inr ''manifest''"
    by (simp add: requiredEnvironmentValue_def demo_host_def demo_environment_def unset_def)
  moreover have "engine_envBool ''ASTRA_BOOK_PREFAULT'' (h_getenv (demo_host polls) ''ASTRA_BOOK_PREFAULT'') True = Inr False"
    by (simp add: engine_envBool_def demo_host_def demo_environment_def)
  moreover have "h_files (demo_host polls) = demo_manifest_files" by (simp add: demo_host_def)
  ultimately show ?thesis
    using demo_numbers [of polls] demo_manifest_loaded
    by (simp add: bookCapacityFromEnvironment_def ebind_def demo_manifest_def requireManifestValue_def
          validateBookCapacityProfile_def validateManagerConfig_def Let_def word_le_nat_alt)
qed

text \<open>The gate opens for this deployment, and its file is the text of the manifest.\<close>
theorem capacity_gate_sound_witness:
  "\<exists>dep m. bookCapacityFromEnvironment (demo_host []) = Inr dep \<and>
     demo_manifest_text = manifest_text m \<and> unat (direct_slots (cfg_orders (dep_config dep))) = 4"
proof -
  obtain dep where dep: "bookCapacityFromEnvironment (demo_host []) = Inr dep" using demo_gate by blast
  have "h_files (demo_host []) = demo_manifest_files" "h_getenv (demo_host []) ''ASTRA_BOOK_CAPACITY_EVIDENCE_FILE'' = Some ''manifest''"
    "env_number (demo_host []) ''ASTRA_ORDER_DIRECT_SLOTS'' = Some 4"
    by (simp_all add: demo_host_def demo_environment_def env_number_def is_decimal_digit_def decimal_def)
  with capacity_gate_sound [OF dep] dep demo_manifest_read show ?thesis by auto
qed

section \<open>Success\<close>

lemma startup_steps:
  assumes "engineStartup h a = Inr (e, polls)"
  obtains settings dep books where "readEngineSettings h = Inr settings" "bookCapacityFromEnvironment h = Inr dep"
    "newBookManager (h_slot_bytes h) (h_slot_align h) (h_page_size h) (dep_config dep) = Inr books"
    "h_open h (chooseReceiver a settings) = Inr polls"
    "e = newMarketDataEngine (newMoldUdpDecoder newStockDirectory books (arg_channel_id a) 1) newLatencyRecorder (set_config settings)"
  using assms
  by (auto simp: engineStartup_def openReceiver_def bind_accepts Let_def split: if_splits)

text \<open>The packets of a first part of the polls.\<close>

lemma packets_prefix: "packets_of polls = us @ ws \<Longrightarrow> \<exists>j. us = packets_of (take j polls)"
proof (induction polls arbitrary: us)
  case (Cons poll polls)
  show ?case
  proof (cases "us = []")
    case True
    then show ?thesis by (intro exI [of _ 0]) simp
  next
    case False
    show ?thesis
    proof (cases poll)
      case None
      then obtain j where "us = packets_of (take j polls)" using Cons by auto
      then show ?thesis using None by (intro exI [of _ "Suc j"]) simp
    next
      case (Some v)
      then obtain us' where u: "us = v # us'" "packets_of polls = us' @ ws" using Cons.prems False by (auto simp: Cons_eq_append_conv)
      then obtain j where "us' = packets_of (take j polls)" using Cons.IH by blast
      then show ?thesis using Some u(1) by (intro exI [of _ "Suc j"]) simp
    qed
  qed
qed simp

text \<open>C9. The engine's exit status of success is earned. When the program ends with it, the capacity gate had opened. Either it was called only to print the
  storage plan (one argument, \<open>--book-storage-plan-only\<close>), and the plan for the configured capacity was computed; or the
  packets delivered by the chosen receiver up to some poll form a complete session: the decoder accepted the end of the stream in good health, all ends of session
  that these packets announce are one number, every sequence number from 1 up to it was received, the last message was
  the end of messages, nothing is waiting in the gap buffer, no order is left in a book, and the price store
  never ran out of pages. (With fewer than \<open>2 ^ 32 - 1\<close> order slots configured.)\<close>
theorem engine_success_sound:
  assumes "engineMain h elapsed argv = Some ExitSuccess"
    and slots: "\<And>dep. bookCapacityFromEnvironment h = Inr dep \<Longrightarrow> order_slots (dep_config dep) < 2 ^ 32 - 1"
  shows "\<exists>dep. bookCapacityFromEnvironment h = Inr dep \<and>
    (length argv = 2 \<and> argv ! 1 = ''--book-storage-plan-only'' \<and>
       (\<exists>plan. estimateFootprintForHost (h_slot_bytes h) (h_slot_align h) (dep_config dep) (h_page_size h) = Inr plan) \<or>
     (\<exists>a settings books polls k d.
        parseEngineArguments argv = Some a \<and>
        newBookManager (h_slot_bytes h) (h_slot_align h) (h_page_size h) (dep_config dep) = Inr books \<and>
        readEngineSettings h = Inr settings \<and> h_open h (chooseReceiver a settings) = Inr polls \<and>
        decode_all elapsed (newMoldUdpDecoder newStockDirectory books (arg_channel_id a) 1) (packets_of (take k polls)) = Some d \<and>
        endOfStreamAccepted d \<and> ch_status (md_channel d) = Good \<and>
        ip_channel_phase (md_parser d) = EndOfMessages \<and> gb_empty (ch_gap_buffer (md_channel d)) \<and>
        book_orders (mgr_stores (ip_books (md_parser d))) = Map.empty \<and>
        cnt_page_capacity_failures (pls_counters (prices (mgr_stores (ip_books (md_parser d))))) = 0 \<and>
        announced_ends (packets_of (take k polls)) = {ch_next_expected_seq (md_channel d)} \<and>
        (\<forall>n. 1 \<le> n \<and> n < unat (ch_next_expected_seq (md_channel d)) \<longrightarrow> n \<in> fst ` all_claims (packets_of (take k polls)))))"
proof (cases "length argv = 2 \<and> argv ! 1 = ''--book-storage-plan-only''")
  case True
  then obtain plan where "planOnly h = Inr plan" using assms(1) by (auto simp: engineMain_def split: sum.splits)
  then obtain dep where "bookCapacityFromEnvironment h = Inr dep"
    "estimateFootprintForHost (h_slot_bytes h) (h_slot_align h) (dep_config dep) (h_page_size h) = Inr plan"
    by (auto simp: planOnly_def bind_accepts)
  then show ?thesis using True by blast
next
  case False
  obtain a e polls e1 where a: "parseEngineArguments argv = Some a" "engineStartup h a = Inr (e, polls)"
      "engine_run (processPacket elapsed) e polls = Some e1" "sessionHealthy (eng_processor e1)"
    using assms(1) False by (auto simp: engineMain_def split: option.splits sum.splits if_splits)
  obtain settings dep books where b: "readEngineSettings h = Inr settings" "bookCapacityFromEnvironment h = Inr dep"
      "newBookManager (h_slot_bytes h) (h_slot_align h) (h_page_size h) (dep_config dep) = Inr books"
      "h_open h (chooseReceiver a settings) = Inr polls"
      "e = newMarketDataEngine (newMoldUdpDecoder newStockDirectory books (arg_channel_id a) 1) newLatencyRecorder (set_config settings)"
    by (rule startup_steps [OF a(2)])
  let ?new = "newMoldUdpDecoder newStockDirectory books (arg_channel_id a) 1" and ?d = "eng_processor e1"
  obtain j where j: "decode_all elapsed ?new (packets_of (take j polls)) = Some ?d"
    using engine_stops_with_decoder [OF b(5), of elapsed polls] a(3) by auto
  have eos: "endOfStreamAccepted ?d" "md_terminal_status ?d = EndOfStream"
    using a(4) by (simp_all add: sessionHealthy_def endOfStreamAccepted_def Let_def)
  have new: "end_inv {} ?new" "md_terminal_status ?new = DecodeOk" by (simp_all add: end_inv_def newMoldUdpDecoder_def)
  obtain us ws where us: "packets_of (take j polls) = us @ ws" "decode_all elapsed ?new us = Some ?d" "announced_ends us = {expected_seq ?d}"
    using decode_all_end [OF new j eos(2)] by auto
  obtain k where k: "us = packets_of (take k polls)" using packets_prefix [OF us(1)] by (auto simp: take_take)
  note s = end_of_stream_state [OF b(3) us(2) eos(1)]
  have phase: "ip_channel_phase (md_parser ?d) = EndOfMessages"
    using s(1,2) by (simp add: session_complete_def phase_synced_def)
  have "fs_orders (feed_of (md_parser ?d)) = Map.empty"
    using end_without_orders s(4) slots [OF b(2)] phase by blast
  then have "\<exists>d. decode_all elapsed ?new (packets_of (take k polls)) = Some d \<and> endOfStreamAccepted d \<and> ch_status (md_channel d) = Good \<and>
        ip_channel_phase (md_parser d) = EndOfMessages \<and> gb_empty (ch_gap_buffer (md_channel d)) \<and>
        book_orders (mgr_stores (ip_books (md_parser d))) = Map.empty \<and>
        cnt_page_capacity_failures (pls_counters (prices (mgr_stores (ip_books (md_parser d))))) = 0 \<and>
        announced_ends (packets_of (take k polls)) = {ch_next_expected_seq (md_channel d)} \<and>
        (\<forall>n. 1 \<le> n \<and> n < unat (ch_next_expected_seq (md_channel d)) \<longrightarrow> n \<in> fst ` all_claims (packets_of (take k polls)))"
    using a(4) us(2,3) eos(1) phase s(5) unfolding k by (intro exI [of _ ?d]) (auto simp: sessionHealthy_def Let_def)
  then show ?thesis using a(1) b(1-4) by blast
qed

text \<open>The program always ends: the run over what the receiver delivers returns.\<close>

lemma engine_main_returns: "\<exists>status. engineMain h elapsed argv = Some status"
proof -
  have run: "\<exists>e1. engine_run (processPacket elapsed) e polls = Some e1" if "engineStartup h a = Inr (e, polls)" for a e polls
  proof (rule startup_steps [OF that])
    fix settings dep books
    assume "e = newMarketDataEngine (newMoldUdpDecoder newStockDirectory books (arg_channel_id a) 1) newLatencyRecorder (set_config settings)"
    from engine_stops_with_decoder [OF this, of elapsed polls] show ?thesis by blast
  qed
  have "engineMain h elapsed argv \<noteq> None"
    unfolding engineMain_def using run by (fastforce split: option.splits sum.splits if_splits)
  then show ?thesis by simp
qed

section \<open>A complete run\<close>

text \<open>System events leave the count of capacity failures alone.\<close>

definition capacity_failures :: "ItchParser \<Rightarrow> u64" where
  "capacity_failures p = page_capacity_failures (prices (mgr_stores (ip_books p)))"

lemma getOrCreate_failures:
  "page_capacity_failures (prices (mgr_stores (snd (getOrCreate m locate)))) = page_capacity_failures (prices (mgr_stores m))"
  by (auto simp: getOrCreate_def prepareBook_def Let_def split: option.splits if_splits)

lemma createRegisteredBook_failures: "capacity_failures (snd (createRegisteredBook p locate)) = capacity_failures p"
  using getOrCreate_failures [of "ip_books p" locate]
  by (simp add: createRegisteredBook_def capacity_failures_def case_prod_beta)

lemma createRegisteredBooks_failures: "capacity_failures (snd (createRegisteredBooks p)) = capacity_failures p"
proof -
  have "capacity_failures (snd (fold (\<lambda>locate (success, q).
      if dir_isRegistered (ip_symbols q) locate then let (created, q') = createRegisteredBook q locate in (created \<and> success, q')
      else (success, q)) ls (b, p))) = capacity_failures p" for ls b p
  proof (induction ls arbitrary: b p)
    case (Cons l ls)
    then show ?case using createRegisteredBook_failures [of p l] by (simp add: case_prod_beta)
  qed simp
  then show ?thesis by (simp add: createRegisteredBooks_def)
qed

lemma system_event_failures: "capacity_failures (parse p (demo_event code)) = capacity_failures p"
proof -
  have fail: "capacity_failures (snd (ip_fail q e)) = capacity_failures q" for q e
    by (simp add: ip_fail_def capacity_failures_def)
  have advance: "capacity_failures (snd (advancePhase q ph)) = capacity_failures q" for q ph
    by (simp add: advancePhase_def fail capacity_failures_def) (simp add: ip_fail_def)
  have prepared: "capacity_failures (q\<lparr>ip_books_prepared := True\<rparr>) = capacity_failures q" for q
    by (simp add: capacity_failures_def)
  have start: "capacity_failures (handleSystemHoursStart q) = capacity_failures q" for q
    by (simp add: handleSystemHoursStart_def case_prod_beta Let_def fail advance createRegisteredBooks_failures prepared)
  have event: "capacity_failures (handleSystemEvent q msg) = capacity_failures q" for q msg
    by (simp add: handleSystemEvent_def Let_def advance start fail)
  have "capacity_failures (snd (dispatchMessage q (demo_event code))) = capacity_failures q" for q
    by (simp add: dispatchMessage_def Let_def demo_event_fields fail event)
  then show ?thesis
    by (simp add: parse_def handlePrevalidatedMessage_def Let_def fail) (simp add: clear_outcome_def capacity_failures_def)
qed

lemma demo_end_state:
  "\<exists>r d. processPacket demo_clock demo_decoder1 demo_end = Some (r, d) \<and> dr_status r = EndOfStream \<and> endOfStreamAccepted d \<and>
     ch_status (md_channel d) = Good \<and> md_parser d = demo_parser_end"
proof -
  note F = demo_decoder1_fields
  let ?P = "makeMoldEndOfSessionPacket (replicate 10 0x41) 7"
  have p: "length ?P = 20" "mold_readU16BE ?P 18 = 0xFFFF" "mold_readU64BE ?P 10 = 7" "take 10 ?P = replicate 10 0x41" by code_simp+
  have "sessionMatches (md_channel demo_decoder1) ?P" using F(9) p(4) by (simp add: sessionMatches_def kSessionBytes_def)
  then show ?thesis using F p demo_buffer
    by (simp add: processPacket_def demo_end_def processEndOfSession_def kHeaderSize_def kEndOfSessionMessageCount_def endOfStreamAccepted_def Let_def)
qed

lemma demo_end_failures: "capacity_failures demo_parser_end = 0"
proof -
  have "capacity_failures (fold (\<lambda>m p. parse p m) (map demo_event codes) p) = capacity_failures p" for codes p
    by (induction codes arbitrary: p) (simp_all add: system_event_failures)
  moreover have "page_capacity_failures (prices (mgr_stores demo_manager)) = 0" unfolding demo_manager_def by code_simp
  ultimately show ?thesis
    by (simp add: demo_parser_end_def demo_parser_def newItchParser_def capacity_failures_def)
qed

definition demo_arguments :: "string list" where
  "demo_arguments = [''md_engine'', ''239.0.0.1'', ''26400'']"

lemma demo_arguments_parsed:
  "\<exists>a. parseEngineArguments demo_arguments = Some a \<and> arg_channel_id a = 0"
  by (simp add: parseEngineArguments_def demo_arguments_def parseUnsignedArgument_def fromChars_def is_decimal_digit_def decimal_def
        word_le_nat_alt)

lemma demo_started:
  "engineStartup (demo_host polls) a = Inr (newMarketDataEngine (newMoldUdpDecoder newStockDirectory demo_manager (arg_channel_id a) 1)
     newLatencyRecorder defaultEngineConfig, polls)"
proof -
  obtain dep where dep: "bookCapacityFromEnvironment (demo_host polls) = Inr dep"
      "dep_config dep = prof_config (ev_profile (demo_manifest demo_digest))" using demo_gate by blast
  then have config: "dep_config dep = demo_manager_config"
    by (simp add: demo_manifest_def demo_manager_config_def demo_table_config_def demo_config_def)
  then have books: "newBookManager 128 8 4096 (dep_config dep) = Inr demo_manager" by (simp add: demo_manager_new)
  then obtain fp where "estimateFootprintForHost 128 8 (dep_config dep) 4096 = Inr fp"
    by (auto simp: newBookManager_def bind_accepts)
  with dep(1) books show ?thesis
    by (simp add: engineStartup_def readEngineSettings_def openReceiver_def pinRequestedCpu_def engine_envBool_def ebind_def
          demo_host_def demo_environment_def unset_def Let_def)
qed

definition demo_session_polls :: "PacketView option list" where
  "demo_session_polls = [Some demo_packet, None, Some demo_end]"

lemma demo_engine_run:
  "\<exists>e. engine_run (processPacket demo_clock) (newMarketDataEngine demo_decoder newLatencyRecorder defaultEngineConfig) demo_session_polls = Some e \<and>
     sessionHealthy (eng_processor e)"
proof -
  let ?e = "newMarketDataEngine demo_decoder newLatencyRecorder defaultEngineConfig"
  obtain r d where d: "processPacket demo_clock demo_decoder1 demo_end = Some (r, d)" "dr_status r = EndOfStream" "endOfStreamAccepted d"
    "ch_status (md_channel d) = Good" "md_parser d = demo_parser_end" using demo_end_state by blast
  obtain r1 where r1: "processPacket demo_clock demo_decoder demo_packet = Some (r1, demo_decoder1)" "dr_status r1 = DecodeOk"
    using demo_decoded(1) by blast
  then have "\<exists>e2. engine_packet (processPacket demo_clock) ?e demo_packet = Some e2 \<and> eng_running e2 \<and> eng_processor e2 = demo_decoder1"
    by (simp add: engine_packet_def newMarketDataEngine_def defaultEngineConfig_def Let_def)
  then obtain e2 where e2: "engine_packet (processPacket demo_clock) ?e demo_packet = Some e2" "eng_running e2" "eng_processor e2 = demo_decoder1"
    by blast
  have "\<exists>e. engine_run (processPacket demo_clock) ?e demo_session_polls = Some e \<and> eng_processor e = d"
    using e2 d(1,2) by (simp add: demo_session_polls_def newMarketDataEngine_def engine_packet_def eng_stop_def)
  moreover have "decode_all demo_clock demo_decoder [demo_packet, demo_end] = Some d" using r1 d(1) by simp
  then have "sessionHealthy d"
    using verdict_decided [OF demo_manager_new demo_slots] d(3-5) demo_end_failures
    unfolding demo_decoder_def capacity_failures_def pls_counters_def by fastforce
  ultimately show ?thesis by auto
qed

text \<open>A run of the program over a demo session ends with success, and the session is complete.\<close>
theorem engine_success_sound_witness:
  "engineMain (demo_host demo_session_polls) demo_clock demo_arguments = Some ExitSuccess \<and>
   (\<exists>k d. decode_all demo_clock demo_decoder (packets_of (take k demo_session_polls)) = Some d \<and> endOfStreamAccepted d \<and>
     announced_ends (packets_of (take k demo_session_polls)) = {ch_next_expected_seq (md_channel d)} \<and> book_orders (mgr_stores (ip_books (md_parser d))) = Map.empty)"
proof -
  let ?h = "demo_host demo_session_polls"
  obtain a where a: "parseEngineArguments demo_arguments = Some a" "arg_channel_id a = 0" using demo_arguments_parsed by blast
  have s: "engineStartup ?h a = Inr (newMarketDataEngine demo_decoder newLatencyRecorder defaultEngineConfig, demo_session_polls)"
    using demo_started [of demo_session_polls a] a(2) by (simp add: demo_decoder_def)
  have success: "engineMain ?h demo_clock demo_arguments = Some ExitSuccess"
    using a s demo_engine_run by (auto simp: engineMain_def demo_arguments_def)
  have config: "dep_config dep = demo_manager_config" if "bookCapacityFromEnvironment ?h = Inr dep" for dep
    using demo_gate [of demo_session_polls] that
    by (auto simp: demo_manifest_def demo_manager_config_def demo_table_config_def demo_config_def)
  have two: "\<not> length demo_arguments = 2" by (simp add: demo_arguments_def)
  have slots: "order_slots (dep_config dep) < 2 ^ 32 - 1" if "bookCapacityFromEnvironment ?h = Inr dep" for dep
    using config [OF that] demo_slots by simp
  have "h_slot_bytes ?h = 128" "h_slot_align ?h = 8" "h_page_size ?h = 4096" "h_open ?h c = Inr demo_session_polls" for c
    by (simp_all add: demo_host_def)
  note host = this
  obtain a1 dep books polls settings k d where r: "parseEngineArguments demo_arguments = Some a1" "bookCapacityFromEnvironment ?h = Inr dep"
      "newBookManager (h_slot_bytes ?h) (h_slot_align ?h) (h_page_size ?h) (dep_config dep) = Inr books"
      "h_open ?h (chooseReceiver a1 settings) = Inr polls"
      "decode_all demo_clock (newMoldUdpDecoder newStockDirectory books (arg_channel_id a1) 1) (packets_of (take k polls)) = Some d"
      "endOfStreamAccepted d" "book_orders (mgr_stores (ip_books (md_parser d))) = Map.empty"
      "announced_ends (packets_of (take k polls)) = {ch_next_expected_seq (md_channel d)}"
    using engine_success_sound [OF success slots] two by blast
  have eq: "books = demo_manager" "polls = demo_session_polls" "arg_channel_id a1 = 0"
    using r(1-4) config host demo_manager_new a by auto
  then have "decode_all demo_clock demo_decoder (packets_of (take k demo_session_polls)) = Some d"
    using r(5) by (simp add: demo_decoder_def)
  with r(6-8) success eq(2) show ?thesis by (intro conjI exI [of _ k] exI [of _ d]) simp_all
qed

end
