(* ===== verification/Sha256Vector.thy ===== *)
theory Sha256Vector
  imports Sha256Stream
begin

text \<open>
  The published test vector of a one-block message, evaluated in the kernel: the model computes the digest
  the standard prints for \<open>abc\<close>. The schedule and the rounds are evaluated in pieces.
\<close>

definition abc_block :: "u8 list" where
  "abc_block = [0x61, 0x62, 0x63, 0x80] @ replicate 59 0 @ [24]"

definition abc_words :: "u32 list" where
  "abc_words =
    [0x61626380, 0x00000000, 0x00000000, 0x00000000, 0x00000000, 0x00000000, 0x00000000, 0x00000000,
     0x00000000, 0x00000000, 0x00000000, 0x00000000, 0x00000000, 0x00000000, 0x00000000, 0x00000018,
     0x61626380, 0x000f0000, 0x7da86405, 0x600003c6, 0x3e9d7b78, 0x0183fc00, 0x12dcbfdb, 0xe2e2c38e,
     0xc8215c1a, 0xb73679a2, 0xe5bc3909, 0x32663c5b, 0x9d209d67, 0xec8726cb, 0x702138a4, 0xd3b7973b,
     0x93f5997f, 0x3b68ba73, 0xaff4ffc1, 0xf10a5c62, 0x0a8b3996, 0x72af830a, 0x9409e33e, 0x24641522,
     0x9f47bf94, 0xf0a64f5a, 0x3e246a79, 0x27333ba3, 0x0c4763f2, 0x840abf27, 0x7a290d5d, 0x065c43da,
     0xfb3e89cb, 0xcc7617db, 0xb9e66c34, 0xa9993667, 0x84badedd, 0xc21462bc, 0x1487472c, 0xb20f7a99,
     0xef57b9cd, 0xebe6b238, 0x9fe3095e, 0x78bc8d4b, 0xa43fcf15, 0x668b2ff8, 0xeeaba2cc, 0x12b1edeb]"

definition abc_first :: "u32 list" where
  "abc_first = take 40 abc_words @ replicate 24 0"

lemma abc_schedule1:
  "foldl extendWords (foldl (\<lambda>ws index. ws[index := loadMessageWord abc_block index]) (replicate 64 0) [0..<16]) [16..<40] =
   abc_first"
  by code_simp

lemma abc_schedule2: "foldl extendWords abc_first [40..<64] = abc_words"
  by code_simp

lemma abc_messageWords: "messageWords abc_block = abc_words"
proof -
  have "[16..<64] = [16..<40] @ [40..<64]" using upt_add_eq_append [of 16 40 24] by simp
  then show ?thesis
    by (simp only: messageWords_def foldl_append abc_schedule1 abc_schedule2)
qed

lemma abc_rounds1:
  "foldl (shaRound abc_words) (ShaVars 0x6a09e667 0xbb67ae85 0x3c6ef372 0xa54ff53a 0x510e527f 0x9b05688c 0x1f83d9ab 0x5be0cd19)
     [0..<16] =
   ShaVars 0xb0fa238e 0xc0645fde 0xd932eb16 0x87912990 0x07590dcd 0x0b92f20c 0x745a48de 0x1e578218"
  by code_simp

lemma abc_rounds2:
  "foldl (shaRound abc_words) (ShaVars 0xb0fa238e 0xc0645fde 0xd932eb16 0x87912990 0x07590dcd 0x0b92f20c 0x745a48de 0x1e578218)
     [16..<32] =
   ShaVars 0x73b33bf5 0xea992a22 0xa0060b30 0x363482c9 0xba591112 0x0109ab3a 0xade79437 0x6112a3b7"
  by code_simp

lemma abc_rounds3:
  "foldl (shaRound abc_words) (ShaVars 0x73b33bf5 0xea992a22 0xa0060b30 0x363482c9 0xba591112 0x0109ab3a 0xade79437 0x6112a3b7)
     [32..<48] =
   ShaVars 0x4172328d 0xa14c14b0 0x72ab4b91 0x26628815 0xfecf0bc6 0xd57b94a9 0xb7755da1 0xa80f11f0"
  by code_simp

lemma abc_rounds4:
  "foldl (shaRound abc_words) (ShaVars 0x4172328d 0xa14c14b0 0x72ab4b91 0x26628815 0xfecf0bc6 0xd57b94a9 0xb7755da1 0xa80f11f0)
     [48..<64] =
   ShaVars 0x506e3058 0xd39a2165 0x04d24d6c 0xb85e2ce9 0x5ef50f24 0xfb121210 0x948d25b6 0x961f4894"
  by code_simp

lemma abc_transform:
  "transform fips_H0 abc_block =
    [0xba7816bf, 0x8f01cfea, 0x414140de, 0x5dae2223, 0xb00361a3, 0x96177a9c, 0xb410ff61, 0xf20015ad]"
proof -
  have "[0..<64] = [0..<16] @ [16..<32] @ [32..<48] @ [48..<64]"
    using upt_add_eq_append [of 0 16 48] upt_add_eq_append [of 16 32 32] upt_add_eq_append [of 32 48 16] by simp
  then have "foldl (shaRound (messageWords abc_block)) (ShaVars 0x6a09e667 0xbb67ae85 0x3c6ef372 0xa54ff53a 0x510e527f 0x9b05688c 0x1f83d9ab 0x5be0cd19)
      [0..<64] = ShaVars 0x506e3058 0xd39a2165 0x04d24d6c 0xb85e2ce9 0x5ef50f24 0xfb121210 0x948d25b6 0x961f4894"
    by (simp only: abc_messageWords foldl_append abc_rounds1 abc_rounds2 abc_rounds3 abc_rounds4)
  then show ?thesis
    by (simp add: transform_def fips_H0_eq newSha256_def del: upt_rec_numeral)
qed

lemma fips_abc: "fips_hex [0x61, 0x62, 0x63] = ''ba7816bf8f01cfea414140de5dae2223b00361a396177a9cb410ff61f20015ad''"
proof -
  have "replicate 7 (0::u8) = [0, 0, 0, 0, 0, 0, 0]" by code_simp
  then have "replicate 52 (0::u8) @ [0, 0, 0, 0, 0, 0, 0] = replicate 59 0"
    using replicate_add [of 52 7 "0::u8"] by simp
  then have pad: "fips_pad [0x61, 0x62, 0x63] = abc_block"
    by (simp add: fips_pad_def fips_bytes_def abc_block_def upt_conv_Cons)
  have "block_words abc_block = fips_block abc_block 0"
    using block_words_exact [of abc_block] by (simp add: abc_block_def)
  then have "fips_compress fips_H0 (fips_block abc_block 0) = transform fips_H0 abc_block"
    using transform_exact [of fips_H0 abc_block] by (simp add: fips_H0_eq newSha256_def)
  moreover have "length abc_block div 64 = 1" by (simp add: abc_block_def)
  ultimately have "fips_hash [0x61, 0x62, 0x63] = concat (map (\<lambda>w. fips_bytes 4 (unat w)) (transform fips_H0 abc_block))"
    by (simp add: fips_hash_def pad)
  also have "\<dots> = [0xba, 0x78, 0x16, 0xbf, 0x8f, 0x01, 0xcf, 0xea, 0x41, 0x41, 0x40, 0xde, 0x5d, 0xae, 0x22, 0x23, 0xb0, 0x03, 0x61, 0xa3, 0x96, 0x17, 0x7a, 0x9c, 0xb4, 0x10, 0xff, 0x61, 0xf2, 0x00, 0x15, 0xad]"
    unfolding abc_transform by (simp add: fips_bytes_def upt_conv_Cons word_uint_eq_iff)
  finally have digest: "fips_hash [0x61, 0x62, 0x63] =
    [0xba, 0x78, 0x16, 0xbf, 0x8f, 0x01, 0xcf, 0xea, 0x41, 0x41, 0x40, 0xde, 0x5d, 0xae, 0x22, 0x23, 0xb0, 0x03, 0x61, 0xa3, 0x96, 0x17, 0x7a, 0x9c, 0xb4, 0x10, 0xff, 0x61, 0xf2, 0x00, 0x15, 0xad]" .
  show ?thesis unfolding fips_hex_def digest by code_simp
qed

lemma sha256_abc: "sha256Hex ''abc'' = Inr ''ba7816bf8f01cfea414140de5dae2223b00361a396177a9cb410ff61f20015ad''"
proof -
  have "stringBytes ''abc'' = [0x61, 0x62, 0x63]" by (simp add: stringBytes_def)
  then show ?thesis using sha256Hex_exact [of "''abc''"] by (simp add: fips_abc)
qed

end
