(* ===== verification/MappedArray.thy ===== *)
theory MappedArray
  imports BookManager
begin

text \<open>
  Model of \<open>MappedArray.hpp\<close>, \<open>MappedObjectArray.hpp\<close> and \<open>FixedMmapArray.hpp\<close>: the arenas behind the books. A
  construction maps more than it needs, gives back what lies before and after the aligned region, and asks for
  huge pages and a name; every failure after the mapping must give the memory back.

  The operating system is a parameter, \<open>MapCalls\<close>: the page size, the address a mapping of a length gets (if any),
  the result of giving back a range, of \<open>madvise\<close> and of \<open>prctl\<close>, where zero is success and another number the
  error, as for a build on Linux whose headers have both. The calls that change the address space are recorded in order. \<open>size_t\<close> and
  addresses have 64 bits; the size and alignment of an element are arguments. The placement array-new of the
  sources, which runs no code for trivial elements, leaves the bytes and the address as they are.
\<close>

record MapCalls =
  mc_page_size :: int
  mc_mmap :: "u64 \<Rightarrow> u64 option"
  mc_munmap :: "u64 \<Rightarrow> u64 \<Rightarrow> int"
  mc_madvise :: "u64 \<Rightarrow> u64 \<Rightarrow> int"
  mc_prctl :: "u64 \<Rightarrow> u64 \<Rightarrow> int"

text \<open>What changed the address space: a mapping, or a range given back with the result of the call.\<close>

datatype MapEvent = Mapped u64 u64 | Unmapped u64 u64 int

datatype MapError =
  MapLengthError string | MapInvalidArgument string | MapRuntimeError string | BadAlloc | MapSystemError int string

section \<open>MappedArray\<close>

record MappedArray =
  ma_count :: u64
  ma_logical_bytes :: u64
  ma_mapped_bytes :: u64
  ma_alignment :: u64
  ma_mapping_name :: "string option"
  ma_mapping_base :: "u64 option"
  ma_data :: "u64 option"

definition systemPageSize :: "MapCalls \<Rightarrow> MapError + u64" where
  "systemPageSize os =
     (if mc_page_size os \<le> 0 then Inl (MapRuntimeError ''unable to determine the system page size'')
      else Inr (word_of_int (mc_page_size os)))"

definition ma_checkedBytes :: "u64 \<Rightarrow> u64 \<Rightarrow> MapError + u64" where
  "ma_checkedBytes element_bytes count0 =
     (if count0 > u64_max div element_bytes then Inl (MapLengthError ''MappedArray byte size overflows size_t'')
      else Inr (count0 * element_bytes))"

definition roundUp :: "u64 \<Rightarrow> u64 \<Rightarrow> MapError + u64" where
  "roundUp value0 alignment =
     (if value0 > u64_max - (alignment - 1) then Inl (MapLengthError ''MappedArray rounded size overflows size_t'')
      else Inr ((value0 + alignment - 1) AND NOT (alignment - 1)))"

definition roundUpAddress :: "u64 \<Rightarrow> u64 \<Rightarrow> u64" where
  "roundUpAddress value0 alignment = (value0 + alignment - 1) AND NOT (alignment - 1)"

definition normalizeAlignment :: "MapCalls \<Rightarrow> u64 \<Rightarrow> u64 \<Rightarrow> MapError + u64" where
  "normalizeAlignment os element_alignment requested =
     (case systemPageSize os of Inl e \<Rightarrow> Inl e
      | Inr page_size \<Rightarrow>
          let a0 = (if requested = 0 then page_size else requested);
              a1 = (if a0 < page_size then page_size else a0);
              alignment = (if a1 < element_alignment then element_alignment else a1)
          in if \<not> isPowerOfTwo alignment \<or> alignment mod page_size \<noteq> 0 then
               Inl (MapInvalidArgument ''MappedArray alignment must be a page-multiple power of two'')
             else Inr alignment)"

definition ma_unmap :: "MapCalls \<Rightarrow> MappedArray \<Rightarrow> MappedArray \<times> MapEvent list" where
  "ma_unmap os a =
     (case ma_mapping_base a of
        None \<Rightarrow> (a\<lparr>ma_data := None\<rparr>, [])
      | Some base \<Rightarrow> (a\<lparr>ma_mapping_base := None, ma_data := None\<rparr>,
                       [Unmapped base (ma_mapped_bytes a) (mc_munmap os base (ma_mapped_bytes a))]))"

text \<open>The part of \<open>map\<close> after the aligned region is in place: advice, name, objects.\<close>

definition ma_finish :: "MapCalls \<Rightarrow> MappedArray \<Rightarrow> (MapError + MappedArray) \<times> MapEvent list" where
  "ma_finish os a =
     (let base = the (ma_mapping_base a); length0 = ma_mapped_bytes a
      in if mc_madvise os base length0 \<noteq> 0 then
           (Inl (MapSystemError (mc_madvise os base length0) ''MappedArray MADV_HUGEPAGE failed''), snd (ma_unmap os a))
         else if ma_mapping_name a \<noteq> None \<and> mc_prctl os base length0 \<noteq> 0 then
           (Inl (MapSystemError (mc_prctl os base length0) ''MappedArray VMA naming failed''), snd (ma_unmap os a))
         else (Inr (a\<lparr>ma_data := Some base\<rparr>), []))"

definition ma_map :: "MapCalls \<Rightarrow> MappedArray \<Rightarrow> (MapError + MappedArray) \<times> MapEvent list" where
  "ma_map os a =
     (if ma_logical_bytes a = 0 then (Inr a, [])
      else case roundUp (ma_logical_bytes a) (ma_alignment a) of Inl e \<Rightarrow> (Inl e, [])
      | Inr mapped_bytes \<Rightarrow>
      if mapped_bytes > u64_max - ma_alignment a then
        (Inl (MapLengthError ''MappedArray aligned mapping size overflows''), [])
      else
      let requested_bytes = mapped_bytes + ma_alignment a
      in case mc_mmap os requested_bytes of None \<Rightarrow> (Inl BadAlloc, [])
      | Some raw \<Rightarrow>
      let aligned = roundUpAddress raw (ma_alignment a);
          prefix = aligned - raw;
          suffix = requested_bytes - prefix - mapped_bytes;
          prefix_result = mc_munmap os raw prefix;
          mapped_event = Mapped raw requested_bytes;
          prefix_events = (if prefix \<noteq> 0 then [Unmapped raw prefix prefix_result] else [])
      in if prefix \<noteq> 0 \<and> prefix_result \<noteq> 0 then
           (Inl (MapSystemError prefix_result ''MappedArray prefix munmap failed''),
            mapped_event # prefix_events @ [Unmapped raw requested_bytes (mc_munmap os raw requested_bytes)])
         else
      let suffix_result = mc_munmap os (aligned + mapped_bytes) suffix;
          suffix_events = (if suffix \<noteq> 0 then [Unmapped (aligned + mapped_bytes) suffix suffix_result] else [])
      in if suffix \<noteq> 0 \<and> suffix_result \<noteq> 0 then
           (Inl (MapSystemError suffix_result ''MappedArray suffix munmap failed''),
            mapped_event # prefix_events @ suffix_events @
              [Unmapped aligned (mapped_bytes + suffix) (mc_munmap os aligned (mapped_bytes + suffix))])
         else
      let (result, events) = ma_finish os (a\<lparr>ma_mapped_bytes := mapped_bytes, ma_mapping_base := Some aligned\<rparr>)
      in (result, mapped_event # prefix_events @ suffix_events @ events))"

definition newMappedArray ::
    "MapCalls \<Rightarrow> u64 \<Rightarrow> u64 \<Rightarrow> u64 \<Rightarrow> u64 \<Rightarrow> string option \<Rightarrow> (MapError + MappedArray) \<times> MapEvent list" where
  "newMappedArray os element_bytes element_alignment count0 requested_alignment mapping_name =
     (case ma_checkedBytes element_bytes count0 of Inl e \<Rightarrow> (Inl e, [])
      | Inr logical_bytes \<Rightarrow>
          (case normalizeAlignment os element_alignment requested_alignment of Inl e \<Rightarrow> (Inl e, [])
           | Inr alignment \<Rightarrow>
               ma_map os \<lparr>ma_count = count0, ma_logical_bytes = logical_bytes, ma_mapped_bytes = 0,
                          ma_alignment = alignment, ma_mapping_name = mapping_name, ma_mapping_base = None,
                          ma_data = None\<rparr>))"

text \<open>Moving: the target takes over the mapping and the source is left empty. An assignment is one between different
  arrays; the sources leave an array assigned to itself alone.\<close>

definition ma_empty :: MappedArray where
  "ma_empty = \<lparr>ma_count = 0, ma_logical_bytes = 0, ma_mapped_bytes = 0, ma_alignment = 0, ma_mapping_name = None,
     ma_mapping_base = None, ma_data = None\<rparr>"

definition moveFrom :: "MappedArray \<Rightarrow> MappedArray \<times> MappedArray" where
  "moveFrom other = (other, ma_empty)"

definition moveAssign :: "MapCalls \<Rightarrow> MappedArray \<Rightarrow> MappedArray \<Rightarrow> (MappedArray \<times> MappedArray) \<times> MapEvent list" where
  "moveAssign os this0 other = (moveFrom other, snd (ma_unmap os this0))"

text \<open>The address of an element.\<close>

definition ma_element :: "u64 \<Rightarrow> MappedArray \<Rightarrow> u64 \<Rightarrow> u64 option" where
  "ma_element element_bytes a index = (case ma_data a of None \<Rightarrow> None | Some base \<Rightarrow> Some (base + index * element_bytes))"

text \<open>The offsets that prefaulting touches: one in every page of the range, and its last byte. The loop of the sources has no
  bound of its own; \<open>None\<close> is a loop that does not end.\<close>

partial_function (option) prefault_loop :: "u64 \<Rightarrow> u64 \<Rightarrow> u64 \<Rightarrow> u64 list option" where
  "prefault_loop page_size offset end0 =
     (if offset < end0 then
        Option.bind (prefault_loop page_size (offset + page_size) end0) (\<lambda>touched. Some (offset # touched))
      else Some [])"

definition prefaultBytes :: "MapCalls \<Rightarrow> MappedArray \<Rightarrow> u64 \<Rightarrow> u64 \<Rightarrow> u64 list option" where
  "prefaultBytes os a first_byte byte_count =
     (if ma_mapping_base a = None \<or> byte_count = 0 then Some []
      else
        let page_size = word_of_int (mc_page_size os);
            end0 = first_byte + byte_count
        in map_option (\<lambda>touched. touched @ [end0 - 1])
             (prefault_loop page_size (first_byte - first_byte mod page_size) end0))"

definition ma_prefault :: "MapCalls \<Rightarrow> MappedArray \<Rightarrow> u64 list option" where
  "ma_prefault os a = prefaultBytes os a 0 (ma_mapped_bytes a)"

definition ma_prefaultRange :: "MapCalls \<Rightarrow> u64 \<Rightarrow> MappedArray \<Rightarrow> u64 \<Rightarrow> u64 \<Rightarrow> u64 list option" where
  "ma_prefaultRange os element_bytes a first_element element_count =
     (if first_element \<ge> ma_count a \<or> element_count = 0 then Some []
      else
        let available = ma_count a - first_element;
            n = (if element_count > available then available else element_count)
        in prefaultBytes os a (first_element * element_bytes) (n * element_bytes))"

section \<open>MappedObjectArray\<close>

text \<open>Objects with constructors in a mapping of bytes. A constructor that throws destroys the storage member, which
  gives the memory back. A successful one returns with the array the offsets it prefaulted. The destructor destroys
  the objects from the last to the first, then the storage.\<close>

record MappedObjectArray =
  mo_storage :: MappedArray
  mo_count :: u64
  mo_data :: "u64 option"
  mo_constructed :: u64

definition mo_checkedBytes :: "u64 \<Rightarrow> u64 \<Rightarrow> MapError + u64" where
  "mo_checkedBytes element_bytes count0 =
     (if count0 > u64_max div element_bytes then Inl (MapLengthError ''MappedObjectArray byte size overflows size_t'')
      else Inr (count0 * element_bytes))"

definition newMappedObjectArray ::
    "MapCalls \<Rightarrow> u64 \<Rightarrow> u64 \<Rightarrow> u64 \<Rightarrow> u64 \<Rightarrow> string option \<Rightarrow> bool \<Rightarrow>
     (MapError + MappedObjectArray \<times> u64 list option) \<times> MapEvent list" where
  "newMappedObjectArray os element_bytes element_alignment count0 requested_alignment mapping_name prefault =
     (case mo_checkedBytes element_bytes count0 of Inl e \<Rightarrow> (Inl e, [])
      | Inr bytes \<Rightarrow>
          (case newMappedArray os 1 1 bytes requested_alignment mapping_name of (Inl e, events) \<Rightarrow> (Inl e, events)
           | (Inr storage, events) \<Rightarrow>
               if ma_alignment storage mod element_alignment \<noteq> 0 then
                 (Inl (MapInvalidArgument ''MappedObjectArray mapping does not satisfy element alignment''),
                  events @ snd (ma_unmap os storage))
               else
                 (Inr (\<lparr>mo_storage = storage, mo_count = count0,
                        mo_data = (if count0 \<noteq> 0 then ma_data storage else None), mo_constructed = count0\<rparr>,
                       if prefault then ma_prefault os storage else Some []), events)))"

text \<open>The indices of the objects in the order of their destruction.\<close>

definition destroyConstructed :: "MappedObjectArray \<Rightarrow> nat list" where
  "destroyConstructed a = rev [0..<unat (mo_constructed a)]"

definition mo_destroy :: "MapCalls \<Rightarrow> MappedObjectArray \<Rightarrow> nat list \<times> MapEvent list" where
  "mo_destroy os a = (destroyConstructed a, snd (ma_unmap os (mo_storage a)))"

section \<open>FixedMmapArray\<close>

text \<open>The plain variant, which ends the program (\<open>None\<close>) where the other throws.\<close>

record FixedMmapArray =
  fm_count :: u64
  fm_bytes :: u64
  fm_data :: "u64 option"

definition newFixedMmapArray :: "MapCalls \<Rightarrow> u64 \<Rightarrow> u64 \<Rightarrow> u64 \<Rightarrow> (FixedMmapArray \<times> MapEvent list) option" where
  "newFixedMmapArray os element_bytes element_alignment count0 =
     (if count0 > u64_max div element_bytes then None
      else
        let bytes = count0 * element_bytes
        in if bytes = 0 then Some (\<lparr>fm_count = count0, fm_bytes = bytes, fm_data = None\<rparr>, [])
           else case mc_mmap os bytes of None \<Rightarrow> None
           | Some mapping \<Rightarrow>
               if mapping mod element_alignment \<noteq> 0 then None
               else Some (\<lparr>fm_count = count0, fm_bytes = bytes, fm_data = Some mapping\<rparr>, [Mapped mapping bytes]))"

definition fm_unmap :: "MapCalls \<Rightarrow> FixedMmapArray \<Rightarrow> FixedMmapArray \<times> MapEvent list" where
  "fm_unmap os a =
     (case fm_data a of None \<Rightarrow> (a, [])
      | Some mapping \<Rightarrow> (a\<lparr>fm_data := None\<rparr>, [Unmapped mapping (fm_bytes a) (mc_munmap os mapping (fm_bytes a))]))"

definition fm_moveFrom :: "FixedMmapArray \<Rightarrow> FixedMmapArray \<times> FixedMmapArray" where
  "fm_moveFrom other = (other, \<lparr>fm_count = 0, fm_bytes = 0, fm_data = None\<rparr>)"

definition fm_moveAssign ::
    "MapCalls \<Rightarrow> FixedMmapArray \<Rightarrow> FixedMmapArray \<Rightarrow> (FixedMmapArray \<times> FixedMmapArray) \<times> MapEvent list" where
  "fm_moveAssign os this0 other = (fm_moveFrom other, snd (fm_unmap os this0))"

end
