(* ===== verification/MappedArrayCorrect.thy ===== *)
theory MappedArrayCorrect
  imports MappedArray BookManagerCorrect
begin

text \<open>
  The arenas against a model of the address space: the set of mapped addresses after a sequence of calls. A
  constructed array owns exactly one aligned region, of the size the storage plan foresaw; a failed construction
  and a destruction end with a call that gives back everything that is still mapped; and no call gives back an address that is not mapped.
\<close>

section \<open>The address space\<close>

definition region :: "u64 \<Rightarrow> u64 \<Rightarrow> nat set" where
  "region a n = {unat a ..< unat a + unat n}"

fun mapped_space :: "nat set \<Rightarrow> MapEvent list \<Rightarrow> nat set" where
  "mapped_space S [] = S"
| "mapped_space S (Mapped a n # es) = mapped_space (S \<union> region a n) es"
| "mapped_space S (Unmapped a n result # es) = mapped_space (if result = 0 then S - region a n else S) es"

text \<open>Only mapped memory is given back.\<close>

fun owns_unmapped :: "nat set \<Rightarrow> MapEvent list \<Rightarrow> bool" where
  "owns_unmapped S [] = True"
| "owns_unmapped S (Mapped a n # es) = owns_unmapped (S \<union> region a n) es"
| "owns_unmapped S (Unmapped a n result # es) =
     (region a n \<subseteq> S \<and> owns_unmapped (if result = 0 then S - region a n else S) es)"

text \<open>What \<open>mmap\<close> documents: a mapping lies in the address space.\<close>

definition maps_fit :: "MapCalls \<Rightarrow> bool" where
  "maps_fit os = (\<forall>n raw. mc_mmap os n = Some raw \<longrightarrow> unat raw + unat n \<le> 2 ^ 64)"

text \<open>After the calls nothing is mapped, or else the last call asked for exactly what is still mapped and failed.\<close>

definition given_back :: "MapEvent list \<Rightarrow> bool" where
  "given_back ev \<longleftrightarrow> mapped_space {} ev = {} \<or>
     (\<exists>ev0 a n result. ev = ev0 @ [Unmapped a n result] \<and> result \<noteq> 0 \<and> mapped_space {} ev0 = region a n)"

lemma mapped_space_append: "mapped_space S (xs @ ys) = mapped_space (mapped_space S xs) ys"
  by (induction S xs rule: mapped_space.induct) simp_all

lemma given_back_nothing [simp]: "given_back []"
  by (simp add: given_back_def)

lemma given_backI: "mapped_space {} ev0 = region a n \<Longrightarrow> given_back (ev0 @ [Unmapped a n result])"
  by (cases "result = 0") (auto simp: given_back_def mapped_space_append)

section \<open>The aligned region\<close>

lemma u64_room: "x \<le> u64_max - y \<longleftrightarrow> unat x + unat (y :: u64) < 2 ^ 64"
  using unat_sub [of y u64_max] unsigned_less [of y, where 'a=nat] by (auto simp: word_le_nat_alt)

text \<open>The numbers of \<open>map\<close>: the aligned address, what lies before it and what lies after the region.\<close>

lemma aligned_parts:
  assumes a: "isPowerOfTwo a" and fits: "unat m + unat a < 2 ^ 64" "0 < unat m"
    and raw: "unat raw + unat (m + a) \<le> 2 ^ 64"
  defines "al \<equiv> roundUpAddress raw a"
  shows "unat (m + a) = unat m + unat a" "unat a dvd unat al" "unat raw \<le> unat al" "unat al < unat raw + unat a"
    "unat (al - raw) = unat al - unat raw" "unat (m + a - (al - raw) - m) = unat raw + unat a - unat al"
    "unat al + unat m < 2 ^ 64" "unat (al + m) = unat al + unat m"
proof -
  have "a \<noteq> 0" using a by (simp add: isPowerOfTwo_def)
  then have a0: "0 < unat a" by (simp add: unat_gt_0)
  show ma: "unat (m + a) = unat m + unat a" using fits by (simp add: unat_word_ariths)
  have "unat (a - 1) = unat a - 1" using \<open>a \<noteq> 0\<close> by (simp add: unat_minus_one)
  then have "\<not> raw > u64_max - (a - 1)"
    using raw ma fits(2) a0 u64_room [of raw "a - 1"] by (simp add: not_less)
  note r = round_up [OF a this, folded roundUpAddress_def, folded al_def]
  show "unat a dvd unat al" "unat raw \<le> unat al" "unat al < unat raw + unat a" using r by simp_all
  show p: "unat (al - raw) = unat al - unat raw" using r(2) by (simp add: unat_sub word_le_nat_alt)
  have parts: "m + a - (al - raw) - m = a - (al - raw)" by simp
  have "al - raw \<le> a" using r p by (simp add: word_le_nat_alt)
  then have "unat (a - (al - raw)) = unat a - unat (al - raw)" by (rule unat_sub)
  then show "unat (m + a - (al - raw) - m) = unat raw + unat a - unat al"
    using p r unfolding parts by linarith
  show "unat al + unat m < 2 ^ 64" using r(3) raw ma by simp
  then show "unat (al + m) = unat al + unat m" by (simp add: unat_word_ariths)
qed

lemma trimmed_regions:
  assumes "isPowerOfTwo a" "unat m + unat a < 2 ^ 64" "0 < unat m" "unat raw + unat (m + a) \<le> 2 ^ 64"
  defines "al \<equiv> roundUpAddress raw a"
  shows "region raw (al - raw) \<subseteq> region raw (m + a)"
    "region (al + m) (m + a - (al - raw) - m) \<subseteq> region raw (m + a) - region raw (al - raw)"
    "region raw (m + a) - region raw (al - raw) = region al (m + (m + a - (al - raw) - m))"
    "region raw (m + a) - region raw (al - raw) - region (al + m) (m + a - (al - raw) - m) = region al m"
    "m + a - (al - raw) - m \<noteq> 0"
proof -
  note p = aligned_parts [OF assms(1-4), folded al_def]
  have s: "unat (m + (m + a - (al - raw) - m)) = unat m + (unat raw + unat a - unat al)"
    using p assms(2) by (subst unat_add_lem [THEN iffD1]) auto
  show "region raw (al - raw) \<subseteq> region raw (m + a)"
    using p by (auto simp: region_def)
  show "region (al + m) (m + a - (al - raw) - m) \<subseteq> region raw (m + a) - region raw (al - raw)"
    unfolding region_def p using p(3,4) by auto
  show "region raw (m + a) - region raw (al - raw) = region al (m + (m + a - (al - raw) - m))"
    unfolding region_def p s using p(3,4) by auto
  show "region raw (m + a) - region raw (al - raw) - region (al + m) (m + a - (al - raw) - m) = region al m"
    unfolding region_def p using p(3,4) by auto
  show "m + a - (al - raw) - m \<noteq> 0" using p(4,6) by (metis unat_0 zero_less_diff less_irrefl)
qed

section \<open>Construction\<close>

lemma map_finish_outcome:
  assumes "ma_mapping_base a = Some base" "ma_finish os a = (r, ev)"
  shows "(case r of Inl _ \<Rightarrow> ev = [Unmapped base (ma_mapped_bytes a) (mc_munmap os base (ma_mapped_bytes a))]
          | Inr b \<Rightarrow> ev = [] \<and> b = a\<lparr>ma_data := Some base\<rparr>)"
  using assms by (auto simp: ma_finish_def ma_unmap_def Let_def split: if_splits)

definition array_owns :: "MappedArray \<Rightarrow> nat set \<Rightarrow> bool" where
  "array_owns a S =
     (case ma_mapping_base a of None \<Rightarrow> S = {} \<and> ma_data a = None \<and> ma_logical_bytes a = 0
      | Some base \<Rightarrow> ma_data a = Some base \<and> S = region base (ma_mapped_bytes a) \<and> unat (ma_alignment a) dvd unat base \<and>
          unat base + unat (ma_mapped_bytes a) < 2 ^ 64 \<and> region_ok (unat (ma_alignment a)) (unat (ma_logical_bytes a)) (ma_mapped_bytes a))"

lemma map_outcome:
  assumes "isPowerOfTwo (ma_alignment a)" "maps_fit os" "ma_mapping_base a = None" "ma_data a = None" "ma_map os a = (r, ev)"
  shows "owns_unmapped {} ev \<and>
    (case r of Inl e \<Rightarrow> given_back ev
     | Inr b \<Rightarrow> array_owns b (mapped_space {} ev) \<and> ma_logical_bytes b = ma_logical_bytes a \<and> ma_alignment b = ma_alignment a \<and>
         ma_count b = ma_count a \<and>
         (ma_logical_bytes a = 0 \<and> b = a \<or>
          ma_logical_bytes a \<noteq> 0 \<and> roundUp (ma_logical_bytes a) (ma_alignment a) = Inr (ma_mapped_bytes b) \<and>
          \<not> ma_mapped_bytes b > u64_max - ma_alignment a))"
proof -
  let ?a = "ma_alignment a" and ?l = "ma_logical_bytes a"
  consider (zero) "?l = 0" | (long) e where "?l \<noteq> 0" "roundUp ?l ?a = Inl e"
    | (big) m where "?l \<noteq> 0" "roundUp ?l ?a = Inr m" "m > u64_max - ?a"
    | (none) m where "?l \<noteq> 0" "roundUp ?l ?a = Inr m" "\<not> m > u64_max - ?a" "mc_mmap os (m + ?a) = None"
    | (some) m raw where "?l \<noteq> 0" "roundUp ?l ?a = Inr m" "\<not> m > u64_max - ?a" "mc_mmap os (m + ?a) = Some raw"
    by (metis sumE option.exhaust)
  then show ?thesis
  proof cases
    case (some m raw)
    have m: "m = (?l + ?a - 1) AND NOT (?a - 1)" "\<not> ?l > u64_max - (?a - 1)"
      using some(2) by (auto simp: roundUp_def split: if_splits)
    note up = round_up [OF assms(1) m(2), folded m(1)]
    have "0 < unat ?l" using some(1) by (simp add: unat_gt_0)
    then have m0: "0 < unat m" using up(2) by linarith
    have ma: "unat m + unat ?a < 2 ^ 64" using some(3) by (simp add: not_less u64_room)
    have raw: "unat raw + unat (m + ?a) \<le> 2 ^ 64" using assms(2) some(4) by (simp add: maps_fit_def)
    note p = aligned_parts [OF assms(1) ma m0 raw]
    note q = trimmed_regions [OF assms(1) ma m0 raw]
    define al where "al = roundUpAddress raw ?a"
    define pre where "pre = al - raw"
    define post where "post = m + ?a - pre - m"
    note defs = al_def [symmetric] pre_def [symmetric] post_def [symmetric]
    define pre_ev where "pre_ev = (if pre \<noteq> 0 then [Unmapped raw pre (mc_munmap os raw pre)] else [])"
    define post_ev where "post_ev = Unmapped (al + m) post (mc_munmap os (al + m) post)"
    define S where "S = region raw (m + ?a)"
    have R: "region raw pre \<subseteq> S" "region (al + m) post \<subseteq> S - region raw pre" "S - region raw pre = region al (m + post)"
      "S - region raw pre - region (al + m) post = region al m" "post \<noteq> 0" "region raw 0 = {}"
      using q unfolding defs S_def [symmetric] by (simp_all add: region_def)
    have P: "unat ?a dvd unat al" "unat al + unat m < 2 ^ 64" using p unfolding defs by simp_all
    have mapped: "ma_map os a =
      (if pre \<noteq> 0 \<and> mc_munmap os raw pre \<noteq> 0 then
         (Inl (MapSystemError (mc_munmap os raw pre) ''MappedArray prefix munmap failed''),
          Mapped raw (m + ?a) # pre_ev @ [Unmapped raw (m + ?a) (mc_munmap os raw (m + ?a))])
       else if mc_munmap os (al + m) post \<noteq> 0 then
         (Inl (MapSystemError (mc_munmap os (al + m) post) ''MappedArray suffix munmap failed''),
          Mapped raw (m + ?a) # pre_ev @ [post_ev] @ [Unmapped al (m + post) (mc_munmap os al (m + post))])
       else let (result, events) = ma_finish os (a\<lparr>ma_mapped_bytes := m, ma_mapping_base := Some al\<rparr>)
            in (result, Mapped raw (m + ?a) # pre_ev @ [post_ev] @ events))"
      by (simp only: ma_map_def Let_def some sum.case option.case if_False if_True defs pre_ev_def post_ev_def R(5)
            not_False_eq_True simp_thms append_Cons append_Nil)
    have pre_ok: "mapped_space S (pre_ev @ es) = mapped_space (S - region raw pre) es \<and>
        owns_unmapped S (pre_ev @ es) = owns_unmapped (S - region raw pre) es"
      if "\<not> (pre \<noteq> 0 \<and> mc_munmap os raw pre \<noteq> 0)" for es
      using that R(1,6) by (auto simp: pre_ev_def)
    consider (prefix) "pre \<noteq> 0 \<and> mc_munmap os raw pre \<noteq> 0"
      | (suffix) "\<not> (pre \<noteq> 0 \<and> mc_munmap os raw pre \<noteq> 0)" "mc_munmap os (al + m) post \<noteq> 0"
      | (trimmed) "\<not> (pre \<noteq> 0 \<and> mc_munmap os raw pre \<noteq> 0)" "mc_munmap os (al + m) post = 0" by blast
    then show ?thesis
    proof cases
      case prefix
      then have e: "ev = (Mapped raw (m + ?a) # pre_ev) @ [Unmapped raw (m + ?a) (mc_munmap os raw (m + ?a))]" "\<exists>x. r = Inl x"
        using assms(5) unfolding mapped by auto
      have "mapped_space {} (Mapped raw (m + ?a) # pre_ev) = region raw (m + ?a)" using prefix by (simp add: pre_ev_def)
      then have "given_back ev" unfolding e(1) by (rule given_backI)
      moreover have "owns_unmapped {} ev" using e(1) prefix R(1) by (simp add: pre_ev_def S_def [symmetric])
      ultimately show ?thesis using e(2) by auto
    next
      case suffix
      then have e: "ev = (Mapped raw (m + ?a) # pre_ev @ [post_ev]) @ [Unmapped al (m + post) (mc_munmap os al (m + post))]"
        "\<exists>x. r = Inl x" using assms(5) unfolding mapped by auto
      have "mapped_space {} (Mapped raw (m + ?a) # pre_ev @ [post_ev]) = region al (m + post)"
        using R(3) suffix(2) pre_ok [OF suffix(1), of "[post_ev]"] by (simp add: S_def [symmetric] post_ev_def)
      then have "given_back ev" unfolding e(1) by (rule given_backI)
      moreover have "owns_unmapped {} ev"
        using R(2,3) suffix(2) pre_ok [OF suffix(1), of "[post_ev, Unmapped al (m + post) (mc_munmap os al (m + post))]"]
        unfolding e(1) by (simp add: S_def [symmetric] post_ev_def)
      ultimately show ?thesis using e(2) by auto
    next
      case trimmed
      define b where "b = a\<lparr>ma_mapped_bytes := m, ma_mapping_base := Some al\<rparr>"
      obtain r1 ev1 where f: "ma_finish os b = (r1, ev1)" by (cases "ma_finish os b")
      have re: "r = r1" "ev = Mapped raw (m + ?a) # pre_ev @ post_ev # ev1"
        using assms(5) trimmed f unfolding mapped b_def [symmetric] by auto
      have sp: "mapped_space {} ev = mapped_space (region al m) ev1" "owns_unmapped {} ev = owns_unmapped (region al m) ev1"
        using pre_ok [OF trimmed(1), of "post_ev # ev1"] R(2,4) trimmed(2)
        by (simp_all add: re(2) S_def [symmetric] post_ev_def)
      have base: "ma_mapping_base b = Some al" "ma_mapped_bytes b = m" by (simp_all add: b_def)
      show ?thesis
      proof (cases r)
        case (Inl e)
        then have ev1: "ev1 = [Unmapped al m (mc_munmap os al m)]" using map_finish_outcome [OF base(1) f] base(2) by (simp add: re(1))
        have "mapped_space {} (Mapped raw (m + ?a) # pre_ev @ [post_ev]) = region al m"
          using pre_ok [OF trimmed(1), of "[post_ev]"] R(4) trimmed(2) by (simp add: S_def [symmetric] post_ev_def)
        from given_backI [OF this] have "given_back ev" unfolding re(2) ev1 by simp
        then show ?thesis using Inl sp(2) by (simp add: ev1)
      next
        case (Inr c)
        then have "ev1 = []" "c = b\<lparr>ma_data := Some al\<rparr>" using map_finish_outcome [OF base(1) f] by (auto simp: re(1))
        then show ?thesis using Inr sp P up some(1-3) by (simp add: b_def array_owns_def region_ok_def)
      qed
    qed
  qed (use assms in \<open>auto simp: ma_map_def array_owns_def\<close>)
qed

text \<open>The two guards against a product that does not fit agree.\<close>

lemma checked_bytes_agree:
  assumes "e \<noteq> 0" "ma_checkedBytes e n = Inr l"
  shows "checkedMultiply n e = Inr l" "unat l = unat n * unat e"
proof -
  have l: "l = n * e" "unat n \<le> unat (u64_max :: u64) div unat e"
    using assms(2) by (auto simp: ma_checkedBytes_def not_less word_le_nat_alt unat_div split: if_splits)
  have "0 < unat e" using assms(1) by (simp add: unat_gt_0)
  then have p: "unat n * unat e \<le> unat (u64_max :: u64)"
    using l(2) by (simp add: less_eq_div_iff_mult_less_eq)
  then have "n \<noteq> 0 \<Longrightarrow> unat e \<le> unat (u64_max :: u64) div unat n"
    by (simp add: less_eq_div_iff_mult_less_eq unat_gt_0 mult.commute)
  then show "checkedMultiply n e = Inr l"
    using l(1) by (auto simp: checkedMultiply_def word_less_nat_alt unat_div)
  show "unat l = unat n * unat e" using p l(1) by (simp add: unat_word_ariths)
qed

lemma plan_of_alignment:
  assumes "normalizeAlignment os ea ra = Inr al" "checkedMultiply n e = Inr l"
  shows "mappedBytes n e ea ra (word_of_int (mc_page_size os)) =
    (if l = 0 then Inr 0
     else if l > u64_max - (al - 1) then Inl (LengthError ''book storage rounded size overflows size_t'')
     else if (l + al - 1) AND NOT (al - 1) > u64_max - al then
       Inl (LengthError ''book aligned mapping size overflows size_t'')
     else Inr ((l + al - 1) AND NOT (al - 1)))"
proof -
  define pg :: u64 where "pg = word_of_int (mc_page_size os)"
  define b where "b = (let a0 = (if ra = 0 then pg else ra); a1 = (if a0 < pg then pg else a0) in if a1 < ea then ea else a1)"
  have "\<not> (\<not> isPowerOfTwo b \<or> b mod pg \<noteq> 0)" "al = b"
    using assms(1) unfolding normalizeAlignment_def systemPageSize_def b_def Let_def pg_def [symmetric]
    by (simp_all only: sum.case split: if_splits) simp_all
  then show ?thesis
    unfolding mappedBytes_def assms(2) ebind_def sum.case pg_def [symmetric] Let_def b_def by (simp only: if_False)
qed

lemma construction_outcome:
  assumes e: "e \<noteq> 0" and fit: "maps_fit os" and new: "newMappedArray os e ea n ra name = (r, ev)"
  shows "owns_unmapped {} ev \<and>
    (case r of Inl _ \<Rightarrow> given_back ev
     | Inr a \<Rightarrow> array_owns a (mapped_space {} ev) \<and> unat (ma_logical_bytes a) = unat n * unat e \<and> ma_count a = n \<and>
         mappedBytes n e ea ra (word_of_int (mc_page_size os)) = Inr (ma_mapped_bytes a))"
proof (cases "\<exists>l al. ma_checkedBytes e n = Inr l \<and> normalizeAlignment os ea ra = Inr al")
  case True
  then obtain l al where l: "ma_checkedBytes e n = Inr l" and al: "normalizeAlignment os ea ra = Inr al" by blast
  define a0 where "a0 = \<lparr>ma_count = n, ma_logical_bytes = l, ma_mapped_bytes = 0, ma_alignment = al,
    ma_mapping_name = name, ma_mapping_base = None, ma_data = None\<rparr>"
  have a0: "ma_count a0 = n" "ma_logical_bytes a0 = l" "ma_alignment a0 = al" "ma_mapping_base a0 = None" "ma_data a0 = None"
    "ma_mapped_bytes a0 = 0" by (simp_all add: a0_def)
  have m: "ma_map os a0 = (r, ev)" using new l al by (simp add: newMappedArray_def a0_def)
  have "isPowerOfTwo al" using al by (auto simp: normalizeAlignment_def Let_def split: if_splits sum.splits)
  then have pow: "isPowerOfTwo (ma_alignment a0)" by (simp only: a0)
  note out = map_outcome [OF pow fit a0(4,5) m, unfolded a0]
  have plan: "mappedBytes n e ea ra (word_of_int (mc_page_size os)) = Inr (ma_mapped_bytes b)"
    if "l = 0 \<and> b = a0 \<or> l \<noteq> 0 \<and> roundUp l al = Inr (ma_mapped_bytes b) \<and> \<not> ma_mapped_bytes b > u64_max - al" for b
    using that plan_of_alignment [OF al checked_bytes_agree(1) [OF e l]] a0(6)
    by (auto simp only: roundUp_def if_False if_True simp_thms sum.inject split: if_splits)
  show ?thesis
    using out plan checked_bytes_agree(2) [OF e l] by (cases r) auto
next
  case False
  then show ?thesis using new by (auto simp: newMappedArray_def split: sum.splits)
qed

text \<open>The address of every element lies in the region, on a multiple of the element's alignment.\<close>

lemma elements_inside:
  assumes own: "array_owns a S" and size: "unat (ma_logical_bytes a) = unat n * unat e" "0 < unat e" and i: "i < n"
  shows "\<exists>addr. ma_element e a i = Some addr \<and> region addr e \<subseteq> S \<and> (k dvd unat (ma_alignment a) \<and> k dvd unat e \<longrightarrow> k dvd unat addr)"
proof -
  have iu: "unat i < unat n" using i by (simp add: word_less_nat_alt)
  then have "ma_logical_bytes a \<noteq> 0" using size by (auto simp: unat_eq_0 [symmetric])
  then obtain base where b: "ma_mapping_base a = Some base" "ma_data a = Some base" "S = region base (ma_mapped_bytes a)"
      "unat (ma_alignment a) dvd unat base" "unat base + unat (ma_mapped_bytes a) < 2 ^ 64"
      "unat (ma_logical_bytes a) \<le> unat (ma_mapped_bytes a)"
    using own by (auto simp: array_owns_def region_ok_def split: option.splits)
  have "(unat i + 1) * unat e \<le> unat n * unat e" using iu by (intro mult_le_mono1) simp
  then have ie: "unat i * unat e + unat e \<le> unat (ma_mapped_bytes a)" using size b(6) by simp
  then have o1: "unat (i * e) = unat i * unat e" using b(5) by (simp add: unat_word_ariths)
  then have o2: "unat (base + i * e) = unat base + unat i * unat e"
    using b(5) ie size(2) by (simp add: unat_word_ariths(1))
  have "region (base + i * e) e \<subseteq> S" unfolding b(3) region_def o2 using ie by auto
  moreover have "k dvd unat (base + i * e)" if "k dvd unat (ma_alignment a)" "k dvd unat e"
    unfolding o2 using that b(4) by (auto intro: dvd_trans)
  ultimately show ?thesis using b(2) by (simp add: ma_element_def)
qed

text \<open>The destructor asks for exactly what the array owns.\<close>

lemma unmap_owned:
  assumes "array_owns a S"
  shows "owns_unmapped S (snd (ma_unmap os a))" "S = mapped_space {} ev \<Longrightarrow> given_back (ev @ snd (ma_unmap os a))"
proof -
  show "owns_unmapped S (snd (ma_unmap os a))" using assms by (auto simp: ma_unmap_def array_owns_def split: option.splits)
  show "given_back (ev @ snd (ma_unmap os a))" if "S = mapped_space {} ev"
  proof (cases "ma_mapping_base a")
    case None
    then show ?thesis using assms that by (simp add: ma_unmap_def array_owns_def given_back_def)
  next
    case (Some base)
    then show ?thesis using assms that given_backI [of ev base "ma_mapped_bytes a"] by (simp add: ma_unmap_def array_owns_def)
  qed
qed

text \<open>C29. An arena owns exactly its memory. Whatever the operating system answers, a construction gives back only memory it has
  mapped. When it succeeds, the memory left mapped is one region on the required alignment, of exactly the size
  the storage plan computed for it, and every element lies inside, on its own alignment. When it throws, at whatever step, also because giving
  back the part before or after the aligned region failed, then nothing stays mapped, unless its very last call, which asks for exactly what is then
  mapped, fails in turn; and the same holds after the destructor.\<close>
theorem mapped_array_sound:
  assumes "element_bytes \<noteq> 0" "maps_fit os"
    and "newMappedArray os element_bytes element_alignment n requested name = (r, ev)"
  shows "owns_unmapped {} ev \<and>
    (case r of
       Inl e \<Rightarrow> given_back ev
     | Inr a \<Rightarrow> array_owns a (mapped_space {} ev) \<and>
         mappedBytes n element_bytes element_alignment requested (word_of_int (mc_page_size os)) = Inr (ma_mapped_bytes a) \<and>
         (\<forall>i<n. \<exists>addr. ma_element element_bytes a i = Some addr \<and> region addr element_bytes \<subseteq> mapped_space {} ev \<and>
            (\<forall>k. k dvd unat (ma_alignment a) \<and> k dvd unat element_bytes \<longrightarrow> k dvd unat addr)) \<and>
         given_back (ev @ snd (ma_unmap os a)))"
proof (cases r)
  case (Inl e)
  then show ?thesis using construction_outcome [OF assms] by simp
next
  case (Inr a)
  then have c: "owns_unmapped {} ev" "array_owns a (mapped_space {} ev)" "unat (ma_logical_bytes a) = unat n * unat element_bytes"
    "mappedBytes n element_bytes element_alignment requested (word_of_int (mc_page_size os)) = Inr (ma_mapped_bytes a)"
    using construction_outcome [OF assms] by simp_all
  have "0 < unat element_bytes" using assms(1) by (simp add: unat_gt_0)
  then have elements: "\<exists>addr. ma_element element_bytes a i = Some addr \<and> region addr element_bytes \<subseteq> mapped_space {} ev \<and>
      (\<forall>k. k dvd unat (ma_alignment a) \<and> k dvd unat element_bytes \<longrightarrow> k dvd unat addr)" if "i < n" for i
    using elements_inside [OF c(2,3) _ that] by (metis option.inject)
  with Inr c elements unmap_owned(2) [OF c(2) refl] show ?thesis by simp
qed

definition demo_mapping :: MapCalls where
  "demo_mapping = \<lparr>mc_page_size = 4096, mc_mmap = (\<lambda>n. if n \<le> 0x1000000 then Some 0x10001000 else None),
     mc_munmap = (\<lambda>_ _. 0), mc_madvise = (\<lambda>_ _. 0), mc_prctl = (\<lambda>_ _. 0)\<rparr>"

lemma demo_mapping_fit: "maps_fit demo_mapping"
  by (auto simp: maps_fit_def demo_mapping_def word_le_nat_alt split: if_splits)

text \<open>An arena of ten 16-byte slots at a 2 MiB alignment, in a mapping that is not aligned.\<close>
theorem mapped_array_sound_witness:
  "\<exists>a ev. newMappedArray demo_mapping 16 16 10 0x200000 (Some ''orders'') = (Inr a, ev) \<and>
     mapped_space {} ev = region 0x10200000 0x200000 \<and> given_back (ev @ snd (ma_unmap demo_mapping a))"
proof -
  obtain r ev where n: "newMappedArray demo_mapping 16 16 10 0x200000 (Some ''orders'') = (r, ev)"
    by (cases "newMappedArray demo_mapping 16 16 10 0x200000 (Some ''orders'')")
  have "case newMappedArray demo_mapping 16 16 10 0x200000 (Some ''orders'') of (Inr a, _) \<Rightarrow>
      ma_mapping_base a = Some 0x10200000 \<and> ma_mapped_bytes a = 0x200000 | (Inl _, _) \<Rightarrow> False"
    by code_simp
  then obtain a where a: "r = Inr a" "ma_mapping_base a = Some 0x10200000" "ma_mapped_bytes a = 0x200000"
    unfolding n by (cases r) auto
  have "(16 :: u64) \<noteq> 0" by simp
  from mapped_array_sound [OF this demo_mapping_fit n] a n show ?thesis
    by (simp add: array_owns_def)
qed

section \<open>Prefaulting\<close>

text \<open>The loop ends and touches one byte in every page of the range.\<close>

lemma prefault_loop_touches:
  assumes "0 < unat p" "unat e + unat p \<le> 2 ^ 64"
  shows "\<exists>touched. prefault_loop p o1 e = Some touched \<and>
    unat ` set touched = {x. unat o1 \<le> x \<and> x < unat e \<and> unat p dvd (x - unat o1)}"
proof (induction "unat e - unat o1" arbitrary: o1 rule: less_induct)
  case less
  show ?case
  proof (cases "o1 < e")
    case True
    then have lt: "unat o1 < unat e" by (simp add: word_less_nat_alt)
    then have next0: "unat (o1 + p) = unat o1 + unat p" using assms(2) by (simp add: unat_word_ariths)
    have smaller: "unat e - unat (o1 + p) < unat e - unat o1" using lt assms(1) unfolding next0 by linarith
    obtain ts where ts: "prefault_loop p (o1 + p) e = Some ts"
        "unat ` set ts = {x. unat o1 + unat p \<le> x \<and> x < unat e \<and> unat p dvd (x - (unat o1 + unat p))}"
      using less [OF smaller] unfolding next0 by blast
    have step: "unat o1 + unat p \<le> x \<and> unat p dvd (x - (unat o1 + unat p)) \<longleftrightarrow> unat o1 < x \<and> unat p dvd (x - unat o1)" for x
    proof (cases "unat o1 + unat p \<le> x")
      case True
      then have "x - unat o1 = (x - (unat o1 + unat p)) + unat p" by simp
      then have "unat p dvd x - unat o1 \<longleftrightarrow> unat p dvd x - (unat o1 + unat p)" by (simp only: dvd_add_triv_right_iff)
      then show ?thesis using True assms(1) by linarith
    next
      case False
      then show ?thesis using nat_dvd_not_less [of "x - unat o1" "unat p"] by auto
    qed
    have tail: "unat ` set ts = {x. unat o1 < x \<and> x < unat e \<and> unat p dvd (x - unat o1)}"
      unfolding ts(2) using step by blast
    have "unat ` set (o1 # ts) = {x. unat o1 \<le> x \<and> x < unat e \<and> unat p dvd (x - unat o1)}"
      unfolding list.set image_insert tail using lt by (auto simp: le_less)
    then show ?thesis using True ts(1) by (simp add: prefault_loop.simps [of p o1])
  next
    case False
    then have "unat e \<le> unat o1" by (simp add: word_less_nat_alt)
    then show ?thesis using False by (auto simp: prefault_loop.simps [of p o1])
  qed
qed

text \<open>Prefaulting an arena returns, stays inside the mapping, and touches every page of it.\<close>

lemma prefault_covers:
  assumes base: "ma_mapping_base a = Some base" and pg: "pg = (word_of_int (mc_page_size os) :: u64)" "0 < unat pg"
    and room: "0 < unat (ma_mapped_bytes a)" "unat (ma_mapped_bytes a) + unat pg \<le> 2 ^ 64"
  shows "\<exists>touched. ma_prefault os a = Some touched \<and> (\<forall>t\<in>set touched. t < ma_mapped_bytes a) \<and>
    (\<forall>x<unat (ma_mapped_bytes a). \<exists>t\<in>set touched. unat t div unat pg = x div unat pg)"
proof -
  let ?m = "ma_mapped_bytes a"
  obtain ts where ts: "prefault_loop pg 0 ?m = Some ts" "unat ` set ts = {x. x < unat ?m \<and> unat pg dvd x}"
    using prefault_loop_touches [OF pg(2) room(2), of 0] by auto
  have "?m \<noteq> 0" using room(1) by auto
  then have run: "ma_prefault os a = Some (ts @ [?m - 1])"
    using ts(1) base by (simp add: ma_prefault_def prefaultBytes_def pg(1) [symmetric])
  have inside: "t < ?m" if "t \<in> set (ts @ [?m - 1])" for t
  proof -
    have "unat (?m - 1) < unat ?m" using \<open>?m \<noteq> 0\<close> room(1) by (simp add: unat_minus_one)
    then show ?thesis using that ts(2) by (auto simp: word_less_nat_alt)
  qed
  have "\<exists>t\<in>set (ts @ [?m - 1]). unat t div unat pg = x div unat pg" if "x < unat ?m" for x
  proof -
    have "x div unat pg * unat pg < unat ?m"
      using that by (rule le_less_trans [OF div_times_less_eq_dividend])
    then have "x div unat pg * unat pg \<in> unat ` set ts" unfolding ts(2) by simp
    then obtain t where "t \<in> set ts" "unat t = x div unat pg * unat pg" by auto
    then show ?thesis using pg(2) by (intro bexI [of _ t]) simp_all
  qed
  then show ?thesis using run inside by blast
qed

section \<open>Arrays of objects\<close>

lemma owns_unmapped_append: "owns_unmapped S (xs @ ys) \<longleftrightarrow> owns_unmapped S xs \<and> owns_unmapped (mapped_space S xs) ys"
  by (induction S xs rule: mapped_space.induct) simp_all

text \<open>An array of objects owns the memory of its bytes, or has given it back when the alignment does not fit.\<close>

lemma object_array_outcome:
  assumes fit: "maps_fit os" and new: "newMappedObjectArray os e ea n ra name prefault = (r, ev)" and "e \<noteq> 0"
  shows "owns_unmapped {} ev \<and>
    (case r of Inl _ \<Rightarrow> given_back ev
     | Inr (b, touched) \<Rightarrow> array_owns (mo_storage b) (mapped_space {} ev) \<and> unat (ma_logical_bytes (mo_storage b)) = unat n * unat e \<and>
         ma_alignment (mo_storage b) mod ea = 0 \<and> mo_count b = n \<and> length (fst (mo_destroy os b)) = unat n \<and>
         given_back (ev @ snd (mo_destroy os b)))"
proof (cases "mo_checkedBytes e n")
  case (Inl x)
  then show ?thesis using new by (simp add: newMappedObjectArray_def) auto
next
  case (Inr l)
  then have "ma_checkedBytes e n = Inr l" by (auto simp: mo_checkedBytes_def ma_checkedBytes_def split: if_splits)
  note l = checked_bytes_agree(2) [OF \<open>e \<noteq> 0\<close> this]
  obtain s es where s: "newMappedArray os 1 1 l ra name = (s, es)" by (cases "newMappedArray os 1 1 l ra name")
  have c: "owns_unmapped {} es \<and>
    (case s of Inl _ \<Rightarrow> given_back es
     | Inr a \<Rightarrow> array_owns a (mapped_space {} es) \<and> unat (ma_logical_bytes a) = unat l * unat (1 :: u64) \<and> ma_count a = l \<and>
         mappedBytes l 1 1 ra (word_of_int (mc_page_size os)) = Inr (ma_mapped_bytes a))"
    by (rule construction_outcome [OF one_neq_zero fit s])
  show ?thesis
  proof (cases s)
    case inl: (Inl x)
    then show ?thesis using c new s Inr by (simp add: newMappedObjectArray_def) auto
  next
    case inr: (Inr a)
    then have a: "owns_unmapped {} es" "array_owns a (mapped_space {} es)" "unat (ma_logical_bytes a) = unat n * unat e"
      using c l by simp_all
    note split0 = new [unfolded newMappedObjectArray_def Inr s inr sum.case prod.case]
    show ?thesis
    proof (cases "ma_alignment a mod ea = 0")
      case True
      then have "ev = es" "r = Inr (\<lparr>mo_storage = a, mo_count = n,
          mo_data = (if n \<noteq> 0 then ma_data a else None), mo_constructed = n\<rparr>, if prefault then ma_prefault os a else Some [])"
        using split0 by simp_all
      then show ?thesis using a True unmap_owned(2) [OF a(2) refl]
        by (simp add: mo_destroy_def destroyConstructed_def)
    next
      case False
      then have "ev = es @ snd (ma_unmap os a)" "\<exists>x. r = Inl x" using split0 by auto
      then show ?thesis using a unmap_owned(1) [OF a(2)] unmap_owned(2) [OF a(2) refl] by (auto simp: owns_unmapped_append)
    qed
  qed
qed

end
