(* ===== verification/LatencyPercentile.thy ===== *)
theory LatencyPercentile
  imports LatencyRecorder Complex_Main
begin

text \<open>
  The rest of \<open>LatencyRecorder.cpp\<close>, percentiles and snapshots, and what they mean: the recorder keeps a histogram,
  and the value it reports for a rank is the upper bound of the bucket that holds the sample of that rank.

  The arithmetic in \<open>long double\<close> is a parameter, \<open>FloatOps\<close>: the rank of a percentile of a count, that is the
  rounded-up product, and the quotient for the mean. The text of a report is output only.
\<close>

record FloatOps =
  fo_rank :: "u64 \<Rightarrow> real \<Rightarrow> u64"
  fo_ratio :: "u64 \<Rightarrow> u64 \<Rightarrow> real"

definition percentile :: "FloatOps \<Rightarrow> LatencyRecorder \<Rightarrow> real \<Rightarrow> u64" where
  "percentile fo l p =
     (if lr_count l = 0 then 0
      else if p \<le> 0 then lr_min_ns l
      else if p \<ge> 100 then lr_max_ns l
      else valueAtRank l (max (fo_rank fo (lr_count l) p) 1))"

record Snapshot =
  sn_count :: u64
  sn_invalid_samples :: u64
  sn_min_ns :: u64
  sn_max_ns :: u64
  sn_mean_ns :: real
  sn_p50_ns :: u64
  sn_p90_ns :: u64
  sn_p99_ns :: u64
  sn_p999_ns :: u64
  sn_p9999_ns :: u64

definition snapshot :: "FloatOps \<Rightarrow> LatencyRecorder \<Rightarrow> Snapshot" where
  "snapshot fo l =
     (let s = \<lparr>sn_count = lr_count l, sn_invalid_samples = lr_invalid_samples l, sn_min_ns = 0, sn_max_ns = 0,
               sn_mean_ns = 0, sn_p50_ns = 0, sn_p90_ns = 0, sn_p99_ns = 0, sn_p999_ns = 0, sn_p9999_ns = 0\<rparr>
      in if lr_count l = 0 then s
         else s\<lparr>sn_min_ns := lr_min_ns l, sn_max_ns := lr_max_ns l, sn_mean_ns := fo_ratio fo (lr_total_ns l) (lr_count l),
                sn_p50_ns := percentile fo l 50, sn_p90_ns := percentile fo l 90, sn_p99_ns := percentile fo l 99,
                sn_p999_ns := percentile fo l (999 / 10), sn_p9999_ns := percentile fo l (9999 / 100)\<rparr>)"

section \<open>The recorder and its samples\<close>

text \<open>A recorder holds the samples of a list: their histogram, number, least and greatest.\<close>

definition in_bucket :: "u64 list \<Rightarrow> nat \<Rightarrow> nat" where
  "in_bucket xs i = length (filter (\<lambda>x. bucketIndex x = i) xs)"

definition holds_samples :: "LatencyRecorder \<Rightarrow> u64 list \<Rightarrow> bool" where
  "holds_samples l xs =
     ((\<forall>i. lr_buckets l i = of_nat (in_bucket xs i)) \<and> lr_count l = of_nat (length xs) \<and>
      lr_min_ns l = foldr min xs u64_max \<and> lr_max_ns l = foldr max xs 0 \<and> lr_total_ns l = sum_list xs)"

lemma new_holds_none: "holds_samples newLatencyRecorder []" "holds_samples (lr_reset l) []"
  by (simp_all add: holds_samples_def newLatencyRecorder_def lr_reset_def in_bucket_def)

lemma repeated_extremes:
  assumes "0 < n"
  shows "(min (x :: u64) ^^ n) y = min x y" "(max (x :: u64) ^^ n) y = max x y"
proof -
  have "(min x ^^ Suc m) y = min x y" "(max x ^^ Suc m) y = max x y" for m
    by (induction m) simp_all
  then show "(min x ^^ n) y = min x y" "(max x ^^ n) y = max x y" using gr0_implies_Suc [OF assms] by auto
qed

lemma record_holds:
  assumes "holds_samples l xs"
  shows "holds_samples (recordDuration l x n) (replicate (unat n) x @ xs)"
proof (cases "n = 0")
  case False
  then have "0 < unat n" by (simp add: unat_gt_0)
  then show ?thesis
    using assms False
    by (simp add: holds_samples_def recordDuration_def Let_def in_bucket_def filter_replicate repeated_extremes sum_list_replicate
          min.commute max.commute mult.commute add.commute)
qed (use assms in \<open>simp add: recordDuration_def\<close>)

text \<open>The samples of a run of calls, the last call first.\<close>

fun run_samples :: "(u64 \<times> u64) list \<Rightarrow> u64 list" where
  "run_samples [] = []"
| "run_samples ((d, n) # calls) = replicate (unat n) d @ run_samples calls"

fun run_records :: "(u64 \<times> u64) list \<Rightarrow> LatencyRecorder" where
  "run_records [] = newLatencyRecorder"
| "run_records ((d, n) # calls) = recordDuration (run_records calls) d n"

lemma run_holds: "holds_samples (run_records calls) (run_samples calls)"
  by (induction calls rule: run_samples.induct) (simp_all add: new_holds_none record_holds)

lemma extremes:
  assumes "xs \<noteq> []"
  shows "foldr min xs u64_max = Min (set xs)" "foldr max xs (0 :: u64) = Max (set xs)"
  using assms
proof (induction xs)
  case (Cons x xs)
  {
    case 1
    have "x \<le> u64_max" using unsigned_less [of x, where 'a = nat] by (simp add: word_le_nat_alt)
    with 1 show ?case using Cons by (cases "xs = []") (simp_all add: min_absorb1)
  next
    case 2
    then show ?case using Cons by (cases "xs = []") (simp_all add: max_def)
  }
qed simp_all

section \<open>Ranks\<close>

lemma bucketIndex_mono: "x \<le> y \<Longrightarrow> bucketIndex x \<le> bucketIndex y"
proof -
  assume "x \<le> y"
  then have le: "unat x \<le> unat y" by (simp add: word_le_nat_alt)
  have "(unat x - k) div d \<le> (unat y - k) div d" for k d using le by (intro div_le_mono) simp
  moreover have "(unat x - 1024) div 16 \<le> 4095" if "unat x < 66560" using that by linarith
  moreover have "(unat x - 66560) div 1024 \<le> 4095" if "unat x < 4260864" using that by linarith
  ultimately show ?thesis unfolding bucketIndex_nat using le by (auto intro: le_trans)
qed

text \<open>How many elements of a list come before the element of a rank, and how many not after it.\<close>

lemma rank_counts:
  fixes f :: "u64 \<Rightarrow> nat"
  assumes "\<And>x y. x \<le> y \<Longrightarrow> f x \<le> f y" "k < length xs"
  defines "v \<equiv> sort xs ! k"
  shows "length (filter (\<lambda>x. f x < f v) xs) \<le> k" "k < length (filter (\<lambda>x. f x \<le> f v) xs)"
proof -
  let ?ys = "sort xs"
  have same: "length (filter P xs) = card {i. i < length xs \<and> P (?ys ! i)}" for P
    using length_filter_conv_card [of P ?ys] by (simp add: filter_sort)
  have mono: "i \<le> j \<Longrightarrow> j < length xs \<Longrightarrow> f (?ys ! i) \<le> f (?ys ! j)" for i j
    using assms(1) sorted_nth_mono [of ?ys i j] by simp
  have "{i. i < length xs \<and> f (?ys ! i) < f v} \<subseteq> {..<k}"
  proof
    fix i
    assume "i \<in> {i. i < length xs \<and> f (?ys ! i) < f v}"
    then show "i \<in> {..<k}" using mono [of k i] by (cases "k \<le> i") (auto simp: v_def)
  qed
  then have "card {i. i < length xs \<and> f (?ys ! i) < f v} \<le> card {..<k}" by (intro card_mono) simp_all
  then show "length (filter (\<lambda>x. f x < f v) xs) \<le> k" unfolding same by simp
  have "{..k} \<subseteq> {i. i < length xs \<and> f (?ys ! i) \<le> f v}" using mono [of _ k] assms(2) by (auto simp: v_def)
  then have "card {..k} \<le> card {i. i < length xs \<and> f (?ys ! i) \<le> f v}" by (intro card_mono) simp_all
  then show "k < length (filter (\<lambda>x. f x \<le> f v) xs)" unfolding same by simp
qed

definition below_bucket :: "u64 list \<Rightarrow> nat \<Rightarrow> nat" where
  "below_bucket xs i = length (filter (\<lambda>x. bucketIndex x < i) xs)"

lemma below_step: "below_bucket xs (Suc i) = below_bucket xs i + in_bucket xs i"
  by (induction xs) (auto simp: below_bucket_def in_bucket_def less_Suc_eq)

lemma below_mono: "i \<le> j \<Longrightarrow> below_bucket xs i \<le> below_bucket xs j"
  by (induction xs) (auto simp: below_bucket_def)

lemma rank_loop_finds:
  assumes l: "holds_samples l xs" and len: "length xs < 2 ^ 64"
    and b: "below_bucket xs b < unat r" "unat r \<le> below_bucket xs (Suc b)"
  shows "i \<le> b \<Longrightarrow> b < i + n \<Longrightarrow>
    rank_loop n l r i (of_nat (below_bucket xs i)) = (if b = kOverflowBucket then lr_max_ns l else bucketUpperBoundNs b)"
proof (induction n arbitrary: i)
  case (Suc n)
  have cum: "of_nat (below_bucket xs i) + lr_buckets l i = (of_nat (below_bucket xs (Suc i)) :: u64)"
    using l by (simp add: holds_samples_def below_step)
  have "below_bucket xs (Suc i) \<le> length xs" by (simp add: below_bucket_def)
  then have u: "unat (of_nat (below_bucket xs (Suc i)) :: u64) = below_bucket xs (Suc i)"
    using len by (simp add: unat_of_nat)
  show ?case
  proof (cases "i = b")
    case True
    then have "of_nat (below_bucket xs (Suc i)) \<ge> r" using b(2) u by (simp add: word_le_nat_alt)
    then show ?thesis using True cum by (simp add: Let_def)
  next
    case False
    then have i: "Suc i \<le> b" "b < Suc i + n" using Suc.prems by simp_all
    then have "\<not> of_nat (below_bucket xs (Suc i)) \<ge> r"
      using b(1) u below_mono [OF i(1), of xs] by (simp add: word_le_nat_alt)
    then show ?thesis using Suc.IH [OF i] cum by (simp add: Let_def)
  qed
qed simp

lemma valueAtRank_bucket:
  assumes l: "holds_samples l xs" and len: "length xs < 2 ^ 64" and r: "0 < unat r" "unat r \<le> length xs"
  defines "v \<equiv> sort xs ! (unat r - 1)"
  shows "valueAtRank l r = (if bucketIndex v = kOverflowBucket then lr_max_ns l else bucketUpperBoundNs (bucketIndex v))"
proof -
  have k: "unat r - 1 < length xs" using r by linarith
  note c = rank_counts [of bucketIndex, OF bucketIndex_mono k, folded v_def]
  have "below_bucket xs (bucketIndex v) < unat r" "unat r \<le> below_bucket xs (Suc (bucketIndex v))"
    using c r(1) by (simp_all add: below_bucket_def less_Suc_eq_le)
  then show ?thesis
    using rank_loop_finds [OF l len _ _ _ _, of "bucketIndex v" r 0 kBucketCount] bucket_in_range [of v]
    by (simp add: valueAtRank_def below_bucket_def)
qed

text \<open>The width of a sample's bucket.\<close>

definition resolution :: "u64 \<Rightarrow> nat" where
  "resolution v = (if unat v < 1024 then 1 else if unat v < 66560 then 16 else 1024)"

lemma bucket_resolution:
  assumes "bucketIndex v \<noteq> kOverflowBucket"
  shows "unat (bucketUpperBoundNs (bucketIndex v)) < unat v + resolution v"
  using assms unfolding bucketUpperBound_nat resolution_def by (auto simp: bucketIndex_nat bucket_constants)

text \<open>C30. The percentiles of a recorder. Whatever was recorded, as long as the number of samples fits its 64-bit counter, and
  whatever rank in range the arithmetic gives, the percentile is not below the sample of that rank in the sorted
  list of samples; it exceeds it by less than the width of its bucket, or is the greatest sample when that sample lies
  beyond the buckets. The ends of the scale are exactly the least and the greatest sample.\<close>
theorem percentile_exact:
  assumes "xs = run_samples calls" "xs \<noteq> []" "length xs < 2 ^ 64"
    and "unat (fo_rank fo (of_nat (length xs)) p) \<le> length xs"
  shows "(p \<le> 0 \<longrightarrow> percentile fo (run_records calls) p = Min (set xs)) \<and>
    (100 \<le> p \<longrightarrow> percentile fo (run_records calls) p = Max (set xs)) \<and>
    (0 < p \<and> p < 100 \<longrightarrow>
      (let v = sort xs ! (unat (max (fo_rank fo (of_nat (length xs)) p) 1) - 1); result = percentile fo (run_records calls) p
       in v \<le> result \<and> (if unat v < 4260864 then unat result < unat v + resolution v else result = Max (set xs))))"
proof -
  let ?l = "run_records calls" and ?r = "max (fo_rank fo (of_nat (length xs)) p) 1"
  have l: "holds_samples ?l xs" using run_holds assms(1) by simp
  have ends: "lr_count ?l = of_nat (length xs)" "lr_min_ns ?l = Min (set xs)" "lr_max_ns ?l = Max (set xs)"
    using l extremes [OF assms(2)] by (simp_all add: holds_samples_def)
  have "unat (of_nat (length xs) :: u64) = length xs" using assms(3) by (simp add: unat_of_nat)
  then have some: "lr_count ?l \<noteq> 0" using assms(2) ends(1) by (metis length_0_conv unat_0)
  have low: "percentile fo ?l p = Min (set xs)" if "p \<le> 0" using that some ends by (simp add: percentile_def)
  have high: "percentile fo ?l p = Max (set xs)" if "100 \<le> p" using that some ends by (simp add: percentile_def)
  have "0 < length xs" using assms(2) by simp
  then have r: "0 < unat ?r" "unat ?r \<le> length xs"
    using assms(4) by (auto simp: max_def word_le_nat_alt unat_gt_0 Suc_le_eq)
  define v where "v = sort xs ! (unat ?r - 1)"
  have "unat ?r - 1 < length xs" using r by linarith
  then have "v \<in> set xs" using nth_mem [of "unat ?r - 1" "sort xs"] by (simp add: v_def)
  then have vmax: "v \<le> Max (set xs)" by simp
  have overflow: "bucketIndex v = kOverflowBucket \<longleftrightarrow> \<not> unat v < 4260864"
    by (auto simp: bucketIndex_nat bucket_constants)
  have mid: "percentile fo ?l p = (if bucketIndex v = kOverflowBucket then Max (set xs) else bucketUpperBoundNs (bucketIndex v))"
    if "0 < p" "p < 100"
    using valueAtRank_bucket [OF l assms(3) r] that some ends by (simp add: percentile_def v_def)
  have "v \<le> percentile fo ?l p \<and>
      (if unat v < 4260864 then unat (percentile fo ?l p) < unat v + resolution v else percentile fo ?l p = Max (set xs))"
    if "0 < p" "p < 100"
    using mid [OF that] bucket_bound [of v] bucket_resolution [of v] vmax overflow by auto
  then show ?thesis using low high unfolding v_def [symmetric] Let_def by blast
qed

definition exact_rank :: FloatOps where
  "exact_rank = \<lparr>fo_rank = (\<lambda>n p. of_nat (nat \<lceil>real (unat n) * (p / 100)\<rceil>)), fo_ratio = (\<lambda>a b. real (unat a) / real (unat b))\<rparr>"

text \<open>The median of three samples, with exact arithmetic.\<close>
theorem percentile_exact_witness:
  "20 \<le> percentile exact_rank (run_records [(10, 1), (20, 1), (2000, 1)]) 50 \<and>
   unat (percentile exact_rank (run_records [(10, 1), (20, 1), (2000, 1)]) 50) < 21"
proof -
  have rank: "fo_rank exact_rank 3 50 = 2" by (simp add: exact_rank_def ceiling_eq_iff)
  have "sort [10 :: u64, 20, 2000] ! 1 = 20" by simp
  then show ?thesis
    using percentile_exact [of "[10, 20, 2000]" "[(10, 1), (20, 1), (2000, 1)]" exact_rank 50] rank
    by (simp add: resolution_def Let_def)
qed

end
