(* ===== verification/StageLatency.thy ===== *)
theory StageLatency
  imports LatencyPercentile
begin

text \<open>
  Model of \<open>Time.cpp\<close> and of \<open>StageLatencyRecorder.cpp\<close>: the calibrated clocks and the latencies of the stages of a
  packet. The readings of a clock are a sequence, one for every call in order. The two conversions in \<open>long double\<close>
  arithmetic, ticks to nanoseconds and the measured frequency, are parameters. The text of a report is output only.
\<close>

section \<open>Clocks\<close>

record TimeCalibration =
  now_ns_overhead_ns :: u64
  rdtsc_overhead_ticks :: u64
  rdtsc_ticks_per_second :: u64

definition kCalibrationSamples :: nat where "kCalibrationSamples = 10000"

definition nowNs :: "int \<Rightarrow> int \<Rightarrow> u64" where
  "nowNs tv_sec tv_nsec = word_of_int tv_sec * 1000000000 + word_of_int tv_nsec"

text \<open>\<open>measureNowNsOverhead\<close> and \<open>measureRdtscOverhead\<close> have the same loop over two consecutive readings.\<close>

fun overhead_loop :: "nat \<Rightarrow> (nat \<Rightarrow> u64) \<Rightarrow> nat \<Rightarrow> u64 \<Rightarrow> u64" where
  "overhead_loop 0 clock i best = best"
| "overhead_loop (Suc n) clock i best =
     (let start = clock i; end0 = clock (i + 1)
      in overhead_loop n clock (i + 2) (if end0 \<ge> start \<and> end0 - start < best then end0 - start else best))"

definition measureOverhead :: "(nat \<Rightarrow> u64) \<Rightarrow> u64" where
  "measureOverhead clock =
     (let best = overhead_loop kCalibrationSamples clock 0 u64_max in if best = u64_max then 0 else best)"

definition measureRdtscFrequency :: "(u64 \<Rightarrow> u64 \<Rightarrow> u64) \<Rightarrow> u64 \<Rightarrow> u64 \<Rightarrow> u64 \<Rightarrow> u64 \<Rightarrow> u64" where
  "measureRdtscFrequency frequency ns_start ticks_start ticks_end ns_end =
     (if ticks_end \<le> ticks_start \<or> ns_end \<le> ns_start then 0
      else frequency (ticks_end - ticks_start) (ns_end - ns_start))"

definition calibrateTime ::
    "(nat \<Rightarrow> u64) \<Rightarrow> (nat \<Rightarrow> u64) \<Rightarrow> (u64 \<Rightarrow> u64 \<Rightarrow> u64) \<Rightarrow> u64 \<times> u64 \<times> u64 \<times> u64 \<Rightarrow> TimeCalibration" where
  "calibrateTime now_clock tsc_clock frequency readings =
     (let (ns_start, ticks_start, ticks_end, ns_end) = readings
      in \<lparr>now_ns_overhead_ns = measureOverhead now_clock, rdtsc_overhead_ticks = measureOverhead tsc_clock,
          rdtsc_ticks_per_second = measureRdtscFrequency frequency ns_start ticks_start ticks_end ns_end\<rparr>)"

definition elapsedNs :: "TimeCalibration \<Rightarrow> u64 \<Rightarrow> u64 \<Rightarrow> u64" where
  "elapsedNs calibration start_ns end_ns =
     (if end_ns < start_ns then 0
      else
        let elapsed = end_ns - start_ns; overhead = now_ns_overhead_ns calibration
        in if elapsed > overhead then elapsed - overhead else 0)"

definition saturatedNsFromTicks :: "(u64 \<Rightarrow> u64 \<Rightarrow> u64) \<Rightarrow> u64 \<Rightarrow> u64 \<Rightarrow> u64" where
  "saturatedNsFromTicks ns_of_ticks ticks ticks_per_second =
     (if ticks_per_second = 0 then ticks else ns_of_ticks ticks ticks_per_second)"

definition elapsedRdtscNs :: "(u64 \<Rightarrow> u64 \<Rightarrow> u64) \<Rightarrow> TimeCalibration \<Rightarrow> u64 \<Rightarrow> u64 \<Rightarrow> u64" where
  "elapsedRdtscNs ns_of_ticks calibration start_ticks end_ticks =
     (if end_ticks < start_ticks then 0
      else
        let elapsed_ticks = end_ticks - start_ticks;
            adjusted_ticks = (if elapsed_ticks > rdtsc_overhead_ticks calibration
                              then elapsed_ticks - rdtsc_overhead_ticks calibration else 0)
        in saturatedNsFromTicks ns_of_ticks adjusted_ticks (rdtsc_ticks_per_second calibration))"

section \<open>Stages\<close>

record DecodeStageTiming =
  mold_parse_ns :: u64
  itch_total_ns :: u64
  book_ns :: u64
  dt_messages :: u64
  dt_book_messages :: u64
  dt_skipped_messages :: u64
  dt_sequenced_packets :: u64
  dt_gap_packets :: u64
  dt_gap_buffered_packets :: u64
  dt_gap_buffer_insert_failed_packets :: u64
  dt_stale_gap_dropped_packets :: u64
  dt_old_packets :: u64

record StageLatencyRecorder =
  sl_total :: LatencyRecorder
  sl_recv_to_decode_start :: LatencyRecorder
  sl_mold_parse :: LatencyRecorder
  sl_itch_parse_state :: LatencyRecorder
  sl_book :: LatencyRecorder
  sl_engine_other :: LatencyRecorder
  sl_packets :: u64
  sl_messages :: u64
  sl_book_messages :: u64
  sl_skipped_messages :: u64
  sl_sequenced_packets :: u64
  sl_gap_packets :: u64
  sl_gap_buffered_packets :: u64
  sl_gap_buffer_insert_failed_packets :: u64
  sl_stale_gap_dropped_packets :: u64
  sl_old_packets :: u64
  sl_itch_parse_state_total_ns :: u64
  sl_book_total_ns :: u64

definition newStageLatencyRecorder :: StageLatencyRecorder where
  "newStageLatencyRecorder =
     \<lparr>sl_total = newLatencyRecorder, sl_recv_to_decode_start = newLatencyRecorder, sl_mold_parse = newLatencyRecorder,
      sl_itch_parse_state = newLatencyRecorder, sl_book = newLatencyRecorder, sl_engine_other = newLatencyRecorder,
      sl_packets = 0, sl_messages = 0, sl_book_messages = 0, sl_skipped_messages = 0, sl_sequenced_packets = 0,
      sl_gap_packets = 0, sl_gap_buffered_packets = 0, sl_gap_buffer_insert_failed_packets = 0,
      sl_stale_gap_dropped_packets = 0, sl_old_packets = 0, sl_itch_parse_state_total_ns = 0, sl_book_total_ns = 0\<rparr>"

definition sl_record ::
    "TimeCalibration \<Rightarrow> StageLatencyRecorder \<Rightarrow> u64 \<Rightarrow> u64 \<Rightarrow> u64 \<Rightarrow> DecodeStageTiming \<Rightarrow> StageLatencyRecorder" where
  "sl_record calibration s recv_done_ns decode_start_ns done_ns timing =
     (let total_ns = (if done_ns \<ge> recv_done_ns then elapsedNs calibration recv_done_ns done_ns else 0);
          recv_to_decode_ns =
            (if decode_start_ns \<ge> recv_done_ns then elapsedNs calibration recv_done_ns decode_start_ns else 0);
          itch_parse_state_ns =
            (if itch_total_ns timing \<ge> book_ns timing then itch_total_ns timing - book_ns timing else 0);
          accounted_ns = recv_to_decode_ns + mold_parse_ns timing + itch_parse_state_ns + book_ns timing
      in s\<lparr>sl_packets := sl_packets s + 1,
           sl_messages := sl_messages s + dt_messages timing,
           sl_book_messages := sl_book_messages s + dt_book_messages timing,
           sl_skipped_messages := sl_skipped_messages s + dt_skipped_messages timing,
           sl_sequenced_packets := sl_sequenced_packets s + dt_sequenced_packets timing,
           sl_gap_packets := sl_gap_packets s + dt_gap_packets timing,
           sl_gap_buffered_packets := sl_gap_buffered_packets s + dt_gap_buffered_packets timing,
           sl_gap_buffer_insert_failed_packets :=
             sl_gap_buffer_insert_failed_packets s + dt_gap_buffer_insert_failed_packets timing,
           sl_stale_gap_dropped_packets := sl_stale_gap_dropped_packets s + dt_stale_gap_dropped_packets timing,
           sl_old_packets := sl_old_packets s + dt_old_packets timing,
           sl_itch_parse_state_total_ns := sl_itch_parse_state_total_ns s + itch_parse_state_ns,
           sl_book_total_ns := sl_book_total_ns s + book_ns timing,
           sl_total := recordOne (sl_total s) total_ns,
           sl_recv_to_decode_start := recordOne (sl_recv_to_decode_start s) recv_to_decode_ns,
           sl_mold_parse := recordOne (sl_mold_parse s) (mold_parse_ns timing),
           sl_itch_parse_state := recordOne (sl_itch_parse_state s) itch_parse_state_ns,
           sl_book := recordOne (sl_book s) (book_ns timing),
           sl_engine_other :=
             recordOne (sl_engine_other s) (if total_ns > accounted_ns then total_ns - accounted_ns else 0)\<rparr>)"

definition sl_reset :: "StageLatencyRecorder \<Rightarrow> StageLatencyRecorder" where
  "sl_reset s =
     s\<lparr>sl_total := lr_reset (sl_total s), sl_recv_to_decode_start := lr_reset (sl_recv_to_decode_start s),
       sl_mold_parse := lr_reset (sl_mold_parse s), sl_itch_parse_state := lr_reset (sl_itch_parse_state s),
       sl_book := lr_reset (sl_book s), sl_engine_other := lr_reset (sl_engine_other s),
       sl_packets := 0, sl_messages := 0, sl_book_messages := 0, sl_skipped_messages := 0, sl_sequenced_packets := 0,
       sl_gap_packets := 0, sl_gap_buffered_packets := 0, sl_gap_buffer_insert_failed_packets := 0,
       sl_stale_gap_dropped_packets := 0, sl_old_packets := 0, sl_itch_parse_state_total_ns := 0, sl_book_total_ns := 0\<rparr>"

section \<open>What the measurements mean\<close>

text \<open>The measured overhead is the least difference of two consecutive readings that do not run backwards.\<close>

lemma overhead_loop_least:
  "overhead_loop n clock i best =
     foldr min (map (\<lambda>k. clock (i + 2 * k + 1) - clock (i + 2 * k))
                  (filter (\<lambda>k. clock (i + 2 * k) \<le> clock (i + 2 * k + 1)) [0..<n])) best"
proof (induction n arbitrary: i best)
  case (Suc n)
  have shift: "[0..<Suc n] = 0 # map Suc [0..<n]" by (simp add: upt_conv_Cons map_Suc_upt del: upt_Suc)
  have commute: "foldr min xs (min x b) = min (x :: u64) (foldr min xs b)" for xs x b
    by (induction xs) (simp_all add: min.left_commute)
  have least: "(if b \<ge> a \<and> b - a < best then b - a else best) = (if a \<le> b then min (b - a) best else best)" for a b :: u64
    by (auto simp: min_def not_less)
  show ?case
    unfolding overhead_loop.simps Let_def Suc.IH least shift
    by (simp add: filter_map comp_def commute)
qed simp

text \<open>A recorder of stages describes as many packets as its counter says: every stage has one sample for each, and the
  reset recorder is the new one.\<close>

definition stages_hold :: "StageLatencyRecorder \<Rightarrow> u64 list list \<Rightarrow> bool" where
  "stages_hold s samples =
     (list_all2 holds_samples
        [sl_total s, sl_recv_to_decode_start s, sl_mold_parse s, sl_itch_parse_state s, sl_book s, sl_engine_other s] samples \<and>
      (\<forall>xs\<in>set samples. sl_packets s = of_nat (length xs)))"

lemma record_one_holds: "holds_samples l xs \<Longrightarrow> holds_samples (recordOne l x) (x # xs)"
  using record_holds [of l xs x 1] by (simp add: recordOne_def)

text \<open>The six durations of a packet.\<close>

definition stage_durations :: "TimeCalibration \<Rightarrow> u64 \<Rightarrow> u64 \<Rightarrow> u64 \<Rightarrow> DecodeStageTiming \<Rightarrow> nat list" where
  "stage_durations calibration recv start done0 timing =
     (let cut = (\<lambda>x y. unat x - unat y);
          total = cut done0 recv - unat (now_ns_overhead_ns calibration);
          stages = [cut start recv - unat (now_ns_overhead_ns calibration), unat (mold_parse_ns timing),
                    cut (itch_total_ns timing) (book_ns timing), unat (book_ns timing)]
      in total # stages @ [total - sum_list stages])"

lemma elapsed_nat: "unat (elapsedNs c a b) = unat b - unat a - unat (now_ns_overhead_ns c)"
proof (cases "a \<le> b")
  case True
  then have "unat (b - a) = unat b - unat a" by (rule unat_sub)
  then show ?thesis
    using True unat_sub [of "now_ns_overhead_ns c" "b - a"]
    by (auto simp: elapsedNs_def Let_def word_less_nat_alt word_le_nat_alt)
qed (simp add: elapsedNs_def word_le_nat_alt word_less_nat_alt)

text \<open>Every packet adds one sample to each stage. The samples are the exact differences, cut off at zero, and as long as
  the stages do not overflow 64 bits the last one is what the stages leave of the total, so that the stages of a
  packet that add up to at most its total account for all of it.\<close>
lemma stage_record_exact:
  assumes "stages_hold s [ts, rs, ms, is, bs, os]"
    and "sum_list (butlast (tl (stage_durations calibration recv start done0 timing))) < 2 ^ 64"
  shows "\<exists>t r m i b x.
    stages_hold (sl_record calibration s recv start done0 timing) [t # ts, r # rs, m # ms, i # is, b # bs, x # os] \<and>
    map unat [t, r, m, i, b, x] = stage_durations calibration recv start done0 timing \<and>
    (unat r + unat m + unat i + unat b \<le> unat t \<longrightarrow> unat r + unat m + unat i + unat b + unat x = unat t)"
proof -
  define t where "t = (if done0 \<ge> recv then elapsedNs calibration recv done0 else 0)"
  define r where "r = (if start \<ge> recv then elapsedNs calibration recv start else 0)"
  define i where "i = (if itch_total_ns timing \<ge> book_ns timing then itch_total_ns timing - book_ns timing else 0)"
  define acc where "acc = r + mold_parse_ns timing + i + book_ns timing"
  define x where "x = (if t > acc then t - acc else 0)"
  let ?o = "unat (now_ns_overhead_ns calibration)"
  have ut: "unat t = unat done0 - unat recv - ?o" "unat r = unat start - unat recv - ?o"
    by (auto simp: t_def r_def elapsed_nat word_le_nat_alt)
  have ui: "unat i = unat (itch_total_ns timing) - unat (book_ns timing)"
    by (auto simp: i_def unat_sub word_le_nat_alt)
  have "unat r + unat (mold_parse_ns timing) + unat i + unat (book_ns timing) < 2 ^ 64"
    using assms(2) by (simp add: stage_durations_def Let_def ut ui)
  then have ua: "unat acc = unat r + unat (mold_parse_ns timing) + unat i + unat (book_ns timing)"
    by (simp add: acc_def unat_word_ariths)
  have ux: "unat x = unat t - unat acc"
    by (auto simp: x_def unat_sub word_le_nat_alt word_less_nat_alt)
  have "stages_hold (sl_record calibration s recv start done0 timing)
      [t # ts, r # rs, mold_parse_ns timing # ms, i # is, book_ns timing # bs, x # os]"
    using assms(1) unfolding sl_record_def t_def [symmetric] r_def [symmetric] i_def [symmetric] Let_def
    unfolding acc_def [symmetric] x_def [symmetric]
    by (auto simp: stages_hold_def record_one_holds)
  moreover have "map unat [t, r, mold_parse_ns timing, i, book_ns timing, x] = stage_durations calibration recv start done0 timing"
    by (simp add: stage_durations_def Let_def ut ui ux ua)
  ultimately show ?thesis using ux ua by (intro exI conjI) auto
qed

lemma new_stages_hold: "stages_hold newStageLatencyRecorder [[], [], [], [], [], []]" "sl_reset s = newStageLatencyRecorder"
  by (simp_all add: stages_hold_def newStageLatencyRecorder_def new_holds_none) (simp add: sl_reset_def lr_reset_def newLatencyRecorder_def)

end
