(* ===== verification/HostServices.thy ===== *)
theory HostServices
  imports Prelude
begin

text \<open>
  Models of \<open>CpuAffinity.cpp\<close>, in its variant for Linux, and of \<open>UdpSender.cpp\<close>: the two services that the engine's and
  the sender's \<open>main\<close> use. The system is a parameter: the reported number of processors, the result of setting the
  affinity of the thread to a set of processors, \<open>inet_pton\<close>, the descriptor of a new socket, and the result
  of \<open>sendto\<close>. An operation returns the affinity or the descriptors that stay open beside its result.
\<close>

section \<open>CPU affinity\<close>

datatype CpuAffinityStatus = AffinityApplied | InvalidCpu | SystemError | Unsupported

record CpuAffinityResult =
  ca_status :: CpuAffinityStatus
  ca_cpu_id :: int
  ca_error_code :: int
  ca_message :: string

definition EINVAL :: int where "EINVAL = 22"
definition CPU_SETSIZE :: nat where "CPU_SETSIZE = 1024"

definition ca_ok :: "CpuAffinityResult \<Rightarrow> bool" where
  "ca_ok r = (ca_status r = AffinityApplied)"

definition availableCpuCount :: "nat \<Rightarrow> nat" where
  "availableCpuCount hardware_concurrency = (if hardware_concurrency = 0 then 1 else hardware_concurrency)"

definition pinCurrentThreadToCpu :: "nat \<Rightarrow> (nat set \<Rightarrow> int) \<Rightarrow> nat set \<Rightarrow> int \<Rightarrow> CpuAffinityResult \<times> nat set" where
  "pinCurrentThreadToCpu hardware_concurrency setaffinity allowed cpu_id =
     (if cpu_id < 0 then
        (\<lparr>ca_status = InvalidCpu, ca_cpu_id = cpu_id, ca_error_code = EINVAL, ca_message = ''cpu_id must be non-negative''\<rparr>, allowed)
      else if nat cpu_id \<ge> availableCpuCount hardware_concurrency then
        (\<lparr>ca_status = InvalidCpu, ca_cpu_id = cpu_id, ca_error_code = EINVAL,
          ca_message = ''cpu_id is outside the visible CPU range''\<rparr>, allowed)
      else if nat cpu_id \<ge> CPU_SETSIZE then
        (\<lparr>ca_status = InvalidCpu, ca_cpu_id = cpu_id, ca_error_code = EINVAL, ca_message = ''cpu_id exceeds CPU_SETSIZE''\<rparr>, allowed)
      else
        let cpuset = {nat cpu_id}; rc = setaffinity cpuset
        in if rc \<noteq> 0 then
             (\<lparr>ca_status = SystemError, ca_cpu_id = cpu_id, ca_error_code = rc, ca_message = ''pthread_setaffinity_np failed''\<rparr>, allowed)
           else (\<lparr>ca_status = AffinityApplied, ca_cpu_id = cpu_id, ca_error_code = 0,
                  ca_message = ''current thread pinned to requested CPU''\<rparr>, cpuset))"

text \<open>The loop over the processors, which ends at the first one that the set cannot hold.\<close>

fun all_cpus :: "nat \<Rightarrow> nat \<Rightarrow> nat set \<Rightarrow> nat set" where
  "all_cpus 0 cpu cpuset = cpuset"
| "all_cpus (Suc n) cpu cpuset = (if cpu < CPU_SETSIZE then all_cpus n (cpu + 1) (insert cpu cpuset) else cpuset)"

definition clearCurrentThreadAffinity :: "nat \<Rightarrow> (nat set \<Rightarrow> int) \<Rightarrow> nat set \<Rightarrow> CpuAffinityResult \<times> nat set" where
  "clearCurrentThreadAffinity hardware_concurrency setaffinity allowed =
     (let cpuset = all_cpus (availableCpuCount hardware_concurrency) 0 {}; rc = setaffinity cpuset
      in if rc \<noteq> 0 then
           (\<lparr>ca_status = SystemError, ca_cpu_id = -1, ca_error_code = rc, ca_message = ''pthread_setaffinity_np failed''\<rparr>, allowed)
         else (\<lparr>ca_status = AffinityApplied, ca_cpu_id = -1, ca_error_code = 0,
                ca_message = ''current thread affinity reset to all known CPUs''\<rparr>, cpuset))"

definition cpuAffinityStatusName :: "CpuAffinityStatus \<Rightarrow> string" where
  "cpuAffinityStatusName status =
     (case status of AffinityApplied \<Rightarrow> ''applied'' | InvalidCpu \<Rightarrow> ''invalid_cpu'' | SystemError \<Rightarrow> ''system_error''
      | Unsupported \<Rightarrow> ''unsupported'')"

lemma all_cpus_set: "all_cpus n cpu S = S \<union> {k. cpu \<le> k \<and> k < cpu + n \<and> k < CPU_SETSIZE}"
proof (induction n arbitrary: cpu S)
  case (Suc n)
  show ?case
  proof (cases "cpu < CPU_SETSIZE")
    case True
    then have "{k. cpu \<le> k \<and> k < cpu + Suc n \<and> k < CPU_SETSIZE} =
        insert cpu {k. cpu + 1 \<le> k \<and> k < cpu + 1 + n \<and> k < CPU_SETSIZE}"
      by (intro set_eqI) (simp, linarith)
    then show ?thesis using True Suc.IH [of "cpu + 1"] by simp
  next
    case False
    then have none: "{k. cpu \<le> k \<and> k < cpu + Suc n \<and> k < CPU_SETSIZE} = {}" by (intro equals0I) simp
    show ?thesis unfolding none using False by simp
  qed
qed auto

text \<open>A reset allows every processor that pinning accepts, and pinning then to one of them narrows the set to it. A call
  that fails leaves the affinity alone.\<close>

lemma affinity_exact:
  "ca_ok (fst (pinCurrentThreadToCpu hc f allowed cpu)) \<longleftrightarrow>
     (0 \<le> cpu \<and> nat cpu \<in> all_cpus (availableCpuCount hc) 0 {} \<and> f {nat cpu} = 0)"
  "snd (pinCurrentThreadToCpu hc f allowed cpu) = (if ca_ok (fst (pinCurrentThreadToCpu hc f allowed cpu)) then {nat cpu} else allowed)"
  "ca_ok (fst (clearCurrentThreadAffinity hc f allowed)) \<Longrightarrow>
     snd (clearCurrentThreadAffinity hc f allowed) = {k. k < availableCpuCount hc \<and> k < CPU_SETSIZE}"
  by (auto simp: pinCurrentThreadToCpu_def clearCurrentThreadAffinity_def ca_ok_def Let_def all_cpus_set split: if_splits)

lemma status_names_distinct: "inj cpuAffinityStatusName"
  by (rule injI) (auto simp: cpuAffinityStatusName_def split: CpuAffinityStatus.splits)

section \<open>UdpSender\<close>

record UdpSender =
  us_fd :: int
  us_port :: u16
  us_address :: u32

datatype UdpSenderError = SenderBadAddress string | NoSocket

text \<open>The constructor and the destructor, with the descriptors they open and close.\<close>

definition newUdpSender :: "(string \<Rightarrow> u32 option) \<Rightarrow> int \<Rightarrow> string \<Rightarrow> u16 \<Rightarrow> (UdpSenderError + UdpSender) \<times> int list" where
  "newUdpSender inet_pton socket ip port =
     (case inet_pton ip of None \<Rightarrow> (Inl (SenderBadAddress ip), [])
      | Some address \<Rightarrow>
          if socket < 0 then (Inl NoSocket, [])
          else (Inr \<lparr>us_fd = socket, us_port = port, us_address = address\<rparr>, [socket]))"

definition destroyUdpSender :: "UdpSender \<Rightarrow> int list" where
  "destroyUdpSender s = (if us_fd s \<ge> 0 then [us_fd s] else [])"

text \<open>A datagram counts as sent when the system took all of it.\<close>

definition udp_send :: "(int \<Rightarrow> u8 list \<Rightarrow> u16 \<Rightarrow> u32 \<Rightarrow> int) \<Rightarrow> UdpSender \<Rightarrow> u8 list \<Rightarrow> bool" where
  "udp_send sendto s data = (sendto (us_fd s) data (us_port s) (us_address s) = int (length data))"

lemma sender_descriptors:
  assumes "newUdpSender inet_pton socket ip port = (r, opened)"
  shows "case r of Inl _ \<Rightarrow> opened = [] | Inr s \<Rightarrow> opened = destroyUdpSender s \<and> inet_pton ip = Some (us_address s) \<and> us_port s = port"
  using assms by (auto simp: newUdpSender_def destroyUdpSender_def split: option.splits if_splits)

end
