(* ===== verification/Spec2Isabelle.thy ===== *)
theory Spec2Isabelle
  imports SenderCorrect RedundantHandoffCorrect EndToEnd DpdkBringup EngineMainCorrect Sha256Vector MappedArrayCorrect StageLatency HostServices
begin

text \<open>
  \<^bold>\<open>The astra feed engine, verified.\<close>

  \<^bold>\<open>The programs.\<close> The engine (\<open>apps/md_engine_main.cpp\<close>) checks its capacity evidence, opens a receiver and runs \<open>MarketDataEngine\<close>.
  A receiver delivers UDP datagrams of a MoldUDP64 session, from one or two sockets or from a DPDK port; the engine polls
  it and hands every datagram to \<open>MoldUdpDecoder\<close>, which checks the session and the framing, applies the ITCH 5.0 messages in
  sequence order through \<open>ItchParser\<close>, and keeps packets that arrive early in a \<open>GapBuffer\<close>. The parser writes the \<open>StockDirectory\<close> and the
  books of the \<open>BookManager\<close>, which routes every order message to the \<open>OrderBook\<close> of its stock locate; the books share one \<open>OrderTable\<close>
  and one \<open>PriceLevelStore\<close>, whose occupancy is kept in \<open>PriceBitmap\<close>s. The replay sender (\<open>apps/itch_moldudp_sender_main.cpp\<close>) reads
  a BinaryFILE through \<open>ItchMoldUdpSource\<close>, and sends it as such a session on one or two lines, with heartbeats, pacing and an
  announced end.

  \<^bold>\<open>How the code is modelled.\<close> Every class is a \<open>record\<close>, every method a function from the state to the result and the new state;
  exceptions and exits are the left side of a sum, a program's \<open>main\<close> is a function from its arguments and its surroundings
  to its exit status. One thread owns the engine, so its model is sequential; the two sending threads of the replay
  sender share a hand-off buffer, whose protocol is an inductive step relation over all interleavings.

  \<^bold>\<open>Theories and sources.\<close>
  \<^item> \<open>Prelude\<close>: the machine integers and the generic lemmas on words, bits and finite orders; \<open>Decimal\<close>: decimal text and
    \<open>std::from_chars\<close>.
  \<^item> \<open>PriceBitmap\<close> (\<open>utils/PriceBitmap.hpp\<close>); \<open>PriceLevelStore\<close> (\<open>book/PriceLevelStore.hpp\<close>, \<open>.cpp\<close>) with its invariant and the two
    ways of keeping it in \<open>PriceLevelInv\<close>, every mutation in \<open>PriceLevelMutation\<close>, the queries in \<open>PriceLevelQuery\<close>, and the view
    of its clients, a ledger of orders by price, in \<open>PriceLedger\<close>.
  \<^item> \<open>BookTypes\<close> (result codes, sides, packed order states); \<open>OrderTable\<close> and \<open>OrderTableIndex\<close> (\<open>book/OrderTable.hpp\<close>, \<open>.cpp\<close>);
    \<open>OrderBook\<close>, \<open>OrderBookInv\<close>, \<open>OrderBookRefine\<close>, \<open>OrderBookCorrect\<close> (\<open>book/OrderBook.hpp\<close>, \<open>.cpp\<close>).
  \<^item> \<open>StockDirectory\<close>, \<open>StockDirectoryIndex\<close> (\<open>symbol/StockDirectory.hpp\<close>); \<open>BookManager\<close>, \<open>BookManagerInv\<close>, \<open>BookManagerCorrect\<close>
    (\<open>book/BookManager.hpp\<close>, \<open>.cpp\<close>); \<open>MappedArray\<close>, \<open>MappedArrayCorrect\<close> (the mapped arenas of \<open>utils/\<close>).
  \<^item> \<open>GapBuffer\<close>, \<open>GapBufferIndex\<close>, \<open>GapBufferCorrect\<close> (\<open>sequencing/GapBuffer.hpp\<close>); \<open>WireFormat\<close>, \<open>WireFormatCorrect\<close> (message
    lengths, big-endian fields, control packets and the sender's schedules under \<open>protocol/\<close>).
  \<^item> \<open>ItchParser\<close> (\<open>parser/ItchParser.cpp\<close>), its specification \<open>ItchFeed\<close>, and \<open>ItchParserRefine\<close>, \<open>ItchParserCorrect\<close>.
  \<^item> \<open>MoldUdpDecoder\<close> (\<open>codec/MoldUdpDecoder.cpp\<close> and the channel state), \<open>MoldUdpPackets\<close>, \<open>MoldUdpDecoderInv\<close>, the
    announced end in \<open>MoldUdpEnd\<close>, streams without a failure in \<open>MoldUdpClean\<close>, \<open>MoldUdpDecoderCorrect\<close>; \<open>MarketDataEngine\<close> (\<open>engine/\<close>).
  \<^item> \<open>PacketSource\<close>: the interface of a source of packets; \<open>UdpReceiver\<close>, \<open>UdpReceiverCorrect\<close>, \<open>UdpReceiverProps\<close>,
    \<open>DualReceiverCorrect\<close> (the plain, batching and two-line receivers of \<open>source/\<close>); \<open>DpdkFrames\<close>, \<open>DpdkFramesCorrect\<close> (the frame parsers),
    \<open>DpdkReceiver\<close>, \<open>DpdkReceiverCorrect\<close>, \<open>DpdkReceiverProps\<close>, \<open>DpdkBringup\<close> (settings, device, bursts and buffers of
    \<open>source/DpdkReceiver.cpp\<close>).
  \<^item> \<open>ItchMoldUdpSource\<close>, \<open>ItchReplay\<close>, \<open>ItchReplayCorrect\<close> (\<open>replay/itch/\<close>); \<open>SenderOptions\<close>, \<open>SenderOptionsCorrect\<close>, \<open>MoldUdpSender\<close>,
    \<open>SenderStream\<close>, \<open>SenderSession\<close>, \<open>SenderProgress\<close>, \<open>SenderCorrect\<close> (the sender's settings, run and exit); \<open>RedundantHandoff\<close>,
    \<open>RedundantHandoffCorrect\<close> (its two threads); \<open>EndToEnd\<close> (sender, lines, receivers and engine together).
  \<^item> \<open>Sha256\<close>, \<open>Sha256Correct\<close>, \<open>Sha256Stream\<close>, \<open>Sha256Vector\<close> (\<open>utils/Sha256.cpp\<close>); \<open>CapacityManifest\<close>, \<open>CapacityManifestCorrect\<close>
    (\<open>book/BookCapacityProfile.cpp\<close>); \<open>EngineMain\<close>, \<open>EngineMainCorrect\<close> (\<open>apps/md_engine_main.cpp\<close>).
  \<^item> \<open>LatencyRecorder\<close>, \<open>LatencyPercentile\<close>, \<open>StageLatency\<close> (\<open>metrics/\<close>, \<open>core/Time.cpp\<close>); \<open>HostServices\<close> (\<open>utils/CpuAffinity.cpp\<close>,
    \<open>source/UdpSender.cpp\<close>).

  \<^bold>\<open>What the theorems show.\<close>
  \<^item> Books: bitmaps implement sets and their searches are exact; the price store keeps its cached bests, counts and
    occupancies consistent under every operation; the order table refines a map with day-unique references; an order
    book refines a map of live orders, and the top of the book and the book update are those of the live orders; the manager
    keeps the books apart and its audits are exact. An order that a book can take is refused only when the candidate slots of its
    reference are used, when it needs a price page and all are committed, or when counters of 32 bits would overflow. An arena owns exactly
    one aligned region, of the planned size, and a failed construction ends with a call that gives all of it back.
  \<^item> Feed: the gap buffer refines a bounded map. The parser refines an event-level specification of the feed. The decoder
    applies, whatever arrives, each sequence number once and in order, waits only for what no packet supplied, returns from
    every call, reaches the same state on redundant lines, and accepts the end of the stream only at the announced
    sequence number and when the session is complete; the engine stops with it. On copies of at most \<open>2 ^ 20\<close> packets of one session, in any order, it does not
    fail and drops nothing as long as the parser accepts the messages.
  \<^item> Receivers: every receiver delivers the datagrams of its lines that fit a packet slot in order and none twice, two lines are merged fairly, drop
    counters are exact beyond their 32 bits, descriptors and packet buffers are released exactly once, and the frame parser of
    the DPDK receiver delivers the payload that the headers describe. The destructor takes back what its calls achieve, and a failed bring-up of the
    device keeps what it had acquired; these are theorems too.
  \<^item> Sender: the source ends a replay exactly as its completion policy says, the packets on the wire form one session, a
    success means that all of it was sent and its end announced, the sender returns, and the two threads together do what one
    thread would. Source, redundant lines, receiver and decoder together: if every packet survives on some line and nothing else arrives, the
    decoder ends in the state of an undisturbed run.
  \<^item> Application: the digest is SHA-256 however a message is cut into updates; a capacity file is accepted exactly when it is
    the canonical text of an admissible manifest with the configured digest; the capacity gate opens only for such a
    manifest that agrees with the environment; and an exit status of success means a complete session without loss, or a storage plan where only
    that was asked for.
  \<^item> Measurements: a percentile is the sample of its rank up to the width of its bucket; the stages of a packet account for
    its total.

  \<^bold>\<open>Interfaces.\<close> What a client needs of a component is a locale that the component interprets: \<open>ordered_bitmap\<close> (the price store on bitmaps),
  \<open>price_ledger\<close> and \<open>price_store\<close> (the books on the price store), \<open>order_index\<close> (the books on the order table), \<open>ticker_directory\<close> (the
  parser on the directory), \<open>packet_buffer\<close> (the decoder on the gap buffer), \<open>message_sink\<close> (the decoder on the parser),
  \<open>packet_source\<close> (the engine on a receiver) and \<open>line_pair\<close> (a two-line receiver on its lines).

  \<^bold>\<open>Bounds, fuel and parameters.\<close> Words keep their width and wrap. Loops over a fixed number of probes recurse over that number
  (\<open>gb_find_loop\<close> over the \<open>2 ^ 20\<close> slots, \<open>candidate_loop\<close> over the searched distances), which is the bound of the source. Loops
  without a bound in the source (\<open>drain_loop\<close>, the waits and the data loop of the sender, prefaulting) are \<open>partial_function\<close>s,
  and their termination is a theorem. Inside the books an arena is a function from index to element, zero where the
  operating system zero-fills. What is not the program's own code is a parameter: a socket is the list of the answers of
  its receive calls, the DPDK library a record of the answers of its calls, the memory calls are \<open>MapCalls\<close>, the environment,
  files, pinning and receivers of the engine's \<open>main\<close> are \<open>Host\<close>, and the sender takes its clock, its sends and \<open>strtod\<close>. The elapsed
  time of a packet, the page size, the size of a book slot and \<open>long double\<close> arithmetic are parameters too.

  \<^bold>\<open>Not modelled.\<close> Text on the standard streams and the reports of the recorders, which are output only; the readings of the
  clocks and the conversions in \<open>long double\<close>, which depend on the machine; the variants for macOS and other systems of the
  affinity and memory calls; signal handlers; socket options whose result the code ignores.
\<close>

end
